(* ===== verification/HoPrelude.thy ===== *)
theory HoPrelude
  imports Main "HOL-Library.Word"
begin

text \<open>
  Shared vocabulary of the HimuOS development: machine integers at their width, the status
  codes of \<^verbatim>\<open>_hobase.h\<close>, the outcome of a kernel routine that may halt the machine, the
  alignment macros and page constants, and the generic lemmas on words, lists and bounded
  counting that the component theories share.
\<close>

unbundle bit_operations_syntax

section \<open>Machine integers\<close>

type_synonym u8 = "8 word"
type_synonym u16 = "16 word"
type_synonym u32 = "32 word"
type_synonym u64 = "64 word"
type_synonym HO_PHYSICAL_ADDRESS = u64
type_synonym HO_VIRTUAL_ADDRESS = u64

named_theorems unat_simps \<open>arithmetic of \<open>unat\<close> where no wrap-around occurs\<close>
named_theorems outcome_simps \<open>unfolding of monadic kernel routines\<close>

section \<open>Status codes (enum \_HIMUOS\_ERROR\_CODE)\<close>

datatype ho_status =
    EC_SUCCESS
  | EC_FAILURE
  | EC_ILLEGAL_ARGUMENT
  | EC_NOT_ENOUGH_MEMORY
  | EC_UNREACHABLE
  | EC_NOT_SUPPORTED
  | EC_OUT_OF_RESOURCE
  | EC_INVALID_STATE
  | EC_UNSUPPORTED_MACHINE
  | EC_TIMEOUT

text \<open>
  A routine with an out parameter yields \<open>Inr v\<close> when it returns \<open>EC_SUCCESS\<close> and has written
  \<open>v\<close>, and \<open>Inl e\<close> when it returns the error \<open>e\<close>.
\<close>

type_synonym 'a result = "ho_status + 'a"

text \<open>
  \<open>HO_KPANIC\<close> and a failed \<open>HO_KASSERT\<close> stop the machine with a status code: \<open>Halt e\<close>. A loop
  that never ends is \<open>Diverge\<close>. An access to an object that has been freed, or a
  \<open>CONTAINING_RECORD\<close> of a header that does not lie in such a record, is undefined in C:
  \<open>Fault\<close>. \<open>Done x\<close> is a routine that returns.
\<close>

datatype 'a outcome = Done 'a | Halt ho_status | Diverge | Fault

fun bind_outcome :: "'a outcome \<Rightarrow> ('a \<Rightarrow> 'b outcome) \<Rightarrow> 'b outcome" where
  "bind_outcome (Done x) f = f x"
| "bind_outcome (Halt e) f = Halt e"
| "bind_outcome Diverge f = Diverge"
| "bind_outcome Fault f = Fault"

definition HO_KASSERT :: "bool \<Rightarrow> ho_status \<Rightarrow> 'a outcome \<Rightarrow> 'a outcome" where
  "HO_KASSERT b e k = (if b then k else Halt e)"

definition deref :: "'a option \<Rightarrow> ('a \<Rightarrow> 'b outcome) \<Rightarrow> 'b outcome" where
  "deref r k = (case r of None \<Rightarrow> Fault | Some x \<Rightarrow> k x)"

lemma deref_simps [simp]: "deref None k = Fault" "deref (Some x) k = k x"
  by (simp_all add: deref_def)

lemma deref_Done_iff [outcome_simps]: "deref r k = Done y \<longleftrightarrow> (\<exists>x. r = Some x \<and> k x = Done y)"
  by (cases r) auto

definition outcome_of_option :: "'a option \<Rightarrow> 'a outcome" where
  "outcome_of_option r = (case r of None \<Rightarrow> Diverge | Some x \<Rightarrow> Done x)"

lemma bind_outcome_Done_iff [outcome_simps]:
  "bind_outcome m f = Done y \<longleftrightarrow> (\<exists>x. m = Done x \<and> f x = Done y)"
  by (cases m) auto

lemma HO_KASSERT_Done_iff [outcome_simps]: "HO_KASSERT b e k = Done y \<longleftrightarrow> b \<and> k = Done y"
  by (simp add: HO_KASSERT_def)

lemma HO_KASSERT_True [simp]: "b \<Longrightarrow> HO_KASSERT b e k = k"
  by (simp add: HO_KASSERT_def)

lemma HO_KASSERT_False [simp]: "\<not> b \<Longrightarrow> HO_KASSERT b e k = Halt e"
  by (simp add: HO_KASSERT_def)

lemma Done_InrE:
  assumes "case m of Done (r, s) \<Rightarrow> \<not> isl r \<and> P s | _ \<Rightarrow> False"
  obtains p s where "m = Done (Inr p, s)" "P s"
proof (cases m)
  case (Done y)
  then show ?thesis using assms that by (cases y; cases "fst y") auto
qed (use assms in auto)

lemma bind_outcome_assoc:
  "bind_outcome (bind_outcome m f) g = bind_outcome m (\<lambda>x. bind_outcome (f x) g)"
  by (cases m) auto

section \<open>Alignment macros and page constants\<close>

definition HO_ALIGN_UP :: "'a::len word \<Rightarrow> 'a word \<Rightarrow> 'a word" where
  "HO_ALIGN_UP value alignment = (value + (alignment - 1)) AND NOT (alignment - 1)"

definition HO_ALIGN_DOWN :: "'a::len word \<Rightarrow> 'a word \<Rightarrow> 'a word" where
  "HO_ALIGN_DOWN value alignment = value AND NOT (alignment - 1)"

definition HO_IS_ALIGNED :: "'a::len word \<Rightarrow> 'a word \<Rightarrow> bool" where
  "HO_IS_ALIGNED addr align \<longleftrightarrow> addr AND (align - 1) = 0"

definition PAGE_4KB :: u64 where "PAGE_4KB = 0x1000"
definition HO_STACK_SIZE :: u64 where "HO_STACK_SIZE = 0x4000"
definition PAGE_2MB :: u64 where "PAGE_2MB = 0x200000"
definition PAGE_1GB :: u64 where "PAGE_1GB = 0x40000000"
definition PAGE_SHIFT :: nat where "PAGE_SHIFT = 12"

section \<open>Words without wrap-around\<close>

lemma unat_add_small [unat_simps]:
  fixes a b :: "'a::len word"
  assumes "unat a + unat b < 2 ^ LENGTH('a)"
  shows "unat (a + b) = unat a + unat b"
  using assms by (simp add: unat_word_ariths)

lemma unat_mult_small [unat_simps]:
  fixes a b :: "'a::len word"
  assumes "unat a * unat b < 2 ^ LENGTH('a)"
  shows "unat (a * b) = unat a * unat b"
  using assms by (simp add: unat_word_ariths)

lemma unat_sub_small [unat_simps]:
  fixes a b :: "'a::len word"
  assumes "unat b \<le> unat a"
  shows "unat (a - b) = unat a - unat b"
  using assms by (simp add: unat_sub word_le_nat_alt)

lemma unat_lt_64 [simp]: "unat (a :: u64) < 18446744073709551616"
  using unsigned_less [of a, where 'a = nat] by simp

lemma unat_eqI: "unat a = unat b \<Longrightarrow> a = b"
  by (rule unsigned_word_eqI)

lemma word_aligned_mod:
  fixes a :: "'a::len word"
  assumes "n < LENGTH('a)"
  shows "a AND (2 ^ n - 1) = 0 \<longleftrightarrow> unat a mod 2 ^ n = 0"
proof -
  have "a AND (2 ^ n - 1) = take_bit n a"
    by (simp add: take_bit_eq_mask mask_eq_decr_exp)
  moreover have "unat (take_bit n a) = unat a mod 2 ^ n"
    by (simp add: unsigned_take_bit_eq take_bit_eq_mod [where 'a = nat])
  ultimately show ?thesis
    by (metis unat_eq_zero unat_0)
qed

lemma is_aligned_4KB_iff: "HO_IS_ALIGNED a PAGE_4KB \<longleftrightarrow> unat a mod 4096 = 0"
  using word_aligned_mod [of 12 a] by (simp add: HO_IS_ALIGNED_def PAGE_4KB_def)

lemma unat_drop_bit: "unat (drop_bit n (a :: 'a::len word)) = unat a div 2 ^ n"
  using unsigned_less [of a, where 'a = nat]
  by (simp add: unsigned_drop_bit_eq drop_bit_eq_div [where 'a = nat] take_bit_nat_eq_self)

section \<open>Indices and counting\<close>

lemma word_of_nat_eq: "a < 2 ^ 64 \<Longrightarrow> b < 2 ^ 64 \<Longrightarrow> (word_of_nat a :: u64) = word_of_nat b \<longleftrightarrow> a = b"
  by (simp add: word_of_nat_eq_iff take_bit_nat_eq_self)

lemma unat_of_nat64 [simp]: "k < 2 ^ 64 \<Longrightarrow> unat (word_of_nat k :: u64) = k"
  by (simp add: unsigned_of_nat take_bit_nat_eq_self)

lemma unat_take_bit: "unat (take_bit n w) = unat w mod 2 ^ n" for w :: "'a::len word"
  unfolding unsigned_take_bit_eq by (simp add: take_bit_eq_mod)

lemma unat_exp: "unat (2 ^ n :: 'a::len word) = 2 ^ n" if "n < LENGTH('a)"
proof -
  have "unat (word_of_nat (2 ^ n) :: 'a word) = 2 ^ n mod 2 ^ LENGTH('a)"
    unfolding unsigned_of_nat by (simp add: take_bit_eq_mod)
  then show ?thesis using that by simp
qed

lemma take_bit_id_word: "take_bit n x = x" if "x < 2 ^ n" "n < LENGTH('a)" for x :: "'a::len word"
  by (rule unat_eqI) (use that in \<open>simp add: unat_take_bit word_less_nat_alt unat_exp\<close>)

lemma take_bit_less_exp_word: "take_bit n x < 2 ^ n" if "n < LENGTH('a)" for x :: "'a::len word"
  using that by (simp add: word_less_nat_alt unat_take_bit unat_exp)

text \<open>Packing two fields into a word: \<open>j\<close> in the low \<open>k\<close> bits, \<open>g\<close> above them.\<close>

lemma packed_low: "take_bit k (push_bit k g OR j) = j" if "j < 2 ^ k" "k < LENGTH('a)" for g j :: "'a::len word"
proof -
  have "take_bit k (push_bit k g) = 0" by (rule bit_eqI) (auto simp: bit_simps)
  then show ?thesis using that by (simp add: take_bit_id_word)
qed

lemma packed_high: "drop_bit k (push_bit k g OR j) = take_bit (LENGTH('a) - k) g"
  if "j < 2 ^ k" "k < LENGTH('a)" for g j :: "'a::len word"
proof -
  have "take_bit k j = j" using that by (rule take_bit_id_word)
  then have "drop_bit k j = 0" by (metis drop_bit_take_bit diff_self_eq_0 take_bit_0)
  moreover have "drop_bit k (push_bit k g) = take_bit (LENGTH('a) - k) g"
    by (rule bit_eqI) (auto simp: bit_simps)
  ultimately show ?thesis by simp
qed

lemma packed_join: "push_bit k (drop_bit k h) OR take_bit k h = h" for h :: "'a::len word"
  by (rule bit_eqI) (auto simp: bit_simps)

lemma all_range_Suc:
  "(\<forall>k. i \<le> k \<and> k < i + Suc n \<longrightarrow> P k) \<longleftrightarrow> P i \<and> (\<forall>k. Suc i \<le> k \<and> k < Suc i + n \<longrightarrow> P k)"
  by (metis Suc_leD Suc_leI add_Suc add_Suc_right le_neq_implies_less less_add_Suc1 order_refl)

text \<open>No multiple of \<open>a\<close> lies between \<open>i\<close> and the next multiple above it.\<close>

lemma next_multiple_gap:
  fixes a i k :: nat
  assumes "0 < a" "i mod a \<noteq> 0" "i \<le> k" "k < i + (a - i mod a)"
  shows "k mod a \<noteq> 0"
proof
  assume "k mod a = 0"
  then obtain q where q: "k = a * q" by blast
  define p where "p = i div a"
  have i: "i = a * p + i mod a" by (simp add: p_def)
  have "i mod a < a" using assms(1) by simp
  have "a * q < a * Suc p" using assms(4) q i \<open>i mod a < a\<close> by (simp add: algebra_simps)
  then have "q < Suc p" using mult_less_cancel1 by blast
  then have "q \<le> p" by simp
  then have "a * q \<le> a * p" by simp
  then show False using assms(2,3) q i by linarith
qed

text \<open>
  Counting the indices below \<open>N\<close> with a given colour, and how recolouring a run of \<open>n\<close> indices
  from \<open>t\<close> to \<open>s\<close> changes the counts.
\<close>

definition count_below :: "nat \<Rightarrow> (nat \<Rightarrow> 'c) \<Rightarrow> 'c \<Rightarrow> nat" where
  "count_below N f c = length (filter (\<lambda>k. f k = c) [0..<N])"

lemma count_below_card: "count_below N f c = card {k. k < N \<and> f k = c}"
  by (auto simp: count_below_def distinct_card [symmetric] intro!: arg_cong [where f = card])

lemma count_below_le: "count_below N f c \<le> N"
  using length_filter_le [of "\<lambda>k. f k = c" "[0..<N]"] by (simp add: count_below_def)

lemma count_below_cong: "(\<And>k. k < N \<Longrightarrow> f k = c \<longleftrightarrow> g k = c) \<Longrightarrow> count_below N f c = count_below N g c"
  by (auto simp: count_below_card intro!: arg_cong [where f = card])

lemma count_below_recolor:
  assumes sub: "i + n \<le> N" and old: "\<And>k. i \<le> k \<Longrightarrow> k < i + n \<Longrightarrow> g k = t" and "s \<noteq> t"
    and new: "\<And>k. k < N \<Longrightarrow> f k = (if i \<le> k \<and> k < i + n then s else g k)"
  shows "count_below N f s = count_below N g s + n"
    and "count_below N g t = count_below N f t + n"
proof -
  have "{k. k < N \<and> f k = s} = {k. k < N \<and> g k = s} \<union> {i..<i + n}"
    and "{k. k < N \<and> g k = t} = {k. k < N \<and> f k = t} \<union> {i..<i + n}"
    using sub \<open>s \<noteq> t\<close> by (auto simp: new intro: old)
  moreover have "{k. k < N \<and> g k = s} \<inter> {i..<i + n} = {}" "{k. k < N \<and> f k = t} \<inter> {i..<i + n} = {}"
    using \<open>s \<noteq> t\<close> by (auto simp: new dest: old)
  ultimately show "count_below N f s = count_below N g s + n"
    and "count_below N g t = count_below N f t + n"
    by (simp_all add: count_below_card card_Un_disjoint)
qed

lemma count_below_other:
  assumes "\<And>k. i \<le> k \<Longrightarrow> k < i + n \<Longrightarrow> g k = t" "c \<noteq> s" "c \<noteq> t"
    and "\<And>k. k < N \<Longrightarrow> f k = (if i \<le> k \<and> k < i + n then s else g k)"
  shows "count_below N f c = count_below N g c"
  using assms by (intro count_below_cong) auto

lemma count_below_Suc: "count_below (Suc n) f c = count_below n f c + (if f n = c then 1 else 0)"
  by (simp add: count_below_def)

section \<open>Runs\<close>

text \<open>
  A machine whose operations are safe to call in any order the callers are entitled to: \<open>legal\<close> is what a
  caller must respect and \<open>inv\<close> what every operation keeps. \<open>legal_run\<close> never presumes that an
  operation returns.
\<close>

primrec run_all :: "('op \<Rightarrow> 's \<Rightarrow> 's outcome) \<Rightarrow> 'op list \<Rightarrow> 's \<Rightarrow> 's outcome" where
  "run_all run [] s = Done s"
| "run_all run (c # cs) s = bind_outcome (run c s) (run_all run cs)"

primrec legal_run :: "('op \<Rightarrow> 's \<Rightarrow> 's outcome) \<Rightarrow> ('op \<Rightarrow> 's \<Rightarrow> bool) \<Rightarrow> 'op list \<Rightarrow> 's \<Rightarrow> bool" where
  "legal_run run legal [] s = True"
| "legal_run run legal (c # cs) s \<longleftrightarrow> legal c s \<and> (case run c s of Done s' \<Rightarrow> legal_run run legal cs s' | _ \<Rightarrow> True)"

locale safe_machine =
  fixes run :: "'op \<Rightarrow> 's \<Rightarrow> 's outcome" and legal :: "'op \<Rightarrow> 's \<Rightarrow> bool" and inv :: "'s \<Rightarrow> bool"
  assumes step: "inv s \<Longrightarrow> legal c s \<Longrightarrow> \<exists>s'. run c s = Done s' \<and> inv s'"
begin

lemma safe_run: "inv s \<Longrightarrow> legal_run run legal cs s \<Longrightarrow> \<exists>s'. run_all run cs s = Done s' \<and> inv s'"
proof (induction cs arbitrary: s)
  case (Cons c cs)
  then obtain s1 where s1: "run c s = Done s1" "inv s1" using step by fastforce
  then show ?case using Cons by simp
qed simp

lemma prefix_safe: "inv s \<Longrightarrow> legal_run run legal (cs @ ds) s \<Longrightarrow>
   \<exists>s'. run_all run cs s = Done s' \<and> inv s' \<and> legal_run run legal ds s'"
proof (induction cs arbitrary: s)
  case (Cons c cs)
  then obtain s1 where s1: "run c s = Done s1" "inv s1" using step by fastforce
  then show ?case using Cons by simp
qed simp

end

end
