(* ===== verification/LinkedList.thy ===== *)
theory LinkedList
  imports HoPrelude
begin

text \<open>
  The intrusive doubly linked circular list of \<^verbatim>\<open>lib/common/linked_list.c\<close>, over an explicit
  heap of \<open>Flink\<close> and \<open>Blink\<close> fields. Every operation is the sequence of pointer assignments
  of the source. The representation predicate \<open>dlist\<close> relates a heap and a list head to the
  sequence of entries; the locale \<open>intrusive_list\<close> is the contract the scheduler's queues rely
  on, and the interpretation at the end discharges it for the pointer code.
\<close>

section \<open>The heap and the operations\<close>

record 'p tag_heap =
  Flink :: "'p \<Rightarrow> 'p"
  Blink :: "'p \<Rightarrow> 'p"

definition set_Flink :: "'p \<Rightarrow> 'p \<Rightarrow> 'p tag_heap \<Rightarrow> 'p tag_heap" where
  "set_Flink p v h = h\<lparr>Flink := (Flink h)(p := v)\<rparr>"

definition set_Blink :: "'p \<Rightarrow> 'p \<Rightarrow> 'p tag_heap \<Rightarrow> 'p tag_heap" where
  "set_Blink p v h = h\<lparr>Blink := (Blink h)(p := v)\<rparr>"

lemma set_link_sel [simp]:
  "Flink (set_Flink p v h) = (Flink h)(p := v)"
  "Blink (set_Flink p v h) = Blink h"
  "Flink (set_Blink p v h) = Flink h"
  "Blink (set_Blink p v h) = (Blink h)(p := v)"
  by (simp_all add: set_Flink_def set_Blink_def)

definition LinkedListInit :: "'p \<Rightarrow> 'p tag_heap \<Rightarrow> 'p tag_heap" where
  "LinkedListInit head h =
     (let h = set_Flink head head h;
          h = set_Blink head head h
      in h)"

definition LinkedListInsertHead :: "'p \<Rightarrow> 'p \<Rightarrow> 'p tag_heap \<Rightarrow> 'p tag_heap" where
  "LinkedListInsertHead head entry h =
     (let h = set_Flink entry (Flink h head) h;
          h = set_Blink entry head h;
          h = set_Blink (Flink h head) entry h;
          h = set_Flink head entry h
      in h)"

definition LinkedListInsertTail :: "'p \<Rightarrow> 'p \<Rightarrow> 'p tag_heap \<Rightarrow> 'p tag_heap" where
  "LinkedListInsertTail head entry h =
     (let h = set_Flink entry head h;
          h = set_Blink entry (Blink h head) h;
          h = set_Flink (Blink h head) entry h;
          h = set_Blink head entry h
      in h)"

definition LinkedListRemove :: "'p \<Rightarrow> 'p tag_heap \<Rightarrow> 'p tag_heap" where
  "LinkedListRemove entry h =
     (let h = set_Flink (Blink h entry) (Flink h entry) h;
          h = set_Blink (Flink h entry) (Blink h entry) h;
          h = set_Flink entry entry h;
          h = set_Blink entry entry h
      in h)"

definition LinkedListIsEmpty :: "'p \<Rightarrow> 'p tag_heap \<Rightarrow> bool" where
  "LinkedListIsEmpty head h \<longleftrightarrow> Flink h head = head"

text \<open>
  The open-coded insertion of \<open>KiInsertTimeoutQueue\<close> before a position \<open>pos\<close> of a list
  (\<^verbatim>\<open>ke/thread/scheduler/timer.c\<close>): the four assignments after its search loop.
\<close>

definition insert_before :: "'p \<Rightarrow> 'p \<Rightarrow> 'p tag_heap \<Rightarrow> 'p tag_heap" where
  "insert_before pos entry h =
     (let h = set_Flink entry pos h;
          h = set_Blink entry (Blink h pos) h;
          h = set_Flink (Blink h pos) entry h;
          h = set_Blink pos entry h
      in h)"

lemma InsertTail_is_insert_before: "LinkedListInsertTail = insert_before"
  by (simp add: fun_eq_iff LinkedListInsertTail_def insert_before_def)

section \<open>Representation\<close>

fun dseg :: "'p tag_heap \<Rightarrow> 'p \<Rightarrow> 'p list \<Rightarrow> 'p \<Rightarrow> bool" where
  "dseg h p [] q \<longleftrightarrow> Flink h p = q \<and> Blink h q = p"
| "dseg h p (x # xs) q \<longleftrightarrow> Flink h p = x \<and> Blink h x = p \<and> dseg h x xs q"

definition dlist :: "'p tag_heap \<Rightarrow> 'p \<Rightarrow> 'p list \<Rightarrow> bool" where
  "dlist h head xs \<longleftrightarrow> distinct (head # xs) \<and> dseg h head xs head"

lemma dseg_append: "dseg h p (xs @ y # ys) q \<longleftrightarrow> dseg h p xs y \<and> dseg h y ys q"
  by (induction xs arbitrary: p) auto

lemma dseg_cong:
  assumes "\<And>x. x \<in> insert p (set xs) \<Longrightarrow> Flink h' x = Flink h x"
    and "\<And>x. x \<in> insert q (set xs) \<Longrightarrow> Blink h' x = Blink h x"
  shows "dseg h' p xs q = dseg h p xs q"
  using assms by (induction xs arbitrary: p) auto

lemma dseg_last: "dseg h p xs q \<Longrightarrow> Blink h q = (if xs = [] then p else last xs)"
  by (induction xs arbitrary: p) auto

lemma dseg_first: "dseg h p xs q \<Longrightarrow> Flink h p = (if xs = [] then q else hd xs)"
  by (cases xs) auto

text \<open>Redirecting the end of a segment from \<open>e\<close> to \<open>q\<close>: only the last forward link changes.\<close>

lemma dseg_retarget:
  assumes "dseg h p xs e" "distinct (p # xs)"
    and "\<And>x. x \<in> set (p # xs) \<Longrightarrow> x \<noteq> last (p # xs) \<Longrightarrow> Flink h' x = Flink h x"
    and "\<And>x. x \<in> set xs \<Longrightarrow> Blink h' x = Blink h x"
    and "Flink h' (last (p # xs)) = q" "Blink h' q = last (p # xs)"
  shows "dseg h' p xs q"
  using assms
proof (induction xs arbitrary: p)
  case Nil
  then show ?case by simp
next
  case (Cons x xs)
  have "p \<noteq> last (x # xs)" using Cons.prems(2) last_in_set [of "x # xs"] by auto
  moreover have "dseg h' x xs q"
    by (rule Cons.IH) (use Cons.prems in auto)
  ultimately show ?case using Cons.prems by simp
qed

lemma dlist_Blink: "dlist h head xs \<Longrightarrow> Blink h head = last (head # xs)"
  by (auto simp: dlist_def dest: dseg_last)

lemma dlist_Flink: "dlist h head xs \<Longrightarrow> Flink h head = hd (xs @ [head])"
  by (auto simp: dlist_def hd_append dest: dseg_first)

lemma last_Cons_in: "last (p # xs) \<in> insert p (set xs)"
  by (metis last_in_set list.distinct(1) list.set(2))

section \<open>Correctness of the operations\<close>

lemma dlist_Init: "dlist (LinkedListInit head h) head []"
  by (simp add: dlist_def LinkedListInit_def)

lemma dlist_IsEmpty: "dlist h head xs \<Longrightarrow> LinkedListIsEmpty head h \<longleftrightarrow> xs = []"
  by (cases xs) (auto simp: LinkedListIsEmpty_def dlist_def)

lemma dlist_insert_before:
  assumes d: "dlist h head (xs @ ys)" and e: "e \<notin> set (head # xs @ ys)"
    and pos: "pos = hd (ys @ [head])"
  shows "dlist (insert_before pos e h) head (xs @ e # ys)"
proof -
  define h' l where "h' = insert_before pos e h" and l: "l = last (head # xs)"
  have front: "dseg h head xs pos" and Bpos: "Blink h pos = l"
    using d pos by (cases ys; auto simp: l dlist_def dseg_append dest: dseg_last)+
  have l_in: "l \<in> insert head (set xs)" unfolding l by (rule last_Cons_in)
  have pos_in: "pos \<in> insert head (set ys)" using pos by (cases ys) auto
  have "pos \<notin> set xs" using d pos_in by (auto simp: dlist_def)
  have fl: "Flink h' = (Flink h)(e := pos, l := e)"
    and bl: "Blink h' = (Blink h)(e := l, pos := e)"
    using e pos_in l_in Bpos by (auto simp: h'_def insert_before_def Let_def)
  have "e \<noteq> l" "e \<noteq> pos" using e l_in pos_in by auto
  have 1: "dseg h' head xs e"
  proof (rule dseg_retarget [OF front, where q = e])
    show "distinct (head # xs)" using d by (auto simp: dlist_def)
  qed (fold l, use e \<open>pos \<notin> set xs\<close> \<open>e \<noteq> l\<close> \<open>e \<noteq> pos\<close> in \<open>auto simp: fl bl\<close>)
  have 2: "dseg h' e ys head"
  proof (cases ys)
    case Nil
    then have "pos = head" using pos by simp
    then show ?thesis using Nil \<open>e \<noteq> l\<close> by (simp add: fl bl)
  next
    case (Cons y ys')
    then have "pos = y" using pos by simp
    have "dseg h y ys' head" using d Cons by (simp add: dlist_def dseg_append)
    then have "dseg h' y ys' head"
      using d e l_in Cons \<open>pos = y\<close>
      by (subst dseg_cong [where h = h]) (auto simp: fl bl dlist_def)
    then show ?thesis using Cons \<open>pos = y\<close> \<open>e \<noteq> l\<close> by (simp add: fl bl)
  qed
  show ?thesis using d e 1 2 by (auto simp: h'_def dlist_def dseg_append)
qed

lemma dlist_InsertTail:
  "dlist h head xs \<Longrightarrow> e \<notin> set (head # xs) \<Longrightarrow> dlist (LinkedListInsertTail head e h) head (xs @ [e])"
  unfolding InsertTail_is_insert_before by (rule dlist_insert_before) auto

lemma InsertHead_is_insert_before:
  assumes "dlist h head xs" "e \<notin> set (head # xs)"
  shows "LinkedListInsertHead head e h = insert_before (Flink h head) e h"
proof -
  have "Blink h (Flink h head) = head" using assms(1) by (cases xs) (auto simp: dlist_def)
  moreover have "Flink h head \<noteq> e" using assms dlist_Flink [OF assms(1)] by (cases xs) auto
  ultimately show ?thesis using assms(2)
    by (auto simp: LinkedListInsertHead_def insert_before_def Let_def set_Flink_def set_Blink_def)
qed

lemma dlist_InsertHead:
  assumes "dlist h head xs" "e \<notin> set (head # xs)"
  shows "dlist (LinkedListInsertHead head e h) head (e # xs)"
  using dlist_insert_before [of h head "[]" xs e] assms dlist_Flink [OF assms(1)]
  by (simp add: InsertHead_is_insert_before)

lemma dlist_Remove:
  assumes d: "dlist h head (xs @ e # ys)"
  shows "dlist (LinkedListRemove e h) head (xs @ ys)" and "dlist (LinkedListRemove e h) e []"
proof -
  let ?h' = "LinkedListRemove e h" and ?l = "last (head # xs)" and ?r = "hd (ys @ [head])"
  have front: "dseg h head xs e" and rest: "dseg h e ys head"
    using d by (auto simp: dlist_def dseg_append)
  have ends: "Blink h e = ?l" "Flink h e = ?r"
    using front rest dseg_last [OF front] dseg_first [OF rest] by (auto simp: hd_append)
  have l_in: "?l \<in> insert head (set xs)" by (rule last_Cons_in)
  have r_in: "?r \<in> insert head (set ys)" by (cases ys) auto
  have ne: "e \<noteq> ?l" "e \<noteq> ?r" "?r \<notin> set xs" using d l_in r_in by (auto simp: dlist_def)
  have fl: "Flink ?h' = (Flink h)(?l := ?r, e := e)"
    and bl: "Blink ?h' = (Blink h)(?r := ?l, e := e)"
    using ne ends by (auto simp: LinkedListRemove_def Let_def)
  show "dlist ?h' e []" by (simp add: dlist_def fl bl)
  have 1: "dseg ?h' head xs ?r"
  proof (rule dseg_retarget [OF front])
    show "distinct (head # xs)" using d by (auto simp: dlist_def)
  qed (use d ne in \<open>auto simp: fl bl dlist_def\<close>)
  show "dlist ?h' head (xs @ ys)"
  proof (cases ys)
    case Nil
    then show ?thesis using d 1 by (simp add: dlist_def)
  next
    case (Cons y ys')
    have "dseg h y ys' head" using rest Cons by simp
    then have "dseg ?h' y ys' head"
      using d l_in Cons by (subst dseg_cong [where h = h]) (auto simp: fl bl dlist_def)
    then show ?thesis using d 1 Cons by (auto simp: dlist_def dseg_append)
  qed
qed

section \<open>Frames: other lists of the same heap\<close>

lemma dlist_frame:
  assumes "dlist h k zs"
    and "\<And>x. x \<in> set (k # zs) \<Longrightarrow> Flink h' x = Flink h x \<and> Blink h' x = Blink h x"
  shows "dlist h' k zs"
  using assms dseg_cong [of k zs h' h k] by (auto simp: dlist_def)

lemma insert_before_frame:
  assumes "x \<noteq> e" "x \<noteq> pos" "x \<noteq> Blink h pos"
  shows "Flink (insert_before pos e h) x = Flink h x \<and> Blink (insert_before pos e h) x = Blink h x"
  using assms by (auto simp: insert_before_def Let_def)

lemma dlist_InsertTail_frame:
  assumes "dlist h k zs" "dlist h head xs" "set (k # zs) \<inter> set (head # xs) = {}" "e \<notin> set (k # zs)"
  shows "dlist (LinkedListInsertTail head e h) k zs"
proof (rule dlist_frame [OF assms(1)])
  fix x assume x: "x \<in> set (k # zs)"
  have "Blink h head \<in> set (head # xs)"
    using dlist_Blink [OF assms(2)] last_Cons_in [of head xs] by auto
  then show "Flink (LinkedListInsertTail head e h) x = Flink h x \<and>
      Blink (LinkedListInsertTail head e h) x = Blink h x"
    unfolding InsertTail_is_insert_before using assms(3,4) x
    by (intro insert_before_frame) auto
qed

lemma dlist_InsertHead_frame:
  assumes "dlist h k zs" "dlist h head xs" "set (k # zs) \<inter> set (head # xs) = {}" "e \<notin> set (k # zs)"
  shows "dlist (LinkedListInsertHead head e h) k zs"
proof (rule dlist_frame [OF assms(1)])
  fix x assume x: "x \<in> set (k # zs)"
  have "Flink h head \<in> set (head # xs)"
    using dlist_Flink [OF assms(2)] by (cases xs) auto
  then show "Flink (LinkedListInsertHead head e h) x = Flink h x \<and>
      Blink (LinkedListInsertHead head e h) x = Blink h x"
    using assms(3,4) x by (auto simp: LinkedListInsertHead_def Let_def)
qed

lemma dlist_Remove_frame:
  assumes "dlist h k zs" "dlist h head (xs @ e # ys)" "set (k # zs) \<inter> set (head # xs @ e # ys) = {}"
  shows "dlist (LinkedListRemove e h) k zs"
proof (rule dlist_frame [OF assms(1)])
  fix x assume x: "x \<in> set (k # zs)"
  have front: "dseg h head xs e" and rest: "dseg h e ys head"
    using assms(2) by (auto simp: dlist_def dseg_append)
  have "Blink h e \<in> set (head # xs)" "Flink h e \<in> set (head # ys)"
    using dseg_last [OF front] dseg_first [OF rest] by (auto split: if_splits)
  then show "Flink (LinkedListRemove e h) x = Flink h x \<and> Blink (LinkedListRemove e h) x = Blink h x"
    using assms(3) x by (auto simp: LinkedListRemove_def Let_def)
qed

section \<open>The contract of an intrusive list\<close>

locale intrusive_list =
  fixes repr :: "'h \<Rightarrow> 'p \<Rightarrow> 'p list \<Rightarrow> bool"
    and init_head :: "'p \<Rightarrow> 'h \<Rightarrow> 'h"
    and ins_head :: "'p \<Rightarrow> 'p \<Rightarrow> 'h \<Rightarrow> 'h"
    and ins_tail :: "'p \<Rightarrow> 'p \<Rightarrow> 'h \<Rightarrow> 'h"
    and rem :: "'p \<Rightarrow> 'h \<Rightarrow> 'h"
    and empty_head :: "'p \<Rightarrow> 'h \<Rightarrow> bool"
    and first :: "'p \<Rightarrow> 'h \<Rightarrow> 'p"
  assumes repr_init: "repr (init_head hd0 h) hd0 []"
    and repr_distinct: "repr h hd0 xs \<Longrightarrow> distinct (hd0 # xs)"
    and repr_ins_head: "repr h hd0 xs \<Longrightarrow> e \<notin> set (hd0 # xs) \<Longrightarrow> repr (ins_head hd0 e h) hd0 (e # xs)"
    and repr_ins_tail: "repr h hd0 xs \<Longrightarrow> e \<notin> set (hd0 # xs) \<Longrightarrow> repr (ins_tail hd0 e h) hd0 (xs @ [e])"
    and repr_rem: "repr h hd0 (xs @ e # ys) \<Longrightarrow> repr (rem e h) hd0 (xs @ ys)"
    and repr_empty: "repr h hd0 xs \<Longrightarrow> empty_head hd0 h \<longleftrightarrow> xs = []"
    and repr_first: "repr h hd0 (x # xs) \<Longrightarrow> first hd0 h = x"
    and frame_ins_tail: "repr h k zs \<Longrightarrow> repr h hd0 xs \<Longrightarrow> set (k # zs) \<inter> set (hd0 # xs) = {} \<Longrightarrow>
      e \<notin> set (k # zs) \<Longrightarrow> repr (ins_tail hd0 e h) k zs"
    and frame_rem: "repr h k zs \<Longrightarrow> repr h hd0 (xs @ e # ys) \<Longrightarrow>
      set (k # zs) \<inter> set (hd0 # xs @ e # ys) = {} \<Longrightarrow> repr (rem e h) k zs"
begin

lemma pop_first:
  assumes "repr h hd0 (x # xs)"
  shows "repr (rem (first hd0 h) h) hd0 xs"
  using repr_rem [of h hd0 "[]" x xs] repr_first [OF assms] assms by simp

text \<open>
  Taking the first entry of one queue and appending it to another, as the scheduler does when
  a wait is completed or a thread is dispatched, moves exactly that entry.
\<close>

lemma move_first_to_tail:
  assumes a: "repr h a (x # xs)" and b: "repr h b ys"
    and disj: "set (a # x # xs) \<inter> set (b # ys) = {}"
  shows "repr (ins_tail b x (rem x h)) a xs \<and> repr (ins_tail b x (rem x h)) b (ys @ [x])"
proof
  have a': "repr (rem x h) a xs"
    using repr_rem [of h a "[]" x xs] a by simp
  have b': "repr (rem x h) b ys"
    using frame_rem [OF b, of a "[]" x xs] a disj by auto
  show "repr (ins_tail b x (rem x h)) b (ys @ [x])"
    using repr_ins_tail [OF b', of x] disj by auto
  show "repr (ins_tail b x (rem x h)) a xs"
    using frame_ins_tail [OF a' b', of x] repr_distinct [OF a] disj by auto
qed

end

interpretation tagl: intrusive_list dlist LinkedListInit LinkedListInsertHead LinkedListInsertTail
  LinkedListRemove LinkedListIsEmpty "\<lambda>p h. Flink h p"
proof unfold_locales
  fix h :: "'a tag_heap" and p xs e ys k zs x
  show "dlist (LinkedListInit p h) p []" by (rule dlist_Init)
  show "dlist h p xs \<Longrightarrow> distinct (p # xs)" by (simp add: dlist_def)
  show "dlist h p xs \<Longrightarrow> e \<notin> set (p # xs) \<Longrightarrow> dlist (LinkedListInsertHead p e h) p (e # xs)"
    by (rule dlist_InsertHead)
  show "dlist h p xs \<Longrightarrow> e \<notin> set (p # xs) \<Longrightarrow> dlist (LinkedListInsertTail p e h) p (xs @ [e])"
    by (rule dlist_InsertTail)
  show "dlist h p (xs @ e # ys) \<Longrightarrow> dlist (LinkedListRemove e h) p (xs @ ys)"
    by (rule dlist_Remove)
  show "dlist h p xs \<Longrightarrow> LinkedListIsEmpty p h \<longleftrightarrow> xs = []" by (rule dlist_IsEmpty)
  show "dlist h p (x # xs) \<Longrightarrow> Flink h p = x" by (simp add: dlist_def)
  show "dlist h k zs \<Longrightarrow> dlist h p xs \<Longrightarrow> set (k # zs) \<inter> set (p # xs) = {} \<Longrightarrow>
      e \<notin> set (k # zs) \<Longrightarrow> dlist (LinkedListInsertTail p e h) k zs"
    by (rule dlist_InsertTail_frame)
  show "dlist h k zs \<Longrightarrow> dlist h p (xs @ e # ys) \<Longrightarrow>
      set (k # zs) \<inter> set (p # xs @ e # ys) = {} \<Longrightarrow> dlist (LinkedListRemove e h) k zs"
    by (rule dlist_Remove_frame)
qed

section \<open>The sorted timeout queue\<close>

text \<open>
  \<open>KiInsertTimeoutQueue\<close> walks the queue until it meets a later deadline and inserts before it.
  The walk is a loop over the heap; \<open>None\<close> would be a walk that never comes back to the head.
\<close>

partial_function (option) find_timeout_pos ::
    "'p tag_heap \<Rightarrow> ('p \<Rightarrow> u64) \<Rightarrow> 'p \<Rightarrow> u64 \<Rightarrow> 'p \<Rightarrow> 'p option" where
  "find_timeout_pos h deadline head d pos =
     (if pos = head then Some pos
      else if deadline pos > d then Some pos
      else find_timeout_pos h deadline head d (Flink h pos))"

definition KiInsertTimeoutQueue ::
    "('p \<Rightarrow> u64) \<Rightarrow> 'p \<Rightarrow> 'p \<Rightarrow> 'p tag_heap \<Rightarrow> 'p tag_heap option" where
  "KiInsertTimeoutQueue deadline head block h =
     (case find_timeout_pos h deadline head (deadline block) (Flink h head) of
        None \<Rightarrow> None
      | Some pos \<Rightarrow> Some (insert_before pos block h))"

fun timeout_insert :: "('p \<Rightarrow> u64) \<Rightarrow> 'p \<Rightarrow> 'p list \<Rightarrow> 'p list" where
  "timeout_insert deadline e [] = [e]"
| "timeout_insert deadline e (x # xs) =
     (if deadline x > deadline e then e # x # xs else x # timeout_insert deadline e xs)"

lemma find_timeout_pos_seg:
  assumes "dseg h p xs head" "head \<notin> set xs"
  shows "find_timeout_pos h deadline head d (Flink h p) =
    Some (hd (dropWhile (\<lambda>x. deadline x \<le> d) xs @ [head]))"
  using assms
proof (induction xs arbitrary: p)
  case Nil
  then show ?case by (simp add: find_timeout_pos.simps)
next
  case (Cons x xs)
  then show ?case by (auto simp: find_timeout_pos.simps [of _ _ _ _ x] not_less)
qed

lemma timeout_insert_split:
  "timeout_insert deadline e xs =
    takeWhile (\<lambda>x. deadline x \<le> deadline e) xs @ e # dropWhile (\<lambda>x. deadline x \<le> deadline e) xs"
  by (induction xs) auto

lemma set_timeout_insert [simp]: "set (timeout_insert deadline e xs) = insert e (set xs)"
  by (induction xs) auto

lemma distinct_timeout_insert: "distinct xs \<Longrightarrow> e \<notin> set xs \<Longrightarrow> distinct (timeout_insert deadline e xs)"
  by (induction xs) auto

lemma sorted_timeout_insert:
  "sorted (map deadline xs) \<Longrightarrow> sorted (map deadline (timeout_insert deadline e xs))"
  by (induction xs) auto

lemma KiInsertTimeoutQueue_dlist:
  assumes "dlist h head xs" "e \<notin> set (head # xs)"
  shows "\<exists>h'. KiInsertTimeoutQueue deadline head e h = Some h' \<and>
    dlist h' head (timeout_insert deadline e xs)"
proof -
  let ?P = "\<lambda>x. deadline x \<le> deadline e"
  have "dlist (insert_before (hd (dropWhile ?P xs @ [head])) e h) head
      (takeWhile ?P xs @ e # dropWhile ?P xs)"
    by (rule dlist_insert_before) (use assms in simp_all)
  then show ?thesis
    using assms find_timeout_pos_seg [of h head xs head deadline "deadline e"]
    by (simp add: KiInsertTimeoutQueue_def dlist_def timeout_insert_split)
qed

end
