(* ===== verification/PmmBitmap.thy ===== *)
theory PmmBitmap
  imports HoPrelude
begin

text \<open>
  The bitmap back end of the physical memory manager, \<^verbatim>\<open>ke/pmm/bitmap_sink.c\<close>: two bits per page
  packed four to a byte, the first-fit allocator, free, reserve, statistics and the
  self-check. The bitmap is the memory behind the \<open>Bitmap\<close> pointer, a total function on byte
  offsets, so a read or write beyond the managed pages is visible in the model.
\<close>

section \<open>State\<close>

text \<open>
  \<open>KE_PMM_PAGE_STATE\<close>; the cast from two bits can also yield the pattern 3, which no enumerator
  has and which only the \<open>default\<close> branch of \<open>BitmapCheckInvariants\<close> meets.
\<close>

datatype KE_PMM_PAGE_STATE = PMM_PAGE_FREE | PMM_PAGE_ALLOCATED | PMM_PAGE_RESERVED | PMM_PAGE_BITS3

fun page_state_bits :: "KE_PMM_PAGE_STATE \<Rightarrow> u8" where
  "page_state_bits PMM_PAGE_FREE = 0"
| "page_state_bits PMM_PAGE_ALLOCATED = 1"
| "page_state_bits PMM_PAGE_RESERVED = 2"
| "page_state_bits PMM_PAGE_BITS3 = 3"

definition page_state_of_bits :: "u8 \<Rightarrow> KE_PMM_PAGE_STATE" where
  "page_state_of_bits b =
     (if b = 0 then PMM_PAGE_FREE else if b = 1 then PMM_PAGE_ALLOCATED
      else if b = 2 then PMM_PAGE_RESERVED else PMM_PAGE_BITS3)"

record KE_PMM_BITMAP_CONTEXT =
  Bitmap :: "u64 \<Rightarrow> u8"
  ManagedBasePhys :: HO_PHYSICAL_ADDRESS
  TotalManagedPages :: u64
  FreePages :: u64
  AllocatedPages :: u64
  ReservedPages :: u64

record KE_PMM_ALLOC_CONSTRAINTS =
  MaxPhysAddr :: HO_PHYSICAL_ADDRESS
  AlignmentPages :: u64

record KE_PMM_STATS =
  TotalBytes :: u64
  FreeBytes :: u64
  AllocatedBytes :: u64
  ReservedBytes :: u64

section \<open>Two-bit helpers\<close>

definition BitmapGetState :: "KE_PMM_BITMAP_CONTEXT \<Rightarrow> u64 \<Rightarrow> KE_PMM_PAGE_STATE" where
  "BitmapGetState ctx pageIndex =
     (let byteIdx = drop_bit 2 pageIndex;
          bitOff = push_bit 1 (pageIndex AND 0x3)
      in page_state_of_bits (drop_bit (unat bitOff) (Bitmap ctx byteIdx) AND 0x3))"

definition BitmapSetState ::
    "KE_PMM_BITMAP_CONTEXT \<Rightarrow> u64 \<Rightarrow> KE_PMM_PAGE_STATE \<Rightarrow> KE_PMM_BITMAP_CONTEXT" where
  "BitmapSetState ctx pageIndex state =
     (let byteIdx = drop_bit 2 pageIndex;
          bitOff = push_bit 1 (pageIndex AND 0x3);
          byte = (Bitmap ctx byteIdx AND NOT (push_bit (unat bitOff) 0x3))
                 OR push_bit (unat bitOff) (page_state_bits state)
      in ctx\<lparr>Bitmap := (Bitmap ctx)(byteIdx := byte)\<rparr>)"

text \<open>\<open>BitmapSetRange\<close> and \<open>BitmapCheckRange\<close>: the loop index \<open>i\<close> runs over the remaining count.\<close>

fun BitmapSetRangeFrom ::
    "KE_PMM_BITMAP_CONTEXT \<Rightarrow> u64 \<Rightarrow> nat \<Rightarrow> KE_PMM_PAGE_STATE \<Rightarrow> KE_PMM_BITMAP_CONTEXT" where
  "BitmapSetRangeFrom ctx idx 0 state = ctx"
| "BitmapSetRangeFrom ctx idx (Suc n) state =
     BitmapSetRangeFrom (BitmapSetState ctx idx state) (idx + 1) n state"

definition BitmapSetRange ::
    "KE_PMM_BITMAP_CONTEXT \<Rightarrow> u64 \<Rightarrow> u64 \<Rightarrow> KE_PMM_PAGE_STATE \<Rightarrow> KE_PMM_BITMAP_CONTEXT" where
  "BitmapSetRange ctx startIndex count state = BitmapSetRangeFrom ctx startIndex (unat count) state"

fun BitmapCheckRangeFrom ::
    "KE_PMM_BITMAP_CONTEXT \<Rightarrow> u64 \<Rightarrow> nat \<Rightarrow> KE_PMM_PAGE_STATE \<Rightarrow> bool" where
  "BitmapCheckRangeFrom ctx idx 0 expectedState = True"
| "BitmapCheckRangeFrom ctx idx (Suc n) expectedState =
     (if BitmapGetState ctx idx \<noteq> expectedState then False
      else BitmapCheckRangeFrom ctx (idx + 1) n expectedState)"

definition BitmapCheckRange ::
    "KE_PMM_BITMAP_CONTEXT \<Rightarrow> u64 \<Rightarrow> u64 \<Rightarrow> KE_PMM_PAGE_STATE \<Rightarrow> bool" where
  "BitmapCheckRange ctx startIndex count expectedState =
     BitmapCheckRangeFrom ctx startIndex (unat count) expectedState"

section \<open>Sink operations\<close>

text \<open>
  The inner \<open>for\<close> of the allocator: the offset of the first page of the run that is not free,
  or \<open>None\<close> when all \<open>n\<close> remaining pages are (the variable \<open>found\<close>).
\<close>

fun first_nonfree :: "KE_PMM_BITMAP_CONTEXT \<Rightarrow> u64 \<Rightarrow> u64 \<Rightarrow> nat \<Rightarrow> u64 option" where
  "first_nonfree ctx i j 0 = None"
| "first_nonfree ctx i j (Suc n) =
     (if BitmapGetState ctx (i + j) \<noteq> PMM_PAGE_FREE then Some j
      else first_nonfree ctx i (j + 1) n)"

text \<open>
  The \<open>while\<close> of the allocator. \<open>Some (Some i)\<close> is a run found at \<open>i\<close>, \<open>Some None\<close> the loop
  leaving without one, \<open>None\<close> a loop that never leaves (the index arithmetic wraps).
\<close>

partial_function (option) first_fit ::
    "KE_PMM_BITMAP_CONTEXT \<Rightarrow> u64 \<Rightarrow> u64 \<Rightarrow> u64 \<Rightarrow> u64 \<Rightarrow> u64 option option" where
  "first_fit ctx count alignPages maxPageIndex i =
     (if i + count \<le> maxPageIndex then
        (if alignPages > 1 \<and> i mod alignPages \<noteq> 0
         then first_fit ctx count alignPages maxPageIndex (i + (alignPages - i mod alignPages))
         else (case first_nonfree ctx i 0 (unat count) of
                 None \<Rightarrow> Some (Some i)
               | Some j \<Rightarrow> first_fit ctx count alignPages maxPageIndex (i + j + 1)))
      else Some None)"

declare first_fit.simps [code]

text \<open>
  The treatment of the optional constraints: the alignment in pages and the exclusive upper
  page index, or the status with which the allocator returns early.
\<close>

definition alloc_window ::
    "KE_PMM_BITMAP_CONTEXT \<Rightarrow> KE_PMM_ALLOC_CONSTRAINTS option \<Rightarrow> (u64 \<times> u64) result" where
  "alloc_window ctx constraints =
     (case constraints of
        None \<Rightarrow> Inr (1, TotalManagedPages ctx)
      | Some c \<Rightarrow>
          if AlignmentPages c > 1 \<and> AlignmentPages c AND (AlignmentPages c - 1) \<noteq> 0
          then Inl EC_ILLEGAL_ARGUMENT
          else
            let alignPages = (if AlignmentPages c > 1 then AlignmentPages c else 1) in
            if MaxPhysAddr c \<noteq> 0 then
              (if MaxPhysAddr c < ManagedBasePhys ctx then Inl EC_NOT_ENOUGH_MEMORY
               else let limit = drop_bit PAGE_SHIFT (MaxPhysAddr c - ManagedBasePhys ctx + 1)
                    in Inr (alignPages,
                            if limit < TotalManagedPages ctx then limit else TotalManagedPages ctx))
            else Inr (alignPages, TotalManagedPages ctx))"

definition BitmapAllocPages ::
    "KE_PMM_BITMAP_CONTEXT \<Rightarrow> u64 \<Rightarrow> KE_PMM_ALLOC_CONSTRAINTS option \<Rightarrow>
     (HO_PHYSICAL_ADDRESS result \<times> KE_PMM_BITMAP_CONTEXT) outcome" where
  "BitmapAllocPages ctx count constraints =
     (if count = 0 then Done (Inl EC_ILLEGAL_ARGUMENT, ctx)
      else case alloc_window ctx constraints of
        Inl e \<Rightarrow> Done (Inl e, ctx)
      | Inr (alignPages, maxPageIndex) \<Rightarrow>
          if count > maxPageIndex then Done (Inl EC_NOT_ENOUGH_MEMORY, ctx)
          else case first_fit ctx count alignPages maxPageIndex 0 of
            None \<Rightarrow> Diverge
          | Some None \<Rightarrow> Done (Inl EC_NOT_ENOUGH_MEMORY, ctx)
          | Some (Some i) \<Rightarrow>
              let ctx = BitmapSetRange ctx i count PMM_PAGE_ALLOCATED;
                  ctx = ctx\<lparr>FreePages := FreePages ctx - count\<rparr>;
                  ctx = ctx\<lparr>AllocatedPages := AllocatedPages ctx + count\<rparr>
              in Done (Inr (ManagedBasePhys ctx + i * PAGE_4KB), ctx))"

text \<open>
  The argument checks that \<open>BitmapFreePages\<close> and \<open>BitmapReservePages\<close> share, up to the start
  index of the range.
\<close>

definition range_start ::
    "KE_PMM_BITMAP_CONTEXT \<Rightarrow> HO_PHYSICAL_ADDRESS \<Rightarrow> u64 \<Rightarrow> u64 result" where
  "range_start ctx basePhys count =
     (if count = 0 then Inl EC_ILLEGAL_ARGUMENT
      else if \<not> HO_IS_ALIGNED basePhys PAGE_4KB then Inl EC_ILLEGAL_ARGUMENT
      else if basePhys < ManagedBasePhys ctx then Inl EC_ILLEGAL_ARGUMENT
      else let startIndex = drop_bit PAGE_SHIFT (basePhys - ManagedBasePhys ctx) in
        if startIndex + count > TotalManagedPages ctx then Inl EC_ILLEGAL_ARGUMENT
        else Inr startIndex)"

definition BitmapFreePages ::
    "KE_PMM_BITMAP_CONTEXT \<Rightarrow> HO_PHYSICAL_ADDRESS \<Rightarrow> u64 \<Rightarrow> ho_status \<times> KE_PMM_BITMAP_CONTEXT" where
  "BitmapFreePages ctx basePhys count =
     (case range_start ctx basePhys count of
        Inl e \<Rightarrow> (e, ctx)
      | Inr startIndex \<Rightarrow>
          if \<not> BitmapCheckRange ctx startIndex count PMM_PAGE_ALLOCATED then (EC_INVALID_STATE, ctx)
          else
            let ctx = BitmapSetRange ctx startIndex count PMM_PAGE_FREE;
                ctx = ctx\<lparr>AllocatedPages := AllocatedPages ctx - count\<rparr>;
                ctx = ctx\<lparr>FreePages := FreePages ctx + count\<rparr>
            in (EC_SUCCESS, ctx))"

definition BitmapReservePages ::
    "KE_PMM_BITMAP_CONTEXT \<Rightarrow> HO_PHYSICAL_ADDRESS \<Rightarrow> u64 \<Rightarrow> ho_status \<times> KE_PMM_BITMAP_CONTEXT" where
  "BitmapReservePages ctx basePhys count =
     (case range_start ctx basePhys count of
        Inl e \<Rightarrow> (e, ctx)
      | Inr startIndex \<Rightarrow>
          if \<not> BitmapCheckRange ctx startIndex count PMM_PAGE_FREE then (EC_INVALID_STATE, ctx)
          else
            let ctx = BitmapSetRange ctx startIndex count PMM_PAGE_RESERVED;
                ctx = ctx\<lparr>FreePages := FreePages ctx - count\<rparr>;
                ctx = ctx\<lparr>ReservedPages := ReservedPages ctx + count\<rparr>
            in (EC_SUCCESS, ctx))"

definition BitmapQueryStats :: "KE_PMM_BITMAP_CONTEXT \<Rightarrow> KE_PMM_STATS" where
  "BitmapQueryStats ctx =
     \<lparr>TotalBytes = TotalManagedPages ctx * PAGE_4KB,
      FreeBytes = FreePages ctx * PAGE_4KB,
      AllocatedBytes = AllocatedPages ctx * PAGE_4KB,
      ReservedBytes = ReservedPages ctx * PAGE_4KB\<rparr>"

text \<open>
  The counting loop of \<open>BitmapCheckInvariants\<close>; \<open>None\<close> is its early return on the pattern 3.
\<close>

fun count_states ::
    "KE_PMM_BITMAP_CONTEXT \<Rightarrow> u64 \<Rightarrow> nat \<Rightarrow> u64 \<times> u64 \<times> u64 \<Rightarrow> (u64 \<times> u64 \<times> u64) option" where
  "count_states ctx i 0 acc = Some acc"
| "count_states ctx i (Suc n) (countFree, countAlloc, countReserved) =
     (case BitmapGetState ctx i of
        PMM_PAGE_FREE \<Rightarrow> count_states ctx (i + 1) n (countFree + 1, countAlloc, countReserved)
      | PMM_PAGE_ALLOCATED \<Rightarrow> count_states ctx (i + 1) n (countFree, countAlloc + 1, countReserved)
      | PMM_PAGE_RESERVED \<Rightarrow> count_states ctx (i + 1) n (countFree, countAlloc, countReserved + 1)
      | PMM_PAGE_BITS3 \<Rightarrow> None)"

definition BitmapCheckInvariants :: "KE_PMM_BITMAP_CONTEXT \<Rightarrow> ho_status" where
  "BitmapCheckInvariants ctx =
     (case count_states ctx 0 (unat (TotalManagedPages ctx)) (0, 0, 0) of
        None \<Rightarrow> EC_INVALID_STATE
      | Some (countFree, countAlloc, countReserved) \<Rightarrow>
          if countFree \<noteq> FreePages ctx \<or> countAlloc \<noteq> AllocatedPages ctx
             \<or> countReserved \<noteq> ReservedPages ctx then EC_INVALID_STATE
          else if countFree + countAlloc + countReserved \<noteq> TotalManagedPages ctx then EC_INVALID_STATE
          else EC_SUCCESS)"

text \<open>
  \<open>KePmmBitmapSinkInit\<close>, for non-null \<open>ctx\<close> and \<open>bitmap\<close> (a null pointer is the argument
  \<open>None\<close>).
\<close>

definition KePmmBitmapSinkInit ::
    "KE_PMM_BITMAP_CONTEXT option \<Rightarrow> (u64 \<Rightarrow> u8) option \<Rightarrow> HO_PHYSICAL_ADDRESS \<Rightarrow> u64 \<Rightarrow>
     ho_status \<times> KE_PMM_BITMAP_CONTEXT option" where
  "KePmmBitmapSinkInit ctx bitmap managedBasePhys totalManagedPages =
     (case (ctx, bitmap) of
        (Some c, Some b) \<Rightarrow>
          if totalManagedPages = 0 then (EC_ILLEGAL_ARGUMENT, ctx)
          else (EC_SUCCESS,
            Some (c\<lparr>Bitmap := b, ManagedBasePhys := managedBasePhys,
                    TotalManagedPages := totalManagedPages,
                    FreePages := 0, AllocatedPages := 0, ReservedPages := 0\<rparr>))
      | _ \<Rightarrow> (EC_ILLEGAL_ARGUMENT, ctx))"

section \<open>Reading back what was written\<close>

lemma page_state_of_bits_inverse [simp]: "page_state_of_bits (page_state_bits s) = s"
  by (cases s) (simp_all add: page_state_of_bits_def)

lemma page_state_bits_small: "page_state_bits s AND 3 = page_state_bits s"
  by (cases s) simp_all

lemma bit_offset: "unat (push_bit 1 (i AND 3) :: u64) = 2 * (unat i mod 4)"
proof -
  have "(i AND 3) = take_bit 2 i" by (simp add: take_bit_eq_mask mask_eq_decr_exp)
  then have "unat (i AND 3) = unat i mod 4" by (simp add: unsigned_take_bit_eq take_bit_eq_mod [where 'a=nat])
  moreover have "unat (push_bit 1 (i AND 3)) = 2 * unat (i AND 3)"
    using calculation by (simp add: push_bit_eq_mult unat_word_ariths)
  ultimately show ?thesis by simp
qed

lemma two_bits_update:
  fixes b s :: u8
  assumes "s AND 3 = s" "p < 4" "q < 4"
  shows "drop_bit (2 * q) ((b AND NOT (push_bit (2 * p) 3)) OR push_bit (2 * p) s) AND 3
    = (if p = q then s else drop_bit (2 * q) b AND 3)"
proof -
  have m: "(3 :: u8) = mask 2" by (simp add: mask_eq_decr_exp)
  have s: "bit s n \<Longrightarrow> n < 2" for n
    using assms(1) unfolding m by (metis bit_and_iff bit_mask_iff)
  show ?thesis
    unfolding m using assms(2,3)
    by (intro bit_word_eqI) (auto simp: bit_simps dest: s)
qed

lemma index_split: "drop_bit 2 i = drop_bit 2 j \<and> unat i mod 4 = unat j mod 4 \<longleftrightarrow> i = (j :: u64)"
proof
  assume "drop_bit 2 i = drop_bit 2 j \<and> unat i mod 4 = unat j mod 4"
  then have "unat i div 4 = unat j div 4" "unat i mod 4 = unat j mod 4"
    using unat_drop_bit [of 2 i] unat_drop_bit [of 2 j] by auto
  then have "unat i = unat j" by (metis div_mod_decomp)
  then show "i = j" by (rule unsigned_word_eqI)
qed simp

lemma get_set_state [simp]:
  "BitmapGetState (BitmapSetState ctx i s) j = (if i = j then s else BitmapGetState ctx j)"
proof (cases "drop_bit 2 i = drop_bit 2 j")
  case True
  have "i = j \<longleftrightarrow> unat i mod 4 = unat j mod 4" using True index_split by blast
  then show ?thesis
    using True two_bits_update [OF page_state_bits_small [of s], where p = "unat i mod 4"
        and q = "unat j mod 4" and b = "Bitmap ctx (drop_bit 2 j)"]
    unfolding BitmapGetState_def BitmapSetState_def Let_def bit_offset by simp
next
  case False
  then show ?thesis by (auto simp: BitmapGetState_def BitmapSetState_def Let_def)
qed

text \<open>The state of page \<open>k\<close>, indexed by natural numbers.\<close>

definition pg :: "KE_PMM_BITMAP_CONTEXT \<Rightarrow> nat \<Rightarrow> KE_PMM_PAGE_STATE" where
  "pg ctx k = BitmapGetState ctx (word_of_nat k)"

lemma set_range_frame [simp]:
  "ManagedBasePhys (BitmapSetRangeFrom ctx i n s) = ManagedBasePhys ctx"
  "TotalManagedPages (BitmapSetRangeFrom ctx i n s) = TotalManagedPages ctx"
  "FreePages (BitmapSetRangeFrom ctx i n s) = FreePages ctx"
  "AllocatedPages (BitmapSetRangeFrom ctx i n s) = AllocatedPages ctx"
  "ReservedPages (BitmapSetRangeFrom ctx i n s) = ReservedPages ctx"
  by (induction ctx i n s rule: BitmapSetRangeFrom.induct) (simp_all add: BitmapSetState_def Let_def)


lemma range_steps:
  "BitmapSetRangeFrom ctx (word_of_nat i) (Suc n) s =
    BitmapSetRangeFrom (BitmapSetState ctx (word_of_nat i) s) (word_of_nat (Suc i)) n s"
  "BitmapCheckRangeFrom ctx (word_of_nat i) (Suc n) s \<longleftrightarrow>
    pg ctx i = s \<and> BitmapCheckRangeFrom ctx (word_of_nat (Suc i)) n s"
  "first_nonfree ctx (word_of_nat i) (word_of_nat j) (Suc n) =
    (if pg ctx (i + j) \<noteq> PMM_PAGE_FREE then Some (word_of_nat j)
     else first_nonfree ctx (word_of_nat i) (word_of_nat (Suc j)) n)"
  by (simp_all add: pg_def add.commute)

lemma get_set_range_from:
  "i + n \<le> 2 ^ 64 \<Longrightarrow> k < 2 ^ 64 \<Longrightarrow>
   pg (BitmapSetRangeFrom ctx (word_of_nat i) n s) k = (if i \<le> k \<and> k < i + n then s else pg ctx k)"
proof (induction n arbitrary: i ctx)
  case 0
  then show ?case by auto
next
  case (Suc n)
  have "pg (BitmapSetState ctx (word_of_nat i) s) k = (if k = i then s else pg ctx k)"
    using Suc.prems by (auto simp: pg_def word_of_nat_eq)
  then show ?case
    using Suc.IH [of "Suc i" "BitmapSetState ctx (word_of_nat i) s"] Suc.prems
    unfolding range_steps by auto
qed

lemma check_range_from:
  "BitmapCheckRangeFrom ctx (word_of_nat i) n s \<longleftrightarrow> (\<forall>k. i \<le> k \<and> k < i + n \<longrightarrow> pg ctx k = s)"
proof (induction n arbitrary: i)
  case (Suc n)
  show ?case unfolding range_steps all_range_Suc Suc.IH ..
qed auto

lemma first_nonfree_None:
  "first_nonfree ctx (word_of_nat i) (word_of_nat j) n = None \<longleftrightarrow>
   (\<forall>k. j \<le> k \<and> k < j + n \<longrightarrow> pg ctx (i + k) = PMM_PAGE_FREE)"
proof (induction n arbitrary: j)
  case (Suc n)
  show ?case unfolding range_steps all_range_Suc using Suc.IH [of "Suc j"] by simp
qed auto

lemma first_nonfree_Some:
  "first_nonfree ctx (word_of_nat i) (word_of_nat j) n = Some r \<Longrightarrow>
   \<exists>k. j \<le> k \<and> k < j + n \<and> r = word_of_nat k \<and> pg ctx (i + k) \<noteq> PMM_PAGE_FREE"
proof (induction n arbitrary: j)
  case (Suc n)
  show ?case
  proof (cases "pg ctx (i + j) = PMM_PAGE_FREE")
    case True
    then obtain k where "Suc j \<le> k" "k < Suc j + n" "r = word_of_nat k" "pg ctx (i + k) \<noteq> PMM_PAGE_FREE"
      using Suc.IH [of "Suc j"] Suc.prems unfolding range_steps by auto
    then show ?thesis by (intro exI [of _ k]) auto
  next
    case False
    then show ?thesis using Suc.prems unfolding range_steps by (intro exI [of _ j]) auto
  qed
qed simp

section \<open>First fit\<close>

definition fits :: "KE_PMM_BITMAP_CONTEXT \<Rightarrow> nat \<Rightarrow> nat \<Rightarrow> nat \<Rightarrow> nat \<Rightarrow> bool" where
  "fits ctx count align lim i \<longleftrightarrow> i mod align = 0 \<and> i + count \<le> lim \<and>
     (\<forall>k. i \<le> k \<and> k < i + count \<longrightarrow> pg ctx k = PMM_PAGE_FREE)"

lemma first_fit_correct:
  assumes cnt: "0 < unat count" and al: "0 < unat align" "unat align \<le> 2 ^ 63"
    and mx: "unat lim \<le> 2 ^ 52" "unat count \<le> unat lim"
    and below: "\<forall>k<i. \<not> fits ctx (unat count) (unat align) (unat lim) k"
    and bound: "i + unat count < 2 ^ 64"
  shows "first_fit ctx count align lim (word_of_nat i) =
    (if \<exists>k. fits ctx (unat count) (unat align) (unat lim) k
     then Some (Some (word_of_nat (LEAST k. fits ctx (unat count) (unat align) (unat lim) k)))
     else Some None)"
  using below bound
proof (induction "2 ^ 64 - i" arbitrary: i rule: less_induct)
  case less
  let ?F = "fits ctx (unat count) (unat align) (unat lim)"
  let ?R = "if \<exists>k. ?F k then Some (Some (word_of_nat (LEAST k. ?F k))) else Some None"
  have i64: "i < 2 ^ 64" using less.prems by simp
  have guard: "word_of_nat i + count \<le> lim \<longleftrightarrow> i + unat count \<le> unat lim"
    using less.prems by (simp add: word_le_nat_alt unat_add_small)
  have md: "word_of_nat i mod align = (word_of_nat (i mod unat align) :: u64)"
    using i64 by (metis word_arith_nat_mod unat_of_nat64)
  have mod64: "i mod unat align < 2 ^ 64"
    using mod_less_eq_dividend i64 by (rule le_less_trans)
  have aligned: "word_of_nat i mod align = 0 \<longleftrightarrow> i mod unat align = 0"
    unfolding md using word_of_nat_eq [of "i mod unat align" 0] mod64 by simp
  have gt1: "align > 1 \<longleftrightarrow> unat align > 1" by (simp add: word_less_nat_alt)
  show ?case
  proof (cases "i + unat count \<le> unat lim")
    case False
    have "\<not> ?F k" for k using less.prems(1) False by (cases "k < i") (auto simp: fits_def)
    then show ?thesis using False guard by (simp add: first_fit.simps [of _ _ _ _ "word_of_nat i"])
  next
    case True
    show ?thesis
    proof (cases "i mod unat align = 0")
      case False
      then have "1 < unat align" using al(1) by (cases "unat align = 1") auto
      let ?i' = "i + (unat align - i mod unat align)"
      have sub: "align - word_of_nat i mod align = word_of_nat (unat align - i mod unat align)"
        using al(1) mod64 unfolding md
        by (intro unsigned_word_eqI)
          (simp add: unat_sub_small mod_less_divisor less_imp_le unsigned_of_nat take_bit_nat_eq_self)
      have "first_fit ctx count align lim (word_of_nat i) =
          first_fit ctx count align lim (word_of_nat i + (align - word_of_nat i mod align))"
        using True guard aligned gt1 False \<open>1 < unat align\<close>
        by (simp add: first_fit.simps [of _ _ _ _ "word_of_nat i"])
      then have rec: "first_fit ctx count align lim (word_of_nat i) = first_fit ctx count align lim (word_of_nat ?i')"
        unfolding sub by (simp only: of_nat_add)
      have "\<not> ?F k" if "k < ?i'" for k
        using less.prems(1) next_multiple_gap [OF al(1) False, of k] that
        by (cases "k < i") (auto simp: fits_def)
      moreover have "?i' + unat count < 2 ^ 64" using al True mx by simp
      moreover have "i < ?i'" using al(1) mod_less_divisor [of "unat align" i] by linarith
      ultimately show ?thesis unfolding rec using i64
        by (intro less.hyps) auto
    next
      case al0: True
      show ?thesis
      proof (cases "first_nonfree ctx (word_of_nat i) 0 (unat count)")
        case None
        then have "\<forall>k. k < unat count \<longrightarrow> pg ctx (i + k) = PMM_PAGE_FREE"
          using first_nonfree_None [of ctx i 0 "unat count"] by simp
        then have "\<forall>k. i \<le> k \<and> k < i + unat count \<longrightarrow> pg ctx k = PMM_PAGE_FREE"
          by (metis add_less_cancel_left le_add_diff_inverse)
        then have F: "?F i" using True al0 by (simp add: fits_def)
        moreover have "(LEAST k. ?F k) = i"
          using F less.prems(1) by (intro Least_equality) (auto simp: not_less [symmetric])
        ultimately show ?thesis using None True guard aligned al0
          by (auto simp: first_fit.simps [of _ _ _ _ "word_of_nat i"])
      next
        case (Some r)
        then obtain j where j: "j < unat count" "r = word_of_nat j" "pg ctx (i + j) \<noteq> PMM_PAGE_FREE"
          using first_nonfree_Some [of ctx i 0 "unat count" r] by auto
        let ?i' = "i + j + 1"
        have rec: "first_fit ctx count align lim (word_of_nat i) = first_fit ctx count align lim (word_of_nat ?i')"
          using True guard aligned al0 Some j(2)
          by (simp add: first_fit.simps [of _ _ _ _ "word_of_nat i"] add.commute add.left_commute)
        have "\<not> ?F k" if "k < ?i'" for k
        proof (cases "k < i")
          case False
          then have "k \<le> i + j" "i + j < k + unat count" using that j(1) by auto
          then show ?thesis using j(3) by (auto simp: fits_def)
        qed (use less.prems(1) in auto)
        moreover have "?i' + unat count < 2 ^ 64" using j(1) True mx by simp
        ultimately show ?thesis unfolding rec using i64
          by (intro less.hyps) auto
      qed
    qed
  qed
qed

section \<open>Invariant\<close>

definition npages :: "KE_PMM_BITMAP_CONTEXT \<Rightarrow> nat" where
  "npages ctx = unat (TotalManagedPages ctx)"

definition pmm_inv :: "KE_PMM_BITMAP_CONTEXT \<Rightarrow> bool" where
  "pmm_inv ctx \<longleftrightarrow>
     unat (ManagedBasePhys ctx) mod 4096 = 0 \<and>
     unat (ManagedBasePhys ctx) + npages ctx * 4096 \<le> 2 ^ 64 \<and>
     (\<forall>k<npages ctx. pg ctx k \<noteq> PMM_PAGE_BITS3) \<and>
     unat (FreePages ctx) = count_below (npages ctx) (pg ctx) PMM_PAGE_FREE \<and>
     unat (AllocatedPages ctx) = count_below (npages ctx) (pg ctx) PMM_PAGE_ALLOCATED \<and>
     unat (ReservedPages ctx) = count_below (npages ctx) (pg ctx) PMM_PAGE_RESERVED"

lemma pmm_inv_npages: "pmm_inv ctx \<Longrightarrow> npages ctx \<le> 2 ^ 52"
  by (simp add: pmm_inv_def)

lemma pg_fields [simp]:
  "pg (ctx\<lparr>FreePages := a\<rparr>) = pg ctx" "pg (ctx\<lparr>AllocatedPages := a\<rparr>) = pg ctx"
  "pg (ctx\<lparr>ReservedPages := a\<rparr>) = pg ctx"
  "npages (ctx\<lparr>FreePages := a\<rparr>) = npages ctx" "npages (ctx\<lparr>AllocatedPages := a\<rparr>) = npages ctx"
  "npages (ctx\<lparr>ReservedPages := a\<rparr>) = npages ctx"
  by (simp_all add: pg_def BitmapGetState_def npages_def fun_eq_iff)

lemma npages_set_range [simp]: "npages (BitmapSetRange ctx i c s) = npages ctx"
  by (simp add: npages_def BitmapSetRange_def)

lemma set_range_fields [simp]:
  "ManagedBasePhys (BitmapSetRange ctx i c s) = ManagedBasePhys ctx"
  "TotalManagedPages (BitmapSetRange ctx i c s) = TotalManagedPages ctx"
  "FreePages (BitmapSetRange ctx i c s) = FreePages ctx"
  "AllocatedPages (BitmapSetRange ctx i c s) = AllocatedPages ctx"
  "ReservedPages (BitmapSetRange ctx i c s) = ReservedPages ctx"
  by (simp_all add: BitmapSetRange_def)

lemma pg_set_range:
  assumes "i + unat count \<le> 2 ^ 64" "k < 2 ^ 64"
  shows "pg (BitmapSetRange ctx (word_of_nat i) count s) k =
    (if i \<le> k \<and> k < i + unat count then s else pg ctx k)"
  using get_set_range_from [OF assms] by (simp add: BitmapSetRange_def)

text \<open>
  Moving a run of pages from one state to another and the count with it keeps the invariant:
  the one lemma behind alloc, free and reserve.
\<close>

lemma pmm_inv_move:
  assumes inv: "pmm_inv ctx" and run: "i + unat count \<le> npages ctx"
    and old: "\<And>k. i \<le> k \<Longrightarrow> k < i + unat count \<Longrightarrow> pg ctx k = t"
    and new: "\<And>k. k < npages ctx \<Longrightarrow> pg ctx' k = (if i \<le> k \<and> k < i + unat count then s else pg ctx k)"
    and same: "ManagedBasePhys ctx' = ManagedBasePhys ctx" "TotalManagedPages ctx' = TotalManagedPages ctx"
    and s: "s \<noteq> PMM_PAGE_BITS3" "s \<noteq> t"
    and cnt: "\<And>c f. (c, f) \<in> {(PMM_PAGE_FREE, FreePages), (PMM_PAGE_ALLOCATED, AllocatedPages), (PMM_PAGE_RESERVED, ReservedPages)} \<Longrightarrow>
      f ctx' = (if c = s then f ctx + count else if c = t then f ctx - count else f ctx)"
  shows "pmm_inv ctx'"
proof -
  let ?N = "npages ctx"
  have N: "npages ctx' = ?N" by (simp add: npages_def same)
  have N52: "?N \<le> 2 ^ 52" using inv by (rule pmm_inv_npages)
  have rec: "count_below ?N (pg ctx') s = count_below ?N (pg ctx) s + unat count"
    "count_below ?N (pg ctx) t = count_below ?N (pg ctx') t + unat count"
    using count_below_recolor [OF run old s(2) new] by blast+
  have oth: "count_below ?N (pg ctx') c = count_below ?N (pg ctx) c" if "c \<noteq> s" "c \<noteq> t" for c
    using count_below_other [OF old that new] by blast
  have le: "count_below ?N (pg ctx') c \<le> 2 ^ 52" for c
    using count_below_le N52 by (rule order_trans)
  have upd: "unat (f ctx') = count_below ?N (pg ctx') c"
    if "(c, f) \<in> {(PMM_PAGE_FREE, FreePages), (PMM_PAGE_ALLOCATED, AllocatedPages), (PMM_PAGE_RESERVED, ReservedPages)}" for c f
  proof -
    have f0: "unat (f ctx) = count_below ?N (pg ctx) c" using inv that by (auto simp: pmm_inv_def)
    show ?thesis
    proof (cases "c = s")
      case True
      have "unat (f ctx) + unat count < 2 ^ LENGTH(64)" using f0 rec(1) True le [of s] by simp
      then show ?thesis using cnt [OF that] True f0 rec(1) unat_add_small [of "f ctx" count] by simp
    next
      case False
      show ?thesis
      proof (cases "c = t")
        case True
        have "unat count \<le> unat (f ctx)" using f0 rec(2) True by simp
        then show ?thesis using cnt [OF that] True False f0 rec(2) unat_sub_small [of count "f ctx"] s(2) by simp
      next
        case ct: False
        then show ?thesis using cnt [OF that] False f0 oth by simp
      qed
    qed
  qed
  have "\<forall>k<?N. pg ctx' k \<noteq> PMM_PAGE_BITS3" using inv new s by (auto simp: pmm_inv_def)
  then show ?thesis using inv upd by (auto simp: pmm_inv_def N same)
qed

section \<open>Allocation implements first fit\<close>

text \<open>
  The scan as a function: the window of the request, and in it the least run that fits. The last section
  states the allocator's contract without the window computation and the marking loop.
\<close>

definition first_run :: "KE_PMM_BITMAP_CONTEXT \<Rightarrow> nat \<Rightarrow> nat \<Rightarrow> nat \<Rightarrow> nat option" where
  "first_run ctx count align lim =
     (if \<exists>i. fits ctx count align lim i then Some (LEAST i. fits ctx count align lim i) else None)"

definition mark_allocated :: "KE_PMM_BITMAP_CONTEXT \<Rightarrow> nat \<Rightarrow> u64 \<Rightarrow> KE_PMM_BITMAP_CONTEXT" where
  "mark_allocated ctx i count =
     (BitmapSetRange ctx (word_of_nat i) count PMM_PAGE_ALLOCATED)
       \<lparr>FreePages := FreePages ctx - count, AllocatedPages := AllocatedPages ctx + count\<rparr>"

definition alloc_spec ::
    "KE_PMM_BITMAP_CONTEXT \<Rightarrow> u64 \<Rightarrow> KE_PMM_ALLOC_CONSTRAINTS option \<Rightarrow>
     HO_PHYSICAL_ADDRESS result \<times> KE_PMM_BITMAP_CONTEXT" where
  "alloc_spec ctx count constraints =
     (if count = 0 then (Inl EC_ILLEGAL_ARGUMENT, ctx)
      else case alloc_window ctx constraints of
        Inl e \<Rightarrow> (Inl e, ctx)
      | Inr (alignPages, maxPageIndex) \<Rightarrow>
          (case first_run ctx (unat count) (unat alignPages) (unat maxPageIndex) of
             None \<Rightarrow> (Inl EC_NOT_ENOUGH_MEMORY, ctx)
           | Some i \<Rightarrow> (Inr (ManagedBasePhys ctx + word_of_nat i * PAGE_4KB), mark_allocated ctx i count)))"

lemma power_of_two_bound:
  fixes a :: u64
  assumes "a AND (a - 1) = 0" "1 < a"
  shows "unat a \<le> 2 ^ 63"
proof (rule ccontr)
  assume "\<not> unat a \<le> 2 ^ 63"
  then have a: "2 ^ 63 < unat a" by simp
  have b63: "bit (x :: u64) 63" if "2 ^ 63 \<le> unat x" for x
  proof -
    have "unat x div 2 ^ 63 = 1" using that unat_lt_64 [of x] by (intro div_nat_eqI) simp_all
    then have "bit (unat x) 63" by (simp add: bit_iff_odd)
    then show ?thesis by (simp add: bit_unsigned_iff)
  qed
  have "unat (a - 1) = unat a - 1" using assms(2) by (simp add: unat_sub_small word_less_nat_alt)
  then have "bit (a - 1) 63" using a by (intro b63) simp
  moreover have "bit a 63" using a by (intro b63) simp
  ultimately have "bit (a AND (a - 1)) 63" by (simp add: bit_and_iff)
  then show False using assms(1) by simp
qed

lemma alloc_window_bounds:
  assumes "alloc_window ctx cs = Inr (a, m)"
  shows "0 < unat a" "unat a \<le> 2 ^ 63" "unat m \<le> npages ctx"
proof -
  have "0 < unat a \<and> unat a \<le> 2 ^ 63 \<and> unat m \<le> npages ctx"
    using assms power_of_two_bound
    by (auto simp: alloc_window_def Let_def npages_def word_less_nat_alt split: option.splits if_splits)
  then show "0 < unat a" "unat a \<le> 2 ^ 63" "unat m \<le> npages ctx" by auto
qed

lemma BitmapAllocPages_spec:
  assumes "pmm_inv ctx"
  shows "BitmapAllocPages ctx count cs = Done (alloc_spec ctx count cs)"
proof (cases "count = 0")
  case True
  then show ?thesis by (simp add: BitmapAllocPages_def alloc_spec_def)
next
  case False
  show ?thesis
  proof (cases "alloc_window ctx cs")
    case (Inl e)
    then show ?thesis using False by (simp add: BitmapAllocPages_def alloc_spec_def)
  next
    case (Inr w)
    obtain a m where w: "alloc_window ctx cs = Inr (a, m)" using Inr by (cases w) auto
    let ?F = "fits ctx (unat count) (unat a) (unat m)"
    show ?thesis
    proof (cases "count > m")
      case True
      then have "\<not> ?F k" for k by (auto simp: fits_def word_less_nat_alt)
      then show ?thesis using True False w
        by (simp add: BitmapAllocPages_def alloc_spec_def first_run_def)
    next
      case le: False
      have m52: "unat m \<le> 2 ^ 52"
        using alloc_window_bounds(3) [OF w] pmm_inv_npages [OF assms] by (rule order_trans)
      have "first_fit ctx count a m (word_of_nat 0) =
          (if \<exists>k. ?F k then Some (Some (word_of_nat (LEAST k. ?F k))) else Some None)"
        using False le m52 alloc_window_bounds [OF w]
        by (intro first_fit_correct) (auto simp: unat_gt_0 word_le_nat_alt not_less)
      then show ?thesis using False le w
        by (auto simp: BitmapAllocPages_def alloc_spec_def first_run_def mark_allocated_def Let_def)
    qed
  qed
qed

lemma first_run_Some:
  assumes "first_run ctx c a m = Some i"
  shows "fits ctx c a m i" and "\<And>j. fits ctx c a m j \<Longrightarrow> i \<le> j"
  using assms by (auto simp: first_run_def split: if_splits intro: LeastI Least_le)

lemma alloc_spec_Inr:
  assumes "alloc_spec ctx count cs = (Inr base, ctx')"
  shows "\<exists>a m i. alloc_window ctx cs = Inr (a, m) \<and> count \<noteq> 0 \<and>
    first_run ctx (unat count) (unat a) (unat m) = Some i \<and>
    base = ManagedBasePhys ctx + word_of_nat i * PAGE_4KB \<and> ctx' = mark_allocated ctx i count"
  using assms by (auto simp: alloc_spec_def split: if_splits sum.splits option.splits)

lemma alloc_spec_Inl: "alloc_spec ctx count cs = (Inl e, ctx') \<Longrightarrow> ctx' = ctx"
  by (auto simp: alloc_spec_def split: if_splits sum.splits option.splits)

lemma pg_mark_allocated:
  assumes "i + unat count \<le> 2 ^ 52" "k < 2 ^ 64"
  shows "pg (mark_allocated ctx i count) k =
    (if i \<le> k \<and> k < i + unat count then PMM_PAGE_ALLOCATED else pg ctx k)"
  using assms by (simp add: mark_allocated_def pg_set_range)

lemma pmm_inv_mark_allocated:
  assumes inv: "pmm_inv ctx" and run: "i + unat count \<le> npages ctx"
    and free: "\<And>k. i \<le> k \<Longrightarrow> k < i + unat count \<Longrightarrow> pg ctx k = PMM_PAGE_FREE"
  shows "pmm_inv (mark_allocated ctx i count)"
proof (rule pmm_inv_move [OF inv run free, where s = PMM_PAGE_ALLOCATED])
  fix k assume "k < npages ctx"
  then show "pg (mark_allocated ctx i count) k =
      (if i \<le> k \<and> k < i + unat count then PMM_PAGE_ALLOCATED else pg ctx k)"
    using run pmm_inv_npages [OF inv] by (intro pg_mark_allocated) auto
qed (auto simp: mark_allocated_def)

text \<open>Physical addresses of managed pages.\<close>

definition page_addr :: "KE_PMM_BITMAP_CONTEXT \<Rightarrow> nat \<Rightarrow> HO_PHYSICAL_ADDRESS" where
  "page_addr ctx k = ManagedBasePhys ctx + word_of_nat k * PAGE_4KB"

lemma unat_page_addr:
  assumes "pmm_inv ctx" "k < npages ctx"
  shows "unat (page_addr ctx k) = unat (ManagedBasePhys ctx) + k * 4096"
proof -
  have b: "unat (ManagedBasePhys ctx) + k * 4096 < 2 ^ 64"
    using assms by (simp add: pmm_inv_def)
  then have k: "k < 2 ^ 64" and p: "unat (word_of_nat k * PAGE_4KB :: u64) = k * 4096"
    by (simp_all add: PAGE_4KB_def unat_mult_small)
  show ?thesis unfolding page_addr_def
    by (subst unat_add_small) (use b p in simp_all)
qed

lemma page_addr_index:
  assumes "pmm_inv ctx" "k < npages ctx"
  shows "drop_bit PAGE_SHIFT (page_addr ctx k - ManagedBasePhys ctx) = word_of_nat k"
proof -
  have "page_addr ctx k - ManagedBasePhys ctx = word_of_nat k * PAGE_4KB" by (simp add: page_addr_def)
  moreover have k: "k < 2 ^ 52" using assms pmm_inv_npages [OF assms(1)] by simp
  ultimately have "unat (drop_bit PAGE_SHIFT (page_addr ctx k - ManagedBasePhys ctx)) = k"
    by (simp add: unat_drop_bit PAGE_SHIFT_def PAGE_4KB_def unat_mult_small)
  then show ?thesis using k by (intro unat_eqI) simp
qed

lemma page_addr_inj:
  assumes "pmm_inv ctx" "i < npages ctx" "j < npages ctx"
  shows "page_addr ctx i = page_addr ctx j \<longleftrightarrow> i = j"
proof
  assume "page_addr ctx i = page_addr ctx j"
  then have "unat (page_addr ctx i) = unat (page_addr ctx j)" by (rule arg_cong)
  then show "i = j" by (simp add: unat_page_addr assms)
qed simp

lemma page_addr_aligned:
  assumes "pmm_inv ctx" "k < npages ctx"
  shows "HO_IS_ALIGNED (page_addr ctx k) PAGE_4KB"
  unfolding is_aligned_4KB_iff unat_page_addr [OF assms]
  using assms(1) by (simp add: pmm_inv_def mod_add_eq)

section \<open>Freeing and reserving\<close>

lemma range_start_Inr:
  assumes inv: "pmm_inv ctx" and small: "unat count \<le> 2 ^ 63" and r: "range_start ctx b count = Inr w"
  shows "0 < unat count" "b = page_addr ctx (unat w)" "unat w + unat count \<le> npages ctx"
proof -
  have al: "unat b mod 4096 = 0" and ge: "unat (ManagedBasePhys ctx) \<le> unat b"
    and w: "w = drop_bit PAGE_SHIFT (b - ManagedBasePhys ctx)" and c0: "count \<noteq> 0"
    and le: "w + count \<le> TotalManagedPages ctx"
    using r by (auto simp: range_start_def Let_def is_aligned_4KB_iff word_less_nat_alt word_le_nat_alt not_less split: if_splits)
  show "0 < unat count" using c0 by (simp add: unat_gt_0)
  let ?d = "unat b - unat (ManagedBasePhys ctx)"
  have d: "unat (b - ManagedBasePhys ctx) = ?d" using ge by (rule unat_sub_small)
  then have uw: "unat w = ?d div 4096" by (simp add: w unat_drop_bit PAGE_SHIFT_def)
  have d64: "?d < 2 ^ 64" by (rule less_imp_diff_less) simp
  then have "unat w < 2 ^ 52" using uw by (simp add: less_mult_imp_div_less)
  then have "unat (w + count) = unat w + unat count" using small by (simp add: unat_add_small)
  then show "unat w + unat count \<le> npages ctx" using le by (simp add: npages_def word_le_nat_alt)
  have "?d mod 4096 = 0" using al ge inv unfolding pmm_inv_def
    by (metis mod_eq_0_iff_dvd dvd_diff_nat)
  then have "?d div 4096 * 4096 = ?d" by auto
  then have "b - ManagedBasePhys ctx = w * PAGE_4KB"
    using uw d d64
    by (intro unat_eqI) (simp add: PAGE_4KB_def unat_mult_small)
  then show "b = page_addr ctx (unat w)" by (simp add: page_addr_def algebra_simps)
qed

lemma range_start_page:
  assumes "pmm_inv ctx" "0 < unat count" "i + unat count \<le> npages ctx"
  shows "range_start ctx (page_addr ctx i) count = Inr (word_of_nat i)"
proof -
  have i: "i < npages ctx" and N: "npages ctx \<le> 2 ^ 52" using assms pmm_inv_npages [OF assms(1)] by simp_all
  have "\<not> page_addr ctx i < ManagedBasePhys ctx"
    using unat_page_addr [OF assms(1) i] by (simp add: word_less_nat_alt)
  moreover have "unat (word_of_nat i + count) = i + unat count"
    using assms(3) i N by (subst unat_add_small) simp_all
  then have "\<not> TotalManagedPages ctx < word_of_nat i + count"
    using assms(3) by (simp add: word_less_nat_alt npages_def)
  moreover have "count \<noteq> 0" using assms(2) by auto
  ultimately show ?thesis
    using page_addr_aligned [OF assms(1) i] page_addr_index [OF assms(1) i]
    by (simp add: range_start_def Let_def)
qed

lemma check_range:
  "BitmapCheckRange ctx w count s \<longleftrightarrow> (\<forall>k. unat w \<le> k \<and> k < unat w + unat count \<longrightarrow> pg ctx k = s)"
  using check_range_from [of ctx "unat w" "unat count" s] by (simp add: BitmapCheckRange_def)

lemma pg_set_range_word:
  assumes "unat w + unat count \<le> 2 ^ 64" "k < 2 ^ 64"
  shows "pg (BitmapSetRange ctx w count s) k =
    (if unat w \<le> k \<and> k < unat w + unat count then s else pg ctx k)"
  using pg_set_range [OF assms, of ctx s] by simp

text \<open>
  What a successful \<open>BitmapFreePages\<close> did: the range was wholly allocated and inside the managed
  pages, and exactly these pages are free now.
\<close>

lemma BitmapFreePages_success:
  assumes inv: "pmm_inv ctx" and small: "unat count \<le> 2 ^ 63"
    and r: "BitmapFreePages ctx b count = (EC_SUCCESS, ctx')"
  shows "\<exists>i. b = page_addr ctx i \<and> 0 < unat count \<and> i + unat count \<le> npages ctx \<and>
    (\<forall>k. i \<le> k \<and> k < i + unat count \<longrightarrow> pg ctx k = PMM_PAGE_ALLOCATED) \<and>
    (\<forall>k<2 ^ 64. pg ctx' k = (if i \<le> k \<and> k < i + unat count then PMM_PAGE_FREE else pg ctx k)) \<and>
    npages ctx' = npages ctx \<and> ManagedBasePhys ctx' = ManagedBasePhys ctx \<and> pmm_inv ctx'"
proof -
  obtain w where w: "range_start ctx b count = Inr w"
    and chk: "\<forall>k. unat w \<le> k \<and> k < unat w + unat count \<longrightarrow> pg ctx k = PMM_PAGE_ALLOCATED"
    and ctx': "ctx' = (BitmapSetRange ctx w count PMM_PAGE_FREE)
       \<lparr>AllocatedPages := AllocatedPages ctx - count, FreePages := FreePages ctx + count\<rparr>"
    using r range_start_def
    by (auto simp: BitmapFreePages_def check_range Let_def range_start_def split: sum.splits if_splits)
  note rs = range_start_Inr [OF inv small w]
  have le: "unat w + unat count \<le> 2 ^ 64" using rs(3) pmm_inv_npages [OF inv] by simp
  have new: "pg ctx' k = (if unat w \<le> k \<and> k < unat w + unat count then PMM_PAGE_FREE else pg ctx k)"
    if "k < 2 ^ 64" for k
    using pg_set_range_word [OF le that] by (simp add: ctx')
  have "pmm_inv ctx'"
    by (rule pmm_inv_move [OF inv rs(3), where s = PMM_PAGE_FREE and t = PMM_PAGE_ALLOCATED])
      (use chk new pmm_inv_npages [OF inv] in \<open>auto simp: ctx'\<close>)
  then show ?thesis using rs chk new by (intro exI [of _ "unat w"]) (simp add: ctx')
qed

lemma BitmapFreePages_failure:
  "BitmapFreePages ctx b count = (e, ctx') \<Longrightarrow> e \<noteq> EC_SUCCESS \<Longrightarrow> ctx' = ctx"
  by (auto simp: BitmapFreePages_def Let_def split: sum.splits if_splits)

lemma BitmapReservePages_success:
  assumes inv: "pmm_inv ctx" and small: "unat count \<le> 2 ^ 63"
    and r: "BitmapReservePages ctx b count = (EC_SUCCESS, ctx')"
  shows "\<exists>i. b = page_addr ctx i \<and> 0 < unat count \<and> i + unat count \<le> npages ctx \<and>
    (\<forall>k. i \<le> k \<and> k < i + unat count \<longrightarrow> pg ctx k = PMM_PAGE_FREE) \<and>
    (\<forall>k<2 ^ 64. pg ctx' k = (if i \<le> k \<and> k < i + unat count then PMM_PAGE_RESERVED else pg ctx k)) \<and>
    npages ctx' = npages ctx \<and> ManagedBasePhys ctx' = ManagedBasePhys ctx \<and> pmm_inv ctx'"
proof -
  obtain w where w: "range_start ctx b count = Inr w"
    and chk: "\<forall>k. unat w \<le> k \<and> k < unat w + unat count \<longrightarrow> pg ctx k = PMM_PAGE_FREE"
    and ctx': "ctx' = (BitmapSetRange ctx w count PMM_PAGE_RESERVED)
       \<lparr>FreePages := FreePages ctx - count, ReservedPages := ReservedPages ctx + count\<rparr>"
    using r
    by (auto simp: BitmapReservePages_def check_range Let_def range_start_def split: sum.splits if_splits)
  note rs = range_start_Inr [OF inv small w]
  have le: "unat w + unat count \<le> 2 ^ 64" using rs(3) pmm_inv_npages [OF inv] by simp
  have new: "pg ctx' k = (if unat w \<le> k \<and> k < unat w + unat count then PMM_PAGE_RESERVED else pg ctx k)"
    if "k < 2 ^ 64" for k
    using pg_set_range_word [OF le that] by (simp add: ctx')
  have "pmm_inv ctx'"
    by (rule pmm_inv_move [OF inv rs(3), where s = PMM_PAGE_RESERVED and t = PMM_PAGE_FREE])
      (use chk new pmm_inv_npages [OF inv] in \<open>auto simp: ctx'\<close>)
  then show ?thesis using rs chk new by (intro exI [of _ "unat w"]) (simp add: ctx')
qed

lemma BitmapReservePages_failure:
  "BitmapReservePages ctx b count = (e, ctx') \<Longrightarrow> e \<noteq> EC_SUCCESS \<Longrightarrow> ctx' = ctx"
  by (auto simp: BitmapReservePages_def Let_def split: sum.splits if_splits)

section \<open>The self-check\<close>

lemma count_states_correct:
  assumes "i + n = npages ctx" "npages ctx < 2 ^ 64"
    and "f = word_of_nat (count_below i (pg ctx) PMM_PAGE_FREE)"
    and "a = word_of_nat (count_below i (pg ctx) PMM_PAGE_ALLOCATED)"
    and "r = word_of_nat (count_below i (pg ctx) PMM_PAGE_RESERVED)"
  shows "count_states ctx (word_of_nat i) n (f, a, r) =
    (if \<exists>k. i \<le> k \<and> k < npages ctx \<and> pg ctx k = PMM_PAGE_BITS3 then None
     else Some (word_of_nat (count_below (npages ctx) (pg ctx) PMM_PAGE_FREE),
       word_of_nat (count_below (npages ctx) (pg ctx) PMM_PAGE_ALLOCATED),
       word_of_nat (count_below (npages ctx) (pg ctx) PMM_PAGE_RESERVED)))"
  using assms
proof (induction n arbitrary: i f a r)
  case 0
  then show ?case by auto
next
  case (Suc n)
  let ?bad = "\<lambda>i. \<exists>k. i \<le> k \<and> k < npages ctx \<and> pg ctx k = PMM_PAGE_BITS3"
  have g: "BitmapGetState ctx (word_of_nat i) = pg ctx i" by (simp add: pg_def)
  define w :: u64 where "w = word_of_nat (Suc i)"
  have nxt: "word_of_nat i + 1 = w" by (simp add: w_def)
  have bad: "?bad i \<longleftrightarrow> pg ctx i = PMM_PAGE_BITS3 \<or> ?bad (Suc i)"
    using Suc.prems(1) by (metis Suc_leD Suc_leI le_neq_implies_less less_add_Suc1 add_Suc_right order_refl)
  have IH: "count_states ctx w n (f', a', r') =
    (if ?bad (Suc i) then None
     else Some (word_of_nat (count_below (npages ctx) (pg ctx) PMM_PAGE_FREE),
       word_of_nat (count_below (npages ctx) (pg ctx) PMM_PAGE_ALLOCATED),
       word_of_nat (count_below (npages ctx) (pg ctx) PMM_PAGE_RESERVED)))"
    if "f' = word_of_nat (count_below (Suc i) (pg ctx) PMM_PAGE_FREE)"
      "a' = word_of_nat (count_below (Suc i) (pg ctx) PMM_PAGE_ALLOCATED)"
      "r' = word_of_nat (count_below (Suc i) (pg ctx) PMM_PAGE_RESERVED)" for f' a' r'
    using Suc.IH [of "Suc i" f' a' r'] Suc.prems that unfolding w_def by simp
  show ?case
    unfolding bad count_states.simps g nxt
    by (cases "pg ctx i") (simp_all add: IH Suc.prems count_below_Suc add.commute)
qed

lemma count_below_total:
  assumes "\<forall>k<N. f k \<noteq> PMM_PAGE_BITS3"
  shows "count_below N f PMM_PAGE_FREE + count_below N f PMM_PAGE_ALLOCATED + count_below N f PMM_PAGE_RESERVED = N"
  using assms
proof (induction N)
  case (Suc N)
  then show ?case by (cases "f N") (auto simp: count_below_Suc)
qed (simp add: count_below_def)

lemma BitmapCheckInvariants_iff:
  assumes "unat (ManagedBasePhys ctx) mod 4096 = 0"
    and "unat (ManagedBasePhys ctx) + npages ctx * 4096 \<le> 2 ^ 64"
  shows "BitmapCheckInvariants ctx = EC_SUCCESS \<longleftrightarrow> pmm_inv ctx"
proof -
  have N: "npages ctx < 2 ^ 64" using assms(2) by simp
  have cb: "count_below (npages ctx) (pg ctx) c < 2 ^ 64" for c
    using count_below_le [of "npages ctx" "pg ctx" c] N by (rule le_less_trans)
  have eq: "word_of_nat (count_below (npages ctx) (pg ctx) c) = x \<longleftrightarrow> unat x = count_below (npages ctx) (pg ctx) c"
    for c and x :: u64
    using cb [of c] by (metis unat_of_nat64 unat_eqI)
  have cs: "count_states ctx 0 (unat (TotalManagedPages ctx)) (0, 0, 0) =
    (if \<exists>k<npages ctx. pg ctx k = PMM_PAGE_BITS3 then None
     else Some (word_of_nat (count_below (npages ctx) (pg ctx) PMM_PAGE_FREE),
       word_of_nat (count_below (npages ctx) (pg ctx) PMM_PAGE_ALLOCATED),
       word_of_nat (count_below (npages ctx) (pg ctx) PMM_PAGE_RESERVED)))"
    using count_states_correct [of 0 "npages ctx" ctx 0 0 0] N by (simp add: npages_def count_below_def)
  show ?thesis
  proof (cases "\<exists>k<npages ctx. pg ctx k = PMM_PAGE_BITS3")
    case True
    then show ?thesis using cs by (auto simp: BitmapCheckInvariants_def pmm_inv_def)
  next
    case False
    then have tot: "count_below (npages ctx) (pg ctx) PMM_PAGE_FREE + count_below (npages ctx) (pg ctx) PMM_PAGE_ALLOCATED
        + count_below (npages ctx) (pg ctx) PMM_PAGE_RESERVED = npages ctx"
      by (intro count_below_total) auto
    have "(word_of_nat (count_below (npages ctx) (pg ctx) PMM_PAGE_FREE) + word_of_nat (count_below (npages ctx) (pg ctx) PMM_PAGE_ALLOCATED)
        + word_of_nat (count_below (npages ctx) (pg ctx) PMM_PAGE_RESERVED) :: u64) = TotalManagedPages ctx"
      unfolding of_nat_add [symmetric] tot by (simp add: npages_def)
    then show ?thesis using cs False assms eq
      by (auto simp: BitmapCheckInvariants_def pmm_inv_def)
  qed
qed

section \<open>The allocator against what the caller asks for\<close>

text \<open>
  A request in words of the caller: the run of \<open>n\<close> frames from frame \<open>i\<close> lies in the managed memory, all
  its frames are free, its first frame is a multiple of the alignment, and its last byte is not above
  the highest address allowed. A null constraint, an alignment of 0 or 1 and a highest address of 0
  ask for nothing.
\<close>

definition run_ok :: "KE_PMM_BITMAP_CONTEXT \<Rightarrow> KE_PMM_ALLOC_CONSTRAINTS option \<Rightarrow> nat \<Rightarrow> nat \<Rightarrow> bool" where
  "run_ok ctx constraints n i \<longleftrightarrow> i + n \<le> unat (TotalManagedPages ctx) \<and>
     (\<forall>k. i \<le> k \<and> k < i + n \<longrightarrow> pg ctx k = PMM_PAGE_FREE) \<and>
     (\<forall>c. constraints = Some c \<longrightarrow>
        (1 < unat (AlignmentPages c) \<longrightarrow> unat (AlignmentPages c) dvd i) \<and>
        (MaxPhysAddr c \<noteq> 0 \<longrightarrow> unat (ManagedBasePhys ctx) + (i + n) * 4096 \<le> unat (MaxPhysAddr c) + 1))"

definition bad_alignment :: "KE_PMM_ALLOC_CONSTRAINTS option \<Rightarrow> bool" where
  "bad_alignment constraints \<longleftrightarrow> (\<exists>c. constraints = Some c \<and> 1 < unat (AlignmentPages c) \<and> (\<forall>k. unat (AlignmentPages c) \<noteq> 2 ^ k))"

text \<open>The limit is computed in 64 bits: it wraps to zero when all of memory is managed and allowed.\<close>

definition limit_wraps :: "KE_PMM_BITMAP_CONTEXT \<Rightarrow> KE_PMM_ALLOC_CONSTRAINTS option \<Rightarrow> bool" where
  "limit_wraps ctx constraints \<longleftrightarrow>
     ManagedBasePhys ctx = 0 \<and> (case constraints of None \<Rightarrow> False | Some c \<Rightarrow> MaxPhysAddr c = 0xFFFFFFFFFFFFFFFF)"

lemma and_pred_zero: "n AND (n - 1) = 0 \<longleftrightarrow> (\<exists>k. n = 2 ^ k)" if "0 < n" for n :: nat
  using that
proof (induction n rule: less_induct)
  case (less n)
  show ?case
  proof (cases "even n")
    case True
    then obtain m where m: "n = 2 * m" "0 < m" using less.prems by (auto elim: evenE)
    then have p: "n - 1 = 2 * (m - 1) + 1" by simp
    have "(2 * m) AND (2 * l + 1) = 2 * (m AND l)" for l by (subst and_rec) simp
    then have "n AND (n - 1) = 2 * (m AND (m - 1))" using p m(1) by metis
    moreover have "m AND (m - 1) = 0 \<longleftrightarrow> (\<exists>k. m = 2 ^ k)" using less.IH [of m] m by simp
    moreover have "(\<exists>k. n = 2 ^ k) \<longleftrightarrow> (\<exists>k. m = 2 ^ k)"
    proof
      assume "\<exists>k. n = 2 ^ k"
      then obtain k where k: "n = 2 ^ k" ..
      then have "k \<noteq> 0" using True by (intro notI) simp
      then obtain l where "k = Suc l" by (cases k) auto
      then have "m = 2 ^ l" using k m(1) by simp
      then show "\<exists>k. m = 2 ^ k" ..
    next
      assume "\<exists>k. m = 2 ^ k"
      then obtain k where "m = 2 ^ k" ..
      then have "n = 2 ^ Suc k" using m(1) by simp
      then show "\<exists>k. n = 2 ^ k" ..
    qed
    ultimately show ?thesis by simp
  next
    case False
    then obtain m where m: "n = 2 * m + 1" by (auto elim: oddE)
    have "n AND (n - 1) = 2 * m" unfolding m by (simp add: and_rec [of "Suc (2 * m)"])
    moreover have "(\<exists>k. n = 2 ^ k) \<longleftrightarrow> m = 0"
    proof
      assume "\<exists>k. n = 2 ^ k"
      then obtain k where k: "n = 2 ^ k" ..
      then have "k = 0" using False by (cases k) auto
      then show "m = 0" using k m by simp
    next
      assume "m = 0"
      then have "n = 2 ^ 0" using m by simp
      then show "\<exists>k. n = 2 ^ k" by blast
    qed
    ultimately show ?thesis by simp
  qed
qed

lemma power_of_two_test:
  fixes a :: u64
  assumes "1 < a"
  shows "a AND (a - 1) = 0 \<longleftrightarrow> (\<exists>k. unat a = 2 ^ k)"
proof -
  have p: "unat (a - 1) = unat a - 1" "0 < unat a" using assms by (simp_all add: unat_sub_small word_less_nat_alt)
  have "a AND (a - 1) = 0 \<longleftrightarrow> unat (a AND (a - 1)) = 0" by (simp add: unat_eq_0)
  also have "\<dots> \<longleftrightarrow> unat a AND (unat a - 1) = 0" by (simp add: unsigned_and_eq p)
  finally show ?thesis using and_pred_zero [OF p(2)] by simp
qed

lemma alloc_window_error:
  "alloc_window ctx cs = Inl EC_ILLEGAL_ARGUMENT \<longleftrightarrow> bad_alignment cs"
proof (cases cs)
  case (Some c)
  have "1 < AlignmentPages c \<longleftrightarrow> 1 < unat (AlignmentPages c)" by (simp add: word_less_nat_alt)
  then show ?thesis using Some power_of_two_test [of "AlignmentPages c"]
    by (auto simp: alloc_window_def bad_alignment_def Let_def)
qed (simp add: alloc_window_def bad_alignment_def)

lemma limit_pages:
  fixes base mx :: u64
  assumes "base \<le> mx" "\<not> (base = 0 \<and> mx = 0xFFFFFFFFFFFFFFFF)"
  shows "x \<le> unat (drop_bit PAGE_SHIFT (mx - base + 1)) \<longleftrightarrow> unat base + x * 4096 \<le> unat mx + 1"
proof -
  have d: "unat (mx - base) = unat mx - unat base" "unat base \<le> unat mx"
    using assms(1) by (simp_all add: unat_sub_small word_le_nat_alt)
  have "\<not> (unat base = 0 \<and> unat mx = 0xFFFFFFFFFFFFFFFF)"
  proof
    assume "unat base = 0 \<and> unat mx = 0xFFFFFFFFFFFFFFFF"
    then have "unat base = unat (0 :: u64)" "unat mx = unat (0xFFFFFFFFFFFFFFFF :: u64)" by simp_all
    then show False using assms(2) unsigned_word_eqI by blast
  qed
  moreover have lt: "unat mx < 18446744073709551616" using unat_lt_64 [of mx] by simp
  ultimately have "unat mx - unat base + 1 < 18446744073709551616" using lt by (cases "unat base = 0") linarith+
  then have "unat (mx - base + 1) = unat mx - unat base + 1" using d(1) unat_add_small [of "mx - base" 1] by simp
  then have "unat (drop_bit PAGE_SHIFT (mx - base + 1)) = (unat mx - unat base + 1) div 4096"
    by (simp add: unat_drop_bit PAGE_SHIFT_def)
  moreover have "x \<le> (unat mx - unat base + 1) div 4096 \<longleftrightarrow> x * 4096 \<le> unat mx - unat base + 1"
    by (rule less_eq_div_iff_mult_less_eq) simp
  ultimately show ?thesis using d(2) by auto
qed

lemma fits_run_ok:
  assumes w: "alloc_window ctx cs = Inr (a, m)" and nw: "\<not> limit_wraps ctx cs"
  shows "fits ctx n (unat a) (unat m) i \<longleftrightarrow> run_ok ctx cs n i"
proof (cases cs)
  case None
  then show ?thesis using w by (auto simp: alloc_window_def fits_def run_ok_def)
next
  case (Some c)
  have al: "i mod unat a = 0 \<longleftrightarrow> (1 < unat (AlignmentPages c) \<longrightarrow> unat (AlignmentPages c) dvd i)"
    using w Some by (auto simp: alloc_window_def Let_def word_less_nat_alt dvd_eq_mod_eq_0 split: if_splits)
  have lim: "x \<le> unat m \<longleftrightarrow> x \<le> unat (TotalManagedPages ctx) \<and>
      (MaxPhysAddr c \<noteq> 0 \<longrightarrow> unat (ManagedBasePhys ctx) + x * 4096 \<le> unat (MaxPhysAddr c) + 1)" for x
  proof (cases "MaxPhysAddr c = 0")
    case True
    then show ?thesis using w Some by (auto simp: alloc_window_def Let_def split: if_splits)
  next
    case False
    define l where "l = drop_bit PAGE_SHIFT (MaxPhysAddr c - ManagedBasePhys ctx + 1)"
    have ge: "ManagedBasePhys ctx \<le> MaxPhysAddr c" and m: "m = (if l < TotalManagedPages ctx then l else TotalManagedPages ctx)"
      using w Some False by (auto simp: alloc_window_def Let_def l_def split: if_splits)
    have "unat m = min (unat l) (unat (TotalManagedPages ctx))" by (simp add: m word_less_nat_alt)
    then show ?thesis using limit_pages [OF ge, of x] nw Some False by (auto simp: limit_wraps_def l_def)
  qed
  show ?thesis unfolding fits_def run_ok_def al lim using Some by auto
qed

lemma no_window_no_run:
  assumes "alloc_window ctx cs = Inl e" "\<not> bad_alignment cs" "0 < n"
  shows "e = EC_NOT_ENOUGH_MEMORY" "\<not> run_ok ctx cs n i"
proof -
  have ne: "alloc_window ctx cs \<noteq> Inl EC_ILLEGAL_ARGUMENT" using assms(2) alloc_window_error by blast
  then show "e = EC_NOT_ENOUGH_MEMORY"
    using assms(1) by (auto simp: alloc_window_def Let_def split: option.splits if_splits)
  obtain c where c: "cs = Some c" "MaxPhysAddr c \<noteq> 0" "MaxPhysAddr c < ManagedBasePhys ctx"
    using assms(1) ne by (auto simp: alloc_window_def Let_def split: option.splits if_splits)
  have "unat (MaxPhysAddr c) < unat (ManagedBasePhys ctx)" using c(3) by (simp add: word_less_nat_alt)
  then show "\<not> run_ok ctx cs n i" using c(1,2) assms(3) by (simp add: run_ok_def)
qed

text \<open>The states after the allocation of the run of \<open>n\<close> frames from frame \<open>i\<close>.\<close>

definition run_taken :: "KE_PMM_BITMAP_CONTEXT \<Rightarrow> nat \<Rightarrow> nat \<Rightarrow> KE_PMM_BITMAP_CONTEXT \<Rightarrow> bool" where
  "run_taken ctx n i ctx' \<longleftrightarrow>
     (\<forall>k < 2 ^ 64. pg ctx' k = (if i \<le> k \<and> k < i + n then PMM_PAGE_ALLOCATED else pg ctx k)) \<and>
     unat (FreePages ctx') + n = unat (FreePages ctx) \<and> unat (AllocatedPages ctx') = unat (AllocatedPages ctx) + n \<and>
     ReservedPages ctx' = ReservedPages ctx \<and> ManagedBasePhys ctx' = ManagedBasePhys ctx \<and>
     TotalManagedPages ctx' = TotalManagedPages ctx"

lemma mark_allocated_taken:
  assumes inv: "pmm_inv ctx" and run: "i + unat count \<le> npages ctx"
    and free: "\<And>k. i \<le> k \<Longrightarrow> k < i + unat count \<Longrightarrow> pg ctx k = PMM_PAGE_FREE"
  shows "run_taken ctx (unat count) i (mark_allocated ctx i count)"
proof -
  have inv': "pmm_inv (mark_allocated ctx i count)" by (rule pmm_inv_mark_allocated [OF inv run free])
  have N: "npages (mark_allocated ctx i count) = npages ctx" by (simp add: npages_def mark_allocated_def)
  have new: "pg (mark_allocated ctx i count) k = (if i \<le> k \<and> k < i + unat count then PMM_PAGE_ALLOCATED else pg ctx k)"
    if "k < 2 ^ 64" for k
    by (rule pg_mark_allocated) (use run pmm_inv_npages [OF inv] that in auto)
  have new': "pg (mark_allocated ctx i count) k = (if i \<le> k \<and> k < i + unat count then PMM_PAGE_ALLOCATED else pg ctx k)"
    if "k < npages ctx" for k using new that pmm_inv_npages [OF inv] by simp
  have "count_below (npages ctx) (pg (mark_allocated ctx i count)) PMM_PAGE_ALLOCATED =
      count_below (npages ctx) (pg ctx) PMM_PAGE_ALLOCATED + unat count"
    "count_below (npages ctx) (pg ctx) PMM_PAGE_FREE = count_below (npages ctx) (pg (mark_allocated ctx i count)) PMM_PAGE_FREE + unat count"
    using count_below_recolor [OF run free _ new'] by auto
  then show ?thesis using inv inv' new N by (auto simp: run_taken_def pmm_inv_def mark_allocated_def)
qed

lemma BitmapAllocPages_lowest_run:
  assumes inv: "pmm_inv ctx" and nw: "\<not> limit_wraps ctx cs"
  shows "\<exists>r ctx'. BitmapAllocPages ctx count cs = Done (r, ctx') \<and> pmm_inv ctx' \<and>
    (if count = 0 \<or> bad_alignment cs then r = Inl EC_ILLEGAL_ARGUMENT \<and> ctx' = ctx
     else if \<forall>i. \<not> run_ok ctx cs (unat count) i then r = Inl EC_NOT_ENOUGH_MEMORY \<and> ctx' = ctx
     else \<exists>i. run_ok ctx cs (unat count) i \<and> (\<forall>j<i. \<not> run_ok ctx cs (unat count) j) \<and>
       r = Inr (word_of_nat (unat (ManagedBasePhys ctx) + i * 4096)) \<and> run_taken ctx (unat count) i ctx')"
proof -
  note spec = BitmapAllocPages_spec [OF inv, of count cs]
  show ?thesis
  proof (cases "count = 0 \<or> bad_alignment cs")
    case True
    then have "alloc_spec ctx count cs = (Inl EC_ILLEGAL_ARGUMENT, ctx)"
      using alloc_window_error [of ctx cs] by (auto simp: alloc_spec_def)
    then show ?thesis using True spec inv by auto
  next
    case ok: False
    then have c0: "0 < unat count" by (simp add: unat_gt_0)
    show ?thesis
    proof (cases "alloc_window ctx cs")
      case (Inl e)
      have n: "e = EC_NOT_ENOUGH_MEMORY" "\<And>i. \<not> run_ok ctx cs (unat count) i"
        using no_window_no_run [OF Inl _ c0] ok by auto
      then have "alloc_spec ctx count cs = (Inl EC_NOT_ENOUGH_MEMORY, ctx)" using Inl ok by (simp add: alloc_spec_def)
      then show ?thesis using ok spec inv n by auto
    next
      case (Inr w)
      obtain a m where w: "alloc_window ctx cs = Inr (a, m)" using Inr by (cases w) auto
      have f: "fits ctx (unat count) (unat a) (unat m) = run_ok ctx cs (unat count)"
        using fits_run_ok [OF w nw] by blast
      show ?thesis
      proof (cases "first_run ctx (unat count) (unat a) (unat m)")
        case None
        then have n: "\<And>i. \<not> run_ok ctx cs (unat count) i" unfolding f [symmetric] by (auto simp: first_run_def split: if_splits)
        have "alloc_spec ctx count cs = (Inl EC_NOT_ENOUGH_MEMORY, ctx)" using None w ok by (simp add: alloc_spec_def)
        then show ?thesis using ok spec inv n by auto
      next
        case (Some i)
        have r: "run_ok ctx cs (unat count) i" "\<forall>j<i. \<not> run_ok ctx cs (unat count) j"
          using first_run_Some [OF Some] unfolding f by (auto simp: not_le [symmetric])
        have run: "i + unat count \<le> npages ctx" "\<And>k. i \<le> k \<Longrightarrow> k < i + unat count \<Longrightarrow> pg ctx k = PMM_PAGE_FREE"
          using r(1) by (auto simp: run_ok_def npages_def)
        define ctx' where "ctx' = mark_allocated ctx i count"
        have "alloc_spec ctx count cs = (Inr (page_addr ctx i), ctx')"
          using Some w ok by (simp add: alloc_spec_def ctx'_def page_addr_def)
        moreover have "page_addr ctx i = word_of_nat (unat (ManagedBasePhys ctx) + i * 4096)"
          by (simp add: page_addr_def PAGE_4KB_def)
        ultimately have e: "BitmapAllocPages ctx count cs = Done (Inr (word_of_nat (unat (ManagedBasePhys ctx) + i * 4096)), ctx')"
          using spec by simp
        have "run_taken ctx (unat count) i ctx'" unfolding ctx'_def by (rule mark_allocated_taken [OF inv run])
        moreover have "pmm_inv ctx'" unfolding ctx'_def by (rule pmm_inv_mark_allocated [OF inv run])
        ultimately show ?thesis using e r ok by (intro exI [of _ "Inr (word_of_nat (unat (ManagedBasePhys ctx) + i * 4096))"] exI [of _ ctx']) auto
      qed
    qed
  qed
qed

text \<open>In the excluded case the limit is zero pages and every request fails, whatever is free.\<close>

lemma BitmapAllocPages_limit_wraps:
  assumes "limit_wraps ctx cs" "count \<noteq> 0" "\<not> bad_alignment cs"
  shows "BitmapAllocPages ctx count cs = Done (Inl EC_NOT_ENOUGH_MEMORY, ctx)"
proof -
  obtain c where c: "cs = Some c" "ManagedBasePhys ctx = 0" "MaxPhysAddr c = 0xFFFFFFFFFFFFFFFF"
    using assms(1) by (auto simp: limit_wraps_def split: option.splits)
  have ne: "alloc_window ctx cs \<noteq> Inl EC_ILLEGAL_ARGUMENT" using assms(3) alloc_window_error by blast
  have z: "MaxPhysAddr c - ManagedBasePhys ctx + 1 = 0" by (simp add: c(2,3))
  have "drop_bit PAGE_SHIFT (MaxPhysAddr c - ManagedBasePhys ctx + 1) = 0" unfolding z by simp
  moreover have "MaxPhysAddr c \<noteq> 0" "\<not> MaxPhysAddr c < ManagedBasePhys ctx" using c(2,3) by simp_all
  ultimately obtain a where "alloc_window ctx cs = Inr (a, 0)"
    using c(1) ne by (cases "TotalManagedPages ctx = 0") (auto simp: alloc_window_def Let_def word_neq_0_conv split: if_splits)
  then show ?thesis using assms(2) by (simp add: BitmapAllocPages_def word_neq_0_conv [symmetric])
qed

end
