(* ===== verification/PmmDevice.thy ===== *)
theory PmmDevice
  imports PmmBitmap
begin

text \<open>
  The PMM device facade, \<^verbatim>\<open>ke/pmm/pmm_device.c\<close>: a table of sink routines, the sink context and
  an initialised flag, and the five entry points that dispatch through the table. The locale
  \<open>frame_allocator\<close> states what the rest of the memory manager relies on, in terms of the
  state of each physical frame; the facade over the bitmap sink is shown to provide it.

  The globals of the memory manager are an extensible record. Each layer adds its own fields, so
  a routine of this theory applies unchanged to the state of the layers above it.
\<close>

section \<open>Device\<close>

record KE_PMM_SINK =
  AllocPages :: "KE_PMM_BITMAP_CONTEXT \<Rightarrow> u64 \<Rightarrow> KE_PMM_ALLOC_CONSTRAINTS option \<Rightarrow>
     (HO_PHYSICAL_ADDRESS result \<times> KE_PMM_BITMAP_CONTEXT) outcome"
  FreePagesFn :: "KE_PMM_BITMAP_CONTEXT \<Rightarrow> HO_PHYSICAL_ADDRESS \<Rightarrow> u64 \<Rightarrow> ho_status \<times> KE_PMM_BITMAP_CONTEXT"
  ReservePages :: "KE_PMM_BITMAP_CONTEXT \<Rightarrow> HO_PHYSICAL_ADDRESS \<Rightarrow> u64 \<Rightarrow> ho_status \<times> KE_PMM_BITMAP_CONTEXT"
  QueryStats :: "KE_PMM_BITMAP_CONTEXT \<Rightarrow> KE_PMM_STATS"
  CheckInvariants :: "KE_PMM_BITMAP_CONTEXT \<Rightarrow> ho_status"

definition gBitmapSink :: KE_PMM_SINK where
  "gBitmapSink =
     \<lparr>AllocPages = BitmapAllocPages,
      FreePagesFn = BitmapFreePages,
      ReservePages = BitmapReservePages,
      QueryStats = BitmapQueryStats,
      CheckInvariants = BitmapCheckInvariants\<rparr>"

record KE_PMM_DEVICE =
  Sink :: KE_PMM_SINK
  SinkContext :: KE_PMM_BITMAP_CONTEXT
  PmmInitialized :: bool

record pmm_globals =
  gPmmDevice :: KE_PMM_DEVICE

definition set_sink_context :: "KE_PMM_BITMAP_CONTEXT \<Rightarrow> 'a pmm_globals_scheme \<Rightarrow> 'a pmm_globals_scheme" where
  "set_sink_context ctx s = s\<lparr>gPmmDevice := (gPmmDevice s)\<lparr>SinkContext := ctx\<rparr>\<rparr>"

definition KePmmAllocPages ::
    "'a pmm_globals_scheme \<Rightarrow> u64 \<Rightarrow> KE_PMM_ALLOC_CONSTRAINTS option \<Rightarrow>
     (HO_PHYSICAL_ADDRESS result \<times> 'a pmm_globals_scheme) outcome" where
  "KePmmAllocPages s count constraints =
     (if \<not> PmmInitialized (gPmmDevice s) then Done (Inl EC_INVALID_STATE, s)
      else bind_outcome
        (AllocPages (Sink (gPmmDevice s)) (SinkContext (gPmmDevice s)) count constraints)
        (\<lambda>(r, ctx). Done (r, set_sink_context ctx s)))"

definition KePmmFreePages ::
    "'a pmm_globals_scheme \<Rightarrow> HO_PHYSICAL_ADDRESS \<Rightarrow> u64 \<Rightarrow> ho_status \<times> 'a pmm_globals_scheme" where
  "KePmmFreePages s basePhys count =
     (if \<not> PmmInitialized (gPmmDevice s) then (EC_INVALID_STATE, s)
      else case FreePagesFn (Sink (gPmmDevice s)) (SinkContext (gPmmDevice s)) basePhys count of
        (status, ctx) \<Rightarrow> (status, set_sink_context ctx s))"

definition KePmmReservePages ::
    "'a pmm_globals_scheme \<Rightarrow> HO_PHYSICAL_ADDRESS \<Rightarrow> u64 \<Rightarrow> ho_status \<times> 'a pmm_globals_scheme" where
  "KePmmReservePages s basePhys count =
     (if \<not> PmmInitialized (gPmmDevice s) then (EC_INVALID_STATE, s)
      else case ReservePages (Sink (gPmmDevice s)) (SinkContext (gPmmDevice s)) basePhys count of
        (status, ctx) \<Rightarrow> (status, set_sink_context ctx s))"

definition KePmmQueryStats :: "'a pmm_globals_scheme \<Rightarrow> KE_PMM_STATS result" where
  "KePmmQueryStats s =
     (if \<not> PmmInitialized (gPmmDevice s) then Inl EC_INVALID_STATE
      else Inr (QueryStats (Sink (gPmmDevice s)) (SinkContext (gPmmDevice s))))"

definition KePmmCheckInvariants :: "'a pmm_globals_scheme \<Rightarrow> ho_status" where
  "KePmmCheckInvariants s =
     (if \<not> PmmInitialized (gPmmDevice s) then EC_INVALID_STATE
      else CheckInvariants (Sink (gPmmDevice s)) (SinkContext (gPmmDevice s)))"

section \<open>Frames by physical address\<close>

definition frame_index :: "KE_PMM_BITMAP_CONTEXT \<Rightarrow> HO_PHYSICAL_ADDRESS \<Rightarrow> nat option" where
  "frame_index ctx p =
     (let d = unat p - unat (ManagedBasePhys ctx)
      in if ManagedBasePhys ctx \<le> p \<and> d mod 4096 = 0 \<and> d div 4096 < npages ctx
         then Some (d div 4096) else None)"

definition ctx_frames :: "KE_PMM_BITMAP_CONTEXT \<Rightarrow> HO_PHYSICAL_ADDRESS \<Rightarrow> KE_PMM_PAGE_STATE option" where
  "ctx_frames ctx p = map_option (pg ctx) (frame_index ctx p)"

definition frames :: "'a pmm_globals_scheme \<Rightarrow> HO_PHYSICAL_ADDRESS \<Rightarrow> KE_PMM_PAGE_STATE option" where
  "frames s = ctx_frames (SinkContext (gPmmDevice s))"

definition pmm_ready :: "'a pmm_globals_scheme \<Rightarrow> bool" where
  "pmm_ready s \<longleftrightarrow> PmmInitialized (gPmmDevice s) \<and> Sink (gPmmDevice s) = gBitmapSink \<and>
     pmm_inv (SinkContext (gPmmDevice s))"

text \<open>The addresses of a run of \<open>n\<close> frames.\<close>

definition frame_run :: "HO_PHYSICAL_ADDRESS \<Rightarrow> nat \<Rightarrow> HO_PHYSICAL_ADDRESS set" where
  "frame_run p n = {p + word_of_nat j * PAGE_4KB | j. j < n}"

lemma frame_run_1 [simp]: "frame_run p (Suc 0) = {p}"
  by (auto simp: frame_run_def)

lemma frame_index_page_addr:
  assumes "pmm_inv ctx" "k < npages ctx"
  shows "frame_index ctx (page_addr ctx k) = Some k"
  using unat_page_addr [OF assms] assms(2) by (simp add: frame_index_def word_le_nat_alt)

lemma frame_index_Some:
  assumes "frame_index ctx p = Some k"
  shows "k < npages ctx" "p = page_addr ctx k"
proof -
  let ?d = "unat p - unat (ManagedBasePhys ctx)"
  have le: "ManagedBasePhys ctx \<le> p" and d: "?d = k * 4096" and k: "k < npages ctx"
    using assms by (auto simp: frame_index_def Let_def split: if_splits)
  show "k < npages ctx" by (rule k)
  have "k < 2 ^ 64" using k unfolding npages_def by (rule less_trans) simp
  have "?d < 2 ^ 64" by (rule less_imp_diff_less) simp
  then have "p - ManagedBasePhys ctx = word_of_nat k * PAGE_4KB"
    using d le \<open>k < 2 ^ 64\<close>
    by (intro unat_eqI) (simp add: unat_sub_small word_le_nat_alt PAGE_4KB_def unat_mult_small)
  then show "p = page_addr ctx k" by (simp add: page_addr_def algebra_simps)
qed

lemma frame_run_page_addr:
  "frame_run (page_addr ctx i) n = page_addr ctx ` {i..<i + n}"
proof -
  have "{i..<i + n} = (\<lambda>j. i + j) ` {j. j < n}"
    by (auto simp: image_iff) (metis le_add_diff_inverse nat_add_left_cancel_less)
  then show ?thesis
    by (auto simp: frame_run_def page_addr_def image_image algebra_simps image_iff)
qed

lemma ctx_frames_update:
  assumes inv: "pmm_inv ctx" and run: "i + n \<le> npages ctx"
    and pg': "\<And>k. k < npages ctx \<Longrightarrow> pg ctx' k = (if i \<le> k \<and> k < i + n then s else pg ctx k)"
    and same: "npages ctx' = npages ctx" "ManagedBasePhys ctx' = ManagedBasePhys ctx"
  shows "ctx_frames ctx' q = (if q \<in> frame_run (page_addr ctx i) n then Some s else ctx_frames ctx q)"
proof -
  have fi: "frame_index ctx' q = frame_index ctx q" by (simp add: frame_index_def same)
  show ?thesis
  proof (cases "frame_index ctx q")
    case None
    then have "q \<notin> frame_run (page_addr ctx i) n"
      using run frame_index_page_addr [OF inv] by (auto simp: frame_run_page_addr)
    then show ?thesis using None fi by (simp add: ctx_frames_def)
  next
    case (Some k)
    note k = frame_index_Some [OF Some]
    have "q \<in> frame_run (page_addr ctx i) n \<longleftrightarrow> i \<le> k \<and> k < i + n"
      using k run page_addr_inj [OF inv] by (auto simp: frame_run_page_addr image_iff)
    then show ?thesis using Some fi pg' [OF k(1)] by (simp add: ctx_frames_def)
  qed
qed

lemma ctx_frames_run:
  assumes "pmm_inv ctx" "i + n \<le> npages ctx" "\<And>k. i \<le> k \<Longrightarrow> k < i + n \<Longrightarrow> pg ctx k = s"
    and "q \<in> frame_run (page_addr ctx i) n"
  shows "ctx_frames ctx q = Some s"
  using assms frame_index_page_addr [OF assms(1)] by (auto simp: frame_run_page_addr ctx_frames_def)

section \<open>The entry points on frames\<close>

lemma KePmmAllocPages_ready:
  assumes "pmm_ready s"
  shows "KePmmAllocPages s count cs =
    Done (case alloc_spec (SinkContext (gPmmDevice s)) count cs of (r, ctx) \<Rightarrow> (r, set_sink_context ctx s))"
  using assms BitmapAllocPages_spec
  by (simp add: KePmmAllocPages_def pmm_ready_def gBitmapSink_def split: prod.splits)

lemma set_sink_context_same [simp]: "set_sink_context (SinkContext (gPmmDevice s)) s = s"
  by (simp add: set_sink_context_def)

lemma pmm_ready_set:
  "pmm_ready s \<Longrightarrow> pmm_inv ctx \<Longrightarrow> pmm_ready (set_sink_context ctx s)"
  by (simp add: pmm_ready_def set_sink_context_def)

lemma frames_set [simp]: "frames (set_sink_context ctx s) = ctx_frames ctx"
  by (simp add: frames_def set_sink_context_def)

lemma SinkContext_set [simp]: "SinkContext (gPmmDevice (set_sink_context ctx s)) = ctx"
  by (simp add: set_sink_context_def)

lemma KePmmAllocPages_error:
  assumes "pmm_ready s" "KePmmAllocPages s count cs = Done (Inl e, s')"
  shows "s' = s"
  using assms by (auto simp: KePmmAllocPages_ready split: prod.splits dest: alloc_spec_Inl)

lemma KePmmAllocPages_success:
  assumes rdy: "pmm_ready s" and ok: "KePmmAllocPages s count cs = Done (Inr p, s')"
  shows "pmm_ready s'" and "0 < unat count"
    and "\<And>q. q \<in> frame_run p (unat count) \<Longrightarrow> frames s q = Some PMM_PAGE_FREE"
    and "\<And>q. frames s' q = (if q \<in> frame_run p (unat count) then Some PMM_PAGE_ALLOCATED else frames s q)"
    and "HO_IS_ALIGNED p PAGE_4KB"
    and "\<exists>ctx. s' = set_sink_context ctx s"
proof -
  let ?ctx = "SinkContext (gPmmDevice s)"
  have inv: "pmm_inv ?ctx" using rdy by (simp add: pmm_ready_def)
  obtain ctx' where sp: "alloc_spec ?ctx count cs = (Inr p, ctx')" and s': "s' = set_sink_context ctx' s"
    using ok by (auto simp: KePmmAllocPages_ready [OF rdy] split: prod.splits)
  obtain a m i where w: "alloc_window ?ctx cs = Inr (a, m)" and "count \<noteq> 0"
    and fr: "first_run ?ctx (unat count) (unat a) (unat m) = Some i"
    and p: "p = page_addr ?ctx i" and ctx': "ctx' = mark_allocated ?ctx i count"
    using alloc_spec_Inr [OF sp] by (auto simp: page_addr_def)
  have fit: "i + unat count \<le> npages ?ctx" "\<And>k. i \<le> k \<Longrightarrow> k < i + unat count \<Longrightarrow> pg ?ctx k = PMM_PAGE_FREE"
    using first_run_Some(1) [OF fr] alloc_window_bounds(3) [OF w] by (auto simp: fits_def)
  show c0: "0 < unat count" using \<open>count \<noteq> 0\<close> by (simp add: unat_gt_0)
  have i: "i < npages ?ctx" using fit(1) c0 by simp
  show "pmm_ready s'"
    unfolding s' ctx' using rdy fit by (intro pmm_ready_set pmm_inv_mark_allocated inv) auto
  show "frames s q = Some PMM_PAGE_FREE" if "q \<in> frame_run p (unat count)" for q
    unfolding frames_def by (rule ctx_frames_run [OF inv fit that [unfolded p]])
  show "frames s' q = (if q \<in> frame_run p (unat count) then Some PMM_PAGE_ALLOCATED else frames s q)" for q
    unfolding s' ctx' p frames_def SinkContext_set
    by (rule ctx_frames_update [OF inv fit(1)])
      (use fit(1) pmm_inv_npages [OF inv] in \<open>simp_all add: pg_mark_allocated, simp_all add: mark_allocated_def\<close>)
  show "HO_IS_ALIGNED p PAGE_4KB" unfolding p by (rule page_addr_aligned [OF inv i])
  show "\<exists>ctx. s' = set_sink_context ctx s" using s' by blast
qed

lemma KePmmFreePages_ready:
  assumes "pmm_ready s"
  shows "KePmmFreePages s p count =
    (case BitmapFreePages (SinkContext (gPmmDevice s)) p count of (st, ctx) \<Rightarrow> (st, set_sink_context ctx s))"
  using assms by (simp add: KePmmFreePages_def pmm_ready_def gBitmapSink_def)

lemma KePmmFreePages_error:
  assumes "pmm_ready s" "KePmmFreePages s p count = (e, s')" "e \<noteq> EC_SUCCESS"
  shows "s' = s"
  using assms by (auto simp: KePmmFreePages_ready split: prod.splits dest: BitmapFreePages_failure)

lemma KePmmFreePages_success:
  assumes rdy: "pmm_ready s" and small: "unat count \<le> 2 ^ 63"
    and ok: "KePmmFreePages s p count = (EC_SUCCESS, s')"
  shows "pmm_ready s'" and "0 < unat count"
    and "\<And>q. q \<in> frame_run p (unat count) \<Longrightarrow> frames s q = Some PMM_PAGE_ALLOCATED"
    and "\<And>q. frames s' q = (if q \<in> frame_run p (unat count) then Some PMM_PAGE_FREE else frames s q)"
    and "\<exists>ctx. s' = set_sink_context ctx s"
proof -
  let ?ctx = "SinkContext (gPmmDevice s)"
  have inv: "pmm_inv ?ctx" using rdy by (simp add: pmm_ready_def)
  obtain ctx' where b: "BitmapFreePages ?ctx p count = (EC_SUCCESS, ctx')" and s': "s' = set_sink_context ctx' s"
    using ok by (auto simp: KePmmFreePages_ready [OF rdy] split: prod.splits)
  obtain i where p: "p = page_addr ?ctx i" and c0: "0 < unat count" and run: "i + unat count \<le> npages ?ctx"
    and old: "\<forall>k. i \<le> k \<and> k < i + unat count \<longrightarrow> pg ?ctx k = PMM_PAGE_ALLOCATED"
    and new: "\<forall>k<2 ^ 64. pg ctx' k = (if i \<le> k \<and> k < i + unat count then PMM_PAGE_FREE else pg ?ctx k)"
    and same: "npages ctx' = npages ?ctx" "ManagedBasePhys ctx' = ManagedBasePhys ?ctx" and inv': "pmm_inv ctx'"
    using BitmapFreePages_success [OF inv small b] by blast
  show "pmm_ready s'" unfolding s' using rdy inv' by (rule pmm_ready_set)
  show "0 < unat count" by (rule c0)
  show "frames s q = Some PMM_PAGE_ALLOCATED" if "q \<in> frame_run p (unat count)" for q
    unfolding frames_def by (rule ctx_frames_run [OF inv run _ that [unfolded p]]) (use old in auto)
  show "frames s' q = (if q \<in> frame_run p (unat count) then Some PMM_PAGE_FREE else frames s q)" for q
    unfolding s' p frames_def SinkContext_set
    by (rule ctx_frames_update [OF inv run _ same]) (use new pmm_inv_npages [OF inv] in auto)
  show "\<exists>ctx. s' = set_sink_context ctx s" using s' by blast
qed

text \<open>Allocated pages can be freed; a frame in any other state is refused.\<close>

lemma BitmapFreePages_allocated:
  assumes "pmm_inv ctx" "0 < unat count" "i + unat count \<le> npages ctx"
    and "\<And>k. i \<le> k \<Longrightarrow> k < i + unat count \<Longrightarrow> pg ctx k = PMM_PAGE_ALLOCATED"
  shows "\<exists>ctx'. BitmapFreePages ctx (page_addr ctx i) count = (EC_SUCCESS, ctx')"
proof -
  have "i < 2 ^ 64" using assms(2,3) pmm_inv_npages [OF assms(1)] by simp
  then show ?thesis
    using assms(4) by (simp add: BitmapFreePages_def range_start_page [OF assms(1-3)] check_range Let_def)
qed

lemma KePmmFreePages_frame:
  assumes rdy: "pmm_ready s" and al: "frames s p = Some PMM_PAGE_ALLOCATED"
  shows "\<exists>s'. KePmmFreePages s p 1 = (EC_SUCCESS, s')"
proof -
  let ?ctx = "SinkContext (gPmmDevice s)"
  have inv: "pmm_inv ?ctx" using rdy by (simp add: pmm_ready_def)
  obtain i where i: "frame_index ?ctx p = Some i" and "pg ?ctx i = PMM_PAGE_ALLOCATED"
    using al by (auto simp: frames_def ctx_frames_def)
  then have "\<exists>ctx'. BitmapFreePages ?ctx (page_addr ?ctx i) 1 = (EC_SUCCESS, ctx')"
    using frame_index_Some(1) [OF i]
    by (intro BitmapFreePages_allocated [OF inv]) (auto simp: less_Suc_eq)
  then show ?thesis using frame_index_Some(2) [OF i] KePmmFreePages_ready [OF rdy] by auto
qed

section \<open>The contract of a frame allocator\<close>

locale frame_allocator =
  fixes ready :: "'s \<Rightarrow> bool"
    and frame :: "'s \<Rightarrow> HO_PHYSICAL_ADDRESS \<Rightarrow> KE_PMM_PAGE_STATE option"
    and alloc :: "'s \<Rightarrow> u64 \<Rightarrow> KE_PMM_ALLOC_CONSTRAINTS option \<Rightarrow> (HO_PHYSICAL_ADDRESS result \<times> 's) outcome"
    and free :: "'s \<Rightarrow> HO_PHYSICAL_ADDRESS \<Rightarrow> u64 \<Rightarrow> ho_status \<times> 's"
  assumes alloc_returns: "ready s \<Longrightarrow> \<exists>r s'. alloc s n cs = Done (r, s')"
    and alloc_error: "ready s \<Longrightarrow> alloc s n cs = Done (Inl e, s') \<Longrightarrow> s' = s"
    and alloc_ready: "ready s \<Longrightarrow> alloc s n cs = Done (Inr p, s') \<Longrightarrow> ready s'"
    and alloc_was_free: "ready s \<Longrightarrow> alloc s n cs = Done (Inr p, s') \<Longrightarrow> q \<in> frame_run p (unat n) \<Longrightarrow>
      frame s q = Some PMM_PAGE_FREE"
    and alloc_frame: "ready s \<Longrightarrow> alloc s n cs = Done (Inr p, s') \<Longrightarrow>
      frame s' q = (if q \<in> frame_run p (unat n) then Some PMM_PAGE_ALLOCATED else frame s q)"
    and free_error: "ready s \<Longrightarrow> free s p n = (e, s') \<Longrightarrow> e \<noteq> EC_SUCCESS \<Longrightarrow> s' = s"
    and free_ready: "ready s \<Longrightarrow> free s p 1 = (EC_SUCCESS, s') \<Longrightarrow> ready s'"
    and free_was_allocated: "ready s \<Longrightarrow> free s p 1 = (EC_SUCCESS, s') \<Longrightarrow> frame s p = Some PMM_PAGE_ALLOCATED"
    and free_frame: "ready s \<Longrightarrow> free s p 1 = (EC_SUCCESS, s') \<Longrightarrow>
      frame s' q = (if q = p then Some PMM_PAGE_FREE else frame s q)"
    and free_allocated: "ready s \<Longrightarrow> frame s p = Some PMM_PAGE_ALLOCATED \<Longrightarrow> \<exists>s'. free s p 1 = (EC_SUCCESS, s')"
begin

lemma alloc_disjoint:
  assumes "ready s" "alloc s n cs = Done (Inr p, s1)" "alloc s1 m ds = Done (Inr q, s2)"
  shows "frame_run p (unat n) \<inter> frame_run q (unat m) = {}"
proof (rule ccontr)
  assume "frame_run p (unat n) \<inter> frame_run q (unat m) \<noteq> {}"
  then obtain x where "x \<in> frame_run p (unat n)" "x \<in> frame_run q (unat m)" by blast
  then show False
    using alloc_frame [OF assms(1,2), of x] alloc_was_free [OF alloc_ready [OF assms(1,2)] assms(3), of x]
    by simp
qed

lemma double_free_refused:
  assumes "ready s" "free s p 1 = (EC_SUCCESS, s1)"
  shows "\<exists>e. free s1 p 1 = (e, s1) \<and> e \<noteq> EC_SUCCESS"
proof -
  obtain e s2 where f: "free s1 p 1 = (e, s2)" by fastforce
  have r1: "ready s1" using assms by (rule free_ready)
  have "frame s1 p = Some PMM_PAGE_FREE" using free_frame [OF assms, of p] by simp
  then have "e \<noteq> EC_SUCCESS" using f free_was_allocated [OF r1] by auto
  then show ?thesis using f free_error [OF r1 f] by simp
qed

lemma alloc_free_restores:
  assumes "ready s" "alloc s 1 cs = Done (Inr p, s1)"
  shows "\<exists>s2. free s1 p 1 = (EC_SUCCESS, s2) \<and> ready s2 \<and> frame s2 = frame s"
proof -
  have r1: "ready s1" using assms by (rule alloc_ready)
  have "frame s1 p = Some PMM_PAGE_ALLOCATED" using alloc_frame [OF assms, of p] by simp
  then obtain s2 where f: "free s1 p 1 = (EC_SUCCESS, s2)" using free_allocated [OF r1] by blast
  have "frame s2 q = frame s q" for q
    using free_frame [OF r1 f, of q] alloc_frame [OF assms, of q] alloc_was_free [OF assms, of p] by auto
  then show ?thesis using f free_ready [OF r1 f] by blast
qed

end

interpretation pmm: frame_allocator pmm_ready frames KePmmAllocPages KePmmFreePages
proof unfold_locales
  fix s s' :: "'a pmm_globals_scheme" and n cs p q e
  show "pmm_ready s \<Longrightarrow> \<exists>r s'. KePmmAllocPages s n cs = Done (r, s')"
    by (auto simp: KePmmAllocPages_ready split: prod.splits)
  show "pmm_ready s \<Longrightarrow> KePmmAllocPages s n cs = Done (Inl e, s') \<Longrightarrow> s' = s"
    by (rule KePmmAllocPages_error)
  show "pmm_ready s \<Longrightarrow> KePmmAllocPages s n cs = Done (Inr p, s') \<Longrightarrow> pmm_ready s'"
    by (rule KePmmAllocPages_success)
  show "pmm_ready s \<Longrightarrow> KePmmAllocPages s n cs = Done (Inr p, s') \<Longrightarrow> q \<in> frame_run p (unat n) \<Longrightarrow>
      frames s q = Some PMM_PAGE_FREE"
    by (rule KePmmAllocPages_success)
  show "pmm_ready s \<Longrightarrow> KePmmAllocPages s n cs = Done (Inr p, s') \<Longrightarrow>
      frames s' q = (if q \<in> frame_run p (unat n) then Some PMM_PAGE_ALLOCATED else frames s q)"
    by (rule KePmmAllocPages_success)
  show "pmm_ready s \<Longrightarrow> KePmmFreePages s p n = (e, s') \<Longrightarrow> e \<noteq> EC_SUCCESS \<Longrightarrow> s' = s"
    by (rule KePmmFreePages_error)
  show "pmm_ready s \<Longrightarrow> KePmmFreePages s p 1 = (EC_SUCCESS, s') \<Longrightarrow> pmm_ready s'"
    by (rule KePmmFreePages_success [where count = 1]) simp_all
  show "pmm_ready s \<Longrightarrow> KePmmFreePages s p 1 = (EC_SUCCESS, s') \<Longrightarrow> frames s p = Some PMM_PAGE_ALLOCATED"
    by (rule KePmmFreePages_success [where count = 1]) simp_all
  show "pmm_ready s \<Longrightarrow> KePmmFreePages s p 1 = (EC_SUCCESS, s') \<Longrightarrow>
      frames s' q = (if q = p then Some PMM_PAGE_FREE else frames s q)"
    using KePmmFreePages_success(4) [of s 1 p s' q] by simp
  show "pmm_ready s \<Longrightarrow> frames s p = Some PMM_PAGE_ALLOCATED \<Longrightarrow> \<exists>s'. KePmmFreePages s p 1 = (EC_SUCCESS, s')"
    by (rule KePmmFreePages_frame)
qed

end
