(* ===== verification/AddressSpace.thy ===== *)
theory AddressSpace
  imports PmmDevice
begin

text \<open>
  Address spaces and the four-level page tables, \<^verbatim>\<open>ke/mm/address_space.c\<close> with the constants of
  \<^verbatim>\<open>arch/amd64/pm.h\<close>. Page tables live in physical memory, which the kernel reaches through its
  direct map: the model is a function from the physical address of an 8-byte word to the word,
  and a pointer to a table entry is the physical address of the entry. The region array of the
  imported kernel space is a list.
\<close>

section \<open>Constants (pm.h)\<close>

type_synonym PAGE_TABLE_ENTRY = u64

definition ENTRIES_PER_TABLE :: u64 where "ENTRIES_PER_TABLE = 512"
definition PTE_PRESENT :: u64 where "PTE_PRESENT = push_bit 0 1"
definition PTE_WRITABLE :: u64 where "PTE_WRITABLE = push_bit 1 1"
definition PTE_USER :: u64 where "PTE_USER = push_bit 2 1"
definition PTE_WRITETHROUGH :: u64 where "PTE_WRITETHROUGH = push_bit 3 1"
definition PTE_CACHE_DISABLE :: u64 where "PTE_CACHE_DISABLE = push_bit 4 1"
definition PTE_ACCESSED :: u64 where "PTE_ACCESSED = push_bit 5 1"
definition PTE_DIRTY :: u64 where "PTE_DIRTY = push_bit 6 1"
definition PTE_PAGE_SIZE :: u64 where "PTE_PAGE_SIZE = push_bit 7 1"
definition PTE_GLOBAL :: u64 where "PTE_GLOBAL = push_bit 8 1"
definition PTE_NO_EXECUTE :: u64 where "PTE_NO_EXECUTE = push_bit 63 1"

definition PAGE_MASK :: u64 where "PAGE_MASK = NOT (PAGE_4KB - 1)"

definition PML4_INDEX :: "u64 \<Rightarrow> u64" where "PML4_INDEX addr = drop_bit 39 addr AND (ENTRIES_PER_TABLE - 1)"
definition PDPT_INDEX :: "u64 \<Rightarrow> u64" where "PDPT_INDEX addr = drop_bit 30 addr AND (ENTRIES_PER_TABLE - 1)"
definition PD_INDEX :: "u64 \<Rightarrow> u64" where "PD_INDEX addr = drop_bit 21 addr AND (ENTRIES_PER_TABLE - 1)"
definition PT_INDEX :: "u64 \<Rightarrow> u64" where "PT_INDEX addr = drop_bit 12 addr AND (ENTRIES_PER_TABLE - 1)"

definition HHDM_BASE_VA :: u64 where "HHDM_BASE_VA = 0xFFFF900000000000"
definition MMIO_BASE_VA :: u64 where "MMIO_BASE_VA = 0xFFFFC00000000000"

definition KE_PT_ALLOWED_LEAF_FLAGS :: u64 where
  "KE_PT_ALLOWED_LEAF_FLAGS =
     PTE_WRITABLE OR PTE_USER OR PTE_WRITETHROUGH OR PTE_CACHE_DISABLE OR PTE_GLOBAL OR PTE_NO_EXECUTE"

definition KE_PT_PHYS_ADDR_MASK :: u64 where "KE_PT_PHYS_ADDR_MASK = 0x000FFFFFFFFFF000"

section \<open>Data\<close>

record PAGE_TABLE_INFO =
  PtiPtr :: HO_PHYSICAL_ADDRESS
  PtiSize :: u64

record BOOT_MAPPING_MANIFEST_ENTRY =
  EntryVirtualStart :: HO_VIRTUAL_ADDRESS
  EntryPhysicalStart :: HO_PHYSICAL_ADDRESS
  EntrySize :: u64
  EntryAttributes :: u64
  EntryProvenanceValue :: u32
  EntryType :: u16
  EntryProvenance :: u8
  EntryLifetime :: u8
  EntryGranularity :: u8

definition BOOT_MAPPING_LIFETIME_TEMPORARY :: u8 where "BOOT_MAPPING_LIFETIME_TEMPORARY = 1"
definition BOOT_MAPPING_LIFETIME_RETAINED :: u8 where "BOOT_MAPPING_LIFETIME_RETAINED = 2"

record KE_IMPORTED_REGION =
  VirtualStart :: HO_VIRTUAL_ADDRESS
  VirtualEndExclusive :: HO_VIRTUAL_ADDRESS
  PhysicalStart :: HO_PHYSICAL_ADDRESS
  PhysicalEndExclusive :: HO_PHYSICAL_ADDRESS
  RegionSize :: u64
  RegionAttributes :: u64
  ProvenanceValue :: u32
  RegionType :: u16
  Provenance :: u8
  Lifetime :: u8
  Granularity :: u8
  BootOwned :: bool
  Pinned :: bool

record KE_KERNEL_ADDRESS_SPACE =
  RootPageTablePhys :: HO_PHYSICAL_ADDRESS
  ImportedRootInfo :: PAGE_TABLE_INFO
  Regions :: "KE_IMPORTED_REGION list"
  RegionArrayPhys :: HO_PHYSICAL_ADDRESS
  RegionArrayBytes :: u64
  RegionCount :: u32
  BootOwnedRegionCount :: u32
  PinnedRegionCount :: u32
  SpaceInitialized :: bool

record KE_PROCESS_ADDRESS_SPACE =
  PrivateRootPhys :: HO_PHYSICAL_ADDRESS
  PrivateInitialized :: bool

record KE_PT_MAPPING =
  Present :: bool
  LargeLeaf :: bool
  UserAccessible :: bool
  MapLevel :: u8
  MapPageSize :: u64
  PhysicalBase :: HO_PHYSICAL_ADDRESS
  MapAttributes :: u64

definition zero_mapping :: KE_PT_MAPPING where
  "zero_mapping = \<lparr>Present = False, LargeLeaf = False, UserAccessible = False, MapLevel = 0, MapPageSize = 0,
     PhysicalBase = 0, MapAttributes = 0\<rparr>"

text \<open>A walk keeps the tables and entries it has reached; \<open>None\<close> is the null pointer.\<close>

record KE_PT_WALK =
  Pml4 :: "HO_PHYSICAL_ADDRESS option"
  Pdpt :: "HO_PHYSICAL_ADDRESS option"
  Pd :: "HO_PHYSICAL_ADDRESS option"
  Pt :: "HO_PHYSICAL_ADDRESS option"
  Pml4Entry :: "HO_PHYSICAL_ADDRESS option"
  PdptEntry :: "HO_PHYSICAL_ADDRESS option"
  PdEntry :: "HO_PHYSICAL_ADDRESS option"
  PtEntry :: "HO_PHYSICAL_ADDRESS option"
  LeafEntry :: "HO_PHYSICAL_ADDRESS option"
  LeafValue :: PAGE_TABLE_ENTRY
  LeafPhysBase :: HO_PHYSICAL_ADDRESS
  LeafVirtBase :: HO_VIRTUAL_ADDRESS
  WalkPageSize :: u64
  WalkLevel :: u8

definition zero_walk :: KE_PT_WALK where
  "zero_walk = \<lparr>Pml4 = None, Pdpt = None, Pd = None, Pt = None, Pml4Entry = None, PdptEntry = None, PdEntry = None,
     PtEntry = None, LeafEntry = None, LeafValue = 0, LeafPhysBase = 0, LeafVirtBase = 0, WalkPageSize = 0, WalkLevel = 0\<rparr>"

record KE_NEW_TABLE =
  ParentEntry :: HO_PHYSICAL_ADDRESS
  TablePhys :: HO_PHYSICAL_ADDRESS

record KE_ENTRY_FLAG_PROMOTION =
  PromotedEntry :: HO_PHYSICAL_ADDRESS
  AddedFlags :: u64

text \<open>
  The state below the page tables: the frame allocator, physical memory, the root register, the
  pages that \<open>invlpg\<close> has been executed for (most recent first), and the imported kernel space.
\<close>

record vm_globals = pmm_globals +
  PhysMem :: "HO_PHYSICAL_ADDRESS \<Rightarrow> u64"
  ActiveCr3 :: u64
  TlbInvalidations :: "HO_VIRTUAL_ADDRESS list"
  gKernelAddressSpace :: KE_KERNEL_ADDRESS_SPACE

section \<open>Helpers\<close>

definition KiReadCr3 :: "'a vm_globals_scheme \<Rightarrow> HO_PHYSICAL_ADDRESS" where
  "KiReadCr3 s = ActiveCr3 s AND PAGE_MASK"

definition KiInvalidatePage :: "HO_VIRTUAL_ADDRESS \<Rightarrow> 'a vm_globals_scheme \<Rightarrow> 'a vm_globals_scheme" where
  "KiInvalidatePage virtAddr s = s\<lparr>TlbInvalidations := virtAddr # TlbInvalidations s\<rparr>"

text \<open>\<open>&table[idx]\<close>, and \<open>*entry = v\<close>.\<close>

definition entry_at :: "HO_PHYSICAL_ADDRESS \<Rightarrow> u64 \<Rightarrow> HO_PHYSICAL_ADDRESS" where
  "entry_at table idx = table + 8 * idx"

definition set_entry :: "HO_PHYSICAL_ADDRESS \<Rightarrow> u64 \<Rightarrow> 'a vm_globals_scheme \<Rightarrow> 'a vm_globals_scheme" where
  "set_entry e v s = s\<lparr>PhysMem := (PhysMem s)(e := v)\<rparr>"

text \<open>\<open>memset(table, 0, PAGE_4KB)\<close>.\<close>

definition zero_page :: "HO_PHYSICAL_ADDRESS \<Rightarrow> 'a vm_globals_scheme \<Rightarrow> 'a vm_globals_scheme" where
  "zero_page p s = s\<lparr>PhysMem := (\<lambda>a. if a - p < PAGE_4KB then 0 else PhysMem s a)\<rparr>"

definition KiIntermediateEntryFlagsForLeaf :: "u64 \<Rightarrow> u64" where
  "KiIntermediateEntryFlagsForLeaf leafAttributes =
    (PTE_PRESENT OR PTE_WRITABLE) OR (if leafAttributes AND PTE_USER \<noteq> 0 then PTE_USER else 0)"

definition KiIsUserReachableEntry :: "HO_PHYSICAL_ADDRESS option \<Rightarrow> 'a vm_globals_scheme \<Rightarrow> bool" where
  "KiIsUserReachableEntry entry s =
    (case entry of None \<Rightarrow> False
     | Some e \<Rightarrow> PhysMem s e AND (PTE_PRESENT OR PTE_USER) = (PTE_PRESENT OR PTE_USER))"

definition KiIsWalkUserAccessible :: "KE_PT_WALK \<Rightarrow> 'a vm_globals_scheme \<Rightarrow> bool" where
  "KiIsWalkUserAccessible walk s =
    (if LeafEntry walk = None then False
     else if \<not> KiIsUserReachableEntry (Pml4Entry walk) s \<or> \<not> KiIsUserReachableEntry (PdptEntry walk) s then False
     else if WalkLevel walk = 3 then True
     else if \<not> KiIsUserReachableEntry (PdEntry walk) s then False
     else if WalkLevel walk = 2 then True
     else KiIsUserReachableEntry (PtEntry walk) s)"

definition KiIsBootOwnedLifetime :: "u8 \<Rightarrow> bool" where
  "KiIsBootOwnedLifetime lifetime \<longleftrightarrow>
    lifetime = BOOT_MAPPING_LIFETIME_TEMPORARY \<or> lifetime = BOOT_MAPPING_LIFETIME_RETAINED"

definition KiLeafPhysBase :: "PAGE_TABLE_ENTRY \<Rightarrow> u64 \<Rightarrow> HO_PHYSICAL_ADDRESS" where
  "KiLeafPhysBase entry pageSize = (entry AND KE_PT_PHYS_ADDR_MASK) AND NOT (pageSize - 1)"

definition KiCompareImportedRegions :: "KE_IMPORTED_REGION \<Rightarrow> KE_IMPORTED_REGION \<Rightarrow> int" where
  "KiCompareImportedRegions left right =
    (if VirtualStart left < VirtualStart right then -1
     else if VirtualStart left > VirtualStart right then 1
     else if RegionSize left < RegionSize right then -1
     else if RegionSize left > RegionSize right then 1
     else if RegionType left < RegionType right then -1
     else if RegionType left > RegionType right then 1
     else 0)"

text \<open>
  The insertion sort of \<open>KiSortImportedRegions\<close>: the inner loop moves larger regions up from
  position \<open>j\<close> and stores the key where it stops.
\<close>

fun insert_key :: "KE_IMPORTED_REGION \<Rightarrow> nat \<Rightarrow> KE_IMPORTED_REGION list \<Rightarrow> KE_IMPORTED_REGION list" where
  "insert_key key 0 regions = regions[0 := key]"
| "insert_key key (Suc j) regions =
    (if KiCompareImportedRegions key (regions ! j) < 0
     then insert_key key j (regions[Suc j := regions ! j])
     else regions[Suc j := key])"

definition KiSortImportedRegions :: "KE_IMPORTED_REGION list \<Rightarrow> KE_IMPORTED_REGION list" where
  "KiSortImportedRegions regions =
    fold (\<lambda>i regions. insert_key (regions ! i) i regions) [1..<length regions] regions"

section \<open>Walking and editing the tables\<close>

text \<open>The rollback loops free and restore from the last record to the first.\<close>

definition KiRollbackNewTables :: "KE_NEW_TABLE list \<Rightarrow> 'a vm_globals_scheme \<Rightarrow> 'a vm_globals_scheme" where
  "KiRollbackNewTables tables s =
    foldr (\<lambda>t s. snd (KePmmFreePages (set_entry (ParentEntry t) 0 s) (TablePhys t) 1)) tables s"

definition KiRollbackEntryPromotions :: "KE_ENTRY_FLAG_PROMOTION list \<Rightarrow> 'a vm_globals_scheme \<Rightarrow> 'a vm_globals_scheme" where
  "KiRollbackEntryPromotions promotions s =
    foldr (\<lambda>p s. set_entry (PromotedEntry p) (PhysMem s (PromotedEntry p) AND NOT (AddedFlags p)) s) promotions s"

definition KiRollbackMapSetup ::
  "KE_NEW_TABLE list \<Rightarrow> KE_ENTRY_FLAG_PROMOTION list \<Rightarrow> 'a vm_globals_scheme \<Rightarrow> 'a vm_globals_scheme" where
  "KiRollbackMapSetup tables promotions s =
    KiRollbackEntryPromotions promotions (KiRollbackNewTables tables s)"

text \<open>
  \<open>KiEnsureChildTable\<close>: its callers pass no null pointer. The arrays of new tables and of
  promotions are lists that grow at the end.
\<close>

definition KiEnsureChildTable ::
  "HO_PHYSICAL_ADDRESS \<Rightarrow> u64 \<Rightarrow> KE_NEW_TABLE list \<Rightarrow> KE_ENTRY_FLAG_PROMOTION list \<Rightarrow> 'a vm_globals_scheme \<Rightarrow>
   (HO_PHYSICAL_ADDRESS result \<times> KE_NEW_TABLE list \<times> KE_ENTRY_FLAG_PROMOTION list \<times> 'a vm_globals_scheme) outcome" where
  "KiEnsureChildTable parentEntry leafAttributes newTables promotions s =
    (if PhysMem s parentEntry AND PTE_PRESENT = 0 then
       bind_outcome (KePmmAllocPages s 1 None) (\<lambda>(r, s).
         case r of
           Inl status \<Rightarrow> Done (Inl status, newTables, promotions, s)
         | Inr tablePhys \<Rightarrow>
             let s = zero_page tablePhys s;
                 s = set_entry parentEntry (tablePhys OR KiIntermediateEntryFlagsForLeaf leafAttributes) s
             in Done (Inr tablePhys, newTables @ [\<lparr>ParentEntry = parentEntry, TablePhys = tablePhys\<rparr>], promotions, s))
     else if PhysMem s parentEntry AND PTE_PAGE_SIZE \<noteq> 0 then Done (Inl EC_NOT_SUPPORTED, newTables, promotions, s)
     else if leafAttributes AND PTE_USER \<noteq> 0 \<and> PhysMem s parentEntry AND PTE_USER = 0 then
       if length promotions \<ge> 3 then Done (Inl EC_INVALID_STATE, newTables, promotions, s)
       else
         let s = set_entry parentEntry (PhysMem s parentEntry OR PTE_USER) s
         in Done (Inr (PhysMem s parentEntry AND PAGE_MASK), newTables,
                  promotions @ [\<lparr>PromotedEntry = parentEntry, AddedFlags = PTE_USER\<rparr>], s)
     else Done (Inr (PhysMem s parentEntry AND PAGE_MASK), newTables, promotions, s))"

definition KiWalkImportedRoot ::
  "KE_KERNEL_ADDRESS_SPACE option \<Rightarrow> HO_VIRTUAL_ADDRESS \<Rightarrow> 'a vm_globals_scheme \<Rightarrow> KE_PT_WALK result" where
  "KiWalkImportedRoot space virtAddr s =
    (case space of
       None \<Rightarrow> Inl EC_ILLEGAL_ARGUMENT
     | Some sp \<Rightarrow>
       if \<not> SpaceInitialized sp then Inl EC_INVALID_STATE
       else if \<not> HO_IS_ALIGNED virtAddr PAGE_4KB then Inl EC_ILLEGAL_ARGUMENT
       else
         let m = PhysMem s;
             pml4 = RootPageTablePhys sp;
             pml4Entry = entry_at pml4 (PML4_INDEX virtAddr);
             walk = zero_walk\<lparr>Pml4 := Some pml4, Pml4Entry := Some pml4Entry\<rparr>
         in if m pml4Entry AND PTE_PRESENT = 0 then Inr walk
         else
         let pdpt = m pml4Entry AND PAGE_MASK;
             pdptEntry = entry_at pdpt (PDPT_INDEX virtAddr);
             walk = walk\<lparr>Pdpt := Some pdpt, PdptEntry := Some pdptEntry\<rparr>
         in if m pdptEntry AND PTE_PRESENT = 0 then Inr walk
         else if m pdptEntry AND PTE_PAGE_SIZE \<noteq> 0 then
           Inr (walk\<lparr>LeafEntry := Some pdptEntry, LeafValue := m pdptEntry, WalkLevel := 3, WalkPageSize := PAGE_1GB,
                     LeafVirtBase := virtAddr AND NOT (PAGE_1GB - 1),
                     LeafPhysBase := KiLeafPhysBase (m pdptEntry) PAGE_1GB + (virtAddr AND (PAGE_1GB - 1))\<rparr>)
         else
         let pd = m pdptEntry AND PAGE_MASK;
             pdEntry = entry_at pd (PD_INDEX virtAddr);
             walk = walk\<lparr>Pd := Some pd, PdEntry := Some pdEntry\<rparr>
         in if m pdEntry AND PTE_PRESENT = 0 then Inr walk
         else if m pdEntry AND PTE_PAGE_SIZE \<noteq> 0 then
           Inr (walk\<lparr>LeafEntry := Some pdEntry, LeafValue := m pdEntry, WalkLevel := 2, WalkPageSize := PAGE_2MB,
                     LeafVirtBase := virtAddr AND NOT (PAGE_2MB - 1),
                     LeafPhysBase := KiLeafPhysBase (m pdEntry) PAGE_2MB + (virtAddr AND (PAGE_2MB - 1))\<rparr>)
         else
         let pt = m pdEntry AND PAGE_MASK;
             ptEntry = entry_at pt (PT_INDEX virtAddr);
             walk = walk\<lparr>Pt := Some pt, PtEntry := Some ptEntry\<rparr>
         in if m ptEntry AND PTE_PRESENT = 0 then Inr walk
         else
           Inr (walk\<lparr>LeafEntry := Some ptEntry, LeafValue := m ptEntry, WalkLevel := 1, WalkPageSize := PAGE_4KB,
                     LeafVirtBase := virtAddr,
                     LeafPhysBase := m ptEntry AND KE_PT_PHYS_ADDR_MASK\<rparr>))"

definition KePtQueryPage ::
  "KE_KERNEL_ADDRESS_SPACE option \<Rightarrow> HO_VIRTUAL_ADDRESS \<Rightarrow> 'a vm_globals_scheme \<Rightarrow> KE_PT_MAPPING result" where
  "KePtQueryPage space virtAddr s =
    (case KiWalkImportedRoot space virtAddr s of
       Inl status \<Rightarrow> Inl status
     | Inr walk \<Rightarrow>
       if LeafEntry walk = None then Inr zero_mapping
       else Inr \<lparr>Present = True, LargeLeaf = WalkLevel walk > 1, UserAccessible = KiIsWalkUserAccessible walk s,
                 MapLevel = WalkLevel walk, MapPageSize = WalkPageSize walk, PhysicalBase = LeafPhysBase walk,
                 MapAttributes = LeafValue walk\<rparr>)"

text \<open>The last step of every edit: \<open>invlpg\<close> when the edited root is the active one.\<close>

definition invalidate_if_active :: "HO_PHYSICAL_ADDRESS \<Rightarrow> HO_VIRTUAL_ADDRESS \<Rightarrow> 'a vm_globals_scheme \<Rightarrow> 'a vm_globals_scheme" where
  "invalidate_if_active root virtAddr s = (if KiReadCr3 s = root then KiInvalidatePage virtAddr s else s)"

definition KePtMapPage ::
  "KE_KERNEL_ADDRESS_SPACE option \<Rightarrow> HO_VIRTUAL_ADDRESS \<Rightarrow> HO_PHYSICAL_ADDRESS \<Rightarrow> u64 \<Rightarrow> 'a vm_globals_scheme \<Rightarrow>
   (ho_status \<times> 'a vm_globals_scheme) outcome" where
  "KePtMapPage space virtAddr physAddr attributes s =
    (case space of
       None \<Rightarrow> Done (EC_ILLEGAL_ARGUMENT, s)
     | Some sp \<Rightarrow>
       if \<not> SpaceInitialized sp then Done (EC_INVALID_STATE, s)
       else if \<not> HO_IS_ALIGNED virtAddr PAGE_4KB \<or> \<not> HO_IS_ALIGNED physAddr PAGE_4KB then Done (EC_ILLEGAL_ARGUMENT, s)
       else
         let pml4Entry = entry_at (RootPageTablePhys sp) (PML4_INDEX virtAddr) in
         bind_outcome (KiEnsureChildTable pml4Entry attributes [] [] s) (\<lambda>(r, newTables, promotions, s).
         case r of
           Inl status \<Rightarrow> Done (status, s)
         | Inr pdpt \<Rightarrow>
           let pdptEntry = entry_at pdpt (PDPT_INDEX virtAddr) in
           bind_outcome (KiEnsureChildTable pdptEntry attributes newTables promotions s) (\<lambda>(r, newTables, promotions, s).
           case r of
             Inl status \<Rightarrow> Done (status, KiRollbackMapSetup newTables promotions s)
           | Inr pd \<Rightarrow>
             let pdEntry = entry_at pd (PD_INDEX virtAddr) in
             bind_outcome (KiEnsureChildTable pdEntry attributes newTables promotions s) (\<lambda>(r, newTables, promotions, s).
             case r of
               Inl status \<Rightarrow> Done (status, KiRollbackMapSetup newTables promotions s)
             | Inr pt \<Rightarrow>
               let ptEntry = entry_at pt (PT_INDEX virtAddr) in
               if PhysMem s ptEntry AND PTE_PRESENT \<noteq> 0
               then Done (EC_INVALID_STATE, KiRollbackMapSetup newTables promotions s)
               else
                 let s = set_entry ptEntry
                           ((physAddr AND PAGE_MASK) OR (attributes AND KE_PT_ALLOWED_LEAF_FLAGS) OR PTE_PRESENT) s
                 in Done (EC_SUCCESS, invalidate_if_active (RootPageTablePhys sp) virtAddr s)))))"

definition KePtUnmapPage ::
  "KE_KERNEL_ADDRESS_SPACE option \<Rightarrow> HO_VIRTUAL_ADDRESS \<Rightarrow> 'a vm_globals_scheme \<Rightarrow> ho_status \<times> 'a vm_globals_scheme" where
  "KePtUnmapPage space virtAddr s =
    (case space of
       None \<Rightarrow> (EC_ILLEGAL_ARGUMENT, s)
     | Some sp \<Rightarrow>
       (case KiWalkImportedRoot space virtAddr s of
          Inl status \<Rightarrow> (status, s)
        | Inr walk \<Rightarrow>
          (case LeafEntry walk of
             None \<Rightarrow> (EC_INVALID_STATE, s)
           | Some leaf \<Rightarrow>
             if WalkLevel walk \<noteq> 1 then (EC_NOT_SUPPORTED, s)
             else (EC_SUCCESS, invalidate_if_active (RootPageTablePhys sp) virtAddr (set_entry leaf 0 s)))))"

definition KePtProtectPage ::
  "KE_KERNEL_ADDRESS_SPACE option \<Rightarrow> HO_VIRTUAL_ADDRESS \<Rightarrow> u64 \<Rightarrow> 'a vm_globals_scheme \<Rightarrow> ho_status \<times> 'a vm_globals_scheme" where
  "KePtProtectPage space virtAddr attributes s =
    (case space of
       None \<Rightarrow> (EC_ILLEGAL_ARGUMENT, s)
     | Some sp \<Rightarrow>
       (case KiWalkImportedRoot space virtAddr s of
          Inl status \<Rightarrow> (status, s)
        | Inr walk \<Rightarrow>
          (case LeafEntry walk of
             None \<Rightarrow> (EC_INVALID_STATE, s)
           | Some leaf \<Rightarrow>
             if WalkLevel walk \<noteq> 1 then (EC_NOT_SUPPORTED, s)
             else
               let preserved = (LeafValue walk AND KE_PT_PHYS_ADDR_MASK) OR (LeafValue walk AND (PTE_ACCESSED OR PTE_DIRTY));
                   s = set_entry leaf (preserved OR (attributes AND KE_PT_ALLOWED_LEAF_FLAGS) OR PTE_PRESENT) s
               in (EC_SUCCESS, invalidate_if_active (RootPageTablePhys sp) virtAddr s))))"

section \<open>Address-space objects\<close>

definition KeGetKernelAddressSpace :: "'a vm_globals_scheme \<Rightarrow> KE_KERNEL_ADDRESS_SPACE option" where
  "KeGetKernelAddressSpace s =
    (if SpaceInitialized (gKernelAddressSpace s) then Some (gKernelAddressSpace s) else None)"

definition region_of_entry :: "BOOT_MAPPING_MANIFEST_ENTRY \<Rightarrow> KE_IMPORTED_REGION" where
  "region_of_entry e =
    \<lparr>VirtualStart = EntryVirtualStart e, VirtualEndExclusive = EntryVirtualStart e + EntrySize e,
     PhysicalStart = EntryPhysicalStart e, PhysicalEndExclusive = EntryPhysicalStart e + EntrySize e,
     RegionSize = EntrySize e, RegionAttributes = EntryAttributes e, ProvenanceValue = EntryProvenanceValue e,
     RegionType = EntryType e, Provenance = EntryProvenance e, Lifetime = EntryLifetime e,
     Granularity = EntryGranularity e, BootOwned = KiIsBootOwnedLifetime (EntryLifetime e), Pinned = True\<rparr>"

text \<open>
  \<open>KeImportKernelAddressSpace\<close>, given the page-table information of the capsule and the entries
  of the manifest (null pointers are \<open>None\<close>). A \<^verbatim>\<open>KE_IMPORTED_REGION\<close> takes 64 bytes.
\<close>

definition KeImportKernelAddressSpace ::
  "PAGE_TABLE_INFO option \<Rightarrow> BOOT_MAPPING_MANIFEST_ENTRY list option \<Rightarrow> 'a vm_globals_scheme \<Rightarrow>
   (ho_status \<times> 'a vm_globals_scheme) outcome" where
  "KeImportKernelAddressSpace capsule manifest s =
    (case (capsule, manifest) of
       (Some pti, Some entries) \<Rightarrow>
         if SpaceInitialized (gKernelAddressSpace s) then Done (EC_INVALID_STATE, s)
         else
           let activeRoot = KiReadCr3 s; handoffRoot = PtiPtr pti AND PAGE_MASK in
           if activeRoot \<noteq> handoffRoot then Done (EC_INVALID_STATE, s)
           else
             let entryCount = word_of_nat (length entries) :: u32;
                 regionArrayBytes = ucast entryCount * 64 :: u64 in
             bind_outcome
               (if entryCount \<noteq> 0
                then KePmmAllocPages s (drop_bit PAGE_SHIFT (HO_ALIGN_UP regionArrayBytes PAGE_4KB)) None
                else Done (Inr 0, s)) (\<lambda>(r, s).
             case r of
               Inl status \<Rightarrow> Done (status, s)
             | Inr regionArrayPhys \<Rightarrow>
               let regions = map region_of_entry entries;
                   bootOwnedCount = word_of_nat (length (filter BootOwned regions));
                   pinnedCount = word_of_nat (length (filter Pinned regions));
                   regions = KiSortImportedRegions regions
               in if \<exists>region \<in> set regions. BootOwned region \<and> \<not> Pinned region then Done (EC_INVALID_STATE, s)
               else Done (EC_SUCCESS, s\<lparr>gKernelAddressSpace :=
                   \<lparr>RootPageTablePhys = handoffRoot, ImportedRootInfo = pti, Regions = regions,
                    RegionArrayPhys = regionArrayPhys, RegionArrayBytes = regionArrayBytes, RegionCount = entryCount,
                    BootOwnedRegionCount = bootOwnedCount, PinnedRegionCount = pinnedCount, SpaceInitialized = True\<rparr>\<rparr>))
     | _ \<Rightarrow> Done (EC_ILLEGAL_ARGUMENT, s))"

definition KeFindImportedRegion :: "KE_KERNEL_ADDRESS_SPACE option \<Rightarrow> HO_VIRTUAL_ADDRESS \<Rightarrow> KE_IMPORTED_REGION option" where
  "KeFindImportedRegion space virtAddr =
    (case space of
       None \<Rightarrow> None
     | Some sp \<Rightarrow>
       if \<not> SpaceInitialized sp then None
       else fold (\<lambda>region best.
           if virtAddr < VirtualStart region \<or> virtAddr \<ge> VirtualEndExclusive region then best
           else case best of
             None \<Rightarrow> Some region
           | Some b \<Rightarrow> if RegionSize region < RegionSize b then Some region else best) (Regions sp) None)"

text \<open>The copy of entries 256 to 511 of the imported root.\<close>

definition KiCopyImportedKernelHighHalfMappings ::
  "HO_PHYSICAL_ADDRESS \<Rightarrow> HO_PHYSICAL_ADDRESS \<Rightarrow> 'a vm_globals_scheme \<Rightarrow> 'a vm_globals_scheme" where
  "KiCopyImportedKernelHighHalfMappings destinationPml4 sourcePml4 s =
    s\<lparr>PhysMem := (\<lambda>a. let off = a - entry_at destinationPml4 (ENTRIES_PER_TABLE div 2) in
       if off < (ENTRIES_PER_TABLE - ENTRIES_PER_TABLE div 2) * 8
       then PhysMem s (entry_at sourcePml4 (ENTRIES_PER_TABLE div 2) + off) else PhysMem s a)\<rparr>"

definition KeCreateProcessAddressSpace ::
  "'a vm_globals_scheme \<Rightarrow> (KE_PROCESS_ADDRESS_SPACE result \<times> 'a vm_globals_scheme) outcome" where
  "KeCreateProcessAddressSpace s =
    (if \<not> SpaceInitialized (gKernelAddressSpace s) then Done (Inl EC_INVALID_STATE, s)
     else bind_outcome (KePmmAllocPages s 1 None) (\<lambda>(r, s).
       case r of
         Inl status \<Rightarrow> Done (Inl status, s)
       | Inr rootPageTablePhys \<Rightarrow>
         let s = zero_page rootPageTablePhys s;
             s = KiCopyImportedKernelHighHalfMappings rootPageTablePhys (RootPageTablePhys (gKernelAddressSpace s)) s
         in Done (Inr \<lparr>PrivateRootPhys = rootPageTablePhys, PrivateInitialized = True\<rparr>, s)))"

text \<open>
  \<open>KiDestroyOwnedPageTableSubtree\<close>, on a table of the given level; freeing a frame does not
  change its contents.
\<close>

definition keep_first :: "ho_status \<Rightarrow> ho_status \<Rightarrow> ho_status" where
  "keep_first firstError status = (if status \<noteq> EC_SUCCESS \<and> firstError = EC_SUCCESS then status else firstError)"

definition free_table :: "HO_PHYSICAL_ADDRESS \<Rightarrow> ho_status \<times> 'a vm_globals_scheme \<Rightarrow> ho_status \<times> 'a vm_globals_scheme" where
  "free_table tablePhys acc =
    (case acc of (firstError, s) \<Rightarrow> case KePmmFreePages s tablePhys 1 of (st, s) \<Rightarrow> (keep_first firstError st, s))"

fun KiDestroyOwnedPageTableSubtree ::
  "HO_PHYSICAL_ADDRESS \<Rightarrow> nat \<Rightarrow> 'a vm_globals_scheme \<Rightarrow> ho_status \<times> 'a vm_globals_scheme" where
  "KiDestroyOwnedPageTableSubtree tablePhys 0 s = free_table tablePhys (EC_SUCCESS, s)"
| "KiDestroyOwnedPageTableSubtree tablePhys (Suc level) s =
    free_table tablePhys
      (if level > 0 then
         fold (\<lambda>idx (firstError, s).
           let entry = PhysMem s (entry_at tablePhys (word_of_nat idx)) in
           if entry AND PTE_PRESENT = 0 then (firstError, s)
           else if entry AND PTE_PAGE_SIZE \<noteq> 0 then (firstError, s)
           else case KiDestroyOwnedPageTableSubtree (entry AND PAGE_MASK) level s of
             (childStatus, s) \<Rightarrow> (keep_first firstError childStatus, s)) [0..<512] (EC_SUCCESS, s)
       else (EC_SUCCESS, s))"

definition KeDestroyProcessAddressSpace ::
  "KE_PROCESS_ADDRESS_SPACE option \<Rightarrow> 'a vm_globals_scheme \<Rightarrow>
   ho_status \<times> KE_PROCESS_ADDRESS_SPACE option \<times> 'a vm_globals_scheme" where
  "KeDestroyProcessAddressSpace space s =
    (case space of
       None \<Rightarrow> (EC_ILLEGAL_ARGUMENT, space, s)
     | Some sp \<Rightarrow>
       if \<not> PrivateInitialized sp then (EC_INVALID_STATE, space, s)
       else if KiReadCr3 s = PrivateRootPhys sp then (EC_INVALID_STATE, space, s)
       else
         case free_table (PrivateRootPhys sp)
           (fold (\<lambda>idx (firstError, s).
              let entry = PhysMem s (entry_at (PrivateRootPhys sp) (word_of_nat idx)) in
              if entry AND PTE_PRESENT = 0 then (firstError, s)
              else if entry AND PTE_PAGE_SIZE \<noteq> 0 then (firstError, s)
              else case KiDestroyOwnedPageTableSubtree (entry AND PAGE_MASK) 3 s of
                (childStatus, s) \<Rightarrow> (keep_first firstError childStatus, s)) [0..<256] (EC_SUCCESS, s))
         of (status, s) \<Rightarrow> (status, Some \<lparr>PrivateRootPhys = 0, PrivateInitialized = False\<rparr>, s))"

definition KeQueryActiveRootPageTable :: "'a vm_globals_scheme \<Rightarrow> HO_PHYSICAL_ADDRESS" where
  "KeQueryActiveRootPageTable s = KiReadCr3 s"

definition KeSwitchAddressSpace_vm :: "HO_PHYSICAL_ADDRESS \<Rightarrow> 'a vm_globals_scheme \<Rightarrow> ho_status \<times> 'a vm_globals_scheme" where
  "KeSwitchAddressSpace_vm rootPageTablePhys s =
    (if rootPageTablePhys = 0 \<or> \<not> HO_IS_ALIGNED rootPageTablePhys PAGE_4KB then (EC_ILLEGAL_ARGUMENT, s)
     else if KiReadCr3 s = rootPageTablePhys then (EC_SUCCESS, s)
     else (EC_SUCCESS, s\<lparr>ActiveCr3 := rootPageTablePhys\<rparr>))"

definition KiValidatePrivateRootLayout ::
  "KE_KERNEL_ADDRESS_SPACE \<Rightarrow> KE_PROCESS_ADDRESS_SPACE \<Rightarrow> 'a vm_globals_scheme \<Rightarrow> ho_status" where
  "KiValidatePrivateRootLayout space privateSpace s =
    (let privateRoot = \<lambda>idx. PhysMem s (entry_at (PrivateRootPhys privateSpace) (word_of_nat idx));
         importedRoot = \<lambda>idx. PhysMem s (entry_at (RootPageTablePhys space) (word_of_nat idx))
     in if \<exists>idx \<in> set [0..<256]. privateRoot idx \<noteq> 0 then EC_INVALID_STATE
        else if \<exists>idx \<in> set [256..<512]. privateRoot idx \<noteq> importedRoot idx then EC_INVALID_STATE
        else EC_SUCCESS)"

text \<open>
  \<open>KiFindScratchHole\<close> skips imported regions and mapped leaves; nothing bounds the loop, which
  runs for ever when a region ends by wrapping around.
\<close>

partial_function (option) KiFindScratchHole_from ::
  "KE_KERNEL_ADDRESS_SPACE \<Rightarrow> 'a vm_globals_scheme \<Rightarrow> HO_VIRTUAL_ADDRESS \<Rightarrow> HO_VIRTUAL_ADDRESS result option" where
  "KiFindScratchHole_from sp s candidate =
    (if candidate < MMIO_BASE_VA then
       (case find (\<lambda>region. \<not> (candidate < VirtualStart region \<or> candidate \<ge> VirtualEndExclusive region)) (Regions sp) of
          Some region \<Rightarrow> KiFindScratchHole_from sp s (HO_ALIGN_UP (VirtualEndExclusive region) PAGE_4KB)
        | None \<Rightarrow>
          (case KiWalkImportedRoot (Some sp) candidate s of
             Inl status \<Rightarrow> Some (Inl status)
           | Inr walk \<Rightarrow>
             if LeafEntry walk = None then Some (Inr candidate)
             else KiFindScratchHole_from sp s (HO_ALIGN_UP (LeafVirtBase walk + WalkPageSize walk) PAGE_4KB)))
     else Some (Inl EC_NOT_SUPPORTED))"

declare KiFindScratchHole_from.simps [code]

definition KiFindScratchHole ::
  "KE_KERNEL_ADDRESS_SPACE option \<Rightarrow> 'a vm_globals_scheme \<Rightarrow> HO_VIRTUAL_ADDRESS result outcome" where
  "KiFindScratchHole space s =
    (case space of
       None \<Rightarrow> Done (Inl EC_ILLEGAL_ARGUMENT)
     | Some sp \<Rightarrow> outcome_of_option (KiFindScratchHole_from sp s HHDM_BASE_VA))"

end
