(* ===== verification/PageTables.thy ===== *)
theory PageTables
  imports AddressSpace
begin

text \<open>
  The page tables as a translation. \<open>node\<close> is the table a walk reaches at a depth, \<open>leaf\<close> the
  entry it ends at; \<open>pt_ok\<close> says that the tables of a root form a tree of frames the allocator
  does not consider free. Under it each edit changes the translation of one page only.
\<close>

named_theorems pt_simps \<open>reading page tables\<close>

section \<open>Words\<close>

lemma aligned_room:
  fixes t :: u64
  assumes "unat t mod 4096 = 0"
  shows "unat t + 4096 \<le> 18446744073709551616"
proof -
  obtain k where k: "unat t = 4096 * k" using assms by (metis dvd_def mod_0_imp_dvd)
  have "4096 * k < 4096 * 4503599627370496" using unat_lt_64 [of t] k by simp
  then have "k < 4503599627370496" by simp
  then show ?thesis using k by simp
qed

lemma unat_entry_at:
  assumes "unat t mod 4096 = 0" "i < ENTRIES_PER_TABLE"
  shows "unat (entry_at t i) = unat t + 8 * unat i"
proof -
  have i: "unat i < 512" using assms(2) by (simp add: word_less_nat_alt ENTRIES_PER_TABLE_def)
  have t: "unat t + 4096 \<le> 18446744073709551616" by (rule aligned_room [OF assms(1)])
  have e: "unat (8 * i) = 8 * unat i" using i by (simp add: unat_word_ariths)
  show ?thesis unfolding entry_at_def by (subst unat_add_small) (use e i t in simp_all)
qed

lemma entry_at_div:
  assumes "unat t mod 4096 = 0" "i < ENTRIES_PER_TABLE"
  shows "unat (entry_at t i) div 4096 = unat t div 4096" "unat (entry_at t i) mod 4096 = 8 * unat i"
proof -
  have i: "unat i < 512" using assms(2) by (simp add: word_less_nat_alt ENTRIES_PER_TABLE_def)
  obtain k where k: "unat t = 4096 * k" using assms(1) by (metis dvd_def mod_0_imp_dvd)
  show "unat (entry_at t i) div 4096 = unat t div 4096" "unat (entry_at t i) mod 4096 = 8 * unat i"
    using unat_entry_at [OF assms] i k by simp_all
qed

lemma entry_at_inj:
  assumes "HO_IS_ALIGNED t PAGE_4KB" "HO_IS_ALIGNED u PAGE_4KB" "i < ENTRIES_PER_TABLE" "j < ENTRIES_PER_TABLE"
  shows "entry_at t i = entry_at u j \<longleftrightarrow> t = u \<and> i = j"
proof
  assume e: "entry_at t i = entry_at u j"
  have "unat t mod 4096 = 0" "unat u mod 4096 = 0" using assms by (simp_all add: is_aligned_4KB_iff)
  then have "unat t div 4096 = unat u div 4096" "8 * unat i = 8 * unat j"
    using entry_at_div e assms(3,4) by metis+
  then have "unat t = unat u" "unat i = unat j"
    using \<open>unat t mod 4096 = 0\<close> \<open>unat u mod 4096 = 0\<close> by (metis div_mod_decomp, simp)
  then show "t = u \<and> i = j" by (simp add: unat_eqI)
qed simp

lemma entry_in_page:
  assumes "HO_IS_ALIGNED t PAGE_4KB" "HO_IS_ALIGNED p PAGE_4KB" "i < ENTRIES_PER_TABLE"
  shows "entry_at t i - p < PAGE_4KB \<longleftrightarrow> t = p"
proof
  have al: "unat t mod 4096 = 0" "unat p mod 4096 = 0" using assms by (simp_all add: is_aligned_4KB_iff)
  assume lt: "entry_at t i - p < PAGE_4KB"
  define x where "x = entry_at t i - p"
  have e: "entry_at t i = p + x" by (simp add: x_def)
  have x: "unat x < 4096" using lt by (simp add: x_def word_less_nat_alt PAGE_4KB_def)
  have "unat p + 4096 \<le> 18446744073709551616" by (rule aligned_room [OF al(2)])
  then have "unat (p + x) = unat p + unat x" using x by (simp add: unat_add_small)
  moreover obtain k where "unat p = 4096 * k" using al(2) by (metis dvd_def mod_0_imp_dvd)
  ultimately have "unat (p + x) div 4096 = unat p div 4096" using x by simp
  then have "unat t div 4096 = unat p div 4096" using entry_at_div(1) [OF al(1) assms(3)] e by simp
  then show "t = p" using al by (metis div_mod_decomp unat_eqI)
next
  assume "t = p"
  have "unat (8 * i) < 4096" using assms(3) by (simp add: unat_word_ariths word_less_nat_alt ENTRIES_PER_TABLE_def)
  then show "entry_at t i - p < PAGE_4KB"
    using \<open>t = p\<close> by (simp add: entry_at_def word_less_nat_alt PAGE_4KB_def)
qed

lemma PAGE_MASK_aligned [simp]: "HO_IS_ALIGNED (a AND PAGE_MASK) PAGE_4KB"
proof -
  have "(a AND PAGE_MASK) AND (PAGE_4KB - 1) = 0"
    unfolding PAGE_MASK_def by (rule bit_word_eqI) (auto simp: bit_simps)
  then show ?thesis by (simp add: HO_IS_ALIGNED_def)
qed

lemma PAGE_MASK_mask: "PAGE_MASK = NOT (mask 12)" "PAGE_4KB - 1 = mask 12"
  by (simp_all add: PAGE_MASK_def PAGE_4KB_def mask_eq_decr_exp)

lemma bit_u64_lt: "bit (a :: u64) n \<Longrightarrow> n < 64"
  using bit_imp_le_length [of a n] by simp

lemma aligned_bits: "HO_IS_ALIGNED p PAGE_4KB \<longleftrightarrow> (\<forall>n<12. \<not> bit p n)"
  unfolding HO_IS_ALIGNED_def PAGE_MASK_mask by (auto simp: bit_eq_iff bit_simps) (meson bit_u64_lt)

lemma low_bits: "f AND PAGE_MASK = 0 \<longleftrightarrow> (\<forall>n\<ge>12. \<not> bit (f :: u64) n)"
  unfolding PAGE_MASK_mask by (auto simp: bit_eq_iff bit_simps) (meson bit_u64_lt linorder_not_le, meson linorder_not_le)

lemma PAGE_MASK_or:
  assumes "HO_IS_ALIGNED p PAGE_4KB" "f AND PAGE_MASK = 0"
  shows "(p OR f) AND PAGE_MASK = p"
  using assms unfolding aligned_bits low_bits
  by (intro bit_word_eqI) (auto simp: PAGE_MASK_mask bit_simps not_less)

lemma aligned_low_bits:
  assumes "HO_IS_ALIGNED p PAGE_4KB" "f AND PAGE_MASK = 0"
  shows "p AND f = 0"
  using assms unfolding aligned_bits low_bits by (intro bit_word_eqI) (auto simp: bit_simps, meson not_le)

lemma low_flags [simp]:
  "PTE_PRESENT AND PAGE_MASK = 0" "PTE_WRITABLE AND PAGE_MASK = 0" "PTE_USER AND PAGE_MASK = 0" "PTE_PAGE_SIZE AND PAGE_MASK = 0"
  by (simp_all add: PTE_PRESENT_def PTE_WRITABLE_def PTE_USER_def PTE_PAGE_SIZE_def PAGE_MASK_def PAGE_4KB_def)

section \<open>Nodes and leaves\<close>

text \<open>The index a walk uses at a depth (0 for the root), what a non-leaf entry links to, and the value of a leaf.\<close>

definition vidx :: "nat \<Rightarrow> HO_VIRTUAL_ADDRESS \<Rightarrow> u64" where
  "vidx d va = drop_bit (39 - 9 * d) va AND (ENTRIES_PER_TABLE - 1)"

definition link :: "nat \<Rightarrow> PAGE_TABLE_ENTRY \<Rightarrow> HO_PHYSICAL_ADDRESS option" where
  "link d e = (if e AND PTE_PRESENT = 0 \<or> (0 < d \<and> e AND PTE_PAGE_SIZE \<noteq> 0) then None else Some (e AND PAGE_MASK))"

definition leafval :: "nat \<Rightarrow> PAGE_TABLE_ENTRY \<Rightarrow> PAGE_TABLE_ENTRY option" where
  "leafval d e = (if e AND PTE_PRESENT \<noteq> 0 \<and> (d = 3 \<or> 0 < d \<and> e AND PTE_PAGE_SIZE \<noteq> 0) then Some e else None)"

primrec node :: "(HO_PHYSICAL_ADDRESS \<Rightarrow> u64) \<Rightarrow> HO_PHYSICAL_ADDRESS \<Rightarrow> nat \<Rightarrow> HO_VIRTUAL_ADDRESS \<Rightarrow> HO_PHYSICAL_ADDRESS option" where
  "node m root 0 va = Some root"
| "node m root (Suc d) va = Option.bind (node m root d va) (\<lambda>t. link d (m (entry_at t (vidx d va))))"

definition leaf_at :: "(HO_PHYSICAL_ADDRESS \<Rightarrow> u64) \<Rightarrow> HO_PHYSICAL_ADDRESS \<Rightarrow> nat \<Rightarrow> HO_VIRTUAL_ADDRESS \<Rightarrow> PAGE_TABLE_ENTRY option" where
  "leaf_at m root d va = Option.bind (node m root d va) (\<lambda>t. leafval d (m (entry_at t (vidx d va))))"

definition leaf :: "(HO_PHYSICAL_ADDRESS \<Rightarrow> u64) \<Rightarrow> HO_PHYSICAL_ADDRESS \<Rightarrow> HO_VIRTUAL_ADDRESS \<Rightarrow> (nat \<times> PAGE_TABLE_ENTRY) option" where
  "leaf m root va =
    (case leaf_at m root 1 va of Some e \<Rightarrow> Some (1, e)
     | None \<Rightarrow> (case leaf_at m root 2 va of Some e \<Rightarrow> Some (2, e)
     | None \<Rightarrow> map_option (Pair 3) (leaf_at m root 3 va)))"

definition user_entry :: "PAGE_TABLE_ENTRY \<Rightarrow> bool" where
  "user_entry e \<longleftrightarrow> e AND (PTE_PRESENT OR PTE_USER) = (PTE_PRESENT OR PTE_USER)"

definition user_at :: "(HO_PHYSICAL_ADDRESS \<Rightarrow> u64) \<Rightarrow> HO_PHYSICAL_ADDRESS \<Rightarrow> nat \<Rightarrow> HO_VIRTUAL_ADDRESS \<Rightarrow> bool" where
  "user_at m root d va = (case node m root d va of None \<Rightarrow> False | Some t \<Rightarrow> user_entry (m (entry_at t (vidx d va))))"

text \<open>What \<open>KePtQueryPage\<close> reports of a leaf.\<close>

definition leaf_mapping :: "HO_VIRTUAL_ADDRESS \<Rightarrow> nat \<times> PAGE_TABLE_ENTRY \<Rightarrow> bool \<Rightarrow> KE_PT_MAPPING" where
  "leaf_mapping va l u =
    (case l of (d, e) \<Rightarrow>
     let size = (if d = 1 then PAGE_1GB else if d = 2 then PAGE_2MB else PAGE_4KB) in
     \<lparr>Present = True, LargeLeaf = d < 3, UserAccessible = u, MapLevel = (if d = 1 then 3 else if d = 2 then 2 else 1),
      MapPageSize = size,
      PhysicalBase = (if d = 3 then e AND KE_PT_PHYS_ADDR_MASK else KiLeafPhysBase e size + (va AND (size - 1))),
      MapAttributes = e\<rparr>)"

definition page_mapping :: "(HO_PHYSICAL_ADDRESS \<Rightarrow> u64) \<Rightarrow> HO_PHYSICAL_ADDRESS \<Rightarrow> HO_VIRTUAL_ADDRESS \<Rightarrow> KE_PT_MAPPING" where
  "page_mapping m root va =
    (case leaf m root va of None \<Rightarrow> zero_mapping
     | Some l \<Rightarrow> leaf_mapping va l (\<forall>j\<le>fst l. user_at m root j va))"

lemma vidx_lt [simp]: "vidx d va < ENTRIES_PER_TABLE"
proof -
  have "vidx d va = take_bit 9 (drop_bit (39 - 9 * d) va)"
    by (simp add: vidx_def ENTRIES_PER_TABLE_def take_bit_eq_mask mask_eq_decr_exp)
  then show ?thesis using take_bit_less_exp_word [of 9 "drop_bit (39 - 9 * d) va"] by (simp add: ENTRIES_PER_TABLE_def)
qed

lemma vidx_index: "PML4_INDEX va = vidx 0 va" "PDPT_INDEX va = vidx 1 va" "PD_INDEX va = vidx 2 va" "PT_INDEX va = vidx 3 va"
  by (simp_all add: vidx_def PML4_INDEX_def PDPT_INDEX_def PD_INDEX_def PT_INDEX_def)

lemma link_leafval: "link d e = Some t \<Longrightarrow> d < 3 \<Longrightarrow> leafval d e = None"
  by (auto simp: link_def leafval_def split: if_splits)

lemma node_leaf_above: "node m root (Suc d) va = Some t \<Longrightarrow> d < 3 \<Longrightarrow> leaf_at m root d va = None"
  by (auto simp: leaf_at_def Option.bind_eq_Some_conv dest: link_leafval)

lemma node_steps:
  "node m root 1 va = link 0 (m (entry_at root (vidx 0 va)))"
  "node m root 2 va = Option.bind (node m root 1 va) (\<lambda>t. link 1 (m (entry_at t (vidx 1 va))))"
  "node m root 3 va = Option.bind (node m root 2 va) (\<lambda>t. link 2 (m (entry_at t (vidx 2 va))))"
  using node.simps(2) [of m root 0 va] node.simps(2) [of m root 1 va] node.simps(2) [of m root 2 va]
  by (simp_all add: numeral_2_eq_2 numeral_3_eq_3)

lemma leaf_depth3:
  assumes "node m root 3 va = Some t"
  shows "leaf m root va = map_option (Pair 3) (leafval 3 (m (entry_at t (vidx 3 va))))"
proof -
  obtain t2 where t2: "node m root 2 va = Some t2" "link 2 (m (entry_at t2 (vidx 2 va))) = Some t"
    using assms by (auto simp: node_steps(3) Option.bind_eq_Some_conv)
  then obtain t1 where t1: "node m root 1 va = Some t1" "link 1 (m (entry_at t1 (vidx 1 va))) = Some t2"
    by (auto simp: node_steps(2) Option.bind_eq_Some_conv simp del: node.simps)
  have "leaf_at m root 1 va = None" "leaf_at m root 2 va = None"
    using t1 t2 by (simp_all add: leaf_at_def link_leafval del: One_nat_def)
  then show ?thesis using assms by (simp add: leaf_def leaf_at_def del: One_nat_def)
qed

lemma leaf_none:
  "node m root 1 va = None \<Longrightarrow> leaf m root va = None"
  "node m root 1 va = Some t1 \<Longrightarrow> leaf_at m root 1 va = None \<Longrightarrow> node m root 2 va = None \<Longrightarrow> leaf m root va = None"
  by (simp_all add: leaf_def leaf_at_def node_steps(2,3) del: One_nat_def)

lemma user_reachable: "KiIsUserReachableEntry (Some e) s = user_entry (PhysMem s e)"
  by (simp add: KiIsUserReachableEntry_def user_entry_def)

lemma le_depths: "(\<forall>j\<le>(1::nat). P j) \<longleftrightarrow> P 0 \<and> P 1" "(\<forall>j\<le>(2::nat). P j) \<longleftrightarrow> P 0 \<and> P 1 \<and> P 2"
  "(\<forall>j\<le>(3::nat). P j) \<longleftrightarrow> P 0 \<and> P 1 \<and> P 2 \<and> P 3"
  by (auto simp: le_Suc_eq numeral_2_eq_2 numeral_3_eq_3)


text \<open>The walk finds the leaf.\<close>

lemma KePtQueryPage_mapping:
  assumes "SpaceInitialized sp" "HO_IS_ALIGNED va PAGE_4KB"
  shows "KePtQueryPage (Some sp) va s = Inr (page_mapping (PhysMem s) (RootPageTablePhys sp) va)"
proof -
  let ?m = "PhysMem s" and ?r = "RootPageTablePhys sp"
  note defs = KePtQueryPage_def KiWalkImportedRoot_def Let_def zero_walk_def vidx_index KiIsWalkUserAccessible_def user_reachable
  define e0 where "e0 = ?m (entry_at ?r (vidx 0 va))"
  show ?thesis
  proof (cases "link 0 e0")
    case None
    then have "e0 AND PTE_PRESENT = 0" by (simp add: link_def split: if_splits)
    moreover have "leaf ?m ?r va = None" using None by (intro leaf_none(1)) (simp add: node_steps e0_def del: One_nat_def)
    ultimately show ?thesis using assms by (simp add: defs page_mapping_def e0_def)
  next
    case (Some t1)
    then have p0: "e0 AND PTE_PRESENT \<noteq> 0" "t1 = e0 AND PAGE_MASK" by (auto simp: link_def split: if_splits)
    have n1: "node ?m ?r 1 va = Some t1" using Some by (simp add: node_steps e0_def del: One_nat_def)
    define e1 where "e1 = ?m (entry_at t1 (vidx 1 va))"
    show ?thesis
    proof (cases "link 1 e1")
      case None
      have n2: "node ?m ?r 2 va = None" using None n1 by (simp add: node_steps(2) e1_def del: One_nat_def)
      show ?thesis
      proof (cases "e1 AND PTE_PRESENT = 0")
        case True
        then have "leaf ?m ?r va = None"
          using n1 n2 by (intro leaf_none(2)) (simp_all add: leaf_at_def leafval_def e1_def del: One_nat_def)
        then show ?thesis using assms p0 True by (simp add: defs page_mapping_def e0_def e1_def)
      next
        case False
        then have ps: "e1 AND PTE_PAGE_SIZE \<noteq> 0" using None by (auto simp: link_def split: if_splits)
        have "leaf ?m ?r va = Some (1, e1)"
          using False ps n1 by (simp add: leaf_def leaf_at_def leafval_def e1_def del: One_nat_def)
        then show ?thesis using assms p0 False ps n1
          by (simp add: defs page_mapping_def leaf_mapping_def e0_def e1_def user_at_def le_depths del: One_nat_def)
      qed
    next
      case (Some t2)
      then have p1: "e1 AND PTE_PRESENT \<noteq> 0" "e1 AND PTE_PAGE_SIZE = 0" "t2 = e1 AND PAGE_MASK"
        by (auto simp: link_def split: if_splits)
      have n2: "node ?m ?r 2 va = Some t2" using Some n1 by (simp add: node_steps(2) e1_def del: One_nat_def)
      have l1: "leaf_at ?m ?r 1 va = None" using n1 p1 by (simp add: leaf_at_def leafval_def e1_def del: One_nat_def)
      define e2 where "e2 = ?m (entry_at t2 (vidx 2 va))"
      show ?thesis
      proof (cases "link 2 e2")
        case None
        have n3: "node ?m ?r 3 va = None" using None n2 by (simp add: node_steps(3) e2_def del: One_nat_def)
        show ?thesis
        proof (cases "e2 AND PTE_PRESENT = 0")
          case True
          then have "leaf ?m ?r va = None"
            using l1 n2 n3 by (simp add: leaf_def leaf_at_def leafval_def e2_def del: One_nat_def)
          then show ?thesis using assms p0 p1 True by (simp add: defs page_mapping_def e0_def e1_def e2_def del: One_nat_def)
        next
          case False
          then have ps: "e2 AND PTE_PAGE_SIZE \<noteq> 0" using None by (auto simp: link_def split: if_splits)
          have "leaf ?m ?r va = Some (2, e2)"
            using False ps l1 n2 by (simp add: leaf_def leaf_at_def leafval_def e2_def del: One_nat_def)
          then show ?thesis using assms p0 p1 False ps n1 n2
            by (auto simp: defs page_mapping_def leaf_mapping_def e0_def e1_def e2_def user_at_def le_depths simp del: One_nat_def)
        qed
      next
        case (Some t3)
        then have p2: "e2 AND PTE_PRESENT \<noteq> 0" "e2 AND PTE_PAGE_SIZE = 0" "t3 = e2 AND PAGE_MASK"
          by (auto simp: link_def split: if_splits)
        have n3: "node ?m ?r 3 va = Some t3" using Some n2 by (simp add: node_steps(3) e2_def del: One_nat_def)
        define e3 where "e3 = ?m (entry_at t3 (vidx 3 va))"
        have "leaf ?m ?r va = (if e3 AND PTE_PRESENT = 0 then None else Some (3, e3))"
          using leaf_depth3 [OF n3] by (simp add: leafval_def e3_def)
        then show ?thesis using assms p0 p1 p2 n1 n2 n3
          by (cases "e3 AND PTE_PRESENT = 0")
            (auto simp: defs page_mapping_def leaf_mapping_def e0_def e1_def e2_def e3_def user_at_def le_depths simp del: One_nat_def)
      qed
    qed
  qed
qed

end
