(* ===== verification/PageEdits.thy ===== *)
theory PageEdits
  imports PageTables
begin

text \<open>
  Editing page tables: the effect of a word written to a table, of a new table and of a promoted
  entry on nodes and leaves, the rollback of a failed mapping, and the behaviour of
  \<open>KePtMapPage\<close>, \<open>KePtUnmapPage\<close> and \<open>KePtProtectPage\<close> as changes of the translation.
\<close>

section \<open>The tables of a root form a tree\<close>

definition same_path :: "nat \<Rightarrow> HO_VIRTUAL_ADDRESS \<Rightarrow> HO_VIRTUAL_ADDRESS \<Rightarrow> bool" where
  "same_path d va va' \<longleftrightarrow> (\<forall>j<d. vidx j va = vidx j va')"

abbreviation same_page :: "HO_VIRTUAL_ADDRESS \<Rightarrow> HO_VIRTUAL_ADDRESS \<Rightarrow> bool" where
  "same_page \<equiv> same_path 4"

definition pt_tree :: "(HO_PHYSICAL_ADDRESS \<Rightarrow> u64) \<Rightarrow> HO_PHYSICAL_ADDRESS \<Rightarrow> bool" where
  "pt_tree m root \<longleftrightarrow> HO_IS_ALIGNED root PAGE_4KB \<and>
    (\<forall>d d' va va' t. d \<le> 3 \<longrightarrow> d' \<le> 3 \<longrightarrow> node m root d va = Some t \<longrightarrow> node m root d' va' = Some t \<longrightarrow>
       d = d' \<and> same_path d va va')"

text \<open>The tables of a root.\<close>

definition pt_tables :: "(HO_PHYSICAL_ADDRESS \<Rightarrow> u64) \<Rightarrow> HO_PHYSICAL_ADDRESS \<Rightarrow> HO_PHYSICAL_ADDRESS set" where
  "pt_tables m root = {t. \<exists>d va. d \<le> 3 \<and> node m root d va = Some t}"

definition pt_ok :: "'a vm_globals_scheme \<Rightarrow> HO_PHYSICAL_ADDRESS \<Rightarrow> bool" where
  "pt_ok s root \<longleftrightarrow> pmm_ready s \<and> pt_tree (PhysMem s) root \<and>
    (\<forall>d va t. d \<le> 3 \<longrightarrow> node (PhysMem s) root d va = Some t \<longrightarrow> frames s t \<noteq> Some PMM_PAGE_FREE)"

lemma same_path_refl [simp]: "same_path d va va"
  by (simp add: same_path_def)

lemma same_path_sym: "same_path d va va' \<longleftrightarrow> same_path d va' va"
  by (auto simp: same_path_def)

lemma same_path_Suc: "same_path (Suc d) va va' \<longleftrightarrow> same_path d va va' \<and> vidx d va = vidx d va'"
  by (auto simp: same_path_def less_Suc_eq)

lemma same_page_iff: "same_page va va' \<longleftrightarrow> same_path 3 va va' \<and> vidx 3 va = vidx 3 va'"
  using same_path_Suc [of 3 va va'] by simp

lemma node_cong: "same_path d va va' \<Longrightarrow> node m root d va = node m root d va'"
  by (induction d) (auto simp: same_path_Suc)

lemma node_aligned:
  assumes "HO_IS_ALIGNED root PAGE_4KB" "node m root d va = Some t"
  shows "HO_IS_ALIGNED t PAGE_4KB"
  using assms by (cases d) (auto simp: link_def Option.bind_eq_Some_conv split: if_splits)

lemma pt_treeD:
  assumes "pt_tree m root" "node m root d va = Some t" "d \<le> 3"
  shows "HO_IS_ALIGNED t PAGE_4KB"
    and "node m root d' va' = Some t \<Longrightarrow> d' \<le> 3 \<Longrightarrow> d = d' \<and> same_path d va va'"
  using assms node_aligned by (auto simp: pt_tree_def)

lemma tree_entry_eq:
  assumes "pt_tree m root" "node m root d va = Some t" "node m root d' va' = Some t'" "d \<le> 3" "d' \<le> 3"
  shows "entry_at t' (vidx d' va') = entry_at t (vidx d va) \<longleftrightarrow> d' = d \<and> same_path (Suc d) va va'"
proof -
  have al: "HO_IS_ALIGNED t PAGE_4KB" "HO_IS_ALIGNED t' PAGE_4KB" using assms pt_treeD(1) by blast+
  have "d = d' \<and> same_path d va va'" if "t' = t"
    using pt_treeD(2) [OF assms(1,2,4), of d' va'] assms(3,5) that by blast
  moreover have "t' = t" if "d' = d" "same_path d va va'"
    using node_cong [OF that(2), of m root] assms(2,3) that(1) by simp
  ultimately have "t' = t \<longleftrightarrow> d' = d \<and> same_path d va va'" by blast
  moreover have "entry_at t' (vidx d' va') = entry_at t (vidx d va) \<longleftrightarrow> t' = t \<and> vidx d' va' = vidx d va"
    by (rule entry_at_inj [OF al(2,1)]) simp_all
  ultimately show ?thesis by (auto simp: same_path_Suc)
qed

section \<open>Memory changes and what they leave\<close>

lemma node_same:
  assumes "\<And>d va t. d < 3 \<Longrightarrow> node m root d va = Some t \<Longrightarrow>
      link d (m' (entry_at t (vidx d va))) = link d (m (entry_at t (vidx d va)))"
  shows "d \<le> 3 \<Longrightarrow> node m' root d va = node m root d va"
proof (induction d)
  case (Suc d)
  then show ?case using assms [of d va] by (cases "node m root d va") auto
qed simp

lemma leaf_cong:
  assumes "\<And>d. 0 < d \<Longrightarrow> d \<le> 3 \<Longrightarrow> leaf_at m' root d va = leaf_at m root d va"
  shows "leaf m' root va = leaf m root va"
  using assms [of 1] assms [of 2] assms [of 3] by (simp add: leaf_def split: option.split)

lemma leaf_same:
  assumes "\<And>d. d \<le> 3 \<Longrightarrow> node m' root d va = node m root d va"
    and "\<And>d t. 0 < d \<Longrightarrow> d \<le> 3 \<Longrightarrow> node m root d va = Some t \<Longrightarrow>
      leafval d (m' (entry_at t (vidx d va))) = leafval d (m (entry_at t (vidx d va)))"
  shows "leaf m' root va = leaf m root va"
proof -
  have "leaf_at m' root d va = leaf_at m root d va" if "0 < d" "d \<le> 3" for d
    using assms(1) [OF that(2)] assms(2) [OF that] by (cases "node m root d va") (auto simp: leaf_at_def)
  then show ?thesis by (rule leaf_cong)
qed

lemma tables_cong: "(\<And>d va. d \<le> 3 \<Longrightarrow> node m' root d va = node m root d va) \<Longrightarrow> pt_tables m' root = pt_tables m root"
  unfolding pt_tables_def by (rule Collect_cong) metis

lemma pt_tree_cong:
  "(\<And>d va. d \<le> 3 \<Longrightarrow> node m' root d va = node m root d va) \<Longrightarrow> pt_tree m' root = pt_tree m root"
  by (simp add: pt_tree_def)

text \<open>Writing a leaf entry.\<close>

lemma leaf_write:
  fixes v :: u64
  assumes "pt_tree m root" "node m root 3 va = Some t"
  defines "m' \<equiv> m(entry_at t (vidx 3 va) := v)"
  shows "d \<le> 3 \<Longrightarrow> node m' root d va' = node m root d va'"
    and "leaf m' root va' = (if same_page va va' then map_option (Pair 3) (leafval 3 v) else leaf m root va')"
    and "d \<le> 3 \<Longrightarrow> d < 3 \<or> \<not> same_page va va' \<Longrightarrow> user_at m' root d va' = user_at m root d va'"
proof -
  have eq: "entry_at t' (vidx d' w) = entry_at t (vidx 3 va) \<longleftrightarrow> d' = 3 \<and> same_page va w"
    if "node m root d' w = Some t'" "d' \<le> 3" for d' w t'
    using tree_entry_eq [OF assms(1,2) that(1) _ that(2)] by (simp add: eval_nat_numeral)
  have n: "node m' root d w = node m root d w" if "d \<le> 3" for d w
    by (rule node_same [OF _ that]) (use eq in \<open>auto simp: m'_def\<close>)
  show "d \<le> 3 \<Longrightarrow> node m' root d va' = node m root d va'" by (rule n)
  show "d \<le> 3 \<Longrightarrow> d < 3 \<or> \<not> same_page va va' \<Longrightarrow> user_at m' root d va' = user_at m root d va'"
    using n [of d va'] eq [of d va'] by (auto simp: user_at_def m'_def split: option.splits)
  show "leaf m' root va' = (if same_page va va' then map_option (Pair 3) (leafval 3 v) else leaf m root va')"
  proof (cases "same_page va va'")
    case True
    then have sp: "same_path 3 va va'" "vidx 3 va = vidx 3 va'" by (simp_all add: same_page_iff)
    then have "node m' root 3 va' = Some t" using n [of 3 va'] node_cong [OF sp(1)] assms(2) by simp
    then show ?thesis using True sp(2) by (simp add: leaf_depth3 m'_def)
  next
    case False
    then have "leaf m' root va' = leaf m root va'"
      using eq [of _ va'] by (intro leaf_same n) (auto simp: m'_def)
    then show ?thesis using False by simp
  qed
qed

text \<open>Linking a fresh, zeroed table.\<close>

lemma link_flags:
  assumes "HO_IS_ALIGNED p PAGE_4KB" "fl = KiIntermediateEntryFlagsForLeaf attrs"
  shows "link d (p OR fl) = Some p" "(p OR fl) AND PTE_PRESENT \<noteq> 0"
    "(p OR fl) AND PTE_USER = (if attrs AND PTE_USER \<noteq> 0 then PTE_USER else 0)"
proof -
  have low: "fl AND PAGE_MASK = 0" unfolding assms(2) KiIntermediateEntryFlagsForLeaf_def
    by (simp add: PTE_PRESENT_def PTE_WRITABLE_def PTE_USER_def PAGE_MASK_def PAGE_4KB_def)
  have z: "p AND PTE_PRESENT = 0" "p AND PTE_PAGE_SIZE = 0" "p AND PTE_USER = 0"
    by (simp_all add: aligned_low_bits [OF assms(1)])
  have d: "(p OR fl) AND x = (p AND x) OR (fl AND x)" for x by (rule bit_word_eqI) (auto simp: bit_simps)
  have f: "fl AND PTE_PRESENT = PTE_PRESENT" "fl AND PTE_PAGE_SIZE = 0"
    "fl AND PTE_USER = (if attrs AND PTE_USER \<noteq> 0 then PTE_USER else 0)"
    unfolding assms(2) KiIntermediateEntryFlagsForLeaf_def
    by (simp_all add: PTE_PRESENT_def PTE_WRITABLE_def PTE_USER_def PTE_PAGE_SIZE_def)
  show "(p OR fl) AND PTE_PRESENT \<noteq> 0" by (simp add: d z f) (simp add: PTE_PRESENT_def)
  then have "link d (p OR fl) = Some ((p OR fl) AND PAGE_MASK)" by (simp add: link_def d z f)
  then show "link d (p OR fl) = Some p" by (simp add: PAGE_MASK_or [OF assms(1) low])
  show "(p OR fl) AND PTE_USER = (if attrs AND PTE_USER \<noteq> 0 then PTE_USER else 0)" by (simp add: d z f)
qed

lemma link_zero [simp]: "link d 0 = None" "leafval d 0 = None" "\<not> user_entry 0"
  by (simp_all add: link_def leafval_def user_entry_def PTE_PRESENT_def PTE_USER_def)

lemma table_write:
  assumes tree: "pt_tree m root" and t: "node m root d va = Some t" "d < 3"
    and absent: "m (entry_at t (vidx d va)) AND PTE_PRESENT = 0"
    and p: "HO_IS_ALIGNED p PAGE_4KB" "\<forall>d va. d \<le> 3 \<longrightarrow> node m root d va \<noteq> Some p"
    and v: "link d v = Some p"
  defines "m' \<equiv> (\<lambda>a. if a - p < PAGE_4KB then 0 else m a)(entry_at t (vidx d va) := v)"
  shows "d' \<le> 3 \<Longrightarrow> node m' root d' va' = (if d' = Suc d \<and> same_path (Suc d) va va' then Some p else node m root d' va')"
    and "leaf m' root va' = leaf m root va'"
    and "pt_tree m' root"
    and "d' \<le> 3 \<Longrightarrow> \<not> (d \<le> d' \<and> same_path (Suc d) va va') \<Longrightarrow> user_at m' root d' va' = user_at m root d' va'"
proof -
  have al: "HO_IS_ALIGNED t PAGE_4KB" using pt_treeD(1) [OF tree t(1)] t(2) by simp
  have tp: "t \<noteq> p" using p(2) t by auto
  have old: "m' (entry_at u (vidx k w)) = (if k = d \<and> same_path (Suc d) va w then v else m (entry_at u (vidx k w)))"
    if "node m root k w = Some u" "k \<le> 3" for k w u
  proof -
    have "HO_IS_ALIGNED u PAGE_4KB" using pt_treeD(1) [OF tree that] .
    moreover have "u \<noteq> p" using p(2) that by auto
    ultimately have "\<not> entry_at u (vidx k w) - p < PAGE_4KB" using entry_in_page p(1) by simp
    then show ?thesis using tree_entry_eq [OF tree t(1) that(1)] t(2) that(2) by (auto simp: m'_def)
  qed
  have new: "m' (entry_at p (vidx k w)) = 0" for k w
    using entry_in_page [OF p(1) p(1), of "vidx k w"] tp entry_at_inj [OF p(1) al] by (auto simp: m'_def)
  have gone: "node m root (Suc d) w = None" if "same_path (Suc d) va w" for w
    using node_cong [OF that, of m root] t absent by (simp add: link_def)
  have n: "node m' root k w = (if k = Suc d \<and> same_path (Suc d) va w then Some p else node m root k w)" if "k \<le> 3" for k w
    using that
  proof (induction k)
    case (Suc k)
    show ?case
    proof (cases "k = Suc d \<and> same_path (Suc d) va w")
      case True
      then show ?thesis using Suc new gone [of w] by simp
    next
      case False
      then have e: "node m' root k w = node m root k w" using Suc.IH Suc.prems by (metis Suc_leD)
      show ?thesis
      proof (cases "node m root k w")
        case None
        then show ?thesis using e t(1) node_cong [of d va w m root] by (auto simp: same_path_Suc)
      next
        case (Some u)
        then show ?thesis using e old [OF Some] Suc.prems v by auto
      qed
    qed
  qed simp
  show "d' \<le> 3 \<Longrightarrow> node m' root d' va' = (if d' = Suc d \<and> same_path (Suc d) va va' then Some p else node m root d' va')"
    by (rule n)
  have leafsame: "leaf_at m' root k w = leaf_at m root k w" if "k \<le> 3" for k w
  proof (cases "node m root k w")
    case None
    then show ?thesis using n [OF that, of w] new by (simp add: leaf_at_def)
  next
    case (Some u)
    then have "\<not> (k = Suc d \<and> same_path (Suc d) va w)" using gone by auto
    moreover have "leafval d v = None" using link_leafval [OF v t(2)] .
    moreover have "leafval d (m (entry_at u (vidx k w))) = None" if "k = d" "same_path (Suc d) va w"
    proof -
      have "u = t" "vidx d w = vidx d va"
        using that Some t(1) node_cong [of d va w m root] by (auto simp: same_path_Suc)
      then show ?thesis using absent that by (simp add: leafval_def)
    qed
    ultimately show ?thesis using Some n [OF that, of w] old [OF Some that] by (auto simp: leaf_at_def)
  qed
  then show "leaf m' root va' = leaf m root va'" by (intro leaf_cong) simp
  show "pt_tree m' root"
    using tree p(2) n by (auto simp: pt_tree_def split: if_splits) (auto simp: same_path_def)
  show "user_at m' root d' va' = user_at m root d' va'" if "d' \<le> 3" "\<not> (d \<le> d' \<and> same_path (Suc d) va va')"
  proof -
    have "node m' root d' va' = node m root d' va'" using n [OF that(1)] that(2) by auto
    then show ?thesis using old [OF _ that(1), of va'] that(2) by (auto simp: user_at_def split: option.splits)
  qed
qed

section \<open>Frames of the state\<close>

definition vm_frame :: "'a vm_globals_scheme \<Rightarrow> 'a vm_globals_scheme \<Rightarrow> bool" where
  "vm_frame s s' \<longleftrightarrow> s' = s\<lparr>gPmmDevice := gPmmDevice s', PhysMem := PhysMem s', TlbInvalidations := TlbInvalidations s'\<rparr>"

lemma vm_frame_refl [simp]: "vm_frame s s"
  by (simp add: vm_frame_def)

lemma vm_frame_trans [trans]: "vm_frame s s1 \<Longrightarrow> vm_frame s1 s2 \<Longrightarrow> vm_frame s s2"
  by (cases s; cases s1; cases s2) (simp add: vm_frame_def)

lemma vm_frame_keeps:
  assumes "vm_frame s s'"
  shows "ActiveCr3 s' = ActiveCr3 s" "gKernelAddressSpace s' = gKernelAddressSpace s" "vm_globals.more s' = vm_globals.more s"
  using assms by (cases s; cases s'; simp add: vm_frame_def)+

lemma set_entry_simps [simp]:
  "PhysMem (set_entry e v s) = (PhysMem s)(e := v)" "frames (set_entry e v s) = frames s" "pmm_ready (set_entry e v s) = pmm_ready s"
  "TlbInvalidations (set_entry e v s) = TlbInvalidations s" "ActiveCr3 (set_entry e v s) = ActiveCr3 s"
  by (simp_all add: set_entry_def frames_def pmm_ready_def)

lemma zero_page_simps [simp]:
  "PhysMem (zero_page p s) = (\<lambda>a. if a - p < PAGE_4KB then 0 else PhysMem s a)" "frames (zero_page p s) = frames s"
  "pmm_ready (zero_page p s) = pmm_ready s" "TlbInvalidations (zero_page p s) = TlbInvalidations s"
  by (simp_all add: zero_page_def frames_def pmm_ready_def)

lemma set_sink_context_vm [simp]:
  "PhysMem (set_sink_context ctx s) = PhysMem s" "TlbInvalidations (set_sink_context ctx s) = TlbInvalidations s"
  by (simp_all add: set_sink_context_def)

lemma vm_frame_steps [simp]: "vm_frame s (set_entry e v s)" "vm_frame s (zero_page p s)" "vm_frame s (set_sink_context ctx s)"
  "vm_frame s (invalidate_if_active root va s)"
  by (simp_all add: vm_frame_def set_entry_def zero_page_def set_sink_context_def invalidate_if_active_def KiInvalidatePage_def)

lemma invalidate_simps [simp]:
  "PhysMem (invalidate_if_active root va s) = PhysMem s" "frames (invalidate_if_active root va s) = frames s"
  "pmm_ready (invalidate_if_active root va s) = pmm_ready s"
  "TlbInvalidations (invalidate_if_active root va s) = (if KiReadCr3 s = root then [va] else []) @ TlbInvalidations s"
  by (simp_all add: invalidate_if_active_def KiInvalidatePage_def frames_def pmm_ready_def)

lemma KePmmAllocPages_status: "pmm_ready s \<Longrightarrow> KePmmAllocPages s n cs = Done (Inl e, s') \<Longrightarrow> e \<noteq> EC_SUCCESS"
  by (auto simp: KePmmAllocPages_ready alloc_spec_def alloc_window_def Let_def split: prod.splits if_splits option.splits sum.splits)

section \<open>Promotion and equivalence of memory\<close>

lemma user_flag_or:
  "(e OR PTE_USER) AND PTE_PRESENT = e AND PTE_PRESENT" "(e OR PTE_USER) AND PTE_PAGE_SIZE = e AND PTE_PAGE_SIZE"
  "(e OR PTE_USER) AND PAGE_MASK = e AND PAGE_MASK" "(e OR PTE_USER) AND PTE_USER = PTE_USER"
  "e AND PTE_USER = 0 \<Longrightarrow> (e OR PTE_USER) AND NOT PTE_USER = e"
  "(e AND NOT PTE_USER) AND PTE_PRESENT = e AND PTE_PRESENT"
proof -
  have d: "(e OR f) AND x = (e AND x) OR (f AND x)" for f x :: u64 by (rule bit_word_eqI) (auto simp: bit_simps)
  show "(e OR PTE_USER) AND PTE_PRESENT = e AND PTE_PRESENT" "(e OR PTE_USER) AND PTE_PAGE_SIZE = e AND PTE_PAGE_SIZE"
    "(e OR PTE_USER) AND PAGE_MASK = e AND PAGE_MASK"
    unfolding d by (simp_all add: PTE_USER_def PTE_PRESENT_def PTE_PAGE_SIZE_def PAGE_MASK_def PAGE_4KB_def)
  show "(e OR PTE_USER) AND PTE_USER = PTE_USER" by (rule bit_word_eqI) (auto simp: bit_simps)
  show "(e OR PTE_USER) AND NOT PTE_USER = e" if "e AND PTE_USER = 0"
    using that by (auto simp: bit_eq_iff bit_simps) 
  show "(e AND NOT PTE_USER) AND PTE_PRESENT = e AND PTE_PRESENT"
    unfolding PTE_USER_def PTE_PRESENT_def by (rule bit_word_eqI) (auto simp: bit_simps)
qed

lemma promote_link: "link d (e OR PTE_USER) = link d e" "link d e = Some c \<Longrightarrow> d < 3 \<Longrightarrow> leafval d (e OR PTE_USER) = leafval d e"
  by (auto simp: link_def leafval_def user_flag_or split: if_splits)

lemma entry_at_page:
  assumes "HO_IS_ALIGNED t PAGE_4KB" "i < ENTRIES_PER_TABLE"
  shows "entry_at t i AND PAGE_MASK = t"
proof -
  have "8 * i < 2 ^ 12" using assms(2) by (simp add: unat_word_ariths word_less_nat_alt ENTRIES_PER_TABLE_def)
  then have "take_bit 12 (8 * i) = 8 * i" by (intro take_bit_id_word) simp_all
  then have low: "(8 * i) AND PAGE_MASK = 0"
    unfolding low_bits by (metis bit_take_bit_iff linorder_not_le)
  have "entry_at t i = t OR 8 * i"
    unfolding entry_at_def by (rule disjunctive_add_eq_or) (rule aligned_low_bits [OF assms(1) low])
  then show ?thesis by (simp add: PAGE_MASK_or [OF assms(1) low])
qed

text \<open>Two memories agree up to words that are not present, and up to free frames.\<close>

definition mem_eqv :: "'a vm_globals_scheme \<Rightarrow> (HO_PHYSICAL_ADDRESS \<Rightarrow> u64) \<Rightarrow> bool" where
  "mem_eqv s m' \<longleftrightarrow> (\<forall>a. frames s (a AND PAGE_MASK) \<noteq> Some PMM_PAGE_FREE \<longrightarrow>
     m' a = PhysMem s a \<or> (m' a AND PTE_PRESENT = 0 \<and> PhysMem s a AND PTE_PRESENT = 0))"

lemma absent_entry: "e AND PTE_PRESENT = 0 \<Longrightarrow> link d e = None \<and> leafval d e = None \<and> \<not> user_entry e"
proof -
  assume a: "e AND PTE_PRESENT = 0"
  have "\<not> user_entry e"
  proof
    assume "user_entry e"
    then have "(e AND (PTE_PRESENT OR PTE_USER)) AND PTE_PRESENT = (PTE_PRESENT OR PTE_USER) AND PTE_PRESENT"
      by (simp add: user_entry_def)
    moreover have "(e AND (PTE_PRESENT OR PTE_USER)) AND PTE_PRESENT = (e AND PTE_PRESENT) AND (PTE_PRESENT OR PTE_USER)"
      by (rule bit_word_eqI) (auto simp: bit_simps)
    ultimately show False using a by (simp add: PTE_PRESENT_def PTE_USER_def)
  qed
  then show ?thesis using a by (simp add: link_def leafval_def)
qed

lemma mem_eqv_view:
  assumes ok: "pt_ok s root" and eqv: "mem_eqv s m'"
  shows "d \<le> 3 \<Longrightarrow> node m' root d va = node (PhysMem s) root d va"
    and "page_mapping m' root va = page_mapping (PhysMem s) root va"
proof -
  have e: "m' (entry_at t (vidx d w)) = PhysMem s (entry_at t (vidx d w)) \<or>
     (m' (entry_at t (vidx d w)) AND PTE_PRESENT = 0 \<and> PhysMem s (entry_at t (vidx d w)) AND PTE_PRESENT = 0)"
    if "node (PhysMem s) root d w = Some t" "d \<le> 3" for d w t
  proof -
    have "HO_IS_ALIGNED t PAGE_4KB" using ok pt_treeD(1) that by (auto simp: pt_ok_def)
    then have "entry_at t (vidx d w) AND PAGE_MASK = t" by (rule entry_at_page) simp
    moreover have "frames s t \<noteq> Some PMM_PAGE_FREE" using ok that by (auto simp: pt_ok_def)
    ultimately show ?thesis using eqv by (simp add: mem_eqv_def)
  qed
  have f: "link d (m' (entry_at t (vidx d w))) = link d (PhysMem s (entry_at t (vidx d w)))"
    "leafval d (m' (entry_at t (vidx d w))) = leafval d (PhysMem s (entry_at t (vidx d w)))"
    "user_entry (m' (entry_at t (vidx d w))) = user_entry (PhysMem s (entry_at t (vidx d w)))"
    if "node (PhysMem s) root d w = Some t" "d \<le> 3" for d w t
    using e [OF that] absent_entry [of "m' (entry_at t (vidx d w))" d] absent_entry [of "PhysMem s (entry_at t (vidx d w))" d] by metis+
  have n: "node m' root d w = node (PhysMem s) root d w" if "d \<le> 3" for d w
    by (rule node_same [OF _ that]) (simp add: f(1))
  show "d \<le> 3 \<Longrightarrow> node m' root d va = node (PhysMem s) root d va" by (rule n)
  have l: "leaf m' root va = leaf (PhysMem s) root va" by (rule leaf_same [OF n]) (simp_all add: f(2))
  have u: "user_at m' root d va = user_at (PhysMem s) root d va" if "d \<le> 3" for d
    using n [OF that, of va] f(3) [OF _ that, of va] by (auto simp: user_at_def split: option.splits)
  have "fst x \<le> 3" if "leaf (PhysMem s) root va = Some x" for x
    using that by (auto simp: leaf_def split: option.splits)
  then show "page_mapping m' root va = page_mapping (PhysMem s) root va"
    using u unfolding page_mapping_def l by (auto split: option.split intro!: arg_cong [where f = "leaf_mapping _ _"])
qed

section \<open>Rollback\<close>

lemma KePmmFreePages_vm:
  assumes "pmm_ready s" "frames s p = Some PMM_PAGE_ALLOCATED"
  defines "s' \<equiv> snd (KePmmFreePages s p 1)"
  shows "fst (KePmmFreePages s p 1) = EC_SUCCESS" "pmm_ready s'" "frames s' = (frames s)(p := Some PMM_PAGE_FREE)"
    "PhysMem s' = PhysMem s" "TlbInvalidations s' = TlbInvalidations s" "vm_frame s s'"
proof -
  obtain s1 where s1: "KePmmFreePages s p 1 = (EC_SUCCESS, s1)" using KePmmFreePages_frame [OF assms(1,2)] by blast
  note f = KePmmFreePages_success [OF assms(1) _ s1]
  obtain ctx where c: "s1 = set_sink_context ctx s" using f(5) by auto
  show "fst (KePmmFreePages s p 1) = EC_SUCCESS" "pmm_ready s'" using f(1) s1 by (simp_all add: s'_def)
  show "frames s' = (frames s)(p := Some PMM_PAGE_FREE)" using f(4) s1 by (auto simp: s'_def)
  show "PhysMem s' = PhysMem s" "TlbInvalidations s' = TlbInvalidations s" "vm_frame s s'" using s1 c by (simp_all add: s'_def)
qed

lemma KiRollbackNewTables_effect:
  assumes "pmm_ready s" "distinct (map TablePhys nt)" "\<forall>t\<in>set nt. frames s (TablePhys t) = Some PMM_PAGE_ALLOCATED"
  defines "s' \<equiv> KiRollbackNewTables nt s"
  shows "pmm_ready s' \<and> frames s' = (\<lambda>q. if q \<in> TablePhys ` set nt then Some PMM_PAGE_FREE else frames s q) \<and>
    PhysMem s' = (\<lambda>a. if a \<in> ParentEntry ` set nt then 0 else PhysMem s a) \<and>
    TlbInvalidations s' = TlbInvalidations s \<and> vm_frame s s'"
  using assms(1-3) unfolding s'_def
proof (induction nt)
  case (Cons t nt)
  define s1 where "s1 = KiRollbackNewTables nt s"
  define s2 where "s2 = set_entry (ParentEntry t) 0 s1"
  have s1: "pmm_ready s1" "frames s1 = (\<lambda>q. if q \<in> TablePhys ` set nt then Some PMM_PAGE_FREE else frames s q)"
    "PhysMem s1 = (\<lambda>a. if a \<in> ParentEntry ` set nt then 0 else PhysMem s a)"
    "TlbInvalidations s1 = TlbInvalidations s" "vm_frame s s1"
    using Cons by (simp_all add: s1_def)
  have "frames s2 (TablePhys t) = Some PMM_PAGE_ALLOCATED" "pmm_ready s2"
    using Cons.prems s1(1,2) by (auto simp: s2_def)
  note f = KePmmFreePages_vm [OF this(2,1)]
  have e: "KiRollbackNewTables (t # nt) s = snd (KePmmFreePages s2 (TablePhys t) 1)"
    by (simp add: KiRollbackNewTables_def s1_def s2_def)
  have "vm_frame s s2" using s1(5) vm_frame_trans by (force simp: s2_def)
  then show ?case unfolding e using f s1 by (auto simp: s2_def fun_eq_iff intro: vm_frame_trans)
qed (simp add: KiRollbackNewTables_def)

lemma KiRollbackEntryPromotions_effect:
  fixes s :: "'a vm_globals_scheme"
  assumes "\<forall>p\<in>set pr. AddedFlags p = PTE_USER"
  defines "s' \<equiv> KiRollbackEntryPromotions pr s"
  shows "PhysMem s' = (\<lambda>a. if a \<in> PromotedEntry ` set pr then PhysMem s a AND NOT PTE_USER else PhysMem s a) \<and>
    pmm_ready s' = pmm_ready s \<and> frames s' = frames s \<and> TlbInvalidations s' = TlbInvalidations s \<and> vm_frame s s'"
  using assms(1) unfolding s'_def
proof (induction pr)
  case (Cons p pr)
  define s1 where "s1 = KiRollbackEntryPromotions pr s"
  have e: "KiRollbackEntryPromotions (p # pr) s = set_entry (PromotedEntry p) (PhysMem s1 (PromotedEntry p) AND NOT PTE_USER) s1"
    using Cons.prems by (simp add: KiRollbackEntryPromotions_def s1_def)
  have "vm_frame s1 (set_entry (PromotedEntry p) (PhysMem s1 (PromotedEntry p) AND NOT PTE_USER) s1)" by simp
  then show ?case unfolding e using Cons by (auto simp: s1_def fun_eq_iff and.assoc intro: vm_frame_trans)
qed (simp add: KiRollbackEntryPromotions_def)

definition undo :: "KE_NEW_TABLE list \<Rightarrow> KE_ENTRY_FLAG_PROMOTION list \<Rightarrow> (HO_PHYSICAL_ADDRESS \<Rightarrow> u64) \<Rightarrow> HO_PHYSICAL_ADDRESS \<Rightarrow> u64" where
  "undo nt pr m a =
    (let v = (if a \<in> ParentEntry ` set nt then 0 else m a) in if a \<in> PromotedEntry ` set pr then v AND NOT PTE_USER else v)"

text \<open>What holds between the steps of \<open>KePtMapPage\<close>, at depth \<open>d\<close> with table \<open>c\<close>, relative to the state at its entry.\<close>

definition undoable :: "'a vm_globals_scheme \<Rightarrow> u64 \<Rightarrow> KE_NEW_TABLE list \<Rightarrow> KE_ENTRY_FLAG_PROMOTION list \<Rightarrow> 'a vm_globals_scheme \<Rightarrow> bool" where
  "undoable s0 attrs nt pr s \<longleftrightarrow>
    distinct (map TablePhys nt) \<and> (\<forall>t\<in>set nt. frames s0 (TablePhys t) = Some PMM_PAGE_FREE) \<and>
    frames s = (\<lambda>q. if q \<in> TablePhys ` set nt then Some PMM_PAGE_ALLOCATED else frames s0 q) \<and>
    (\<forall>t\<in>set nt. PhysMem s (ParentEntry t) AND PTE_PRESENT \<noteq> 0 \<and>
       (attrs AND PTE_USER \<noteq> 0 \<longrightarrow> PhysMem s (ParentEntry t) AND PTE_USER \<noteq> 0)) \<and>
    (\<forall>p\<in>set pr. AddedFlags p = PTE_USER \<and> PhysMem s (PromotedEntry p) AND PTE_PRESENT \<noteq> 0 \<and>
       PhysMem s (PromotedEntry p) AND PTE_USER \<noteq> 0) \<and>
    mem_eqv s0 (undo nt pr (PhysMem s)) \<and> TlbInvalidations s = TlbInvalidations s0 \<and> vm_frame s0 s"

lemma rollback_restores:
  assumes ok: "pt_ok s0 root" and rdy: "pmm_ready s" and u: "undoable s0 attrs nt pr s"
  defines "s' \<equiv> KiRollbackMapSetup nt pr s"
  shows "pt_ok s' root" "frames s' = frames s0" "page_mapping (PhysMem s') root va = page_mapping (PhysMem s0) root va"
    "TlbInvalidations s' = TlbInvalidations s0" "vm_frame s0 s'" "pt_tables (PhysMem s') root = pt_tables (PhysMem s0) root"
proof -
  have al: "\<forall>t\<in>set nt. frames s (TablePhys t) = Some PMM_PAGE_ALLOCATED" using u by (auto simp: undoable_def)
  have pr: "\<forall>p\<in>set pr. AddedFlags p = PTE_USER" and d: "distinct (map TablePhys nt)" using u by (auto simp: undoable_def)
  note t = KiRollbackNewTables_effect [OF rdy d al]
  note p = KiRollbackEntryPromotions_effect [OF pr, of "KiRollbackNewTables nt s"]
  have m: "PhysMem s' = undo nt pr (PhysMem s)"
    using t p by (auto simp: s'_def KiRollbackMapSetup_def undo_def fun_eq_iff)
  have r: "pmm_ready s'" using t p by (simp add: s'_def KiRollbackMapSetup_def)
  show f: "frames s' = frames s0"
    using t p u by (auto simp: s'_def KiRollbackMapSetup_def undoable_def fun_eq_iff)
  have eqv: "mem_eqv s0 (PhysMem s')" using u m by (simp add: undoable_def)
  note v = mem_eqv_view [OF ok eqv]
  show "page_mapping (PhysMem s') root va = page_mapping (PhysMem s0) root va" by (rule v(2))
  show "pt_tables (PhysMem s') root = pt_tables (PhysMem s0) root" by (rule tables_cong) (rule v(1))
  show "pt_ok s' root" using ok v(1) r f pt_tree_cong [of "PhysMem s'" root "PhysMem s0"] by (auto simp: pt_ok_def)
  show "TlbInvalidations s' = TlbInvalidations s0" using t p u by (simp add: s'_def KiRollbackMapSetup_def undoable_def)
  have "vm_frame s0 s" "vm_frame s (KiRollbackNewTables nt s)" "vm_frame (KiRollbackNewTables nt s) s'"
    using t p u by (simp_all add: s'_def KiRollbackMapSetup_def undoable_def)
  then show "vm_frame s0 s'" by (meson vm_frame_trans)
qed

section \<open>Mapping a page\<close>

lemma in_page_iff: "HO_IS_ALIGNED p PAGE_4KB \<Longrightarrow> a - p < PAGE_4KB \<longleftrightarrow> a AND PAGE_MASK = p"
proof -
  assume al: "HO_IS_ALIGNED p PAGE_4KB"
  have split: "a = (a AND PAGE_MASK) + take_bit 12 a"
  proof -
    have "(a AND PAGE_MASK) AND take_bit 12 a = 0" unfolding PAGE_MASK_mask by (rule bit_word_eqI) (auto simp: bit_simps)
    then have "(a AND PAGE_MASK) + take_bit 12 a = (a AND PAGE_MASK) OR take_bit 12 a" by (rule disjunctive_add_eq_or)
    also have "\<dots> = a" unfolding PAGE_MASK_mask by (rule bit_word_eqI) (auto simp: bit_simps)
    finally show ?thesis by simp
  qed
  have lt: "take_bit 12 x < PAGE_4KB" for x :: u64
    using take_bit_less_exp_word [of 12 x] by (simp add: PAGE_4KB_def)
  show "a - p < PAGE_4KB \<longleftrightarrow> a AND PAGE_MASK = p"
  proof
    assume "a AND PAGE_MASK = p"
    then have "a = p + take_bit 12 a" using split by simp
    then have "a - p = take_bit 12 a" by (metis add_diff_cancel_left')
    then show "a - p < PAGE_4KB" using lt by simp
  next
    assume "a - p < PAGE_4KB"
    define x where "x = a - p"
    have "x < 2 ^ 12" using \<open>a - p < PAGE_4KB\<close> by (simp add: x_def PAGE_4KB_def)
    then have "take_bit 12 x = x" by (intro take_bit_id_word) simp_all
    then have low: "x AND PAGE_MASK = 0" unfolding low_bits by (metis bit_take_bit_iff linorder_not_le)
    have "a = p + x" by (simp add: x_def)
    also have "\<dots> = p OR x" by (rule disjunctive_add_eq_or) (rule aligned_low_bits [OF al low])
    finally show "a AND PAGE_MASK = p" by (simp add: PAGE_MASK_or [OF al low])
  qed
qed

lemma leaf_none_absent:
  assumes "node m root d va = Some t" "d < 3" "m (entry_at t (vidx d va)) AND PTE_PRESENT = 0"
  shows "leaf m root va = None"
proof -
  have l: "leaf_at m root d va = None" using assms by (simp add: leaf_at_def leafval_def)
  have n: "node m root (Suc d) va = None" using assms by (simp add: link_def)
  have up: "node m root (Suc d + k) va = None" for k by (induction k) (use n in simp_all)
  have low: "leaf_at m root k va = None" if "k < d" for k
  proof -
    have ex: "\<exists>u. node m root j va = Some u" if "j \<le> d" for j
      using that
    proof (induction "d - j" arbitrary: j)
      case 0
      then show ?case using assms(1) by simp
    next
      case (Suc n)
      then have "\<exists>u. node m root (Suc j) va = Some u" by (metis Suc_leI diff_Suc_Suc diff_diff_cancel diff_is_0_eq' le_antisym linorder_not_less nat.inject nat.simps(3) Suc_diff_Suc less_le)
      then show ?case by (auto simp: Option.bind_eq_Some_conv)
    qed
    then obtain u where "node m root (Suc k) va = Some u" using \<open>k < d\<close> by (meson Suc_leI)
    then show ?thesis using node_leaf_above that assms(2) by (meson less_trans)
  qed
  have "leaf_at m root k va = None" if "k \<le> 3" for k
  proof (cases "k \<le> d")
    case True
    then show ?thesis using low l by (cases "k = d") auto
  next
    case False
    then show ?thesis using up [of "k - Suc d"] by (simp add: leaf_at_def)
  qed
  then show ?thesis by (simp add: leaf_def)
qed

lemma page_mapping_cong:
  assumes "leaf m' root va = leaf m root va"
    and "\<And>d. leaf m root va \<noteq> None \<Longrightarrow> d \<le> 3 \<Longrightarrow> user_at m' root d va = user_at m root d va"
  shows "page_mapping m' root va = page_mapping m root va"
proof (cases "leaf m root va")
  case (Some l)
  then have "fst l \<le> 3" by (auto simp: leaf_def split: option.splits)
  then have "(\<forall>j\<le>fst l. user_at m' root j va) = (\<forall>j\<le>fst l. user_at m root j va)" using assms(2) Some by auto
  then show ?thesis using Some assms(1) by (simp add: page_mapping_def)
qed (use assms(1) in \<open>simp add: page_mapping_def\<close>)

lemma page_mapping_upto_user:
  assumes "leaf m' root va = leaf m root va"
  shows "(page_mapping m' root va)\<lparr>UserAccessible := b\<rparr> = (page_mapping m root va)\<lparr>UserAccessible := b\<rparr>"
  using assms by (auto simp: page_mapping_def leaf_mapping_def Let_def split: option.split prod.split)

definition map_setup ::
  "'a vm_globals_scheme \<Rightarrow> HO_PHYSICAL_ADDRESS \<Rightarrow> u64 \<Rightarrow> HO_VIRTUAL_ADDRESS \<Rightarrow> nat \<Rightarrow> HO_PHYSICAL_ADDRESS \<Rightarrow>
   KE_NEW_TABLE list \<Rightarrow> KE_ENTRY_FLAG_PROMOTION list \<Rightarrow> 'a vm_globals_scheme \<Rightarrow> bool" where
  "map_setup s0 root attrs va d c nt pr s \<longleftrightarrow>
    pt_ok s root \<and> node (PhysMem s) root d va = Some c \<and>
    (\<forall>w. leaf (PhysMem s) root w = leaf (PhysMem s0) root w) \<and>
    (if attrs AND PTE_USER = 0 then \<forall>w. page_mapping (PhysMem s) root w = page_mapping (PhysMem s0) root w
     else \<forall>j<d. user_at (PhysMem s) root j va) \<and>
    pt_tables (PhysMem s) root \<subseteq> pt_tables (PhysMem s0) root \<union> {t. frames s0 t = Some PMM_PAGE_FREE} \<and>
    length pr \<le> d \<and> undoable s0 attrs nt pr s"

lemma undoable_start: "undoable s attrs [] [] s"
  by (simp add: undoable_def mem_eqv_def undo_def)

lemma map_setup_start: "pt_ok s root \<Longrightarrow> map_setup s root attrs va 0 root [] [] s"
  by (simp add: map_setup_def undoable_start)

lemma present_bit: "x AND PTE_PRESENT = (if bit x 0 then PTE_PRESENT else 0)"
  by (rule bit_word_eqI) (auto simp: PTE_PRESENT_def bit_simps bit_1_iff intro: gr0I)

lemma promote_write:
  assumes tree: "pt_tree m root" and t: "node m root d va = Some t" "d < 3"
    and l: "link d (m (entry_at t (vidx d va))) = Some c"
  defines "m' \<equiv> m(entry_at t (vidx d va) := m (entry_at t (vidx d va)) OR PTE_USER)"
  shows "k \<le> 3 \<Longrightarrow> node m' root k w = node m root k w" "leaf m' root w = leaf m root w"
    "k \<le> 3 \<Longrightarrow> user_at m root k w \<Longrightarrow> user_at m' root k w" "user_at m' root d va"
proof -
  have e: "m' (entry_at u (vidx k w)) = (if k = d \<and> same_path (Suc d) va w then m (entry_at u (vidx k w)) OR PTE_USER
      else m (entry_at u (vidx k w)))" if "node m root k w = Some u" "k \<le> 3" for k w u
    using tree_entry_eq [OF tree t(1) that(1)] t(2) that(2) by (auto simp: m'_def)
  have same: "m (entry_at u (vidx d w)) = m (entry_at t (vidx d va))" if "node m root d w = Some u" "same_path (Suc d) va w" for w u
    using that t(1) node_cong [of d va w m root] by (auto simp: same_path_Suc)
  have n: "node m' root k w = node m root k w" if "k \<le> 3" for k w
    by (rule node_same [OF _ that]) (use e promote_link(1) in auto)
  show "k \<le> 3 \<Longrightarrow> node m' root k w = node m root k w" by (rule n)
  show "leaf m' root w = leaf m root w"
    by (rule leaf_same [OF n]) (use e same promote_link(2) [OF l t(2)] in auto)
  have ue: "user_entry (x OR PTE_USER)" if "user_entry x \<or> x AND PTE_PRESENT \<noteq> 0" for x
  proof -
    have "x AND PTE_PRESENT \<noteq> 0" using that absent_entry [of x] by blast
    then have p: "x AND PTE_PRESENT = PTE_PRESENT" by (simp add: present_bit split: if_splits)
    have "(x OR PTE_USER) AND (PTE_PRESENT OR PTE_USER) = (x AND PTE_PRESENT) OR PTE_USER"
      by (rule bit_word_eqI) (auto simp: bit_simps)
    then show ?thesis using p by (simp add: user_entry_def)
  qed
  show "user_at m' root k w" if "k \<le> 3" "user_at m root k w"
    using that n [OF that(1), of w] e [OF _ that(1), of w] ue by (auto simp: user_at_def split: option.splits)
  show "user_at m' root d va"
    using n [of d va] t ue l by (auto simp: user_at_def m'_def link_def split: if_splits)
qed


lemma user_present: "e AND PTE_PRESENT \<noteq> 0 \<Longrightarrow> e AND (PTE_PRESENT OR PTE_USER) = PTE_PRESENT OR PTE_USER \<longleftrightarrow> e AND PTE_USER \<noteq> 0"
proof -
  assume p: "e AND PTE_PRESENT \<noteq> 0"
  have u: "PTE_USER = 2 ^ 2" by (simp add: PTE_USER_def)
  have b: "x AND PTE_USER = (if bit x 2 then PTE_USER else 0)" for x :: u64
    unfolding u by (rule bit_word_eqI) (auto simp only: bit_simps bit_exp_iff split: if_split, simp_all)
  have d: "e AND (PTE_PRESENT OR PTE_USER) = (e AND PTE_PRESENT) OR (e AND PTE_USER)" by (rule bit_word_eqI) (auto simp: bit_simps)
  show ?thesis unfolding d b using p by (simp add: present_bit split: if_splits) (simp add: PTE_PRESENT_def PTE_USER_def)
qed

lemma flags_nonzero: "PTE_USER \<noteq> 0" "PTE_PRESENT \<noteq> 0"
  by (simp_all add: PTE_USER_def PTE_PRESENT_def)

lemma undoable_entry:
  assumes "undoable s0 attrs nt pr s" "PhysMem s a AND PTE_PRESENT = 0"
  shows "a \<notin> ParentEntry ` set nt" "a \<notin> PromotedEntry ` set pr" "undo nt pr (PhysMem s) a = PhysMem s a"
  using assms by (auto simp: undoable_def undo_def)

lemma undoable_new_table:
  assumes u: "undoable s0 attrs nt pr s" and absent: "PhysMem s pe AND PTE_PRESENT = 0"
    and p: "HO_IS_ALIGNED p PAGE_4KB" "frames s p = Some PMM_PAGE_FREE"
    and f: "frames s' = (\<lambda>q. if q = p then Some PMM_PAGE_ALLOCATED else frames s q)"
    and m: "PhysMem s' = (\<lambda>a. if a - p < PAGE_4KB then 0 else PhysMem s a)(pe := v)"
    and v: "v AND PTE_PRESENT \<noteq> 0" "attrs AND PTE_USER \<noteq> 0 \<Longrightarrow> v AND PTE_USER \<noteq> 0"
    and out: "\<And>e. e \<in> ParentEntry ` set nt \<union> PromotedEntry ` set pr \<Longrightarrow> e AND PAGE_MASK \<noteq> p"
    and fr: "TlbInvalidations s' = TlbInvalidations s" "vm_frame s s'"
  shows "undoable s0 attrs (nt @ [\<lparr>ParentEntry = pe, TablePhys = p\<rparr>]) pr s'"
proof -
  have fs: "frames s = (\<lambda>q. if q \<in> TablePhys ` set nt then Some PMM_PAGE_ALLOCATED else frames s0 q)"
    and eqv: "mem_eqv s0 (undo nt pr (PhysMem s))" using u by (simp_all add: undoable_def)
  have pn: "p \<notin> TablePhys ` set nt" "frames s0 p = Some PMM_PAGE_FREE" using p(2) fs by (auto split: if_splits)
  have ne: "pe \<notin> ParentEntry ` set nt" "pe \<notin> PromotedEntry ` set pr" using undoable_entry [OF u absent] by auto
  have keep: "PhysMem s' e = PhysMem s e" if "e \<in> ParentEntry ` set nt \<union> PromotedEntry ` set pr" for e
    using out [OF that] ne that in_page_iff [OF p(1), of e] by (auto simp: m)
  have "mem_eqv s0 (undo (nt @ [\<lparr>ParentEntry = pe, TablePhys = p\<rparr>]) pr (PhysMem s'))"
    unfolding mem_eqv_def
  proof (intro allI impI)
    fix a assume nf: "frames s0 (a AND PAGE_MASK) \<noteq> Some PMM_PAGE_FREE"
    let ?u' = "undo (nt @ [\<lparr>ParentEntry = pe, TablePhys = p\<rparr>]) pr (PhysMem s') a"
    have np: "\<not> a - p < PAGE_4KB" using nf pn(2) in_page_iff [OF p(1), of a] by auto
    have old: "undo nt pr (PhysMem s) a = PhysMem s0 a \<or>
        (undo nt pr (PhysMem s) a AND PTE_PRESENT = 0 \<and> PhysMem s0 a AND PTE_PRESENT = 0)"
      using eqv nf by (simp add: mem_eqv_def)
    show "?u' = PhysMem s0 a \<or> (?u' AND PTE_PRESENT = 0 \<and> PhysMem s0 a AND PTE_PRESENT = 0)"
    proof (cases "a = pe")
      case True
      then have "?u' = 0" by (simp add: undo_def)
      moreover have "PhysMem s0 a AND PTE_PRESENT = 0" using old True absent undoable_entry(3) [OF u absent] by auto
      ultimately show ?thesis by simp
    next
      case False
      then have "?u' = undo nt pr (PhysMem s) a" using np by (auto simp: undo_def m)
      then show ?thesis using old by simp
    qed
  qed
  then show ?thesis
    using u pn f fs v fr keep ne by (auto simp: undoable_def m fun_eq_iff intro: vm_frame_trans)
qed

lemma undoable_promote:
  assumes u: "undoable s0 attrs nt pr s" and e: "PhysMem s pe AND PTE_PRESENT \<noteq> 0" "PhysMem s pe AND PTE_USER = 0" "attrs AND PTE_USER \<noteq> 0"
  shows "undoable s0 attrs nt (pr @ [\<lparr>PromotedEntry = pe, AddedFlags = PTE_USER\<rparr>]) (set_entry pe (PhysMem s pe OR PTE_USER) s)"
proof -
  have ne: "pe \<notin> ParentEntry ` set nt" "pe \<notin> PromotedEntry ` set pr" using u e by (auto simp: undoable_def)
  have "undo nt (pr @ [\<lparr>PromotedEntry = pe, AddedFlags = PTE_USER\<rparr>]) ((PhysMem s)(pe := PhysMem s pe OR PTE_USER)) = undo nt pr (PhysMem s)"
    using ne e(2) by (auto simp: undo_def fun_eq_iff user_flag_or)
  moreover have "vm_frame s0 (set_entry pe (PhysMem s pe OR PTE_USER) s)"
    using u vm_frame_trans by (force simp: undoable_def)
  moreover have "(PTE_USER :: u64) \<noteq> 0" by (simp add: PTE_USER_def)
  ultimately show ?thesis
    using u e ne by (auto simp: undoable_def user_flag_or)
qed

text \<open>The entries recorded for the rollback lie in tables of the tree.\<close>

definition entries_recorded :: "HO_PHYSICAL_ADDRESS \<Rightarrow> HO_VIRTUAL_ADDRESS \<Rightarrow> nat \<Rightarrow> KE_NEW_TABLE list \<Rightarrow> KE_ENTRY_FLAG_PROMOTION list \<Rightarrow> 'a vm_globals_scheme \<Rightarrow> bool" where
  "entries_recorded root va d nt pr s \<longleftrightarrow> (\<forall>e \<in> ParentEntry ` set nt \<union> PromotedEntry ` set pr.
     \<exists>j t. j < d \<and> node (PhysMem s) root j va = Some t \<and> e = entry_at t (vidx j va))"

lemma entries_recorded_step:
  assumes rc: "entries_recorded root va d nt pr s" and n: "node (PhysMem s) root d va = Some c"
    and same: "\<And>j. j \<le> d \<Longrightarrow> node (PhysMem s') root j va = node (PhysMem s) root j va"
    and sub: "ParentEntry ` set nt' \<union> PromotedEntry ` set pr' \<subseteq>
      insert (entry_at c (vidx d va)) (ParentEntry ` set nt \<union> PromotedEntry ` set pr)"
  shows "entries_recorded root va (Suc d) nt' pr' s'"
  unfolding entries_recorded_def
proof
  fix e assume "e \<in> ParentEntry ` set nt' \<union> PromotedEntry ` set pr'"
  then consider "e = entry_at c (vidx d va)" | "e \<in> ParentEntry ` set nt \<union> PromotedEntry ` set pr" using sub by blast
  then show "\<exists>j t. j < Suc d \<and> node (PhysMem s') root j va = Some t \<and> e = entry_at t (vidx j va)"
  proof cases
    case 1
    then show ?thesis using n same [of d] by (intro exI [of _ d] exI [of _ c]) simp
  next
    case 2
    then obtain j t where "j < d" "node (PhysMem s) root j va = Some t" "e = entry_at t (vidx j va)"
      using rc unfolding entries_recorded_def by blast
    then show ?thesis using same [of j] by (intro exI [of _ j] exI [of _ t]) simp
  qed
qed

lemma map_setupI:
  assumes "pt_ok s root" "node (PhysMem s) root d va = Some c" "\<And>w. leaf (PhysMem s) root w = leaf (PhysMem s0) root w"
    and "\<And>w. attrs AND PTE_USER = 0 \<Longrightarrow> page_mapping (PhysMem s) root w = page_mapping (PhysMem s0) root w"
    and "\<And>j. attrs AND PTE_USER \<noteq> 0 \<Longrightarrow> j < d \<Longrightarrow> user_at (PhysMem s) root j va"
    and "pt_tables (PhysMem s) root \<subseteq> pt_tables (PhysMem s0) root \<union> {t. frames s0 t = Some PMM_PAGE_FREE}"
    and "length pr \<le> d" "undoable s0 attrs nt pr s"
  shows "map_setup s0 root attrs va d c nt pr s"
  using assms by (simp add: map_setup_def)

lemma KiEnsureChildTable_step:
  assumes su: "map_setup s0 root attrs va d c nt pr s" and rc: "entries_recorded root va d nt pr s" and d: "d < 3"
  shows "\<exists>r nt' pr' s'. KiEnsureChildTable (entry_at c (vidx d va)) attrs nt pr s = Done (r, nt', pr', s') \<and>
    (case r of Inl e \<Rightarrow> e \<noteq> EC_SUCCESS \<and> nt' = nt \<and> pr' = pr \<and> s' = s
     | Inr c' \<Rightarrow> map_setup s0 root attrs va (Suc d) c' nt' pr' s' \<and> entries_recorded root va (Suc d) nt' pr' s')"
proof -
  let ?m = "PhysMem s" and ?pe = "entry_at c (vidx d va)"
  have ok: "pt_ok s root" and n: "node ?m root d va = Some c"
    and lf: "\<And>w. leaf ?m root w = leaf (PhysMem s0) root w"
    and pm: "attrs AND PTE_USER = 0 \<Longrightarrow> page_mapping ?m root w = page_mapping (PhysMem s0) root w"
    and us: "attrs AND PTE_USER \<noteq> 0 \<Longrightarrow> j < d \<Longrightarrow> user_at ?m root j va"
    and tb: "pt_tables ?m root \<subseteq> pt_tables (PhysMem s0) root \<union> {t. frames s0 t = Some PMM_PAGE_FREE}"
    and len: "length pr \<le> d" and u: "undoable s0 attrs nt pr s" for w j
    using su by (auto simp: map_setup_def)
  have tree: "pt_tree ?m root" and rdy: "pmm_ready s" using ok by (auto simp: pt_ok_def)
  have nf: "\<And>k w t. k \<le> 3 \<Longrightarrow> node ?m root k w = Some t \<Longrightarrow> frames s t \<noteq> Some PMM_PAGE_FREE" using ok by (auto simp: pt_ok_def)
  consider (absent) "?m ?pe AND PTE_PRESENT = 0" | (large) "?m ?pe AND PTE_PRESENT \<noteq> 0" "?m ?pe AND PTE_PAGE_SIZE \<noteq> 0"
    | (table) "?m ?pe AND PTE_PRESENT \<noteq> 0" "?m ?pe AND PTE_PAGE_SIZE = 0" by blast
  then show ?thesis
  proof cases
    case large
    then show ?thesis by (simp add: KiEnsureChildTable_def)
  next
    case table
    have l: "link d (?m ?pe) = Some (?m ?pe AND PAGE_MASK)" using table by (simp add: link_def)
    show ?thesis
    proof (cases "attrs AND PTE_USER \<noteq> 0 \<and> ?m ?pe AND PTE_USER = 0")
      case False
      have uj: "user_at ?m root j va" if "attrs AND PTE_USER \<noteq> 0" "j < Suc d" for j
      proof (cases "j = d")
        case True
        then show ?thesis using n that(1) False table(1) by (simp add: user_at_def user_entry_def user_present)
      qed (use us that in simp)
      have nn: "node ?m root (Suc d) va = Some (?m ?pe AND PAGE_MASK)" using n l by simp
      have "map_setup s0 root attrs va (Suc d) (?m ?pe AND PAGE_MASK) nt pr s"
        by (rule map_setupI [OF ok nn lf pm uj tb le_SucI [OF len] u])
      moreover have "entries_recorded root va (Suc d) nt pr s" by (rule entries_recorded_step [OF rc n]) auto
      ultimately show ?thesis using table False by (auto simp: KiEnsureChildTable_def)
    next
      case True
      define s1 where "s1 = set_entry ?pe (?m ?pe OR PTE_USER) s"
      note w = promote_write [OF tree n d l]
      have m1: "PhysMem s1 = ?m(?pe := ?m ?pe OR PTE_USER)" by (simp add: s1_def)
      have "pt_ok s1 root"
        using ok nf w(1) pt_tree_cong [of "PhysMem s1" root ?m] by (auto simp: pt_ok_def m1) (auto simp: s1_def)
      moreover have "node (PhysMem s1) root (Suc d) va = Some (?m ?pe AND PAGE_MASK)"
        using w(1) [of "Suc d" va] n l d by (simp add: m1)
      moreover have "user_at (PhysMem s1) root j va" if "j < Suc d" for j
        using that w(3) [of j va] w(4) us [of j] True d by (auto simp: m1 less_Suc_eq)
      moreover have "undoable s0 attrs nt (pr @ [\<lparr>PromotedEntry = ?pe, AddedFlags = PTE_USER\<rparr>]) s1"
        unfolding s1_def using u table True by (intro undoable_promote) auto
      ultimately have "map_setup s0 root attrs va (Suc d) (?m ?pe AND PAGE_MASK) nt (pr @ [\<lparr>PromotedEntry = ?pe, AddedFlags = PTE_USER\<rparr>]) s1"
        using True len lf w(2) tb tables_cong [of "PhysMem s1" root ?m] w(1) by (intro map_setupI) (simp_all add: m1)
      moreover have "entries_recorded root va (Suc d) nt (pr @ [\<lparr>PromotedEntry = ?pe, AddedFlags = PTE_USER\<rparr>]) s1"
        by (rule entries_recorded_step [OF rc n]) (use w(1) [of _ va] d in \<open>auto simp: m1\<close>)
      ultimately show ?thesis
        using table True len d by (auto simp: KiEnsureChildTable_def Let_def s1_def user_flag_or)
    qed
  next
    case absent
    obtain r s1 where a: "KePmmAllocPages s 1 None = Done (r, s1)" using KePmmAllocPages_ready [OF rdy] prod.exhaust by metis
    show ?thesis
    proof (cases r)
      case (Inl e)
      then show ?thesis using a absent KePmmAllocPages_error [OF rdy] KePmmAllocPages_status [OF rdy]
        by (auto simp: KiEnsureChildTable_def)
    next
      case (Inr p)
      note al = KePmmAllocPages_success [OF rdy a [unfolded Inr]]
      obtain ctx where s1: "s1 = set_sink_context ctx s" using al(6) by blast
      have pf: "frames s p = Some PMM_PAGE_FREE" using al(3) by simp
      have fr: "frames s1 = (\<lambda>q. if q = p then Some PMM_PAGE_ALLOCATED else frames s q)" using al(4) by (auto simp: fun_eq_iff)
      define v where "v = p OR KiIntermediateEntryFlagsForLeaf attrs"
      note v = link_flags [where attrs = attrs, OF al(5) refl, folded v_def]
      define s2 where "s2 = set_entry ?pe v (zero_page p s1)"
      have m2: "PhysMem s2 = (\<lambda>a. if a - p < PAGE_4KB then 0 else ?m a)(?pe := v)" by (simp add: s2_def s1 cong: if_cong)
      have np: "\<forall>k w. k \<le> 3 \<longrightarrow> node ?m root k w \<noteq> Some p" using nf pf by metis
      note w = table_write [OF tree n d absent al(5) np v(1), folded m2]
      have f2: "frames s2 = (\<lambda>q. if q = p then Some PMM_PAGE_ALLOCATED else frames s q)" using fr by (simp add: s2_def)
      have "pt_ok s2 root"
        using al(1) w(1,3) nf f2 by (auto simp: pt_ok_def s2_def split: if_splits)
      moreover have "node (PhysMem s2) root (Suc d) va = Some p" using w(1) [of "Suc d" va] d by simp
      moreover have "pt_tables (PhysMem s2) root \<subseteq> pt_tables (PhysMem s0) root \<union> {t. frames s0 t = Some PMM_PAGE_FREE}"
      proof -
        have "pt_tables (PhysMem s2) root \<subseteq> insert p (pt_tables ?m root)" using w(1) by (auto simp: pt_tables_def split: if_splits) blast+
        moreover have "frames s0 p = Some PMM_PAGE_FREE" using u pf by (auto simp: undoable_def split: if_splits)
        ultimately show ?thesis using tb by auto
      qed
      moreover have "page_mapping (PhysMem s2) root x = page_mapping ?m root x" for x
      proof (rule page_mapping_cong [OF w(2)])
        fix k assume "leaf ?m root x \<noteq> None" and k: "k \<le> (3::nat)"
        then have "\<not> same_path (Suc d) va x"
          using leaf_none_absent [of ?m root d x c] n d absent node_cong [of d va x ?m root] by (auto simp: same_path_Suc)
        then show "user_at (PhysMem s2) root k x = user_at ?m root k x" using w(4) [OF k] by blast
      qed
      moreover have "user_at (PhysMem s2) root j va" if "attrs AND PTE_USER \<noteq> 0" "j < Suc d" for j
      proof (cases "j = d")
        case True
        have "node (PhysMem s2) root d va = Some c" using w(1) [of d va] n d by simp
        then show ?thesis using True v that by (simp add: user_at_def m2 user_entry_def user_present flags_nonzero)
      next
        case False
        then show ?thesis using that w(4) [of j va] us [of j] d by simp
      qed
      moreover have "undoable s0 attrs (nt @ [\<lparr>ParentEntry = ?pe, TablePhys = p\<rparr>]) pr s2"
      proof (rule undoable_new_table [OF u absent al(5) pf f2 m2 v(2)])
        show "v AND PTE_USER \<noteq> 0" if "attrs AND PTE_USER \<noteq> 0" using v(3) that by (simp add: PTE_USER_def)
        show "e AND PAGE_MASK \<noteq> p" if e: "e \<in> ParentEntry ` set nt \<union> PromotedEntry ` set pr" for e
        proof -
          obtain j t where t: "j < d" "node ?m root j va = Some t" "e = entry_at t (vidx j va)" using rc e unfolding entries_recorded_def by blast
          then have "e AND PAGE_MASK = t" using pt_treeD(1) [OF tree t(2)] d by (simp add: entry_at_page)
          then show ?thesis using np t d by auto
        qed
        show "TlbInvalidations s2 = TlbInvalidations s" by (simp add: s2_def s1)
        show "vm_frame s s2" unfolding s2_def s1 by (meson vm_frame_steps vm_frame_trans)
      qed
      ultimately have "map_setup s0 root attrs va (Suc d) p (nt @ [\<lparr>ParentEntry = ?pe, TablePhys = p\<rparr>]) pr s2"
        using len lf pm w(2) by (intro map_setupI) simp_all
      moreover have "entries_recorded root va (Suc d) (nt @ [\<lparr>ParentEntry = ?pe, TablePhys = p\<rparr>]) pr s2"
      proof -
        have "node (PhysMem s2) root j va = node ?m root j va" if "j \<le> d" for j using w(1) [of j va] that d by simp
        then show ?thesis by (rule entries_recorded_step [OF rc n]) auto
      qed
      moreover have "KiEnsureChildTable ?pe attrs nt pr s = Done (Inr p, nt @ [\<lparr>ParentEntry = ?pe, TablePhys = p\<rparr>], pr, s2)"
        using a Inr absent by (simp add: KiEnsureChildTable_def s2_def v_def)
      ultimately show ?thesis by auto
    qed
  qed
qed

definition leaf_entry :: "HO_PHYSICAL_ADDRESS \<Rightarrow> u64 \<Rightarrow> PAGE_TABLE_ENTRY" where
  "leaf_entry pa attrs = (pa AND PAGE_MASK) OR (attrs AND KE_PT_ALLOWED_LEAF_FLAGS) OR PTE_PRESENT"

lemma leaf_entry_flags:
  "leaf_entry pa attrs AND PTE_PRESENT \<noteq> 0" "leaf_entry pa attrs AND PTE_USER = attrs AND PTE_USER"
  "leaf_entry pa attrs AND KE_PT_PHYS_ADDR_MASK = pa AND KE_PT_PHYS_ADDR_MASK"
proof -
  have d: "leaf_entry pa attrs AND x = ((pa AND PAGE_MASK) AND x) OR (attrs AND (KE_PT_ALLOWED_LEAF_FLAGS AND x)) OR (PTE_PRESENT AND x)" for x
    unfolding leaf_entry_def by (rule bit_word_eqI) (auto simp: bit_simps)
  have z: "(pa AND PAGE_MASK) AND x = pa AND (PAGE_MASK AND x)" for x by (simp add: and.assoc)
  show "leaf_entry pa attrs AND PTE_PRESENT \<noteq> 0"
    unfolding leaf_entry_def present_bit by (simp add: bit_simps flags_nonzero) (simp add: PTE_PRESENT_def)
  show "leaf_entry pa attrs AND PTE_USER = attrs AND PTE_USER"
    unfolding d z by (simp add: PTE_USER_def PTE_PRESENT_def PAGE_MASK_def PAGE_4KB_def KE_PT_ALLOWED_LEAF_FLAGS_def
        PTE_WRITABLE_def PTE_WRITETHROUGH_def PTE_CACHE_DISABLE_def PTE_GLOBAL_def PTE_NO_EXECUTE_def)
  show "leaf_entry pa attrs AND KE_PT_PHYS_ADDR_MASK = pa AND KE_PT_PHYS_ADDR_MASK"
    unfolding d z by (simp add: KE_PT_PHYS_ADDR_MASK_def PTE_PRESENT_def PAGE_MASK_def PAGE_4KB_def KE_PT_ALLOWED_LEAF_FLAGS_def PTE_USER_def
        PTE_WRITABLE_def PTE_WRITETHROUGH_def PTE_CACHE_DISABLE_def PTE_GLOBAL_def PTE_NO_EXECUTE_def)
qed

lemma pt_ok_leaf_write:
  assumes "pt_ok s root" "node (PhysMem s) root 3 va = Some t"
  shows "pt_ok (set_entry (entry_at t (vidx 3 va)) v s) root"
  using assms leaf_write(1) [where v = v, OF _ assms(2)] pt_tree_cong [of "(PhysMem s)(entry_at t (vidx 3 va) := v)" root "PhysMem s"]
  by (auto simp: pt_ok_def)

lemma pt_ok_invalidate [simp]: "pt_ok (invalidate_if_active r va s) root = pt_ok s root"
  by (simp add: pt_ok_def)

text \<open>What a successful and a failed mapping mean.\<close>

definition mapped :: "HO_PHYSICAL_ADDRESS \<Rightarrow> HO_VIRTUAL_ADDRESS \<Rightarrow> HO_PHYSICAL_ADDRESS \<Rightarrow> u64 \<Rightarrow> 'a vm_globals_scheme \<Rightarrow> 'a vm_globals_scheme \<Rightarrow> bool" where
  "mapped root va pa attrs s s' \<longleftrightarrow>
    page_mapping (PhysMem s) root va = zero_mapping \<and>
    (\<forall>w. same_page va w \<longrightarrow> page_mapping (PhysMem s') root w = leaf_mapping w (3, leaf_entry pa attrs) (attrs AND PTE_USER \<noteq> 0)) \<and>
    (\<forall>w. \<not> same_page va w \<longrightarrow> leaf (PhysMem s') root w = leaf (PhysMem s) root w) \<and>
    (attrs AND PTE_USER = 0 \<longrightarrow> (\<forall>w. \<not> same_page va w \<longrightarrow> page_mapping (PhysMem s') root w = page_mapping (PhysMem s) root w)) \<and>
    (\<forall>q. frames s q \<noteq> Some PMM_PAGE_FREE \<longrightarrow> frames s' q = frames s q) \<and>
    pt_tables (PhysMem s') root \<subseteq> pt_tables (PhysMem s) root \<union> {t. frames s t = Some PMM_PAGE_FREE} \<and>
    TlbInvalidations s' = (if KiReadCr3 s = root then [va] else []) @ TlbInvalidations s"

definition pt_unchanged :: "HO_PHYSICAL_ADDRESS \<Rightarrow> 'a vm_globals_scheme \<Rightarrow> 'a vm_globals_scheme \<Rightarrow> bool" where
  "pt_unchanged root s s' \<longleftrightarrow> frames s' = frames s \<and> TlbInvalidations s' = TlbInvalidations s \<and>
    pt_tables (PhysMem s') root = pt_tables (PhysMem s) root \<and> (\<forall>w. page_mapping (PhysMem s') root w = page_mapping (PhysMem s) root w)"

lemma map_final:
  fixes pa :: HO_PHYSICAL_ADDRESS
  assumes su: "map_setup s0 root attrs va 3 t nt pr s" and ok0: "pt_ok s0 root"
    and absent: "PhysMem s (entry_at t (vidx 3 va)) AND PTE_PRESENT = 0"
  defines "s' \<equiv> invalidate_if_active root va (set_entry (entry_at t (vidx 3 va)) (leaf_entry pa attrs) s)"
  shows "pt_ok s' root" "vm_frame s0 s'" "mapped root va pa attrs s0 s'"
proof -
  let ?v = "leaf_entry pa attrs" and ?e = "entry_at t (vidx 3 va)"
  have ok: "pt_ok s root" and n: "node (PhysMem s) root 3 va = Some t"
    and lf: "\<And>w. leaf (PhysMem s) root w = leaf (PhysMem s0) root w"
    and pm: "attrs AND PTE_USER = 0 \<Longrightarrow> page_mapping (PhysMem s) root w = page_mapping (PhysMem s0) root w"
    and us: "attrs AND PTE_USER \<noteq> 0 \<Longrightarrow> j < 3 \<Longrightarrow> user_at (PhysMem s) root j va"
    and u: "undoable s0 attrs nt pr s" for w j
    using su by (auto simp: map_setup_def)
  have tree: "pt_tree (PhysMem s) root" using ok by (simp add: pt_ok_def)
  have m': "PhysMem s' = (PhysMem s)(?e := ?v)" by (simp add: s'_def)
  note w = leaf_write [where v = ?v, OF tree n, folded m']
  show "pt_ok s' root" unfolding s'_def using pt_ok_leaf_write [OF ok n] by simp
  have vf: "vm_frame s0 s" using u by (simp add: undoable_def)
  then show "vm_frame s0 s'" unfolding s'_def by (meson vm_frame_steps vm_frame_trans)
  have "leaf (PhysMem s0) root va = None" using leaf_depth3 [OF n] lf absent by (simp add: leafval_def)
  then have z: "page_mapping (PhysMem s0) root va = zero_mapping" by (simp add: page_mapping_def)
  have here: "page_mapping (PhysMem s') root x = leaf_mapping x (3, ?v) (attrs AND PTE_USER \<noteq> 0)" if sp: "same_page va x" for x
  proof -
    have l: "leaf (PhysMem s') root x = Some (3, ?v)"
      using w(2) [of x] sp leaf_entry_flags(1) by (simp add: leafval_def)
    have nx: "node (PhysMem s) root j x = node (PhysMem s) root j va" if "j \<le> 3" for j
      using sp that by (intro node_cong) (auto simp: same_path_def)
    have vx: "vidx j x = vidx j va" if "j \<le> 3" for j using sp that by (simp add: same_path_def)
    have low: "user_at (PhysMem s') root j x = user_at (PhysMem s) root j va" if "j < 3" for j
      using w(3) [of j x] nx [of j] vx [of j] that by (simp add: user_at_def split: option.split)
    have top: "user_at (PhysMem s') root 3 x = (attrs AND PTE_USER \<noteq> 0)"
      using w(1) [of 3 x] nx [of 3] vx [of 3] n leaf_entry_flags
      by (simp add: user_at_def m' user_entry_def user_present)
    have "(\<forall>j\<le>3. user_at (PhysMem s') root j x) = (attrs AND PTE_USER \<noteq> 0)"
      using low top us unfolding le_depths by auto
    then show ?thesis using l by (simp add: page_mapping_def)
  qed
  have there: "leaf (PhysMem s') root x = leaf (PhysMem s0) root x" if "\<not> same_page va x" for x
    using w(2) [of x] that lf by simp
  have there': "page_mapping (PhysMem s') root x = page_mapping (PhysMem s0) root x" if "\<not> same_page va x" "attrs AND PTE_USER = 0" for x
  proof -
    have "page_mapping (PhysMem s') root x = page_mapping (PhysMem s) root x"
      by (rule page_mapping_cong) (use w(2) [of x] w(3) [of _ x] that in auto)
    then show ?thesis using pm that by simp
  qed
  have cr: "KiReadCr3 s = KiReadCr3 s0" using vm_frame_keeps [OF vf] by (simp add: KiReadCr3_def)
  have "frames s' q = frames s0 q" if "frames s0 q \<noteq> Some PMM_PAGE_FREE" for q
    using u that by (auto simp: s'_def undoable_def)
  moreover have "pt_tables (PhysMem s') root \<subseteq> pt_tables (PhysMem s0) root \<union> {t. frames s0 t = Some PMM_PAGE_FREE}"
    using su tables_cong [of "PhysMem s'" root "PhysMem s"] w(1) by (simp add: map_setup_def)
  moreover have "TlbInvalidations s' = (if KiReadCr3 s0 = root then [va] else []) @ TlbInvalidations s0"
    using u cr by (simp add: s'_def undoable_def KiReadCr3_def)
  ultimately show "mapped root va pa attrs s0 s'" using z here there there' by (simp add: mapped_def)
qed

lemma rollback_unchanged:
  assumes "pt_ok s0 root" "map_setup s0 root attrs va d c nt pr s"
  defines "s' \<equiv> KiRollbackMapSetup nt pr s"
  shows "pt_ok s' root" "vm_frame s0 s'" "pt_unchanged root s0 s'"
proof -
  have r: "pmm_ready s" "undoable s0 attrs nt pr s" using assms(2) by (simp_all add: map_setup_def pt_ok_def)
  note b = rollback_restores [OF assms(1) r, folded s'_def]
  show "pt_ok s' root" "vm_frame s0 s'" "pt_unchanged root s0 s'" using b by (simp_all add: pt_unchanged_def)
qed

lemma KePtMapPage_effect:
  assumes ok: "pt_ok s root" and sp: "SpaceInitialized sp" "RootPageTablePhys sp = root"
    and al: "HO_IS_ALIGNED va PAGE_4KB" "HO_IS_ALIGNED pa PAGE_4KB"
  shows "\<exists>st s'. KePtMapPage (Some sp) va pa attrs s = Done (st, s') \<and> pt_ok s' root \<and> vm_frame s s' \<and>
    (if st = EC_SUCCESS then mapped root va pa attrs s s' else pt_unchanged root s s')"
proof -
  let ?E = "\<lambda>c d nt pr s. KiEnsureChildTable (entry_at c (vidx d va)) attrs nt pr s"
  have self: "pt_unchanged root s s" by (simp add: pt_unchanged_def)
  obtain r1 nt1 pr1 s1 where e1: "?E root 0 [] [] s = Done (r1, nt1, pr1, s1)"
    and c1: "case r1 of Inl e \<Rightarrow> e \<noteq> EC_SUCCESS \<and> nt1 = [] \<and> pr1 = [] \<and> s1 = s
       | Inr c \<Rightarrow> map_setup s root attrs va (Suc 0) c nt1 pr1 s1 \<and> entries_recorded root va (Suc 0) nt1 pr1 s1"
    using KiEnsureChildTable_step [OF map_setup_start [OF ok]] by (force simp: entries_recorded_def)
  note unf = KePtMapPage_def sp al vidx_index
  show ?thesis
  proof (cases r1)
    case (Inl e)
    then show ?thesis using e1 c1 ok self by (simp add: unf Let_def)
  next
    case (Inr pdpt)
    then have m1: "map_setup s root attrs va 1 pdpt nt1 pr1 s1" "entries_recorded root va 1 nt1 pr1 s1" using c1 by simp_all
    obtain r2 nt2 pr2 s2 where e2: "?E pdpt 1 nt1 pr1 s1 = Done (r2, nt2, pr2, s2)"
      and c2: "case r2 of Inl e \<Rightarrow> e \<noteq> EC_SUCCESS \<and> nt2 = nt1 \<and> pr2 = pr1 \<and> s2 = s1
         | Inr c \<Rightarrow> map_setup s root attrs va (Suc 1) c nt2 pr2 s2 \<and> entries_recorded root va (Suc 1) nt2 pr2 s2"
      using KiEnsureChildTable_step [OF m1] by force
    show ?thesis
    proof (cases r2)
      case (Inl e)
      then show ?thesis using e1 \<open>r1 = Inr pdpt\<close> e2 c2 rollback_unchanged [OF ok m1(1)] by (simp add: unf Let_def)
    next
      case (Inr pd)
      then have m2: "map_setup s root attrs va 2 pd nt2 pr2 s2" "entries_recorded root va 2 nt2 pr2 s2"
        using c2 by (simp_all add: numeral_2_eq_2)
      obtain r3 nt3 pr3 s3 where e3: "?E pd 2 nt2 pr2 s2 = Done (r3, nt3, pr3, s3)"
        and c3: "case r3 of Inl e \<Rightarrow> e \<noteq> EC_SUCCESS \<and> nt3 = nt2 \<and> pr3 = pr2 \<and> s3 = s2
           | Inr c \<Rightarrow> map_setup s root attrs va (Suc 2) c nt3 pr3 s3 \<and> entries_recorded root va (Suc 2) nt3 pr3 s3"
        using KiEnsureChildTable_step [OF m2] by force
      note upto = e1 \<open>r1 = Inr pdpt\<close> e2 \<open>r2 = Inr pd\<close> e3
      show ?thesis
      proof (cases r3)
        case (Inl e)
        then show ?thesis using upto c3 rollback_unchanged [OF ok m2(1)] by (simp add: unf Let_def)
      next
        case (Inr pt)
        then have m3: "map_setup s root attrs va 3 pt nt3 pr3 s3" using c3 by simp
        show ?thesis
        proof (cases "PhysMem s3 (entry_at pt (vidx 3 va)) AND PTE_PRESENT = 0")
          case False
          then show ?thesis using upto Inr rollback_unchanged [OF ok m3] by (simp add: unf Let_def)
        next
          case True
          then show ?thesis using upto Inr map_final [OF m3 ok True, of pa] by (simp add: unf Let_def leaf_entry_def)
        qed
      qed
    qed
  qed
qed

section \<open>Unmapping and protecting a page\<close>

lemma walk_level1:
  assumes "KiWalkImportedRoot (Some sp) va s = Inr walk" "LeafEntry walk = Some e" "WalkLevel walk = 1"
  shows "\<exists>t. node (PhysMem s) (RootPageTablePhys sp) 3 va = Some t \<and> e = entry_at t (vidx 3 va) \<and>
    LeafValue walk = PhysMem s e \<and> PhysMem s e AND PTE_PRESENT \<noteq> 0"
  using assms by (auto simp: KiWalkImportedRoot_def Let_def zero_walk_def vidx_index node_steps link_def split: if_splits)

lemma walk_query:
  assumes "KiWalkImportedRoot (Some sp) va s = Inr walk" "SpaceInitialized sp" "HO_IS_ALIGNED va PAGE_4KB"
  shows "LeafEntry walk = None \<longleftrightarrow> \<not> Present (page_mapping (PhysMem s) (RootPageTablePhys sp) va)"
    "LeafEntry walk \<noteq> None \<Longrightarrow> WalkLevel walk = MapLevel (page_mapping (PhysMem s) (RootPageTablePhys sp) va)"
proof -
  have "KePtQueryPage (Some sp) va s = Inr (page_mapping (PhysMem s) (RootPageTablePhys sp) va)"
    by (rule KePtQueryPage_mapping [OF assms(2,3)])
  then show "LeafEntry walk = None \<longleftrightarrow> \<not> Present (page_mapping (PhysMem s) (RootPageTablePhys sp) va)"
    "LeafEntry walk \<noteq> None \<Longrightarrow> WalkLevel walk = MapLevel (page_mapping (PhysMem s) (RootPageTablePhys sp) va)"
    using assms(1) by (auto simp: KePtQueryPage_def zero_mapping_def split: if_splits) (metis KE_PT_MAPPING.select_convs(1,4))+
qed

lemma walk_total:
  assumes "SpaceInitialized sp" "HO_IS_ALIGNED va PAGE_4KB"
  obtains walk where "KiWalkImportedRoot (Some sp) va s = Inr walk"
  using assms KePtQueryPage_mapping [OF assms, of s] by (cases "KiWalkImportedRoot (Some sp) va s") (auto simp: KePtQueryPage_def)

text \<open>Replacing the leaf of one page: every other page keeps its mapping.\<close>

definition leaf_replaced :: "HO_PHYSICAL_ADDRESS \<Rightarrow> HO_VIRTUAL_ADDRESS \<Rightarrow> PAGE_TABLE_ENTRY option \<Rightarrow> 'a vm_globals_scheme \<Rightarrow> 'a vm_globals_scheme \<Rightarrow> bool" where
  "leaf_replaced root va v s s' \<longleftrightarrow>
    (\<forall>w. same_page va w \<longrightarrow> leaf (PhysMem s') root w = map_option (Pair 3) v) \<and>
    (\<forall>w. \<not> same_page va w \<longrightarrow> page_mapping (PhysMem s') root w = page_mapping (PhysMem s) root w) \<and>
    pt_tables (PhysMem s') root = pt_tables (PhysMem s) root \<and>
    frames s' = frames s \<and> TlbInvalidations s' = (if KiReadCr3 s = root then [va] else []) @ TlbInvalidations s"

lemma leaf_replace:
  fixes v :: u64
  assumes ok: "pt_ok s root" and n: "node (PhysMem s) root 3 va = Some t"
  defines "s' \<equiv> invalidate_if_active root va (set_entry (entry_at t (vidx 3 va)) v s)"
  shows "pt_ok s' root" "vm_frame s s'" "leaf_replaced root va (leafval 3 v) s s'"
proof -
  have tree: "pt_tree (PhysMem s) root" using ok by (simp add: pt_ok_def)
  have m': "PhysMem s' = (PhysMem s)(entry_at t (vidx 3 va) := v)" by (simp add: s'_def)
  note w = leaf_write [where v = v, OF tree n, folded m']
  show "pt_ok s' root" unfolding s'_def using pt_ok_leaf_write [OF ok n] by simp
  show "vm_frame s s'" unfolding s'_def by (meson vm_frame_steps vm_frame_trans)
  have "page_mapping (PhysMem s') root x = page_mapping (PhysMem s) root x" if "\<not> same_page va x" for x
    by (rule page_mapping_cong) (use w(2) [of x] w(3) [of _ x] that in auto)
  moreover have "pt_tables (PhysMem s') root = pt_tables (PhysMem s) root" by (rule tables_cong) (rule w(1))
  ultimately show "leaf_replaced root va (leafval 3 v) s s'"
    using w(2) by (simp add: leaf_replaced_def s'_def KiReadCr3_def)
qed

lemma KePtUnmapPage_effect:
  assumes ok: "pt_ok s root" and sp: "SpaceInitialized sp" "RootPageTablePhys sp = root" and al: "HO_IS_ALIGNED va PAGE_4KB"
  defines "q \<equiv> page_mapping (PhysMem s) root va"
  shows "\<exists>st s'. KePtUnmapPage (Some sp) va s = (st, s') \<and> pt_ok s' root \<and> vm_frame s s' \<and>
    st = (if \<not> Present q then EC_INVALID_STATE else if MapLevel q \<noteq> 1 then EC_NOT_SUPPORTED else EC_SUCCESS) \<and>
    (if st = EC_SUCCESS then leaf_replaced root va None s s' else s' = s)"
proof -
  obtain walk where w: "KiWalkImportedRoot (Some sp) va s = Inr walk" using walk_total [OF sp(1) al] .
  note wq = walk_query [OF w sp(1) al, unfolded sp(2), folded q_def]
  show ?thesis
  proof (cases "LeafEntry walk")
    case None
    then show ?thesis using w wq(1) ok by (simp add: KePtUnmapPage_def)
  next
    case (Some e)
    show ?thesis
    proof (cases "WalkLevel walk = 1")
      case False
      then show ?thesis using w wq Some ok by (simp add: KePtUnmapPage_def)
    next
      case True
      obtain t where t: "node (PhysMem s) root 3 va = Some t" "e = entry_at t (vidx 3 va)"
        using walk_level1 [OF w Some True] sp(2) by auto
      show ?thesis using w wq Some True t(2) leaf_replace [where v = 0, OF ok t(1)] sp(2) by (simp add: KePtUnmapPage_def)
    qed
  qed
qed

definition protected_entry :: "PAGE_TABLE_ENTRY \<Rightarrow> u64 \<Rightarrow> PAGE_TABLE_ENTRY" where
  "protected_entry old attrs = ((old AND KE_PT_PHYS_ADDR_MASK) OR (old AND (PTE_ACCESSED OR PTE_DIRTY))) OR
     (attrs AND KE_PT_ALLOWED_LEAF_FLAGS) OR PTE_PRESENT"

lemma protected_entry_flags:
  "protected_entry old attrs AND PTE_PRESENT \<noteq> 0"
  "protected_entry old attrs AND KE_PT_PHYS_ADDR_MASK = old AND KE_PT_PHYS_ADDR_MASK"
  "protected_entry old attrs AND PTE_WRITABLE = attrs AND PTE_WRITABLE"
proof -
  have d: "protected_entry old attrs AND x = (old AND (KE_PT_PHYS_ADDR_MASK AND x)) OR (old AND ((PTE_ACCESSED OR PTE_DIRTY) AND x)) OR
     (attrs AND (KE_PT_ALLOWED_LEAF_FLAGS AND x)) OR (PTE_PRESENT AND x)" for x
    unfolding protected_entry_def by (rule bit_word_eqI) (auto simp: bit_simps)
  note c = KE_PT_PHYS_ADDR_MASK_def PTE_PRESENT_def KE_PT_ALLOWED_LEAF_FLAGS_def PTE_USER_def PTE_ACCESSED_def PTE_DIRTY_def
    PTE_WRITABLE_def PTE_WRITETHROUGH_def PTE_CACHE_DISABLE_def PTE_GLOBAL_def PTE_NO_EXECUTE_def
  show "protected_entry old attrs AND PTE_PRESENT \<noteq> 0"
    unfolding protected_entry_def present_bit by (simp add: bit_simps flags_nonzero) (simp add: PTE_PRESENT_def)
  show "protected_entry old attrs AND KE_PT_PHYS_ADDR_MASK = old AND KE_PT_PHYS_ADDR_MASK"
    "protected_entry old attrs AND PTE_WRITABLE = attrs AND PTE_WRITABLE" unfolding d by (simp_all add: c)
qed

lemma KePtProtectPage_effect:
  assumes ok: "pt_ok s root" and sp: "SpaceInitialized sp" "RootPageTablePhys sp = root" and al: "HO_IS_ALIGNED va PAGE_4KB"
  defines "q \<equiv> page_mapping (PhysMem s) root va"
  shows "\<exists>st s'. KePtProtectPage (Some sp) va attrs s = (st, s') \<and> pt_ok s' root \<and> vm_frame s s' \<and>
    st = (if \<not> Present q then EC_INVALID_STATE else if MapLevel q \<noteq> 1 then EC_NOT_SUPPORTED else EC_SUCCESS) \<and>
    (if st = EC_SUCCESS then leaf_replaced root va (Some (protected_entry (MapAttributes q) attrs)) s s' else s' = s)"
proof -
  obtain walk where w: "KiWalkImportedRoot (Some sp) va s = Inr walk" using walk_total [OF sp(1) al] .
  note wq = walk_query [OF w sp(1) al, unfolded sp(2), folded q_def]
  show ?thesis
  proof (cases "LeafEntry walk")
    case None
    then show ?thesis using w wq(1) ok by (simp add: KePtProtectPage_def)
  next
    case (Some e)
    show ?thesis
    proof (cases "WalkLevel walk = 1")
      case False
      then show ?thesis using w wq Some ok by (simp add: KePtProtectPage_def)
    next
      case True
      obtain t where t: "node (PhysMem s) root 3 va = Some t" "e = entry_at t (vidx 3 va)"
        and v: "LeafValue walk = PhysMem s e" "PhysMem s e AND PTE_PRESENT \<noteq> 0"
        using walk_level1 [OF w Some True] sp(2) by auto
      have "q = leaf_mapping va (3, PhysMem s e) (\<forall>j\<le>3. user_at (PhysMem s) root j va)"
        using leaf_depth3 [OF t(1)] v(2) t(2) by (simp add: q_def page_mapping_def leafval_def)
      then have a: "MapAttributes q = LeafValue walk" using v by (simp add: leaf_mapping_def Let_def)
      have "leafval 3 (protected_entry (LeafValue walk) attrs) = Some (protected_entry (LeafValue walk) attrs)"
        using protected_entry_flags(1) by (simp add: leafval_def)
      then show ?thesis
        using w wq Some True t(2) a leaf_replace [where v = "protected_entry (LeafValue walk) attrs", OF ok t(1)] sp(2)
        by (simp add: KePtProtectPage_def protected_entry_def Let_def)
    qed
  qed
qed

end
