(* ===== verification/PrivateRoots.thy ===== *)
theory PrivateRoots
  imports PageEdits "HOL-Library.Multiset"
begin

text \<open>
  The imported regions of the kernel space (sorting and look-up) and the private roots of
  processes: a new root shares the kernel half and maps nothing else, and destroying it returns
  its frame.
\<close>

section \<open>Imported regions\<close>

definition region_le :: "KE_IMPORTED_REGION \<Rightarrow> KE_IMPORTED_REGION \<Rightarrow> bool" where
  "region_le a b \<longleftrightarrow> \<not> KiCompareImportedRegions b a < 0"

lemma region_le_trans: "region_le a b \<Longrightarrow> region_le b c \<Longrightarrow> region_le a c"
  by (auto simp: region_le_def KiCompareImportedRegions_def split: if_splits)

lemma region_lt_le: "KiCompareImportedRegions a b < 0 \<Longrightarrow> region_le a b"
  by (auto simp: region_le_def KiCompareImportedRegions_def split: if_splits)

fun ins_right :: "KE_IMPORTED_REGION \<Rightarrow> KE_IMPORTED_REGION list \<Rightarrow> KE_IMPORTED_REGION list" where
  "ins_right key xs = (if xs = [] then [key]
     else if KiCompareImportedRegions key (last xs) < 0 then ins_right key (butlast xs) @ [last xs] else xs @ [key])"

declare ins_right.simps [simp del]

lemma ins_right_simps [simp]: "ins_right key [] = [key]"
  "ins_right key (xs @ [x]) = (if KiCompareImportedRegions key x < 0 then ins_right key xs @ [x] else xs @ [x, key])"
  by (simp_all add: ins_right.simps [of _ "[]"] ins_right.simps [of _ "xs @ [x]"])

lemma insert_key_ins: "j < length rs \<Longrightarrow> insert_key key j rs = ins_right key (take j rs) @ drop (Suc j) rs"
proof (induction j arbitrary: rs)
  case 0
  then show ?case by (cases rs) simp_all
next
  case (Suc j)
  have t: "take (Suc j) rs = take j rs @ [rs ! j]" using Suc.prems by (simp add: take_Suc_conv_app_nth)
  have d: "drop (Suc j) (rs[Suc j := x]) = x # drop (Suc (Suc j)) rs" for x
    using Suc.prems by (simp add: drop_update_swap Cons_nth_drop_Suc [symmetric] del: drop_Suc)
  have u: "rs[Suc j := key] = take j rs @ [rs ! j, key] @ drop (Suc (Suc j)) rs"
    using Suc.prems by (simp add: upd_conv_take_nth_drop t)
  show ?case using Suc.IH [of "rs[Suc j := rs ! j]"] Suc.prems by (simp add: t u d)
qed

lemma mset_ins_right: "mset (ins_right key xs) = add_mset key (mset xs)"
  by (induction xs rule: rev_induct) simp_all

lemma length_ins_right [simp]: "length (ins_right key xs) = Suc (length xs)"
  using mset_ins_right [of key xs] by (metis size_add_mset size_mset)

lemma sorted_ins_right:
  "sorted_wrt region_le xs \<Longrightarrow> sorted_wrt region_le (ins_right key xs)"
proof (induction xs rule: rev_induct)
  case (snoc x xs)
  have "set (ins_right key xs) = insert key (set xs)" using mset_ins_right [of key xs] by (metis set_mset_add_mset_insert set_mset_mset)
  then show ?case using snoc
    by (auto simp: sorted_wrt_append region_lt_le) (simp add: region_le_def, use region_le_trans in \<open>simp add: region_le_def, blast\<close>)
qed simp

lemma sort_loop:
  assumes "0 < n" "n \<le> length rs"
  defines "rs' \<equiv> fold (\<lambda>i rs. insert_key (rs ! i) i rs) [1..<n] rs"
  shows "length rs' = length rs \<and> mset (take n rs') = mset (take n rs) \<and> sorted_wrt region_le (take n rs') \<and> drop n rs' = drop n rs"
  using assms(1,2) unfolding rs'_def
proof (induction n)
  case (Suc n)
  show ?case
  proof (cases "n = 0")
    case True
    then show ?thesis using Suc.prems by (cases rs) simp_all
  next
    case False
    define r where "r = fold (\<lambda>i rs. insert_key (rs ! i) i rs) [1..<n] rs"
    have r: "length r = length rs" "mset (take n r) = mset (take n rs)" "sorted_wrt region_le (take n r)" "drop n r = drop n rs"
      using Suc False by (simp_all add: r_def)
    have n: "n < length r" using r(1) Suc.prems by simp
    have "fold (\<lambda>i rs. insert_key (rs ! i) i rs) [1..<Suc n] rs = insert_key (r ! n) n r"
      using False by (simp add: r_def)
    also have "\<dots> = ins_right (r ! n) (take n r) @ drop (Suc n) r" by (rule insert_key_ins [OF n])
    finally have e: "fold (\<lambda>i rs. insert_key (rs ! i) i rs) [1..<Suc n] rs = ins_right (r ! n) (take n r) @ drop (Suc n) r" .
    have len: "length (ins_right (r ! n) (take n r)) = Suc n" using n by simp
    have nth: "r ! n = rs ! n" using r(4) n r(1) by (metis hd_drop_conv_nth)
    have "mset (take (Suc n) rs) = add_mset (rs ! n) (mset (take n rs))" using n r(1) by (simp add: take_Suc_conv_app_nth)
    moreover have "drop (Suc n) r = drop (Suc n) rs" using r(4) by (metis drop_drop plus_1_eq_Suc)
    ultimately show ?thesis unfolding e using len r n nth
      by (simp add: mset_ins_right sorted_ins_right)
  qed
qed simp

lemma KiSortImportedRegions_sorts:
  "mset (KiSortImportedRegions rs) = mset rs" "sorted_wrt region_le (KiSortImportedRegions rs)"
  using sort_loop [of "length rs" rs] by (cases "rs = []"; auto simp: KiSortImportedRegions_def)+

text \<open>\<open>KeFindImportedRegion\<close> returns a smallest region that covers the address.\<close>

definition covers :: "HO_VIRTUAL_ADDRESS \<Rightarrow> KE_IMPORTED_REGION \<Rightarrow> bool" where
  "covers va r \<longleftrightarrow> VirtualStart r \<le> va \<and> va < VirtualEndExclusive r"

lemma KeFindImportedRegion_smallest:
  assumes "SpaceInitialized sp"
  shows "case KeFindImportedRegion (Some sp) va of
      None \<Rightarrow> \<forall>r \<in> set (Regions sp). \<not> covers va r
    | Some r \<Rightarrow> r \<in> set (Regions sp) \<and> covers va r \<and> (\<forall>r' \<in> set (Regions sp). covers va r' \<longrightarrow> RegionSize r \<le> RegionSize r')"
proof -
  define f :: "KE_IMPORTED_REGION \<Rightarrow> KE_IMPORTED_REGION option \<Rightarrow> KE_IMPORTED_REGION option"
    where "f = (\<lambda>region best.
           if va < VirtualStart region \<or> va \<ge> VirtualEndExclusive region then best
           else case best of
             None \<Rightarrow> Some region
           | Some b \<Rightarrow> if RegionSize region < RegionSize b then Some region else best)"
  have "case fold f rs None of None \<Rightarrow> \<forall>r \<in> set rs. \<not> covers va r
    | Some r \<Rightarrow> r \<in> set rs \<and> covers va r \<and> (\<forall>r' \<in> set rs. covers va r' \<longrightarrow> RegionSize r \<le> RegionSize r')" for rs
    by (induction rs rule: rev_induct) (auto simp: f_def covers_def split: option.splits)
  then show ?thesis using assms by (simp add: KeFindImportedRegion_def f_def)
qed

section \<open>Private roots\<close>

lemma half_table: "ENTRIES_PER_TABLE div 2 = 256"
  by (rule unat_eqI) (simp add: unat_div ENTRIES_PER_TABLE_def)

lemma copy_simps [simp]:
  "frames (KiCopyImportedKernelHighHalfMappings p r s) = frames s" "pmm_ready (KiCopyImportedKernelHighHalfMappings p r s) = pmm_ready s"
  "TlbInvalidations (KiCopyImportedKernelHighHalfMappings p r s) = TlbInvalidations s"
  "gKernelAddressSpace (KiCopyImportedKernelHighHalfMappings p r s) = gKernelAddressSpace s"
  "gKernelAddressSpace (zero_page p s) = gKernelAddressSpace s" "gKernelAddressSpace (set_sink_context ctx s) = gKernelAddressSpace s"
  "vm_frame s (KiCopyImportedKernelHighHalfMappings p r s)"
  by (simp_all add: KiCopyImportedKernelHighHalfMappings_def zero_page_def set_sink_context_def frames_def pmm_ready_def vm_frame_def)

text \<open>The memory of a new private root at \<open>p\<close>, seen from the kernel root \<open>r\<close>.\<close>

lemma private_root_words:
  fixes s :: "'a vm_globals_scheme"
  assumes al: "HO_IS_ALIGNED p PAGE_4KB" "HO_IS_ALIGNED r PAGE_4KB" and ne: "p \<noteq> r"
  defines "m' \<equiv> PhysMem (KiCopyImportedKernelHighHalfMappings p r (zero_page p s))"
  shows "a AND PAGE_MASK \<noteq> p \<Longrightarrow> m' a = PhysMem s a"
    and "i < ENTRIES_PER_TABLE \<Longrightarrow> m' (entry_at p i) = (if i < 256 then 0 else PhysMem s (entry_at r i))"
proof -
  have off: "entry_at t i - entry_at p (ENTRIES_PER_TABLE div 2) = (t - p) + 8 * i - 2048" for t i
    by (simp add: entry_at_def half_table algebra_simps)
  show "m' a = PhysMem s a" if "a AND PAGE_MASK \<noteq> p"
  proof -
    have np: "\<not> a - p < PAGE_4KB" using in_page_iff [OF al(1)] that by blast
    have "\<not> a - entry_at p (ENTRIES_PER_TABLE div 2) < 2048"
    proof
      define x where "x = a - entry_at p (ENTRIES_PER_TABLE div 2)"
      assume "a - entry_at p (ENTRIES_PER_TABLE div 2) < 2048"
      then have "unat x < 2048" by (simp add: x_def word_less_nat_alt)
      then have "unat (x + 2048) < 4096" by (simp add: unat_add_small)
      moreover have "a - p = x + 2048" by (simp add: x_def entry_at_def half_table)
      ultimately show False using np by (simp add: word_less_nat_alt PAGE_4KB_def)
    qed
    then show ?thesis using np
      by (simp add: m'_def KiCopyImportedKernelHighHalfMappings_def half_table ENTRIES_PER_TABLE_def)
  qed
  show "m' (entry_at p i) = (if i < 256 then 0 else PhysMem s (entry_at r i))" if i: "i < ENTRIES_PER_TABLE"
  proof -
    have ui: "unat i < 512" using i by (simp add: word_less_nat_alt ENTRIES_PER_TABLE_def)
    have u8: "unat (8 * i) = 8 * unat i" using ui by (simp add: unat_word_ariths)
    have inp: "entry_at p i - p < PAGE_4KB" using entry_in_page [OF al(1) al(1) i] by simp
    have o: "entry_at p i - entry_at p (ENTRIES_PER_TABLE div 2) = 8 * i - 2048" using off [of p i] by simp
    show ?thesis
    proof (cases "i < 256")
      case True
      then have "unat i < 256" by (simp add: word_less_nat_alt)
      then have "\<not> (8 * i - 2048 < 2048)"
        using u8 by (simp add: word_less_nat_alt unat_sub_if_size word_size)
      then show ?thesis using True inp o
        by (simp add: m'_def KiCopyImportedKernelHighHalfMappings_def half_table ENTRIES_PER_TABLE_def Let_def)
    next
      case False
      then have ge: "256 \<le> unat i" by (simp add: word_less_nat_alt)
      then have u: "unat (8 * i - 2048) = 8 * unat i - 2048" using u8 by (simp add: unat_sub_small)
      then have lt: "8 * i - 2048 < (2048 :: u64)" using ui by (simp add: word_less_nat_alt)
      have src: "entry_at r (ENTRIES_PER_TABLE div 2) + (8 * i - 2048) = entry_at r i" by (simp add: entry_at_def half_table)
      have "\<not> entry_at r i - p < PAGE_4KB" using entry_in_page [OF al(2) al(1) i] ne by simp
      then show ?thesis using False lt o src
        by (simp add: m'_def KiCopyImportedKernelHighHalfMappings_def half_table ENTRIES_PER_TABLE_def Let_def)
    qed
  qed
qed

lemma KeCreateProcessAddressSpace_effect:
  assumes ok: "pt_ok s (RootPageTablePhys (gKernelAddressSpace s))" and init: "SpaceInitialized (gKernelAddressSpace s)"
    and c: "KeCreateProcessAddressSpace s = Done (Inr sp, s')"
  defines "r \<equiv> RootPageTablePhys (gKernelAddressSpace s)" and "p \<equiv> PrivateRootPhys sp"
  shows "PrivateInitialized sp" "frames s p = Some PMM_PAGE_FREE" "pmm_ready s'" "frames s' = (frames s)(p := Some PMM_PAGE_ALLOCATED)"
    "vm_frame s s'" "HO_IS_ALIGNED p PAGE_4KB"
    and "i < ENTRIES_PER_TABLE \<Longrightarrow> PhysMem s' (entry_at p i) = (if i < 256 then 0 else PhysMem s (entry_at r i))"
    and "a AND PAGE_MASK \<noteq> p \<Longrightarrow> PhysMem s' a = PhysMem s a"
proof -
  have rdy: "pmm_ready s" and tree: "pt_tree (PhysMem s) r" using ok by (simp_all add: pt_ok_def r_def)
  obtain s1 where a: "KePmmAllocPages s 1 None = Done (Inr p, s1)"
    and sp: "sp = \<lparr>PrivateRootPhys = p, PrivateInitialized = True\<rparr>"
    and s': "s' = KiCopyImportedKernelHighHalfMappings p (RootPageTablePhys (gKernelAddressSpace s1)) (zero_page p s1)"
    using c init unfolding KeCreateProcessAddressSpace_def p_def
    by (cases "KePmmAllocPages s 1 None") (auto simp: Let_def split: sum.splits)
  note al = KePmmAllocPages_success [OF rdy a]
  obtain ctx where s1: "s1 = set_sink_context ctx s" using al(6) by blast
  have s'r: "s' = KiCopyImportedKernelHighHalfMappings p r (zero_page p s1)" using s' s1 by (simp add: r_def)
  show pf: "frames s p = Some PMM_PAGE_FREE" using al(3) by simp
  show "PrivateInitialized sp" using sp by simp
  show "pmm_ready s'" using al(1) by (simp add: s'r)
  show "frames s' = (frames s)(p := Some PMM_PAGE_ALLOCATED)" using al(4) by (auto simp: s'r fun_eq_iff)
  show "HO_IS_ALIGNED p PAGE_4KB" by (rule al(5))
  show "vm_frame s s'" unfolding s'r s1 by (meson vm_frame_steps vm_frame_trans copy_simps)
  have ra: "HO_IS_ALIGNED r PAGE_4KB" using tree by (simp add: pt_tree_def)
  have "frames s r \<noteq> Some PMM_PAGE_FREE" using ok unfolding pt_ok_def r_def by (metis node.simps(1) zero_le)
  then have ne: "p \<noteq> r" using pf by auto
  note w = private_root_words [where s = s1, OF al(5) ra ne, folded s'r]
  show "i < ENTRIES_PER_TABLE \<Longrightarrow> PhysMem s' (entry_at p i) = (if i < 256 then 0 else PhysMem s (entry_at r i))"
    using w(2) [of i] by (simp add: s1)
  show "a AND PAGE_MASK \<noteq> p \<Longrightarrow> PhysMem s' a = PhysMem s a" using w(1) [of a] by (simp add: s1)
qed

text \<open>The new root translates the upper half as the kernel root does, and maps nothing below.\<close>

lemma private_root_view:
  assumes ok: "pt_ok s (RootPageTablePhys (gKernelAddressSpace s))" and init: "SpaceInitialized (gKernelAddressSpace s)"
    and c: "KeCreateProcessAddressSpace s = Done (Inr sp, s')"
  defines "r \<equiv> RootPageTablePhys (gKernelAddressSpace s)" and "p \<equiv> PrivateRootPhys sp"
  shows "page_mapping (PhysMem s') p va = (if PML4_INDEX va < 256 then zero_mapping else page_mapping (PhysMem s) r va)"
    and "page_mapping (PhysMem s') r va = page_mapping (PhysMem s) r va"
proof -
  note e = KeCreateProcessAddressSpace_effect [OF ok init c, folded r_def p_def]
  have okr: "pt_ok s r" using ok by (simp add: r_def)
  have np: "t \<noteq> p" "entry_at t (vidx d w) AND PAGE_MASK = t" if "node (PhysMem s) r d w = Some t" "d \<le> 3" for d w t
    using okr that e(2) pt_treeD(1) [of "PhysMem s" r d w t] by (auto simp: pt_ok_def entry_at_page)
  have same: "PhysMem s' (entry_at t (vidx d w)) = PhysMem s (entry_at t (vidx d w))" if "node (PhysMem s) r d w = Some t" "d \<le> 3" for d w t
    using e(8) np [OF that] by metis
  have "mem_eqv s (PhysMem s')"
    unfolding mem_eqv_def using e(2,8) by metis
  then show "page_mapping (PhysMem s') r va = page_mapping (PhysMem s) r va" by (rule mem_eqv_view(2) [OF okr])
  have root: "PhysMem s' (entry_at p (vidx 0 w)) = (if vidx 0 w < 256 then 0 else PhysMem s (entry_at r (vidx 0 w)))" for w
    by (rule e(7)) simp
  show "page_mapping (PhysMem s') p va = (if PML4_INDEX va < 256 then zero_mapping else page_mapping (PhysMem s) r va)"
  proof (cases "vidx 0 va < 256")
    case True
    then have "node (PhysMem s') p 1 va = None" using root [of va] by (simp add: node_steps(1) del: One_nat_def)
    then show ?thesis using True leaf_none(1) by (simp add: page_mapping_def vidx_index)
  next
    case False
    have n: "node (PhysMem s') p (Suc d) va = node (PhysMem s) r (Suc d) va" if "d \<le> 2" for d
      using that
    proof (induction d)
      case 0
      then show ?case using root [of va] False by simp
    next
      case (Suc d)
      show ?case
      proof (cases "node (PhysMem s) r (Suc d) va")
        case None
        then have "node (PhysMem s') p (Suc d) va = None" using Suc by simp
        with None show ?thesis by (simp only: node.simps(2) [of _ _ "Suc d"]) simp
      next
        case (Some t)
        then have "node (PhysMem s') p (Suc d) va = Some t" using Suc by simp
        with Some show ?thesis using same [OF Some] Suc.prems by (simp only: node.simps(2) [of _ _ "Suc d"]) simp
      qed
    qed
    have n': "node (PhysMem s') p d va = node (PhysMem s) r d va" if "0 < d" "d \<le> 3" for d
      using n [of "d - 1"] that by (cases d) simp_all
    have "leaf_at (PhysMem s') p d va = leaf_at (PhysMem s) r d va" if "0 < d" "d \<le> 3" for d
      using n' [OF that] same [of d va] that by (cases "node (PhysMem s) r d va") (simp_all add: leaf_at_def)
    from this [of 1] this [of 2] this [of 3] have l: "leaf (PhysMem s') p va = leaf (PhysMem s) r va"
      by (simp add: leaf_def split: option.split)
    have u: "user_at (PhysMem s') p d va = user_at (PhysMem s) r d va" if "d \<le> 3" for d
    proof (cases "d = 0")
      case True
      then show ?thesis using root [of va] False by (simp add: user_at_def)
    next
      case False
      then show ?thesis using n' [of d] same [of d va] that by (cases "node (PhysMem s) r d va") (simp_all add: user_at_def)
    qed
    have "fst x \<le> 3" if "leaf (PhysMem s) r va = Some x" for x using that by (auto simp: leaf_def split: option.splits)
    then have "page_mapping (PhysMem s') p va = page_mapping (PhysMem s) r va"
      using u unfolding page_mapping_def l by (auto split: option.split intro!: arg_cong [where f = "leaf_mapping _ _"])
    then show ?thesis using False by (simp add: vidx_index)
  qed
qed

lemma fold_no_entry:
  assumes "\<forall>i\<in>set is. PhysMem s (entry_at p (word_of_nat i)) AND PTE_PRESENT = 0"
  shows "fold (\<lambda>idx (firstError, s). let entry = PhysMem s (entry_at p (word_of_nat idx)) in
      if entry AND PTE_PRESENT = 0 then (firstError, s) else f idx entry firstError s) is (e, s) = (e, s)"
  using assms by (induction "is") (simp_all add: Let_def)

lemma create_destroy:
  assumes ok: "pt_ok s (RootPageTablePhys (gKernelAddressSpace s))" and init: "SpaceInitialized (gKernelAddressSpace s)"
    and c: "KeCreateProcessAddressSpace s = Done (Inr sp, s1)" and na: "KiReadCr3 s \<noteq> PrivateRootPhys sp"
  shows "\<exists>s2. KeDestroyProcessAddressSpace (Some sp) s1 = (EC_SUCCESS, Some \<lparr>PrivateRootPhys = 0, PrivateInitialized = False\<rparr>, s2) \<and>
    pmm_ready s2 \<and> frames s2 = frames s \<and> vm_frame s s2"
proof -
  note e = KeCreateProcessAddressSpace_effect [OF ok init c]
  let ?p = "PrivateRootPhys sp"
  have z: "\<forall>i\<in>set [0..<256]. PhysMem s1 (entry_at ?p (word_of_nat i)) AND PTE_PRESENT = 0"
  proof
    fix i assume "i \<in> set [0..<256]"
    then have "(word_of_nat i :: u64) < 256" by (simp add: word_less_nat_alt)
    moreover have "(word_of_nat i :: u64) < ENTRIES_PER_TABLE" using calculation by (simp add: ENTRIES_PER_TABLE_def word_less_nat_alt)
    ultimately show "PhysMem s1 (entry_at ?p (word_of_nat i)) AND PTE_PRESENT = 0" using e(7) by simp
  qed
  have "KiReadCr3 s1 = KiReadCr3 s" using vm_frame_keeps [OF e(5)] by (simp add: KiReadCr3_def)
  moreover have "frames s1 ?p = Some PMM_PAGE_ALLOCATED" using e(4) by simp
  note f = KePmmFreePages_vm [OF e(3) this]
  ultimately show ?thesis
    using e na fold_no_entry [OF z, where f = "\<lambda>idx entry firstError s. if entry AND PTE_PAGE_SIZE \<noteq> 0 then (firstError, s)
        else case KiDestroyOwnedPageTableSubtree (entry AND PAGE_MASK) 3 s of (childStatus, s) \<Rightarrow> (keep_first firstError childStatus, s)" and e = EC_SUCCESS]
      vm_frame_trans [OF e(5) f(6)]
    by (cases "KePmmFreePages s1 ?p 1") (auto simp: KeDestroyProcessAddressSpace_def free_table_def keep_first_def fun_eq_iff)
qed

end
