(* ===== verification/Kva.thy ===== *)
theory Kva
  imports PrivateRoots
begin

text \<open>
  The kernel virtual address allocator, \<^verbatim>\<open>ke/mm/kva.c\<close>: three arenas of pages with a state byte
  per page, a table of 512 range records, and the fixmap slots with their generations. A pointer
  to a record is its index in the table. Each routine runs inside a critical section, so it is
  one step; \<open>KeKvaMapOwnedPages\<close> leaves the section before its loop and enters it again in the
  routines it calls.
\<close>

section \<open>Constants and data\<close>

definition KRNL_STACK_VA :: u64 where "KRNL_STACK_VA = 0xFFFF808000000000"
definition KRNL_IST1_STACK_VA :: u64 where "KRNL_IST1_STACK_VA = KRNL_STACK_VA + HO_STACK_SIZE + PAGE_4KB"
definition KRNL_IST2_STACK_VA :: u64 where "KRNL_IST2_STACK_VA = KRNL_IST1_STACK_VA + HO_STACK_SIZE + PAGE_4KB"

definition KE_KVA_STACK_ARENA_BASE :: u64 where
  "KE_KVA_STACK_ARENA_BASE = HO_ALIGN_UP (KRNL_IST2_STACK_VA + HO_STACK_SIZE + PAGE_4KB) PAGE_2MB"
definition KE_KVA_STACK_ARENA_SIZE :: u64 where "KE_KVA_STACK_ARENA_SIZE = 32 * 1024 * 1024"
definition KE_KVA_HEAP_ARENA_BASE :: u64 where
  "KE_KVA_HEAP_ARENA_BASE = HO_ALIGN_UP (KE_KVA_STACK_ARENA_BASE + KE_KVA_STACK_ARENA_SIZE) PAGE_2MB"
definition KE_KVA_HEAP_ARENA_SIZE :: u64 where "KE_KVA_HEAP_ARENA_SIZE = 64 * 1024 * 1024"
definition KE_KVA_FIXMAP_ARENA_SIZE :: u64 where "KE_KVA_FIXMAP_ARENA_SIZE = 64 * PAGE_4KB"
definition KE_KVA_FIXMAP_ARENA_BASE :: u64 where "KE_KVA_FIXMAP_ARENA_BASE = HHDM_BASE_VA - KE_KVA_FIXMAP_ARENA_SIZE"
definition KE_KVA_STACK_ARENA_PAGES :: u64 where "KE_KVA_STACK_ARENA_PAGES = KE_KVA_STACK_ARENA_SIZE div PAGE_4KB"
definition KE_KVA_FIXMAP_ARENA_PAGES :: u64 where "KE_KVA_FIXMAP_ARENA_PAGES = KE_KVA_FIXMAP_ARENA_SIZE div PAGE_4KB"
definition KE_KVA_HEAP_ARENA_PAGES :: u64 where "KE_KVA_HEAP_ARENA_PAGES = KE_KVA_HEAP_ARENA_SIZE div PAGE_4KB"

definition KE_KVA_MAX_RANGES :: nat where "KE_KVA_MAX_RANGES = 512"
definition KE_KVA_PAGE_STATE_FREE :: u8 where "KE_KVA_PAGE_STATE_FREE = 0"
definition KE_KVA_PAGE_STATE_ALLOC :: u8 where "KE_KVA_PAGE_STATE_ALLOC = 1"
definition KE_KVA_PAGE_STATE_GUARD :: u8 where "KE_KVA_PAGE_STATE_GUARD = 2"
definition KE_KVA_PAGE_STATE_RETIRED :: u8 where "KE_KVA_PAGE_STATE_RETIRED = 3"
definition KE_KVA_DEFAULT_PAGE_ATTRS :: u64 where
  "KE_KVA_DEFAULT_PAGE_ATTRS = PTE_WRITABLE OR PTE_GLOBAL OR PTE_NO_EXECUTE"
definition KE_TEMP_MAP_TOKEN_SLOT_BITS :: nat where "KE_TEMP_MAP_TOKEN_SLOT_BITS = 6"
definition KE_TEMP_MAP_TOKEN_SLOT_MASK :: u64 where
  "KE_TEMP_MAP_TOKEN_SLOT_MASK = push_bit KE_TEMP_MAP_TOKEN_SLOT_BITS 1 - 1"
definition KE_TEMP_MAP_TOKEN_GENERATION_MASK :: u64 where
  "KE_TEMP_MAP_TOKEN_GENERATION_MASK = push_bit (64 - KE_TEMP_MAP_TOKEN_SLOT_BITS) 1 - 1"
definition KE_KVA_ACTIVE_RANGE_SNAPSHOT_MAX :: nat where "KE_KVA_ACTIVE_RANGE_SNAPSHOT_MAX = 16"

datatype KE_KVA_ARENA_TYPE = KE_KVA_ARENA_STACK | KE_KVA_ARENA_FIXMAP | KE_KVA_ARENA_HEAP | KE_KVA_ARENA_MAX

record KE_KVA_ARENA_STATE =
  ArenaBaseAddress :: HO_VIRTUAL_ADDRESS
  ArenaSizeBytes :: u64
  ArenaPageCount :: u64
  PageStates :: "u64 \<Rightarrow> u8"

record KE_KVA_RANGE_RECORD =
  InUse :: bool
  OwnsPhysicalBacking :: bool
  RecArena :: KE_KVA_ARENA_TYPE
  RecRecordId :: u32
  RecGeneration :: u64
  BasePageIndex :: u64
  RecTotalPages :: u64
  RecUsablePages :: u64
  RecGuardLowerPages :: u64
  RecGuardUpperPages :: u64

record KE_KVA_RANGE =
  RangeArena :: KE_KVA_ARENA_TYPE
  RangeRecordId :: u32
  RangeGeneration :: u64
  RangeBaseAddress :: HO_VIRTUAL_ADDRESS
  RangeUsableBase :: HO_VIRTUAL_ADDRESS
  RangeTotalPages :: u64
  RangeUsablePages :: u64
  RangeGuardLowerPages :: u64
  RangeGuardUpperPages :: u64

record KE_KVA_ARENA_INFO =
  InfoArena :: KE_KVA_ARENA_TYPE
  InfoBaseAddress :: HO_VIRTUAL_ADDRESS
  InfoEndAddressExclusive :: HO_VIRTUAL_ADDRESS
  InfoTotalPages :: u64
  InfoFreePages :: u64
  ActiveAllocations :: u64
  OverlapsImportedRegions :: bool

record KE_KVA_USAGE_INFO =
  ActiveRangeCount :: u64
  FixmapTotalSlots :: u64
  FixmapActiveSlots :: u64

record KE_KVA_ACTIVE_RANGE_ENTRY =
  ActRange :: KE_KVA_RANGE
  ActEndAddressExclusive :: HO_VIRTUAL_ADDRESS
  ActUsableEndExclusive :: HO_VIRTUAL_ADDRESS

record KE_KVA_ACTIVE_RANGE_SNAPSHOT =
  TotalActiveRangeCount :: u64
  ReturnedRangeCount :: u32
  Truncated :: bool
  SnapshotRanges :: "KE_KVA_ACTIVE_RANGE_ENTRY list"

datatype KE_KVA_ADDRESS_KIND =
    KE_KVA_ADDRESS_OUTSIDE
  | KE_KVA_ADDRESS_FREE_HOLE
  | KE_KVA_ADDRESS_GUARD_PAGE
  | KE_KVA_ADDRESS_ACTIVE_STACK
  | KE_KVA_ADDRESS_ACTIVE_FIXMAP
  | KE_KVA_ADDRESS_ACTIVE_HEAP
  | KE_KVA_ADDRESS_UNKNOWN

record KE_KVA_ADDRESS_INFO =
  Kind :: KE_KVA_ADDRESS_KIND
  InKvaArena :: bool
  AddrArena :: KE_KVA_ARENA_TYPE
  AddrArenaBase :: HO_VIRTUAL_ADDRESS
  AddrArenaEndExclusive :: HO_VIRTUAL_ADDRESS
  ArenaPageIndex :: u64
  AddrRange :: "KE_KVA_RANGE option"

record kva_globals = vm_globals +
  gKvaArenas :: "KE_KVA_ARENA_TYPE \<Rightarrow> KE_KVA_ARENA_STATE"
  gKvaRanges :: "nat \<Rightarrow> KE_KVA_RANGE_RECORD"
  gFixmapSlotGenerations :: "u64 \<Rightarrow> u64"
  gKvaRangeGenerationCounter :: u64
  gKvaInitialized :: bool

text \<open>The record that \<open>memset\<close> leaves at an index, with its identifier written back.\<close>

definition free_record :: "nat \<Rightarrow> KE_KVA_RANGE_RECORD" where
  "free_record idx = \<lparr>InUse = False, OwnsPhysicalBacking = False, RecArena = KE_KVA_ARENA_STACK, RecRecordId = word_of_nat idx + 1,
     RecGeneration = 0, BasePageIndex = 0, RecTotalPages = 0, RecUsablePages = 0, RecGuardLowerPages = 0, RecGuardUpperPages = 0\<rparr>"

definition set_record :: "nat \<Rightarrow> KE_KVA_RANGE_RECORD \<Rightarrow> 'a kva_globals_scheme \<Rightarrow> 'a kva_globals_scheme" where
  "set_record idx r s = s\<lparr>gKvaRanges := (gKvaRanges s)(idx := r)\<rparr>"

definition set_page_states :: "KE_KVA_ARENA_TYPE \<Rightarrow> (u64 \<Rightarrow> u8) \<Rightarrow> 'a kva_globals_scheme \<Rightarrow> 'a kva_globals_scheme" where
  "set_page_states arena st s = s\<lparr>gKvaArenas := (gKvaArenas s)(arena := (gKvaArenas s arena)\<lparr>PageStates := st\<rparr>)\<rparr>"

section \<open>Helpers\<close>

definition KiKvaArenaState :: "KE_KVA_ARENA_TYPE \<Rightarrow> 'a kva_globals_scheme \<Rightarrow> KE_KVA_ARENA_STATE option" where
  "KiKvaArenaState arena s = (if arena = KE_KVA_ARENA_MAX then None else Some (gKvaArenas s arena))"

definition KiKvaRecordUsableBase :: "KE_KVA_ARENA_STATE \<Rightarrow> KE_KVA_RANGE_RECORD \<Rightarrow> HO_VIRTUAL_ADDRESS" where
  "KiKvaRecordUsableBase arena record' =
    ArenaBaseAddress arena + (BasePageIndex record' + RecGuardLowerPages record') * PAGE_4KB"

definition KiKvaFixmapSlotRetired :: "u64 \<Rightarrow> 'a kva_globals_scheme \<Rightarrow> bool" where
  "KiKvaFixmapSlotRetired pageIndex s \<longleftrightarrow>
    pageIndex < KE_KVA_FIXMAP_ARENA_PAGES \<and> gFixmapSlotGenerations s pageIndex \<ge> KE_TEMP_MAP_TOKEN_GENERATION_MASK"

definition KiKvaNextRangeGeneration :: "'a kva_globals_scheme \<Rightarrow> u64 \<times> 'a kva_globals_scheme" where
  "KiKvaNextRangeGeneration s =
    (if gKvaRangeGenerationCounter s = 0 then (0, s)
     else
       let generation = gKvaRangeGenerationCounter s in
       (generation, s\<lparr>gKvaRangeGenerationCounter :=
          (if generation = 0xFFFFFFFFFFFFFFFF then 0 else gKvaRangeGenerationCounter s + 1)\<rparr>))"

definition KiKvaFillRangeFromRecord :: "KE_KVA_RANGE_RECORD \<Rightarrow> 'a kva_globals_scheme \<Rightarrow> KE_KVA_RANGE result" where
  "KiKvaFillRangeFromRecord record' s =
    (case KiKvaArenaState (RecArena record') s of
       None \<Rightarrow> Inl EC_ILLEGAL_ARGUMENT
     | Some arena \<Rightarrow>
       Inr \<lparr>RangeArena = RecArena record', RangeRecordId = RecRecordId record', RangeGeneration = RecGeneration record',
            RangeBaseAddress = ArenaBaseAddress arena + BasePageIndex record' * PAGE_4KB,
            RangeUsableBase = KiKvaRecordUsableBase arena record',
            RangeTotalPages = RecTotalPages record', RangeUsablePages = RecUsablePages record',
            RangeGuardLowerPages = RecGuardLowerPages record', RangeGuardUpperPages = RecGuardUpperPages record'\<rparr>)"

definition KiKvaFillActiveRangeEntry :: "KE_KVA_RANGE_RECORD \<Rightarrow> 'a kva_globals_scheme \<Rightarrow> KE_KVA_ACTIVE_RANGE_ENTRY result" where
  "KiKvaFillActiveRangeEntry record' s =
    (case KiKvaFillRangeFromRecord record' s of
       Inl status \<Rightarrow> Inl status
     | Inr rng \<Rightarrow>
       Inr \<lparr>ActRange = rng,
            ActEndAddressExclusive = RangeBaseAddress rng + RangeTotalPages rng * PAGE_4KB,
            ActUsableEndExclusive = RangeUsableBase rng + RangeUsablePages rng * PAGE_4KB\<rparr>)"

definition KiKvaFindRecordByUsableBase :: "HO_VIRTUAL_ADDRESS \<Rightarrow> 'a kva_globals_scheme \<Rightarrow> nat option" where
  "KiKvaFindRecordByUsableBase usableBase s =
    find (\<lambda>idx. let record' = gKvaRanges s idx in
      InUse record' \<and> (case KiKvaArenaState (RecArena record') s of
        None \<Rightarrow> False | Some arena \<Rightarrow> KiKvaRecordUsableBase arena record' = usableBase)) [0..<KE_KVA_MAX_RANGES]"

definition KiKvaFindRecordByAddress :: "KE_KVA_ARENA_TYPE \<Rightarrow> HO_VIRTUAL_ADDRESS \<Rightarrow> 'a kva_globals_scheme \<Rightarrow> nat option" where
  "KiKvaFindRecordByAddress arenaType virtAddr s =
    find (\<lambda>idx. let record' = gKvaRanges s idx in
      InUse record' \<and> RecArena record' = arenaType \<and>
      (case KiKvaArenaState (RecArena record') s of
         None \<Rightarrow> False
       | Some arena \<Rightarrow>
         let baseAddress = ArenaBaseAddress arena + BasePageIndex record' * PAGE_4KB;
             endExclusive = baseAddress + RecTotalPages record' * PAGE_4KB
         in virtAddr \<ge> baseAddress \<and> virtAddr < endExclusive)) [0..<KE_KVA_MAX_RANGES]"

fun KiKvaAddressKindFromArena :: "KE_KVA_ARENA_TYPE \<Rightarrow> KE_KVA_ADDRESS_KIND" where
  "KiKvaAddressKindFromArena KE_KVA_ARENA_STACK = KE_KVA_ADDRESS_ACTIVE_STACK"
| "KiKvaAddressKindFromArena KE_KVA_ARENA_FIXMAP = KE_KVA_ADDRESS_ACTIVE_FIXMAP"
| "KiKvaAddressKindFromArena KE_KVA_ARENA_HEAP = KE_KVA_ADDRESS_ACTIVE_HEAP"
| "KiKvaAddressKindFromArena KE_KVA_ARENA_MAX = KE_KVA_ADDRESS_UNKNOWN"

definition kva_arenas :: "KE_KVA_ARENA_TYPE list" where
  "kva_arenas = [KE_KVA_ARENA_STACK, KE_KVA_ARENA_FIXMAP, KE_KVA_ARENA_HEAP]"

definition KiKvaLocateArenaByAddress :: "HO_VIRTUAL_ADDRESS \<Rightarrow> 'a kva_globals_scheme \<Rightarrow> (KE_KVA_ARENA_TYPE \<times> u64) option" where
  "KiKvaLocateArenaByAddress virtAddr s =
    map_option (\<lambda>t. (t, drop_bit PAGE_SHIFT (virtAddr - ArenaBaseAddress (gKvaArenas s t))))
      (find (\<lambda>t. let arena = gKvaArenas s t; endExclusive = ArenaBaseAddress arena + ArenaSizeBytes arena
                 in \<not> (virtAddr < ArenaBaseAddress arena \<or> virtAddr \<ge> endExclusive)) kva_arenas)"

text \<open>The temporary-map tokens: a slot in the low six bits, a generation above it.\<close>

definition KiDecodeTempMapHandle :: "u64 \<Rightarrow> (u32 \<times> u64) result" where
  "KiDecodeTempMapHandle token =
    (if token = 0 then Inl EC_INVALID_STATE
     else
       let slot = ucast (token AND KE_TEMP_MAP_TOKEN_SLOT_MASK) :: u32;
           generation = drop_bit KE_TEMP_MAP_TOKEN_SLOT_BITS token
       in if ucast slot \<ge> KE_KVA_FIXMAP_ARENA_PAGES \<or> generation = 0 \<or> generation > KE_TEMP_MAP_TOKEN_GENERATION_MASK
          then Inl EC_ILLEGAL_ARGUMENT else Inr (slot, generation))"

definition KiNextFixmapSlotGeneration :: "u32 \<Rightarrow> 'a kva_globals_scheme \<Rightarrow> u64 \<times> 'a kva_globals_scheme" where
  "KiNextFixmapSlotGeneration slot s =
    (if ucast slot \<ge> KE_KVA_FIXMAP_ARENA_PAGES then (0, s)
     else if gFixmapSlotGenerations s (ucast slot) \<ge> KE_TEMP_MAP_TOKEN_GENERATION_MASK then (0, s)
     else
       let g = gFixmapSlotGenerations s (ucast slot) + 1
       in (g, s\<lparr>gFixmapSlotGenerations := (gFixmapSlotGenerations s)(ucast slot := g)\<rparr>))"

definition KiEncodeTempMapToken :: "u32 \<Rightarrow> u64 \<Rightarrow> u64" where
  "KiEncodeTempMapToken slot generation =
    (if ucast slot \<ge> KE_KVA_FIXMAP_ARENA_PAGES then 0
     else if generation = 0 \<or> generation > KE_TEMP_MAP_TOKEN_GENERATION_MASK then 0
     else push_bit KE_TEMP_MAP_TOKEN_SLOT_BITS generation OR ucast slot)"

definition KiKvaFindRecordById :: "KE_KVA_RANGE \<Rightarrow> 'a kva_globals_scheme \<Rightarrow> nat option" where
  "KiKvaFindRecordById rng s =
    (if RangeRecordId rng = 0 \<or> unat (RangeRecordId rng) > KE_KVA_MAX_RANGES then None
     else if RangeGeneration rng = 0 then None
     else
       let idx = unat (RangeRecordId rng) - 1; record' = gKvaRanges s idx in
       if \<not> InUse record' then None
       else if RecArena record' \<noteq> RangeArena rng then None
       else if RecGeneration record' \<noteq> RangeGeneration rng then None
       else case KiKvaArenaState (RecArena record') s of
         None \<Rightarrow> None
       | Some arena \<Rightarrow>
         if ArenaBaseAddress arena + BasePageIndex record' * PAGE_4KB \<noteq> RangeBaseAddress rng then None
         else if KiKvaRecordUsableBase arena record' \<noteq> RangeUsableBase rng then None
         else if RecTotalPages record' \<noteq> RangeTotalPages rng \<or> RecUsablePages record' \<noteq> RangeUsablePages rng \<or>
                 RecGuardLowerPages record' \<noteq> RangeGuardLowerPages rng \<or> RecGuardUpperPages record' \<noteq> RangeGuardUpperPages rng
         then None
         else Some idx)"

section \<open>Releasing a range\<close>

text \<open>
  The loop of \<open>KiKvaReleaseRecord\<close> over the \<open>n\<close> usable pages from \<open>virtAddr\<close> on; a failure after
  the first unmapping stops the machine.
\<close>

fun release_pages :: "bool \<Rightarrow> HO_VIRTUAL_ADDRESS \<Rightarrow> nat \<Rightarrow> bool \<Rightarrow> 'a kva_globals_scheme \<Rightarrow> (ho_status \<times> 'a kva_globals_scheme) outcome" where
  "release_pages owns virtAddr 0 teardownStarted s = Done (EC_SUCCESS, s)"
| "release_pages owns virtAddr (Suc n) teardownStarted s =
    (case KePtQueryPage (KeGetKernelAddressSpace s) virtAddr s of
       Inl status \<Rightarrow> if teardownStarted then Halt status else Done (status, s)
     | Inr mapping \<Rightarrow>
       if \<not> Present mapping then release_pages owns (virtAddr + PAGE_4KB) n teardownStarted s
       else if MapLevel mapping \<noteq> 1 then (if teardownStarted then Halt EC_NOT_SUPPORTED else Done (EC_NOT_SUPPORTED, s))
       else
         (case KePtUnmapPage (KeGetKernelAddressSpace s) virtAddr s of
            (status, s) \<Rightarrow>
              if status \<noteq> EC_SUCCESS then Halt status
              else if owns then
                (case KePmmFreePages s (PhysicalBase mapping) 1 of
                   (status, s) \<Rightarrow>
                     if status \<noteq> EC_SUCCESS then Halt status
                     else release_pages owns (virtAddr + PAGE_4KB) n True s)
              else release_pages owns (virtAddr + PAGE_4KB) n True s))"

definition KiKvaReleaseRecord :: "nat \<Rightarrow> 'a kva_globals_scheme \<Rightarrow> (ho_status \<times> 'a kva_globals_scheme) outcome" where
  "KiKvaReleaseRecord idx s =
    (let record' = gKvaRanges s idx in
     case KiKvaArenaState (RecArena record') s of
       None \<Rightarrow> Done (EC_ILLEGAL_ARGUMENT, s)
     | Some arena \<Rightarrow>
       let releasedPageState =
             (if RecArena record' = KE_KVA_ARENA_FIXMAP \<and> RecTotalPages record' = 1 \<and>
                 KiKvaFixmapSlotRetired (BasePageIndex record') s
              then KE_KVA_PAGE_STATE_RETIRED else KE_KVA_PAGE_STATE_FREE)
       in bind_outcome
         (release_pages (OwnsPhysicalBacking record') (KiKvaRecordUsableBase arena record') (unat (RecUsablePages record')) False s)
         (\<lambda>(status, s).
            if status \<noteq> EC_SUCCESS then Done (status, s)
            else
              let st = PageStates (gKvaArenas s (RecArena record'));
                  s = set_page_states (RecArena record')
                        (\<lambda>i. if i - BasePageIndex record' < RecTotalPages record' then releasedPageState else st i) s
              in Done (EC_SUCCESS, set_record idx (free_record idx) s)))"

section \<open>Arenas\<close>

definition KiKvaArenaOverlapsImportedRegions ::
  "KE_KERNEL_ADDRESS_SPACE option \<Rightarrow> HO_VIRTUAL_ADDRESS \<Rightarrow> HO_VIRTUAL_ADDRESS \<Rightarrow> bool" where
  "KiKvaArenaOverlapsImportedRegions space start endExclusive =
    (case space of
       None \<Rightarrow> True
     | Some sp \<Rightarrow> \<exists>region \<in> set (Regions sp).
         \<not> (endExclusive \<le> VirtualStart region \<or> start \<ge> VirtualEndExclusive region))"

fun require_unmapped :: "HO_VIRTUAL_ADDRESS \<Rightarrow> nat \<Rightarrow> KE_KERNEL_ADDRESS_SPACE \<Rightarrow> 'a kva_globals_scheme \<Rightarrow> ho_status" where
  "require_unmapped virtAddr 0 sp s = EC_SUCCESS"
| "require_unmapped virtAddr (Suc n) sp s =
    (case KePtQueryPage (Some sp) virtAddr s of
       Inl status \<Rightarrow> status
     | Inr mapping \<Rightarrow> if Present mapping then EC_INVALID_STATE else require_unmapped (virtAddr + PAGE_4KB) n sp s)"

definition KiKvaValidateArena :: "KE_KVA_ARENA_STATE \<Rightarrow> bool \<Rightarrow> 'a kva_globals_scheme \<Rightarrow> ho_status" where
  "KiKvaValidateArena arena requireUnmapped s =
    (case KeGetKernelAddressSpace s of
       None \<Rightarrow> EC_INVALID_STATE
     | Some sp \<Rightarrow>
       if \<not> SpaceInitialized sp then EC_INVALID_STATE
       else if KiKvaArenaOverlapsImportedRegions (Some sp) (ArenaBaseAddress arena) (ArenaBaseAddress arena + ArenaSizeBytes arena)
       then EC_INVALID_STATE
       else if \<not> requireUnmapped then EC_SUCCESS
       else require_unmapped (ArenaBaseAddress arena) (unat (ArenaPageCount arena)) sp s)"

definition KiKvaCountFreePages :: "KE_KVA_ARENA_STATE \<Rightarrow> u64" where
  "KiKvaCountFreePages arena =
    word_of_nat (length (filter (\<lambda>i. PageStates arena (word_of_nat i) = KE_KVA_PAGE_STATE_FREE) [0..<unat (ArenaPageCount arena)]))"

definition KiKvaCountActiveRanges :: "KE_KVA_ARENA_TYPE \<Rightarrow> 'a kva_globals_scheme \<Rightarrow> u64" where
  "KiKvaCountActiveRanges arenaType s =
    word_of_nat (length (filter (\<lambda>idx. InUse (gKvaRanges s idx) \<and> RecArena (gKvaRanges s idx) = arenaType) [0..<KE_KVA_MAX_RANGES]))"

definition KiKvaCountAllActiveRanges :: "'a kva_globals_scheme \<Rightarrow> u64" where
  "KiKvaCountAllActiveRanges s =
    word_of_nat (length (filter (\<lambda>idx. InUse (gKvaRanges s idx)) [0..<KE_KVA_MAX_RANGES]))"

fun first_failure :: "ho_status list \<Rightarrow> ho_status" where
  "first_failure [] = EC_SUCCESS"
| "first_failure (st # sts) = (if st \<noteq> EC_SUCCESS then st else first_failure sts)"

definition KeKvaInit :: "'a kva_globals_scheme \<Rightarrow> ho_status \<times> 'a kva_globals_scheme" where
  "KeKvaInit s =
    (if gKvaInitialized s then (EC_INVALID_STATE, s)
     else
       let zero_record = (free_record 0)\<lparr>RecRecordId := 0\<rparr>;
           s = s\<lparr>gKvaRanges := (\<lambda>idx. zero_record),
                 gKvaArenas := (\<lambda>t. case t of
                   KE_KVA_ARENA_STACK \<Rightarrow> \<lparr>ArenaBaseAddress = KE_KVA_STACK_ARENA_BASE, ArenaSizeBytes = KE_KVA_STACK_ARENA_SIZE,
                     ArenaPageCount = KE_KVA_STACK_ARENA_PAGES, PageStates = (\<lambda>_. 0)\<rparr>
                 | KE_KVA_ARENA_FIXMAP \<Rightarrow> \<lparr>ArenaBaseAddress = KE_KVA_FIXMAP_ARENA_BASE, ArenaSizeBytes = KE_KVA_FIXMAP_ARENA_SIZE,
                     ArenaPageCount = KE_KVA_FIXMAP_ARENA_PAGES, PageStates = (\<lambda>_. 0)\<rparr>
                 | KE_KVA_ARENA_HEAP \<Rightarrow> \<lparr>ArenaBaseAddress = KE_KVA_HEAP_ARENA_BASE, ArenaSizeBytes = KE_KVA_HEAP_ARENA_SIZE,
                     ArenaPageCount = KE_KVA_HEAP_ARENA_PAGES, PageStates = (\<lambda>_. 0)\<rparr>
                 | KE_KVA_ARENA_MAX \<Rightarrow> gKvaArenas s KE_KVA_ARENA_MAX)\<rparr>;
           status = first_failure (map (\<lambda>t. KiKvaValidateArena (gKvaArenas s t) True s) kva_arenas)
       in if status \<noteq> EC_SUCCESS then (status, s)
          else (EC_SUCCESS, s\<lparr>gKvaRanges := free_record, gFixmapSlotGenerations := (\<lambda>_. 0),
                  gKvaRangeGenerationCounter := 1, gKvaInitialized := True\<rparr>))"

section \<open>Allocating and mapping ranges\<close>

definition first_unused_record :: "'a kva_globals_scheme \<Rightarrow> nat option" where
  "first_unused_record s = find (\<lambda>idx. \<not> InUse (gKvaRanges s idx)) [0..<KE_KVA_MAX_RANGES]"

text \<open>The first base page from which \<open>totalPages\<close> pages are free; there is at least one page.\<close>

definition first_free_run :: "KE_KVA_ARENA_STATE \<Rightarrow> u64 \<Rightarrow> nat option" where
  "first_free_run arena totalPages =
    find (\<lambda>basePage. \<forall>offset \<in> set [0..<unat totalPages]. PageStates arena (word_of_nat (basePage + offset)) = KE_KVA_PAGE_STATE_FREE)
      [0..<Suc (unat (ArenaPageCount arena) - unat totalPages)]"

definition KeKvaAllocRange ::
  "KE_KVA_ARENA_TYPE \<Rightarrow> u64 \<Rightarrow> u64 \<Rightarrow> u64 \<Rightarrow> bool \<Rightarrow> 'a kva_globals_scheme \<Rightarrow> KE_KVA_RANGE result \<times> 'a kva_globals_scheme" where
  "KeKvaAllocRange arenaType usablePages guardLowerPages guardUpperPages ownsPhysicalBacking s =
    (if \<not> gKvaInitialized s then (Inl EC_INVALID_STATE, s)
     else if usablePages = 0 then (Inl EC_ILLEGAL_ARGUMENT, s)
     else case KiKvaArenaState arenaType s of
       None \<Rightarrow> (Inl EC_ILLEGAL_ARGUMENT, s)
     | Some arena \<Rightarrow>
       if guardLowerPages > 0xFFFFFFFFFFFFFFFF - usablePages then (Inl EC_OUT_OF_RESOURCE, s)
       else
       let totalPages = guardLowerPages + usablePages in
       if guardUpperPages > 0xFFFFFFFFFFFFFFFF - totalPages then (Inl EC_OUT_OF_RESOURCE, s)
       else
       let totalPages = totalPages + guardUpperPages in
       if totalPages = 0 \<or> totalPages > ArenaPageCount arena then (Inl EC_OUT_OF_RESOURCE, s)
       else case first_unused_record s of
         None \<Rightarrow> (Inl EC_OUT_OF_RESOURCE, s)
       | Some idx \<Rightarrow>
         (case first_free_run arena totalPages of
            None \<Rightarrow> (Inl EC_OUT_OF_RESOURCE, s)
          | Some base \<Rightarrow>
            let basePage = word_of_nat base; (generation, s) = KiKvaNextRangeGeneration s in
            if generation = 0 then (Inl EC_OUT_OF_RESOURCE, s)
            else
              let st = PageStates (gKvaArenas s arenaType);
                  s = set_page_states arenaType
                    (\<lambda>i. let offset = i - basePage in
                       if offset < totalPages
                       then (if offset < guardLowerPages \<or> offset \<ge> guardLowerPages + usablePages
                             then KE_KVA_PAGE_STATE_GUARD else KE_KVA_PAGE_STATE_ALLOC)
                       else st i) s;
                  record' = \<lparr>InUse = True, OwnsPhysicalBacking = ownsPhysicalBacking, RecArena = arenaType,
                    RecRecordId = word_of_nat idx + 1, RecGeneration = generation, BasePageIndex = basePage,
                    RecTotalPages = totalPages, RecUsablePages = usablePages,
                    RecGuardLowerPages = guardLowerPages, RecGuardUpperPages = guardUpperPages\<rparr>;
                  s = set_record idx record' s
              in (KiKvaFillRangeFromRecord record' s, s)))"

definition KeKvaMapPage ::
  "KE_KVA_RANGE \<Rightarrow> u64 \<Rightarrow> HO_PHYSICAL_ADDRESS \<Rightarrow> u64 \<Rightarrow> 'a kva_globals_scheme \<Rightarrow> (ho_status \<times> 'a kva_globals_scheme) outcome" where
  "KeKvaMapPage rng usablePageIndex physAddr attributes s =
    (if \<not> gKvaInitialized s then Done (EC_INVALID_STATE, s)
     else case KiKvaFindRecordById rng s of
       None \<Rightarrow> Done (EC_INVALID_STATE, s)
     | Some idx \<Rightarrow>
       if usablePageIndex \<ge> RecUsablePages (gKvaRanges s idx) then Done (EC_ILLEGAL_ARGUMENT, s)
       else
         let virtAddr = RangeUsableBase rng + usablePageIndex * PAGE_4KB
         in KePtMapPage (KeGetKernelAddressSpace s) virtAddr physAddr attributes s)"

definition KeKvaReleaseRangeHandle :: "KE_KVA_RANGE \<Rightarrow> 'a kva_globals_scheme \<Rightarrow> (ho_status \<times> 'a kva_globals_scheme) outcome" where
  "KeKvaReleaseRangeHandle rng s =
    (if \<not> gKvaInitialized s then Done (EC_INVALID_STATE, s)
     else case KiKvaFindRecordById rng s of
       None \<Rightarrow> Done (EC_INVALID_STATE, s)
     | Some idx \<Rightarrow>
       (case KiKvaArenaState (RecArena (gKvaRanges s idx)) s of
          None \<Rightarrow> Done (EC_INVALID_STATE, s)
        | Some _ \<Rightarrow> KiKvaReleaseRecord idx s))"

text \<open>The loop of \<open>KeKvaMapOwnedPages\<close> over the \<open>n\<close> pages from index \<open>pageIdx\<close> on.\<close>

definition release_after :: "KE_KVA_RANGE \<Rightarrow> ho_status \<Rightarrow> 'a kva_globals_scheme \<Rightarrow> (ho_status \<times> 'a kva_globals_scheme) outcome" where
  "release_after rng status s =
    bind_outcome (KeKvaReleaseRangeHandle rng s) (\<lambda>(cleanupStatus, s).
      Done (if cleanupStatus \<noteq> EC_SUCCESS then cleanupStatus else status, s))"

fun map_owned_pages :: "KE_KVA_RANGE \<Rightarrow> u64 \<Rightarrow> u64 \<Rightarrow> nat \<Rightarrow> 'a kva_globals_scheme \<Rightarrow> (ho_status \<times> 'a kva_globals_scheme) outcome" where
  "map_owned_pages rng attributes pageIdx 0 s = Done (EC_SUCCESS, s)"
| "map_owned_pages rng attributes pageIdx (Suc n) s =
    bind_outcome (KePmmAllocPages s 1 None) (\<lambda>(r, s).
    case r of
      Inl status \<Rightarrow> release_after rng status s
    | Inr physAddr \<Rightarrow>
      bind_outcome (KeKvaMapPage rng pageIdx physAddr attributes s) (\<lambda>(status, s).
      if status \<noteq> EC_SUCCESS then release_after rng status (snd (KePmmFreePages s physAddr 1))
      else map_owned_pages rng attributes (pageIdx + 1) n s))"

definition KeKvaMapOwnedPages :: "KE_KVA_RANGE \<Rightarrow> u64 \<Rightarrow> 'a kva_globals_scheme \<Rightarrow> (ho_status \<times> 'a kva_globals_scheme) outcome" where
  "KeKvaMapOwnedPages rng attributes s =
    (if \<not> gKvaInitialized s then Done (EC_INVALID_STATE, s)
     else case KiKvaFindRecordById rng s of
       None \<Rightarrow> Done (EC_INVALID_STATE, s)
     | Some idx \<Rightarrow>
       if \<not> OwnsPhysicalBacking (gKvaRanges s idx) then Done (EC_INVALID_STATE, s)
       else map_owned_pages rng attributes 0 (unat (RecUsablePages (gKvaRanges s idx))) s)"

definition KeKvaReleaseRange :: "HO_VIRTUAL_ADDRESS \<Rightarrow> 'a kva_globals_scheme \<Rightarrow> (ho_status \<times> 'a kva_globals_scheme) outcome" where
  "KeKvaReleaseRange usableBase s =
    (if \<not> gKvaInitialized s then Done (EC_INVALID_STATE, s)
     else if \<not> HO_IS_ALIGNED usableBase PAGE_4KB then Done (EC_ILLEGAL_ARGUMENT, s)
     else case KiKvaFindRecordByUsableBase usableBase s of
       None \<Rightarrow> Done (EC_INVALID_STATE, s)
     | Some idx \<Rightarrow>
       (case KiKvaArenaState (RecArena (gKvaRanges s idx)) s of
          None \<Rightarrow> Done (EC_INVALID_STATE, s)
        | Some _ \<Rightarrow> KiKvaReleaseRecord idx s))"

section \<open>Queries\<close>

definition KeKvaQueryRange :: "HO_VIRTUAL_ADDRESS \<Rightarrow> 'a kva_globals_scheme \<Rightarrow> KE_KVA_RANGE result" where
  "KeKvaQueryRange usableBase s =
    (if \<not> gKvaInitialized s then Inl EC_INVALID_STATE
     else case KiKvaFindRecordByUsableBase usableBase s of
       None \<Rightarrow> Inl EC_INVALID_STATE
     | Some idx \<Rightarrow> KiKvaFillRangeFromRecord (gKvaRanges s idx) s)"

definition KeKvaQueryArenaInfo :: "KE_KVA_ARENA_TYPE \<Rightarrow> 'a kva_globals_scheme \<Rightarrow> KE_KVA_ARENA_INFO result" where
  "KeKvaQueryArenaInfo arenaType s =
    (if \<not> gKvaInitialized s then Inl EC_INVALID_STATE
     else case KiKvaArenaState arenaType s of
       None \<Rightarrow> Inl EC_ILLEGAL_ARGUMENT
     | Some arena \<Rightarrow>
       let base = ArenaBaseAddress arena; endExclusive = ArenaBaseAddress arena + ArenaSizeBytes arena in
       Inr \<lparr>InfoArena = arenaType, InfoBaseAddress = base, InfoEndAddressExclusive = endExclusive,
            InfoTotalPages = ArenaPageCount arena, InfoFreePages = KiKvaCountFreePages arena,
            ActiveAllocations = KiKvaCountActiveRanges arenaType s,
            OverlapsImportedRegions = KiKvaArenaOverlapsImportedRegions (KeGetKernelAddressSpace s) base endExclusive\<rparr>)"

definition KeKvaQueryUsageInfo :: "'a kva_globals_scheme \<Rightarrow> KE_KVA_USAGE_INFO result" where
  "KeKvaQueryUsageInfo s =
    (if \<not> gKvaInitialized s then Inl EC_INVALID_STATE
     else Inr \<lparr>ActiveRangeCount = KiKvaCountAllActiveRanges s,
               FixmapTotalSlots = ArenaPageCount (gKvaArenas s KE_KVA_ARENA_FIXMAP),
               FixmapActiveSlots = KiKvaCountActiveRanges KE_KVA_ARENA_FIXMAP s\<rparr>)"

text \<open>The loop of \<open>KeKvaQueryActiveRanges\<close>: entries so far, and whether it stopped at the limit.\<close>

fun collect_ranges :: "'a kva_globals_scheme \<Rightarrow> nat list \<Rightarrow> KE_KVA_ACTIVE_RANGE_ENTRY list \<Rightarrow> (KE_KVA_ACTIVE_RANGE_ENTRY list \<times> bool) result" where
  "collect_ranges s [] acc = Inr (acc, False)"
| "collect_ranges s (idx # is) acc =
    (if \<not> InUse (gKvaRanges s idx) then collect_ranges s is acc
     else if length acc \<ge> KE_KVA_ACTIVE_RANGE_SNAPSHOT_MAX then Inr (acc, True)
     else case KiKvaFillActiveRangeEntry (gKvaRanges s idx) s of
       Inl status \<Rightarrow> Inl status
     | Inr entry \<Rightarrow> collect_ranges s is (acc @ [entry]))"

definition KeKvaQueryActiveRanges :: "'a kva_globals_scheme \<Rightarrow> KE_KVA_ACTIVE_RANGE_SNAPSHOT result" where
  "KeKvaQueryActiveRanges s =
    (if \<not> gKvaInitialized s then Inl EC_INVALID_STATE
     else
       let total = KiKvaCountAllActiveRanges s in
       case collect_ranges s [0..<KE_KVA_MAX_RANGES] [] of
         Inl status \<Rightarrow> Inl status
       | Inr (ranges, truncated) \<Rightarrow>
         Inr \<lparr>TotalActiveRangeCount = total, ReturnedRangeCount = word_of_nat (length ranges),
              Truncated = truncated \<or> word_of_nat (length ranges) < total, SnapshotRanges = ranges\<rparr>)"

text \<open>\<open>KeKvaClassifyAddress\<close> fills its output also when it reports an inconsistency.\<close>

definition KeKvaClassifyAddress :: "HO_VIRTUAL_ADDRESS \<Rightarrow> 'a kva_globals_scheme \<Rightarrow> ho_status \<times> KE_KVA_ADDRESS_INFO option" where
  "KeKvaClassifyAddress virtAddr s =
    (if \<not> gKvaInitialized s then (EC_INVALID_STATE, None)
     else
       let info = \<lparr>Kind = KE_KVA_ADDRESS_OUTSIDE, InKvaArena = False, AddrArena = KE_KVA_ARENA_MAX, AddrArenaBase = 0,
                   AddrArenaEndExclusive = 0, ArenaPageIndex = 0, AddrRange = None\<rparr> in
       case KiKvaLocateArenaByAddress virtAddr s of
         None \<Rightarrow> (EC_SUCCESS, Some info)
       | Some (arenaType, pageIndex) \<Rightarrow>
         let arena = gKvaArenas s arenaType;
             info = info\<lparr>InKvaArena := True, AddrArena := arenaType, AddrArenaBase := ArenaBaseAddress arena,
                         AddrArenaEndExclusive := ArenaBaseAddress arena + ArenaSizeBytes arena, ArenaPageIndex := pageIndex\<rparr>;
             pageState = PageStates arena pageIndex
         in if pageState = KE_KVA_PAGE_STATE_FREE then (EC_SUCCESS, Some (info\<lparr>Kind := KE_KVA_ADDRESS_FREE_HOLE\<rparr>))
         else case KiKvaFindRecordByAddress arenaType virtAddr s of
           None \<Rightarrow>
             (EC_INVALID_STATE, Some (info\<lparr>Kind :=
                (if pageState = KE_KVA_PAGE_STATE_GUARD then KE_KVA_ADDRESS_GUARD_PAGE
                 else if pageState = KE_KVA_PAGE_STATE_ALLOC then KiKvaAddressKindFromArena arenaType
                 else KE_KVA_ADDRESS_UNKNOWN)\<rparr>))
         | Some idx \<Rightarrow>
           (case KiKvaFillRangeFromRecord (gKvaRanges s idx) s of
              Inl status \<Rightarrow> (status, Some info)
            | Inr rng \<Rightarrow>
              let info = info\<lparr>AddrRange := Some rng\<rparr> in
              if pageState = KE_KVA_PAGE_STATE_GUARD then (EC_SUCCESS, Some (info\<lparr>Kind := KE_KVA_ADDRESS_GUARD_PAGE\<rparr>))
              else if pageState = KE_KVA_PAGE_STATE_ALLOC then
                let kind = KiKvaAddressKindFromArena arenaType in
                (if kind = KE_KVA_ADDRESS_UNKNOWN then EC_INVALID_STATE else EC_SUCCESS, Some (info\<lparr>Kind := kind\<rparr>))
              else (EC_INVALID_STATE, Some (info\<lparr>Kind := KE_KVA_ADDRESS_UNKNOWN\<rparr>))))"

definition KeKvaValidateLayout :: "'a kva_globals_scheme \<Rightarrow> ho_status" where
  "KeKvaValidateLayout s =
    (if \<not> gKvaInitialized s then EC_INVALID_STATE
     else first_failure (map (\<lambda>t. KiKvaValidateArena (gKvaArenas s t) False s) kva_arenas))"

section \<open>Fixmap slots and heap pages\<close>

text \<open>
  The slot loop of \<open>KeFixmapAcquire\<close> with the free record at \<open>idx\<close>: exhausted slots are retired
  and skipped; the first usable slot is taken, and given back when the mapping fails. The
  result is the token and the address.
\<close>

fun fixmap_slots :: "nat \<Rightarrow> HO_PHYSICAL_ADDRESS \<Rightarrow> u64 \<Rightarrow> nat list \<Rightarrow> 'a kva_globals_scheme \<Rightarrow>
   ((u64 \<times> HO_VIRTUAL_ADDRESS) result \<times> 'a kva_globals_scheme) outcome" where
  "fixmap_slots idx physAddr attributes [] s = Done (Inl EC_OUT_OF_RESOURCE, s)"
| "fixmap_slots idx physAddr attributes (i # is) s =
    (let slot = word_of_nat i :: u64;
         arena = gKvaArenas s KE_KVA_ARENA_FIXMAP;
         mark = (\<lambda>v s. set_page_states KE_KVA_ARENA_FIXMAP ((PageStates (gKvaArenas s KE_KVA_ARENA_FIXMAP))(slot := v)) s)
     in if PageStates arena slot \<noteq> KE_KVA_PAGE_STATE_FREE then fixmap_slots idx physAddr attributes is s
        else if KiKvaFixmapSlotRetired slot s
        then fixmap_slots idx physAddr attributes is (mark KE_KVA_PAGE_STATE_RETIRED s)
        else
          let (generation, s) = KiNextFixmapSlotGeneration (ucast slot) s in
          if generation = 0 then fixmap_slots idx physAddr attributes is (mark KE_KVA_PAGE_STATE_RETIRED s)
          else
            let record' = \<lparr>InUse = True, OwnsPhysicalBacking = False, RecArena = KE_KVA_ARENA_FIXMAP,
                  RecRecordId = word_of_nat idx + 1, RecGeneration = generation, BasePageIndex = slot,
                  RecTotalPages = 1, RecUsablePages = 1, RecGuardLowerPages = 0, RecGuardUpperPages = 0\<rparr>;
                s = set_record idx record' (mark KE_KVA_PAGE_STATE_ALLOC s);
                give_back = (\<lambda>s. set_record idx (free_record idx) (mark KE_KVA_PAGE_STATE_FREE s))
            in case KiKvaFillRangeFromRecord record' s of
                 Inl status \<Rightarrow> Done (Inl status, give_back s)
               | Inr rng \<Rightarrow>
                 let token = KiEncodeTempMapToken (ucast slot) generation in
                 if token = 0 then Done (Inl EC_INVALID_STATE, give_back s)
                 else bind_outcome (KePtMapPage (KeGetKernelAddressSpace s) (RangeUsableBase rng) physAddr attributes s)
                   (\<lambda>(status, s). if status \<noteq> EC_SUCCESS then Done (Inl status, give_back s)
                                   else Done (Inr (token, RangeUsableBase rng), s)))"

definition KeFixmapAcquire :: "HO_PHYSICAL_ADDRESS \<Rightarrow> u64 \<Rightarrow> 'a kva_globals_scheme \<Rightarrow>
   ((u64 \<times> HO_VIRTUAL_ADDRESS) result \<times> 'a kva_globals_scheme) outcome" where
  "KeFixmapAcquire physAddr attributes s =
    (if \<not> gKvaInitialized s then Done (Inl EC_INVALID_STATE, s)
     else if \<not> HO_IS_ALIGNED physAddr PAGE_4KB then Done (Inl EC_ILLEGAL_ARGUMENT, s)
     else case first_unused_record s of
       None \<Rightarrow> Done (Inl EC_OUT_OF_RESOURCE, s)
     | Some idx \<Rightarrow>
       fixmap_slots idx physAddr attributes [0..<unat (ArenaPageCount (gKvaArenas s KE_KVA_ARENA_FIXMAP))] s)"

definition KeTempPhysMapAcquire :: "HO_PHYSICAL_ADDRESS \<Rightarrow> u64 \<Rightarrow> 'a kva_globals_scheme \<Rightarrow>
   ((u64 \<times> HO_VIRTUAL_ADDRESS) result \<times> 'a kva_globals_scheme) outcome" where
  "KeTempPhysMapAcquire physAddr attributes s =
    (if \<not> HO_IS_ALIGNED physAddr PAGE_4KB then Done (Inl EC_ILLEGAL_ARGUMENT, s)
     else KeFixmapAcquire physAddr attributes s)"

text \<open>The release takes the token and yields the token left in the handle.\<close>

definition KeTempPhysMapRelease :: "u64 \<Rightarrow> 'a kva_globals_scheme \<Rightarrow> (ho_status \<times> u64 \<times> 'a kva_globals_scheme) outcome" where
  "KeTempPhysMapRelease token s =
    (case KiDecodeTempMapHandle token of
       Inl status \<Rightarrow> Done (status, token, s)
     | Inr (slot, generation) \<Rightarrow>
       let usableBase = KE_KVA_FIXMAP_ARENA_BASE + ucast slot * PAGE_4KB in
       (case KiKvaFindRecordByUsableBase usableBase s of
          None \<Rightarrow> Done (EC_INVALID_STATE, token, s)
        | Some idx \<Rightarrow>
          if RecArena (gKvaRanges s idx) \<noteq> KE_KVA_ARENA_FIXMAP then Done (EC_INVALID_STATE, token, s)
          else if gFixmapSlotGenerations s (ucast slot) \<noteq> generation then Done (EC_INVALID_STATE, token, s)
          else bind_outcome (KiKvaReleaseRecord idx s) (\<lambda>(status, s).
            Done (status, if status = EC_SUCCESS then 0 else token, s))))"

definition KeFixmapRelease :: "u64 \<Rightarrow> 'a kva_globals_scheme \<Rightarrow> (ho_status \<times> u64 \<times> 'a kva_globals_scheme) outcome" where
  "KeFixmapRelease = KeTempPhysMapRelease"

definition KeHeapAllocPages :: "u64 \<Rightarrow> 'a kva_globals_scheme \<Rightarrow> (HO_VIRTUAL_ADDRESS result \<times> 'a kva_globals_scheme) outcome" where
  "KeHeapAllocPages pageCount s =
    (if \<not> gKvaInitialized s then Done (Inl EC_INVALID_STATE, s)
     else if pageCount = 0 then Done (Inl EC_ILLEGAL_ARGUMENT, s)
     else case KeKvaAllocRange KE_KVA_ARENA_HEAP pageCount 0 0 True s of
       (Inl status, s) \<Rightarrow> Done (Inl status, s)
     | (Inr rng, s) \<Rightarrow>
       bind_outcome (KeKvaMapOwnedPages rng KE_KVA_DEFAULT_PAGE_ATTRS s) (\<lambda>(status, s).
         Done (if status \<noteq> EC_SUCCESS then Inl status else Inr (RangeUsableBase rng), s)))"

definition KeHeapFreePages :: "HO_VIRTUAL_ADDRESS \<Rightarrow> 'a kva_globals_scheme \<Rightarrow> (ho_status \<times> 'a kva_globals_scheme) outcome" where
  "KeHeapFreePages baseVirt = KeKvaReleaseRange baseVirt"

end
