(* ===== verification/KvaInv.thy ===== *)
theory KvaInv
  imports Kva
begin

text \<open>
  The invariant of the virtual address allocator: the state bytes, the range records, the page
  tables and the frame allocator agree. Guard pages and free pages are never mapped; every page of
  a range that owns its backing is mapped to a frame of its own.
\<close>

section \<open>The layout of the arenas\<close>

fun kva_base :: "KE_KVA_ARENA_TYPE \<Rightarrow> HO_VIRTUAL_ADDRESS" where
  "kva_base KE_KVA_ARENA_STACK = KE_KVA_STACK_ARENA_BASE"
| "kva_base KE_KVA_ARENA_FIXMAP = KE_KVA_FIXMAP_ARENA_BASE"
| "kva_base KE_KVA_ARENA_HEAP = KE_KVA_HEAP_ARENA_BASE"
| "kva_base KE_KVA_ARENA_MAX = 0"

fun kva_pages :: "KE_KVA_ARENA_TYPE \<Rightarrow> nat" where
  "kva_pages KE_KVA_ARENA_STACK = 8192"
| "kva_pages KE_KVA_ARENA_FIXMAP = 64"
| "kva_pages KE_KVA_ARENA_HEAP = 16384"
| "kva_pages KE_KVA_ARENA_MAX = 0"

definition page_va :: "KE_KVA_ARENA_TYPE \<Rightarrow> nat \<Rightarrow> HO_VIRTUAL_ADDRESS" where
  "page_va t i = kva_base t + word_of_nat i * PAGE_4KB"

lemma arena_bases:
  "KE_KVA_STACK_ARENA_BASE = 0xFFFF808000200000" "KE_KVA_HEAP_ARENA_BASE = 0xFFFF808002200000"
  "KE_KVA_FIXMAP_ARENA_BASE = 0xFFFF8FFFFFFC0000"
  by code_simp+

lemma arena_sizes:
  "KE_KVA_STACK_ARENA_PAGES = 8192" "KE_KVA_HEAP_ARENA_PAGES = 16384" "KE_KVA_FIXMAP_ARENA_PAGES = 64"
  "KE_KVA_STACK_ARENA_SIZE = 0x2000000" "KE_KVA_HEAP_ARENA_SIZE = 0x4000000" "KE_KVA_FIXMAP_ARENA_SIZE = 0x40000"
  by code_simp+

lemma kva_pages_le: "kva_pages t \<le> 16384"
  by (cases t) simp_all

lemma unat_page_va:
  assumes "t \<noteq> KE_KVA_ARENA_MAX" "i \<le> kva_pages t"
  shows "unat (page_va t i) = unat (kva_base t) + i * 4096"
proof -
  have i: "i \<le> 16384" using assms(2) kva_pages_le [of t] by simp
  have u: "unat (word_of_nat i * PAGE_4KB :: u64) = i * 4096"
    using i by (simp add: PAGE_4KB_def unat_mult_small)
  have "unat (kva_base t) + i * 4096 < 2 ^ 64" using assms by (cases t) (simp_all add: arena_bases)
  then show ?thesis unfolding page_va_def using u by (simp add: unat_add_small)
qed

lemma vidx_take: "vidx d va = take_bit 9 (drop_bit (39 - 9 * d) va)"
  by (simp add: vidx_def ENTRIES_PER_TABLE_def take_bit_eq_mask mask_eq_decr_exp)

lemma vidx_bit: "n < 9 \<Longrightarrow> bit (vidx d va) n = bit va (39 - 9 * d + n)"
  by (simp add: vidx_take bit_take_bit_iff bit_drop_bit_eq)

lemma same_page_eq:
  assumes "HO_IS_ALIGNED a PAGE_4KB" "HO_IS_ALIGNED b PAGE_4KB" "drop_bit 48 a = drop_bit 48 b" "same_page a b"
  shows "a = b"
proof (rule bit_word_eqI)
  fix n assume n: "n < LENGTH(64)"
  have v: "vidx d a = vidx d b" if "d < 4" for d using assms(4) that by (simp add: same_path_def)
  have step: "bit a (39 - 9 * d + k) = bit b (39 - 9 * d + k)" if "d < 4" "k < 9" for d k
    using v [OF that(1)] vidx_bit [OF that(2), of d a] vidx_bit [OF that(2), of d b] by simp
  consider "n < 12" | "12 \<le> n \<and> n < 21" | "21 \<le> n \<and> n < 30" | "30 \<le> n \<and> n < 39" | "39 \<le> n \<and> n < 48" | "48 \<le> n" by linarith
  then show "bit a n = bit b n"
  proof cases
    case 1
    then show ?thesis using assms(1,2) by (simp add: aligned_bits)
  next
    case 2
    then show ?thesis using step [of 3 "n - 12"] by (simp add: less_diff_conv2)
  next
    case 3
    then show ?thesis using step [of 2 "n - 21"] by (simp add: less_diff_conv2)
  next
    case 4
    then show ?thesis using step [of 1 "n - 30"] by (simp add: less_diff_conv2)
  next
    case 5
    then show ?thesis using step [of 0 "n - 39"] by (simp add: less_diff_conv2)
  next
    case 6
    then have e: "48 + (n - 48) = n" by simp
    have "bit (drop_bit 48 a) (n - 48) = bit (drop_bit 48 b) (n - 48)" using assms(3) by simp
    then show ?thesis by (simp only: bit_drop_bit_eq comp_apply e)
  qed
qed

lemma page_va_aligned: "t \<noteq> KE_KVA_ARENA_MAX \<Longrightarrow> i \<le> kva_pages t \<Longrightarrow> HO_IS_ALIGNED (page_va t i) PAGE_4KB"
  unfolding is_aligned_4KB_iff by (subst unat_page_va) (cases t; simp add: arena_bases)+

lemma page_va_high:
  assumes "t \<noteq> KE_KVA_ARENA_MAX" "i \<le> kva_pages t"
  shows "drop_bit 48 (page_va t i) = 0xFFFF"
proof (rule unat_eqI)
  have "unat (drop_bit 48 (page_va t i)) = (unat (kva_base t) + i * 4096) div 2 ^ 48"
    by (simp only: unat_drop_bit unat_page_va [OF assms])
  also have "\<dots> = 0xFFFF" using assms by (cases t) (simp_all add: arena_bases)
  finally show "unat (drop_bit 48 (page_va t i)) = unat (0xFFFF :: u64)" by simp
qed

lemma page_va_inj:
  assumes "t \<noteq> KE_KVA_ARENA_MAX" "t' \<noteq> KE_KVA_ARENA_MAX" "i < kva_pages t" "i' < kva_pages t'"
  shows "page_va t i = page_va t' i' \<longleftrightarrow> t = t' \<and> i = i'"
proof
  assume "page_va t i = page_va t' i'"
  then have "unat (kva_base t) + i * 4096 = unat (kva_base t') + i' * 4096"
    using unat_page_va [of t i] unat_page_va [of t' i'] assms by simp
  then show "t = t' \<and> i = i'" using assms by (cases t; cases t') (simp_all add: arena_bases)
qed simp

lemma page_va_same:
  assumes "t \<noteq> KE_KVA_ARENA_MAX" "t' \<noteq> KE_KVA_ARENA_MAX" "i < kva_pages t" "i' < kva_pages t'"
  shows "same_page (page_va t i) (page_va t' i') \<longleftrightarrow> t = t' \<and> i = i'"
proof
  assume "same_page (page_va t i) (page_va t' i')"
  then have "page_va t i = page_va t' i'"
    by (rule same_page_eq [rotated -1]) (use assms page_va_aligned page_va_high in \<open>simp_all add: less_imp_le\<close>)
  then show "t = t' \<and> i = i'" using page_va_inj [OF assms] by simp
qed auto

lemma page_va_add: "page_va t i + PAGE_4KB = page_va t (Suc i)"
  by (simp add: page_va_def algebra_simps)

section \<open>Records\<close>

definition rec_pages :: "KE_KVA_RANGE_RECORD \<Rightarrow> nat set" where
  "rec_pages r = {unat (BasePageIndex r)..<unat (BasePageIndex r) + unat (RecTotalPages r)}"

definition rec_first :: "KE_KVA_RANGE_RECORD \<Rightarrow> nat" where
  "rec_first r = unat (BasePageIndex r) + unat (RecGuardLowerPages r)"

definition usable_pages :: "KE_KVA_RANGE_RECORD \<Rightarrow> nat set" where
  "usable_pages r = {rec_first r..<rec_first r + unat (RecUsablePages r)}"

definition page_state :: "KE_KVA_ARENA_TYPE \<Rightarrow> nat \<Rightarrow> 'a kva_globals_scheme \<Rightarrow> u8" where
  "page_state t i s = PageStates (gKvaArenas s t) (word_of_nat i)"

definition layout_ok :: "'a kva_globals_scheme \<Rightarrow> bool" where
  "layout_ok s \<longleftrightarrow> (\<forall>t. t \<noteq> KE_KVA_ARENA_MAX \<longrightarrow> ArenaBaseAddress (gKvaArenas s t) = kva_base t \<and>
     ArenaSizeBytes (gKvaArenas s t) = word_of_nat (kva_pages t) * PAGE_4KB \<and> unat (ArenaPageCount (gKvaArenas s t)) = kva_pages t)"

definition record_ok :: "nat \<Rightarrow> KE_KVA_RANGE_RECORD \<Rightarrow> bool" where
  "record_ok idx r \<longleftrightarrow> RecArena r \<noteq> KE_KVA_ARENA_MAX \<and> RecRecordId r = word_of_nat idx + 1 \<and> RecGeneration r \<noteq> 0 \<and>
     0 < unat (RecUsablePages r) \<and>
     unat (RecTotalPages r) = unat (RecGuardLowerPages r) + unat (RecUsablePages r) + unat (RecGuardUpperPages r) \<and>
     unat (BasePageIndex r) + unat (RecTotalPages r) \<le> kva_pages (RecArena r)"

definition live :: "'a kva_globals_scheme \<Rightarrow> nat \<Rightarrow> bool" where
  "live s idx \<longleftrightarrow> idx < KE_KVA_MAX_RANGES \<and> InUse (gKvaRanges s idx)"

definition owner_of :: "'a kva_globals_scheme \<Rightarrow> KE_KVA_ARENA_TYPE \<Rightarrow> nat \<Rightarrow> nat \<Rightarrow> bool" where
  "owner_of s t i idx \<longleftrightarrow> live s idx \<and> RecArena (gKvaRanges s idx) = t \<and> i \<in> rec_pages (gKvaRanges s idx)"

definition records_ok :: "'a kva_globals_scheme \<Rightarrow> bool" where
  "records_ok s \<longleftrightarrow> layout_ok s \<and> (\<forall>idx. live s idx \<longrightarrow> record_ok idx (gKvaRanges s idx)) \<and>
     (\<forall>t i idx idx'. owner_of s t i idx \<longrightarrow> owner_of s t i idx' \<longrightarrow> idx = idx') \<and>
     (\<forall>t i idx. owner_of s t i idx \<longrightarrow>
        page_state t i s = (if i \<in> usable_pages (gKvaRanges s idx) then KE_KVA_PAGE_STATE_ALLOC else KE_KVA_PAGE_STATE_GUARD)) \<and>
     (\<forall>t i. t \<noteq> KE_KVA_ARENA_MAX \<longrightarrow> i < kva_pages t \<longrightarrow> (\<nexists>idx. owner_of s t i idx) \<longrightarrow>
        page_state t i s \<in> {KE_KVA_PAGE_STATE_FREE, KE_KVA_PAGE_STATE_RETIRED})"

lemma page_state_consts [simp]:
  "KE_KVA_PAGE_STATE_FREE \<noteq> KE_KVA_PAGE_STATE_ALLOC" "KE_KVA_PAGE_STATE_FREE \<noteq> KE_KVA_PAGE_STATE_GUARD"
  "KE_KVA_PAGE_STATE_FREE \<noteq> KE_KVA_PAGE_STATE_RETIRED" "KE_KVA_PAGE_STATE_ALLOC \<noteq> KE_KVA_PAGE_STATE_GUARD"
  "KE_KVA_PAGE_STATE_ALLOC \<noteq> KE_KVA_PAGE_STATE_RETIRED" "KE_KVA_PAGE_STATE_GUARD \<noteq> KE_KVA_PAGE_STATE_RETIRED"
  by (simp_all add: KE_KVA_PAGE_STATE_FREE_def KE_KVA_PAGE_STATE_ALLOC_def KE_KVA_PAGE_STATE_GUARD_def KE_KVA_PAGE_STATE_RETIRED_def)

lemmas page_state_consts_sym [simp] = page_state_consts [symmetric]

lemma usable_sub: "record_ok idx r \<Longrightarrow> usable_pages r \<subseteq> rec_pages r"
  by (auto simp: record_ok_def usable_pages_def rec_pages_def rec_first_def)

lemma records_okD:
  assumes "records_ok s"
  shows "layout_ok s" "live s idx \<Longrightarrow> record_ok idx (gKvaRanges s idx)"
    "owner_of s t i idx \<Longrightarrow> owner_of s t i idx' \<Longrightarrow> idx = idx'"
    "owner_of s t i idx \<Longrightarrow> page_state t i s = (if i \<in> usable_pages (gKvaRanges s idx) then KE_KVA_PAGE_STATE_ALLOC else KE_KVA_PAGE_STATE_GUARD)"
    "t \<noteq> KE_KVA_ARENA_MAX \<Longrightarrow> i < kva_pages t \<Longrightarrow> \<nexists>idx. owner_of s t i idx \<Longrightarrow> page_state t i s \<in> {KE_KVA_PAGE_STATE_FREE, KE_KVA_PAGE_STATE_RETIRED}"
  using assms unfolding records_ok_def by blast+

lemma owner_bounds:
  assumes "records_ok s" "owner_of s t i idx"
  shows "t \<noteq> KE_KVA_ARENA_MAX" "i < kva_pages t"
  using records_okD(2) [OF assms(1), of idx] assms(2) unfolding owner_of_def record_ok_def rec_pages_def by auto

lemma layout_okD:
  assumes "layout_ok s" "t \<noteq> KE_KVA_ARENA_MAX"
  shows "KiKvaArenaState t s = Some (gKvaArenas s t)" "ArenaBaseAddress (gKvaArenas s t) = kva_base t"
    "ArenaSizeBytes (gKvaArenas s t) = word_of_nat (kva_pages t) * PAGE_4KB" "unat (ArenaPageCount (gKvaArenas s t)) = kva_pages t"
  using assms by (simp_all add: layout_ok_def KiKvaArenaState_def)

lemma usable_base_va:
  assumes "layout_ok s" "record_ok idx r"
  shows "KiKvaRecordUsableBase (gKvaArenas s (RecArena r)) r = page_va (RecArena r) (rec_first r)"
    and "ArenaBaseAddress (gKvaArenas s (RecArena r)) + BasePageIndex r * PAGE_4KB = page_va (RecArena r) (unat (BasePageIndex r))"
proof -
  have b: "ArenaBaseAddress (gKvaArenas s (RecArena r)) = kva_base (RecArena r)"
    using assms by (simp add: layout_ok_def record_ok_def)
  have "word_of_nat (rec_first r) = BasePageIndex r + RecGuardLowerPages r"
    by (simp add: rec_first_def)
  then show "KiKvaRecordUsableBase (gKvaArenas s (RecArena r)) r = page_va (RecArena r) (rec_first r)"
    by (simp add: KiKvaRecordUsableBase_def page_va_def b)
  show "ArenaBaseAddress (gKvaArenas s (RecArena r)) + BasePageIndex r * PAGE_4KB = page_va (RecArena r) (unat (BasePageIndex r))"
    by (simp add: page_va_def b)
qed

section \<open>Mappings\<close>

definition kroot :: "'a kva_globals_scheme \<Rightarrow> HO_PHYSICAL_ADDRESS" where
  "kroot s = RootPageTablePhys (gKernelAddressSpace s)"

definition kmap :: "'a kva_globals_scheme \<Rightarrow> KE_KVA_ARENA_TYPE \<Rightarrow> nat \<Rightarrow> KE_PT_MAPPING" where
  "kmap s t i = page_mapping (PhysMem s) (kroot s) (page_va t i)"

definition owned_page :: "'a kva_globals_scheme \<Rightarrow> KE_KVA_ARENA_TYPE \<Rightarrow> nat \<Rightarrow> bool" where
  "owned_page s t i \<longleftrightarrow> (\<exists>idx. owner_of s t i idx \<and> OwnsPhysicalBacking (gKvaRanges s idx)) \<and> Present (kmap s t i)"

definition is_table :: "'a kva_globals_scheme \<Rightarrow> HO_PHYSICAL_ADDRESS \<Rightarrow> bool" where
  "is_table s p \<longleftrightarrow> p \<in> pt_tables (PhysMem s) (kroot s)"

definition maps_ok :: "'a kva_globals_scheme \<Rightarrow> bool" where
  "maps_ok s \<longleftrightarrow> SpaceInitialized (gKernelAddressSpace s) \<and> pt_ok s (kroot s) \<and>
     (\<forall>p. frames s p \<noteq> None \<longrightarrow> p AND KE_PT_PHYS_ADDR_MASK = p) \<and>
     (\<forall>t i. t \<noteq> KE_KVA_ARENA_MAX \<longrightarrow> i < kva_pages t \<longrightarrow> Present (kmap s t i) \<longrightarrow>
        page_state t i s = KE_KVA_PAGE_STATE_ALLOC \<and> MapLevel (kmap s t i) = 1) \<and>
     (\<forall>t i. owned_page s t i \<longrightarrow> frames s (PhysicalBase (kmap s t i)) = Some PMM_PAGE_ALLOCATED \<and>
        \<not> is_table s (PhysicalBase (kmap s t i)) \<and>
        (\<forall>t' i'. owned_page s t' i' \<longrightarrow> PhysicalBase (kmap s t' i') = PhysicalBase (kmap s t i) \<longrightarrow> t' = t \<and> i' = i))"

definition kva_inv :: "'a kva_globals_scheme \<Rightarrow> bool" where
  "kva_inv s \<longleftrightarrow> gKvaInitialized s \<and> records_ok s \<and> maps_ok s"

lemma kva_updates [simp]:
  "PhysMem (set_record idx r s) = PhysMem s" "PhysMem (set_page_states t f s) = PhysMem s"
  "gKernelAddressSpace (set_record idx r s) = gKernelAddressSpace s" "gKernelAddressSpace (set_page_states t f s) = gKernelAddressSpace s"
  "gPmmDevice (set_record idx r s) = gPmmDevice s" "gPmmDevice (set_page_states t f s) = gPmmDevice s"
  "gKvaRanges (set_record idx r s) = (gKvaRanges s)(idx := r)" "gKvaRanges (set_page_states t f s) = gKvaRanges s"
  "gKvaArenas (set_record idx r s) = gKvaArenas s" "gKvaInitialized (set_record idx r s) = gKvaInitialized s"
  "gKvaInitialized (set_page_states t f s) = gKvaInitialized s"
  "TlbInvalidations (set_record idx r s) = TlbInvalidations s" "TlbInvalidations (set_page_states t f s) = TlbInvalidations s"
  "gKvaRangeGenerationCounter (set_record idx r s) = gKvaRangeGenerationCounter s"
  "gKvaRangeGenerationCounter (set_page_states t f s) = gKvaRangeGenerationCounter s"
  "gFixmapSlotGenerations (set_record idx r s) = gFixmapSlotGenerations s"
  "gFixmapSlotGenerations (set_page_states t f s) = gFixmapSlotGenerations s"
  by (simp_all add: set_record_def set_page_states_def)

lemma set_page_states_arena:
  "gKvaArenas (set_page_states t f s) t' = (if t' = t then (gKvaArenas s t)\<lparr>PageStates := f\<rparr> else gKvaArenas s t')"
  by (simp add: set_page_states_def)

lemma layout_set [simp]: "layout_ok (set_page_states t f s) = layout_ok s" "layout_ok (set_record idx r s) = layout_ok s"
  by (auto simp: layout_ok_def set_page_states_arena)

lemma page_state_set:
  "page_state t' i (set_page_states t f s) = (if t' = t then f (word_of_nat i) else page_state t' i s)"
  "page_state t' i (set_record idx r s) = page_state t' i s"
  by (simp_all add: page_state_def set_page_states_arena)

text \<open>Two states whose page tables, frames and kernel space agree.\<close>

lemma vm_same:
  assumes "PhysMem s' = PhysMem s" "gKernelAddressSpace s' = gKernelAddressSpace s" "gPmmDevice s' = gPmmDevice s"
  shows "kroot s' = kroot s" "kmap s' t i = kmap s t i" "is_table s' p = is_table s p" "frames s' = frames s"
    "pt_ok s' root = pt_ok s root" "pmm_ready s' = pmm_ready s"
  using assms by (simp_all add: kroot_def kmap_def is_table_def frames_def pt_ok_def pmm_ready_def)

lemma maps_okD:
  assumes "maps_ok s"
  shows "SpaceInitialized (gKernelAddressSpace s)" "pt_ok s (kroot s)" "frames s p \<noteq> None \<Longrightarrow> p AND KE_PT_PHYS_ADDR_MASK = p"
    "t \<noteq> KE_KVA_ARENA_MAX \<Longrightarrow> i < kva_pages t \<Longrightarrow> Present (kmap s t i) \<Longrightarrow>
       page_state t i s = KE_KVA_PAGE_STATE_ALLOC \<and> MapLevel (kmap s t i) = 1"
    "owned_page s t i \<Longrightarrow> frames s (PhysicalBase (kmap s t i)) = Some PMM_PAGE_ALLOCATED"
    "owned_page s t i \<Longrightarrow> \<not> is_table s (PhysicalBase (kmap s t i))"
    "owned_page s t i \<Longrightarrow> owned_page s t' i' \<Longrightarrow> PhysicalBase (kmap s t' i') = PhysicalBase (kmap s t i) \<Longrightarrow> t' = t \<and> i' = i"
  using assms unfolding maps_ok_def by blast+

lemma maps_ok_cong:
  assumes "maps_ok s" "PhysMem s' = PhysMem s" "gKernelAddressSpace s' = gKernelAddressSpace s" "gPmmDevice s' = gPmmDevice s"
    and "\<And>t i. t \<noteq> KE_KVA_ARENA_MAX \<Longrightarrow> i < kva_pages t \<Longrightarrow> Present (kmap s t i) \<Longrightarrow> page_state t i s' = KE_KVA_PAGE_STATE_ALLOC"
    and "\<And>t i. owned_page s' t i \<Longrightarrow> owned_page s t i"
  shows "maps_ok s'"
proof -
  note v = vm_same [OF assms(2-4)] and d = maps_okD [OF assms(1)]
  show ?thesis unfolding maps_ok_def v assms(3) using d assms(5,6) by blast
qed

text \<open>An index inside a run of pages, computed with wrap-around.\<close>

lemma offset_lt:
  assumes "i < 2 ^ 32" "b < 2 ^ 32" "unat n < 2 ^ 32"
  shows "(word_of_nat i - word_of_nat b :: u64) < n \<longleftrightarrow> b \<le> i \<and> i < b + unat n"
proof (cases "b \<le> i")
  case True
  then have "unat (word_of_nat i - word_of_nat b :: u64) = i - b"
    using assms by (subst unat_sub_small) simp_all
  then show ?thesis using True by (auto simp: word_less_nat_alt)
next
  case False
  then have "unat (word_of_nat i - word_of_nat b :: u64) = 2 ^ 64 + i - b"
    using assms by (simp add: unat_sub_if_size word_size)
  then show ?thesis using False assms by (simp add: word_less_nat_alt)
qed

lemma find_upt_Some: "find P [0..<n] = Some i \<longleftrightarrow> i < n \<and> P i \<and> (\<forall>j<i. \<not> P j)"
  by (auto simp: find_Some_iff)

lemma first_free_run_Some:
  assumes "first_free_run arena n = Some b" "unat n \<le> unat (ArenaPageCount arena)"
  shows "b + unat n \<le> unat (ArenaPageCount arena)" "k < unat n \<Longrightarrow> PageStates arena (word_of_nat (b + k)) = KE_KVA_PAGE_STATE_FREE"
    "b' < b \<Longrightarrow> \<exists>k<unat n. PageStates arena (word_of_nat (b' + k)) \<noteq> KE_KVA_PAGE_STATE_FREE"
proof -
  have e: "find (\<lambda>b. \<forall>k \<in> set [0..<unat n]. PageStates arena (word_of_nat (b + k)) = KE_KVA_PAGE_STATE_FREE)
      [0..<Suc (unat (ArenaPageCount arena) - unat n)] = Some b"
    using assms(1) by (simp only: first_free_run_def)
  note f = e [unfolded find_upt_Some]
  show "b + unat n \<le> unat (ArenaPageCount arena)" using f assms(2) by linarith
  show "k < unat n \<Longrightarrow> PageStates arena (word_of_nat (b + k)) = KE_KVA_PAGE_STATE_FREE" using f by simp
  show "\<exists>k<unat n. PageStates arena (word_of_nat (b' + k)) \<noteq> KE_KVA_PAGE_STATE_FREE" if "b' < b"
    using f that by (metis atLeastLessThan_iff atLeastLessThan_upt)
qed

section \<open>Allocating a range\<close>

section \<open>Allocation\<close>

text \<open>Entering a record for pages that nobody owns, with their state bytes.\<close>

lemma records_ok_enter:
  assumes ok: "records_ok s" and idx: "idx < KE_KVA_MAX_RANGES" "\<not> InUse (gKvaRanges s idx)"
    and r: "record_ok idx r" "InUse r" and free: "\<And>i j. i \<in> rec_pages r \<Longrightarrow> \<not> owner_of s (RecArena r) i j"
    and same: "gKvaRanges s' = (gKvaRanges s)(idx := r)" "layout_ok s'"
    and st: "\<And>t i. t \<noteq> KE_KVA_ARENA_MAX \<Longrightarrow> i < kva_pages t \<Longrightarrow> page_state t i s' =
      (if t = RecArena r \<and> i \<in> rec_pages r then (if i \<in> usable_pages r then KE_KVA_PAGE_STATE_ALLOC else KE_KVA_PAGE_STATE_GUARD)
       else page_state t i s)"
  shows "records_ok s'" "owner_of s' t i j \<longleftrightarrow> (if j = idx then t = RecArena r \<and> i \<in> rec_pages r else owner_of s t i j)"
proof -
  note d = records_okD [OF ok]
  have live: "live s' j \<longleftrightarrow> j = idx \<or> live s j" for j using idx r(2) by (auto simp: live_def same)
  have nl: "\<not> live s idx" using idx by (simp add: live_def)
  have own: "owner_of s' t i j \<longleftrightarrow> (if j = idx then t = RecArena r \<and> i \<in> rec_pages r else owner_of s t i j)" for t i j
    using live nl by (auto simp: owner_of_def same)
  show "owner_of s' t i j \<longleftrightarrow> (if j = idx then t = RecArena r \<and> i \<in> rec_pages r else owner_of s t i j)" by (rule own)
  have rb: "RecArena r \<noteq> KE_KVA_ARENA_MAX" "\<And>i. i \<in> rec_pages r \<Longrightarrow> i < kva_pages (RecArena r)"
    using r(1) by (auto simp: record_ok_def rec_pages_def)
  have nidx: "\<not> owner_of s t i idx" for t i using nl by (simp add: owner_of_def)
  show "records_ok s'"
    unfolding records_ok_def
  proof (intro conjI allI impI)
    show "layout_ok s'" by (rule same)
    show "record_ok j (gKvaRanges s' j)" if "live s' j" for j using that live d(2) r(1) by (auto simp: same)
    show "j = j'" if "owner_of s' t i j" "owner_of s' t i j'" for t i j j'
      using that d(3) free by (auto simp: own split: if_splits)
    show "page_state t i s' = (if i \<in> usable_pages (gKvaRanges s' j) then KE_KVA_PAGE_STATE_ALLOC else KE_KVA_PAGE_STATE_GUARD)"
      if o: "owner_of s' t i j" for t i j
    proof (cases "j = idx")
      case True
      then show ?thesis using o rb st [of t i] by (auto simp: own same)
    next
      case False
      then have o': "owner_of s t i j" using o by (simp add: own)
      then have "\<not> (t = RecArena r \<and> i \<in> rec_pages r)" using free by blast
      then show ?thesis using False d(4) [OF o'] st [OF owner_bounds [OF ok o']] by (auto simp: same)
    qed
    show "page_state t i s' \<in> {KE_KVA_PAGE_STATE_FREE, KE_KVA_PAGE_STATE_RETIRED}"
      if "t \<noteq> KE_KVA_ARENA_MAX" "i < kva_pages t" "\<nexists>j. owner_of s' t i j" for t i
    proof -
      have "\<not> (t = RecArena r \<and> i \<in> rec_pages r)" "\<nexists>j. owner_of s t i j" using that(3) own nidx by metis+
      then show ?thesis using st [OF that(1,2)] d(5) [OF that(1,2)] by auto
    qed
  qed
qed

lemma unowned_free:
  assumes "records_ok s" "page_state t i s = KE_KVA_PAGE_STATE_FREE"
  shows "\<not> owner_of s t i j"
  using records_okD(4) [OF assms(1), of t i j] assms(2) by (auto split: if_splits)

lemma no_overflow_sum:
  fixes a b :: u64
  assumes "\<not> a > 0xFFFFFFFFFFFFFFFF - b"
  shows "unat (a + b) = unat a + unat b"
proof -
  have b: "unat b < 18446744073709551616" by simp
  have m: "unat (0xFFFFFFFFFFFFFFFF :: u64) = 18446744073709551615" by simp
  have "unat b \<le> unat (0xFFFFFFFFFFFFFFFF :: u64)" unfolding m using b by linarith
  then have "unat (0xFFFFFFFFFFFFFFFF - b) = 0xFFFFFFFFFFFFFFFF - unat b" unfolding m [symmetric] by (rule unat_sub_small)
  moreover have "unat a \<le> unat (0xFFFFFFFFFFFFFFFF - b)" using assms by (simp only: not_less word_le_nat_alt)
  ultimately have "unat a + unat b < 18446744073709551616" using b by linarith
  then have "unat a + unat b < 2 ^ LENGTH(64)" by simp
  then show ?thesis by (rule unat_add_small)
qed

lemma next_range_generation:
  "gKvaRangeGenerationCounter s \<noteq> 0 \<Longrightarrow> KiKvaNextRangeGeneration s =
     (gKvaRangeGenerationCounter s, s\<lparr>gKvaRangeGenerationCounter := gKvaRangeGenerationCounter s + 1\<rparr>)"
  by (simp add: KiKvaNextRangeGeneration_def Let_def)

lemma KeKvaAllocRange_success:
  assumes ok: "records_ok s" and a: "KeKvaAllocRange t u gl gu owns s = (Inr rng, s')"
  obtains idx base where "first_unused_record s = Some idx" "t \<noteq> KE_KVA_ARENA_MAX" "0 < unat u"
    "unat gl + unat u + unat gu \<le> kva_pages t" "unat (gl + u + gu) = unat gl + unat u + unat gu"
    "first_free_run (gKvaArenas s t) (gl + u + gu) = Some base" "gKvaRangeGenerationCounter s \<noteq> 0"
    "gKvaRanges s' = (gKvaRanges s)(idx := \<lparr>InUse = True, OwnsPhysicalBacking = owns, RecArena = t,
       RecRecordId = word_of_nat idx + 1, RecGeneration = gKvaRangeGenerationCounter s, BasePageIndex = word_of_nat base,
       RecTotalPages = gl + u + gu, RecUsablePages = u, RecGuardLowerPages = gl, RecGuardUpperPages = gu\<rparr>)"
    "KiKvaFillRangeFromRecord (gKvaRanges s' idx) s' = Inr rng"
    "gKvaArenas s' = (gKvaArenas s)(t := (gKvaArenas s t)\<lparr>PageStates := (\<lambda>i. let offset = i - word_of_nat base in
       if offset < gl + u + gu then (if offset < gl \<or> offset \<ge> gl + u then KE_KVA_PAGE_STATE_GUARD else KE_KVA_PAGE_STATE_ALLOC)
       else PageStates (gKvaArenas s t) i)\<rparr>)"
    "gKvaInitialized s'" "PhysMem s' = PhysMem s" "gKernelAddressSpace s' = gKernelAddressSpace s" "gPmmDevice s' = gPmmDevice s"
    "TlbInvalidations s' = TlbInvalidations s" "ActiveCr3 s' = ActiveCr3 s" "gFixmapSlotGenerations s' = gFixmapSlotGenerations s"
    "gKvaRangeGenerationCounter s' = gKvaRangeGenerationCounter s + 1"
proof -
  note l = records_okD(1) [OF ok]
  have t: "t \<noteq> KE_KVA_ARENA_MAX" using a by (auto simp: KeKvaAllocRange_def KiKvaArenaState_def split: if_splits)
  note lt = layout_okD [OF l t]
  have g1: "\<not> gl > 0xFFFFFFFFFFFFFFFF - u" and g2: "\<not> gu > 0xFFFFFFFFFFFFFFFF - (gl + u)" and u0: "u \<noteq> 0" and i: "gKvaInitialized s"
    and tot: "\<not> gl + u + gu > ArenaPageCount (gKvaArenas s t)"
    using a lt(1) by (auto simp: KeKvaAllocRange_def Let_def split: if_splits)
  have s1: "unat (gl + u) = unat gl + unat u"
    by (rule no_overflow_sum [OF g1])
  have s2: "unat (gl + u + gu) = unat gl + unat u + unat gu"
    using no_overflow_sum [OF g2] s1 by (simp add: ac_simps)
  have p: "unat gl + unat u + unat gu \<le> kva_pages t" using tot lt(4) s2 by (simp add: not_less word_le_nat_alt)
  obtain idx where idx: "first_unused_record s = Some idx"
    using a lt(1) g1 g2 u0 i tot by (auto simp: KeKvaAllocRange_def Let_def split: if_splits option.splits)
  obtain base where base: "first_free_run (gKvaArenas s t) (gl + u + gu) = Some base"
    using a lt(1) g1 g2 u0 i tot idx by (auto simp: KeKvaAllocRange_def Let_def split: if_splits option.splits)
  have c: "gKvaRangeGenerationCounter s \<noteq> 0"
    using a lt(1) g1 g2 u0 i tot idx base by (auto simp: KeKvaAllocRange_def Let_def KiKvaNextRangeGeneration_def split: if_splits)
  have z: "gl + u + gu \<noteq> 0" using s2 u0 by (metis add_is_0 unat_0 unat_eq_zero)
  show ?thesis
    by (rule that [OF idx t _ p s2 base c])
      (use a lt(1) g1 g2 u0 i tot idx base c z in \<open>auto simp: KeKvaAllocRange_def Let_def next_range_generation [OF c]
          set_page_states_def set_record_def unat_gt_0 cong: if_cong\<close>)
qed

lemma record_id_index:
  assumes "idx < KE_KVA_MAX_RANGES"
  shows "unat (word_of_nat idx + 1 :: u32) = Suc idx" "(word_of_nat idx + 1 :: u32) \<noteq> 0"
proof -
  have i: "idx < 512" using assms(1) by (simp add: KE_KVA_MAX_RANGES_def)
  have "unat (word_of_nat idx :: u32) = idx" using i by (simp add: unsigned_of_nat take_bit_nat_eq_self)
  then show "unat (word_of_nat idx + 1 :: u32) = Suc idx" using i by (simp add: unat_word_ariths)
  then show "(word_of_nat idx + 1 :: u32) \<noteq> 0" by auto
qed

lemma find_by_id:
  assumes "layout_ok s" "live s idx" "record_ok idx (gKvaRanges s idx)" "KiKvaFillRangeFromRecord (gKvaRanges s idx) s = Inr rng"
  shows "KiKvaFindRecordById rng s = Some idx"
proof -
  let ?r = "gKvaRanges s idx"
  have t: "RecArena ?r \<noteq> KE_KVA_ARENA_MAX" and g: "RecGeneration ?r \<noteq> 0" using assms(3) by (simp_all add: record_ok_def)
  have l: "idx < KE_KVA_MAX_RANGES" "InUse ?r" using assms(2) by (simp_all add: live_def)
  have id: "unat (RecRecordId ?r) = Suc idx" "RecRecordId ?r \<noteq> 0" using record_id_index [OF l(1)] assms(3) by (simp_all add: record_ok_def)
  show ?thesis using assms(4) layout_okD(1) [OF assms(1) t] t g l id
    by (auto simp: KiKvaFillRangeFromRecord_def KiKvaFindRecordById_def Let_def)
qed

lemma find_by_id_Some:
  assumes "KiKvaFindRecordById rng s = Some idx"
  shows "live s idx" "KiKvaFillRangeFromRecord ((gKvaRanges s idx)\<lparr>RecRecordId := RangeRecordId rng\<rparr>) s = Inr rng"
    "unat (RangeRecordId rng) = Suc idx"
proof -
  have i: "idx = unat (RangeRecordId rng) - 1" "RangeRecordId rng \<noteq> 0" "unat (RangeRecordId rng) \<le> KE_KVA_MAX_RANGES" "InUse (gKvaRanges s idx)"
    using assms by (auto simp: KiKvaFindRecordById_def Let_def split: if_splits option.splits)
  then show "unat (RangeRecordId rng) = Suc idx" by (simp add: unat_gt_0 word_neq_0_conv)
  then show "live s idx" using i by (simp add: live_def)
  show "KiKvaFillRangeFromRecord ((gKvaRanges s idx)\<lparr>RecRecordId := RangeRecordId rng\<rparr>) s = Inr rng"
    using assms i(1) by (auto simp: KiKvaFindRecordById_def KiKvaFillRangeFromRecord_def KiKvaArenaState_def Let_def KiKvaRecordUsableBase_def
        split: if_splits option.splits)
qed

lemma find_by_id_fill:
  assumes "records_ok s" "KiKvaFindRecordById rng s = Some idx"
  shows "KiKvaFillRangeFromRecord (gKvaRanges s idx) s = Inr rng"
proof -
  note f = find_by_id_Some [OF assms(2)]
  have "RecRecordId (gKvaRanges s idx) = word_of_nat idx + 1" using records_okD(2) [OF assms(1) f(1)] by (simp add: record_ok_def)
  then have "unat (RecRecordId (gKvaRanges s idx)) = Suc idx" using record_id_index(1) [of idx] f(1) by (simp add: live_def)
  then have "RecRecordId (gKvaRanges s idx) = RangeRecordId rng" using f(3) by (simp add: unat_eqI)
  then show ?thesis using f(2) by (metis KE_KVA_RANGE_RECORD.surjective KE_KVA_RANGE_RECORD.update_convs(4))
qed

lemma fill_total:
  assumes "layout_ok s" "record_ok idx r"
  shows "KiKvaFillRangeFromRecord r s = Inr \<lparr>RangeArena = RecArena r, RangeRecordId = RecRecordId r, RangeGeneration = RecGeneration r,
    RangeBaseAddress = page_va (RecArena r) (unat (BasePageIndex r)), RangeUsableBase = page_va (RecArena r) (rec_first r),
    RangeTotalPages = RecTotalPages r, RangeUsablePages = RecUsablePages r,
    RangeGuardLowerPages = RecGuardLowerPages r, RangeGuardUpperPages = RecGuardUpperPages r\<rparr>"
proof -
  have t: "RecArena r \<noteq> KE_KVA_ARENA_MAX" using assms(2) by (simp add: record_ok_def)
  show ?thesis unfolding KiKvaFillRangeFromRecord_def layout_okD(1) [OF assms(1) t] using usable_base_va [OF assms] by simp
qed

lemma KeKvaAllocRange_inv:
  assumes inv: "kva_inv s" and a: "KeKvaAllocRange t u gl gu owns s = (Inr rng, s')"
  shows "\<exists>idx. kva_inv s' \<and> \<not> live s idx \<and> live s' idx \<and> (\<forall>j. j \<noteq> idx \<longrightarrow> gKvaRanges s' j = gKvaRanges s j) \<and>
    KiKvaFindRecordById rng s' = Some idx \<and> RecArena (gKvaRanges s' idx) = t \<and> RecUsablePages (gKvaRanges s' idx) = u \<and>
    RecGuardLowerPages (gKvaRanges s' idx) = gl \<and> RecGuardUpperPages (gKvaRanges s' idx) = gu \<and>
    OwnsPhysicalBacking (gKvaRanges s' idx) = owns \<and> RecGeneration (gKvaRanges s' idx) = gKvaRangeGenerationCounter s \<and>
    (\<forall>i \<in> rec_pages (gKvaRanges s' idx). page_state t i s = KE_KVA_PAGE_STATE_FREE) \<and>
    (\<forall>t' i. kmap s' t' i = kmap s t' i) \<and> frames s' = frames s \<and>
    gKvaRangeGenerationCounter s' = gKvaRangeGenerationCounter s + 1"
proof -
  have ok: "records_ok s" and mo: "maps_ok s" using inv by (simp_all add: kva_inv_def)
  obtain idx base where idx: "first_unused_record s = Some idx" and t: "t \<noteq> KE_KVA_ARENA_MAX" and u: "0 < unat u"
    and p: "unat gl + unat u + unat gu \<le> kva_pages t" and s2: "unat (gl + u + gu) = unat gl + unat u + unat gu"
    and base: "first_free_run (gKvaArenas s t) (gl + u + gu) = Some base" and c: "gKvaRangeGenerationCounter s \<noteq> 0"
    and rs: "gKvaRanges s' = (gKvaRanges s)(idx := \<lparr>InUse = True, OwnsPhysicalBacking = owns, RecArena = t,
       RecRecordId = word_of_nat idx + 1, RecGeneration = gKvaRangeGenerationCounter s, BasePageIndex = word_of_nat base,
       RecTotalPages = gl + u + gu, RecUsablePages = u, RecGuardLowerPages = gl, RecGuardUpperPages = gu\<rparr>)"
    and fill: "KiKvaFillRangeFromRecord (gKvaRanges s' idx) s' = Inr rng"
    and ar: "gKvaArenas s' = (gKvaArenas s)(t := (gKvaArenas s t)\<lparr>PageStates := (\<lambda>i. let offset = i - word_of_nat base in
       if offset < gl + u + gu then (if offset < gl \<or> offset \<ge> gl + u then KE_KVA_PAGE_STATE_GUARD else KE_KVA_PAGE_STATE_ALLOC)
       else PageStates (gKvaArenas s t) i)\<rparr>)"
    and i: "gKvaInitialized s'" and vm: "PhysMem s' = PhysMem s" "gKernelAddressSpace s' = gKernelAddressSpace s" "gPmmDevice s' = gPmmDevice s"
    and cnt: "gKvaRangeGenerationCounter s' = gKvaRangeGenerationCounter s + 1"
    by (rule KeKvaAllocRange_success [OF ok a]) (rule that, assumption+)
  define r where "r = gKvaRanges s' idx"
  note l = layout_okD [OF records_okD(1) [OF ok] t]
  have ps: "page_state t i s = PageStates (gKvaArenas s t) (word_of_nat i)" for i by (simp add: page_state_def)
  have idx': "idx < KE_KVA_MAX_RANGES" "\<not> InUse (gKvaRanges s idx)" using idx by (auto simp: first_unused_record_def find_upt_Some)
  have run: "base + unat (gl + u + gu) \<le> kva_pages t" "\<And>k. k < unat (gl + u + gu) \<Longrightarrow> page_state t (base + k) s = KE_KVA_PAGE_STATE_FREE"
    using first_free_run_Some [OF base] p l(4) s2 by (auto simp: ps)
  have b: "base < 2 ^ 32" "unat (gl + u + gu) < 2 ^ 32" using run(1) kva_pages_le [of t] by simp_all
  have rb: "unat (BasePageIndex r) = base" using b(1) by (simp add: r_def rs)
  have pg: "rec_pages r = {base..<base + unat (gl + u + gu)}" "usable_pages r = {base + unat gl..<base + unat gl + unat u}"
    by (simp_all add: rec_pages_def usable_pages_def rec_first_def rb) (simp_all add: r_def rs)
  have rok: "record_ok idx r" "InUse r" and rt: "RecArena r = t"
    using t c u run(1) s2 b(1) by (simp_all add: record_ok_def r_def rs)
  have free: "page_state t i s = KE_KVA_PAGE_STATE_FREE" if "i \<in> rec_pages r" for i
    using run(2) [of "i - base"] that by (simp add: pg less_diff_conv2)
  have unowned: "\<not> owner_of s (RecArena r) i j" if "i \<in> rec_pages r" for i j
    using unowned_free [OF ok free [OF that]] rt by simp
  have st: "page_state t' i s' = (if t' = RecArena r \<and> i \<in> rec_pages r then (if i \<in> usable_pages r then KE_KVA_PAGE_STATE_ALLOC else KE_KVA_PAGE_STATE_GUARD)
       else page_state t' i s)" if "t' \<noteq> KE_KVA_ARENA_MAX" "i < kva_pages t'" for t' i
  proof (cases "t' = t")
    case True
    have i32: "i < 2 ^ 32" using that(2) kva_pages_le [of t'] by simp
    have gl: "unat gl < 2 ^ 32" "unat (gl + u) < 2 ^ 32" "unat (gl + u) = unat gl + unat u"
      using b(2) s2 by (simp_all add: unat_add_small)
    have "(word_of_nat i - word_of_nat base :: u64) < gl + u + gu \<longleftrightarrow> base \<le> i \<and> i < base + unat (gl + u + gu)"
      "(word_of_nat i - word_of_nat base :: u64) < gl \<longleftrightarrow> base \<le> i \<and> i < base + unat gl"
      "(word_of_nat i - word_of_nat base :: u64) < gl + u \<longleftrightarrow> base \<le> i \<and> i < base + unat (gl + u)"
      using offset_lt [OF i32 b(1)] b(2) gl by blast+
    then show ?thesis using True rt gl(3) by (auto simp: page_state_def ar pg Let_def not_less [symmetric])
  next
    case False
    then show ?thesis using rt by (simp add: page_state_def ar)
  qed
  have lay: "layout_ok s'" using records_okD(1) [OF ok] by (auto simp: layout_ok_def ar)
  have same: "gKvaRanges s' = (gKvaRanges s)(idx := r)" by (simp add: r_def rs)
  note e = records_ok_enter [OF ok idx' rok unowned same lay st]
  have e1: "records_ok s'" by (rule e(1)) assumption+
  have own: "owner_of s' t' i j \<longleftrightarrow> (if j = idx then t' = t \<and> i \<in> rec_pages r else owner_of s t' i j)" for t' i j
    using e(2) rt by metis
  note v = vm_same [OF vm]
  have np: "\<not> Present (kmap s t i)" if "i \<in> rec_pages r" for i
  proof
    assume "Present (kmap s t i)"
    moreover have "i < kva_pages t" using that run(1) by (simp add: pg)
    ultimately show False using maps_okD(4) [OF mo t] free [OF that] by simp
  qed
  have "maps_ok s'"
  proof (rule maps_ok_cong [OF mo vm])
    show "page_state t' i s' = KE_KVA_PAGE_STATE_ALLOC" if "t' \<noteq> KE_KVA_ARENA_MAX" "i < kva_pages t'" "Present (kmap s t' i)" for t' i
      using st [OF that(1,2)] maps_okD(4) [OF mo that] np [of i] that(3) rt by auto
    show "owned_page s t' i" if "owned_page s' t' i" for t' i
      using that np [of i] unfolding owned_page_def v own same by (auto split: if_splits)
  qed
  then have "kva_inv s'" using i e1 by (simp add: kva_inv_def)
  moreover have lv: "live s' idx" "\<not> live s idx" using idx' rok(2) by (simp_all add: live_def same)
  moreover have "KiKvaFindRecordById rng s' = Some idx"
    using find_by_id [OF lay lv(1) _ fill] rok(1) by (simp add: r_def)
  ultimately show ?thesis
    using free v cnt by (intro exI [of _ idx]) (auto simp: r_def rs)
qed

end
