(* ===== verification/KvaRelease.thy ===== *)
theory KvaRelease
  imports KvaInv
begin

text \<open>
  Releasing ranges. Under the invariant a live record can always be torn down: its pages are
  unmapped, the frames it owns go back to the frame allocator, and neither an error nor a stop
  of the machine occurs.
\<close>

section \<open>Changes of the page tables under the invariant\<close>

lemma vm_frame_kva:
  assumes "vm_frame s s'"
  shows "gKvaRanges s' = gKvaRanges s" "gKvaArenas s' = gKvaArenas s" "gKvaInitialized s' = gKvaInitialized s"
    "gKvaRangeGenerationCounter s' = gKvaRangeGenerationCounter s" "gFixmapSlotGenerations s' = gFixmapSlotGenerations s"
    "gKernelAddressSpace s' = gKernelAddressSpace s"
proof -
  have e: "s' = s\<lparr>gPmmDevice := gPmmDevice s', PhysMem := PhysMem s', TlbInvalidations := TlbInvalidations s'\<rparr>"
    using assms by (simp add: vm_frame_def)
  show "gKvaRanges s' = gKvaRanges s" "gKvaArenas s' = gKvaArenas s" "gKvaInitialized s' = gKvaInitialized s"
    "gKvaRangeGenerationCounter s' = gKvaRangeGenerationCounter s" "gFixmapSlotGenerations s' = gFixmapSlotGenerations s"
    "gKernelAddressSpace s' = gKernelAddressSpace s"
    by (subst e, simp)+
qed

lemma vm_frame_records:
  assumes "vm_frame s s'"
  shows "kroot s' = kroot s" "page_state t i s' = page_state t i s" "live s' idx = live s idx"
    "owner_of s' t i idx = owner_of s t i idx" "records_ok s' = records_ok s" "layout_ok s' = layout_ok s"
    "KiKvaFindRecordById rng s' = KiKvaFindRecordById rng s" "KeGetKernelAddressSpace s' = KeGetKernelAddressSpace s"
    "KiKvaArenaState t s' = KiKvaArenaState t s"
proof -
  note k = vm_frame_kva [OF assms]
  have a: "KiKvaArenaState t s' = KiKvaArenaState t s" for t using k by (simp add: KiKvaArenaState_def)
  show "KiKvaArenaState t s' = KiKvaArenaState t s" by (rule a)
  show "KiKvaFindRecordById rng s' = KiKvaFindRecordById rng s" unfolding KiKvaFindRecordById_def a k ..
  show "kroot s' = kroot s" "page_state t i s' = page_state t i s" "live s' idx = live s idx"
    "owner_of s' t i idx = owner_of s t i idx" "records_ok s' = records_ok s" "layout_ok s' = layout_ok s"
    "KeGetKernelAddressSpace s' = KeGetKernelAddressSpace s"
    using k by (simp_all add: kroot_def page_state_def live_def owner_of_def [abs_def] records_ok_def [abs_def] layout_ok_def
      KeGetKernelAddressSpace_def)
qed

lemma absent_mapping: "\<not> Present (page_mapping m root va) \<longleftrightarrow> page_mapping m root va = zero_mapping"
  by (auto simp: page_mapping_def leaf_mapping_def zero_mapping_def Let_def split: option.split prod.split)

lemma kernel_space:
  "maps_ok s \<Longrightarrow> KeGetKernelAddressSpace s = Some (gKernelAddressSpace s)"
  by (simp add: KeGetKernelAddressSpace_def maps_ok_def)

text \<open>A change that keeps or removes mappings, and keeps the frames behind the pages that own them.\<close>

lemma maps_ok_shrink:
  assumes ok: "maps_ok s" and vf: "vm_frame s s'" and pt: "pt_ok s' (kroot s)"
    and tb: "pt_tables (PhysMem s') (kroot s) \<subseteq> pt_tables (PhysMem s) (kroot s) \<union> {q. frames s q = Some PMM_PAGE_FREE}"
    and km: "\<And>t i. t \<noteq> KE_KVA_ARENA_MAX \<Longrightarrow> i < kva_pages t \<Longrightarrow> Present (kmap s' t i) \<Longrightarrow> kmap s' t i = kmap s t i"
    and rec: "records_ok s"
    and fr: "\<And>t i. owned_page s' t i \<Longrightarrow> frames s (PhysicalBase (kmap s t i)) = Some PMM_PAGE_ALLOCATED \<Longrightarrow>
      frames s' (PhysicalBase (kmap s t i)) = Some PMM_PAGE_ALLOCATED"
    and dm: "\<And>q. frames s' q \<noteq> None \<Longrightarrow> frames s q \<noteq> None"
  shows "maps_ok s'"
proof -
  note d = maps_okD [OF ok] and k = vm_frame_records [OF vf] and g = vm_frame_kva [OF vf]
  have own: "owned_page s t i \<and> kmap s' t i = kmap s t i" if op: "owned_page s' t i" for t i
  proof -
    obtain idx where o: "owner_of s t i idx" "OwnsPhysicalBacking (gKvaRanges s idx)" and p: "Present (kmap s' t i)"
      using op k(4) g(1) by (auto simp: owned_page_def)
    have "kmap s' t i = kmap s t i" using km [OF owner_bounds [OF rec o(1)] p] .
    then show ?thesis using o p by (auto simp: owned_page_def)
  qed
  show ?thesis unfolding maps_ok_def
  proof (intro conjI allI impI)
    show "SpaceInitialized (gKernelAddressSpace s')" using d(1) g by simp
    show "pt_ok s' (kroot s')" using pt k by simp
    show "p AND KE_PT_PHYS_ADDR_MASK = p" if "frames s' p \<noteq> None" for p using d(3) dm that by blast
    show "page_state t i s' = KE_KVA_PAGE_STATE_ALLOC" "MapLevel (kmap s' t i) = 1"
      if "t \<noteq> KE_KVA_ARENA_MAX" "i < kva_pages t" "Present (kmap s' t i)" for t i
      using d(4) [of t i] that km [OF that] k by simp_all
    fix t i assume o: "owned_page s' t i"
    note o' = own [OF o]
    show "frames s' (PhysicalBase (kmap s' t i)) = Some PMM_PAGE_ALLOCATED" using fr [OF o] d(5) o' by simp
    show "\<not> is_table s' (PhysicalBase (kmap s' t i))"
      using d(5) [of t i] d(6) [of t i] o' tb k by (auto simp: is_table_def)
    show "t' = t" "i' = i" if "owned_page s' t' i'" "PhysicalBase (kmap s' t' i') = PhysicalBase (kmap s' t i)" for t' i'
      using d(7) [of t i t' i'] o' own [OF that(1)] that(2) by simp_all
  qed
qed

lemma unmap_page:
  assumes inv: "kva_inv s" and t: "t \<noteq> KE_KVA_ARENA_MAX" "i < kva_pages t" and p: "Present (kmap s t i)"
  shows "\<exists>s'. KePtUnmapPage (KeGetKernelAddressSpace s) (page_va t i) s = (EC_SUCCESS, s') \<and> vm_frame s s' \<and> kva_inv s' \<and>
    frames s' = frames s \<and> pt_tables (PhysMem s') (kroot s) = pt_tables (PhysMem s) (kroot s) \<and>
    (\<forall>t' i'. t' \<noteq> KE_KVA_ARENA_MAX \<longrightarrow> i' < kva_pages t' \<longrightarrow>
       kmap s' t' i' = (if t' = t \<and> i' = i then zero_mapping else kmap s t' i'))"
proof -
  have ok: "maps_ok s" "records_ok s" using inv by (simp_all add: kva_inv_def)
  note d = maps_okD [OF ok(1)]
  have al: "HO_IS_ALIGNED (page_va t i) PAGE_4KB" using t by (simp add: page_va_aligned)
  have lv: "MapLevel (kmap s t i) = 1" using d(4) t p by simp
  obtain s' where u: "KePtUnmapPage (Some (gKernelAddressSpace s)) (page_va t i) s = (EC_SUCCESS, s')" and pt: "pt_ok s' (kroot s)"
    and vf: "vm_frame s s'" and lr: "leaf_replaced (kroot s) (page_va t i) None s s'"
    using KePtUnmapPage_effect [OF d(2,1) kroot_def [symmetric] al] p lv by (auto simp: kmap_def)
  note k = vm_frame_records [OF vf]
  have km: "kmap s' t' i' = (if t' = t \<and> i' = i then zero_mapping else kmap s t' i')" if "t' \<noteq> KE_KVA_ARENA_MAX" "i' < kva_pages t'" for t' i'
    using lr page_va_same [OF t(1) that(1) t(2) that(2)] k by (auto simp: kmap_def leaf_replaced_def page_mapping_def)
  have z: "\<not> Present zero_mapping" by (simp add: zero_mapping_def)
  have "maps_ok s'"
    by (rule maps_ok_shrink [OF ok(1) vf pt]) (use lr km z ok(2) in \<open>auto simp: leaf_replaced_def split: if_splits\<close>)
  then have "kva_inv s'" using inv k vm_frame_kva [OF vf] by (simp add: kva_inv_def)
  then show ?thesis using u vf lr km kernel_space [OF ok(1)] by (auto simp: leaf_replaced_def)
qed

text \<open>Freeing a frame that no table and no owned page uses.\<close>

lemma free_frame:
  assumes inv: "kva_inv s" and p: "frames s p = Some PMM_PAGE_ALLOCATED" "p \<notin> pt_tables (PhysMem s) (kroot s)"
    and no: "\<And>t i. owned_page s t i \<Longrightarrow> PhysicalBase (kmap s t i) \<noteq> p"
  shows "\<exists>s'. KePmmFreePages s p 1 = (EC_SUCCESS, s') \<and> vm_frame s s' \<and> kva_inv s' \<and> frames s' = (frames s)(p := Some PMM_PAGE_FREE) \<and>
    PhysMem s' = PhysMem s"
proof -
  have ok: "maps_ok s" "records_ok s" using inv by (simp_all add: kva_inv_def)
  note d = maps_okD [OF ok(1)]
  define s' where "s' = snd (KePmmFreePages s p 1)"
  have "pmm_ready s" using d(2) by (simp add: pt_ok_def)
  note f = KePmmFreePages_vm [OF this p(1), folded s'_def]
  note k = vm_frame_records [OF f(6)]
  have pt: "pt_ok s' (kroot s)" using d(2) f p(2) unfolding pt_ok_def pt_tables_def by auto
  have km: "kmap s' t i = kmap s t i" for t i using f(4) k by (simp add: kmap_def)
  have op: "owned_page s' t i = owned_page s t i" for t i using km k vm_frame_kva [OF f(6)] by (simp add: owned_page_def)
  have "maps_ok s'"
    by (rule maps_ok_shrink [OF ok(1) f(6) pt]) (use f km ok(2) op no p(1) in \<open>auto split: if_splits\<close>)
  then have "kva_inv s'" using inv k vm_frame_kva [OF f(6)] by (simp add: kva_inv_def)
  then show ?thesis using f(1,3,4,6) s'_def by (metis prod.collapse)
qed

section \<open>Releasing a range\<close>

lemma query_page:
  assumes "maps_ok s" "t \<noteq> KE_KVA_ARENA_MAX" "i < kva_pages t"
  shows "KePtQueryPage (KeGetKernelAddressSpace s) (page_va t i) s = Inr (kmap s t i)"
  using KePtQueryPage_mapping [OF maps_okD(1) [OF assms(1)] page_va_aligned, of t i s] assms
  by (simp add: kernel_space kmap_def kroot_def)

text \<open>The frames that the release of the pages \<open>js\<close> of an arena gives back.\<close>

definition backing :: "'a kva_globals_scheme \<Rightarrow> KE_KVA_ARENA_TYPE \<Rightarrow> nat set \<Rightarrow> HO_PHYSICAL_ADDRESS set" where
  "backing s t js = {PhysicalBase (kmap s t j) | j. j \<in> js \<and> Present (kmap s t j)}"

lemma release_page:
  assumes inv: "kva_inv s" and o: "owner_of s t i idx" and p: "Present (kmap s t i)" and ow: "owns = OwnsPhysicalBacking (gKvaRanges s idx)"
  shows "\<exists>s'. release_pages owns (page_va t i) (Suc n) b s = release_pages owns (page_va t (Suc i)) n True s' \<and> vm_frame s s' \<and> kva_inv s' \<and>
    frames s' = (if owns then (frames s)(PhysicalBase (kmap s t i) := Some PMM_PAGE_FREE) else frames s) \<and>
    (\<forall>t' i'. t' \<noteq> KE_KVA_ARENA_MAX \<longrightarrow> i' < kva_pages t' \<longrightarrow>
       kmap s' t' i' = (if t' = t \<and> i' = i then zero_mapping else kmap s t' i'))"
proof -
  have ok: "maps_ok s" "records_ok s" using inv by (simp_all add: kva_inv_def)
  note t = owner_bounds [OF ok(2) o] and d = maps_okD [OF ok(1)]
  note q = query_page [OF ok(1) t]
  have lv: "MapLevel (kmap s t i) = 1" using d(4) [OF t p] by simp
  obtain s1 where u: "KePtUnmapPage (KeGetKernelAddressSpace s) (page_va t i) s = (EC_SUCCESS, s1)" and v1: "vm_frame s s1"
    and i1: "kva_inv s1" and f1: "frames s1 = frames s" and tb: "pt_tables (PhysMem s1) (kroot s) = pt_tables (PhysMem s) (kroot s)"
    and k1: "\<And>t' i'. t' \<noteq> KE_KVA_ARENA_MAX \<Longrightarrow> i' < kva_pages t' \<Longrightarrow> kmap s1 t' i' = (if t' = t \<and> i' = i then zero_mapping else kmap s t' i')"
    using unmap_page [OF inv t p] by blast
  note r1 = vm_frame_records [OF v1] and g1 = vm_frame_kva [OF v1]
  show ?thesis
  proof (cases owns)
    case False
    then show ?thesis using q p lv u v1 i1 f1 k1 by (intro exI [of _ s1]) (simp add: page_va_add)
  next
    case True
    define pa where "pa = PhysicalBase (kmap s t i)"
    have op: "owned_page s t i" using o p True ow by (auto simp: owned_page_def)
    have no: "PhysicalBase (kmap s1 t' i') \<noteq> pa" if "owned_page s1 t' i'" for t' i'
    proof -
      obtain j where j: "owner_of s1 t' i' j" "OwnsPhysicalBacking (gKvaRanges s1 j)" "Present (kmap s1 t' i')"
        using \<open>owned_page s1 t' i'\<close> by (auto simp: owned_page_def)
      then have j': "owner_of s t' i' j" "OwnsPhysicalBacking (gKvaRanges s j)" using r1(4) g1(1) by simp_all
      have e: "kmap s1 t' i' = kmap s t' i'" "\<not> (t' = t \<and> i' = i)"
        using k1 [OF owner_bounds [OF ok(2) j'(1)]] j(3) by (auto simp: zero_mapping_def split: if_splits)
      then have "owned_page s t' i'" using j j' by (auto simp: owned_page_def)
      then show ?thesis using d(7) [OF op] e unfolding pa_def by fastforce
    qed
    have "frames s1 pa = Some PMM_PAGE_ALLOCATED" "pa \<notin> pt_tables (PhysMem s1) (kroot s1)"
      using d(5,6) [OF op] f1 tb r1(1) by (simp_all add: pa_def is_table_def)
    then obtain s2 where f: "KePmmFreePages s1 pa 1 = (EC_SUCCESS, s2)" "vm_frame s1 s2" "kva_inv s2"
        "frames s2 = (frames s1)(pa := Some PMM_PAGE_FREE)" "PhysMem s2 = PhysMem s1"
      using free_frame [OF i1 _ _ no] by blast
    have "kmap s2 t' i' = kmap s1 t' i'" for t' i' using f(5) vm_frame_records(1) [OF f(2)] by (simp add: kmap_def)
    moreover have "vm_frame s s2" using v1 f(2) by (rule vm_frame_trans)
    ultimately show ?thesis using True q p lv u f k1 f1 by (intro exI [of _ s2]) (simp add: page_va_add pa_def)
  qed
qed

lemma release_pages_effect:
  assumes "kva_inv s" "\<forall>j. i \<le> j \<and> j < i + n \<longrightarrow> owner_of s t j idx" "owns = OwnsPhysicalBacking (gKvaRanges s idx)"
  shows "\<exists>s'. release_pages owns (page_va t i) n b s = Done (EC_SUCCESS, s') \<and> vm_frame s s' \<and> kva_inv s' \<and>
    frames s' = (\<lambda>q. if owns \<and> q \<in> backing s t {i..<i + n} then Some PMM_PAGE_FREE else frames s q) \<and>
    (\<forall>t' i'. t' \<noteq> KE_KVA_ARENA_MAX \<longrightarrow> i' < kva_pages t' \<longrightarrow>
       kmap s' t' i' = (if t' = t \<and> i \<le> i' \<and> i' < i + n then zero_mapping else kmap s t' i'))"
  using assms
proof (induction n arbitrary: i b s)
  case 0
  then show ?case by (auto simp: backing_def)
next
  case (Suc n)
  have ok: "maps_ok s" "records_ok s" using Suc.prems(1) by (simp_all add: kva_inv_def)
  have o: "owner_of s t i idx" using Suc.prems(2) by simp
  note t = owner_bounds [OF ok(2) o]
  have bnd: "j < kva_pages t" if "i \<le> j" "j < i + Suc n" for j using owner_bounds(2) [OF ok(2)] Suc.prems(2) that by blast
  show ?case
  proof (cases "Present (kmap s t i)")
    case False
    have z: "kmap s t i = zero_mapping" using False by (simp add: kmap_def absent_mapping)
    have st: "release_pages owns (page_va t i) (Suc n) b s = release_pages owns (page_va t (Suc i)) n b s"
      using query_page [OF ok(1) t] False by (simp add: page_va_add)
    have bk: "backing s t {i..<i + Suc n} = backing s t {Suc i..<Suc i + n}"
      using False by (auto simp: backing_def) (metis not_less_eq_eq le_antisym)
    obtain s' where s': "release_pages owns (page_va t (Suc i)) n b s = Done (EC_SUCCESS, s')" "vm_frame s s'" "kva_inv s'"
      "frames s' = (\<lambda>q. if owns \<and> q \<in> backing s t {Suc i..<Suc i + n} then Some PMM_PAGE_FREE else frames s q)"
      "\<And>t' i'. t' \<noteq> KE_KVA_ARENA_MAX \<Longrightarrow> i' < kva_pages t' \<Longrightarrow>
       kmap s' t' i' = (if t' = t \<and> Suc i \<le> i' \<and> i' < Suc i + n then zero_mapping else kmap s t' i')"
      using Suc.IH [OF Suc.prems(1), of "Suc i" b] Suc.prems(2,3) by auto
    show ?thesis unfolding st bk
      by (intro exI [of _ s'] conjI s'(1-4) allI impI) (use s'(5) z in \<open>auto simp: le_less_Suc_eq Suc_le_eq order_le_less\<close>)
  next
    case True
    obtain s1 where s1: "release_pages owns (page_va t i) (Suc n) b s = release_pages owns (page_va t (Suc i)) n True s1" "vm_frame s s1" "kva_inv s1"
      "frames s1 = (if owns then (frames s)(PhysicalBase (kmap s t i) := Some PMM_PAGE_FREE) else frames s)"
      and k1: "\<And>t' i'. t' \<noteq> KE_KVA_ARENA_MAX \<Longrightarrow> i' < kva_pages t' \<Longrightarrow> kmap s1 t' i' = (if t' = t \<and> i' = i then zero_mapping else kmap s t' i')"
      using release_page [OF Suc.prems(1) o True Suc.prems(3)] by blast
    note r1 = vm_frame_records [OF s1(2)] and g1 = vm_frame_kva [OF s1(2)]
    obtain s' where s': "release_pages owns (page_va t (Suc i)) n True s1 = Done (EC_SUCCESS, s')" "vm_frame s1 s'" "kva_inv s'"
      "frames s' = (\<lambda>q. if owns \<and> q \<in> backing s1 t {Suc i..<Suc i + n} then Some PMM_PAGE_FREE else frames s1 q)"
      and k': "\<And>t' i'. t' \<noteq> KE_KVA_ARENA_MAX \<Longrightarrow> i' < kva_pages t' \<Longrightarrow>
       kmap s' t' i' = (if t' = t \<and> Suc i \<le> i' \<and> i' < Suc i + n then zero_mapping else kmap s1 t' i')"
      using Suc.IH [OF s1(3), of "Suc i" True] Suc.prems(2,3) r1(4) g1(1) by auto
    have eqb: "kmap s1 t j = kmap s t j" if "Suc i \<le> j" "j < Suc i + n" for j using k1 [OF t(1) bnd [of j]] that by simp
    have bk: "backing s t {i..<i + Suc n} = insert (PhysicalBase (kmap s t i)) (backing s1 t {Suc i..<Suc i + n})"
    proof -
      have "{i..<i + Suc n} = insert i {Suc i..<Suc i + n}" by auto
      then have "backing s t {i..<i + Suc n} = insert (PhysicalBase (kmap s t i)) (backing s t {Suc i..<Suc i + n})"
        using True by (auto simp: backing_def)
      moreover have "backing s t {Suc i..<Suc i + n} = backing s1 t {Suc i..<Suc i + n}" using eqb by (force simp: backing_def)
      ultimately show ?thesis by simp
    qed
    have "frames s' = (\<lambda>q. if owns \<and> q \<in> backing s t {i..<i + Suc n} then Some PMM_PAGE_FREE else frames s q)"
      unfolding s'(4) s1(4) bk by (auto simp: fun_eq_iff)
    moreover have "kmap s' t' i' = (if t' = t \<and> i \<le> i' \<and> i' < i + Suc n then zero_mapping else kmap s t' i')"
      if "t' \<noteq> KE_KVA_ARENA_MAX" "i' < kva_pages t'" for t' i'
      using k' [OF that] k1 [OF that] by auto
    ultimately show ?thesis unfolding s1(1)
      using s' vm_frame_trans [OF s1(2) s'(2)] by (intro exI [of _ s']) simp
  qed
qed

lemma records_ok_leave:
  assumes ok: "records_ok s" and lv: "live s idx"
    and same: "gKvaRanges s' = (gKvaRanges s)(idx := free_record idx)" "layout_ok s'" and rel: "rel \<in> {KE_KVA_PAGE_STATE_FREE, KE_KVA_PAGE_STATE_RETIRED}"
    and st: "\<And>t i. t \<noteq> KE_KVA_ARENA_MAX \<Longrightarrow> i < kva_pages t \<Longrightarrow> page_state t i s' = (if owner_of s t i idx then rel else page_state t i s)"
  shows "records_ok s'" "live s' j \<longleftrightarrow> j \<noteq> idx \<and> live s j" "owner_of s' t i j \<longleftrightarrow> j \<noteq> idx \<and> owner_of s t i j"
proof -
  note d = records_okD [OF ok]
  have nu: "\<not> InUse (free_record idx)" by (simp add: free_record_def)
  have live: "live s' j \<longleftrightarrow> j \<noteq> idx \<and> live s j" for j using nu by (auto simp: live_def same)
  have own: "owner_of s' t i j \<longleftrightarrow> j \<noteq> idx \<and> owner_of s t i j" for t i j using live by (auto simp: owner_of_def same)
  show "live s' j \<longleftrightarrow> j \<noteq> idx \<and> live s j" "owner_of s' t i j \<longleftrightarrow> j \<noteq> idx \<and> owner_of s t i j" by (rule live own)+
  show "records_ok s'" unfolding records_ok_def
  proof (intro conjI allI impI)
    show "layout_ok s'" by (rule same)
    show "record_ok j (gKvaRanges s' j)" if "live s' j" for j using that live d(2) by (simp add: same)
    show "j = j'" if "owner_of s' t i j" "owner_of s' t i j'" for t i j j' using that d(3) own by blast
    show "page_state t i s' = (if i \<in> usable_pages (gKvaRanges s' j) then KE_KVA_PAGE_STATE_ALLOC else KE_KVA_PAGE_STATE_GUARD)"
      if o: "owner_of s' t i j" for t i j
    proof -
      have o': "owner_of s t i j" "j \<noteq> idx" using o own by blast+
      then have "\<not> owner_of s t i idx" using d(3) by blast
      then show ?thesis using st [OF owner_bounds [OF ok o'(1)]] d(4) [OF o'(1)] o'(2) by (simp add: same)
    qed
    show "page_state t i s' \<in> {KE_KVA_PAGE_STATE_FREE, KE_KVA_PAGE_STATE_RETIRED}"
      if "t \<noteq> KE_KVA_ARENA_MAX" "i < kva_pages t" "\<nexists>j. owner_of s' t i j" for t i
    proof (cases "owner_of s t i idx")
      case False
      then have "\<nexists>j. owner_of s t i j" using that(3) own by metis
      then show ?thesis using st [OF that(1,2)] d(5) [OF that(1,2)] False by simp
    qed (use st [OF that(1,2)] rel in simp)
  qed
qed

text \<open>A live record can always be released: no error and no stop of the machine.\<close>

definition range_released :: "nat \<Rightarrow> 'a kva_globals_scheme \<Rightarrow> 'a kva_globals_scheme \<Rightarrow> bool" where
  "range_released idx s s' \<longleftrightarrow> kva_inv s' \<and> gKvaRanges s' = (gKvaRanges s)(idx := free_record idx) \<and>
    gKvaRangeGenerationCounter s' = gKvaRangeGenerationCounter s \<and> gFixmapSlotGenerations s' = gFixmapSlotGenerations s \<and>
    (let r = gKvaRanges s idx; t = RecArena r in
     (\<forall>t' i. t' \<noteq> KE_KVA_ARENA_MAX \<longrightarrow> i < kva_pages t' \<longrightarrow>
        kmap s' t' i = (if t' = t \<and> i \<in> rec_pages r then zero_mapping else kmap s t' i) \<and>
        page_state t' i s' = (if t' = t \<and> i \<in> rec_pages r
          then (if t = KE_KVA_ARENA_FIXMAP \<and> RecTotalPages r = 1 \<and> KiKvaFixmapSlotRetired (BasePageIndex r) s
                then KE_KVA_PAGE_STATE_RETIRED else KE_KVA_PAGE_STATE_FREE)
          else page_state t' i s)) \<and>
     frames s' = (\<lambda>q. if OwnsPhysicalBacking r \<and> q \<in> backing s t (rec_pages r) then Some PMM_PAGE_FREE else frames s q))"

lemma KiKvaReleaseRecord_effect:
  assumes inv: "kva_inv s" and lv: "live s idx"
  shows "\<exists>s'. KiKvaReleaseRecord idx s = Done (EC_SUCCESS, s') \<and> range_released idx s s'"
proof -
  have ok: "maps_ok s" "records_ok s" using inv by (simp_all add: kva_inv_def)
  define r where "r = gKvaRanges s idx"
  define t where "t = RecArena r"
  define rel where "rel = (if t = KE_KVA_ARENA_FIXMAP \<and> RecTotalPages r = 1 \<and> KiKvaFixmapSlotRetired (BasePageIndex r) s
     then KE_KVA_PAGE_STATE_RETIRED else KE_KVA_PAGE_STATE_FREE)"
  have rok: "record_ok idx r" using records_okD(2) [OF ok(2) lv] by (simp add: r_def)
  have tm: "t \<noteq> KE_KVA_ARENA_MAX" using rok by (simp add: record_ok_def t_def)
  note lay = records_okD(1) [OF ok(2)]
  have own: "owner_of s t' i idx \<longleftrightarrow> t' = t \<and> i \<in> rec_pages r" for t' i using lv by (auto simp: owner_of_def r_def t_def)
  have sub: "usable_pages r \<subseteq> rec_pages r" by (rule usable_sub [OF rok])
  have all: "\<forall>j. rec_first r \<le> j \<and> j < rec_first r + unat (RecUsablePages r) \<longrightarrow> owner_of s t j idx"
    using sub own by (auto simp: usable_pages_def)
  obtain s1 where rp: "release_pages (OwnsPhysicalBacking r) (page_va t (rec_first r)) (unat (RecUsablePages r)) False s = Done (EC_SUCCESS, s1)"
    and vf: "vm_frame s s1" and i1: "kva_inv s1"
    and f1: "frames s1 = (\<lambda>q. if OwnsPhysicalBacking r \<and> q \<in> backing s t (usable_pages r) then Some PMM_PAGE_FREE else frames s q)"
    and k1: "\<And>t' i'. t' \<noteq> KE_KVA_ARENA_MAX \<Longrightarrow> i' < kva_pages t' \<Longrightarrow> kmap s1 t' i' = (if t' = t \<and> i' \<in> usable_pages r then zero_mapping else kmap s t' i')"
    using release_pages_effect [OF inv all refl, of False] by (auto simp: usable_pages_def r_def [symmetric])
  note r1 = vm_frame_records [OF vf] and g1 = vm_frame_kva [OF vf]
  define s2 where "s2 = set_record idx (free_record idx) (set_page_states t
      (\<lambda>i. if i - BasePageIndex r < RecTotalPages r then rel else PageStates (gKvaArenas s1 t) i) s1)"
  have st: "page_state t' i s2 = (if t' = t \<and> i \<in> rec_pages r then rel else page_state t' i s)" if "t' \<noteq> KE_KVA_ARENA_MAX" "i < kva_pages t'" for t' i
  proof (cases "t' = t")
    case True
    have b: "i < 2 ^ 32" "unat (BasePageIndex r) < 2 ^ 32" "unat (RecTotalPages r) < 2 ^ 32"
      using that(2) kva_pages_le [of t'] kva_pages_le [of t] rok by (simp_all add: record_ok_def t_def)
    have "(word_of_nat i - BasePageIndex r) < RecTotalPages r \<longleftrightarrow> i \<in> rec_pages r"
      using offset_lt [OF b] by (simp add: rec_pages_def)
    then show ?thesis using True r1(2) [of t i] by (simp add: s2_def page_state_set) (simp add: page_state_def)
  next
    case False
    then show ?thesis using r1(2) by (simp add: s2_def page_state_set)
  qed
  have bnd: "i < kva_pages t" if "i \<in> rec_pages r" for i using owner_bounds(2) [OF ok(2), of t i idx] own that by simp
  have np: "\<not> Present (kmap s1 t i)" if "i \<in> rec_pages r" for i
  proof (cases "i \<in> usable_pages r")
    case True
    then show ?thesis using k1 [OF tm bnd [OF that]] by (simp add: zero_mapping_def)
  next
    case False
    have o: "owner_of s t i idx" using own that by simp
    then have "page_state t i s = KE_KVA_PAGE_STATE_GUARD" using records_okD(4) [OF ok(2) o] False by (simp add: r_def)
    then have "\<not> Present (kmap s t i)" using maps_okD(4) [OF ok(1) owner_bounds [OF ok(2) o]] by auto
    then show ?thesis using k1 [OF owner_bounds [OF ok(2) o]] False by simp
  qed
  have z1: "kmap s1 t i = zero_mapping" if "i \<in> rec_pages r" for i using np [OF that] by (simp add: kmap_def absent_mapping)
  have bk: "backing s t (usable_pages r) = backing s t (rec_pages r)"
  proof -
    have "i \<in> usable_pages r" if "i \<in> rec_pages r" "Present (kmap s t i)" for i
      using np [OF that(1)] k1 [OF tm bnd [OF that(1)]] that by (auto split: if_splits)
    then show ?thesis using sub by (force simp: backing_def)
  qed
  have same: "gKvaRanges s2 = (gKvaRanges s1)(idx := free_record idx)" "layout_ok s2" using lay r1 by (simp_all add: s2_def)
  have relv: "rel \<in> {KE_KVA_PAGE_STATE_FREE, KE_KVA_PAGE_STATE_RETIRED}" by (simp add: rel_def)
  have lv1: "live s1 idx" and rk1: "records_ok s1" using lv ok(2) r1 by simp_all
  have st1: "page_state t' i s2 = (if owner_of s1 t' i idx then rel else page_state t' i s1)" if "t' \<noteq> KE_KVA_ARENA_MAX" "i < kva_pages t'" for t' i
    using st [OF that] r1 own by simp
  note lea = records_ok_leave [OF rk1 lv1 same relv st1]
  have lea1: "records_ok s2" by (rule lea(1)) assumption+
  have lea3: "owner_of s2 t' i j \<longleftrightarrow> j \<noteq> idx \<and> owner_of s1 t' i j" for t' i j by (rule lea(3)) assumption+
  have vm: "PhysMem s2 = PhysMem s1" "gKernelAddressSpace s2 = gKernelAddressSpace s1" "gPmmDevice s2 = gPmmDevice s1" by (simp_all add: s2_def)
  note v2 = vm_same [OF vm]
  have "maps_ok s2"
  proof (rule maps_ok_cong [OF _ vm])
    show mo: "maps_ok s1" using i1 by (simp add: kva_inv_def)
    show "page_state t' i s2 = KE_KVA_PAGE_STATE_ALLOC" if "t' \<noteq> KE_KVA_ARENA_MAX" "i < kva_pages t'" "Present (kmap s1 t' i)" for t' i
      using st [OF that(1,2)] np that(3) maps_okD(4) [OF mo that] r1(2) by auto
    show "owned_page s1 t' i" if "owned_page s2 t' i" for t' i
      using that v2(2) lea3 by (auto simp: owned_page_def same)
  qed
  then have inv2: "kva_inv s2" using lea1 i1 by (simp add: kva_inv_def s2_def)
  have "KiKvaReleaseRecord idx s = Done (EC_SUCCESS, s2)"
    using rp layout_okD(1) [OF lay tm] usable_base_va(1) [OF lay rok]
    by (simp add: KiKvaReleaseRecord_def Let_def r_def [symmetric] t_def [symmetric] rel_def [symmetric] s2_def)
  moreover have "range_released idx s s2" unfolding range_released_def Let_def r_def [symmetric] t_def [symmetric] rel_def [symmetric]
  proof (intro conjI allI impI)
    show "kmap s2 t' i = (if t' = t \<and> i \<in> rec_pages r then zero_mapping else kmap s t' i)" if "t' \<noteq> KE_KVA_ARENA_MAX" "i < kva_pages t'" for t' i
      using v2(2) k1 [OF that] z1 sub by auto
    show "frames s2 = (\<lambda>q. if OwnsPhysicalBacking r \<and> q \<in> backing s t (rec_pages r) then Some PMM_PAGE_FREE else frames s q)"
      using v2(4) f1 bk by simp
    show "gKvaRanges s2 = (gKvaRanges s)(idx := free_record idx)" using same g1 by simp
    show "gKvaRangeGenerationCounter s2 = gKvaRangeGenerationCounter s" "gFixmapSlotGenerations s2 = gFixmapSlotGenerations s"
      using g1 by (simp_all add: s2_def)
  qed (rule inv2, rule st)
  ultimately show ?thesis by blast
qed

end
