(* ===== verification/KvaMap.thy ===== *)
theory KvaMap
  imports KvaRelease
begin

text \<open>
  Mapping pages of a range. \<open>KeKvaMapOwnedPages\<close> either maps every page of its range to a fresh
  frame of its own or gives the whole range back.
\<close>

section \<open>Mapping pages of a range\<close>

lemma alloc_frame:
  assumes inv: "kva_inv s" and a: "KePmmAllocPages s 1 None = Done (Inr pa, s')"
  shows "kva_inv s'" "vm_frame s s'" "PhysMem s' = PhysMem s" "frames s pa = Some PMM_PAGE_FREE"
    "frames s' = (frames s)(pa := Some PMM_PAGE_ALLOCATED)" "HO_IS_ALIGNED pa PAGE_4KB" "pa \<notin> pt_tables (PhysMem s') (kroot s')"
    "owned_page s' t i \<Longrightarrow> PhysicalBase (kmap s' t i) \<noteq> pa" "kmap s' t i = kmap s t i"
proof -
  have ok: "maps_ok s" "records_ok s" using inv by (simp_all add: kva_inv_def)
  note d = maps_okD [OF ok(1)]
  have rdy: "pmm_ready s" using d(2) by (simp add: pt_ok_def)
  note al = KePmmAllocPages_success [OF rdy a]
  obtain ctx where s': "s' = set_sink_context ctx s" using al(6) by blast
  show fs: "frames s pa = Some PMM_PAGE_FREE" using al(3) by simp
  show f': "frames s' = (frames s)(pa := Some PMM_PAGE_ALLOCATED)" using al(4) by (auto simp: fun_eq_iff)
  show "HO_IS_ALIGNED pa PAGE_4KB" by (rule al(5))
  show m: "PhysMem s' = PhysMem s" and vf: "vm_frame s s'" by (simp_all add: s')
  note k = vm_frame_records [OF vf]
  show km: "kmap s' t i = kmap s t i" for t i using m k by (simp add: kmap_def)
  have nt: "pa \<notin> pt_tables (PhysMem s) (kroot s)" using d(2) fs by (auto simp: pt_ok_def pt_tables_def)
  then show "pa \<notin> pt_tables (PhysMem s') (kroot s')" using m k by simp
  have pt: "pt_ok s' (kroot s)" using d(2) al(1) f' nt unfolding pt_ok_def m pt_tables_def by auto
  have op: "owned_page s' t i = owned_page s t i" for t i using km k vm_frame_kva [OF vf] by (simp add: owned_page_def)
  show "PhysicalBase (kmap s' t i) \<noteq> pa" if "owned_page s' t i" for t i using that op km d(5) [of t i] fs by auto
  have "maps_ok s'"
    by (rule maps_ok_shrink [OF ok(1) vf pt]) (use m f' km ok(2) fs in \<open>auto split: if_splits\<close>)
  then show "kva_inv s'" using inv k vm_frame_kva [OF vf] by (simp add: kva_inv_def)
qed

lemma maps_ok_grow:
  assumes inv: "kva_inv s" and vf: "vm_frame s s'" and pt: "pt_ok s' (kroot s)"
    and o: "owner_of s t i idx" and u: "i \<in> usable_pages (gKvaRanges s idx)"
    and lm: "MapLevel (kmap s' t i) = 1" "Present (kmap s' t i)"
    and ow: "OwnsPhysicalBacking (gKvaRanges s idx) \<Longrightarrow> PhysicalBase (kmap s' t i) = pa \<and> frames s pa = Some PMM_PAGE_ALLOCATED \<and>
      pa \<notin> pt_tables (PhysMem s) (kroot s) \<and> (\<forall>t i. owned_page s t i \<longrightarrow> PhysicalBase (kmap s t i) \<noteq> pa)"
    and there: "\<And>t' i'. t' \<noteq> KE_KVA_ARENA_MAX \<Longrightarrow> i' < kva_pages t' \<Longrightarrow> (t', i') \<noteq> (t, i) \<Longrightarrow> kmap s' t' i' = kmap s t' i'"
    and fr: "\<And>q. frames s q \<noteq> Some PMM_PAGE_FREE \<Longrightarrow> frames s' q = frames s q"
    and tb: "pt_tables (PhysMem s') (kroot s) \<subseteq> pt_tables (PhysMem s) (kroot s) \<union> {q. frames s q = Some PMM_PAGE_FREE}"
  shows "maps_ok s'"
proof -
  have ok: "maps_ok s" "records_ok s" using inv by (simp_all add: kva_inv_def)
  note d = maps_okD [OF ok(1)] and t = owner_bounds [OF ok(2) o] and k = vm_frame_records [OF vf] and g = vm_frame_kva [OF vf]
  have cases: "(t', i') = (t, i) \<or> (t', i') \<noteq> (t, i) \<and> owned_page s t' i' \<and> kmap s' t' i' = kmap s t' i'" if o': "owned_page s' t' i'" for t' i'
  proof -
    obtain j where j: "owner_of s t' i' j" "OwnsPhysicalBacking (gKvaRanges s j)" "Present (kmap s' t' i')"
      using o' k(4) g(1) by (auto simp: owned_page_def)
    then show ?thesis using there [OF owner_bounds [OF ok(2) j(1)]] by (auto simp: owned_page_def)
  qed
  have own: "OwnsPhysicalBacking (gKvaRanges s idx)" if "owned_page s' t i"
    using that k(4) g(1) records_okD(3) [OF ok(2) o] by (auto simp: owned_page_def)
  have pb: "PhysicalBase (kmap s' t i) = pa" if "owned_page s' t i" using ow [OF own [OF that]] by simp
  show ?thesis unfolding maps_ok_def
  proof (intro conjI allI impI)
    show "SpaceInitialized (gKernelAddressSpace s')" using d(1) g by simp
    show "pt_ok s' (kroot s')" using pt k by simp
    show "p AND KE_PT_PHYS_ADDR_MASK = p" if "frames s' p \<noteq> None" for p using d(3) [of p] fr [of p] that by (cases "frames s p") auto
    show "page_state t' i' s' = KE_KVA_PAGE_STATE_ALLOC" "MapLevel (kmap s' t' i') = 1"
      if v: "t' \<noteq> KE_KVA_ARENA_MAX" "i' < kva_pages t'" "Present (kmap s' t' i')" for t' i'
    proof -
      have "page_state t' i' s = KE_KVA_PAGE_STATE_ALLOC \<and> MapLevel (kmap s' t' i') = 1"
      proof (cases "(t', i') = (t, i)")
        case True
        then show ?thesis using lm(1) records_okD(4) [OF ok(2) o] u by simp
      next
        case False
        then show ?thesis using d(4) [OF v(1,2)] there [OF v(1,2)] v(3) by simp
      qed
      then show "page_state t' i' s' = KE_KVA_PAGE_STATE_ALLOC" "MapLevel (kmap s' t' i') = 1" using k by simp_all
    qed
    fix t' i' assume o': "owned_page s' t' i'"
    have al': "frames s (PhysicalBase (kmap s' t' i')) = Some PMM_PAGE_ALLOCATED \<and> PhysicalBase (kmap s' t' i') \<notin> pt_tables (PhysMem s) (kroot s)"
      using cases [OF o'] pb ow [OF own] o' d(5,6) by (auto simp: is_table_def)
    then show "frames s' (PhysicalBase (kmap s' t' i')) = Some PMM_PAGE_ALLOCATED" using fr by simp
    show "\<not> is_table s' (PhysicalBase (kmap s' t' i'))" using al' tb k by (auto simp: is_table_def)
    show "t'' = t'" "i'' = i'" if o'': "owned_page s' t'' i''" "PhysicalBase (kmap s' t'' i'') = PhysicalBase (kmap s' t' i')" for t'' i''
    proof -
      have ne: "PhysicalBase (kmap s' x y) \<noteq> PhysicalBase (kmap s' t i)" if "owned_page s' x y" "owned_page s' t i" "(x, y) \<noteq> (t, i)" for x y
        using cases [OF that(1)] that pb ow [OF own [OF that(2)]] by auto
      have "(t'', i'') = (t', i')"
      proof (cases "(t', i') = (t, i) \<or> (t'', i'') = (t, i)")
        case True
        then show ?thesis using ne [of t' i', OF o'] ne [of t'' i'', OF o''(1)] o' o'' by (metis Pair_inject)
      next
        case False
        then show ?thesis using cases [OF o'] cases [OF o''(1)] o''(2) d(7) [of t' i' t'' i''] by auto
      qed
      then show "t'' = t'" "i'' = i'" by simp_all
    qed
  qed
qed

lemma map_page:
  assumes inv: "kva_inv s" and o: "owner_of s t i idx" and u: "i \<in> usable_pages (gKvaRanges s idx)"
    and at: "attrs AND PTE_USER = 0" and pa: "HO_IS_ALIGNED pa PAGE_4KB"
    and ow: "OwnsPhysicalBacking (gKvaRanges s idx) \<Longrightarrow> frames s pa = Some PMM_PAGE_ALLOCATED \<and> pa \<notin> pt_tables (PhysMem s) (kroot s) \<and>
      (\<forall>t i. owned_page s t i \<longrightarrow> PhysicalBase (kmap s t i) \<noteq> pa)"
  shows "\<exists>st s'. KePtMapPage (KeGetKernelAddressSpace s) (page_va t i) pa attrs s = Done (st, s') \<and> vm_frame s s' \<and> kva_inv s' \<and>
    (if st = EC_SUCCESS
     then kmap s t i = zero_mapping \<and> kmap s' t i = leaf_mapping (page_va t i) (3, leaf_entry pa attrs) False \<and>
       (\<forall>t' i'. t' \<noteq> KE_KVA_ARENA_MAX \<longrightarrow> i' < kva_pages t' \<longrightarrow> (t', i') \<noteq> (t, i) \<longrightarrow> kmap s' t' i' = kmap s t' i') \<and>
       (\<forall>q. frames s q \<noteq> Some PMM_PAGE_FREE \<longrightarrow> frames s' q = frames s q)
     else (\<forall>t' i'. kmap s' t' i' = kmap s t' i') \<and> frames s' = frames s \<and> pt_tables (PhysMem s') (kroot s) = pt_tables (PhysMem s) (kroot s))"
proof -
  have ok: "maps_ok s" "records_ok s" using inv by (simp_all add: kva_inv_def)
  note d = maps_okD [OF ok(1)] and t = owner_bounds [OF ok(2) o]
  have al: "HO_IS_ALIGNED (page_va t i) PAGE_4KB" using t by (simp add: page_va_aligned)
  obtain st s' where m: "KePtMapPage (Some (gKernelAddressSpace s)) (page_va t i) pa attrs s = Done (st, s')" and pt: "pt_ok s' (kroot s)"
    and vf: "vm_frame s s'" and e: "if st = EC_SUCCESS then mapped (kroot s) (page_va t i) pa attrs s s' else pt_unchanged (kroot s) s s'"
    using KePtMapPage_effect [OF d(2,1) kroot_def [symmetric] al pa] by blast
  note k = vm_frame_records [OF vf] and g = vm_frame_kva [OF vf] and ks = kernel_space [OF ok(1)]
  show ?thesis
  proof (cases "st = EC_SUCCESS")
    case False
    then have un: "pt_unchanged (kroot s) s s'" using e by simp
    have km: "kmap s' t i = kmap s t i" for t i using un k by (simp add: kmap_def pt_unchanged_def)
    have "maps_ok s'"
      by (rule maps_ok_shrink [OF ok(1) vf pt]) (use un km ok(2) in \<open>auto simp: pt_unchanged_def\<close>)
    then have "kva_inv s'" using inv k g by (simp add: kva_inv_def)
    then show ?thesis using m vf un km ks False by (simp add: pt_unchanged_def)
  next
    case True
    then have mp: "mapped (kroot s) (page_va t i) pa attrs s s'" using e by simp
    have here: "kmap s' t i = leaf_mapping (page_va t i) (3, leaf_entry pa attrs) False"
      using mp k at by (simp add: mapped_def kmap_def)
    have there: "kmap s' t' i' = kmap s t' i'" if "t' \<noteq> KE_KVA_ARENA_MAX" "i' < kva_pages t'" "(t', i') \<noteq> (t, i)" for t' i'
      using mp k at page_va_same [OF t(1) that(1) t(2) that(2)] that(3) by (auto simp: mapped_def kmap_def)
    have fr: "frames s' q = frames s q" if "frames s q \<noteq> Some PMM_PAGE_FREE" for q using mp that by (simp add: mapped_def)
    have tb: "pt_tables (PhysMem s') (kroot s) \<subseteq> pt_tables (PhysMem s) (kroot s) \<union> {q. frames s q = Some PMM_PAGE_FREE}"
      using mp by (simp add: mapped_def)
    have lm: "MapLevel (kmap s' t i) = 1" "Present (kmap s' t i)" "PhysicalBase (kmap s' t i) = pa AND KE_PT_PHYS_ADDR_MASK"
      unfolding here by (simp_all add: leaf_mapping_def Let_def leaf_entry_flags)
    have zero: "kmap s t i = zero_mapping" using mp by (simp add: mapped_def kmap_def)
    have "maps_ok s'" by (rule maps_ok_grow [OF inv vf pt o u _ _ _ there fr tb]) (use lm ow d(3) [of pa] in auto)
    then have "kva_inv s'" using inv k g by (simp add: kva_inv_def)
    then show ?thesis using m vf True zero here there fr ks by simp
  qed
qed

lemma KeKvaReleaseRangeHandle_effect:
  assumes "kva_inv s"
  shows "KiKvaFindRecordById rng s = Some idx \<Longrightarrow> \<exists>s'. KeKvaReleaseRangeHandle rng s = Done (EC_SUCCESS, s') \<and> range_released idx s s'"
    and "KiKvaFindRecordById rng s = None \<Longrightarrow> KeKvaReleaseRangeHandle rng s = Done (EC_INVALID_STATE, s)"
proof -
  assume f: "KiKvaFindRecordById rng s = Some idx"
  note l = find_by_id_Some(1) [OF f]
  have "RecArena (gKvaRanges s idx) \<noteq> KE_KVA_ARENA_MAX" using records_okD(2) [of s, OF _ l] assms by (simp add: kva_inv_def record_ok_def)
  then show "\<exists>s'. KeKvaReleaseRangeHandle rng s = Done (EC_SUCCESS, s') \<and> range_released idx s s'"
    using KiKvaReleaseRecord_effect [OF assms l] f assms by (simp add: KeKvaReleaseRangeHandle_def kva_inv_def KiKvaArenaState_def)
next
  assume "KiKvaFindRecordById rng s = None"
  then show "KeKvaReleaseRangeHandle rng s = Done (EC_INVALID_STATE, s)" using assms by (simp add: KeKvaReleaseRangeHandle_def kva_inv_def)
qed

lemma handle_range:
  assumes "kva_inv s" "KiKvaFindRecordById rng s = Some idx"
  shows "record_ok idx (gKvaRanges s idx)" "live s idx" "RangeUsableBase rng = page_va (RecArena (gKvaRanges s idx)) (rec_first (gKvaRanges s idx))"
    "k < unat (RecUsablePages (gKvaRanges s idx)) \<Longrightarrow> owner_of s (RecArena (gKvaRanges s idx)) (rec_first (gKvaRanges s idx) + k) idx"
    "k < unat (RecUsablePages (gKvaRanges s idx)) \<Longrightarrow> rec_first (gKvaRanges s idx) + k \<in> usable_pages (gKvaRanges s idx)"
proof -
  have ok: "records_ok s" using assms(1) by (simp add: kva_inv_def)
  show l: "live s idx" by (rule find_by_id_Some(1) [OF assms(2)])
  show r: "record_ok idx (gKvaRanges s idx)" by (rule records_okD(2) [OF ok l])
  show "RangeUsableBase rng = page_va (RecArena (gKvaRanges s idx)) (rec_first (gKvaRanges s idx))"
    using find_by_id_fill [OF ok assms(2)] fill_total [OF records_okD(1) [OF ok] r] by auto
  show u: "rec_first (gKvaRanges s idx) + k \<in> usable_pages (gKvaRanges s idx)" if "k < unat (RecUsablePages (gKvaRanges s idx))"
    using that by (simp add: usable_pages_def)
  show "owner_of s (RecArena (gKvaRanges s idx)) (rec_first (gKvaRanges s idx) + k) idx" if "k < unat (RecUsablePages (gKvaRanges s idx))"
    using u [OF that] usable_sub [OF r] l by (auto simp: owner_of_def)
qed

text \<open>The outcome of mapping the pages of a range: all of them, or the range is gone.\<close>

definition owned_mapped :: "nat \<Rightarrow> nat \<Rightarrow> ho_status \<Rightarrow> u64 \<Rightarrow> 'a kva_globals_scheme \<Rightarrow> 'a kva_globals_scheme \<Rightarrow> bool" where
  "owned_mapped idx k st attrs s s' \<longleftrightarrow>
    (let r = gKvaRanges s idx; t = RecArena r in
     kva_inv s' \<and> gKvaRangeGenerationCounter s' = gKvaRangeGenerationCounter s \<and> gFixmapSlotGenerations s' = gFixmapSlotGenerations s \<and>
     (\<forall>q. frames s q \<noteq> Some PMM_PAGE_FREE \<longrightarrow> q \<notin> backing s t (rec_pages r) \<longrightarrow> frames s' q = frames s q) \<and>
     (\<forall>t' i. t' \<noteq> KE_KVA_ARENA_MAX \<longrightarrow> i < kva_pages t' \<longrightarrow> \<not> (t' = t \<and> i \<in> rec_pages r) \<longrightarrow>
        kmap s' t' i = kmap s t' i \<and> page_state t' i s' = page_state t' i s) \<and>
     (if st = EC_SUCCESS
      then gKvaRanges s' = gKvaRanges s \<and> gKvaArenas s' = gKvaArenas s \<and>
        (\<forall>i. rec_first r + k \<le> i \<longrightarrow> i < rec_first r + unat (RecUsablePages r) \<longrightarrow>
           (\<exists>pa. frames s pa = Some PMM_PAGE_FREE \<and> kmap s' t i = leaf_mapping (page_va t i) (3, leaf_entry pa attrs) False)) \<and>
        (\<forall>i \<in> rec_pages r. i < rec_first r + k \<longrightarrow> kmap s' t i = kmap s t i)
      else gKvaRanges s' = (gKvaRanges s)(idx := free_record idx) \<and> (\<forall>i \<in> rec_pages r. kmap s' t i = zero_mapping)))"

lemma released_mapped:
  assumes "kva_inv s" "live s idx" "range_released idx s s'" "st \<noteq> EC_SUCCESS"
  shows "owned_mapped idx k st attrs s s'"
proof -
  have "i < kva_pages (RecArena (gKvaRanges s idx))" "RecArena (gKvaRanges s idx) \<noteq> KE_KVA_ARENA_MAX" if "i \<in> rec_pages (gKvaRanges s idx)" for i
    using owner_bounds [of s "RecArena (gKvaRanges s idx)" i idx] assms(1,2) that by (simp_all add: owner_of_def kva_inv_def)
  then show ?thesis using assms(3,4) unfolding owned_mapped_def range_released_def Let_def by auto
qed

lemma owned_mapped_pre:
  assumes "owned_mapped idx k st attrs s2 s'" "vm_frame s s2" "frames s2 = frames s" "\<And>t i. kmap s2 t i = kmap s t i"
  shows "owned_mapped idx k st attrs s s'"
proof -
  have "backing s2 t js = backing s t js" for t js using assms(4) by (simp add: backing_def)
  then show ?thesis
    using assms(1) unfolding owned_mapped_def Let_def vm_frame_kva [OF assms(2)] vm_frame_records [OF assms(2)] assms(3,4) by simp
qed

lemma owned_mapped_step:
  assumes m: "owned_mapped idx (Suc k) st attrs s2 s'" and vf: "vm_frame s s2" and inv: "kva_inv s" "live s idx"
    and k: "k < unat (RecUsablePages (gKvaRanges s idx))"
    and pa: "frames s pa = Some PMM_PAGE_FREE" "PhysicalBase (kmap s2 t (rec_first r + k)) = pa"
    and here: "kmap s2 t (rec_first r + k) = leaf_mapping (page_va t (rec_first r + k)) (3, leaf_entry pa attrs) False"
    and there: "\<And>t' i'. t' \<noteq> KE_KVA_ARENA_MAX \<Longrightarrow> i' < kva_pages t' \<Longrightarrow> (t', i') \<noteq> (t, rec_first r + k) \<Longrightarrow> kmap s2 t' i' = kmap s t' i'"
    and fr: "\<And>q. frames s q \<noteq> Some PMM_PAGE_FREE \<Longrightarrow> frames s2 q = frames s q"
    and r_def: "r = gKvaRanges s idx" and t_def: "t = RecArena r"
  shows "owned_mapped idx k st attrs s s'"
proof -
  note g = vm_frame_kva [OF vf] and rc = vm_frame_records [OF vf]
  have ok: "records_ok s" using inv(1) by (simp add: kva_inv_def)
  have rok: "record_ok idx r" using records_okD(2) [OF ok inv(2)] by (simp add: r_def)
  have i0: "rec_first r + k \<in> rec_pages r" using usable_sub [OF rok] k by (auto simp: usable_pages_def r_def)
  have bnd: "i < kva_pages t" "t \<noteq> KE_KVA_ARENA_MAX" if "i \<in> rec_pages r" for i
    using owner_bounds [OF ok, of t i idx] inv(2) that by (simp_all add: owner_of_def r_def t_def)
  note M = m [unfolded owned_mapped_def Let_def g(1), folded r_def t_def]
  have bk: "backing s2 t (rec_pages r) \<subseteq> insert pa (backing s t (rec_pages r))"
  proof
    fix q assume "q \<in> backing s2 t (rec_pages r)"
    then obtain j where j: "q = PhysicalBase (kmap s2 t j)" "j \<in> rec_pages r" "Present (kmap s2 t j)" by (auto simp: backing_def)
    show "q \<in> insert pa (backing s t (rec_pages r))"
    proof (cases "j = rec_first r + k")
      case True
      then show ?thesis using j pa(2) by simp
    next
      case False
      then have "kmap s2 t j = kmap s t j" using there bnd [OF j(2)] by simp
      then show ?thesis using j by (auto simp: backing_def)
    qed
  qed
  have new: "\<exists>pa. frames s pa = Some PMM_PAGE_FREE \<and> kmap s' t i = leaf_mapping (page_va t i) (3, leaf_entry pa attrs) False"
    if i: "rec_first r + k \<le> i" "i < rec_first r + unat (RecUsablePages r)" and st: "st = EC_SUCCESS" for i
  proof (cases "i = rec_first r + k")
    case True
    then have "kmap s' t i = kmap s2 t i" using M i0 st by simp
    then show ?thesis using here pa(1) True by (intro exI [of _ pa]) simp
  next
    case False
    then have "rec_first r + Suc k \<le> i" using i(1) by simp
    then obtain pa' where p: "frames s2 pa' = Some PMM_PAGE_FREE" "kmap s' t i = leaf_mapping (page_va t i) (3, leaf_entry pa' attrs) False"
      using M i(2) st by auto
    moreover have "frames s pa' = Some PMM_PAGE_FREE" using fr [of pa'] p(1) by auto
    ultimately show ?thesis by blast
  qed
  show ?thesis unfolding owned_mapped_def Let_def r_def [symmetric] t_def [symmetric]
  proof (intro conjI allI impI)
    show "kva_inv s'" "gKvaRangeGenerationCounter s' = gKvaRangeGenerationCounter s" "gFixmapSlotGenerations s' = gFixmapSlotGenerations s"
      using M g by simp_all
    show "frames s' q = frames s q" if q: "frames s q \<noteq> Some PMM_PAGE_FREE" "q \<notin> backing s t (rec_pages r)" for q
    proof -
      have "q \<notin> backing s2 t (rec_pages r)" using bk q pa(1) by auto
      then show ?thesis using M fr [OF q(1)] q(1) by simp
    qed
    show "kmap s' t' i = kmap s t' i" "page_state t' i s' = page_state t' i s"
      if v: "t' \<noteq> KE_KVA_ARENA_MAX" "i < kva_pages t'" "\<not> (t' = t \<and> i \<in> rec_pages r)" for t' i
      using M v there [OF v(1,2)] i0 rc(2) by auto
    show "if st = EC_SUCCESS then gKvaRanges s' = gKvaRanges s \<and> gKvaArenas s' = gKvaArenas s \<and>
        (\<forall>i. rec_first r + k \<le> i \<longrightarrow> i < rec_first r + unat (RecUsablePages r) \<longrightarrow>
           (\<exists>pa. frames s pa = Some PMM_PAGE_FREE \<and> kmap s' t i = leaf_mapping (page_va t i) (3, leaf_entry pa attrs) False)) \<and>
        (\<forall>i \<in> rec_pages r. i < rec_first r + k \<longrightarrow> kmap s' t i = kmap s t i)
      else gKvaRanges s' = (gKvaRanges s)(idx := free_record idx) \<and> (\<forall>i \<in> rec_pages r. kmap s' t i = zero_mapping)"
    proof (cases "st = EC_SUCCESS")
      case True
      have "kmap s' t i = kmap s t i" if "i \<in> rec_pages r" "i < rec_first r + k" for i
        using M True that there [OF bnd(2,1)] by simp
      then show ?thesis using M True new g by simp
    qed (use M g in simp)
  qed
qed

lemma release_after_effect:
  assumes "kva_inv s" "KiKvaFindRecordById rng s = Some idx" "st \<noteq> EC_SUCCESS"
  shows "\<exists>s'. release_after rng st s = Done (st, s') \<and> owned_mapped idx k st attrs s s'"
proof -
  obtain s' where s': "KeKvaReleaseRangeHandle rng s = Done (EC_SUCCESS, s')" "range_released idx s s'"
    using KeKvaReleaseRangeHandle_effect(1) [OF assms(1,2)] by blast
  then show ?thesis using released_mapped [OF assms(1) find_by_id_Some(1) [OF assms(2)] s'(2) assms(3)] by (simp add: release_after_def)
qed

lemma map_owned_pages_effect:
  assumes "kva_inv s" "KiKvaFindRecordById rng s = Some idx" "OwnsPhysicalBacking (gKvaRanges s idx)"
    "k + n = unat (RecUsablePages (gKvaRanges s idx))" "attrs AND PTE_USER = 0"
  shows "\<exists>st s'. map_owned_pages rng attrs (word_of_nat k) n s = Done (st, s') \<and> owned_mapped idx k st attrs s s'"
  using assms
proof (induction n arbitrary: k s)
  case 0
  then show ?case by (simp add: owned_mapped_def Let_def)
next
  case (Suc n)
  define r where "r = gKvaRanges s idx"
  define t where "t = RecArena r"
  note h = handle_range [OF Suc.prems(1,2), folded r_def t_def]
  have k: "k < unat (RecUsablePages r)" using Suc.prems(4) by (simp add: r_def)
  have u32: "unat (RecUsablePages r) \<le> 16384" using h(1) kva_pages_le [of "RecArena r"] by (simp add: record_ok_def)
  have rdy: "pmm_ready s" using Suc.prems(1) by (simp add: kva_inv_def maps_ok_def pt_ok_def)
  obtain a s1 where a: "KePmmAllocPages s 1 None = Done (a, s1)" using KePmmAllocPages_ready [OF rdy] prod.exhaust by metis
  show ?case
  proof (cases a)
    case (Inl e)
    have "e \<noteq> EC_SUCCESS" "s1 = s" using a Inl KePmmAllocPages_status [OF rdy] KePmmAllocPages_error [OF rdy] by blast+
    then show ?thesis using release_after_effect [OF Suc.prems(1,2), of e k attrs] a Inl by auto
  next
    case (Inr pa)
    note al = alloc_frame [OF Suc.prems(1) a [unfolded Inr]]
    note r1 = vm_frame_records [OF al(2)] and g1 = vm_frame_kva [OF al(2)]
    have o1: "owner_of s1 t (rec_first r + k) idx" "rec_first r + k \<in> usable_pages (gKvaRanges s1 idx)" using h(4,5) [OF k] r1 g1 by (simp_all add: r_def)
    obtain st s2 where m: "KePtMapPage (KeGetKernelAddressSpace s1) (page_va t (rec_first r + k)) pa attrs s1 = Done (st, s2)"
      and v2: "vm_frame s1 s2" and i2: "kva_inv s2"
      and e: "if st = EC_SUCCESS then kmap s1 t (rec_first r + k) = zero_mapping \<and> kmap s2 t (rec_first r + k) = leaf_mapping (page_va t (rec_first r + k)) (3, leaf_entry pa attrs) False \<and>
         (\<forall>t' i'. t' \<noteq> KE_KVA_ARENA_MAX \<longrightarrow> i' < kva_pages t' \<longrightarrow> (t', i') \<noteq> (t, rec_first r + k) \<longrightarrow> kmap s2 t' i' = kmap s1 t' i') \<and>
         (\<forall>q. frames s1 q \<noteq> Some PMM_PAGE_FREE \<longrightarrow> frames s2 q = frames s1 q)
       else (\<forall>t' i'. kmap s2 t' i' = kmap s1 t' i') \<and> frames s2 = frames s1 \<and> pt_tables (PhysMem s2) (kroot s1) = pt_tables (PhysMem s1) (kroot s1)"
      using map_page [OF al(1) o1 Suc.prems(5) al(6)] al(5,7,8) by auto
    note r2 = vm_frame_records [OF v2] and g2 = vm_frame_kva [OF v2]
    have vf: "vm_frame s s2" using al(2) v2 by (rule vm_frame_trans)
    have f1: "KiKvaFindRecordById rng s1 = Some idx" "KiKvaFindRecordById rng s2 = Some idx" using Suc.prems(2) r1 r2 by simp_all
    have va: "RangeUsableBase rng + word_of_nat k * PAGE_4KB = page_va t (rec_first r + k)"
      unfolding h(3) by (simp add: page_va_def algebra_simps)
    have "\<not> word_of_nat k \<ge> RecUsablePages (gKvaRanges s1 idx)"
      using k u32 g1 by (simp add: not_le word_less_nat_alt r_def)
    then have mp: "KeKvaMapPage rng (word_of_nat k) pa attrs s1 = Done (st, s2)"
      using f1(1) m va al(1) by (simp add: KeKvaMapPage_def kva_inv_def)
    show ?thesis
    proof (cases "st = EC_SUCCESS")
      case True
      have e1: "kmap s2 t (rec_first r + k) = leaf_mapping (page_va t (rec_first r + k)) (3, leaf_entry pa attrs) False"
        "\<And>t' i'. t' \<noteq> KE_KVA_ARENA_MAX \<Longrightarrow> i' < kva_pages t' \<Longrightarrow> (t', i') \<noteq> (t, rec_first r + k) \<Longrightarrow> kmap s2 t' i' = kmap s t' i'"
        "\<And>q. frames s q \<noteq> Some PMM_PAGE_FREE \<Longrightarrow> frames s2 q = frames s q"
        using e True al(4,5,9) by auto
      have "pa AND KE_PT_PHYS_ADDR_MASK = pa" using Suc.prems(1) al(4) maps_okD(3) [of s pa] by (simp add: kva_inv_def)
      then have pb: "PhysicalBase (kmap s2 t (rec_first r + k)) = pa" unfolding e1(1) by (simp add: leaf_mapping_def Let_def leaf_entry_flags)
      obtain st' s' where n: "map_owned_pages rng attrs (word_of_nat (Suc k)) n s2 = Done (st', s')" "owned_mapped idx (Suc k) st' attrs s2 s'"
        using Suc.IH [OF i2 f1(2), of "Suc k"] Suc.prems(3-5) g1 g2 by auto
      have "owned_mapped idx k st' attrs s s'"
        by (rule owned_mapped_step [OF n(2) vf Suc.prems(1) h(2) k [unfolded r_def] al(4) pb e1 r_def t_def])
      then show ?thesis using a Inr mp True n(1) by (simp add: add.commute)
    next
      case False
      then have e1: "\<And>t' i'. kmap s2 t' i' = kmap s1 t' i'" "frames s2 = frames s1" "pt_tables (PhysMem s2) (kroot s1) = pt_tables (PhysMem s1) (kroot s1)"
        using e by auto
      have op: "owned_page s2 t' i' = owned_page s1 t' i'" for t' i' using e1 r2 g2 by (simp add: owned_page_def)
      obtain s3 where f: "KePmmFreePages s2 pa 1 = (EC_SUCCESS, s3)" "vm_frame s2 s3" "kva_inv s3"
        "frames s3 = (frames s2)(pa := Some PMM_PAGE_FREE)" "PhysMem s3 = PhysMem s2"
        using free_frame [OF i2, of pa] e1 al(5,7,8) r2 op by auto
      note r3 = vm_frame_records [OF f(2)]
      have v3: "vm_frame s s3" using vf f(2) by (rule vm_frame_trans)
      have k3: "kmap s3 t' i' = kmap s t' i'" for t' i' using f(5) r3(1) e1(1) al(9) by (simp add: kmap_def)
      have f3: "frames s3 = frames s" using f(4) e1(2) al(4,5) by (auto simp: fun_eq_iff)
      have "KiKvaFindRecordById rng s3 = Some idx" using f1 r3 by simp
      then obtain s' where "release_after rng st s3 = Done (st, s')" "owned_mapped idx k st attrs s3 s'"
        using release_after_effect [OF f(3) _ False] by blast
      then show ?thesis using owned_mapped_pre [OF _ v3 f3 k3] a Inr mp False f(1) by auto
    qed
  qed
qed

lemma KeKvaMapOwnedPages_effect:
  assumes "kva_inv s" "KiKvaFindRecordById rng s = Some idx" "OwnsPhysicalBacking (gKvaRanges s idx)" "attrs AND PTE_USER = 0"
  shows "\<exists>st s'. KeKvaMapOwnedPages rng attrs s = Done (st, s') \<and> owned_mapped idx 0 st attrs s s'"
  using map_owned_pages_effect [OF assms(1-3), of 0 "unat (RecUsablePages (gKvaRanges s idx))" attrs] assms
  by (simp add: KeKvaMapOwnedPages_def kva_inv_def)

end
