(* ===== verification/KvaHeap.thy ===== *)
theory KvaHeap
  imports KvaMap
begin

text \<open>
  Failed allocations, and the heap pages: a successful \<open>KeHeapAllocPages\<close> followed by
  \<open>KeHeapFreePages\<close> restores every mapping.
\<close>

section \<open>Allocation failures\<close>

lemma KeKvaAllocRange_error:
  assumes ok: "records_ok s" and a: "KeKvaAllocRange t u gl gu owns s = (Inl e, s')"
  shows "s' = s" "e \<noteq> EC_SUCCESS"
proof -
  note l = records_okD(1) [OF ok]
  have g: "gKvaRangeGenerationCounter s = 0 \<Longrightarrow> KiKvaNextRangeGeneration s = (0, s)" by (simp add: KiKvaNextRangeGeneration_def)
  have f: "KiKvaFillRangeFromRecord r s2 \<noteq> Inl e" if "RecArena r \<noteq> KE_KVA_ARENA_MAX" for r and s2 :: "'a kva_globals_scheme"
    using that by (simp add: KiKvaFillRangeFromRecord_def KiKvaArenaState_def)
  have "s' = s \<and> e \<noteq> EC_SUCCESS"
  proof (cases "gKvaRangeGenerationCounter s = 0")
    case True
    then show ?thesis using a g by (auto simp: KeKvaAllocRange_def Let_def split: if_splits option.splits)
  next
    case False
    show ?thesis using a next_range_generation [OF False] f False
      by (auto simp: KeKvaAllocRange_def Let_def KiKvaArenaState_def split: if_splits option.splits)
  qed
  then show "s' = s" "e \<noteq> EC_SUCCESS" by auto
qed

section \<open>Heap pages\<close>

lemma find_by_usable_base:
  assumes inv: "kva_inv s" and lv: "live s idx"
  shows "KiKvaFindRecordByUsableBase (page_va (RecArena (gKvaRanges s idx)) (rec_first (gKvaRanges s idx))) s = Some idx"
proof -
  have ok: "records_ok s" using inv by (simp add: kva_inv_def)
  define P where "P = (\<lambda>j. let r = gKvaRanges s j in InUse r \<and> (case KiKvaArenaState (RecArena r) s of
        None \<Rightarrow> False | Some arena \<Rightarrow> KiKvaRecordUsableBase arena r = page_va (RecArena (gKvaRanges s idx)) (rec_first (gKvaRanges s idx))))"
  have first: "owner_of s (RecArena (gKvaRanges s j)) (rec_first (gKvaRanges s j)) j" if "live s j" for j
    using records_okD(2) [OF ok that] that usable_sub [of j "gKvaRanges s j"]
    by (auto simp: owner_of_def usable_pages_def record_ok_def)
  have Pj: "P j \<longleftrightarrow> j = idx" if "j < KE_KVA_MAX_RANGES" for j
  proof (cases "InUse (gKvaRanges s j)")
    case True
    then have l: "live s j" using that by (simp add: live_def)
    note r = records_okD(2) [OF ok l] and fj = first [OF l] and fi = first [OF lv]
    have t: "RecArena (gKvaRanges s j) \<noteq> KE_KVA_ARENA_MAX" using r by (simp add: record_ok_def)
    have "P j \<longleftrightarrow> page_va (RecArena (gKvaRanges s j)) (rec_first (gKvaRanges s j)) = page_va (RecArena (gKvaRanges s idx)) (rec_first (gKvaRanges s idx))"
      using True usable_base_va(1) [OF records_okD(1) [OF ok] r] t by (simp add: P_def Let_def KiKvaArenaState_def)
    also have "\<dots> \<longleftrightarrow> RecArena (gKvaRanges s j) = RecArena (gKvaRanges s idx) \<and> rec_first (gKvaRanges s j) = rec_first (gKvaRanges s idx)"
      using page_va_inj owner_bounds [OF ok fj] owner_bounds [OF ok fi] by simp
    also have "\<dots> \<longleftrightarrow> j = idx" using records_okD(3) [OF ok] fj fi by metis
    finally show ?thesis .
  next
    case False
    then show ?thesis using lv by (auto simp: P_def Let_def live_def)
  qed
  have "find P [0..<KE_KVA_MAX_RANGES] = Some idx"
    unfolding find_upt_Some using lv Pj by (auto simp: live_def)
  then show ?thesis by (simp add: KiKvaFindRecordByUsableBase_def P_def)
qed

lemma KeKvaReleaseRange_effect:
  assumes inv: "kva_inv s" and lv: "live s idx"
  defines "base \<equiv> page_va (RecArena (gKvaRanges s idx)) (rec_first (gKvaRanges s idx))"
  shows "\<exists>s'. KeKvaReleaseRange base s = Done (EC_SUCCESS, s') \<and> range_released idx s s'"
proof -
  have ok: "records_ok s" using inv by (simp add: kva_inv_def)
  note r = records_okD(2) [OF ok lv]
  have "HO_IS_ALIGNED base PAGE_4KB" unfolding base_def using r by (intro page_va_aligned) (auto simp: record_ok_def rec_first_def)
  then show ?thesis
    using KiKvaReleaseRecord_effect [OF inv lv] find_by_usable_base [OF inv lv, folded base_def] inv r
    by (simp add: KeKvaReleaseRange_def kva_inv_def KiKvaArenaState_def record_ok_def)
qed

lemma leaf_mapping_present: "Present (leaf_mapping va l u)"
  by (simp add: leaf_mapping_def Let_def split: prod.split)

lemma default_attrs: "KE_KVA_DEFAULT_PAGE_ATTRS AND PTE_USER = 0"
  by (simp add: KE_KVA_DEFAULT_PAGE_ATTRS_def PTE_WRITABLE_def PTE_GLOBAL_def PTE_NO_EXECUTE_def PTE_USER_def)

text \<open>The outcome of a heap page allocation.\<close>

definition heap_pages :: "u64 \<Rightarrow> nat \<Rightarrow> nat \<Rightarrow> 'a kva_globals_scheme \<Rightarrow> 'a kva_globals_scheme \<Rightarrow> bool" where
  "heap_pages n idx b s s' \<longleftrightarrow>
    live s' idx \<and> \<not> live s idx \<and> (\<forall>j. j \<noteq> idx \<longrightarrow> gKvaRanges s' j = gKvaRanges s j) \<and>
    RecArena (gKvaRanges s' idx) = KE_KVA_ARENA_HEAP \<and> OwnsPhysicalBacking (gKvaRanges s' idx) \<and> RecUsablePages (gKvaRanges s' idx) = n \<and>
    rec_first (gKvaRanges s' idx) = b \<and> rec_pages (gKvaRanges s' idx) = {b..<b + unat n} \<and> b + unat n \<le> kva_pages KE_KVA_ARENA_HEAP \<and>
    (\<forall>i. b \<le> i \<longrightarrow> i < b + unat n \<longrightarrow> page_state KE_KVA_ARENA_HEAP i s = KE_KVA_PAGE_STATE_FREE \<and> kmap s KE_KVA_ARENA_HEAP i = zero_mapping \<and>
       (\<exists>pa. frames s pa = Some PMM_PAGE_FREE \<and> frames s' pa = Some PMM_PAGE_ALLOCATED \<and>
          kmap s' KE_KVA_ARENA_HEAP i = leaf_mapping (page_va KE_KVA_ARENA_HEAP i) (3, leaf_entry pa KE_KVA_DEFAULT_PAGE_ATTRS) False \<and>
          PhysicalBase (kmap s' KE_KVA_ARENA_HEAP i) = pa)) \<and>
    (\<forall>t i. t \<noteq> KE_KVA_ARENA_MAX \<longrightarrow> i < kva_pages t \<longrightarrow> \<not> (t = KE_KVA_ARENA_HEAP \<and> b \<le> i \<and> i < b + unat n) \<longrightarrow> kmap s' t i = kmap s t i)"

lemma KeHeapAllocPages_effect:
  assumes inv: "kva_inv s"
  shows "\<exists>r s'. KeHeapAllocPages n s = Done (r, s') \<and> kva_inv s' \<and>
    (\<forall>q. frames s q \<noteq> Some PMM_PAGE_FREE \<longrightarrow> frames s' q = frames s q) \<and>
    (case r of
       Inl e \<Rightarrow> e \<noteq> EC_SUCCESS \<and> (\<forall>idx. live s' idx = live s idx) \<and> (\<forall>idx. live s idx \<longrightarrow> gKvaRanges s' idx = gKvaRanges s idx) \<and>
         (\<forall>t i. t \<noteq> KE_KVA_ARENA_MAX \<longrightarrow> i < kva_pages t \<longrightarrow> kmap s' t i = kmap s t i)
     | Inr base \<Rightarrow> \<exists>idx b. base = page_va KE_KVA_ARENA_HEAP b \<and> heap_pages n idx b s s')"
proof (cases "n = 0")
  case True
  then show ?thesis using inv by (simp add: KeHeapAllocPages_def kva_inv_def)
next
  case False
  have ok: "records_ok s" and mo: "maps_ok s" and ini: "gKvaInitialized s" using inv by (simp_all add: kva_inv_def)
  obtain a s1 where a: "KeKvaAllocRange KE_KVA_ARENA_HEAP n 0 0 True s = (a, s1)" by fastforce
  show ?thesis
  proof (cases a)
    case (Inl e)
    then show ?thesis using KeKvaAllocRange_error [OF ok a [unfolded Inl]] a inv ini False by (simp add: KeHeapAllocPages_def)
  next
    case (Inr rng)
    obtain idx where i1: "kva_inv s1" and nl: "\<not> live s idx" "live s1 idx" and same: "\<And>j. j \<noteq> idx \<Longrightarrow> gKvaRanges s1 j = gKvaRanges s j"
      and f: "KiKvaFindRecordById rng s1 = Some idx" and r0: "RecArena (gKvaRanges s1 idx) = KE_KVA_ARENA_HEAP" "RecUsablePages (gKvaRanges s1 idx) = n"
        "RecGuardLowerPages (gKvaRanges s1 idx) = 0" "RecGuardUpperPages (gKvaRanges s1 idx) = 0" "OwnsPhysicalBacking (gKvaRanges s1 idx)"
      and fre: "\<And>i. i \<in> rec_pages (gKvaRanges s1 idx) \<Longrightarrow> page_state KE_KVA_ARENA_HEAP i s = KE_KVA_PAGE_STATE_FREE"
      and km: "\<And>t' i. kmap s1 t' i = kmap s t' i" and fr: "frames s1 = frames s"
      using KeKvaAllocRange_inv [OF inv a [unfolded Inr]] by metis
    define r where "r = gKvaRanges s1 idx"
    define b where "b = rec_first r"
    note h = handle_range [OF i1 f, folded r_def]
    have rp: "rec_pages r = {b..<b + unat n}" "b + unat n \<le> kva_pages KE_KVA_ARENA_HEAP" "usable_pages r = {b..<b + unat n}"
      using h(1) r0 by (simp_all add: r_def [symmetric] b_def record_ok_def rec_pages_def rec_first_def usable_pages_def)
    have z: "kmap s KE_KVA_ARENA_HEAP i = zero_mapping" if "i \<in> rec_pages r" for i
      using maps_okD(4) [OF mo, of KE_KVA_ARENA_HEAP i] fre that rp by (auto simp: r_def kmap_def absent_mapping [symmetric])
    have bk: "backing s1 KE_KVA_ARENA_HEAP (rec_pages r) = {}" using z km by (auto simp: backing_def zero_mapping_def)
    obtain st s2 where m: "KeKvaMapOwnedPages rng KE_KVA_DEFAULT_PAGE_ATTRS s1 = Done (st, s2)" "owned_mapped idx 0 st KE_KVA_DEFAULT_PAGE_ATTRS s1 s2"
      using KeKvaMapOwnedPages_effect [OF i1 f r0(5) default_attrs] by blast
    note M = m(2) [unfolded owned_mapped_def Let_def, folded r_def, unfolded r0(1,2) [folded r_def] bk]
    have keep: "frames s2 q = frames s q" if "frames s q \<noteq> Some PMM_PAGE_FREE" for q using M that fr by simp
    have res: "KeHeapAllocPages n s = Done (if st \<noteq> EC_SUCCESS then Inl st else Inr (page_va KE_KVA_ARENA_HEAP b), s2)"
      using a Inr m(1) ini False h(3) r0(1) by (simp add: KeHeapAllocPages_def b_def r_def)
    have out: "kmap s2 t i = kmap s t i" if "t \<noteq> KE_KVA_ARENA_MAX" "i < kva_pages t" "\<not> (t = KE_KVA_ARENA_HEAP \<and> b \<le> i \<and> i < b + unat n)" for t i
      using M that km by (simp add: rp(1))
    show ?thesis
    proof (cases "st = EC_SUCCESS")
      case False
      have rs: "gKvaRanges s2 = (gKvaRanges s1)(idx := free_record idx)" using M False by simp
      have "live s2 j = live s j" "live s j \<Longrightarrow> gKvaRanges s2 j = gKvaRanges s j" for j
        using rs same nl by (auto simp: live_def free_record_def)
      moreover have "kmap s2 t i = kmap s t i" if "t \<noteq> KE_KVA_ARENA_MAX" "i < kva_pages t" for t i
        using out [OF that] M False z rp(1) by (cases "t = KE_KVA_ARENA_HEAP \<and> b \<le> i \<and> i < b + unat n") auto
      ultimately show ?thesis using res False M keep by simp
    next
      case True
      have rs: "gKvaRanges s2 = gKvaRanges s1" and ki: "kva_inv s2" using M True by simp_all
      have pages: "\<exists>pa. frames s pa = Some PMM_PAGE_FREE \<and> frames s2 pa = Some PMM_PAGE_ALLOCATED \<and>
          kmap s2 KE_KVA_ARENA_HEAP i = leaf_mapping (page_va KE_KVA_ARENA_HEAP i) (3, leaf_entry pa KE_KVA_DEFAULT_PAGE_ATTRS) False \<and>
          PhysicalBase (kmap s2 KE_KVA_ARENA_HEAP i) = pa" if i: "b \<le> i" "i < b + unat n" for i
      proof -
        obtain pa where p: "frames s pa = Some PMM_PAGE_FREE"
          "kmap s2 KE_KVA_ARENA_HEAP i = leaf_mapping (page_va KE_KVA_ARENA_HEAP i) (3, leaf_entry pa KE_KVA_DEFAULT_PAGE_ATTRS) False"
          using M True i fr b_def by auto
        have "pa AND KE_PT_PHYS_ADDR_MASK = pa" using maps_okD(3) [OF mo, of pa] p(1) by simp
        then have pb: "PhysicalBase (kmap s2 KE_KVA_ARENA_HEAP i) = pa" "Present (kmap s2 KE_KVA_ARENA_HEAP i)"
          unfolding p(2) by (simp_all add: leaf_mapping_def Let_def leaf_entry_flags)
        have "owner_of s2 KE_KVA_ARENA_HEAP i idx" using nl(2) i r0(1) rp(1) by (simp add: owner_of_def live_def rs r_def)
        then have "owned_page s2 KE_KVA_ARENA_HEAP i" using pb(2) r0(5) rs by (auto simp: owned_page_def)
        then have "frames s2 pa = Some PMM_PAGE_ALLOCATED" using maps_okD(5) [of s2 KE_KVA_ARENA_HEAP i] ki pb(1) by (simp add: kva_inv_def)
        then show ?thesis using p pb(1) by blast
      qed
      have "heap_pages n idx b s s2" unfolding heap_pages_def rs using nl same r0 rp b_def pages fre z out
        by (auto simp: r_def [symmetric] live_def rs)
      then show ?thesis using res True ki keep by auto
    qed
  qed
qed

lemma heap_pages_release:
  assumes inv: "kva_inv s1" and hp: "heap_pages n idx b s s1"
  shows "\<exists>s2. KeHeapFreePages (page_va KE_KVA_ARENA_HEAP b) s1 = Done (EC_SUCCESS, s2) \<and> kva_inv s2 \<and>
    (\<forall>j. live s2 j = live s j) \<and> (\<forall>j. live s j \<longrightarrow> gKvaRanges s2 j = gKvaRanges s j) \<and>
    (\<forall>t i. t \<noteq> KE_KVA_ARENA_MAX \<longrightarrow> i < kva_pages t \<longrightarrow> kmap s2 t i = kmap s t i) \<and>
    (\<forall>q. frames s2 q = (if \<exists>i. b \<le> i \<and> i < b + unat n \<and> q = PhysicalBase (kmap s1 KE_KVA_ARENA_HEAP i) then Some PMM_PAGE_FREE else frames s1 q))"
proof -
  note H = hp [unfolded heap_pages_def]
  have lv: "live s1 idx" and ar: "RecArena (gKvaRanges s1 idx) = KE_KVA_ARENA_HEAP" "rec_first (gKvaRanges s1 idx) = b"
    "rec_pages (gKvaRanges s1 idx) = {b..<b + unat n}" "OwnsPhysicalBacking (gKvaRanges s1 idx)" using H by blast+
  obtain s2 where s2: "KeKvaReleaseRange (page_va KE_KVA_ARENA_HEAP b) s1 = Done (EC_SUCCESS, s2)" "range_released idx s1 s2"
    using KeKvaReleaseRange_effect [OF inv lv] ar by auto
  note R = s2(2) [unfolded range_released_def Let_def ar]
  have rs: "gKvaRanges s2 = (gKvaRanges s1)(idx := free_record idx)" using R by blast
  have "live s2 j = live s j" "live s j \<Longrightarrow> gKvaRanges s2 j = gKvaRanges s j" for j
    using rs H by (auto simp: live_def free_record_def)
  moreover have "kmap s2 t i = kmap s t i" if v: "t \<noteq> KE_KVA_ARENA_MAX" "i < kva_pages t" for t i
  proof (cases "t = KE_KVA_ARENA_HEAP \<and> b \<le> i \<and> i < b + unat n")
    case True
    then show ?thesis using R v H by simp
  next
    case False
    then have "kmap s2 t i = kmap s1 t i" using R v by auto
    also have "\<dots> = kmap s t i" using H v False by blast
    finally show ?thesis .
  qed
  moreover have "q \<in> backing s1 KE_KVA_ARENA_HEAP {b..<b + unat n} \<longleftrightarrow> (\<exists>i. b \<le> i \<and> i < b + unat n \<and> q = PhysicalBase (kmap s1 KE_KVA_ARENA_HEAP i))" for q
  proof -
    have "Present (kmap s1 KE_KVA_ARENA_HEAP i)" if "b \<le> i" "i < b + unat n" for i using H that by (metis leaf_mapping_present)
    then show ?thesis by (auto simp: backing_def)
  qed
  ultimately show ?thesis using s2(1) R ar(4) by (simp add: KeHeapFreePages_def)
qed

end
