(* ===== verification/KvaFixmap.thy ===== *)
theory KvaFixmap
  imports KvaHeap
begin

text \<open>
  The fixmap slots: tokens encode a slot and its generation; acquiring a slot maps one page or
  changes no mapping.
\<close>

section \<open>Tokens\<close>

lemma slot_mask: "KE_TEMP_MAP_TOKEN_SLOT_MASK = mask 6" "KE_TEMP_MAP_TOKEN_GENERATION_MASK = mask 58"
  by (simp_all add: KE_TEMP_MAP_TOKEN_SLOT_MASK_def KE_TEMP_MAP_TOKEN_GENERATION_MASK_def KE_TEMP_MAP_TOKEN_SLOT_BITS_def mask_eq_exp_minus_1)

lemma token_round_trip:
  assumes "slot < 64" "0 < g" "g \<le> KE_TEMP_MAP_TOKEN_GENERATION_MASK"
  shows "KiDecodeTempMapHandle (KiEncodeTempMapToken slot g) = Inr (slot, g)"
proof -
  have s: "ucast slot < (64 :: u64)" using assms(1) by (simp add: word_less_nat_alt unsigned_ucast_eq take_bit_nat_eq_self)
  have "unat slot < 2 ^ 6" using assms(1) by (simp add: word_less_nat_alt)
  then have t6: "take_bit 6 slot = slot" by (intro unat_eqI) (simp add: unsigned_take_bit_eq take_bit_nat_eq_self)
  have "unat g < 2 ^ 58" using assms(3) by (simp add: slot_mask word_le_nat_alt mask_eq_exp_minus_1)
  then have t58: "take_bit 58 g = g" by (intro unat_eqI) (simp add: unsigned_take_bit_eq take_bit_nat_eq_self)
  have sb: "bit slot n \<Longrightarrow> n < 6" for n using t6 by (metis bit_take_bit_iff)
  have gb: "bit g n \<Longrightarrow> n < 58" for n using t58 by (metis bit_take_bit_iff)
  define tok where "tok = push_bit 6 g OR ucast slot"
  have e: "KiEncodeTempMapToken slot g = tok"
    using s assms by (auto simp: KiEncodeTempMapToken_def tok_def arena_sizes KE_TEMP_MAP_TOKEN_SLOT_BITS_def not_le)
  have d: "drop_bit 6 tok = g"
    by (rule bit_word_eqI) (use sb gb in \<open>auto simp: tok_def bit_simps dest: sb\<close>)
  have c: "ucast (tok AND mask 6) = slot"
    by (rule bit_word_eqI) (use sb in \<open>auto simp: tok_def bit_simps\<close>)
  have "tok \<noteq> 0" using d assms(2) by auto
  then show ?thesis
    using e d c s assms by (auto simp: KiDecodeTempMapHandle_def Let_def slot_mask KE_TEMP_MAP_TOKEN_SLOT_BITS_def arena_sizes not_le not_less)
qed

section \<open>Acquiring a slot\<close>

lemma kva_inv_generations [simp]: "kva_inv (s\<lparr>gFixmapSlotGenerations := g\<rparr>) = kva_inv s"
proof -
  have m: "PhysMem (s\<lparr>gFixmapSlotGenerations := g\<rparr>) = PhysMem s" "gKernelAddressSpace (s\<lparr>gFixmapSlotGenerations := g\<rparr>) = gKernelAddressSpace s"
    "gPmmDevice (s\<lparr>gFixmapSlotGenerations := g\<rparr>) = gPmmDevice s" by simp_all
  have o: "owner_of (s\<lparr>gFixmapSlotGenerations := g\<rparr>) t i j = owner_of s t i j" for t i j by (simp add: owner_of_def live_def)
  show ?thesis unfolding kva_inv_def records_ok_def maps_ok_def owned_page_def o vm_same [OF m]
    by (simp add: live_def layout_ok_def page_state_def)
qed

text \<open>Changing the state byte of a page that no range has.\<close>

lemma mark_unowned:
  assumes inv: "kva_inv s" and i: "i < kva_pages KE_KVA_ARENA_FIXMAP" and no: "\<And>j. \<not> owner_of s KE_KVA_ARENA_FIXMAP i j"
    and v: "v \<in> {KE_KVA_PAGE_STATE_FREE, KE_KVA_PAGE_STATE_RETIRED}" and np: "\<not> Present (kmap s KE_KVA_ARENA_FIXMAP i)"
  defines "s' \<equiv> set_page_states KE_KVA_ARENA_FIXMAP ((PageStates (gKvaArenas s KE_KVA_ARENA_FIXMAP))(word_of_nat i := v)) s"
  shows "kva_inv s'"
proof -
  have ok: "records_ok s" "maps_ok s" using inv by (simp_all add: kva_inv_def)
  have st: "page_state t j s' = (if t = KE_KVA_ARENA_FIXMAP \<and> j = i then v else page_state t j s)" if "j < kva_pages t" for t j
  proof -
    have "(word_of_nat j :: u64) = word_of_nat i \<longleftrightarrow> j = i" if "j < 64" using that i by (simp add: word_of_nat_eq_iff take_bit_nat_eq_self)
    then show ?thesis using that by (auto simp: s'_def page_state_set) (simp_all add: page_state_def)
  qed
  have own: "owner_of s' t j k = owner_of s t j k" for t j k by (simp add: s'_def owner_of_def live_def)
  have "records_ok s'" unfolding records_ok_def own
  proof (intro conjI allI impI)
    show "layout_ok s'" using records_okD(1) [OF ok(1)] by (simp add: s'_def)
    show "record_ok k (gKvaRanges s' k)" if "live s' k" for k using records_okD(2) [OF ok(1), of k] that by (simp add: s'_def live_def)
    show "k = k'" if "owner_of s t j k" "owner_of s t j k'" for t j k k' using records_okD(3) [OF ok(1)] that by blast
    show "page_state t j s' = (if j \<in> usable_pages (gKvaRanges s' k) then KE_KVA_PAGE_STATE_ALLOC else KE_KVA_PAGE_STATE_GUARD)" if "owner_of s t j k" for t j k
      using st [OF owner_bounds(2) [OF ok(1) that]] no records_okD(4) [OF ok(1) that] that by (auto simp: s'_def)
    show "page_state t j s' \<in> {KE_KVA_PAGE_STATE_FREE, KE_KVA_PAGE_STATE_RETIRED}" if "t \<noteq> KE_KVA_ARENA_MAX" "j < kva_pages t" "\<nexists>k. owner_of s t j k" for t j
      using st [OF that(2)] records_okD(5) [OF ok(1) that] v by auto
  qed
  moreover have "maps_ok s'"
  proof (rule maps_ok_cong [OF ok(2)])
    show "page_state t j s' = KE_KVA_PAGE_STATE_ALLOC" if "t \<noteq> KE_KVA_ARENA_MAX" "j < kva_pages t" "Present (kmap s t j)" for t j
      using st [OF that(2)] maps_okD(4) [OF ok(2) that] np that(3) by auto
    show "owned_page s t j" if "owned_page s' t j" for t j
      using that own vm_same(2) [of s' s t j] by (simp add: owned_page_def s'_def)
  qed (simp_all add: s'_def)
  ultimately show ?thesis using inv by (simp add: kva_inv_def s'_def)
qed

definition slot_record :: "nat \<Rightarrow> nat \<Rightarrow> u64 \<Rightarrow> KE_KVA_RANGE_RECORD" where
  "slot_record idx i g = \<lparr>InUse = True, OwnsPhysicalBacking = False, RecArena = KE_KVA_ARENA_FIXMAP, RecRecordId = word_of_nat idx + 1,
     RecGeneration = g, BasePageIndex = word_of_nat i, RecTotalPages = 1, RecUsablePages = 1, RecGuardLowerPages = 0, RecGuardUpperPages = 0\<rparr>"

lemma slot_record_simps:
  assumes "i < 64"
  shows "rec_pages (slot_record idx i g) = {i}" "usable_pages (slot_record idx i g) = {i}" "rec_first (slot_record idx i g) = i"
    "g \<noteq> 0 \<Longrightarrow> record_ok idx (slot_record idx i g)" "InUse (slot_record idx i g)" "RecArena (slot_record idx i g) = KE_KVA_ARENA_FIXMAP"
  using assms by (auto simp: slot_record_def rec_pages_def usable_pages_def rec_first_def record_ok_def take_bit_nat_eq_self unsigned_of_nat)

lemma take_slot:
  assumes inv: "kva_inv s" and i: "i < 64" and idx: "idx < KE_KVA_MAX_RANGES" "\<not> InUse (gKvaRanges s idx)" and g: "g \<noteq> 0"
    and fr: "page_state KE_KVA_ARENA_FIXMAP i s = KE_KVA_PAGE_STATE_FREE"
  defines "s' \<equiv> set_record idx (slot_record idx i g) (set_page_states KE_KVA_ARENA_FIXMAP
      ((PageStates (gKvaArenas s KE_KVA_ARENA_FIXMAP))(word_of_nat i := KE_KVA_PAGE_STATE_ALLOC)) s)"
  shows "kva_inv s'" "owner_of s' KE_KVA_ARENA_FIXMAP i idx" "kmap s' t j = kmap s t j" "frames s' = frames s"
    "owner_of s' t j k \<longleftrightarrow> (if k = idx then t = KE_KVA_ARENA_FIXMAP \<and> j = i else owner_of s t j k)"
proof -
  have ok: "records_ok s" "maps_ok s" using inv by (simp_all add: kva_inv_def)
  note sr = slot_record_simps [OF i]
  have nf: "\<not> owner_of s KE_KVA_ARENA_FIXMAP i k" for k using unowned_free [OF ok(1) fr] .
  have st: "page_state t j s' = (if t = RecArena (slot_record idx i g) \<and> j \<in> rec_pages (slot_record idx i g)
      then (if j \<in> usable_pages (slot_record idx i g) then KE_KVA_PAGE_STATE_ALLOC else KE_KVA_PAGE_STATE_GUARD) else page_state t j s)"
    if "t \<noteq> KE_KVA_ARENA_MAX" "j < kva_pages t" for t j
  proof -
    have "(word_of_nat j :: u64) = word_of_nat i \<longleftrightarrow> j = i" if "j < 64" using that i by (simp add: word_of_nat_eq_iff take_bit_nat_eq_self)
    then show ?thesis using that sr by (auto simp: s'_def page_state_set) (simp_all add: page_state_def)
  qed
  have same: "gKvaRanges s' = (gKvaRanges s)(idx := slot_record idx i g)" "layout_ok s'" using records_okD(1) [OF ok(1)] by (simp_all add: s'_def)
  have un: "\<not> owner_of s (RecArena (slot_record idx i g)) j k" if "j \<in> rec_pages (slot_record idx i g)" for j k using that nf sr by simp
  note e = records_ok_enter [OF ok(1) idx sr(4) [OF g] sr(5) un same st]
  have e1: "records_ok s'" by (rule e(1)) assumption+
  show own: "owner_of s' t j k \<longleftrightarrow> (if k = idx then t = KE_KVA_ARENA_FIXMAP \<and> j = i else owner_of s t j k)" for t j k
    using e(2) sr by simp
  then show "owner_of s' KE_KVA_ARENA_FIXMAP i idx" by simp
  have vm: "PhysMem s' = PhysMem s" "gKernelAddressSpace s' = gKernelAddressSpace s" "gPmmDevice s' = gPmmDevice s" by (simp_all add: s'_def)
  show km: "kmap s' t j = kmap s t j" for t j by (rule vm_same(2) [OF vm])
  show "frames s' = frames s" by (rule vm_same(4) [OF vm])
  have np: "\<not> Present (kmap s KE_KVA_ARENA_FIXMAP i)" using maps_okD(4) [OF ok(2), of KE_KVA_ARENA_FIXMAP i] fr i by auto
  have "maps_ok s'"
  proof (rule maps_ok_cong [OF ok(2) vm])
    show "page_state t j s' = KE_KVA_PAGE_STATE_ALLOC" if "t \<noteq> KE_KVA_ARENA_MAX" "j < kva_pages t" "Present (kmap s t j)" for t j
      using st [OF that(1,2)] maps_okD(4) [OF ok(2) that] sr by auto
    show "owned_page s t j" if "owned_page s' t j" for t j
      using that np km own by (auto simp: owned_page_def same split: if_splits)
  qed
  then show "kva_inv s'" using inv e1 by (simp add: kva_inv_def s'_def)
qed

lemma drop_slot:
  assumes inv: "kva_inv s" and i: "i < 64" and lv: "live s idx" and r: "gKvaRanges s idx = slot_record idx i g"
    and np: "\<not> Present (kmap s KE_KVA_ARENA_FIXMAP i)"
  defines "s' \<equiv> set_record idx (free_record idx) (set_page_states KE_KVA_ARENA_FIXMAP
      ((PageStates (gKvaArenas s KE_KVA_ARENA_FIXMAP))(word_of_nat i := KE_KVA_PAGE_STATE_FREE)) s)"
  shows "kva_inv s'" "kmap s' t j = kmap s t j" "frames s' = frames s"
proof -
  have ok: "records_ok s" "maps_ok s" using inv by (simp_all add: kva_inv_def)
  note sr = slot_record_simps [OF i]
  have own: "owner_of s t j idx \<longleftrightarrow> t = KE_KVA_ARENA_FIXMAP \<and> j = i" for t j using lv r sr by (auto simp: owner_of_def)
  have st: "page_state t j s' = (if owner_of s t j idx then KE_KVA_PAGE_STATE_FREE else page_state t j s)" if "t \<noteq> KE_KVA_ARENA_MAX" "j < kva_pages t" for t j
  proof -
    have "(word_of_nat j :: u64) = word_of_nat i \<longleftrightarrow> j = i" if "j < 64" using that i by (simp add: word_of_nat_eq_iff take_bit_nat_eq_self)
    then show ?thesis using that own by (auto simp: s'_def page_state_set) (simp_all add: page_state_def)
  qed
  have same: "gKvaRanges s' = (gKvaRanges s)(idx := free_record idx)" "layout_ok s'" using records_okD(1) [OF ok(1)] by (simp_all add: s'_def)
  note l = records_ok_leave [OF ok(1) lv same _ st]
  have l1: "records_ok s'" by (rule l(1)) auto
  have l3: "owner_of s' t j k \<longleftrightarrow> k \<noteq> idx \<and> owner_of s t j k" for t j k by (rule l(3)) auto
  have vm: "PhysMem s' = PhysMem s" "gKernelAddressSpace s' = gKernelAddressSpace s" "gPmmDevice s' = gPmmDevice s" by (simp_all add: s'_def)
  show km: "kmap s' t j = kmap s t j" for t j by (rule vm_same(2) [OF vm])
  show "frames s' = frames s" by (rule vm_same(4) [OF vm])
  have "maps_ok s'"
  proof (rule maps_ok_cong [OF ok(2) vm])
    show "page_state t j s' = KE_KVA_PAGE_STATE_ALLOC" if "t \<noteq> KE_KVA_ARENA_MAX" "j < kva_pages t" "Present (kmap s t j)" for t j
      using st [OF that(1,2)] maps_okD(4) [OF ok(2) that] own np that(3) by auto
    show "owned_page s t j" if "owned_page s' t j" for t j using that km l3 by (auto simp: owned_page_def same)
  qed
  then show "kva_inv s'" using inv l1 by (simp add: kva_inv_def s'_def)
qed

definition slot_mapped :: "nat \<Rightarrow> nat \<Rightarrow> HO_PHYSICAL_ADDRESS \<Rightarrow> u64 \<Rightarrow> 'a kva_globals_scheme \<Rightarrow> 'a kva_globals_scheme \<Rightarrow> bool" where
  "slot_mapped idx i pa attrs s s' \<longleftrightarrow>
    (let g = gFixmapSlotGenerations s (word_of_nat i) + 1 in
     i < 64 \<and> page_state KE_KVA_ARENA_FIXMAP i s = KE_KVA_PAGE_STATE_FREE \<and> kmap s KE_KVA_ARENA_FIXMAP i = zero_mapping \<and>
     0 < g \<and> g \<le> KE_TEMP_MAP_TOKEN_GENERATION_MASK \<and> gFixmapSlotGenerations s' = (gFixmapSlotGenerations s)(word_of_nat i := g) \<and>
     gKvaRanges s' = (gKvaRanges s)(idx := slot_record idx i g) \<and>
     kmap s' KE_KVA_ARENA_FIXMAP i = leaf_mapping (page_va KE_KVA_ARENA_FIXMAP i) (3, leaf_entry pa attrs) False \<and>
     (\<forall>t j. t \<noteq> KE_KVA_ARENA_MAX \<longrightarrow> j < kva_pages t \<longrightarrow> (t, j) \<noteq> (KE_KVA_ARENA_FIXMAP, i) \<longrightarrow> kmap s' t j = kmap s t j) \<and>
     (\<forall>q. frames s q \<noteq> Some PMM_PAGE_FREE \<longrightarrow> frames s' q = frames s q))"

definition slots_kept :: "'a kva_globals_scheme \<Rightarrow> 'a kva_globals_scheme \<Rightarrow> bool" where
  "slots_kept s s' \<longleftrightarrow> frames s' = frames s \<and> (\<forall>t j. kmap s' t j = kmap s t j) \<and> (\<forall>k. live s' k = live s k) \<and>
    (\<forall>k. live s k \<longrightarrow> gKvaRanges s' k = gKvaRanges s k) \<and> (\<forall>i. gFixmapSlotGenerations s i \<le> gFixmapSlotGenerations s' i)"

lemma generation_step:
  assumes "i < 64" "\<not> KiKvaFixmapSlotRetired (word_of_nat i) s"
  defines "g \<equiv> gFixmapSlotGenerations s (word_of_nat i) + 1"
  shows "KiNextFixmapSlotGeneration (ucast (word_of_nat i :: u64)) s = (g, s\<lparr>gFixmapSlotGenerations := (gFixmapSlotGenerations s)(word_of_nat i := g)\<rparr>)"
    "0 < g" "g \<le> KE_TEMP_MAP_TOKEN_GENERATION_MASK" "gFixmapSlotGenerations s (word_of_nat i) \<le> g"
    "ucast (ucast (word_of_nat i :: u64) :: u32) = (word_of_nat i :: u64)" "(ucast (word_of_nat i :: u64) :: u32) < 64"
proof -
  have u: "unat (word_of_nat i :: u64) = i" using assms(1) by (simp add: unsigned_of_nat take_bit_nat_eq_self)
  have c: "unat (ucast (word_of_nat i :: u64) :: u32) = i" using assms(1) by (simp add: unsigned_ucast_eq u take_bit_nat_eq_self)
  then show lt: "(ucast (word_of_nat i :: u64) :: u32) < 64" using assms(1) by (simp add: word_less_nat_alt)
  show cc: "ucast (ucast (word_of_nat i :: u64) :: u32) = (word_of_nat i :: u64)"
    using assms(1) by (intro unat_eqI) (simp add: unsigned_ucast_eq unsigned_take_bit_eq unsigned_of_nat take_bit_nat_eq_self)
  have p: "(word_of_nat i :: u64) < KE_KVA_FIXMAP_ARENA_PAGES" using u assms(1) by (simp add: arena_sizes word_less_nat_alt)
  have lm: "gFixmapSlotGenerations s (word_of_nat i) < KE_TEMP_MAP_TOKEN_GENERATION_MASK" using assms(2) p by (simp add: KiKvaFixmapSlotRetired_def not_le)
  then have "unat (gFixmapSlotGenerations s (word_of_nat i)) < 288230376151711743" by (simp add: slot_mask word_less_nat_alt mask_eq_exp_minus_1)
  then have ug: "unat g = Suc (unat (gFixmapSlotGenerations s (word_of_nat i)))" unfolding g_def by (simp add: unat_add_small)
  then show "0 < g" "gFixmapSlotGenerations s (word_of_nat i) \<le> g" by (simp_all add: word_less_nat_alt word_le_nat_alt)
  show "g \<le> KE_TEMP_MAP_TOKEN_GENERATION_MASK" using ug lm by (simp add: word_le_nat_alt word_less_nat_alt)
  show "KiNextFixmapSlotGeneration (ucast (word_of_nat i :: u64)) s = (g, s\<lparr>gFixmapSlotGenerations := (gFixmapSlotGenerations s)(word_of_nat i := g)\<rparr>)"
    using p [folded not_le] lm [folded not_le] unfolding KiNextFixmapSlotGeneration_def cc Let_def g_def by simp
qed

lemma slot_map_effect:
  assumes inv: "kva_inv s" and i: "i < 64" and idx: "idx < KE_KVA_MAX_RANGES" "\<not> InUse (gKvaRanges s idx)"
    and fr: "page_state KE_KVA_ARENA_FIXMAP i s = KE_KVA_PAGE_STATE_FREE" and nr: "\<not> KiKvaFixmapSlotRetired (word_of_nat i) s"
    and pa: "HO_IS_ALIGNED pa PAGE_4KB" "attrs AND PTE_USER = 0"
  defines "g \<equiv> gFixmapSlotGenerations s (word_of_nat i) + 1"
  shows "\<exists>r s'. fixmap_slots idx pa attrs (i # is) s = Done (r, s') \<and> kva_inv s' \<and> gKvaRangeGenerationCounter s' = gKvaRangeGenerationCounter s \<and>
    (case r of Inl e \<Rightarrow> slots_kept s s'
     | Inr (token, va) \<Rightarrow> slot_mapped idx i pa attrs s s' \<and> va = page_va KE_KVA_ARENA_FIXMAP i \<and> token = KiEncodeTempMapToken (word_of_nat i) g)"
proof -
  note gs = generation_step [OF i nr, folded g_def]
  define s0 where "s0 = s\<lparr>gFixmapSlotGenerations := (gFixmapSlotGenerations s)(word_of_nat i := g)\<rparr>"
  define s1 where "s1 = set_record idx (slot_record idx i g) (set_page_states KE_KVA_ARENA_FIXMAP
      ((PageStates (gKvaArenas s0 KE_KVA_ARENA_FIXMAP))(word_of_nat i := KE_KVA_PAGE_STATE_ALLOC)) s0)"
  have i0: "kva_inv s0" using inv by (simp add: s0_def)
  have p0: "idx < KE_KVA_MAX_RANGES" "\<not> InUse (gKvaRanges s0 idx)" "page_state KE_KVA_ARENA_FIXMAP i s0 = KE_KVA_PAGE_STATE_FREE" "g \<noteq> 0"
    using idx fr gs(2) by (auto simp: s0_def page_state_def)
  have km0: "kmap s0 t j = kmap s t j" and f0: "frames s0 = frames s" for t j by (simp_all add: s0_def kmap_def kroot_def frames_def)
  note T = take_slot [OF i0 i p0(1,2,4,3), folded s1_def]
  have rs1: "gKvaRanges s1 = (gKvaRanges s)(idx := slot_record idx i g)" by (simp add: s1_def s0_def)
  have lv1: "live s1 idx" using idx(1) slot_record_simps(5) [OF i] by (simp add: live_def rs1)
  have ok1: "layout_ok s1" using T(1) by (simp add: kva_inv_def records_ok_def)
  have fill: "KiKvaFillRangeFromRecord (slot_record idx i g) s1 = Inr rng \<Longrightarrow> RangeUsableBase rng = page_va KE_KVA_ARENA_FIXMAP i" for rng
    using fill_total [OF ok1 slot_record_simps(4) [OF i p0(4)]] slot_record_simps(3,6) [OF i] by auto
  obtain rng where rng: "KiKvaFillRangeFromRecord (slot_record idx i g) s1 = Inr rng" using fill_total [OF ok1 slot_record_simps(4) [OF i p0(4)]] by blast
  have sl: "(ucast (word_of_nat i :: u64) :: u32) = word_of_nat i" using i by (intro unat_eqI) (simp add: unsigned_ucast_eq unsigned_of_nat take_bit_nat_eq_self)
  have tok: "KiEncodeTempMapToken (word_of_nat i) g \<noteq> 0"
    using token_round_trip [OF gs(6,2,3), unfolded sl] by (auto simp: KiDecodeTempMapHandle_def)
  obtain st s2 where m: "KePtMapPage (KeGetKernelAddressSpace s1) (page_va KE_KVA_ARENA_FIXMAP i) pa attrs s1 = Done (st, s2)" and v2: "vm_frame s1 s2" and i2: "kva_inv s2"
    and e: "if st = EC_SUCCESS
     then kmap s1 KE_KVA_ARENA_FIXMAP i = zero_mapping \<and> kmap s2 KE_KVA_ARENA_FIXMAP i = leaf_mapping (page_va KE_KVA_ARENA_FIXMAP i) (3, leaf_entry pa attrs) False \<and>
       (\<forall>t' i'. t' \<noteq> KE_KVA_ARENA_MAX \<longrightarrow> i' < kva_pages t' \<longrightarrow> (t', i') \<noteq> (KE_KVA_ARENA_FIXMAP, i) \<longrightarrow> kmap s2 t' i' = kmap s1 t' i') \<and>
       (\<forall>q. frames s1 q \<noteq> Some PMM_PAGE_FREE \<longrightarrow> frames s2 q = frames s1 q)
     else (\<forall>t' i'. kmap s2 t' i' = kmap s1 t' i') \<and> frames s2 = frames s1 \<and> pt_tables (PhysMem s2) (kroot s1) = pt_tables (PhysMem s1) (kroot s1)"
    using map_page [OF T(1,2) _ pa(2,1)] slot_record_simps(2) [OF i] by (auto simp: rs1 slot_record_def)
  note g2 = vm_frame_kva [OF v2] and r2 = vm_frame_records [OF v2]
  define s3 where "s3 = set_record idx (free_record idx) (set_page_states KE_KVA_ARENA_FIXMAP
      ((PageStates (gKvaArenas s2 KE_KVA_ARENA_FIXMAP))(word_of_nat i := KE_KVA_PAGE_STATE_FREE)) s2)"
  have run: "fixmap_slots idx pa attrs (i # is) s = Done (if st \<noteq> EC_SUCCESS then (Inl st, s3) else (Inr (KiEncodeTempMapToken (word_of_nat i) g, page_va KE_KVA_ARENA_FIXMAP i), s2))"
  proof -
    have a: "PageStates (gKvaArenas s KE_KVA_ARENA_FIXMAP) (word_of_nat i) = KE_KVA_PAGE_STATE_FREE" using fr by (simp add: page_state_def)
    have b: "set_record idx \<lparr>InUse = True, OwnsPhysicalBacking = False, RecArena = KE_KVA_ARENA_FIXMAP, RecRecordId = word_of_nat idx + 1,
       RecGeneration = g, BasePageIndex = word_of_nat i, RecTotalPages = 1, RecUsablePages = 1, RecGuardLowerPages = 0, RecGuardUpperPages = 0\<rparr>
       (set_page_states KE_KVA_ARENA_FIXMAP ((PageStates (gKvaArenas s0 KE_KVA_ARENA_FIXMAP))(word_of_nat i := KE_KVA_PAGE_STATE_ALLOC)) s0) = s1"
      by (simp add: s1_def slot_record_def)
    show ?thesis
      using a nr gs(1) p0(4) tok m fill [OF rng] rng [unfolded slot_record_def] b
      by (simp add: Let_def sl s0_def [symmetric] s3_def)
  qed
  have ctr: "gKvaRangeGenerationCounter s2 = gKvaRangeGenerationCounter s" using g2 by (simp add: s1_def s0_def)
  have gen: "gFixmapSlotGenerations s2 = (gFixmapSlotGenerations s)(word_of_nat i := g)" using g2 by (simp add: s1_def s0_def)
  show ?thesis
  proof (cases "st = EC_SUCCESS")
    case True
    have z: "kmap s KE_KVA_ARENA_FIXMAP i = zero_mapping" using e True T(3) km0 by simp
    have "slot_mapped idx i pa attrs s s2" unfolding slot_mapped_def g_def [symmetric] Let_def
      using i fr z gs(2,3) gen g2 rs1 e True T(3,4) km0 f0 by simp
    then show ?thesis using run True i2 ctr by simp
  next
    case False
    have lv2: "live s2 idx" and rr: "gKvaRanges s2 idx = slot_record idx i g" using lv1 r2 g2 rs1 by simp_all
    have np0: "\<not> Present (kmap s KE_KVA_ARENA_FIXMAP i)" using maps_okD(4) [of s KE_KVA_ARENA_FIXMAP i] inv fr i by (auto simp: kva_inv_def)
    then have np: "\<not> Present (kmap s2 KE_KVA_ARENA_FIXMAP i)" using e False T(3) km0 by simp
    note D = drop_slot [OF i2 i lv2 rr np, folded s3_def]
    have "slots_kept s s3" unfolding slots_kept_def
    proof (intro conjI allI impI)
      show "frames s3 = frames s" using D(3) e False T(4) f0 by simp
      show "kmap s3 t j = kmap s t j" for t j using D(2) e False T(3) km0 by simp
      have rs3: "gKvaRanges s3 = (gKvaRanges s)(idx := free_record idx)" using g2 rs1 by (simp add: s3_def)
      show "live s3 k = live s k" for k using rs3 idx by (auto simp: live_def free_record_def)
      show "gKvaRanges s3 k = gKvaRanges s k" if "live s k" for k using rs3 idx that by (auto simp: live_def)
      show "gFixmapSlotGenerations s j \<le> gFixmapSlotGenerations s3 j" for j using gen gs(4) by (simp add: s3_def)
    qed
    then show ?thesis using run False D(1) ctr by (simp add: s3_def)
  qed
qed

lemma fixmap_slots_effect:
  assumes "kva_inv s" "\<forall>i \<in> set is. i < 64" "idx < KE_KVA_MAX_RANGES" "\<not> InUse (gKvaRanges s idx)"
    and pa: "HO_IS_ALIGNED pa PAGE_4KB" "attrs AND PTE_USER = 0"
  shows "\<exists>r s'. fixmap_slots idx pa attrs is s = Done (r, s') \<and> kva_inv s' \<and> gKvaRangeGenerationCounter s' = gKvaRangeGenerationCounter s \<and>
    (case r of Inl e \<Rightarrow> slots_kept s s'
     | Inr (token, va) \<Rightarrow> \<exists>i. slot_mapped idx i pa attrs s s' \<and> va = page_va KE_KVA_ARENA_FIXMAP i \<and>
         token = KiEncodeTempMapToken (word_of_nat i) (gFixmapSlotGenerations s (word_of_nat i) + 1))"
  using assms(1-4)
proof (induction "is" arbitrary: s)
  case Nil
  then show ?case by (simp add: slots_kept_def)
next
  case (Cons i "is")
  have i: "i < 64" using Cons.prems(2) by simp
  define st where "st = PageStates (gKvaArenas s KE_KVA_ARENA_FIXMAP)"
  have ps: "page_state KE_KVA_ARENA_FIXMAP i s = st (word_of_nat i)" by (simp add: page_state_def st_def)
  consider "st (word_of_nat i) \<noteq> KE_KVA_PAGE_STATE_FREE"
    | "st (word_of_nat i) = KE_KVA_PAGE_STATE_FREE" "KiKvaFixmapSlotRetired (word_of_nat i) s"
    | "st (word_of_nat i) = KE_KVA_PAGE_STATE_FREE" "\<not> KiKvaFixmapSlotRetired (word_of_nat i) s" by blast
  then show ?case
  proof cases
    case 1
    then show ?thesis using Cons.IH [OF Cons.prems(1) _ Cons.prems(3,4)] Cons.prems(2) by (simp add: Let_def st_def)
  next
    case 2
    define s1 where "s1 = set_page_states KE_KVA_ARENA_FIXMAP (st(word_of_nat i := KE_KVA_PAGE_STATE_RETIRED)) s"
    have ok: "records_ok s" "maps_ok s" using Cons.prems(1) by (simp_all add: kva_inv_def)
    have fr: "page_state KE_KVA_ARENA_FIXMAP i s = KE_KVA_PAGE_STATE_FREE" using 2 ps by simp
    have np: "\<not> Present (kmap s KE_KVA_ARENA_FIXMAP i)" using maps_okD(4) [OF ok(2), of KE_KVA_ARENA_FIXMAP i] fr i by auto
    have i1: "kva_inv s1" unfolding s1_def st_def by (rule mark_unowned [OF Cons.prems(1)]) (use i unowned_free [OF ok(1) fr] np in auto)
    have vm: "PhysMem s1 = PhysMem s" "gKernelAddressSpace s1 = gKernelAddressSpace s" "gPmmDevice s1 = gPmmDevice s" by (simp_all add: s1_def)
    note v = vm_same [OF vm]
    have un: "\<not> InUse (gKvaRanges s1 idx)" using Cons.prems(4) by (simp add: s1_def)
    have ps1: "page_state KE_KVA_ARENA_FIXMAP k s = KE_KVA_PAGE_STATE_FREE" if "page_state KE_KVA_ARENA_FIXMAP k s1 = KE_KVA_PAGE_STATE_FREE" for k
      using that by (auto simp: s1_def page_state_def set_page_states_arena st_def split: if_splits)
    have e: "fixmap_slots idx pa attrs (i # is) s = fixmap_slots idx pa attrs is s1" using 2 by (simp add: Let_def st_def s1_def)
    have k1: "slots_kept s s'" if "slots_kept s1 s'" for s'
      using that v by (simp add: slots_kept_def s1_def live_def)
    have k2: "slot_mapped idx k pa attrs s s'" if "slot_mapped idx k pa attrs s1 s'" for k s'
      using that v ps1 [of k] by (simp add: slot_mapped_def Let_def) (simp add: s1_def)
    obtain r s' where "fixmap_slots idx pa attrs is s1 = Done (r, s')" "kva_inv s'" "gKvaRangeGenerationCounter s' = gKvaRangeGenerationCounter s1"
      "case r of Inl e \<Rightarrow> slots_kept s1 s'
       | Inr (token, va) \<Rightarrow> \<exists>i. slot_mapped idx i pa attrs s1 s' \<and> va = page_va KE_KVA_ARENA_FIXMAP i \<and>
           token = KiEncodeTempMapToken (word_of_nat i) (gFixmapSlotGenerations s1 (word_of_nat i) + 1)"
      using Cons.IH [OF i1 _ Cons.prems(3) un] Cons.prems(2) by auto
    then show ?thesis unfolding e using k1 k2
      by (intro exI [of _ r] exI [of _ s']) (auto simp: s1_def split: sum.splits)
  next
    case 3
    then show ?thesis using slot_map_effect [OF Cons.prems(1) i Cons.prems(3,4) _ 3(2) pa, of "is"] ps
      by (auto simp del: fixmap_slots.simps split: sum.splits) blast+
  qed
qed

lemma KeFixmapAcquire_effect:
  assumes inv: "kva_inv s" and at: "attrs AND PTE_USER = 0"
  shows "\<exists>r s'. KeFixmapAcquire pa attrs s = Done (r, s') \<and> kva_inv s' \<and> gKvaRangeGenerationCounter s' = gKvaRangeGenerationCounter s \<and>
    (case r of Inl e \<Rightarrow> slots_kept s s'
     | Inr (token, va) \<Rightarrow> \<exists>i idx. idx < KE_KVA_MAX_RANGES \<and> \<not> live s idx \<and> slot_mapped idx i pa attrs s s' \<and> va = page_va KE_KVA_ARENA_FIXMAP i \<and>
         token = KiEncodeTempMapToken (word_of_nat i) (gFixmapSlotGenerations s (word_of_nat i) + 1))"
proof (cases "HO_IS_ALIGNED pa PAGE_4KB")
  case False
  then show ?thesis using inv by (simp add: KeFixmapAcquire_def kva_inv_def slots_kept_def)
next
  case True
  have ini: "gKvaInitialized s" "layout_ok s" using inv by (simp_all add: kva_inv_def records_ok_def)
  show ?thesis
  proof (cases "first_unused_record s")
    case None
    then show ?thesis using inv ini True by (simp add: KeFixmapAcquire_def slots_kept_def)
  next
    case (Some idx)
    then have idx: "idx < KE_KVA_MAX_RANGES" "\<not> InUse (gKvaRanges s idx)" by (auto simp: first_unused_record_def find_upt_Some)
    have n: "unat (ArenaPageCount (gKvaArenas s KE_KVA_ARENA_FIXMAP)) = 64" using layout_okD(4) [OF ini(2), of KE_KVA_ARENA_FIXMAP] by simp
    have "KeFixmapAcquire pa attrs s = fixmap_slots idx pa attrs [0..<64] s" using ini Some True n by (simp add: KeFixmapAcquire_def)
    moreover have "\<forall>i \<in> set [0..<64]. i < (64 :: nat)" by simp
    moreover have "\<not> live s idx" using idx by (simp add: live_def)
    ultimately show ?thesis using fixmap_slots_effect [OF inv _ idx True at, of "[0..<64]"] idx(1)
      by (auto simp del: upt_rec_numeral split: sum.splits) blast+
  qed
qed

end
