(* ===== verification/KvaSteps.thy ===== *)
theory KvaSteps
  imports KvaFixmap
begin

text \<open>
  Sequences of calls to the allocator. The invariant holds after any number of them, and a
  released range handle or temporary-map token is refused for ever.
\<close>

section \<open>Releasing a slot\<close>

lemma find_usable_base_Some:
  assumes inv: "kva_inv s" and f: "KiKvaFindRecordByUsableBase base s = Some idx"
  shows "live s idx" "base = page_va (RecArena (gKvaRanges s idx)) (rec_first (gKvaRanges s idx))"
proof -
  have f': "idx < KE_KVA_MAX_RANGES \<and> InUse (gKvaRanges s idx) \<and> (case KiKvaArenaState (RecArena (gKvaRanges s idx)) s of
      None \<Rightarrow> False | Some arena \<Rightarrow> KiKvaRecordUsableBase arena (gKvaRanges s idx) = base)"
    using f by (auto simp: KiKvaFindRecordByUsableBase_def find_upt_Some Let_def)
  then show l: "live s idx" by (simp add: live_def)
  have ok: "records_ok s" using inv by (simp add: kva_inv_def)
  show "base = page_va (RecArena (gKvaRanges s idx)) (rec_first (gKvaRanges s idx))"
    using f' usable_base_va(1) [OF records_okD(1) [OF ok] records_okD(2) [OF ok l]] by (simp add: KiKvaArenaState_def split: if_splits)
qed

lemma KeKvaReleaseRange_total:
  assumes inv: "kva_inv s"
  shows "\<exists>st s'. KeKvaReleaseRange base s = Done (st, s') \<and> (if st = EC_SUCCESS then \<exists>idx. live s idx \<and> range_released idx s s' else s' = s)"
proof (cases "KiKvaFindRecordByUsableBase base s")
  case None
  then show ?thesis using inv by (simp add: KeKvaReleaseRange_def kva_inv_def)
next
  case (Some idx)
  note f = find_usable_base_Some [OF inv Some]
  then show ?thesis using KeKvaReleaseRange_effect [OF inv f(1)] by auto
qed

text \<open>A token is good while its slot has a range and the slot's generation is the token's.\<close>

definition token_live :: "u64 \<Rightarrow> 'a kva_globals_scheme \<Rightarrow> bool" where
  "token_live tok s \<longleftrightarrow> (\<exists>slot g idx. KiDecodeTempMapHandle tok = Inr (slot, g) \<and> live s idx \<and>
     RecArena (gKvaRanges s idx) = KE_KVA_ARENA_FIXMAP \<and> rec_first (gKvaRanges s idx) = unat slot \<and> gFixmapSlotGenerations s (ucast slot) = g)"

lemma unat_ucast_u32 [simp]: "unat (ucast (w :: u32) :: u64) = unat w"
proof -
  have "unat w < 2 ^ 32" using unsigned_less [of w] by simp
  then show ?thesis by (simp add: unsigned_ucast_eq take_bit_nat_eq_self)
qed

lemma decode_slot:
  assumes "KiDecodeTempMapHandle tok = Inr (slot, g)"
  shows "unat slot < 64"
proof -
  have "ucast slot < (64 :: u64)" using assms by (auto simp: KiDecodeTempMapHandle_def Let_def arena_sizes not_le split: if_splits)
  then show ?thesis unfolding word_less_nat_alt unat_ucast_u32 by simp
qed

lemma slot_va: "KE_KVA_FIXMAP_ARENA_BASE + ucast (slot :: u32) * PAGE_4KB = page_va KE_KVA_ARENA_FIXMAP (unat slot)"
proof -
  have "(word_of_nat (unat (ucast slot :: u64)) :: u64) = ucast slot" by simp
  then have "(word_of_nat (unat slot) :: u64) = ucast slot" unfolding unat_ucast_u32 .
  then show ?thesis by (simp add: page_va_def)
qed

lemma first_page_bound:
  assumes "kva_inv s" "live s idx"
  shows "RecArena (gKvaRanges s idx) \<noteq> KE_KVA_ARENA_MAX" "rec_first (gKvaRanges s idx) < kva_pages (RecArena (gKvaRanges s idx))"
  using records_okD(2) [of s idx] assms by (auto simp: kva_inv_def record_ok_def rec_first_def)

lemma KeTempPhysMapRelease_effect:
  assumes inv: "kva_inv s"
  shows "token_live tok s \<Longrightarrow> \<exists>idx s'. KeTempPhysMapRelease tok s = Done (EC_SUCCESS, 0, s') \<and> live s idx \<and>
      RecArena (gKvaRanges s idx) = KE_KVA_ARENA_FIXMAP \<and> range_released idx s s'"
    and "\<not> token_live tok s \<Longrightarrow> \<exists>e. e \<noteq> EC_SUCCESS \<and> KeTempPhysMapRelease tok s = Done (e, tok, s)"
proof -
  assume "token_live tok s"
  then obtain slot g idx where d: "KiDecodeTempMapHandle tok = Inr (slot, g)" and l: "live s idx"
    and a: "RecArena (gKvaRanges s idx) = KE_KVA_ARENA_FIXMAP" "rec_first (gKvaRanges s idx) = unat slot" and g: "gFixmapSlotGenerations s (ucast slot) = g"
    by (auto simp: token_live_def)
  have f: "KiKvaFindRecordByUsableBase (page_va KE_KVA_ARENA_FIXMAP (unat slot)) s = Some idx"
    using find_by_usable_base [OF inv l] a by simp
  obtain s' where "KiKvaReleaseRecord idx s = Done (EC_SUCCESS, s')" "range_released idx s s'" using KiKvaReleaseRecord_effect [OF inv l] by blast
  then show "\<exists>idx s'. KeTempPhysMapRelease tok s = Done (EC_SUCCESS, 0, s') \<and> live s idx \<and>
      RecArena (gKvaRanges s idx) = KE_KVA_ARENA_FIXMAP \<and> range_released idx s s'"
    using d f a(1) g l by (intro exI [of _ idx] exI [of _ s']) (simp add: KeTempPhysMapRelease_def slot_va)
next
  assume n: "\<not> token_live tok s"
  show "\<exists>e. e \<noteq> EC_SUCCESS \<and> KeTempPhysMapRelease tok s = Done (e, tok, s)"
  proof (cases "KiDecodeTempMapHandle tok")
    case (Inl e)
    then show ?thesis by (auto simp: KeTempPhysMapRelease_def KiDecodeTempMapHandle_def Let_def split: if_splits)
  next
    case (Inr p)
    obtain slot g where p: "p = (slot, g)" by fastforce
    note d = Inr [unfolded p]
    show ?thesis
    proof (cases "KiKvaFindRecordByUsableBase (page_va KE_KVA_ARENA_FIXMAP (unat slot)) s")
      case None
      then show ?thesis using d by (simp add: KeTempPhysMapRelease_def slot_va)
    next
      case (Some idx)
      note f = find_usable_base_Some [OF inv Some] and b = first_page_bound [OF inv, of idx]
      have "RecArena (gKvaRanges s idx) = KE_KVA_ARENA_FIXMAP \<and> rec_first (gKvaRanges s idx) = unat slot"
        using f(2) page_va_inj [of KE_KVA_ARENA_FIXMAP "RecArena (gKvaRanges s idx)" "unat slot" "rec_first (gKvaRanges s idx)"] b [OF f(1)] decode_slot [OF d] by auto
      then have "gFixmapSlotGenerations s (ucast slot) \<noteq> g" using n d f(1) by (auto simp: token_live_def)
      then show ?thesis using d Some by (simp add: KeTempPhysMapRelease_def slot_va)
    qed
  qed
qed

section \<open>Sequences of calls\<close>

text \<open>
  The calls the kernel makes after initialisation. Slots come from \<open>KeFixmapAcquire\<close> only; heap
  pages are an allocation followed by \<open>KeKvaMapOwnedPages\<close>.
\<close>

inductive kva_step :: "'a kva_globals_scheme \<Rightarrow> 'a kva_globals_scheme \<Rightarrow> bool" where
  step_alloc: "t \<noteq> KE_KVA_ARENA_FIXMAP \<Longrightarrow> KeKvaAllocRange t u gl gu owns s = (r, s') \<Longrightarrow> kva_step s s'"
| step_map: "attrs AND PTE_USER = 0 \<Longrightarrow> KeKvaMapOwnedPages rng attrs s = Done (st, s') \<Longrightarrow> kva_step s s'"
| step_release: "KeKvaReleaseRangeHandle rng s = Done (st, s') \<Longrightarrow> kva_step s s'"
| step_free: "KeKvaReleaseRange base s = Done (st, s') \<Longrightarrow> kva_step s s'"
| step_acquire: "attrs AND PTE_USER = 0 \<Longrightarrow> KeFixmapAcquire pa attrs s = Done (a, s') \<Longrightarrow> kva_step s s'"
| step_unmap: "KeTempPhysMapRelease tok s = Done (st, tok', s') \<Longrightarrow> kva_step s s'"

text \<open>What a call does to the records: some go, at most one enters.\<close>

inductive records_move :: "'a kva_globals_scheme \<Rightarrow> 'a kva_globals_scheme \<Rightarrow> bool" where
  move_leave: "(\<And>k. live s' k \<Longrightarrow> live s k \<and> gKvaRanges s' k = gKvaRanges s k) \<Longrightarrow> gKvaRangeGenerationCounter s' = gKvaRangeGenerationCounter s \<Longrightarrow>
     (\<And>i. gFixmapSlotGenerations s i \<le> gFixmapSlotGenerations s' i) \<Longrightarrow> records_move s s'"
| move_range: "\<not> live s idx \<Longrightarrow> (\<And>k. k \<noteq> idx \<Longrightarrow> gKvaRanges s' k = gKvaRanges s k) \<Longrightarrow> RecArena (gKvaRanges s' idx) \<noteq> KE_KVA_ARENA_FIXMAP \<Longrightarrow>
     RecGeneration (gKvaRanges s' idx) = gKvaRangeGenerationCounter s \<Longrightarrow> gKvaRangeGenerationCounter s \<noteq> 0 \<Longrightarrow>
     gKvaRangeGenerationCounter s' = gKvaRangeGenerationCounter s + 1 \<Longrightarrow> gFixmapSlotGenerations s' = gFixmapSlotGenerations s \<Longrightarrow> records_move s s'"
| move_slot: "\<not> live s idx \<Longrightarrow> slot_mapped idx i pa attrs s s' \<Longrightarrow> gKvaRangeGenerationCounter s' = gKvaRangeGenerationCounter s \<Longrightarrow> records_move s s'"

lemma released_move:
  assumes "range_released idx s s'"
  shows "kva_inv s'" "records_move s s'"
proof -
  have r: "gKvaRanges s' = (gKvaRanges s)(idx := free_record idx)" "gKvaRangeGenerationCounter s' = gKvaRangeGenerationCounter s"
    "gFixmapSlotGenerations s' = gFixmapSlotGenerations s" using assms by (simp_all add: range_released_def)
  show "kva_inv s'" using assms by (simp add: range_released_def)
  show "records_move s s'" by (rule move_leave) (use r in \<open>auto simp: live_def free_record_def\<close>)
qed

lemma same_move: "records_move s s"
  by (rule move_leave) auto

lemma mapped_move:
  assumes "owned_mapped idx k st attrs s s'"
  shows "kva_inv s'" "records_move s s'"
proof -
  show "kva_inv s'" using assms by (simp add: owned_mapped_def Let_def)
  show "records_move s s'"
    by (rule move_leave) (use assms in \<open>auto simp: owned_mapped_def Let_def live_def free_record_def split: if_splits\<close>)
qed

lemma kva_step_effect:
  assumes step: "kva_step s s'" and inv: "kva_inv s"
  shows "kva_inv s' \<and> records_move s s'"
  using step
proof cases
  case (step_alloc t u gl gu owns r)
  show ?thesis
  proof (cases r)
    case (Inl e)
    then show ?thesis using KeKvaAllocRange_error(1) [of s t u gl gu owns e s'] step_alloc inv same_move by (simp add: kva_inv_def)
  next
    case (Inr rng)
    note a = step_alloc(2) [unfolded Inr]
    obtain idx where i: "kva_inv s'" "\<not> live s idx" "\<And>j. j \<noteq> idx \<Longrightarrow> gKvaRanges s' j = gKvaRanges s j" "RecArena (gKvaRanges s' idx) = t"
      "RecGeneration (gKvaRanges s' idx) = gKvaRangeGenerationCounter s" "gKvaRangeGenerationCounter s' = gKvaRangeGenerationCounter s + 1"
      using KeKvaAllocRange_inv [OF inv a] by metis
    have ok: "records_ok s" using inv by (simp add: kva_inv_def)
    have "gKvaRangeGenerationCounter s \<noteq> 0" "gFixmapSlotGenerations s' = gFixmapSlotGenerations s"
      by (rule KeKvaAllocRange_success [OF ok a], assumption)+
    then show ?thesis using i step_alloc(1) by (auto intro: move_range)
  qed
next
  case (step_map attrs rng st)
  show ?thesis
  proof (cases "KiKvaFindRecordById rng s")
    case None
    then show ?thesis using step_map inv same_move by (simp add: KeKvaMapOwnedPages_def kva_inv_def)
  next
    case (Some idx)
    show ?thesis
    proof (cases "OwnsPhysicalBacking (gKvaRanges s idx)")
      case True
      then show ?thesis using KeKvaMapOwnedPages_effect [OF inv Some True step_map(1)] step_map(2) mapped_move by auto
    next
      case False
      then show ?thesis using step_map inv Some same_move by (simp add: KeKvaMapOwnedPages_def kva_inv_def)
    qed
  qed
next
  case (step_release rng st)
  then show ?thesis
    using KeKvaReleaseRangeHandle_effect [OF inv, of rng] released_move inv same_move by (cases "KiKvaFindRecordById rng s") auto
next
  case (step_free base st)
  then show ?thesis using KeKvaReleaseRange_total [OF inv, of base] released_move inv same_move by (auto split: if_splits)
next
  case (step_acquire attrs pa a)
  obtain r s1 where f: "KeFixmapAcquire pa attrs s = Done (r, s1)" "kva_inv s1" "gKvaRangeGenerationCounter s1 = gKvaRangeGenerationCounter s"
    "case r of Inl e \<Rightarrow> slots_kept s s1
     | Inr (token, va) \<Rightarrow> \<exists>i idx. idx < KE_KVA_MAX_RANGES \<and> \<not> live s idx \<and> slot_mapped idx i pa attrs s s1 \<and> va = page_va KE_KVA_ARENA_FIXMAP i \<and>
         token = KiEncodeTempMapToken (word_of_nat i) (gFixmapSlotGenerations s (word_of_nat i) + 1)"
    using KeFixmapAcquire_effect [OF inv step_acquire(1), of pa] by blast
  have e: "s1 = s'" using f(1) step_acquire(2) by simp
  have "slots_kept s s' \<Longrightarrow> records_move s s'" by (rule move_leave) (use f(3) e in \<open>auto simp: slots_kept_def\<close>)
  then show ?thesis using f e by (auto intro: move_slot split: sum.splits)
next
  case (step_unmap tok st tok')
  then show ?thesis
    using KeTempPhysMapRelease_effect [OF inv, of tok] released_move inv same_move by (cases "token_live tok s") auto
qed

section \<open>Generations\<close>

definition gens_ok :: "'a kva_globals_scheme \<Rightarrow> bool" where
  "gens_ok s \<longleftrightarrow> (\<forall>k. live s k \<longrightarrow> RecArena (gKvaRanges s k) \<noteq> KE_KVA_ARENA_FIXMAP \<longrightarrow>
     (gKvaRangeGenerationCounter s = 0 \<or> RecGeneration (gKvaRanges s k) < gKvaRangeGenerationCounter s) \<and>
     (\<forall>k'. live s k' \<longrightarrow> RecArena (gKvaRanges s k') \<noteq> KE_KVA_ARENA_FIXMAP \<longrightarrow>
        RecGeneration (gKvaRanges s k') = RecGeneration (gKvaRanges s k) \<longrightarrow> k' = k))"

definition stale_handle :: "KE_KVA_RANGE \<Rightarrow> 'a kva_globals_scheme \<Rightarrow> bool" where
  "stale_handle rng s \<longleftrightarrow> RangeArena rng \<noteq> KE_KVA_ARENA_FIXMAP \<and>
     (gKvaRangeGenerationCounter s = 0 \<or> RangeGeneration rng < gKvaRangeGenerationCounter s) \<and>
     (\<forall>k. live s k \<longrightarrow> RecArena (gKvaRanges s k) \<noteq> KE_KVA_ARENA_FIXMAP \<longrightarrow> RecGeneration (gKvaRanges s k) \<noteq> RangeGeneration rng)"

definition stale_token :: "u64 \<Rightarrow> 'a kva_globals_scheme \<Rightarrow> bool" where
  "stale_token tok s \<longleftrightarrow> (\<exists>slot g. KiDecodeTempMapHandle tok = Inr (slot, g) \<and> g \<le> gFixmapSlotGenerations s (ucast slot) \<and>
     (g = gFixmapSlotGenerations s (ucast slot) \<longrightarrow>
        (\<forall>k. live s k \<longrightarrow> RecArena (gKvaRanges s k) = KE_KVA_ARENA_FIXMAP \<longrightarrow> rec_first (gKvaRanges s k) \<noteq> unat slot)))"

lemma counter_step: "(c :: u64) + 1 = 0 \<or> c < c + 1"
proof (cases "c + 1 = 0")
  case False
  then have "unat (c + 1) = Suc (unat c)" by (metis unatSuc add.commute)
  then show ?thesis by (simp add: word_less_nat_alt)
qed simp

lemma gens_sub:
  assumes sub: "\<And>k. live s' k \<Longrightarrow> RecArena (gKvaRanges s' k) \<noteq> KE_KVA_ARENA_FIXMAP \<Longrightarrow> live s k \<and> gKvaRanges s' k = gKvaRanges s k"
    and c: "gKvaRangeGenerationCounter s' = gKvaRangeGenerationCounter s" and g: "gens_ok s"
  shows "gens_ok s' \<and> (stale_handle rng s \<longrightarrow> stale_handle rng s')"
proof (intro conjI impI)
  show "gens_ok s'" unfolding gens_ok_def c
  proof (intro allI impI conjI)
    fix k assume k: "live s' k" "RecArena (gKvaRanges s' k) \<noteq> KE_KVA_ARENA_FIXMAP"
    note k' = sub [OF k]
    then show "gKvaRangeGenerationCounter s = 0 \<or> RecGeneration (gKvaRanges s' k) < gKvaRangeGenerationCounter s" using g k by (simp add: gens_ok_def)
    show "j = k" if "live s' j" "RecArena (gKvaRanges s' j) \<noteq> KE_KVA_ARENA_FIXMAP" "RecGeneration (gKvaRanges s' j) = RecGeneration (gKvaRanges s' k)" for j
      using g k k' that sub [OF that(1,2)] unfolding gens_ok_def by metis
  qed
  show "stale_handle rng s'" if "stale_handle rng s"
    using that sub unfolding stale_handle_def c by metis
qed

lemma gens_move:
  assumes "records_move s s'" "gens_ok s"
  shows "gens_ok s' \<and> (stale_handle rng s \<longrightarrow> stale_handle rng s')"
  using assms(1)
proof cases
  case move_leave
  then show ?thesis by (intro gens_sub [OF _ _ assms(2)]) auto
next
  case (move_range idx)
  let ?c = "gKvaRangeGenerationCounter s"
  have lv: "live s k" if "live s' k" "k \<noteq> idx" for k using that move_range(2) [of k] by (simp add: live_def)
  have lt: "x < ?c + 1 \<or> ?c + 1 = 0" if "x < ?c \<or> x = ?c" for x using counter_step [of ?c] that by (meson less_trans)
  have old: "RecGeneration (gKvaRanges s k) < ?c" if "live s k" "RecArena (gKvaRanges s k) \<noteq> KE_KVA_ARENA_FIXMAP" for k
    using assms(2) that move_range(5) by (auto simp: gens_ok_def)
  have "gens_ok s'" unfolding gens_ok_def
  proof (intro allI impI conjI)
    fix k assume k: "live s' k" "RecArena (gKvaRanges s' k) \<noteq> KE_KVA_ARENA_FIXMAP"
    show "gKvaRangeGenerationCounter s' = 0 \<or> RecGeneration (gKvaRanges s' k) < gKvaRangeGenerationCounter s'"
    proof (cases "k = idx")
      case True
      then show ?thesis using move_range(4,6) counter_step by auto
    next
      case False
      then show ?thesis using old [of k] lv [OF k(1) False] k move_range(2) [OF False] move_range(6) lt by auto
    qed
    show "k' = k" if k': "live s' k'" "RecArena (gKvaRanges s' k') \<noteq> KE_KVA_ARENA_FIXMAP" "RecGeneration (gKvaRanges s' k') = RecGeneration (gKvaRanges s' k)" for k'
    proof (rule ccontr)
      assume ne: "k' \<noteq> k"
      show False
      proof (cases "k = idx \<or> k' = idx")
        case True
        then show False using ne old [of k] old [of k'] lv [OF k(1)] lv [OF k'(1)] k k' move_range(2,4) by (metis less_irrefl)
      next
        case False
        then show False using assms(2) lv [OF k(1)] lv [OF k'(1)] k k' move_range(2) ne by (metis gens_ok_def)
      qed
    qed
  qed
  moreover have "stale_handle rng s'" if st: "stale_handle rng s"
    unfolding stale_handle_def
  proof (intro conjI allI impI)
    have lt': "RangeGeneration rng < ?c" using st move_range(5) by (simp add: stale_handle_def)
    then show "gKvaRangeGenerationCounter s' = 0 \<or> RangeGeneration rng < gKvaRangeGenerationCounter s'" using lt move_range(6) by auto
    show "RangeArena rng \<noteq> KE_KVA_ARENA_FIXMAP" using st by (simp add: stale_handle_def)
    show "RecGeneration (gKvaRanges s' k) \<noteq> RangeGeneration rng" if "live s' k" "RecArena (gKvaRanges s' k) \<noteq> KE_KVA_ARENA_FIXMAP" for k
      using st lv [OF that(1)] move_range(2,4) lt' that by (cases "k = idx") (auto simp: stale_handle_def)
  qed
  ultimately show ?thesis by blast
next
  case (move_slot idx i pa attrs)
  have i: "i < 64" and rs: "gKvaRanges s' = (gKvaRanges s)(idx := slot_record idx i (gFixmapSlotGenerations s (word_of_nat i) + 1))"
    using move_slot(2) by (simp_all add: slot_mapped_def Let_def)
  have "live s k \<and> gKvaRanges s' k = gKvaRanges s k" if "live s' k" "RecArena (gKvaRanges s' k) \<noteq> KE_KVA_ARENA_FIXMAP" for k
    using that slot_record_simps(6) [OF i] by (auto simp: rs live_def split: if_splits)
  then show ?thesis using move_slot(3) by (intro gens_sub [OF _ _ assms(2)]) auto
qed

lemma token_move:
  assumes "records_move s s'" "stale_token tok s"
  shows "stale_token tok s'"
proof -
  obtain slot g where d: "KiDecodeTempMapHandle tok = Inr (slot, g)" and le: "g \<le> gFixmapSlotGenerations s (ucast slot)"
    and no: "\<And>k. g = gFixmapSlotGenerations s (ucast slot) \<Longrightarrow> live s k \<Longrightarrow> RecArena (gKvaRanges s k) = KE_KVA_ARENA_FIXMAP \<Longrightarrow> rec_first (gKvaRanges s k) \<noteq> unat slot"
    using assms(2) by (auto simp: stale_token_def)
  have "g \<le> gFixmapSlotGenerations s' (ucast slot) \<and> (g = gFixmapSlotGenerations s' (ucast slot) \<longrightarrow>
      (\<forall>k. live s' k \<longrightarrow> RecArena (gKvaRanges s' k) = KE_KVA_ARENA_FIXMAP \<longrightarrow> rec_first (gKvaRanges s' k) \<noteq> unat slot))"
    using assms(1)
  proof cases
    case move_leave
    have g': "gFixmapSlotGenerations s (ucast slot) \<le> gFixmapSlotGenerations s' (ucast slot)" by (rule move_leave(3))
    have same: "g = gFixmapSlotGenerations s (ucast slot)" if "g = gFixmapSlotGenerations s' (ucast slot)" using le g' that by simp
    have "rec_first (gKvaRanges s' k) \<noteq> unat slot" if "g = gFixmapSlotGenerations s' (ucast slot)" "live s' k" "RecArena (gKvaRanges s' k) = KE_KVA_ARENA_FIXMAP" for k
      using no [OF same [OF that(1)], of k] move_leave(1) [OF that(2)] that(3) by simp
    then show ?thesis using order_trans [OF le g'] by blast
  next
    case (move_range idx)
    have "live s k \<and> gKvaRanges s' k = gKvaRanges s k" if "live s' k" "RecArena (gKvaRanges s' k) = KE_KVA_ARENA_FIXMAP" for k
      using that move_range(2) [of k] move_range(3) by (cases "k = idx") (auto simp: live_def)
    then show ?thesis using le no move_range(7) by metis
  next
    case (move_slot idx i pa attrs)
    define h where "h = gFixmapSlotGenerations s (word_of_nat i) + 1"
    have i: "i < 64" and rs: "gKvaRanges s' = (gKvaRanges s)(idx := slot_record idx i h)" and h: "0 < h"
      and gs: "gFixmapSlotGenerations s' = (gFixmapSlotGenerations s)(word_of_nat i := h)"
      using move_slot(2) by (simp_all add: slot_mapped_def Let_def h_def)
    have inc: "gFixmapSlotGenerations s (word_of_nat i) < h" using counter_step [of "gFixmapSlotGenerations s (word_of_nat i)"] h by (auto simp: h_def)
    have eq: "(ucast slot :: u64) = word_of_nat i \<longleftrightarrow> unat slot = i"
    proof -
      have "unat (word_of_nat i :: u64) = i" using i by (simp add: unsigned_of_nat take_bit_nat_eq_self)
      then show ?thesis by (metis unat_ucast_u32 unat_eqI)
    qed
    have old: "live s k \<and> gKvaRanges s' k = gKvaRanges s k" if "live s' k" "k \<noteq> idx" for k using that by (auto simp: rs live_def)
    show ?thesis
    proof (cases "unat slot = i")
      case True
      then show ?thesis using eq gs le inc by auto
    next
      case False
      then have "rec_first (gKvaRanges s' idx) \<noteq> unat slot" using slot_record_simps(3) [OF i] rs by simp
      then show ?thesis using False eq gs le no old by (metis fun_upd_apply)
    qed
  qed
  then show ?thesis using d by (auto simp: stale_token_def)
qed

text \<open>Over any number of calls the invariants hold, and what is stale stays stale.\<close>

lemma kva_steps_effect:
  assumes "kva_step\<^sup>*\<^sup>* s s'" "kva_inv s" "gens_ok s"
  shows "kva_inv s' \<and> gens_ok s' \<and> (stale_handle rng s \<longrightarrow> stale_handle rng s') \<and> (stale_token tok s \<longrightarrow> stale_token tok s')"
  using assms(1)
proof (induction rule: rtranclp_induct)
  case base
  then show ?case using assms by simp
next
  case (step y z)
  note e = kva_step_effect [OF step(2)]
  then show ?case using step.IH gens_move [of y z rng] token_move [of y z tok] by blast
qed

lemma stale_handle_refused:
  assumes "stale_handle rng s"
  shows "KiKvaFindRecordById rng s = None"
proof (rule ccontr)
  assume "KiKvaFindRecordById rng s \<noteq> None"
  then obtain idx where f: "KiKvaFindRecordById rng s = Some idx" by blast
  have "RecArena (gKvaRanges s idx) = RangeArena rng" "RecGeneration (gKvaRanges s idx) = RangeGeneration rng"
    using f by (auto simp: KiKvaFindRecordById_def Let_def split: if_splits option.splits)
  then show False using assms find_by_id_Some(1) [OF f] by (simp add: stale_handle_def)
qed

lemma stale_token_refused: "stale_token tok s \<Longrightarrow> \<not> token_live tok s"
  by (auto simp: stale_token_def token_live_def)

lemma released_handle_stale:
  assumes inv: "kva_inv s" "gens_ok s" and nf: "RangeArena rng \<noteq> KE_KVA_ARENA_FIXMAP" and r: "KeKvaReleaseRangeHandle rng s = Done (EC_SUCCESS, s1)"
  shows "kva_inv s1" "gens_ok s1" "stale_handle rng s1"
proof -
  obtain idx where f: "KiKvaFindRecordById rng s = Some idx" using r KeKvaReleaseRangeHandle_effect(2) [OF inv(1), of rng] by fastforce
  have rel: "range_released idx s s1" using KeKvaReleaseRangeHandle_effect(1) [OF inv(1) f] r by auto
  note m = released_move [OF rel]
  show "kva_inv s1" by (rule m)
  show "gens_ok s1" using gens_move [OF m(2) inv(2)] by blast
  have q: "RecArena (gKvaRanges s idx) = RangeArena rng" "RecGeneration (gKvaRanges s idx) = RangeGeneration rng"
    using f by (auto simp: KiKvaFindRecordById_def Let_def split: if_splits option.splits)
  have rs: "gKvaRanges s1 = (gKvaRanges s)(idx := free_record idx)" "gKvaRangeGenerationCounter s1 = gKvaRangeGenerationCounter s"
    using rel by (simp_all add: range_released_def)
  have l: "k \<noteq> idx \<and> live s k \<and> gKvaRanges s1 k = gKvaRanges s k" if "live s1 k" for k using that by (auto simp: rs live_def free_record_def split: if_splits)
  show "stale_handle rng s1" unfolding stale_handle_def rs(2)
    using inv(2) find_by_id_Some(1) [OF f] q nf l by (metis gens_ok_def)
qed

lemma released_token_stale:
  assumes inv: "kva_inv s" and r: "KeTempPhysMapRelease tok s = Done (EC_SUCCESS, tok', s1)"
  shows "kva_inv s1" "stale_token tok s1"
proof -
  have tl: "token_live tok s" using r KeTempPhysMapRelease_effect(2) [OF inv, of tok] by fastforce
  obtain slot g idx where d: "KiDecodeTempMapHandle tok = Inr (slot, g)" and l: "live s idx"
    and a: "RecArena (gKvaRanges s idx) = KE_KVA_ARENA_FIXMAP" "rec_first (gKvaRanges s idx) = unat slot" and g: "gFixmapSlotGenerations s (ucast slot) = g"
    using tl by (auto simp: token_live_def)
  have f: "KiKvaFindRecordByUsableBase (page_va KE_KVA_ARENA_FIXMAP (unat slot)) s = Some idx"
    using find_by_usable_base [OF inv l] a by simp
  obtain s' where s': "KiKvaReleaseRecord idx s = Done (EC_SUCCESS, s')" "range_released idx s s'" using KiKvaReleaseRecord_effect [OF inv l] by blast
  then have rel: "range_released idx s s1" using r d f a(1) g by (simp add: KeTempPhysMapRelease_def slot_va)
  show i1: "kva_inv s1" by (rule released_move(1) [OF rel])
  have rs: "gKvaRanges s1 = (gKvaRanges s)(idx := free_record idx)" "gFixmapSlotGenerations s1 = gFixmapSlotGenerations s"
    using rel by (simp_all add: range_released_def)
  have "rec_first (gKvaRanges s1 k) \<noteq> unat slot" if "live s1 k" "RecArena (gKvaRanges s1 k) = KE_KVA_ARENA_FIXMAP" for k
  proof
    assume e: "rec_first (gKvaRanges s1 k) = unat slot"
    have k: "k \<noteq> idx" "live s k" "gKvaRanges s1 k = gKvaRanges s k" using that(1) by (auto simp: rs live_def free_record_def split: if_splits)
    have "Some k = Some idx" using find_by_usable_base [OF inv k(2)] e that(2) k(3) f by simp
    then show False using k(1) by simp
  qed
  then show "stale_token tok s1" using d g by (auto simp: stale_token_def rs)
qed

lemma acquired_token_released:
  assumes inv: "kva_inv s1" and m: "slot_mapped idx i pa attrs s s1" and idx: "idx < KE_KVA_MAX_RANGES"
  shows "\<exists>s2. KeTempPhysMapRelease (KiEncodeTempMapToken (word_of_nat i) (gFixmapSlotGenerations s (word_of_nat i) + 1)) s1 = Done (EC_SUCCESS, 0, s2) \<and>
    kmap s2 KE_KVA_ARENA_FIXMAP i = zero_mapping"
proof -
  define g where "g = gFixmapSlotGenerations s (word_of_nat i) + 1"
  have M: "i < 64" "0 < g" "g \<le> KE_TEMP_MAP_TOKEN_GENERATION_MASK" "gFixmapSlotGenerations s1 (word_of_nat i) = g" "gKvaRanges s1 idx = slot_record idx i g"
    using m by (simp_all add: slot_mapped_def Let_def g_def)
  note sr = slot_record_simps [OF M(1)]
  have u1: "unat (word_of_nat i :: u32) = i" using M(1) by (simp add: unsigned_of_nat take_bit_nat_eq_self)
  have u2: "(ucast (word_of_nat i :: u32) :: u64) = word_of_nat i"
    using M(1) u1 by (intro unat_eqI) (simp add: unsigned_of_nat take_bit_nat_eq_self)
  note u = u1 u2
  have d: "KiDecodeTempMapHandle (KiEncodeTempMapToken (word_of_nat i) g) = Inr (word_of_nat i, g)"
    using M by (intro token_round_trip) (simp_all add: word_less_nat_alt u)
  have l: "live s1 idx" using idx M(5) sr(5) by (simp add: live_def)
  have f: "KiKvaFindRecordByUsableBase (page_va KE_KVA_ARENA_FIXMAP i) s1 = Some idx" using find_by_usable_base [OF inv l] M(5) sr by simp
  obtain s2 where s2: "KiKvaReleaseRecord idx s1 = Done (EC_SUCCESS, s2)" "range_released idx s1 s2" using KiKvaReleaseRecord_effect [OF inv l] by blast
  have "kmap s2 KE_KVA_ARENA_FIXMAP i = zero_mapping"
    using s2(2) M(1) sr(1,6) by (simp add: range_released_def Let_def M(5) kva_pages.simps)
  then show ?thesis using d f s2(1) M u sr(6) by (simp add: KeTempPhysMapRelease_def slot_va g_def [symmetric])
qed

end
