(* ===== verification/KvaQuery.thy ===== *)
theory KvaQuery
  imports KvaSteps
begin

text \<open>
  Address classification agrees with the page tables, and initialisation establishes the
  invariant.
\<close>

section \<open>Classifying an address\<close>

text \<open>An address inside page \<open>i\<close> of an arena.\<close>

definition in_page :: "KE_KVA_ARENA_TYPE \<Rightarrow> nat \<Rightarrow> HO_VIRTUAL_ADDRESS \<Rightarrow> bool" where
  "in_page t i va \<longleftrightarrow> t \<noteq> KE_KVA_ARENA_MAX \<and> i < kva_pages t \<and> page_va t i \<le> va \<and> va < page_va t (Suc i)"

lemma in_page_unat:
  assumes "in_page t i va"
  shows "unat (kva_base t) + i * 4096 \<le> unat va" "unat va < unat (kva_base t) + i * 4096 + 4096"
  using assms unat_page_va [of t i] unat_page_va [of t "Suc i"] by (simp_all add: in_page_def word_le_nat_alt word_less_nat_alt)

lemma in_page_bounds:
  assumes "in_page t i va" "j \<le> kva_pages t"
  shows "page_va t j \<le> va \<longleftrightarrow> j \<le> i" "va < page_va t j \<longleftrightarrow> i < j"
proof -
  note u = in_page_unat [OF assms(1)] and p = unat_page_va [of t j]
  have t: "t \<noteq> KE_KVA_ARENA_MAX" using assms(1) by (simp add: in_page_def)
  have "page_va t j \<le> va \<longleftrightarrow> unat (kva_base t) + j * 4096 \<le> unat va" using p [OF t assms(2)] by (simp add: word_le_nat_alt)
  also have "\<dots> \<longleftrightarrow> j \<le> i"
  proof
    assume "unat (kva_base t) + j * 4096 \<le> unat va"
    then have "j * 4096 < (i + 1) * 4096" using u by simp
    then show "j \<le> i" by simp
  next
    assume "j \<le> i"
    then have "j * 4096 \<le> i * 4096" by simp
    then show "unat (kva_base t) + j * 4096 \<le> unat va" using u by linarith
  qed
  finally show "page_va t j \<le> va \<longleftrightarrow> j \<le> i" .
  then show "va < page_va t j \<longleftrightarrow> i < j" by (meson not_le)
qed

lemma arena_end: "layout_ok s \<Longrightarrow> t \<noteq> KE_KVA_ARENA_MAX \<Longrightarrow>
    ArenaBaseAddress (gKvaArenas s t) + ArenaSizeBytes (gKvaArenas s t) = page_va t (kva_pages t)"
  by (simp add: layout_okD page_va_def)

lemma in_arena_iff:
  assumes "layout_ok s" "t \<noteq> KE_KVA_ARENA_MAX" "in_page t' i va"
  shows "(ArenaBaseAddress (gKvaArenas s t) \<le> va \<and> va < ArenaBaseAddress (gKvaArenas s t) + ArenaSizeBytes (gKvaArenas s t)) \<longleftrightarrow> t = t'"
proof -
  note u = in_page_unat [OF assms(3)] and i = assms(3) [unfolded in_page_def]
  have b: "unat (ArenaBaseAddress (gKvaArenas s t)) = unat (kva_base t)" using layout_okD(2) [OF assms(1,2)] by simp
  have e: "unat (ArenaBaseAddress (gKvaArenas s t) + ArenaSizeBytes (gKvaArenas s t)) = unat (kva_base t) + kva_pages t * 4096"
    using arena_end [OF assms(1,2)] unat_page_va [OF assms(2) order_refl] by simp
  show ?thesis unfolding word_le_nat_alt word_less_nat_alt b e
    using u i assms(2) by (cases t; cases t'; simp add: arena_bases; linarith?)
qed

lemma locate_arena:
  assumes lay: "layout_ok s" and p: "in_page t i va"
  shows "KiKvaLocateArenaByAddress va s = Some (t, word_of_nat i)"
proof -
  have t: "t \<noteq> KE_KVA_ARENA_MAX" and i: "i < kva_pages t" using p by (simp_all add: in_page_def)
  define P where "P = (\<lambda>a. ArenaBaseAddress (gKvaArenas s a) \<le> va \<and> va < ArenaBaseAddress (gKvaArenas s a) + ArenaSizeBytes (gKvaArenas s a))"
  have P: "P a \<longleftrightarrow> a = t" if "a \<noteq> KE_KVA_ARENA_MAX" for a unfolding P_def by (rule in_arena_iff [OF lay that p])
  have "find P kva_arenas = Some t" using P t by (cases t) (simp_all add: kva_arenas_def)
  moreover have "drop_bit PAGE_SHIFT (va - ArenaBaseAddress (gKvaArenas s t)) = word_of_nat i"
  proof (rule unat_eqI)
    have "unat (va - kva_base t) = unat va - unat (kva_base t)" by (rule unat_sub_small) (use in_page_unat(1) [OF p] in simp)
    then have "unat (drop_bit 12 (va - kva_base t)) = (unat va - unat (kva_base t)) div 4096" by (simp add: unat_drop_bit)
    also have "\<dots> = i" using in_page_unat [OF p] by (intro div_nat_eqI) simp_all
    finally show "unat (drop_bit PAGE_SHIFT (va - ArenaBaseAddress (gKvaArenas s t))) = unat (word_of_nat i :: u64)"
      using layout_okD(2) [OF lay t] i kva_pages_le [of t] by (simp add: PAGE_SHIFT_def unsigned_of_nat take_bit_nat_eq_self)
  qed
  moreover have "(\<lambda>a. \<not> (va < ArenaBaseAddress (gKvaArenas s a) \<or> va \<ge> ArenaBaseAddress (gKvaArenas s a) + ArenaSizeBytes (gKvaArenas s a))) = P"
    by (auto simp: P_def fun_eq_iff not_le not_less)
  ultimately show ?thesis by (simp add: KiKvaLocateArenaByAddress_def Let_def)
qed

lemma find_by_address:
  assumes inv: "kva_inv s" and p: "in_page t i va"
  shows "KiKvaFindRecordByAddress t va s = Some idx \<longleftrightarrow> owner_of s t i idx"
proof -
  have ok: "records_ok s" and lay: "layout_ok s" using inv by (simp_all add: kva_inv_def records_ok_def)
  define P where "P = (\<lambda>k. let r = gKvaRanges s k in InUse r \<and> RecArena r = t \<and> (case KiKvaArenaState (RecArena r) s of None \<Rightarrow> False
     | Some arena \<Rightarrow> let baseAddress = ArenaBaseAddress arena + BasePageIndex r * PAGE_4KB; endExclusive = baseAddress + RecTotalPages r * PAGE_4KB
         in va \<ge> baseAddress \<and> va < endExclusive))"
  have P: "P k \<longleftrightarrow> owner_of s t i k" if "k < KE_KVA_MAX_RANGES" for k
  proof (cases "live s k \<and> RecArena (gKvaRanges s k) = t")
    case True
    let ?r = "gKvaRanges s k"
    have rk: "record_ok k ?r" using records_okD(2) [OF ok] True by simp
    note tt = layout_okD(1) [OF lay, of t] and b = usable_base_va(2) [OF lay rk]
    have e: "page_va t (unat (BasePageIndex ?r)) + RecTotalPages ?r * PAGE_4KB = page_va t (unat (BasePageIndex ?r) + unat (RecTotalPages ?r))"
      by (simp add: page_va_def algebra_simps)
    have le: "unat (BasePageIndex ?r) \<le> kva_pages t" "unat (BasePageIndex ?r) + unat (RecTotalPages ?r) \<le> kva_pages t" using rk True by (simp_all add: record_ok_def)
    have "P k \<longleftrightarrow> unat (BasePageIndex ?r) \<le> i \<and> i < unat (BasePageIndex ?r) + unat (RecTotalPages ?r)"
      using True tt b e in_page_bounds [OF p le(1)] in_page_bounds [OF p le(2)] p by (simp add: P_def Let_def live_def in_page_def)
    then show ?thesis using True by (simp add: owner_of_def rec_pages_def)
  next
    case False
    then show ?thesis using that by (auto simp: P_def Let_def owner_of_def live_def)
  qed
  have "find P [0..<KE_KVA_MAX_RANGES] = Some idx \<longleftrightarrow> owner_of s t i idx"
  proof -
    have "owner_of s t i idx \<Longrightarrow> idx < KE_KVA_MAX_RANGES" by (simp add: owner_of_def live_def)
    moreover have "\<not> owner_of s t i j" if "owner_of s t i idx" "j < idx" for j using records_okD(3) [OF ok that(1), of j] that(2) by auto
    ultimately show ?thesis unfolding find_upt_Some using P by (metis order.strict_trans)
  qed
  then show ?thesis by (simp add: KiKvaFindRecordByAddress_def P_def)
qed

lemma KeKvaClassifyAddress_effect:
  assumes inv: "kva_inv s" and p: "in_page t i va"
  shows "owner_of s t i idx \<Longrightarrow> i \<in> usable_pages (gKvaRanges s idx) \<Longrightarrow>
      \<exists>info rng. KeKvaClassifyAddress va s = (EC_SUCCESS, Some info) \<and> Kind info = KiKvaAddressKindFromArena t \<and> AddrArena info = t \<and>
        ArenaPageIndex info = word_of_nat i \<and> AddrRange info = Some rng \<and> KiKvaFindRecordById rng s = Some idx"
    and "owner_of s t i idx \<Longrightarrow> i \<notin> usable_pages (gKvaRanges s idx) \<Longrightarrow>
      \<exists>info rng. KeKvaClassifyAddress va s = (EC_SUCCESS, Some info) \<and> Kind info = KE_KVA_ADDRESS_GUARD_PAGE \<and> AddrArena info = t \<and>
        AddrRange info = Some rng \<and> KiKvaFindRecordById rng s = Some idx"
    and "page_state t i s = KE_KVA_PAGE_STATE_FREE \<Longrightarrow> \<exists>info. KeKvaClassifyAddress va s = (EC_SUCCESS, Some info) \<and> Kind info = KE_KVA_ADDRESS_FREE_HOLE"
    and "page_state t i s = KE_KVA_PAGE_STATE_RETIRED \<Longrightarrow> \<exists>info. KeKvaClassifyAddress va s = (EC_INVALID_STATE, Some info) \<and> Kind info = KE_KVA_ADDRESS_UNKNOWN"
proof -
  have ok: "records_ok s" and lay: "layout_ok s" and ini: "gKvaInitialized s" using inv by (simp_all add: kva_inv_def records_ok_def)
  have t: "t \<noteq> KE_KVA_ARENA_MAX" using p by (simp add: in_page_def)
  note L = locate_arena [OF lay p]
  have ps: "PageStates (gKvaArenas s t) (word_of_nat i) = page_state t i s" by (simp add: page_state_def)
  have kn: "KiKvaAddressKindFromArena t \<noteq> KE_KVA_ADDRESS_UNKNOWN" using t by (cases t) simp_all
  have rng: "\<exists>rng. KiKvaFillRangeFromRecord (gKvaRanges s idx) s = Inr rng \<and> KiKvaFindRecordById rng s = Some idx" if "owner_of s t i idx"
    using that fill_total [OF lay records_okD(2) [OF ok, of idx]] find_by_id [OF lay _ records_okD(2) [OF ok, of idx]] by (auto simp: owner_of_def)
  note unf = KeKvaClassifyAddress_def Let_def ini L ps
  show "\<exists>info rng. KeKvaClassifyAddress va s = (EC_SUCCESS, Some info) \<and> Kind info = KiKvaAddressKindFromArena t \<and> AddrArena info = t \<and>
        ArenaPageIndex info = word_of_nat i \<and> AddrRange info = Some rng \<and> KiKvaFindRecordById rng s = Some idx"
    if o: "owner_of s t i idx" and u: "i \<in> usable_pages (gKvaRanges s idx)"
    using rng [OF o] find_by_address [OF inv p, of idx] o kn records_okD(4) [OF ok o] u by (auto simp: unf)
  show "\<exists>info rng. KeKvaClassifyAddress va s = (EC_SUCCESS, Some info) \<and> Kind info = KE_KVA_ADDRESS_GUARD_PAGE \<and> AddrArena info = t \<and>
        AddrRange info = Some rng \<and> KiKvaFindRecordById rng s = Some idx"
    if o: "owner_of s t i idx" and u: "i \<notin> usable_pages (gKvaRanges s idx)"
    using rng [OF o] find_by_address [OF inv p, of idx] o records_okD(4) [OF ok o] u by (auto simp: unf)
  show "\<exists>info. KeKvaClassifyAddress va s = (EC_SUCCESS, Some info) \<and> Kind info = KE_KVA_ADDRESS_FREE_HOLE" if "page_state t i s = KE_KVA_PAGE_STATE_FREE"
    using that by (simp add: unf)
  show "\<exists>info. KeKvaClassifyAddress va s = (EC_INVALID_STATE, Some info) \<and> Kind info = KE_KVA_ADDRESS_UNKNOWN" if r: "page_state t i s = KE_KVA_PAGE_STATE_RETIRED"
  proof -
    have "\<not> owner_of s t i k" for k using records_okD(4) [OF ok, of t i k] r by (auto split: if_splits)
    then have "KiKvaFindRecordByAddress t va s = None" using find_by_address [OF inv p] by (cases "KiKvaFindRecordByAddress t va s") auto
    then show ?thesis using r by (simp add: unf)
  qed
qed

lemma mapped_page_classified:
  assumes inv: "kva_inv s" and p: "in_page t i va" and m: "Present (kmap s t i)"
  shows "\<exists>info. KeKvaClassifyAddress va s = (EC_SUCCESS, Some info) \<and> Kind info = KiKvaAddressKindFromArena t"
proof -
  have ok: "records_ok s" "maps_ok s" and t: "t \<noteq> KE_KVA_ARENA_MAX" "i < kva_pages t" using inv p by (simp_all add: kva_inv_def in_page_def)
  have al: "page_state t i s = KE_KVA_PAGE_STATE_ALLOC" using maps_okD(4) [OF ok(2) t m] by simp
  then obtain idx where o: "owner_of s t i idx" using records_okD(5) [OF ok(1) t] by auto
  have "i \<in> usable_pages (gKvaRanges s idx)" using records_okD(4) [OF ok(1) o] al by (auto split: if_splits)
  then show ?thesis using KeKvaClassifyAddress_effect(1) [OF inv p o] by blast
qed

section \<open>Initialisation\<close>

lemma require_unmapped_pages:
  assumes "SpaceInitialized sp" "t \<noteq> KE_KVA_ARENA_MAX" "i + n \<le> kva_pages t" "require_unmapped (page_va t i) n sp s = EC_SUCCESS"
  shows "i \<le> j \<Longrightarrow> j < i + n \<Longrightarrow> \<not> Present (page_mapping (PhysMem s) (RootPageTablePhys sp) (page_va t j))"
  using assms(3,4)
proof (induction n arbitrary: i)
  case (Suc n)
  have q: "KePtQueryPage (Some sp) (page_va t i) s = Inr (page_mapping (PhysMem s) (RootPageTablePhys sp) (page_va t i))"
    using Suc.prems(3) by (intro KePtQueryPage_mapping page_va_aligned assms(1,2)) simp
  then have n: "\<not> Present (page_mapping (PhysMem s) (RootPageTablePhys sp) (page_va t i))"
    and r: "require_unmapped (page_va t (Suc i)) n sp s = EC_SUCCESS" using Suc.prems(4) by (simp_all add: page_va_add split: if_splits)
  show ?case
  proof (cases "j = i")
    case False
    then show ?thesis using Suc.IH [of "Suc i"] Suc.prems r by simp
  qed (use n in simp)
qed simp

lemma first_failure_success: "first_failure sts = EC_SUCCESS \<longleftrightarrow> (\<forall>st \<in> set sts. st = EC_SUCCESS)"
  by (induction sts) auto

lemma KeKvaInit_effect:
  assumes k: "KeKvaInit s = (EC_SUCCESS, s')" and pt: "pt_ok s (kroot s)"
    and fr: "\<And>p. frames s p \<noteq> None \<Longrightarrow> p AND KE_PT_PHYS_ADDR_MASK = p"
  shows "kva_inv s'" "gens_ok s'" "gKvaRangeGenerationCounter s' = 1"
proof -
  define ar where "ar = (\<lambda>t. case t of
       KE_KVA_ARENA_STACK \<Rightarrow> \<lparr>ArenaBaseAddress = KE_KVA_STACK_ARENA_BASE, ArenaSizeBytes = KE_KVA_STACK_ARENA_SIZE, ArenaPageCount = KE_KVA_STACK_ARENA_PAGES, PageStates = (\<lambda>_. 0)\<rparr>
     | KE_KVA_ARENA_FIXMAP \<Rightarrow> \<lparr>ArenaBaseAddress = KE_KVA_FIXMAP_ARENA_BASE, ArenaSizeBytes = KE_KVA_FIXMAP_ARENA_SIZE, ArenaPageCount = KE_KVA_FIXMAP_ARENA_PAGES, PageStates = (\<lambda>_. 0)\<rparr>
     | KE_KVA_ARENA_HEAP \<Rightarrow> \<lparr>ArenaBaseAddress = KE_KVA_HEAP_ARENA_BASE, ArenaSizeBytes = KE_KVA_HEAP_ARENA_SIZE, ArenaPageCount = KE_KVA_HEAP_ARENA_PAGES, PageStates = (\<lambda>_. 0)\<rparr>
     | KE_KVA_ARENA_MAX \<Rightarrow> gKvaArenas s KE_KVA_ARENA_MAX)"
  define s1 where "s1 = s\<lparr>gKvaRanges := (\<lambda>idx. (free_record 0)\<lparr>RecRecordId := 0\<rparr>), gKvaArenas := ar\<rparr>"
  have f: "first_failure (map (\<lambda>t. KiKvaValidateArena (gKvaArenas s1 t) True s1) kva_arenas) = EC_SUCCESS"
    and s': "s' = s1\<lparr>gKvaRanges := free_record, gFixmapSlotGenerations := (\<lambda>_. 0), gKvaRangeGenerationCounter := 1, gKvaInitialized := True\<rparr>"
    using k by (auto simp: KeKvaInit_def Let_def s1_def ar_def split: if_splits)
  have v: "KiKvaValidateArena (ar t) True s1 = EC_SUCCESS" if "t \<noteq> KE_KVA_ARENA_MAX" for t
    using f that unfolding first_failure_success by (cases t) (simp_all add: kva_arenas_def s1_def)
  have pc: "unat (ArenaPageCount (ar t)) = kva_pages t" "ArenaBaseAddress (ar t) = kva_base t" "ArenaSizeBytes (ar t) = word_of_nat (kva_pages t) * PAGE_4KB"
    "PageStates (ar t) i = KE_KVA_PAGE_STATE_FREE" if "t \<noteq> KE_KVA_ARENA_MAX" for t i
    using that by (cases t; simp add: ar_def arena_sizes PAGE_4KB_def KE_KVA_PAGE_STATE_FREE_def)+
  have sp: "SpaceInitialized (gKernelAddressSpace s)" using v [of KE_KVA_ARENA_STACK]
    by (auto simp: KiKvaValidateArena_def KeGetKernelAddressSpace_def s1_def split: if_splits)
  have ks: "KeGetKernelAddressSpace s1 = Some (gKernelAddressSpace s)" using sp by (simp add: KeGetKernelAddressSpace_def s1_def)
  have np: "\<not> Present (kmap s t i)" if "t \<noteq> KE_KVA_ARENA_MAX" "i < kva_pages t" for t i
  proof -
    have "require_unmapped (page_va t 0) (kva_pages t) (gKernelAddressSpace s) s1 = EC_SUCCESS"
      using v [OF that(1)] pc [OF that(1)] sp by (auto simp: KiKvaValidateArena_def ks page_va_def split: if_splits)
    then show ?thesis using require_unmapped_pages [OF sp that(1), of 0 "kva_pages t" s1 i] that(2) by (simp add: kmap_def kroot_def s1_def)
  qed
  have nl: "\<not> live s' j" for j by (simp add: live_def s' free_record_def)
  have no: "\<not> owner_of s' t i j" for t i j using nl by (simp add: owner_of_def)
  have "layout_ok s'" using pc by (simp add: layout_ok_def s' s1_def)
  then have "records_ok s'" unfolding records_ok_def using nl no pc(4) by (simp add: page_state_def s' s1_def)
  moreover have "maps_ok s'"
  proof -
    have vm: "PhysMem s' = PhysMem s" "gKernelAddressSpace s' = gKernelAddressSpace s" "gPmmDevice s' = gPmmDevice s" by (simp_all add: s' s1_def)
    show ?thesis unfolding maps_ok_def vm_same [OF vm] vm(2) owned_page_def using sp pt fr np no by auto
  qed
  ultimately show "kva_inv s'" by (simp add: kva_inv_def s')
  show "gens_ok s'" using nl by (simp add: gens_ok_def)
  show "gKvaRangeGenerationCounter s' = 1" by (simp add: s')
qed

end
