(* ===== verification/KvaBlocks.thy ===== *)
theory KvaBlocks
  imports KvaQuery
begin

text \<open>
  The interface through which the pool and the kernel heap get their memory, and the heap pages
  of the virtual address allocator as its implementation.
\<close>

section \<open>The contract of a page source\<close>

text \<open>Blocks of pages that a client holds: \<open>block s b n\<close> says that the \<open>n\<close> pages from \<open>b\<close> on are one.\<close>

definition apart :: "HO_VIRTUAL_ADDRESS \<Rightarrow> nat \<Rightarrow> HO_VIRTUAL_ADDRESS \<Rightarrow> nat \<Rightarrow> bool" where
  "apart b n c m \<longleftrightarrow> unat b + n * 4096 \<le> unat c \<or> unat c + m * 4096 \<le> unat b"

locale page_source =
  fixes inv :: "'s \<Rightarrow> bool" and block :: "'s \<Rightarrow> HO_VIRTUAL_ADDRESS \<Rightarrow> nat \<Rightarrow> bool"
    and alloc :: "u64 \<Rightarrow> 's \<Rightarrow> (HO_VIRTUAL_ADDRESS result \<times> 's) outcome"
    and free :: "HO_VIRTUAL_ADDRESS \<Rightarrow> 's \<Rightarrow> (ho_status \<times> 's) outcome"
  assumes alloc_total: "inv s \<Longrightarrow> \<exists>r s'. alloc n s = Done (r, s') \<and> inv s'"
    and alloc_failed: "inv s \<Longrightarrow> alloc n s = Done (Inl e, s') \<Longrightarrow> e \<noteq> EC_SUCCESS \<and> block s' b m = block s b m"
    and alloc_block: "inv s \<Longrightarrow> alloc n s = Done (Inr base, s') \<Longrightarrow> block s' b m \<longleftrightarrow> b = base \<and> m = unat n \<or> block s b m"
    and alloc_apart: "inv s \<Longrightarrow> alloc n s = Done (Inr base, s') \<Longrightarrow> block s b m \<Longrightarrow> apart base (unat n) b m"
    and free_block: "inv s \<Longrightarrow> block s base k \<Longrightarrow>
      \<exists>s'. free base s = Done (EC_SUCCESS, s') \<and> inv s' \<and> (\<forall>b m. block s' b m \<longleftrightarrow> block s b m \<and> b \<noteq> base)"
    and block_bounds: "inv s \<Longrightarrow> block s b m \<Longrightarrow> 0 < m \<and> unat b mod 4096 = 0 \<and> 0 < unat b \<and> unat b + m * 4096 < 2 ^ 64"
    and block_apart: "inv s \<Longrightarrow> block s b m \<Longrightarrow> block s c k \<Longrightarrow> b \<noteq> c \<Longrightarrow> apart b m c k"
    and block_size: "inv s \<Longrightarrow> block s b m \<Longrightarrow> block s b k \<Longrightarrow> m = k"
begin

lemma alloc_fresh:
  assumes "inv s" "alloc n s = Done (Inr base, s')"
  shows "\<not> block s base m"
proof
  assume b: "block s base m"
  have "inv s'" using alloc_total [OF assms(1), of n] assms(2) by auto
  then have "0 < m" using block_bounds [OF assms(1) b] by simp
  moreover have "0 < unat n" using block_bounds [OF \<open>inv s'\<close>, of base "unat n"] alloc_block [OF assms, of base "unat n"] by simp
  ultimately show False using alloc_apart [OF assms b] by (simp add: apart_def)
qed

text \<open>What is allocated and freed again leaves the blocks as they were.\<close>

lemma alloc_free:
  assumes "inv s" "alloc n s = Done (Inr base, s1)"
  shows "\<exists>s2. free base s1 = Done (EC_SUCCESS, s2) \<and> inv s2 \<and> (\<forall>b m. block s2 b m = block s b m)"
proof -
  have i1: "inv s1" using alloc_total [OF assms(1), of n] assms(2) by auto
  have "block s1 base (unat n)" using alloc_block [OF assms] by simp
  then obtain s2 where "free base s1 = Done (EC_SUCCESS, s2)" "inv s2" "\<forall>b m. block s2 b m \<longleftrightarrow> block s1 b m \<and> b \<noteq> base"
    using free_block [OF i1] by blast
  then show ?thesis using alloc_block [OF assms] alloc_fresh [OF assms] by (intro exI [of _ s2]) metis
qed

text \<open>Freeing several blocks, each checked as the clients check it.\<close>

lemma free_all:
  assumes "inv s" "distinct bs" "\<forall>b \<in> set bs. \<exists>n. block s b n"
  shows "\<exists>s'. run_all (\<lambda>b s. bind_outcome (free b s) (\<lambda>(st, s). HO_KASSERT (st = EC_SUCCESS) st (Done s))) bs s = Done s' \<and>
    inv s' \<and> (\<forall>b m. block s' b m \<longleftrightarrow> block s b m \<and> b \<notin> set bs)"
  using assms
proof (induction bs arbitrary: s)
  case (Cons b bs)
  obtain n where n: "block s b n" using Cons.prems(3) by auto
  obtain s1 where s1: "free b s = Done (EC_SUCCESS, s1)" "inv s1" "\<forall>c m. block s1 c m \<longleftrightarrow> block s c m \<and> c \<noteq> b"
    using free_block [OF Cons.prems(1) n] by blast
  have "\<forall>c \<in> set bs. \<exists>n. block s1 c n" using s1(3) Cons.prems(2,3) by auto
  then obtain s' where "run_all (\<lambda>b s. bind_outcome (free b s) (\<lambda>(st, s). HO_KASSERT (st = EC_SUCCESS) st (Done s))) bs s1 = Done s'"
    "inv s'" "\<forall>c m. block s' c m \<longleftrightarrow> block s1 c m \<and> c \<notin> set bs"
    using Cons.IH [OF s1(2)] Cons.prems(2) by auto
  then show ?case using s1 by (auto simp: HO_KASSERT_def)
qed simp

end

section \<open>Heap pages as a page source\<close>

definition heap_block :: "'a kva_globals_scheme \<Rightarrow> HO_VIRTUAL_ADDRESS \<Rightarrow> nat \<Rightarrow> bool" where
  "heap_block s base n \<longleftrightarrow> (\<exists>idx. live s idx \<and> RecArena (gKvaRanges s idx) = KE_KVA_ARENA_HEAP \<and>
     rec_pages (gKvaRanges s idx) = {rec_first (gKvaRanges s idx)..<rec_first (gKvaRanges s idx) + n} \<and>
     unat (RecUsablePages (gKvaRanges s idx)) = n \<and> base = page_va KE_KVA_ARENA_HEAP (rec_first (gKvaRanges s idx)))"

lemma heap_blockE:
  assumes inv: "kva_inv s" and b: "heap_block s base n"
  obtains idx i where "live s idx" "RecArena (gKvaRanges s idx) = KE_KVA_ARENA_HEAP" "rec_first (gKvaRanges s idx) = i"
    "rec_pages (gKvaRanges s idx) = {i..<i + n}" "base = page_va KE_KVA_ARENA_HEAP i" "0 < n" "i + n \<le> 16384"
    "unat base = 0xFFFF808002200000 + i * 4096" "unat (RecUsablePages (gKvaRanges s idx)) = n"
proof -
  obtain idx where i: "live s idx" "RecArena (gKvaRanges s idx) = KE_KVA_ARENA_HEAP"
    "rec_pages (gKvaRanges s idx) = {rec_first (gKvaRanges s idx)..<rec_first (gKvaRanges s idx) + n}"
    "base = page_va KE_KVA_ARENA_HEAP (rec_first (gKvaRanges s idx))" "unat (RecUsablePages (gKvaRanges s idx)) = n" using b by (auto simp: heap_block_def)
  have ok: "record_ok idx (gKvaRanges s idx)" using records_okD(2) [of s, OF _ i(1)] inv by (simp add: kva_inv_def)
  have ne: "rec_first (gKvaRanges s idx) \<in> rec_pages (gKvaRanges s idx)"
    using ok by (auto simp: record_ok_def rec_first_def rec_pages_def)
  then have n: "0 < n" using i(3) by simp
  have sub: "rec_pages (gKvaRanges s idx) \<subseteq> {..<16384}" using ok i(2) by (auto simp: record_ok_def rec_pages_def)
  have "rec_first (gKvaRanges s idx) + n - 1 \<in> rec_pages (gKvaRanges s idx)" unfolding i(3) using n by simp
  then have le: "rec_first (gKvaRanges s idx) + n \<le> 16384" using sub n by fastforce
  have "unat base = 0xFFFF808002200000 + rec_first (gKvaRanges s idx) * 4096"
    unfolding i(4) using le unat_page_va [of KE_KVA_ARENA_HEAP "rec_first (gKvaRanges s idx)"] by (simp add: arena_bases)
  then show thesis using that [OF i(1,2) refl i(3,4) n le] i(5) by simp
qed

lemma heap_block_apart:
  assumes inv: "kva_inv s" and b: "heap_block s b m" "heap_block s c k"
  shows "b \<noteq> c \<Longrightarrow> apart b m c k" "b = c \<Longrightarrow> m = k"
proof -
  obtain x i where x: "live s x" "RecArena (gKvaRanges s x) = KE_KVA_ARENA_HEAP" "rec_first (gKvaRanges s x) = i" "rec_pages (gKvaRanges s x) = {i..<i + m}"
    "b = page_va KE_KVA_ARENA_HEAP i" "0 < m" "i + m \<le> 16384" "unat b = 0xFFFF808002200000 + i * 4096"
    by (rule heap_blockE [OF inv b(1)])
  obtain y j where y: "live s y" "RecArena (gKvaRanges s y) = KE_KVA_ARENA_HEAP" "rec_first (gKvaRanges s y) = j" "rec_pages (gKvaRanges s y) = {j..<j + k}"
    "c = page_va KE_KVA_ARENA_HEAP j" "0 < k" "j + k \<le> 16384" "unat c = 0xFFFF808002200000 + j * 4096"
    by (rule heap_blockE [OF inv b(2)])
  have one: "x = y" if "p \<in> {i..<i + m}" "p \<in> {j..<j + k}" for p
    using records_okD(3) [of s KE_KVA_ARENA_HEAP p x y] inv x(1,2,4) y(1,2,4) that by (simp add: owner_of_def kva_inv_def)
  show "apart b m c k" if "b \<noteq> c"
  proof -
    have "x \<noteq> y" using that x(3,5) y(3,5) by auto
    then have "\<not> (i \<le> j \<and> j < i + m)" "\<not> (j \<le> i \<and> i < j + k)" using one [of j] one [of i] x(6) y(6) by auto
    then have "i + m \<le> j \<or> j + k \<le> i" by linarith
    then have "(i + m) * 4096 \<le> j * 4096 \<or> (j + k) * 4096 \<le> i * 4096" using mult_le_mono1 by blast
    then show ?thesis unfolding apart_def x(8) y(8) by (auto simp: algebra_simps)
  qed
  show "m = k" if "b = c"
  proof -
    have ij: "i = j" using that x(8) y(8) by simp
    then have "x = y" using one [of i] x(6) y(6) by simp
    then show ?thesis using x(4) y(4) ij by (metis add_left_cancel card_atLeastLessThan diff_add_inverse)
  qed
qed

lemma heap_pages_block:
  assumes "heap_pages n idx b s s'" "kva_inv s'" "0 < unat n"
  shows "heap_block s' c m \<longleftrightarrow> c = page_va KE_KVA_ARENA_HEAP b \<and> m = unat n \<or> heap_block s c m"
proof -
  note H = assms(1) [unfolded heap_pages_def]
  have l: "live s' j \<longleftrightarrow> j = idx \<or> live s j" for j using H by (cases "j = idx") (auto simp: live_def)
  have r: "gKvaRanges s' j = gKvaRanges s j" if "live s j" for j using H that by metis
  have new: "rec_first (gKvaRanges s' idx) = b" "rec_pages (gKvaRanges s' idx) = {b..<b + unat n}" "RecArena (gKvaRanges s' idx) = KE_KVA_ARENA_HEAP" "RecUsablePages (gKvaRanges s' idx) = n" using H by blast+
  have eqn: "{b..<b + unat n} = {b..<b + m} \<longleftrightarrow> m = unat n" using assms(3) by (metis card_atLeastLessThan diff_add_inverse)
  have "heap_block s' c m \<longleftrightarrow> (c = page_va KE_KVA_ARENA_HEAP b \<and> {b..<b + unat n} = {b..<b + m} \<and> unat n = m) \<or> heap_block s c m"
    unfolding heap_block_def l using new r by auto
  then show ?thesis using eqn by auto
qed

lemma live_same_block:
  assumes "\<forall>j. live s' j = live s j" "\<forall>j. live s j \<longrightarrow> gKvaRanges s' j = gKvaRanges s j"
  shows "heap_block s' b m = heap_block s b m"
  unfolding heap_block_def using assms by metis


interpretation kheap: page_source kva_inv heap_block KeHeapAllocPages KeHeapFreePages
proof unfold_locales
  fix s s' :: "'a kva_globals_scheme" and n :: u64 and b c base :: HO_VIRTUAL_ADDRESS and m k :: nat and e
  show "\<exists>r s'. KeHeapAllocPages n s = Done (r, s') \<and> kva_inv s'" if "kva_inv s"
    using KeHeapAllocPages_effect [OF that, of n] by blast
  show "e \<noteq> EC_SUCCESS \<and> heap_block s' b m = heap_block s b m" if "kva_inv s" "KeHeapAllocPages n s = Done (Inl e, s')"
    using KeHeapAllocPages_effect [OF that(1), of n] that(2) live_same_block by auto
  show "heap_block s' b m \<longleftrightarrow> b = base \<and> m = unat n \<or> heap_block s b m" if inv: "kva_inv s" and a: "KeHeapAllocPages n s = Done (Inr base, s')"
  proof -
    obtain idx i where "base = page_va KE_KVA_ARENA_HEAP i" "heap_pages n idx i s s'" "kva_inv s'"
      using KeHeapAllocPages_effect [OF inv, of n] a by auto
    moreover have "0 < unat n" using inv a by (auto simp: KeHeapAllocPages_def unat_gt_0 split: if_splits)
    ultimately show ?thesis using heap_pages_block by blast
  qed
  show "apart base (unat n) b m" if inv: "kva_inv s" and a: "KeHeapAllocPages n s = Done (Inr base, s')" and hb': "heap_block s b m"
  proof -
    obtain idx i where hp: "base = page_va KE_KVA_ARENA_HEAP i" "heap_pages n idx i s s'" "kva_inv s'"
      using KeHeapAllocPages_effect [OF inv, of n] a by auto
    have n0: "0 < unat n" using inv a by (auto simp: KeHeapAllocPages_def unat_gt_0 split: if_splits)
    note hb = heap_pages_block [OF hp(2,3) n0]
    have "base \<noteq> b"
    proof
      assume e: "base = b"
      obtain x j where x: "live s x" "RecArena (gKvaRanges s x) = KE_KVA_ARENA_HEAP" "rec_pages (gKvaRanges s x) = {j..<j + m}" "b = page_va KE_KVA_ARENA_HEAP j" "0 < m" "j + m \<le> 16384"
        by (rule heap_blockE [OF inv hb'])
      have "i + unat n \<le> 16384" using hp(2) by (simp add: heap_pages_def)
      then have "i = j" using e hp(1) x(4,5,6) n0 page_va_inj [of KE_KVA_ARENA_HEAP KE_KVA_ARENA_HEAP i j] by simp
      then have o: "owner_of s KE_KVA_ARENA_HEAP i x" using x by (simp add: owner_of_def)
      have "page_state KE_KVA_ARENA_HEAP i s = KE_KVA_PAGE_STATE_FREE" using hp(2) n0 by (simp add: heap_pages_def)
      then show False using unowned_free [of s KE_KVA_ARENA_HEAP i x] o inv by (simp add: kva_inv_def)
    qed
    then show ?thesis using heap_block_apart(1) [OF hp(3), of base "unat n" b m] hb hp(1) hb' by simp
  qed
  show "\<exists>s'. KeHeapFreePages base s = Done (EC_SUCCESS, s') \<and> kva_inv s' \<and> (\<forall>b m. heap_block s' b m \<longleftrightarrow> heap_block s b m \<and> b \<noteq> base)"
    if inv: "kva_inv s" and b: "heap_block s base k"
  proof -
    obtain x j where x: "live s x" "RecArena (gKvaRanges s x) = KE_KVA_ARENA_HEAP" "rec_first (gKvaRanges s x) = j" "rec_pages (gKvaRanges s x) = {j..<j + k}" "base = page_va KE_KVA_ARENA_HEAP j"
      by (rule heap_blockE [OF inv b])
    obtain s' where s': "KeKvaReleaseRange base s = Done (EC_SUCCESS, s')" "range_released x s s'"
      using KeKvaReleaseRange_effect [OF inv x(1)] x by auto
    have rs: "gKvaRanges s' = (gKvaRanges s)(x := free_record x)" using s'(2) by (simp add: range_released_def)
    have l: "live s' y \<longleftrightarrow> live s y \<and> y \<noteq> x" for y using rs by (auto simp: live_def free_record_def)
    have same: "gKvaRanges s' y = gKvaRanges s y" if "y \<noteq> x" for y using rs that by simp
    have uniq: "y = x" if "live s y" "RecArena (gKvaRanges s y) = KE_KVA_ARENA_HEAP" "base = page_va KE_KVA_ARENA_HEAP (rec_first (gKvaRanges s y))" for y
      using find_by_usable_base [OF inv that(1)] find_by_usable_base [OF inv x(1)] x that by simp
    define Q where "Q = (\<lambda>(z :: 'a kva_globals_scheme) b m y. RecArena (gKvaRanges z y) = KE_KVA_ARENA_HEAP \<and>
       rec_pages (gKvaRanges z y) = {rec_first (gKvaRanges z y)..<rec_first (gKvaRanges z y) + m} \<and>
       unat (RecUsablePages (gKvaRanges z y)) = m \<and> b = page_va KE_KVA_ARENA_HEAP (rec_first (gKvaRanges z y)))"
    have Q: "Q s' b m y = Q s b m y" if "y \<noteq> x" for b m y using same [OF that] by (simp add: Q_def)
    have Qx: "b = base" if "Q s b m x" for b m using that x by (simp add: Q_def)
    have Qu: "y = x" if "live s y" "Q s base m y" for y m using uniq [OF that(1)] that(2) by (simp add: Q_def)
    have "heap_block z b m \<longleftrightarrow> (\<exists>y. live z y \<and> Q z b m y)" for z :: "'a kva_globals_scheme" and b m by (simp add: heap_block_def Q_def)
    then have "heap_block s' b m \<longleftrightarrow> heap_block s b m \<and> b \<noteq> base" for b m using l Q Qx Qu by metis
    then show ?thesis using s' by (intro exI [of _ s']) (simp add: KeHeapFreePages_def range_released_def)
  qed
  show "0 < m \<and> unat b mod 4096 = 0 \<and> 0 < unat b \<and> unat b + m * 4096 < 2 ^ 64" if inv: "kva_inv s" and b: "heap_block s b m"
  proof -
    obtain j where "0 < m" "j + m \<le> 16384" "unat b = 0xFFFF808002200000 + j * 4096" by (rule heap_blockE [OF inv b])
    then show ?thesis by simp
  qed
  show "apart b m c k" if "kva_inv s" "heap_block s b m" "heap_block s c k" "b \<noteq> c" using heap_block_apart(1) [OF that] .
  show "m = k" if "kva_inv s" "heap_block s b m" "heap_block s b k" using heap_block_apart(2) [OF that refl] .
qed

section \<open>Asking for the range of an address\<close>

text \<open>A page source that can be asked which block starts at an address.\<close>

locale page_directory = page_source inv block alloc free
  for inv :: "'s \<Rightarrow> bool" and block :: "'s \<Rightarrow> HO_VIRTUAL_ADDRESS \<Rightarrow> nat \<Rightarrow> bool"
    and alloc :: "u64 \<Rightarrow> 's \<Rightarrow> (HO_VIRTUAL_ADDRESS result \<times> 's) outcome"
    and free :: "HO_VIRTUAL_ADDRESS \<Rightarrow> 's \<Rightarrow> (ho_status \<times> 's) outcome" +
  fixes query :: "HO_VIRTUAL_ADDRESS \<Rightarrow> 's \<Rightarrow> KE_KVA_RANGE result"
  assumes query_block: "inv s \<Longrightarrow> block s b n \<Longrightarrow>
      \<exists>rng. query b s = Inr rng \<and> RangeArena rng = KE_KVA_ARENA_HEAP \<and> RangeUsableBase rng = b \<and> unat (RangeUsablePages rng) = n"
    and query_freed: "inv s \<Longrightarrow> block s b n \<Longrightarrow> free b s = Done (st, s') \<Longrightarrow> \<exists>e. query b s' = Inl e"
begin

lemma query_allocated:
  assumes "inv s" "alloc n s = Done (Inr base, s')"
  shows "\<exists>rng. query base s' = Inr rng \<and> RangeArena rng = KE_KVA_ARENA_HEAP \<and> RangeUsableBase rng = base \<and> RangeUsablePages rng = n"
proof -
  have "inv s'" "block s' base (unat n)" using alloc_total [OF assms(1), of n] alloc_block [OF assms] assms(2) by auto
  from query_block [OF this] show ?thesis by (auto intro: unat_eqI)
qed

end

interpretation kdir: page_directory kva_inv heap_block KeHeapAllocPages KeHeapFreePages KeKvaQueryRange
proof unfold_locales
  fix s s' :: "'a kva_globals_scheme" and b n st
  show "\<exists>rng. KeKvaQueryRange b s = Inr rng \<and> RangeArena rng = KE_KVA_ARENA_HEAP \<and> RangeUsableBase rng = b \<and> unat (RangeUsablePages rng) = n"
    if inv: "kva_inv s" and hb: "heap_block s b n"
  proof -
    obtain x j where x: "live s x" "RecArena (gKvaRanges s x) = KE_KVA_ARENA_HEAP" "rec_first (gKvaRanges s x) = j"
      "b = page_va KE_KVA_ARENA_HEAP j" "unat (RecUsablePages (gKvaRanges s x)) = n" by (rule heap_blockE [OF inv hb])
    have ok: "records_ok s" "gKvaInitialized s" using inv by (simp_all add: kva_inv_def)
    have "KiKvaFindRecordByUsableBase b s = Some x" using find_by_usable_base [OF inv x(1)] x by simp
    then show ?thesis using x ok usable_base_va(1) [OF records_okD(1) [OF ok(1)] records_okD(2) [OF ok(1) x(1)]]
      by (simp add: KeKvaQueryRange_def KiKvaFillRangeFromRecord_def KiKvaArenaState_def)
  qed
  show "\<exists>e. KeKvaQueryRange b s' = Inl e" if inv: "kva_inv s" and hb: "heap_block s b n" and f: "KeHeapFreePages b s = Done (st, s')"
  proof -
    obtain x j where x: "live s x" "RecArena (gKvaRanges s x) = KE_KVA_ARENA_HEAP" "rec_first (gKvaRanges s x) = j" "b = page_va KE_KVA_ARENA_HEAP j"
      by (rule heap_blockE [OF inv hb])
    have "\<exists>s'. KeKvaReleaseRange b s = Done (EC_SUCCESS, s') \<and> range_released x s s'" using KeKvaReleaseRange_effect [OF inv x(1)] x by simp
    then have rel: "range_released x s s'" using f by (auto simp: KeHeapFreePages_def)
    then have inv': "kva_inv s'" and rs: "gKvaRanges s' = (gKvaRanges s)(x := free_record x)" by (simp_all add: range_released_def)
    have "KiKvaFindRecordByUsableBase b s' = None"
    proof (rule ccontr)
      assume "KiKvaFindRecordByUsableBase b s' \<noteq> None"
      then obtain y where y: "KiKvaFindRecordByUsableBase b s' = Some y" by blast
      note d = find_usable_base_Some [OF inv' y]
      have l: "y \<noteq> x" "live s y" "gKvaRanges s' y = gKvaRanges s y" using d(1) rs by (auto simp: live_def free_record_def split: if_splits)
      have yb: "b = page_va (RecArena (gKvaRanges s y)) (rec_first (gKvaRanges s y))" using d(2) unfolding l(3) .
      have "KiKvaFindRecordByUsableBase b s = Some y" unfolding yb by (rule find_by_usable_base [OF inv l(2)])
      moreover have "KiKvaFindRecordByUsableBase b s = Some x" unfolding x(4) using find_by_usable_base [OF inv x(1)] x(2,3) by simp
      ultimately have "Some y = Some x" by simp
      then show False using l(1) by simp
    qed
    then show ?thesis by (simp add: KeKvaQueryRange_def)
  qed
qed

end
