(* ===== verification/KvaLive.thy ===== *)
theory KvaLive
  imports KvaBlocks
begin

text \<open>
  When there are enough free frames, mapping a page and allocating heap pages succeed: the error
  returns of the allocators are not taken without a cause.
\<close>

section \<open>Counting free frames\<close>

definition free_frames :: "'a pmm_globals_scheme \<Rightarrow> nat" where
  "free_frames s = card {q. frames s q = Some PMM_PAGE_FREE}"

lemma free_frames_take:
  assumes "frames s' = (frames s)(p := Some PMM_PAGE_ALLOCATED)"
  shows "free_frames s \<le> free_frames s' + 1"
proof -
  have "{q. frames s q = Some PMM_PAGE_FREE} \<subseteq> insert p {q. frames s' q = Some PMM_PAGE_FREE}" using assms by auto
  then have "card {q. frames s q = Some PMM_PAGE_FREE} \<le> card (insert p {q. frames s' q = Some PMM_PAGE_FREE})" by (intro card_mono) simp_all
  also have "\<dots> \<le> card {q. frames s' q = Some PMM_PAGE_FREE} + 1" by (simp add: card_insert_if)
  finally show ?thesis by (simp add: free_frames_def)
qed

lemma alloc_one:
  assumes rdy: "pmm_ready s" and f: "0 < free_frames s"
  shows "\<exists>p s'. KePmmAllocPages s 1 None = Done (Inr p, s')"
proof -
  let ?c = "SinkContext (gPmmDevice s)"
  obtain q where "frames s q = Some PMM_PAGE_FREE" using f by (auto simp: free_frames_def card_gt_0_iff)
  then obtain i where i: "frame_index ?c q = Some i" "pg ?c i = PMM_PAGE_FREE" by (auto simp: frames_def ctx_frames_def)
  then have "i < npages ?c" by (auto simp: frame_index_def Let_def split: if_splits)
  then have "fits ?c 1 1 (unat (TotalManagedPages ?c)) i" using i(2) by (auto simp: fits_def npages_def le_less_Suc_eq)
  then have "\<exists>j. first_run ?c (unat (1 :: u64)) (unat (1 :: u64)) (unat (TotalManagedPages ?c)) = Some j" by (auto simp: first_run_def)
  then show ?thesis by (auto simp: KePmmAllocPages_ready [OF rdy] alloc_spec_def alloc_window_def)
qed

section \<open>Mapping a page\<close>

text \<open>The size bit is reserved in the entries of a root: \<open>KiEnsureChildTable\<close> refuses it.\<close>

definition pml4_ok :: "(HO_PHYSICAL_ADDRESS \<Rightarrow> u64) \<Rightarrow> HO_PHYSICAL_ADDRESS \<Rightarrow> bool" where
  "pml4_ok m root \<longleftrightarrow> (\<forall>i < ENTRIES_PER_TABLE. m (entry_at root i) AND PTE_PAGE_SIZE = 0)"

lemma size_bit: "x AND PTE_PAGE_SIZE = 0 \<longleftrightarrow> \<not> bit x 7"
proof -
  have p: "PTE_PAGE_SIZE = push_bit 7 1" by (simp add: PTE_PAGE_SIZE_def push_bit_eq_mult)
  have b: "bit PTE_PAGE_SIZE n \<longleftrightarrow> n = 7" for n unfolding p bit_push_bit_iff bit_1_iff by auto
  have "x AND PTE_PAGE_SIZE = (if bit x 7 then PTE_PAGE_SIZE else 0)"
    by (rule bit_word_eqI) (auto simp: b bit_and_iff)
  then show ?thesis by (simp add: PTE_PAGE_SIZE_def)
qed

lemma table_link_size:
  assumes "HO_IS_ALIGNED p PAGE_4KB"
  shows "(p OR KiIntermediateEntryFlagsForLeaf attrs) AND PTE_PAGE_SIZE = 0"
  using assms unfolding size_bit aligned_bits
  by (auto simp: KiIntermediateEntryFlagsForLeaf_def bit_simps PTE_PRESENT_def PTE_WRITABLE_def PTE_USER_def bit_1_iff)

lemma KiEnsureChildTable_succeeds:
  assumes su: "map_setup s0 root attrs va d c nt pr s" and d: "d < 3" and f: "0 < free_frames s"
    and l: "leaf (PhysMem s0) root va = None" and ps: "pml4_ok (PhysMem s) root"
  shows "\<exists>c' nt' pr' s'. KiEnsureChildTable (entry_at c (vidx d va)) attrs nt pr s = Done (Inr c', nt', pr', s') \<and>
    free_frames s \<le> free_frames s' + 1 \<and> pml4_ok (PhysMem s') root"
proof -
  let ?m = "PhysMem s" and ?pe = "entry_at c (vidx d va)"
  have rdy: "pmm_ready s" and n: "node ?m root d va = Some c" and lf: "leaf ?m root va = None" and len: "length pr \<le> d" and tree: "pt_tree ?m root"
    using su l by (auto simp: map_setup_def pt_ok_def)
  have sz: "?m ?pe AND PTE_PAGE_SIZE = 0" if pr: "?m ?pe AND PTE_PRESENT \<noteq> 0"
  proof (cases "d = 0")
    case True
    then show ?thesis using n ps by (simp add: pml4_ok_def)
  next
    case False
    then have "d = 1 \<or> d = 2" using d by linarith
    then have "leaf_at ?m root d va = None" using lf by (auto simp: leaf_def split: option.splits simp del: One_nat_def)
    then show ?thesis using n pr False by (auto simp: leaf_at_def leafval_def split: if_splits)
  qed
  have fr: "free_frames (set_entry e v t) = free_frames t" "free_frames (zero_page p t) = free_frames t" for e v p and t :: "'a vm_globals_scheme"
    by (simp_all add: free_frames_def)
  show ?thesis
  proof (cases "?m ?pe AND PTE_PRESENT = 0")
    case True
    obtain p s1 where a: "KePmmAllocPages s 1 None = Done (Inr p, s1)" using alloc_one [OF rdy f] by blast
    note A = KePmmAllocPages_success [OF rdy a]
    have "frames s1 = (frames s)(p := Some PMM_PAGE_ALLOCATED)" using A(4) by (auto simp: frame_run_def fun_eq_iff)
    then have c1: "free_frames s \<le> free_frames s1 + 1" by (rule free_frames_take)
    have m1: "PhysMem s1 = PhysMem s" using A(6) by (auto simp: set_sink_context_def)
    have "pml4_ok (PhysMem (set_entry ?pe (p OR KiIntermediateEntryFlagsForLeaf attrs) (zero_page p s1))) root"
      using ps table_link_size [OF A(5)] by (simp add: pml4_ok_def m1)
    then show ?thesis using True a c1 by (simp add: KiEnsureChildTable_def Let_def fr)
  next
    case False
    have "pml4_ok (PhysMem (set_entry ?pe (?m ?pe OR PTE_USER) s)) root"
      using ps sz [OF False] by (auto simp: pml4_ok_def size_bit bit_simps PTE_USER_def)
    then show ?thesis using False sz [OF False] ps len d by (simp add: KiEnsureChildTable_def Let_def fr)
  qed
qed

lemma KePtMapPage_succeeds:
  assumes ok: "pt_ok s root" and sp: "SpaceInitialized sp" "RootPageTablePhys sp = root"
    and al: "HO_IS_ALIGNED va PAGE_4KB" "HO_IS_ALIGNED pa PAGE_4KB"
    and l: "leaf (PhysMem s) root va = None" and ps: "pml4_ok (PhysMem s) root" and f: "3 \<le> free_frames s"
  shows "\<exists>s'. KePtMapPage (Some sp) va pa attrs s = Done (EC_SUCCESS, s') \<and> free_frames s \<le> free_frames s' + 3 \<and> pml4_ok (PhysMem s') root"
proof -
  let ?E = "\<lambda>c d nt pr s. KiEnsureChildTable (entry_at c (vidx d va)) attrs nt pr s"
  have step: "\<exists>c' nt' pr' t. ?E c d nt pr u = Done (Inr c', nt', pr', t) \<and> map_setup s root attrs va (Suc d) c' nt' pr' t \<and>
      entries_recorded root va (Suc d) nt' pr' t \<and> free_frames u \<le> free_frames t + 1 \<and> pml4_ok (PhysMem t) root"
    if "map_setup s root attrs va d c nt pr u" "entries_recorded root va d nt pr u" "d < 3" "0 < free_frames u" "pml4_ok (PhysMem u) root" for c d nt pr u
    using KiEnsureChildTable_step [OF that(1-3)] KiEnsureChildTable_succeeds [OF that(1,3,4) l that(5)] by fastforce
  obtain c1 nt1 pr1 s1 where e1: "?E root 0 [] [] s = Done (Inr c1, nt1, pr1, s1)" "map_setup s root attrs va (Suc 0) c1 nt1 pr1 s1"
    "entries_recorded root va (Suc 0) nt1 pr1 s1" "free_frames s \<le> free_frames s1 + 1" "pml4_ok (PhysMem s1) root"
    using step [OF map_setup_start [OF ok]] f ps by (auto simp: entries_recorded_def)
  obtain c2 nt2 pr2 s2 where e2: "?E c1 (Suc 0) nt1 pr1 s1 = Done (Inr c2, nt2, pr2, s2)" "map_setup s root attrs va (Suc (Suc 0)) c2 nt2 pr2 s2"
    "entries_recorded root va (Suc (Suc 0)) nt2 pr2 s2" "free_frames s1 \<le> free_frames s2 + 1" "pml4_ok (PhysMem s2) root"
    using step [OF e1(2,3) _ _ e1(5)] f e1(4) by auto
  obtain c3 nt3 pr3 s3 where e3: "?E c2 2 nt2 pr2 s2 = Done (Inr c3, nt3, pr3, s3)" "map_setup s root attrs va 3 c3 nt3 pr3 s3"
    "free_frames s2 \<le> free_frames s3 + 1" "pml4_ok (PhysMem s3) root"
    using step [OF e2(2,3) _ _ e2(5)] f e1(4) e2(4) by (auto simp: numeral_2_eq_2 numeral_3_eq_3)
  have n3: "node (PhysMem s3) root 3 va = Some c3" and l3: "leaf (PhysMem s3) root va = None" and tree: "pt_tree (PhysMem s3) root"
    using e3(2) l by (auto simp: map_setup_def pt_ok_def)
  have absent: "PhysMem s3 (entry_at c3 (vidx 3 va)) AND PTE_PRESENT = 0" using l3 leaf_depth3 [OF n3] by (simp add: leafval_def split: if_splits)
  define s' where "s' = invalidate_if_active root va (set_entry (entry_at c3 (vidx 3 va)) (leaf_entry pa attrs) s3)"
  have "c3 \<noteq> root" using tree n3 unfolding pt_tree_def by (metis node.simps(1) zero_le zero_neq_numeral order_refl)
  moreover have "HO_IS_ALIGNED root PAGE_4KB" "HO_IS_ALIGNED c3 PAGE_4KB" using tree pt_treeD [OF tree n3] by (simp_all add: pt_tree_def)
  ultimately have "entry_at root i \<noteq> entry_at c3 (vidx 3 va)" if "i < ENTRIES_PER_TABLE" for i using entry_at_inj [of root c3 i "vidx 3 va"] that by auto
  then have "pml4_ok (PhysMem s') root" using e3(4) by (simp add: pml4_ok_def s'_def)
  moreover have "free_frames s' = free_frames s3" by (simp add: free_frames_def s'_def)
  moreover have "KePtMapPage (Some sp) va pa attrs s = Done (EC_SUCCESS, s')"
    using e1(1) e2(1) e3(1) absent sp al by (simp add: KePtMapPage_def vidx_index Let_def leaf_entry_def s'_def)
  ultimately show ?thesis using e1(4) e2(4) e3(3) by simp
qed

section \<open>Allocating heap pages\<close>

lemma unmapped_leaf: "\<not> Present (page_mapping m root va) \<Longrightarrow> leaf m root va = None"
  by (auto simp: page_mapping_def leaf_mapping_def Let_def split: option.splits prod.splits)

lemma map_owned_pages_succeeds:
  assumes "kva_inv s" "KiKvaFindRecordById rng s = Some idx" "OwnsPhysicalBacking (gKvaRanges s idx)"
    "k + n = unat (RecUsablePages (gKvaRanges s idx))" "attrs AND PTE_USER = 0"
    "\<And>i. k \<le> i \<Longrightarrow> i < k + n \<Longrightarrow> \<not> Present (kmap s (RecArena (gKvaRanges s idx)) (rec_first (gKvaRanges s idx) + i))"
    "4 * n \<le> free_frames s" "pml4_ok (PhysMem s) (kroot s)"
  shows "\<exists>s'. map_owned_pages rng attrs (word_of_nat k) n s = Done (EC_SUCCESS, s')"
  using assms
proof (induction n arbitrary: k s)
  case (Suc n)
  define r where "r = gKvaRanges s idx"
  define t where "t = RecArena r"
  note h = handle_range [OF Suc.prems(1,2), folded r_def t_def]
  have k: "k < unat (RecUsablePages r)" using Suc.prems(4) by (simp add: r_def)
  have u32: "unat (RecUsablePages r) \<le> 16384" using h(1) kva_pages_le [of "RecArena r"] by (simp add: record_ok_def)
  have rdy: "pmm_ready s" using Suc.prems(1) by (simp add: kva_inv_def maps_ok_def pt_ok_def)
  obtain pa s1 where a: "KePmmAllocPages s 1 None = Done (Inr pa, s1)" using alloc_one [OF rdy] Suc.prems(7) by force
  note al = alloc_frame [OF Suc.prems(1) a]
  note r1 = vm_frame_records [OF al(2)] and g1 = vm_frame_kva [OF al(2)]
  have c1: "free_frames s \<le> free_frames s1 + 1" by (rule free_frames_take [OF al(5)])
  have o1: "owner_of s1 t (rec_first r + k) idx" "rec_first r + k \<in> usable_pages (gKvaRanges s1 idx)" using h(4,5) [OF k] r1 g1 by (simp_all add: r_def)
  have tb: "t \<noteq> KE_KVA_ARENA_MAX" "rec_first r + k < kva_pages t" using owner_bounds [of s1] al(1) o1(1) by (auto simp: kva_inv_def)
  have nm: "\<not> Present (kmap s1 t (rec_first r + k))" using Suc.prems(6) [of k] al(9) by (simp add: r_def t_def)
  have sp: "KeGetKernelAddressSpace s1 = Some (gKernelAddressSpace s1)" "SpaceInitialized (gKernelAddressSpace s1)" "pt_ok s1 (kroot s1)"
    using al(1) by (simp_all add: kva_inv_def maps_ok_def KeGetKernelAddressSpace_def)
  obtain s2 where m: "KePtMapPage (KeGetKernelAddressSpace s1) (page_va t (rec_first r + k)) pa attrs s1 = Done (EC_SUCCESS, s2)"
    and c2: "free_frames s1 \<le> free_frames s2 + 3" "pml4_ok (PhysMem s2) (kroot s1)"
    using KePtMapPage_succeeds [OF sp(3,2) _ page_va_aligned [OF tb(1)] al(6) unmapped_leaf, of "rec_first r + k" attrs] nm tb(2) al(3) r1(1) Suc.prems(7,8) c1 sp(1)
    by (auto simp: kmap_def kroot_def)
  have m': "vm_frame s1 s2" "kva_inv s2"
    "\<And>t' i'. t' \<noteq> KE_KVA_ARENA_MAX \<Longrightarrow> i' < kva_pages t' \<Longrightarrow> (t', i') \<noteq> (t, rec_first r + k) \<Longrightarrow> kmap s2 t' i' = kmap s t' i'"
    using map_page [OF al(1) o1 Suc.prems(5) al(6)] al(5,7,8,9) m by auto
  note r2 = vm_frame_records [OF m'(1)] and g2 = vm_frame_kva [OF m'(1)]
  have f1: "KiKvaFindRecordById rng s1 = Some idx" "KiKvaFindRecordById rng s2 = Some idx" using Suc.prems(2) r1 r2 by simp_all
  have va: "RangeUsableBase rng + word_of_nat k * PAGE_4KB = page_va t (rec_first r + k)" unfolding h(3) by (simp add: page_va_def algebra_simps)
  have "\<not> word_of_nat k \<ge> RecUsablePages (gKvaRanges s1 idx)" using k u32 g1 by (simp add: not_le word_less_nat_alt r_def)
  then have mp: "KeKvaMapPage rng (word_of_nat k) pa attrs s1 = Done (EC_SUCCESS, s2)"
    using f1(1) m va al(1) by (simp add: KeKvaMapPage_def kva_inv_def)
  have np: "\<not> Present (kmap s2 t (rec_first r + i))" if i: "Suc k \<le> i" "i < Suc k + n" for i
  proof -
    have "i < unat (RecUsablePages r)" using i Suc.prems(4) by (simp add: r_def)
    then have "owner_of s t (rec_first r + i) idx" by (rule h(4))
    then have "rec_first r + i < kva_pages t" using owner_bounds [of s] Suc.prems(1) by (auto simp: kva_inv_def)
    then have "kmap s2 t (rec_first r + i) = kmap s t (rec_first r + i)" using i tb(1) by (intro m'(3)) simp_all
    then show ?thesis using Suc.prems(6) [of i] i by (simp add: r_def t_def)
  qed
  obtain s' where "map_owned_pages rng attrs (word_of_nat (Suc k)) n s2 = Done (EC_SUCCESS, s')"
    using Suc.IH [OF m'(2) f1(2), of "Suc k"] Suc.prems(3-5,7) g1 g2 np c1 c2 r2(1) by (auto simp: r_def t_def)
  then show ?case using a mp by (simp add: add.commute)
qed simp

text \<open>Four frames per page are enough: the page itself and at most three new tables.\<close>

lemma KeHeapAllocPages_succeeds:
  assumes inv: "kva_inv s" and n: "n \<noteq> 0" and g: "gKvaRangeGenerationCounter s \<noteq> 0"
    and rec: "idx < KE_KVA_MAX_RANGES" "\<not> live s idx"
    and run: "b + unat n \<le> kva_pages KE_KVA_ARENA_HEAP" "\<And>i. b \<le> i \<Longrightarrow> i < b + unat n \<Longrightarrow> page_state KE_KVA_ARENA_HEAP i s = KE_KVA_PAGE_STATE_FREE"
    and f: "4 * unat n \<le> free_frames s" and ps: "pml4_ok (PhysMem s) (kroot s)"
  shows "\<exists>base s'. KeHeapAllocPages n s = Done (Inr base, s')"
proof -
  have ok: "records_ok s" and mo: "maps_ok s" and ini: "gKvaInitialized s" using inv by (simp_all add: kva_inv_def)
  have pc: "unat (ArenaPageCount (gKvaArenas s KE_KVA_ARENA_HEAP)) = kva_pages KE_KVA_ARENA_HEAP"
    using records_okD(1) [OF ok] by (simp add: layout_ok_def)
  obtain j where j: "first_unused_record s = Some j"
    using rec by (cases "first_unused_record s") (auto simp: first_unused_record_def find_None_iff live_def)
  obtain b' where b': "first_free_run (gKvaArenas s KE_KVA_ARENA_HEAP) n = Some b'"
  proof (cases "first_free_run (gKvaArenas s KE_KVA_ARENA_HEAP) n")
    case None
    then obtain k where "k < unat n" "page_state KE_KVA_ARENA_HEAP (b + k) s \<noteq> KE_KVA_PAGE_STATE_FREE"
      using run(1) by (auto simp: first_free_run_def find_None_iff pc page_state_def simp del: upt_Suc dest!: spec [of _ b])
    then show ?thesis using run(2) [of "b + k"] by auto
  qed
  obtain a s1 where a: "KeKvaAllocRange KE_KVA_ARENA_HEAP n 0 0 True s = (a, s1)" by fastforce
  have "\<exists>rng. a = Inr rng"
  proof -
    have "\<not> n > ArenaPageCount (gKvaArenas s KE_KVA_ARENA_HEAP)" using run(1) pc by (simp add: word_less_nat_alt)
    then show ?thesis using a n ini j b' g next_range_generation [OF g]
      by (auto simp: KeKvaAllocRange_def Let_def KiKvaArenaState_def KiKvaFillRangeFromRecord_def)
  qed
  then obtain rng where Inr: "a = Inr rng" by blast
  obtain idx where i1: "kva_inv s1" and f1: "KiKvaFindRecordById rng s1 = Some idx"
    and r0: "RecArena (gKvaRanges s1 idx) = KE_KVA_ARENA_HEAP" "RecUsablePages (gKvaRanges s1 idx) = n" "RecGuardLowerPages (gKvaRanges s1 idx) = 0"
      "RecGuardUpperPages (gKvaRanges s1 idx) = 0" "OwnsPhysicalBacking (gKvaRanges s1 idx)"
    and fre: "\<And>i. i \<in> rec_pages (gKvaRanges s1 idx) \<Longrightarrow> page_state KE_KVA_ARENA_HEAP i s = KE_KVA_PAGE_STATE_FREE"
    and km: "\<And>t' i. kmap s1 t' i = kmap s t' i" and fr: "frames s1 = frames s"
    using KeKvaAllocRange_inv [OF inv a [unfolded Inr]] by metis
  define r where "r = gKvaRanges s1 idx"
  note h = handle_range [OF i1 f1, folded r_def]
  have rp: "rec_pages r = {rec_first r..<rec_first r + unat n}" "rec_first r + unat n \<le> kva_pages KE_KVA_ARENA_HEAP"
    using h(1) r0 by (simp_all add: r_def [symmetric] record_ok_def rec_pages_def rec_first_def)
  have nm: "\<not> Present (kmap s1 KE_KVA_ARENA_HEAP (rec_first r + i))" if "i < unat n" for i
    using maps_okD(4) [OF mo, of KE_KVA_ARENA_HEAP "rec_first r + i"] fre [of "rec_first r + i"] that rp km by (auto simp: r_def)
  have vm: "PhysMem s1 = PhysMem s" "kroot s1 = kroot s"
    using KeKvaAllocRange_success [OF ok a [unfolded Inr]] by (metis, metis kroot_def)
  have "free_frames s1 = free_frames s" using fr by (simp add: free_frames_def)
  then obtain s2 where "map_owned_pages rng KE_KVA_DEFAULT_PAGE_ATTRS (word_of_nat 0) (unat n) s1 = Done (EC_SUCCESS, s2)"
    using map_owned_pages_succeeds [OF i1 f1 r0(5), of 0 "unat n" KE_KVA_DEFAULT_PAGE_ATTRS] r0 nm f ps vm default_attrs by (auto simp: r_def)
  then have "KeKvaMapOwnedPages rng KE_KVA_DEFAULT_PAGE_ATTRS s1 = Done (EC_SUCCESS, s2)"
    using f1 r0 i1 by (simp add: KeKvaMapOwnedPages_def kva_inv_def)
  then show ?thesis using a Inr ini n by (simp add: KeHeapAllocPages_def)
qed

end
