(* ===== verification/Pool.thy ===== *)
theory Pool
  imports KvaBlocks
begin

text \<open>
  The fixed-size object pool, \<^verbatim>\<open>ke/mm/pool.c\<close>. The chains threaded through the free slots and the
  page headers are lists of addresses; \<open>Mem\<close> arguments are the bytes of the objects. A pool's
  memory comes page by page from \<open>KeHeapAllocPages\<close>.
\<close>

section \<open>Data\<close>

definition KE_POOL_MAGIC_ALIVE :: u32 where "KE_POOL_MAGIC_ALIVE = 0x504F4F4C"
definition KE_POOL_MAGIC_DEAD :: u32 where "KE_POOL_MAGIC_DEAD = 0x44454144"

text \<open>The sizes of the one-pointer structures \<open>KE_POOL_FREE_NODE\<close> and \<open>KE_POOL_PAGE_NODE\<close>.\<close>

definition sizeof_KE_POOL_FREE_NODE :: u64 where "sizeof_KE_POOL_FREE_NODE = 8"
definition sizeof_KE_POOL_PAGE_NODE :: u64 where "sizeof_KE_POOL_PAGE_NODE = 8"

record KE_POOL =
  PoolMagic :: u32
  PoolFreeList :: "HO_VIRTUAL_ADDRESS list"
  PoolPageList :: "HO_VIRTUAL_ADDRESS list"
  SlotSize :: u64
  PoolSlotsPerPage :: u32
  PoolTotalSlots :: u32
  PoolUsedSlots :: u32
  PoolPeakUsedSlots :: u32
  PoolFailedGrows :: u32
  PoolPageCount :: u32
  PoolName :: "string option"

record KE_POOL_STATS =
  StatTotalSlots :: u32
  StatUsedSlots :: u32
  StatFreeSlots :: u32
  StatPageCount :: u32
  StatPeakUsedSlots :: u32
  StatFailedGrowCount :: u32

text \<open>A prepared page: its address and its slots from \<open>Head\<close> to \<open>Tail\<close>.\<close>

record KE_POOL_PREPARED_PAGE =
  BaseVirt :: HO_VIRTUAL_ADDRESS
  PreparedNodes :: "HO_VIRTUAL_ADDRESS list"
  SlotCount :: u32

section \<open>Pages\<close>

definition free_page :: "HO_VIRTUAL_ADDRESS \<Rightarrow> 'a kva_globals_scheme \<Rightarrow> 'a kva_globals_scheme outcome" where
  "free_page base s = bind_outcome (KeHeapFreePages base s) (\<lambda>(status, s). HO_KASSERT (status = EC_SUCCESS) status (Done s))"

text \<open>The slots of a page in the order in which the loop links them, the last one first.\<close>

definition linked_slots :: "HO_VIRTUAL_ADDRESS \<Rightarrow> u64 \<Rightarrow> nat \<Rightarrow> HO_VIRTUAL_ADDRESS list" where
  "linked_slots slotBase slotSize n = rev (map (\<lambda>i. slotBase + word_of_nat i * slotSize) [0..<n])"

definition KiPoolPrepareOnePage :: "u64 \<Rightarrow> 'a kva_globals_scheme \<Rightarrow> (KE_POOL_PREPARED_PAGE result \<times> 'a kva_globals_scheme) outcome" where
  "KiPoolPrepareOnePage slotSize s =
    bind_outcome (KeHeapAllocPages 1 s) (\<lambda>(r, s).
    case r of
      Inl status \<Rightarrow> Done (Inl status, s)
    | Inr base \<Rightarrow>
      let headerSize = HO_ALIGN_UP sizeof_KE_POOL_PAGE_NODE slotSize in
      if headerSize \<ge> PAGE_4KB then bind_outcome (free_page base s) (\<lambda>s. Done (Inl EC_ILLEGAL_ARGUMENT, s))
      else
        let usableSlots = ucast ((PAGE_4KB - headerSize) div slotSize) :: u32 in
        Done (Inr \<lparr>BaseVirt = base, PreparedNodes = linked_slots (base + headerSize) slotSize (unat usableSlots), SlotCount = usableSlots\<rparr>, s))"

definition attach_page :: "KE_POOL \<Rightarrow> KE_POOL_PREPARED_PAGE \<Rightarrow> KE_POOL" where
  "attach_page pool page = pool\<lparr>PoolFreeList := PreparedNodes page @ PoolFreeList pool,
     PoolTotalSlots := PoolTotalSlots pool + SlotCount page,
     PoolPageList := BaseVirt page # PoolPageList pool, PoolPageCount := PoolPageCount pool + 1\<rparr>"

definition KiPoolPublishPreparedPage :: "KE_POOL \<Rightarrow> KE_POOL_PREPARED_PAGE \<Rightarrow> KE_POOL outcome" where
  "KiPoolPublishPreparedPage pool page =
    HO_KASSERT (PreparedNodes page \<noteq> []) EC_INVALID_STATE
      (HO_KASSERT (SlotCount page \<noteq> 0) EC_INVALID_STATE (Done (attach_page pool page)))"

section \<open>Taking a slot\<close>

definition pop_node :: "KE_POOL \<Rightarrow> (HO_VIRTUAL_ADDRESS option \<times> KE_POOL) outcome" where
  "pop_node pool =
    (case PoolFreeList pool of
       [] \<Rightarrow> Done (None, pool)
     | slot # rest \<Rightarrow>
       let pool = pool\<lparr>PoolFreeList := rest, PoolUsedSlots := PoolUsedSlots pool + 1\<rparr> in
       HO_KASSERT (PoolUsedSlots pool \<le> PoolTotalSlots pool) EC_INVALID_STATE
         (Done (Some slot, if PoolUsedSlots pool > PoolPeakUsedSlots pool then pool\<lparr>PoolPeakUsedSlots := PoolUsedSlots pool\<rparr> else pool)))"

definition KiPoolTryPopNode :: "KE_POOL \<Rightarrow> (HO_VIRTUAL_ADDRESS option \<times> KE_POOL) outcome" where
  "KiPoolTryPopNode pool = (if PoolMagic pool \<noteq> KE_POOL_MAGIC_ALIVE then Done (None, pool) else pop_node pool)"

definition KiPoolPublishPreparedPageAndPop ::
  "KE_POOL \<Rightarrow> KE_POOL_PREPARED_PAGE \<Rightarrow> 'a kva_globals_scheme \<Rightarrow> (HO_VIRTUAL_ADDRESS option \<times> KE_POOL \<times> 'a kva_globals_scheme) outcome" where
  "KiPoolPublishPreparedPageAndPop pool page s =
    HO_KASSERT (PreparedNodes page \<noteq> []) EC_INVALID_STATE
      (HO_KASSERT (SlotCount page \<noteq> 0) EC_INVALID_STATE
        (if PoolMagic pool \<noteq> KE_POOL_MAGIC_ALIVE then bind_outcome (free_page (BaseVirt page) s) (\<lambda>s. Done (None, pool, s))
         else bind_outcome (pop_node (attach_page pool page)) (\<lambda>(slot, pool). Done (slot, pool, s))))"

section \<open>The interface\<close>

definition free_pages :: "HO_VIRTUAL_ADDRESS list \<Rightarrow> 'a kva_globals_scheme \<Rightarrow> 'a kva_globals_scheme outcome" where
  "free_pages bases s = run_all free_page bases s"

text \<open>The page loop of \<open>KePoolInit\<close> with \<open>n\<close> pages to go.\<close>

fun init_pages :: "nat \<Rightarrow> u64 \<Rightarrow> KE_POOL \<Rightarrow> 'a kva_globals_scheme \<Rightarrow> (ho_status \<times> KE_POOL \<times> 'a kva_globals_scheme) outcome" where
  "init_pages 0 slotSize pool s = Done (EC_SUCCESS, pool, s)"
| "init_pages (Suc n) slotSize pool s =
    bind_outcome (KiPoolPrepareOnePage slotSize s) (\<lambda>(r, s).
    case r of
      Inl status \<Rightarrow>
        bind_outcome (free_pages (PoolPageList pool) s) (\<lambda>s.
          Done (status, pool\<lparr>PoolFreeList := [], PoolPageList := [], PoolTotalSlots := 0, PoolPageCount := 0, PoolMagic := 0\<rparr>, s))
    | Inr page \<Rightarrow> bind_outcome (KiPoolPublishPreparedPage pool page) (\<lambda>pool. init_pages n slotSize pool s))"

definition KePoolInit :: "KE_POOL \<Rightarrow> u64 \<Rightarrow> u32 \<Rightarrow> string option \<Rightarrow> 'a kva_globals_scheme \<Rightarrow> (ho_status \<times> KE_POOL \<times> 'a kva_globals_scheme) outcome" where
  "KePoolInit pool objectSize initialCapacity name s =
    (let pool = pool\<lparr>PoolMagic := 0\<rparr>;
         slotSize = HO_ALIGN_UP objectSize 8;
         slotSize = (if slotSize < sizeof_KE_POOL_FREE_NODE then sizeof_KE_POOL_FREE_NODE else slotSize);
         headerSize = HO_ALIGN_UP sizeof_KE_POOL_PAGE_NODE slotSize
     in if headerSize \<ge> PAGE_4KB then Done (EC_ILLEGAL_ARGUMENT, pool, s)
        else
          let slotsPerPage = ucast ((PAGE_4KB - headerSize) div slotSize) :: u32;
              pool = \<lparr>PoolMagic = 0, PoolFreeList = [], PoolPageList = [], SlotSize = slotSize, PoolSlotsPerPage = slotsPerPage,
                PoolTotalSlots = 0, PoolUsedSlots = 0, PoolPeakUsedSlots = 0, PoolFailedGrows = 0, PoolPageCount = 0, PoolName = name\<rparr>
          in if slotsPerPage = 0 then Done (EC_ILLEGAL_ARGUMENT, pool, s)
             else
               let neededPages = (initialCapacity + slotsPerPage - 1) div slotsPerPage;
                   neededPages = (if neededPages = 0 then 1 else neededPages)
               in bind_outcome (init_pages (unat neededPages) slotSize pool s) (\<lambda>(status, pool, s).
                    Done (status, if status = EC_SUCCESS then pool\<lparr>PoolMagic := KE_POOL_MAGIC_ALIVE\<rparr> else pool, s)))"

definition zero_bytes :: "HO_VIRTUAL_ADDRESS \<Rightarrow> u64 \<Rightarrow> (HO_VIRTUAL_ADDRESS \<Rightarrow> u8) \<Rightarrow> HO_VIRTUAL_ADDRESS \<Rightarrow> u8" where
  "zero_bytes p n mem = (\<lambda>a. if a - p < n then 0 else mem a)"

definition KePoolAlloc :: "KE_POOL \<Rightarrow> (HO_VIRTUAL_ADDRESS \<Rightarrow> u8) \<Rightarrow> 'a kva_globals_scheme \<Rightarrow>
   (HO_VIRTUAL_ADDRESS option \<times> KE_POOL \<times> (HO_VIRTUAL_ADDRESS \<Rightarrow> u8) \<times> 'a kva_globals_scheme) outcome" where
  "KePoolAlloc pool mem s =
    (if PoolMagic pool \<noteq> KE_POOL_MAGIC_ALIVE then Done (None, pool, mem, s)
     else bind_outcome (KiPoolTryPopNode pool) (\<lambda>(slot, pool).
       case slot of
         Some slot \<Rightarrow> Done (Some slot, pool, zero_bytes slot (SlotSize pool) mem, s)
       | None \<Rightarrow>
         let slotSize = SlotSize pool in
         if PoolMagic pool \<noteq> KE_POOL_MAGIC_ALIVE \<or> slotSize = 0 then Done (None, pool, mem, s)
         else bind_outcome (KiPoolPrepareOnePage slotSize s) (\<lambda>(r, s).
           case r of
             Inl status \<Rightarrow>
               Done (None, if PoolMagic pool = KE_POOL_MAGIC_ALIVE then pool\<lparr>PoolFailedGrows := PoolFailedGrows pool + 1\<rparr> else pool, mem, s)
           | Inr page \<Rightarrow>
             bind_outcome (KiPoolPublishPreparedPageAndPop pool page s) (\<lambda>(slot, pool, s).
               case slot of
                 None \<Rightarrow> Done (None, pool, mem, s)
               | Some slot \<Rightarrow> Done (Some slot, pool, zero_bytes slot (SlotSize pool) mem, s)))))"

text \<open>The object pointer \<open>NULL\<close> is \<open>None\<close>.\<close>

definition KePoolFree :: "KE_POOL \<Rightarrow> HO_VIRTUAL_ADDRESS option \<Rightarrow> KE_POOL outcome" where
  "KePoolFree pool object =
    (case object of
       None \<Rightarrow> Done pool
     | Some slot \<Rightarrow>
       HO_KASSERT (PoolUsedSlots pool \<noteq> 0) EC_INVALID_STATE
         (Done (pool\<lparr>PoolFreeList := slot # PoolFreeList pool, PoolUsedSlots := PoolUsedSlots pool - 1\<rparr>)))"

definition KePoolDestroy :: "KE_POOL \<Rightarrow> 'a kva_globals_scheme \<Rightarrow> (ho_status \<times> KE_POOL \<times> 'a kva_globals_scheme) outcome" where
  "KePoolDestroy pool s =
    (if PoolMagic pool \<noteq> KE_POOL_MAGIC_ALIVE then Done (EC_INVALID_STATE, pool, s)
     else if PoolUsedSlots pool \<noteq> 0 then Done (EC_INVALID_STATE, pool, s)
     else
       let pageList = PoolPageList pool;
           pool = \<lparr>PoolMagic = KE_POOL_MAGIC_DEAD, PoolFreeList = [], PoolPageList = [], SlotSize = 0, PoolSlotsPerPage = 0, PoolTotalSlots = 0,
             PoolUsedSlots = 0, PoolPeakUsedSlots = 0, PoolFailedGrows = 0, PoolPageCount = 0, PoolName = None\<rparr>
       in bind_outcome (free_pages pageList s) (\<lambda>s. Done (EC_SUCCESS, pool, s)))"

definition KePoolQueryStats :: "KE_POOL \<Rightarrow> KE_POOL_STATS" where
  "KePoolQueryStats pool =
    \<lparr>StatTotalSlots = PoolTotalSlots pool, StatUsedSlots = PoolUsedSlots pool, StatFreeSlots = PoolTotalSlots pool - PoolUsedSlots pool,
     StatPageCount = PoolPageCount pool, StatPeakUsedSlots = PoolPeakUsedSlots pool, StatFailedGrowCount = PoolFailedGrows pool\<rparr>"

end
