(* ===== verification/Allocator.thy ===== *)
theory Allocator
  imports Pool
begin

text \<open>
  The kernel heap, \<^verbatim>\<open>ke/mm/allocator.c\<close>: seven classes of small blocks on pages of their own, and
  large blocks of whole pages with a table of records. Page headers and slot headers live in
  heap memory; \<open>SmallPageAt\<close> and \<open>SmallSlotAt\<close> are that memory read at their types, and
  \<open>HeapBytes\<close> the bytes of the blocks. The chains through \<open>NextFree\<close> and \<open>Next\<close> are lists of
  addresses. A call runs without interference here.
\<close>

section \<open>Data\<close>

definition KE_ALLOC_SMALL_CLASS_COUNT :: nat where "KE_ALLOC_SMALL_CLASS_COUNT = 7"
definition KE_ALLOC_LARGE_RECORD_CAPACITY :: nat where "KE_ALLOC_LARGE_RECORD_CAPACITY = 128"
definition KE_ALLOC_SMALL_PAGE_MAGIC :: u32 where "KE_ALLOC_SMALL_PAGE_MAGIC = 0x414C534D"
definition KE_ALLOC_SMALL_PAGE_RETIRED :: u32 where "KE_ALLOC_SMALL_PAGE_RETIRED = 0x414C5352"
definition KE_ALLOC_SLOT_STATE_FREE :: u32 where "KE_ALLOC_SLOT_STATE_FREE = 0xA110C0DE"
definition KE_ALLOC_SLOT_STATE_ALLOCATED :: u32 where "KE_ALLOC_SLOT_STATE_ALLOCATED = 0xA110CA7E"

text \<open>The sizes of the structures below in the code, with their pointers and padding.\<close>

definition sizeof_KE_ALLOC_SMALL_SLOT :: u64 where "sizeof_KE_ALLOC_SMALL_SLOT = 24"
definition sizeof_KE_ALLOC_SMALL_PAGE :: u64 where "sizeof_KE_ALLOC_SMALL_PAGE = 56"

record KE_ALLOC_SMALL_SLOT =
  OwnerPage :: HO_VIRTUAL_ADDRESS
  SlotRequestedSize :: u32
  SlotState :: u32

record KE_ALLOC_LARGE_RECORD =
  LargeInUse :: bool
  UserPointer :: HO_VIRTUAL_ADDRESS
  LargeRequestedSize :: u64
  LargeBackingUsableBase :: HO_VIRTUAL_ADDRESS
  LargeBackingUsablePages :: u64

record KE_ALLOC_SMALL_PAGE =
  PageMagic :: u32
  PageClassIndex :: u16
  PageSlotStride :: u32
  PageSlotsPerPage :: u32
  PageFreeCount :: u32
  PageBackingUsableBase :: HO_VIRTUAL_ADDRESS
  PageBackingUsablePages :: u64
  PageFreeList :: "HO_VIRTUAL_ADDRESS list"

record KE_ALLOCATOR_STATS =
  LiveAllocationCount :: u64
  LiveSmallAllocationCount :: u64
  LiveLargeAllocationCount :: u64
  BackingBytes :: u64
  FailedAllocationCount :: u64

datatype KE_ALLOCATOR_ALLOCATION_KIND =
    KE_ALLOCATOR_ALLOCATION_UNKNOWN
  | KE_ALLOCATOR_ALLOCATION_SMALL
  | KE_ALLOCATOR_ALLOCATION_LARGE

record KE_ALLOCATOR_ADDRESS_INFO =
  LiveAllocation :: bool
  AllocKind :: KE_ALLOCATOR_ALLOCATION_KIND
  AllocationBase :: HO_VIRTUAL_ADDRESS
  AllocationEndExclusive :: HO_VIRTUAL_ADDRESS
  InfoRequestedSize :: u64
  InfoBackingUsableBase :: HO_VIRTUAL_ADDRESS
  InfoBackingUsablePages :: u64
  SmallClassIndex :: u32
  SmallClassSize :: u32

definition gAllocatorClassSizes :: "u64 list" where
  "gAllocatorClassSizes = [16, 32, 64, 128, 256, 512, 1024]"

record allocator_globals =
  gAllocatorInitialized :: bool
  gAllocatorStats :: KE_ALLOCATOR_STATS
  gAllocatorSmallPages :: "nat \<Rightarrow> HO_VIRTUAL_ADDRESS list"
  gAllocatorLargeRecords :: "nat \<Rightarrow> KE_ALLOC_LARGE_RECORD"
  SmallPageAt :: "HO_VIRTUAL_ADDRESS \<Rightarrow> KE_ALLOC_SMALL_PAGE"
  SmallSlotAt :: "HO_VIRTUAL_ADDRESS \<Rightarrow> KE_ALLOC_SMALL_SLOT"
  HeapBytes :: "HO_VIRTUAL_ADDRESS \<Rightarrow> u8"

definition zero_large_record :: KE_ALLOC_LARGE_RECORD where
  "zero_large_record = \<lparr>LargeInUse = False, UserPointer = 0, LargeRequestedSize = 0, LargeBackingUsableBase = 0, LargeBackingUsablePages = 0\<rparr>"

definition zero_allocator_stats :: KE_ALLOCATOR_STATS where
  "zero_allocator_stats = \<lparr>LiveAllocationCount = 0, LiveSmallAllocationCount = 0, LiveLargeAllocationCount = 0, BackingBytes = 0, FailedAllocationCount = 0\<rparr>"

definition set_stats :: "(KE_ALLOCATOR_STATS \<Rightarrow> KE_ALLOCATOR_STATS) \<Rightarrow> allocator_globals \<Rightarrow> allocator_globals" where
  "set_stats f a = a\<lparr>gAllocatorStats := f (gAllocatorStats a)\<rparr>"

definition set_small_page :: "HO_VIRTUAL_ADDRESS \<Rightarrow> KE_ALLOC_SMALL_PAGE \<Rightarrow> allocator_globals \<Rightarrow> allocator_globals" where
  "set_small_page page h a = a\<lparr>SmallPageAt := (SmallPageAt a)(page := h)\<rparr>"

definition set_small_slot :: "HO_VIRTUAL_ADDRESS \<Rightarrow> KE_ALLOC_SMALL_SLOT \<Rightarrow> allocator_globals \<Rightarrow> allocator_globals" where
  "set_small_slot slot h a = a\<lparr>SmallSlotAt := (SmallSlotAt a)(slot := h)\<rparr>"

definition set_large_record :: "nat \<Rightarrow> KE_ALLOC_LARGE_RECORD \<Rightarrow> allocator_globals \<Rightarrow> allocator_globals" where
  "set_large_record i r a = a\<lparr>gAllocatorLargeRecords := (gAllocatorLargeRecords a)(i := r)\<rparr>"

definition set_small_pages :: "nat \<Rightarrow> HO_VIRTUAL_ADDRESS list \<Rightarrow> allocator_globals \<Rightarrow> allocator_globals" where
  "set_small_pages c ps a = a\<lparr>gAllocatorSmallPages := (gAllocatorSmallPages a)(c := ps)\<rparr>"

section \<open>Helpers\<close>

definition KiAllocatorBackingBytes :: "u64 \<Rightarrow> u64" where
  "KiAllocatorBackingBytes pages = pages * PAGE_4KB"

definition KiAllocatorEndFromLength :: "HO_VIRTUAL_ADDRESS \<Rightarrow> u64 \<Rightarrow> HO_VIRTUAL_ADDRESS" where
  "KiAllocatorEndFromLength base len = (if len > NOT 0 - base then NOT 0 else base + len)"

definition KiAllocatorFindSmallClass :: "u64 \<Rightarrow> nat option" where
  "KiAllocatorFindSmallClass sz = find (\<lambda>i. sz \<le> gAllocatorClassSizes ! i) [0..<KE_ALLOC_SMALL_CLASS_COUNT]"

definition KiAllocatorCountFailure :: "allocator_globals \<Rightarrow> allocator_globals" where
  "KiAllocatorCountFailure a = set_stats (\<lambda>st. st\<lparr>FailedAllocationCount := FailedAllocationCount st + 1\<rparr>) a"

section \<open>Small blocks\<close>

text \<open>The headers that the loop over the slots of a new page writes.\<close>

definition new_slots :: "HO_VIRTUAL_ADDRESS \<Rightarrow> HO_VIRTUAL_ADDRESS list \<Rightarrow> (HO_VIRTUAL_ADDRESS \<Rightarrow> KE_ALLOC_SMALL_SLOT) \<Rightarrow> HO_VIRTUAL_ADDRESS \<Rightarrow> KE_ALLOC_SMALL_SLOT" where
  "new_slots page slots m = (\<lambda>q. if q \<in> set slots
     then \<lparr>OwnerPage = page, SlotRequestedSize = 0, SlotState = KE_ALLOC_SLOT_STATE_FREE\<rparr> else m q)"

definition KiAllocatorPrepareSmallPage ::
  "nat \<Rightarrow> allocator_globals \<Rightarrow> 'a kva_globals_scheme \<Rightarrow> (HO_VIRTUAL_ADDRESS result \<times> allocator_globals \<times> 'a kva_globals_scheme) outcome" where
  "KiAllocatorPrepareSmallPage classIndex a s =
    (if classIndex \<ge> KE_ALLOC_SMALL_CLASS_COUNT then Done (Inl EC_ILLEGAL_ARGUMENT, a, s)
     else bind_outcome (KeHeapAllocPages 1 s) (\<lambda>(r, s).
       case r of
         Inl status \<Rightarrow> Done (Inl status, a, s)
       | Inr pageBase \<Rightarrow>
         let fail = (\<lambda>status. bind_outcome (free_page pageBase s) (\<lambda>s. Done (Inl status, a, s))) in
         case KeKvaQueryRange pageBase s of
           Inl status \<Rightarrow> fail status
         | Inr rng \<Rightarrow>
           let classSize = gAllocatorClassSizes ! classIndex;
               slotStride = ucast (HO_ALIGN_UP (sizeof_KE_ALLOC_SMALL_SLOT + classSize) 8) :: u32;
               headerBytes = ucast (HO_ALIGN_UP sizeof_KE_ALLOC_SMALL_PAGE 8) :: u32
           in if ucast headerBytes \<ge> PAGE_4KB \<or> slotStride = 0 then fail EC_INVALID_STATE
              else
                let usableBytes = ucast (PAGE_4KB - ucast headerBytes) :: u32;
                    slotsPerPage = usableBytes div slotStride
                in if slotsPerPage = 0 then fail EC_INVALID_STATE
                   else
                     let slots = map (\<lambda>i. pageBase + ucast headerBytes + ucast (word_of_nat i * slotStride)) [0..<unat slotsPerPage];
                         h = \<lparr>PageMagic = KE_ALLOC_SMALL_PAGE_MAGIC, PageClassIndex = word_of_nat classIndex, PageSlotStride = slotStride,
                              PageSlotsPerPage = slotsPerPage, PageFreeCount = word_of_nat (length slots),
                              PageBackingUsableBase = RangeUsableBase rng, PageBackingUsablePages = RangeUsablePages rng,
                              PageFreeList = rev slots\<rparr>;
                         a = set_small_page pageBase h (a\<lparr>SmallSlotAt := new_slots pageBase slots (SmallSlotAt a)\<rparr>)
                     in Done (Inr pageBase, a, s)))"

definition KiAllocatorAllocFromSmallPage ::
  "HO_VIRTUAL_ADDRESS \<Rightarrow> u64 \<Rightarrow> bool \<Rightarrow> allocator_globals \<Rightarrow> (HO_VIRTUAL_ADDRESS option \<times> allocator_globals) outcome" where
  "KiAllocatorAllocFromSmallPage page requestedSize zeroed a =
    (let h = SmallPageAt a page in
     case PageFreeList h of
       [] \<Rightarrow> Done (None, a)
     | slot # rest \<Rightarrow>
       HO_KASSERT (PageFreeCount h > 0) EC_INVALID_STATE
         (let a = set_small_page page (h\<lparr>PageFreeList := rest, PageFreeCount := PageFreeCount h - 1\<rparr>) a;
              a = set_small_slot slot ((SmallSlotAt a slot)\<lparr>SlotState := KE_ALLOC_SLOT_STATE_ALLOCATED,
                    SlotRequestedSize := (if requestedSize > 0xFFFFFFFF then 0xFFFFFFFF else ucast requestedSize)\<rparr>) a;
              userPointer = slot + sizeof_KE_ALLOC_SMALL_SLOT;
              a = (if zeroed then a\<lparr>HeapBytes := zero_bytes userPointer (gAllocatorClassSizes ! unat (PageClassIndex h)) (HeapBytes a)\<rparr> else a)
          in Done (Some userPointer, a)))"

definition count_small :: "allocator_globals \<Rightarrow> allocator_globals" where
  "count_small = set_stats (\<lambda>st. st\<lparr>LiveAllocationCount := LiveAllocationCount st + 1, LiveSmallAllocationCount := LiveSmallAllocationCount st + 1\<rparr>)"

definition KiAllocatorAllocSmall ::
  "u64 \<Rightarrow> bool \<Rightarrow> allocator_globals \<Rightarrow> 'a kva_globals_scheme \<Rightarrow> (HO_VIRTUAL_ADDRESS option \<times> allocator_globals \<times> 'a kva_globals_scheme) outcome" where
  "KiAllocatorAllocSmall requestedSize zeroed a s =
    (case KiAllocatorFindSmallClass requestedSize of
       None \<Rightarrow> Done (None, a, s)
     | Some classIndex \<Rightarrow>
       (case find (\<lambda>page. PageFreeCount (SmallPageAt a page) \<noteq> 0) (gAllocatorSmallPages a classIndex) of
          Some page \<Rightarrow>
            bind_outcome (KiAllocatorAllocFromSmallPage page requestedSize zeroed a) (\<lambda>(pointer, a).
              Done (pointer, if pointer \<noteq> None then count_small a else a, s))
        | None \<Rightarrow>
            bind_outcome (KiAllocatorPrepareSmallPage classIndex a s) (\<lambda>(r, a, s).
              case r of
                Inl status \<Rightarrow> Done (None, KiAllocatorCountFailure a, s)
              | Inr page \<Rightarrow>
                let a = set_small_pages classIndex (page # gAllocatorSmallPages a classIndex) a;
                    a = set_stats (\<lambda>st. st\<lparr>BackingBytes := BackingBytes st + KiAllocatorBackingBytes (PageBackingUsablePages (SmallPageAt a page))\<rparr>) a
                in bind_outcome (KiAllocatorAllocFromSmallPage page requestedSize zeroed a) (\<lambda>(pointer, a).
                     Done (pointer, if pointer \<noteq> None then count_small a else KiAllocatorCountFailure a, s)))))"

section \<open>Large blocks\<close>

definition KiAllocatorAllocLarge ::
  "u64 \<Rightarrow> bool \<Rightarrow> allocator_globals \<Rightarrow> 'a kva_globals_scheme \<Rightarrow> (HO_VIRTUAL_ADDRESS option \<times> allocator_globals \<times> 'a kva_globals_scheme) outcome" where
  "KiAllocatorAllocLarge requestedSize zeroed a s =
    (let pageCount = HO_ALIGN_UP requestedSize PAGE_4KB div PAGE_4KB in
     if pageCount = 0 then Done (None, KiAllocatorCountFailure a, s)
     else bind_outcome (KeHeapAllocPages pageCount s) (\<lambda>(r, s).
       case r of
         Inl status \<Rightarrow> Done (None, KiAllocatorCountFailure a, s)
       | Inr base \<Rightarrow>
         (case KeKvaQueryRange base s of
            Inl status \<Rightarrow> bind_outcome (free_page base s) (\<lambda>s. Done (None, KiAllocatorCountFailure a, s))
          | Inr rng \<Rightarrow>
            (case find (\<lambda>i. \<not> LargeInUse (gAllocatorLargeRecords a i)) [0..<KE_ALLOC_LARGE_RECORD_CAPACITY] of
               None \<Rightarrow>
                 let a = set_stats (\<lambda>st. st\<lparr>FailedAllocationCount := FailedAllocationCount st + 1\<rparr>) a
                 in bind_outcome (free_page base s) (\<lambda>s. Done (None, a, s))
             | Some i \<Rightarrow>
                 let a = set_large_record i \<lparr>LargeInUse = True, UserPointer = base, LargeRequestedSize = requestedSize,
                           LargeBackingUsableBase = RangeUsableBase rng, LargeBackingUsablePages = RangeUsablePages rng\<rparr> a;
                     a = set_stats (\<lambda>st. st\<lparr>LiveAllocationCount := LiveAllocationCount st + 1,
                           LiveLargeAllocationCount := LiveLargeAllocationCount st + 1,
                           BackingBytes := BackingBytes st + KiAllocatorBackingBytes (RangeUsablePages rng)\<rparr>) a;
                     a = (if zeroed then a\<lparr>HeapBytes := zero_bytes base requestedSize (HeapBytes a)\<rparr> else a)
                 in Done (Some base, a, s)))))"

section \<open>Freeing\<close>

definition KiAllocatorTryFreeLarge ::
  "HO_VIRTUAL_ADDRESS \<Rightarrow> allocator_globals \<Rightarrow> 'a kva_globals_scheme \<Rightarrow> (bool \<times> allocator_globals \<times> 'a kva_globals_scheme) outcome" where
  "KiAllocatorTryFreeLarge pointer a s =
    (case find (\<lambda>i. LargeInUse (gAllocatorLargeRecords a i) \<and> UserPointer (gAllocatorLargeRecords a i) = pointer) [0..<KE_ALLOC_LARGE_RECORD_CAPACITY] of
       None \<Rightarrow> Done (False, a, s)
     | Some i \<Rightarrow>
       let backingBase = LargeBackingUsableBase (gAllocatorLargeRecords a i);
           backingPages = LargeBackingUsablePages (gAllocatorLargeRecords a i);
           a = set_large_record i zero_large_record a
       in HO_KASSERT (LiveAllocationCount (gAllocatorStats a) > 0) EC_INVALID_STATE
         (HO_KASSERT (LiveLargeAllocationCount (gAllocatorStats a) > 0) EC_INVALID_STATE
           (let a = set_stats (\<lambda>st. st\<lparr>LiveAllocationCount := LiveAllocationCount st - 1, LiveLargeAllocationCount := LiveLargeAllocationCount st - 1\<rparr>) a;
                bytes = KiAllocatorBackingBytes backingPages
            in HO_KASSERT (BackingBytes (gAllocatorStats a) \<ge> bytes) EC_INVALID_STATE
                 (let a = set_stats (\<lambda>st. st\<lparr>BackingBytes := BackingBytes st - bytes\<rparr>) a
                  in bind_outcome (free_page backingBase s) (\<lambda>s. Done (True, a, s))))))"

text \<open>The slot whose block starts at a pointer, and the page it is on, when every check of the code passes.\<close>

definition locate_small_slot :: "HO_VIRTUAL_ADDRESS \<Rightarrow> allocator_globals \<Rightarrow> 'a kva_globals_scheme \<Rightarrow> (HO_VIRTUAL_ADDRESS \<times> HO_VIRTUAL_ADDRESS) option" where
  "locate_small_slot pointer a s =
    (let pageBase = HO_ALIGN_DOWN pointer PAGE_4KB in
     case KeKvaQueryRange pageBase s of
       Inl status \<Rightarrow> None
     | Inr rng \<Rightarrow>
       if RangeArena rng \<noteq> KE_KVA_ARENA_HEAP \<or> RangeUsableBase rng \<noteq> pageBase \<or> RangeUsablePages rng \<noteq> 1 then None
       else
         let h = SmallPageAt a pageBase in
         if PageMagic h \<noteq> KE_ALLOC_SMALL_PAGE_MAGIC \<or> unat (PageClassIndex h) \<ge> KE_ALLOC_SMALL_CLASS_COUNT then None
         else if PageSlotStride h = 0 \<or> PageSlotsPerPage h = 0 then None
         else
           let headerBytes = HO_ALIGN_UP sizeof_KE_ALLOC_SMALL_PAGE 8 in
           if pointer < pageBase + headerBytes + sizeof_KE_ALLOC_SMALL_SLOT \<or> pointer \<ge> pageBase + PAGE_4KB then None
           else
             let relative = pointer - pageBase - headerBytes in
             if relative < sizeof_KE_ALLOC_SMALL_SLOT then None
             else
               let slotOffset = relative - sizeof_KE_ALLOC_SMALL_SLOT in
               if slotOffset mod ucast (PageSlotStride h) \<noteq> 0 then None
               else
                 let slot = pageBase + headerBytes + slotOffset in
                 if OwnerPage (SmallSlotAt a slot) \<noteq> pageBase \<or> SlotState (SmallSlotAt a slot) \<noteq> KE_ALLOC_SLOT_STATE_ALLOCATED then None
                 else Some (pageBase, slot))"

text \<open>Taking an empty page off its chain.\<close>

definition retire_page :: "HO_VIRTUAL_ADDRESS \<Rightarrow> allocator_globals \<Rightarrow> (HO_VIRTUAL_ADDRESS \<times> allocator_globals) outcome" where
  "retire_page page a =
    (let h = SmallPageAt a page; c = unat (PageClassIndex h) in
     if PageFreeCount h = PageSlotsPerPage h \<and> page \<in> set (gAllocatorSmallPages a c) then
       let a = set_small_pages c (remove1 page (gAllocatorSmallPages a c)) a;
           bytes = KiAllocatorBackingBytes (PageBackingUsablePages h)
       in HO_KASSERT (BackingBytes (gAllocatorStats a) \<ge> bytes) EC_INVALID_STATE
            (let a = set_stats (\<lambda>st. st\<lparr>BackingBytes := BackingBytes st - bytes\<rparr>) a;
                 a = set_small_page page (h\<lparr>PageMagic := KE_ALLOC_SMALL_PAGE_RETIRED\<rparr>) a
             in Done (PageBackingUsableBase h, a))
     else Done (0, a))"

definition KiAllocatorTryFreeSmall ::
  "HO_VIRTUAL_ADDRESS \<Rightarrow> allocator_globals \<Rightarrow> 'a kva_globals_scheme \<Rightarrow> (bool \<times> allocator_globals \<times> 'a kva_globals_scheme) outcome" where
  "KiAllocatorTryFreeSmall pointer a s =
    (case locate_small_slot pointer a s of
       None \<Rightarrow> Done (False, a, s)
     | Some (page, slot) \<Rightarrow>
       let h = SmallPageAt a page;
           a = set_small_slot slot ((SmallSlotAt a slot)\<lparr>SlotState := KE_ALLOC_SLOT_STATE_FREE, SlotRequestedSize := 0\<rparr>) a;
           a = set_small_page page (h\<lparr>PageFreeList := slot # PageFreeList h, PageFreeCount := PageFreeCount h + 1\<rparr>) a
       in HO_KASSERT (LiveAllocationCount (gAllocatorStats a) > 0) EC_INVALID_STATE
         (HO_KASSERT (LiveSmallAllocationCount (gAllocatorStats a) > 0) EC_INVALID_STATE
           (let a = set_stats (\<lambda>st. st\<lparr>LiveAllocationCount := LiveAllocationCount st - 1, LiveSmallAllocationCount := LiveSmallAllocationCount st - 1\<rparr>) a
            in bind_outcome (retire_page page a) (\<lambda>(releaseBase, a).
                 if releaseBase \<noteq> 0 then bind_outcome (free_page releaseBase s) (\<lambda>s. Done (True, a, s)) else Done (True, a, s)))))"

section \<open>Diagnosis\<close>

definition KiAllocatorDiagnoseLargeLocked :: "HO_VIRTUAL_ADDRESS \<Rightarrow> allocator_globals \<Rightarrow> KE_ALLOCATOR_ADDRESS_INFO \<Rightarrow> KE_ALLOCATOR_ADDRESS_INFO" where
  "KiAllocatorDiagnoseLargeLocked virtAddr a info =
    (case find (\<lambda>i. let r = gAllocatorLargeRecords a i in LargeInUse r \<and>
        \<not> (virtAddr < UserPointer r \<or> virtAddr \<ge> KiAllocatorEndFromLength (UserPointer r) (LargeRequestedSize r))) [0..<KE_ALLOC_LARGE_RECORD_CAPACITY] of
       None \<Rightarrow> info
     | Some i \<Rightarrow>
       let r = gAllocatorLargeRecords a i in
       \<lparr>LiveAllocation = True, AllocKind = KE_ALLOCATOR_ALLOCATION_LARGE, AllocationBase = UserPointer r,
        AllocationEndExclusive = KiAllocatorEndFromLength (UserPointer r) (LargeRequestedSize r),
        InfoRequestedSize = LargeRequestedSize r, InfoBackingUsableBase = LargeBackingUsableBase r,
        InfoBackingUsablePages = LargeBackingUsablePages r, SmallClassIndex = 0, SmallClassSize = 0\<rparr>)"

definition KiAllocatorDiagnoseSmallLocked ::
  "HO_VIRTUAL_ADDRESS \<Rightarrow> allocator_globals \<Rightarrow> 'a kva_globals_scheme \<Rightarrow> KE_ALLOCATOR_ADDRESS_INFO \<Rightarrow> KE_ALLOCATOR_ADDRESS_INFO" where
  "KiAllocatorDiagnoseSmallLocked virtAddr a s info =
    (let pageBase = HO_ALIGN_DOWN virtAddr PAGE_4KB in
     case KeKvaQueryRange pageBase s of
       Inl status \<Rightarrow> info
     | Inr rng \<Rightarrow>
       if RangeArena rng \<noteq> KE_KVA_ARENA_HEAP \<or> RangeUsableBase rng \<noteq> pageBase \<or> RangeUsablePages rng \<noteq> 1 then info
       else
         let h = SmallPageAt a pageBase in
         if PageMagic h \<noteq> KE_ALLOC_SMALL_PAGE_MAGIC \<or> unat (PageClassIndex h) \<ge> KE_ALLOC_SMALL_CLASS_COUNT then info
         else if PageSlotStride h = 0 \<or> PageSlotsPerPage h = 0 then info
         else
           let headerBytes = HO_ALIGN_UP sizeof_KE_ALLOC_SMALL_PAGE 8 in
           if virtAddr < pageBase + headerBytes + sizeof_KE_ALLOC_SMALL_SLOT \<or> virtAddr \<ge> pageBase + PAGE_4KB then info
           else
             let relative = virtAddr - pageBase - headerBytes in
             if relative < sizeof_KE_ALLOC_SMALL_SLOT then info
             else
               let slotOffset = relative - sizeof_KE_ALLOC_SMALL_SLOT;
                   slotIndex = slotOffset div ucast (PageSlotStride h)
               in if slotIndex \<ge> ucast (PageSlotsPerPage h) then info
               else
                 let slot = pageBase + headerBytes + slotIndex * ucast (PageSlotStride h) in
                 if OwnerPage (SmallSlotAt a slot) \<noteq> pageBase \<or> SlotState (SmallSlotAt a slot) \<noteq> KE_ALLOC_SLOT_STATE_ALLOCATED then info
                 else
                   let userBase = slot + sizeof_KE_ALLOC_SMALL_SLOT;
                       classSize = ucast (gAllocatorClassSizes ! unat (PageClassIndex h)) :: u32
                   in if virtAddr < userBase \<or> virtAddr \<ge> userBase + ucast classSize then info
                      else
                        let rs = SlotRequestedSize (SmallSlotAt a slot);
                            requestedSize = (if rs = 0 \<or> rs > classSize then classSize else rs);
                            allocationEnd = userBase + ucast requestedSize
                        in if virtAddr \<ge> allocationEnd then info
                           else \<lparr>LiveAllocation = True, AllocKind = KE_ALLOCATOR_ALLOCATION_SMALL, AllocationBase = userBase,
                                 AllocationEndExclusive = allocationEnd, InfoRequestedSize = ucast requestedSize,
                                 InfoBackingUsableBase = PageBackingUsableBase h, InfoBackingUsablePages = PageBackingUsablePages h,
                                 SmallClassIndex = ucast (PageClassIndex h), SmallClassSize = classSize\<rparr>)"

section \<open>The interface\<close>

definition KeAllocatorInit :: "allocator_globals \<Rightarrow> ho_status \<times> allocator_globals" where
  "KeAllocatorInit a =
    (if gAllocatorInitialized a then (EC_SUCCESS, a)
     else (EC_SUCCESS, a\<lparr>gAllocatorSmallPages := (\<lambda>_. []), gAllocatorLargeRecords := (\<lambda>_. zero_large_record),
             gAllocatorStats := zero_allocator_stats, gAllocatorInitialized := True\<rparr>))"

definition KeAllocatorQueryStats :: "allocator_globals \<Rightarrow> KE_ALLOCATOR_STATS result" where
  "KeAllocatorQueryStats a = (if \<not> gAllocatorInitialized a then Inl EC_INVALID_STATE else Inr (gAllocatorStats a))"

definition unknown_address_info :: KE_ALLOCATOR_ADDRESS_INFO where
  "unknown_address_info = \<lparr>LiveAllocation = False, AllocKind = KE_ALLOCATOR_ALLOCATION_UNKNOWN, AllocationBase = 0, AllocationEndExclusive = 0,
     InfoRequestedSize = 0, InfoBackingUsableBase = 0, InfoBackingUsablePages = 0, SmallClassIndex = 0, SmallClassSize = 0\<rparr>"

definition KeAllocatorDiagnoseAddress :: "HO_VIRTUAL_ADDRESS \<Rightarrow> allocator_globals \<Rightarrow> 'a kva_globals_scheme \<Rightarrow> ho_status \<times> KE_ALLOCATOR_ADDRESS_INFO" where
  "KeAllocatorDiagnoseAddress virtAddr a s =
    (if \<not> gAllocatorInitialized a then (EC_INVALID_STATE, unknown_address_info)
     else
       let info = KiAllocatorDiagnoseLargeLocked virtAddr a unknown_address_info
       in (EC_SUCCESS, if \<not> LiveAllocation info then KiAllocatorDiagnoseSmallLocked virtAddr a s info else info))"

definition kmalloc ::
  "u64 \<Rightarrow> allocator_globals \<Rightarrow> 'a kva_globals_scheme \<Rightarrow> (HO_VIRTUAL_ADDRESS option \<times> allocator_globals \<times> 'a kva_globals_scheme) outcome" where
  "kmalloc sz a s =
    (if sz = 0 \<or> \<not> gAllocatorInitialized a then Done (None, a, s)
     else case KiAllocatorFindSmallClass sz of
       Some classIndex \<Rightarrow> KiAllocatorAllocSmall sz False a s
     | None \<Rightarrow> KiAllocatorAllocLarge sz False a s)"

definition kzalloc ::
  "u64 \<Rightarrow> allocator_globals \<Rightarrow> 'a kva_globals_scheme \<Rightarrow> (HO_VIRTUAL_ADDRESS option \<times> allocator_globals \<times> 'a kva_globals_scheme) outcome" where
  "kzalloc sz a s =
    (if sz = 0 \<or> \<not> gAllocatorInitialized a then Done (None, a, s)
     else case KiAllocatorFindSmallClass sz of
       Some classIndex \<Rightarrow> KiAllocatorAllocSmall sz True a s
     | None \<Rightarrow> KiAllocatorAllocLarge sz True a s)"

text \<open>The pointer \<open>NULL\<close> is \<open>None\<close>.\<close>

definition kfree ::
  "HO_VIRTUAL_ADDRESS option \<Rightarrow> allocator_globals \<Rightarrow> 'a kva_globals_scheme \<Rightarrow> (allocator_globals \<times> 'a kva_globals_scheme) outcome" where
  "kfree ptr a s =
    (case ptr of
       None \<Rightarrow> Done (a, s)
     | Some pointer \<Rightarrow>
       if \<not> gAllocatorInitialized a then Done (a, s)
       else bind_outcome (KiAllocatorTryFreeLarge pointer a s) (\<lambda>(freed, a, s).
         if freed then Done (a, s)
         else bind_outcome (KiAllocatorTryFreeSmall pointer a s) (\<lambda>(_, a, s). Done (a, s))))"

section \<open>Diagnosing a virtual address\<close>

record KE_VA_DIAGNOSIS =
  DiagVirtualAddress :: HO_VIRTUAL_ADDRESS
  ImportedStatus :: ho_status
  ImportedRegion :: "KE_IMPORTED_REGION option"
  ImportedRegionMatched :: bool
  PtStatus :: ho_status
  PtMapping :: KE_PT_MAPPING
  KvaStatus :: ho_status
  KvaInfo :: "KE_KVA_ADDRESS_INFO option"
  AllocatorStatus :: ho_status
  AllocatorInfo :: KE_ALLOCATOR_ADDRESS_INFO

definition KeDiagnoseVirtualAddress ::
  "KE_KERNEL_ADDRESS_SPACE option \<Rightarrow> HO_VIRTUAL_ADDRESS \<Rightarrow> allocator_globals \<Rightarrow> 'a kva_globals_scheme \<Rightarrow> ho_status \<times> KE_VA_DIAGNOSIS" where
  "KeDiagnoseVirtualAddress space virtAddr a s =
    (let d = \<lparr>DiagVirtualAddress = virtAddr, ImportedStatus = EC_INVALID_STATE, ImportedRegion = None, ImportedRegionMatched = False,
              PtStatus = EC_INVALID_STATE, PtMapping = zero_mapping, KvaStatus = EC_INVALID_STATE, KvaInfo = None,
              AllocatorStatus = EC_INVALID_STATE, AllocatorInfo = unknown_address_info\<rparr>;
         effectiveSpace = (case space of None \<Rightarrow> KeGetKernelAddressSpace s | Some sp \<Rightarrow> Some sp);
         d = (case effectiveSpace of
                None \<Rightarrow> d
              | Some sp \<Rightarrow>
                if \<not> SpaceInitialized sp then d
                else
                  let region = KeFindImportedRegion effectiveSpace virtAddr;
                      d = d\<lparr>ImportedRegion := region, ImportedRegionMatched := region \<noteq> None, ImportedStatus := EC_SUCCESS\<rparr>
                  in case KePtQueryPage effectiveSpace (HO_ALIGN_DOWN virtAddr PAGE_4KB) s of
                       Inl status \<Rightarrow> d\<lparr>PtStatus := status\<rparr>
                     | Inr mapping \<Rightarrow> d\<lparr>PtStatus := EC_SUCCESS, PtMapping := mapping\<rparr>);
         (status, info) = KeKvaClassifyAddress virtAddr s;
         d = d\<lparr>KvaStatus := status, KvaInfo := info\<rparr>
     in if status = EC_SUCCESS \<and> map_option Kind info = Some KE_KVA_ADDRESS_ACTIVE_HEAP then
          let (st, ai) = KeAllocatorDiagnoseAddress virtAddr a s
          in (EC_SUCCESS, d\<lparr>AllocatorStatus := st, AllocatorInfo := ai\<rparr>)
        else (EC_SUCCESS, d))"

end
