(* ===== verification/PoolProofs.thy ===== *)
theory PoolProofs
  imports Pool
begin

text \<open>
  The objects a pool hands out do not overlap, also when its callers interleave; a destroyed pool
  leaves no page behind.
\<close>

section \<open>Slots of a page\<close>

definition header_size :: "u64 \<Rightarrow> u64" where
  "header_size slotSize = HO_ALIGN_UP sizeof_KE_POOL_PAGE_NODE slotSize"

definition page_slots :: "u64 \<Rightarrow> nat" where
  "page_slots slotSize = unat (ucast ((PAGE_4KB - header_size slotSize) div slotSize) :: u32)"

definition slot_addrs :: "u64 \<Rightarrow> HO_VIRTUAL_ADDRESS \<Rightarrow> HO_VIRTUAL_ADDRESS list" where
  "slot_addrs slotSize base = linked_slots (base + header_size slotSize) slotSize (page_slots slotSize)"

definition slot_size_ok :: "u64 \<Rightarrow> bool" where
  "slot_size_ok slotSize \<longleftrightarrow> unat slotSize mod 8 = 0 \<and> 8 \<le> unat slotSize \<and> header_size slotSize < PAGE_4KB \<and> 0 < page_slots slotSize"

lemma and_not_zero_le: "(x :: u64) AND NOT y = 0 \<Longrightarrow> x \<le> y"
proof -
  assume a: "x AND NOT y = 0"
  have "x = x AND y"
  proof (rule bit_word_eqI)
    fix n assume "n < LENGTH(64)"
    have "bit (x AND NOT y) n = bit (0 :: u64) n" using a by simp
    then show "bit x n = bit (x AND y) n" using \<open>n < LENGTH(64)\<close> by (simp add: bit_simps) blast
  qed
  then show "x \<le> y" by (metis word_and_le1 and.commute)
qed

lemma header_size_ge:
  assumes "unat slotSize mod 8 = 0" "8 \<le> unat slotSize"
  shows "8 \<le> unat (header_size slotSize)"
proof -
  define x y where "x = slotSize + 7" and "y = slotSize - 1"
  have h: "header_size slotSize = x AND NOT y" by (simp add: header_size_def HO_ALIGN_UP_def sizeof_KE_POOL_PAGE_NODE_def x_def y_def add.commute)
  have lt: "unat slotSize + 8 \<le> 18446744073709551616"
  proof -
    obtain k where k: "unat slotSize = 8 * k" using assms(1) by (metis dvd_def mod_0_imp_dvd)
    have "8 * k < 8 * 2305843009213693952" using unat_lt_64 [of slotSize] k by simp
    then show ?thesis using k by simp
  qed
  have ux: "unat x = unat slotSize + 7" unfolding x_def using lt by (simp add: unat_add_small)
  have uy: "unat y = unat slotSize - 1" unfolding y_def using assms(2) by (simp add: unat_sub_small)
  have ne: "x AND NOT y \<noteq> 0"
  proof
    assume "x AND NOT y = 0"
    then have "x \<le> y" by (rule and_not_zero_le)
    then show False using ux uy assms(2) by (simp add: word_le_nat_alt)
  qed
  obtain k where k: "unat slotSize = 8 * k" using assms(1) by (metis dvd_def mod_0_imp_dvd)
  then obtain j where "k = Suc j" using assms(2) by (cases k) auto
  then have "unat y = 8 * j + 7" using uy k by simp
  then have "unat y mod 8 = 7" by simp
  then have "take_bit 3 y = 7" by (intro unat_eqI) (simp add: take_bit_eq_mod unat_mod)
  then have yb: "bit y n" if "n < 3" for n
  proof -
    have "bit (take_bit 3 y) n = bit (7 :: u64) n" using \<open>take_bit 3 y = 7\<close> by simp
    moreover have "(7 :: u64) = mask 3" by (simp add: mask_eq_exp_minus_1)
    ultimately show ?thesis using that by (simp add: bit_simps)
  qed
  have "take_bit 3 (x AND NOT y) = 0" by (rule bit_word_eqI) (use yb in \<open>auto simp: bit_simps\<close>)
  then have "unat (take_bit 3 (x AND NOT y)) = 0" by simp
  then have "unat (x AND NOT y) mod 8 = 0" by (simp add: take_bit_eq_mod unat_mod)
  moreover have "0 < unat (x AND NOT y)" using ne by (simp add: unat_gt_0)
  ultimately show ?thesis unfolding h by (simp add: dvd_imp_le mod_eq_0_iff_dvd)
qed


lemma page_slots_fit:
  assumes "slot_size_ok sz"
  shows "page_slots sz = (4096 - unat (header_size sz)) div unat sz" "unat (header_size sz) + page_slots sz * unat sz \<le> 4096" "page_slots sz \<le> 512"
proof -
  have h: "unat (header_size sz) < 4096" and sz: "8 \<le> unat sz" using assms by (simp_all add: slot_size_ok_def word_less_nat_alt PAGE_4KB_def)
  have "unat (PAGE_4KB - header_size sz) = 4096 - unat (header_size sz)" using h by (simp add: PAGE_4KB_def unat_sub_small)
  then have q: "unat ((PAGE_4KB - header_size sz) div sz) = (4096 - unat (header_size sz)) div unat sz" by (simp add: unat_div)
  have "(4096 - unat (header_size sz)) div unat sz \<le> 4096 div 8" using sz by (meson diff_le_self div_le_mono div_le_mono2 le_trans zero_less_numeral order_less_le_trans)
  then have b: "(4096 - unat (header_size sz)) div unat sz \<le> 512" by simp
  then show p: "page_slots sz = (4096 - unat (header_size sz)) div unat sz"
    using q by (simp add: page_slots_def unsigned_ucast_eq take_bit_nat_eq_self)
  show "page_slots sz \<le> 512" using p b by simp
  have "(4096 - unat (header_size sz)) div unat sz * unat sz \<le> 4096 - unat (header_size sz)" by (rule div_times_less_eq_dividend)
  then show "unat (header_size sz) + page_slots sz * unat sz \<le> 4096" unfolding p using h by linarith
qed

lemma slot_address:
  assumes ok: "slot_size_ok sz" and b: "unat base + 4096 < 2 ^ 64" and i: "i < page_slots sz"
  shows "unat (base + header_size sz + word_of_nat i * sz) = unat base + unat (header_size sz) + i * unat sz"
    "unat (header_size sz) + i * unat sz + unat sz \<le> 4096"
proof -
  note f = page_slots_fit [OF ok]
  have "(i + 1) * unat sz \<le> page_slots sz * unat sz" using i by (intro mult_le_mono1) simp
  then show le: "unat (header_size sz) + i * unat sz + unat sz \<le> 4096" using f(2) by simp
  have iu: "unat (word_of_nat i :: u64) = i" using i f(3) by (simp add: unsigned_of_nat take_bit_nat_eq_self)
  have m: "unat (word_of_nat i * sz) = i * unat sz" using le iu by (simp add: unat_mult_small)
  have h: "unat (base + header_size sz) = unat base + unat (header_size sz)" using b le by (simp add: unat_add_small)
  show "unat (base + header_size sz + word_of_nat i * sz) = unat base + unat (header_size sz) + i * unat sz"
    using b le m h by (simp add: unat_add_small)
qed

lemma slots_of_iff: "a \<in> set (slot_addrs sz base) \<longleftrightarrow> (\<exists>i<page_slots sz. a = base + header_size sz + word_of_nat i * sz)"
  by (auto simp: slot_addrs_def linked_slots_def)

lemma slot_in_page:
  assumes "slot_size_ok sz" "unat base + 4096 < 2 ^ 64" "a \<in> set (slot_addrs sz base)"
  shows "unat base + 8 \<le> unat a" "unat a + unat sz \<le> unat base + 4096"
proof -
  obtain i where i: "i < page_slots sz" "a = base + header_size sz + word_of_nat i * sz" using assms(3) by (auto simp: slots_of_iff)
  have "8 \<le> unat (header_size sz)" using assms(1) header_size_ge by (simp add: slot_size_ok_def)
  then show "unat base + 8 \<le> unat a" "unat a + unat sz \<le> unat base + 4096" using slot_address [OF assms(1,2) i(1)] i(2) by simp_all
qed

lemma slots_apart:
  assumes "slot_size_ok sz" "unat base + 4096 < 2 ^ 64" "a \<in> set (slot_addrs sz base)" "c \<in> set (slot_addrs sz base)" "a \<noteq> c"
  shows "unat a + unat sz \<le> unat c \<or> unat c + unat sz \<le> unat a"
proof -
  obtain i j where i: "i < page_slots sz" "a = base + header_size sz + word_of_nat i * sz" and j: "j < page_slots sz" "c = base + header_size sz + word_of_nat j * sz"
    using assms(3,4) by (auto simp: slots_of_iff)
  have "i \<noteq> j" using i j assms(5) by auto
  then have "i + 1 \<le> j \<or> j + 1 \<le> i" by linarith
  then have "(i + 1) * unat sz \<le> j * unat sz \<or> (j + 1) * unat sz \<le> i * unat sz" using mult_le_mono1 by blast
  then show ?thesis using slot_address(1) [OF assms(1,2) i(1)] slot_address(1) [OF assms(1,2) j(1)] i(2) j(2) by simp linarith
qed

lemma slots_of_distinct:
  assumes "slot_size_ok sz" "unat base + 4096 < 2 ^ 64"
  shows "distinct (slot_addrs sz base)" "length (slot_addrs sz base) = page_slots sz" "slot_addrs sz base \<noteq> []"
proof -
  have "inj_on (\<lambda>i. base + header_size sz + word_of_nat i * sz) {0..<page_slots sz}"
  proof (rule inj_onI)
    fix i j assume ij: "i \<in> {0..<page_slots sz}" "j \<in> {0..<page_slots sz}" "base + header_size sz + word_of_nat i * sz = base + header_size sz + word_of_nat j * sz"
    then have "unat base + unat (header_size sz) + i * unat sz = unat base + unat (header_size sz) + j * unat sz"
      using slot_address(1) [OF assms, of i] slot_address(1) [OF assms, of j] by (metis atLeastLessThan_iff)
    moreover have "0 < unat sz" using assms(1) by (simp add: slot_size_ok_def)
    ultimately show "i = j" by simp
  qed
  then show "distinct (slot_addrs sz base)" by (simp add: slot_addrs_def linked_slots_def distinct_map)
  show "length (slot_addrs sz base) = page_slots sz" by (simp add: slot_addrs_def linked_slots_def)
  then show "slot_addrs sz base \<noteq> []" using assms(1) by (auto simp: slot_size_ok_def)
qed


section \<open>The invariant of a pool\<close>

text \<open>
  \<open>pend\<close> are the pages some allocation has prepared and not yet published, \<open>objs\<close> the objects that
  callers hold, \<open>sz\<close> the slot size the pool was initialised with.
\<close>

definition all_slots :: "u64 \<Rightarrow> HO_VIRTUAL_ADDRESS list \<Rightarrow> HO_VIRTUAL_ADDRESS set" where
  "all_slots sz bs = (\<Union>b \<in> set bs. set (slot_addrs sz b))"

definition held_pages :: "KE_POOL \<Rightarrow> KE_POOL_PREPARED_PAGE list \<Rightarrow> HO_VIRTUAL_ADDRESS list" where
  "held_pages pool pend = PoolPageList pool @ map BaseVirt pend"

definition pages_ok :: "u64 \<Rightarrow> KE_POOL \<Rightarrow> KE_POOL_PREPARED_PAGE list \<Rightarrow> 'a kva_globals_scheme \<Rightarrow> bool" where
  "pages_ok sz pool pend s \<longleftrightarrow> kva_inv s \<and> slot_size_ok sz \<and> distinct (held_pages pool pend) \<and>
    (\<forall>b \<in> set (held_pages pool pend). heap_block s b 1) \<and>
    (\<forall>p \<in> set pend. PreparedNodes p = slot_addrs sz (BaseVirt p) \<and> unat (SlotCount p) = page_slots sz)"

definition slots_ok :: "u64 \<Rightarrow> KE_POOL \<Rightarrow> HO_VIRTUAL_ADDRESS set \<Rightarrow> bool" where
  "slots_ok sz pool objs \<longleftrightarrow> distinct (PoolFreeList pool) \<and> finite objs \<and> set (PoolFreeList pool) \<inter> objs = {} \<and>
    set (PoolFreeList pool) \<union> objs = all_slots sz (PoolPageList pool) \<and> unat (PoolUsedSlots pool) = card objs \<and>
    unat (PoolTotalSlots pool) = length (PoolPageList pool) * page_slots sz"

definition pool_ok :: "u64 \<Rightarrow> KE_POOL \<Rightarrow> KE_POOL_PREPARED_PAGE list \<Rightarrow> HO_VIRTUAL_ADDRESS set \<Rightarrow> 'a kva_globals_scheme \<Rightarrow> bool" where
  "pool_ok sz pool pend objs s \<longleftrightarrow> pages_ok sz pool pend s \<and> slots_ok sz pool objs \<and>
    (if PoolMagic pool = KE_POOL_MAGIC_ALIVE then SlotSize pool = sz else PoolPageList pool = [])"

lemma block_room: "kva_inv s \<Longrightarrow> heap_block s b 1 \<Longrightarrow> unat b + 4096 < 2 ^ 64"
  using kheap.block_bounds [of s b 1] by simp

lemma page_count_bound:
  assumes inv: "kva_inv s" and d: "distinct bs" and b: "\<forall>b \<in> set bs. heap_block s b 1"
  shows "length bs \<le> 16384"
proof -
  have "set bs \<subseteq> page_va KE_KVA_ARENA_HEAP ` {..<16384}"
  proof
    fix c assume "c \<in> set bs"
    then have h: "heap_block s c 1" using b by blast
    obtain i where "c = page_va KE_KVA_ARENA_HEAP i" "i + 1 \<le> 16384" by (rule heap_blockE [OF inv h])
    then show "c \<in> page_va KE_KVA_ARENA_HEAP ` {..<16384}" by auto
  qed
  then have "card (set bs) \<le> card (page_va KE_KVA_ARENA_HEAP ` {..<16384})" by (intro card_mono) auto
  also have "\<dots> \<le> 16384" using card_image_le [of "{..<16384}" "page_va KE_KVA_ARENA_HEAP"] by simp
  finally show ?thesis using distinct_card [OF d] by simp
qed

lemma page_slots_disjoint:
  assumes "slot_size_ok sz" "unat b + 4096 < 2 ^ 64" "unat c + 4096 < 2 ^ 64" "apart b 1 c 1"
    "x \<in> set (slot_addrs sz b)" "y \<in> set (slot_addrs sz c)"
  shows "unat x + unat sz \<le> unat y \<or> unat y + unat sz \<le> unat x"
  using slot_in_page [OF assms(1,2,5)] slot_in_page [OF assms(1,3,6)] assms(4) unfolding apart_def by linarith

text \<open>Different slots of a pool's pages do not overlap, and they stay clear of the page headers.\<close>

lemma all_slots_apart:
  assumes ok: "kva_inv s" "slot_size_ok sz" "\<forall>b \<in> set bs. heap_block s b 1"
    and x: "x \<in> all_slots sz bs" and y: "y \<in> all_slots sz bs" and ne: "x \<noteq> y"
  shows "unat x + unat sz \<le> unat y \<or> unat y + unat sz \<le> unat x"
proof -
  obtain b c where b: "b \<in> set bs" "x \<in> set (slot_addrs sz b)" and c: "c \<in> set bs" "y \<in> set (slot_addrs sz c)" using x y by (auto simp: all_slots_def)
  have hb: "heap_block s b 1" "heap_block s c 1" using ok(3) b c by auto
  note r = block_room [OF ok(1) hb(1)] block_room [OF ok(1) hb(2)]
  show ?thesis
  proof (cases "b = c")
    case True
    then show ?thesis using slots_apart [OF ok(2) r(1) b(2) _ ne] c(2) by simp
  next
    case False
    then show ?thesis using page_slots_disjoint [OF ok(2) r kheap.block_apart [OF ok(1) hb False] b(2) c(2)] by simp
  qed
qed

lemma all_slots_card:
  assumes ok: "kva_inv s" "slot_size_ok sz" and d: "distinct bs" and b: "\<forall>b \<in> set bs. heap_block s b 1"
  shows "card (all_slots sz bs) = length bs * page_slots sz"
  using d b
proof (induction bs)
  case (Cons c bs)
  have hc: "heap_block s c 1" using Cons.prems by simp
  have dj: "set (slot_addrs sz c) \<inter> all_slots sz bs = {}"
  proof (rule ccontr)
    assume "set (slot_addrs sz c) \<inter> all_slots sz bs \<noteq> {}"
    then obtain x e where x: "x \<in> set (slot_addrs sz c)" "e \<in> set bs" "x \<in> set (slot_addrs sz e)" by (auto simp: all_slots_def)
    have "heap_block s e 1" "c \<noteq> e" using Cons.prems x(2) by auto
    then have "unat x + unat sz \<le> unat x" using page_slots_disjoint [OF ok(2) block_room [OF ok(1) hc] block_room [OF ok(1)] kheap.block_apart [OF ok(1) hc]] x by blast
    then show False using ok(2) by (simp add: slot_size_ok_def)
  qed
  note sl = slots_of_distinct [OF ok(2) block_room [OF ok(1) hc]]
  have e: "all_slots sz (c # bs) = set (slot_addrs sz c) \<union> all_slots sz bs" by (auto simp: all_slots_def)
  have fin: "finite (all_slots sz bs)" by (simp add: all_slots_def)
  have "card (all_slots sz (c # bs)) = card (set (slot_addrs sz c)) + card (all_slots sz bs)" unfolding e by (rule card_Un_disjoint) (use dj fin in auto)
  then show ?case using Cons.IH Cons.prems sl distinct_card [OF sl(1)] by simp
qed (simp add: all_slots_def)

lemma pool_counts:
  assumes "pages_ok sz pool pend s" "slots_ok sz pool objs"
  shows "length (PoolFreeList pool) + card objs = length (PoolPageList pool) * page_slots sz"
    "unat (PoolUsedSlots pool) + length (PoolFreeList pool) = unat (PoolTotalSlots pool)" "unat (PoolTotalSlots pool) \<le> 8388608"
proof -
  have ok: "kva_inv s" "slot_size_ok sz" "distinct (PoolPageList pool)" "\<forall>b \<in> set (PoolPageList pool). heap_block s b 1"
    using assms(1) by (simp_all add: pages_ok_def held_pages_def)
  have so: "distinct (PoolFreeList pool)" "finite objs" "set (PoolFreeList pool) \<inter> objs = {}" "set (PoolFreeList pool) \<union> objs = all_slots sz (PoolPageList pool)"
    "unat (PoolUsedSlots pool) = card objs" "unat (PoolTotalSlots pool) = length (PoolPageList pool) * page_slots sz"
    using assms(2) by (simp_all add: slots_ok_def)
  have "card (set (PoolFreeList pool) \<union> objs) = card (set (PoolFreeList pool)) + card objs" using so by (intro card_Un_disjoint) auto
  then show c: "length (PoolFreeList pool) + card objs = length (PoolPageList pool) * page_slots sz"
    using so(4) all_slots_card [OF ok] distinct_card [OF so(1)] by simp
  show "unat (PoolUsedSlots pool) + length (PoolFreeList pool) = unat (PoolTotalSlots pool)" using c so(5,6) by simp
  have "length (PoolPageList pool) * page_slots sz \<le> 16384 * 512"
    using page_count_bound [OF ok(1,3,4)] page_slots_fit(3) [OF ok(2)] by (rule mult_le_mono)
  then show "unat (PoolTotalSlots pool) \<le> 8388608" using so(6) by simp
qed


section \<open>The operations keep the invariant\<close>

lemma free_page_block:
  assumes "kva_inv s" "heap_block s b n"
  shows "\<exists>s'. free_page b s = Done s' \<and> kva_inv s' \<and> (\<forall>c m. heap_block s' c m \<longleftrightarrow> heap_block s c m \<and> c \<noteq> b)"
  using kheap.free_block [OF assms] by (auto simp: free_page_def HO_KASSERT_def)

lemma free_pages_blocks:
  assumes "kva_inv s" "distinct bs" "\<forall>b \<in> set bs. heap_block s b 1"
  shows "\<exists>s'. free_pages bs s = Done s' \<and> kva_inv s' \<and> (\<forall>c m. heap_block s' c m \<longleftrightarrow> heap_block s c m \<and> c \<notin> set bs)"
proof -
  have e: "free_page = (\<lambda>b s. bind_outcome (KeHeapFreePages b s) (\<lambda>(st, s). HO_KASSERT (st = EC_SUCCESS) st (Done s)))"
    by (simp add: free_page_def fun_eq_iff)
  have "\<forall>b \<in> set bs. \<exists>n. heap_block s b n" using assms(3) by blast
  then show ?thesis unfolding free_pages_def e using kheap.free_all [OF assms(1,2)] by simp
qed

lemma KiPoolPrepareOnePage_effect:
  assumes "kva_inv s" "slot_size_ok sz"
  shows "\<exists>r s'. KiPoolPrepareOnePage sz s = Done (r, s') \<and> kva_inv s' \<and>
    (case r of Inl e \<Rightarrow> e \<noteq> EC_SUCCESS \<and> (\<forall>c m. heap_block s' c m = heap_block s c m)
     | Inr page \<Rightarrow> PreparedNodes page = slot_addrs sz (BaseVirt page) \<and> unat (SlotCount page) = page_slots sz \<and>
         (\<forall>m. \<not> heap_block s (BaseVirt page) m) \<and> (\<forall>c m. heap_block s' c m \<longleftrightarrow> c = BaseVirt page \<and> m = 1 \<or> heap_block s c m))"
proof -
  obtain r s' where a: "KeHeapAllocPages 1 s = Done (r, s')" "kva_inv s'" using kheap.alloc_total [OF assms(1), of 1] by blast
  show ?thesis
  proof (cases r)
    case (Inl e)
    then show ?thesis using a kheap.alloc_failed [OF assms(1) a(1) [unfolded Inl]] by (simp add: KiPoolPrepareOnePage_def)
  next
    case (Inr base)
    have "\<not> HO_ALIGN_UP sizeof_KE_POOL_PAGE_NODE sz \<ge> PAGE_4KB" using assms(2) by (simp add: slot_size_ok_def header_size_def not_le)
    then show ?thesis
      using a Inr kheap.alloc_block [OF assms(1) a(1) [unfolded Inr]] kheap.alloc_fresh [OF assms(1) a(1) [unfolded Inr]]
      by (simp add: KiPoolPrepareOnePage_def Let_def slot_addrs_def header_size_def page_slots_def)
  qed
qed

lemma pop_node_effect:
  assumes pg: "pages_ok sz pool pend s" and sl: "slots_ok sz pool objs"
  shows "\<exists>r pool'. pop_node pool = Done (r, pool') \<and> PoolPageList pool' = PoolPageList pool \<and> PoolMagic pool' = PoolMagic pool \<and> SlotSize pool' = SlotSize pool \<and>
    (case r of None \<Rightarrow> pool' = pool \<and> PoolFreeList pool = []
     | Some x \<Rightarrow> x \<notin> objs \<and> x \<in> all_slots sz (PoolPageList pool) \<and> slots_ok sz pool' (insert x objs))"
proof (cases "PoolFreeList pool")
  case Nil
  then show ?thesis by (simp add: pop_node_def)
next
  case (Cons x xs)
  note c = pool_counts [OF pg sl]
  have u: "unat (PoolUsedSlots pool + 1) = Suc (unat (PoolUsedSlots pool))" using c(2,3) by (simp add: unat_add_small)
  have le: "PoolUsedSlots pool + 1 \<le> PoolTotalSlots pool" using c(2) Cons u by (simp add: word_le_nat_alt)
  have x: "x \<notin> objs" "x \<in> all_slots sz (PoolPageList pool)" using sl Cons by (auto simp: slots_ok_def)
  have fin: "finite objs" using sl by (simp add: slots_ok_def)
  have "slots_ok sz (pool\<lparr>PoolFreeList := xs, PoolUsedSlots := PoolUsedSlots pool + 1, PoolPeakUsedSlots := p\<rparr>) (insert x objs)" for p
    using sl Cons x fin u by (auto simp: slots_ok_def)
  from this [of "PoolPeakUsedSlots pool"] this [of "PoolUsedSlots pool + 1"] show ?thesis using Cons le x by (simp add: pop_node_def Let_def HO_KASSERT_def)
qed

lemma attach_page_effect:
  assumes pg: "pages_ok sz pool (xs @ page # ys) s" and sl: "slots_ok sz pool objs"
  shows "pages_ok sz (attach_page pool page) (xs @ ys) s" "slots_ok sz (attach_page pool page) objs"
proof -
  have pn: "PreparedNodes page = slot_addrs sz (BaseVirt page)" "unat (SlotCount page) = page_slots sz" using pg by (auto simp: pages_ok_def)
  show pg': "pages_ok sz (attach_page pool page) (xs @ ys) s"
    using pg by (auto simp: pages_ok_def attach_page_def held_pages_def)
  have ok: "kva_inv s" "slot_size_ok sz" "distinct (BaseVirt page # PoolPageList pool)" "\<forall>b \<in> set (BaseVirt page # PoolPageList pool). heap_block s b 1"
    using pg' by (auto simp: pages_ok_def attach_page_def held_pages_def)
  have hb: "heap_block s (BaseVirt page) 1" using ok(4) by simp
  note so = slots_of_distinct [OF ok(2) block_room [OF ok(1) hb]]
  have dj: "set (slot_addrs sz (BaseVirt page)) \<inter> all_slots sz (PoolPageList pool) = {}"
  proof (rule ccontr)
    assume "set (slot_addrs sz (BaseVirt page)) \<inter> all_slots sz (PoolPageList pool) \<noteq> {}"
    then obtain x e where x: "x \<in> set (slot_addrs sz (BaseVirt page))" "e \<in> set (PoolPageList pool)" "x \<in> set (slot_addrs sz e)" by (auto simp: all_slots_def)
    then have "heap_block s e 1" "BaseVirt page \<noteq> e" using ok(3,4) by auto
    then have "unat x + unat sz \<le> unat x"
      using page_slots_disjoint [OF ok(2) block_room [OF ok(1) hb] block_room [OF ok(1)] kheap.block_apart [OF ok(1) hb]] x by blast
    then show False using ok(2) by (simp add: slot_size_ok_def)
  qed
  have tot: "unat (PoolTotalSlots pool + SlotCount page) = Suc (length (PoolPageList pool)) * page_slots sz"
  proof -
    have "unat (PoolTotalSlots pool) \<le> 8388608" using pool_counts(3) [OF pg sl] .
    then show ?thesis using sl pn(2) page_slots_fit(3) [OF ok(2)] by (simp add: slots_ok_def unat_add_small)
  qed
  have un: "set (PoolFreeList pool) \<union> objs = all_slots sz (PoolPageList pool)" using sl by (simp add: slots_ok_def)
  have e: "all_slots sz (BaseVirt page # PoolPageList pool) = set (slot_addrs sz (BaseVirt page)) \<union> all_slots sz (PoolPageList pool)"
    by (simp add: all_slots_def)
  have "set (slot_addrs sz (BaseVirt page)) \<inter> (set (PoolFreeList pool) \<union> objs) = {}" using dj un by simp
  then show "slots_ok sz (attach_page pool page) objs"
    using sl so(1) pn tot e un by (auto simp: slots_ok_def attach_page_def)
qed

lemma pages_ok_cong:
  assumes "pages_ok sz pool pend s" "PoolPageList pool' = PoolPageList pool"
  shows "pages_ok sz pool' pend s"
  using assms by (simp add: pages_ok_def held_pages_def)

text \<open>Publishing a prepared page: a live pool gets it and gives one slot of it; a dead pool gives it back.\<close>

lemma KiPoolPublishPreparedPageAndPop_effect:
  assumes ok: "pool_ok sz pool (xs @ page # ys) objs s"
  shows "\<exists>r pool' s'. KiPoolPublishPreparedPageAndPop pool page s = Done (r, pool', s') \<and>
    (if PoolMagic pool = KE_POOL_MAGIC_ALIVE
     then s' = s \<and> PoolPageList pool' = BaseVirt page # PoolPageList pool \<and> (\<exists>x. r = Some x \<and> x \<notin> objs \<and> pool_ok sz pool' (xs @ ys) (insert x objs) s')
     else r = None \<and> pool' = pool \<and> pool_ok sz pool (xs @ ys) objs s' \<and> (\<forall>c m. heap_block s' c m \<longleftrightarrow> heap_block s c m \<and> c \<noteq> BaseVirt page))"
proof -
  have pg: "pages_ok sz pool (xs @ page # ys) s" and sl: "slots_ok sz pool objs" using ok by (simp_all add: pool_ok_def)
  have pn: "PreparedNodes page = slot_addrs sz (BaseVirt page)" "unat (SlotCount page) = page_slots sz" and inv: "kva_inv s" "slot_size_ok sz"
    and hb: "heap_block s (BaseVirt page) 1" using pg by (auto simp: pages_ok_def held_pages_def)
  have ne: "PreparedNodes page \<noteq> []" "SlotCount page \<noteq> 0"
    using slots_of_distinct(3) [OF inv(2) block_room [OF inv(1) hb]] pn inv(2) by (auto simp: slot_size_ok_def)
  show ?thesis
  proof (cases "PoolMagic pool = KE_POOL_MAGIC_ALIVE")
    case True
    note at = attach_page_effect [OF pg sl]
    obtain r pool' where p: "pop_node (attach_page pool page) = Done (r, pool')" "PoolPageList pool' = PoolPageList (attach_page pool page)"
      "PoolMagic pool' = PoolMagic (attach_page pool page)" "SlotSize pool' = SlotSize (attach_page pool page)"
      "case r of None \<Rightarrow> pool' = attach_page pool page \<and> PoolFreeList (attach_page pool page) = []
       | Some x \<Rightarrow> x \<notin> objs \<and> x \<in> all_slots sz (PoolPageList (attach_page pool page)) \<and> slots_ok sz pool' (insert x objs)"
      using pop_node_effect [OF at] by blast
    obtain x where x: "r = Some x" "x \<notin> objs" "slots_ok sz pool' (insert x objs)" using p(5) ne by (cases r) (auto simp: attach_page_def)
    have "pages_ok sz pool' (xs @ ys) s" using at(1) p(2) by (rule pages_ok_cong)
    then have "pool_ok sz pool' (xs @ ys) (insert x objs) s" using x p ok True by (simp add: pool_ok_def attach_page_def)
    then show ?thesis using p(1,2) x(1,2) True ne by (simp add: KiPoolPublishPreparedPageAndPop_def HO_KASSERT_def attach_page_def)
  next
    case False
    obtain s' where f: "free_page (BaseVirt page) s = Done s'" "kva_inv s'" "\<forall>c m. heap_block s' c m \<longleftrightarrow> heap_block s c m \<and> c \<noteq> BaseVirt page"
      using free_page_block [OF inv(1) hb] by blast
    have "pages_ok sz pool (xs @ ys) s'" using pg f(2,3) by (auto simp: pages_ok_def held_pages_def)
    then show ?thesis using f(1,3) ok False ne by (simp add: KiPoolPublishPreparedPageAndPop_def HO_KASSERT_def pool_ok_def)
  qed
qed


lemma KePoolFree_effect:
  assumes ok: "pool_ok sz pool pend objs s" and x: "x \<in> objs"
  shows "\<exists>pool'. KePoolFree pool (Some x) = Done pool' \<and> pool_ok sz pool' pend (objs - {x}) s"
proof -
  have sl: "slots_ok sz pool objs" and pg: "pages_ok sz pool pend s" using ok by (simp_all add: pool_ok_def)
  have fin: "finite objs" "unat (PoolUsedSlots pool) = card objs" using sl by (simp_all add: slots_ok_def)
  have c: "0 < card objs" using fin(1) x card_gt_0_iff by blast
  have u: "PoolUsedSlots pool \<noteq> 0" "unat (PoolUsedSlots pool - 1) = card objs - 1" using c fin(2) by (auto simp: unat_sub_small)
  define pool' where "pool' = pool\<lparr>PoolFreeList := x # PoolFreeList pool, PoolUsedSlots := PoolUsedSlots pool - 1\<rparr>"
  have "slots_ok sz pool' (objs - {x})" using sl x u(2) fin(1) by (auto simp: slots_ok_def pool'_def card_Diff_singleton)
  moreover have "pages_ok sz pool' pend s" using pg by (rule pages_ok_cong) (simp add: pool'_def)
  ultimately have "pool_ok sz pool' pend (objs - {x}) s" using ok by (simp add: pool_ok_def pool'_def)
  then show ?thesis using u(1) by (simp add: KePoolFree_def HO_KASSERT_def pool'_def)
qed

lemma KePoolDestroy_effect:
  assumes ok: "pool_ok sz pool pend objs s"
  shows "\<exists>st pool' s'. KePoolDestroy pool s = Done (st, pool', s') \<and> pool_ok sz pool' pend objs s' \<and>
    (if PoolMagic pool = KE_POOL_MAGIC_ALIVE \<and> objs = {}
     then st = EC_SUCCESS \<and> PoolMagic pool' = KE_POOL_MAGIC_DEAD \<and> (\<forall>b m. heap_block s' b m \<longleftrightarrow> heap_block s b m \<and> b \<notin> set (PoolPageList pool))
     else st = EC_INVALID_STATE \<and> pool' = pool \<and> s' = s)"
proof -
  have sl: "slots_ok sz pool objs" and pg: "pages_ok sz pool pend s" using ok by (simp_all add: pool_ok_def)
  have u: "PoolUsedSlots pool = 0 \<longleftrightarrow> objs = {}" using sl by (auto simp: slots_ok_def unat_eq_0 [symmetric])
  show ?thesis
  proof (cases "PoolMagic pool = KE_POOL_MAGIC_ALIVE \<and> objs = {}")
    case False
    then show ?thesis using ok u by (auto simp: KePoolDestroy_def)
  next
    case True
    have d: "kva_inv s" "distinct (PoolPageList pool)" "\<forall>b \<in> set (PoolPageList pool). heap_block s b 1" using pg by (auto simp: pages_ok_def held_pages_def)
    obtain s' where s': "free_pages (PoolPageList pool) s = Done s'" "kva_inv s'" "\<forall>b m. heap_block s' b m \<longleftrightarrow> heap_block s b m \<and> b \<notin> set (PoolPageList pool)"
      using free_pages_blocks [OF d] by blast
    define pool' where "pool' = \<lparr>PoolMagic = KE_POOL_MAGIC_DEAD, PoolFreeList = [], PoolPageList = [], SlotSize = 0, PoolSlotsPerPage = 0, PoolTotalSlots = 0,
      PoolUsedSlots = 0, PoolPeakUsedSlots = 0, PoolFailedGrows = 0, PoolPageCount = 0, PoolName = None\<rparr>"
    have "pages_ok sz pool' pend s'" using pg s'(2,3) by (auto simp: pages_ok_def held_pages_def pool'_def)
    then have "pool_ok sz pool' pend objs s'" using True
      by (simp add: pool_ok_def slots_ok_def pool'_def all_slots_def KE_POOL_MAGIC_DEAD_def KE_POOL_MAGIC_ALIVE_def)
    then show ?thesis using s'(1,3) True u by (simp add: KePoolDestroy_def Let_def pool'_def)
  qed
qed

lemma prepared_page_pending:
  assumes ok: "pool_ok sz pool pend objs s" and p: "KiPoolPrepareOnePage sz s = Done (r, s')"
  shows "case r of Inl e \<Rightarrow> e \<noteq> EC_SUCCESS \<and> pool_ok sz pool pend objs s' | Inr page \<Rightarrow> pool_ok sz pool (pend @ [page]) objs s'"
proof -
  have pg: "pages_ok sz pool pend s" and inv: "kva_inv s" "slot_size_ok sz" using ok by (simp_all add: pool_ok_def pages_ok_def)
  note e = KiPoolPrepareOnePage_effect [OF inv, unfolded p, simplified]
  show ?thesis
  proof (cases r)
    case (Inl x)
    then have "pages_ok sz pool pend s'" using pg e by (simp add: pages_ok_def)
    then show ?thesis using Inl e ok by (simp add: pool_ok_def)
  next
    case (Inr page)
    have "BaseVirt page \<notin> set (held_pages pool pend)" using e Inr pg by (auto simp: pages_ok_def)
    then have "pages_ok sz pool (pend @ [page]) s'" using pg e Inr by (auto simp: pages_ok_def held_pages_def)
    then show ?thesis using Inr ok by (simp add: pool_ok_def)
  qed
qed

text \<open>\<open>KePoolAlloc\<close> without interference.\<close>

lemma KePoolAlloc_effect:
  assumes ok: "pool_ok sz pool [] objs s" and alive: "PoolMagic pool = KE_POOL_MAGIC_ALIVE"
  shows "\<exists>r pool' mem' s'. KePoolAlloc pool mem s = Done (r, pool', mem', s') \<and> PoolMagic pool' = KE_POOL_MAGIC_ALIVE \<and>
    (case r of None \<Rightarrow> pool_ok sz pool' [] objs s' \<and> mem' = mem \<and> PoolFreeList pool = []
     | Some x \<Rightarrow> x \<notin> objs \<and> pool_ok sz pool' [] (insert x objs) s' \<and> mem' = zero_bytes x sz mem)"
proof -
  have pg: "pages_ok sz pool [] s" and sl: "slots_ok sz pool objs" and sz: "SlotSize pool = sz" and inv: "kva_inv s" "slot_size_ok sz"
    using ok alive by (simp_all add: pool_ok_def pages_ok_def)
  have s0: "sz \<noteq> 0" using inv(2) by (auto simp: slot_size_ok_def)
  obtain r pool1 where p: "pop_node pool = Done (r, pool1)" "PoolPageList pool1 = PoolPageList pool" "PoolMagic pool1 = PoolMagic pool" "SlotSize pool1 = SlotSize pool"
    "case r of None \<Rightarrow> pool1 = pool \<and> PoolFreeList pool = [] | Some x \<Rightarrow> x \<notin> objs \<and> x \<in> all_slots sz (PoolPageList pool) \<and> slots_ok sz pool1 (insert x objs)"
    using pop_node_effect [OF pg sl] by blast
  have tp: "KiPoolTryPopNode pool = Done (r, pool1)" using p(1) alive by (simp add: KiPoolTryPopNode_def)
  show ?thesis
  proof (cases r)
    case (Some x)
    have "pages_ok sz pool1 [] s" using pg p(2) by (rule pages_ok_cong)
    then have "pool_ok sz pool1 [] (insert x objs) s" using p Some alive sz by (simp add: pool_ok_def)
    then show ?thesis using tp Some p alive sz by (simp add: KePoolAlloc_def)
  next
    case None
    then have e: "pool1 = pool" "PoolFreeList pool = []" using p(5) by simp_all
    obtain q s1 where q: "KiPoolPrepareOnePage sz s = Done (q, s1)" using KiPoolPrepareOnePage_effect [OF inv] by blast
    note pp = prepared_page_pending [OF ok q]
    show ?thesis
    proof (cases q)
      case (Inl st)
      have "pool_ok sz (pool\<lparr>PoolFailedGrows := PoolFailedGrows pool + 1\<rparr>) [] objs s1"
        using pp Inl by (simp add: pool_ok_def pages_ok_def held_pages_def slots_ok_def)
      then show ?thesis using tp None e q Inl alive sz s0 by (simp add: KePoolAlloc_def Let_def)
    next
      case (Inr page)
      then have ok1: "pool_ok sz pool ([] @ page # []) objs s1" using pp by simp
      obtain x pool2 where x: "KiPoolPublishPreparedPageAndPop pool page s1 = Done (Some x, pool2, s1)" "x \<notin> objs" "pool_ok sz pool2 ([] @ []) (insert x objs) s1"
        using KiPoolPublishPreparedPageAndPop_effect [OF ok1] alive by auto
      have "SlotSize pool2 = sz \<and> PoolMagic pool2 = KE_POOL_MAGIC_ALIVE"
      proof -
        have "all_slots sz (PoolPageList pool2) \<noteq> {}" using x(3) by (auto simp: pool_ok_def slots_ok_def)
        then have "PoolPageList pool2 \<noteq> []" by (auto simp: all_slots_def)
        then show ?thesis using x(3) by (simp add: pool_ok_def split: if_splits)
      qed
      then show ?thesis using tp None e q Inr alive sz s0 x by (simp add: KePoolAlloc_def Let_def)
    qed
  qed
qed


section \<open>Initialisation\<close>

lemma unat_and_not_mask: "unat (w AND NOT (mask k) :: u64) = unat w div 2 ^ k * 2 ^ k"
proof -
  have "w AND NOT (mask k) = push_bit k (drop_bit k w)" by (rule bit_word_eqI) (auto simp: bit_simps)
  then have "unat (w AND NOT (mask k)) = take_bit 64 (push_bit k (unat (drop_bit k w)))" by (simp add: unsigned_push_bit_eq)
  also have "push_bit k (unat (drop_bit k w)) = unat w div 2 ^ k * 2 ^ k" unfolding unat_drop_bit by (simp add: push_bit_eq_mult drop_bit_eq_div)
  also have "take_bit 64 (unat w div 2 ^ k * 2 ^ k) = unat w div 2 ^ k * 2 ^ k"
  proof (rule take_bit_nat_eq_self)
    have "unat w div 2 ^ k * 2 ^ k \<le> unat w" by (rule div_times_less_eq_dividend)
    also have "\<dots> < 2 ^ 64" using unsigned_less [of w] by simp
    finally show "unat w div 2 ^ k * 2 ^ k < 2 ^ 64" .
  qed
  finally show ?thesis .
qed

lemma align_up_8:
  shows "unat (HO_ALIGN_UP (x :: u64) 8) mod 8 = 0" "unat x + 8 \<le> 2 ^ 64 \<Longrightarrow> unat x \<le> unat (HO_ALIGN_UP x 8)"
proof -
  have e: "HO_ALIGN_UP x 8 = (x + 7) AND NOT (mask 3)" by (simp add: HO_ALIGN_UP_def mask_eq_exp_minus_1)
  show "unat (HO_ALIGN_UP x 8) mod 8 = 0" unfolding e unat_and_not_mask by simp
  assume "unat x + 8 \<le> 2 ^ 64"
  then have "unat (x + 7) = unat x + 7" by (simp add: unat_add_small)
  then show "unat x \<le> unat (HO_ALIGN_UP x 8)" unfolding e unat_and_not_mask by simp
qed

lemma publish_effect:
  assumes pg: "pages_ok sz pool [page] s" and sl: "slots_ok sz pool objs"
  shows "KiPoolPublishPreparedPage pool page = Done (attach_page pool page)"
    "pages_ok sz (attach_page pool page) [] s" "slots_ok sz (attach_page pool page) objs"
proof -
  have pn: "PreparedNodes page = slot_addrs sz (BaseVirt page)" "unat (SlotCount page) = page_slots sz" and inv: "kva_inv s" "slot_size_ok sz"
    and hb: "heap_block s (BaseVirt page) 1" using pg by (auto simp: pages_ok_def held_pages_def)
  show "KiPoolPublishPreparedPage pool page = Done (attach_page pool page)"
    using slots_of_distinct(3) [OF inv(2) block_room [OF inv(1) hb]] pn inv(2) by (auto simp: KiPoolPublishPreparedPage_def HO_KASSERT_def slot_size_ok_def)
  show "pages_ok sz (attach_page pool page) [] s" "slots_ok sz (attach_page pool page) objs" using attach_page_effect [of sz pool "[]" page "[]" s objs] pg sl by simp_all
qed

text \<open>The heap pages are those others held at the start and those the pool or a preparation holds.\<close>

definition no_leak :: "'a kva_globals_scheme \<Rightarrow> HO_VIRTUAL_ADDRESS list \<Rightarrow> 'a kva_globals_scheme \<Rightarrow> bool" where
  "no_leak s0 bs s \<longleftrightarrow> (\<forall>b m. heap_block s b m \<longleftrightarrow> heap_block s0 b m \<or> b \<in> set bs \<and> m = 1) \<and> (\<forall>b \<in> set bs. \<forall>m. \<not> heap_block s0 b m)"

lemma init_pages_effect:
  assumes "pages_ok sz pool [] s" "slots_ok sz pool {}" "no_leak s0 (PoolPageList pool) s"
  shows "\<exists>st pool' s'. init_pages n sz pool s = Done (st, pool', s') \<and> kva_inv s' \<and> SlotSize pool' = SlotSize pool \<and>
    (if st = EC_SUCCESS then pages_ok sz pool' [] s' \<and> slots_ok sz pool' {} \<and> no_leak s0 (PoolPageList pool') s' \<and> length (PoolPageList pool') = length (PoolPageList pool) + n
     else PoolMagic pool' = 0 \<and> (\<forall>b m. heap_block s' b m = heap_block s0 b m))"
  using assms
proof (induction n arbitrary: pool s)
  case 0
  then show ?case by (simp add: pages_ok_def)
next
  case (Suc n)
  have inv: "kva_inv s" "slot_size_ok sz" using Suc.prems(1) by (simp_all add: pages_ok_def)
  obtain r s1 where p: "KiPoolPrepareOnePage sz s = Done (r, s1)" "kva_inv s1"
    "case r of Inl e \<Rightarrow> e \<noteq> EC_SUCCESS \<and> (\<forall>c m. heap_block s1 c m = heap_block s c m)
     | Inr page \<Rightarrow> PreparedNodes page = slot_addrs sz (BaseVirt page) \<and> unat (SlotCount page) = page_slots sz \<and>
         (\<forall>m. \<not> heap_block s (BaseVirt page) m) \<and> (\<forall>c m. heap_block s1 c m \<longleftrightarrow> c = BaseVirt page \<and> m = 1 \<or> heap_block s c m)"
    using KiPoolPrepareOnePage_effect [OF inv] by blast
  show ?case
  proof (cases r)
    case (Inl e)
    have d: "distinct (PoolPageList pool)" "\<forall>b \<in> set (PoolPageList pool). heap_block s1 b 1" using Suc.prems(1) p(3) Inl by (auto simp: pages_ok_def held_pages_def)
    obtain s2 where f: "free_pages (PoolPageList pool) s1 = Done s2" "kva_inv s2" "\<forall>b m. heap_block s2 b m \<longleftrightarrow> heap_block s1 b m \<and> b \<notin> set (PoolPageList pool)"
      using free_pages_blocks [OF p(2) d] by blast
    have "heap_block s2 b m = heap_block s0 b m" for b m using f(3) p(3) Inl Suc.prems(3) by (auto simp: no_leak_def)
    then show ?thesis using p(1,3) Inl f(1,2) by simp
  next
    case (Inr page)
    have nb: "BaseVirt page \<notin> set (PoolPageList pool)" using p(3) Inr Suc.prems(1) by (auto simp: pages_ok_def held_pages_def)
    have pg: "pages_ok sz pool [page] s1" using Suc.prems(1) p(2,3) Inr nb by (auto simp: pages_ok_def held_pages_def)
    note a = publish_effect [OF pg Suc.prems(2)]
    have b1: "no_leak s0 (PoolPageList (attach_page pool page)) s1" using p(3) Inr Suc.prems(3) by (auto simp: attach_page_def no_leak_def)
    have e: "init_pages (Suc n) sz pool s = init_pages n sz (attach_page pool page) s1" using p(1) Inr a(1) by simp
    have l: "length (PoolPageList (attach_page pool page)) + n = length (PoolPageList pool) + Suc n" "SlotSize (attach_page pool page) = SlotSize pool"
      by (simp_all add: attach_page_def)
    show ?thesis unfolding e using Suc.IH [OF a(2,3) b1] unfolding l by blast
  qed
qed

lemma KePoolInit_effect:
  assumes inv: "kva_inv s"
  shows "\<exists>st pool' s'. KePoolInit pool objectSize initialCapacity name s = Done (st, pool', s') \<and> kva_inv s' \<and>
    (if st = EC_SUCCESS
     then PoolMagic pool' = KE_POOL_MAGIC_ALIVE \<and> pool_ok (SlotSize pool') pool' [] {} s' \<and> no_leak s (PoolPageList pool') s' \<and>
       (unat objectSize + 8 \<le> 2 ^ 64 \<longrightarrow> unat objectSize \<le> unat (SlotSize pool')) \<and>
       (unat initialCapacity + 512 < 2 ^ 32 \<longrightarrow> unat initialCapacity \<le> unat (PoolTotalSlots pool'))
     else PoolMagic pool' = 0 \<and> (\<forall>b m. heap_block s' b m = heap_block s b m))"
proof -
  define sz where "sz = (if HO_ALIGN_UP objectSize 8 < sizeof_KE_POOL_FREE_NODE then sizeof_KE_POOL_FREE_NODE else HO_ALIGN_UP objectSize 8)"
  define spp where "spp = (ucast ((PAGE_4KB - header_size sz) div sz) :: u32)"
  define pool1 where "pool1 = \<lparr>PoolMagic = 0, PoolFreeList = [], PoolPageList = [], SlotSize = sz, PoolSlotsPerPage = spp,
                PoolTotalSlots = 0, PoolUsedSlots = 0, PoolPeakUsedSlots = 0, PoolFailedGrows = 0, PoolPageCount = 0, PoolName = name\<rparr>"
  define need where "need = (let n = (initialCapacity + spp - 1) div spp in if n = 0 then 1 else n)"
  have sz: "unat sz mod 8 = 0" "8 \<le> unat sz" "unat objectSize + 8 \<le> 2 ^ 64 \<Longrightarrow> unat objectSize \<le> unat sz"
    using align_up_8 [of objectSize] by (auto simp: sz_def sizeof_KE_POOL_FREE_NODE_def word_less_nat_alt)
  have run: "KePoolInit pool objectSize initialCapacity name s =
    (if header_size sz \<ge> PAGE_4KB then Done (EC_ILLEGAL_ARGUMENT, pool\<lparr>PoolMagic := 0\<rparr>, s)
     else if spp = 0 then Done (EC_ILLEGAL_ARGUMENT, pool1, s)
     else bind_outcome (init_pages (unat need) sz pool1 s) (\<lambda>(status, pool, s).
            Done (status, if status = EC_SUCCESS then pool\<lparr>PoolMagic := KE_POOL_MAGIC_ALIVE\<rparr> else pool, s)))"
    unfolding KePoolInit_def Let_def sz_def [symmetric] header_size_def [symmetric] spp_def [symmetric] pool1_def [symmetric]
    by (auto simp: need_def Let_def)
  show ?thesis
  proof (cases "header_size sz \<ge> PAGE_4KB \<or> spp = 0")
    case True
    then show ?thesis using run inv by (auto simp: pool1_def)
  next
    case False
    have spu: "unat spp = page_slots sz" by (simp add: spp_def page_slots_def)
    have ok: "slot_size_ok sz" using sz False spu by (simp add: slot_size_ok_def unat_gt_0 [symmetric] not_le)
    have pg: "pages_ok sz pool1 [] s" "slots_ok sz pool1 {}" using inv ok by (simp_all add: pages_ok_def held_pages_def slots_ok_def pool1_def all_slots_def)
    obtain st pool2 s' where i: "init_pages (unat need) sz pool1 s = Done (st, pool2, s')" "kva_inv s'" "SlotSize pool2 = SlotSize pool1"
      "if st = EC_SUCCESS then pages_ok sz pool2 [] s' \<and> slots_ok sz pool2 {} \<and> no_leak s (PoolPageList pool2) s' \<and> length (PoolPageList pool2) = length (PoolPageList pool1) + unat need
       else PoolMagic pool2 = 0 \<and> (\<forall>b m. heap_block s' b m = heap_block s b m)"
      using init_pages_effect [OF pg, of s "unat need"] by (auto simp: pool1_def no_leak_def)
    have cap: "unat initialCapacity \<le> unat (PoolTotalSlots pool2)" if st: "st = EC_SUCCESS" and c: "unat initialCapacity + 512 < 2 ^ 32"
    proof -
      have s0: "0 < unat spp" "unat spp \<le> 512" using ok spu page_slots_fit(3) [OF ok] by (simp_all add: slot_size_ok_def)
      have "unat (initialCapacity + spp) = unat initialCapacity + unat spp" using c s0 by (simp add: unat_add_small)
      then have "unat (initialCapacity + spp - 1) = unat initialCapacity + unat spp - 1" using s0 by (simp add: unat_sub_small)
      then have "unat ((initialCapacity + spp - 1) div spp) = (unat initialCapacity + unat spp - 1) div unat spp" by (simp add: unat_div)
      then have "(unat initialCapacity + unat spp - 1) div unat spp \<le> unat need" by (auto simp: need_def Let_def)
      moreover have "unat initialCapacity \<le> (unat initialCapacity + unat spp - 1) div unat spp * unat spp"
      proof -
        define q where "q = (unat initialCapacity + unat spp - 1) div unat spp"
        have "unat initialCapacity + unat spp - 1 < q * unat spp + unat spp"
          unfolding q_def using s0(1) by (metis add.commute dividend_less_div_times)
        then show ?thesis unfolding q_def [symmetric] by linarith
      qed
      ultimately have "unat initialCapacity \<le> unat need * unat spp" using mult_le_mono1 le_trans by blast
      then show ?thesis using i(4) st spu by (simp add: slots_ok_def pool1_def)
    qed
    show ?thesis
    proof (cases "st = EC_SUCCESS")
      case True
      have "pool_ok sz (pool2\<lparr>PoolMagic := KE_POOL_MAGIC_ALIVE\<rparr>) [] {} s'"
        using i True by (simp add: pool_ok_def pages_ok_def held_pages_def slots_ok_def pool1_def)
      then show ?thesis using run False i True sz(3) cap by (simp add: pool1_def)
    qed (use run False i in simp)
  qed
qed


section \<open>Interleaved callers\<close>

text \<open>
  Allocation leaves its critical section between the attempt to pop, the preparation of a page and
  its publication, so other calls run in between; a call is one critical section (or the page
  preparation). The callers' obligations are \<open>pool_legal\<close>: publish what was prepared and free what is
  held.
\<close>

datatype pool_call = PoolTake | PoolGrow | PoolPublish nat | PoolGive HO_VIRTUAL_ADDRESS | PoolDestroyCall

type_synonym 'a pool_state = "KE_POOL \<times> KE_POOL_PREPARED_PAGE list \<times> HO_VIRTUAL_ADDRESS set \<times> 'a kva_globals_scheme"

definition hold :: "HO_VIRTUAL_ADDRESS option \<Rightarrow> HO_VIRTUAL_ADDRESS set \<Rightarrow> HO_VIRTUAL_ADDRESS set" where
  "hold r objs = (case r of None \<Rightarrow> objs | Some x \<Rightarrow> insert x objs)"

fun pool_run :: "pool_call \<Rightarrow> 'a pool_state \<Rightarrow> 'a pool_state outcome" where
  "pool_run PoolTake (pool, pend, objs, s) =
    bind_outcome (KiPoolTryPopNode pool) (\<lambda>(r, pool). Done (pool, pend, hold r objs, s))"
| "pool_run PoolGrow (pool, pend, objs, s) =
    (if PoolMagic pool \<noteq> KE_POOL_MAGIC_ALIVE \<or> SlotSize pool = 0 then Done (pool, pend, objs, s)
     else bind_outcome (KiPoolPrepareOnePage (SlotSize pool) s) (\<lambda>(r, s).
       Done (case r of Inl e \<Rightarrow> (pool\<lparr>PoolFailedGrows := PoolFailedGrows pool + 1\<rparr>, pend, objs, s) | Inr page \<Rightarrow> (pool, pend @ [page], objs, s))))"
| "pool_run (PoolPublish i) (pool, pend, objs, s) =
    bind_outcome (KiPoolPublishPreparedPageAndPop pool (pend ! i) s) (\<lambda>(r, pool, s). Done (pool, take i pend @ drop (Suc i) pend, hold r objs, s))"
| "pool_run (PoolGive x) (pool, pend, objs, s) = bind_outcome (KePoolFree pool (Some x)) (\<lambda>pool. Done (pool, pend, objs - {x}, s))"
| "pool_run PoolDestroyCall (pool, pend, objs, s) = bind_outcome (KePoolDestroy pool s) (\<lambda>(st, pool, s). Done (pool, pend, objs, s))"

fun pool_legal :: "pool_call \<Rightarrow> 'a pool_state \<Rightarrow> bool" where
  "pool_legal (PoolPublish i) (pool, pend, objs, s) \<longleftrightarrow> i < length pend"
| "pool_legal (PoolGive x) (pool, pend, objs, s) \<longleftrightarrow> x \<in> objs"
| "pool_legal c w = True"

fun pool_inv :: "u64 \<Rightarrow> 'a kva_globals_scheme \<Rightarrow> 'a pool_state \<Rightarrow> bool" where
  "pool_inv sz s0 (pool, pend, objs, s) \<longleftrightarrow> pool_ok sz pool pend objs s \<and> no_leak s0 (held_pages pool pend) s"

lemma try_pop_effect:
  assumes ok: "pool_ok sz pool pend objs s"
  shows "\<exists>r pool'. KiPoolTryPopNode pool = Done (r, pool') \<and> pool_ok sz pool' pend (hold r objs) s \<and> PoolPageList pool' = PoolPageList pool \<and>
    (\<forall>x. r = Some x \<longrightarrow> x \<notin> objs)"
proof (cases "PoolMagic pool = KE_POOL_MAGIC_ALIVE")
  case False
  then show ?thesis using ok by (simp add: KiPoolTryPopNode_def hold_def)
next
  case True
  have pg: "pages_ok sz pool pend s" and sl: "slots_ok sz pool objs" using ok by (simp_all add: pool_ok_def)
  obtain r pool' where p: "pop_node pool = Done (r, pool')" "PoolPageList pool' = PoolPageList pool" "PoolMagic pool' = PoolMagic pool" "SlotSize pool' = SlotSize pool"
    "case r of None \<Rightarrow> pool' = pool \<and> PoolFreeList pool = [] | Some x \<Rightarrow> x \<notin> objs \<and> x \<in> all_slots sz (PoolPageList pool) \<and> slots_ok sz pool' (insert x objs)"
    using pop_node_effect [OF pg sl] by blast
  have "slots_ok sz pool' (hold r objs)" using p(5) sl by (cases r) (simp_all add: hold_def)
  then have "pool_ok sz pool' pend (hold r objs) s" using pages_ok_cong [OF pg p(2)] p ok by (simp add: pool_ok_def)
  then show ?thesis using p True by (cases r) (auto simp: KiPoolTryPopNode_def)
qed

lemma pool_run_effect:
  assumes inv: "pool_inv sz s0 w" and legal: "pool_legal c w"
  shows "\<exists>w'. pool_run c w = Done w' \<and> pool_inv sz s0 w'"
proof -
  obtain pool pend objs s where w: "w = (pool, pend, objs, s)" by (cases w)
  have ok: "pool_ok sz pool pend objs s" and nl: "no_leak s0 (held_pages pool pend) s" using inv by (simp_all add: w)
  have kv: "kva_inv s" "slot_size_ok sz" using ok by (simp_all add: pool_ok_def pages_ok_def)
  show ?thesis
  proof (cases c)
    case PoolTake
    then show ?thesis using try_pop_effect [OF ok] nl by (auto simp: w held_pages_def)
  next
    case PoolGrow
    show ?thesis
    proof (cases "PoolMagic pool \<noteq> KE_POOL_MAGIC_ALIVE \<or> SlotSize pool = 0")
      case True
      then show ?thesis using PoolGrow inv by (simp add: w)
    next
      case False
      then have sz: "SlotSize pool = sz" using ok by (simp add: pool_ok_def)
      obtain r s' where p: "KiPoolPrepareOnePage sz s = Done (r, s')"
        "case r of Inl e \<Rightarrow> e \<noteq> EC_SUCCESS \<and> (\<forall>c m. heap_block s' c m = heap_block s c m)
         | Inr page \<Rightarrow> PreparedNodes page = slot_addrs sz (BaseVirt page) \<and> unat (SlotCount page) = page_slots sz \<and>
             (\<forall>m. \<not> heap_block s (BaseVirt page) m) \<and> (\<forall>c m. heap_block s' c m \<longleftrightarrow> c = BaseVirt page \<and> m = 1 \<or> heap_block s c m)"
        using KiPoolPrepareOnePage_effect [OF kv] by blast
      note pp = prepared_page_pending [OF ok p(1)]
      show ?thesis
      proof (cases r)
        case (Inl e)
        have "pool_ok sz (pool\<lparr>PoolFailedGrows := PoolFailedGrows pool + 1\<rparr>) pend objs s'"
          using pp Inl by (simp add: pool_ok_def pages_ok_def held_pages_def slots_ok_def)
        then show ?thesis using PoolGrow False p Inl nl sz by (simp add: w no_leak_def held_pages_def)
      next
        case (Inr page)
        have "no_leak s0 (held_pages pool (pend @ [page])) s'" using nl p(2) Inr by (auto simp: no_leak_def held_pages_def)
        then show ?thesis using PoolGrow False p(1) Inr pp sz by (simp add: w)
      qed
    qed
  next
    case (PoolPublish i)
    then have i: "i < length pend" using legal by (simp add: w)
    have sp: "pend = take i pend @ pend ! i # drop (Suc i) pend" using i by (rule id_take_nth_drop)
    obtain r pool' s' where p: "KiPoolPublishPreparedPageAndPop pool (pend ! i) s = Done (r, pool', s')"
      "if PoolMagic pool = KE_POOL_MAGIC_ALIVE
       then s' = s \<and> PoolPageList pool' = BaseVirt (pend ! i) # PoolPageList pool \<and>
         (\<exists>x. r = Some x \<and> x \<notin> objs \<and> pool_ok sz pool' (take i pend @ drop (Suc i) pend) (insert x objs) s')
       else r = None \<and> pool' = pool \<and> pool_ok sz pool (take i pend @ drop (Suc i) pend) objs s' \<and>
         (\<forall>c m. heap_block s' c m \<longleftrightarrow> heap_block s c m \<and> c \<noteq> BaseVirt (pend ! i))"
      using KiPoolPublishPreparedPageAndPop_effect [of sz pool "take i pend" "pend ! i" "drop (Suc i) pend" objs s] ok sp by auto
    have hs: "set (held_pages pool pend) = insert (BaseVirt (pend ! i)) (set (held_pages pool (take i pend @ drop (Suc i) pend)))"
      by (subst sp) (auto simp: held_pages_def)
    have ok': "pool_ok sz pool' (take i pend @ drop (Suc i) pend) (hold r objs) s'" using p(2) by (auto simp: hold_def split: if_splits)
    have "no_leak s0 (held_pages pool' (take i pend @ drop (Suc i) pend)) s'"
    proof (cases "PoolMagic pool = KE_POOL_MAGIC_ALIVE")
      case True
      then have "set (held_pages pool' (take i pend @ drop (Suc i) pend)) = set (held_pages pool pend)" using p(2) hs by (simp add: held_pages_def)
      then show ?thesis using nl p(2) True by (simp add: no_leak_def)
    next
      case False
      have ms: "map BaseVirt pend = map BaseVirt (take i pend) @ BaseVirt (pend ! i) # map BaseVirt (drop (Suc i) pend)"
        using arg_cong [OF sp, of "map BaseVirt"] by simp
      have "distinct (PoolPageList pool @ map BaseVirt pend)" using ok by (simp add: pool_ok_def pages_ok_def held_pages_def)
      then have "BaseVirt (pend ! i) \<notin> set (held_pages pool (take i pend @ drop (Suc i) pend))" unfolding ms held_pages_def by auto
      then show ?thesis using nl p(2) False hs by (auto simp: no_leak_def)
    qed
    then show ?thesis using PoolPublish p(1) ok' by (simp add: w)
  next
    case (PoolGive x)
    then have "x \<in> objs" using legal by (simp add: w)
    then obtain pool' where f: "KePoolFree pool (Some x) = Done pool'" "pool_ok sz pool' pend (objs - {x}) s" using KePoolFree_effect [OF ok] by blast
    have "PoolPageList pool' = PoolPageList pool" using f(1) by (auto simp: KePoolFree_def HO_KASSERT_def split: if_splits)
    then show ?thesis using PoolGive f nl by (simp add: w held_pages_def)
  next
    case PoolDestroyCall
    obtain st pool' s' where d: "KePoolDestroy pool s = Done (st, pool', s')" "pool_ok sz pool' pend objs s'"
      "if PoolMagic pool = KE_POOL_MAGIC_ALIVE \<and> objs = {}
       then st = EC_SUCCESS \<and> PoolMagic pool' = KE_POOL_MAGIC_DEAD \<and> (\<forall>b m. heap_block s' b m \<longleftrightarrow> heap_block s b m \<and> b \<notin> set (PoolPageList pool))
       else st = EC_INVALID_STATE \<and> pool' = pool \<and> s' = s" using KePoolDestroy_effect [OF ok] by blast
    have "no_leak s0 (held_pages pool' pend) s'"
    proof (cases "PoolMagic pool = KE_POOL_MAGIC_ALIVE \<and> objs = {}")
      case True
      then have "PoolPageList pool' = []" using d(2,3) by (simp add: pool_ok_def KE_POOL_MAGIC_DEAD_def KE_POOL_MAGIC_ALIVE_def)
      moreover have "distinct (held_pages pool pend)" using ok by (simp add: pool_ok_def pages_ok_def)
      ultimately show ?thesis using nl d(3) True unfolding no_leak_def held_pages_def by auto
    qed (use d(3) nl in auto)
    then show ?thesis using PoolDestroyCall d(1,2) by (simp add: w)
  qed
qed


interpretation pool: safe_machine pool_run pool_legal "pool_inv sz s0" for sz s0
  by unfold_locales (rule pool_run_effect)

end
