(* ===== verification/AllocatorInv.thy ===== *)
theory AllocatorInv
  imports Allocator PoolProofs
begin

text \<open>
  The layout of small pages and the invariant of the kernel heap: which blocks are live, which
  heap pages back them, and what the statistics count.
\<close>

section \<open>Layout\<close>

definition class_size :: "nat \<Rightarrow> nat" where "class_size c = unat (gAllocatorClassSizes ! c)"
definition stride :: "nat \<Rightarrow> nat" where "stride c = 24 + class_size c"
definition nslots :: "nat \<Rightarrow> nat" where "nslots c = 4040 div stride c"

definition small_slots :: "nat \<Rightarrow> HO_VIRTUAL_ADDRESS \<Rightarrow> HO_VIRTUAL_ADDRESS list" where
  "small_slots c p = map (\<lambda>i. p + 56 + word_of_nat (i * stride c)) [0..<nslots c]"

lemma class_cases: "c < KE_ALLOC_SMALL_CLASS_COUNT \<longleftrightarrow> c = 0 \<or> c = 1 \<or> c = 2 \<or> c = 3 \<or> c = 4 \<or> c = 5 \<or> c = 6"
  by (auto simp: KE_ALLOC_SMALL_CLASS_COUNT_def)

lemma class_consts:
  assumes "c < KE_ALLOC_SMALL_CLASS_COUNT"
  shows "16 \<le> class_size c" "class_size c \<le> 1024" "class_size c mod 8 = 0" "0 < nslots c" "nslots c \<le> 101" "nslots c * stride c \<le> 4040"
    "40 \<le> stride c" "stride c \<le> 1048"
  using assms unfolding class_cases
  by (auto simp: nslots_def stride_def class_size_def gAllocatorClassSizes_def)

lemma find_class:
  "KiAllocatorFindSmallClass sz = Some c \<Longrightarrow> c < KE_ALLOC_SMALL_CLASS_COUNT \<and> unat sz \<le> class_size c"
  "KiAllocatorFindSmallClass sz = None \<Longrightarrow> 1024 < unat sz"
proof -
  assume "KiAllocatorFindSmallClass sz = Some c"
  then show "c < KE_ALLOC_SMALL_CLASS_COUNT \<and> unat sz \<le> class_size c"
    by (simp add: KiAllocatorFindSmallClass_def find_upt_Some class_size_def word_le_nat_alt)
next
  assume "KiAllocatorFindSmallClass sz = None"
  then have "\<not> sz \<le> gAllocatorClassSizes ! 6"
    by (auto simp: KiAllocatorFindSmallClass_def find_None_iff KE_ALLOC_SMALL_CLASS_COUNT_def)
  then show "1024 < unat sz" by (simp add: gAllocatorClassSizes_def word_le_nat_alt)
qed

lemma small_slots_iff: "q \<in> set (small_slots c p) \<longleftrightarrow> (\<exists>i<nslots c. q = p + 56 + word_of_nat (i * stride c))"
  by (auto simp: small_slots_def)

lemma small_slot_address:
  fixes p :: HO_VIRTUAL_ADDRESS
  assumes c: "c < KE_ALLOC_SMALL_CLASS_COUNT" and p: "unat p + 4096 < 2 ^ 64" and i: "i < nslots c"
  shows "unat (p + 56 + word_of_nat (i * stride c)) = unat p + 56 + i * stride c" "i * stride c + stride c \<le> 4040"
proof -
  have "(i + 1) * stride c \<le> nslots c * stride c" using i by (intro mult_le_mono1) simp
  then show le: "i * stride c + stride c \<le> 4040" using class_consts(6) [OF c] by (simp add: algebra_simps)
  have w: "unat (word_of_nat (i * stride c) :: u64) = i * stride c" using le by (simp add: unsigned_of_nat take_bit_nat_eq_self del: of_nat_mult)
  have "unat (p + 56) = unat p + 56" by (subst unat_add_small) (use p in simp_all)
  then show "unat (p + 56 + word_of_nat (i * stride c)) = unat p + 56 + i * stride c" using p le w by (subst unat_add_small) (simp_all del: of_nat_mult)
qed

lemma small_slotsE:
  assumes "q \<in> set (small_slots c p)" "c < KE_ALLOC_SMALL_CLASS_COUNT" "unat p + 4096 < 2 ^ 64"
  obtains i where "i < nslots c" "q = p + 56 + word_of_nat (i * stride c)" "unat q = unat p + 56 + i * stride c" "i * stride c + stride c \<le> 4040"
  using assms small_slot_address [OF assms(2,3)] by (auto simp: small_slots_iff)

lemma slot_page:
  assumes "q \<in> set (small_slots c p)" "c < KE_ALLOC_SMALL_CLASS_COUNT" "unat p + 4096 < 2 ^ 64" "unat p mod 4096 = 0"
  shows "unat q div 4096 * 4096 = unat p"
proof -
  obtain i where i: "unat q = unat p + 56 + i * stride c" "i * stride c + stride c \<le> 4040" using small_slotsE [OF assms(1-3)] by metis
  obtain k where "unat p = 4096 * k" using assms(4) by (metis dvd_def mod_0_imp_dvd)
  moreover define x where "x = 56 + i * stride c"
  ultimately have "unat q = 4096 * k + x" "x < 4096" using i class_consts(7) [OF assms(2)] by simp_all
  then show ?thesis using \<open>unat p = 4096 * k\<close> by simp
qed

lemma slots_distinct:
  assumes "c < KE_ALLOC_SMALL_CLASS_COUNT" "unat p + 4096 < 2 ^ 64"
  shows "distinct (small_slots c p)"
  unfolding small_slots_def distinct_map
proof (intro conjI inj_onI)
  fix i j assume "i \<in> set [0..<nslots c]" "j \<in> set [0..<nslots c]" and e: "p + 56 + word_of_nat (i * stride c) = p + 56 + word_of_nat (j * stride c)"
  then have "unat p + 56 + i * stride c = unat p + 56 + j * stride c" using small_slot_address(1) [OF assms, of i] small_slot_address(1) [OF assms, of j] by simp
  then show "i = j" using class_consts(7) [OF assms(1)] by simp
qed simp

lemma length_small_slots [simp]: "length (small_slots c p) = nslots c"
  by (simp add: small_slots_def)

section \<open>Live blocks\<close>

definition free_slots :: "allocator_globals \<Rightarrow> HO_VIRTUAL_ADDRESS \<Rightarrow> HO_VIRTUAL_ADDRESS list" where
  "free_slots a p = PageFreeList (SmallPageAt a p)"

definition chain_pages :: "allocator_globals \<Rightarrow> HO_VIRTUAL_ADDRESS set" where
  "chain_pages a = (\<Union>c<KE_ALLOC_SMALL_CLASS_COUNT. set (gAllocatorSmallPages a c))"

definition used_slots :: "allocator_globals \<Rightarrow> nat \<Rightarrow> HO_VIRTUAL_ADDRESS \<Rightarrow> HO_VIRTUAL_ADDRESS set" where
  "used_slots a c p = set (small_slots c p) - set (free_slots a p)"

definition large_live :: "allocator_globals \<Rightarrow> nat \<Rightarrow> bool" where
  "large_live a i \<longleftrightarrow> i < KE_ALLOC_LARGE_RECORD_CAPACITY \<and> LargeInUse (gAllocatorLargeRecords a i)"

text \<open>The live blocks: their pointers and requested sizes.\<close>

definition live_blocks :: "allocator_globals \<Rightarrow> (HO_VIRTUAL_ADDRESS \<times> nat) set" where
  "live_blocks a =
    {(q + 24, unat (SlotRequestedSize (SmallSlotAt a q))) | q c p. c < KE_ALLOC_SMALL_CLASS_COUNT \<and> p \<in> set (gAllocatorSmallPages a c) \<and> q \<in> used_slots a c p} \<union>
    {(UserPointer (gAllocatorLargeRecords a i), unat (LargeRequestedSize (gAllocatorLargeRecords a i))) | i. large_live a i}"

text \<open>The heap pages behind them.\<close>

definition backing_blocks :: "allocator_globals \<Rightarrow> (HO_VIRTUAL_ADDRESS \<times> nat) set" where
  "backing_blocks a = (\<lambda>p. (p, 1)) ` chain_pages a \<union>
    (\<lambda>i. (UserPointer (gAllocatorLargeRecords a i), unat (LargeBackingUsablePages (gAllocatorLargeRecords a i)))) ` {i. large_live a i}"

section \<open>The invariant\<close>

definition page_ok :: "allocator_globals \<Rightarrow> nat \<Rightarrow> HO_VIRTUAL_ADDRESS \<Rightarrow> bool" where
  "page_ok a c p \<longleftrightarrow>
    (let h = SmallPageAt a p in
     PageMagic h = KE_ALLOC_SMALL_PAGE_MAGIC \<and> unat (PageClassIndex h) = c \<and> unat (PageSlotStride h) = stride c \<and> unat (PageSlotsPerPage h) = nslots c \<and>
     unat (PageFreeCount h) = length (free_slots a p) \<and> PageBackingUsableBase h = p \<and> PageBackingUsablePages h = 1 \<and>
     distinct (free_slots a p) \<and> set (free_slots a p) \<subseteq> set (small_slots c p) \<and>
     (\<forall>q \<in> set (small_slots c p). OwnerPage (SmallSlotAt a q) = p \<and>
        (if q \<in> set (free_slots a p) then SlotState (SmallSlotAt a q) = KE_ALLOC_SLOT_STATE_FREE
         else SlotState (SmallSlotAt a q) = KE_ALLOC_SLOT_STATE_ALLOCATED \<and> 0 < unat (SlotRequestedSize (SmallSlotAt a q)) \<and>
           unat (SlotRequestedSize (SmallSlotAt a q)) \<le> class_size c)))"

definition record_fits :: "KE_ALLOC_LARGE_RECORD \<Rightarrow> bool" where
  "record_fits r \<longleftrightarrow> LargeBackingUsableBase r = UserPointer r \<and> 1024 < unat (LargeRequestedSize r) \<and>
    unat (LargeRequestedSize r) \<le> unat (LargeBackingUsablePages r) * 4096"

definition heap_ok :: "'a kva_globals_scheme \<Rightarrow> allocator_globals \<Rightarrow> 'a kva_globals_scheme \<Rightarrow> bool" where
  "heap_ok s0 a s \<longleftrightarrow> kva_inv s \<and> gAllocatorInitialized a \<and>
    (\<forall>c<KE_ALLOC_SMALL_CLASS_COUNT. distinct (gAllocatorSmallPages a c) \<and> (\<forall>p \<in> set (gAllocatorSmallPages a c). page_ok a c p)) \<and>
    (\<forall>i. large_live a i \<longrightarrow> record_fits (gAllocatorLargeRecords a i) \<and> UserPointer (gAllocatorLargeRecords a i) \<notin> chain_pages a \<and>
       (\<forall>j. large_live a j \<longrightarrow> UserPointer (gAllocatorLargeRecords a j) = UserPointer (gAllocatorLargeRecords a i) \<longrightarrow> j = i)) \<and>
    (\<forall>b m. heap_block s b m \<longleftrightarrow> heap_block s0 b m \<or> (b, m) \<in> backing_blocks a) \<and>
    (\<forall>(b, m) \<in> backing_blocks a. \<forall>k. \<not> heap_block s0 b k)"

definition used_count :: "allocator_globals \<Rightarrow> HO_VIRTUAL_ADDRESS \<Rightarrow> nat" where
  "used_count a p = unat (PageSlotsPerPage (SmallPageAt a p)) - length (free_slots a p)"

definition stats_ok :: "allocator_globals \<Rightarrow> bool" where
  "stats_ok a \<longleftrightarrow> (let st = gAllocatorStats a in
     unat (LiveSmallAllocationCount st) = (\<Sum>p \<in> chain_pages a. used_count a p) \<and>
     unat (LiveLargeAllocationCount st) = card {i. large_live a i} \<and>
     unat (LiveAllocationCount st) = unat (LiveSmallAllocationCount st) + unat (LiveLargeAllocationCount st) \<and>
     unat (BackingBytes st) = 4096 * (card (chain_pages a) + (\<Sum>i | large_live a i. unat (LargeBackingUsablePages (gAllocatorLargeRecords a i)))))"

text \<open>No page is kept without a live block on it.\<close>

definition no_empty_page :: "allocator_globals \<Rightarrow> bool" where
  "no_empty_page a \<longleftrightarrow> (\<forall>c<KE_ALLOC_SMALL_CLASS_COUNT. \<forall>p \<in> set (gAllocatorSmallPages a c). length (free_slots a p) < nslots c)"

definition alloc_inv :: "'a kva_globals_scheme \<Rightarrow> allocator_globals \<Rightarrow> 'a kva_globals_scheme \<Rightarrow> bool" where
  "alloc_inv s0 a s \<longleftrightarrow> heap_ok s0 a s \<and> stats_ok a \<and> no_empty_page a"

lemma chain_pages_iff: "p \<in> chain_pages a \<longleftrightarrow> (\<exists>c<KE_ALLOC_SMALL_CLASS_COUNT. p \<in> set (gAllocatorSmallPages a c))"
  by (auto simp: chain_pages_def)

lemma finite_heap [simp]: "finite (chain_pages a)" "finite {i. large_live a i}"
  by (simp_all add: chain_pages_def large_live_def)

lemma heap_okD:
  assumes "heap_ok s0 a s"
  shows "kva_inv s" "gAllocatorInitialized a" "c < KE_ALLOC_SMALL_CLASS_COUNT \<Longrightarrow> distinct (gAllocatorSmallPages a c)"
    "c < KE_ALLOC_SMALL_CLASS_COUNT \<Longrightarrow> p \<in> set (gAllocatorSmallPages a c) \<Longrightarrow> page_ok a c p"
    "large_live a i \<Longrightarrow> record_fits (gAllocatorLargeRecords a i)" "large_live a i \<Longrightarrow> UserPointer (gAllocatorLargeRecords a i) \<notin> chain_pages a"
    "large_live a i \<Longrightarrow> large_live a j \<Longrightarrow> UserPointer (gAllocatorLargeRecords a j) = UserPointer (gAllocatorLargeRecords a i) \<Longrightarrow> j = i"
    "heap_block s b m \<longleftrightarrow> heap_block s0 b m \<or> (b, m) \<in> backing_blocks a" "(b, m) \<in> backing_blocks a \<Longrightarrow> \<not> heap_block s0 b k"
  using assms by (auto simp: heap_ok_def)

lemma page_okD:
  assumes "page_ok a c p"
  shows "unat (PageClassIndex (SmallPageAt a p)) = c" "unat (PageSlotsPerPage (SmallPageAt a p)) = nslots c"
    "unat (PageFreeCount (SmallPageAt a p)) = length (free_slots a p)" "distinct (free_slots a p)" "set (free_slots a p) \<subseteq> set (small_slots c p)"
    "q \<in> used_slots a c p \<Longrightarrow> 0 < unat (SlotRequestedSize (SmallSlotAt a q)) \<and> unat (SlotRequestedSize (SmallSlotAt a q)) \<le> class_size c"
  using assms by (auto simp: page_ok_def Let_def used_slots_def)

lemma chain_block:
  assumes "heap_ok s0 a s" "p \<in> chain_pages a"
  shows "heap_block s p 1" "unat p + 4096 < 2 ^ 64" "unat p mod 4096 = 0" "0 < unat p"
proof -
  show b: "heap_block s p 1" using heap_okD(8) [OF assms(1), of p 1] assms(2) by (auto simp: backing_blocks_def)
  show "unat p + 4096 < 2 ^ 64" "unat p mod 4096 = 0" "0 < unat p" using kheap.block_bounds [OF heap_okD(1) [OF assms(1)] b] by simp_all
qed

lemma large_block:
  assumes "heap_ok s0 a s" "large_live a i"
  defines "r \<equiv> gAllocatorLargeRecords a i"
  shows "heap_block s (UserPointer r) (unat (LargeBackingUsablePages r))" "unat (UserPointer r) mod 4096 = 0"
    "unat (UserPointer r) + unat (LargeBackingUsablePages r) * 4096 < 2 ^ 64" "unat (LargeBackingUsablePages r) \<le> 16384"
proof -
  show b: "heap_block s (UserPointer r) (unat (LargeBackingUsablePages r))"
    using heap_okD(8) [OF assms(1), of "UserPointer r" "unat (LargeBackingUsablePages r)"] assms(2) by (auto simp: backing_blocks_def r_def)
  note k = heap_okD(1) [OF assms(1)]
  show "unat (UserPointer r) mod 4096 = 0" "unat (UserPointer r) + unat (LargeBackingUsablePages r) * 4096 < 2 ^ 64"
    using kheap.block_bounds [OF k b] by simp_all
  obtain idx j where "j + unat (LargeBackingUsablePages r) \<le> 16384" by (rule heap_blockE [OF k b])
  then show "unat (LargeBackingUsablePages r) \<le> 16384" by simp
qed

end
