(* ===== verification/AllocatorPages.thy ===== *)
theory AllocatorPages
  imports AllocatorInv
begin

text \<open>
  Small pages of the kernel heap: live blocks do not overlap, what a change of one slot does to the
  live blocks, and how a page is prepared and published.
\<close>

lemma live_blockE:
  assumes ok: "heap_ok s0 a s" and x: "(x, n) \<in> live_blocks a"
  obtains (small) c p q i where "c < KE_ALLOC_SMALL_CLASS_COUNT" "p \<in> set (gAllocatorSmallPages a c)" "q \<in> used_slots a c p" "x = q + 24"
      "n = unat (SlotRequestedSize (SmallSlotAt a q))" "0 < n" "n \<le> class_size c" "i < nslots c" "q = p + 56 + word_of_nat (i * stride c)"
      "unat x = unat p + 80 + i * stride c" "i * stride c + stride c \<le> 4040"
    | (large) i where "large_live a i" "x = UserPointer (gAllocatorLargeRecords a i)" "n = unat (LargeRequestedSize (gAllocatorLargeRecords a i))"
      "1024 < n" "n \<le> unat (LargeBackingUsablePages (gAllocatorLargeRecords a i)) * 4096"
proof -
  consider (s) q c p where "c < KE_ALLOC_SMALL_CLASS_COUNT" "p \<in> set (gAllocatorSmallPages a c)" "q \<in> used_slots a c p" "x = q + 24"
      "n = unat (SlotRequestedSize (SmallSlotAt a q))"
    | (l) i where "large_live a i" "x = UserPointer (gAllocatorLargeRecords a i)" "n = unat (LargeRequestedSize (gAllocatorLargeRecords a i))"
    using x by (auto simp: live_blocks_def)
  then show thesis
  proof cases
    case s
    have pc: "p \<in> chain_pages a" using s by (auto simp: chain_pages_iff)
    note b = chain_block [OF ok pc] and o = page_okD [OF heap_okD(4) [OF ok s(1,2)]]
    have "q \<in> set (small_slots c p)" using s(3) by (simp add: used_slots_def)
    then obtain i where i: "i < nslots c" "q = p + 56 + word_of_nat (i * stride c)" "unat q = unat p + 56 + i * stride c" "i * stride c + stride c \<le> 4040"
      using small_slotsE [OF _ s(1) b(2)] by metis
    have "unat (q + 24) = unat q + 24" by (subst unat_add_small) (use i b(2) class_consts(7) [OF s(1)] in simp_all)
    then have x: "unat x = unat p + 80 + i * stride c" using i(3) s(4) by simp
    have n: "0 < n" "n \<le> class_size c" using o(6) [OF s(3)] s(5) by simp_all
    show thesis by (rule small [OF s n i(1,2) x i(4)])
  next
    case l
    show thesis using large [OF l] heap_okD(5) [OF ok l(1)] l(3) by (simp add: record_fits_def)
  qed
qed

lemma page_class:
  assumes "heap_ok s0 a s" "c < KE_ALLOC_SMALL_CLASS_COUNT" "p \<in> set (gAllocatorSmallPages a c)" "d < KE_ALLOC_SMALL_CLASS_COUNT" "p \<in> set (gAllocatorSmallPages a d)"
  shows "c = d"
  using heap_okD(4) [OF assms(1,2,3)] heap_okD(4) [OF assms(1,4,5)] by (simp add: page_ok_def Let_def)

text \<open>A live block lies inside its backing pages.\<close>

definition inside :: "HO_VIRTUAL_ADDRESS \<Rightarrow> nat \<Rightarrow> HO_VIRTUAL_ADDRESS \<Rightarrow> nat \<Rightarrow> bool" where
  "inside x n b m \<longleftrightarrow> unat b \<le> unat x \<and> unat x + n \<le> unat b + m * 4096"

lemma inside_apart: "inside x n b m \<Longrightarrow> inside y k c l \<Longrightarrow> apart b m c l \<Longrightarrow> unat x + n \<le> unat y \<or> unat y + k \<le> unat x"
  unfolding inside_def apart_def by linarith

lemma slots_apart_same_page:
  assumes "c < KE_ALLOC_SMALL_CLASS_COUNT" "i \<noteq> j" "n \<le> class_size c" "m \<le> class_size c"
  shows "80 + i * stride c + n \<le> 80 + j * stride c \<or> 80 + j * stride c + m \<le> 80 + i * stride c"
proof -
  have st: "n \<le> stride c" "m \<le> stride c" using assms by (simp_all add: stride_def)
  consider "Suc i \<le> j" | "Suc j \<le> i" using assms(2) by linarith
  then show ?thesis
  proof cases
    case 1
    then have "Suc i * stride c \<le> j * stride c" by (rule mult_le_mono1)
    then show ?thesis using st by simp
  next
    case 2
    then have "Suc j * stride c \<le> i * stride c" by (rule mult_le_mono1)
    then show ?thesis using st by simp
  qed
qed

lemma live_blocks_apart:
  assumes ok: "heap_ok s0 a s" and x: "(x, n) \<in> live_blocks a" and y: "(y, m) \<in> live_blocks a" and ne: "(x, n) \<noteq> (y, m)"
  shows "unat x + n \<le> unat y \<or> unat y + m \<le> unat x"
proof -
  have ins: "\<exists>b k. (b, k) \<in> backing_blocks a \<and> heap_block s b k \<and> inside z l b k \<and>
      ((\<exists>c p. c < KE_ALLOC_SMALL_CLASS_COUNT \<and> p \<in> set (gAllocatorSmallPages a c) \<and> b = p) \<or> (\<exists>i. large_live a i \<and> b = UserPointer (gAllocatorLargeRecords a i) \<and> z = b \<and> l = unat (LargeRequestedSize (gAllocatorLargeRecords a i))))"
    if "(z, l) \<in> live_blocks a" for z l
  proof (rule live_blockE [OF ok that], goal_cases)
    case (1 c p q i)
    then have pc: "p \<in> chain_pages a" by (auto simp: chain_pages_iff)
    have "inside z l p 1" using 1 by (simp add: inside_def stride_def)
    then show ?case using 1 pc chain_block(1) [OF ok pc] by (intro exI [of _ p] exI [of _ 1]) (auto simp: backing_blocks_def)
  next
    case (2 i)
    let ?r = "gAllocatorLargeRecords a i"
    have "inside z l (UserPointer ?r) (unat (LargeBackingUsablePages ?r))" using 2 by (simp add: inside_def)
    then show ?case using 2 large_block(1) [OF ok 2(1)]
      by (intro exI [of _ "UserPointer ?r"] exI [of _ "unat (LargeBackingUsablePages ?r)"]) (auto simp: backing_blocks_def)
  qed
  obtain b k where b: "heap_block s b k" "inside x n b k"
    and bc: "(\<exists>c. c < KE_ALLOC_SMALL_CLASS_COUNT \<and> b \<in> set (gAllocatorSmallPages a c)) \<or> (\<exists>i. large_live a i \<and> b = UserPointer (gAllocatorLargeRecords a i) \<and> x = b \<and> n = unat (LargeRequestedSize (gAllocatorLargeRecords a i)))"
    using ins [OF x] by blast
  obtain d l where d: "heap_block s d l" "inside y m d l"
    and dc: "(\<exists>c. c < KE_ALLOC_SMALL_CLASS_COUNT \<and> d \<in> set (gAllocatorSmallPages a c)) \<or> (\<exists>i. large_live a i \<and> d = UserPointer (gAllocatorLargeRecords a i) \<and> y = d \<and> m = unat (LargeRequestedSize (gAllocatorLargeRecords a i)))"
    using ins [OF y] by blast
  show ?thesis
  proof (cases "b = d")
    case False
    then show ?thesis using inside_apart [OF b(2) d(2) kheap.block_apart [OF heap_okD(1) [OF ok] b(1) d(1)]] by simp
  next
    case True
    show ?thesis
    proof (cases "b \<in> chain_pages a")
      case False
      then obtain i j where "large_live a i" "b = UserPointer (gAllocatorLargeRecords a i)" "x = b" "n = unat (LargeRequestedSize (gAllocatorLargeRecords a i))"
        "large_live a j" "d = UserPointer (gAllocatorLargeRecords a j)" "y = d" "m = unat (LargeRequestedSize (gAllocatorLargeRecords a j))"
        using bc dc \<open>b = d\<close> by (auto simp: chain_pages_iff)
      then show ?thesis using heap_okD(7) [OF ok, of i j] \<open>b = d\<close> ne by auto
    next
      case bp: True
      note pb = chain_block [OF ok bp]
      have k1: "k = 1" "l = 1" using kheap.block_size [OF heap_okD(1) [OF ok]] pb(1) b(1) d(1) \<open>b = d\<close> by blast+
      have sm: "\<exists>c i. c < KE_ALLOC_SMALL_CLASS_COUNT \<and> b \<in> set (gAllocatorSmallPages a c) \<and> z = b + 56 + word_of_nat (i * stride c) + 24 \<and>
          w = unat (SlotRequestedSize (SmallSlotAt a (b + 56 + word_of_nat (i * stride c)))) \<and>
          w \<le> class_size c \<and> unat z = unat b + 80 + i * stride c" if z: "(z, w) \<in> live_blocks a" and zi: "inside z w b 1" for z w
      proof (rule live_blockE [OF ok z], goal_cases)
        case (1 c p q i)
        have pc: "p \<in> chain_pages a" using 1 by (auto simp: chain_pages_iff)
        have "p = b"
        proof (rule ccontr)
          assume "p \<noteq> b"
          then have "apart p 1 b 1" using kheap.block_apart [OF heap_okD(1) [OF ok] chain_block(1) [OF ok pc] pb(1)] by simp
          then show False using 1 zi by (auto simp: apart_def inside_def stride_def)
        qed
        then show ?case using 1 by blast
      next
        case (2 i)
        have "UserPointer (gAllocatorLargeRecords a i) \<noteq> b" using heap_okD(6) [OF ok 2(1)] bp by auto
        then have "apart (UserPointer (gAllocatorLargeRecords a i)) (unat (LargeBackingUsablePages (gAllocatorLargeRecords a i))) b 1"
          using kheap.block_apart [OF heap_okD(1) [OF ok] large_block(1) [OF ok 2(1)] pb(1)] by simp
        then show ?case using 2 zi by (auto simp: apart_def inside_def)
      qed
      obtain c i where ci: "c < KE_ALLOC_SMALL_CLASS_COUNT" "b \<in> set (gAllocatorSmallPages a c)" "x = b + 56 + word_of_nat (i * stride c) + 24"
        "n = unat (SlotRequestedSize (SmallSlotAt a (b + 56 + word_of_nat (i * stride c))))" "n \<le> class_size c" "unat x = unat b + 80 + i * stride c"
        using sm [OF x] b(2) k1 by blast
      obtain e j where ej: "e < KE_ALLOC_SMALL_CLASS_COUNT" "b \<in> set (gAllocatorSmallPages a e)" "y = b + 56 + word_of_nat (j * stride e) + 24"
        "m = unat (SlotRequestedSize (SmallSlotAt a (b + 56 + word_of_nat (j * stride e))))" "m \<le> class_size e" "unat y = unat b + 80 + j * stride e"
        using sm [OF y] d(2) k1 \<open>b = d\<close> by blast
      have "c = e" by (rule page_class [OF ok ci(1,2) ej(1,2)])
      then have "i \<noteq> j" using ci(3,4) ej(3,4) ne by auto
      then show ?thesis using slots_apart_same_page [OF ci(1), of i j n m] ci ej \<open>c = e\<close> by auto
    qed
  qed
qed

section \<open>Editing one page\<close>

definition live_on :: "allocator_globals \<Rightarrow> nat \<Rightarrow> HO_VIRTUAL_ADDRESS \<Rightarrow> (HO_VIRTUAL_ADDRESS \<times> nat) set" where
  "live_on a c p = (\<lambda>q. (q + 24, unat (SlotRequestedSize (SmallSlotAt a q)))) ` used_slots a c p"

definition live_large :: "allocator_globals \<Rightarrow> (HO_VIRTUAL_ADDRESS \<times> nat) set" where
  "live_large a = (\<lambda>i. (UserPointer (gAllocatorLargeRecords a i), unat (LargeRequestedSize (gAllocatorLargeRecords a i)))) ` {i. large_live a i}"

lemma live_blocks_split: "live_blocks a = (\<Union>c<KE_ALLOC_SMALL_CLASS_COUNT. \<Union>p \<in> set (gAllocatorSmallPages a c). live_on a c p) \<union> live_large a"
  unfolding live_blocks_def live_on_def live_large_def by auto

lemma page_ok_cong:
  assumes "SmallPageAt a' p = SmallPageAt a p" "\<And>q. q \<in> set (small_slots c p) \<Longrightarrow> SmallSlotAt a' q = SmallSlotAt a q"
  shows "page_ok a' c p = page_ok a c p" "live_on a' c p = live_on a c p" "free_slots a' p = free_slots a p"
  using assms by (auto simp: page_ok_def Let_def free_slots_def live_on_def used_slots_def)

lemma other_page_slot:
  assumes ok: "heap_ok s0 a s" and c: "c < KE_ALLOC_SMALL_CLASS_COUNT" "p \<in> set (gAllocatorSmallPages a c)"
    and d: "d < KE_ALLOC_SMALL_CLASS_COUNT" "unat r + 4096 < 2 ^ 64" "unat r mod 4096 = 0" and ne: "p \<noteq> r" and q: "q \<in> set (small_slots c p)"
  shows "q \<notin> set (small_slots d r)"
proof
  assume "q \<in> set (small_slots d r)"
  then have "unat q div 4096 * 4096 = unat r" using slot_page [OF _ d] by simp
  moreover have "p \<in> chain_pages a" using c by (auto simp: chain_pages_iff)
  ultimately show False using slot_page [OF q c(1)] chain_block [OF ok] ne by (metis unat_eqI)
qed

lemma small_unaligned:
  assumes ok: "heap_ok s0 a s" and c: "c < KE_ALLOC_SMALL_CLASS_COUNT" "p \<in> set (gAllocatorSmallPages a c)" and q: "q \<in> set (small_slots c p)"
  shows "unat (q + 24) mod 4096 \<noteq> 0"
proof -
  have "p \<in> chain_pages a" using c by (auto simp: chain_pages_iff)
  note pb = chain_block [OF ok this]
  obtain i where i: "unat q = unat p + 56 + i * stride c" "i * stride c + stride c \<le> 4040" using small_slotsE [OF q c(1) pb(2)] by metis
  have "unat (q + 24) = unat q + 24" by (subst unat_add_small) (use i pb(2) class_consts(7) [OF c(1)] in simp_all)
  then have "unat (q + 24) mod 4096 = (unat p + (80 + i * stride c)) mod 4096" using i(1) by (simp add: ac_simps)
  also have "\<dots> = (80 + i * stride c) mod 4096" using mod_add_left_eq [of "unat p" 4096 "80 + i * stride c"] pb(3) by simp
  finally show ?thesis using i(2) class_consts(7) [OF c(1)] by simp
qed

lemma edit_page:
  assumes ok: "heap_ok s0 a s" and c: "c < KE_ALLOC_SMALL_CLASS_COUNT" "p \<in> set (gAllocatorSmallPages a c)" and q: "q \<in> set (small_slots c p)"
    and same: "gAllocatorInitialized a'" "gAllocatorSmallPages a' = gAllocatorSmallPages a" "gAllocatorLargeRecords a' = gAllocatorLargeRecords a"
      "\<And>r. r \<noteq> p \<Longrightarrow> SmallPageAt a' r = SmallPageAt a r" "\<And>r. r \<noteq> q \<Longrightarrow> SmallSlotAt a' r = SmallSlotAt a r" and po: "page_ok a' c p"
  shows "heap_ok s0 a' s" and "\<exists>R. live_blocks a = live_on a c p \<union> R \<and> live_blocks a' = live_on a' c p \<union> R \<and> (\<forall>n. (q + 24, n) \<notin> R)"
    and "r \<noteq> p \<Longrightarrow> free_slots a' r = free_slots a r"
proof -
  have pc: "p \<in> chain_pages a" using c by (auto simp: chain_pages_iff)
  have cong: "page_ok a' d r = page_ok a d r \<and> live_on a' d r = live_on a d r"
    if d: "d < KE_ALLOC_SMALL_CLASS_COUNT" "r \<in> set (gAllocatorSmallPages a d)" "r \<noteq> p" for d r
  proof -
    have "r \<in> chain_pages a" using d by (auto simp: chain_pages_iff)
    note rb = chain_block [OF ok this]
    have "q \<notin> set (small_slots d r)" using other_page_slot [OF ok c d(1) rb(2,3) _ q] d(3) by simp
    then have "SmallSlotAt a' x = SmallSlotAt a x" if "x \<in> set (small_slots d r)" for x using same(5) [of x] that by auto
    then show ?thesis using page_ok_cong [of a' r a d] same(4) [OF d(3)] by simp
  qed
  have po': "page_ok a' d r" if "d < KE_ALLOC_SMALL_CLASS_COUNT" "r \<in> set (gAllocatorSmallPages a d)" for d r
  proof (cases "r = p")
    case True
    then have "d = c" using page_class [OF ok that(1) _ c] that(2) by simp
    then show ?thesis using po True by simp
  next
    case False
    then show ?thesis using cong [OF that False] heap_okD(4) [OF ok that] by simp
  qed
  have eq: "chain_pages a' = chain_pages a" "large_live a' = large_live a" "backing_blocks a' = backing_blocks a" "live_large a' = live_large a"
    using same by (simp_all add: chain_pages_def large_live_def [abs_def] backing_blocks_def live_large_def)
  show "heap_ok s0 a' s" using ok po' unfolding heap_ok_def eq same(2,3) using same(1) by blast
  show "r \<noteq> p \<Longrightarrow> free_slots a' r = free_slots a r" using same(4) by (simp add: free_slots_def)
  define R where "R = (\<Union>d<KE_ALLOC_SMALL_CLASS_COUNT. \<Union>r \<in> set (gAllocatorSmallPages a d) - {p}. live_on a d r) \<union> live_large a"
  have only: "d = c" if "d < KE_ALLOC_SMALL_CLASS_COUNT" "p \<in> set (gAllocatorSmallPages a d)" for d by (rule page_class [OF ok that c])
  have split: "(\<Union>d<KE_ALLOC_SMALL_CLASS_COUNT. \<Union>r \<in> set (gAllocatorSmallPages a d). f d r) =
      f c p \<union> (\<Union>d<KE_ALLOC_SMALL_CLASS_COUNT. \<Union>r \<in> set (gAllocatorSmallPages a d) - {p}. f d r)" for f :: "nat \<Rightarrow> HO_VIRTUAL_ADDRESS \<Rightarrow> (HO_VIRTUAL_ADDRESS \<times> nat) set"
  proof (intro equalityI subsetI)
    fix z assume "z \<in> (\<Union>d<KE_ALLOC_SMALL_CLASS_COUNT. \<Union>r \<in> set (gAllocatorSmallPages a d). f d r)"
    then obtain d r where dr: "d < KE_ALLOC_SMALL_CLASS_COUNT" "r \<in> set (gAllocatorSmallPages a d)" "z \<in> f d r" by auto
    then show "z \<in> f c p \<union> (\<Union>d<KE_ALLOC_SMALL_CLASS_COUNT. \<Union>r \<in> set (gAllocatorSmallPages a d) - {p}. f d r)"
      using only by (cases "r = p") auto
  qed (use c in auto)
  have "live_blocks a = live_on a c p \<union> R" unfolding live_blocks_split R_def split [of "live_on a"] by auto
  moreover have "live_blocks a' = live_on a' c p \<union> R"
    unfolding live_blocks_split R_def same(2) eq split [of "live_on a'"] using cong by auto
  moreover have "(q + 24, n) \<notin> R" for n
  proof
    assume "(q + 24, n) \<in> R"
    then consider (s) d r where "d < KE_ALLOC_SMALL_CLASS_COUNT" "r \<in> set (gAllocatorSmallPages a d)" "r \<noteq> p" "q \<in> used_slots a d r"
      | (l) i where "large_live a i" "q + 24 = UserPointer (gAllocatorLargeRecords a i)"
      unfolding R_def live_on_def live_large_def by fastforce
    then show False
    proof cases
      case s
      have "r \<in> chain_pages a" using s by (auto simp: chain_pages_iff)
      note rb = chain_block [OF ok this]
      have "q \<in> set (small_slots d r)" using s(4) by (simp add: used_slots_def)
      then show False using other_page_slot [OF ok c s(1) rb(2,3) _ q] s(3) by simp
    next
      case l
      then show False using large_block(2) [OF ok l(1)] small_unaligned [OF ok c q] by simp
    qed
  qed
  ultimately show "\<exists>R. live_blocks a = live_on a c p \<union> R \<and> live_blocks a' = live_on a' c p \<union> R \<and> (\<forall>n. (q + 24, n) \<notin> R)" by blast
qed

section \<open>Taking and giving back a slot\<close>

lemma stats_edit:
  assumes "p \<in> chain_pages a" "chain_pages a' = chain_pages a" "\<And>r. r \<noteq> p \<Longrightarrow> used_count a' r = used_count a r"
  shows "(\<Sum>r \<in> chain_pages a'. used_count a' r) + used_count a p = (\<Sum>r \<in> chain_pages a. used_count a r) + used_count a' p"
  using assms sum.remove [of "chain_pages a" p "used_count a"] sum.remove [of "chain_pages a" p "used_count a'"]
    sum.cong [of "chain_pages a - {p}" "chain_pages a - {p}" "used_count a'" "used_count a"] by simp

lemma slot_taken_effect:
  assumes ok: "heap_ok s0 a s" and c: "c < KE_ALLOC_SMALL_CLASS_COUNT" "p \<in> set (gAllocatorSmallPages a c)" and f: "free_slots a p = q # rest"
    and sz: "0 < unat sz" "unat sz \<le> class_size c"
  shows "\<exists>a'. KiAllocatorAllocFromSmallPage p sz z a = Done (Some (q + 24), a') \<and> heap_ok s0 a' s \<and>
    live_blocks a' = insert (q + 24, unat sz) (live_blocks a) \<and> (\<forall>n. (q + 24, n) \<notin> live_blocks a) \<and>
    gAllocatorStats a' = gAllocatorStats a \<and> gAllocatorSmallPages a' = gAllocatorSmallPages a \<and> gAllocatorLargeRecords a' = gAllocatorLargeRecords a \<and>
    free_slots a' = (free_slots a)(p := rest) \<and> (\<forall>r. PageSlotsPerPage (SmallPageAt a' r) = PageSlotsPerPage (SmallPageAt a r)) \<and>
    HeapBytes a' = (if z then zero_bytes (q + 24) (word_of_nat (class_size c)) (HeapBytes a) else HeapBytes a)"
proof -
  let ?h = "SmallPageAt a p"
  note po = heap_okD(4) [OF ok c] and d = page_okD [OF heap_okD(4) [OF ok c]]
  have q: "q \<in> set (small_slots c p)" "q \<notin> set rest" "distinct rest" using d(4,5) f by auto
  have fc: "unat (PageFreeCount ?h) = Suc (length rest)" using d(3) f by simp
  then have g0: "PageFreeCount ?h > 0" by (simp add: word_less_nat_alt)
  have s32: "unat (if sz > 0xFFFFFFFF then 0xFFFFFFFF else ucast sz :: u32) = unat sz"
  proof -
    have le: "unat sz \<le> 1024" using sz(2) class_consts(2) [OF c(1)] by simp
    then have "\<not> sz > 0xFFFFFFFF" by (simp add: word_less_nat_alt)
    then show ?thesis using le by (simp add: unsigned_ucast_eq take_bit_nat_eq_self)
  qed
  define a1 where "a1 = set_small_slot q ((SmallSlotAt a q)\<lparr>SlotState := KE_ALLOC_SLOT_STATE_ALLOCATED,
      SlotRequestedSize := (if sz > 0xFFFFFFFF then 0xFFFFFFFF else ucast sz)\<rparr>) (set_small_page p (?h\<lparr>PageFreeList := rest, PageFreeCount := PageFreeCount ?h - 1\<rparr>) a)"
  define a' where "a' = (if z then a1\<lparr>HeapBytes := zero_bytes (q + 24) (word_of_nat (class_size c)) (HeapBytes a1)\<rparr> else a1)"
  have cs: "gAllocatorClassSizes ! unat (PageClassIndex ?h) = word_of_nat (class_size c)" using d(1) by (simp add: class_size_def)
  have run: "KiAllocatorAllocFromSmallPage p sz z a = Done (Some (q + 24), a')"
    using f g0 by (simp add: KiAllocatorAllocFromSmallPage_def Let_def free_slots_def HO_KASSERT_def a'_def a1_def sizeof_KE_ALLOC_SMALL_SLOT_def cs set_small_page_def set_small_slot_def)
  have A: "gAllocatorInitialized a' = gAllocatorInitialized a" "gAllocatorStats a' = gAllocatorStats a" "gAllocatorSmallPages a' = gAllocatorSmallPages a"
    "gAllocatorLargeRecords a' = gAllocatorLargeRecords a" "SmallPageAt a' = (SmallPageAt a)(p := ?h\<lparr>PageFreeList := rest, PageFreeCount := PageFreeCount ?h - 1\<rparr>)"
    "SmallSlotAt a' = (SmallSlotAt a)(q := (SmallSlotAt a q)\<lparr>SlotState := KE_ALLOC_SLOT_STATE_ALLOCATED,
        SlotRequestedSize := (if sz > 0xFFFFFFFF then 0xFFFFFFFF else ucast sz)\<rparr>)"
    "HeapBytes a' = (if z then zero_bytes (q + 24) (word_of_nat (class_size c)) (HeapBytes a) else HeapBytes a)"
    by (simp_all add: a'_def a1_def set_small_slot_def set_small_page_def)
  have fs: "free_slots a' = (free_slots a)(p := rest)" by (rule ext) (simp add: free_slots_def A)
  have cnt: "unat (PageFreeCount ?h - 1) = length rest" using fc by (simp add: unat_sub_small)
  have po': "page_ok a' c p"
    using po q cnt sz s32 f unfolding page_ok_def Let_def fs by (auto simp: A)
  note e = edit_page [OF ok c q(1), of a'] 
  have hk: "heap_ok s0 a' s" using heap_okD(2) [OF ok] po' by (intro e) (simp_all add: A)
  obtain R where R: "live_blocks a = live_on a c p \<union> R" "live_blocks a' = live_on a' c p \<union> R" "\<forall>n. (q + 24, n) \<notin> R"
    using e(2) heap_okD(2) [OF ok] po' by (auto simp: A)
  have us: "used_slots a' c p = insert q (used_slots a c p)" "q \<notin> used_slots a c p" using q(1,2) f by (auto simp: used_slots_def fs)
  have lo: "live_on a' c p = insert (q + 24, unat sz) (live_on a c p)" "\<forall>n. (q + 24, n) \<notin> live_on a c p"
    using us s32 by (auto simp: live_on_def A image_iff)
  show ?thesis using run hk R lo A fs by (intro exI [of _ a']) auto
qed

lemma set_stats_simps [simp]:
  "gAllocatorInitialized (set_stats f a) = gAllocatorInitialized a" "gAllocatorSmallPages (set_stats f a) = gAllocatorSmallPages a"
  "gAllocatorLargeRecords (set_stats f a) = gAllocatorLargeRecords a" "SmallPageAt (set_stats f a) = SmallPageAt a" "SmallSlotAt (set_stats f a) = SmallSlotAt a"
  "HeapBytes (set_stats f a) = HeapBytes a" "gAllocatorStats (set_stats f a) = f (gAllocatorStats a)"
  by (simp_all add: set_stats_def)

lemma set_stats_views [simp]:
  "free_slots (set_stats f a) = free_slots a" "chain_pages (set_stats f a) = chain_pages a" "large_live (set_stats f a) = large_live a"
  "used_slots (set_stats f a) = used_slots a" "live_blocks (set_stats f a) = live_blocks a" "backing_blocks (set_stats f a) = backing_blocks a"
  "page_ok (set_stats f a) = page_ok a" "used_count (set_stats f a) = used_count a" "no_empty_page (set_stats f a) = no_empty_page a"
proof -
  show 1: "free_slots (set_stats f a) = free_slots a" "chain_pages (set_stats f a) = chain_pages a" "large_live (set_stats f a) = large_live a"
    by (simp_all add: fun_eq_iff free_slots_def chain_pages_def large_live_def)
  show 2: "used_slots (set_stats f a) = used_slots a" "used_count (set_stats f a) = used_count a" "page_ok (set_stats f a) = page_ok a"
    by (simp_all add: fun_eq_iff used_slots_def used_count_def page_ok_def 1)
  show "live_blocks (set_stats f a) = live_blocks a" "backing_blocks (set_stats f a) = backing_blocks a" "no_empty_page (set_stats f a) = no_empty_page a"
    by (simp_all add: live_blocks_def backing_blocks_def no_empty_page_def 1 2)
qed

lemma heap_ok_set_stats [simp]: "heap_ok s0 (set_stats f a) s = heap_ok s0 a s"
  by (simp add: heap_ok_def)

lemma heap_bounds:
  assumes ok: "heap_ok s0 a s"
  shows "card (chain_pages a) \<le> 16384" "(\<Sum>p \<in> chain_pages a. used_count a p) \<le> 16384 * 101" "card {i. large_live a i} \<le> 128"
    "(\<Sum>i | large_live a i. unat (LargeBackingUsablePages (gAllocatorLargeRecords a i))) \<le> 128 * 16384"
proof -
  obtain bs where bs: "set bs = chain_pages a" "distinct bs" using finite_distinct_list [OF finite_heap(1)] by blast
  have "length bs \<le> 16384" using page_count_bound [OF heap_okD(1) [OF ok] bs(2)] bs(1) chain_block(1) [OF ok] by simp
  then show n: "card (chain_pages a) \<le> 16384" using bs distinct_card by metis
  have "used_count a p \<le> 101" if "p \<in> chain_pages a" for p
  proof -
    obtain c where c: "c < KE_ALLOC_SMALL_CLASS_COUNT" "p \<in> set (gAllocatorSmallPages a c)" using \<open>p \<in> chain_pages a\<close> by (auto simp: chain_pages_iff)
    then show ?thesis using page_okD(2) [OF heap_okD(4) [OF ok c]] class_consts(5) [OF c(1)] by (simp add: used_count_def)
  qed
  then have "(\<Sum>p \<in> chain_pages a. used_count a p) \<le> card (chain_pages a) * 101" using sum_bounded_above [of "chain_pages a" "used_count a" 101] by simp
  then show "(\<Sum>p \<in> chain_pages a. used_count a p) \<le> 16384 * 101" using n by linarith
  have "{i. large_live a i} \<subseteq> {..<128}" by (auto simp: large_live_def KE_ALLOC_LARGE_RECORD_CAPACITY_def)
  from card_mono [OF _ this] show l: "card {i. large_live a i} \<le> 128" by simp
  have "(\<Sum>i | large_live a i. unat (LargeBackingUsablePages (gAllocatorLargeRecords a i))) \<le> card {i. large_live a i} * 16384"
    using sum_bounded_above [of "{i. large_live a i}" "\<lambda>i. unat (LargeBackingUsablePages (gAllocatorLargeRecords a i))" 16384] large_block(4) [OF ok] by simp
  then show "(\<Sum>i | large_live a i. unat (LargeBackingUsablePages (gAllocatorLargeRecords a i))) \<le> 128 * 16384" using l by linarith
qed

lemma stats_bounds:
  assumes ok: "heap_ok s0 a s" and st: "stats_ok a"
  shows "unat (LiveAllocationCount (gAllocatorStats a)) < 2 ^ 32" "unat (LiveSmallAllocationCount (gAllocatorStats a)) < 2 ^ 32"
    "unat (LiveLargeAllocationCount (gAllocatorStats a)) < 2 ^ 32" "unat (BackingBytes (gAllocatorStats a)) < 2 ^ 40"
  using heap_bounds [OF ok] st by (simp_all add: stats_ok_def Let_def)

lemma unat_inc: "unat (x :: u64) < 2 ^ 40 \<Longrightarrow> unat (x + 1) = unat x + 1"
  by (subst unat_add_small) simp_all

lemma small_slot_taken:
  assumes ok: "heap_ok s0 a s" and c: "c < KE_ALLOC_SMALL_CLASS_COUNT" "p \<in> set (gAllocatorSmallPages a c)" and f: "free_slots a p \<noteq> []" and st: "stats_ok a"
    and sz: "0 < unat sz" "unat sz \<le> class_size c" and ne: "\<And>d r. d < KE_ALLOC_SMALL_CLASS_COUNT \<Longrightarrow> r \<in> set (gAllocatorSmallPages a d) \<Longrightarrow> r \<noteq> p \<Longrightarrow> length (free_slots a r) < nslots d"
  shows "\<exists>x a'. KiAllocatorAllocFromSmallPage p sz z a = Done (Some x, a') \<and> alloc_inv s0 (count_small a') s \<and>
    live_blocks (count_small a') = insert (x, unat sz) (live_blocks a) \<and> (\<forall>n. (x, n) \<notin> live_blocks a) \<and>
    HeapBytes (count_small a') = (if z then zero_bytes x (word_of_nat (class_size c)) (HeapBytes a) else HeapBytes a)"
proof -
  obtain q rest where q: "free_slots a p = q # rest" using f by (cases "free_slots a p") auto
  obtain a' where t: "KiAllocatorAllocFromSmallPage p sz z a = Done (Some (q + 24), a')" "heap_ok s0 a' s" "live_blocks a' = insert (q + 24, unat sz) (live_blocks a)"
    "\<forall>n. (q + 24, n) \<notin> live_blocks a" "gAllocatorStats a' = gAllocatorStats a" "gAllocatorSmallPages a' = gAllocatorSmallPages a" "gAllocatorLargeRecords a' = gAllocatorLargeRecords a"
    "free_slots a' = (free_slots a)(p := rest)" "\<forall>r. PageSlotsPerPage (SmallPageAt a' r) = PageSlotsPerPage (SmallPageAt a r)"
    "HeapBytes a' = (if z then zero_bytes (q + 24) (word_of_nat (class_size c)) (HeapBytes a) else HeapBytes a)"
    using slot_taken_effect [OF ok c q sz] by blast
  note d = page_okD [OF heap_okD(4) [OF ok c]]
  have eq: "chain_pages a' = chain_pages a" "large_live a' = large_live a" using t(6,7) by (simp_all add: chain_pages_def large_live_def [abs_def])
  have len: "length (free_slots a p) \<le> nslots c" using card_mono [OF _ d(5)] distinct_card [OF d(4)] distinct_card [OF slots_distinct] c(1) chain_block [OF ok, of p] c
    by (metis List.finite_set chain_pages_iff length_small_slots)
  have up: "used_count a' p = used_count a p + 1" "\<And>r. r \<noteq> p \<Longrightarrow> used_count a' r = used_count a r"
    using t(8,9) len d(2) q by (simp_all add: used_count_def)
  have pc: "p \<in> chain_pages a" using c by (auto simp: chain_pages_iff)
  have sum: "(\<Sum>r \<in> chain_pages a'. used_count a' r) = (\<Sum>r \<in> chain_pages a. used_count a r) + 1" using stats_edit [OF pc eq(1) up(2)] up(1) by simp
  note b = stats_bounds [OF ok st]
  have i: "unat (LiveAllocationCount (gAllocatorStats a) + 1) = unat (LiveAllocationCount (gAllocatorStats a)) + 1"
    "unat (LiveSmallAllocationCount (gAllocatorStats a) + 1) = unat (LiveSmallAllocationCount (gAllocatorStats a)) + 1"
    using b(1,2) by (intro unat_inc, simp)+
  have so: "stats_ok (count_small a')" using st sum i eq t(5,7) by (simp add: stats_ok_def Let_def count_small_def)
  have "no_empty_page a'" unfolding no_empty_page_def t(6)
  proof (intro allI impI ballI)
    fix d' r assume d': "d' < KE_ALLOC_SMALL_CLASS_COUNT" "r \<in> set (gAllocatorSmallPages a d')"
    show "length (free_slots a' r) < nslots d'"
    proof (cases "r = p")
      case True
      then have "d' = c" using page_class [OF ok d'(1) _ c] d'(2) by simp
      then show ?thesis using True t(8) len q by simp
    qed (use ne [OF d'] t(8) in simp)
  qed
  then have "alloc_inv s0 (count_small a') s" using so t(2) by (simp add: alloc_inv_def count_small_def)
  then show ?thesis using t by (intro exI [of _ "q + 24"] exI [of _ a']) (simp add: count_small_def)
qed

section \<open>A new page\<close>

lemma page_constants:
  assumes "c < KE_ALLOC_SMALL_CLASS_COUNT"
  shows "(ucast (HO_ALIGN_UP (sizeof_KE_ALLOC_SMALL_SLOT + gAllocatorClassSizes ! c) 8) :: u32) = word_of_nat (stride c)"
    "HO_ALIGN_UP sizeof_KE_ALLOC_SMALL_PAGE 8 = 56" "(4040 :: u32) div word_of_nat (stride c) = word_of_nat (nslots c)"
  using assms unfolding class_cases
  by (auto simp: stride_def nslots_def class_size_def gAllocatorClassSizes_def HO_ALIGN_UP_def sizeof_KE_ALLOC_SMALL_SLOT_def sizeof_KE_ALLOC_SMALL_PAGE_def)

lemma unat_class:
  assumes "c < KE_ALLOC_SMALL_CLASS_COUNT"
  shows "unat (word_of_nat (stride c) :: u32) = stride c" "unat (word_of_nat (nslots c) :: u32) = nslots c" "unat (word_of_nat c :: u16) = c"
  using class_consts [OF assms] assms by (simp_all add: unsigned_of_nat take_bit_nat_eq_self KE_ALLOC_SMALL_CLASS_COUNT_def)

lemma slot_list:
  assumes c: "c < KE_ALLOC_SMALL_CLASS_COUNT"
  shows "map (\<lambda>i. p + 56 + ucast (word_of_nat i * word_of_nat (stride c) :: u32)) [0..<nslots c] = small_slots c p"
proof -
  have "(ucast (word_of_nat i * word_of_nat (stride c) :: u32) :: u64) = word_of_nat (i * stride c)" if i: "i < nslots c" for i
  proof -
    have "(i + 1) * stride c \<le> nslots c * stride c" using i by (intro mult_le_mono1) simp
    then have le: "i * stride c \<le> 4040" using class_consts(6) [OF c] by simp
    have "(word_of_nat i * word_of_nat (stride c) :: u32) = word_of_nat (i * stride c)" by simp
    moreover have "(ucast (word_of_nat (i * stride c) :: u32) :: u64) = word_of_nat (i * stride c)"
      using le by (intro unat_eqI) (simp add: unsigned_ucast_eq unsigned_of_nat take_bit_nat_eq_self del: of_nat_mult)
    ultimately show ?thesis by (simp del: of_nat_mult)
  qed
  then show ?thesis by (simp add: small_slots_def del: of_nat_mult)
qed

lemma prepare_page:
  assumes inv: "kva_inv s" and c: "c < KE_ALLOC_SMALL_CLASS_COUNT"
  shows "\<exists>r a' s'. KiAllocatorPrepareSmallPage c a s = Done (r, a', s') \<and> kva_inv s' \<and>
    ((\<exists>b s1. KeHeapAllocPages 1 s = Done (Inr b, s1)) \<longrightarrow> \<not> isl r) \<and>
    (case r of Inl e \<Rightarrow> a' = a \<and> (\<forall>b m. heap_block s' b m = heap_block s b m)
     | Inr p \<Rightarrow> (\<forall>b m. heap_block s' b m \<longleftrightarrow> b = p \<and> m = 1 \<or> heap_block s b m) \<and> (\<forall>m. \<not> heap_block s p m) \<and>
         page_ok a' c p \<and> free_slots a' p = rev (small_slots c p) \<and>
         a' = a\<lparr>SmallPageAt := (SmallPageAt a)(p := SmallPageAt a' p), SmallSlotAt := SmallSlotAt a'\<rparr> \<and>
         (\<forall>q. q \<notin> set (small_slots c p) \<longrightarrow> SmallSlotAt a' q = SmallSlotAt a q))"
proof -
  obtain r s' where h: "KeHeapAllocPages 1 s = Done (r, s')" "kva_inv s'" using kheap.alloc_total [OF inv] by blast
  note k = page_constants [OF c] unat_class [OF c]
  show ?thesis
  proof (cases r)
    case (Inl e)
    then show ?thesis using h c kheap.alloc_failed [OF inv, of 1 e s'] by (simp add: KiAllocatorPrepareSmallPage_def)
  next
    case (Inr p)
    note al = h(1) [unfolded Inr]
    obtain rng where q: "KeKvaQueryRange p s' = Inr rng" "RangeUsableBase rng = p" "RangeUsablePages rng = 1" using kdir.query_allocated [OF inv al] by blast
    have bl: "heap_block s' b m \<longleftrightarrow> b = p \<and> m = 1 \<or> heap_block s b m" for b m using kheap.alloc_block [OF inv al, of b m] by simp
    define h' where "h' = \<lparr>PageMagic = KE_ALLOC_SMALL_PAGE_MAGIC, PageClassIndex = word_of_nat c, PageSlotStride = word_of_nat (stride c),
       PageSlotsPerPage = word_of_nat (nslots c), PageFreeCount = word_of_nat (nslots c), PageBackingUsableBase = p, PageBackingUsablePages = 1,
       PageFreeList = rev (small_slots c p)\<rparr>"
    define a' where "a' = set_small_page p h' (a\<lparr>SmallSlotAt := new_slots p (small_slots c p) (SmallSlotAt a)\<rparr>)"
    have nz: "(word_of_nat (stride c) :: u32) \<noteq> 0" "(word_of_nat (nslots c) :: u32) \<noteq> 0"
      using k(4,5) class_consts(4,7) [OF c] by (metis not_numeral_le_zero unsigned_0, metis less_numeral_extra(3) unsigned_0)
    have run: "KiAllocatorPrepareSmallPage c a s = Done (Inr p, a', s')"
      using c al q k(5) nz unfolding KiAllocatorPrepareSmallPage_def Let_def k(1,2)
      by (simp add: PAGE_4KB_def k(3) slot_list [OF c] a'_def h'_def)
    have pb: "unat p + 4096 < 2 ^ 64" using kheap.block_bounds [OF h(2), of p 1] bl by simp
    have fs: "free_slots a' p = rev (small_slots c p)" by (simp add: free_slots_def a'_def set_small_page_def h'_def)
    have po: "page_ok a' c p" unfolding page_ok_def Let_def fs
      using slots_distinct [OF c pb] k by (simp add: a'_def set_small_page_def h'_def new_slots_def)
    have "a' = a\<lparr>SmallPageAt := (SmallPageAt a)(p := SmallPageAt a' p), SmallSlotAt := SmallSlotAt a'\<rparr>"
      "\<forall>q. q \<notin> set (small_slots c p) \<longrightarrow> SmallSlotAt a' q = SmallSlotAt a q"
      by (simp_all add: a'_def set_small_page_def new_slots_def)
    then show ?thesis using run h(2) bl po fs kheap.alloc_fresh [OF inv al] by (intro exI [of _ "Inr p"] exI [of _ a'] exI [of _ s']) simp
  qed
qed

text \<open>The new page on its chain, still without a live block.\<close>

lemma publish_page:
  assumes ok: "heap_ok s0 a s" and st: "stats_ok a" and c: "c < KE_ALLOC_SMALL_CLASS_COUNT"
    and r: "KiAllocatorPrepareSmallPage c a s = Done (Inr p, a1, s')"
    and a2: "a2 = set_stats (\<lambda>st. st\<lparr>BackingBytes := BackingBytes st + KiAllocatorBackingBytes (PageBackingUsablePages (SmallPageAt a1 p))\<rparr>)
       (set_small_pages c (p # gAllocatorSmallPages a1 c) a1)"
  shows "heap_ok s0 a2 s'" "stats_ok a2" "live_blocks a2 = live_blocks a" "p \<in> set (gAllocatorSmallPages a2 c)" "free_slots a2 p \<noteq> []" "HeapBytes a2 = HeapBytes a"
    and "d < KE_ALLOC_SMALL_CLASS_COUNT \<Longrightarrow> x \<in> set (gAllocatorSmallPages a2 d) \<Longrightarrow> x \<noteq> p \<Longrightarrow> x \<in> set (gAllocatorSmallPages a d) \<and> free_slots a2 x = free_slots a x"
proof -
  have P: "kva_inv s'" "\<And>b m. heap_block s' b m \<longleftrightarrow> b = p \<and> m = 1 \<or> heap_block s b m" "\<And>m. \<not> heap_block s p m" "page_ok a1 c p"
    "free_slots a1 p = rev (small_slots c p)" "a1 = a\<lparr>SmallPageAt := (SmallPageAt a)(p := SmallPageAt a1 p), SmallSlotAt := SmallSlotAt a1\<rparr>"
    "\<And>q. q \<notin> set (small_slots c p) \<Longrightarrow> SmallSlotAt a1 q = SmallSlotAt a q"
    using prepare_page [OF heap_okD(1) [OF ok] c, of a] r by auto
  have pn: "p \<notin> chain_pages a" using chain_block(1) [OF ok, of p] P(3) by auto
  have pb: "unat p + 4096 < 2 ^ 64" "unat p mod 4096 = 0" using kheap.block_bounds [OF P(1), of p 1] P(2) by simp_all
  have S: "SmallPageAt a1 = (SmallPageAt a)(p := SmallPageAt a1 p)" "gAllocatorSmallPages a1 = gAllocatorSmallPages a" "gAllocatorLargeRecords a1 = gAllocatorLargeRecords a"
    "gAllocatorInitialized a1 = gAllocatorInitialized a" "gAllocatorStats a1 = gAllocatorStats a" "HeapBytes a1 = HeapBytes a" by (subst P(6), simp)+
  have A: "gAllocatorSmallPages a2 = (gAllocatorSmallPages a)(c := p # gAllocatorSmallPages a c)" "gAllocatorLargeRecords a2 = gAllocatorLargeRecords a"
    "gAllocatorInitialized a2 = gAllocatorInitialized a" "SmallPageAt a2 = SmallPageAt a1" "SmallSlotAt a2 = SmallSlotAt a1" "HeapBytes a2 = HeapBytes a"
    using S by (simp_all add: a2 set_small_pages_def)
  have L: "large_live a2 = large_live a" "chain_pages a2 = insert p (chain_pages a)" "free_slots a2 p = rev (small_slots c p)"
    using c A P(5) by (auto simp: large_live_def [abs_def] chain_pages_def free_slots_def split: if_splits)
  have B: "backing_blocks a2 = insert (p, 1) (backing_blocks a)" by (simp add: backing_blocks_def L A)
  have sm: "SmallPageAt a2 x = SmallPageAt a x" "\<And>q. q \<in> set (small_slots d x) \<Longrightarrow> SmallSlotAt a2 q = SmallSlotAt a q"
    if d: "d < KE_ALLOC_SMALL_CLASS_COUNT" "x \<in> set (gAllocatorSmallPages a d)" for d x
  proof -
    have xc: "x \<in> chain_pages a" using d by (auto simp: chain_pages_iff)
    then have ne: "x \<noteq> p" using pn by auto
    show "SmallPageAt a2 x = SmallPageAt a x" unfolding A(4) by (subst S(1)) (simp add: ne)
    show "SmallSlotAt a2 q = SmallSlotAt a q" if "q \<in> set (small_slots d x)" for q
      using P(7) [of q] other_page_slot [OF ok d c pb ne that] A(5) by simp
  qed
  have po: "page_ok a2 c p" using P(4) A page_ok_cong(1) [of a2 p a1 c] by simp
  have old: "page_ok a2 d x = page_ok a d x" "live_on a2 d x = live_on a d x" "free_slots a2 x = free_slots a x"
    if d: "d < KE_ALLOC_SMALL_CLASS_COUNT" "x \<in> set (gAllocatorSmallPages a d)" for d x
    using page_ok_cong [of a2 x a d] sm [OF d] by simp_all
  have dis: "distinct (gAllocatorSmallPages a2 d) \<and> (\<forall>x \<in> set (gAllocatorSmallPages a2 d). page_ok a2 d x)" if d: "d < KE_ALLOC_SMALL_CLASS_COUNT" for d
    using heap_okD(3,4) [OF ok d] old(1) [OF d] po pn d by (auto simp: A(1) chain_pages_iff)
  have fresh0: "\<not> heap_block s0 p k" for k using heap_okD(8) [OF ok, of p k] P(3) by simp
  have lg: "UserPointer (gAllocatorLargeRecords a i) \<noteq> p" if "large_live a i" for i using large_block(1) [OF ok that] P(3) by auto
  show hk: "heap_ok s0 a2 s'"
    unfolding heap_ok_def L(1) B A(2,3) using ok P(1,2) dis lg fresh0 L(2) unfolding heap_ok_def by auto
  show "p \<in> set (gAllocatorSmallPages a2 c)" by (simp add: A)
  show "free_slots a2 p \<noteq> []" using class_consts(4) [OF c] L(3) by (simp add: small_slots_def)
  show "HeapBytes a2 = HeapBytes a" by (rule A)
  show "x \<in> set (gAllocatorSmallPages a d) \<and> free_slots a2 x = free_slots a x"
    if "d < KE_ALLOC_SMALL_CLASS_COUNT" "x \<in> set (gAllocatorSmallPages a2 d)" "x \<noteq> p"
  proof -
    have "x \<in> set (gAllocatorSmallPages a d)" using that by (auto simp: A split: if_splits)
    then show ?thesis using old(3) that(1) by blast
  qed
  have lp: "live_on a2 c p = {}" using L(3) by (simp add: live_on_def used_slots_def)
  have "(\<Union>x \<in> set (gAllocatorSmallPages a2 d). live_on a2 d x) = (\<Union>x \<in> set (gAllocatorSmallPages a d). live_on a d x)" if d: "d < KE_ALLOC_SMALL_CLASS_COUNT" for d
    using old(2) [OF d] lp by (cases "d = c") (auto simp: A)
  moreover have "live_large a2 = live_large a" by (simp add: live_large_def L A)
  ultimately show "live_blocks a2 = live_blocks a" unfolding live_blocks_split by simp
  have uc: "used_count a2 x = used_count a x" if "x \<in> chain_pages a" for x
    using that sm old(3) by (auto simp: chain_pages_iff used_count_def)
  have up: "used_count a2 p = 0" using page_okD(2) [OF po] L(3) by (simp add: used_count_def)
  have sum: "(\<Sum>x \<in> chain_pages a2. used_count a2 x) = (\<Sum>x \<in> chain_pages a. used_count a x)"
    unfolding L(2) using pn up uc by simp
  have bb: "BackingBytes (gAllocatorStats a2) = BackingBytes (gAllocatorStats a) + 4096"
    using P(4) S(5) by (simp add: a2 page_ok_def Let_def KiAllocatorBackingBytes_def PAGE_4KB_def set_small_pages_def)
  have "unat (BackingBytes (gAllocatorStats a) + 4096) = unat (BackingBytes (gAllocatorStats a)) + 4096"
    by (subst unat_add_small) (use stats_bounds(4) [OF ok st] in simp_all)
  then show "stats_ok a2" using st sum bb S(5) pn unfolding stats_ok_def Let_def L A
    by (simp add: a2 set_small_pages_def)
qed

end
