(* ===== verification/AllocatorAlloc.thy ===== *)
theory AllocatorAlloc
  imports AllocatorPages
begin

text \<open>
  What \<open>kmalloc\<close> and \<open>kzalloc\<close> do: one new block of the requested size, apart from all others, or none.
\<close>

section \<open>Allocation\<close>

lemma heap_ok_blocks:
  assumes "heap_ok s0 a s" "kva_inv s'" "\<And>b m. heap_block s' b m = heap_block s b m"
  shows "heap_ok s0 a s'"
  using assms by (simp add: heap_ok_def)

lemma count_failure [simp]:
  "heap_ok s0 (KiAllocatorCountFailure a) s = heap_ok s0 a s" "live_blocks (KiAllocatorCountFailure a) = live_blocks a"
  "no_empty_page (KiAllocatorCountFailure a) = no_empty_page a" "HeapBytes (KiAllocatorCountFailure a) = HeapBytes a" "stats_ok (KiAllocatorCountFailure a) = stats_ok a"
  by (simp_all add: KiAllocatorCountFailure_def stats_ok_def Let_def)

lemma alloc_inv_failure [simp]: "alloc_inv s0 (KiAllocatorCountFailure a) s = alloc_inv s0 a s"
  by (simp add: alloc_inv_def)

text \<open>What an allocation does: nothing, or one new block, disjoint from all others.\<close>

definition block_added :: "'a kva_globals_scheme \<Rightarrow> u64 \<Rightarrow> bool \<Rightarrow> HO_VIRTUAL_ADDRESS option \<Rightarrow> allocator_globals \<Rightarrow> allocator_globals \<Rightarrow> 'a kva_globals_scheme \<Rightarrow> bool" where
  "block_added s0 sz z r a a' s' \<longleftrightarrow> alloc_inv s0 a' s' \<and>
    (case r of
       None \<Rightarrow> live_blocks a' = live_blocks a \<and> HeapBytes a' = HeapBytes a
     | Some x \<Rightarrow> live_blocks a' = insert (x, unat sz) (live_blocks a) \<and> (\<forall>n. (x, n) \<notin> live_blocks a) \<and>
         (if z then \<exists>k. unat sz \<le> unat k \<and> HeapBytes a' = zero_bytes x k (HeapBytes a) else HeapBytes a' = HeapBytes a))"

lemma class_word: "c < KE_ALLOC_SMALL_CLASS_COUNT \<Longrightarrow> unat (word_of_nat (class_size c) :: u64) = class_size c"
  using class_consts(2) [of c] by (simp add: unsigned_of_nat take_bit_nat_eq_self)

lemma KiAllocatorAllocSmall_effect:
  assumes inv: "alloc_inv s0 a s" and f: "KiAllocatorFindSmallClass sz = Some c" and sz: "sz \<noteq> 0"
  shows "\<exists>r a' s'. KiAllocatorAllocSmall sz z a s = Done (r, a', s') \<and> block_added s0 sz z r a a' s' \<and>
    ((\<exists>b s1. KeHeapAllocPages 1 s = Done (Inr b, s1)) \<longrightarrow> r \<noteq> None)"
proof -
  have ok: "heap_ok s0 a s" and st: "stats_ok a" and ne: "no_empty_page a" using inv by (simp_all add: alloc_inv_def)
  have c: "c < KE_ALLOC_SMALL_CLASS_COUNT" and le: "unat sz \<le> class_size c" using find_class(1) [OF f] by simp_all
  have s0': "0 < unat sz" using sz by (simp add: unat_gt_0)
  show ?thesis
  proof (cases "find (\<lambda>page. PageFreeCount (SmallPageAt a page) \<noteq> 0) (gAllocatorSmallPages a c)")
    case (Some p)
    then have p: "p \<in> set (gAllocatorSmallPages a c)" "PageFreeCount (SmallPageAt a p) \<noteq> 0" by (auto simp: find_Some_iff)
    then have "free_slots a p \<noteq> []" using page_okD(3) [OF heap_okD(4) [OF ok c p(1)]] by (metis list.size(3) unat_eq_0)
    then obtain x a' where t: "KiAllocatorAllocFromSmallPage p sz z a = Done (Some x, a')" "alloc_inv s0 (count_small a') s"
      "live_blocks (count_small a') = insert (x, unat sz) (live_blocks a)" "\<forall>n. (x, n) \<notin> live_blocks a"
      "HeapBytes (count_small a') = (if z then zero_bytes x (word_of_nat (class_size c)) (HeapBytes a) else HeapBytes a)"
      using small_slot_taken [OF ok c p(1) _ st s0' le, of z] ne by (auto simp: no_empty_page_def)
    then show ?thesis using f Some class_word [OF c] le
      by (intro exI [of _ "Some x"] exI [of _ "count_small a'"] exI [of _ s]) (auto simp: KiAllocatorAllocSmall_def block_added_def intro!: exI [of _ "word_of_nat (class_size c)"])
  next
    case None
    obtain r a1 s' where p: "KiAllocatorPrepareSmallPage c a s = Done (r, a1, s')" "kva_inv s'"
      "\<And>e. r = Inl e \<Longrightarrow> a1 = a \<and> (\<forall>b m. heap_block s' b m = heap_block s b m)" "(\<exists>b s1. KeHeapAllocPages 1 s = Done (Inr b, s1)) \<longrightarrow> \<not> isl r"
    proof -
      obtain r a1 s' where "KiAllocatorPrepareSmallPage c a s = Done (r, a1, s')" "kva_inv s'"
        "case r of Inl e \<Rightarrow> a1 = a \<and> (\<forall>b m. heap_block s' b m = heap_block s b m) | Inr p \<Rightarrow> True" "(\<exists>b s1. KeHeapAllocPages 1 s = Done (Inr b, s1)) \<longrightarrow> \<not> isl r"
        using prepare_page [OF heap_okD(1) [OF ok] c, of a] by (fastforce split: sum.splits)
      then show thesis by (intro that) auto
    qed
    show ?thesis
    proof (cases r)
      case (Inl e)
      have "heap_ok s0 a s'" using heap_ok_blocks [OF ok p(2)] p(3) [OF Inl] by simp
      then show ?thesis using f None p Inl st ne p(3) [OF Inl] by (simp add: KiAllocatorAllocSmall_def block_added_def alloc_inv_def)
    next
      case (Inr page)
      define a2 where "a2 = set_stats (\<lambda>st. st\<lparr>BackingBytes := BackingBytes st + KiAllocatorBackingBytes (PageBackingUsablePages (SmallPageAt a1 page))\<rparr>)
        (set_small_pages c (page # gAllocatorSmallPages a1 c) a1)"
      note pp = publish_page [OF ok st c p(1) [unfolded Inr] a2_def]
      have others: "length (free_slots a2 x) < nslots d" if "d < KE_ALLOC_SMALL_CLASS_COUNT" "x \<in> set (gAllocatorSmallPages a2 d)" "x \<noteq> page" for d x
        using pp(7) [OF that] ne that(1) by (auto simp: no_empty_page_def)
      obtain x a' where t: "KiAllocatorAllocFromSmallPage page sz z a2 = Done (Some x, a')" "alloc_inv s0 (count_small a') s'"
        "live_blocks (count_small a') = insert (x, unat sz) (live_blocks a2)" "\<forall>n. (x, n) \<notin> live_blocks a2"
        "HeapBytes (count_small a') = (if z then zero_bytes x (word_of_nat (class_size c)) (HeapBytes a2) else HeapBytes a2)"
        using small_slot_taken [OF pp(1) c pp(4,5,2) s0' le others] by blast
      have "KiAllocatorAllocSmall sz z a s = Done (Some x, count_small a', s')"
        using f None p(1) Inr t(1) by (simp add: KiAllocatorAllocSmall_def Let_def a2_def set_small_pages_def)
      then show ?thesis using t(2-5) pp(3,6) class_word [OF c] le
        by (intro exI [of _ "Some x"] exI [of _ "count_small a'"] exI [of _ s']) (auto simp: block_added_def intro!: exI [of _ "word_of_nat (class_size c)"])
    qed
  qed
qed

lemma pages_needed:
  assumes "HO_ALIGN_UP (sz :: u64) PAGE_4KB div PAGE_4KB \<noteq> 0"
  shows "unat sz \<le> unat (HO_ALIGN_UP sz PAGE_4KB div PAGE_4KB) * 4096"
proof -
  have e: "HO_ALIGN_UP sz PAGE_4KB = (sz + 4095) AND NOT (mask 12)" by (simp add: HO_ALIGN_UP_def PAGE_4KB_def mask_eq_decr_exp)
  then have u: "unat (HO_ALIGN_UP sz PAGE_4KB) = unat (sz + 4095) div 4096 * 4096" using unat_and_not_mask [of "sz + 4095" 12] by simp
  then have d: "unat (HO_ALIGN_UP sz PAGE_4KB div PAGE_4KB) = unat (sz + 4095) div 4096" by (simp add: unat_div PAGE_4KB_def)
  have "unat sz + 4095 < 2 ^ 64"
  proof (rule ccontr)
    assume ge: "\<not> unat sz + 4095 < 2 ^ 64"
    have "unat (sz + 4095) = (unat sz + 4095) mod 2 ^ 64" by (simp add: unat_word_ariths)
    also have "\<dots> = (unat sz + 4095 - 2 ^ 64) mod 2 ^ 64" using ge by (intro le_mod_geq) simp
    also have "\<dots> \<le> unat sz + 4095 - 2 ^ 64" by (rule mod_less_eq_dividend)
    finally have "unat (sz + 4095) \<le> unat sz - 18446744073709547521" by simp
    moreover have "unat sz < 18446744073709551616" using unat_lt_64 [of sz] by simp
    ultimately have "unat (sz + 4095) < 4096" by linarith
    then have "unat (HO_ALIGN_UP sz PAGE_4KB div PAGE_4KB) = 0" using d by simp
    then show False using assms by (simp add: unat_eq_0)
  qed
  then have "unat (sz + 4095) = unat sz + 4095" by (subst unat_add_small) simp_all
  then show ?thesis using d by simp
qed

text \<open>Only the table of large records differs.\<close>

lemma large_views:
  assumes "gAllocatorSmallPages a' = gAllocatorSmallPages a" "SmallPageAt a' = SmallPageAt a" "SmallSlotAt a' = SmallSlotAt a"
  shows "chain_pages a' = chain_pages a" "free_slots a' = free_slots a" "used_count a' = used_count a" "page_ok a' = page_ok a" "live_on a' = live_on a"
    "no_empty_page a' = no_empty_page a"
proof -
  show "chain_pages a' = chain_pages a" "free_slots a' = free_slots a" "used_count a' = used_count a" "page_ok a' = page_ok a" "live_on a' = live_on a"
    using assms by (simp_all add: fun_eq_iff chain_pages_def free_slots_def used_count_def page_ok_def live_on_def used_slots_def)
  then show "no_empty_page a' = no_empty_page a" using assms by (simp add: no_empty_page_def)
qed

lemma backing_bytes: "unat n \<le> 16384 \<Longrightarrow> unat (KiAllocatorBackingBytes n) = unat n * 4096"
  by (simp add: KiAllocatorBackingBytes_def PAGE_4KB_def unat_word_ariths)

lemma record_added:
  assumes ok: "heap_ok s0 a s" and i: "i < KE_ALLOC_LARGE_RECORD_CAPACITY" "\<not> LargeInUse (gAllocatorLargeRecords a i)"
    and s1: "kva_inv s1" "\<And>x m. heap_block s1 x m \<longleftrightarrow> x = b \<and> m = unat n \<or> heap_block s x m" "\<And>m. \<not> heap_block s b m"
    and sz: "1024 < unat sz" "unat sz \<le> unat n * 4096"
    and A: "gAllocatorInitialized a' = gAllocatorInitialized a" "gAllocatorSmallPages a' = gAllocatorSmallPages a" "SmallPageAt a' = SmallPageAt a" "SmallSlotAt a' = SmallSlotAt a"
      "gAllocatorLargeRecords a' = (gAllocatorLargeRecords a)(i := \<lparr>LargeInUse = True, UserPointer = b, LargeRequestedSize = sz, LargeBackingUsableBase = b, LargeBackingUsablePages = n\<rparr>)"
  shows "heap_ok s0 a' s1" "live_blocks a' = insert (b, unat sz) (live_blocks a)" "(b, m) \<notin> live_blocks a"
    "{j. large_live a' j} = insert i {j. large_live a j}" "large_live a j \<Longrightarrow> gAllocatorLargeRecords a' j = gAllocatorLargeRecords a j"
proof -
  have nl: "\<not> large_live a i" using i by (simp add: large_live_def)
  note V = large_views [OF A(2-4)]
  have L: "large_live a' j \<longleftrightarrow> j = i \<or> large_live a j" for j using i(1) by (auto simp: large_live_def A)
  show LS: "{j. large_live a' j} = insert i {j. large_live a j}" using L by auto
  show rec: "gAllocatorLargeRecords a' j = gAllocatorLargeRecords a j" if "large_live a j" for j using that nl by (auto simp: A)
  have B: "backing_blocks a' = insert (b, unat n) (backing_blocks a)"
    unfolding backing_blocks_def V LS using rec by (auto simp: A)
  have bn: "b \<notin> chain_pages a" "\<And>j. large_live a j \<Longrightarrow> UserPointer (gAllocatorLargeRecords a j) \<noteq> b"
    using chain_block(1) [OF ok] large_block(1) [OF ok] s1(3) by auto
  have f0: "\<not> heap_block s0 b k" for k using heap_okD(8) [OF ok, of b k] s1(3) by simp
  have new: "record_fits (gAllocatorLargeRecords a' i)" "UserPointer (gAllocatorLargeRecords a' i) = b" using sz by (simp_all add: A record_fits_def)
  have recs: "record_fits (gAllocatorLargeRecords a' j) \<and> UserPointer (gAllocatorLargeRecords a' j) \<notin> chain_pages a" if "large_live a' j" for j
    using that L new bn(1) rec heap_okD(5,6) [OF ok, of j] by (cases "j = i") auto
  have uniq: "k = j" if "large_live a' j" "large_live a' k" "UserPointer (gAllocatorLargeRecords a' k) = UserPointer (gAllocatorLargeRecords a' j)" for j k
    using that L new(2) rec bn(2) heap_okD(7) [OF ok, of j k] by (cases "j = i"; cases "k = i") auto
  show "heap_ok s0 a' s1" unfolding heap_ok_def V B
    using s1(1,2) heap_okD(2-4) [OF ok] recs uniq heap_okD(8,9) [OF ok] f0 by (auto simp: A(1,2))
  show "live_blocks a' = insert (b, unat sz) (live_blocks a)"
    unfolding live_blocks_split live_large_def LS V A(2) using rec by (auto simp: A)
  show "(b, m) \<notin> live_blocks a"
  proof
    assume "(b, m) \<in> live_blocks a"
    then show False
    proof (rule live_blockE [OF ok], goal_cases)
      case (1 c p q k)
      then show False using small_unaligned [OF ok 1(1,2), of q] kheap.block_bounds [OF s1(1), of b "unat n"] s1(2) by (simp add: used_slots_def)
    next
      case (2 j)
      then show False using bn(2) by blast
    qed
  qed
qed

lemma KiAllocatorAllocLarge_effect:
  assumes inv: "alloc_inv s0 a s" and big: "1024 < unat sz"
  shows "\<exists>r a' s'. KiAllocatorAllocLarge sz z a s = Done (r, a', s') \<and> block_added s0 sz z r a a' s'"
proof -
  have ok: "heap_ok s0 a s" and st: "stats_ok a" and ne: "no_empty_page a" using inv by (simp_all add: alloc_inv_def)
  note kv = heap_okD(1) [OF ok]
  define n where "n = HO_ALIGN_UP sz PAGE_4KB div PAGE_4KB"
  show ?thesis
  proof (cases "n = 0")
    case True
    then show ?thesis using inv by (simp add: KiAllocatorAllocLarge_def n_def block_added_def)
  next
    case False
    have fit: "unat sz \<le> unat n * 4096" using pages_needed [of sz] False by (simp add: n_def)
    obtain r s1 where h: "KeHeapAllocPages n s = Done (r, s1)" "kva_inv s1" using kheap.alloc_total [OF kv] by blast
    show ?thesis
    proof (cases r)
      case (Inl e)
      have "heap_ok s0 a s1" using heap_ok_blocks [OF ok h(2)] kheap.alloc_failed [OF kv h(1) [unfolded Inl]] by simp
      then show ?thesis using h Inl False st ne by (simp add: KiAllocatorAllocLarge_def n_def Let_def block_added_def alloc_inv_def)
    next
      case (Inr b)
      note al = h(1) [unfolded Inr]
      note bl = kheap.alloc_block [OF kv al] and fresh = kheap.alloc_fresh [OF kv al]
      obtain rng where q: "KeKvaQueryRange b s1 = Inr rng" "RangeUsableBase rng = b" "RangeUsablePages rng = n" using kdir.query_allocated [OF kv al] by blast
      show ?thesis
      proof (cases "find (\<lambda>i. \<not> LargeInUse (gAllocatorLargeRecords a i)) [0..<KE_ALLOC_LARGE_RECORD_CAPACITY]")
        case None
        obtain s2 where fr: "free_page b s1 = Done s2" "kva_inv s2" "\<forall>x m. heap_block s2 x m \<longleftrightarrow> heap_block s1 x m \<and> x \<noteq> b"
          using kheap.free_block [OF h(2), of b "unat n"] bl by (auto simp: free_page_def HO_KASSERT_def)
        have "heap_block s2 x m = heap_block s x m" for x m using fr(3) bl fresh by auto
        then have "heap_ok s0 a s2" using heap_ok_blocks [OF ok fr(2)] by simp
        then show ?thesis using al q(1) None False fr(1) st ne
          by (simp add: KiAllocatorAllocLarge_def n_def [symmetric] Let_def block_added_def alloc_inv_def KiAllocatorCountFailure_def [symmetric])
      next
        case (Some i)
        then have i: "i < KE_ALLOC_LARGE_RECORD_CAPACITY" "\<not> LargeInUse (gAllocatorLargeRecords a i)" by (auto simp: find_upt_Some)
        let ?st = "gAllocatorStats a"
        define a2 where "a2 = set_stats (\<lambda>st. st\<lparr>LiveAllocationCount := LiveAllocationCount st + 1, LiveLargeAllocationCount := LiveLargeAllocationCount st + 1,
          BackingBytes := BackingBytes st + KiAllocatorBackingBytes n\<rparr>) (set_large_record i \<lparr>LargeInUse = True, UserPointer = b, LargeRequestedSize = sz, LargeBackingUsableBase = b, LargeBackingUsablePages = n\<rparr> a)"
        define a3 where "a3 = (if z then a2\<lparr>HeapBytes := zero_bytes b sz (HeapBytes a2)\<rparr> else a2)"
        have run: "KiAllocatorAllocLarge sz z a s = Done (Some b, a3, s1)"
          using al q Some False by (simp add: KiAllocatorAllocLarge_def n_def [symmetric] Let_def a3_def a2_def)
        have A: "gAllocatorInitialized a3 = gAllocatorInitialized a" "gAllocatorSmallPages a3 = gAllocatorSmallPages a" "SmallPageAt a3 = SmallPageAt a" "SmallSlotAt a3 = SmallSlotAt a"
          "gAllocatorLargeRecords a3 = (gAllocatorLargeRecords a)(i := \<lparr>LargeInUse = True, UserPointer = b, LargeRequestedSize = sz, LargeBackingUsableBase = b, LargeBackingUsablePages = n\<rparr>)"
          "HeapBytes a3 = (if z then zero_bytes b sz (HeapBytes a) else HeapBytes a)"
          "gAllocatorStats a3 = ?st\<lparr>LiveAllocationCount := LiveAllocationCount ?st + 1,
             LiveLargeAllocationCount := LiveLargeAllocationCount ?st + 1, BackingBytes := BackingBytes ?st + KiAllocatorBackingBytes n\<rparr>"
          by (simp_all add: a3_def a2_def set_large_record_def)
        note V = large_views [OF A(2-4)] and R = record_added [OF ok i h(2) bl fresh big fit A(1-5)]
        have n1: "unat n \<le> 16384" by (rule heap_blockE [OF h(2), of b "unat n"]) (use bl in simp_all)
        note sb = stats_bounds [OF ok st] and kb = backing_bytes [OF n1]
        have ar: "unat (LiveAllocationCount ?st + 1) = unat (LiveAllocationCount ?st) + 1" "unat (LiveLargeAllocationCount ?st + 1) = unat (LiveLargeAllocationCount ?st) + 1"
          using sb by (intro unat_inc, simp)+
        have ar2: "unat (BackingBytes ?st + KiAllocatorBackingBytes n) = unat (BackingBytes ?st) + unat n * 4096"
          by (subst unat_add_small) (use sb kb n1 in simp_all)
        have nl: "\<not> large_live a i" using i by (simp add: large_live_def)
        have sum: "(\<Sum>j | large_live a3 j. unat (LargeBackingUsablePages (gAllocatorLargeRecords a3 j))) =
            unat n + (\<Sum>j | large_live a j. unat (LargeBackingUsablePages (gAllocatorLargeRecords a j)))"
          unfolding R(4) using nl R(5) by (simp add: A)
        have "stats_ok a3" using st ar ar2 sum nl unfolding stats_ok_def Let_def V R(4) by (simp add: A)
        then have "block_added s0 sz z (Some b) a a3 s1" using R(1-3) A(6) ne V(6) by (auto simp: block_added_def alloc_inv_def)
        then show ?thesis using run by blast
      qed
    qed
  qed
qed

lemma small_succeeds:
  assumes "alloc_inv s0 a s" "sz \<noteq> 0" "unat sz \<le> 1024" "KeHeapAllocPages 1 s = Done (Inr b, s1)"
  shows "\<exists>x a' s'. kmalloc sz a s = Done (Some x, a', s')" "\<exists>x a' s'. kzalloc sz a s = Done (Some x, a', s')"
proof -
  obtain c where c: "KiAllocatorFindSmallClass sz = Some c" using find_class(2) [of sz] assms(3) by (cases "KiAllocatorFindSmallClass sz") auto
  have "gAllocatorInitialized a" using assms(1) heap_okD(2) by (auto simp: alloc_inv_def)
  then show "\<exists>x a' s'. kmalloc sz a s = Done (Some x, a', s')" "\<exists>x a' s'. kzalloc sz a s = Done (Some x, a', s')"
    using KiAllocatorAllocSmall_effect [OF assms(1) c assms(2), of False] KiAllocatorAllocSmall_effect [OF assms(1) c assms(2), of True] c assms(2,4)
    by (fastforce simp: kmalloc_def kzalloc_def)+
qed

lemma kmalloc_effect:
  assumes inv: "alloc_inv s0 a s"
  shows "\<exists>r a' s'. kmalloc sz a s = Done (r, a', s') \<and> block_added s0 sz False r a a' s'"
    and "\<exists>r a' s'. kzalloc sz a s = Done (r, a', s') \<and> block_added s0 sz True r a a' s'"
proof -
  have ini: "gAllocatorInitialized a" using inv heap_okD(2) by (auto simp: alloc_inv_def)
  have sm: "\<exists>r a' s'. KiAllocatorAllocSmall sz z a s = Done (r, a', s') \<and> block_added s0 sz z r a a' s'"
    if "KiAllocatorFindSmallClass sz = Some c" "sz \<noteq> 0" for c z using KiAllocatorAllocSmall_effect [OF inv that, of z] by blast
  note lg = KiAllocatorAllocLarge_effect [OF inv find_class(2), of sz]
  show "\<exists>r a' s'. kmalloc sz a s = Done (r, a', s') \<and> block_added s0 sz False r a a' s'"
    using sm lg ini inv by (cases "sz = 0"; cases "KiAllocatorFindSmallClass sz") (auto simp: kmalloc_def block_added_def)
  show "\<exists>r a' s'. kzalloc sz a s = Done (r, a', s') \<and> block_added s0 sz True r a a' s'"
    using sm lg ini inv by (cases "sz = 0"; cases "KiAllocatorFindSmallClass sz") (auto simp: kzalloc_def block_added_def)
qed

end
