(* ===== verification/AllocatorFree.thy ===== *)
theory AllocatorFree
  imports AllocatorAlloc
begin

text \<open>
  What \<open>kfree\<close> does: it removes the block, gives an empty page back, and does nothing the second time.
\<close>

section \<open>Freeing a large block\<close>

lemma heap_page_freed:
  assumes "kva_inv s" "heap_block s b n"
  shows "\<exists>s'. free_page b s = Done s' \<and> kva_inv s' \<and> (\<forall>x m. heap_block s' x m \<longleftrightarrow> heap_block s x m \<and> x \<noteq> b) \<and> (\<exists>e. KeKvaQueryRange b s' = Inl e)"
  using kheap.free_block [OF assms] kdir.query_freed [OF assms] by (fastforce simp: free_page_def HO_KASSERT_def)

lemma align_down_page: "unat (HO_ALIGN_DOWN (x :: u64) PAGE_4KB) = unat x div 4096 * 4096"
proof -
  have "HO_ALIGN_DOWN x PAGE_4KB = x AND NOT (mask 12)" by (simp add: HO_ALIGN_DOWN_def PAGE_4KB_def mask_eq_decr_exp)
  then show ?thesis using unat_and_not_mask [of x 12] by simp
qed

lemma locate_unmapped: "KeKvaQueryRange (HO_ALIGN_DOWN x PAGE_4KB) s = Inl e \<Longrightarrow> locate_small_slot x a s = None"
  by (simp add: locate_small_slot_def)

text \<open>What freeing does: it removes one block.\<close>

definition block_removed :: "'a kva_globals_scheme \<Rightarrow> HO_VIRTUAL_ADDRESS \<Rightarrow> nat \<Rightarrow> allocator_globals \<Rightarrow> allocator_globals \<Rightarrow> 'a kva_globals_scheme \<Rightarrow> bool" where
  "block_removed s0 x n a a' s' \<longleftrightarrow> alloc_inv s0 a' s' \<and> live_blocks a' = live_blocks a - {(x, n)} \<and>
    HeapBytes a' = HeapBytes a \<and> locate_small_slot x a' s' = None"

lemma pointer_unique:
  assumes ok: "heap_ok s0 a s" and x: "(x, n) \<in> live_blocks a" and y: "(x, m) \<in> live_blocks a"
  shows "m = n"
proof (rule ccontr)
  assume "m \<noteq> n"
  then have "unat x + n \<le> unat x \<or> unat x + m \<le> unat x" using live_blocks_apart [OF ok x y] by simp
  moreover have "0 < n" by (rule live_blockE [OF ok x]) simp_all
  moreover have "0 < m" by (rule live_blockE [OF ok y]) simp_all
  ultimately show False by simp
qed

lemma find_large:
  assumes ok: "heap_ok s0 a s" and i: "large_live a i"
  shows "find (\<lambda>j. LargeInUse (gAllocatorLargeRecords a j) \<and> UserPointer (gAllocatorLargeRecords a j) = UserPointer (gAllocatorLargeRecords a i)) [0..<KE_ALLOC_LARGE_RECORD_CAPACITY] = Some i"
  using i heap_okD(7) [OF ok i] unfolding find_upt_Some large_live_def by (metis less_irrefl less_trans)

lemma record_removed:
  assumes ok: "heap_ok s0 a s" and i: "large_live a i" and r: "r = gAllocatorLargeRecords a i"
    and s': "kva_inv s'" "\<And>x m. heap_block s' x m \<longleftrightarrow> heap_block s x m \<and> x \<noteq> UserPointer r"
    and A: "gAllocatorInitialized a' = gAllocatorInitialized a" "gAllocatorSmallPages a' = gAllocatorSmallPages a" "SmallPageAt a' = SmallPageAt a" "SmallSlotAt a' = SmallSlotAt a"
      "gAllocatorLargeRecords a' = (gAllocatorLargeRecords a)(i := zero_large_record)"
  shows "heap_ok s0 a' s'" "live_blocks a' = live_blocks a - {(UserPointer r, unat (LargeRequestedSize r))}"
    "{j. large_live a' j} = {j. large_live a j} - {i}" "j \<noteq> i \<Longrightarrow> gAllocatorLargeRecords a' j = gAllocatorLargeRecords a j"
proof -
  note V = large_views [OF A(2-4)]
  have L: "large_live a' j \<longleftrightarrow> j \<noteq> i \<and> large_live a j" for j by (auto simp: large_live_def A zero_large_record_def)
  show LS: "{j. large_live a' j} = {j. large_live a j} - {i}" using L by auto
  show rec: "gAllocatorLargeRecords a' j = gAllocatorLargeRecords a j" if "j \<noteq> i" for j using that by (simp add: A)
  have up: "UserPointer (gAllocatorLargeRecords a j) \<noteq> UserPointer r" if "large_live a j" "j \<noteq> i" for j using heap_okD(7) [OF ok i that(1)] that(2) by (auto simp: r)
  have pn: "UserPointer r \<notin> chain_pages a" using heap_okD(6) [OF ok i] by (simp add: r)
  have B: "(b, m) \<in> backing_blocks a' \<longleftrightarrow> (b, m) \<in> backing_blocks a \<and> b \<noteq> UserPointer r" for b m
    unfolding backing_blocks_def V LS using rec up pn by (auto simp: r)
  have s0n: "\<not> heap_block s0 (UserPointer r) k" for k
    using heap_okD(9) [OF ok, of "UserPointer r" "unat (LargeBackingUsablePages r)"] i by (auto simp: backing_blocks_def r)
  have recs: "record_fits (gAllocatorLargeRecords a' j) \<and> UserPointer (gAllocatorLargeRecords a' j) \<notin> chain_pages a \<and>
      (\<forall>k. large_live a' k \<longrightarrow> UserPointer (gAllocatorLargeRecords a' k) = UserPointer (gAllocatorLargeRecords a' j) \<longrightarrow> k = j)" if "large_live a' j" for j
    using that L rec heap_okD(5,6) [OF ok, of j] heap_okD(7) [OF ok, of j] by auto
  have blk: "heap_block s' b m \<longleftrightarrow> heap_block s0 b m \<or> (b, m) \<in> backing_blocks a'" for b m
    unfolding B s'(2) using heap_okD(8) [OF ok, of b m] s0n by auto
  show "heap_ok s0 a' s'" unfolding heap_ok_def V
    using s'(1) heap_okD(2-4) [OF ok] recs blk heap_okD(9) [OF ok] B by (auto simp: A)
  have "(UserPointer r, m) \<notin> (\<Union>c<KE_ALLOC_SMALL_CLASS_COUNT. \<Union>p \<in> set (gAllocatorSmallPages a c). live_on a c p)" for m
  proof
    assume "(UserPointer r, m) \<in> (\<Union>c<KE_ALLOC_SMALL_CLASS_COUNT. \<Union>p \<in> set (gAllocatorSmallPages a c). live_on a c p)"
    then obtain c p q where q: "c < KE_ALLOC_SMALL_CLASS_COUNT" "p \<in> set (gAllocatorSmallPages a c)" "q \<in> used_slots a c p" "UserPointer r = q + 24" by (auto simp: live_on_def)
    then show False using small_unaligned [OF ok q(1,2), of q] large_block(2) [OF ok i, folded r] by (simp add: used_slots_def)
  qed
  then show "live_blocks a' = live_blocks a - {(UserPointer r, unat (LargeRequestedSize r))}"
    unfolding live_blocks_split live_large_def LS V A(2) using rec heap_okD(7) [OF ok i] by (auto simp: r)
qed

lemma KiAllocatorTryFreeLarge_effect:
  assumes inv: "alloc_inv s0 a s" and i: "large_live a i"
  defines "r \<equiv> gAllocatorLargeRecords a i"
  shows "\<exists>a' s'. KiAllocatorTryFreeLarge (UserPointer r) a s = Done (True, a', s') \<and> block_removed s0 (UserPointer r) (unat (LargeRequestedSize r)) a a' s'"
proof -
  have ok: "heap_ok s0 a s" and st: "stats_ok a" and ne: "no_empty_page a" using inv by (simp_all add: alloc_inv_def)
  let ?n = "LargeBackingUsablePages r" and ?st = "gAllocatorStats a"
  note lb = large_block [OF ok i, folded r_def] and kb = backing_bytes [OF large_block(4) [OF ok i, folded r_def]]
  have base: "LargeBackingUsableBase r = UserPointer r" using heap_okD(5) [OF ok i] by (simp add: record_fits_def r_def)
  obtain s' e where fr: "free_page (UserPointer r) s = Done s'" "kva_inv s'" "\<And>x m. heap_block s' x m \<longleftrightarrow> heap_block s x m \<and> x \<noteq> UserPointer r"
    and gone: "KeKvaQueryRange (UserPointer r) s' = Inl e"
    using heap_page_freed [OF heap_okD(1) [OF ok] lb(1)] by blast
  have "unat (HO_ALIGN_DOWN (UserPointer r) PAGE_4KB) = unat (UserPointer r)" using lb(2) by (auto simp: align_down_page)
  then have al: "HO_ALIGN_DOWN (UserPointer r) PAGE_4KB = UserPointer r" by (rule unat_eqI)
  have cnt: "card {j. large_live a j} = Suc (card ({j. large_live a j} - {i}))" using i by (simp add: card.remove del: card_Diff_insert)
  have sm: "(\<Sum>j | large_live a j. unat (LargeBackingUsablePages (gAllocatorLargeRecords a j))) =
      unat ?n + (\<Sum>j \<in> {j. large_live a j} - {i}. unat (LargeBackingUsablePages (gAllocatorLargeRecords a j)))"
    using i by (simp add: sum.remove r_def)
  have S: "unat (LiveLargeAllocationCount ?st) = Suc (card ({j. large_live a j} - {i}))" "unat (LiveAllocationCount ?st) \<ge> unat (LiveLargeAllocationCount ?st)"
    "unat (BackingBytes ?st) \<ge> unat ?n * 4096" using st cnt sm by (simp_all add: stats_ok_def Let_def)
  have g: "LiveAllocationCount ?st > 0" "LiveLargeAllocationCount ?st > 0" "BackingBytes ?st \<ge> KiAllocatorBackingBytes ?n"
    using S kb by (simp_all add: word_less_nat_alt word_le_nat_alt)
  have u: "unat (LiveAllocationCount ?st - 1) = unat (LiveAllocationCount ?st) - 1" "unat (LiveLargeAllocationCount ?st - 1) = unat (LiveLargeAllocationCount ?st) - 1"
    "unat (BackingBytes ?st - KiAllocatorBackingBytes ?n) = unat (BackingBytes ?st) - unat ?n * 4096"
    using S kb g by (simp_all add: unat_sub_small word_le_nat_alt)
  define a' where "a' = set_stats (\<lambda>st. st\<lparr>LiveAllocationCount := LiveAllocationCount st - 1, LiveLargeAllocationCount := LiveLargeAllocationCount st - 1,
      BackingBytes := BackingBytes st - KiAllocatorBackingBytes ?n\<rparr>) (set_large_record i zero_large_record a)"
  have run: "KiAllocatorTryFreeLarge (UserPointer r) a s = Done (True, a', s')"
    using find_large [OF ok i] g fr(1) base
    by (simp add: KiAllocatorTryFreeLarge_def r_def [symmetric] HO_KASSERT_def a'_def set_large_record_def set_stats_def)
  have A: "gAllocatorInitialized a' = gAllocatorInitialized a" "gAllocatorSmallPages a' = gAllocatorSmallPages a" "SmallPageAt a' = SmallPageAt a" "SmallSlotAt a' = SmallSlotAt a"
    "gAllocatorLargeRecords a' = (gAllocatorLargeRecords a)(i := zero_large_record)" "HeapBytes a' = HeapBytes a"
    "gAllocatorStats a' = ?st\<lparr>LiveAllocationCount := LiveAllocationCount ?st - 1, LiveLargeAllocationCount := LiveLargeAllocationCount ?st - 1,
       BackingBytes := BackingBytes ?st - KiAllocatorBackingBytes ?n\<rparr>"
    by (simp_all add: a'_def set_large_record_def)
  note V = large_views [OF A(2-4)] and R = record_removed [OF ok i r_def [THEN meta_eq_to_obj_eq] fr(2,3) A(1-5)]
  have "stats_ok a'" using st u S cnt sm R(4) unfolding stats_ok_def Let_def V R(3) by (simp add: A)
  moreover have "locate_small_slot (UserPointer r) a' s' = None" using gone by (intro locate_unmapped [where e = e]) (simp only: al)
  ultimately have "block_removed s0 (UserPointer r) (unat (LargeRequestedSize r)) a a' s'" using R(1,2) A(6) ne V(6) by (simp add: block_removed_def alloc_inv_def)
  then show ?thesis using run by blast
qed

section \<open>Freeing a small block\<close>

lemma slot_pointer:
  assumes ok: "heap_ok s0 a s" and c: "c < KE_ALLOC_SMALL_CLASS_COUNT" "p \<in> set (gAllocatorSmallPages a c)" and q: "q \<in> set (small_slots c p)"
  obtains i where "i < nslots c" "q = p + 56 + word_of_nat (i * stride c)" "unat (q + 24) = unat p + 80 + i * stride c" "i * stride c + stride c \<le> 4040"
    "HO_ALIGN_DOWN (q + 24) PAGE_4KB = p"
proof -
  have "p \<in> chain_pages a" using c by (auto simp: chain_pages_iff)
  note b = chain_block [OF ok this]
  obtain i where i: "i < nslots c" "q = p + 56 + word_of_nat (i * stride c)" "unat q = unat p + 56 + i * stride c" "i * stride c + stride c \<le> 4040"
    using small_slotsE [OF q c(1) b(2)] by metis
  have "unat (q + 24) = unat q + 24" by (subst unat_add_small) (use i b(2) class_consts(7) [OF c(1)] in simp_all)
  then have x: "unat (q + 24) = unat p + 80 + i * stride c" using i(3) by simp
  obtain k where k: "unat p = 4096 * k" using b(3) by (metis dvd_def mod_0_imp_dvd)
  have "unat (q + 24) div 4096 = k" using x k i(4) class_consts(7) [OF c(1)] by simp
  then have "HO_ALIGN_DOWN (q + 24) PAGE_4KB = p" using align_down_page [of "q + 24"] k by (intro unat_eqI) simp
  then show thesis using that [OF i(1,2) x i(4)] by simp
qed

text \<open>What the code reads of the page of a live small block.\<close>

lemma used_slotE:
  assumes ok: "heap_ok s0 a s" and c: "c < KE_ALLOC_SMALL_CLASS_COUNT" "p \<in> set (gAllocatorSmallPages a c)" and q: "q \<in> used_slots a c p"
  obtains i rng where "i < nslots c" "q = p + 56 + word_of_nat (i * stride c)" "unat (q + 24) = unat p + 80 + i * stride c" "i * stride c + stride c \<le> 4040"
    "HO_ALIGN_DOWN (q + 24) PAGE_4KB = p" "KeKvaQueryRange p s = Inr rng" "RangeArena rng = KE_KVA_ARENA_HEAP" "RangeUsableBase rng = p" "RangeUsablePages rng = 1"
    "PageMagic (SmallPageAt a p) = KE_ALLOC_SMALL_PAGE_MAGIC" "unat (PageClassIndex (SmallPageAt a p)) = c"
    "unat (PageSlotStride (SmallPageAt a p)) = stride c" "unat (PageSlotsPerPage (SmallPageAt a p)) = nslots c"
    "OwnerPage (SmallSlotAt a q) = p" "SlotState (SmallSlotAt a q) = KE_ALLOC_SLOT_STATE_ALLOCATED"
    "PageSlotStride (SmallPageAt a p) \<noteq> 0" "PageSlotsPerPage (SmallPageAt a p) \<noteq> 0"
proof -
  have qs: "q \<in> set (small_slots c p)" "q \<notin> set (free_slots a p)" using q by (simp_all add: used_slots_def)
  have pc: "p \<in> chain_pages a" using c by (auto simp: chain_pages_iff)
  obtain i where i: "i < nslots c" "q = p + 56 + word_of_nat (i * stride c)" "unat (q + 24) = unat p + 80 + i * stride c" "i * stride c + stride c \<le> 4040"
    "HO_ALIGN_DOWN (q + 24) PAGE_4KB = p" using slot_pointer [OF ok c qs(1)] by metis
  obtain rng where r: "KeKvaQueryRange p s = Inr rng" "RangeArena rng = KE_KVA_ARENA_HEAP" "RangeUsableBase rng = p" "unat (RangeUsablePages rng) = 1"
    using kdir.query_block [OF heap_okD(1) [OF ok] chain_block(1) [OF ok pc]] by blast
  have r1: "RangeUsablePages rng = 1" using r(4) by (intro unat_eqI) simp
  have h: "PageMagic (SmallPageAt a p) = KE_ALLOC_SMALL_PAGE_MAGIC" "unat (PageClassIndex (SmallPageAt a p)) = c"
    "unat (PageSlotStride (SmallPageAt a p)) = stride c" "unat (PageSlotsPerPage (SmallPageAt a p)) = nslots c"
    "OwnerPage (SmallSlotAt a q) = p" "SlotState (SmallSlotAt a q) = KE_ALLOC_SLOT_STATE_ALLOCATED"
    using heap_okD(4) [OF ok c] qs by (auto simp: page_ok_def Let_def)
  have nz: "PageSlotStride (SmallPageAt a p) \<noteq> 0" "PageSlotsPerPage (SmallPageAt a p) \<noteq> 0"
    using h(3,4) class_consts(4,7) [OF c(1)] by auto
  show thesis by (rule that [OF i r(1-3) r1 h nz])
qed

lemma page_window:
  fixes v p :: u64
  assumes "unat p + 4096 < 2 ^ 64" "unat p + 80 \<le> unat v" "unat v < unat p + 4096"
  shows "\<not> v < p + 56 + 24" "\<not> v \<ge> p + 4096" "\<not> v - p - 56 < 24"
proof -
  have "unat (p + 80) = unat p + 80" "unat (p + 4096) = unat p + 4096" by (subst unat_add_small; use assms in simp)+
  then show "\<not> v < p + 56 + 24" "\<not> v \<ge> p + 4096" using assms by (simp_all add: word_less_nat_alt word_le_nat_alt add.assoc)
  have "unat (v - p) = unat v - unat p" using assms by (simp add: unat_sub_small)
  then have "unat (v - p - 56) = unat v - unat p - 56" using assms by (subst unat_sub_small) simp_all
  then show "\<not> v - p - 56 < 24" using assms by (simp add: word_less_nat_alt)
qed

text \<open>The checks of the code find the slot of a live block.\<close>

lemma locate_live:
  assumes ok: "heap_ok s0 a s" and c: "c < KE_ALLOC_SMALL_CLASS_COUNT" "p \<in> set (gAllocatorSmallPages a c)" and q: "q \<in> used_slots a c p"
  shows "locate_small_slot (q + 24) a s = Some (p, q)"
proof (rule used_slotE [OF ok c q], goal_cases)
  case (1 i rng)
  have "p \<in> chain_pages a" using c by (auto simp: chain_pages_iff)
  note w = page_window [OF chain_block(2) [OF ok this], of "q + 24"]
  have off: "q + 24 - p - 56 - 24 = word_of_nat (i * stride c)" using 1(2) by (simp del: of_nat_mult)
  have u: "unat (word_of_nat (i * stride c) :: u64) = i * stride c" using 1(4) by (simp add: unsigned_of_nat take_bit_nat_eq_self del: of_nat_mult)
  have md: "(word_of_nat (i * stride c) :: u64) mod ucast (PageSlotStride (SmallPageAt a p)) = 0"
    by (rule unat_eqI) (simp add: unat_mod u 1(12) del: of_nat_mult)
  show ?case
    unfolding locate_small_slot_def Let_def 1(5,6) sum.case page_constants(2) [OF c(1)]
    unfolding sizeof_KE_ALLOC_SMALL_SLOT_def PAGE_4KB_def off
    using 1 c md w class_consts(7) [OF c(1)] by (simp del: of_nat_mult)
qed

text \<open>A free slot is not found.\<close>

lemma locate_free:
  assumes ok: "heap_ok s0 a s" and c: "c < KE_ALLOC_SMALL_CLASS_COUNT" "p \<in> set (gAllocatorSmallPages a c)" and q: "q \<in> set (free_slots a p)"
  shows "locate_small_slot (q + 24) a s = None"
proof -
  have qs: "q \<in> set (small_slots c p)" using page_okD(5) [OF heap_okD(4) [OF ok c]] q by auto
  then have f: "SlotState (SmallSlotAt a q) \<noteq> KE_ALLOC_SLOT_STATE_ALLOCATED"
    using heap_okD(4) [OF ok c] q by (simp add: page_ok_def Let_def KE_ALLOC_SLOT_STATE_ALLOCATED_def KE_ALLOC_SLOT_STATE_FREE_def)
  have al: "HO_ALIGN_DOWN (q + 24) PAGE_4KB = p" by (rule slot_pointer [OF ok c qs])
  have sl: "p + 56 + (q + 24 - p - 56 - 24) = q" by simp
  show ?thesis unfolding locate_small_slot_def Let_def al page_constants(2) [OF c(1)] sizeof_KE_ALLOC_SMALL_SLOT_def sl
    using f by (simp split: sum.split)
qed

lemma give_slot:
  assumes ok: "heap_ok s0 a s" and c: "c < KE_ALLOC_SMALL_CLASS_COUNT" "p \<in> set (gAllocatorSmallPages a c)" and q: "q \<in> used_slots a c p"
    and a1: "a1 = set_small_page p ((SmallPageAt a p)\<lparr>PageFreeList := q # PageFreeList (SmallPageAt a p), PageFreeCount := PageFreeCount (SmallPageAt a p) + 1\<rparr>)
      (set_small_slot q ((SmallSlotAt a q)\<lparr>SlotState := KE_ALLOC_SLOT_STATE_FREE, SlotRequestedSize := 0\<rparr>) a)"
  shows "heap_ok s0 a1 s" "live_blocks a1 = live_blocks a - {(q + 24, unat (SlotRequestedSize (SmallSlotAt a q)))}"
    "free_slots a1 = (free_slots a)(p := q # free_slots a p)" "length (free_slots a p) < nslots c"
proof -
  let ?h = "SmallPageAt a p"
  have qs: "q \<in> set (small_slots c p)" "q \<notin> set (free_slots a p)" using q by (simp_all add: used_slots_def)
  have pc: "p \<in> chain_pages a" using c by (auto simp: chain_pages_iff)
  note po = heap_okD(4) [OF ok c] and d = page_okD [OF heap_okD(4) [OF ok c]] and pb = chain_block [OF ok pc]
  have A: "gAllocatorInitialized a1 = gAllocatorInitialized a" "gAllocatorSmallPages a1 = gAllocatorSmallPages a" "gAllocatorLargeRecords a1 = gAllocatorLargeRecords a"
    "SmallPageAt a1 = (SmallPageAt a)(p := ?h\<lparr>PageFreeList := q # PageFreeList ?h, PageFreeCount := PageFreeCount ?h + 1\<rparr>)"
    "SmallSlotAt a1 = (SmallSlotAt a)(q := (SmallSlotAt a q)\<lparr>SlotState := KE_ALLOC_SLOT_STATE_FREE, SlotRequestedSize := 0\<rparr>)"
    by (simp_all add: a1 set_small_page_def set_small_slot_def)
  show fs: "free_slots a1 = (free_slots a)(p := q # free_slots a p)" by (rule ext) (simp add: free_slots_def A)
  have "insert q (set (free_slots a p)) \<subseteq> set (small_slots c p)" using qs d(5) by auto
  from card_mono [OF _ this] have "Suc (length (free_slots a p)) \<le> nslots c"
    using qs(2) distinct_card [OF d(4)] distinct_card [OF slots_distinct [OF c(1) pb(2)]] by simp
  then show len: "length (free_slots a p) < nslots c" by simp
  have "unat (PageFreeCount ?h) + unat (1 :: u32) < 2 ^ 32" using d(3) len class_consts(5) [OF c(1)] by simp
  then have cnt: "unat (PageFreeCount ?h + 1) = Suc (length (free_slots a p))" using d(3) by (subst unat_add_small) simp_all
  have po': "page_ok a1 c p" using po qs cnt unfolding page_ok_def Let_def fs by (auto simp: A)
  note e = edit_page [OF ok c qs(1), of a1]
  show "heap_ok s0 a1 s" using heap_okD(2) [OF ok] po' by (intro e) (simp_all add: A)
  obtain R where R: "live_blocks a = live_on a c p \<union> R" "live_blocks a1 = live_on a1 c p \<union> R" "\<forall>n. (q + 24, n) \<notin> R"
    using e(2) heap_okD(2) [OF ok] po' by (auto simp: A)
  have us: "used_slots a1 c p = used_slots a c p - {q}" by (auto simp: used_slots_def fs)
  have "live_on a1 c p = live_on a c p - {(q + 24, unat (SlotRequestedSize (SmallSlotAt a q)))}"
    unfolding live_on_def us using A(5) by (auto simp: image_iff)
  then show "live_blocks a1 = live_blocks a - {(q + 24, unat (SlotRequestedSize (SmallSlotAt a q)))}" using R by auto
qed

lemma free_full:
  assumes ok: "heap_ok s0 a s" and c: "c < KE_ALLOC_SMALL_CLASS_COUNT" "p \<in> set (gAllocatorSmallPages a c)" and full: "length (free_slots a p) = nslots c"
  shows "used_slots a c p = {}"
proof -
  have "p \<in> chain_pages a" using c by (auto simp: chain_pages_iff)
  note d = page_okD [OF heap_okD(4) [OF ok c]] and pb = chain_block [OF ok this]
  have "set (free_slots a p) = set (small_slots c p)"
    using d(5) full distinct_card [OF d(4)] distinct_card [OF slots_distinct [OF c(1) pb(2)]] by (intro card_subset_eq) simp_all
  then show ?thesis by (simp add: used_slots_def)
qed

text \<open>A page without live blocks goes back to the heap.\<close>

lemma unpublish_page:
  assumes ok: "heap_ok s0 a s" and c: "c < KE_ALLOC_SMALL_CLASS_COUNT" "p \<in> set (gAllocatorSmallPages a c)" and full: "length (free_slots a p) = nslots c"
    and a2: "a2 = set_small_page p h (set_stats f (set_small_pages c (remove1 p (gAllocatorSmallPages a c)) a))"
    and s': "kva_inv s'" "\<And>x m. heap_block s' x m \<longleftrightarrow> heap_block s x m \<and> x \<noteq> p"
  shows "heap_ok s0 a2 s'" "live_blocks a2 = live_blocks a" "chain_pages a2 = chain_pages a - {p}" "large_live a2 = large_live a"
    "d < KE_ALLOC_SMALL_CLASS_COUNT \<Longrightarrow> r \<in> set (gAllocatorSmallPages a2 d) \<longleftrightarrow> r \<in> set (gAllocatorSmallPages a d) \<and> r \<noteq> p"
    "r \<noteq> p \<Longrightarrow> free_slots a2 r = free_slots a r \<and> used_count a2 r = used_count a r"
proof -
  have A: "gAllocatorSmallPages a2 = (gAllocatorSmallPages a)(c := remove1 p (gAllocatorSmallPages a c))" "gAllocatorLargeRecords a2 = gAllocatorLargeRecords a"
    "gAllocatorInitialized a2 = gAllocatorInitialized a" "SmallPageAt a2 = (SmallPageAt a)(p := h)" "SmallSlotAt a2 = SmallSlotAt a"
    by (simp_all add: a2 set_small_page_def set_stats_def set_small_pages_def)
  have mem: "r \<in> set (gAllocatorSmallPages a2 d) \<longleftrightarrow> r \<in> set (gAllocatorSmallPages a d) \<and> r \<noteq> p" if "d < KE_ALLOC_SMALL_CLASS_COUNT" for d r
    using page_class [OF ok that _ c] heap_okD(3) [OF ok c(1)] by (auto simp: A)
  then show "d < KE_ALLOC_SMALL_CLASS_COUNT \<Longrightarrow> r \<in> set (gAllocatorSmallPages a2 d) \<longleftrightarrow> r \<in> set (gAllocatorSmallPages a d) \<and> r \<noteq> p" .
  show C: "chain_pages a2 = chain_pages a - {p}" by (rule set_eqI) (simp add: chain_pages_iff, metis mem)
  show L: "large_live a2 = large_live a" by (simp add: large_live_def [abs_def] A)
  show "r \<noteq> p \<Longrightarrow> free_slots a2 r = free_slots a r \<and> used_count a2 r = used_count a r" by (simp add: free_slots_def used_count_def A)
  have old: "page_ok a2 d r = page_ok a d r" "live_on a2 d r = live_on a d r" if "r \<noteq> p" for d r using page_ok_cong [of a2 r a d] that by (simp_all add: A)
  have pc: "p \<in> chain_pages a" using c by (auto simp: chain_pages_iff)
  have lg: "UserPointer (gAllocatorLargeRecords a i) \<noteq> p" if "large_live a i" for i using heap_okD(6) [OF ok that] pc by auto
  have B: "(b, m) \<in> backing_blocks a2 \<longleftrightarrow> (b, m) \<in> backing_blocks a \<and> b \<noteq> p" for b m using lg by (auto simp: backing_blocks_def C L A)
  have s0n: "\<not> heap_block s0 p k" for k using heap_okD(9) [OF ok, of p 1] pc by (auto simp: backing_blocks_def)
  have pages: "distinct (gAllocatorSmallPages a2 d) \<and> (\<forall>r \<in> set (gAllocatorSmallPages a2 d). page_ok a2 d r)" if "d < KE_ALLOC_SMALL_CLASS_COUNT" for d
    using heap_okD(3,4) [OF ok that] mem [OF that] old(1) that by (auto simp: A(1))
  have blk: "heap_block s' b m \<longleftrightarrow> heap_block s0 b m \<or> (b, m) \<in> backing_blocks a2" for b m
    unfolding B s'(2) using heap_okD(8) [OF ok, of b m] s0n by auto
  show "heap_ok s0 a2 s'" unfolding heap_ok_def L C A(2,3)
    using s'(1) heap_okD(2,5-7) [OF ok] pages blk heap_okD(9) [OF ok] B by auto
  have lp: "live_on a c p = {}" using free_full [OF ok c full] by (simp add: live_on_def)
  have "(\<Union>r \<in> set (gAllocatorSmallPages a2 d). live_on a2 d r) = (\<Union>r \<in> set (gAllocatorSmallPages a d). live_on a d r)" if d: "d < KE_ALLOC_SMALL_CLASS_COUNT" for d
  proof -
    have "set (gAllocatorSmallPages a2 d) = set (gAllocatorSmallPages a d) - {p}" using mem [OF d] by auto
    moreover have "live_on a d p = {}" if "p \<in> set (gAllocatorSmallPages a d)" using lp page_class [OF ok d that c] by simp
    ultimately show ?thesis using old(2) by auto
  qed
  moreover have "live_large a2 = live_large a" by (simp add: live_large_def L A)
  ultimately show "live_blocks a2 = live_blocks a" unfolding live_blocks_split by simp
qed

lemma KiAllocatorTryFreeSmall_effect:
  assumes inv: "alloc_inv s0 a s" and c: "c < KE_ALLOC_SMALL_CLASS_COUNT" "p \<in> set (gAllocatorSmallPages a c)" and q: "q \<in> used_slots a c p"
  shows "\<exists>a' s'. KiAllocatorTryFreeSmall (q + 24) a s = Done (True, a', s') \<and> block_removed s0 (q + 24) (unat (SlotRequestedSize (SmallSlotAt a q))) a a' s'"
proof -
  have ok: "heap_ok s0 a s" and st: "stats_ok a" and ne: "no_empty_page a" using inv by (simp_all add: alloc_inv_def)
  let ?st = "gAllocatorStats a"
  define a1 where "a1 = set_small_page p ((SmallPageAt a p)\<lparr>PageFreeList := q # PageFreeList (SmallPageAt a p), PageFreeCount := PageFreeCount (SmallPageAt a p) + 1\<rparr>)
      (set_small_slot q ((SmallSlotAt a q)\<lparr>SlotState := KE_ALLOC_SLOT_STATE_FREE, SlotRequestedSize := 0\<rparr>) a)"
  note g = give_slot [OF ok c q a1_def] and d = page_okD [OF heap_okD(4) [OF ok c]]
  have A: "gAllocatorSmallPages a1 = gAllocatorSmallPages a" "gAllocatorLargeRecords a1 = gAllocatorLargeRecords a" "gAllocatorStats a1 = ?st" "HeapBytes a1 = HeapBytes a"
    "\<And>r. PageSlotsPerPage (SmallPageAt a1 r) = PageSlotsPerPage (SmallPageAt a r)" by (simp_all add: a1_def set_small_page_def set_small_slot_def)
  have V: "chain_pages a1 = chain_pages a" "large_live a1 = large_live a" by (simp_all add: chain_pages_def large_live_def [abs_def] A)
  have pc: "p \<in> chain_pages a" using c by (auto simp: chain_pages_iff)
  have up: "used_count a p = Suc (used_count a1 p)" "\<And>r. r \<noteq> p \<Longrightarrow> used_count a1 r = used_count a r"
    using g(3,4) d(2) by (simp_all add: used_count_def A Suc_diff_Suc)
  have sum: "(\<Sum>r \<in> chain_pages a. used_count a r) = Suc (\<Sum>r \<in> chain_pages a. used_count a1 r)" using stats_edit [OF pc V(1) up(2)] up(1) V(1) by simp
  have S: "unat (LiveSmallAllocationCount ?st) = Suc (\<Sum>r \<in> chain_pages a. used_count a1 r)" "unat (LiveAllocationCount ?st) \<ge> unat (LiveSmallAllocationCount ?st)"
    "unat (BackingBytes ?st) = 4096 * (card (chain_pages a) + (\<Sum>i | large_live a i. unat (LargeBackingUsablePages (gAllocatorLargeRecords a i))))"
    using st sum by (simp_all add: stats_ok_def Let_def)
  have gt: "LiveAllocationCount ?st > 0" "LiveSmallAllocationCount ?st > 0" using S by (simp_all add: word_less_nat_alt)
  have u: "unat (LiveAllocationCount ?st - 1) = unat (LiveAllocationCount ?st) - 1" "unat (LiveSmallAllocationCount ?st - 1) = unat (LiveSmallAllocationCount ?st) - 1"
    using S by (simp_all add: unat_sub_small)
  define a2 where "a2 = set_stats (\<lambda>st. st\<lparr>LiveAllocationCount := LiveAllocationCount st - 1, LiveSmallAllocationCount := LiveSmallAllocationCount st - 1\<rparr>) a1"
  have hk2: "heap_ok s0 a2 s" "live_blocks a2 = live_blocks a - {(q + 24, unat (SlotRequestedSize (SmallSlotAt a q)))}" "HeapBytes a2 = HeapBytes a"
    "gAllocatorSmallPages a2 = gAllocatorSmallPages a" "chain_pages a2 = chain_pages a" "large_live a2 = large_live a"
    "gAllocatorLargeRecords a2 = gAllocatorLargeRecords a" "free_slots a2 = (free_slots a)(p := q # free_slots a p)" "used_count a2 = used_count a1"
    using g(1-3) A V by (simp_all add: a2_def)
  have so2: "stats_ok a2" using st u S unfolding stats_ok_def Let_def hk2 by (auto simp: a2_def A)
  have run1: "KiAllocatorTryFreeSmall (q + 24) a s = bind_outcome (retire_page p a2) (\<lambda>(releaseBase, a).
      if releaseBase \<noteq> 0 then bind_outcome (free_page releaseBase s) (\<lambda>s. Done (True, a, s)) else Done (True, a, s))"
    using locate_live [OF ok c q] gt A(3) by (simp add: KiAllocatorTryFreeSmall_def HO_KASSERT_def Let_def a1_def a2_def set_small_slot_def set_small_page_def)
  have c2: "p \<in> set (gAllocatorSmallPages a2 c)" using c hk2 by simp
  note d2 = page_okD [OF heap_okD(4) [OF hk2(1) c(1) c2]]
  have others: "length (free_slots a2 r) < nslots d" if "d < KE_ALLOC_SMALL_CLASS_COUNT" "r \<in> set (gAllocatorSmallPages a d)" "r \<noteq> p" for d r
    using ne that by (simp add: no_empty_page_def hk2)
  have full: "PageFreeCount (SmallPageAt a2 p) = PageSlotsPerPage (SmallPageAt a2 p) \<longleftrightarrow> length (free_slots a2 p) = nslots c"
    using d2(2,3) by (metis unat_eqI)
  show ?thesis
  proof (cases "length (free_slots a2 p) = nslots c")
    case False
    then have "length (free_slots a2 p) < nslots c" using g(4) hk2(8) by simp
    then have "no_empty_page a2" unfolding no_empty_page_def hk2(4)
      using others page_class [OF ok _ _ c] by metis
    moreover have "locate_small_slot (q + 24) a2 s = None" using locate_free [OF hk2(1) c(1) c2, of q] hk2(8) by simp
    ultimately show ?thesis using run1 full False hk2 so2 by (simp add: retire_page_def Let_def block_removed_def alloc_inv_def)
  next
    case True
    define a3 where "a3 = set_small_page p ((SmallPageAt a2 p)\<lparr>PageMagic := KE_ALLOC_SMALL_PAGE_RETIRED\<rparr>)
      (set_stats (\<lambda>st. st\<lparr>BackingBytes := BackingBytes st - 4096\<rparr>) (set_small_pages c (remove1 p (gAllocatorSmallPages a2 c)) a2))"
    have h: "PageBackingUsablePages (SmallPageAt a2 p) = 1" "PageBackingUsableBase (SmallPageAt a2 p) = p"
      using heap_okD(4) [OF hk2(1) c(1) c2] by (simp_all add: page_ok_def Let_def)
    have "0 < card (chain_pages a)" using pc by (auto simp: card_gt_0_iff)
    then have bb: "4096 \<le> unat (BackingBytes ?st)" using S(3) by simp
    then have "BackingBytes ?st \<ge> 4096" by (simp add: word_le_nat_alt)
    then have rt: "retire_page p a2 = Done (p, a3)"
      using True full c2 d2(1) h by (simp add: retire_page_def Let_def HO_KASSERT_def KiAllocatorBackingBytes_def PAGE_4KB_def a3_def set_small_pages_def a2_def A)
    have p0: "p \<noteq> 0" using chain_block(4) [OF ok pc] by auto
    obtain s' where fr: "free_page p s = Done s'" "kva_inv s'" "\<And>x m. heap_block s' x m \<longleftrightarrow> heap_block s x m \<and> x \<noteq> p"
      and gone: "\<exists>e. KeKvaQueryRange p s' = Inl e"
      using heap_page_freed [OF heap_okD(1) [OF ok] chain_block(1) [OF ok pc]] by blast
    note up = unpublish_page [OF hk2(1) c(1) c2 True a3_def fr(2,3)]
    have st3: "gAllocatorStats a3 = (gAllocatorStats a2)\<lparr>BackingBytes := BackingBytes ?st - 4096\<rparr>" "gAllocatorLargeRecords a3 = gAllocatorLargeRecords a2" "HeapBytes a3 = HeapBytes a"
      using hk2(3) by (simp_all add: a3_def set_small_page_def set_small_pages_def set_stats_def a2_def A)
    have u0: "used_count a2 p = 0" using True d2(2) by (simp add: used_count_def)
    have sum3: "(\<Sum>r \<in> chain_pages a3. used_count a3 r) = (\<Sum>r \<in> chain_pages a2. used_count a2 r)"
      unfolding up(3) using up(6) u0 pc hk2(5) sum.remove [OF finite_heap(1) pc, of "used_count a2"] by simp
    have b3: "unat (BackingBytes ?st - 4096) = unat (BackingBytes ?st) - 4096" using bb by (simp add: unat_sub_small)
    have cd: "card (chain_pages a) = Suc (card (chain_pages a - {p}))" using pc by (simp add: card.remove del: card_Diff_insert)
    have "stats_ok a3" using so2 sum3 b3 S(3) cd unfolding stats_ok_def Let_def st3 up(3,4) hk2(5-7) by simp
    moreover have "no_empty_page a3" unfolding no_empty_page_def using up(5,6) others hk2(4) by auto
    moreover have "HO_ALIGN_DOWN (q + 24) PAGE_4KB = p" by (rule slot_pointer [OF ok c, of q]) (use q in \<open>simp add: used_slots_def\<close>)
    then have "locate_small_slot (q + 24) a3 s' = None" using gone locate_unmapped [of "q + 24" s'] by (elim exE) simp
    ultimately have "block_removed s0 (q + 24) (unat (SlotRequestedSize (SmallSlotAt a q))) a a3 s'"
      using up(1,2) hk2(2) st3(3) by (simp add: block_removed_def alloc_inv_def)
    moreover have "KiAllocatorTryFreeSmall (q + 24) a s = Done (True, a3, s')" using run1 rt p0 fr(1) by simp
    ultimately show ?thesis by blast
  qed
qed

section \<open>The interface\<close>

lemma not_large:
  assumes "\<And>i. large_live a i \<Longrightarrow> UserPointer (gAllocatorLargeRecords a i) \<noteq> x"
  shows "KiAllocatorTryFreeLarge x a s = Done (False, a, s)"
proof -
  have "find (\<lambda>i. LargeInUse (gAllocatorLargeRecords a i) \<and> UserPointer (gAllocatorLargeRecords a i) = x) [0..<KE_ALLOC_LARGE_RECORD_CAPACITY] = None"
    using assms by (auto simp: find_None_iff large_live_def)
  then show ?thesis by (simp add: KiAllocatorTryFreeLarge_def)
qed

lemma kfree_effect:
  assumes inv: "alloc_inv s0 a s" and x: "(x, n) \<in> live_blocks a"
  shows "\<exists>a' s'. kfree (Some x) a s = Done (a', s') \<and> block_removed s0 x n a a' s'"
proof -
  have ok: "heap_ok s0 a s" using inv by (simp add: alloc_inv_def)
  show ?thesis
  proof (rule live_blockE [OF ok x], goal_cases)
    case (1 c p q i)
    have "UserPointer (gAllocatorLargeRecords a j) \<noteq> x" if "large_live a j" for j
      using small_unaligned [OF ok 1(1,2), of q] large_block(2) [OF ok that] 1(3,4) by (auto simp: used_slots_def)
    then have "KiAllocatorTryFreeLarge x a s = Done (False, a, s)" by (rule not_large)
    then show ?case using KiAllocatorTryFreeSmall_effect [OF inv 1(1-3)] heap_okD(2) [OF ok] 1(4,5) by (auto simp: kfree_def)
  next
    case (2 i)
    then show ?case using KiAllocatorTryFreeLarge_effect [OF inv 2(1)] heap_okD(2) [OF ok] by (auto simp: kfree_def)
  qed
qed

lemma kfree_again:
  assumes inv: "alloc_inv s0 a s" and x: "(x, n) \<in> live_blocks a" and r: "block_removed s0 x n a a' s'"
  shows "kfree (Some x) a' s' = Done (a', s')"
proof -
  have ok: "heap_ok s0 a s" using inv by (simp add: alloc_inv_def)
  have "(x, m) \<notin> live_blocks a'" for m using r pointer_unique [OF ok x, of m] by (auto simp: block_removed_def)
  then have "UserPointer (gAllocatorLargeRecords a' i) \<noteq> x" if "large_live a' i" for i using that by (auto simp: live_blocks_def)
  then have "KiAllocatorTryFreeLarge x a' s' = Done (False, a', s')" by (rule not_large)
  then show ?thesis using r by (simp add: kfree_def KiAllocatorTryFreeSmall_def block_removed_def)
qed

lemma KeAllocatorInit_inv:
  assumes "kva_inv s" "\<not> gAllocatorInitialized a"
  shows "\<exists>a'. KeAllocatorInit a = (EC_SUCCESS, a') \<and> alloc_inv s a' s \<and> live_blocks a' = {} \<and> HeapBytes a' = HeapBytes a"
proof -
  define a' where "a' = a\<lparr>gAllocatorSmallPages := (\<lambda>_. []), gAllocatorLargeRecords := (\<lambda>_. zero_large_record), gAllocatorStats := zero_allocator_stats, gAllocatorInitialized := True\<rparr>"
  have l: "\<not> large_live a' i" for i by (simp add: large_live_def a'_def zero_large_record_def)
  have c: "chain_pages a' = {}" by (simp add: chain_pages_def a'_def)
  have "alloc_inv s a' s" using l c assms(1) by (simp add: alloc_inv_def heap_ok_def stats_ok_def no_empty_page_def backing_blocks_def) (simp add: a'_def zero_allocator_stats_def)
  moreover have "live_blocks a' = {}" using l by (simp add: live_blocks_def) (simp add: a'_def)
  ultimately show ?thesis using assms(2) by (simp add: KeAllocatorInit_def a'_def)
qed

section \<open>The heap as an interface\<close>

text \<open>
  What a client of the heap relies on: the live blocks, one more after a successful allocation, one
  fewer after a release, never overlapping.
\<close>

locale block_heap =
  fixes inv :: "'s \<Rightarrow> bool" and blocks :: "'s \<Rightarrow> (HO_VIRTUAL_ADDRESS \<times> nat) set"
    and malloc :: "u64 \<Rightarrow> 's \<Rightarrow> (HO_VIRTUAL_ADDRESS option \<times> 's) outcome" and free :: "HO_VIRTUAL_ADDRESS \<Rightarrow> 's \<Rightarrow> 's outcome"
  assumes malloc_total: "inv h \<Longrightarrow> \<exists>r h'. malloc sz h = Done (r, h') \<and> inv h'"
    and malloc_none: "inv h \<Longrightarrow> malloc sz h = Done (None, h') \<Longrightarrow> blocks h' = blocks h"
    and malloc_some: "inv h \<Longrightarrow> malloc sz h = Done (Some x, h') \<Longrightarrow> blocks h' = insert (x, unat sz) (blocks h) \<and> (\<forall>n. (x, n) \<notin> blocks h)"
    and free_block: "inv h \<Longrightarrow> (x, n) \<in> blocks h \<Longrightarrow> \<exists>h'. free x h = Done h' \<and> inv h' \<and> blocks h' = blocks h - {(x, n)}"
    and free_twice: "inv h \<Longrightarrow> (x, n) \<in> blocks h \<Longrightarrow> free x h = Done h' \<Longrightarrow> free x h' = Done h'"
    and blocks_apart: "inv h \<Longrightarrow> (x, n) \<in> blocks h \<Longrightarrow> (y, m) \<in> blocks h \<Longrightarrow> (x, n) \<noteq> (y, m) \<Longrightarrow> unat x + n \<le> unat y \<or> unat y + m \<le> unat x"
begin

text \<open>An allocation followed by its release leaves the blocks as they were.\<close>

lemma malloc_free:
  assumes "inv h" "malloc sz h = Done (Some x, h1)"
  shows "\<exists>h2. free x h1 = Done h2 \<and> inv h2 \<and> blocks h2 = blocks h \<and> free x h2 = Done h2"
proof -
  have i: "inv h1" using malloc_total [OF assms(1), of sz] assms(2) by auto
  have b: "blocks h1 = insert (x, unat sz) (blocks h)" "(x, unat sz) \<notin> blocks h" using malloc_some [OF assms] by auto
  then have x: "(x, unat sz) \<in> blocks h1" by simp
  obtain h2 where "free x h1 = Done h2" "inv h2" "blocks h2 = blocks h1 - {(x, unat sz)}" using free_block [OF i x] by blast
  then show ?thesis using free_twice [OF i x] b by auto
qed

lemma malloc_apart:
  assumes "inv h" "malloc sz h = Done (Some x, h1)" "(y, m) \<in> blocks h"
  shows "unat x + unat sz \<le> unat y \<or> unat y + m \<le> unat x"
proof -
  have i: "inv h1" using malloc_total [OF assms(1), of sz] assms(2) by auto
  have b: "blocks h1 = insert (x, unat sz) (blocks h)" "(x, m) \<notin> blocks h" using malloc_some [OF assms(1,2)] by auto
  then have "(x, unat sz) \<noteq> (y, m)" using assms(3) by auto
  then show ?thesis using blocks_apart [OF i, of x "unat sz" y m] b assms(3) by simp
qed

text \<open>Releasing a list of live blocks in any order.\<close>

lemma free_all:
  assumes "inv h" "set xs \<subseteq> blocks h" "distinct xs"
  shows "\<exists>h'. run_all free (map fst xs) h = Done h' \<and> inv h' \<and> blocks h' = blocks h - set xs"
  using assms
proof (induction xs arbitrary: h)
  case (Cons z xs)
  obtain x n where z: "z = (x, n)" by fastforce
  obtain h1 where h1: "free x h = Done h1" "inv h1" "blocks h1 = blocks h - {(x, n)}" using free_block [OF Cons.prems(1), of x n] Cons.prems(2) z by auto
  have "set xs \<subseteq> blocks h1" using Cons.prems(2,3) h1(3) z by auto
  then obtain h' where "run_all free (map fst xs) h1 = Done h'" "inv h'" "blocks h' = blocks h1 - set xs" using Cons.IH [OF h1(2)] Cons.prems(3) by auto
  then show ?case using h1 z by auto
qed simp

end

definition kmalloc_on :: "u64 \<Rightarrow> allocator_globals \<times> 'a kva_globals_scheme \<Rightarrow> (HO_VIRTUAL_ADDRESS option \<times> allocator_globals \<times> 'a kva_globals_scheme) outcome" where
  "kmalloc_on sz h = kmalloc sz (fst h) (snd h)"

definition kfree_on :: "HO_VIRTUAL_ADDRESS \<Rightarrow> allocator_globals \<times> 'a kva_globals_scheme \<Rightarrow> (allocator_globals \<times> 'a kva_globals_scheme) outcome" where
  "kfree_on x h = kfree (Some x) (fst h) (snd h)"

interpretation kmem: block_heap "\<lambda>h. alloc_inv s0 (fst h) (snd h)" "\<lambda>h. live_blocks (fst h)" kmalloc_on kfree_on for s0
proof unfold_locales
  fix h :: "allocator_globals \<times> 'a kva_globals_scheme" and sz
  assume i: "alloc_inv s0 (fst h) (snd h)"
  obtain r a' s' where e: "kmalloc sz (fst h) (snd h) = Done (r, a', s')" "block_added s0 sz False r (fst h) a' s'" using kmalloc_effect(1) [OF i] by blast
  then have on: "kmalloc_on sz h = Done (r, a', s')" by (simp add: kmalloc_on_def)
  then show "\<exists>r h'. kmalloc_on sz h = Done (r, h') \<and> alloc_inv s0 (fst h') (snd h')" using e(2) by (simp add: block_added_def)
  show "live_blocks (fst h') = live_blocks (fst h)" if "kmalloc_on sz h = Done (None, h')" for h'
  proof -
    have "r = None" "h' = (a', s')" using on that by simp_all
    then show ?thesis using e(2) by (simp add: block_added_def)
  qed
  show "live_blocks (fst h') = insert (x, unat sz) (live_blocks (fst h)) \<and> (\<forall>n. (x, n) \<notin> live_blocks (fst h))" if "kmalloc_on sz h = Done (Some x, h')" for x h'
  proof -
    have "r = Some x" "h' = (a', s')" using on that by simp_all
    then show ?thesis using e(2) by (simp add: block_added_def)
  qed
next
  fix h :: "allocator_globals \<times> 'a kva_globals_scheme" and x n
  assume i: "alloc_inv s0 (fst h) (snd h)" and x: "(x, n) \<in> live_blocks (fst h)"
  obtain a' s' where e: "kfree (Some x) (fst h) (snd h) = Done (a', s')" "block_removed s0 x n (fst h) a' s'" using kfree_effect [OF i x] by blast
  show "\<exists>h'. kfree_on x h = Done h' \<and> alloc_inv s0 (fst h') (snd h') \<and> live_blocks (fst h') = live_blocks (fst h) - {(x, n)}"
    using e by (auto simp: kfree_on_def block_removed_def)
  show "kfree_on x h = Done h' \<Longrightarrow> kfree_on x h' = Done h'" for h' using e kfree_again [OF i x e(2)] by (auto simp: kfree_on_def)
next
  fix h :: "allocator_globals \<times> 'a kva_globals_scheme" and x n y m
  assume "alloc_inv s0 (fst h) (snd h)" "(x, n) \<in> live_blocks (fst h)" "(y, m) \<in> live_blocks (fst h)" "(x, n) \<noteq> (y, m)"
  then show "unat x + n \<le> unat y \<or> unat y + m \<le> unat x"
    using live_blocks_apart [of s0 "fst h" "snd h" x n y m] unfolding alloc_inv_def by blast
qed

end
