(* ===== verification/AllocatorDiagnose.thy ===== *)
theory AllocatorDiagnose
  imports AllocatorFree
begin

text \<open>
  What the diagnosis of a heap address reports.
\<close>

section \<open>Diagnosis\<close>

text \<open>What the diagnosis says of an address inside the live block \<open>(x, n)\<close>.\<close>

definition names_block :: "HO_VIRTUAL_ADDRESS \<Rightarrow> nat \<Rightarrow> KE_ALLOCATOR_ADDRESS_INFO \<Rightarrow> bool" where
  "names_block x n info \<longleftrightarrow> LiveAllocation info \<and> AllocationBase info = x \<and> unat (AllocationEndExclusive info) = unat x + n \<and> unat (InfoRequestedSize info) = n"

lemma large_end:
  assumes ok: "heap_ok s0 a s" and i: "large_live a i"
  defines "r \<equiv> gAllocatorLargeRecords a i"
  shows "unat (KiAllocatorEndFromLength (UserPointer r) (LargeRequestedSize r)) = unat (UserPointer r) + unat (LargeRequestedSize r)"
proof -
  have "unat (LargeRequestedSize r) \<le> unat (LargeBackingUsablePages r) * 4096" using heap_okD(5) [OF ok i] by (simp add: record_fits_def r_def)
  then have lt: "unat (UserPointer r) + unat (LargeRequestedSize r) < 2 ^ 64" using large_block(3) [OF ok i] by (simp add: r_def)
  have "unat (NOT (0 :: u64) - UserPointer r) = 2 ^ 64 - 1 - unat (UserPointer r)"
  proof (subst unat_sub_small)
    have "unat (UserPointer r) < 18446744073709551616" using unat_lt_64 [of "UserPointer r"] by simp
    then have "unat (UserPointer r) \<le> 18446744073709551615" by linarith
    then show "unat (UserPointer r) \<le> unat (NOT (0 :: u64))" by (simp add: unsigned_minus_1_eq_mask mask_eq_exp_minus_1)
  qed (simp add: unsigned_minus_1_eq_mask mask_eq_exp_minus_1)
  then have "\<not> LargeRequestedSize r > NOT 0 - UserPointer r" using lt by (simp add: word_less_nat_alt)
  then show ?thesis using lt by (simp add: KiAllocatorEndFromLength_def) (subst unat_add_small, simp_all)
qed

lemma diagnose_large_iff:
  assumes ok: "heap_ok s0 a s" and i: "large_live a i"
  defines "r \<equiv> gAllocatorLargeRecords a i"
  shows "\<not> (v < UserPointer r \<or> v \<ge> KiAllocatorEndFromLength (UserPointer r) (LargeRequestedSize r)) \<longleftrightarrow>
    unat (UserPointer r) \<le> unat v \<and> unat v < unat (UserPointer r) + unat (LargeRequestedSize r)"
  using large_end [OF ok i] by (auto simp: r_def word_less_nat_alt word_le_nat_alt)

lemma live_inside:
  assumes ok: "heap_ok s0 a s" and x: "(x, n) \<in> live_blocks a" and v: "unat x \<le> unat v" "unat v < unat x + n"
    and y: "(y, m) \<in> live_blocks a" "unat y \<le> unat v" "unat v < unat y + m"
  shows "y = x \<and> m = n"
  using live_blocks_apart [OF ok x y(1)] v y(2,3) by fastforce

lemma diagnose_large:
  assumes ok: "heap_ok s0 a s" and i: "large_live a i" and v: "unat (UserPointer (gAllocatorLargeRecords a i)) \<le> unat v"
    "unat v < unat (UserPointer (gAllocatorLargeRecords a i)) + unat (LargeRequestedSize (gAllocatorLargeRecords a i))"
  shows "names_block (UserPointer (gAllocatorLargeRecords a i)) (unat (LargeRequestedSize (gAllocatorLargeRecords a i))) (KiAllocatorDiagnoseLargeLocked v a info)"
proof -
  define P where "P = (\<lambda>i. let r = gAllocatorLargeRecords a i in LargeInUse r \<and>
    \<not> (v < UserPointer r \<or> v \<ge> KiAllocatorEndFromLength (UserPointer r) (LargeRequestedSize r)))"
  have Pi: "P i" using diagnose_large_iff [OF ok i, of v] v i unfolding P_def Let_def large_live_def by blast
  have "find P [0..<KE_ALLOC_LARGE_RECORD_CAPACITY] \<noteq> None" using Pi i by (auto simp: find_None_iff large_live_def)
  then obtain j where j: "find P [0..<KE_ALLOC_LARGE_RECORD_CAPACITY] = Some j" by blast
  then have jl: "large_live a j" "P j" by (simp_all add: find_upt_Some large_live_def P_def Let_def)
  have jv: "unat (UserPointer (gAllocatorLargeRecords a j)) \<le> unat v" "unat v < unat (UserPointer (gAllocatorLargeRecords a j)) + unat (LargeRequestedSize (gAllocatorLargeRecords a j))"
    using diagnose_large_iff [OF ok jl(1), of v] jl(2) unfolding P_def Let_def by blast+
  have mem: "(UserPointer (gAllocatorLargeRecords a k), unat (LargeRequestedSize (gAllocatorLargeRecords a k))) \<in> live_blocks a" if "large_live a k" for k
    using that by (auto simp: live_blocks_def)
  have "j = i" using live_inside [OF ok mem [OF i] v mem [OF jl(1)] jv] heap_okD(7) [OF ok i jl(1)] by simp
  then show ?thesis unfolding KiAllocatorDiagnoseLargeLocked_def P_def [symmetric] using j large_end [OF ok i] by (simp add: Let_def names_block_def)
qed

lemma diagnose_not_large:
  assumes ok: "heap_ok s0 a s" and "\<And>i. large_live a i \<Longrightarrow> \<not> (unat (UserPointer (gAllocatorLargeRecords a i)) \<le> unat v \<and>
      unat v < unat (UserPointer (gAllocatorLargeRecords a i)) + unat (LargeRequestedSize (gAllocatorLargeRecords a i)))"
  shows "KiAllocatorDiagnoseLargeLocked v a info = info"
proof -
  have "find (\<lambda>i. let r = gAllocatorLargeRecords a i in LargeInUse r \<and>
    \<not> (v < UserPointer r \<or> v \<ge> KiAllocatorEndFromLength (UserPointer r) (LargeRequestedSize r))) [0..<KE_ALLOC_LARGE_RECORD_CAPACITY] = None"
    unfolding find_None_iff Let_def using assms(2) diagnose_large_iff [OF ok, of _ v] by (auto simp: large_live_def)
  then show ?thesis by (simp add: KiAllocatorDiagnoseLargeLocked_def)
qed

text \<open>The slot that an address on a page belongs to.\<close>

lemma slot_of_address:
  fixes v p q :: HO_VIRTUAL_ADDRESS
  assumes c: "c < KE_ALLOC_SMALL_CLASS_COUNT" and p: "unat p + 4096 < 2 ^ 64" "unat p mod 4096 = 0"
    and i: "i < nslots c" "q = p + 56 + word_of_nat (i * stride c)" "i * stride c + stride c \<le> 4040"
    and h: "unat (str :: u32) = stride c" "unat (per :: u32) = nslots c"
    and t: "t < class_size c" "stride c = 24 + class_size c" "unat v = unat p + 80 + i * stride c + t"
  shows "HO_ALIGN_DOWN v PAGE_4KB = p" "(v - p - 56 - 24) div ucast str = word_of_nat i" "\<not> (word_of_nat i :: u64) \<ge> ucast per"
    "p + 56 + word_of_nat i * ucast str = q"
proof -
  obtain k where k: "unat p = 4096 * k" using p(2) by (metis dvd_def mod_0_imp_dvd)
  have "unat v div 4096 = k" using t k i(3) by simp
  then show "HO_ALIGN_DOWN v PAGE_4KB = p" using align_down_page [of v] k by (intro unat_eqI) simp
  have "v = word_of_nat (unat p + 80 + i * stride c + t)" unfolding t(3) [symmetric] by simp
  then have off: "v - p - 56 - 24 = word_of_nat (i * stride c + t)" by simp
  have w: "unat (word_of_nat (i * stride c + t) :: u64) = i * stride c + t" using i(3) t by (simp add: unsigned_of_nat take_bit_nat_eq_self del: of_nat_mult of_nat_add)
  have "unat ((word_of_nat (i * stride c + t) :: u64) div ucast str) = (i * stride c + t) div stride c"
    by (simp add: unat_div w h(1) del: of_nat_mult of_nat_add)
  also have "\<dots> = i" using t by simp
  finally show "(v - p - 56 - 24) div ucast str = word_of_nat i"
    unfolding off using i(1) class_consts(5) [OF c] by (intro unat_eqI) (simp add: unsigned_of_nat take_bit_nat_eq_self)
  show "\<not> (word_of_nat i :: u64) \<ge> ucast per"
    using i(1) class_consts(5) [OF c] h(2) by (simp add: word_le_nat_alt unsigned_of_nat take_bit_nat_eq_self)
  have "(ucast str :: u64) = word_of_nat (stride c)" unfolding h(1) [symmetric] by (rule unat_eqI) (simp add: unsigned_of_nat take_bit_nat_eq_self)
  then show "p + 56 + word_of_nat i * ucast str = q" by (simp add: i(2))
qed

lemma diagnose_small:
  assumes ok: "heap_ok s0 a s" and c: "c < KE_ALLOC_SMALL_CLASS_COUNT" "p \<in> set (gAllocatorSmallPages a c)" and q: "q \<in> used_slots a c p"
    and v: "unat (q + 24) \<le> unat v" "unat v < unat (q + 24) + unat (SlotRequestedSize (SmallSlotAt a q))"
  shows "names_block (q + 24) (unat (SlotRequestedSize (SmallSlotAt a q))) (KiAllocatorDiagnoseSmallLocked v a s info)"
proof -
  let ?n = "SlotRequestedSize (SmallSlotAt a q)"
  have pc: "p \<in> chain_pages a" using c by (auto simp: chain_pages_iff)
  note b = chain_block [OF ok pc] and cc = class_consts [OF c(1)]
  have n: "0 < unat ?n" "unat ?n \<le> class_size c" using page_okD(6) [OF heap_okD(4) [OF ok c] q] by simp_all
  show ?thesis
  proof (rule used_slotE [OF ok c q], goal_cases)
    case (1 i rng)
    define t where "t = unat v - unat (q + 24)"
    have t: "unat v = unat p + 80 + i * stride c + t" "t < unat ?n" using v 1(3) by (simp_all add: t_def)
    have ts: "t < class_size c" "stride c = 24 + class_size c" using t(2) n by (simp_all add: stride_def)
    note w = page_window [OF b(2), of v] and slot = slot_of_address [OF c(1) b(2,3) 1(1,2,4,12,13) ts t(1)]
    have cw: "unat (ucast (gAllocatorClassSizes ! c) :: u32) = class_size c" using cc(2) by (simp add: class_size_def unsigned_ucast_eq take_bit_nat_eq_self)
    have small: "unat (q + 24) + class_size c < 2 ^ 64" using b(2) 1(3,4) ts cc(1) by simp
    have e1: "unat (q + 24 + ucast (ucast (gAllocatorClassSizes ! c) :: u32)) = unat (q + 24) + class_size c"
      by (subst unat_add_small) (use small cw cc(2) in simp_all)
    have e2: "unat (q + 24 + ucast ?n) = unat (q + 24) + unat ?n" by (subst unat_add_small) (use small n cc(2) in simp_all)
    have g: "\<not> v < q + 24" "\<not> v \<ge> q + 24 + ucast (ucast (gAllocatorClassSizes ! c) :: u32)" "\<not> v \<ge> q + 24 + ucast ?n"
      using v n e1 e2 by (simp_all add: word_less_nat_alt word_le_nat_alt)
    have rs: "?n \<noteq> 0" "\<not> ?n > ucast (gAllocatorClassSizes ! c)" using n cw by (auto simp: word_less_nat_alt)
    show ?case
      unfolding KiAllocatorDiagnoseSmallLocked_def Let_def slot(1) 1(6) sum.case page_constants(2) [OF c(1)]
      unfolding sizeof_KE_ALLOC_SMALL_SLOT_def PAGE_4KB_def slot(2,4) 1(11)
      using 1 c w t ts slot(3) g rs e2 by (simp add: names_block_def)
  qed
qed

lemma KeAllocatorDiagnoseAddress_live:
  assumes ok: "heap_ok s0 a s" and x: "(x, n) \<in> live_blocks a" and v: "unat x \<le> unat v" "unat v < unat x + n"
  shows "\<exists>info. KeAllocatorDiagnoseAddress v a s = (EC_SUCCESS, info) \<and> names_block x n info"
proof (rule live_blockE [OF ok x], goal_cases)
  case (1 c p q i)
  have "\<not> (unat (UserPointer (gAllocatorLargeRecords a j)) \<le> unat v \<and> unat v < unat (UserPointer (gAllocatorLargeRecords a j)) + unat (LargeRequestedSize (gAllocatorLargeRecords a j)))"
    if j: "large_live a j" for j
  proof
    assume "unat (UserPointer (gAllocatorLargeRecords a j)) \<le> unat v \<and> unat v < unat (UserPointer (gAllocatorLargeRecords a j)) + unat (LargeRequestedSize (gAllocatorLargeRecords a j))"
    moreover have "(UserPointer (gAllocatorLargeRecords a j), unat (LargeRequestedSize (gAllocatorLargeRecords a j))) \<in> live_blocks a" using j by (auto simp: live_blocks_def)
    ultimately have "UserPointer (gAllocatorLargeRecords a j) = x" using live_inside [OF ok x v] by blast
    then show False using small_unaligned [OF ok 1(1,2), of q] large_block(2) [OF ok j] 1(3,4) by (simp add: used_slots_def)
  qed
  then have "KiAllocatorDiagnoseLargeLocked v a unknown_address_info = unknown_address_info" by (rule diagnose_not_large [OF ok])
  then show ?case using diagnose_small [OF ok 1(1-3), of v unknown_address_info] v heap_okD(2) [OF ok] 1(4,5)
    by (simp add: KeAllocatorDiagnoseAddress_def unknown_address_info_def)
next
  case (2 i)
  then have "names_block x n (KiAllocatorDiagnoseLargeLocked v a unknown_address_info)" using diagnose_large [OF ok 2(1)] v by simp
  then show ?case using heap_okD(2) [OF ok] by (simp add: KeAllocatorDiagnoseAddress_def Let_def names_block_def)
qed

end
