(* ===== verification/MemSamples.thy ===== *)
theory MemSamples
  imports KvaLive AllocatorDiagnose
begin

text \<open>
  Concrete states of the memory subsystem: the state before and after \<open>KeKvaInit\<close> on a machine
  with eight free frames, a pool on it, and an empty kernel heap.
\<close>

definition sample_boot :: kva_globals where
  "sample_boot = \<lparr>gPmmDevice = \<lparr>Sink = gBitmapSink,
       SinkContext = \<lparr>Bitmap = (\<lambda>_. 0), ManagedBasePhys = 0x100000, TotalManagedPages = 8, FreePages = 8, AllocatedPages = 0, ReservedPages = 0\<rparr>,
       PmmInitialized = True\<rparr>,
     PhysMem = (\<lambda>_. 0), ActiveCr3 = 0x1000, TlbInvalidations = [],
     gKernelAddressSpace = \<lparr>RootPageTablePhys = 0x1000, ImportedRootInfo = \<lparr>PtiPtr = 0x1000, PtiSize = 0x1000\<rparr>, Regions = [], RegionArrayPhys = 0, RegionArrayBytes = 0,
       RegionCount = 0, BootOwnedRegionCount = 0, PinnedRegionCount = 0, SpaceInitialized = True\<rparr>,
     gKvaArenas = (\<lambda>_. \<lparr>ArenaBaseAddress = 0, ArenaSizeBytes = 0, ArenaPageCount = 0, PageStates = (\<lambda>_. 0)\<rparr>),
     gKvaRanges = free_record, gFixmapSlotGenerations = (\<lambda>_. 0), gKvaRangeGenerationCounter = 1, gKvaInitialized = False\<rparr>"
definition sample_kva :: kva_globals where
  "sample_kva = sample_boot\<lparr>
     gKvaArenas := (\<lambda>t. case t of
       KE_KVA_ARENA_STACK \<Rightarrow> \<lparr>ArenaBaseAddress = KE_KVA_STACK_ARENA_BASE, ArenaSizeBytes = KE_KVA_STACK_ARENA_SIZE,
         ArenaPageCount = KE_KVA_STACK_ARENA_PAGES, PageStates = (\<lambda>_. 0)\<rparr>
     | KE_KVA_ARENA_FIXMAP \<Rightarrow> \<lparr>ArenaBaseAddress = KE_KVA_FIXMAP_ARENA_BASE, ArenaSizeBytes = KE_KVA_FIXMAP_ARENA_SIZE,
         ArenaPageCount = KE_KVA_FIXMAP_ARENA_PAGES, PageStates = (\<lambda>_. 0)\<rparr>
     | KE_KVA_ARENA_HEAP \<Rightarrow> \<lparr>ArenaBaseAddress = KE_KVA_HEAP_ARENA_BASE, ArenaSizeBytes = KE_KVA_HEAP_ARENA_SIZE,
         ArenaPageCount = KE_KVA_HEAP_ARENA_PAGES, PageStates = (\<lambda>_. 0)\<rparr>
     | KE_KVA_ARENA_MAX \<Rightarrow> gKvaArenas sample_boot KE_KVA_ARENA_MAX),
     gKvaInitialized := True\<rparr>"

lemma sample_boot_KeKvaInit: "KeKvaInit sample_boot = (EC_SUCCESS, sample_kva)"
proof -
  have q: "require_unmapped va n (gKernelAddressSpace sample_boot) s = EC_SUCCESS"
    if "HO_IS_ALIGNED va PAGE_4KB" "PhysMem s = (\<lambda>_. 0)" for va n and s :: kva_globals
    using that
  proof (induction n arbitrary: va)
    case (Suc n)
    have "KePtQueryPage (Some (gKernelAddressSpace sample_boot)) va s = Inr zero_mapping"
      using Suc.prems by (subst KePtQueryPage_mapping) (simp_all add: sample_boot_def page_mapping_def leaf_def leaf_at_def link_def leafval_def node_steps del: One_nat_def)
    moreover have "HO_IS_ALIGNED (va + PAGE_4KB) PAGE_4KB" using Suc.prems(1) unfolding is_aligned_4KB_iff by (simp add: PAGE_4KB_def unat_word_ariths mod_mod_cancel mod_add_left_eq mod_add_eq)
    ultimately show ?case using Suc by (simp add: zero_mapping_def)
  qed simp
  have al: "HO_IS_ALIGNED KE_KVA_STACK_ARENA_BASE PAGE_4KB" "HO_IS_ALIGNED KE_KVA_FIXMAP_ARENA_BASE PAGE_4KB" "HO_IS_ALIGNED KE_KVA_HEAP_ARENA_BASE PAGE_4KB"
    by (simp_all add: arena_bases is_aligned_4KB_iff)
  have b: "\<not> gKvaInitialized sample_boot" "PhysMem sample_boot = (\<lambda>_. 0)" "SpaceInitialized (gKernelAddressSpace sample_boot)"
    "Regions (gKernelAddressSpace sample_boot) = []" "gFixmapSlotGenerations sample_boot = (\<lambda>_. 0)" "gKvaRangeGenerationCounter sample_boot = 1"
    "gKvaRanges sample_boot = free_record" by (simp_all add: sample_boot_def)
  have u: "s\<lparr>gKvaRanges := x, gKvaArenas := a, gKvaRanges := free_record, gFixmapSlotGenerations := \<lambda>_. 0, gKvaRangeGenerationCounter := 1, gKvaInitialized := True\<rparr> =
      s\<lparr>gKvaArenas := a, gKvaInitialized := True\<rparr>"
    if "gFixmapSlotGenerations s = (\<lambda>_. 0)" "gKvaRangeGenerationCounter s = 1" "gKvaRanges s = free_record" for s :: kva_globals and x a
    using that by (cases s) simp
  show ?thesis unfolding KeKvaInit_def Let_def sample_kva_def
    by (simp add: KiKvaValidateArena_def kva_arenas_def KeGetKernelAddressSpace_def KiKvaArenaOverlapsImportedRegions_def q al b u [OF b(5-7)])
qed

lemma zero_pg: "pg \<lparr>Bitmap = \<lambda>_. 0, ManagedBasePhys = b, TotalManagedPages = n, FreePages = f, AllocatedPages = a, ReservedPages = r\<rparr> k = PMM_PAGE_FREE"
  by (simp add: pg_def BitmapGetState_def page_state_of_bits_def Let_def)

lemma sample_boot_ready: "pmm_ready sample_boot"
proof -
  have "count_below n (\<lambda>k. PMM_PAGE_FREE) x = (if x = PMM_PAGE_FREE then n else 0)" for n x by (simp add: count_below_def)
  then have "pmm_inv (SinkContext (gPmmDevice sample_boot))" unfolding pmm_inv_def by (simp add: sample_boot_def zero_pg npages_def zero_pg [THEN ext])
  then show ?thesis by (simp add: pmm_ready_def sample_boot_def)
qed

lemma sample_node: "node (\<lambda>_. 0) r d va = (if d = 0 then Some r else None)"
  by (cases d) (auto simp: link_def Option.bind_eq_None_conv)

lemma sample_boot_frames: "frames sample_boot q = (if 0x100000 \<le> q \<and> (unat q - 0x100000) mod 4096 = 0 \<and> (unat q - 0x100000) div 4096 < 8 then Some PMM_PAGE_FREE else None)"
  by (simp add: frames_def sample_boot_def ctx_frames_def frame_index_def Let_def zero_pg npages_def)

lemma sample_boot_pt: "pt_ok sample_boot (kroot sample_boot)"
proof -
  have m: "PhysMem sample_boot = (\<lambda>_. 0)" "kroot sample_boot = 0x1000" by (simp_all add: sample_boot_def kroot_def)
  show ?thesis unfolding pt_ok_def pt_tree_def m sample_node
    using sample_boot_ready by (auto simp: sample_boot_frames is_aligned_4KB_iff same_path_def)
qed

lemma sample_boot_masked: "frames sample_boot q \<noteq> None \<Longrightarrow> q AND KE_PT_PHYS_ADDR_MASK = q"
proof -
  assume that: "frames sample_boot q \<noteq> None"
  have "0x100000 \<le> unat q" "(unat q - 0x100000) mod 4096 = 0" "(unat q - 0x100000) div 4096 < 8"
    using that by (auto simp: sample_boot_frames word_le_nat_alt split: if_splits)
  then obtain k where "unat q = 0x100000 + 4096 * k" "k < 8" by (metis dvd_def le_add_diff_inverse mod_0_imp_dvd nonzero_mult_div_cancel_left zero_neq_numeral)
  then have "q \<in> (\<lambda>k. 0x100000 + 4096 * word_of_nat k) ` {0..<8}" by (intro image_eqI [of _ _ k]) (auto simp: unat_eqI unsigned_of_nat unat_word_ariths take_bit_nat_eq_self)
  then have "q \<in> {0x100000, 0x101000, 0x102000, 0x103000, 0x104000, 0x105000, 0x106000, 0x107000}" by (auto simp: atLeast0_lessThan_Suc eval_nat_numeral)
  then show ?thesis by (auto simp: KE_PT_PHYS_ADDR_MASK_def)
qed

lemma sample_kva_inv: "kva_inv sample_kva" "gens_ok sample_kva"
  using KeKvaInit_effect [OF sample_boot_KeKvaInit sample_boot_pt sample_boot_masked] by blast+

lemma sample_kva_frames: "frames sample_kva = frames sample_boot" "PhysMem sample_kva = (\<lambda>_. 0)" "kroot sample_kva = 0x1000"
  by (simp_all add: frames_def sample_kva_def sample_boot_def kroot_def)

lemma sample_free_frames: "8 \<le> free_frames sample_kva"
proof -
  have i: "inj_on (\<lambda>k. 0x100000 + 4096 * word_of_nat k :: u64) {0..<8}"
    by (rule inj_onI) (auto dest!: arg_cong [of _ _ unat] simp: unat_word_ariths unsigned_of_nat take_bit_nat_eq_self)
  have "(\<lambda>k. 0x100000 + 4096 * word_of_nat k :: u64) ` {0..<8} \<subseteq> {q. frames sample_kva q = Some PMM_PAGE_FREE}"
    by (auto simp: sample_kva_frames sample_boot_frames word_le_nat_alt unat_word_ariths unsigned_of_nat take_bit_nat_eq_self)
  from card_mono [OF _ this] show ?thesis by (simp add: free_frames_def card_image [OF i])
qed

lemma sample_kva_cr3: "KiReadCr3 sample_kva = 0x1000"
  by (simp add: KiReadCr3_def sample_kva_def sample_boot_def PAGE_MASK_def PAGE_4KB_def)

lemma sample_resources:
  "gKvaRangeGenerationCounter sample_kva \<noteq> 0" "0 < KE_KVA_MAX_RANGES" "\<not> live sample_kva 0"
  "page_state KE_KVA_ARENA_HEAP i sample_kva = KE_KVA_PAGE_STATE_FREE" "pml4_ok (PhysMem sample_kva) (kroot sample_kva)" "8 \<le> free_frames sample_kva"
  using sample_free_frames
  by (simp_all add: sample_kva_def sample_boot_def live_def free_record_def KE_KVA_MAX_RANGES_def page_state_def KE_KVA_PAGE_STATE_FREE_def pml4_ok_def)

lemma sample_heap: "\<exists>base s'. KeHeapAllocPages 1 sample_kva = Done (Inr base, s')"
  using sample_resources(6) by (intro KeHeapAllocPages_succeeds [OF sample_kva_inv(1) _ sample_resources(1-3), of _ 0]) (simp_all add: sample_resources(4,5))

lemma sample_range: "\<exists>rng s'. KeKvaAllocRange KE_KVA_ARENA_STACK 4 1 1 True sample_kva = (Inr rng, s')"
proof -
  have c: "KE_KVA_STACK_ARENA_PAGES = 8192" by (simp add: arena_sizes)
  have u: "first_unused_record sample_kva = Some 0" using sample_resources(2,3) by (auto simp: first_unused_record_def find_upt_Some live_def)
  have "first_free_run (gKvaArenas sample_kva KE_KVA_ARENA_STACK) 6 = Some 0"
    unfolding first_free_run_def find_upt_Some by (simp add: sample_kva_def KE_KVA_PAGE_STATE_FREE_def)
  moreover have "gKvaInitialized sample_kva" "gKvaRangeGenerationCounter sample_kva = 1" "ArenaPageCount (gKvaArenas sample_kva KE_KVA_ARENA_STACK) = 8192"
    by (simp_all add: sample_kva_def c sample_boot_def)
  ultimately show ?thesis using u by (simp add: KeKvaAllocRange_def KiKvaArenaState_def KiKvaNextRangeGeneration_def KiKvaFillRangeFromRecord_def Let_def)
qed

lemma sample_fixmap: "\<exists>token va s'. KeFixmapAcquire 0x200000 PTE_WRITABLE sample_kva = Done (Inr (token, va), s')"
proof -
  have u: "first_unused_record sample_kva = Some 0" using sample_resources(2,3) by (auto simp: first_unused_record_def find_upt_Some live_def)
  have pc: "ArenaPageCount (gKvaArenas sample_kva KE_KVA_ARENA_FIXMAP) = 64" "gFixmapSlotGenerations sample_kva = (\<lambda>_. 0)" "gKvaInitialized sample_kva"
    "PageStates (gKvaArenas sample_kva KE_KVA_ARENA_FIXMAP) = (\<lambda>_. 0)" "ArenaBaseAddress (gKvaArenas sample_kva KE_KVA_ARENA_FIXMAP) = 0xFFFF8FFFFFFC0000"
    "SpaceInitialized (gKernelAddressSpace sample_kva)"
    by (simp_all add: sample_kva_def sample_boot_def arena_sizes arena_bases)
  have up: "[0..<64] = 0 # [1..<64]" by (simp add: upt_conv_Cons)
  have ok: "pt_ok sample_kva (RootPageTablePhys (gKernelAddressSpace sample_kva))" using sample_kva_inv(1) by (simp add: kva_inv_def maps_ok_def kroot_def)
  have m: "\<exists>s'. KePtMapPage (Some (gKernelAddressSpace sample_kva)) 0xFFFF8FFFFFFC0000 0x200000 PTE_WRITABLE s = Done (EC_SUCCESS, s')"
    if v: "PhysMem s = PhysMem sample_kva" "gPmmDevice s = gPmmDevice sample_kva" for s :: kva_globals
  proof -
    have "pt_ok s (RootPageTablePhys (gKernelAddressSpace sample_kva))" "free_frames s = free_frames sample_kva"
      using ok v by (simp_all add: pt_ok_def pmm_ready_def frames_def free_frames_def)
    moreover have "leaf (\<lambda>_. 0) (RootPageTablePhys (gKernelAddressSpace sample_kva)) 0xFFFF8FFFFFFC0000 = None"
      by (simp add: leaf_def leaf_at_def sample_node)
    ultimately show ?thesis
      using KePtMapPage_succeeds [OF _ pc(6) refl, of s "0xFFFF8FFFFFFC0000" "0x200000" PTE_WRITABLE] v sample_resources(5,6) sample_kva_frames(2)
      by (auto simp: is_aligned_4KB_iff kroot_def)
  qed
  have bind: "\<exists>t' v' s'. bind_outcome f (\<lambda>(status, s). if status \<noteq> EC_SUCCESS then X status s else Done (Inr (t, v), s)) = Done (Inr (t', v'), s')"
    if "\<exists>s'. f = Done (EC_SUCCESS, s')" for f and t v :: u64 and X :: "ho_status \<Rightarrow> kva_globals \<Rightarrow> ((u64 \<times> u64) result \<times> kva_globals) outcome"
    using that by auto
  show ?thesis using u pc
    by (simp add: KeFixmapAcquire_def is_aligned_4KB_iff up KE_KVA_PAGE_STATE_FREE_def KiKvaFixmapSlotRetired_def arena_sizes KiNextFixmapSlotGeneration_def
      KiKvaFillRangeFromRecord_def KiKvaArenaState_def KiEncodeTempMapToken_def Let_def KE_TEMP_MAP_TOKEN_GENERATION_MASK_def KE_TEMP_MAP_TOKEN_SLOT_BITS_def
      set_record_def set_page_states_def KeGetKernelAddressSpace_def KiKvaRecordUsableBase_def
      del: upt_rec_numeral) (rule bind, rule m, simp_all)
qed

definition sample_pool :: KE_POOL where
  "sample_pool = \<lparr>PoolMagic = 0, PoolFreeList = [], PoolPageList = [], SlotSize = 0, PoolSlotsPerPage = 0,
     PoolTotalSlots = 0, PoolUsedSlots = 0, PoolPeakUsedSlots = 0, PoolFailedGrows = 0, PoolPageCount = 0, PoolName = None\<rparr>"

lemma sample_pool_init: "\<exists>pool s'. KePoolInit sample_pool 64 10 None sample_kva = Done (EC_SUCCESS, pool, s')"
proof -
  obtain base s' where h: "KeHeapAllocPages 1 sample_kva = Done (Inr base, s')" using sample_heap by blast
  have c: "HO_ALIGN_UP 64 8 = (64 :: u64)" "HO_ALIGN_UP sizeof_KE_POOL_PAGE_NODE 64 = (64 :: u64)" "sizeof_KE_POOL_FREE_NODE = 8"
    "(4032 :: u64) div 64 = 63" "(72 :: u32) div 63 = 1"
    by (simp_all add: HO_ALIGN_UP_def sizeof_KE_POOL_PAGE_NODE_def sizeof_KE_POOL_FREE_NODE_def)
  have l: "linked_slots b 64 63 \<noteq> []" for b by (simp add: linked_slots_def)
  have "\<exists>page pool. KiPoolPrepareOnePage 64 sample_kva = Done (Inr page, s') \<and> KiPoolPublishPreparedPage p page = Done pool" for p
    using l by (simp add: KiPoolPrepareOnePage_def h Let_def c PAGE_4KB_def KiPoolPublishPreparedPage_def HO_KASSERT_def)
  then obtain page where g: "KiPoolPrepareOnePage 64 sample_kva = Done (Inr page, s')" "\<exists>pool. KiPoolPublishPreparedPage p page = Done pool" for p
    by (metis Inr_inject outcome.inject(1) prod.inject)
  have "\<exists>pool. init_pages 1 64 p sample_kva = Done (EC_SUCCESS, pool, s')" for p using g(2) [of p] by (auto simp: g(1))
  then show ?thesis by (simp add: KePoolInit_def Let_def c PAGE_4KB_def) (metis bind_outcome.simps(1) case_prod_conv)
qed

section \<open>A kernel heap\<close>

definition sample_alloc :: allocator_globals where
  "sample_alloc = \<lparr>gAllocatorInitialized = True, gAllocatorStats = zero_allocator_stats, gAllocatorSmallPages = (\<lambda>_. []), gAllocatorLargeRecords = (\<lambda>_. zero_large_record),
     SmallPageAt = (\<lambda>_. \<lparr>PageMagic = 0, PageClassIndex = 0, PageSlotStride = 0, PageSlotsPerPage = 0, PageFreeCount = 0, PageBackingUsableBase = 0,
       PageBackingUsablePages = 0, PageFreeList = []\<rparr>),
     SmallSlotAt = (\<lambda>_. \<lparr>OwnerPage = 0, SlotRequestedSize = 0, SlotState = 0\<rparr>), HeapBytes = (\<lambda>_. 0)\<rparr>"

lemma sample_alloc_init: "KeAllocatorInit (sample_alloc\<lparr>gAllocatorInitialized := False\<rparr>) = (EC_SUCCESS, sample_alloc)"
  by (simp add: KeAllocatorInit_def sample_alloc_def)

lemma sample_alloc_inv: "alloc_inv sample_kva sample_alloc sample_kva" "live_blocks sample_alloc = {}"
  using KeAllocatorInit_inv [OF sample_kva_inv(1), of "sample_alloc\<lparr>gAllocatorInitialized := False\<rparr>"] unfolding sample_alloc_init by simp_all

lemma sample_kmalloc: "\<exists>x a' s'. kmalloc 100 sample_alloc sample_kva = Done (Some x, a', s')" "\<exists>x a' s'. kzalloc 100 sample_alloc sample_kva = Done (Some x, a', s')"
proof -
  obtain b s1 where h: "KeHeapAllocPages 1 sample_kva = Done (Inr b, s1)" using sample_heap by blast
  show "\<exists>x a' s'. kmalloc 100 sample_alloc sample_kva = Done (Some x, a', s')" "\<exists>x a' s'. kzalloc 100 sample_alloc sample_kva = Done (Some x, a', s')"
    by (rule small_succeeds [OF sample_alloc_inv(1) _ _ h]; simp)+
qed

end
