(* ===== verification/Irql.thy ===== *)
theory Irql
  imports HoPrelude
begin

text \<open>
  Execution levels and the uniprocessor critical section: \<^verbatim>\<open>ke/irql.c\<close>, \<^verbatim>\<open>ke/critical_section.c\<close>
  and the interrupt-flag helpers of \<^verbatim>\<open>arch/arch.c\<close>. A routine that fails an assertion halts the
  machine. Guards are the caller's locals, so their addresses are never null here and a guard is
  passed and returned by value.
\<close>

section \<open>State\<close>

datatype KE_IRQL = KE_IRQL_PASSIVE_LEVEL | KE_IRQL_DISPATCH_LEVEL

record KE_IRQL_STATE =
  CurrentLevel :: KE_IRQL
  DispatchDepth :: u32
  InterruptDepth :: u32

record KE_IRQL_GUARD =
  GuardActive :: bool
  Transitioned :: bool
  SavedInterruptState :: bool
  PreviousLevel :: KE_IRQL
  TargetLevel :: KE_IRQL
  GuardEnterDepth :: u32

record KE_CRITICAL_SECTION =
  IrqlGuard :: KE_IRQL_GUARD
  EnterDepth :: u32
  SectionActive :: bool

text \<open>
  The processor: the IRQL state \<open>gCurrentIrqlState\<close> points to (that of the running thread), the
  maskable-interrupt flag, and the global section depth.
\<close>

record irql_cpu =
  currentIrqlState :: KE_IRQL_STATE
  interruptFlag :: bool
  gCriticalSectionDepth :: u32

definition zero_guard :: KE_IRQL_GUARD where
  "zero_guard = \<lparr>GuardActive = False, Transitioned = False, SavedInterruptState = False,
     PreviousLevel = KE_IRQL_PASSIVE_LEVEL, TargetLevel = KE_IRQL_PASSIVE_LEVEL, GuardEnterDepth = 0\<rparr>"

definition zero_section :: KE_CRITICAL_SECTION where
  "zero_section = \<lparr>IrqlGuard = zero_guard, EnterDepth = 0, SectionActive = False\<rparr>"

section \<open>IRQL operations\<close>

definition ArchDisableInterrupts :: "irql_cpu \<Rightarrow> bool \<times> irql_cpu" where
  "ArchDisableInterrupts c = (interruptFlag c, c\<lparr>interruptFlag := False\<rparr>)"

definition ArchRestoreInterruptState :: "bool \<Rightarrow> irql_cpu \<Rightarrow> irql_cpu" where
  "ArchRestoreInterruptState enabled c = c\<lparr>interruptFlag := enabled\<rparr>"

definition KiAssertIrqlState :: "KE_IRQL_STATE \<Rightarrow> 'a outcome \<Rightarrow> 'a outcome" where
  "KiAssertIrqlState st k =
     HO_KASSERT (InterruptDepth st \<le> DispatchDepth st) EC_INVALID_STATE
       (if DispatchDepth st = 0
        then HO_KASSERT (CurrentLevel st = KE_IRQL_PASSIVE_LEVEL) EC_INVALID_STATE k
        else HO_KASSERT (CurrentLevel st = KE_IRQL_DISPATCH_LEVEL) EC_INVALID_STATE k)"

definition KeInitializeIrqlState :: KE_IRQL_STATE where
  "KeInitializeIrqlState = \<lparr>CurrentLevel = KE_IRQL_PASSIVE_LEVEL, DispatchDepth = 0, InterruptDepth = 0\<rparr>"

definition KeSetCurrentIrqlState :: "KE_IRQL_STATE \<Rightarrow> irql_cpu \<Rightarrow> irql_cpu outcome" where
  "KeSetCurrentIrqlState st c = KiAssertIrqlState st (Done (c\<lparr>currentIrqlState := st\<rparr>))"

definition KeGetCurrentIrql :: "irql_cpu \<Rightarrow> KE_IRQL outcome" where
  "KeGetCurrentIrql c = KiAssertIrqlState (currentIrqlState c) (Done (CurrentLevel (currentIrqlState c)))"

definition KeIsBlockingAllowed :: "irql_cpu \<Rightarrow> bool outcome" where
  "KeIsBlockingAllowed c = bind_outcome (KeGetCurrentIrql c) (\<lambda>l. Done (l = KE_IRQL_PASSIVE_LEVEL))"

definition KeAcquireIrqlGuard ::
    "KE_IRQL_GUARD \<Rightarrow> KE_IRQL \<Rightarrow> irql_cpu \<Rightarrow> (KE_IRQL_GUARD \<times> irql_cpu) outcome" where
  "KeAcquireIrqlGuard guard targetLevel c =
     (let st = currentIrqlState c in
      HO_KASSERT (\<not> GuardActive guard) EC_INVALID_STATE
      (HO_KASSERT (targetLevel = KE_IRQL_DISPATCH_LEVEL) EC_NOT_SUPPORTED
      (HO_KASSERT (DispatchDepth st \<noteq> 0xFFFFFFFF) EC_OUT_OF_RESOURCE
      (KiAssertIrqlState st
        (let guard = guard\<lparr>SavedInterruptState := False, PreviousLevel := CurrentLevel st,
               TargetLevel := targetLevel, Transitioned := False\<rparr>;
             (guard, c) =
               (if CurrentLevel st = KE_IRQL_PASSIVE_LEVEL
                then case ArchDisableInterrupts c of
                  (saved, c) \<Rightarrow> (guard\<lparr>SavedInterruptState := saved, Transitioned := True\<rparr>, c)
                else (guard, c));
             st = st\<lparr>DispatchDepth := DispatchDepth st + 1, CurrentLevel := KE_IRQL_DISPATCH_LEVEL\<rparr>;
             guard = guard\<lparr>GuardEnterDepth := DispatchDepth st, GuardActive := True\<rparr>
         in KiAssertIrqlState st (Done (guard, c\<lparr>currentIrqlState := st\<rparr>)))))))"

definition KeReleaseIrqlGuard ::
    "KE_IRQL_GUARD \<Rightarrow> irql_cpu \<Rightarrow> (KE_IRQL_GUARD \<times> irql_cpu) outcome" where
  "KeReleaseIrqlGuard guard c =
     (let st = currentIrqlState c in
      HO_KASSERT (GuardActive guard) EC_INVALID_STATE
      (HO_KASSERT (TargetLevel guard = KE_IRQL_DISPATCH_LEVEL) EC_NOT_SUPPORTED
      (KiAssertIrqlState st
      (HO_KASSERT (DispatchDepth st \<noteq> 0) EC_INVALID_STATE
      (HO_KASSERT (GuardEnterDepth guard = DispatchDepth st) EC_INVALID_STATE
        (let depth = DispatchDepth st - 1;
             st = st\<lparr>DispatchDepth := depth,
                     CurrentLevel := (if depth = 0 then PreviousLevel guard else KE_IRQL_DISPATCH_LEVEL)\<rparr>;
             c = c\<lparr>currentIrqlState := st\<rparr>;
             guard' = guard\<lparr>GuardActive := False, GuardEnterDepth := 0,
                            TargetLevel := KE_IRQL_PASSIVE_LEVEL, Transitioned := False\<rparr>
         in if Transitioned guard
            then HO_KASSERT (DispatchDepth st = 0) EC_INVALID_STATE
                   (KiAssertIrqlState st
                     (Done (guard', ArchRestoreInterruptState (SavedInterruptState guard) c)))
            else KiAssertIrqlState st (Done (guard', c))))))))"

definition KeEnterInterruptContext :: "irql_cpu \<Rightarrow> irql_cpu outcome" where
  "KeEnterInterruptContext c =
     (let st = currentIrqlState c in
      KiAssertIrqlState st
      (HO_KASSERT (DispatchDepth st \<noteq> 0xFFFFFFFF) EC_OUT_OF_RESOURCE
      (HO_KASSERT (InterruptDepth st \<noteq> 0xFFFFFFFF) EC_OUT_OF_RESOURCE
        (let st = st\<lparr>DispatchDepth := DispatchDepth st + 1, InterruptDepth := InterruptDepth st + 1,
                     CurrentLevel := KE_IRQL_DISPATCH_LEVEL\<rparr>
         in KiAssertIrqlState st (Done (c\<lparr>currentIrqlState := st\<rparr>))))))"

definition KeLeaveInterruptContext :: "irql_cpu \<Rightarrow> irql_cpu outcome" where
  "KeLeaveInterruptContext c =
     (let st = currentIrqlState c in
      KiAssertIrqlState st
      (HO_KASSERT (InterruptDepth st \<noteq> 0) EC_INVALID_STATE
      (HO_KASSERT (DispatchDepth st \<noteq> 0) EC_INVALID_STATE
      (HO_KASSERT (DispatchDepth st = InterruptDepth st) EC_INVALID_STATE
        (let depth = DispatchDepth st - 1;
             st = st\<lparr>InterruptDepth := InterruptDepth st - 1, DispatchDepth := depth,
                     CurrentLevel := (if depth = 0 then KE_IRQL_PASSIVE_LEVEL else KE_IRQL_DISPATCH_LEVEL)\<rparr>
         in KiAssertIrqlState st (Done (c\<lparr>currentIrqlState := st\<rparr>)))))))"

section \<open>Critical sections\<close>

definition KeEnterCriticalSection ::
    "KE_CRITICAL_SECTION \<Rightarrow> irql_cpu \<Rightarrow> (KE_CRITICAL_SECTION \<times> irql_cpu) outcome" where
  "KeEnterCriticalSection guard c =
     HO_KASSERT (\<not> SectionActive guard) EC_INVALID_STATE
     (HO_KASSERT (gCriticalSectionDepth c \<noteq> 0xFFFFFFFF) EC_OUT_OF_RESOURCE
       (bind_outcome (KeAcquireIrqlGuard (IrqlGuard guard) KE_IRQL_DISPATCH_LEVEL c)
         (\<lambda>(ig, c). let c = c\<lparr>gCriticalSectionDepth := gCriticalSectionDepth c + 1\<rparr>
            in Done (guard\<lparr>IrqlGuard := ig, EnterDepth := gCriticalSectionDepth c, SectionActive := True\<rparr>, c))))"

definition KeLeaveCriticalSection ::
    "KE_CRITICAL_SECTION \<Rightarrow> irql_cpu \<Rightarrow> (KE_CRITICAL_SECTION \<times> irql_cpu) outcome" where
  "KeLeaveCriticalSection guard c =
     HO_KASSERT (SectionActive guard) EC_INVALID_STATE
     (HO_KASSERT (gCriticalSectionDepth c \<noteq> 0) EC_INVALID_STATE
     (HO_KASSERT (EnterDepth guard = gCriticalSectionDepth c) EC_INVALID_STATE
       (let c = c\<lparr>gCriticalSectionDepth := gCriticalSectionDepth c - 1\<rparr>;
            guard = guard\<lparr>SectionActive := False, EnterDepth := 0\<rparr>
        in bind_outcome (KeReleaseIrqlGuard (IrqlGuard guard) c)
             (\<lambda>(ig, c). Done (guard\<lparr>IrqlGuard := ig\<rparr>, c)))))"

definition KeGetCriticalSectionDepth :: "irql_cpu \<Rightarrow> u32" where
  "KeGetCriticalSectionDepth c = gCriticalSectionDepth c"

section \<open>Well-formed levels\<close>

definition irql_ok :: "KE_IRQL_STATE \<Rightarrow> bool" where
  "irql_ok st \<longleftrightarrow> InterruptDepth st \<le> DispatchDepth st \<and>
     (CurrentLevel st = KE_IRQL_PASSIVE_LEVEL \<longleftrightarrow> DispatchDepth st = 0)"

lemma KE_IRQL_not_passive [simp]: "l \<noteq> KE_IRQL_PASSIVE_LEVEL \<longleftrightarrow> l = KE_IRQL_DISPATCH_LEVEL"
  by (cases l) auto

lemma KiAssertIrqlState_iff: "KiAssertIrqlState st k = (if irql_ok st then k else Halt EC_INVALID_STATE)"
  by (cases "CurrentLevel st") (auto simp: KiAssertIrqlState_def irql_ok_def HO_KASSERT_def)

lemma word_succ_facts:
  fixes d :: u32
  assumes "d \<noteq> 0xFFFFFFFF"
  shows "d + 1 \<noteq> 0" "i \<le> d \<Longrightarrow> i \<le> d + 1" "unat (d + 1) = unat d + 1"
proof -
  have "unat d \<noteq> unat (0xFFFFFFFF :: u32)" using assms by (metis unat_eqI)
  moreover have "unat d < 2 ^ 32" using unsigned_less [of d, where 'a = nat] by simp
  ultimately have d: "unat d + 1 < 2 ^ 32" by simp
  then show u: "unat (d + 1) = unat d + 1" by (simp add: unat_add_small)
  show "d + 1 \<noteq> 0" using u by (metis Suc_eq_plus1 nat.distinct(1) unat_0)
  show "i \<le> d \<Longrightarrow> i \<le> d + 1" using u by (simp add: word_le_nat_alt)
qed

text \<open>What acquiring a guard yields, on a well-formed processor with room for one more level.\<close>

lemma KeAcquireIrqlGuard_Done:
  assumes "irql_ok (currentIrqlState c)" "DispatchDepth (currentIrqlState c) \<noteq> 0xFFFFFFFF" "\<not> GuardActive g"
  shows "KeAcquireIrqlGuard g KE_IRQL_DISPATCH_LEVEL c =
    (let st = currentIrqlState c; top = (CurrentLevel st = KE_IRQL_PASSIVE_LEVEL) in
     Done (g\<lparr>GuardActive := True, Transitioned := top,
             SavedInterruptState := (top \<and> interruptFlag c),
             PreviousLevel := CurrentLevel st, TargetLevel := KE_IRQL_DISPATCH_LEVEL,
             GuardEnterDepth := DispatchDepth st + 1\<rparr>,
           c\<lparr>currentIrqlState := st\<lparr>CurrentLevel := KE_IRQL_DISPATCH_LEVEL, DispatchDepth := DispatchDepth st + 1\<rparr>,
             interruptFlag := (\<not> top \<and> interruptFlag c)\<rparr>))"
  using assms word_succ_facts [OF assms(2)]
  by (auto simp: KeAcquireIrqlGuard_def KiAssertIrqlState_iff ArchDisableInterrupts_def Let_def irql_ok_def)

lemma KeReleaseIrqlGuard_after_acquire:
  assumes ok: "irql_ok (currentIrqlState c)" and room: "DispatchDepth (currentIrqlState c) \<noteq> 0xFFFFFFFF"
    and idle: "\<not> GuardActive g"
    and acq: "KeAcquireIrqlGuard g KE_IRQL_DISPATCH_LEVEL c = Done (g1, c1)"
  shows "\<exists>g2. \<not> GuardActive g2 \<and> KeReleaseIrqlGuard g1 c1 = Done (g2, c)"
  using acq ok word_succ_facts [OF room] unfolding KeAcquireIrqlGuard_Done [OF ok room idle]
  by (cases "CurrentLevel (currentIrqlState c)")
    (auto simp: KeReleaseIrqlGuard_def KiAssertIrqlState_iff irql_ok_def ArchRestoreInterruptState_def Let_def)

lemma KeReleaseIrqlGuard_wrong_order:
  assumes "GuardActive g" "TargetLevel g = KE_IRQL_DISPATCH_LEVEL"
    and "GuardEnterDepth g \<noteq> DispatchDepth (currentIrqlState c)"
  shows "KeReleaseIrqlGuard g c = Halt EC_INVALID_STATE"
  using assms by (simp add: KeReleaseIrqlGuard_def KiAssertIrqlState_iff Let_def HO_KASSERT_def)

section \<open>Nested scopes\<close>

text \<open>A scope entered \<open>n\<close> times around a body and left in the reverse order.\<close>

fun nested_scopes ::
    "('c \<Rightarrow> ('g \<times> 'c) outcome) \<Rightarrow> ('g \<Rightarrow> 'c \<Rightarrow> ('g \<times> 'c) outcome) \<Rightarrow> nat \<Rightarrow>
     ('c \<Rightarrow> 'c outcome) \<Rightarrow> 'c \<Rightarrow> 'c outcome" where
  "nested_scopes enter leave 0 body c = body c"
| "nested_scopes enter leave (Suc n) body c =
     bind_outcome (enter c) (\<lambda>(g, c).
     bind_outcome (nested_scopes enter leave n body c) (\<lambda>c.
     bind_outcome (leave g c) (\<lambda>(g, c). Done c)))"

locale scoped_guard =
  fixes enter :: "'c \<Rightarrow> ('g \<times> 'c) outcome"
    and leave :: "'g \<Rightarrow> 'c \<Rightarrow> ('g \<times> 'c) outcome"
    and ok :: "'c \<Rightarrow> bool"
    and raised :: "'c \<Rightarrow> bool"
    and room :: "'c \<Rightarrow> nat"
  assumes enter_ok: "ok c \<Longrightarrow> 0 < room c \<Longrightarrow>
      \<exists>g c'. enter c = Done (g, c') \<and> ok c' \<and> raised c' \<and> room c' + 1 = room c"
    and leave_enter: "ok c \<Longrightarrow> 0 < room c \<Longrightarrow> enter c = Done (g, c') \<Longrightarrow> \<exists>g'. leave g c' = Done (g', c)"
begin

lemma nested_restores:
  assumes "ok c" "n \<le> room c" "0 < n"
    and body: "\<And>c'. ok c' \<Longrightarrow> raised c' \<Longrightarrow> room c' + n = room c \<Longrightarrow> body c' = Done c'"
  shows "nested_scopes enter leave n body c = Done c"
  using assms
proof (induction n arbitrary: c)
  case (Suc n)
  obtain g c1 where e: "enter c = Done (g, c1)" "ok c1" "raised c1" "room c1 + 1 = room c"
    using enter_ok [of c] Suc.prems by auto
  obtain g' where l: "leave g c1 = Done (g', c)"
    using leave_enter [OF Suc.prems(1) _ e(1)] Suc.prems(2) by auto
  have "nested_scopes enter leave n body c1 = Done c1"
  proof (cases n)
    case 0
    then show ?thesis using Suc.prems(4) e by simp
  next
    case (Suc m)
    show ?thesis
      by (rule Suc.IH) (use e Suc Suc.prems Suc.prems(4) in auto)
  qed
  then show ?case using e l by simp
qed simp

end

definition cpu_ok :: "irql_cpu \<Rightarrow> bool" where
  "cpu_ok c \<longleftrightarrow> irql_ok (currentIrqlState c) \<and>
     (CurrentLevel (currentIrqlState c) = KE_IRQL_DISPATCH_LEVEL \<longrightarrow> \<not> interruptFlag c)"

definition dispatch_level :: "irql_cpu \<Rightarrow> bool" where
  "dispatch_level c \<longleftrightarrow> CurrentLevel (currentIrqlState c) = KE_IRQL_DISPATCH_LEVEL \<and> \<not> interruptFlag c"

definition irql_room :: "irql_cpu \<Rightarrow> nat" where
  "irql_room c = 0xFFFFFFFF - unat (DispatchDepth (currentIrqlState c))"

definition section_room :: "irql_cpu \<Rightarrow> nat" where
  "section_room c = 0xFFFFFFFF - unat (gCriticalSectionDepth c)"

lemma irql_room_pos: "0 < irql_room c \<longleftrightarrow> DispatchDepth (currentIrqlState c) \<noteq> 0xFFFFFFFF"
proof -
  have "unat (DispatchDepth (currentIrqlState c)) < 2 ^ 32"
    using unsigned_less [of "DispatchDepth (currentIrqlState c)", where 'a = nat] by simp
  moreover have "unat (DispatchDepth (currentIrqlState c)) = unat (0xFFFFFFFF :: u32) \<longleftrightarrow>
      DispatchDepth (currentIrqlState c) = 0xFFFFFFFF"
    by (metis unat_eqI)
  ultimately show ?thesis by (simp add: irql_room_def) linarith
qed

interpretation irql: scoped_guard "KeAcquireIrqlGuard zero_guard KE_IRQL_DISPATCH_LEVEL" KeReleaseIrqlGuard
  cpu_ok dispatch_level irql_room
proof unfold_locales
  fix c assume ok: "cpu_ok c" and room: "0 < irql_room c"
  have ne: "DispatchDepth (currentIrqlState c) \<noteq> 0xFFFFFFFF" using room irql_room_pos by blast
  have ia: "\<not> GuardActive zero_guard" by (simp add: zero_guard_def)
  have io: "irql_ok (currentIrqlState c)" using ok by (simp add: cpu_ok_def)
  show "\<exists>g c'. KeAcquireIrqlGuard zero_guard KE_IRQL_DISPATCH_LEVEL c = Done (g, c') \<and>
      cpu_ok c' \<and> dispatch_level c' \<and> irql_room c' + 1 = irql_room c"
    unfolding KeAcquireIrqlGuard_Done [OF io ne ia]
    using ok room word_succ_facts [OF ne]
    by (cases "CurrentLevel (currentIrqlState c)")
      (auto simp: cpu_ok_def dispatch_level_def irql_room_def irql_ok_def Let_def)
  show "\<exists>g'. KeReleaseIrqlGuard g c' = Done (g', c)"
    if "KeAcquireIrqlGuard zero_guard KE_IRQL_DISPATCH_LEVEL c = Done (g, c')" for g c'
    using KeReleaseIrqlGuard_after_acquire [OF io ne ia that] by blast
qed

definition cs_room :: "irql_cpu \<Rightarrow> nat" where
  "cs_room c = min (irql_room c) (section_room c)"

lemma section_room_pos: "0 < section_room c \<longleftrightarrow> gCriticalSectionDepth c \<noteq> 0xFFFFFFFF"
proof -
  have "unat (gCriticalSectionDepth c) < 2 ^ 32"
    using unsigned_less [of "gCriticalSectionDepth c", where 'a = nat] by simp
  moreover have "unat (gCriticalSectionDepth c) = unat (0xFFFFFFFF :: u32) \<longleftrightarrow>
      gCriticalSectionDepth c = 0xFFFFFFFF"
    by (metis unat_eqI)
  ultimately show ?thesis by (simp add: section_room_def) linarith
qed

lemma KeEnterCriticalSection_Done:
  assumes "\<not> SectionActive g" "gCriticalSectionDepth c \<noteq> 0xFFFFFFFF"
    and "KeAcquireIrqlGuard (IrqlGuard g) KE_IRQL_DISPATCH_LEVEL c = Done (ig, c1)"
  shows "KeEnterCriticalSection g c =
    Done (g\<lparr>IrqlGuard := ig, EnterDepth := gCriticalSectionDepth c1 + 1, SectionActive := True\<rparr>,
          c1\<lparr>gCriticalSectionDepth := gCriticalSectionDepth c1 + 1\<rparr>)"
  using assms by (simp add: KeEnterCriticalSection_def)

lemma KeReleaseIrqlGuard_depth:
  "KeReleaseIrqlGuard g (c\<lparr>gCriticalSectionDepth := d\<rparr>) =
    bind_outcome (KeReleaseIrqlGuard g c) (\<lambda>(g, c). Done (g, c\<lparr>gCriticalSectionDepth := d\<rparr>))"
  by (simp add: KeReleaseIrqlGuard_def KiAssertIrqlState_iff HO_KASSERT_def ArchRestoreInterruptState_def Let_def)

lemma KeAcquireIrqlGuard_section_depth:
  "KeAcquireIrqlGuard g l c = Done (g', c') \<Longrightarrow> gCriticalSectionDepth c' = gCriticalSectionDepth c"
  by (auto simp: KeAcquireIrqlGuard_def KiAssertIrqlState_iff HO_KASSERT_def ArchDisableInterrupts_def Let_def
      split: if_splits)

interpretation csect: scoped_guard "KeEnterCriticalSection zero_section" KeLeaveCriticalSection
  cpu_ok dispatch_level cs_room
proof unfold_locales
  fix c assume ok: "cpu_ok c" and room: "0 < cs_room c"
  then have ir: "0 < irql_room c" and sr: "0 < section_room c" by (auto simp: cs_room_def)
  have ds: "gCriticalSectionDepth c \<noteq> 0xFFFFFFFF" using sr section_room_pos by blast
  have z: "\<not> SectionActive zero_section" "IrqlGuard zero_section = zero_guard" by (simp_all add: zero_section_def)
  obtain ig c1 where acq: "KeAcquireIrqlGuard zero_guard KE_IRQL_DISPATCH_LEVEL c = Done (ig, c1)"
    and c1: "cpu_ok c1" "dispatch_level c1" "irql_room c1 + 1 = irql_room c"
    using irql.enter_ok [OF ok ir] by blast
  have d1: "gCriticalSectionDepth c1 = gCriticalSectionDepth c"
    using KeAcquireIrqlGuard_section_depth [OF acq] .
  have en: "KeEnterCriticalSection zero_section c =
    Done (zero_section\<lparr>IrqlGuard := ig, EnterDepth := gCriticalSectionDepth c1 + 1, SectionActive := True\<rparr>,
          c1\<lparr>gCriticalSectionDepth := gCriticalSectionDepth c1 + 1\<rparr>)"
    by (rule KeEnterCriticalSection_Done) (simp_all add: z ds acq)
  show "\<exists>g c'. KeEnterCriticalSection zero_section c = Done (g, c') \<and>
      cpu_ok c' \<and> dispatch_level c' \<and> cs_room c' + 1 = cs_room c"
    unfolding en using c1 d1 sr word_succ_facts(3) [OF ds]
    by (auto simp: cpu_ok_def dispatch_level_def cs_room_def irql_room_def section_room_def)
  show "\<exists>g'. KeLeaveCriticalSection g c' = Done (g', c)"
    if "KeEnterCriticalSection zero_section c = Done (g, c')" for g c'
  proof -
    obtain ig2 where "KeReleaseIrqlGuard ig c1 = Done (ig2, c)" using irql.leave_enter [OF ok ir acq] by blast
    then show ?thesis
      using that word_succ_facts(1) [OF ds] d1 unfolding en
      by (auto simp: KeLeaveCriticalSection_def KeReleaseIrqlGuard_depth)
  qed
qed

section \<open>Interrupt context\<close>

lemma interrupt_context_roundtrip:
  assumes "irql_ok (currentIrqlState c)" "DispatchDepth (currentIrqlState c) = InterruptDepth (currentIrqlState c)"
    and "DispatchDepth (currentIrqlState c) \<noteq> 0xFFFFFFFF"
  shows "bind_outcome (KeEnterInterruptContext c) KeLeaveInterruptContext = Done c"
  using assms word_succ_facts [OF assms(3)]
  by (cases "CurrentLevel (currentIrqlState c)")
    (auto simp: KeEnterInterruptContext_def KeLeaveInterruptContext_def KiAssertIrqlState_iff irql_ok_def Let_def)

lemma interrupt_leave_with_guard_halts:
  assumes ok: "irql_ok (currentIrqlState c)" and idle: "\<not> GuardActive g"
    and deep: "DispatchDepth (currentIrqlState c) = InterruptDepth (currentIrqlState c)"
    and acq: "KeAcquireIrqlGuard g KE_IRQL_DISPATCH_LEVEL c = Done (g1, c1)"
  shows "KeLeaveInterruptContext c1 = Halt EC_INVALID_STATE"
proof -
  have room: "DispatchDepth (currentIrqlState c) \<noteq> 0xFFFFFFFF"
    using acq idle by (auto simp: KeAcquireIrqlGuard_def HO_KASSERT_def Let_def split: if_splits)
  show ?thesis
    using acq deep word_succ_facts [OF room] unfolding KeAcquireIrqlGuard_Done [OF ok room idle]
    by (auto simp: KeLeaveInterruptContext_def KiAssertIrqlState_iff HO_KASSERT_def Let_def)
qed

end
