(* ===== verification/ExObject.thy ===== *)
theory ExObject
  imports HoPrelude
begin

text \<open>
  Executive object headers and their reference counts: \<^verbatim>\<open>ex/object.c\<close>, the release and
  retain routines of \<^verbatim>\<open>ex/process.c\<close> and \<^verbatim>\<open>ex/thread.c\<close>, and the object layout of
  \<^verbatim>\<open>ex/runtime_internal.h\<close>. Kernel-heap objects live in stores indexed by their address; \<open>kfree\<close>
  removes the entry, and an access to a removed entry is a \<open>Fault\<close>.
\<close>

section \<open>Data\<close>

datatype EX_OBJECT_TYPE =
    EX_OBJECT_TYPE_INVALID
  | EX_OBJECT_TYPE_PROCESS
  | EX_OBJECT_TYPE_THREAD
  | EX_OBJECT_TYPE_CONSOLE

text \<open>The three destroy routines the kernel installs in object headers.\<close>

datatype destroy_routine = DestroyStdoutService | DestroyProcess | DestroyThread

record EX_OBJECT_HEADER =
  ObjType :: EX_OBJECT_TYPE
  ReferenceCount :: u32
  ObjFlags :: u32
  DestroyRoutine :: "destroy_routine option"

type_synonym EX_HANDLE = u32
type_synonym EX_HANDLE_RIGHTS = u32
type_synonym proc_ptr = u64
type_synonym thread_ptr = u64
type_synonym kthread_ptr = u64
type_synonym kevent_ptr = u64

text \<open>
  A pointer to an object header: headers are only embedded at the start of a process, at the
  start of a thread, or in the standard-output service of a process.
\<close>

datatype obj_ref = ProcessHeader proc_ptr | ThreadHeader thread_ptr | StdoutHeader proc_ptr

record EX_HANDLE_SLOT =
  SlotObject :: "obj_ref option"
  Rights :: EX_HANDLE_RIGHTS
  Generation :: u32

datatype EX_PROCESS_STATE = EX_PROCESS_STATE_CREATED | EX_PROCESS_STATE_READY | EX_PROCESS_STATE_TERMINATED

datatype EX_PROCESS_TERMINATION_REASON =
    EX_PROCESS_TERMINATION_REASON_NONE
  | EX_PROCESS_TERMINATION_REASON_EXIT
  | EX_PROCESS_TERMINATION_REASON_KILL
  | EX_PROCESS_TERMINATION_REASON_FAULT

record EX_STDOUT_SERVICE =
  ServiceHeader :: EX_OBJECT_HEADER
  Owner :: "proc_ptr option"

record EX_PROCESS =
  ProcHeader :: EX_OBJECT_HEADER
  SelfHandle :: EX_HANDLE
  StdoutHandle :: EX_HANDLE
  WaitHandle :: EX_HANDLE
  ProcessId :: u32
  ParentProcessId :: u32
  MainThreadId :: u32
  ProcState :: EX_PROCESS_STATE
  ExitStatus :: u64
  TerminationReason :: EX_PROCESS_TERMINATION_REASON
  KillRequested :: bool
  CompletionRetained :: bool
  CompletionSignaled :: bool
  Foreground :: bool
  RestoreForegroundOwnerThreadId :: u32
  ProgramId :: u32
  CompletionEvent :: kevent_ptr
  StdoutService :: EX_STDOUT_SERVICE
  HandleTable :: "EX_HANDLE_SLOT list"

record EX_THREAD =
  ThreadHdr :: EX_OBJECT_HEADER
  KernelThread :: "kthread_ptr option"
  ThreadProcess :: "proc_ptr option"
  ThreadSelfHandle :: EX_HANDLE
  ThreadId :: u32
  ThreadCompletionSignaled :: bool
  ThreadCompletionEvent :: kevent_ptr

text \<open>
  The state of the executive: the process and thread objects that are allocated and the two
  publication tables.
\<close>

record EX_RUNTIME_PROCESS_TABLE_ENTRY =
  ProcActive :: bool
  EntryProcess :: "proc_ptr option"

record EX_RUNTIME_THREAD_TABLE_ENTRY =
  ThreadActive :: bool
  EntryThread :: "thread_ptr option"

record ex_state =
  Processes :: "proc_ptr \<rightharpoonup> EX_PROCESS"
  Threads :: "thread_ptr \<rightharpoonup> EX_THREAD"
  gExRuntimeProcessTable :: "EX_RUNTIME_PROCESS_TABLE_ENTRY list"
  gExRuntimeThreadTable :: "EX_RUNTIME_THREAD_TABLE_ENTRY list"

definition EX_HANDLE_INVALID :: EX_HANDLE where "EX_HANDLE_INVALID = 0"

section \<open>Header access\<close>

fun get_header :: "ex_state \<Rightarrow> obj_ref \<Rightarrow> EX_OBJECT_HEADER option" where
  "get_header s (ProcessHeader p) = map_option ProcHeader (Processes s p)"
| "get_header s (ThreadHeader t) = map_option ThreadHdr (Threads s t)"
| "get_header s (StdoutHeader p) = map_option (\<lambda>pr. ServiceHeader (StdoutService pr)) (Processes s p)"

definition set_process :: "proc_ptr \<Rightarrow> EX_PROCESS \<Rightarrow> ex_state \<Rightarrow> ex_state" where
  "set_process p pr s = s\<lparr>Processes := (Processes s)(p \<mapsto> pr)\<rparr>"

definition set_thread :: "thread_ptr \<Rightarrow> EX_THREAD \<Rightarrow> ex_state \<Rightarrow> ex_state" where
  "set_thread t th s = s\<lparr>Threads := (Threads s)(t \<mapsto> th)\<rparr>"

fun put_header :: "obj_ref \<Rightarrow> EX_OBJECT_HEADER \<Rightarrow> ex_state \<Rightarrow> ex_state" where
  "put_header (ProcessHeader p) h s =
    (case Processes s p of None \<Rightarrow> s | Some pr \<Rightarrow> set_process p (pr\<lparr>ProcHeader := h\<rparr>) s)"
| "put_header (ThreadHeader t) h s =
    (case Threads s t of None \<Rightarrow> s | Some th \<Rightarrow> set_thread t (th\<lparr>ThreadHdr := h\<rparr>) s)"
| "put_header (StdoutHeader p) h s =
    (case Processes s p of None \<Rightarrow> s
     | Some pr \<Rightarrow> set_process p (pr\<lparr>StdoutService := (StdoutService pr)\<lparr>ServiceHeader := h\<rparr>\<rparr>) s)"

section \<open>Reference counting (ex/object.c)\<close>

fun ExObjectIsValidType :: "EX_OBJECT_TYPE \<Rightarrow> bool" where
  "ExObjectIsValidType EX_OBJECT_TYPE_PROCESS = True"
| "ExObjectIsValidType EX_OBJECT_TYPE_THREAD = True"
| "ExObjectIsValidType EX_OBJECT_TYPE_CONSOLE = True"
| "ExObjectIsValidType EX_OBJECT_TYPE_INVALID = False"

definition ExObjectInitializeHeader ::
  "EX_OBJECT_TYPE \<Rightarrow> u32 \<Rightarrow> destroy_routine option \<Rightarrow> EX_OBJECT_HEADER" where
  "ExObjectInitializeHeader type flags destroyRoutine =
    \<lparr>ObjType = type, ReferenceCount = 1, ObjFlags = flags, DestroyRoutine = destroyRoutine\<rparr>"

definition ExObjectRetain :: "obj_ref option \<Rightarrow> EX_OBJECT_TYPE \<Rightarrow> ex_state \<Rightarrow> (ho_status \<times> ex_state) outcome" where
  "ExObjectRetain header expectedType s =
    (case header of
       None \<Rightarrow> Done (EC_ILLEGAL_ARGUMENT, s)
     | Some r \<Rightarrow> deref (get_header s r) (\<lambda>h.
         if \<not> ExObjectIsValidType expectedType \<or> ObjType h \<noteq> expectedType \<or> ReferenceCount h = 0
         then Done (EC_INVALID_STATE, s)
         else Done (EC_SUCCESS, put_header r (h\<lparr>ReferenceCount := ReferenceCount h + 1\<rparr>) s)))"

text \<open>
  \<open>ExObjectRelease\<close> calls the destroy routine stored in the header when the count reaches zero.
  The routine pointer is a value of \<open>destroy_routine\<close>, and \<open>run\<close> is the code it points to.
  The result carries \<open>*remainingReferences\<close>, which is written on every path that gets past the
  argument checks.
\<close>

definition ExObjectRelease ::
  "(destroy_routine \<Rightarrow> obj_ref \<Rightarrow> ex_state \<Rightarrow> (ho_status \<times> ex_state) outcome) \<Rightarrow>
   obj_ref option \<Rightarrow> EX_OBJECT_TYPE \<Rightarrow> u32 \<Rightarrow> ex_state \<Rightarrow> (ho_status \<times> u32 \<times> ex_state) outcome" where
  "ExObjectRelease run header expectedType remaining s =
    (case header of
       None \<Rightarrow> Done (EC_ILLEGAL_ARGUMENT, remaining, s)
     | Some r \<Rightarrow> deref (get_header s r) (\<lambda>h.
         if \<not> ExObjectIsValidType expectedType \<or> ObjType h \<noteq> expectedType \<or> ReferenceCount h = 0
         then Done (EC_INVALID_STATE, remaining, s)
         else
           let n = ReferenceCount h - 1;
               s1 = put_header r (h\<lparr>ReferenceCount := n\<rparr>) s
           in case DestroyRoutine h of
                Some d \<Rightarrow> if n = 0 then bind_outcome (run d r s1) (\<lambda>(st, s2). Done (st, n, s2))
                           else Done (EC_SUCCESS, n, s1)
              | None \<Rightarrow> Done (EC_SUCCESS, n, s1)))"

section \<open>Standard-output service\<close>

definition KiDestroyStdoutServiceObject :: "obj_ref option \<Rightarrow> ex_state \<Rightarrow> (ho_status \<times> ex_state) outcome" where
  "KiDestroyStdoutServiceObject objectHeader s =
    (case objectHeader of
       None \<Rightarrow> Done (EC_ILLEGAL_ARGUMENT, s)
     | Some r \<Rightarrow> deref (get_header s r) (\<lambda>h.
         if ObjType h \<noteq> EX_OBJECT_TYPE_CONSOLE then Done (EC_ILLEGAL_ARGUMENT, s) else Done (EC_SUCCESS, s)))"

fun run_stdout :: "destroy_routine \<Rightarrow> obj_ref \<Rightarrow> ex_state \<Rightarrow> (ho_status \<times> ex_state) outcome" where
  "run_stdout DestroyStdoutService r s = KiDestroyStdoutServiceObject (Some r) s"
| "run_stdout DestroyProcess r s = Fault"
| "run_stdout DestroyThread r s = Fault"

definition ExRuntimeInitializeStdoutServiceObject :: "proc_ptr \<Rightarrow> EX_PROCESS \<Rightarrow> EX_PROCESS" where
  "ExRuntimeInitializeStdoutServiceObject p process =
    process\<lparr>StdoutService :=
      \<lparr>ServiceHeader = ExObjectInitializeHeader EX_OBJECT_TYPE_CONSOLE 0 (Some DestroyStdoutService),
       Owner = Some p\<rparr>\<rparr>"

definition ExRuntimeReleaseStdoutServiceOwner :: "proc_ptr option \<Rightarrow> ex_state \<Rightarrow> (ho_status \<times> ex_state) outcome" where
  "ExRuntimeReleaseStdoutServiceOwner process s =
    (case process of
       None \<Rightarrow> Done (EC_ILLEGAL_ARGUMENT, s)
     | Some p \<Rightarrow>
         bind_outcome (ExObjectRelease run_stdout (Some (StdoutHeader p)) EX_OBJECT_TYPE_CONSOLE 0 s)
           (\<lambda>(status, remainingReferences, s).
             if status \<noteq> EC_SUCCESS then Done (status, s)
             else Done (if remainingReferences = 0 then EC_SUCCESS else EC_INVALID_STATE, s)))"

section \<open>Processes (ex/process.c)\<close>

definition kfree_process :: "proc_ptr \<Rightarrow> ex_state \<Rightarrow> ex_state" where
  "kfree_process p s = s\<lparr>Processes := (Processes s)(p := None)\<rparr>"

definition KiDestroyProcessObject :: "obj_ref option \<Rightarrow> ex_state \<Rightarrow> (ho_status \<times> ex_state) outcome" where
  "KiDestroyProcessObject objectHeader s =
    (case objectHeader of
       None \<Rightarrow> Done (EC_ILLEGAL_ARGUMENT, s)
     | Some r \<Rightarrow> deref (get_header s r) (\<lambda>h.
         if ObjType h \<noteq> EX_OBJECT_TYPE_PROCESS then Done (EC_ILLEGAL_ARGUMENT, s)
         else case r of
           ProcessHeader p \<Rightarrow>
             bind_outcome (ExRuntimeReleaseStdoutServiceOwner (Some p) s) (\<lambda>(status, s).
               if status \<noteq> EC_SUCCESS then Done (status, s) else Done (EC_SUCCESS, kfree_process p s))
         | _ \<Rightarrow> Fault))"

fun run_process :: "destroy_routine \<Rightarrow> obj_ref \<Rightarrow> ex_state \<Rightarrow> (ho_status \<times> ex_state) outcome" where
  "run_process DestroyProcess r s = KiDestroyProcessObject (Some r) s"
| "run_process DestroyStdoutService r s = KiDestroyStdoutServiceObject (Some r) s"
| "run_process DestroyThread r s = Fault"

definition drop_remaining :: "(ho_status \<times> u32 \<times> ex_state) outcome \<Rightarrow> (ho_status \<times> ex_state) outcome" where
  "drop_remaining m = bind_outcome m (\<lambda>(status, _, s). Done (status, s))"

definition ExRuntimeRetainProcess :: "proc_ptr option \<Rightarrow> ex_state \<Rightarrow> (proc_ptr option \<times> ex_state) outcome" where
  "ExRuntimeRetainProcess process s =
    (case process of
       None \<Rightarrow> Done (None, s)
     | Some p \<Rightarrow> bind_outcome (ExObjectRetain (Some (ProcessHeader p)) EX_OBJECT_TYPE_PROCESS s)
         (\<lambda>(status, s). if status \<noteq> EC_SUCCESS then Done (None, s) else Done (Some p, s)))"

definition ExRuntimeReleaseProcess :: "proc_ptr option \<Rightarrow> ex_state \<Rightarrow> (ho_status \<times> ex_state) outcome" where
  "ExRuntimeReleaseProcess process s =
    (case process of
       None \<Rightarrow> Done (EC_ILLEGAL_ARGUMENT, s)
     | Some p \<Rightarrow> drop_remaining
         (ExObjectRelease run_process (Some (ProcessHeader p)) EX_OBJECT_TYPE_PROCESS 0 s))"

section \<open>Threads (ex/thread.c)\<close>

definition kfree_thread :: "thread_ptr \<Rightarrow> ex_state \<Rightarrow> ex_state" where
  "kfree_thread t s = s\<lparr>Threads := (Threads s)(t := None)\<rparr>"

definition KiDestroyThreadObject :: "obj_ref option \<Rightarrow> ex_state \<Rightarrow> (ho_status \<times> ex_state) outcome" where
  "KiDestroyThreadObject objectHeader s =
    (case objectHeader of
       None \<Rightarrow> Done (EC_ILLEGAL_ARGUMENT, s)
     | Some r \<Rightarrow> deref (get_header s r) (\<lambda>h.
         if ObjType h \<noteq> EX_OBJECT_TYPE_THREAD then Done (EC_ILLEGAL_ARGUMENT, s)
         else case r of
           ThreadHeader t \<Rightarrow>
             deref (Threads s t) (\<lambda>thread.
               let process = ThreadProcess thread;
                   s1 = kfree_thread t (set_thread t (thread\<lparr>KernelThread := None, ThreadProcess := None\<rparr>) s)
               in if process \<noteq> None then ExRuntimeReleaseProcess process s1 else Done (EC_SUCCESS, s1))
         | _ \<Rightarrow> Fault))"

fun run_thread :: "destroy_routine \<Rightarrow> obj_ref \<Rightarrow> ex_state \<Rightarrow> (ho_status \<times> ex_state) outcome" where
  "run_thread DestroyThread r s = KiDestroyThreadObject (Some r) s"
| "run_thread DestroyProcess r s = KiDestroyProcessObject (Some r) s"
| "run_thread DestroyStdoutService r s = KiDestroyStdoutServiceObject (Some r) s"

definition ExRuntimeReleaseThread :: "thread_ptr option \<Rightarrow> ex_state \<Rightarrow> (ho_status \<times> ex_state) outcome" where
  "ExRuntimeReleaseThread thread s =
    (case thread of
       None \<Rightarrow> Done (EC_ILLEGAL_ARGUMENT, s)
     | Some t \<Rightarrow> drop_remaining
         (ExObjectRelease run_thread (Some (ThreadHeader t)) EX_OBJECT_TYPE_THREAD 0 s))"

end
