(* ===== verification/ExHandle.thy ===== *)
theory ExHandle
  imports ExObject
begin

text \<open>
  The process-owned handle table of \<^verbatim>\<open>ex/handle.c\<close>, with the publication lookup of
  \<^verbatim>\<open>ex/runtime_table.c\<close> that guards closing. A handle packs a slot index and the generation
  of the slot; closing a slot advances its generation.
\<close>

section \<open>Constants (ex/handle.h, ex/handle.c)\<close>

definition EX_MAX_HANDLES_PER_PROCESS :: u32 where "EX_MAX_HANDLES_PER_PROCESS = 32"
definition EX_HANDLE_INDEX_BITS :: nat where "EX_HANDLE_INDEX_BITS = 8"
definition EX_HANDLE_INDEX_MASK :: u32 where "EX_HANDLE_INDEX_MASK = 0xFF"
definition EX_HANDLE_GENERATION_MASK :: u32 where "EX_HANDLE_GENERATION_MASK = 0x00FFFFFF"

definition EX_HANDLE_RIGHT_NONE :: u32 where "EX_HANDLE_RIGHT_NONE = 0"
definition EX_HANDLE_RIGHT_QUERY :: u32 where "EX_HANDLE_RIGHT_QUERY = 1"
definition EX_HANDLE_RIGHT_CLOSE :: u32 where "EX_HANDLE_RIGHT_CLOSE = 2"
definition EX_HANDLE_RIGHT_PROCESS_SELF :: u32 where "EX_HANDLE_RIGHT_PROCESS_SELF = 4"
definition EX_HANDLE_RIGHT_THREAD_SELF :: u32 where "EX_HANDLE_RIGHT_THREAD_SELF = 8"
definition EX_HANDLE_RIGHT_WRITE :: u32 where "EX_HANDLE_RIGHT_WRITE = 0x10"
definition EX_HANDLE_RIGHT_WAIT :: u32 where "EX_HANDLE_RIGHT_WAIT = 0x20"

lemmas handle_const_defs = EX_MAX_HANDLES_PER_PROCESS_def EX_HANDLE_INDEX_BITS_def
  EX_HANDLE_INDEX_MASK_def EX_HANDLE_GENERATION_MASK_def EX_HANDLE_INVALID_def

section \<open>Encoding\<close>

definition KiAdvanceHandleGeneration :: "u32 \<Rightarrow> u32" where
  "KiAdvanceHandleGeneration generation =
    (let g = (generation + 1) AND EX_HANDLE_GENERATION_MASK in if g = 0 then 1 else g)"

definition KiEncodeHandle :: "u32 \<Rightarrow> u32 \<Rightarrow> EX_HANDLE" where
  "KiEncodeHandle slotIndex generation =
    (if slotIndex \<ge> EX_MAX_HANDLES_PER_PROCESS \<or> generation = 0 then EX_HANDLE_INVALID
     else push_bit EX_HANDLE_INDEX_BITS generation OR (slotIndex + 1))"

definition KiDecodeHandle :: "EX_HANDLE \<Rightarrow> (u32 \<times> u32) option" where
  "KiDecodeHandle handle =
    (if handle = EX_HANDLE_INVALID then None
     else
       let encodedIndex = handle AND EX_HANDLE_INDEX_MASK;
           decodedGeneration = drop_bit EX_HANDLE_INDEX_BITS handle AND EX_HANDLE_GENERATION_MASK
       in if encodedIndex = 0 \<or> decodedGeneration = 0 then None
          else if encodedIndex - 1 \<ge> EX_MAX_HANDLES_PER_PROCESS then None
          else Some (encodedIndex - 1, decodedGeneration))"

section \<open>Publication lookup (ex/runtime\_table.c)\<close>

definition EX_RUNTIME_PROCESS_TABLE_CAPACITY :: nat where "EX_RUNTIME_PROCESS_TABLE_CAPACITY = 8"
definition EX_RUNTIME_THREAD_TABLE_CAPACITY :: nat where "EX_RUNTIME_THREAD_TABLE_CAPACITY = 8"

text \<open>The index loops return the first matching entry, and the capacity when there is none.\<close>

fun first_index :: "('a \<Rightarrow> bool) \<Rightarrow> 'a list \<Rightarrow> nat" where
  "first_index P [] = 0"
| "first_index P (x # xs) = (if P x then 0 else Suc (first_index P xs))"

definition KiFindProcessSlotByProcess :: "proc_ptr option \<Rightarrow> ex_state \<Rightarrow> nat" where
  "KiFindProcessSlotByProcess process s =
    (if process = None then EX_RUNTIME_PROCESS_TABLE_CAPACITY
     else first_index (\<lambda>e. ProcActive e \<and> EntryProcess e = process) (gExRuntimeProcessTable s))"

definition KiFindThreadSlotByThreadObject :: "thread_ptr option \<Rightarrow> ex_state \<Rightarrow> nat" where
  "KiFindThreadSlotByThreadObject thread s =
    (if thread = None then EX_RUNTIME_THREAD_TABLE_CAPACITY
     else first_index (\<lambda>e. ThreadActive e \<and> EntryThread e = thread) (gExRuntimeThreadTable s))"

text \<open>\<open>CONTAINING_RECORD\<close> of a header whose \<open>Type\<close> does not match its place is undefined.\<close>

definition ExRuntimeIsPublishedObject :: "obj_ref option \<Rightarrow> ex_state \<Rightarrow> bool outcome" where
  "ExRuntimeIsPublishedObject objectHeader s =
    (case objectHeader of
       None \<Rightarrow> Done False
     | Some r \<Rightarrow> deref (get_header s r) (\<lambda>h.
         case ObjType h of
           EX_OBJECT_TYPE_PROCESS \<Rightarrow>
             (case r of ProcessHeader p \<Rightarrow>
                Done (KiFindProcessSlotByProcess (Some p) s < EX_RUNTIME_PROCESS_TABLE_CAPACITY)
              | _ \<Rightarrow> Fault)
         | EX_OBJECT_TYPE_THREAD \<Rightarrow>
             (case r of ThreadHeader t \<Rightarrow>
                Done (KiFindThreadSlotByThreadObject (Some t) s < EX_RUNTIME_THREAD_TABLE_CAPACITY)
              | _ \<Rightarrow> Fault)
         | _ \<Rightarrow> Done False))"

section \<open>Slots\<close>

definition zero_slot :: EX_HANDLE_SLOT where
  "zero_slot = \<lparr>SlotObject = None, Rights = EX_HANDLE_RIGHT_NONE, Generation = 0\<rparr>"

definition ExHandleInitializeTable :: "EX_HANDLE_SLOT list" where
  "ExHandleInitializeTable = replicate (unat EX_MAX_HANDLES_PER_PROCESS) zero_slot"

text \<open>
  A slot pointer is a process and an index below 32; \<open>KiLookupHandleSlot\<close> yields the index.
\<close>

definition KiLookupHandleSlot :: "proc_ptr option \<Rightarrow> EX_HANDLE \<Rightarrow> (nat \<times> u32) option" where
  "KiLookupHandleSlot process handle =
    (if process = None then None
     else case KiDecodeHandle handle of None \<Rightarrow> None
        | Some (slotIndex, generation) \<Rightarrow> Some (unat slotIndex, generation))"

definition set_slot :: "proc_ptr \<Rightarrow> nat \<Rightarrow> EX_HANDLE_SLOT \<Rightarrow> ex_state \<Rightarrow> ex_state" where
  "set_slot p i sl s =
    (case Processes s p of None \<Rightarrow> s
     | Some pr \<Rightarrow> set_process p (pr\<lparr>HandleTable := (HandleTable pr)[i := sl]\<rparr>) s)"

definition KiRetainHandleObject :: "obj_ref option \<Rightarrow> ex_state \<Rightarrow> (ho_status \<times> ex_state) outcome" where
  "KiRetainHandleObject objectHeader s =
    (case objectHeader of
       None \<Rightarrow> Done (EC_ILLEGAL_ARGUMENT, s)
     | Some r \<Rightarrow> deref (get_header s r) (\<lambda>h.
         if \<not> ExObjectIsValidType (ObjType h) then Done (EC_INVALID_STATE, s)
         else ExObjectRetain objectHeader (ObjType h) s))"

definition KiReleaseHandleObject :: "obj_ref option \<Rightarrow> ex_state \<Rightarrow> (ho_status \<times> ex_state) outcome" where
  "KiReleaseHandleObject objectHeader s =
    (case objectHeader of
       None \<Rightarrow> Done (EC_ILLEGAL_ARGUMENT, s)
     | Some r \<Rightarrow> deref (get_header s r) (\<lambda>h.
         case ObjType h of
           EX_OBJECT_TYPE_PROCESS \<Rightarrow>
             (case r of ProcessHeader p \<Rightarrow> ExRuntimeReleaseProcess (Some p) s | _ \<Rightarrow> Fault)
         | EX_OBJECT_TYPE_THREAD \<Rightarrow>
             (case r of ThreadHeader t \<Rightarrow> ExRuntimeReleaseThread (Some t) s | _ \<Rightarrow> Fault)
         | EX_OBJECT_TYPE_CONSOLE \<Rightarrow>
             drop_remaining (ExObjectRelease run_thread (Some r) EX_OBJECT_TYPE_CONSOLE 0 s)
         | EX_OBJECT_TYPE_INVALID \<Rightarrow> Done (EC_INVALID_STATE, s)))"

definition KiValidateCloseHandleSlot :: "EX_HANDLE_SLOT option \<Rightarrow> bool \<Rightarrow> ex_state \<Rightarrow> ho_status outcome" where
  "KiValidateCloseHandleSlot slot allowPublishedObjectClose s =
    (let identityRights = EX_HANDLE_RIGHT_PROCESS_SELF OR EX_HANDLE_RIGHT_THREAD_SELF in
     case slot of
       None \<Rightarrow> Done EC_INVALID_STATE
     | Some sl \<Rightarrow>
       (case SlotObject sl of
          None \<Rightarrow> Done EC_INVALID_STATE
        | Some r \<Rightarrow>
          if (Rights sl AND EX_HANDLE_RIGHT_CLOSE) \<noteq> EX_HANDLE_RIGHT_CLOSE then Done EC_INVALID_STATE
          else
            bind_outcome (if allowPublishedObjectClose then Done False
                          else ExRuntimeIsPublishedObject (Some r) s) (\<lambda>published.
            if published \<and> (Rights sl AND identityRights) \<noteq> EX_HANDLE_RIGHT_NONE
            then Done EC_INVALID_STATE
            else deref (get_header s r) (\<lambda>h.
              if \<not> ExObjectIsValidType (ObjType h) then Done EC_INVALID_STATE else Done EC_SUCCESS))))"

definition KiInvalidateObjectSelfHandleIfMatch :: "obj_ref option \<Rightarrow> EX_HANDLE \<Rightarrow> ex_state \<Rightarrow> ex_state outcome" where
  "KiInvalidateObjectSelfHandleIfMatch objectHeader handle s =
    (case objectHeader of
       None \<Rightarrow> Done s
     | Some r \<Rightarrow>
       if handle = EX_HANDLE_INVALID then Done s
       else deref (get_header s r) (\<lambda>h.
         case ObjType h of
           EX_OBJECT_TYPE_PROCESS \<Rightarrow>
             (case r of ProcessHeader p \<Rightarrow> deref (Processes s p) (\<lambda>pr.
                let pr1 = (if SelfHandle pr = handle then pr\<lparr>SelfHandle := EX_HANDLE_INVALID\<rparr> else pr);
                    pr2 = (if WaitHandle pr1 = handle then pr1\<lparr>WaitHandle := EX_HANDLE_INVALID\<rparr> else pr1)
                in Done (set_process p pr2 s))
              | _ \<Rightarrow> Fault)
         | EX_OBJECT_TYPE_THREAD \<Rightarrow>
             (case r of ThreadHeader t \<Rightarrow> deref (Threads s t) (\<lambda>th.
                Done (set_thread t (if ThreadSelfHandle th = handle then th\<lparr>ThreadSelfHandle := EX_HANDLE_INVALID\<rparr>
                                    else th) s))
              | _ \<Rightarrow> Fault)
         | EX_OBJECT_TYPE_CONSOLE \<Rightarrow>
             (case r of StdoutHeader p \<Rightarrow> deref (Processes s p) (\<lambda>pr.
                case Owner (StdoutService pr) of
                  None \<Rightarrow> Done s
                | Some q \<Rightarrow> deref (Processes s q) (\<lambda>prq.
                    Done (set_process q (if StdoutHandle prq = handle then prq\<lparr>StdoutHandle := EX_HANDLE_INVALID\<rparr>
                                         else prq) s)))
              | _ \<Rightarrow> Fault)
         | EX_OBJECT_TYPE_INVALID \<Rightarrow> Done s))"

definition KiObjectTypeIsWaitable :: "EX_OBJECT_TYPE \<Rightarrow> bool" where
  "KiObjectTypeIsWaitable type \<longleftrightarrow> type = EX_OBJECT_TYPE_PROCESS \<or> type = EX_OBJECT_TYPE_THREAD"

definition KiClearHandleSlot :: "EX_HANDLE_SLOT \<Rightarrow> EX_HANDLE_SLOT" where
  "KiClearHandleSlot slot =
    slot\<lparr>SlotObject := None, Rights := EX_HANDLE_RIGHT_NONE,
         Generation := KiAdvanceHandleGeneration (Generation slot)\<rparr>"

section \<open>Operations\<close>

text \<open>
  \<open>ExHandleInsert\<close> yields its status and the value left in \<open>*outHandle\<close>; the argument
  \<open>outHandle\<close> is the value before the call, kept when an argument is rejected.
\<close>

definition ExHandleInsert ::
  "proc_ptr option \<Rightarrow> obj_ref option \<Rightarrow> EX_HANDLE_RIGHTS \<Rightarrow> EX_HANDLE \<Rightarrow> ex_state \<Rightarrow>
   (ho_status \<times> EX_HANDLE \<times> ex_state) outcome" where
  "ExHandleInsert process objectHeader rights outHandle s =
    (case process of
       None \<Rightarrow> Done (EC_ILLEGAL_ARGUMENT, outHandle, s)
     | Some p \<Rightarrow>
       if objectHeader = None \<or> rights = EX_HANDLE_RIGHT_NONE then Done (EC_ILLEGAL_ARGUMENT, outHandle, s)
       else deref (Processes s p) (\<lambda>pr.
         let slotIndex = first_index (\<lambda>sl. SlotObject sl = None) (HandleTable pr) in
         if \<not> slotIndex < length (HandleTable pr) then Done (EC_OUT_OF_RESOURCE, EX_HANDLE_INVALID, s)
         else bind_outcome (KiRetainHandleObject objectHeader s) (\<lambda>(status, s).
           if status \<noteq> EC_SUCCESS then Done (status, EX_HANDLE_INVALID, s)
           else
             let slot = HandleTable pr ! slotIndex;
                 generation = (if Generation slot = 0 then KiAdvanceHandleGeneration 0 else Generation slot);
                 s = set_slot p slotIndex \<lparr>SlotObject = objectHeader, Rights = rights, Generation = generation\<rparr> s;
                 outHandle = KiEncodeHandle (word_of_nat slotIndex) generation
             in Done (if outHandle = EX_HANDLE_INVALID then EC_INVALID_STATE else EC_SUCCESS, outHandle, s))))"

definition ExHandleResolve ::
  "proc_ptr option \<Rightarrow> EX_HANDLE \<Rightarrow> EX_OBJECT_TYPE \<Rightarrow> EX_HANDLE_RIGHTS \<Rightarrow> ex_state \<Rightarrow>
   (obj_ref result \<times> ex_state) outcome" where
  "ExHandleResolve process handle expectedType desiredRights s =
    (case process of
       None \<Rightarrow> Done (Inl EC_ILLEGAL_ARGUMENT, s)
     | Some p \<Rightarrow>
       if \<not> ExObjectIsValidType expectedType then Done (Inl EC_ILLEGAL_ARGUMENT, s)
       else case KiLookupHandleSlot process handle of
         None \<Rightarrow> Done (Inl EC_ILLEGAL_ARGUMENT, s)
       | Some (i, generation) \<Rightarrow> deref (Processes s p) (\<lambda>pr.
           let slot = HandleTable pr ! i in
           case SlotObject slot of
             None \<Rightarrow> Done (Inl EC_INVALID_STATE, s)
           | Some r \<Rightarrow>
             if Generation slot \<noteq> generation then Done (Inl EC_INVALID_STATE, s)
             else if (Rights slot AND desiredRights) \<noteq> desiredRights then Done (Inl EC_INVALID_STATE, s)
             else bind_outcome (ExObjectRetain (Some r) expectedType s) (\<lambda>(status, s).
               if status \<noteq> EC_SUCCESS then Done (Inl status, s) else Done (Inr r, s))))"

definition ExHandleResolveWaitable ::
  "proc_ptr option \<Rightarrow> EX_HANDLE \<Rightarrow> EX_HANDLE_RIGHTS \<Rightarrow> ex_state \<Rightarrow> (obj_ref result \<times> ex_state) outcome" where
  "ExHandleResolveWaitable process handle desiredRights s =
    (case process of
       None \<Rightarrow> Done (Inl EC_ILLEGAL_ARGUMENT, s)
     | Some p \<Rightarrow>
       case KiLookupHandleSlot process handle of
         None \<Rightarrow> Done (Inl EC_ILLEGAL_ARGUMENT, s)
       | Some (i, generation) \<Rightarrow> deref (Processes s p) (\<lambda>pr.
           let slot = HandleTable pr ! i in
           case SlotObject slot of
             None \<Rightarrow> Done (Inl EC_INVALID_STATE, s)
           | Some r \<Rightarrow>
             if Generation slot \<noteq> generation then Done (Inl EC_INVALID_STATE, s)
             else if (Rights slot AND desiredRights) \<noteq> desiredRights then Done (Inl EC_INVALID_STATE, s)
             else deref (get_header s r) (\<lambda>h.
               if \<not> KiObjectTypeIsWaitable (ObjType h) then Done (Inl EC_INVALID_STATE, s)
               else bind_outcome (ExObjectRetain (Some r) (ObjType h) s) (\<lambda>(status, s).
                 if status \<noteq> EC_SUCCESS then Done (Inl status, s) else Done (Inr r, s)))))"

definition ExHandleReleaseResolvedObject :: "obj_ref option \<Rightarrow> ex_state \<Rightarrow> (ho_status \<times> ex_state) outcome" where
  "ExHandleReleaseResolvedObject objectHeader s = KiReleaseHandleObject objectHeader s"

text \<open>
  The \<open>Exit\<close> label of \<open>ExHandleClose\<close> and \<open>KiHandleCloseAll\<close> drops the owner reference and
  reports its status only when nothing failed before.
\<close>

definition release_owner :: "proc_ptr \<Rightarrow> ho_status \<Rightarrow> ex_state \<Rightarrow> (ho_status \<times> ex_state) outcome" where
  "release_owner p status s =
    bind_outcome (ExRuntimeReleaseProcess (Some p) s) (\<lambda>(ownerStatus, s).
      Done (if status = EC_SUCCESS then ownerStatus else status, s))"

text \<open>
  \<open>ExHandleClose\<close> yields its status and the value left in \<open>*handle\<close>. The close sequence of a
  validated slot is shared with \<open>KiHandleCloseAll\<close>: invalidate the cached self handle, clear the
  slot, release the reference the slot owned.
\<close>

definition close_slot ::
  "proc_ptr \<Rightarrow> nat \<Rightarrow> obj_ref \<Rightarrow> EX_HANDLE \<Rightarrow> ex_state \<Rightarrow> (ho_status \<times> ex_state) outcome" where
  "close_slot p i r handle s =
    bind_outcome (KiInvalidateObjectSelfHandleIfMatch (Some r) handle s) (\<lambda>s.
    deref (Processes s p) (\<lambda>pr.
    KiReleaseHandleObject (Some r) (set_slot p i (KiClearHandleSlot (HandleTable pr ! i)) s)))"

definition close_body :: "proc_ptr \<Rightarrow> EX_HANDLE \<Rightarrow> ex_state \<Rightarrow> (ho_status \<times> EX_HANDLE \<times> ex_state) outcome" where
  "close_body p handle s =
    (case KiLookupHandleSlot (Some p) handle of
       None \<Rightarrow> Done (EC_ILLEGAL_ARGUMENT, handle, s)
     | Some (i, generation) \<Rightarrow> deref (Processes s p) (\<lambda>pr.
         let slot = HandleTable pr ! i in
         case SlotObject slot of
           None \<Rightarrow> Done (EC_INVALID_STATE, handle, s)
         | Some r \<Rightarrow>
           if Generation slot \<noteq> generation then Done (EC_INVALID_STATE, handle, s)
           else bind_outcome (KiValidateCloseHandleSlot (Some slot) False s) (\<lambda>status.
             if status \<noteq> EC_SUCCESS then Done (status, handle, s)
             else bind_outcome (close_slot p i r handle s) (\<lambda>(status, s).
               Done (status, EX_HANDLE_INVALID, s)))))"

definition ExHandleClose :: "proc_ptr option \<Rightarrow> EX_HANDLE \<Rightarrow> ex_state \<Rightarrow> (ho_status \<times> EX_HANDLE \<times> ex_state) outcome" where
  "ExHandleClose process handle s =
    (case process of
       None \<Rightarrow> Done (EC_ILLEGAL_ARGUMENT, handle, s)
     | Some p \<Rightarrow>
       if handle = EX_HANDLE_INVALID then Done (EC_SUCCESS, handle, s)
       else bind_outcome (ExRuntimeRetainProcess process s) (\<lambda>(ownerReference, s).
         if ownerReference = None then Done (EC_INVALID_STATE, handle, s)
         else bind_outcome (close_body p handle s) (\<lambda>(status, h, s).
           bind_outcome (release_owner p status s) (\<lambda>(status, s). Done (status, h, s)))))"

text \<open>The two loops of \<open>KiHandleCloseAll\<close>, as recursions on the number of slots still to visit.\<close>

fun validate_slots :: "EX_HANDLE_SLOT list \<Rightarrow> bool \<Rightarrow> ex_state \<Rightarrow> ho_status outcome" where
  "validate_slots [] allow s = Done EC_SUCCESS"
| "validate_slots (sl # sls) allow s =
    (if SlotObject sl = None then validate_slots sls allow s
     else bind_outcome (KiValidateCloseHandleSlot (Some sl) allow s) (\<lambda>status.
       if status \<noteq> EC_SUCCESS then Done status else validate_slots sls allow s))"

fun close_slots :: "proc_ptr \<Rightarrow> nat list \<Rightarrow> ho_status \<Rightarrow> ex_state \<Rightarrow> (ho_status \<times> ex_state) outcome" where
  "close_slots p [] firstError s = Done (firstError, s)"
| "close_slots p (i # is) firstError s =
    deref (Processes s p) (\<lambda>pr.
      let slot = HandleTable pr ! i in
      case SlotObject slot of
        None \<Rightarrow> close_slots p is firstError s
      | Some r \<Rightarrow>
        bind_outcome (close_slot p i r (KiEncodeHandle (word_of_nat i) (Generation slot)) s) (\<lambda>(status, s).
          close_slots p is (if firstError = EC_SUCCESS then status else firstError) s))"

definition KiHandleCloseAll :: "proc_ptr option \<Rightarrow> bool \<Rightarrow> ex_state \<Rightarrow> (ho_status \<times> ex_state) outcome" where
  "KiHandleCloseAll process allowPublishedObjectClose s =
    (case process of
       None \<Rightarrow> Done (EC_ILLEGAL_ARGUMENT, s)
     | Some p \<Rightarrow>
       bind_outcome (ExRuntimeRetainProcess process s) (\<lambda>(ownerReference, s).
         if ownerReference = None then Done (EC_INVALID_STATE, s)
         else deref (Processes s p) (\<lambda>pr.
           bind_outcome (validate_slots (HandleTable pr) allowPublishedObjectClose s) (\<lambda>firstError.
             if firstError \<noteq> EC_SUCCESS then release_owner p firstError s
             else bind_outcome (close_slots p [0..<unat EX_MAX_HANDLES_PER_PROCESS] EC_SUCCESS s)
               (\<lambda>(firstError, s). release_owner p firstError s)))))"

definition ExHandleCloseAll :: "proc_ptr option \<Rightarrow> ex_state \<Rightarrow> (ho_status \<times> ex_state) outcome" where
  "ExHandleCloseAll process s = KiHandleCloseAll process False s"

definition ExHandleCloseAllForTeardown :: "proc_ptr option \<Rightarrow> ex_state \<Rightarrow> (ho_status \<times> ex_state) outcome" where
  "ExHandleCloseAllForTeardown process s = KiHandleCloseAll process True s"

section \<open>Encoding is a bijection, generations are fresh\<close>

lemma and_index_mask: "h AND EX_HANDLE_INDEX_MASK = take_bit 8 h" for h :: u32
  by (simp add: EX_HANDLE_INDEX_MASK_def take_bit_eq_mask mask_eq_exp_minus_1)

lemma and_generation_mask: "g AND EX_HANDLE_GENERATION_MASK = take_bit 24 g" for g :: u32
  by (simp add: EX_HANDLE_GENERATION_MASK_def take_bit_eq_mask mask_eq_exp_minus_1)

lemma generation_small: "take_bit 24 g = g" if "g \<le> 0xFFFFFF" for g :: u32
proof -
  have "g < 0x1000000" using that by (rule le_less_trans) simp
  then show ?thesis by (intro take_bit_id_word) simp_all
qed

definition valid_generation :: "u32 \<Rightarrow> bool" where
  "valid_generation g \<longleftrightarrow> g \<noteq> 0 \<and> g \<le> 0xFFFFFF"

lemma slot_index_bound: "slotIndex + 1 < 256 \<and> slotIndex + 1 \<noteq> 0" if "slotIndex < 32" for slotIndex :: u32
proof -
  have "unat slotIndex < 32" using that by (simp add: word_less_nat_alt)
  then have "unat (slotIndex + 1) = unat slotIndex + 1" by (simp add: unat_add_small)
  with \<open>unat slotIndex < 32\<close> show ?thesis by (auto simp: word_less_nat_alt)
qed

lemma KiDecode_KiEncode:
  assumes "slotIndex < EX_MAX_HANDLES_PER_PROCESS" "valid_generation g"
  shows "KiDecodeHandle (KiEncodeHandle slotIndex g) = Some (slotIndex, g)"
proof -
  define h where "h = push_bit 8 g OR (slotIndex + 1)"
  have si: "slotIndex < 32" using assms(1) by (simp add: EX_MAX_HANDLES_PER_PROCESS_def)
  then have ns: "\<not> 32 \<le> slotIndex" by (simp only: not_le)
  note b = slot_index_bound [OF si]
  have g: "g \<noteq> 0" "take_bit 24 g = g" using assms(2) generation_small by (auto simp: valid_generation_def)
  have i: "take_bit 8 h = slotIndex + 1" and d: "take_bit 24 (drop_bit 8 h) = g"
    using b g packed_low [of "slotIndex + 1" 8 g] packed_high [of "slotIndex + 1" 8 g] unfolding h_def
    by simp_all
  then have "h \<noteq> 0" using b by auto
  moreover have "KiEncodeHandle slotIndex g = h"
    using ns g by (simp add: KiEncodeHandle_def h_def handle_const_defs)
  ultimately show ?thesis using ns b g i d
    by (simp add: KiDecodeHandle_def Let_def EX_HANDLE_INVALID_def and_index_mask and_generation_mask
        EX_HANDLE_INDEX_BITS_def EX_MAX_HANDLES_PER_PROCESS_def)
qed

lemma KiDecode_Some:
  assumes "KiDecodeHandle h = Some (i, g)"
  shows "i < EX_MAX_HANDLES_PER_PROCESS" "valid_generation g" "KiEncodeHandle i g = h"
proof -
  have u: "i = take_bit 8 h - 1" "g = take_bit 24 (drop_bit 8 h)" "take_bit 8 h \<noteq> 0" "g \<noteq> 0" "\<not> 32 \<le> i"
    using assms by (auto simp: KiDecodeHandle_def Let_def EX_HANDLE_INVALID_def and_index_mask
        and_generation_mask EX_HANDLE_INDEX_BITS_def EX_MAX_HANDLES_PER_PROCESS_def split: if_splits)
  have gd: "g = drop_bit 8 h" unfolding u(2)
    by (rule bit_eqI) (auto simp: bit_simps dest: bit_imp_le_length)
  have "g < 2 ^ 24" unfolding u(2) by (rule take_bit_less_exp_word) simp
  then show "valid_generation g" using u(4) by (auto simp: valid_generation_def word_less_nat_alt word_le_nat_alt)
  show "i < EX_MAX_HANDLES_PER_PROCESS" using u(5) by (simp add: EX_MAX_HANDLES_PER_PROCESS_def)
  have "push_bit 8 (drop_bit 8 h) OR take_bit 8 h = h" by (rule packed_join)
  then show "KiEncodeHandle i g = h"
    using u(4,5) gd u(1) by (simp add: KiEncodeHandle_def handle_const_defs)
qed

lemma KiAdvance_valid: "valid_generation (KiAdvanceHandleGeneration g)"
proof -
  have "take_bit 24 (g + 1) < 2 ^ 24" by (rule take_bit_less_exp_word) simp
  then show ?thesis
    by (auto simp: valid_generation_def KiAdvanceHandleGeneration_def and_generation_mask Let_def
        word_less_nat_alt word_le_nat_alt)
qed

lemma KiAdvance_unat:
  assumes "valid_generation g"
  shows "unat (KiAdvanceHandleGeneration g) = unat g mod 0xFFFFFF + 1"
proof -
  have g: "0 < unat g" "unat g \<le> 0xFFFFFF"
    using assms by (auto simp: valid_generation_def word_le_nat_alt word_greater_zero_iff unat_gt_0)
  have "unat (g + 1) = unat g + 1" using g by (simp add: unat_add_small)
  then have t: "unat (take_bit 24 (g + 1)) = (unat g + 1) mod 2 ^ 24"
    by (simp only: unat_take_bit)
  show ?thesis
  proof (cases "unat g = 0xFFFFFF")
    case True
    then have "take_bit 24 (g + 1) = 0" using t by (simp add: unat_eq_0)
    then show ?thesis using True by (simp add: KiAdvanceHandleGeneration_def and_generation_mask)
  next
    case False
    then have "unat (take_bit 24 (g + 1)) = unat g + 1" using t g by simp
    moreover from this have "take_bit 24 (g + 1) \<noteq> 0" by auto
    ultimately show ?thesis using False g by (simp add: KiAdvanceHandleGeneration_def and_generation_mask)
  qed
qed

lemma KiAdvance_iterate:
  assumes "valid_generation g"
  shows "valid_generation ((KiAdvanceHandleGeneration ^^ n) g) \<and>
    unat ((KiAdvanceHandleGeneration ^^ n) g) = (unat g - 1 + n) mod 0xFFFFFF + 1"
proof (induction n)
  case 0
  have "0 < unat g" "unat g \<le> 0xFFFFFF"
    using assms by (auto simp: valid_generation_def word_le_nat_alt word_greater_zero_iff unat_gt_0)
  then show ?case using assms by simp
next
  case (Suc n)
  then show ?case using KiAdvance_valid by (simp add: KiAdvance_unat mod_Suc_eq)
qed

lemma KiAdvance_fresh:
  assumes "valid_generation g" "0 < n" "n < 0xFFFFFF"
  shows "(KiAdvanceHandleGeneration ^^ n) g \<noteq> g"
proof
  assume eq: "(KiAdvanceHandleGeneration ^^ n) g = g"
  have g: "0 < unat g" "unat g \<le> 0xFFFFFF"
    using assms by (auto simp: valid_generation_def word_le_nat_alt word_greater_zero_iff unat_gt_0)
  have "unat g = (unat g - 1 + n) mod 0xFFFFFF + 1"
    using KiAdvance_iterate [OF assms(1), of n] unfolding eq by blast
  then have e: "(unat g - 1 + n) mod 0xFFFFFF = unat g - 1" using g by linarith
  show False
  proof (cases "unat g - 1 + n < 0xFFFFFF")
    case True
    then show ?thesis using e assms by simp
  next
    case False
    then have "(unat g - 1 + n) mod 0xFFFFFF = unat g - 1 + n - 0xFFFFFF"
      using g assms by (simp add: mod_if)
    then show ?thesis using e assms g False by linarith
  qed
qed

lemma KiAdvance_wraps: "valid_generation g \<Longrightarrow> (KiAdvanceHandleGeneration ^^ 0xFFFFFF) g = g"
proof (rule unat_eqI)
  assume v: "valid_generation g"
  have g: "0 < unat g" "unat g \<le> 0xFFFFFF"
    using v by (auto simp: valid_generation_def word_le_nat_alt word_greater_zero_iff unat_gt_0)
  have "unat ((KiAdvanceHandleGeneration ^^ 0xFFFFFF) g) = (unat g - 1 + 0xFFFFFF) mod 0xFFFFFF + 1"
    using KiAdvance_iterate [OF v, of "0xFFFFFF"] by blast
  also have "\<dots> = unat g" using g by (simp only: mod_add_self2) simp
  finally show "unat ((KiAdvanceHandleGeneration ^^ 0xFFFFFF) g) = unat g" .
qed

end
