(* ===== verification/ExHandleProofs.thy ===== *)
theory ExHandleProofs
  imports ExHandle
begin

text \<open>
  Correctness of the handle table: the reference counts of all objects cover the references the
  state accounts for (\<open>ex_inv\<close>), no operation touches a freed object, closing is all or nothing,
  and a closed handle stays dead along every history of operations until its slot has been closed
  \<open>2^24 - 2\<close> more times.
\<close>

section \<open>Views of the state\<close>

definition tables :: "ex_state \<Rightarrow> proc_ptr \<rightharpoonup> EX_HANDLE_SLOT list" where
  "tables s p = map_option HandleTable (Processes s p)"

definition owners :: "ex_state \<Rightarrow> thread_ptr \<rightharpoonup> proc_ptr option" where
  "owners s t = map_option ThreadProcess (Threads s t)"

definition slots_of :: "(proc_ptr \<rightharpoonup> EX_HANDLE_SLOT list) \<Rightarrow> obj_ref \<Rightarrow> (proc_ptr \<times> nat) set" where
  "slots_of T r = {(p, i). \<exists>tab. T p = Some tab \<and> i < length tab \<and> SlotObject (tab ! i) = Some r}"

definition threads_of :: "(thread_ptr \<rightharpoonup> proc_ptr option) \<Rightarrow> proc_ptr \<Rightarrow> thread_ptr set" where
  "threads_of W p = {t. W t = Some (Some p)}"

text \<open>
  The references the state itself accounts for: one for every handle slot that points to the
  object, one for every thread of a process, and one that a process holds on its standard-output
  service as long as it is referenced itself.
\<close>

fun base_refs :: "ex_state \<Rightarrow> obj_ref \<Rightarrow> nat" where
  "base_refs s (ProcessHeader p) = card (threads_of (owners s) p)"
| "base_refs s (ThreadHeader t) = 0"
| "base_refs s (StdoutHeader p) =
    (case get_header s (ProcessHeader p) of None \<Rightarrow> 0 | Some h \<Rightarrow> if ReferenceCount h = 0 then 0 else 1)"

definition owed :: "ex_state \<Rightarrow> obj_ref \<Rightarrow> nat" where
  "owed s r = card (slots_of (tables s) r) + base_refs s r"

definition gap :: "ex_state \<Rightarrow> obj_ref \<Rightarrow> nat" where
  "gap s r = (case get_header s r of None \<Rightarrow> 0 | Some h \<Rightarrow> unat (ReferenceCount h) - owed s r)"

fun ref_type :: "obj_ref \<Rightarrow> EX_OBJECT_TYPE" where
  "ref_type (ProcessHeader p) = EX_OBJECT_TYPE_PROCESS"
| "ref_type (ThreadHeader t) = EX_OBJECT_TYPE_THREAD"
| "ref_type (StdoutHeader p) = EX_OBJECT_TYPE_CONSOLE"

fun ref_routine :: "obj_ref \<Rightarrow> destroy_routine" where
  "ref_routine (ProcessHeader p) = DestroyProcess"
| "ref_routine (ThreadHeader t) = DestroyThread"
| "ref_routine (StdoutHeader p) = DestroyStdoutService"

definition header_ok :: "ex_state \<Rightarrow> obj_ref \<Rightarrow> EX_OBJECT_HEADER \<Rightarrow> bool" where
  "header_ok s r h \<longleftrightarrow> ObjType h = ref_type r \<and> DestroyRoutine h = Some (ref_routine r) \<and>
     owed s r \<le> unat (ReferenceCount h)"

definition slot_ok :: "ex_state \<Rightarrow> EX_HANDLE_SLOT \<Rightarrow> bool" where
  "slot_ok s sl \<longleftrightarrow> (Generation sl = 0 \<or> valid_generation (Generation sl)) \<and>
     (\<forall>r. SlotObject sl = Some r \<longrightarrow> valid_generation (Generation sl) \<and> get_header s r \<noteq> None)"

definition ex_inv :: "ex_state \<Rightarrow> bool" where
  "ex_inv s \<longleftrightarrow> finite (dom (tables s)) \<and> finite (dom (owners s)) \<and>
     (\<forall>p tab. tables s p = Some tab \<longrightarrow> length tab = 32 \<and> (\<forall>i < 32. slot_ok s (tab ! i))) \<and>
     (\<forall>t p. owners s t = Some (Some p) \<longrightarrow> tables s p \<noteq> None) \<and>
     (\<forall>r h. get_header s r = Some h \<longrightarrow> header_ok s r h) \<and>
     (\<forall>p pr. Processes s p = Some pr \<longrightarrow> Owner (StdoutService pr) = Some p)"

lemma finite_slots_of: "finite (dom T) \<Longrightarrow> finite (slots_of T r)"
proof -
  assume "finite (dom T)"
  moreover have "slots_of T r \<subseteq> (SIGMA p : dom T. {..< length (the (T p))})"
    by (auto simp: slots_of_def)
  ultimately show ?thesis by (meson finite_SigmaI finite_lessThan finite_subset)
qed

lemma finite_threads_of: "finite (dom W) \<Longrightarrow> finite (threads_of W p)"
  by (rule finite_subset [of _ "dom W"]) (auto simp: threads_of_def)

subsection \<open>Effect of the primitive updates on the views\<close>

lemma live_tables: "get_header s (ProcessHeader p) = None \<longleftrightarrow> tables s p = None"
  "get_header s (StdoutHeader p) = None \<longleftrightarrow> tables s p = None"
  "get_header s (ThreadHeader t) = None \<longleftrightarrow> owners s t = None"
  by (simp_all add: tables_def owners_def)

lemma put_header_views:
  assumes "get_header s r \<noteq> None"
  shows "tables (put_header r h s) = tables s" "owners (put_header r h s) = owners s"
    "get_header (put_header r h s) r' = (if r' = r then Some h else get_header s r')"
proof -
  show "tables (put_header r h s) = tables s"
    by (cases r) (auto simp: tables_def set_process_def set_thread_def fun_eq_iff split: option.splits)
  show "owners (put_header r h s) = owners s"
    by (cases r) (auto simp: owners_def set_process_def set_thread_def fun_eq_iff split: option.splits)
  show "get_header (put_header r h s) r' = (if r' = r then Some h else get_header s r')"
    using assms by (cases r; cases r') (auto simp: set_process_def set_thread_def split: option.splits)
qed

lemma put_header_owner:
  "Processes (put_header r h s) p = Some pr \<Longrightarrow>
    \<exists>pr'. Processes s p = Some pr' \<and> Owner (StdoutService pr) = Owner (StdoutService pr')"
  by (cases r) (auto simp: set_process_def set_thread_def split: option.splits if_splits)

lemma set_slot_views:
  assumes "tables s p = Some tab"
  shows "tables (set_slot p i sl s) = (tables s)(p \<mapsto> tab[i := sl])" "owners (set_slot p i sl s) = owners s"
    "get_header (set_slot p i sl s) r = get_header s r"
proof -
  obtain pr where pr: "Processes s p = Some pr" "tab = HandleTable pr" using assms by (auto simp: tables_def)
  show "tables (set_slot p i sl s) = (tables s)(p \<mapsto> tab[i := sl])"
    using pr by (auto simp: tables_def set_slot_def set_process_def fun_eq_iff)
  show "owners (set_slot p i sl s) = owners s"
    by (simp add: owners_def set_slot_def set_process_def fun_eq_iff split: option.splits)
  show "get_header (set_slot p i sl s) r = get_header s r"
    using pr by (cases r) (auto simp: set_slot_def set_process_def)
qed

lemma set_slot_owner:
  "Processes (set_slot q i sl s) p = Some pr \<Longrightarrow>
    \<exists>pr'. Processes s p = Some pr' \<and> Owner (StdoutService pr) = Owner (StdoutService pr')"
  by (auto simp: set_slot_def set_process_def split: option.splits if_splits)

lemma kfree_process_views:
  "tables (kfree_process p s) = (tables s)(p := None)" "owners (kfree_process p s) = owners s"
  "get_header (kfree_process p s) r =
    (if r = ProcessHeader p \<or> r = StdoutHeader p then None else get_header s r)"
proof -
  show "tables (kfree_process p s) = (tables s)(p := None)" by (auto simp: tables_def kfree_process_def fun_eq_iff)
  show "owners (kfree_process p s) = owners s" by (auto simp: owners_def kfree_process_def fun_eq_iff)
  show "get_header (kfree_process p s) r =
    (if r = ProcessHeader p \<or> r = StdoutHeader p then None else get_header s r)"
    by (cases r) (auto simp: kfree_process_def)
qed

lemma kfree_thread_views:
  "tables (kfree_thread t (set_thread t th s)) = tables s"
  "owners (kfree_thread t (set_thread t th s)) = (owners s)(t := None)"
  "get_header (kfree_thread t (set_thread t th s)) r = (if r = ThreadHeader t then None else get_header s r)"
proof -
  show "tables (kfree_thread t (set_thread t th s)) = tables s"
    by (auto simp: tables_def kfree_thread_def set_thread_def fun_eq_iff)
  show "owners (kfree_thread t (set_thread t th s)) = (owners s)(t := None)"
    by (auto simp: owners_def kfree_thread_def set_thread_def fun_eq_iff)
  show "get_header (kfree_thread t (set_thread t th s)) r = (if r = ThreadHeader t then None else get_header s r)"
    by (cases r) (auto simp: kfree_thread_def set_thread_def)
qed

declare get_header.simps [simp del] put_header.simps [simp del]

lemma owed_le:
  "base_refs s' r \<le> base_refs s r \<Longrightarrow> slots_of (tables s') r \<subseteq> slots_of (tables s) r \<Longrightarrow>
   finite (dom (tables s)) \<Longrightarrow> owed s' r \<le> owed s r"
  unfolding owed_def by (intro add_mono card_mono finite_slots_of)


section \<open>Steps of the reference accounting\<close>

lemma gap_pos_iff: "0 < gap s r \<longleftrightarrow> (\<exists>h. get_header s r = Some h \<and> owed s r < unat (ReferenceCount h))"
  by (auto simp: gap_def split: option.splits)

lemma ex_invD:
  assumes "ex_inv s"
  shows "finite (dom (tables s))" "finite (dom (owners s))"
    "\<And>p tab. tables s p = Some tab \<Longrightarrow> length tab = 32"
    "\<And>p tab i. tables s p = Some tab \<Longrightarrow> i < 32 \<Longrightarrow> slot_ok s (tab ! i)"
    "\<And>t p. owners s t = Some (Some p) \<Longrightarrow> tables s p \<noteq> None"
    "\<And>r h. get_header s r = Some h \<Longrightarrow> header_ok s r h"
    "\<And>p pr. Processes s p = Some pr \<Longrightarrow> Owner (StdoutService pr) = Some p"
  using assms by (simp_all add: ex_inv_def)

lemma put_header_inv:
  assumes inv: "ex_inv s" and h: "get_header s r = Some h"
    and h': "ObjType h' = ObjType h" "DestroyRoutine h' = DestroyRoutine h"
    and base: "\<And>x. base_refs (put_header r h' s) x \<le> base_refs s x"
    and room: "owed s r \<le> unat (ReferenceCount h')"
  shows "ex_inv (put_header r h' s)" "\<And>x. x \<noteq> r \<Longrightarrow> gap s x \<le> gap (put_header r h' s) x"
    "unat (ReferenceCount h') - owed s r \<le> gap (put_header r h' s) r"
proof -
  define s' where "s' = put_header r h' s"
  have l: "get_header s r \<noteq> None" using h by simp
  note v = put_header_views [OF l, of h', folded s'_def]
  have le: "owed s' x \<le> owed s x" for x
    using base [of x] v(1) by (simp add: owed_def s'_def)
  have ok: "header_ok s' x hx" if "get_header s' x = Some hx" for x hx
  proof (cases "x = r")
    case True
    then show ?thesis using that v(3) h' ex_invD(6) [OF inv h] le [of r] room by (auto simp: header_ok_def)
  next
    case False
    then have "header_ok s x hx" using that v(3) ex_invD(6) [OF inv] by simp
    then show ?thesis using le [of x] by (auto simp: header_ok_def)
  qed
  have slot: "slot_ok s' sl" if "slot_ok s sl" for sl
    using that v(3) by (auto simp: slot_ok_def)
  have own: "Owner (StdoutService pr) = Some p" if "Processes s' p = Some pr" for p pr
    using put_header_owner [of r h' s p pr] that ex_invD(7) [OF inv] unfolding s'_def by fastforce
  show "ex_inv (put_header r h' s)"
    unfolding s'_def [symmetric] ex_inv_def v(1,2)
    using ex_invD(1-5) [OF inv] ok slot own by blast
  show "gap s x \<le> gap (put_header r h' s) x" if "x \<noteq> r" for x
    using v(3) [of x] that le [of x] unfolding s'_def [symmetric]
    by (auto simp: gap_def intro: diff_le_mono2 split: option.splits)
  show "unat (ReferenceCount h') - owed s r \<le> gap (put_header r h' s) r"
    using v(3) [of r] le [of r] unfolding s'_def [symmetric] by (simp add: gap_def diff_le_mono2)
qed

definition dec_count :: "EX_OBJECT_HEADER \<Rightarrow> EX_OBJECT_HEADER" where
  "dec_count h = h\<lparr>ReferenceCount := ReferenceCount h - 1\<rparr>"

definition inc_count :: "EX_OBJECT_HEADER \<Rightarrow> EX_OBJECT_HEADER" where
  "inc_count h = h\<lparr>ReferenceCount := ReferenceCount h + 1\<rparr>"

lemma unat_dec: "x \<noteq> 0 \<Longrightarrow> unat (x - 1) = unat x - 1" for x :: "'a::len word"
  by (metis unat_minus_one)

lemma base_refs_dec:
  assumes "get_header s r = Some h" "ReferenceCount h \<noteq> 0"
  shows "base_refs (put_header r (dec_count h) s) x \<le> base_refs s x"
proof -
  have l: "get_header s r \<noteq> None" using assms(1) by simp
  show ?thesis
  proof (cases x)
    case (StdoutHeader p)
    then show ?thesis
      using assms put_header_views(3) [OF l, of "dec_count h" "ProcessHeader p"]
      by (cases "r = ProcessHeader p") auto
  qed (use put_header_views(2) [OF l] in simp_all)
qed

lemma base_refs_inc:
  assumes "get_header s r = Some h" "ReferenceCount h \<noteq> 0" 
  shows "base_refs (put_header r (inc_count h) s) x \<le> base_refs s x"
proof -
  have l: "get_header s r \<noteq> None" using assms(1) by simp
  show ?thesis
  proof (cases x)
    case (StdoutHeader p)
    then show ?thesis
      using assms put_header_views(3) [OF l, of "inc_count h" "ProcessHeader p"]
      by (cases "r = ProcessHeader p") auto
  qed (use put_header_views(2) [OF l] in simp_all)
qed

definition gaps_drop :: "ex_state \<Rightarrow> obj_ref \<Rightarrow> ex_state \<Rightarrow> bool" where
  "gaps_drop s r s' \<longleftrightarrow> (\<forall>x. gap s x - (if x = r then 1 else 0) \<le> gap s' x)"

definition gaps_kept :: "ex_state \<Rightarrow> ex_state \<Rightarrow> bool" where
  "gaps_kept s s' \<longleftrightarrow> (\<forall>x. gap s x \<le> gap s' x)"

lemma dec_inv:
  assumes inv: "ex_inv s" and g: "0 < gap s r" and h: "get_header s r = Some h"
  shows "ex_inv (put_header r (dec_count h) s)" "gaps_drop s r (put_header r (dec_count h) s)"
proof -
  have o: "owed s r < unat (ReferenceCount h)" using g h by (auto simp: gap_pos_iff)
  then have n0: "ReferenceCount h \<noteq> 0" by auto
  have u: "unat (ReferenceCount (dec_count h)) = unat (ReferenceCount h) - 1"
    using n0 by (simp add: dec_count_def unat_dec)
  have eq: "ObjType (dec_count h) = ObjType h" "DestroyRoutine (dec_count h) = DestroyRoutine h"
    by (simp_all add: dec_count_def)
  note P = put_header_inv [OF inv h eq base_refs_dec [OF h n0]]
  show "ex_inv (put_header r (dec_count h) s)" by (rule P(1)) (use o u in simp)
  have "gap s r = unat (ReferenceCount h) - owed s r" using h by (simp add: gap_def)
  then have "gap s r - 1 \<le> gap (put_header r (dec_count h) s) r"
    using P(3) o u by (simp add: le_diff_conv)
  then show "gaps_drop s r (put_header r (dec_count h) s)"
    using P(2) o u by (auto simp: gaps_drop_def)
qed

lemma inc_inv:
  assumes inv: "ex_inv s" and h: "get_header s r = Some h"
    and n: "ReferenceCount h \<noteq> 0" "ReferenceCount h \<noteq> 0xFFFFFFFF"
  shows "ex_inv (put_header r (inc_count h) s)" "gaps_kept s (put_header r (inc_count h) s)"
    "gap s r < gap (put_header r (inc_count h) s) r"
proof -
  have o: "owed s r \<le> unat (ReferenceCount h)" using ex_invD(6) [OF inv h] by (simp add: header_ok_def)
  have "unat (ReferenceCount h) \<noteq> 0xFFFFFFFF" using n(2) unat_eqI [of "ReferenceCount h" "0xFFFFFFFF"] by auto
  then have "unat (ReferenceCount h) < 0xFFFFFFFF"
    using unsigned_less [of "ReferenceCount h", where 'a = nat] by simp
  then have u: "unat (ReferenceCount (inc_count h)) = unat (ReferenceCount h) + 1"
    by (simp add: inc_count_def unat_add_small)
  have eq: "ObjType (inc_count h) = ObjType h" "DestroyRoutine (inc_count h) = DestroyRoutine h"
    by (simp_all add: inc_count_def)
  note P = put_header_inv [OF inv h eq base_refs_inc [OF h n(1)]]
  show "ex_inv (put_header r (inc_count h) s)" by (rule P(1)) (use o u in simp)
  have "gap s r = unat (ReferenceCount h) - owed s r" using h by (simp add: gap_def)
  then show lt: "gap s r < gap (put_header r (inc_count h) s) r"
    using P(3) o u by simp
  show "gaps_kept s (put_header r (inc_count h) s)" unfolding gaps_kept_def
  proof
    fix x show "gap s x \<le> gap (put_header r (inc_count h) s) x"
      using P(2) [of x] lt o u by (cases "x = r") simp_all
  qed
qed


subsection \<open>Slot updates\<close>

lemma slots_of_update:
  assumes "T p = Some tab" "i < length tab"
  shows "slots_of (T(p \<mapsto> tab[i := sl])) x =
    slots_of T x - {(p, i)} \<union> (if SlotObject sl = Some x then {(p, i)} else {})"
  using assms by (auto simp: slots_of_def nth_list_update split: if_splits)

lemma set_slot_base: "tables s p = Some tab \<Longrightarrow> base_refs (set_slot p i sl s) x = base_refs s x"
  using set_slot_views by (cases x) simp_all

lemma set_slot_inv:
  assumes inv: "ex_inv s" and t: "tables s p = Some tab" "i < 32" and sl: "slot_ok s sl"
    and room: "\<And>x h. get_header s x = Some h \<Longrightarrow> owed (set_slot p i sl s) x \<le> unat (ReferenceCount h)"
  shows "ex_inv (set_slot p i sl s)"
proof -
  define s' where "s' = set_slot p i sl s"
  note v = set_slot_views [OF t(1), of i sl, folded s'_def]
  have len: "length tab = 32" using ex_invD(3) [OF inv t(1)] .
  have slot: "slot_ok s' x \<longleftrightarrow> slot_ok s x" for x by (simp add: slot_ok_def v(3))
  have own: "Owner (StdoutService pr) = Some q" if "Processes s' q = Some pr" for q pr
    using set_slot_owner [of p i sl s q pr] that ex_invD(7) [OF inv] unfolding s'_def by fastforce
  have tabs: "length tab' = 32 \<and> (\<forall>j < 32. slot_ok s' (tab' ! j))" if "tables s' q = Some tab'" for q tab'
  proof (cases "q = p")
    case True
    then show ?thesis using that v(1) len ex_invD(4) [OF inv t(1)] sl t(2)
      by (auto simp: slot nth_list_update)
  next
    case False
    then show ?thesis using that v(1) ex_invD(3,4) [OF inv] by (auto simp: slot)
  qed
  have live: "tables s' q \<noteq> None" if "owners s' t' = Some (Some q)" for t' q
    using that v(1,2) ex_invD(5) [OF inv] by simp
  have ok: "header_ok s' x h" if "get_header s' x = Some h" for x h
    using that ex_invD(6) [OF inv, of x h] room [of x h] v(3) [of x] unfolding header_ok_def s'_def
    by simp
  have "finite (dom (tables s'))" "finite (dom (owners s'))" using v ex_invD(1,2) [OF inv] by simp_all
  then show ?thesis unfolding s'_def [symmetric] ex_inv_def using tabs live ok own by blast
qed

lemma gap_le: "get_header s' x = get_header s x \<Longrightarrow> owed s' x \<le> owed s x \<Longrightarrow> gap s x \<le> gap s' x"
  by (auto simp: gap_def intro: diff_le_mono2 split: option.splits)

lemma clear_slot_inv:
  assumes inv: "ex_inv s" and t: "tables s p = Some tab" "i < 32" and r: "SlotObject (tab ! i) = Some r"
    and s': "s' = set_slot p i (KiClearHandleSlot (tab ! i)) s"
  shows "ex_inv s'" "gaps_kept s s'" "gap s r < gap s' r"
proof -
  note v = set_slot_views [OF t(1), of i "KiClearHandleSlot (tab ! i)", folded s']
  have len: "length tab = 32" using ex_invD(3) [OF inv t(1)] .
  have so: "slots_of (tables s') x = slots_of (tables s) x - {(p, i)}" for x
    unfolding v(1) using slots_of_update [of "tables s", OF t(1)] len t(2) by (simp add: KiClearHandleSlot_def)
  have base: "base_refs s' x = base_refs s x" for x using set_slot_base [OF t(1)] s' by simp
  have fin: "finite (slots_of (tables s) x)" for x using finite_slots_of ex_invD(1) [OF inv] by blast
  have le: "owed s' x \<le> owed s x" for x
    unfolding owed_def base so by (simp add: card_mono fin Diff_subset)
  have "(p, i) \<in> slots_of (tables s) r" using t len r by (auto simp: slots_of_def)
  then have "owed s' r + 1 = owed s r"
    unfolding owed_def base so using card_Suc_Diff1 [OF fin [of r]] by simp
  moreover obtain h where h: "get_header s r = Some h"
    using ex_invD(4) [OF inv t] r by (auto simp: slot_ok_def)
  moreover have "owed s r \<le> unat (ReferenceCount h)" using ex_invD(6) [OF inv h] by (simp add: header_ok_def)
  ultimately show "gap s r < gap s' r" using v(3) by (simp add: gap_def)
  show "gaps_kept s s'" using gap_le [OF v(3) le] by (simp add: gaps_kept_def)
  have "slot_ok s (KiClearHandleSlot (tab ! i))" by (simp add: slot_ok_def KiClearHandleSlot_def KiAdvance_valid)
  then show "ex_inv s'" unfolding s'
  proof (rule set_slot_inv [OF inv t])
    show "owed (set_slot p i (KiClearHandleSlot (tab ! i)) s) x \<le> unat (ReferenceCount h)"
      if "get_header s x = Some h" for x h
      using le [of x] ex_invD(6) [OF inv that] unfolding s' by (simp add: header_ok_def)
  qed
qed

lemma fill_slot_inv:
  assumes inv: "ex_inv s" and t: "tables s p = Some tab" "i < 32" and r: "SlotObject (tab ! i) = None"
    and g: "0 < gap s r" "valid_generation gen"
    and s': "s' = set_slot p i \<lparr>SlotObject = Some r, Rights = rights, Generation = gen\<rparr> s"
  shows "ex_inv s'" "gaps_drop s r s'"
proof -
  note v = set_slot_views [OF t(1), of i "\<lparr>SlotObject = Some r, Rights = rights, Generation = gen\<rparr>", folded s']
  have len: "length tab = 32" using ex_invD(3) [OF inv t(1)] .
  have no: "(p, i) \<notin> slots_of (tables s) x" for x using t r by (simp add: slots_of_def)
  then have so: "slots_of (tables s') x = slots_of (tables s) x \<union> (if x = r then {(p, i)} else {})" for x
    unfolding v(1) using slots_of_update [of "tables s", OF t(1)] len t(2) by auto
  have base: "base_refs s' x = base_refs s x" for x using set_slot_base [OF t(1)] s' by simp
  have fin: "finite (slots_of (tables s) x)" for x using finite_slots_of ex_invD(1) [OF inv] by blast
  have ow: "owed s' x = owed s x + (if x = r then 1 else 0)" for x
    unfolding owed_def base so using fin no by simp
  obtain h where h: "get_header s r = Some h" "owed s r < unat (ReferenceCount h)" using g by (auto simp: gap_pos_iff)
  show "gaps_drop s r s'"
    using v(3) ow by (auto simp: gaps_drop_def gap_def split: option.splits)
  have "slot_ok s \<lparr>SlotObject = Some r, Rights = rights, Generation = gen\<rparr>" using g h by (simp add: slot_ok_def)
  then show "ex_inv s'" unfolding s'
  proof (rule set_slot_inv [OF inv t])
    show "owed (set_slot p i \<lparr>SlotObject = Some r, Rights = rights, Generation = gen\<rparr> s) x \<le> unat (ReferenceCount h')"
      if "get_header s x = Some h'" for x h'
      using ow [of x] ex_invD(6) [OF inv that] that h unfolding s' by (auto simp: header_ok_def)
  qed
qed

subsection \<open>Freeing objects\<close>

lemma kfree_process_inv:
  assumes inv: "ex_inv s"
    and free: "slots_of (tables s) (ProcessHeader p) = {}" "slots_of (tables s) (StdoutHeader p) = {}"
      "threads_of (owners s) p = {}"
  shows "ex_inv (kfree_process p s)"
    "\<And>x. x \<noteq> ProcessHeader p \<Longrightarrow> x \<noteq> StdoutHeader p \<Longrightarrow> gap s x \<le> gap (kfree_process p s) x"
proof -
  define s' where "s' = kfree_process p s"
  note v = kfree_process_views [of p s, folded s'_def]
  have sub: "slots_of (tables s') x \<subseteq> slots_of (tables s) x" for x by (auto simp: slots_of_def v(1) split: if_splits)
  have base: "base_refs s' x \<le> base_refs s x" for x
    using v by (cases x) auto
  have le: "owed s' x \<le> owed s x" for x by (rule owed_le [OF base sub ex_invD(1) [OF inv]])
  have slot: "slot_ok s' (tab ! i)" if "tables s q = Some tab" "i < 32" for q tab i
  proof -
    have ok: "slot_ok s (tab ! i)" "length tab = 32" using ex_invD(3,4) [OF inv] that by auto
    then have "r \<noteq> ProcessHeader p \<and> r \<noteq> StdoutHeader p" if "SlotObject (tab ! i) = Some r" for r
      using that free(1,2) \<open>tables s q = Some tab\<close> \<open>i < 32\<close> by (force simp: slots_of_def)
    then show ?thesis using ok v(3) by (auto simp: slot_ok_def)
  qed
  have tabs: "length tab = 32 \<and> (\<forall>j < 32. slot_ok s' (tab ! j))" if "tables s' q = Some tab" for q tab
    using that v(1) slot ex_invD(3) [OF inv] by (auto split: if_splits)
  have live: "tables s' q \<noteq> None" if "owners s' t = Some (Some q)" for t q
    using that v(1,2) ex_invD(5) [OF inv, of t q] free(3) by (auto simp: threads_of_def)
  have ok: "header_ok s' x h" if "get_header s' x = Some h" for x h
  proof -
    have "get_header s x = Some h" using that v(3) by (simp split: if_splits)
    then have "header_ok s x h" using ex_invD(6) [OF inv] by blast
    then show ?thesis using le [of x] by (auto simp: header_ok_def)
  qed
  have own: "Owner (StdoutService pr) = Some q" if "Processes s' q = Some pr" for q pr
    using that ex_invD(7) [OF inv] by (auto simp: s'_def kfree_process_def split: if_splits)
  have "finite (dom (tables s'))" "finite (dom (owners s'))" using v ex_invD(1,2) [OF inv] by simp_all
  then show "ex_inv (kfree_process p s)" unfolding s'_def [symmetric] ex_inv_def using tabs live ok own by blast
  show "gap s x \<le> gap (kfree_process p s) x" if "x \<noteq> ProcessHeader p" "x \<noteq> StdoutHeader p" for x
    using gap_le [OF _ le] v(3) that unfolding s'_def by simp
qed

lemma kfree_thread_inv:
  assumes inv: "ex_inv s" and t: "owners s t = Some w"
    and free: "slots_of (tables s) (ThreadHeader t) = {}" "gap s (ThreadHeader t) = 0"
    and s': "s' = kfree_thread t (set_thread t th s)"
  shows "ex_inv s'" "gaps_kept s s'" "\<And>q. w = Some q \<Longrightarrow> gap s (ProcessHeader q) < gap s' (ProcessHeader q)"
proof -
  note v = kfree_thread_views [of t th s, folded s']
  have tsub: "threads_of (owners s') q \<subseteq> threads_of (owners s) q" for q by (auto simp: threads_of_def v(2) split: if_splits)
  have tfin: "finite (threads_of (owners s) q)" for q using finite_threads_of ex_invD(2) [OF inv] by blast
  have base: "base_refs s' x \<le> base_refs s x" for x
    using v(3) by (cases x) (auto intro!: card_mono tfin tsub)
  have le: "owed s' x \<le> owed s x" for x by (rule owed_le [OF base _ ex_invD(1) [OF inv]]) (simp add: v(1))
  have slot: "slot_ok s' (tab ! i)" if "tables s q = Some tab" "i < 32" for q tab i
  proof -
    have ok: "slot_ok s (tab ! i)" "length tab = 32" using ex_invD(3,4) [OF inv] that by auto
    then have "r \<noteq> ThreadHeader t" if "SlotObject (tab ! i) = Some r" for r
      using that free(1) \<open>tables s q = Some tab\<close> \<open>i < 32\<close> by (force simp: slots_of_def)
    then show ?thesis using ok v(3) by (auto simp: slot_ok_def)
  qed
  have tabs: "length tab = 32 \<and> (\<forall>j < 32. slot_ok s' (tab ! j))" if "tables s' q = Some tab" for q tab
    using that v(1) slot ex_invD(3) [OF inv] by auto
  have live: "tables s' q \<noteq> None" if "owners s' u = Some (Some q)" for u q
    using that v(1,2) ex_invD(5) [OF inv, of u q] by (auto split: if_splits)
  have ok: "header_ok s' x h" if "get_header s' x = Some h" for x h
  proof -
    have "get_header s x = Some h" using that v(3) by (simp split: if_splits)
    then have "header_ok s x h" using ex_invD(6) [OF inv] by blast
    then show ?thesis using le [of x] by (auto simp: header_ok_def)
  qed
  have own: "Owner (StdoutService pr) = Some q" if "Processes s' q = Some pr" for q pr
    using that ex_invD(7) [OF inv] by (auto simp: s' kfree_thread_def set_thread_def)
  have "finite (dom (tables s'))" "finite (dom (owners s'))" using v ex_invD(1,2) [OF inv] by simp_all
  then show "ex_inv s'" unfolding ex_inv_def using tabs live ok own by blast
  show "gaps_kept s s'" unfolding gaps_kept_def
  proof
    fix x show "gap s x \<le> gap s' x"
      by (cases "x = ThreadHeader t") (use free gap_le [OF _ le] v(3) in auto)
  qed
  show "gap s (ProcessHeader q) < gap s' (ProcessHeader q)" if w: "w = Some q" for q
  proof -
    have "threads_of (owners s) q = insert t (threads_of (owners s') q)" "t \<notin> threads_of (owners s') q"
      using t w by (auto simp: threads_of_def v(2))
    then have o: "owed s (ProcessHeader q) = owed s' (ProcessHeader q) + 1"
      using tfin [of q] by (simp add: owed_def v(1))
    obtain h where h: "get_header s (ProcessHeader q) = Some h"
      using ex_invD(5) [OF inv, of t q] t w live_tables(1) [of s q] by auto
    moreover have "owed s (ProcessHeader q) \<le> unat (ReferenceCount h)"
      using ex_invD(6) [OF inv h] by (simp add: header_ok_def)
    ultimately show ?thesis using o v(3) by (simp add: gap_def)
  qed
qed


section \<open>Releasing never faults\<close>

definition tables_shrink :: "ex_state \<Rightarrow> ex_state \<Rightarrow> bool" where
  "tables_shrink s s' \<longleftrightarrow> (\<forall>q. tables s' q = tables s q \<or> tables s' q = None)"

lemma tables_shrink_trans: "tables_shrink s s' \<Longrightarrow> tables_shrink s' s'' \<Longrightarrow> tables_shrink s s''"
  by (metis tables_shrink_def)

definition released :: "obj_ref \<Rightarrow> ex_state \<Rightarrow> ex_state \<Rightarrow> bool" where
  "released r s s' \<longleftrightarrow> ex_inv s' \<and> gaps_drop s r s' \<and> tables_shrink s s'"

lemma released_dec:
  assumes "ex_inv s" "0 < gap s r" "get_header s r = Some h"
  shows "released r s (put_header r (dec_count h) s)"
  using dec_inv [OF assms] put_header_views(1) [of s r] assms(3) by (auto simp: released_def tables_shrink_def)

text \<open>The common part of every release: the header passes the checks and the count drops.\<close>

lemma ExObjectRelease_live:
  assumes inv: "ex_inv s" and g: "0 < gap s r" and h: "get_header s r = Some h"
  shows "ExObjectRelease run (Some r) (ref_type r) m s =
    (if ReferenceCount h = 1
     then bind_outcome (run (ref_routine r) r (put_header r (dec_count h) s)) (\<lambda>(st, s2). Done (st, 0, s2))
     else Done (EC_SUCCESS, ReferenceCount h - 1, put_header r (dec_count h) s))"
proof -
  have "header_ok s r h" using ex_invD(6) [OF inv h] .
  moreover have "ReferenceCount h \<noteq> 0" using g h by (auto simp: gap_pos_iff)
  moreover have "ReferenceCount h - 1 = 0 \<longleftrightarrow> ReferenceCount h = 1" by auto
  moreover have "ExObjectIsValidType (ref_type r)" by (cases r) simp_all
  ultimately show ?thesis using h
    by (auto simp: ExObjectRelease_def header_ok_def dec_count_def Let_def)
qed

lemma release_stdout:
  assumes inv: "ex_inv s" and g: "0 < gap s (StdoutHeader p)" and h: "get_header s (StdoutHeader p) = Some h"
    and run: "\<And>r s. run DestroyStdoutService r s = KiDestroyStdoutServiceObject (Some r) s"
  shows "ExObjectRelease run (Some (StdoutHeader p)) EX_OBJECT_TYPE_CONSOLE m s =
    Done (EC_SUCCESS, ReferenceCount h - 1, put_header (StdoutHeader p) (dec_count h) s)"
proof -
  have l: "get_header s (StdoutHeader p) \<noteq> None" using h by simp
  have "KiDestroyStdoutServiceObject (Some (StdoutHeader p)) (put_header (StdoutHeader p) (dec_count h) s) =
      Done (EC_SUCCESS, put_header (StdoutHeader p) (dec_count h) s)"
    using ex_invD(6) [OF inv h] put_header_views(3) [OF l, of "dec_count h" "StdoutHeader p"]
    by (simp add: KiDestroyStdoutServiceObject_def header_ok_def dec_count_def)
  then show ?thesis
    using ExObjectRelease_live [OF inv g h, of run m] run
    by simp
qed

text \<open>A process whose count has reached zero: its service is released, then it is freed.\<close>

lemma gap_zero_count: "get_header s x = Some h \<Longrightarrow> ReferenceCount h = 0 \<Longrightarrow> gap s x = 0"
  by (simp add: gap_def)

lemma owed_zero_count:
  assumes "ex_inv s" "get_header s x = Some h" "ReferenceCount h = 0"
  shows "slots_of (tables s) x = {}" "base_refs s x = 0"
proof -
  have "owed s x = 0" using ex_invD(6) [OF assms(1,2)] assms(3) by (simp add: header_ok_def)
  then show "slots_of (tables s) x = {}" "base_refs s x = 0"
    using finite_slots_of [OF ex_invD(1) [OF assms(1)], of x] by (simp_all add: owed_def)
qed

lemma destroy_process:
  assumes inv: "ex_inv s" and h: "get_header s (ProcessHeader p) = Some h" "ReferenceCount h = 0"
    and g: "0 < gap s (StdoutHeader p)"
  shows "\<exists>st s'. KiDestroyProcessObject (Some (ProcessHeader p)) s = Done (st, s') \<and> released (StdoutHeader p) s s'"
proof -
  obtain hs where hs: "get_header s (StdoutHeader p) = Some hs" using g by (auto simp: gap_pos_iff)
  define s1 where "s1 = put_header (StdoutHeader p) (dec_count hs) s"
  have l: "get_header s (StdoutHeader p) \<noteq> None" using hs by simp
  note v = put_header_views [OF l, of "dec_count hs", folded s1_def]
  have rel: "released (StdoutHeader p) s s1" using released_dec [OF inv g hs] by (simp add: s1_def)
  have eq: "KiDestroyProcessObject (Some (ProcessHeader p)) s =
      (if ReferenceCount hs = 1 then Done (EC_SUCCESS, kfree_process p s1) else Done (EC_INVALID_STATE, s1))"
    using ex_invD(6) [OF inv h(1)] h release_stdout [OF inv g hs, of run_stdout 0] 
    by (auto simp: KiDestroyProcessObject_def header_ok_def ExRuntimeReleaseStdoutServiceOwner_def s1_def)
  have inv1: "ex_inv s1" using rel by (simp add: released_def)
  have "released (StdoutHeader p) s (kfree_process p s1)" if one: "ReferenceCount hs = 1"
  proof -
    have c: "get_header s1 (ProcessHeader p) = Some h" "get_header s1 (StdoutHeader p) = Some (dec_count hs)"
      "ReferenceCount (dec_count hs) = 0" using v(3) h one by (simp_all add: dec_count_def)
    note z = owed_zero_count [OF inv1 c(1) h(2)] owed_zero_count [OF inv1 c(2,3)]
    have "finite (threads_of (owners s1) p)" using finite_threads_of ex_invD(2) [OF inv1] by blast
    then have free: "threads_of (owners s1) p = {}" using z(2) by simp
    note K = kfree_process_inv [OF inv1 z(1) z(3) free]
    have "gap s1 x \<le> gap (kfree_process p s1) x" for x
      using K(2) [of x] gap_zero_count [OF c(1) h(2)] gap_zero_count [OF c(2,3)] by fastforce
    then have "gaps_drop s (StdoutHeader p) (kfree_process p s1)"
      using rel unfolding released_def gaps_drop_def by (meson order_trans)
    moreover have "tables_shrink s (kfree_process p s1)"
      using v(1) by (simp add: tables_shrink_def kfree_process_views)
    ultimately show ?thesis using K(1) by (simp add: released_def)
  qed
  then show ?thesis using eq rel by (cases "ReferenceCount hs = 1") auto
qed

lemma gaps_drop_lift:
  assumes "gaps_drop s r s1" "gaps_drop s1 x s2" "gap s x < gap s1 x" "x \<noteq> r"
  shows "gaps_drop s r s2"
  unfolding gaps_drop_def
proof
  fix y
  have a: "gap s y - (if y = r then 1 else 0) \<le> gap s1 y" and b: "gap s1 y - (if y = x then 1 else 0) \<le> gap s2 y"
    using assms(1,2) by (simp_all add: gaps_drop_def)
  show "gap s y - (if y = r then 1 else 0) \<le> gap s2 y"
    using a b assms(3,4) by (cases "y = x") auto
qed

lemma release_process_inv:
  assumes inv: "ex_inv s" and g: "0 < gap s (ProcessHeader p)"
  shows "\<exists>st s'. ExRuntimeReleaseProcess (Some p) s = Done (st, s') \<and> released (ProcessHeader p) s s'"
proof -
  let ?r = "ProcessHeader p"
  obtain h where h: "get_header s ?r = Some h" "owed s ?r < unat (ReferenceCount h)" using g by (auto simp: gap_pos_iff)
  define s1 where "s1 = put_header ?r (dec_count h) s"
  have l: "get_header s ?r \<noteq> None" using h by simp
  note v = put_header_views [OF l, of "dec_count h", folded s1_def]
  have rel: "released ?r s s1" using released_dec [OF inv g h(1)] by (simp add: s1_def)
  then have inv1: "ex_inv s1" and dr: "gaps_drop s ?r s1" by (simp_all add: released_def)
  note L = ExObjectRelease_live [OF inv g h(1), of run_process 0, folded s1_def]
  show ?thesis
  proof (cases "ReferenceCount h = 1")
    case False
    then show ?thesis using L rel by (simp add: ExRuntimeReleaseProcess_def drop_remaining_def)
  next
    case True
    have c: "get_header s1 ?r = Some (dec_count h)" "ReferenceCount (dec_count h) = 0"
      using v(3) True by (simp_all add: dec_count_def)
    obtain hs where hs: "get_header s (StdoutHeader p) = Some hs"
      using h(1) live_tables(1,2) [of s p] by fastforce
    have hs1: "get_header s1 (StdoutHeader p) = Some hs" using v(3) hs by simp
    have ow: "owed s (StdoutHeader p) \<le> unat (ReferenceCount hs)" using ex_invD(6) [OF inv hs] by (simp add: header_ok_def)
    have "owed s (StdoutHeader p) = owed s1 (StdoutHeader p) + 1"
      using h True c v(1) by (simp add: owed_def)
    then have gt: "gap s (StdoutHeader p) < gap s1 (StdoutHeader p)"
      using ow hs hs1 by (simp add: gap_def)
    then obtain st s2 where d: "KiDestroyProcessObject (Some ?r) s1 = Done (st, s2)" "released (StdoutHeader p) s1 s2"
      using destroy_process [OF inv1 c] by fastforce
    have "gaps_drop s ?r s2"
      by (rule gaps_drop_lift [OF dr _ gt]) (use d(2) in \<open>simp_all add: released_def\<close>)
    then have "released ?r s s2" using d(2) rel tables_shrink_trans by (auto simp: released_def)
    then show ?thesis using L True d(1) by (simp add: ExRuntimeReleaseProcess_def drop_remaining_def)
  qed
qed

lemma release_thread_inv:
  assumes inv: "ex_inv s" and g: "0 < gap s (ThreadHeader t)"
  shows "\<exists>st s'. ExRuntimeReleaseThread (Some t) s = Done (st, s') \<and> released (ThreadHeader t) s s'"
proof -
  let ?r = "ThreadHeader t"
  obtain h where h: "get_header s ?r = Some h" "owed s ?r < unat (ReferenceCount h)" using g by (auto simp: gap_pos_iff)
  define s1 where "s1 = put_header ?r (dec_count h) s"
  have l: "get_header s ?r \<noteq> None" using h by simp
  note v = put_header_views [OF l, of "dec_count h", folded s1_def]
  have rel: "released ?r s s1" using released_dec [OF inv g h(1)] by (simp add: s1_def)
  then have inv1: "ex_inv s1" and dr: "gaps_drop s ?r s1" by (simp_all add: released_def)
  note L = ExObjectRelease_live [OF inv g h(1), of run_thread 0, folded s1_def]
  show ?thesis
  proof (cases "ReferenceCount h = 1")
    case False
    then show ?thesis using L rel by (simp add: ExRuntimeReleaseThread_def drop_remaining_def)
  next
    case True
    have c: "get_header s1 ?r = Some (dec_count h)" "ReferenceCount (dec_count h) = 0"
      using v(3) True by (simp_all add: dec_count_def)
    obtain th where th: "Threads s1 t = Some th" using c(1) by (auto simp: get_header.simps)
    define s2 where "s2 = kfree_thread t (set_thread t (th\<lparr>KernelThread := None, ThreadProcess := None\<rparr>) s1)"
    have ow: "owners s1 t = Some (ThreadProcess th)" using th by (simp add: owners_def)
    note K = kfree_thread_inv [OF inv1 ow owed_zero_count(1) [OF inv1 c] gap_zero_count [OF c] s2_def]
    have sh: "tables_shrink s s2" using kfree_thread_views(1) v(1) by (simp add: tables_shrink_def s2_def)
    have dr2: "gaps_drop s ?r s2"
      using dr K(2) unfolding gaps_drop_def gaps_kept_def by (meson order_trans)
    have D: "KiDestroyThreadObject (Some ?r) s1 =
        (if ThreadProcess th \<noteq> None then ExRuntimeReleaseProcess (ThreadProcess th) s2 else Done (EC_SUCCESS, s2))"
      using ex_invD(6) [OF inv1 c(1)] c th by (simp add: KiDestroyThreadObject_def header_ok_def s2_def Let_def)
    show ?thesis
    proof (cases "ThreadProcess th")
      case None
      then show ?thesis using L True D K(1) sh dr2
        by (simp add: ExRuntimeReleaseThread_def drop_remaining_def released_def)
    next
      case (Some q)
      have gt: "gap s1 (ProcessHeader q) < gap s2 (ProcessHeader q)" using K(3) Some by simp
      moreover have "gap s (ProcessHeader q) \<le> gap s1 (ProcessHeader q)" using dr by (auto simp: gaps_drop_def dest: spec [of _ "ProcessHeader q"])
      ultimately have gq: "gap s (ProcessHeader q) < gap s2 (ProcessHeader q)" by simp
      then obtain st s3 where d: "ExRuntimeReleaseProcess (Some q) s2 = Done (st, s3)" "released (ProcessHeader q) s2 s3"
        using release_process_inv [OF K(1), of q] by fastforce
      have "gaps_drop s ?r s3"
        by (rule gaps_drop_lift [OF dr2 _ gq]) (use d(2) in \<open>simp_all add: released_def\<close>)
      then have "released ?r s s3" using d(2) sh tables_shrink_trans by (auto simp: released_def)
      then show ?thesis using L True D Some d(1) by (simp add: ExRuntimeReleaseThread_def drop_remaining_def)
    qed
  qed
qed

lemma release_handle_inv:
  assumes inv: "ex_inv s" and g: "0 < gap s r"
  shows "\<exists>st s'. KiReleaseHandleObject (Some r) s = Done (st, s') \<and> released r s s'"
proof -
  obtain h where h: "get_header s r = Some h" using g by (auto simp: gap_pos_iff)
  have ty: "ObjType h = ref_type r" using ex_invD(6) [OF inv h] by (simp add: header_ok_def)
  show ?thesis
  proof (cases r)
    case (ProcessHeader p)
    then show ?thesis using release_process_inv [OF inv, of p] g h ty by (simp add: KiReleaseHandleObject_def)
  next
    case (ThreadHeader t)
    then show ?thesis using release_thread_inv [OF inv, of t] g h ty by (simp add: KiReleaseHandleObject_def)
  next
    case (StdoutHeader p)
    then show ?thesis
      using release_stdout [OF inv, of p h run_thread 0] g h ty released_dec [OF inv g h]
      by (simp add: KiReleaseHandleObject_def drop_remaining_def)
  qed
qed


section \<open>Handle operations keep the accounting\<close>

definition retainable :: "ex_state \<Rightarrow> obj_ref \<Rightarrow> bool" where
  "retainable s r \<longleftrightarrow> (case get_header s r of None \<Rightarrow> False
     | Some h \<Rightarrow> ReferenceCount h \<noteq> 0 \<and> ReferenceCount h \<noteq> 0xFFFFFFFF)"

lemma retain_inv:
  assumes inv: "ex_inv s" and r: "retainable s r"
  obtains h where "get_header s r = Some h"
    "ExObjectRetain (Some r) (ref_type r) s = Done (EC_SUCCESS, put_header r (inc_count h) s)"
    "ex_inv (put_header r (inc_count h) s)" "gaps_kept s (put_header r (inc_count h) s)"
    "gap s r < gap (put_header r (inc_count h) s) r" "tables (put_header r (inc_count h) s) = tables s"
proof -
  obtain h where h: "get_header s r = Some h" "ReferenceCount h \<noteq> 0" "ReferenceCount h \<noteq> 0xFFFFFFFF"
    using r by (auto simp: retainable_def split: option.splits)
  have "ExObjectIsValidType (ref_type r)" by (cases r) simp_all
  then have "ExObjectRetain (Some r) (ref_type r) s = Done (EC_SUCCESS, put_header r (inc_count h) s)"
    using ex_invD(6) [OF inv h(1)] h by (simp add: ExObjectRetain_def header_ok_def inc_count_def)
  then show thesis using that [OF h(1)] inc_inv [OF inv h] put_header_views(1) [of s r] h(1) by simp
qed

lemma first_index_less: "first_index P xs < length xs \<Longrightarrow> P (xs ! first_index P xs)"
  by (induction xs) auto

lemma first_index_le: "first_index P xs \<le> length xs"
  by (induction xs) auto

lemma first_index_least: "i < first_index P xs \<Longrightarrow> \<not> P (xs ! i)"
  by (induction xs arbitrary: i) (auto simp: nth_Cons split: if_splits nat.splits)

lemma first_index_bound: "first_index P xs < length xs \<longleftrightarrow> (\<exists>x \<in> set xs. P x)"
  by (induction xs) auto

definition insert_generation :: "EX_HANDLE_SLOT \<Rightarrow> u32" where
  "insert_generation slot = (if Generation slot = 0 then KiAdvanceHandleGeneration 0 else Generation slot)"

lemma encode_nonzero:
  assumes "i < 32" "valid_generation g"
  shows "KiDecodeHandle (KiEncodeHandle (word_of_nat i) g) = Some (word_of_nat i, g)"
    "KiEncodeHandle (word_of_nat i) g \<noteq> EX_HANDLE_INVALID" "unat (word_of_nat i :: u32) = i"
proof -
  show u: "unat (word_of_nat i :: u32) = i" using assms(1) by (simp add: unsigned_of_nat take_bit_nat_eq_self)
  have "(word_of_nat i :: u32) < EX_MAX_HANDLES_PER_PROCESS"
    using assms(1) u by (simp add: word_less_nat_alt EX_MAX_HANDLES_PER_PROCESS_def)
  then show d: "KiDecodeHandle (KiEncodeHandle (word_of_nat i) g) = Some (word_of_nat i, g)"
    using assms(2) by (rule KiDecode_KiEncode)
  show "KiEncodeHandle (word_of_nat i) g \<noteq> EX_HANDLE_INVALID"
    using d by (auto simp: KiDecodeHandle_def)
qed

lemma ExHandleInsert_success:
  assumes inv: "ex_inv s" and t: "tables s p = Some tab" and r: "retainable s r" and rights: "rights \<noteq> EX_HANDLE_RIGHT_NONE"
    and i: "i = first_index (\<lambda>sl. SlotObject sl = None) tab" "i < 32"
    and g: "g = insert_generation (tab ! i)"
  obtains s' where "ExHandleInsert (Some p) (Some r) rights oh s = Done (EC_SUCCESS, KiEncodeHandle (word_of_nat i) g, s')"
    "ex_inv s'" "gaps_kept s s'" "valid_generation g"
    "tables s' = (tables s)(p \<mapsto> tab[i := \<lparr>SlotObject = Some r, Rights = rights, Generation = g\<rparr>])"
    "\<And>x. map_option ReferenceCount (get_header s' x) =
       (if x = r then map_option (\<lambda>h. ReferenceCount h + 1) (get_header s x) else map_option ReferenceCount (get_header s x))"
proof -
  obtain h where R: "get_header s r = Some h"
    "ExObjectRetain (Some r) (ref_type r) s = Done (EC_SUCCESS, put_header r (inc_count h) s)"
    "ex_inv (put_header r (inc_count h) s)" "gaps_kept s (put_header r (inc_count h) s)"
    "gap s r < gap (put_header r (inc_count h) s) r" "tables (put_header r (inc_count h) s) = tables s"
    using retain_inv [OF inv r] .
  define s1 where "s1 = put_header r (inc_count h) s"
  define s' where "s' = set_slot p i \<lparr>SlotObject = Some r, Rights = rights, Generation = g\<rparr> s1"
  obtain pr where pr: "Processes s p = Some pr" "HandleTable pr = tab" using t by (auto simp: tables_def)
  have len: "length tab = 32" using ex_invD(3) [OF inv t] .
  have free: "SlotObject (tab ! i) = None" using first_index_less [of "\<lambda>sl. SlotObject sl = None" tab] i len by simp
  have "slot_ok s (tab ! i)" using ex_invD(4) [OF inv t] i by blast
  then have vg: "valid_generation g" using KiAdvance_valid by (auto simp: g insert_generation_def slot_ok_def)
  have t1: "tables s1 p = Some tab" using R(6) t by (simp add: s1_def)
  have F: "ex_inv s'" "gaps_drop s1 r s'"
    using fill_slot_inv [OF R(3) [folded s1_def] t1 i(2) free _ vg s'_def] R(5) by (simp_all add: s1_def)
  have gk: "gaps_kept s s'" unfolding gaps_kept_def
  proof
    fix x
    have a: "gap s x \<le> gap s1 x" and b: "gap s1 x - (if x = r then 1 else 0) \<le> gap s' x"
      using R(4) F(2) by (simp_all add: gaps_kept_def gaps_drop_def s1_def)
    show "gap s x \<le> gap s' x" using a b R(5) unfolding s1_def [symmetric] by (cases "x = r") auto
  qed
  have ty: "ObjType h = ref_type r" using ex_invD(6) [OF inv R(1)] by (simp add: header_ok_def)
  have "ExObjectIsValidType (ref_type r)" by (cases r) simp_all
  then have "KiRetainHandleObject (Some r) s = Done (EC_SUCCESS, s1)"
    using R(1,2) ty by (simp add: KiRetainHandleObject_def s1_def)
  then have "ExHandleInsert (Some p) (Some r) rights oh s = Done (EC_SUCCESS, KiEncodeHandle (word_of_nat i) g, s')"
    using rights pr i len encode_nonzero(2) [OF i(2) vg]
    by (simp add: ExHandleInsert_def Let_def s'_def g insert_generation_def)
  moreover have "tables s' = (tables s)(p \<mapsto> tab[i := \<lparr>SlotObject = Some r, Rights = rights, Generation = g\<rparr>])"
    using set_slot_views(1) [OF t1] R(6) by (simp add: s'_def s1_def)
  moreover have "map_option ReferenceCount (get_header s' x) =
       (if x = r then map_option (\<lambda>h. ReferenceCount h + 1) (get_header s x) else map_option ReferenceCount (get_header s x))" for x
    using set_slot_views(3) [OF t1] put_header_views(3) [of s r "inc_count h" x] R(1) by (simp add: s'_def s1_def inc_count_def)
  ultimately show thesis using that F(1) gk vg by blast
qed

lemma ExHandleInsert_full:
  assumes "tables s p = Some tab" "\<forall>sl \<in> set tab. SlotObject sl \<noteq> None" "rights \<noteq> EX_HANDLE_RIGHT_NONE"
  shows "ExHandleInsert (Some p) (Some r) rights oh s = Done (EC_OUT_OF_RESOURCE, EX_HANDLE_INVALID, s)"
  using assms first_index_bound [of "\<lambda>sl. SlotObject sl = None" tab]
  by (auto simp: ExHandleInsert_def tables_def Let_def)

lemma ExHandleResolve_iff:
  assumes inv: "ex_inv s" and t: "tables s p = Some tab" and d: "KiDecodeHandle handle = Some (i, g)"
    and ty: "ExObjectIsValidType ty"
  shows "(\<exists>s'. ExHandleResolve (Some p) handle ty desired s = Done (Inr r, s')) \<longleftrightarrow>
    SlotObject (tab ! unat i) = Some r \<and> Generation (tab ! unat i) = g \<and>
    Rights (tab ! unat i) AND desired = desired \<and> ref_type r = ty \<and>
    (\<exists>h. get_header s r = Some h \<and> ReferenceCount h \<noteq> 0)"
proof -
  obtain pr where pr: "Processes s p = Some pr" "HandleTable pr = tab" using t by (auto simp: tables_def)
  have i: "unat i < 32" using KiDecode_Some(1) [OF d] by (simp add: word_less_nat_alt EX_MAX_HANDLES_PER_PROCESS_def)
  show ?thesis
  proof (cases "SlotObject (tab ! unat i)")
    case None
    then show ?thesis using pr d ty by (auto simp: ExHandleResolve_def KiLookupHandleSlot_def Let_def)
  next
    case (Some x)
    have so: "slot_ok s (tab ! unat i)" using ex_invD(4) [OF inv t i] .
    then obtain h where h: "get_header s x = Some h" using Some by (auto simp: slot_ok_def)
    have ht: "ObjType h = ref_type x" using ex_invD(6) [OF inv h] by (simp add: header_ok_def)
    show ?thesis using pr d ty Some h ht
      by (auto simp: ExHandleResolve_def KiLookupHandleSlot_def Let_def ExObjectRetain_def)
  qed
qed

lemma ExHandleResolve_stale:
  assumes "tables s p = Some tab" "KiDecodeHandle handle = Some (i, g)" "ExObjectIsValidType ty"
    and "SlotObject (tab ! unat i) = None \<or> Generation (tab ! unat i) \<noteq> g"
  shows "ExHandleResolve (Some p) handle ty desired s = Done (Inl EC_INVALID_STATE, s)"
  using assms by (auto simp: ExHandleResolve_def KiLookupHandleSlot_def Let_def tables_def split: option.splits)


section \<open>Closing\<close>

text \<open>Updates of fields the accounting does not look at.\<close>

definition same_refs :: "ex_state \<Rightarrow> ex_state \<Rightarrow> bool" where
  "same_refs s s' \<longleftrightarrow> tables s' = tables s \<and> owners s' = owners s \<and> (\<forall>r. get_header s' r = get_header s r) \<and>
     (\<forall>p. map_option (\<lambda>pr. Owner (StdoutService pr)) (Processes s' p) =
          map_option (\<lambda>pr. Owner (StdoutService pr)) (Processes s p))"

lemma same_refs_refl [simp]: "same_refs s s"
  by (simp add: same_refs_def)

lemma same_refs_inv:
  assumes inv: "ex_inv s" and same: "same_refs s s'"
  shows "ex_inv s'" "gap s' r = gap s r" "tables s' = tables s"
proof -
  have v: "tables s' = tables s" "owners s' = owners s" "\<And>r. get_header s' r = get_header s r"
    and own: "\<And>p. map_option (\<lambda>pr. Owner (StdoutService pr)) (Processes s' p) =
          map_option (\<lambda>pr. Owner (StdoutService pr)) (Processes s p)" using same by (auto simp: same_refs_def)
  have b: "base_refs s' x = base_refs s x" for x by (cases x) (simp_all add: v)
  have o: "owed s' x = owed s x" for x by (simp add: owed_def v b)
  have sl: "slot_ok s' x = slot_ok s x" for x by (simp add: slot_ok_def v)
  have ho: "header_ok s' x h = header_ok s x h" for x h by (simp add: header_ok_def o)
  have w: "Owner (StdoutService pr) = Some p" if "Processes s' p = Some pr" for p pr
    using own [of p] that ex_invD(7) [OF inv, of p] by (auto simp: map_option_case split: option.splits)
  show "ex_inv s'" using inv w by (auto simp: ex_inv_def v sl ho)
  show "gap s' r = gap s r" by (simp add: gap_def v o cong: option.case_cong)
  show "tables s' = tables s" by (rule v)
qed

lemma set_process_same:
  assumes "Processes s p = Some pr" "ProcHeader pr' = ProcHeader pr" "StdoutService pr' = StdoutService pr"
    "HandleTable pr' = HandleTable pr"
  shows "same_refs s (set_process p pr' s)"
proof -
  have "get_header (set_process p pr' s) r = get_header s r" for r
    using assms by (cases r) (auto simp: get_header.simps set_process_def)
  then show ?thesis using assms by (auto simp: same_refs_def tables_def owners_def set_process_def fun_eq_iff)
qed

lemma set_thread_same:
  assumes "Threads s t = Some th" "ThreadHdr th' = ThreadHdr th" "ThreadProcess th' = ThreadProcess th"
  shows "same_refs s (set_thread t th' s)"
proof -
  have "get_header (set_thread t th' s) r = get_header s r" for r
    using assms by (cases r) (auto simp: get_header.simps set_thread_def)
  then show ?thesis using assms by (auto simp: same_refs_def tables_def owners_def set_thread_def fun_eq_iff)
qed

lemma invalidate_same:
  assumes inv: "ex_inv s" and h: "get_header s r \<noteq> None"
  shows "\<exists>s'. KiInvalidateObjectSelfHandleIfMatch (Some r) hv s = Done s' \<and> same_refs s s'"
proof -
  obtain hr where hr: "get_header s r = Some hr" using h by blast
  have ty: "ObjType hr = ref_type r" using ex_invD(6) [OF inv hr] by (simp add: header_ok_def)
  show ?thesis
  proof (cases r)
    case (ProcessHeader p)
    then obtain pr where "Processes s p = Some pr" using hr by (auto simp: get_header.simps)
    then show ?thesis using ProcessHeader hr ty
      by (simp add: KiInvalidateObjectSelfHandleIfMatch_def Let_def set_process_same)
  next
    case (ThreadHeader t)
    then obtain th where "Threads s t = Some th" using hr by (auto simp: get_header.simps)
    then show ?thesis using ThreadHeader hr ty
      by (simp add: KiInvalidateObjectSelfHandleIfMatch_def Let_def set_thread_same)
  next
    case (StdoutHeader p)
    then obtain pr where "Processes s p = Some pr" using hr by (auto simp: get_header.simps)
    then show ?thesis using StdoutHeader hr ty ex_invD(7) [OF inv]
      by (simp add: KiInvalidateObjectSelfHandleIfMatch_def Let_def set_process_same)
  qed
qed

lemma gap_pos_table: "0 < gap s (ProcessHeader p) \<Longrightarrow> tables s p \<noteq> None"
  using live_tables(1) [of s p] by (auto simp: gap_pos_iff)

lemma close_slot_inv:
  assumes inv: "ex_inv s" and t: "tables s p = Some tab" "i < 32" and r: "SlotObject (tab ! i) = Some r"
    and own: "0 < gap s (ProcessHeader p)"
  shows "\<exists>st s'. close_slot p i r hv s = Done (st, s') \<and> ex_inv s' \<and> gaps_kept s s' \<and>
    tables s' p = Some (tab[i := KiClearHandleSlot (tab ! i)])"
proof -
  have "get_header s r \<noteq> None" using ex_invD(4) [OF inv t] r by (auto simp: slot_ok_def)
  then obtain s1 where s1: "KiInvalidateObjectSelfHandleIfMatch (Some r) hv s = Done s1" "ex_inv s1"
    "tables s1 = tables s" "\<forall>x. gap s1 x = gap s x" using invalidate_same [OF inv] same_refs_inv [OF inv] by metis
  define s2 where "s2 = set_slot p i (KiClearHandleSlot (tab ! i)) s1"
  have t1: "tables s1 p = Some tab" using s1(3) t by simp
  note C = clear_slot_inv [OF s1(2) t1 t(2) r s2_def]
  obtain st s3 where R: "KiReleaseHandleObject (Some r) s2 = Done (st, s3)" "released r s2 s3"
    using release_handle_inv [OF C(1), of r] C(3) by fastforce
  have gk: "gaps_kept s s3" unfolding gaps_kept_def
  proof
    fix x
    have "gap s2 x - (if x = r then 1 else 0) \<le> gap s3 x" using R(2) by (simp add: released_def gaps_drop_def)
    moreover have "gap s1 x \<le> gap s2 x" using C(2) by (simp add: gaps_kept_def)
    ultimately show "gap s x \<le> gap s3 x" using C(3) s1(4) by (cases "x = r") auto
  qed
  then have "0 < gap s3 (ProcessHeader p)" using own unfolding gaps_kept_def by (meson less_le_trans)
  then have "tables s3 p = tables s2 p" using R(2) gap_pos_table [of s3 p] by (auto simp: released_def tables_shrink_def)
  then have "tables s3 p = Some (tab[i := KiClearHandleSlot (tab ! i)])"
    using set_slot_views(1) [OF t1] by (simp add: s2_def)
  moreover obtain pr where "Processes s1 p = Some pr" "HandleTable pr = tab" using t1 by (auto simp: tables_def)
  ultimately show ?thesis using s1(1) R gk by (simp add: close_slot_def s2_def released_def)
qed

lemma validate_ok:
  assumes inv: "ex_inv s" and sl: "slot_ok s sl"
  shows "\<exists>st. KiValidateCloseHandleSlot (Some sl) allow s = Done st"
proof (cases "SlotObject sl")
  case (Some r)
  then obtain h where h: "get_header s r = Some h" using sl by (auto simp: slot_ok_def)
  have ty: "ObjType h = ref_type r" using ex_invD(6) [OF inv h] by (simp add: header_ok_def)
  have "\<exists>b. ExRuntimeIsPublishedObject (Some r) s = Done b"
    using h ty by (cases r) (auto simp: ExRuntimeIsPublishedObject_def)
  then obtain b where "ExRuntimeIsPublishedObject (Some r) s = Done b" by blast
  then show ?thesis using Some h by (simp add: KiValidateCloseHandleSlot_def Let_def)
qed (simp add: KiValidateCloseHandleSlot_def)

lemma retain_process:
  assumes "ex_inv s" "retainable s (ProcessHeader p)"
  obtains s1 where "ExRuntimeRetainProcess (Some p) s = Done (Some p, s1)" "ex_inv s1" "gaps_kept s s1"
    "gap s (ProcessHeader p) < gap s1 (ProcessHeader p)" "tables s1 = tables s"
  by (rule retain_inv [OF assms]) (simp add: ExRuntimeRetainProcess_def that)

lemma release_owner_inv:
  assumes "ex_inv s" "0 < gap s (ProcessHeader p)"
  shows "\<exists>st' s'. release_owner p st s = Done (st', s') \<and> released (ProcessHeader p) s s'"
  using release_process_inv [OF assms] by (auto simp: release_owner_def)

lemma close_body_inv:
  assumes inv: "ex_inv s" and own: "0 < gap s (ProcessHeader p)"
  shows "\<exists>st h s'. close_body p handle s = Done (st, h, s') \<and> ex_inv s' \<and> gaps_kept s s'"
proof (cases "KiLookupHandleSlot (Some p) handle")
  case None
  then show ?thesis using inv by (simp add: close_body_def gaps_kept_def)
next
  case (Some ig)
  obtain tab where t: "tables s p = Some tab" using gap_pos_table [OF own] by blast
  obtain w g where d: "KiDecodeHandle handle = Some (w, g)" and ig: "ig = (unat w, g)"
    using Some by (auto simp: KiLookupHandleSlot_def split: option.splits)
  have i: "unat w < 32" using KiDecode_Some(1) [OF d] by (simp add: word_less_nat_alt EX_MAX_HANDLES_PER_PROCESS_def)
  obtain pr where pr: "Processes s p = Some pr" "HandleTable pr = tab" using t by (auto simp: tables_def)
  show ?thesis
  proof (cases "SlotObject (tab ! unat w)")
    case None
    then show ?thesis using Some ig pr inv by (simp add: close_body_def gaps_kept_def)
  next
    case (Some r)
    obtain st where "KiValidateCloseHandleSlot (Some (tab ! unat w)) False s = Done st"
      using validate_ok [OF inv ex_invD(4) [OF inv t i]] by blast
    then show ?thesis
      using close_slot_inv [OF inv t i Some own, of handle] \<open>KiLookupHandleSlot (Some p) handle = Some ig\<close> ig pr Some inv
      by (auto simp: close_body_def gaps_kept_def Let_def)
  qed
qed

text \<open>Retain the owner, run a body that keeps the gaps, release the owner.\<close>

lemma owner_bracket:
  assumes b: "ex_inv s2" "gaps_kept s1 s2" and s1: "gaps_kept s s1" "gap s (ProcessHeader p) < gap s1 (ProcessHeader p)"
  shows "\<exists>st' s3. release_owner p st s2 = Done (st', s3) \<and> ex_inv s3 \<and> gaps_kept s s3 \<and> tables_shrink s2 s3"
proof -
  have gp: "gap s (ProcessHeader p) < gap s2 (ProcessHeader p)"
    using s1(2) b(2) unfolding gaps_kept_def by (meson less_le_trans)
  then have "0 < gap s2 (ProcessHeader p)" by linarith
  then obtain st' s3 where r: "release_owner p st s2 = Done (st', s3)" "released (ProcessHeader p) s2 s3"
    using release_owner_inv [OF b(1)] by blast
  have "gaps_kept s s3" unfolding gaps_kept_def
  proof
    fix x
    have "gap s2 x - (if x = ProcessHeader p then 1 else 0) \<le> gap s3 x" using r(2) by (simp add: released_def gaps_drop_def)
    moreover have "gap s x \<le> gap s2 x" using s1(1) b(2) unfolding gaps_kept_def by (meson order_trans)
    ultimately show "gap s x \<le> gap s3 x" using gp by (cases "x = ProcessHeader p") auto
  qed
  then show ?thesis using r by (auto simp: released_def)
qed

lemma ExHandleClose_inv:
  assumes inv: "ex_inv s" and p: "retainable s (ProcessHeader p)"
  shows "\<exists>st h s'. ExHandleClose (Some p) handle s = Done (st, h, s') \<and> ex_inv s' \<and> gaps_kept s s'"
proof (cases "handle = EX_HANDLE_INVALID")
  case False
  obtain s1 where s1: "ExRuntimeRetainProcess (Some p) s = Done (Some p, s1)" "ex_inv s1" "gaps_kept s s1"
    "gap s (ProcessHeader p) < gap s1 (ProcessHeader p)" "tables s1 = tables s" using retain_process [OF inv p] .
  have "0 < gap s1 (ProcessHeader p)" using s1(4) by linarith
  then obtain st h s2 where b: "close_body p handle s1 = Done (st, h, s2)" "ex_inv s2" "gaps_kept s1 s2"
    using close_body_inv [OF s1(2)] by blast
  then show ?thesis using owner_bracket [OF b(2,3) s1(3,4), of st] False s1(1) by (auto simp: ExHandleClose_def)
qed (use inv in \<open>simp add: ExHandleClose_def gaps_kept_def\<close>)


subsection \<open>Functional behaviour of close\<close>

definition closable :: "ex_state \<Rightarrow> EX_HANDLE_SLOT \<Rightarrow> bool \<Rightarrow> bool" where
  "closable s sl allow \<longleftrightarrow> KiValidateCloseHandleSlot (Some sl) allow s = Done EC_SUCCESS"

lemma published_put_header:
  "get_header s x \<noteq> None \<Longrightarrow> ObjType h' = ObjType (the (get_header s x)) \<Longrightarrow>
   ExRuntimeIsPublishedObject r (put_header x h' s) = ExRuntimeIsPublishedObject r s"
proof -
  assume a: "get_header s x \<noteq> None" "ObjType h' = ObjType (the (get_header s x))"
  have "gExRuntimeProcessTable (put_header x h' s) = gExRuntimeProcessTable s"
    "gExRuntimeThreadTable (put_header x h' s) = gExRuntimeThreadTable s"
    by (cases x; auto simp: put_header.simps set_process_def set_thread_def split: option.splits)+
  then show ?thesis using a put_header_views(3) [OF a(1)]
    by (auto simp: ExRuntimeIsPublishedObject_def deref_def KiFindProcessSlotByProcess_def
        KiFindThreadSlotByThreadObject_def split: option.splits EX_OBJECT_TYPE.splits obj_ref.splits)
qed

lemma validate_put_header:
  assumes "get_header s x \<noteq> None" "ObjType h' = ObjType (the (get_header s x))"
  shows "KiValidateCloseHandleSlot sl allow (put_header x h' s) = KiValidateCloseHandleSlot sl allow s"
  using put_header_views(3) [OF assms(1)] assms
  by (auto simp: KiValidateCloseHandleSlot_def Let_def published_put_header [OF assms] deref_def
      intro!: arg_cong2 [where f = bind_outcome] split: option.splits)

lemma ExHandleClose_success:
  assumes inv: "ex_inv s" and p: "retainable s (ProcessHeader p)" and t: "tables s p = Some tab"
    and d: "KiDecodeHandle handle = Some (w, g)" and r: "SlotObject (tab ! unat w) = Some r"
    and gen: "Generation (tab ! unat w) = g" and c: "closable s (tab ! unat w) False"
  shows "\<exists>st s'. ExHandleClose (Some p) handle s = Done (st, EX_HANDLE_INVALID, s') \<and> ex_inv s' \<and>
    (tables s' p = Some (tab[unat w := KiClearHandleSlot (tab ! unat w)]) \<or> tables s' p = None)"
proof -
  have ne: "handle \<noteq> EX_HANDLE_INVALID" using d by (auto simp: KiDecodeHandle_def)
  have i: "unat w < 32" using KiDecode_Some(1) [OF d] by (simp add: word_less_nat_alt EX_MAX_HANDLES_PER_PROCESS_def)
  obtain h where R: "get_header s (ProcessHeader p) = Some h"
    "ExObjectRetain (Some (ProcessHeader p)) EX_OBJECT_TYPE_PROCESS s = Done (EC_SUCCESS, put_header (ProcessHeader p) (inc_count h) s)"
    "ex_inv (put_header (ProcessHeader p) (inc_count h) s)" "gaps_kept s (put_header (ProcessHeader p) (inc_count h) s)"
    "gap s (ProcessHeader p) < gap (put_header (ProcessHeader p) (inc_count h) s) (ProcessHeader p)"
    "tables (put_header (ProcessHeader p) (inc_count h) s) = tables s"
    using retain_inv [OF inv p] by (metis ref_type.simps(1))
  define s1 where "s1 = put_header (ProcessHeader p) (inc_count h) s"
  note R' = R(2-6) [folded s1_def]
  have t1: "tables s1 p = Some tab" using R'(5) t by simp
  have own: "0 < gap s1 (ProcessHeader p)" using R'(4) by linarith
  have v: "KiValidateCloseHandleSlot (Some (tab ! unat w)) False s1 = Done EC_SUCCESS"
    using c validate_put_header [of s "ProcessHeader p" "inc_count h"] R(1)
    by (simp add: closable_def s1_def inc_count_def)
  obtain st s2 where cl: "close_slot p (unat w) r handle s1 = Done (st, s2)" "ex_inv s2" "gaps_kept s1 s2"
    "tables s2 p = Some (tab[unat w := KiClearHandleSlot (tab ! unat w)])"
    using close_slot_inv [OF R'(2) t1 i r own] by blast
  obtain pr where "Processes s1 p = Some pr" "HandleTable pr = tab" using t1 by (auto simp: tables_def)
  then have body: "close_body p handle s1 = Done (st, EX_HANDLE_INVALID, s2)"
    using d r gen v cl(1) by (simp add: close_body_def KiLookupHandleSlot_def)
  obtain st' s3 where o: "release_owner p st s2 = Done (st', s3)" "ex_inv s3" "tables_shrink s2 s3"
    using owner_bracket [OF cl(2,3) R'(3,4), of st] by blast
  have "ExHandleClose (Some p) handle s = Done (st', EX_HANDLE_INVALID, s3)"
    using ne R'(1) body o(1) by (simp add: ExHandleClose_def ExRuntimeRetainProcess_def)
  moreover have "tables s3 p = tables s2 p \<or> tables s3 p = None" using o(3) by (simp add: tables_shrink_def)
  ultimately show ?thesis using o(2) cl(4) by auto
qed

section \<open>Generations along any history of handle operations\<close>

text \<open>
  \<open>evolves k s s'\<close>: no process has appeared, and in every surviving table the generation of every
  slot that has been used has advanced at most \<open>k\<close> times.
\<close>

definition evolves :: "nat \<Rightarrow> ex_state \<Rightarrow> ex_state \<Rightarrow> bool" where
  "evolves k s s' \<longleftrightarrow> (\<forall>p tab'. tables s' p = Some tab' \<longrightarrow> (\<exists>tab. tables s p = Some tab \<and> length tab' = length tab \<and>
     (\<forall>i < length tab. Generation (tab ! i) \<noteq> 0 \<longrightarrow>
        (\<exists>j \<le> k. Generation (tab' ! i) = (KiAdvanceHandleGeneration ^^ j) (Generation (tab ! i))))))"

lemma evolves_same: "tables s' = tables s \<Longrightarrow> evolves k s s'"
  by (force simp: evolves_def intro: exI [of _ 0])

lemma evolves_shrink: "tables_shrink s s' \<Longrightarrow> evolves k s s'"
  unfolding evolves_def tables_shrink_def by (metis funpow_0 le0 option.distinct(1))

lemma KiAdvance_nonzero: "KiAdvanceHandleGeneration g \<noteq> 0"
  using KiAdvance_valid [of g] by (simp add: valid_generation_def)

lemma KiAdvance_funpow_nonzero: "g \<noteq> 0 \<Longrightarrow> (KiAdvanceHandleGeneration ^^ n) g \<noteq> 0"
  by (cases n) (simp_all add: KiAdvance_nonzero)

lemma evolves_trans:
  assumes "evolves k s s1" "evolves m s1 s2"
  shows "evolves (k + m) s s2"
  unfolding evolves_def
proof (intro allI impI)
  fix p tab2 assume "tables s2 p = Some tab2"
  then obtain tab1 where t1: "tables s1 p = Some tab1" "length tab2 = length tab1"
    and g1: "\<And>i. i < length tab1 \<Longrightarrow> Generation (tab1 ! i) \<noteq> 0 \<Longrightarrow>
      \<exists>j \<le> m. Generation (tab2 ! i) = (KiAdvanceHandleGeneration ^^ j) (Generation (tab1 ! i))"
    using assms(2) unfolding evolves_def by metis
  then obtain tab where t: "tables s p = Some tab" "length tab1 = length tab"
    and g: "\<And>i. i < length tab \<Longrightarrow> Generation (tab ! i) \<noteq> 0 \<Longrightarrow>
      \<exists>j \<le> k. Generation (tab1 ! i) = (KiAdvanceHandleGeneration ^^ j) (Generation (tab ! i))"
    using assms(1) unfolding evolves_def by metis
  have "\<exists>j \<le> k + m. Generation (tab2 ! i) = (KiAdvanceHandleGeneration ^^ j) (Generation (tab ! i))"
    if i: "i < length tab" "Generation (tab ! i) \<noteq> 0" for i
  proof -
    obtain a where a: "a \<le> k" "Generation (tab1 ! i) = (KiAdvanceHandleGeneration ^^ a) (Generation (tab ! i))"
      using g i by blast
    then have "Generation (tab1 ! i) \<noteq> 0" using i KiAdvance_funpow_nonzero by simp
    then obtain b where b: "b \<le> m" "Generation (tab2 ! i) = (KiAdvanceHandleGeneration ^^ b) (Generation (tab1 ! i))"
      using g1 i t by metis
    have "Generation (tab2 ! i) = (KiAdvanceHandleGeneration ^^ (b + a)) (Generation (tab ! i))"
      using a b by (simp add: funpow_add)
    then show ?thesis using a b by (intro exI [of _ "b + a"]) simp
  qed
  then show "\<exists>tab. tables s p = Some tab \<and> length tab2 = length tab \<and> (\<forall>i < length tab. Generation (tab ! i) \<noteq> 0 \<longrightarrow>
        (\<exists>j \<le> k + m. Generation (tab2 ! i) = (KiAdvanceHandleGeneration ^^ j) (Generation (tab ! i))))"
    using t t1 by auto
qed


subsection \<open>Table effect of each operation, with no assumption on the counts\<close>

lemma tables_put_header [simp]: "tables (put_header r h s) = tables s"
  by (cases r) (auto simp: put_header.simps tables_def set_process_def set_thread_def fun_eq_iff split: option.splits)

lemma retain_tables: "ExObjectRetain r ty s = Done (st, s') \<Longrightarrow> tables s' = tables s"
  by (auto simp: ExObjectRetain_def deref_Done_iff split: option.splits if_splits)

lemma tables_shrink_refl [simp]: "tables_shrink s s"
  by (simp add: tables_shrink_def)

lemma tables_shrink_put_header [simp]:
  "tables_shrink (put_header r h s) s' = tables_shrink s s'" "tables_shrink s' (put_header r h s) = tables_shrink s' s"
  by (simp_all add: tables_shrink_def)

lemma release_shrink:
  assumes "ExObjectRelease run r ty m s = Done (st, n, s')"
    and "\<And>d x s1 st s2. run d x s1 = Done (st, s2) \<Longrightarrow> tables_shrink s1 s2"
  shows "tables_shrink s s'"
  using assms(1)
  by (auto simp: ExObjectRelease_def deref_Done_iff bind_outcome_Done_iff Let_def
      split: option.splits if_splits dest!: assms(2))

lemma destroy_stdout_shrink: "KiDestroyStdoutServiceObject r s = Done (st, s') \<Longrightarrow> tables_shrink s s'"
  by (auto simp: KiDestroyStdoutServiceObject_def deref_Done_iff split: option.splits if_splits)

lemma run_stdout_shrink: "run_stdout d r s = Done (st, s') \<Longrightarrow> tables_shrink s s'"
  by (cases d) (simp_all add: destroy_stdout_shrink)

lemma tables_shrink_kfree: "tables_shrink s (kfree_process p s)"
  by (simp add: tables_shrink_def kfree_process_views)

lemma destroy_process_shrink: "KiDestroyProcessObject r s = Done (st, s') \<Longrightarrow> tables_shrink s s'"
  by (auto simp: KiDestroyProcessObject_def ExRuntimeReleaseStdoutServiceOwner_def deref_Done_iff bind_outcome_Done_iff
      split: option.splits if_splits obj_ref.splits prod.splits
      dest!: release_shrink [OF _ run_stdout_shrink] intro: tables_shrink_trans [OF _ tables_shrink_kfree])

lemma run_process_shrink: "run_process d r s = Done (st, s') \<Longrightarrow> tables_shrink s s'"
  by (cases d) (simp_all add: destroy_stdout_shrink destroy_process_shrink)

lemma release_process_shrink: "ExRuntimeReleaseProcess p s = Done (st, s') \<Longrightarrow> tables_shrink s s'"
  by (auto simp: ExRuntimeReleaseProcess_def drop_remaining_def bind_outcome_Done_iff split: option.splits
      dest!: release_shrink [OF _ run_process_shrink])

lemma tables_shrink_kfree_thread [simp]:
  "tables_shrink (kfree_thread t (set_thread t th s)) s' = tables_shrink s s'"
  "tables_shrink s' (kfree_thread t (set_thread t th s)) = tables_shrink s' s"
  by (simp_all add: tables_shrink_def kfree_thread_views)

lemma destroy_thread_shrink: "KiDestroyThreadObject r s = Done (st, s') \<Longrightarrow> tables_shrink s s'"
  by (auto simp: KiDestroyThreadObject_def deref_Done_iff bind_outcome_Done_iff Let_def
      split: option.splits if_splits obj_ref.splits dest!: release_process_shrink)

lemma run_thread_shrink: "run_thread d r s = Done (st, s') \<Longrightarrow> tables_shrink s s'"
  by (cases d) (simp_all add: destroy_stdout_shrink destroy_process_shrink destroy_thread_shrink)

lemma release_thread_shrink: "ExRuntimeReleaseThread t s = Done (st, s') \<Longrightarrow> tables_shrink s s'"
  by (auto simp: ExRuntimeReleaseThread_def drop_remaining_def bind_outcome_Done_iff split: option.splits
      dest!: release_shrink [OF _ run_thread_shrink])

lemma release_handle_shrink: "KiReleaseHandleObject r s = Done (st, s') \<Longrightarrow> tables_shrink s s'"
  by (cases r; simp add: KiReleaseHandleObject_def deref_Done_iff; elim exE conjE)
    (auto simp: drop_remaining_def bind_outcome_Done_iff split: obj_ref.splits EX_OBJECT_TYPE.split_asm
      dest!: release_thread_shrink release_process_shrink release_shrink [OF _ run_thread_shrink])

lemma evolves_set_slot:
  assumes t: "tables s p = Some tab"
    and g: "Generation (tab ! i) \<noteq> 0 \<Longrightarrow> \<exists>j \<le> k. Generation sl = (KiAdvanceHandleGeneration ^^ j) (Generation (tab ! i))"
  shows "evolves k s (set_slot p i sl s)"
  unfolding evolves_def
proof (intro allI impI)
  fix q tab' assume q: "tables (set_slot p i sl s) q = Some tab'"
  show "\<exists>tab. tables s q = Some tab \<and> length tab' = length tab \<and> (\<forall>i < length tab. Generation (tab ! i) \<noteq> 0 \<longrightarrow>
     (\<exists>j \<le> k. Generation (tab' ! i) = (KiAdvanceHandleGeneration ^^ j) (Generation (tab ! i))))"
  proof (cases "q = p")
    case True
    then have "tab' = tab[i := sl]" using q set_slot_views(1) [OF t] by simp
    moreover have "\<exists>j \<le> k. Generation (tab[i := sl] ! ia) = (KiAdvanceHandleGeneration ^^ j) (Generation (tab ! ia))"
      if "ia < length tab" "Generation (tab ! ia) \<noteq> 0" for ia
      using that g by (cases "ia = i") (auto intro: exI [of _ 0])
    ultimately show ?thesis using True t by simp
  next
    case False
    then show ?thesis using q set_slot_views(1) [OF t] by (auto intro: exI [of _ 0])
  qed
qed

lemma insert_evolves: "ExHandleInsert p r rights oh s = Done (st, h, s') \<Longrightarrow> evolves 0 s s'"
proof -
  assume a: "ExHandleInsert p r rights oh s = Done (st, h, s')"
  have ret: "tables s2 = tables s1" if "KiRetainHandleObject r s1 = Done (st, s2)" for s1 s2 st
    using that by (auto simp: KiRetainHandleObject_def deref_Done_iff split: option.splits if_splits dest: retain_tables)
  show ?thesis
  proof (cases "s' = s \<or> tables s' = tables s")
    case True
    then show ?thesis using evolves_same by blast
  next
    case False
    then obtain q pr i s1 where q: "Processes s q = Some pr" "KiRetainHandleObject r s = Done (EC_SUCCESS, s1)"
      "s' = set_slot q i \<lparr>SlotObject = r, Rights = rights, Generation = insert_generation (HandleTable pr ! i)\<rparr> s1"
      using a ret by (auto simp: ExHandleInsert_def deref_Done_iff bind_outcome_Done_iff Let_def
          insert_generation_def [symmetric] split: option.splits if_split_asm)
    have "tables s1 q = Some (HandleTable pr)" using ret [OF q(2)] q(1) by (simp add: tables_def)
    then have "evolves 0 s1 s'" unfolding q(3) by (rule evolves_set_slot) (simp add: insert_generation_def)
    then show ?thesis using evolves_trans [OF evolves_same [OF ret [OF q(2)], of 0]] by simp
  qed
qed


lemma tables_set_process [simp]:
  "Processes s p = Some pr \<Longrightarrow> HandleTable pr' = HandleTable pr \<Longrightarrow> tables (set_process p pr' s) = tables s"
  by (auto simp: tables_def set_process_def fun_eq_iff)

lemma tables_set_thread [simp]: "tables (set_thread t th s) = tables s"
  by (auto simp: tables_def set_thread_def fun_eq_iff)

lemma object_type_cases:
  "t \<noteq> EX_OBJECT_TYPE_PROCESS \<Longrightarrow> t \<noteq> EX_OBJECT_TYPE_THREAD \<Longrightarrow> t \<noteq> EX_OBJECT_TYPE_CONSOLE \<Longrightarrow>
   t \<noteq> EX_OBJECT_TYPE_INVALID \<Longrightarrow> False"
  by (cases t) simp_all

lemma invalidate_tables: "KiInvalidateObjectSelfHandleIfMatch r h s = Done s' \<Longrightarrow> tables s' = tables s"
  by (auto simp: KiInvalidateObjectSelfHandleIfMatch_def deref_Done_iff Let_def
      split: option.split_asm if_split_asm EX_OBJECT_TYPE.split_asm obj_ref.split_asm dest: object_type_cases)

lemma close_slot_evolves: "close_slot p i r h s = Done (st, s') \<Longrightarrow> evolves 1 s s'"
proof -
  assume "close_slot p i r h s = Done (st, s')"
  then obtain s1 pr where s1: "KiInvalidateObjectSelfHandleIfMatch (Some r) h s = Done s1" "Processes s1 p = Some pr"
    "KiReleaseHandleObject (Some r) (set_slot p i (KiClearHandleSlot (HandleTable pr ! i)) s1) = Done (st, s')"
    by (auto simp: close_slot_def bind_outcome_Done_iff deref_Done_iff)
  have "tables s1 p = Some (HandleTable pr)" using s1(2) by (simp add: tables_def)
  then have "evolves 1 s1 (set_slot p i (KiClearHandleSlot (HandleTable pr ! i)) s1)"
    by (rule evolves_set_slot) (auto simp: KiClearHandleSlot_def intro: exI [of _ 1])
  then have "evolves 1 s1 s'"
    using evolves_trans [OF _ evolves_shrink [OF release_handle_shrink [OF s1(3)], of 0]] by fastforce
  then show ?thesis using evolves_trans [OF evolves_same [OF invalidate_tables [OF s1(1)], of 0]] by simp
qed

lemma retain_process_tables: "ExRuntimeRetainProcess p s = Done (q, s') \<Longrightarrow> tables s' = tables s"
  by (auto simp: ExRuntimeRetainProcess_def bind_outcome_Done_iff split: option.splits if_split_asm dest: retain_tables)

lemma release_owner_shrink: "release_owner p st s = Done (st', s') \<Longrightarrow> tables_shrink s s'"
  by (auto simp: release_owner_def bind_outcome_Done_iff dest: release_process_shrink)

lemma close_body_evolves: "close_body p h s = Done (st, h', s') \<Longrightarrow> evolves 1 s s'"
proof -
  assume a: "close_body p h s = Done (st, h', s')"
  show ?thesis
  proof (cases "s' = s")
    case False
    then obtain i g where l: "KiLookupHandleSlot (Some p) h = Some (i, g)"
      using a by (auto simp: close_body_def split: option.split_asm)
    then obtain pr where pr: "Processes s p = Some pr" using a by (auto simp: close_body_def deref_Done_iff)
    then obtain r where "SlotObject (HandleTable pr ! i) = Some r"
      using a l False by (auto simp: close_body_def Let_def split: option.split_asm)
    then have "\<exists>st. close_slot p i r h s = Done (st, s')"
      using a l pr False by (auto simp: close_body_def Let_def bind_outcome_Done_iff split: if_split_asm)
    then show ?thesis using close_slot_evolves by blast
  qed (simp add: evolves_same)
qed

lemma ExHandleClose_evolves: "ExHandleClose p h s = Done (st, h', s') \<Longrightarrow> evolves 1 s s'"
proof -
  assume a: "ExHandleClose p h s = Done (st, h', s')"
  show ?thesis
  proof (cases "tables s' = tables s")
    case True
    then show ?thesis by (rule evolves_same)
  next
    case False
    then obtain q s1 st1 s2 where r: "ExRuntimeRetainProcess p s = Done (Some q, s1)" "close_body (the p) h s1 = Done (st1, h', s2)"
      "release_owner (the p) st1 s2 = Done (st, s')"
      using a by (auto simp: ExHandleClose_def bind_outcome_Done_iff split: option.split_asm if_split_asm
          dest: retain_process_tables)
    have "evolves (1 + 0) s1 s'"
      by (rule evolves_trans [OF close_body_evolves [OF r(2)] evolves_shrink [OF release_owner_shrink [OF r(3)]]])
    then show ?thesis using evolves_trans [OF evolves_same [OF retain_process_tables [OF r(1)], of 0]] by simp
  qed
qed

lemma close_slots_evolves: "close_slots p is e s = Done (st, s') \<Longrightarrow> evolves (length is) s s'"
proof (induction "is" arbitrary: e s)
  case (Cons i "is")
  from Cons.prems obtain pr where pr: "Processes s p = Some pr" by (auto simp: deref_Done_iff)
  show ?case
  proof (cases "SlotObject (HandleTable pr ! i)")
    case None
    then have "evolves (length is) s s'" using Cons pr by simp
    then show ?thesis using evolves_trans [OF evolves_same [OF refl, of 1]] by fastforce
  next
    case (Some r)
    then obtain st1 s1 e1 where "close_slot p i r (KiEncodeHandle (word_of_nat i) (Generation (HandleTable pr ! i))) s = Done (st1, s1)"
      "close_slots p is e1 s1 = Done (st, s')" using Cons.prems pr by (auto simp: bind_outcome_Done_iff)
    then show ?thesis using evolves_trans [OF close_slot_evolves Cons.IH] by fastforce
  qed
qed (simp add: evolves_same)

lemma KiHandleCloseAll_evolves: "KiHandleCloseAll p allow s = Done (st, s') \<Longrightarrow> evolves 32 s s'"
proof -
  assume a: "KiHandleCloseAll p allow s = Done (st, s')"
  show ?thesis
  proof (cases "tables s' = tables s")
    case True
    then show ?thesis by (rule evolves_same)
  next
    case False
    then obtain q s1 where r: "ExRuntimeRetainProcess p s = Done (Some q, s1)"
      and b: "(\<exists>e. release_owner (the p) e s1 = Done (st, s')) \<or>
        (\<exists>e s2. close_slots (the p) [0..<32] EC_SUCCESS s1 = Done (e, s2) \<and> release_owner (the p) e s2 = Done (st, s'))"
      using a by (auto simp: KiHandleCloseAll_def bind_outcome_Done_iff deref_Done_iff EX_MAX_HANDLES_PER_PROCESS_def
          split: option.split_asm if_split_asm dest: retain_process_tables)
    from b have "evolves 32 s1 s'"
    proof
      assume "\<exists>e. release_owner (the p) e s1 = Done (st, s')"
      then show ?thesis using evolves_shrink release_owner_shrink by blast
    next
      assume "\<exists>e s2. close_slots (the p) [0..<32] EC_SUCCESS s1 = Done (e, s2) \<and> release_owner (the p) e s2 = Done (st, s')"
      then obtain e s2 where "close_slots (the p) [0..<32] EC_SUCCESS s1 = Done (e, s2)" "release_owner (the p) e s2 = Done (st, s')"
        by blast
      then show ?thesis
        using evolves_trans [OF close_slots_evolves evolves_shrink [OF release_owner_shrink, of _ _ _ _ _ 0]] by fastforce
    qed
    then show ?thesis using evolves_trans [OF evolves_same [OF retain_process_tables [OF r], of 0]] by simp
  qed
qed

lemma resolve_tables: "ExHandleResolve p h ty d s = Done (r, s') \<Longrightarrow> tables s' = tables s"
  by (auto simp: ExHandleResolve_def deref_Done_iff bind_outcome_Done_iff Let_def
      split: option.split_asm if_split_asm prod.split_asm dest: retain_tables)

lemma resolve_waitable_tables: "ExHandleResolveWaitable p h d s = Done (r, s') \<Longrightarrow> tables s' = tables s"
  by (auto simp: ExHandleResolveWaitable_def deref_Done_iff bind_outcome_Done_iff Let_def
      split: option.split_asm if_split_asm prod.split_asm dest: retain_tables)

section \<open>Histories\<close>

text \<open>
  Any sequence of handle-table operations, by any process, with any arguments and any results. The
  number bounds how often one slot can have been closed: once by a close, and 32 is charged for a
  close of a whole table.
\<close>

inductive handle_history :: "ex_state \<Rightarrow> nat \<Rightarrow> ex_state \<Rightarrow> bool" where
  history_start: "handle_history s 0 s"
| history_insert: "handle_history s n s1 \<Longrightarrow> ExHandleInsert p r rights oh s1 = Done (st, h, s2) \<Longrightarrow> handle_history s n s2"
| history_resolve: "handle_history s n s1 \<Longrightarrow> ExHandleResolve p h ty d s1 = Done (res, s2) \<Longrightarrow> handle_history s n s2"
| history_resolve_waitable:
    "handle_history s n s1 \<Longrightarrow> ExHandleResolveWaitable p h d s1 = Done (res, s2) \<Longrightarrow> handle_history s n s2"
| history_release: "handle_history s n s1 \<Longrightarrow> ExHandleReleaseResolvedObject r s1 = Done (st, s2) \<Longrightarrow> handle_history s n s2"
| history_close: "handle_history s n s1 \<Longrightarrow> ExHandleClose p h s1 = Done (st, h', s2) \<Longrightarrow> handle_history s (n + 1) s2"
| history_close_all: "handle_history s n s1 \<Longrightarrow> KiHandleCloseAll p allow s1 = Done (st, s2) \<Longrightarrow> handle_history s (n + 32) s2"

lemma handle_history_evolves: "handle_history s n s' \<Longrightarrow> evolves n s s'"
proof (induction rule: handle_history.induct)
  case history_start
  then show ?case by (simp add: evolves_same)
next
  case history_insert
  then show ?case using evolves_trans insert_evolves by fastforce
next
  case history_resolve
  then show ?case using evolves_trans [OF _ evolves_same [OF resolve_tables, of _ _ _ _ _ _ _ 0]] by fastforce
next
  case history_resolve_waitable
  then show ?case using evolves_trans [OF _ evolves_same [OF resolve_waitable_tables, of _ _ _ _ _ _ 0]] by fastforce
next
  case history_release
  then show ?case
    using evolves_trans [OF _ evolves_shrink [OF release_handle_shrink, of _ _ _ _ 0]]
    unfolding ExHandleReleaseResolvedObject_def by fastforce
next
  case history_close
  then show ?case using evolves_trans ExHandleClose_evolves by blast
next
  case history_close_all
  then show ?case using evolves_trans KiHandleCloseAll_evolves by blast
qed

lemma closed_handle_stale:
  assumes inv: "ex_inv s" and p: "retainable s (ProcessHeader p)" and t: "tables s p = Some tab"
    and d: "KiDecodeHandle handle = Some (w, g)" and r: "SlotObject (tab ! unat w) = Some r"
    and gen: "Generation (tab ! unat w) = g" and c: "closable s (tab ! unat w) False"
    and cl: "ExHandleClose (Some p) handle s = Done (st, h', s1)"
    and hist: "handle_history s1 n s2" "n < 0xFFFFFE" and live: "tables s2 p \<noteq> None"
    and ty: "ExObjectIsValidType ty"
  shows "ExHandleResolve (Some p) handle ty desired s2 = Done (Inl EC_INVALID_STATE, s2)"
proof -
  have i: "unat w < 32" using KiDecode_Some(1) [OF d] by (simp add: word_less_nat_alt EX_MAX_HANDLES_PER_PROCESS_def)
  have vg: "valid_generation g" using KiDecode_Some(2) [OF d] .
  obtain tab2 where t2: "tables s2 p = Some tab2" using live by blast
  then obtain tab1 where t1: "tables s1 p = Some tab1"
    and ev: "\<And>i. i < length tab1 \<Longrightarrow> Generation (tab1 ! i) \<noteq> 0 \<Longrightarrow>
      \<exists>j \<le> n. Generation (tab2 ! i) = (KiAdvanceHandleGeneration ^^ j) (Generation (tab1 ! i))"
    using handle_history_evolves [OF hist(1)] unfolding evolves_def by metis
  have "tab1 = tab[unat w := KiClearHandleSlot (tab ! unat w)]"
    using ExHandleClose_success [OF inv p t d r gen c] cl t1 by auto
  moreover have "length tab = 32" using ex_invD(3) [OF inv t] .
  ultimately have "Generation (tab1 ! unat w) = KiAdvanceHandleGeneration g" "length tab1 = 32"
    using i gen by (simp_all add: KiClearHandleSlot_def)
  then obtain j where j: "j \<le> n" "Generation (tab2 ! unat w) = (KiAdvanceHandleGeneration ^^ j) (KiAdvanceHandleGeneration g)"
    using ev [of "unat w"] i KiAdvance_nonzero by metis
  then have "Generation (tab2 ! unat w) = (KiAdvanceHandleGeneration ^^ Suc j) g" by (simp add: funpow_swap1)
  then have "Generation (tab2 ! unat w) \<noteq> g" using KiAdvance_fresh [OF vg, of "Suc j"] j(1) hist(2) by simp
  then show ?thesis using ExHandleResolve_stale [OF t2 d ty] by blast
qed


section \<open>Closing every handle is all or nothing\<close>

lemma close_slots_inv:
  assumes "ex_inv s" "0 < gap s (ProcessHeader p)" "tables s p = Some tab" "\<forall>i \<in> set is. i < 32" "distinct is"
  shows "\<exists>st s' tab'. close_slots p is e s = Done (st, s') \<and> ex_inv s' \<and> gaps_kept s s' \<and> tables s' p = Some tab' \<and>
    length tab' = length tab \<and> (\<forall>i \<in> set is. SlotObject (tab' ! i) = None) \<and> (\<forall>i. i \<notin> set is \<longrightarrow> tab' ! i = tab ! i)"
  using assms
proof (induction "is" arbitrary: e s tab)
  case Nil
  then show ?case by (simp add: gaps_kept_def)
next
  case (Cons i "is")
  have i: "i < 32" "i \<notin> set is" "length tab = 32" using Cons.prems ex_invD(3) [OF Cons.prems(1,3)] by auto
  obtain pr where pr: "Processes s p = Some pr" "HandleTable pr = tab" using Cons.prems(3) by (auto simp: tables_def)
  show ?case
  proof (cases "SlotObject (tab ! i)")
    case None
    then show ?thesis using Cons.IH [OF Cons.prems(1-3), of e] Cons.prems(4,5) pr i by fastforce
  next
    case (Some r)
    obtain st s1 where c: "close_slot p i r (KiEncodeHandle (word_of_nat i) (Generation (tab ! i))) s = Done (st, s1)"
      "ex_inv s1" "gaps_kept s s1" "tables s1 p = Some (tab[i := KiClearHandleSlot (tab ! i)])"
      using close_slot_inv [OF Cons.prems(1,3) i(1) Some Cons.prems(2)] by blast
    have own: "0 < gap s1 (ProcessHeader p)" using c(3) Cons.prems(2) unfolding gaps_kept_def by (meson less_le_trans)
    obtain st' s' tab' where R: "close_slots p is (if e = EC_SUCCESS then st else e) s1 = Done (st', s')" "ex_inv s'"
      "gaps_kept s1 s'" "tables s' p = Some tab'" "length tab' = length tab" "\<forall>j \<in> set is. SlotObject (tab' ! j) = None"
      "\<forall>j. j \<notin> set is \<longrightarrow> tab' ! j = tab[i := KiClearHandleSlot (tab ! i)] ! j"
      using Cons.IH [OF c(2) own c(4), of "if e = EC_SUCCESS then st else e"] Cons.prems(4,5) by auto
    have "gaps_kept s s'" using c(3) R(3) unfolding gaps_kept_def by (meson order_trans)
    moreover have "SlotObject (tab' ! i) = None" using R(7) i by (simp add: KiClearHandleSlot_def)
    moreover have "tab' ! j = tab ! j" if "j \<notin> set (i # is)" for j using R(7) that by simp
    ultimately show ?thesis using c(1) R pr Some by auto
  qed
qed

lemma validate_slots_success:
  "\<forall>sl \<in> set sls. SlotObject sl \<noteq> None \<longrightarrow> closable s sl allow \<Longrightarrow> validate_slots sls allow s = Done EC_SUCCESS"
  by (induction sls) (auto simp: closable_def)

lemma validate_slots_failure:
  assumes inv: "ex_inv s" and "\<forall>sl \<in> set sls. slot_ok s sl" and "\<exists>sl \<in> set sls. SlotObject sl \<noteq> None \<and> \<not> closable s sl allow"
  shows "\<exists>e. e \<noteq> EC_SUCCESS \<and> validate_slots sls allow s = Done e"
  using assms(2,3)
proof (induction sls)
  case (Cons sl sls)
  obtain st where st: "KiValidateCloseHandleSlot (Some sl) allow s = Done st" using validate_ok [OF inv, of sl allow] Cons.prems(1) by auto
  show ?case
  proof (cases "SlotObject sl = None \<or> st = EC_SUCCESS")
    case True
    then have "\<exists>sl \<in> set sls. SlotObject sl \<noteq> None \<and> \<not> closable s sl allow"
      using Cons.prems(2) st by (auto simp: closable_def)
    then show ?thesis using Cons True st by auto
  next
    case False
    then show ?thesis using st by auto
  qed
qed simp

lemma retain_release_same:
  assumes inv: "ex_inv s" and h: "get_header s (ProcessHeader p) = Some h" "ReferenceCount h \<noteq> 0" "ReferenceCount h \<noteq> 0xFFFFFFFF"
    and s1: "s1 = put_header (ProcessHeader p) (inc_count h) s"
  shows "release_owner p e s1 = Done (e, s)"
proof -
  have inv1: "ex_inv s1" "gap s (ProcessHeader p) < gap s1 (ProcessHeader p)" using inc_inv [OF inv h] by (simp_all add: s1)
  have g: "0 < gap s1 (ProcessHeader p)" using inv1(2) by linarith
  have l: "get_header s1 (ProcessHeader p) = Some (inc_count h)" using put_header_views(3) h(1) by (simp add: s1)
  have "ReferenceCount (inc_count h) \<noteq> 1" using h(2) by (simp add: inc_count_def)
  then have "ExRuntimeReleaseProcess (Some p) s1 = Done (EC_SUCCESS, put_header (ProcessHeader p) (dec_count (inc_count h)) s1)"
    using ExObjectRelease_live [OF inv1(1) g l, of run_process 0] by (simp add: ExRuntimeReleaseProcess_def drop_remaining_def)
  moreover have "dec_count (inc_count h) = h" by (simp add: dec_count_def inc_count_def)
  moreover have "put_header (ProcessHeader p) h s1 = s"
    using h(1) by (auto simp: s1 put_header.simps get_header.simps set_process_def fun_upd_idem)
  ultimately show ?thesis by (simp add: release_owner_def)
qed

lemma KiHandleCloseAll_all:
  assumes inv: "ex_inv s" and p: "retainable s (ProcessHeader p)" and t: "tables s p = Some tab"
    and c: "\<forall>sl \<in> set tab. SlotObject sl \<noteq> None \<longrightarrow> closable s sl allow"
  shows "\<exists>st s'. KiHandleCloseAll (Some p) allow s = Done (st, s') \<and> ex_inv s' \<and> gaps_kept s s' \<and>
    (\<forall>tab'. tables s' p = Some tab' \<longrightarrow> (\<forall>sl \<in> set tab'. SlotObject sl = None))"
proof -
  obtain h where h: "get_header s (ProcessHeader p) = Some h" "ReferenceCount h \<noteq> 0" "ReferenceCount h \<noteq> 0xFFFFFFFF"
    using p by (auto simp: retainable_def split: option.splits)
  define s1 where "s1 = put_header (ProcessHeader p) (inc_count h) s"
  have rt: "ExRuntimeRetainProcess (Some p) s = Done (Some p, s1)"
    using ex_invD(6) [OF inv h(1)] h
    by (simp add: ExRuntimeRetainProcess_def ExObjectRetain_def header_ok_def s1_def inc_count_def)
  note I = inc_inv [OF inv h, folded s1_def]
  have own: "0 < gap s1 (ProcessHeader p)" using I(3) by linarith
  have t1: "tables s1 p = Some tab" using t by (simp add: s1_def)
  have len: "length tab = 32" using ex_invD(3) [OF inv t] .
  have "closable s1 sl allow = closable s sl allow" for sl
    using validate_put_header [of s "ProcessHeader p" "inc_count h"] h(1) by (simp add: closable_def s1_def inc_count_def)
  then have v: "validate_slots tab allow s1 = Done EC_SUCCESS" using validate_slots_success c by blast
  obtain st s2 tab' where cs: "close_slots p [0..<32] EC_SUCCESS s1 = Done (st, s2)" "ex_inv s2" "gaps_kept s1 s2"
    "tables s2 p = Some tab'" "length tab' = length tab" "\<forall>i \<in> set [0..<32]. SlotObject (tab' ! i) = None"
    using close_slots_inv [OF I(1) own t1, of "[0..<32]" EC_SUCCESS] by auto
  obtain st' s3 where o: "release_owner p st s2 = Done (st', s3)" "ex_inv s3" "gaps_kept s s3" "tables_shrink s2 s3"
    using owner_bracket [OF cs(2,3) I(2,3), of st] by blast
  have "\<forall>sl \<in> set tab'. SlotObject sl = None" using cs(5,6) len by (auto simp: in_set_conv_nth)
  moreover have "tables s3 p = Some tab' \<or> tables s3 p = None" using o(4) cs(4) unfolding tables_shrink_def by metis
  moreover obtain pr where "Processes s1 p = Some pr" "HandleTable pr = tab" using t1 by (auto simp: tables_def)
  ultimately show ?thesis using rt v cs(1) o by (auto simp: KiHandleCloseAll_def EX_MAX_HANDLES_PER_PROCESS_def)
qed

lemma KiHandleCloseAll_none:
  assumes inv: "ex_inv s" and p: "retainable s (ProcessHeader p)" and t: "tables s p = Some tab"
    and c: "\<exists>sl \<in> set tab. SlotObject sl \<noteq> None \<and> \<not> closable s sl allow"
  shows "\<exists>e. e \<noteq> EC_SUCCESS \<and> KiHandleCloseAll (Some p) allow s = Done (e, s)"
proof -
  obtain h where h: "get_header s (ProcessHeader p) = Some h" "ReferenceCount h \<noteq> 0" "ReferenceCount h \<noteq> 0xFFFFFFFF"
    using p by (auto simp: retainable_def split: option.splits)
  define s1 where "s1 = put_header (ProcessHeader p) (inc_count h) s"
  have rt: "ExRuntimeRetainProcess (Some p) s = Done (Some p, s1)"
    using ex_invD(6) [OF inv h(1)] h
    by (simp add: ExRuntimeRetainProcess_def ExObjectRetain_def header_ok_def s1_def inc_count_def)
  have inv1: "ex_inv s1" using inc_inv [OF inv h] by (simp add: s1_def)
  have t1: "tables s1 p = Some tab" using t by (simp add: s1_def)
  have "closable s1 sl allow = closable s sl allow" for sl
    using validate_put_header [of s "ProcessHeader p" "inc_count h"] h(1) by (simp add: closable_def s1_def inc_count_def)
  moreover have "\<forall>sl \<in> set tab. slot_ok s1 sl" using ex_invD(3,4) [OF inv1 t1] by (auto simp: in_set_conv_nth)
  ultimately obtain e where e: "e \<noteq> EC_SUCCESS" "validate_slots tab allow s1 = Done e"
    using validate_slots_failure [OF inv1] c by blast
  moreover obtain pr where "Processes s1 p = Some pr" "HandleTable pr = tab" using t1 by (auto simp: tables_def)
  ultimately show ?thesis using rt retain_release_same [OF inv h s1_def] by (auto simp: KiHandleCloseAll_def)
qed

text \<open>What was inserted is what is resolved.\<close>

lemma insert_then_resolve:
  assumes inv: "ex_inv s" and t: "tables s p = Some tab" and r: "retainable s r" and rights: "rights \<noteq> EX_HANDLE_RIGHT_NONE"
    and room: "\<exists>sl \<in> set tab. SlotObject sl = None" and des: "rights AND desired = desired"
  shows "\<exists>h s1. ExHandleInsert (Some p) (Some r) rights oh s = Done (EC_SUCCESS, h, s1) \<and> ex_inv s1 \<and> h \<noteq> EX_HANDLE_INVALID \<and>
    (\<exists>s2. ExHandleResolve (Some p) h (ref_type r) desired s1 = Done (Inr r, s2))"
proof -
  have len: "length tab = 32" using inv t by (auto simp: ex_inv_def)
  define i where "i = first_index (\<lambda>sl. SlotObject sl = None) tab"
  have i: "i < 32" using first_index_bound [of "\<lambda>sl. SlotObject sl = None" tab] room len by (auto simp: i_def)
  define g where "g = insert_generation (tab ! i)"
  obtain s1 where s1: "ExHandleInsert (Some p) (Some r) rights oh s = Done (EC_SUCCESS, KiEncodeHandle (word_of_nat i) g, s1)"
    "ex_inv s1" "valid_generation g"
    "tables s1 = (tables s)(p \<mapsto> tab[i := \<lparr>SlotObject = Some r, Rights = rights, Generation = g\<rparr>])"
    "\<And>x. map_option ReferenceCount (get_header s1 x) =
       (if x = r then map_option (\<lambda>h. ReferenceCount h + 1) (get_header s x) else map_option ReferenceCount (get_header s x))"
    using ExHandleInsert_success [OF inv t r rights i_def i g_def] by metis
  have u: "unat (word_of_nat i :: u32) = i" using i by (simp add: unsigned_of_nat take_bit_nat_eq_self)
  have lt: "word_of_nat i < EX_MAX_HANDLES_PER_PROCESS"
    using i u by (simp add: word_less_nat_alt EX_MAX_HANDLES_PER_PROCESS_def)
  have d: "KiDecodeHandle (KiEncodeHandle (word_of_nat i) g) = Some (word_of_nat i, g)" by (rule KiDecode_KiEncode [OF lt s1(3)])
  obtain h0 where h0: "get_header s r = Some h0" "ReferenceCount h0 \<noteq> 0xFFFFFFFF"
    using r by (auto simp: retainable_def split: option.splits)
  have "ReferenceCount h0 + 1 \<noteq> 0"
  proof
    assume "ReferenceCount h0 + 1 = 0"
    then have "ReferenceCount h0 = - 1" by (metis add_eq_0_iff2 add.commute)
    then show False using h0(2) by simp
  qed
  moreover have "map_option ReferenceCount (get_header s1 r) = Some (ReferenceCount h0 + 1)" using s1(5) [of r] h0(1) by simp
  ultimately have live: "\<exists>h. get_header s1 r = Some h \<and> ReferenceCount h \<noteq> 0" by auto
  have ty: "ExObjectIsValidType (ref_type r)" by (cases r) simp_all
  have t1: "tables s1 p = Some (tab[i := \<lparr>SlotObject = Some r, Rights = rights, Generation = g\<rparr>])" using s1(4) by simp
  have "\<exists>s2. ExHandleResolve (Some p) (KiEncodeHandle (word_of_nat i) g) (ref_type r) desired s1 = Done (Inr r, s2)"
    using ExHandleResolve_iff [OF s1(2) t1 d ty, of desired r] live i len des by (simp add: u)
  moreover have "KiEncodeHandle (word_of_nat i) g \<noteq> EX_HANDLE_INVALID" using d by (auto simp: KiDecodeHandle_def)
  ultimately show ?thesis using s1(1,2) by blast
qed

end
