(* ===== verification/ClockEvent.thy ===== *)
theory ClockEvent
  imports HoPrelude
begin

text \<open>
  The one-shot clock-event device: \<^verbatim>\<open>ke/time/clock_event.c\<close>, the LAPIC sink
  \<^verbatim>\<open>ke/time/sinks/lapic_clockevent_sink.c\<close> and the clamping \<open>KiArmClockEvent\<close> of
  \<^verbatim>\<open>ke/thread/scheduler/timer.c\<close>. The LAPIC initial-count register is the only hardware
  state: a non-zero value is a programmed one-shot interval in timer ticks.
\<close>

section \<open>State\<close>

record clock_device =
  DeviceInitialized :: bool
  PerCpuInitialized :: bool
  InterruptCount :: u64
  SinkInitialized :: bool
  TicksPerSec :: u64
  InitialCountRegister :: u32

definition ns_per_sec :: u64 where "ns_per_sec = 1000000000"

section \<open>The LAPIC sink\<close>

text \<open>
  \<open>divq\<close> divides the 128-bit \<open>hi:lo\<close> by its operand and raises a divide error when the divisor is
  zero or the quotient does not fit in 64 bits; the exception is \<open>Fault\<close>.
\<close>

definition Div128By64 :: "u64 \<Rightarrow> u64 \<Rightarrow> u64 \<Rightarrow> u64 outcome" where
  "Div128By64 hi lo d =
    (let q = (unat hi * 2 ^ 64 + unat lo) div unat d in
     if d = 0 \<or> q \<ge> 2 ^ 64 then Fault else Done (word_of_nat q))"

definition Mul64Div64 :: "u64 \<Rightarrow> u64 \<Rightarrow> u64 \<Rightarrow> u64 outcome" where
  "Mul64Div64 val mul d =
    (let product = unat val * unat mul in
     Div128By64 (word_of_nat (product div 2 ^ 64)) (word_of_nat product) d)"

definition LapicClockEventSetNextEventNs :: "u64 \<Rightarrow> clock_device \<Rightarrow> (ho_status \<times> clock_device) outcome" where
  "LapicClockEventSetNextEventNs deltaNs c =
    (if \<not> SinkInitialized c \<or> TicksPerSec c = 0 then Done (EC_INVALID_STATE, c)
     else
       let deltaNs = (if deltaNs = 0 then 1 else deltaNs) in
       bind_outcome (Mul64Div64 deltaNs (TicksPerSec c) ns_per_sec) (\<lambda>ticks.
         let ticks = (if ticks = 0 then 1 else ticks);
             ticks = (if ticks > 0xFFFFFFFF then 0xFFFFFFFF else ticks)
         in Done (EC_SUCCESS, c\<lparr>InitialCountRegister := ucast ticks\<rparr>)))"

definition LapicClockEventGetMinDeltaNs :: "clock_device \<Rightarrow> u64" where
  "LapicClockEventGetMinDeltaNs c =
    (if TicksPerSec c = 0 then 0 else (ns_per_sec + TicksPerSec c - 1) div TicksPerSec c)"

definition LapicClockEventGetMaxDeltaNs :: "clock_device \<Rightarrow> u64 outcome" where
  "LapicClockEventGetMaxDeltaNs c =
    (if TicksPerSec c = 0 then Done 0 else Mul64Div64 0xFFFFFFFF ns_per_sec (TicksPerSec c))"

text \<open>
  Calibration counts LAPIC ticks over a window of the time source. The busy-wait loop ends with the
  first time reading \<open>nowUs\<close> at least \<open>windowUs\<close> after \<open>startUs\<close>; the four readings are inputs.
\<close>

definition KeLapicClockEventSinkCalibrate ::
  "u64 \<Rightarrow> u64 \<Rightarrow> u32 \<Rightarrow> u64 \<Rightarrow> u32 \<Rightarrow> clock_device \<Rightarrow> (ho_status \<times> clock_device) outcome" where
  "KeLapicClockEventSinkCalibrate windowUs startUs startCount nowUs endCount c =
    (if windowUs = 0 then Done (EC_ILLEGAL_ARGUMENT, c)
     else if \<not> SinkInitialized c then Done (EC_INVALID_STATE, c)
     else
       let c = c\<lparr>InitialCountRegister := 0\<rparr>; elapsedUs = nowUs - startUs in
       if elapsedUs = 0 \<or> startCount \<le> endCount then Done (EC_FAILURE, c)
       else bind_outcome (Mul64Div64 (ucast (startCount - endCount)) 1000000 elapsedUs) (\<lambda>ticksPerSec.
         if ticksPerSec = 0 then Done (EC_FAILURE, c)
         else Done (EC_SUCCESS, c\<lparr>TicksPerSec := ticksPerSec\<rparr>)))"

definition LAPIC_CALIBRATION_US :: u64 where "LAPIC_CALIBRATION_US = 10000"

section \<open>The device\<close>

definition KeClockEventSetNextEvent :: "u64 \<Rightarrow> clock_device \<Rightarrow> (ho_status \<times> clock_device) outcome" where
  "KeClockEventSetNextEvent deltaNs c =
    (if \<not> DeviceInitialized c then Done (EC_INVALID_STATE, c)
     else if \<not> PerCpuInitialized c then Done (EC_INVALID_STATE, c)
     else LapicClockEventSetNextEventNs deltaNs c)"

definition KeClockEventGetMinDeltaNs :: "clock_device \<Rightarrow> u64" where
  "KeClockEventGetMinDeltaNs c = (if \<not> DeviceInitialized c then 0 else LapicClockEventGetMinDeltaNs c)"

definition KeClockEventGetMaxDeltaNs :: "clock_device \<Rightarrow> u64 outcome" where
  "KeClockEventGetMaxDeltaNs c = (if \<not> DeviceInitialized c then Done 0 else LapicClockEventGetMaxDeltaNs c)"

definition KeClockEventOnInterrupt :: "clock_device \<Rightarrow> clock_device" where
  "KeClockEventOnInterrupt c = (if PerCpuInitialized c then c\<lparr>InterruptCount := InterruptCount c + 1\<rparr> else c)"

section \<open>Arming with clamping (timer.c)\<close>

definition KiArmClockEvent :: "u64 \<Rightarrow> clock_device \<Rightarrow> clock_device outcome" where
  "KiArmClockEvent deltaNs c =
    (if deltaNs = 0 then Done c
     else bind_outcome (KeClockEventGetMaxDeltaNs c) (\<lambda>maxDelta.
       let minDelta = KeClockEventGetMinDeltaNs c;
           deltaNs = (if minDelta > 0 \<and> deltaNs < minDelta then minDelta else deltaNs);
           deltaNs = (if maxDelta > 0 \<and> deltaNs > maxDelta then maxDelta else deltaNs)
       in bind_outcome (KeClockEventSetNextEvent deltaNs c) (\<lambda>(armStatus, c). Done c)))"

section \<open>Arithmetic of the sink\<close>

lemma Mul64Div64_value:
  assumes "d \<noteq> 0" "unat val * unat mul div unat d < 2 ^ 64"
  shows "\<exists>q. Mul64Div64 val mul d = Done q \<and> unat q = unat val * unat mul div unat d"
proof -
  define P where "P = unat val * unat mul"
  have "P < 2 ^ 64 * 2 ^ 64"
    unfolding P_def by (rule mult_strict_mono) simp_all
  then have "P div 2 ^ 64 < 2 ^ 64" by (simp add: less_mult_imp_div_less)
  then have hi: "unat (word_of_nat (P div 2 ^ 64) :: u64) = P div 2 ^ 64" by (simp add: unsigned_of_nat take_bit_nat_eq_self)
  have lo: "unat (word_of_nat P :: u64) = P mod 2 ^ 64" by (simp add: unsigned_of_nat take_bit_eq_mod)
  have "unat (word_of_nat (P div 2 ^ 64) :: u64) * 2 ^ 64 + unat (word_of_nat P :: u64) = P"
    unfolding hi lo by (rule div_mult_mod_eq)
  then show ?thesis using assms unfolding P_def [symmetric]
    by (simp add: Mul64Div64_def Div128By64_def Let_def P_def [symmetric] not_le unsigned_of_nat take_bit_nat_eq_self)
qed

text \<open>
  A calibrated device. The bound on the tick rate is what calibration over \<open>LAPIC_CALIBRATION_US\<close>
  guarantees (lemma \<open>Calibrate_rate\<close>).
\<close>

definition clock_ok :: "clock_device \<Rightarrow> bool" where
  "clock_ok c \<longleftrightarrow> DeviceInitialized c \<and> PerCpuInitialized c \<and> SinkInitialized c \<and>
     0 < unat (TicksPerSec c) \<and> unat (TicksPerSec c) \<le> 0xFFFFFFFF * 100"

lemma Calibrate_rate:
  assumes "SinkInitialized c" "unat (nowUs - startUs) \<ge> unat LAPIC_CALIBRATION_US"
    and "KeLapicClockEventSinkCalibrate LAPIC_CALIBRATION_US startUs startCount nowUs endCount c = Done (EC_SUCCESS, c')"
  shows "0 < unat (TicksPerSec c') \<and> unat (TicksPerSec c') \<le> 0xFFFFFFFF * 100"
proof -
  define e where "e = nowUs - startUs"
  define n where "n = (ucast (startCount - endCount) :: u64)"
  have e: "10000 \<le> unat e" using assms(2) by (simp add: e_def LAPIC_CALIBRATION_US_def)
  have sm: "unat (startCount - endCount) < 2 ^ 32"
    using unsigned_less [of "startCount - endCount", where 'a = nat] by simp
  then have "unat n = unat (startCount - endCount)"
    unfolding n_def by (simp add: unsigned_ucast_eq take_bit_nat_eq_self)
  with sm have n: "unat n \<le> 0xFFFFFFFF" by simp
  have "unat n * 1000000 div unat e \<le> unat n * 1000000 div 10000" using e by (intro div_le_mono2) simp_all
  also have "\<dots> \<le> 0xFFFFFFFF * 100" using n by simp
  finally have q: "unat n * 1000000 div unat e \<le> 0xFFFFFFFF * 100" .
  obtain t where t: "Mul64Div64 n 1000000 e = Done t" "unat t = unat n * 1000000 div unat e"
    using Mul64Div64_value [of e n 1000000] q e by fastforce
  then show ?thesis
    using assms(3) q unfolding KeLapicClockEventSinkCalibrate_def e_def [symmetric] n_def [symmetric]
    by (auto simp: Let_def LAPIC_CALIBRATION_US_def word_greater_zero_iff unat_gt_0 split: if_splits)
qed

text \<open>The interval that is really programmed: the request clamped to what the timer can count.\<close>


definition clamp_delta :: "nat \<Rightarrow> nat \<Rightarrow> nat" where
  "clamp_delta T d = min (max d ((1000000000 + T - 1) div T)) (0xFFFFFFFF * 1000000000 div T)"

lemma clamp_delta_ticks:
  assumes "0 < T" "T \<le> 0xFFFFFFFF * 100"
  shows "1 \<le> clamp_delta T d * T div 1000000000" "clamp_delta T d * T div 1000000000 \<le> 0xFFFFFFFF"
proof -
  define lo where "lo = (1000000000 + T - 1) div T"
  define hi where "hi = 0xFFFFFFFF * 1000000000 div T"
  have c: "clamp_delta T d = min (max d lo) hi" by (simp add: clamp_delta_def lo_def hi_def)
  have hiT: "hi * T \<le> 0xFFFFFFFF * 1000000000" unfolding hi_def by (rule div_times_less_eq_dividend)
  have loT: "1000000000 \<le> lo * T"
  proof -
    have "(1000000000 + T - 1) mod T < T" using assms(1) by simp
    moreover have "lo * T + (1000000000 + T - 1) mod T = 1000000000 + T - 1" unfolding lo_def by (rule div_mult_mod_eq)
    ultimately show ?thesis using assms(1) by linarith
  qed
  have hiT2: "1000000000 \<le> hi * T"
  proof -
    have "0xFFFFFFFF * 1000000000 mod T < T" using assms(1) by simp
    moreover have "hi * T + 0xFFFFFFFF * 1000000000 mod T = 0xFFFFFFFF * 1000000000" unfolding hi_def by (rule div_mult_mod_eq)
    ultimately show ?thesis using assms(2) by linarith
  qed
  have "1000000000 \<le> clamp_delta T d * T"
  proof (cases "max d lo \<le> hi")
    case True
    then have "lo * T \<le> clamp_delta T d * T" unfolding c by (intro mult_le_mono1) simp
    then show ?thesis using loT by linarith
  next
    case False
    then have "clamp_delta T d = hi" unfolding c by linarith
    then show ?thesis using hiT2 by simp
  qed
  then show "1 \<le> clamp_delta T d * T div 1000000000" by (simp add: less_eq_div_iff_mult_less_eq)
  have "clamp_delta T d * T \<le> hi * T" unfolding c by (intro mult_le_mono1) simp
  then have "clamp_delta T d * T \<le> 0xFFFFFFFF * 1000000000" using hiT by linarith
  then have "clamp_delta T d * T div 1000000000 \<le> 0xFFFFFFFF * 1000000000 div 1000000000" by (rule div_le_mono)
  then show "clamp_delta T d * T div 1000000000 \<le> 0xFFFFFFFF" by simp
qed

lemma KiArmClockEvent_programs:
  assumes ok: "clock_ok c" and d: "deltaNs \<noteq> 0"
  shows "\<exists>c'. KiArmClockEvent deltaNs c = Done c' \<and>
    c' = c\<lparr>InitialCountRegister := InitialCountRegister c'\<rparr> \<and>
    unat (InitialCountRegister c') = clamp_delta (unat (TicksPerSec c)) (unat deltaNs) * unat (TicksPerSec c) div 1000000000"
proof -
  define T where "T = unat (TicksPerSec c)"
  have T: "0 < T" "T \<le> 0xFFFFFFFF * 100" using ok by (simp_all add: clock_ok_def T_def)
  have T0: "TicksPerSec c \<noteq> 0" using T by (auto simp: T_def)
  define lo where "lo = (1000000000 + T - 1) div T"
  define hi where "hi = 0xFFFFFFFF * 1000000000 div T"
  have hib: "hi \<le> 0xFFFFFFFF * 1000000000" unfolding hi_def by (rule div_le_dividend)
  have hi0: "0 < hi" unfolding hi_def using T by (simp add: div_greater_zero_iff)
  have "unat (0xFFFFFFFF :: u64) * unat ns_per_sec div unat (TicksPerSec c) = hi"
    by (simp add: ns_per_sec_def hi_def T_def)
  then obtain mx where mx: "KeClockEventGetMaxDeltaNs c = Done mx" "unat mx = hi"
    using Mul64Div64_value [of "TicksPerSec c" "0xFFFFFFFF" ns_per_sec] ok T0 le_less_trans [OF hib, of "2 ^ 64"]
    by (auto simp del: unat_numeral simp: KeClockEventGetMaxDeltaNs_def LapicClockEventGetMaxDeltaNs_def clock_ok_def)
  define mn where "mn = KeClockEventGetMinDeltaNs c"
  have "unat (ns_per_sec + TicksPerSec c) = 1000000000 + T"
    using T by (simp add: ns_per_sec_def T_def unat_add_small)
  then have "unat (ns_per_sec + TicksPerSec c - 1) = 1000000000 + T - 1"
    by (subst unat_minus_one) auto
  then have mn: "unat mn = lo"
    using ok T0 by (simp add: mn_def KeClockEventGetMinDeltaNs_def LapicClockEventGetMinDeltaNs_def clock_ok_def
        unat_div lo_def T_def)
  define dd where "dd = (let d1 = (if mn > 0 \<and> deltaNs < mn then mn else deltaNs) in if mx > 0 \<and> d1 > mx then mx else d1)"
  have "0 < lo" unfolding lo_def using T by (simp add: div_greater_zero_iff)
  then have dd: "unat dd = clamp_delta T (unat deltaNs)"
    using mn mx(2) hi0 unfolding dd_def clamp_delta_def lo_def [symmetric] hi_def [symmetric]
    by (auto simp: Let_def word_less_nat_alt word_greater_zero_iff min_def max_def split: if_splits)
  have ct: "1 \<le> clamp_delta T (unat deltaNs) * T div 1000000000"
    "clamp_delta T (unat deltaNs) * T div 1000000000 \<le> 0xFFFFFFFF" using clamp_delta_ticks [OF T] by blast+
  obtain q where q: "Mul64Div64 dd (TicksPerSec c) ns_per_sec = Done q" "unat q = clamp_delta T (unat deltaNs) * T div 1000000000"
    using Mul64Div64_value [of ns_per_sec dd "TicksPerSec c"] ct(2) dd by (auto simp: ns_per_sec_def T_def)
  have "clamp_delta T (unat deltaNs) \<noteq> 0" using ct(1) by (intro notI) simp
  then have dd0: "dd \<noteq> 0" using dd by auto
  have q1: "q \<noteq> 0" "\<not> 0xFFFFFFFF < q" using q(2) ct by (auto simp: word_less_nat_alt)
  have "KeClockEventSetNextEvent dd c = Done (EC_SUCCESS, c\<lparr>InitialCountRegister := ucast q\<rparr>)"
    using ok dd0 q(1) q1 T0
    by (simp add: KeClockEventSetNextEvent_def LapicClockEventSetNextEventNs_def clock_ok_def)
  then have "KiArmClockEvent deltaNs c = Done (c\<lparr>InitialCountRegister := ucast q\<rparr>)"
    using d mx(1) unfolding KiArmClockEvent_def dd_def mn_def by (simp add: Let_def)
  moreover have "unat (ucast q :: u32) = unat q"
    using q(2) ct(2) by (simp add: unsigned_ucast_eq take_bit_nat_eq_self)
  ultimately show ?thesis using q(2) by (simp add: T_def)
qed

end
