(* ===== verification/Scheduler.thy ===== *)
theory Scheduler
  imports LinkedList Irql ClockEvent
begin

text \<open>
  The priority-aware tickless scheduler: \<^verbatim>\<open>ke/thread/scheduler/\<close> (\<^verbatim>\<open>scheduler.c\<close>,
  \<^verbatim>\<open>wait.c\<close>, \<^verbatim>\<open>sync.c\<close>, \<^verbatim>\<open>timer.c\<close>, \<^verbatim>\<open>diag.c\<close>,
  \<^verbatim>\<open>scheduler_internal.h\<close>), the thread lifecycle of \<^verbatim>\<open>ke/thread/kthread.c\<close> and the hook
  table of \<^verbatim>\<open>ke/user_runtime_hooks.c\<close>.

  Queues are lists of threads: \<open>LinkedList\<close> proves that the intrusive list operations refine these
  list operations. A list node is in at most one list, so removing a node from its list is a removal
  from the list its wait block names, and a node that is in no list (a self-loop) is left alone.
  Every routine below runs its body at dispatch level inside a critical section; \<open>Irql\<close> proves that
  these brackets exclude interrupts and restore the level, so a routine is one atomic step. A routine
  that blocks yields \<open>Blocked\<close>: the caller's thread has been switched away from and its continuation
  runs when it is dispatched again.
\<close>

section \<open>Data (kthread.h, dispatcher.h, scheduler.h)\<close>

type_synonym kthread_ref = u64

datatype disp_ref = DispatcherAt u64 | TerminationCompletion kthread_ref

datatype KTHREAD_STATE =
    KTHREAD_STATE_NEW | KTHREAD_STATE_READY | KTHREAD_STATE_RUNNING | KTHREAD_STATE_BLOCKED | KTHREAD_STATE_TERMINATED

datatype KTHREAD_TERMINATION_MODE = KTHREAD_TERMINATION_MODE_DETACHED | KTHREAD_TERMINATION_MODE_JOINABLE

datatype KTHREAD_TERMINATION_CLAIM_STATE =
    KTHREAD_TERMINATION_CLAIM_STATE_UNCLAIMED
  | KTHREAD_TERMINATION_CLAIM_STATE_JOIN_IN_PROGRESS
  | KTHREAD_TERMINATION_CLAIM_STATE_CONSUMED

text \<open>The last value stands for any enumerator the code does not know.\<close>

datatype KDISPATCHER_OBJECT_TYPE =
    DISPATCHER_TYPE_EVENT | DISPATCHER_TYPE_SEMAPHORE | DISPATCHER_TYPE_MUTEX | DISPATCHER_TYPE_UNKNOWN

record KWAIT_BLOCK =
  Dispatcher :: "disp_ref option"
  DeadlineNs :: u64
  CompletionStatus :: ho_status
  Completed :: bool

record KTHREAD =
  KThreadId :: u32
  State :: KTHREAD_STATE
  StackBase :: u64
  StackSize :: u64
  StackGuardBase :: u64
  StackOwnedByKva :: bool
  Priority :: u8
  Quantum :: u64
  OwnedMutexCount :: u32
  IrqlState :: KE_IRQL_STATE
  WaitBlock :: KWAIT_BLOCK
  TerminationMode :: KTHREAD_TERMINATION_MODE
  TerminationClaimState :: KTHREAD_TERMINATION_CLAIM_STATE
  ThreadFlags :: u32

text \<open>
  A dispatcher object: the common header with its wait list, and the fields of \<open>KSEMAPHORE\<close>
  (\<open>Limit\<close>) and \<open>KMUTEX\<close> (\<open>OwnerThread\<close>). \<open>int32_t\<close> fields are integers; the invariant keeps them
  in range.
\<close>

record KDISPATCHER =
  Signature :: u32
  DispatcherType :: KDISPATCHER_OBJECT_TYPE
  SignalState :: int
  WaitListHead :: "kthread_ref list"
  Limit :: int
  OwnerThread :: "kthread_ref option"

record KE_SCHEDULER_STATS =
  ActiveThreadCount :: u32
  ContextSwitchCount :: u64
  PreemptionCount :: u64
  YieldCount :: u64
  SleepWakeCount :: u64
  TotalThreadsCreated :: u64

record user_runtime_hooks =
  OwnsThreadHook :: "(kthread_ref \<Rightarrow> bool) option"
  ResolveRootHook :: "(kthread_ref \<Rightarrow> u64 result) option"
  FinalizeThreadHook :: "(kthread_ref \<Rightarrow> ho_status) option"

record sched_state =
  gReadyQueues :: "nat \<Rightarrow> kthread_ref list"
  gTimeoutQueue :: "kthread_ref list"
  gTerminatedList :: "kthread_ref list"
  gCurrentThread :: kthread_ref
  gIdleThread :: kthread_ref
  gSchedulerEnabled :: bool
  gQuantumDeadlineNs :: u64
  gNextProgrammedDeadlineNs :: u64
  gNextThreadId :: u32
  KThreads :: "kthread_ref \<rightharpoonup> KTHREAD"
  Dispatchers :: "disp_ref \<rightharpoonup> KDISPATCHER"
  gStats :: KE_SCHEDULER_STATS
  gClock :: clock_device
  Cr3 :: u64
  TssRsp0 :: u64
  Hooks :: user_runtime_hooks

datatype call_result = Returned ho_status | Blocked

section \<open>Constants\<close>

definition KTHREAD_PRIORITY_COUNT :: nat where "KTHREAD_PRIORITY_COUNT = 3"
definition KTHREAD_DEFAULT_PRIORITY :: u8 where "KTHREAD_DEFAULT_PRIORITY = 1"
definition KTHREAD_FLAG_IDLE :: u32 where "KTHREAD_FLAG_IDLE = 1"
definition KDISPATCHER_SIGNATURE :: u32 where "KDISPATCHER_SIGNATURE = 0x4B444953"
definition KE_WAIT_INFINITE :: u64 where "KE_WAIT_INFINITE = 0xFFFFFFFFFFFFFFFF"
definition KE_DEFAULT_QUANTUM_NS :: u64 where "KE_DEFAULT_QUANTUM_NS = 10000000"
definition KE_THREAD_STACK_SIZE :: u64 where "KE_THREAD_STACK_SIZE = 0x4000"

section \<open>Store access\<close>

definition set_kthread :: "kthread_ref \<Rightarrow> KTHREAD \<Rightarrow> sched_state \<Rightarrow> sched_state" where
  "set_kthread t th s = s\<lparr>KThreads := (KThreads s)(t \<mapsto> th)\<rparr>"

definition set_dispatcher :: "disp_ref \<Rightarrow> KDISPATCHER \<Rightarrow> sched_state \<Rightarrow> sched_state" where
  "set_dispatcher d ob s = s\<lparr>Dispatchers := (Dispatchers s)(d \<mapsto> ob)\<rparr>"

section \<open>Ready queues (scheduler\_internal.h)\<close>

definition KiIsValidThreadPriority :: "u8 \<Rightarrow> bool" where
  "KiIsValidThreadPriority priority \<longleftrightarrow> unat priority < KTHREAD_PRIORITY_COUNT"

definition KiInitReadyQueues :: "sched_state \<Rightarrow> sched_state" where
  "KiInitReadyQueues s = s\<lparr>gReadyQueues := (\<lambda>k. if k < KTHREAD_PRIORITY_COUNT then [] else gReadyQueues s k)\<rparr>"

definition KiHasAnyReadyThread :: "sched_state \<Rightarrow> bool" where
  "KiHasAnyReadyThread s \<longleftrightarrow> list_ex (\<lambda>k. gReadyQueues s k \<noteq> []) [0..<KTHREAD_PRIORITY_COUNT]"

definition KiGetHighestPriorityReadyQueue :: "sched_state \<Rightarrow> nat option" where
  "KiGetHighestPriorityReadyQueue s = find (\<lambda>k. gReadyQueues s k \<noteq> []) (rev [0..<KTHREAD_PRIORITY_COUNT])"

definition KiCountQueueDepth :: "kthread_ref list \<Rightarrow> u32" where
  "KiCountQueueDepth q = word_of_nat (length q)"

definition KiCountAllReadyThreads :: "sched_state \<Rightarrow> u32" where
  "KiCountAllReadyThreads s = word_of_nat (sum_list (map (\<lambda>k. length (gReadyQueues s k)) [0..<KTHREAD_PRIORITY_COUNT]))"

text \<open>\<open>LinkedListInsertTail(KiGetReadyQueueForThread(thread), \&thread->ReadyLink)\<close>, with the assertion
  of \<open>KiGetReadyQueueForPriority\<close>.\<close>

definition ready_insert_tail :: "kthread_ref \<Rightarrow> sched_state \<Rightarrow> sched_state outcome" where
  "ready_insert_tail t s =
    deref (KThreads s t) (\<lambda>th.
      HO_KASSERT (KiIsValidThreadPriority (Priority th)) EC_ILLEGAL_ARGUMENT
        (let k = unat (Priority th) in
         Done (s\<lparr>gReadyQueues := (gReadyQueues s)(k := gReadyQueues s k @ [t])\<rparr>)))"

definition set_state :: "kthread_ref \<Rightarrow> KTHREAD_STATE \<Rightarrow> sched_state \<Rightarrow> sched_state outcome" where
  "set_state t st s = deref (KThreads s t) (\<lambda>th. Done (set_kthread t (th\<lparr>State := st\<rparr>) s))"

section \<open>Timers (timer.c)\<close>

definition KiNowNs :: "u64 \<Rightarrow> u64" where
  "KiNowNs upRealTimeUs = upRealTimeUs * 1000"

definition deadline_of :: "sched_state \<Rightarrow> kthread_ref \<Rightarrow> u64" where
  "deadline_of s t = (case KThreads s t of None \<Rightarrow> 0 | Some th \<Rightarrow> DeadlineNs (WaitBlock th))"

definition KiInsertTimeoutQueue_list :: "kthread_ref \<Rightarrow> sched_state \<Rightarrow> sched_state" where
  "KiInsertTimeoutQueue_list t s = s\<lparr>gTimeoutQueue := timeout_insert (deadline_of s) t (gTimeoutQueue s)\<rparr>"

definition arm_clock :: "u64 \<Rightarrow> sched_state \<Rightarrow> sched_state outcome" where
  "arm_clock deltaNs s = bind_outcome (KiArmClockEvent deltaNs (gClock s)) (\<lambda>c. Done (s\<lparr>gClock := c\<rparr>))"

definition KiArmForNextEvent :: "u64 \<Rightarrow> kthread_ref \<Rightarrow> sched_state \<Rightarrow> sched_state outcome" where
  "KiArmForNextEvent nowNs next s =
    (if next = gIdleThread s then
       case gTimeoutQueue s of
         t # _ \<Rightarrow>
           let deadline = deadline_of s t;
               delta = (if deadline > nowNs then deadline - nowNs else 1)
           in arm_clock delta (s\<lparr>gNextProgrammedDeadlineNs := deadline\<rparr>)
       | [] \<Rightarrow> Done (s\<lparr>gNextProgrammedDeadlineNs := 0\<rparr>)
     else
       deref (KThreads s next) (\<lambda>th.
         let s = set_kthread next (th\<lparr>Quantum := KE_DEFAULT_QUANTUM_NS\<rparr>) s;
             quantumDeadline = nowNs + KE_DEFAULT_QUANTUM_NS;
             s = s\<lparr>gQuantumDeadlineNs := quantumDeadline\<rparr>;
             targetDeadline =
               (case gTimeoutQueue s of
                  t # _ \<Rightarrow> if deadline_of s t < quantumDeadline then deadline_of s t else quantumDeadline
                | [] \<Rightarrow> quantumDeadline);
             delta = (if targetDeadline > nowNs then targetDeadline - nowNs else 1)
         in arm_clock delta (s\<lparr>gNextProgrammedDeadlineNs := targetDeadline\<rparr>)))"

section \<open>Completing waits (wait.c)\<close>

definition init_wait_block :: KWAIT_BLOCK where
  "init_wait_block = \<lparr>Dispatcher = None, DeadlineNs = 0, CompletionStatus = EC_SUCCESS, Completed = False\<rparr>"

definition wait_list_remove :: "disp_ref option \<Rightarrow> kthread_ref \<Rightarrow> sched_state \<Rightarrow> sched_state outcome" where
  "wait_list_remove d t s =
    (case d of
       None \<Rightarrow> Done s
     | Some d \<Rightarrow> deref (Dispatchers s d) (\<lambda>ob.
         Done (set_dispatcher d (ob\<lparr>WaitListHead := remove1 t (WaitListHead ob)\<rparr>) s)))"

definition KiCompleteWait :: "kthread_ref \<Rightarrow> ho_status \<Rightarrow> sched_state \<Rightarrow> sched_state outcome" where
  "KiCompleteWait t status s =
    deref (KThreads s t) (\<lambda>th.
      let block = WaitBlock th in
      if Completed block then Done s
      else
        let th = th\<lparr>WaitBlock := block\<lparr>Completed := True, CompletionStatus := status\<rparr>\<rparr>;
            s = set_kthread t th s
        in bind_outcome (wait_list_remove (Dispatcher block) t s) (\<lambda>s.
           let s = (if DeadlineNs block \<noteq> 0 then s\<lparr>gTimeoutQueue := remove1 t (gTimeoutQueue s)\<rparr> else s) in
           bind_outcome (set_state t KTHREAD_STATE_READY s) (\<lambda>s.
           bind_outcome (ready_insert_tail t s) (\<lambda>s.
           Done (if status = EC_TIMEOUT
                 then s\<lparr>gStats := (gStats s)\<lparr>SleepWakeCount := SleepWakeCount (gStats s) + 1\<rparr>\<rparr> else s)))))"

text \<open>\<open>KiWakeTimeouts\<close>: \<open>None\<close> is the loop that never ends.\<close>

partial_function (option) wake_timeouts :: "u64 \<Rightarrow> sched_state \<Rightarrow> sched_state outcome option" where
  "wake_timeouts nowNs s =
    (case gTimeoutQueue s of
       [] \<Rightarrow> Some (Done s)
     | t # _ \<Rightarrow>
       if deadline_of s t > nowNs then Some (Done s)
       else case KiCompleteWait t EC_TIMEOUT s of
              Done s' \<Rightarrow> wake_timeouts nowNs s'
            | Halt e \<Rightarrow> Some (Halt e)
            | Diverge \<Rightarrow> Some Diverge
            | Fault \<Rightarrow> Some Fault)"

definition flatten_loop :: "'a outcome option \<Rightarrow> 'a outcome" where
  "flatten_loop r = (case r of None \<Rightarrow> Diverge | Some m \<Rightarrow> m)"

definition KiWakeTimeouts :: "u64 \<Rightarrow> sched_state \<Rightarrow> sched_state outcome" where
  "KiWakeTimeouts nowNs s = flatten_loop (wake_timeouts nowNs s)"


section \<open>Dispatch (scheduler.c)\<close>

definition KiResolveDispatchRoot :: "kthread_ref \<Rightarrow> sched_state \<Rightarrow> u64 outcome" where
  "KiResolveDispatchRoot t s =
    (case ResolveRootHook (Hooks s) of
       None \<Rightarrow> Halt EC_INVALID_STATE
     | Some resolveRootFn \<Rightarrow>
       (case resolveRootFn t of
          Inl status \<Rightarrow> Halt status
        | Inr root \<Rightarrow> if root = 0 then Halt EC_INVALID_STATE else Done root))"

text \<open>\<open>KeSwitchAddressSpace\<close> of \<^verbatim>\<open>ke/mm/address_space.c\<close>.\<close>

definition KeSwitchAddressSpace :: "u64 \<Rightarrow> sched_state \<Rightarrow> ho_status \<times> sched_state" where
  "KeSwitchAddressSpace root s =
    (if root = 0 \<or> \<not> HO_IS_ALIGNED root PAGE_4KB then (EC_ILLEGAL_ARGUMENT, s)
     else (EC_SUCCESS, s\<lparr>Cr3 := root\<rparr>))"

definition pick_next :: "sched_state \<Rightarrow> kthread_ref \<times> sched_state" where
  "pick_next s =
    (case KiGetHighestPriorityReadyQueue s of
       None \<Rightarrow> (gIdleThread s, s)
     | Some k \<Rightarrow> (hd (gReadyQueues s k), s\<lparr>gReadyQueues := (gReadyQueues s)(k := tl (gReadyQueues s k))\<rparr>))"

definition KiSchedule :: "u64 \<Rightarrow> sched_state \<Rightarrow> sched_state outcome" where
  "KiSchedule nowNs s =
    (let prev = gCurrentThread s; (next, s) = pick_next s in
     if next = prev then
       bind_outcome (set_state next KTHREAD_STATE_RUNNING s) (KiArmForNextEvent nowNs next)
     else
       bind_outcome (KiResolveDispatchRoot next s) (\<lambda>nextRootPageTablePhys.
       bind_outcome (set_state next KTHREAD_STATE_RUNNING s) (\<lambda>s.
       deref (KThreads s next) (\<lambda>th.
       let s = s\<lparr>gStats := (gStats s)\<lparr>ContextSwitchCount := ContextSwitchCount (gStats s) + 1\<rparr>,
                 TssRsp0 := StackBase th + StackSize th\<rparr> in
       bind_outcome (KiArmForNextEvent nowNs next s) (\<lambda>s.
       let (switchStatus, s) = KeSwitchAddressSpace nextRootPageTablePhys s in
       if switchStatus \<noteq> EC_SUCCESS then Halt switchStatus
       else Done (s\<lparr>gCurrentThread := next\<rparr>))))))"

section \<open>Dispatcher objects (sync.c)\<close>

definition KiAssertMutexState :: "disp_ref \<Rightarrow> sched_state \<Rightarrow> (KDISPATCHER \<Rightarrow> 'a outcome) \<Rightarrow> 'a outcome" where
  "KiAssertMutexState d s k =
    deref (Dispatchers s d) (\<lambda>m.
      HO_KASSERT (Signature m = KDISPATCHER_SIGNATURE) EC_INVALID_STATE
      (HO_KASSERT (DispatcherType m = DISPATCHER_TYPE_MUTEX) EC_NOT_SUPPORTED
      (HO_KASSERT (SignalState m = 0 \<or> SignalState m = 1) EC_INVALID_STATE
      (HO_KASSERT (if SignalState m \<noteq> 0 then OwnerThread m = None else OwnerThread m \<noteq> None) EC_INVALID_STATE
      (k m)))))"

definition KiAssertSemaphoreState :: "disp_ref \<Rightarrow> sched_state \<Rightarrow> (KDISPATCHER \<Rightarrow> 'a outcome) \<Rightarrow> 'a outcome" where
  "KiAssertSemaphoreState d s k =
    deref (Dispatchers s d) (\<lambda>m.
      HO_KASSERT (Signature m = KDISPATCHER_SIGNATURE) EC_INVALID_STATE
      (HO_KASSERT (DispatcherType m = DISPATCHER_TYPE_SEMAPHORE) EC_NOT_SUPPORTED
      (HO_KASSERT (Limit m > 0) EC_INVALID_STATE
      (HO_KASSERT (SignalState m \<ge> 0) EC_INVALID_STATE
      (HO_KASSERT (SignalState m \<le> Limit m) EC_INVALID_STATE
      (k m))))))"

definition KiIncrementOwnedMutexCount :: "kthread_ref \<Rightarrow> sched_state \<Rightarrow> sched_state outcome" where
  "KiIncrementOwnedMutexCount t s =
    deref (KThreads s t) (\<lambda>th.
      HO_KASSERT (OwnedMutexCount th \<noteq> 0xFFFFFFFF) EC_OUT_OF_RESOURCE
        (Done (set_kthread t (th\<lparr>OwnedMutexCount := OwnedMutexCount th + 1\<rparr>) s)))"

definition KiDecrementOwnedMutexCount :: "kthread_ref \<Rightarrow> sched_state \<Rightarrow> sched_state outcome" where
  "KiDecrementOwnedMutexCount t s =
    deref (KThreads s t) (\<lambda>th.
      HO_KASSERT (OwnedMutexCount th \<noteq> 0) EC_INVALID_STATE
        (Done (set_kthread t (th\<lparr>OwnedMutexCount := OwnedMutexCount th - 1\<rparr>) s)))"

definition KiAcquireMutexOwnership :: "disp_ref \<Rightarrow> kthread_ref \<Rightarrow> sched_state \<Rightarrow> sched_state outcome" where
  "KiAcquireMutexOwnership d t s =
    KiAssertMutexState d s (\<lambda>m.
      HO_KASSERT (SignalState m = 1) EC_INVALID_STATE
      (HO_KASSERT (OwnerThread m = None) EC_INVALID_STATE
        (bind_outcome (KiIncrementOwnedMutexCount t
            (set_dispatcher d (m\<lparr>OwnerThread := Some t, SignalState := 0\<rparr>) s)) (\<lambda>s.
         KiAssertMutexState d s (\<lambda>_. Done s)))))"

definition KiReleaseMutexOwnership :: "disp_ref \<Rightarrow> sched_state \<Rightarrow> sched_state outcome" where
  "KiReleaseMutexOwnership d s =
    KiAssertMutexState d s (\<lambda>m.
      case OwnerThread m of
        None \<Rightarrow> Halt EC_INVALID_STATE
      | Some owner \<Rightarrow>
        bind_outcome (KiDecrementOwnedMutexCount owner s) (\<lambda>s.
          let s = set_dispatcher d (m\<lparr>OwnerThread := None, SignalState := 1\<rparr>) s in
          KiAssertMutexState d s (\<lambda>_. Done s)))"

definition KiHandOffMutexOwnership :: "disp_ref \<Rightarrow> kthread_ref \<Rightarrow> sched_state \<Rightarrow> sched_state outcome" where
  "KiHandOffMutexOwnership d t s =
    KiAssertMutexState d s (\<lambda>m.
      case OwnerThread m of
        None \<Rightarrow> Halt EC_INVALID_STATE
      | Some owner \<Rightarrow>
        HO_KASSERT (owner \<noteq> t) EC_INVALID_STATE
          (bind_outcome (KiDecrementOwnedMutexCount owner s) (\<lambda>s.
           bind_outcome (KiIncrementOwnedMutexCount t
             (set_dispatcher d (m\<lparr>OwnerThread := Some t, SignalState := 0\<rparr>) s)) (\<lambda>s.
           KiAssertMutexState d s (\<lambda>_. Done s)))))"

definition KeInitializeEvent :: "disp_ref \<Rightarrow> bool \<Rightarrow> sched_state \<Rightarrow> sched_state" where
  "KeInitializeEvent d initialState s =
    set_dispatcher d \<lparr>Signature = KDISPATCHER_SIGNATURE, DispatcherType = DISPATCHER_TYPE_EVENT,
      SignalState = (if initialState then 1 else 0), WaitListHead = [], Limit = 0, OwnerThread = None\<rparr> s"

definition KeInitializeSemaphore :: "disp_ref option \<Rightarrow> int \<Rightarrow> int \<Rightarrow> sched_state \<Rightarrow> ho_status \<times> sched_state" where
  "KeInitializeSemaphore semaphore initialCount limit s =
    (case semaphore of
       None \<Rightarrow> (EC_ILLEGAL_ARGUMENT, s)
     | Some d \<Rightarrow>
       if initialCount < 0 \<or> limit \<le> 0 \<or> initialCount > limit then (EC_ILLEGAL_ARGUMENT, s)
       else (EC_SUCCESS, set_dispatcher d \<lparr>Signature = KDISPATCHER_SIGNATURE,
              DispatcherType = DISPATCHER_TYPE_SEMAPHORE, SignalState = initialCount, WaitListHead = [],
              Limit = limit, OwnerThread = None\<rparr> s))"

definition KeInitializeMutex :: "disp_ref \<Rightarrow> sched_state \<Rightarrow> sched_state outcome" where
  "KeInitializeMutex d s =
    (let s = set_dispatcher d \<lparr>Signature = KDISPATCHER_SIGNATURE, DispatcherType = DISPATCHER_TYPE_MUTEX,
           SignalState = 1, WaitListHead = [], Limit = 0, OwnerThread = None\<rparr> s
     in KiAssertMutexState d s (\<lambda>_. Done s))"

text \<open>
  The wake loop shared by \<open>KeSetEvent\<close> and \<open>KeReleaseSemaphore\<close>: complete the wait at the head of
  the list while \<open>permits\<close> last; an event has no bound. It yields the permits left.
\<close>

partial_function (option) wake_waiters ::
  "disp_ref \<Rightarrow> int option \<Rightarrow> sched_state \<Rightarrow> (int option \<times> sched_state) outcome option" where
  "wake_waiters d permits s =
    (case Dispatchers s d of
       None \<Rightarrow> Some Fault
     | Some ob \<Rightarrow>
       (case WaitListHead ob of
          [] \<Rightarrow> Some (Done (permits, s))
        | t # _ \<Rightarrow>
          if (case permits of None \<Rightarrow> False | Some n \<Rightarrow> \<not> n > 0) then Some (Done (permits, s))
          else case KiCompleteWait t EC_SUCCESS s of
                 Done s' \<Rightarrow> wake_waiters d (map_option (\<lambda>n. n - 1) permits) s'
               | Halt e \<Rightarrow> Some (Halt e)
               | Diverge \<Rightarrow> Some Diverge
               | Fault \<Rightarrow> Some Fault))"

definition need_schedule :: "sched_state \<Rightarrow> bool" where
  "need_schedule s \<longleftrightarrow> gCurrentThread s = gIdleThread s \<and> KiHasAnyReadyThread s"

definition KeSetEvent :: "disp_ref \<Rightarrow> u64 \<Rightarrow> sched_state \<Rightarrow> sched_state outcome" where
  "KeSetEvent d nowNs s =
    deref (Dispatchers s d) (\<lambda>ev.
      HO_KASSERT (Signature ev = KDISPATCHER_SIGNATURE) EC_INVALID_STATE
      (HO_KASSERT (DispatcherType ev = DISPATCHER_TYPE_EVENT) EC_NOT_SUPPORTED
        (bind_outcome (flatten_loop (wake_waiters d None (set_dispatcher d (ev\<lparr>SignalState := 1\<rparr>) s)))
          (\<lambda>(_, s). if need_schedule s then KiSchedule nowNs s else Done s))))"

definition KeResetEvent :: "disp_ref \<Rightarrow> sched_state \<Rightarrow> sched_state outcome" where
  "KeResetEvent d s =
    deref (Dispatchers s d) (\<lambda>ev.
      HO_KASSERT (Signature ev = KDISPATCHER_SIGNATURE) EC_INVALID_STATE
      (HO_KASSERT (DispatcherType ev = DISPATCHER_TYPE_EVENT) EC_NOT_SUPPORTED
        (Done (set_dispatcher d (ev\<lparr>SignalState := 0\<rparr>) s))))"

definition KeReleaseSemaphore ::
  "disp_ref option \<Rightarrow> int \<Rightarrow> u64 \<Rightarrow> sched_state \<Rightarrow> (ho_status \<times> sched_state) outcome" where
  "KeReleaseSemaphore semaphore releaseCount nowNs s =
    (case semaphore of
       None \<Rightarrow> Done (EC_ILLEGAL_ARGUMENT, s)
     | Some d \<Rightarrow>
       if releaseCount \<le> 0 then Done (EC_ILLEGAL_ARGUMENT, s)
       else KiAssertSemaphoreState d s (\<lambda>sem.
         let waiterCount = sint (KiCountQueueDepth (WaitListHead sem));
             remainingPermitCount =
               (if releaseCount > waiterCount
                then releaseCount - uint (KiCountQueueDepth (WaitListHead sem)) else 0);
             resultingCount = SignalState sem + remainingPermitCount
         in if resultingCount > Limit sem then Done (EC_ILLEGAL_ARGUMENT, s)
            else bind_outcome (flatten_loop (wake_waiters d (Some releaseCount) s)) (\<lambda>(permits, s).
              deref (Dispatchers s d) (\<lambda>sem.
              let s = set_dispatcher d (sem\<lparr>SignalState := SignalState sem + the permits\<rparr>) s in
              KiAssertSemaphoreState d s (\<lambda>_.
              if need_schedule s then bind_outcome (KiSchedule nowNs s) (\<lambda>s. Done (EC_SUCCESS, s))
              else Done (EC_SUCCESS, s))))))"

definition KeReleaseMutex :: "disp_ref option \<Rightarrow> sched_state \<Rightarrow> (ho_status \<times> sched_state) outcome" where
  "KeReleaseMutex mutex s =
    (case mutex of
       None \<Rightarrow> Done (EC_ILLEGAL_ARGUMENT, s)
     | Some d \<Rightarrow>
       KiAssertMutexState d s (\<lambda>m.
         if OwnerThread m \<noteq> Some (gCurrentThread s) then Done (EC_INVALID_STATE, s)
         else case WaitListHead m of
           [] \<Rightarrow> bind_outcome (KiReleaseMutexOwnership d s) (\<lambda>s. Done (EC_SUCCESS, s))
         | nextOwner # _ \<Rightarrow>
             bind_outcome (KiHandOffMutexOwnership d nextOwner s) (\<lambda>s.
             bind_outcome (KiCompleteWait nextOwner EC_SUCCESS s) (\<lambda>s. Done (EC_SUCCESS, s)))))"

section \<open>Waiting (wait.c)\<close>

definition KiValidateDispatcherHeader :: "KDISPATCHER option \<Rightarrow> ho_status" where
  "KiValidateDispatcherHeader header =
    (case header of
       None \<Rightarrow> EC_ILLEGAL_ARGUMENT
     | Some ob \<Rightarrow>
       if Signature ob \<noteq> KDISPATCHER_SIGNATURE then EC_INVALID_STATE
       else case DispatcherType ob of DISPATCHER_TYPE_UNKNOWN \<Rightarrow> EC_NOT_SUPPORTED | _ \<Rightarrow> EC_SUCCESS)"

definition KiTryAcquireDispatcherObject ::
  "disp_ref \<Rightarrow> kthread_ref \<Rightarrow> sched_state \<Rightarrow> (bool result \<times> sched_state) outcome" where
  "KiTryAcquireDispatcherObject d t s =
    deref (Dispatchers s d) (\<lambda>ob.
      case DispatcherType ob of
        DISPATCHER_TYPE_EVENT \<Rightarrow> Done (Inr (SignalState ob \<noteq> 0), s)
      | DISPATCHER_TYPE_SEMAPHORE \<Rightarrow>
          KiAssertSemaphoreState d s (\<lambda>sem.
            if SignalState sem = 0 then Done (Inr False, s)
            else HO_KASSERT (SignalState sem - 1 \<ge> 0) EC_INVALID_STATE
              (Done (Inr True, set_dispatcher d (sem\<lparr>SignalState := SignalState sem - 1\<rparr>) s)))
      | DISPATCHER_TYPE_MUTEX \<Rightarrow>
          KiAssertMutexState d s (\<lambda>m.
            if OwnerThread m = Some t then Done (Inl EC_INVALID_STATE, s)
            else if SignalState m = 0 then Done (Inr False, s)
            else bind_outcome (KiAcquireMutexOwnership d t s) (\<lambda>s. Done (Inr True, s)))
      | DISPATCHER_TYPE_UNKNOWN \<Rightarrow> Done (Inl EC_NOT_SUPPORTED, s))"

definition KiAssertBlockingAllowed :: "sched_state \<Rightarrow> 'a outcome \<Rightarrow> 'a outcome" where
  "KiAssertBlockingAllowed s k =
    deref (KThreads s (gCurrentThread s)) (\<lambda>th.
      HO_KASSERT (CurrentLevel (IrqlState th) = KE_IRQL_PASSIVE_LEVEL) EC_INVALID_STATE k)"

text \<open>
  \<open>block_current\<close> is the third path of \<open>KeWaitForSingleObject\<close> up to the switch: \<open>nowNs\<close> is the
  time read for the deadline, \<open>switchNs\<close> the time \<open>KiSchedule\<close> reads.
\<close>

definition block_current :: "disp_ref \<Rightarrow> u64 \<Rightarrow> u64 \<Rightarrow> u64 \<Rightarrow> sched_state \<Rightarrow> sched_state outcome" where
  "block_current d timeoutNs nowNs switchNs s =
    (let cur = gCurrentThread s in
     deref (KThreads s cur) (\<lambda>th.
     deref (Dispatchers s d) (\<lambda>ob.
     let wb = init_wait_block\<lparr>Dispatcher := Some d,
               DeadlineNs := (if timeoutNs \<noteq> KE_WAIT_INFINITE then nowNs + timeoutNs else 0)\<rparr>;
         s = set_kthread cur (th\<lparr>WaitBlock := wb\<rparr>) s;
         s = set_dispatcher d (ob\<lparr>WaitListHead := WaitListHead ob @ [cur]\<rparr>) s;
         s = (if timeoutNs \<noteq> KE_WAIT_INFINITE then KiInsertTimeoutQueue_list cur s else s)
     in bind_outcome (set_state cur KTHREAD_STATE_BLOCKED s) (KiSchedule switchNs))))"

definition KeWaitForSingleObject ::
  "disp_ref option \<Rightarrow> u64 \<Rightarrow> u64 \<Rightarrow> u64 \<Rightarrow> sched_state \<Rightarrow> (call_result \<times> sched_state) outcome" where
  "KeWaitForSingleObject object timeoutNs nowNs switchNs s =
    KiAssertBlockingAllowed s
    (case object of
       None \<Rightarrow> Done (Returned EC_ILLEGAL_ARGUMENT, s)
     | Some d \<Rightarrow>
       HO_KASSERT (gCurrentThread s \<noteq> gIdleThread s) EC_INVALID_STATE
       (deref (Dispatchers s d) (\<lambda>ob.
         let validationStatus = KiValidateDispatcherHeader (Some ob) in
         if validationStatus \<noteq> EC_SUCCESS then Done (Returned validationStatus, s)
         else bind_outcome (KiTryAcquireDispatcherObject d (gCurrentThread s) s) (\<lambda>(acquire, s).
           case acquire of
             Inl acquireStatus \<Rightarrow> Done (Returned acquireStatus, s)
           | Inr acquired \<Rightarrow>
             if acquired then Done (Returned EC_SUCCESS, s)
             else if timeoutNs = 0 then Done (Returned EC_TIMEOUT, s)
             else bind_outcome (block_current d timeoutNs nowNs switchNs s) (\<lambda>s. Done (Blocked, s))))))"

text \<open>What the waiter returns once it runs again.\<close>

definition wait_resumed :: "kthread_ref \<Rightarrow> sched_state \<Rightarrow> ho_status outcome" where
  "wait_resumed t s = deref (KThreads s t) (\<lambda>th. Done (CompletionStatus (WaitBlock th)))"


section \<open>Threads (scheduler.c, kthread.c)\<close>

definition KeThreadStart :: "kthread_ref option \<Rightarrow> sched_state \<Rightarrow> (ho_status \<times> sched_state) outcome" where
  "KeThreadStart thread s =
    (case thread of
       None \<Rightarrow> Done (EC_ILLEGAL_ARGUMENT, s)
     | Some t \<Rightarrow> deref (KThreads s t) (\<lambda>th.
         if State th \<noteq> KTHREAD_STATE_NEW then Done (EC_INVALID_STATE, s)
         else bind_outcome (set_state t KTHREAD_STATE_READY s) (\<lambda>s.
              bind_outcome (ready_insert_tail t s) (\<lambda>s.
              let s = s\<lparr>gStats := (gStats s)\<lparr>TotalThreadsCreated := TotalThreadsCreated (gStats s) + 1,
                                      ActiveThreadCount := ActiveThreadCount (gStats s) + 1\<rparr>\<rparr> in
              bind_outcome
                (if gCurrentThread s = gIdleThread s \<and> gNextProgrammedDeadlineNs s = 0
                 then arm_clock (KeClockEventGetMinDeltaNs (gClock s)) s else Done s)
                (\<lambda>s. Done (EC_SUCCESS, s))))))"

definition KeYield :: "u64 \<Rightarrow> sched_state \<Rightarrow> sched_state outcome" where
  "KeYield switchNs s =
    KiAssertBlockingAllowed s
      (let s = s\<lparr>gStats := (gStats s)\<lparr>YieldCount := YieldCount (gStats s) + 1\<rparr>\<rparr> in
       if \<not> KiHasAnyReadyThread s then Done s
       else bind_outcome (set_state (gCurrentThread s) KTHREAD_STATE_READY s) (\<lambda>s.
            bind_outcome (ready_insert_tail (gCurrentThread s) s) (KiSchedule switchNs)))"

definition KeSleep :: "u64 \<Rightarrow> u64 \<Rightarrow> u64 \<Rightarrow> sched_state \<Rightarrow> sched_state outcome" where
  "KeSleep durationNs nowNs switchNs s =
    KiAssertBlockingAllowed s
      (if durationNs = 0 then KeYield switchNs s
       else HO_KASSERT (gCurrentThread s \<noteq> gIdleThread s) EC_INVALID_STATE
         (let cur = gCurrentThread s in
          deref (KThreads s cur) (\<lambda>th.
          let s = set_kthread cur
                (th\<lparr>WaitBlock := init_wait_block\<lparr>DeadlineNs := nowNs + durationNs\<rparr>, State := KTHREAD_STATE_BLOCKED\<rparr>) s
          in KiSchedule switchNs (KiInsertTimeoutQueue_list cur s))))"

definition KiIsThreadTerminationCompletionPublished :: "kthread_ref \<Rightarrow> sched_state \<Rightarrow> bool outcome" where
  "KiIsThreadTerminationCompletionPublished t s =
    deref (Dispatchers s (TerminationCompletion t)) (\<lambda>ev. Done (SignalState ev \<noteq> 0))"

text \<open>The node \<open>ReadyLink\<close> is linked when the thread is in a ready queue or in the terminated list.\<close>

definition KiIsThreadQueuedForReaper :: "kthread_ref \<Rightarrow> sched_state \<Rightarrow> bool" where
  "KiIsThreadQueuedForReaper t s \<longleftrightarrow>
     list_ex (\<lambda>k. t \<in> set (gReadyQueues s k)) [0..<KTHREAD_PRIORITY_COUNT] \<or> t \<in> set (gTerminatedList s)"

definition KiQueueDetachedThreadForReaper :: "kthread_ref \<Rightarrow> sched_state \<Rightarrow> sched_state outcome" where
  "KiQueueDetachedThreadForReaper t s =
    HO_KASSERT (t \<noteq> gIdleThread s) EC_INVALID_STATE
    (deref (KThreads s t) (\<lambda>th.
      HO_KASSERT (State th = KTHREAD_STATE_TERMINATED) EC_INVALID_STATE
      (HO_KASSERT (TerminationMode th = KTHREAD_TERMINATION_MODE_DETACHED) EC_INVALID_STATE
      (HO_KASSERT (TerminationClaimState th \<noteq> KTHREAD_TERMINATION_CLAIM_STATE_JOIN_IN_PROGRESS) EC_INVALID_STATE
      (HO_KASSERT (TerminationClaimState th \<noteq> KTHREAD_TERMINATION_CLAIM_STATE_CONSUMED) EC_INVALID_STATE
      (bind_outcome (KiIsThreadTerminationCompletionPublished t s) (\<lambda>published.
        HO_KASSERT published EC_INVALID_STATE
        (if KiIsThreadQueuedForReaper t s then Done s
         else Done (s\<lparr>gTerminatedList := gTerminatedList s @ [t]\<rparr>)))))))))"

definition KiMarkThreadTerminationConsumed :: "kthread_ref \<Rightarrow> sched_state \<Rightarrow> sched_state outcome" where
  "KiMarkThreadTerminationConsumed t s =
    deref (KThreads s t) (\<lambda>th.
      HO_KASSERT (TerminationClaimState th \<noteq> KTHREAD_TERMINATION_CLAIM_STATE_CONSUMED) EC_INVALID_STATE
        (Done (set_kthread t (th\<lparr>TerminationClaimState := KTHREAD_TERMINATION_CLAIM_STATE_CONSUMED\<rparr>) s)))"

definition KiReleaseThreadJoinClaim :: "kthread_ref \<Rightarrow> sched_state \<Rightarrow> sched_state outcome" where
  "KiReleaseThreadJoinClaim t s =
    deref (KThreads s t) (\<lambda>th.
      HO_KASSERT (TerminationClaimState th = KTHREAD_TERMINATION_CLAIM_STATE_JOIN_IN_PROGRESS) EC_INVALID_STATE
        (Done (set_kthread t (th\<lparr>TerminationClaimState := KTHREAD_TERMINATION_CLAIM_STATE_UNCLAIMED\<rparr>) s)))"

definition KiIsUserRuntimeOwnedThread :: "kthread_ref \<Rightarrow> sched_state \<Rightarrow> bool" where
  "KiIsUserRuntimeOwnedThread t s = (case OwnsThreadHook (Hooks s) of None \<Rightarrow> False | Some ownsThreadFn \<Rightarrow> ownsThreadFn t)"

text \<open>
  \<open>kvaRelease\<close> is the status of \<open>KeKvaReleaseRangeHandle\<close> on the thread's stack. \<open>KePoolFree\<close> returns
  the \<open>KTHREAD\<close>, with its embedded termination event, to the pool.
\<close>

definition free_kthread :: "kthread_ref \<Rightarrow> sched_state \<Rightarrow> sched_state" where
  "free_kthread t s =
    s\<lparr>KThreads := (KThreads s)(t := None), Dispatchers := (Dispatchers s)(TerminationCompletion t := None)\<rparr>"

definition KiFinalizeThread :: "(kthread_ref \<Rightarrow> ho_status) \<Rightarrow> kthread_ref \<Rightarrow> sched_state \<Rightarrow> sched_state outcome" where
  "KiFinalizeThread kvaRelease t s =
    HO_KASSERT (t \<noteq> gIdleThread s) EC_INVALID_STATE
    (deref (KThreads s t) (\<lambda>th.
      HO_KASSERT (State th = KTHREAD_STATE_TERMINATED) EC_INVALID_STATE
      (HO_KASSERT (TerminationClaimState th = KTHREAD_TERMINATION_CLAIM_STATE_CONSUMED) EC_INVALID_STATE
      (bind_outcome
        (if KiIsUserRuntimeOwnedThread t s then
           case FinalizeThreadHook (Hooks s) of
             None \<Rightarrow> Halt EC_INVALID_STATE
           | Some finalizeFn \<Rightarrow> if finalizeFn t \<noteq> EC_SUCCESS then Halt (finalizeFn t) else Done s
         else Done s) (\<lambda>s.
       if StackOwnedByKva th \<and> kvaRelease t \<noteq> EC_SUCCESS then Halt (kvaRelease t)
       else Done (free_kthread t s))))))"

definition KeThreadExit :: "u64 \<Rightarrow> u64 \<Rightarrow> sched_state \<Rightarrow> sched_state outcome" where
  "KeThreadExit eventNs switchNs s =
    KiAssertBlockingAllowed s
    (HO_KASSERT (gCurrentThread s \<noteq> gIdleThread s) EC_INVALID_STATE
    (let thread = gCurrentThread s in
     deref (KThreads s thread) (\<lambda>th.
     HO_KASSERT (OwnedMutexCount th = 0) EC_INVALID_STATE
     (let s = set_kthread thread (th\<lparr>State := KTHREAD_STATE_TERMINATED\<rparr>) s;
          s = s\<lparr>gStats := (gStats s)\<lparr>ActiveThreadCount := ActiveThreadCount (gStats s) - 1\<rparr>\<rparr>
      in bind_outcome (KeSetEvent (TerminationCompletion thread) eventNs s) (\<lambda>s.
         deref (KThreads s thread) (\<lambda>th.
         bind_outcome (if TerminationMode th = KTHREAD_TERMINATION_MODE_DETACHED
                       then KiQueueDetachedThreadForReaper thread s else Done s)
           (KiSchedule switchNs)))))))"

text \<open>
  \<open>KeThreadJoin\<close> up to and including its wait, and \<open>join_complete\<close>, the code after the wait, which
  runs at once when the wait returns and on resumption when it blocks.
\<close>

definition join_complete ::
  "(kthread_ref \<Rightarrow> ho_status) \<Rightarrow> kthread_ref \<Rightarrow> ho_status \<Rightarrow> sched_state \<Rightarrow> (call_result \<times> sched_state) outcome" where
  "join_complete kvaRelease t waitStatus s =
    deref (KThreads s t) (\<lambda>th.
      if waitStatus \<noteq> EC_SUCCESS then
        bind_outcome (if TerminationClaimState th = KTHREAD_TERMINATION_CLAIM_STATE_JOIN_IN_PROGRESS
                      then KiReleaseThreadJoinClaim t s else Done s)
          (\<lambda>s. Done (Returned waitStatus, s))
      else
        HO_KASSERT (TerminationMode th = KTHREAD_TERMINATION_MODE_JOINABLE) EC_INVALID_STATE
        (HO_KASSERT (State th = KTHREAD_STATE_TERMINATED) EC_INVALID_STATE
        (bind_outcome (KiIsThreadTerminationCompletionPublished t s) (\<lambda>published.
         HO_KASSERT published EC_INVALID_STATE
        (HO_KASSERT (TerminationClaimState th = KTHREAD_TERMINATION_CLAIM_STATE_JOIN_IN_PROGRESS) EC_INVALID_STATE
        (bind_outcome (KiMarkThreadTerminationConsumed t s) (\<lambda>s.
         bind_outcome (KiFinalizeThread kvaRelease t s) (\<lambda>s. Done (Returned EC_SUCCESS, s)))))))))"

definition KeThreadJoin ::
  "(kthread_ref \<Rightarrow> ho_status) \<Rightarrow> kthread_ref option \<Rightarrow> u64 \<Rightarrow> u64 \<Rightarrow> u64 \<Rightarrow> sched_state \<Rightarrow>
   (call_result \<times> sched_state) outcome" where
  "KeThreadJoin kvaRelease thread timeoutNs nowNs switchNs s =
    KiAssertBlockingAllowed s
    (case thread of
       None \<Rightarrow> Done (Returned EC_ILLEGAL_ARGUMENT, s)
     | Some t \<Rightarrow>
       if t = gCurrentThread s then Done (Returned EC_INVALID_STATE, s)
       else if gCurrentThread s = gIdleThread s then Done (Returned EC_INVALID_STATE, s)
       else if t = gIdleThread s then Done (Returned EC_INVALID_STATE, s)
       else deref (KThreads s t) (\<lambda>th.
         if TerminationMode th = KTHREAD_TERMINATION_MODE_DETACHED then Done (Returned EC_INVALID_STATE, s)
         else if TerminationClaimState th = KTHREAD_TERMINATION_CLAIM_STATE_CONSUMED then Done (Returned EC_INVALID_STATE, s)
         else if TerminationClaimState th = KTHREAD_TERMINATION_CLAIM_STATE_JOIN_IN_PROGRESS
         then Done (Returned EC_INVALID_STATE, s)
         else
           let s = set_kthread t (th\<lparr>TerminationClaimState := KTHREAD_TERMINATION_CLAIM_STATE_JOIN_IN_PROGRESS\<rparr>) s in
           bind_outcome (if State th = KTHREAD_STATE_TERMINATED
                         then KiIsThreadTerminationCompletionPublished t s else Done False) (\<lambda>finished.
           if finished then
             bind_outcome (KiMarkThreadTerminationConsumed t s) (\<lambda>s.
             bind_outcome (KiFinalizeThread kvaRelease t s) (\<lambda>s. Done (Returned EC_SUCCESS, s)))
           else if timeoutNs = 0 then
             bind_outcome (KiReleaseThreadJoinClaim t s) (\<lambda>s. Done (Returned EC_TIMEOUT, s))
           else
             bind_outcome (KeWaitForSingleObject (Some (TerminationCompletion t)) timeoutNs nowNs switchNs s)
               (\<lambda>(r, s). case r of
                  Blocked \<Rightarrow> Done (Blocked, s)
                | Returned waitStatus \<Rightarrow> join_complete kvaRelease t waitStatus s))))"

definition KeThreadDetach :: "kthread_ref option \<Rightarrow> sched_state \<Rightarrow> (ho_status \<times> sched_state) outcome" where
  "KeThreadDetach thread s =
    (case thread of
       None \<Rightarrow> Done (EC_ILLEGAL_ARGUMENT, s)
     | Some t \<Rightarrow>
       if t = gIdleThread s then Done (EC_INVALID_STATE, s)
       else deref (KThreads s t) (\<lambda>th.
         if TerminationMode th = KTHREAD_TERMINATION_MODE_DETACHED then Done (EC_INVALID_STATE, s)
         else if TerminationClaimState th = KTHREAD_TERMINATION_CLAIM_STATE_CONSUMED then Done (EC_INVALID_STATE, s)
         else if TerminationClaimState th = KTHREAD_TERMINATION_CLAIM_STATE_JOIN_IN_PROGRESS then Done (EC_INVALID_STATE, s)
         else
           let s = set_kthread t (th\<lparr>TerminationMode := KTHREAD_TERMINATION_MODE_DETACHED\<rparr>) s in
           bind_outcome (if State th = KTHREAD_STATE_TERMINATED
                         then KiIsThreadTerminationCompletionPublished t s else Done False) (\<lambda>finished.
           bind_outcome (if finished then KiQueueDetachedThreadForReaper t s else Done s)
             (\<lambda>s. Done (EC_SUCCESS, s)))))"

partial_function (option) reap_loop :: "(kthread_ref \<Rightarrow> ho_status) \<Rightarrow> sched_state \<Rightarrow> sched_state outcome option" where
  "reap_loop kvaRelease s =
    (case gTerminatedList s of
       [] \<Rightarrow> Some (Done s)
     | t # ts \<Rightarrow>
       (case bind_outcome (KiMarkThreadTerminationConsumed t (s\<lparr>gTerminatedList := ts\<rparr>)) (KiFinalizeThread kvaRelease t) of
          Done s' \<Rightarrow> reap_loop kvaRelease s'
        | Halt e \<Rightarrow> Some (Halt e)
        | Diverge \<Rightarrow> Some Diverge
        | Fault \<Rightarrow> Some Fault))"

definition KiReapTerminatedThreads :: "(kthread_ref \<Rightarrow> ho_status) \<Rightarrow> sched_state \<Rightarrow> sched_state outcome" where
  "KiReapTerminatedThreads kvaRelease s = flatten_loop (reap_loop kvaRelease s)"

text \<open>The timer interrupt, after the interrupt entry has raised the level to dispatch.\<close>

definition KiSchedulerTimerISR :: "u64 \<Rightarrow> u64 \<Rightarrow> sched_state \<Rightarrow> sched_state outcome" where
  "KiSchedulerTimerISR nowNs switchNs s =
    (let s = s\<lparr>gClock := KeClockEventOnInterrupt (gClock s)\<rparr> in
     if \<not> gSchedulerEnabled s then Done s
     else if gNextProgrammedDeadlineNs s \<noteq> 0 \<and> nowNs < gNextProgrammedDeadlineNs s
     then arm_clock (gNextProgrammedDeadlineNs s - nowNs) s
     else bind_outcome (KiWakeTimeouts nowNs s) (\<lambda>s.
       if gCurrentThread s = gIdleThread s \<and> KiHasAnyReadyThread s then KiSchedule switchNs s
       else if gCurrentThread s \<noteq> gIdleThread s \<and> nowNs \<ge> gQuantumDeadlineNs s then
         bind_outcome (set_state (gCurrentThread s) KTHREAD_STATE_READY s) (\<lambda>s.
         bind_outcome (ready_insert_tail (gCurrentThread s) s) (\<lambda>s.
         KiSchedule switchNs (s\<lparr>gStats := (gStats s)\<lparr>PreemptionCount := PreemptionCount (gStats s) + 1\<rparr>\<rparr>)))
       else KiArmForNextEvent nowNs (gCurrentThread s) s))"

text \<open>
  Thread creation. \<open>pool\<close> is the result of \<open>KePoolAlloc\<close>, \<open>stack\<close> the result of \<open>KeKvaAllocRange\<close> (guard
  base and usable base) and \<open>mapped\<close> the status of \<open>KeKvaMapOwnedPages\<close>.
\<close>

definition KiAllocateThreadId :: "sched_state \<Rightarrow> (u32 \<times> sched_state) outcome" where
  "KiAllocateThreadId s =
    HO_KASSERT (gNextThreadId s \<noteq> 0) EC_OUT_OF_RESOURCE
      (Done (gNextThreadId s, s\<lparr>gNextThreadId := gNextThreadId s + 1\<rparr>))"

definition KiThreadCreateInternal ::
  "kthread_ref option \<Rightarrow> (u64 \<times> u64) result \<Rightarrow> ho_status \<Rightarrow> bool \<Rightarrow> KTHREAD_TERMINATION_MODE \<Rightarrow> sched_state \<Rightarrow>
   (kthread_ref result \<times> sched_state) outcome" where
  "KiThreadCreateInternal pool stack mapped entryPointGiven terminationMode s =
    (if \<not> entryPointGiven then Done (Inl EC_ILLEGAL_ARGUMENT, s)
     else case pool of
       None \<Rightarrow> Done (Inl EC_OUT_OF_RESOURCE, s)
     | Some t \<Rightarrow>
       (case stack of
          Inl status \<Rightarrow> Done (Inl status, s)
        | Inr (guardBase, usableBase) \<Rightarrow>
          if mapped \<noteq> EC_SUCCESS then Done (Inl mapped, s)
          else bind_outcome (KiAllocateThreadId s) (\<lambda>(threadId, s).
            let th = \<lparr>KThreadId = threadId, State = KTHREAD_STATE_NEW, StackBase = usableBase,
                      StackSize = KE_THREAD_STACK_SIZE, StackGuardBase = guardBase, StackOwnedByKva = True,
                      Priority = KTHREAD_DEFAULT_PRIORITY, Quantum = KE_DEFAULT_QUANTUM_NS, OwnedMutexCount = 0,
                      IrqlState = KeInitializeIrqlState, WaitBlock = init_wait_block, TerminationMode = terminationMode,
                      TerminationClaimState = KTHREAD_TERMINATION_CLAIM_STATE_UNCLAIMED, ThreadFlags = 0\<rparr>;
                s = set_kthread t th (KeInitializeEvent (TerminationCompletion t) False s)
            in Done (Inr t, s))))"

section \<open>Initialisation (scheduler.c)\<close>

definition zero_stats :: KE_SCHEDULER_STATS where
  "zero_stats = \<lparr>ActiveThreadCount = 0, ContextSwitchCount = 0, PreemptionCount = 0, YieldCount = 0,
     SleepWakeCount = 0, TotalThreadsCreated = 0\<rparr>"


text \<open>
  \<open>pool\<close> is the result of \<open>KePoolAlloc\<close>, \<open>bootStackTop\<close> the boot \<open>TSS.RSP0\<close>, \<open>idt\<close> the status of
  \<open>IdtRegisterInterruptHandler\<close>.
\<close>

definition KeSchedulerInit :: "kthread_ref option \<Rightarrow> u64 \<Rightarrow> ho_status \<Rightarrow> sched_state \<Rightarrow> ho_status \<times> sched_state" where
  "KeSchedulerInit pool bootStackTop idt s =
    (let s = KiInitReadyQueues s;
         s = s\<lparr>gTimeoutQueue := [], gTerminatedList := [], gStats := zero_stats\<rparr>
     in case pool of
          None \<Rightarrow> (EC_OUT_OF_RESOURCE, s)
        | Some idle \<Rightarrow>
          let th = \<lparr>KThreadId = 0, State = KTHREAD_STATE_RUNNING, StackBase = bootStackTop - HO_STACK_SIZE,
                    StackSize = HO_STACK_SIZE, StackGuardBase = 0, StackOwnedByKva = False,
                    Priority = KTHREAD_DEFAULT_PRIORITY, Quantum = 0, OwnedMutexCount = 0,
                    IrqlState = KeInitializeIrqlState, WaitBlock = init_wait_block,
                    TerminationMode = KTHREAD_TERMINATION_MODE_DETACHED,
                    TerminationClaimState = KTHREAD_TERMINATION_CLAIM_STATE_UNCLAIMED, ThreadFlags = KTHREAD_FLAG_IDLE\<rparr>;
              s = set_kthread idle th (KeInitializeEvent (TerminationCompletion idle) False s);
              s = s\<lparr>gIdleThread := idle, gCurrentThread := idle,
                    gStats := (gStats s)\<lparr>TotalThreadsCreated := 1, ActiveThreadCount := 1\<rparr>\<rparr>
          in if idt \<noteq> EC_SUCCESS then (idt, s) else (EC_SUCCESS, s\<lparr>gSchedulerEnabled := True\<rparr>))"

section \<open>Diagnostics (diag.c)\<close>

record KE_SYSINFO_SCHEDULER_DATA =
  SchedulerEnabled :: bool
  CurrentThreadId :: u32
  IdleThreadId :: u32
  ReadyQueueDepth :: u32
  ReadyQueueDepthByPriority :: "u32 list"
  SleepQueueDepth :: u32
  EarliestWakeDeadline :: u64
  NextProgrammedDeadline :: u64
  InfoStats :: KE_SCHEDULER_STATS

definition KeQuerySchedulerInfo :: "sched_state \<Rightarrow> KE_SYSINFO_SCHEDULER_DATA outcome" where
  "KeQuerySchedulerInfo s =
    (if \<not> gSchedulerEnabled s then
       Done \<lparr>SchedulerEnabled = False, CurrentThreadId = 0, IdleThreadId = 0, ReadyQueueDepth = 0,
             ReadyQueueDepthByPriority = replicate KTHREAD_PRIORITY_COUNT 0, SleepQueueDepth = 0,
             EarliestWakeDeadline = 0, NextProgrammedDeadline = 0, InfoStats = zero_stats\<rparr>
     else
       deref (KThreads s (gCurrentThread s)) (\<lambda>cur.
       deref (KThreads s (gIdleThread s)) (\<lambda>idle.
       Done \<lparr>SchedulerEnabled = True, CurrentThreadId = KThreadId cur, IdleThreadId = KThreadId idle,
             ReadyQueueDepth = KiCountAllReadyThreads s,
             ReadyQueueDepthByPriority = map (\<lambda>k. KiCountQueueDepth (gReadyQueues s k)) [0..<KTHREAD_PRIORITY_COUNT],
             SleepQueueDepth = KiCountQueueDepth (gTimeoutQueue s),
             EarliestWakeDeadline = (case gTimeoutQueue s of [] \<Rightarrow> 0 | t # _ \<Rightarrow> deadline_of s t),
             NextProgrammedDeadline = gNextProgrammedDeadlineNs s,
             InfoStats = gStats s\<rparr>)))"

end
