(* ===== verification/SchedSpec.thy ===== *)
theory SchedSpec
  imports Scheduler
begin

text \<open>
  The abstract scheduler: what the queues, wait lists and thread states mean, with four transitions
  (a thread becomes ready, a waiter is woken, the current thread blocks, the processor is dispatched)
  and the invariant they keep. \<open>SchedulerProofs\<close> shows that the routines of \<open>Scheduler\<close> refine these
  transitions.
\<close>

record tview =
  vState :: KTHREAD_STATE
  vPrio :: nat
  vDisp :: "disp_ref option"
  vDeadline :: u64
  vCompleted :: bool

record cview =
  cRQ :: "nat \<Rightarrow> kthread_ref list"
  cTQ :: "kthread_ref list"
  cWL :: "disp_ref \<rightharpoonup> kthread_ref list"
  cTV :: "kthread_ref \<rightharpoonup> tview"
  cIdle :: kthread_ref
  cCur :: kthread_ref

definition vdeadline :: "(kthread_ref \<rightharpoonup> tview) \<Rightarrow> kthread_ref \<Rightarrow> u64" where
  "vdeadline tv t = (case tv t of None \<Rightarrow> 0 | Some x \<Rightarrow> vDeadline x)"

section \<open>Invariant\<close>

definition tview_ok :: "cview \<Rightarrow> kthread_ref \<Rightarrow> tview \<Rightarrow> bool" where
  "tview_ok v t x \<longleftrightarrow> vPrio x < KTHREAD_PRIORITY_COUNT \<and>
     (vState x = KTHREAD_STATE_READY \<longrightarrow> t \<noteq> cIdle v \<longrightarrow> t \<in> set (cRQ v (vPrio x))) \<and>
     (vState x = KTHREAD_STATE_RUNNING \<longrightarrow> t \<noteq> cIdle v \<longrightarrow> t = cCur v) \<and>
     (vState x = KTHREAD_STATE_BLOCKED \<longrightarrow> t \<noteq> cIdle v \<and> \<not> vCompleted x \<and>
        (vDeadline x \<noteq> 0 \<longrightarrow> t \<in> set (cTQ v)) \<and>
        (\<forall>d. vDisp x = Some d \<longrightarrow> (\<exists>ws. cWL v d = Some ws \<and> t \<in> set ws)) \<and>
        (vDisp x \<noteq> None \<or> vDeadline x \<noteq> 0))"

definition core_ok :: "cview \<Rightarrow> bool" where
  "core_ok v \<longleftrightarrow>
     (\<forall>k < KTHREAD_PRIORITY_COUNT. distinct (cRQ v k) \<and>
        (\<forall>t \<in> set (cRQ v k). t \<noteq> cIdle v \<and> (\<exists>x. cTV v t = Some x \<and> vState x = KTHREAD_STATE_READY \<and> vPrio x = k))) \<and>
     distinct (cTQ v) \<and> sorted (map (vdeadline (cTV v)) (cTQ v)) \<and>
     (\<forall>t \<in> set (cTQ v). \<exists>x. cTV v t = Some x \<and> vState x = KTHREAD_STATE_BLOCKED \<and> vDeadline x \<noteq> 0) \<and>
     (\<forall>d ws. cWL v d = Some ws \<longrightarrow> distinct ws \<and>
        (\<forall>t \<in> set ws. \<exists>x. cTV v t = Some x \<and> vState x = KTHREAD_STATE_BLOCKED \<and> vDisp x = Some d)) \<and>
     (\<forall>t x. cTV v t = Some x \<longrightarrow> tview_ok v t x) \<and>
     cTV v (cIdle v) \<noteq> None \<and> cTV v (cCur v) \<noteq> None"

lemma core_okD:
  assumes "core_ok v"
  shows "\<And>k. k < KTHREAD_PRIORITY_COUNT \<Longrightarrow> distinct (cRQ v k)"
    "\<And>k t. k < KTHREAD_PRIORITY_COUNT \<Longrightarrow> t \<in> set (cRQ v k) \<Longrightarrow> t \<noteq> cIdle v"
    "\<And>k t. k < KTHREAD_PRIORITY_COUNT \<Longrightarrow> t \<in> set (cRQ v k) \<Longrightarrow>
       \<exists>x. cTV v t = Some x \<and> vState x = KTHREAD_STATE_READY \<and> vPrio x = k"
    "distinct (cTQ v)" "sorted (map (vdeadline (cTV v)) (cTQ v))"
    "\<And>t. t \<in> set (cTQ v) \<Longrightarrow> \<exists>x. cTV v t = Some x \<and> vState x = KTHREAD_STATE_BLOCKED \<and> vDeadline x \<noteq> 0"
    "\<And>d ws. cWL v d = Some ws \<Longrightarrow> distinct ws"
    "\<And>d ws t. cWL v d = Some ws \<Longrightarrow> t \<in> set ws \<Longrightarrow>
       \<exists>x. cTV v t = Some x \<and> vState x = KTHREAD_STATE_BLOCKED \<and> vDisp x = Some d"
    "\<And>t x. cTV v t = Some x \<Longrightarrow> tview_ok v t x"
    "cTV v (cIdle v) \<noteq> None" "cTV v (cCur v) \<noteq> None"
  using assms unfolding core_ok_def by blast+

lemma core_okI:
  assumes "\<And>k. k < KTHREAD_PRIORITY_COUNT \<Longrightarrow> distinct (cRQ v k)"
    and "\<And>k t. k < KTHREAD_PRIORITY_COUNT \<Longrightarrow> t \<in> set (cRQ v k) \<Longrightarrow> t \<noteq> cIdle v"
    and "\<And>k t. k < KTHREAD_PRIORITY_COUNT \<Longrightarrow> t \<in> set (cRQ v k) \<Longrightarrow>
       \<exists>x. cTV v t = Some x \<and> vState x = KTHREAD_STATE_READY \<and> vPrio x = k"
    and "distinct (cTQ v)" "sorted (map (vdeadline (cTV v)) (cTQ v))"
    and "\<And>t. t \<in> set (cTQ v) \<Longrightarrow> \<exists>x. cTV v t = Some x \<and> vState x = KTHREAD_STATE_BLOCKED \<and> vDeadline x \<noteq> 0"
    and "\<And>d ws. cWL v d = Some ws \<Longrightarrow> distinct ws"
    and "\<And>d ws t. cWL v d = Some ws \<Longrightarrow> t \<in> set ws \<Longrightarrow>
       \<exists>x. cTV v t = Some x \<and> vState x = KTHREAD_STATE_BLOCKED \<and> vDisp x = Some d"
    and "\<And>t x. cTV v t = Some x \<Longrightarrow> tview_ok v t x"
    and "cTV v (cIdle v) \<noteq> None" "cTV v (cCur v) \<noteq> None"
  shows "core_ok v"
  using assms unfolding core_ok_def by blast

section \<open>Transitions\<close>

definition a_ready :: "kthread_ref \<Rightarrow> cview \<Rightarrow> cview" where
  "a_ready t v =
    (let x = the (cTV v t) in
     v\<lparr>cRQ := (cRQ v)(vPrio x := cRQ v (vPrio x) @ [t]), cTV := (cTV v)(t \<mapsto> x\<lparr>vState := KTHREAD_STATE_READY\<rparr>)\<rparr>)"

definition a_wake :: "kthread_ref \<Rightarrow> cview \<Rightarrow> cview" where
  "a_wake t v =
    (let x = the (cTV v t) in
     v\<lparr>cRQ := (cRQ v)(vPrio x := cRQ v (vPrio x) @ [t]),
       cTQ := remove1 t (cTQ v),
       cWL := (case vDisp x of None \<Rightarrow> cWL v | Some d \<Rightarrow> (cWL v)(d := map_option (remove1 t) (cWL v d))),
       cTV := (cTV v)(t \<mapsto> x\<lparr>vState := KTHREAD_STATE_READY, vCompleted := True\<rparr>)\<rparr>)"

definition a_block :: "disp_ref option \<Rightarrow> u64 option \<Rightarrow> cview \<Rightarrow> cview" where
  "a_block d deadline v =
    (let t = cCur v;
         x = (the (cTV v t))\<lparr>vState := KTHREAD_STATE_BLOCKED, vDisp := d,
               vDeadline := (case deadline of None \<Rightarrow> 0 | Some n \<Rightarrow> n), vCompleted := False\<rparr>;
         tv = (cTV v)(t \<mapsto> x)
     in v\<lparr>cTQ := (if deadline = None then cTQ v else timeout_insert (vdeadline tv) t (cTQ v)),
          cWL := (case d of None \<Rightarrow> cWL v | Some d \<Rightarrow> (cWL v)(d := map_option (\<lambda>ws. ws @ [t]) (cWL v d))),
          cTV := tv\<rparr>)"

definition a_next :: "cview \<Rightarrow> kthread_ref \<times> (nat \<Rightarrow> kthread_ref list)" where
  "a_next v =
    (case find (\<lambda>k. cRQ v k \<noteq> []) (rev [0..<KTHREAD_PRIORITY_COUNT]) of
       None \<Rightarrow> (cIdle v, cRQ v)
     | Some k \<Rightarrow> (hd (cRQ v k), (cRQ v)(k := tl (cRQ v k))))"

definition a_dispatch :: "cview \<Rightarrow> cview" where
  "a_dispatch v =
    (let (t, rq) = a_next v in
     v\<lparr>cRQ := rq, cCur := t, cTV := (cTV v)(t \<mapsto> (the (cTV v t))\<lparr>vState := KTHREAD_STATE_RUNNING\<rparr>)\<rparr>)"

section \<open>The transitions keep the invariant\<close>

lemma map_vdeadline_upd [simp]: "t \<notin> set q \<Longrightarrow> map (vdeadline (tv(t \<mapsto> y))) q = map (vdeadline tv) q"
  by (auto simp: vdeadline_def)

text \<open>A thread that is new or running becomes ready.\<close>

lemma a_ready_ok:
  assumes ok: "core_ok v" and t: "cTV v t = Some x" "t \<noteq> cIdle v"
    and st: "vState x = KTHREAD_STATE_NEW \<or> vState x = KTHREAD_STATE_RUNNING"
  shows "core_ok (a_ready t v)"
proof -
  define v' where "v' = a_ready t v"
  have f: "cRQ v' = (cRQ v)(vPrio x := cRQ v (vPrio x) @ [t])" "cTQ v' = cTQ v" "cWL v' = cWL v"
    "cTV v' = (cTV v)(t \<mapsto> x\<lparr>vState := KTHREAD_STATE_READY\<rparr>)" "cIdle v' = cIdle v" "cCur v' = cCur v"
    using t by (simp_all add: v'_def a_ready_def Let_def)
  have nr: "t \<notin> set (cRQ v k)" if "k < KTHREAD_PRIORITY_COUNT" for k
    using core_okD(3) [OF ok that, of t] t st by auto
  have nt: "t \<notin> set (cTQ v)" using core_okD(6) [OF ok, of t] t st by auto
  have nw: "t \<notin> set ws" if "cWL v d = Some ws" for d ws using core_okD(8) [OF ok that, of t] t st by auto
  have tx: "tview_ok v t x" using core_okD(9) [OF ok t(1)] .
  show ?thesis unfolding v'_def [symmetric]
  proof (rule core_okI)
    show "distinct (cRQ v' k)" if "k < KTHREAD_PRIORITY_COUNT" for k
      using core_okD(1) [OF ok that] nr [OF that] by (auto simp: f)
    show "u \<noteq> cIdle v'" if "k < KTHREAD_PRIORITY_COUNT" "u \<in> set (cRQ v' k)" for k u
      using core_okD(2) [OF ok that(1), of u] that(2) t by (auto simp: f split: if_splits)
    show "\<exists>y. cTV v' u = Some y \<and> vState y = KTHREAD_STATE_READY \<and> vPrio y = k"
      if "k < KTHREAD_PRIORITY_COUNT" "u \<in> set (cRQ v' k)" for k u
      using core_okD(3) [OF ok that(1), of u] that(2) nr [OF that(1)] by (auto simp: f split: if_splits)
    show "distinct (cTQ v')" using core_okD(4) [OF ok] by (simp add: f)
    show "sorted (map (vdeadline (cTV v')) (cTQ v'))"
      using core_okD(5) [OF ok] nt by (simp add: f)
    show "\<exists>y. cTV v' u = Some y \<and> vState y = KTHREAD_STATE_BLOCKED \<and> vDeadline y \<noteq> 0" if "u \<in> set (cTQ v')" for u
      using core_okD(6) [OF ok, of u] that nt by (auto simp: f)
    show "distinct ws" if "cWL v' d = Some ws" for d ws using core_okD(7) [OF ok] that by (simp add: f)
    show "\<exists>y. cTV v' u = Some y \<and> vState y = KTHREAD_STATE_BLOCKED \<and> vDisp y = Some d"
      if "cWL v' d = Some ws" "u \<in> set ws" for d ws u
      using core_okD(8) [OF ok, of d ws u] that nw [of d ws] by (auto simp: f)
    show "tview_ok v' u y" if "cTV v' u = Some y" for u y
      using that core_okD(9) [OF ok, of u y] tx by (auto simp: f tview_ok_def split: if_splits)
    show "cTV v' (cIdle v') \<noteq> None" "cTV v' (cCur v') \<noteq> None" using core_okD(10,11) [OF ok] by (auto simp: f)
  qed
qed

text \<open>A blocked thread is woken: it leaves its wait list and the timeout queue and becomes ready.\<close>

lemma a_wake_ok:
  assumes ok: "core_ok v" and t: "cTV v t = Some x" "vState x = KTHREAD_STATE_BLOCKED"
  shows "core_ok (a_wake t v)"
proof -
  define v' where "v' = a_wake t v"
  have f: "cRQ v' = (cRQ v)(vPrio x := cRQ v (vPrio x) @ [t])" "cTQ v' = remove1 t (cTQ v)"
    "cWL v' = (case vDisp x of None \<Rightarrow> cWL v | Some d \<Rightarrow> (cWL v)(d := map_option (remove1 t) (cWL v d)))"
    "cTV v' = (cTV v)(t \<mapsto> x\<lparr>vState := KTHREAD_STATE_READY, vCompleted := True\<rparr>)" "cIdle v' = cIdle v" "cCur v' = cCur v"
    using t by (simp_all add: v'_def a_wake_def Let_def)
  have tx: "tview_ok v t x" using core_okD(9) [OF ok t(1)] .
  then have ni: "t \<noteq> cIdle v" using t by (simp add: tview_ok_def)
  have nr: "t \<notin> set (cRQ v k)" if "k < KTHREAD_PRIORITY_COUNT" for k
    using core_okD(3) [OF ok that, of t] t by auto
  have nt: "t \<notin> set (cTQ v')" using core_okD(4) [OF ok] by (simp add: f)
  have w: "\<exists>ws0. cWL v d = Some ws0 \<and> distinct ws \<and> set ws = set ws0 - {t}" if c: "cWL v' d = Some ws" for d ws
  proof (cases "vDisp x = Some d")
    case True
    then obtain ws0 where "cWL v d = Some ws0" "ws = remove1 t ws0" using c by (auto simp: f)
    then show ?thesis using core_okD(7) [OF ok] by auto
  next
    case False
    then have w0: "cWL v d = Some ws" using c by (auto simp: f split: option.splits if_splits)
    then have "t \<notin> set ws" using core_okD(8) [OF ok w0, of t] t False by auto
    then show ?thesis using w0 core_okD(7) [OF ok w0] by auto
  qed
  have w': "\<exists>ws'. cWL v' d = Some ws' \<and> u \<in> set ws'" if "cWL v d = Some ws" "u \<in> set ws" "u \<noteq> t" for d ws u
    using that by (auto simp: f split: option.splits)
  show ?thesis unfolding v'_def [symmetric]
  proof (rule core_okI)
    show "distinct (cRQ v' k)" if "k < KTHREAD_PRIORITY_COUNT" for k
      using core_okD(1) [OF ok that] nr [OF that] by (auto simp: f)
    show "u \<noteq> cIdle v'" if "k < KTHREAD_PRIORITY_COUNT" "u \<in> set (cRQ v' k)" for k u
      using core_okD(2) [OF ok that(1), of u] that(2) ni by (auto simp: f split: if_splits)
    show "\<exists>y. cTV v' u = Some y \<and> vState y = KTHREAD_STATE_READY \<and> vPrio y = k"
      if "k < KTHREAD_PRIORITY_COUNT" "u \<in> set (cRQ v' k)" for k u
      using core_okD(3) [OF ok that(1), of u] that(2) nr [OF that(1)] by (auto simp: f split: if_splits)
    show "distinct (cTQ v')" using core_okD(4) [OF ok] by (simp add: f)
    have "sorted (map (vdeadline (cTV v)) (remove1 t (cTQ v)))" using core_okD(5) [OF ok] by (rule sorted_map_remove1)
    then show "sorted (map (vdeadline (cTV v')) (cTQ v'))"
      using nt by (simp add: f)
    show "\<exists>y. cTV v' u = Some y \<and> vState y = KTHREAD_STATE_BLOCKED \<and> vDeadline y \<noteq> 0" if "u \<in> set (cTQ v')" for u
      using core_okD(6) [OF ok, of u] that nt by (auto simp: f dest: notin_set_remove1)
    show "distinct ws" if "cWL v' d = Some ws" for d ws using w [OF that] by blast
    show "\<exists>y. cTV v' u = Some y \<and> vState y = KTHREAD_STATE_BLOCKED \<and> vDisp y = Some d"
      if "cWL v' d = Some ws" "u \<in> set ws" for d ws u
      using w [OF that(1)] that(2) core_okD(8) [OF ok, of d _ u] by (auto simp: f(4))
    show "tview_ok v' u y" if "cTV v' u = Some y" for u y
    proof (cases "u = t")
      case True
      then show ?thesis using that tx by (auto simp: f(1,2,4-) tview_ok_def)
    next
      case False
      then have y: "tview_ok v u y" using that core_okD(9) [OF ok] by (simp add: f)
      then show ?thesis using False w' [of _ _ u] by (auto simp: f(1,2,4-) tview_ok_def)
    qed
    show "cTV v' (cIdle v') \<noteq> None" "cTV v' (cCur v') \<noteq> None" using core_okD(10,11) [OF ok] by (auto simp: f)
  qed
qed


text \<open>The running thread blocks on an object, on a deadline, or on both.\<close>

lemma a_block_ok:
  assumes ok: "core_ok v" and t: "t = cCur v" "cTV v t = Some x" "t \<noteq> cIdle v" "vState x = KTHREAD_STATE_RUNNING"
    and d: "\<And>e. d = Some e \<Longrightarrow> cWL v e \<noteq> None" and dl: "\<And>n. deadline = Some n \<Longrightarrow> n \<noteq> 0" "d \<noteq> None \<or> deadline \<noteq> None"
  shows "core_ok (a_block d deadline v)"
proof -
  define v' where "v' = a_block d deadline v"
  define y where "y = x\<lparr>vState := KTHREAD_STATE_BLOCKED, vDisp := d,
               vDeadline := (case deadline of None \<Rightarrow> 0 | Some n \<Rightarrow> n), vCompleted := False\<rparr>"
  have f: "cRQ v' = cRQ v" "cTV v' = (cTV v)(t \<mapsto> y)" "cIdle v' = cIdle v" "cCur v' = cCur v"
    "cTQ v' = (if deadline = None then cTQ v else timeout_insert (vdeadline (cTV v')) t (cTQ v))"
    "cWL v' = (case d of None \<Rightarrow> cWL v | Some d \<Rightarrow> (cWL v)(d := map_option (\<lambda>ws. ws @ [t]) (cWL v d)))"
    using t(2) unfolding t(1) by (simp_all add: v'_def a_block_def Let_def y_def t(1))
  have nr: "t \<notin> set (cRQ v k)" if "k < KTHREAD_PRIORITY_COUNT" for k
    using core_okD(3) [OF ok that, of t] t by auto
  have nt: "t \<notin> set (cTQ v)" using core_okD(6) [OF ok, of t] t by auto
  have nw: "t \<notin> set ws" if "cWL v e = Some ws" for e ws using core_okD(8) [OF ok that, of t] t by auto
  have tx: "tview_ok v t x" using core_okD(9) [OF ok t(2)] .
  have st: "set (cTQ v') = (if deadline = None then set (cTQ v) else insert t (set (cTQ v)))" by (simp add: f(5))
  have srt: "sorted (map (vdeadline (cTV v')) (cTQ v))"
    using core_okD(5) [OF ok] nt by (simp add: f(2))
  have w: "\<exists>ws0. cWL v e = Some ws0 \<and> distinct ws \<and> set ws = (if d = Some e then insert t (set ws0) else set ws0)"
    if c: "cWL v' e = Some ws" for e ws
    using c core_okD(7) [OF ok, of e] nw [of e] by (auto simp: f(6) split: option.splits if_splits)
  have w': "\<exists>ws'. cWL v' e = Some ws' \<and> set ws \<subseteq> set ws'" if "cWL v e = Some ws" for e ws
    using that by (auto simp: f(6) split: option.splits)
  show ?thesis unfolding v'_def [symmetric]
  proof (rule core_okI)
    show "distinct (cRQ v' k)" if "k < KTHREAD_PRIORITY_COUNT" for k using core_okD(1) [OF ok that] by (simp add: f)
    show "u \<noteq> cIdle v'" if "k < KTHREAD_PRIORITY_COUNT" "u \<in> set (cRQ v' k)" for k u
      using core_okD(2) [OF ok that(1), of u] that(2) by (simp add: f)
    show "\<exists>y. cTV v' u = Some y \<and> vState y = KTHREAD_STATE_READY \<and> vPrio y = k"
      if "k < KTHREAD_PRIORITY_COUNT" "u \<in> set (cRQ v' k)" for k u
      using core_okD(3) [OF ok that(1), of u] that(2) nr [OF that(1)] by (auto simp: f)
    show "distinct (cTQ v')" using core_okD(4) [OF ok] nt by (simp add: f(5) distinct_timeout_insert)
    show "sorted (map (vdeadline (cTV v')) (cTQ v'))" using srt by (simp add: f(5) sorted_timeout_insert)
    show "\<exists>y. cTV v' u = Some y \<and> vState y = KTHREAD_STATE_BLOCKED \<and> vDeadline y \<noteq> 0" if "u \<in> set (cTQ v')" for u
      using core_okD(6) [OF ok, of u] that nt dl by (auto simp: f(2) st y_def split: if_splits)
    show "distinct ws" if "cWL v' e = Some ws" for e ws using w [OF that] by blast
    show "\<exists>y. cTV v' u = Some y \<and> vState y = KTHREAD_STATE_BLOCKED \<and> vDisp y = Some e"
      if "cWL v' e = Some ws" "u \<in> set ws" for e ws u
      using w [OF that(1)] that(2) core_okD(8) [OF ok, of e _ u] nw [of e]
      by (auto simp: f(2) y_def split: if_splits)
    show "tview_ok v' u z" if z: "cTV v' u = Some z" for u z
    proof (cases "u = t")
      case True
      then have "z = y" using z by (simp add: f(2))
      then show ?thesis using True tx t d dl
        by (auto simp: tview_ok_def y_def f(1,3,4,6) st split: option.splits)
    next
      case False
      then have "tview_ok v u z" using z core_okD(9) [OF ok] by (simp add: f)
      then show ?thesis using False w' by (fastforce simp: f(1,3,4) st tview_ok_def)
    qed
    show "cTV v' (cIdle v') \<noteq> None" "cTV v' (cCur v') \<noteq> None" using core_okD(10,11) [OF ok] by (auto simp: f)
  qed
qed

lemma find_high_Some:
  "find (\<lambda>k. P k) (rev [0..<n]) = Some k \<longleftrightarrow> k < n \<and> P k \<and> (\<forall>j. k < j \<and> j < n \<longrightarrow> \<not> P j)"
  by (induction n) (auto simp: less_Suc_eq)

lemma find_high_None: "find (\<lambda>k. P k) (rev [0..<n]) = None \<longleftrightarrow> (\<forall>k < n. \<not> P k)"
  by (auto simp: find_None_iff)

text \<open>
  The processor is dispatched: the chosen thread is the oldest of the highest non-empty priority, or
  the idle thread when nothing is ready. The thread that had the processor must not be left running.
\<close>

lemma a_dispatch_ok:
  assumes ok: "core_ok v"
    and cur: "cCur v = cIdle v \<or> (\<exists>x. cTV v (cCur v) = Some x \<and> vState x \<noteq> KTHREAD_STATE_RUNNING)"
  shows "core_ok (a_dispatch v)" "\<exists>x. cTV (a_dispatch v) (cCur (a_dispatch v)) = Some x \<and> vState x = KTHREAD_STATE_RUNNING"
proof -
  define v' where "v' = a_dispatch v"
  obtain t rq where n: "a_next v = (t, rq)" by (cases "a_next v")
  have f: "cRQ v' = rq" "cTQ v' = cTQ v" "cWL v' = cWL v" "cIdle v' = cIdle v" "cCur v' = t"
    "cTV v' = (cTV v)(t \<mapsto> (the (cTV v t))\<lparr>vState := KTHREAD_STATE_RUNNING\<rparr>)"
    by (simp_all add: v'_def a_dispatch_def n)
  show "\<exists>x. cTV (a_dispatch v) (cCur (a_dispatch v)) = Some x \<and> vState x = KTHREAD_STATE_RUNNING"
    unfolding v'_def [symmetric] by (simp add: f)
  have nx: "(t = cIdle v \<and> rq = cRQ v \<or>
     (\<exists>k q. k < KTHREAD_PRIORITY_COUNT \<and> cRQ v k = t # q \<and> rq = (cRQ v)(k := q)))"
    using n by (auto simp: a_next_def find_high_Some neq_Nil_conv split: option.splits)
  have sub: "set (rq k) \<subseteq> set (cRQ v k) \<and> distinct (rq k)" if "k < KTHREAD_PRIORITY_COUNT" for k
    using nx core_okD(1) [OF ok that] by (auto split: if_splits)
  have nrq: "t \<notin> set (rq k)" if k: "k < KTHREAD_PRIORITY_COUNT" for k
    using nx
  proof
    assume "t = cIdle v \<and> rq = cRQ v"
    then show ?thesis using core_okD(2) [OF ok k, of t] by auto
  next
    assume "\<exists>k q. k < KTHREAD_PRIORITY_COUNT \<and> cRQ v k = t # q \<and> rq = (cRQ v)(k := q)"
    then obtain j q where j: "j < KTHREAD_PRIORITY_COUNT" "cRQ v j = t # q" "rq = (cRQ v)(j := q)" by blast
    show ?thesis
    proof (cases "k = j")
      case True
      then show ?thesis using j core_okD(1) [OF ok j(1)] by simp
    next
      case False
      then show ?thesis using j core_okD(3) [OF ok j(1), of t] core_okD(3) [OF ok k, of t] by auto
    qed
  qed
  have keep: "u \<in> set (rq k)" if "u \<in> set (cRQ v k)" "u \<noteq> t" for u k using nx that by auto
  have idle: "vState y \<noteq> KTHREAD_STATE_BLOCKED" if "cTV v (cIdle v) = Some y" for y
    using core_okD(9) [OF ok that] by (auto simp: tview_ok_def)
  obtain x where x: "cTV v t = Some x" "vState x \<noteq> KTHREAD_STATE_BLOCKED"
    using nx core_okD(3) [OF ok, of _ t] core_okD(10) [OF ok] idle by fastforce
  have nt: "t \<notin> set (cTQ v)" using core_okD(6) [OF ok, of t] x by auto
  have nw: "t \<notin> set ws" if "cWL v e = Some ws" for e ws using core_okD(8) [OF ok that, of t] x by auto
  show "core_ok (a_dispatch v)" unfolding v'_def [symmetric]
  proof (rule core_okI)
    show "distinct (cRQ v' k)" if "k < KTHREAD_PRIORITY_COUNT" for k using sub [OF that] by (simp add: f)
    show "u \<noteq> cIdle v'" if "k < KTHREAD_PRIORITY_COUNT" "u \<in> set (cRQ v' k)" for k u
      using core_okD(2) [OF ok that(1), of u] that(2) sub [OF that(1)] by (auto simp: f)
    show "\<exists>y. cTV v' u = Some y \<and> vState y = KTHREAD_STATE_READY \<and> vPrio y = k"
      if "k < KTHREAD_PRIORITY_COUNT" "u \<in> set (cRQ v' k)" for k u
      using core_okD(3) [OF ok that(1), of u] that(2) nrq [OF that(1)] sub [OF that(1)] by (auto simp: f)
    show "distinct (cTQ v')" using core_okD(4) [OF ok] by (simp add: f)
    show "sorted (map (vdeadline (cTV v')) (cTQ v'))"
      using core_okD(5) [OF ok] nt by (simp add: f)
    show "\<exists>y. cTV v' u = Some y \<and> vState y = KTHREAD_STATE_BLOCKED \<and> vDeadline y \<noteq> 0" if "u \<in> set (cTQ v')" for u
      using core_okD(6) [OF ok, of u] that nt by (auto simp: f)
    show "distinct ws" if "cWL v' e = Some ws" for e ws using core_okD(7) [OF ok] that by (simp add: f)
    show "\<exists>y. cTV v' u = Some y \<and> vState y = KTHREAD_STATE_BLOCKED \<and> vDisp y = Some e"
      if "cWL v' e = Some ws" "u \<in> set ws" for e ws u
      using core_okD(8) [OF ok, of e ws u] that nw [of e ws] by (auto simp: f)
    show "tview_ok v' u y" if y: "cTV v' u = Some y" for u y
    proof (cases "u = t")
      case True
      then show ?thesis using y core_okD(9) [OF ok x(1)] x by (auto simp: f tview_ok_def)
    next
      case False
      then have "cTV v u = Some y" "tview_ok v u y" using y core_okD(9) [OF ok] by (auto simp: f)
      moreover have "\<not> (vState y = KTHREAD_STATE_RUNNING \<and> u \<noteq> cIdle v)"
        using calculation cur by (auto simp: tview_ok_def)
      ultimately show ?thesis using False keep [of u] by (auto simp: f tview_ok_def)
    qed
    show "cTV v' (cIdle v') \<noteq> None" "cTV v' (cCur v') \<noteq> None" using core_okD(10) [OF ok] by (auto simp: f)
  qed
qed

end
