(* ===== verification/SchedRefine.thy ===== *)
theory SchedRefine
  imports SchedSpec
begin

text \<open>
  The scheduling routines refine the abstract transitions of \<open>SchedSpec\<close>: \<open>view\<close> projects a scheduler state
  onto the queues, wait lists and thread states, \<open>rest\<close> onto what scheduling leaves alone. Completing a wait
  is \<open>a_wake\<close>, dispatching is \<open>a_dispatch\<close>, and the wake loops fold \<open>a_wake\<close> over a prefix of their queue.
  The section at the end defines the scheduler invariant \<open>sched_inv\<close> and shows that dispatching restores it.
\<close>

section \<open>Views\<close>

definition tview_of :: "KTHREAD \<Rightarrow> tview" where
  "tview_of th = \<lparr>vState = State th, vPrio = unat (Priority th), vDisp = Dispatcher (WaitBlock th),
     vDeadline = DeadlineNs (WaitBlock th), vCompleted = Completed (WaitBlock th)\<rparr>"

definition view :: "sched_state \<Rightarrow> cview" where
  "view s = \<lparr>cRQ = gReadyQueues s, cTQ = gTimeoutQueue s, cWL = (\<lambda>d. map_option WaitListHead (Dispatchers s d)),
     cTV = (\<lambda>t. map_option tview_of (KThreads s t)), cIdle = gIdleThread s, cCur = gCurrentThread s\<rparr>"

text \<open>Everything the abstract scheduler does not see, and that the scheduling routines leave alone.\<close>

definition erase_thread :: "KTHREAD \<Rightarrow> KTHREAD" where
  "erase_thread th = th\<lparr>State := KTHREAD_STATE_NEW, WaitBlock := init_wait_block, Quantum := 0\<rparr>"

definition erase_dispatcher :: "KDISPATCHER \<Rightarrow> KDISPATCHER" where
  "erase_dispatcher ob = ob\<lparr>WaitListHead := []\<rparr>"

definition rest :: "sched_state \<Rightarrow> sched_state" where
  "rest s = s\<lparr>gReadyQueues := (\<lambda>_. []), gTimeoutQueue := [], gCurrentThread := 0, gQuantumDeadlineNs := 0,
     gNextProgrammedDeadlineNs := 0, KThreads := map_option erase_thread \<circ> KThreads s,
     Dispatchers := map_option erase_dispatcher \<circ> Dispatchers s, gStats := zero_stats,
     gClock := (gClock s)\<lparr>InitialCountRegister := 0, InterruptCount := 0\<rparr>, Cr3 := 0, TssRsp0 := 0\<rparr>"

lemma view_simps [simp]:
  "cRQ (view s) = gReadyQueues s" "cTQ (view s) = gTimeoutQueue s" "cIdle (view s) = gIdleThread s"
  "cCur (view s) = gCurrentThread s" "cWL (view s) d = map_option WaitListHead (Dispatchers s d)"
  "cTV (view s) t = map_option tview_of (KThreads s t)"
  by (simp_all add: view_def)

lemma tview_of_simps [simp]:
  "vState (tview_of th) = State th" "vPrio (tview_of th) = unat (Priority th)"
  "vDisp (tview_of th) = Dispatcher (WaitBlock th)" "vDeadline (tview_of th) = DeadlineNs (WaitBlock th)"
  "vCompleted (tview_of th) = Completed (WaitBlock th)"
  by (simp_all add: tview_of_def)

lemma deadline_of_view: "deadline_of s = vdeadline (cTV (view s))"
  by (auto simp: fun_eq_iff deadline_of_def vdeadline_def split: option.splits)

lemma view_eqI:
  assumes "gReadyQueues s' = cRQ v" "gTimeoutQueue s' = cTQ v" "gIdleThread s' = cIdle v" "gCurrentThread s' = cCur v"
    "\<And>d. map_option WaitListHead (Dispatchers s' d) = cWL v d" "\<And>t. map_option tview_of (KThreads s' t) = cTV v t"
  shows "view s' = v"
  using assms by (intro cview.equality) (auto simp: fun_eq_iff)

lemma erase_simps [simp]:
  "erase_dispatcher (ob\<lparr>WaitListHead := ws\<rparr>) = erase_dispatcher ob"
  "erase_thread (th\<lparr>State := st\<rparr>) = erase_thread th"
  "erase_thread (th\<lparr>WaitBlock := wb\<rparr>) = erase_thread th"
  "erase_thread (th\<lparr>Quantum := q\<rparr>) = erase_thread th"
  by (simp_all add: erase_dispatcher_def erase_thread_def)

lemma rest_eqI:
  assumes "\<And>t. map_option erase_thread (KThreads s' t) = map_option erase_thread (KThreads s t)"
    "\<And>d. map_option erase_dispatcher (Dispatchers s' d) = map_option erase_dispatcher (Dispatchers s d)"
    "gTerminatedList s' = gTerminatedList s" "gIdleThread s' = gIdleThread s" "gSchedulerEnabled s' = gSchedulerEnabled s"
    "gNextThreadId s' = gNextThreadId s" "Hooks s' = Hooks s"
    "(gClock s')\<lparr>InitialCountRegister := 0, InterruptCount := 0\<rparr> = (gClock s)\<lparr>InitialCountRegister := 0, InterruptCount := 0\<rparr>"
  shows "rest s' = rest s"
  using assms by (intro sched_state.equality) (auto simp: rest_def fun_eq_iff)

lemma rest_eqD:
  assumes "rest s' = rest s"
  shows "map_option erase_thread (KThreads s' t) = map_option erase_thread (KThreads s t)"
    "map_option erase_dispatcher (Dispatchers s' d) = map_option erase_dispatcher (Dispatchers s d)"
    "gTerminatedList s' = gTerminatedList s" "gIdleThread s' = gIdleThread s" "gSchedulerEnabled s' = gSchedulerEnabled s"
    "Hooks s' = Hooks s" "clock_ok (gClock s') = clock_ok (gClock s)"
proof -
  have "(KThreads (rest s')) t = (KThreads (rest s)) t" "(Dispatchers (rest s')) d = (Dispatchers (rest s)) d"
    "gTerminatedList (rest s') = gTerminatedList (rest s)" "gIdleThread (rest s') = gIdleThread (rest s)"
    "gSchedulerEnabled (rest s') = gSchedulerEnabled (rest s)" "Hooks (rest s') = Hooks (rest s)"
    "clock_ok (gClock (rest s')) = clock_ok (gClock (rest s))"
    using assms by simp_all
  then show "map_option erase_thread (KThreads s' t) = map_option erase_thread (KThreads s t)"
    "map_option erase_dispatcher (Dispatchers s' d) = map_option erase_dispatcher (Dispatchers s d)"
    "gTerminatedList s' = gTerminatedList s" "gIdleThread s' = gIdleThread s" "gSchedulerEnabled s' = gSchedulerEnabled s"
    "Hooks s' = Hooks s" "clock_ok (gClock s') = clock_ok (gClock s)"
    by (simp_all add: rest_def clock_ok_def)
qed

definition sched_core :: "sched_state \<Rightarrow> bool" where
  "sched_core s \<longleftrightarrow> core_ok (view s)"

section \<open>Completing a wait\<close>

lemma KiCompleteWait_again: "KThreads s t = Some th \<Longrightarrow> Completed (WaitBlock th) \<Longrightarrow> KiCompleteWait t st s = Done s"
  by (simp add: KiCompleteWait_def)

lemma KiCompleteWait_wake:
  assumes core: "sched_core s" and th: "KThreads s t = Some th" "State th = KTHREAD_STATE_BLOCKED"
  shows "\<exists>s'. KiCompleteWait t st s = Done s' \<and> view s' = a_wake t (view s) \<and> rest s' = rest s \<and>
    wait_resumed t s' = Done st \<and> (\<forall>u. u \<noteq> t \<longrightarrow> KThreads s' u = KThreads s u)"
proof -
  have tx: "tview_ok (view s) t (tview_of th)" using core_okD(9) [of "view s" t] core th by (simp add: sched_core_def)
  define th' where "th' = th\<lparr>WaitBlock := (WaitBlock th)\<lparr>Completed := True, CompletionStatus := st\<rparr>, State := KTHREAD_STATE_READY\<rparr>"
  define ds where "ds = (case Dispatcher (WaitBlock th) of None \<Rightarrow> Dispatchers s
    | Some d \<Rightarrow> (Dispatchers s)(d := map_option (\<lambda>ob. ob\<lparr>WaitListHead := remove1 t (WaitListHead ob)\<rparr>) (Dispatchers s d)))"
  define k where "k = unat (Priority th)"
  have p: "KiIsValidThreadPriority (Priority th)" and nc: "\<not> Completed (WaitBlock th)"
    using tx th by (simp_all add: tview_ok_def KiIsValidThreadPriority_def)
  have tq: "remove1 t (gTimeoutQueue s) = gTimeoutQueue s" if "DeadlineNs (WaitBlock th) = 0"
  proof -
    have "t \<notin> set (gTimeoutQueue s)" using core_okD(6) [of "view s" t] core th that by (auto simp: sched_core_def)
    then show ?thesis by (rule remove1_idem)
  qed
  have wl: "wait_list_remove (Dispatcher (WaitBlock th)) t (s\<lparr>KThreads := m\<rparr>) = Done (s\<lparr>KThreads := m, Dispatchers := ds\<rparr>)" for m
  proof (cases "Dispatcher (WaitBlock th)")
    case (Some d)
    then obtain ob where "Dispatchers s d = Some ob" using tx th by (auto simp: tview_ok_def)
    then show ?thesis using Some by (simp add: wait_list_remove_def ds_def set_dispatcher_def set_kthread_def)
  qed (simp add: wait_list_remove_def ds_def set_kthread_def)
  define s' where "s' = s\<lparr>KThreads := (KThreads s)(t \<mapsto> th'), Dispatchers := ds, gTimeoutQueue := remove1 t (gTimeoutQueue s),
      gReadyQueues := (gReadyQueues s)(k := gReadyQueues s k @ [t]),
      gStats := (if st = EC_TIMEOUT then (gStats s)\<lparr>SleepWakeCount := SleepWakeCount (gStats s) + 1\<rparr> else gStats s)\<rparr>"
  have "KiCompleteWait t st s = Done s'"
    using th nc p tq by (cases "DeadlineNs (WaitBlock th) = 0")
      (simp_all add: KiCompleteWait_def Let_def wl set_state_def ready_insert_tail_def set_kthread_def s'_def k_def th'_def)
  moreover have "view s' = a_wake t (view s)"
    by (rule view_eqI)
      (auto simp: s'_def a_wake_def th k_def th'_def ds_def tview_of_def Let_def option.map_comp comp_def split: option.splits)
  moreover have "rest s' = rest s"
    by (rule rest_eqI) (auto simp: s'_def th th'_def ds_def
        option.map_comp comp_def split: option.splits)
  moreover have "wait_resumed t s' = Done st" by (simp add: wait_resumed_def s'_def th'_def)
  moreover have "\<forall>u. u \<noteq> t \<longrightarrow> KThreads s' u = KThreads s u" by (simp add: s'_def)
  ultimately show ?thesis by blast
qed

section \<open>Programming the next event\<close>

lemma erase_clock: "c' = c\<lparr>InitialCountRegister := r\<rparr> \<Longrightarrow>
   c'\<lparr>InitialCountRegister := 0, InterruptCount := 0\<rparr> = c\<lparr>InitialCountRegister := 0, InterruptCount := 0\<rparr>"
  by simp

lemma arm_clock_ok:
  assumes "clock_ok (gClock s)"
  shows "\<exists>c. arm_clock d s = Done (s\<lparr>gClock := c\<rparr>) \<and>
    c\<lparr>InitialCountRegister := 0, InterruptCount := 0\<rparr> = (gClock s)\<lparr>InitialCountRegister := 0, InterruptCount := 0\<rparr>"
proof (cases "d = 0")
  case True
  then show ?thesis by (auto simp: arm_clock_def KiArmClockEvent_def intro!: exI [of _ "gClock s"])
next
  case False
  then obtain c where c: "KiArmClockEvent d (gClock s) = Done c"
    "c = (gClock s)\<lparr>InitialCountRegister := InitialCountRegister c\<rparr>"
    using KiArmClockEvent_programs [OF assms False] by blast
  then show ?thesis using erase_clock [OF c(2)] by (auto simp: arm_clock_def)
qed

lemma KiArmForNextEvent_ok:
  assumes "clock_ok (gClock s)" "KThreads s next \<noteq> None"
  shows "\<exists>s'. KiArmForNextEvent now next s = Done s' \<and> view s' = view s \<and> rest s' = rest s"
proof -
  have arm: "\<exists>s2. arm_clock d s1 = Done s2 \<and> view s2 = view s \<and> rest s2 = rest s"
    if "view s1 = view s" "rest s1 = rest s" "gClock s1 = gClock s" for s1 d
  proof -
    obtain c where c: "arm_clock d s1 = Done (s1\<lparr>gClock := c\<rparr>)"
      "c\<lparr>InitialCountRegister := 0, InterruptCount := 0\<rparr> = (gClock s1)\<lparr>InitialCountRegister := 0, InterruptCount := 0\<rparr>"
      using arm_clock_ok [of s1] assms(1) \<open>gClock s1 = gClock s\<close> by auto
    have "view (s1\<lparr>gClock := c\<rparr>) = view s" using that(1) by (simp add: view_def)
    moreover have "rest (s1\<lparr>gClock := c\<rparr>) = rest s" using that(2) c(2) by (simp add: rest_def)
    ultimately show ?thesis using c(1) by blast
  qed
  obtain th where th: "KThreads s next = Some th" using assms(2) by blast
  define s1 where "s1 dl q = s\<lparr>KThreads := (KThreads s)(next \<mapsto> th\<lparr>Quantum := KE_DEFAULT_QUANTUM_NS\<rparr>),
     gQuantumDeadlineNs := q, gNextProgrammedDeadlineNs := dl\<rparr>" for dl q
  have v: "view (s1 dl q) = view s" for dl q by (rule view_eqI) (simp_all add: s1_def th tview_of_def)
  have r: "rest (s1 dl q) = rest s" for dl q by (rule rest_eqI) (simp_all add: s1_def th)
  have c: "gClock (s1 dl q) = gClock s" for dl q by (simp add: s1_def)
  have i: "view (s\<lparr>gNextProgrammedDeadlineNs := dl\<rparr>) = view s" "rest (s\<lparr>gNextProgrammedDeadlineNs := dl\<rparr>) = rest s" for dl
    by (simp_all add: view_def rest_def)
  show ?thesis
  proof (cases "next = gIdleThread s")
    case idle: True
    show ?thesis
    proof (cases "gTimeoutQueue s")
      case Nil
      then show ?thesis using idle i by (simp add: KiArmForNextEvent_def)
    next
      case (Cons t q)
      then show ?thesis
        using idle arm [OF i, of "deadline_of s t" "if deadline_of s t > now then deadline_of s t - now else 1"]
        by (simp add: KiArmForNextEvent_def Let_def)
    qed
  next
    case busy: False
    define qd where "qd = now + KE_DEFAULT_QUANTUM_NS"
    define dl where "dl = (case gTimeoutQueue s of t # _ \<Rightarrow> if deadline_of (s1 0 qd) t < qd then deadline_of (s1 0 qd) t else qd | [] \<Rightarrow> qd)"
    have "KiArmForNextEvent now next s = arm_clock (if dl > now then dl - now else 1) (s1 dl qd)"
      using busy th by (simp add: KiArmForNextEvent_def Let_def set_kthread_def s1_def dl_def qd_def deadline_of_def
          split: list.splits cong: option.case_cong)
    then show ?thesis using arm [OF v r c] by simp
  qed
qed


section \<open>Dispatching\<close>

text \<open>The environment of a dispatch: a calibrated clock, and a root hook that knows every thread.\<close>

definition dispatch_ready :: "sched_state \<Rightarrow> bool" where
  "dispatch_ready s \<longleftrightarrow> clock_ok (gClock s) \<and>
     (\<exists>f. ResolveRootHook (Hooks s) = Some f \<and> (\<forall>t. \<exists>root. f t = Inr root \<and> root \<noteq> 0 \<and> HO_IS_ALIGNED root PAGE_4KB))"

lemma dispatch_ready_rest: "dispatch_ready s' = dispatch_ready s" if "rest s' = rest s"
  by (simp add: dispatch_ready_def rest_eqD(6,7) [OF that])

lemma pick_next_view: "fst (pick_next s) = fst (a_next (view s)) \<and>
    snd (pick_next s) = s\<lparr>gReadyQueues := snd (a_next (view s))\<rparr>"
  by (auto simp: pick_next_def a_next_def KiGetHighestPriorityReadyQueue_def split: option.splits)

lemma a_next_live:
  assumes "core_ok v"
  shows "cTV v (fst (a_next v)) \<noteq> None"
proof (cases "find (\<lambda>k. cRQ v k \<noteq> []) (rev [0..<KTHREAD_PRIORITY_COUNT])")
  case None
  then show ?thesis using core_okD(10) [OF assms] by (simp add: a_next_def)
next
  case (Some k)
  then have k: "k < KTHREAD_PRIORITY_COUNT" "cRQ v k \<noteq> []" by (simp_all add: find_high_Some)
  then have "\<exists>x. cTV v (hd (cRQ v k)) = Some x" using core_okD(3) [OF assms k(1), of "hd (cRQ v k)"] by auto
  then show ?thesis using Some by (simp add: a_next_def)
qed

lemma KiSchedule_dispatch_live:
  assumes live: "KThreads s (fst (a_next (view s))) \<noteq> None" and env: "dispatch_ready s"
  shows "\<exists>s'. KiSchedule now s = Done s' \<and> view s' = a_dispatch (view s) \<and> rest s' = rest s"
proof -
  obtain t rq where n: "a_next (view s) = (t, rq)" by (cases "a_next (view s)")
  define s0 where "s0 = s\<lparr>gReadyQueues := rq\<rparr>"
  have pn: "pick_next s = (t, s0)" using pick_next_view [of s] n by (auto simp: s0_def prod_eq_iff)
  obtain th where th: "KThreads s t = Some th"
    using live n by auto
  define s1 where "s1 = s0\<lparr>KThreads := (KThreads s)(t \<mapsto> th\<lparr>State := KTHREAD_STATE_RUNNING\<rparr>)\<rparr>"
  have r1: "rest s1 = rest s" by (rule rest_eqI) (simp_all add: s1_def s0_def th)
  have ss: "set_state t KTHREAD_STATE_RUNNING s0 = Done s1" by (simp add: set_state_def s1_def s0_def th set_kthread_def)
  have vd: "view s2 = a_dispatch (view s)"
    if "cRQ (view s2) = rq" "cTQ (view s2) = gTimeoutQueue s" "cIdle (view s2) = gIdleThread s" "cCur (view s2) = t"
      "cWL (view s2) = cWL (view s)" "cTV (view s2) = cTV (view s1)" for s2
    using that n by (intro cview.equality) (auto simp: a_dispatch_def s1_def th tview_of_def fun_eq_iff)
  have ck: "clock_ok (gClock s1)" and env1: "dispatch_ready s1"
    using env rest_eqD(7) [OF r1] dispatch_ready_rest [OF r1] by (simp_all add: dispatch_ready_def)
  show ?thesis
  proof (cases "t = gCurrentThread s")
    case True
    obtain s2 where a: "KiArmForNextEvent now t s1 = Done s2" "view s2 = view s1" "rest s2 = rest s1"
      using KiArmForNextEvent_ok [OF ck, of t] by (auto simp: s1_def)
    have "view s2 = a_dispatch (view s)"
      using vd [of s2] True unfolding a(2) by (simp add: s1_def s0_def fun_eq_iff)
    then show ?thesis using True pn ss a(1,3) r1 by (simp add: KiSchedule_def)
  next
    case False
    obtain root where root: "KiResolveDispatchRoot t s0 = Done root" "root \<noteq> 0" "HO_IS_ALIGNED root PAGE_4KB"
    proof -
      obtain f root where "ResolveRootHook (Hooks s) = Some f" "f t = Inr root" "root \<noteq> 0" "HO_IS_ALIGNED root PAGE_4KB"
        using env unfolding dispatch_ready_def by metis
      then show thesis using that by (simp add: KiResolveDispatchRoot_def s0_def)
    qed
    define s2 where "s2 = s1\<lparr>gStats := (gStats s1)\<lparr>ContextSwitchCount := ContextSwitchCount (gStats s1) + 1\<rparr>,
        TssRsp0 := StackBase th + StackSize th\<rparr>"
    have r2: "rest s2 = rest s1" "view s2 = view s1" by (simp_all add: s2_def rest_def view_def)
    have "clock_ok (gClock s2)" "KThreads s2 t \<noteq> None" using ck by (simp_all add: s2_def s1_def)
    then obtain s3 where a: "KiArmForNextEvent now t s2 = Done s3" "view s3 = view s2" "rest s3 = rest s2"
      using KiArmForNextEvent_ok by blast
    define s4 where "s4 = s3\<lparr>Cr3 := root, gCurrentThread := t\<rparr>"
    have v3: "cRQ (view s3) = cRQ (view s1)" "cTQ (view s3) = cTQ (view s1)" "cIdle (view s3) = cIdle (view s1)"
      "cWL (view s3) = cWL (view s1)" "cTV (view s3) = cTV (view s1)" using a(2) r2(2) by simp_all
    have v4: "cRQ (view s4) = cRQ (view s3)" "cTQ (view s4) = cTQ (view s3)" "cIdle (view s4) = cIdle (view s3)"
      "cWL (view s4) = cWL (view s3)" "cTV (view s4) = cTV (view s3)" "cCur (view s4) = t"
      by (simp_all add: s4_def fun_eq_iff)
    have "view s4 = a_dispatch (view s)"
      by (rule vd) (simp_all only: v4 v3, simp_all add: s1_def s0_def fun_eq_iff)
    moreover have "rest s4 = rest s" using a(3) r2(1) r1 by (simp add: s4_def rest_def)
    moreover have "KiSchedule now s = Done s4"
      using False pn root ss a(1)
      by (simp add: KiSchedule_def KeSwitchAddressSpace_def s1_def s2_def s4_def Let_def)
    ultimately show ?thesis by blast
  qed
qed

lemma KiSchedule_dispatch:
  assumes core: "sched_core s" and env: "dispatch_ready s"
  shows "\<exists>s'. KiSchedule now s = Done s' \<and> view s' = a_dispatch (view s) \<and> rest s' = rest s"
  using KiSchedule_dispatch_live [OF _ env] a_next_live [of "view s"] core by (simp add: sched_core_def)

section \<open>Wake loops\<close>

lemma fold_a_wake_core:
  assumes "core_ok v" "cWL v d = Some ws" "m \<le> length ws"
  shows "core_ok (fold a_wake (take m ws) v) \<and> cWL (fold a_wake (take m ws) v) d = Some (drop m ws) \<and>
    cIdle (fold a_wake (take m ws) v) = cIdle v \<and> cCur (fold a_wake (take m ws) v) = cCur v"
  using assms
proof (induction m arbitrary: v ws)
  case (Suc m)
  then obtain t ws' where ws: "ws = t # ws'" by (cases ws) auto
  obtain x where x: "cTV v t = Some x" "vState x = KTHREAD_STATE_BLOCKED" "vDisp x = Some d"
    using core_okD(8) [OF Suc.prems(1,2), of t] ws by auto
  have "core_ok (a_wake t v)" using a_wake_ok [OF Suc.prems(1) x(1,2)] .
  moreover have "cWL (a_wake t v) d = Some ws'" "cIdle (a_wake t v) = cIdle v" "cCur (a_wake t v) = cCur v"
    using x Suc.prems(2) ws by (simp_all add: a_wake_def Let_def)
  ultimately show ?case using Suc.IH [of "a_wake t v" ws'] Suc.prems(3) ws by simp
qed simp

definition resumed :: "ho_status \<Rightarrow> kthread_ref list \<Rightarrow> sched_state \<Rightarrow> sched_state \<Rightarrow> bool" where
  "resumed st ts s s' \<longleftrightarrow> (\<forall>t \<in> set ts. wait_resumed t s' = Done st) \<and> (\<forall>u. u \<notin> set ts \<longrightarrow> KThreads s' u = KThreads s u)"

lemma resumed_Nil [simp]: "resumed st [] s s" by (simp add: resumed_def)

lemma resumed_Cons:
  assumes "wait_resumed t s1 = Done st" "\<forall>u. u \<noteq> t \<longrightarrow> KThreads s1 u = KThreads s u" "resumed st ts s1 s2"
  shows "resumed st (t # ts) s s2"
proof -
  have "wait_resumed t s2 = Done st"
    using assms(1,3) by (cases "t \<in> set ts") (auto simp: resumed_def wait_resumed_def)
  then show ?thesis using assms by (auto simp: resumed_def)
qed

lemma wake_waiters_fold:
  assumes "sched_core s" "Dispatchers s d = Some ob" "WaitListHead ob = ws"
    and "m = (case permits of None \<Rightarrow> length ws | Some n \<Rightarrow> min (nat n) (length ws))"
  shows "\<exists>s'. wake_waiters d permits s = Some (Done (map_option (\<lambda>n. n - int m) permits, s')) \<and>
    view s' = fold a_wake (take m ws) (view s) \<and> rest s' = rest s \<and> resumed EC_SUCCESS (take m ws) s s'"
  using assms
proof (induction ws arbitrary: s ob permits m)
  case Nil
  then show ?case by (subst wake_waiters.simps) (simp split: option.splits)
next
  case (Cons t ws)
  show ?case
  proof (cases "\<exists>n. permits = Some n \<and> n \<le> 0")
    case True
    then show ?thesis using Cons.prems by (subst wake_waiters.simps) auto
  next
    case False
    obtain th where th: "KThreads s t = Some th" "State th = KTHREAD_STATE_BLOCKED" "Dispatcher (WaitBlock th) = Some d"
      using core_okD(8) [of "view s" d "t # ws" t] Cons.prems(1-3) by (auto simp: sched_core_def)
    obtain s1 where s1: "KiCompleteWait t EC_SUCCESS s = Done s1" "view s1 = a_wake t (view s)" "rest s1 = rest s"
      "wait_resumed t s1 = Done EC_SUCCESS" "\<forall>u. u \<noteq> t \<longrightarrow> KThreads s1 u = KThreads s u"
      using KiCompleteWait_wake [OF Cons.prems(1) th(1,2)] by blast
    have c1: "sched_core s1" using a_wake_ok [of "view s" t] Cons.prems(1) th s1(2) by (simp add: sched_core_def)
    have "cWL (view s1) d = Some ws" using s1(2) th Cons.prems(2,3) by (simp add: a_wake_def Let_def)
    then obtain ob1 where ob1: "Dispatchers s1 d = Some ob1" "WaitListHead ob1 = ws" by auto
    define p1 where "p1 = map_option (\<lambda>n. n - 1) permits"
    define m1 where "m1 = (case p1 of None \<Rightarrow> length ws | Some n \<Rightarrow> min (nat n) (length ws))"
    obtain s2 where s2: "wake_waiters d p1 s1 = Some (Done (map_option (\<lambda>n. n - int m1) p1, s2))"
      "view s2 = fold a_wake (take m1 ws) (view s1)" "rest s2 = rest s1"
      "resumed EC_SUCCESS (take m1 ws) s1 s2"
      using Cons.IH [OF c1 ob1 m1_def] by blast
    have m: "m = Suc m1"
      using Cons.prems(4) False by (auto simp: m1_def p1_def min_def split: option.splits)
    have "wake_waiters d permits s = wake_waiters d p1 s1"
      using Cons.prems(2,3) False s1(1) by (subst wake_waiters.simps) (auto simp: p1_def split: option.splits)
    moreover have "map_option (\<lambda>n. n - int m1) p1 = map_option (\<lambda>n. n - int m) permits"
      by (cases permits) (simp_all add: p1_def m)
    ultimately show ?thesis using s2 s1(2,3) m resumed_Cons [OF s1(4,5) s2(4)] by simp
  qed
qed

lemma wake_timeouts_fold:
  assumes "sched_core s" "q = takeWhile (\<lambda>t. deadline_of s t \<le> now) (gTimeoutQueue s)"
  shows "\<exists>s'. wake_timeouts now s = Some (Done s') \<and> view s' = fold a_wake q (view s) \<and> rest s' = rest s \<and>
    sched_core s' \<and> gTimeoutQueue s' = drop (length q) (gTimeoutQueue s) \<and> resumed EC_TIMEOUT q s s'"
  using assms
proof (induction "gTimeoutQueue s" arbitrary: s q)
  case Nil
  then show ?case by (subst wake_timeouts.simps) (simp split: list.splits)
next
  case (Cons t ts)
  note tq = Cons.hyps(2) [symmetric]
  show ?case
  proof (cases "deadline_of s t \<le> now")
    case False
    then have "now < deadline_of s t" by simp
    then show ?thesis using Cons.prems tq False by (subst wake_timeouts.simps) simp
  next
    case True
    then have nl: "\<not> now < deadline_of s t" by (simp only: not_less)
    obtain th where th: "KThreads s t = Some th" "State th = KTHREAD_STATE_BLOCKED"
      using core_okD(6) [of "view s" t] Cons.prems(1) tq by (auto simp: sched_core_def)
    obtain s1 where s1: "KiCompleteWait t EC_TIMEOUT s = Done s1" "view s1 = a_wake t (view s)" "rest s1 = rest s"
      "wait_resumed t s1 = Done EC_TIMEOUT" "\<forall>u. u \<noteq> t \<longrightarrow> KThreads s1 u = KThreads s u"
      using KiCompleteWait_wake [OF Cons.prems(1) th] by blast
    have c1: "sched_core s1" using a_wake_ok [of "view s" t] Cons.prems(1) th s1(2) by (simp add: sched_core_def)
    have "cTQ (view s1) = ts" using s1(2) th tq by (simp add: a_wake_def Let_def)
    then have ts: "ts = gTimeoutQueue s1" by simp
    have "t \<notin> set ts" using core_okD(4) [of "view s"] Cons.prems(1) tq by (auto simp: sched_core_def)
    then have dl: "deadline_of s1 u = deadline_of s u" if "u \<in> set ts" for u
      using that s1(2) th by (auto simp: deadline_of_view a_wake_def Let_def vdeadline_def)
    have q: "q = t # takeWhile (\<lambda>u. deadline_of s1 u \<le> now) (gTimeoutQueue s1)"
      using Cons.prems(2) tq True ts dl by (auto cong: takeWhile_cong)
    obtain s2 where s2: "wake_timeouts now s1 = Some (Done s2)"
      "view s2 = fold a_wake (takeWhile (\<lambda>u. deadline_of s1 u \<le> now) (gTimeoutQueue s1)) (view s1)" "rest s2 = rest s1" "sched_core s2"
      "gTimeoutQueue s2 = drop (length (takeWhile (\<lambda>u. deadline_of s1 u \<le> now) (gTimeoutQueue s1))) (gTimeoutQueue s1)"
      "resumed EC_TIMEOUT (takeWhile (\<lambda>u. deadline_of s1 u \<le> now) (gTimeoutQueue s1)) s1 s2"
      using Cons.hyps(1) [OF ts c1 refl] by blast
    have "wake_timeouts now s = wake_timeouts now s1"
      using tq nl s1(1) by (subst wake_timeouts.simps) simp
    then show ?thesis using s2(1-5) s1(2,3) resumed_Cons [OF s1(4,5) s2(6)] q ts tq by simp
  qed
qed


section \<open>The scheduler invariant\<close>

definition object_ok :: "KDISPATCHER \<Rightarrow> bool" where
  "object_ok ob \<longleftrightarrow> Signature ob = KDISPATCHER_SIGNATURE \<and>
     (WaitListHead ob \<noteq> [] \<longrightarrow> SignalState ob = 0) \<and>
     (case DispatcherType ob of
        DISPATCHER_TYPE_EVENT \<Rightarrow> SignalState ob = 0 \<or> SignalState ob = 1
      | DISPATCHER_TYPE_SEMAPHORE \<Rightarrow> 0 < Limit ob \<and> Limit ob < 2 ^ 31 \<and> 0 \<le> SignalState ob \<and> SignalState ob \<le> Limit ob
      | DISPATCHER_TYPE_MUTEX \<Rightarrow> (SignalState ob = 0 \<and> OwnerThread ob \<noteq> None) \<or> (SignalState ob = 1 \<and> OwnerThread ob = None)
      | DISPATCHER_TYPE_UNKNOWN \<Rightarrow> False)"

definition objects_ok :: "sched_state \<Rightarrow> bool" where
  "objects_ok s \<longleftrightarrow> (\<forall>d ob. Dispatchers s d = Some ob \<longrightarrow> object_ok ob)"

definition owned :: "sched_state \<Rightarrow> kthread_ref \<Rightarrow> disp_ref set" where
  "owned s t = {d. \<exists>ob. Dispatchers s d = Some ob \<and> DispatcherType ob = DISPATCHER_TYPE_MUTEX \<and> OwnerThread ob = Some t}"

definition mutex_ok :: "sched_state \<Rightarrow> bool" where
  "mutex_ok s \<longleftrightarrow> finite (dom (Dispatchers s)) \<and>
     (\<forall>t th. KThreads s t = Some th \<longrightarrow> unat (OwnedMutexCount th) = card (owned s t)) \<and>
     (\<forall>t. owned s t \<noteq> {} \<longrightarrow> KThreads s t \<noteq> None)"

definition sched_inv :: "sched_state \<Rightarrow> bool" where
  "sched_inv s \<longleftrightarrow> sched_core s \<and> dispatch_ready s \<and> objects_ok s \<and> mutex_ok s \<and>
     (\<exists>th. KThreads s (gCurrentThread s) = Some th \<and> State th = KTHREAD_STATE_RUNNING)"

subsection \<open>Frame\<close>

lemma rest_thread:
  assumes "rest s' = rest s" "KThreads s' t = Some th'"
  obtains th where "KThreads s t = Some th" "erase_thread th' = erase_thread th"
  using rest_eqD(1) [OF assms(1), of t] assms(2) by (cases "KThreads s t") auto

lemma rest_dispatcher:
  assumes "rest s' = rest s" "Dispatchers s' d = Some ob'"
  obtains ob where "Dispatchers s d = Some ob" "ob' = ob\<lparr>WaitListHead := WaitListHead ob'\<rparr>"
proof -
  obtain ob where ob: "Dispatchers s d = Some ob" "erase_dispatcher ob' = erase_dispatcher ob"
    using rest_eqD(2) [OF assms(1), of d] assms(2) by (cases "Dispatchers s d") auto
  have "ob' = (erase_dispatcher ob')\<lparr>WaitListHead := WaitListHead ob'\<rparr>" by (simp add: erase_dispatcher_def)
  also have "\<dots> = ob\<lparr>WaitListHead := WaitListHead ob'\<rparr>" unfolding ob(2) by (simp add: erase_dispatcher_def)
  finally show thesis using that ob(1) by blast
qed

lemma erase_thread_fields:
  assumes "erase_thread th' = erase_thread th"
  shows "OwnedMutexCount th' = OwnedMutexCount th" "IrqlState th' = IrqlState th" "Priority th' = Priority th"
    "TerminationMode th' = TerminationMode th" "TerminationClaimState th' = TerminationClaimState th"
    "StackBase th' = StackBase th" "StackSize th' = StackSize th" "KThreadId th' = KThreadId th"
proof -
  have "OwnedMutexCount (erase_thread th') = OwnedMutexCount (erase_thread th)"
    "IrqlState (erase_thread th') = IrqlState (erase_thread th)" "Priority (erase_thread th') = Priority (erase_thread th)"
    "TerminationMode (erase_thread th') = TerminationMode (erase_thread th)"
    "TerminationClaimState (erase_thread th') = TerminationClaimState (erase_thread th)"
    "StackBase (erase_thread th') = StackBase (erase_thread th)" "StackSize (erase_thread th') = StackSize (erase_thread th)"
    "KThreadId (erase_thread th') = KThreadId (erase_thread th)"
    unfolding assms by (rule refl)+
  then show "OwnedMutexCount th' = OwnedMutexCount th" "IrqlState th' = IrqlState th" "Priority th' = Priority th"
    "TerminationMode th' = TerminationMode th" "TerminationClaimState th' = TerminationClaimState th"
    "StackBase th' = StackBase th" "StackSize th' = StackSize th" "KThreadId th' = KThreadId th"
    by (simp_all add: erase_thread_def)
qed

lemma owned_rest: "owned s' t = owned s t" if r: "rest s' = rest s"
proof -
  have "owned b t \<subseteq> owned a t" if ab: "rest b = rest a" for a b
  proof
    fix d assume "d \<in> owned b t"
    then obtain ob' where ob': "Dispatchers b d = Some ob'" "DispatcherType ob' = DISPATCHER_TYPE_MUTEX" "OwnerThread ob' = Some t"
      by (auto simp: owned_def)
    obtain ob where ob: "Dispatchers a d = Some ob" "ob' = ob\<lparr>WaitListHead := WaitListHead ob'\<rparr>"
      using rest_dispatcher [OF ab ob'(1)] by blast
    have "DispatcherType ob = DispatcherType (ob\<lparr>WaitListHead := WaitListHead ob'\<rparr>)"
      "OwnerThread ob = OwnerThread (ob\<lparr>WaitListHead := WaitListHead ob'\<rparr>)" by simp_all
    then show "d \<in> owned a t" using ob(1) ob'(2,3) unfolding ob(2) [symmetric] by (simp add: owned_def)
  qed
  then show ?thesis using r by (metis subset_antisym)
qed

lemma rest_dom:
  assumes "rest s' = rest s"
  shows "dom (Dispatchers s') = dom (Dispatchers s)" "KThreads s' t = None \<longleftrightarrow> KThreads s t = None"
proof -
  have "Dispatchers s' d = None \<longleftrightarrow> Dispatchers s d = None" for d
    using rest_eqD(2) [OF assms, of d] by (metis map_option_is_None)
  then show "dom (Dispatchers s') = dom (Dispatchers s)" by (auto simp: dom_def)
  show "KThreads s' t = None \<longleftrightarrow> KThreads s t = None"
    using rest_eqD(1) [OF assms, of t] by (metis map_option_is_None)
qed

lemma mutex_ok_rest:
  assumes r: "rest s' = rest s" and ok: "mutex_ok s"
  shows "mutex_ok s'"
  unfolding mutex_ok_def owned_rest [OF r] rest_dom(1) [OF r]
proof (intro conjI allI impI)
  show "finite (dom (Dispatchers s))" using ok by (simp add: mutex_ok_def)
  fix t
  show "unat (OwnedMutexCount th') = card (owned s t)" if t: "KThreads s' t = Some th'" for th'
  proof -
    obtain th where "KThreads s t = Some th" "erase_thread th' = erase_thread th" using rest_thread [OF r t] .
    then show ?thesis using ok erase_thread_fields(1) [of th' th] by (simp add: mutex_ok_def)
  qed
  show "KThreads s' t \<noteq> None" if "owned s t \<noteq> {}" using that ok rest_dom(2) [OF r] by (simp add: mutex_ok_def)
qed

definition wl_sub :: "cview \<Rightarrow> cview \<Rightarrow> bool" where
  "wl_sub v v' \<longleftrightarrow> (\<forall>d ws'. cWL v' d = Some ws' \<longrightarrow> ws' \<noteq> [] \<longrightarrow> (\<exists>ws. cWL v d = Some ws \<and> ws \<noteq> []))"

lemma object_ok_wl:
  "object_ok ob \<Longrightarrow> ws = [] \<or> WaitListHead ob \<noteq> [] \<Longrightarrow> object_ok (ob\<lparr>WaitListHead := ws\<rparr>)"
  by (auto simp: object_ok_def split: KDISPATCHER_OBJECT_TYPE.splits)

lemma objects_ok_rest:
  assumes r: "rest s' = rest s" and ok: "objects_ok s" and w: "wl_sub (view s) (view s')"
  shows "objects_ok s'"
  unfolding objects_ok_def
proof (intro allI impI)
  fix d ob' assume ob': "Dispatchers s' d = Some ob'"
  obtain ob where ob: "Dispatchers s d = Some ob" "ob' = ob\<lparr>WaitListHead := WaitListHead ob'\<rparr>"
    using rest_dispatcher [OF r ob'] .
  have "WaitListHead ob' = [] \<or> WaitListHead ob \<noteq> []" using w ob(1) ob' by (auto simp: wl_sub_def dest!: spec [of _ d])
  then show "object_ok ob'" using ok ob object_ok_wl [of ob "WaitListHead ob'"] by (auto simp: objects_ok_def)
qed

lemma wl_sub_refl [simp]: "wl_sub v v" by (simp add: wl_sub_def)

lemma wl_sub_trans: "wl_sub v v' \<Longrightarrow> wl_sub v' v'' \<Longrightarrow> wl_sub v v''"
  unfolding wl_sub_def by metis

lemma wl_sub_dispatch: "wl_sub v (a_dispatch v)"
  by (auto simp: wl_sub_def a_dispatch_def split: prod.splits)

lemma wl_sub_ready: "wl_sub v (a_ready t v)"
  by (simp add: wl_sub_def a_ready_def Let_def)

lemma wl_sub_wake: "wl_sub v (a_wake t v)"
  by (auto simp: wl_sub_def a_wake_def Let_def split: option.splits if_splits)

lemma wl_sub_fold: "wl_sub v (fold a_wake ts v)"
  by (induction ts arbitrary: v) (auto intro: wl_sub_trans wl_sub_wake)

text \<open>Dispatching re-establishes the invariant from a state in which the current thread has given up the processor.\<close>

definition yielded :: "sched_state \<Rightarrow> bool" where
  "yielded s \<longleftrightarrow> gCurrentThread s = gIdleThread s \<or>
     (\<exists>th. KThreads s (gCurrentThread s) = Some th \<and> State th \<noteq> KTHREAD_STATE_RUNNING)"

lemma KiSchedule_inv:
  assumes core: "sched_core s" and env: "dispatch_ready s" and ob: "objects_ok s" and mx: "mutex_ok s" and y: "yielded s"
  shows "\<exists>s'. KiSchedule now s = Done s' \<and> sched_inv s' \<and> view s' = a_dispatch (view s) \<and> rest s' = rest s"
proof -
  obtain s' where s': "KiSchedule now s = Done s'" "view s' = a_dispatch (view s)" "rest s' = rest s"
    using KiSchedule_dispatch [OF core env] by blast
  have D: "core_ok (a_dispatch (view s))"
    "\<exists>x. cTV (a_dispatch (view s)) (cCur (a_dispatch (view s))) = Some x \<and> vState x = KTHREAD_STATE_RUNNING"
    using a_dispatch_ok [of "view s"] core y by (auto simp: sched_core_def yielded_def)
  have "\<exists>th. KThreads s' (gCurrentThread s') = Some th \<and> State th = KTHREAD_STATE_RUNNING"
    using D(2) unfolding s'(2) [symmetric] by auto
  moreover have "objects_ok s'" using objects_ok_rest [OF s'(3) ob] wl_sub_dispatch s'(2) by simp
  ultimately show ?thesis using s' D(1) dispatch_ready_rest [OF s'(3)] env mutex_ok_rest [OF s'(3) mx]
    by (auto simp: sched_inv_def sched_core_def)
qed

section \<open>What dispatching leaves alone\<close>

text \<open>What dispatching leaves alone: every object, and every thread but the one it dispatches, whose state and quantum it sets.\<close>

definition same_but_run :: "KTHREAD \<Rightarrow> KTHREAD \<Rightarrow> bool" where
  "same_but_run th th' \<longleftrightarrow> th' = th\<lparr>State := KTHREAD_STATE_RUNNING, Quantum := Quantum th'\<rparr>"

lemma arm_clock_others: "arm_clock d s = Done s' \<Longrightarrow> KThreads s' = KThreads s \<and> Dispatchers s' = Dispatchers s \<and> gCurrentThread s' = gCurrentThread s"
  by (cases "KiArmClockEvent d (gClock s)") (auto simp: arm_clock_def)

lemma KiArmForNextEvent_others:
  assumes "KiArmForNextEvent now t s = Done s'"
  shows "Dispatchers s' = Dispatchers s \<and> gCurrentThread s' = gCurrentThread s \<and> (\<forall>u. u \<noteq> t \<longrightarrow> KThreads s' u = KThreads s u) \<and>
    (\<forall>th. KThreads s t = Some th \<longrightarrow> (\<exists>q. KThreads s' t = Some (th\<lparr>Quantum := q\<rparr>)))"
proof (cases "t = gIdleThread s")
  case True
  have q: "\<exists>q. th = th\<lparr>Quantum := q\<rparr>" for th by (rule exI [of _ "Quantum th"]) simp
  show ?thesis using assms True q
    by (cases "gTimeoutQueue s") (auto simp: KiArmForNextEvent_def Let_def dest!: arm_clock_others)
next
  case False
  obtain th where th: "KThreads s t = Some th" using assms False by (cases "KThreads s t") (auto simp: KiArmForNextEvent_def)
  show ?thesis using assms False th
    by (auto simp: KiArmForNextEvent_def Let_def set_kthread_def dest!: arm_clock_others)
qed

lemma KiSchedule_others:
  assumes "KiSchedule now s = Done s'"
  shows "Dispatchers s' = Dispatchers s" "\<And>u. u \<noteq> gCurrentThread s' \<Longrightarrow> KThreads s' u = KThreads s u"
    "\<exists>th th'. KThreads s (gCurrentThread s') = Some th \<and> KThreads s' (gCurrentThread s') = Some th' \<and> same_but_run th th'"
proof -
  obtain t s0 where n: "pick_next s = (t, s0)" by (cases "pick_next s")
  then have f0: "Dispatchers s0 = Dispatchers s" "KThreads s0 = KThreads s" "gCurrentThread s0 = gCurrentThread s"
    by (auto simp: pick_next_def split: option.splits)
  have run: "\<exists>s1 s2. set_state t KTHREAD_STATE_RUNNING s0 = Done s1 \<and> KThreads s2 = KThreads s1 \<and> Dispatchers s2 = Dispatchers s1 \<and>
      gCurrentThread s2 = gCurrentThread s1 \<and> (\<exists>s3. KiArmForNextEvent now t s2 = Done s3 \<and> KThreads s' = KThreads s3 \<and> Dispatchers s' = Dispatchers s3) \<and>
      gCurrentThread s' = t"
  proof (cases "t = gCurrentThread s")
    case True
    then obtain s1 where s1: "set_state t KTHREAD_STATE_RUNNING s0 = Done s1" "KiArmForNextEvent now t s1 = Done s'"
      using assms n by (cases "set_state t KTHREAD_STATE_RUNNING s0") (auto simp: KiSchedule_def)
    have "gCurrentThread s1 = gCurrentThread s0" using s1(1) by (auto simp: set_state_def deref_Done_iff set_kthread_def)
    then show ?thesis using s1 KiArmForNextEvent_others [OF s1(2)] True f0 by (intro exI [of _ s1]) simp
  next
    case False
    then obtain r s1 where s1: "KiResolveDispatchRoot t s0 = Done r" "set_state t KTHREAD_STATE_RUNNING s0 = Done s1"
      using assms n by (cases "KiResolveDispatchRoot t s0"; cases "set_state t KTHREAD_STATE_RUNNING s0") (auto simp: KiSchedule_def)
    obtain th where th: "KThreads s1 t = Some th" using s1 by (auto simp: set_state_def deref_Done_iff set_kthread_def)
    define s2 where "s2 = s1\<lparr>gStats := (gStats s1)\<lparr>ContextSwitchCount := ContextSwitchCount (gStats s1) + 1\<rparr>,
                 TssRsp0 := StackBase th + StackSize th\<rparr>"
    obtain s3 where s3: "KiArmForNextEvent now t s2 = Done s3"
      using assms n False s1 th by (cases "KiArmForNextEvent now t s2") (auto simp: KiSchedule_def Let_def s2_def)
    have "Dispatchers s' = Dispatchers s3 \<and> KThreads s' = KThreads s3 \<and> gCurrentThread s' = t"
      using assms n False s1 th s3 by (auto simp: KiSchedule_def Let_def s2_def KeSwitchAddressSpace_def split: if_splits)
    then show ?thesis using s1 s3 by (intro exI [of _ s1] exI [of _ s2]) (simp add: s2_def)
  qed
  then obtain s1 s2 s3 where s1: "set_state t KTHREAD_STATE_RUNNING s0 = Done s1" and s2: "KThreads s2 = KThreads s1" "Dispatchers s2 = Dispatchers s1"
    and s3: "KiArmForNextEvent now t s2 = Done s3" and s': "KThreads s' = KThreads s3" "Dispatchers s' = Dispatchers s3" "gCurrentThread s' = t" by blast
  obtain th where th: "KThreads s t = Some th" "KThreads s1 = (KThreads s)(t \<mapsto> th\<lparr>State := KTHREAD_STATE_RUNNING\<rparr>)" "Dispatchers s1 = Dispatchers s"
    using s1 f0 by (auto simp: set_state_def deref_Done_iff set_kthread_def)
  note a = KiArmForNextEvent_others [OF s3]
  show "Dispatchers s' = Dispatchers s" using a s' s2 th by simp
  show "KThreads s' u = KThreads s u" if "u \<noteq> gCurrentThread s'" for u using a s' s2 th that by simp
  obtain q where "KThreads s' t = Some (th\<lparr>State := KTHREAD_STATE_RUNNING, Quantum := q\<rparr>)" using a s' s2 th by auto
  then show "\<exists>th th'. KThreads s (gCurrentThread s') = Some th \<and> KThreads s' (gCurrentThread s') = Some th' \<and> same_but_run th th'"
    using th(1) s'(3) by (auto simp: same_but_run_def)
qed

text \<open>The threads whose wait has been granted: dispatching grants none, waking grants those it wakes with success.\<close>

definition granted :: "sched_state \<Rightarrow> kthread_ref set" where
  "granted s = {u. \<exists>th. KThreads s u = Some th \<and> Completed (WaitBlock th) \<and> CompletionStatus (WaitBlock th) = EC_SUCCESS}"

lemma granted_cong: "(\<And>u. map_option WaitBlock (KThreads s' u) = map_option WaitBlock (KThreads s u)) \<Longrightarrow> granted s' = granted s"
proof -
  assume e: "\<And>u. map_option WaitBlock (KThreads s' u) = map_option WaitBlock (KThreads s u)"
  have "u \<in> granted s' \<longleftrightarrow> u \<in> granted s" for u
    using e [of u] by (cases "KThreads s u"; cases "KThreads s' u") (simp_all add: granted_def)
  then show "granted s' = granted s" by blast
qed

lemma granted_arm: "KiArmForNextEvent now t s = Done s' \<Longrightarrow> granted s' = granted s"
proof (rule granted_cong)
  fix u assume a: "KiArmForNextEvent now t s = Done s'"
  note o = KiArmForNextEvent_others [OF a]
  show "map_option WaitBlock (KThreads s' u) = map_option WaitBlock (KThreads s u)"
  proof (cases "u = t \<and> KThreads s t \<noteq> None")
    case True
    then show ?thesis using o by auto
  next
    case False
    moreover have "KThreads s t \<noteq> None \<or> KThreads s' t = KThreads s t"
      using a by (cases "gTimeoutQueue s") (auto simp: KiArmForNextEvent_def Let_def deref_Done_iff dest!: arm_clock_others split: if_splits)
    ultimately show ?thesis using o by (cases "u = t") auto
  qed
qed

lemma granted_schedule:
  assumes "KiSchedule now s = Done s'"
  shows "granted s' = granted s"
proof (rule granted_cong)
  fix u
  note o = KiSchedule_others [OF assms]
  obtain th th' where t: "KThreads s (gCurrentThread s') = Some th" "KThreads s' (gCurrentThread s') = Some th'" "same_but_run th th'"
    using o(3) by blast
  have "WaitBlock th' = WaitBlock (th\<lparr>State := KTHREAD_STATE_RUNNING, Quantum := Quantum th'\<rparr>)"
    using t(3) unfolding same_but_run_def by (rule arg_cong)
  then have "WaitBlock th' = WaitBlock th" by simp
  then show "map_option WaitBlock (KThreads s' u) = map_option WaitBlock (KThreads s u)"
    using o(2) [of u] t by (cases "u = gCurrentThread s'") simp_all
qed

lemma granted_resumed: "resumed st ts s s' \<Longrightarrow> granted s' \<subseteq> granted s \<union> (if st = EC_SUCCESS then set ts else {})"
proof
  fix u assume r: "resumed st ts s s'" and u: "u \<in> granted s'"
  show "u \<in> granted s \<union> (if st = EC_SUCCESS then set ts else {})"
  proof (cases "u \<in> set ts")
    case True
    then have "wait_resumed u s' = Done st" using r by (simp add: resumed_def)
    then show ?thesis using u True by (auto simp: granted_def wait_resumed_def)
  next
    case False
    then have "KThreads s' u = KThreads s u" using r by (simp add: resumed_def)
    then show ?thesis using u by (simp add: granted_def)
  qed
qed

end
