(* ===== verification/SchedSync.thy ===== *)
theory SchedSync
  imports SchedRefine
begin

text \<open>
  Events, semaphores and mutexes, and the three ways a wait can go: every routine of
  \<^verbatim>\<open>scheduler/sync.c\<close> and \<^verbatim>\<open>scheduler/wait.c\<close> is specified on every branch by its effect on the
  abstract scheduler and on the dispatcher object, and keeps \<open>sched_inv\<close>.
\<close>

section \<open>Events and semaphores\<close>

lemma sched_invD:
  assumes "sched_inv s"
  shows "sched_core s" "dispatch_ready s" "objects_ok s" "mutex_ok s" "core_ok (view s)"
    "\<exists>th. KThreads s (gCurrentThread s) = Some th \<and> State th = KTHREAD_STATE_RUNNING"
  using assms by (auto simp: sched_inv_def sched_core_def)

lemma view_set_dispatcher:
  assumes "Dispatchers s d = Some ob" "WaitListHead ob' = WaitListHead ob"
  shows "view (set_dispatcher d ob' s) = view s"
  using assms by (intro view_eqI) (auto simp: set_dispatcher_def)

lemma owned_set_dispatcher:
  assumes "Dispatchers s d = Some ob" "DispatcherType ob' = DispatcherType ob" "OwnerThread ob' = OwnerThread ob"
  shows "owned (set_dispatcher d ob' s) t = owned s t"
  using assms by (auto simp: owned_def set_dispatcher_def)

lemma mutex_ok_set_dispatcher:
  assumes "mutex_ok s" "Dispatchers s d = Some ob" "DispatcherType ob' = DispatcherType ob" "OwnerThread ob' = OwnerThread ob"
  shows "mutex_ok (set_dispatcher d ob' s)"
  using assms owned_set_dispatcher [OF assms(2-4)] by (simp add: mutex_ok_def set_dispatcher_def)

lemma dispatch_ready_set_dispatcher [simp]: "dispatch_ready (set_dispatcher d ob s) = dispatch_ready s"
  by (simp add: dispatch_ready_def set_dispatcher_def)

lemma fold_a_wake_other: "t \<notin> set ts \<Longrightarrow> cTV (fold a_wake ts v) t = cTV v t"
  by (induction ts arbitrary: v) (simp_all add: a_wake_def Let_def)

lemma fold_a_wake_fixed [simp]: "cIdle (fold a_wake ts v) = cIdle v" "cCur (fold a_wake ts v) = cCur v"
  by (induction ts arbitrary: v) (simp_all add: a_wake_def Let_def)

text \<open>Woken threads queue up behind the threads that are already ready, in the order they are woken.\<close>

lemma fold_a_wake_ready:
  assumes "\<And>t. t \<in> set ts \<Longrightarrow> cTV v t \<noteq> None" "distinct ts"
  shows "cRQ (fold a_wake ts v) k = cRQ v k @ filter (\<lambda>t. vPrio (the (cTV v t)) = k) ts"
  using assms
proof (induction ts arbitrary: v)
  case (Cons t ts)
  have same: "cTV (a_wake t v) u = cTV v u" if "u \<in> set ts" for u
    using that Cons.prems(2) by (auto simp: a_wake_def Let_def)
  have "cRQ (fold a_wake ts (a_wake t v)) k = cRQ (a_wake t v) k @ filter (\<lambda>u. vPrio (the (cTV (a_wake t v) u)) = k) ts"
    using Cons.IH [of "a_wake t v"] Cons.prems same by simp
  also have "filter (\<lambda>u. vPrio (the (cTV (a_wake t v) u)) = k) ts = filter (\<lambda>u. vPrio (the (cTV v u)) = k) ts"
    using same by (intro filter_cong) simp_all
  finally show ?case by (simp add: a_wake_def Let_def)
qed simp

lemma current_not_waiting:
  assumes "sched_inv s" "Dispatchers s d = Some ob"
  shows "gCurrentThread s \<notin> set (WaitListHead ob)"
proof
  assume "gCurrentThread s \<in> set (WaitListHead ob)"
  then have "\<exists>x. cTV (view s) (gCurrentThread s) = Some x \<and> vState x = KTHREAD_STATE_BLOCKED"
    using core_okD(8) [OF sched_invD(5) [OF assms(1)], of d] assms(2) by fastforce
  then show False using sched_invD(6) [OF assms(1)] by auto
qed

text \<open>
  The common tail of the releasing routines: some waiters of \<open>d\<close> have been woken, its fields have been
  updated consistently, and the processor is dispatched if it was idle.
\<close>

definition woken :: "disp_ref \<Rightarrow> kthread_ref list \<Rightarrow> sched_state \<Rightarrow> sched_state \<Rightarrow> bool" where
  "woken d ts s s' \<longleftrightarrow> (\<exists>v. v = fold a_wake ts (view s) \<and>
     view s' = (if cCur v = cIdle v \<and> (\<exists>k < KTHREAD_PRIORITY_COUNT. cRQ v k \<noteq> []) then a_dispatch v else v))"

lemma need_schedule_view:
  "need_schedule s \<longleftrightarrow> cCur (view s) = cIdle (view s) \<and> (\<exists>k < KTHREAD_PRIORITY_COUNT. cRQ (view s) k \<noteq> [])"
  by (auto simp: need_schedule_def KiHasAnyReadyThread_def list_ex_iff)

lemma finish_release:
  assumes inv: "sched_inv s" and ob: "Dispatchers s d = Some ob" and ts: "set ts \<subseteq> set (WaitListHead ob)"
    and v: "view s2 = fold a_wake ts (view s)" and core: "sched_core s2" and env: "dispatch_ready s2"
    and ok: "objects_ok s2" and mx: "mutex_ok s2"
  shows "\<exists>s3. (if need_schedule s2 then KiSchedule now s2 else Done s2) = Done s3 \<and> sched_inv s3 \<and>
    woken d ts s s3 \<and> rest s3 = rest s2 \<and> cWL (view s3) = cWL (view s2) \<and> granted s3 = granted s2"
proof -
  have run: "\<exists>th. KThreads s2 (gCurrentThread s2) = Some th \<and> State th = KTHREAD_STATE_RUNNING"
  proof -
    have "gCurrentThread s \<notin> set ts" using current_not_waiting [OF inv ob] ts by blast
    then have "cTV (view s2) (cCur (view s2)) = cTV (view s) (cCur (view s))" using v fold_a_wake_other by simp
    then have "map_option vState (cTV (view s2) (cCur (view s2))) = map_option vState (cTV (view s) (cCur (view s)))" by simp
    then show ?thesis using sched_invD(6) [OF inv] by (auto simp: option.map_comp comp_def)
  qed
  show ?thesis
  proof (cases "need_schedule s2")
    case True
    then have "yielded s2" by (simp add: yielded_def need_schedule_def)
    then obtain s3 where "KiSchedule now s2 = Done s3" "sched_inv s3" "view s3 = a_dispatch (view s2)" "rest s3 = rest s2"
      using KiSchedule_inv [OF core env ok mx] by blast
    moreover have "cWL (a_dispatch (view s2)) = cWL (view s2)" by (simp add: a_dispatch_def split: prod.splits)
    ultimately show ?thesis using True v need_schedule_view [of s2] granted_schedule by (simp add: woken_def)
  next
    case False
    moreover have "sched_inv s2" using run core env ok mx by (simp add: sched_inv_def)
    ultimately show ?thesis using v need_schedule_view [of s2] by (auto simp: woken_def)
  qed
qed

text \<open>The invariant without its last clause: the current thread may have given up the processor already.\<close>

definition sched_weak :: "sched_state \<Rightarrow> bool" where
  "sched_weak s \<longleftrightarrow> sched_core s \<and> dispatch_ready s \<and> objects_ok s \<and> mutex_ok s"

lemma sched_inv_weak: "sched_inv s \<Longrightarrow> sched_weak s"
  by (simp add: sched_inv_def sched_weak_def)

lemma set_event_wakes:
  assumes inv: "sched_weak s" and ev: "Dispatchers s d = Some ev" "DispatcherType ev = DISPATCHER_TYPE_EVENT"
  shows "\<exists>s2. wake_waiters d None (set_dispatcher d (ev\<lparr>SignalState := 1\<rparr>) s) = Some (Done (None, s2)) \<and>
    view s2 = fold a_wake (WaitListHead ev) (view s) \<and> rest s2 = rest (set_dispatcher d (ev\<lparr>SignalState := 1\<rparr>) s) \<and> sched_weak s2 \<and>
    Dispatchers s2 d = Some (ev\<lparr>SignalState := 1, WaitListHead := []\<rparr>) \<and> resumed EC_SUCCESS (WaitListHead ev) s s2"
proof -
  define s1 where "s1 = set_dispatcher d (ev\<lparr>SignalState := 1\<rparr>) s"
  have inv': "sched_core s" "dispatch_ready s" "objects_ok s" "mutex_ok s" "core_ok (view s)"
    using inv by (auto simp: sched_weak_def sched_core_def)
  have v1: "view s1 = view s" unfolding s1_def by (rule view_set_dispatcher [OF ev(1)]) simp
  have c1: "sched_core s1" using inv'(1) v1 by (simp add: sched_core_def)
  have d1: "Dispatchers s1 d = Some (ev\<lparr>SignalState := 1\<rparr>)" by (simp add: s1_def set_dispatcher_def)
  have m1: "mutex_ok s1" unfolding s1_def by (rule mutex_ok_set_dispatcher [OF inv'(4) ev(1)]) simp_all
  have sig: "Signature ev = KDISPATCHER_SIGNATURE" using inv'(3) ev(1) by (auto simp: objects_ok_def object_ok_def)
  obtain s2 where w: "wake_waiters d None s1 = Some (Done (None, s2))" "view s2 = fold a_wake (WaitListHead ev) (view s)"
    "rest s2 = rest s1" "resumed EC_SUCCESS (WaitListHead ev) s1 s2"
    using wake_waiters_fold [OF c1 d1 refl refl, of None] v1 by auto
  have F: "core_ok (view s2)" "cWL (view s2) d = Some []"
    using fold_a_wake_core [OF inv'(5), of d "WaitListHead ev" "length (WaitListHead ev)"] ev(1) w(2) by simp_all
  have d2: "Dispatchers s2 d = Some (ev\<lparr>SignalState := 1, WaitListHead := []\<rparr>)"
  proof -
    obtain ob where ob: "Dispatchers s2 d = Some ob" "WaitListHead ob = []" using F(2) by auto
    then show ?thesis using rest_dispatcher [OF w(3) ob(1)] d1 by auto
  qed
  have o2: "objects_ok s2" unfolding objects_ok_def
  proof (intro allI impI)
    fix e ob' assume e: "Dispatchers s2 e = Some ob'"
    show "object_ok ob'"
    proof (cases "e = d")
      case True
      then show ?thesis using e d2 ev(2) sig by (auto simp: object_ok_def)
    next
      case False
      obtain ob where ob: "Dispatchers s1 e = Some ob" "ob' = ob\<lparr>WaitListHead := WaitListHead ob'\<rparr>"
        using rest_dispatcher [OF w(3) e] by blast
      have ob0: "Dispatchers s e = Some ob" using ob(1) False by (simp add: s1_def set_dispatcher_def)
      have "wl_sub (view s) (view s2)" using wl_sub_fold w(2) by simp
      then have "WaitListHead ob' = [] \<or> WaitListHead ob \<noteq> []" using e ob0 by (auto simp: wl_sub_def dest!: spec [of _ e])
      moreover have "object_ok ob" using inv'(3) ob0 by (simp add: objects_ok_def)
      ultimately show ?thesis using object_ok_wl ob(2) by metis
    qed
  qed
  have "sched_weak s2" using F(1) o2 dispatch_ready_rest [OF w(3)] mutex_ok_rest [OF w(3) m1] inv'(2)
    by (simp add: sched_weak_def sched_core_def s1_def)
  moreover have "resumed EC_SUCCESS (WaitListHead ev) s s2" using w(4) by (simp add: resumed_def s1_def set_dispatcher_def)
  ultimately show ?thesis using w d2 by (auto simp: s1_def)
qed

lemma KeSetEvent_effect:
  assumes inv: "sched_inv s" and ev: "Dispatchers s d = Some ev" "DispatcherType ev = DISPATCHER_TYPE_EVENT"
  shows "\<exists>s'. KeSetEvent d now s = Done s' \<and> sched_inv s' \<and> woken d (WaitListHead ev) s s' \<and>
    Dispatchers s' d = Some (ev\<lparr>SignalState := 1, WaitListHead := []\<rparr>) \<and>
    rest s' = rest (set_dispatcher d (ev\<lparr>SignalState := 1\<rparr>) s) \<and> granted s' \<subseteq> granted s \<union> set (WaitListHead ev)"
proof -
  have sig: "Signature ev = KDISPATCHER_SIGNATURE" using sched_invD(3) [OF inv] ev(1) by (auto simp: objects_ok_def object_ok_def)
  obtain s2 where w: "wake_waiters d None (set_dispatcher d (ev\<lparr>SignalState := 1\<rparr>) s) = Some (Done (None, s2))"
    "view s2 = fold a_wake (WaitListHead ev) (view s)" "sched_weak s2"
    and d2: "Dispatchers s2 d = Some (ev\<lparr>SignalState := 1, WaitListHead := []\<rparr>)"
    and r2: "rest s2 = rest (set_dispatcher d (ev\<lparr>SignalState := 1\<rparr>) s)" "resumed EC_SUCCESS (WaitListHead ev) s s2"
    using set_event_wakes [OF sched_inv_weak [OF inv] ev] by blast
  have c2: "sched_core s2" "dispatch_ready s2" "objects_ok s2" "mutex_ok s2" using w(3) by (simp_all add: sched_weak_def)
  obtain s3 where s3: "(if need_schedule s2 then KiSchedule now s2 else Done s2) = Done s3" "sched_inv s3"
    "woken d (WaitListHead ev) s s3" "rest s3 = rest s2" "cWL (view s3) = cWL (view s2)" "granted s3 = granted s2"
    using finish_release [OF inv ev(1) subset_refl w(2) c2] by blast
  have "Dispatchers s3 d = Some (ev\<lparr>SignalState := 1, WaitListHead := []\<rparr>)"
  proof -
    have "cWL (view s3) d = cWL (view s2) d" unfolding s3(5) by (rule refl)
    then obtain ob where ob: "Dispatchers s3 d = Some ob" "WaitListHead ob = []" using d2 by auto
    then show ?thesis using rest_dispatcher [OF s3(4) ob(1)] d2 by auto
  qed
  moreover have "KeSetEvent d now s = Done s3"
    using ev sig w(1) s3(1) by (simp add: KeSetEvent_def flatten_loop_def)
  moreover have "granted s3 \<subseteq> granted s \<union> set (WaitListHead ev)" using granted_resumed [OF r2(2)] s3(6) by simp
  ultimately show ?thesis using s3(2,3,4) r2(1) by auto
qed

lemma KeSetEvent_spec:
  assumes inv: "sched_inv s" and ev: "Dispatchers s d = Some ev" "DispatcherType ev = DISPATCHER_TYPE_EVENT"
  shows "\<exists>s'. KeSetEvent d now s = Done s' \<and> sched_inv s' \<and> woken d (WaitListHead ev) s s' \<and>
    Dispatchers s' d = Some (ev\<lparr>SignalState := 1, WaitListHead := []\<rparr>)"
  using KeSetEvent_effect [OF assms, of now] by blast

lemma KeResetEvent_spec:
  assumes inv: "sched_inv s" and ev: "Dispatchers s d = Some ev" "DispatcherType ev = DISPATCHER_TYPE_EVENT"
  shows "KeResetEvent d s = Done (set_dispatcher d (ev\<lparr>SignalState := 0\<rparr>) s)"
    "sched_inv (set_dispatcher d (ev\<lparr>SignalState := 0\<rparr>) s)"
proof -
  define s1 where "s1 = set_dispatcher d (ev\<lparr>SignalState := 0\<rparr>) s"
  have oe: "object_ok ev" using sched_invD(3) [OF inv] ev(1) by (simp add: objects_ok_def)
  then show "KeResetEvent d s = Done (set_dispatcher d (ev\<lparr>SignalState := 0\<rparr>) s)"
    using ev by (simp add: KeResetEvent_def object_ok_def)
  have v1: "view s1 = view s" unfolding s1_def by (rule view_set_dispatcher [OF ev(1)]) simp
  have m1: "mutex_ok s1" unfolding s1_def by (rule mutex_ok_set_dispatcher [OF sched_invD(4) [OF inv] ev(1)]) simp_all
  have "object_ok (ev\<lparr>SignalState := 0\<rparr>)" using oe ev(2) by (simp add: object_ok_def)
  then have "objects_ok s1" using sched_invD(3) [OF inv] by (simp add: s1_def objects_ok_def set_dispatcher_def)
  moreover have "dispatch_ready s1" using sched_invD(2) [OF inv] by (simp add: s1_def)
  moreover have "KThreads s1 = KThreads s" "gCurrentThread s1 = gCurrentThread s" by (simp_all add: s1_def set_dispatcher_def)
  ultimately show "sched_inv (set_dispatcher d (ev\<lparr>SignalState := 0\<rparr>) s)"
    using sched_invD [OF inv] v1 m1 unfolding s1_def [symmetric] by (simp add: sched_inv_def sched_core_def)
qed

lemma queue_depth_small:
  assumes "length q < 2 ^ 31"
  shows "sint (KiCountQueueDepth q) = int (length q)" "uint (KiCountQueueDepth q) = int (length q)"
proof -
  have "take_bit 32 (length q) = length q" using assms by (intro take_bit_nat_eq_self) simp
  then show "uint (KiCountQueueDepth q) = int (length q)" by (simp add: KiCountQueueDepth_def unsigned_of_nat)
  show "sint (KiCountQueueDepth q) = int (length q)"
    using assms by (simp add: KiCountQueueDepth_def signed_of_nat signed_take_bit_int_eq_self)
qed

lemma KeReleaseSemaphore_overflow:
  assumes inv: "sched_inv s" and sem: "Dispatchers s d = Some sem" "DispatcherType sem = DISPATCHER_TYPE_SEMAPHORE"
    and n: "0 < n" "length (WaitListHead sem) < 2 ^ 31"
    and over: "SignalState sem + max 0 (n - int (length (WaitListHead sem))) > Limit sem"
  shows "KeReleaseSemaphore (Some d) n now s = Done (EC_ILLEGAL_ARGUMENT, s)"
proof -
  have "object_ok sem" using sched_invD(3) [OF inv] sem(1) by (simp add: objects_ok_def)
  moreover have "sint (KiCountQueueDepth (WaitListHead sem)) = int (length (WaitListHead sem))"
    "uint (KiCountQueueDepth (WaitListHead sem)) = int (length (WaitListHead sem))"
    using queue_depth_small [OF n(2)] by simp_all
  ultimately show ?thesis using sem n over
    by (auto simp: KeReleaseSemaphore_def KiAssertSemaphoreState_def object_ok_def Let_def max_def split: if_splits)
qed

lemma KeReleaseSemaphore_effect:
  assumes inv: "sched_inv s" and sem: "Dispatchers s d = Some sem" "DispatcherType sem = DISPATCHER_TYPE_SEMAPHORE"
    and n: "0 < n" "length (WaitListHead sem) < 2 ^ 31"
    and fits: "SignalState sem + max 0 (n - int (length (WaitListHead sem))) \<le> Limit sem"
  shows "\<exists>s'. KeReleaseSemaphore (Some d) n now s = Done (EC_SUCCESS, s') \<and> sched_inv s' \<and>
    woken d (take (nat n) (WaitListHead sem)) s s' \<and>
    Dispatchers s' d = Some (sem\<lparr>SignalState := SignalState sem + max 0 (n - int (length (WaitListHead sem))),
      WaitListHead := drop (nat n) (WaitListHead sem)\<rparr>) \<and>
    (\<exists>s1 sem2. rest s1 = rest s \<and> DispatcherType sem2 = DISPATCHER_TYPE_SEMAPHORE \<and> rest s' = rest (set_dispatcher d sem2 s1)) \<and>
    granted s' \<subseteq> granted s \<union> set (take (nat n) (WaitListHead sem))"
proof -
  define ws where "ws = WaitListHead sem"
  define m where "m = min (nat n) (length ws)"
  have take: "take m ws = take (nat n) ws" and drop: "drop m ws = drop (nat n) ws" by (simp_all add: m_def min_def)
  have left: "n - int m = max 0 (n - int (length ws))" using n(1) by (auto simp: m_def min_def max_def)
  have so: "object_ok sem" using sched_invD(3) [OF inv] sem(1) by (simp add: objects_ok_def)
  have cnt: "sint (KiCountQueueDepth ws) = int (length ws)" "uint (KiCountQueueDepth ws) = int (length ws)"
    using queue_depth_small [OF n(2)] by (simp_all add: ws_def)
  obtain s1 where w: "wake_waiters d (Some n) s = Some (Done (Some (n - int m), s1))"
    "view s1 = fold a_wake (take m ws) (view s)" "rest s1 = rest s" "resumed EC_SUCCESS (take m ws) s s1"
    using wake_waiters_fold [OF sched_invD(1) [OF inv] sem(1) refl, of m "Some n"] by (auto simp: m_def ws_def)
  have F: "core_ok (view s1)" "cWL (view s1) d = Some (drop m ws)"
    using fold_a_wake_core [OF sched_invD(5) [OF inv], of d ws m] sem(1) w(2) by (simp_all add: m_def ws_def)
  obtain sem1 where s1d: "Dispatchers s1 d = Some sem1" "WaitListHead sem1 = drop m ws" using F(2) by auto
  then have sem1: "sem1 = sem\<lparr>WaitListHead := drop m ws\<rparr>" using rest_dispatcher [OF w(3) s1d(1)] sem(1) by auto
  define sem2 where "sem2 = sem1\<lparr>SignalState := SignalState sem1 + (n - int m)\<rparr>"
  define s2 where "s2 = set_dispatcher d sem2 s1"
  have v2: "view s2 = fold a_wake (take m ws) (view s)"
    unfolding s2_def w(2) [symmetric] by (rule view_set_dispatcher [OF s1d(1)]) (simp add: sem2_def)
  have "mutex_ok s1" using mutex_ok_rest [OF w(3) sched_invD(4) [OF inv]] .
  then have m2: "mutex_ok s2" unfolding s2_def by (rule mutex_ok_set_dispatcher [OF _ s1d(1)]) (simp_all add: sem2_def)
  have "objects_ok s1" using objects_ok_rest [OF w(3) sched_invD(3) [OF inv]] wl_sub_fold w(2) by simp
  moreover have so2: "object_ok sem2"
    using so sem(2) fits left ws_def sem1 by (auto simp: object_ok_def sem2_def m_def min_def max_def split: if_splits)
  ultimately have o2: "objects_ok s2" by (simp add: s2_def objects_ok_def set_dispatcher_def)
  have e2: "sched_core s2" "dispatch_ready s2"
    using F(1) v2 w(2) dispatch_ready_rest [OF w(3)] sched_invD(2) [OF inv] by (simp_all add: sched_core_def s2_def)
  have sub: "set (take m ws) \<subseteq> set (WaitListHead sem)" unfolding ws_def by (rule set_take_subset)
  obtain s3 where s3: "(if need_schedule s2 then KiSchedule now s2 else Done s2) = Done s3" "sched_inv s3"
    "woken d (take m ws) s s3" "rest s3 = rest s2" "cWL (view s3) = cWL (view s2)" "granted s3 = granted s2"
    using finish_release [OF inv sem(1) sub v2 e2 o2 m2] by blast
  have "Dispatchers s3 d = Some sem2"
  proof -
    have "cWL (view s3) d = Some (drop m ws)" unfolding s3(5) v2 w(2) [symmetric] by (rule F(2))
    then obtain ob where ob: "Dispatchers s3 d = Some ob" "WaitListHead ob = drop m ws" by auto
    moreover have "Dispatchers s2 d = Some sem2" by (simp add: s2_def set_dispatcher_def)
    moreover have "WaitListHead sem2 = drop m ws" by (simp add: sem2_def sem1)
    ultimately show ?thesis using rest_dispatcher [OF s3(4) ob(1)] by fastforce
  qed
  moreover have "sem2 = sem\<lparr>SignalState := SignalState sem + max 0 (n - int (length ws)), WaitListHead := drop (nat n) ws\<rparr>"
    by (simp add: sem2_def sem1 left drop)
  moreover have "KeReleaseSemaphore (Some d) n now s = Done (EC_SUCCESS, s3)"
  proof -
    have a: "KiAssertSemaphoreState d s k = k sem" for k :: "KDISPATCHER \<Rightarrow> (ho_status \<times> sched_state) outcome"
      using so sem by (simp add: KiAssertSemaphoreState_def object_ok_def)
    have b: "KiAssertSemaphoreState d s2 k = k sem2" for k :: "KDISPATCHER \<Rightarrow> (ho_status \<times> sched_state) outcome"
      using so2 sem(2) by (simp add: KiAssertSemaphoreState_def object_ok_def s2_def set_dispatcher_def sem2_def sem1)
    have nf: "\<not> SignalState sem + (if n > int (length ws) then n - int (length ws) else 0) > Limit sem"
      using fits unfolding ws_def by (cases "n > int (length (WaitListHead sem))") (simp_all add: max_def split: if_splits)
    have "KeReleaseSemaphore (Some d) n now s =
      bind_outcome (flatten_loop (wake_waiters d (Some n) s)) (\<lambda>(permits, s).
        deref (Dispatchers s d) (\<lambda>sem.
        let s = set_dispatcher d (sem\<lparr>SignalState := SignalState sem + the permits\<rparr>) s in
        KiAssertSemaphoreState d s (\<lambda>_.
        if need_schedule s then bind_outcome (KiSchedule now s) (\<lambda>s. Done (EC_SUCCESS, s))
        else Done (EC_SUCCESS, s))))"
      using n(1) nf cnt unfolding ws_def
      by (cases "int (length (WaitListHead sem)) < n") (simp_all add: KeReleaseSemaphore_def a Let_def)
    also have "\<dots> = (if need_schedule s2 then bind_outcome (KiSchedule now s2) (\<lambda>s. Done (EC_SUCCESS, s)) else Done (EC_SUCCESS, s2))"
      using w(1) s1d(1) b by (simp add: flatten_loop_def Let_def sem2_def [symmetric] s2_def [symmetric])
    also have "\<dots> = Done (EC_SUCCESS, s3)" using s3(1) by (simp split: if_splits)
    finally show ?thesis .
  qed
  moreover have "granted s3 \<subseteq> granted s \<union> set (take (nat n) ws)"
  proof -
    have "granted s2 = granted s1" by (rule granted_cong) (simp add: s2_def set_dispatcher_def)
    then show ?thesis using granted_resumed [OF w(4)] s3(6) take by simp
  qed
  moreover have "\<exists>s1 sem2. rest s1 = rest s \<and> DispatcherType sem2 = DISPATCHER_TYPE_SEMAPHORE \<and> rest s3 = rest (set_dispatcher d sem2 s1)"
    using w(3) s3(4) sem(2) by (intro exI [of _ s1] exI [of _ sem2]) (simp add: s2_def sem2_def sem1)
  ultimately show ?thesis using s3(2,3) take unfolding ws_def by auto
qed

lemma KeReleaseSemaphore_spec:
  assumes inv: "sched_inv s" and sem: "Dispatchers s d = Some sem" "DispatcherType sem = DISPATCHER_TYPE_SEMAPHORE"
    and n: "0 < n" "length (WaitListHead sem) < 2 ^ 31"
    and fits: "SignalState sem + max 0 (n - int (length (WaitListHead sem))) \<le> Limit sem"
  shows "\<exists>s'. KeReleaseSemaphore (Some d) n now s = Done (EC_SUCCESS, s') \<and> sched_inv s' \<and>
    woken d (take (nat n) (WaitListHead sem)) s s' \<and>
    Dispatchers s' d = Some (sem\<lparr>SignalState := SignalState sem + max 0 (n - int (length (WaitListHead sem))),
      WaitListHead := drop (nat n) (WaitListHead sem)\<rparr>)"
  using KeReleaseSemaphore_effect [OF assms, of now] by blast


section \<open>Blocking\<close>

definition deadline_arg :: "u64 \<Rightarrow> u64 \<Rightarrow> u64 option" where
  "deadline_arg timeoutNs now = (if timeoutNs = KE_WAIT_INFINITE then None else Some (now + timeoutNs))"

lemma running_current:
  assumes "sched_inv s"
  obtains th where "KThreads s (gCurrentThread s) = Some th" "State th = KTHREAD_STATE_RUNNING"
    "unat (Priority th) < KTHREAD_PRIORITY_COUNT"
proof -
  obtain th where th: "KThreads s (gCurrentThread s) = Some th" "State th = KTHREAD_STATE_RUNNING"
    using sched_invD(6) [OF assms] by blast
  then have "tview_ok (view s) (gCurrentThread s) (tview_of th)" using core_okD(9) [OF sched_invD(5) [OF assms]] by simp
  then show thesis using that th by (simp add: tview_ok_def)
qed

text \<open>From a state whose view is the blocked view, dispatching gives a state that satisfies the invariant.\<close>

lemma block_then_schedule:
  assumes inv: "sched_inv s" and ni: "gCurrentThread s \<noteq> gIdleThread s"
    and d: "\<And>e. d = Some e \<Longrightarrow> \<exists>ob. Dispatchers s e = Some ob \<and> SignalState ob = 0"
    and dl: "\<And>n. deadline = Some n \<Longrightarrow> n \<noteq> 0" "d \<noteq> None \<or> deadline \<noteq> None"
    and v: "view s1 = a_block d deadline (view s)" and r: "rest s1 = rest s"
  shows "\<exists>s2. KiSchedule now s1 = Done s2 \<and> sched_inv s2 \<and> view s2 = a_dispatch (a_block d deadline (view s)) \<and> rest s2 = rest s"
proof -
  obtain th where th: "KThreads s (gCurrentThread s) = Some th" "State th = KTHREAD_STATE_RUNNING" using running_current [OF inv] .
  have "core_ok (a_block d deadline (view s))"
    by (rule a_block_ok [OF sched_invD(5) [OF inv] refl _ _ _ _ dl]) (use th ni d in auto)
  then have c1: "sched_core s1" using v by (simp add: sched_core_def)
  have e1: "dispatch_ready s1" using dispatch_ready_rest [OF r] sched_invD(2) [OF inv] by simp
  have m1: "mutex_ok s1" using mutex_ok_rest [OF r sched_invD(4) [OF inv]] .
  have o1: "objects_ok s1" unfolding objects_ok_def
  proof (intro allI impI)
    fix e ob' assume e: "Dispatchers s1 e = Some ob'"
    obtain ob where ob: "Dispatchers s e = Some ob" "ob' = ob\<lparr>WaitListHead := WaitListHead ob'\<rparr>"
      using rest_dispatcher [OF r e] by blast
    have ok: "object_ok ob" using sched_invD(3) [OF inv] ob(1) by (simp add: objects_ok_def)
    show "object_ok ob'"
    proof (cases "d = Some e")
      case True
      then have "SignalState ob = 0" using d ob(1) by auto
      then have "object_ok (ob\<lparr>WaitListHead := WaitListHead ob'\<rparr>)"
        using ok by (cases "DispatcherType ob") (auto simp: object_ok_def)
      then show ?thesis using ob(2) by simp
    next
      case False
      have "cWL (view s1) e = cWL (view s) e" using v False by (simp add: a_block_def Let_def split: option.splits)
      then have "WaitListHead ob' = WaitListHead ob" using e ob(1) by simp
      then have "ob' = ob" using ob(2) by simp
      then show ?thesis using ok by simp
    qed
  qed
  have "\<exists>x. cTV (view s1) (cCur (view s1)) = Some x \<and> vState x = KTHREAD_STATE_BLOCKED"
    unfolding v by (simp add: a_block_def Let_def)
  then have y: "yielded s1" by (auto simp: yielded_def)
  show ?thesis using KiSchedule_inv [OF c1 e1 o1 m1 y, of now] v r by auto
qed

lemma block_current_spec:
  assumes inv: "sched_inv s" and ni: "gCurrentThread s \<noteq> gIdleThread s"
    and ob: "Dispatchers s d = Some ob" "SignalState ob = 0"
    and dl: "timeoutNs \<noteq> KE_WAIT_INFINITE \<Longrightarrow> now + timeoutNs \<noteq> 0"
  shows "\<exists>s'. block_current d timeoutNs now sw s = Done s' \<and> sched_inv s' \<and>
    view s' = a_dispatch (a_block (Some d) (deadline_arg timeoutNs now) (view s)) \<and> rest s' = rest s"
proof -
  define cur where "cur = gCurrentThread s"
  obtain th where th: "KThreads s cur = Some th" using running_current [OF inv] unfolding cur_def by blast
  define wb where "wb = init_wait_block\<lparr>Dispatcher := Some d,
               DeadlineNs := (if timeoutNs \<noteq> KE_WAIT_INFINITE then now + timeoutNs else 0)\<rparr>"
  define tv where "tv = (cTV (view s))(cur \<mapsto> (tview_of th)\<lparr>vState := KTHREAD_STATE_BLOCKED, vDisp := Some d,
      vDeadline := DeadlineNs wb, vCompleted := False\<rparr>)"
  define s0 where "s0 = s\<lparr>KThreads := (KThreads s)(cur \<mapsto> th\<lparr>WaitBlock := wb\<rparr>),
      Dispatchers := (Dispatchers s)(d \<mapsto> ob\<lparr>WaitListHead := WaitListHead ob @ [cur]\<rparr>)\<rparr>"
  have dls: "deadline_of s0 = vdeadline tv"
    by (auto simp: fun_eq_iff deadline_of_def vdeadline_def s0_def tv_def split: option.splits)
  define s1 where "s1 = s\<lparr>KThreads := (KThreads s)(cur \<mapsto> th\<lparr>WaitBlock := wb, State := KTHREAD_STATE_BLOCKED\<rparr>),
      Dispatchers := (Dispatchers s)(d \<mapsto> ob\<lparr>WaitListHead := WaitListHead ob @ [cur]\<rparr>),
      gTimeoutQueue := (if timeoutNs \<noteq> KE_WAIT_INFINITE then timeout_insert (vdeadline tv) cur (gTimeoutQueue s) else gTimeoutQueue s)\<rparr>"
  have eq: "block_current d timeoutNs now sw s = KiSchedule sw s1"
  proof (cases "timeoutNs = KE_WAIT_INFINITE")
    case True
    have e: "s0\<lparr>KThreads := (KThreads s)(cur \<mapsto> th\<lparr>WaitBlock := wb, State := KTHREAD_STATE_BLOCKED\<rparr>)\<rparr> = s1"
      using True by (simp add: s0_def s1_def)
    show ?thesis using th ob(1) True e [symmetric]
      by (simp add: block_current_def Let_def set_kthread_def set_dispatcher_def set_state_def cur_def [symmetric] s0_def wb_def)
  next
    case False
    have k0: "KiInsertTimeoutQueue_list cur s0 = s0\<lparr>gTimeoutQueue := timeout_insert (vdeadline tv) cur (gTimeoutQueue s)\<rparr>"
      by (simp add: KiInsertTimeoutQueue_list_def dls) (simp add: s0_def)
    have s0': "set_dispatcher d (ob\<lparr>WaitListHead := WaitListHead ob @ [cur]\<rparr>) (set_kthread cur (th\<lparr>WaitBlock := wb\<rparr>) s) = s0"
      by (simp add: s0_def set_kthread_def set_dispatcher_def)
    have "set_state cur KTHREAD_STATE_BLOCKED (KiInsertTimeoutQueue_list cur s0) = Done s1"
      unfolding k0 using False by (simp add: set_state_def set_kthread_def s0_def s1_def)
    then show ?thesis using th ob(1) False s0'
      by (simp add: block_current_def Let_def cur_def [symmetric] wb_def)
  qed
  have tve: "(cTV (view s))(cur \<mapsto> (the (cTV (view s) cur))\<lparr>vState := KTHREAD_STATE_BLOCKED, vDisp := Some d,
      vDeadline := (case deadline_arg timeoutNs now of None \<Rightarrow> 0 | Some n \<Rightarrow> n), vCompleted := False\<rparr>) = tv"
    using th by (simp add: tv_def wb_def deadline_arg_def)
  have v: "view s1 = a_block (Some d) (deadline_arg timeoutNs now) (view s)"
  proof (rule view_eqI)
    show "map_option tview_of (KThreads s1 u) = cTV (a_block (Some d) (deadline_arg timeoutNs now) (view s)) u" for u
      unfolding a_block_def Let_def using tve
      by (simp add: cur_def [symmetric]) (simp add: tv_def s1_def th tview_of_def wb_def init_wait_block_def)
  qed (use tve ob(1) in \<open>simp_all add: a_block_def Let_def s1_def cur_def [symmetric] deadline_arg_def\<close>)
  have r: "rest s1 = rest s" by (rule rest_eqI) (simp_all add: s1_def th ob(1))
  show ?thesis unfolding eq
    by (rule block_then_schedule [OF inv ni _ _ _ v r]) (use ob dl in \<open>auto simp: deadline_arg_def split: if_splits\<close>)
qed

section \<open>Mutexes\<close>

lemma sched_inv_same_view:
  assumes inv: "sched_inv s" and v: "view s' = view s" and e: "dispatch_ready s'" "objects_ok s'" "mutex_ok s'"
  shows "sched_inv s'"
proof -
  obtain th where th: "KThreads s (gCurrentThread s) = Some th" "State th = KTHREAD_STATE_RUNNING" using running_current [OF inv] .
  have "map_option vState (cTV (view s') (cCur (view s'))) = map_option vState (cTV (view s) (cCur (view s)))" using v by simp
  then have "\<exists>th. KThreads s' (gCurrentThread s') = Some th \<and> State th = KTHREAD_STATE_RUNNING"
    using th by (auto simp: option.map_comp comp_def)
  then show ?thesis using v e sched_invD(5) [OF inv] by (simp add: sched_inv_def sched_core_def)
qed

lemma objects_ok_upd:
  "objects_ok s \<Longrightarrow> object_ok ob' \<Longrightarrow> Dispatchers s' = (Dispatchers s)(d \<mapsto> ob') \<Longrightarrow> objects_ok s'"
  by (simp add: objects_ok_def)

text \<open>The owner of one mutex changes, and the counts of the old and the new owner with it.\<close>

definition move_owner :: "disp_ref \<Rightarrow> KDISPATCHER \<Rightarrow> kthread_ref option \<Rightarrow> sched_state \<Rightarrow> sched_state" where
  "move_owner d m new s =
     s\<lparr>KThreads := (\<lambda>t. map_option (\<lambda>th. th\<lparr>OwnedMutexCount :=
        (if OwnerThread m = Some t then OwnedMutexCount th - 1
         else if new = Some t then OwnedMutexCount th + 1 else OwnedMutexCount th)\<rparr>) (KThreads s t)),
       Dispatchers := (Dispatchers s)(d \<mapsto> m\<lparr>OwnerThread := new, SignalState := (if new = None then 1 else 0)\<rparr>)\<rparr>"

lemma owned_moved:
  assumes "Dispatchers s d = Some m" "DispatcherType m = DISPATCHER_TYPE_MUTEX"
  shows "owned (move_owner d m new s) t = (if new = Some t then insert d (owned s t) else owned s t - {d})"
  using assms by (auto simp: owned_def move_owner_def)

lemma unat_lt2p32: "unat c < 2 ^ 32" for c :: u32
  by (rule order_less_le_trans [OF unsigned_less]) simp

lemma unat_count_suc: "unat (c + 1) = unat c + 1" if "c \<noteq> 0xFFFFFFFF" for c :: u32
proof -
  have "unat c \<noteq> unat (0xFFFFFFFF :: u32)" using that by (metis unat_eqI)
  then have "unat c + 1 < 2 ^ 32" using unat_lt2p32 [of c] by simp
  then show ?thesis by (simp add: unat_word_ariths)
qed

lemma mutex_ok_moved:
  assumes ok: "mutex_ok s" and m: "Dispatchers s d = Some m" "DispatcherType m = DISPATCHER_TYPE_MUTEX"
    and ne: "OwnerThread m \<noteq> new"
    and new: "\<And>t. new = Some t \<Longrightarrow> \<exists>th. KThreads s t = Some th \<and> OwnedMutexCount th \<noteq> 0xFFFFFFFF"
  shows "mutex_ok (move_owner d m new s)"
  unfolding mutex_ok_def
proof (intro conjI allI impI)
  define s' where "s' = move_owner d m new s"
  have K: "KThreads s' t = map_option (\<lambda>th. th\<lparr>OwnedMutexCount :=
        (if OwnerThread m = Some t then OwnedMutexCount th - 1
         else if new = Some t then OwnedMutexCount th + 1 else OwnedMutexCount th)\<rparr>) (KThreads s t)" for t
    by (simp add: s'_def move_owner_def)
  have fin: "finite (owned s t)" for t
    using ok by (auto simp: mutex_ok_def owned_def intro: finite_subset [of _ "dom (Dispatchers s)"])
  have din: "d \<in> owned s t \<longleftrightarrow> OwnerThread m = Some t" for t using m by (auto simp: owned_def)
  show "finite (dom (Dispatchers (move_owner d m new s)))" using ok by (simp add: move_owner_def mutex_ok_def)
  fix t
  show "unat (OwnedMutexCount th') = card (owned (move_owner d m new s) t)" if t: "KThreads (move_owner d m new s) t = Some th'" for th'
  proof -
    obtain th where th: "KThreads s t = Some th" "th' = th\<lparr>OwnedMutexCount :=
        (if OwnerThread m = Some t then OwnedMutexCount th - 1
         else if new = Some t then OwnedMutexCount th + 1 else OwnedMutexCount th)\<rparr>" using t K unfolding s'_def by auto
    have c: "unat (OwnedMutexCount th) = card (owned s t)" using ok th(1) by (simp add: mutex_ok_def)
    consider "OwnerThread m = Some t" | "new = Some t" "OwnerThread m \<noteq> Some t" | "new \<noteq> Some t" "OwnerThread m \<noteq> Some t" by blast
    then show ?thesis
    proof cases
      case 1
      then have "card (owned s t) > 0" using din fin by (auto simp: card_gt_0_iff)
      then have "OwnedMutexCount th \<noteq> 0" using c by auto
      then have "unat (OwnedMutexCount th - 1) = unat (OwnedMutexCount th) - 1" by (simp add: unat_minus_one)
      moreover have "card (owned s t - {d}) = card (owned s t) - 1" using 1 din fin by (simp add: card_Diff_singleton)
      ultimately show ?thesis using 1 ne th(2) c owned_moved [OF m] by auto
    next
      case 2
      have "OwnedMutexCount th \<noteq> 0xFFFFFFFF" using new [OF 2(1)] th(1) by auto
      then have "unat (OwnedMutexCount th + 1) = unat (OwnedMutexCount th) + 1"
        by (rule unat_count_suc)
      moreover have "card (insert d (owned s t)) = card (owned s t) + 1" using 2 din fin by simp
      ultimately show ?thesis using 2 th(2) c owned_moved [OF m] by auto
    next
      case 3
      then have "owned s t - {d} = owned s t" using din by blast
      then show ?thesis using 3 th(2) c owned_moved [OF m] by simp
    qed
  qed
  show "KThreads (move_owner d m new s) t \<noteq> None" if "owned (move_owner d m new s) t \<noteq> {}"
  proof (cases "new = Some t")
    case True
    then show ?thesis using new K unfolding s'_def by auto
  next
    case False
    then have "owned s t \<noteq> {}" using that owned_moved [OF m] by auto
    then show ?thesis using ok K unfolding s'_def by (simp add: mutex_ok_def)
  qed
qed

lemma move_owner_frame:
  assumes "Dispatchers s d = Some m"
  shows "view (move_owner d m new s) = view s" "dispatch_ready (move_owner d m new s) = dispatch_ready s"
proof -
  show "view (move_owner d m new s) = view s"
    by (rule view_eqI) (auto simp: move_owner_def assms tview_of_def option.map_comp comp_def intro: option.map_cong)
  show "dispatch_ready (move_owner d m new s) = dispatch_ready s" by (simp add: dispatch_ready_def move_owner_def)
qed

lemma move_owner_inv:
  assumes inv: "sched_inv s" and m: "Dispatchers s d = Some m" "DispatcherType m = DISPATCHER_TYPE_MUTEX"
    and ne: "OwnerThread m \<noteq> new" and wl: "new = None \<Longrightarrow> WaitListHead m = []"
    and new: "\<And>t. new = Some t \<Longrightarrow> \<exists>th. KThreads s t = Some th \<and> OwnedMutexCount th \<noteq> 0xFFFFFFFF"
  shows "sched_inv (move_owner d m new s)"
proof (rule sched_inv_same_view [OF inv])
  show "view (move_owner d m new s) = view s" "dispatch_ready (move_owner d m new s)"
    using move_owner_frame [OF m(1)] sched_invD(2) [OF inv] by simp_all
  have "object_ok m" using sched_invD(3) [OF inv] m(1) by (simp add: objects_ok_def)
  then have "object_ok (m\<lparr>OwnerThread := new, SignalState := (if new = None then 1 else 0)\<rparr>)"
    using m(2) wl by (auto simp: object_ok_def)
  then show "objects_ok (move_owner d m new s)"
    using objects_ok_upd [OF sched_invD(3) [OF inv]] by (simp add: move_owner_def)
  show "mutex_ok (move_owner d m new s)" by (rule mutex_ok_moved [OF sched_invD(4) [OF inv] m ne new])
qed

text \<open>A mutex and its waiters: a signalled mutex has none, and no waiter is the owner.\<close>

lemma mutex_state:
  assumes "sched_inv s" "Dispatchers s d = Some m" "DispatcherType m = DISPATCHER_TYPE_MUTEX"
  shows "KiAssertMutexState d s k = k m" "SignalState m = 0 \<longleftrightarrow> OwnerThread m \<noteq> None"
    "SignalState m = 0 \<or> SignalState m = 1"
proof -
  have ok: "object_ok m" using sched_invD(3) [OF assms(1)] assms(2) by (simp add: objects_ok_def)
  then show "KiAssertMutexState d s k = k m" "SignalState m = 0 \<longleftrightarrow> OwnerThread m \<noteq> None"
    "SignalState m = 0 \<or> SignalState m = 1"
    using assms(2,3) by (auto simp: KiAssertMutexState_def object_ok_def)
qed

lemma owner_live:
  assumes "sched_inv s" "Dispatchers s d = Some m" "DispatcherType m = DISPATCHER_TYPE_MUTEX" "OwnerThread m = Some t"
  obtains th where "KThreads s t = Some th" "OwnedMutexCount th \<noteq> 0"
proof -
  have din: "d \<in> owned s t" using assms(2-4) by (auto simp: owned_def)
  have mx: "mutex_ok s" using sched_invD(4) [OF assms(1)] .
  then obtain th where th: "KThreads s t = Some th" using din by (fastforce simp: mutex_ok_def)
  have "finite (owned s t)"
    using mx by (auto simp: mutex_ok_def owned_def intro: finite_subset [of _ "dom (Dispatchers s)"])
  then have "card (owned s t) > 0" using din by (auto simp: card_gt_0_iff)
  moreover have "unat (OwnedMutexCount th) = card (owned s t)" using mx th by (simp add: mutex_ok_def)
  ultimately have "OwnedMutexCount th \<noteq> 0" by auto
  then show thesis using that th by blast
qed

lemma KiAcquireMutexOwnership_moves:
  assumes inv: "sched_inv s" and m: "Dispatchers s d = Some m" "DispatcherType m = DISPATCHER_TYPE_MUTEX" "OwnerThread m = None"
    and t: "KThreads s t = Some th" "OwnedMutexCount th \<noteq> 0xFFFFFFFF"
  shows "KiAcquireMutexOwnership d t s = Done (move_owner d m (Some t) s)"
proof -
  have sig: "SignalState m = 1" using mutex_state(2,3) [OF inv m(1,2)] m(3) by auto
  have inv': "sched_inv (move_owner d m (Some t) s)" by (rule move_owner_inv [OF inv m(1,2)]) (use m(3) t in auto)
  have d': "Dispatchers (move_owner d m (Some t) s) d = Some (m\<lparr>OwnerThread := Some t, SignalState := 0\<rparr>)"
    by (simp add: move_owner_def)
  have e: "set_kthread t (th\<lparr>OwnedMutexCount := OwnedMutexCount th + 1\<rparr>) (set_dispatcher d (m\<lparr>OwnerThread := Some t, SignalState := 0\<rparr>) s)
      = move_owner d m (Some t) s"
    by (rule sched_state.equality) (auto simp: set_kthread_def set_dispatcher_def move_owner_def fun_eq_iff option.map_ident t(1) m(3) split: option.split)
  have "KiIncrementOwnedMutexCount t (set_dispatcher d (m\<lparr>OwnerThread := Some t, SignalState := 0\<rparr>) s) = Done (move_owner d m (Some t) s)"
    using t by (simp add: KiIncrementOwnedMutexCount_def e) (simp add: set_dispatcher_def e [symmetric])
  then show ?thesis using sig m(3) mutex_state(1) [OF inv' d'] m(2)
    by (simp add: KiAcquireMutexOwnership_def mutex_state(1) [OF inv m(1,2)])
qed

lemma KiReleaseMutexOwnership_moves:
  assumes inv: "sched_inv s" and m: "Dispatchers s d = Some m" "DispatcherType m = DISPATCHER_TYPE_MUTEX" "OwnerThread m = Some t"
    and wl: "WaitListHead m = []"
  shows "KiReleaseMutexOwnership d s = Done (move_owner d m None s)"
proof -
  obtain th where th: "KThreads s t = Some th" "OwnedMutexCount th \<noteq> 0" using owner_live [OF inv m] .
  have inv': "sched_inv (move_owner d m None s)" by (rule move_owner_inv [OF inv m(1,2)]) (use m(3) wl in auto)
  have d': "Dispatchers (move_owner d m None s) d = Some (m\<lparr>OwnerThread := None, SignalState := 1\<rparr>)"
    by (simp add: move_owner_def)
  have e: "set_dispatcher d (m\<lparr>OwnerThread := None, SignalState := 1\<rparr>) (set_kthread t (th\<lparr>OwnedMutexCount := OwnedMutexCount th - 1\<rparr>) s)
      = move_owner d m None s"
    by (rule sched_state.equality) (auto simp: set_kthread_def set_dispatcher_def move_owner_def fun_eq_iff option.map_ident th(1) m(3) split: option.split)
  show ?thesis using mutex_state(1) [OF inv' d'] m(2,3) th
    by (simp add: KiReleaseMutexOwnership_def mutex_state(1) [OF inv m(1,2)] KiDecrementOwnedMutexCount_def Let_def e)
qed

lemma KiHandOffMutexOwnership_moves:
  assumes inv: "sched_inv s" and m: "Dispatchers s d = Some m" "DispatcherType m = DISPATCHER_TYPE_MUTEX" "OwnerThread m = Some t"
    and u: "KThreads s u = Some uh" "OwnedMutexCount uh \<noteq> 0xFFFFFFFF" "u \<noteq> t"
  shows "KiHandOffMutexOwnership d u s = Done (move_owner d m (Some u) s)"
proof -
  obtain th where th: "KThreads s t = Some th" "OwnedMutexCount th \<noteq> 0" using owner_live [OF inv m] .
  have inv': "sched_inv (move_owner d m (Some u) s)" by (rule move_owner_inv [OF inv m(1,2)]) (use m(3) u in auto)
  have d': "Dispatchers (move_owner d m (Some u) s) d = Some (m\<lparr>OwnerThread := Some u, SignalState := 0\<rparr>)"
    by (simp add: move_owner_def)
  have e: "set_kthread u (uh\<lparr>OwnedMutexCount := OwnedMutexCount uh + 1\<rparr>)
     (set_dispatcher d (m\<lparr>OwnerThread := Some u, SignalState := 0\<rparr>) (set_kthread t (th\<lparr>OwnedMutexCount := OwnedMutexCount th - 1\<rparr>) s))
      = move_owner d m (Some u) s"
    by (rule sched_state.equality) (use u(3) in \<open>auto simp: set_kthread_def set_dispatcher_def move_owner_def fun_eq_iff option.map_ident th(1) u(1) m(3) split: option.split\<close>)
  have "KiIncrementOwnedMutexCount u (set_dispatcher d (m\<lparr>OwnerThread := Some u, SignalState := 0\<rparr>)
      (set_kthread t (th\<lparr>OwnedMutexCount := OwnedMutexCount th - 1\<rparr>) s)) = Done (move_owner d m (Some u) s)"
    unfolding e [symmetric] using u by (simp add: KiIncrementOwnedMutexCount_def set_dispatcher_def set_kthread_def)
  then show ?thesis using mutex_state(1) [OF inv' d'] m(2,3) th u(3)
    by (simp add: KiHandOffMutexOwnership_def mutex_state(1) [OF inv m(1,2)] KiDecrementOwnedMutexCount_def)
qed

lemma KeReleaseMutex_not_owner:
  assumes "sched_inv s" "Dispatchers s d = Some m" "DispatcherType m = DISPATCHER_TYPE_MUTEX"
    and "OwnerThread m \<noteq> Some (gCurrentThread s)"
  shows "KeReleaseMutex (Some d) s = Done (EC_INVALID_STATE, s)"
  using assms(4) by (simp add: KeReleaseMutex_def mutex_state(1) [OF assms(1-3)])

lemma KeReleaseMutex_free:
  assumes inv: "sched_inv s" and m: "Dispatchers s d = Some m" "DispatcherType m = DISPATCHER_TYPE_MUTEX"
    "OwnerThread m = Some (gCurrentThread s)" and wl: "WaitListHead m = []"
  shows "KeReleaseMutex (Some d) s = Done (EC_SUCCESS, move_owner d m None s)" "sched_inv (move_owner d m None s)"
proof -
  show "KeReleaseMutex (Some d) s = Done (EC_SUCCESS, move_owner d m None s)"
    using m(3) wl by (simp add: KeReleaseMutex_def mutex_state(1) [OF inv m(1,2)] KiReleaseMutexOwnership_moves [OF inv m wl])
  show "sched_inv (move_owner d m None s)" by (rule move_owner_inv [OF inv m(1,2)]) (use m(3) wl in auto)
qed

lemma sched_inv_wake:
  assumes inv: "sched_inv s" and th: "KThreads s t = Some th" "State th = KTHREAD_STATE_BLOCKED"
    and v: "view s' = a_wake t (view s)" and r: "rest s' = rest s"
  shows "sched_inv s'"
proof -
  obtain cur where cur: "KThreads s (gCurrentThread s) = Some cur" "State cur = KTHREAD_STATE_RUNNING" using running_current [OF inv] .
  then have "t \<noteq> gCurrentThread s" using th by auto
  then have "cTV (view s') (cCur (view s')) = cTV (view s) (cCur (view s))" unfolding v by (simp add: a_wake_def Let_def)
  then have "map_option vState (cTV (view s') (cCur (view s'))) = map_option vState (cTV (view s) (cCur (view s)))" by simp
  then have "\<exists>th. KThreads s' (gCurrentThread s') = Some th \<and> State th = KTHREAD_STATE_RUNNING"
    using cur by (auto simp: option.map_comp comp_def)
  moreover have "core_ok (view s')" unfolding v by (rule a_wake_ok [OF sched_invD(5) [OF inv]]) (use th in auto)
  moreover have "objects_ok s'" by (rule objects_ok_rest [OF r sched_invD(3) [OF inv]]) (simp add: v wl_sub_wake)
  ultimately show ?thesis using dispatch_ready_rest [OF r] mutex_ok_rest [OF r] sched_invD(2,4) [OF inv]
    by (simp add: sched_inv_def sched_core_def)
qed

text \<open>Hand-off: the oldest waiter owns the mutex before it runs, so no other thread can take it.\<close>

lemma KeReleaseMutex_handoff_effect:
  assumes inv: "sched_inv s" and m: "Dispatchers s d = Some m" "DispatcherType m = DISPATCHER_TYPE_MUTEX"
    "OwnerThread m = Some (gCurrentThread s)" and wl: "WaitListHead m = u # ws"
    and cnt: "\<And>uh. KThreads s u = Some uh \<Longrightarrow> OwnedMutexCount uh \<noteq> 0xFFFFFFFF"
  shows "\<exists>s'. KeReleaseMutex (Some d) s = Done (EC_SUCCESS, s') \<and> sched_inv s' \<and> view s' = a_wake u (view s) \<and>
    Dispatchers s' d = Some (m\<lparr>OwnerThread := Some u, SignalState := 0, WaitListHead := ws\<rparr>) \<and> wait_resumed u s' = Done EC_SUCCESS \<and>
    rest s' = rest (move_owner d m (Some u) s) \<and> granted s' \<subseteq> granted s \<union> {u}"
proof -
  obtain uh where u: "KThreads s u = Some uh" "State uh = KTHREAD_STATE_BLOCKED" "Dispatcher (WaitBlock uh) = Some d"
    using core_okD(8) [OF sched_invD(5) [OF inv], of d "u # ws" u] m(1) wl by auto
  have ne: "u \<noteq> gCurrentThread s" using current_not_waiting [OF inv m(1)] wl by auto
  define s1 where "s1 = move_owner d m (Some u) s"
  have h: "KiHandOffMutexOwnership d u s = Done s1" unfolding s1_def
    by (rule KiHandOffMutexOwnership_moves [OF inv m u(1) cnt [OF u(1)] ne])
  have i1: "sched_inv s1" unfolding s1_def by (rule move_owner_inv [OF inv m(1,2)]) (use m(3) u cnt ne in auto)
  have v1: "view s1 = view s" unfolding s1_def by (rule move_owner_frame [OF m(1)])
  have d1: "Dispatchers s1 d = Some (m\<lparr>OwnerThread := Some u, SignalState := 0\<rparr>)" by (simp add: s1_def move_owner_def)
  obtain uh1 where u1: "KThreads s1 u = Some uh1" "State uh1 = KTHREAD_STATE_BLOCKED"
    using u by (simp add: s1_def move_owner_def)
  obtain s2 where s2: "KiCompleteWait u EC_SUCCESS s1 = Done s2" "view s2 = a_wake u (view s1)" "rest s2 = rest s1"
    "wait_resumed u s2 = Done EC_SUCCESS" "\<forall>w. w \<noteq> u \<longrightarrow> KThreads s2 w = KThreads s1 w"
    using KiCompleteWait_wake [OF sched_invD(1) [OF i1] u1] by blast
  have "cWL (view s2) d = Some ws" unfolding s2(2) v1 using u m(1) wl by (simp add: a_wake_def Let_def)
  then obtain ob where ob: "Dispatchers s2 d = Some ob" "WaitListHead ob = ws" by auto
  then have "Dispatchers s2 d = Some (m\<lparr>OwnerThread := Some u, SignalState := 0, WaitListHead := ws\<rparr>)"
    using rest_dispatcher [OF s2(3) ob(1)] d1 by fastforce
  moreover have "KeReleaseMutex (Some d) s = Done (EC_SUCCESS, s2)"
    using m(3) wl h s2(1) by (simp add: KeReleaseMutex_def mutex_state(1) [OF inv m(1,2)])
  moreover have "granted s2 \<subseteq> granted s \<union> {u}"
  proof -
    have "granted s1 = granted s" by (rule granted_cong) (simp add: s1_def move_owner_def option.map_comp comp_def)
    then show ?thesis using granted_resumed [of EC_SUCCESS "[u]" s1 s2] s2(4,5) by (simp add: resumed_def)
  qed
  ultimately show ?thesis using sched_inv_wake [OF i1 u1 s2(2,3)] s2(2,3,4) v1 by (auto simp: s1_def)
qed

lemma KeReleaseMutex_handoff:
  assumes inv: "sched_inv s" and m: "Dispatchers s d = Some m" "DispatcherType m = DISPATCHER_TYPE_MUTEX"
    "OwnerThread m = Some (gCurrentThread s)" and wl: "WaitListHead m = u # ws"
    and cnt: "\<And>uh. KThreads s u = Some uh \<Longrightarrow> OwnedMutexCount uh \<noteq> 0xFFFFFFFF"
  shows "\<exists>s'. KeReleaseMutex (Some d) s = Done (EC_SUCCESS, s') \<and> sched_inv s' \<and> view s' = a_wake u (view s) \<and>
    Dispatchers s' d = Some (m\<lparr>OwnerThread := Some u, SignalState := 0, WaitListHead := ws\<rparr>) \<and> wait_resumed u s' = Done EC_SUCCESS"
  using KeReleaseMutex_handoff_effect [OF assms] by blast


section \<open>Waiting\<close>

definition blocking_allowed :: "sched_state \<Rightarrow> bool" where
  "blocking_allowed s \<longleftrightarrow> gCurrentThread s \<noteq> gIdleThread s \<and>
     (\<exists>th. KThreads s (gCurrentThread s) = Some th \<and> CurrentLevel (IrqlState th) = KE_IRQL_PASSIVE_LEVEL)"

lemma blocking_allowed_assert: "blocking_allowed s \<Longrightarrow> KiAssertBlockingAllowed s k = k"
  by (auto simp: blocking_allowed_def KiAssertBlockingAllowed_def)

text \<open>An object can be taken at once when it is signalled; taking an event leaves it signalled.\<close>

definition taken :: "disp_ref \<Rightarrow> KDISPATCHER \<Rightarrow> sched_state \<Rightarrow> sched_state" where
  "taken d ob s =
    (case DispatcherType ob of
       DISPATCHER_TYPE_SEMAPHORE \<Rightarrow> set_dispatcher d (ob\<lparr>SignalState := SignalState ob - 1\<rparr>) s
     | DISPATCHER_TYPE_MUTEX \<Rightarrow> move_owner d ob (Some (gCurrentThread s)) s
     | _ \<Rightarrow> s)"

lemma object_okD:
  assumes "sched_inv s" "Dispatchers s d = Some ob"
  shows "object_ok ob" "KiValidateDispatcherHeader (Some ob) = EC_SUCCESS"
proof -
  show "object_ok ob" using sched_invD(3) [OF assms(1)] assms(2) by (simp add: objects_ok_def)
  then show "KiValidateDispatcherHeader (Some ob) = EC_SUCCESS"
    by (cases "DispatcherType ob") (simp_all add: object_ok_def KiValidateDispatcherHeader_def)
qed

lemma wait_signalled:
  assumes inv: "sched_inv s" and b: "blocking_allowed s" and ob: "Dispatchers s d = Some ob" "SignalState ob \<noteq> 0"
    and cnt: "\<And>th. KThreads s (gCurrentThread s) = Some th \<Longrightarrow> OwnedMutexCount th \<noteq> 0xFFFFFFFF"
  shows "KeWaitForSingleObject (Some d) timeoutNs now sw s = Done (Returned EC_SUCCESS, taken d ob s)"
    "sched_inv (taken d ob s)"
proof -
  obtain th where th: "KThreads s (gCurrentThread s) = Some th" using running_current [OF inv] .
  note ok = object_okD [OF inv ob(1)]
  have "KiTryAcquireDispatcherObject d (gCurrentThread s) s = Done (Inr True, taken d ob s) \<and> sched_inv (taken d ob s)"
  proof (cases "DispatcherType ob")
    case DISPATCHER_TYPE_EVENT
    then show ?thesis using ob inv by (simp add: KiTryAcquireDispatcherObject_def taken_def)
  next
    case DISPATCHER_TYPE_SEMAPHORE
    define s1 where "s1 = set_dispatcher d (ob\<lparr>SignalState := SignalState ob - 1\<rparr>) s"
    have ok1: "object_ok (ob\<lparr>SignalState := SignalState ob - 1\<rparr>)"
      using ok(1) ob(2) DISPATCHER_TYPE_SEMAPHORE by (auto simp: object_ok_def)
    have "sched_inv s1"
    proof (rule sched_inv_same_view [OF inv])
      show "view s1 = view s" unfolding s1_def by (rule view_set_dispatcher [OF ob(1)]) simp
      show "dispatch_ready s1" using sched_invD(2) [OF inv] by (simp add: s1_def)
      show "objects_ok s1" using objects_ok_upd [OF sched_invD(3) [OF inv] ok1] by (simp add: s1_def set_dispatcher_def)
      show "mutex_ok s1" unfolding s1_def by (rule mutex_ok_set_dispatcher [OF sched_invD(4) [OF inv] ob(1)]) simp_all
    qed
    then show ?thesis using ob ok(1) DISPATCHER_TYPE_SEMAPHORE
      by (auto simp: KiTryAcquireDispatcherObject_def taken_def KiAssertSemaphoreState_def object_ok_def s1_def)
  next
    case DISPATCHER_TYPE_MUTEX
    note ms = mutex_state [OF inv ob(1) DISPATCHER_TYPE_MUTEX]
    have on: "OwnerThread ob = None" using ms(2) ob(2) by simp
    have "sched_inv (move_owner d ob (Some (gCurrentThread s)) s)"
      by (rule move_owner_inv [OF inv ob(1) DISPATCHER_TYPE_MUTEX]) (use on th cnt in auto)
    then show ?thesis using ob on DISPATCHER_TYPE_MUTEX
        KiAcquireMutexOwnership_moves [OF inv ob(1) DISPATCHER_TYPE_MUTEX on th cnt [OF th]]
      by (simp add: KiTryAcquireDispatcherObject_def taken_def ms(1))
  qed (use ok(1) in \<open>simp add: object_ok_def\<close>)
  then show "KeWaitForSingleObject (Some d) timeoutNs now sw s = Done (Returned EC_SUCCESS, taken d ob s)" "sched_inv (taken d ob s)"
    using ob(1) ok(2) b by (simp_all add: KeWaitForSingleObject_def blocking_allowed_assert blocking_allowed_def)
qed

lemma try_acquire_fails:
  assumes inv: "sched_inv s" and ob: "Dispatchers s d = Some ob" "SignalState ob = 0"
    and own: "DispatcherType ob \<noteq> DISPATCHER_TYPE_MUTEX \<or> OwnerThread ob \<noteq> Some t"
  shows "KiTryAcquireDispatcherObject d t s = Done (Inr False, s)"
proof -
  note ok = object_okD(1) [OF inv ob(1)]
  show ?thesis
  proof (cases "DispatcherType ob")
    case DISPATCHER_TYPE_MUTEX
    then show ?thesis using ob own by (simp add: KiTryAcquireDispatcherObject_def mutex_state(1) [OF inv ob(1)])
  qed (use ob ok in \<open>auto simp: KiTryAcquireDispatcherObject_def KiAssertSemaphoreState_def object_ok_def\<close>)
qed

lemma wait_poll:
  assumes inv: "sched_inv s" and b: "blocking_allowed s" and ob: "Dispatchers s d = Some ob" "SignalState ob = 0"
    and own: "DispatcherType ob \<noteq> DISPATCHER_TYPE_MUTEX \<or> OwnerThread ob \<noteq> Some (gCurrentThread s)"
  shows "KeWaitForSingleObject (Some d) 0 now sw s = Done (Returned EC_TIMEOUT, s)"
  using try_acquire_fails [OF inv ob own] object_okD [OF inv ob(1)] b ob
  by (simp add: KeWaitForSingleObject_def blocking_allowed_assert blocking_allowed_def)

lemma wait_recursive:
  assumes inv: "sched_inv s" and b: "blocking_allowed s" and ob: "Dispatchers s d = Some ob"
    and own: "DispatcherType ob = DISPATCHER_TYPE_MUTEX" "OwnerThread ob = Some (gCurrentThread s)"
  shows "KeWaitForSingleObject (Some d) timeoutNs now sw s = Done (Returned EC_INVALID_STATE, s)"
  using object_okD [OF inv ob] b ob own
  by (simp add: mutex_state(1) [OF inv ob own(1)] KeWaitForSingleObject_def blocking_allowed_assert blocking_allowed_def KiTryAcquireDispatcherObject_def)

lemma wait_blocks:
  assumes inv: "sched_inv s" and b: "blocking_allowed s" and ob: "Dispatchers s d = Some ob" "SignalState ob = 0"
    and own: "DispatcherType ob \<noteq> DISPATCHER_TYPE_MUTEX \<or> OwnerThread ob \<noteq> Some (gCurrentThread s)"
    and t: "timeoutNs \<noteq> 0" "timeoutNs \<noteq> KE_WAIT_INFINITE \<Longrightarrow> now + timeoutNs \<noteq> 0"
  shows "\<exists>s'. KeWaitForSingleObject (Some d) timeoutNs now sw s = Done (Blocked, s') \<and> sched_inv s' \<and>
    view s' = a_dispatch (a_block (Some d) (deadline_arg timeoutNs now) (view s)) \<and> rest s' = rest s"
proof -
  have ni: "gCurrentThread s \<noteq> gIdleThread s" using b by (simp add: blocking_allowed_def)
  obtain s' where s': "block_current d timeoutNs now sw s = Done s'" "sched_inv s'"
    "view s' = a_dispatch (a_block (Some d) (deadline_arg timeoutNs now) (view s))" "rest s' = rest s"
    using block_current_spec [OF inv ni ob t(2)] by blast
  then show ?thesis using try_acquire_fails [OF inv ob own] object_okD [OF inv ob(1)] b ob t(1)
    by (simp add: KeWaitForSingleObject_def blocking_allowed_assert blocking_allowed_def)
qed

section \<open>What blocking changes\<close>

text \<open>Blocking changes the caller's wait block and state, the wait list of the object, and the thread that runs next.\<close>

definition waiting_on :: "disp_ref \<Rightarrow> u64 option \<Rightarrow> KTHREAD \<Rightarrow> KTHREAD" where
  "waiting_on d deadline th = th\<lparr>State := KTHREAD_STATE_BLOCKED,
     WaitBlock := \<lparr>Dispatcher = Some d, DeadlineNs = (case deadline of None \<Rightarrow> 0 | Some n \<Rightarrow> n), CompletionStatus = EC_SUCCESS, Completed = False\<rparr>\<rparr>"

definition blocked_frame :: "disp_ref \<Rightarrow> u64 option \<Rightarrow> sched_state \<Rightarrow> sched_state \<Rightarrow> bool" where
  "blocked_frame d deadline s s' \<longleftrightarrow>
     (\<forall>u. u \<noteq> gCurrentThread s \<and> u \<noteq> gCurrentThread s' \<longrightarrow> KThreads s' u = KThreads s u) \<and>
     gCurrentThread s' \<noteq> gCurrentThread s \<and>
     KThreads s' (gCurrentThread s) = map_option (waiting_on d deadline) (KThreads s (gCurrentThread s)) \<and>
     (\<exists>th th'. KThreads s (gCurrentThread s') = Some th \<and> KThreads s' (gCurrentThread s') = Some th' \<and> same_but_run th th') \<and>
     Dispatchers s' = (Dispatchers s)(d := map_option (\<lambda>ob. ob\<lparr>WaitListHead := WaitListHead ob @ [gCurrentThread s]\<rparr>) (Dispatchers s d))"

lemma a_next_not_running:
  assumes "core_ok v" "cTV v t = Some x" "vState x \<noteq> KTHREAD_STATE_READY" "t \<noteq> cIdle v"
  shows "cCur (a_dispatch v) \<noteq> t"
proof -
  have "fst (a_next v) \<noteq> t"
  proof (cases "find (\<lambda>k. cRQ v k \<noteq> []) (rev [0..<KTHREAD_PRIORITY_COUNT])")
    case None
    then show ?thesis using assms(4) by (simp add: a_next_def)
  next
    case (Some k)
    then have k: "k < KTHREAD_PRIORITY_COUNT" "cRQ v k \<noteq> []" by (simp_all add: find_high_Some)
    then show ?thesis using Some core_okD(3) [OF assms(1) k(1), of "hd (cRQ v k)"] assms(2,3) by (auto simp: a_next_def)
  qed
  then show ?thesis by (cases "a_next v") (simp add: a_dispatch_def)
qed

lemma block_current_frame:
  assumes b: "block_current d timeoutNs now sw s = Done s'" and nc: "gCurrentThread s' \<noteq> gCurrentThread s"
  shows "blocked_frame d (deadline_arg timeoutNs now) s s'"
proof -
  define cur where "cur = gCurrentThread s"
  obtain th ob where th: "KThreads s cur = Some th" and ob: "Dispatchers s d = Some ob"
    using b by (auto simp: block_current_def Let_def deref_Done_iff cur_def)
  define wb where "wb = init_wait_block\<lparr>Dispatcher := Some d, DeadlineNs := (if timeoutNs \<noteq> KE_WAIT_INFINITE then now + timeoutNs else 0)\<rparr>"
  define s1 where "s1 = set_dispatcher d (ob\<lparr>WaitListHead := WaitListHead ob @ [cur]\<rparr>) (set_kthread cur (th\<lparr>WaitBlock := wb\<rparr>) s)"
  define s2 where "s2 = (if timeoutNs \<noteq> KE_WAIT_INFINITE then KiInsertTimeoutQueue_list cur s1 else s1)"
  obtain s3 where s3: "set_state cur KTHREAD_STATE_BLOCKED s2 = Done s3" "KiSchedule sw s3 = Done s'"
    using b th ob unfolding s2_def s1_def wb_def
    by (auto simp: block_current_def Let_def cur_def [symmetric] bind_outcome_Done_iff)
  have k2: "KThreads s2 = (KThreads s)(cur \<mapsto> th\<lparr>WaitBlock := wb\<rparr>)"
    "Dispatchers s2 = (Dispatchers s)(d \<mapsto> ob\<lparr>WaitListHead := WaitListHead ob @ [cur]\<rparr>)"
    by (simp_all add: s2_def s1_def KiInsertTimeoutQueue_list_def set_kthread_def set_dispatcher_def)
  have k3: "KThreads s3 = (KThreads s)(cur \<mapsto> th\<lparr>WaitBlock := wb, State := KTHREAD_STATE_BLOCKED\<rparr>)" "Dispatchers s3 = Dispatchers s2"
    using s3(1) k2 by (auto simp: set_state_def deref_Done_iff set_kthread_def)
  have w: "th\<lparr>WaitBlock := wb, State := KTHREAD_STATE_BLOCKED\<rparr> = waiting_on d (deadline_arg timeoutNs now) th"
    by (simp add: waiting_on_def wb_def init_wait_block_def deadline_arg_def)
  note o = KiSchedule_others [OF s3(2)]
  have "\<exists>x x'. KThreads s (gCurrentThread s') = Some x \<and> KThreads s' (gCurrentThread s') = Some x' \<and> same_but_run x x'"
    using o(3) k3(1) nc by (simp add: cur_def)
  then show ?thesis using o(1,2) k2 k3 w th ob nc by (simp add: blocked_frame_def cur_def)
qed

lemma wait_blocks_exactly:
  assumes inv: "sched_inv s" and b: "blocking_allowed s" and ob: "Dispatchers s d = Some ob" "SignalState ob = 0"
    and own: "DispatcherType ob \<noteq> DISPATCHER_TYPE_MUTEX \<or> OwnerThread ob \<noteq> Some (gCurrentThread s)"
    and t: "timeoutNs \<noteq> 0" "timeoutNs \<noteq> KE_WAIT_INFINITE \<Longrightarrow> now + timeoutNs \<noteq> 0"
  shows "\<exists>s'. KeWaitForSingleObject (Some d) timeoutNs now sw s = Done (Blocked, s') \<and> sched_inv s' \<and>
    view s' = a_dispatch (a_block (Some d) (deadline_arg timeoutNs now) (view s)) \<and> rest s' = rest s \<and>
    blocked_frame d (deadline_arg timeoutNs now) s s'"
proof -
  have ni: "gCurrentThread s \<noteq> gIdleThread s" using b by (simp add: blocking_allowed_def)
  obtain s' where s': "block_current d timeoutNs now sw s = Done s'" "sched_inv s'"
    "view s' = a_dispatch (a_block (Some d) (deadline_arg timeoutNs now) (view s))" "rest s' = rest s"
    using block_current_spec [OF inv ni ob t(2)] by blast
  obtain th where th: "KThreads s (gCurrentThread s) = Some th" "State th = KTHREAD_STATE_RUNNING" using running_current [OF inv] .
  define v where "v = a_block (Some d) (deadline_arg timeoutNs now) (view s)"
  have ok: "core_ok v" unfolding v_def
    by (rule a_block_ok [OF sched_invD(5) [OF inv] refl]) (use th ni ob t in \<open>auto simp: deadline_arg_def split: if_splits\<close>)
  have "cCur (a_dispatch v) \<noteq> gCurrentThread s"
  proof (rule a_next_not_running [OF ok])
    show "cTV v (gCurrentThread s) = Some ((the (cTV (view s) (gCurrentThread s)))\<lparr>vState := KTHREAD_STATE_BLOCKED, vDisp := Some d,
        vDeadline := (case deadline_arg timeoutNs now of None \<Rightarrow> 0 | Some n \<Rightarrow> n), vCompleted := False\<rparr>)"
      by (simp add: v_def a_block_def Let_def)
    show "gCurrentThread s \<noteq> cIdle v" using ni by (simp add: v_def a_block_def Let_def)
  qed simp
  moreover have "cCur (view s') = gCurrentThread s'" by simp
  ultimately have "gCurrentThread s' \<noteq> gCurrentThread s" unfolding s'(3) v_def by simp
  then have f: "blocked_frame d (deadline_arg timeoutNs now) s s'" by (rule block_current_frame [OF s'(1)])
  show ?thesis using s' f try_acquire_fails [OF inv ob own] object_okD [OF inv ob(1)] b ob t(1)
    by (simp add: KeWaitForSingleObject_def blocking_allowed_assert blocking_allowed_def)
qed

end
