(* ===== verification/SchedThreads.thy ===== *)
theory SchedThreads
  imports SchedSync
begin

text \<open>
  Yielding, sleeping, starting, the timer interrupt, and the end of a thread: exit, join, detach and the
  reaper. It also shows what a deadline that wraps to zero does to the timeout sweep.
\<close>

section \<open>Yielding and sleeping\<close>

lemma ready_then:
  assumes inv: "sched_inv s" and t: "KThreads s t = Some th" "t \<noteq> gIdleThread s"
    and st: "State th = KTHREAD_STATE_NEW \<or> State th = KTHREAD_STATE_RUNNING"
  shows "\<exists>s1. bind_outcome (set_state t KTHREAD_STATE_READY s) (ready_insert_tail t) = Done s1 \<and>
    view s1 = a_ready t (view s) \<and> rest s1 = rest s \<and> sched_core s1 \<and> dispatch_ready s1 \<and> objects_ok s1 \<and> mutex_ok s1 \<and>
    gCurrentThread s1 = gCurrentThread s \<and> gNextProgrammedDeadlineNs s1 = gNextProgrammedDeadlineNs s \<and> gClock s1 = gClock s \<and> granted s1 = granted s"
proof -
  have "tview_ok (view s) t (tview_of th)" using core_okD(9) [OF sched_invD(5) [OF inv]] t by simp
  then have p: "KiIsValidThreadPriority (Priority th)" by (simp add: tview_ok_def KiIsValidThreadPriority_def)
  define k where "k = unat (Priority th)"
  define s1 where "s1 = s\<lparr>KThreads := (KThreads s)(t \<mapsto> th\<lparr>State := KTHREAD_STATE_READY\<rparr>),
      gReadyQueues := (gReadyQueues s)(k := gReadyQueues s k @ [t])\<rparr>"
  have c: "bind_outcome (set_state t KTHREAD_STATE_READY s) (ready_insert_tail t) = Done s1"
    using t(1) p by (simp add: set_state_def ready_insert_tail_def set_kthread_def s1_def k_def Let_def)
  have v: "view s1 = a_ready t (view s)"
    by (rule view_eqI) (auto simp: s1_def a_ready_def Let_def t k_def tview_of_def)
  have r: "rest s1 = rest s" by (rule rest_eqI) (simp_all add: s1_def t)
  have "core_ok (view s1)" unfolding v by (rule a_ready_ok [OF sched_invD(5) [OF inv]]) (use t st in auto)
  moreover have "objects_ok s1" by (rule objects_ok_rest [OF r sched_invD(3) [OF inv]]) (simp add: v wl_sub_ready)
  moreover have "granted s1 = granted s" by (rule granted_cong) (simp add: s1_def t(1))
  ultimately show ?thesis using c v r dispatch_ready_rest [OF r] mutex_ok_rest [OF r] sched_invD(2,4) [OF inv]
    by (auto simp: sched_core_def s1_def)
qed

definition a_yield :: "cview \<Rightarrow> cview" where
  "a_yield v = (if \<exists>k < KTHREAD_PRIORITY_COUNT. cRQ v k \<noteq> [] then a_dispatch (a_ready (cCur v) v) else v)"

lemma has_ready_view: "KiHasAnyReadyThread s \<longleftrightarrow> (\<exists>k < KTHREAD_PRIORITY_COUNT. cRQ (view s) k \<noteq> [])"
  by (auto simp: KiHasAnyReadyThread_def list_ex_iff)

lemma stats_frame [simp]: "view (s\<lparr>gStats := x\<rparr>) = view s" "rest (s\<lparr>gStats := x\<rparr>) = rest s"
  by (simp_all add: view_def rest_def)

lemma granted_frame [simp]: "granted (s\<lparr>gStats := x\<rparr>) = granted s" "granted (s\<lparr>gClock := c\<rparr>) = granted s"
  "granted (s\<lparr>gTerminatedList := q\<rparr>) = granted s"
  by (simp_all add: granted_def)

lemma clock_frame:
  "view (s\<lparr>gClock := c\<rparr>) = view s"
  "c\<lparr>InitialCountRegister := 0, InterruptCount := 0\<rparr> = (gClock s)\<lparr>InitialCountRegister := 0, InterruptCount := 0\<rparr> \<Longrightarrow>
     rest (s\<lparr>gClock := c\<rparr>) = rest s"
  by (simp_all add: view_def rest_def)

lemma sched_inv_rest:
  assumes inv: "sched_inv s" and v: "view s' = view s" and r: "rest s' = rest s"
  shows "sched_inv s'"
proof (rule sched_inv_same_view [OF inv v])
  show "dispatch_ready s'" "mutex_ok s'" using dispatch_ready_rest [OF r] mutex_ok_rest [OF r] sched_invD(2,4) [OF inv] by simp_all
  show "objects_ok s'" by (rule objects_ok_rest [OF r sched_invD(3) [OF inv]]) (simp add: v)
qed

lemma preempt_spec:
  assumes inv: "sched_inv s" and ni: "gCurrentThread s \<noteq> gIdleThread s"
    and f: "\<And>s. view (f s) = view s" "\<And>s. rest (f s) = rest s" "\<And>s. granted (f s) = granted s"
  shows "\<exists>s'. bind_outcome (set_state (gCurrentThread s) KTHREAD_STATE_READY s) (\<lambda>s.
      bind_outcome (ready_insert_tail (gCurrentThread s) s) (\<lambda>s. KiSchedule sw (f s))) = Done s' \<and>
    sched_inv s' \<and> view s' = a_dispatch (a_ready (gCurrentThread s) (view s)) \<and> rest s' = rest s \<and> granted s' = granted s"
proof -
  obtain th where th: "KThreads s (gCurrentThread s) = Some th" "State th = KTHREAD_STATE_RUNNING" using running_current [OF inv] .
  obtain s1 where s1: "bind_outcome (set_state (gCurrentThread s) KTHREAD_STATE_READY s) (ready_insert_tail (gCurrentThread s)) = Done s1"
    "view s1 = a_ready (gCurrentThread s) (view s)" "rest s1 = rest s"
    and ok: "sched_core s1" "dispatch_ready s1" "objects_ok s1" "mutex_ok s1" and g1: "granted s1 = granted s"
    using ready_then [OF inv th(1) ni] th(2) by blast
  have e: "bind_outcome (set_state (gCurrentThread s) KTHREAD_STATE_READY s) (\<lambda>s.
      bind_outcome (ready_insert_tail (gCurrentThread s) s) (\<lambda>s. KiSchedule sw (f s))) = KiSchedule sw (f s1)"
    using s1(1) th(1) by (auto simp: set_state_def set_kthread_def)
  have fr: "rest (f s1) = rest s1" and fv: "view (f s1) = view s1" using f by auto
  have fok: "sched_core (f s1)" "dispatch_ready (f s1)" "objects_ok (f s1)" "mutex_ok (f s1)"
    using ok dispatch_ready_rest [OF fr] mutex_ok_rest [OF fr ok(4)] objects_ok_rest [OF fr ok(3)] fv by (simp_all add: sched_core_def)
  have "\<exists>x. cTV (view (f s1)) (cCur (view (f s1))) = Some x \<and> vState x \<noteq> KTHREAD_STATE_RUNNING"
    unfolding fv s1(2) by (simp add: a_ready_def Let_def)
  then have y: "yielded (f s1)" by (auto simp: yielded_def)
  obtain s' where s': "KiSchedule sw (f s1) = Done s'" "sched_inv s'" "view s' = a_dispatch (view (f s1))" "rest s' = rest (f s1)"
    using KiSchedule_inv [OF fok y] by blast
  then show ?thesis unfolding e using granted_schedule [OF s'(1)] fv fr s1(2,3) f(3) g1 by auto
qed

lemma KeYield_spec:
  assumes inv: "sched_inv s" and b: "blocking_allowed s"
  shows "\<exists>s'. KeYield sw s = Done s' \<and> sched_inv s' \<and> view s' = a_yield (view s) \<and> rest s' = rest s \<and> granted s' = granted s"
proof -
  define s0 where "s0 = s\<lparr>gStats := (gStats s)\<lparr>YieldCount := YieldCount (gStats s) + 1\<rparr>\<rparr>"
  have f: "view s0 = view s" "rest s0 = rest s" "gCurrentThread s0 = gCurrentThread s" "gIdleThread s0 = gIdleThread s"
    "granted s0 = granted s" by (simp_all add: s0_def)
  have i0: "sched_inv s0" by (rule sched_inv_rest [OF inv f(1,2)])
  have ni: "gCurrentThread s0 \<noteq> gIdleThread s0" using b f by (simp add: blocking_allowed_def)
  have e: "KeYield sw s = (if \<not> KiHasAnyReadyThread s0 then Done s0 else
      bind_outcome (set_state (gCurrentThread s0) KTHREAD_STATE_READY s0) (\<lambda>s.
      bind_outcome (ready_insert_tail (gCurrentThread s) s) (KiSchedule sw)))"
    by (simp add: KeYield_def blocking_allowed_assert [OF b] Let_def s0_def)
  show ?thesis
  proof (cases "KiHasAnyReadyThread s0")
    case True
    then have r: "\<exists>k < KTHREAD_PRIORITY_COUNT. cRQ (view s) k \<noteq> []" unfolding has_ready_view f .
    show ?thesis using preempt_spec [OF i0 ni, of "\<lambda>s. s" sw] e True r f by (auto simp: a_yield_def)
  next
    case False
    then have "\<not> (\<exists>k < KTHREAD_PRIORITY_COUNT. cRQ (view s) k \<noteq> [])" unfolding has_ready_view f .
    then have "a_yield (view s) = view s" unfolding a_yield_def by (rule if_not_P)
    then show ?thesis using e False i0 f by simp
  qed
qed

lemma KeSleep_spec:
  assumes inv: "sched_inv s" and b: "blocking_allowed s" and t: "durationNs \<noteq> 0" "now + durationNs \<noteq> 0"
  shows "\<exists>s'. KeSleep durationNs now sw s = Done s' \<and> sched_inv s' \<and>
    view s' = a_dispatch (a_block None (Some (now + durationNs)) (view s)) \<and> rest s' = rest s \<and> granted s' \<subseteq> granted s"
proof -
  define cur where "cur = gCurrentThread s"
  obtain th where th: "KThreads s cur = Some th" using running_current [OF inv] unfolding cur_def by blast
  have ni: "gCurrentThread s \<noteq> gIdleThread s" using b by (simp add: blocking_allowed_def)
  define s0 where "s0 = set_kthread cur
     (th\<lparr>WaitBlock := init_wait_block\<lparr>DeadlineNs := now + durationNs\<rparr>, State := KTHREAD_STATE_BLOCKED\<rparr>) s"
  define s1 where "s1 = KiInsertTimeoutQueue_list cur s0"
  have eq: "KeSleep durationNs now sw s = KiSchedule sw s1"
    using t th ni by (simp add: KeSleep_def blocking_allowed_assert [OF b] Let_def s1_def s0_def cur_def)
  define tv where "tv = (cTV (view s))(cur \<mapsto> (the (cTV (view s) cur))\<lparr>vState := KTHREAD_STATE_BLOCKED, vDisp := None,
      vDeadline := now + durationNs, vCompleted := False\<rparr>)"
  have k: "map_option tview_of (KThreads s0 u) = tv u" for u
    using th by (simp add: s0_def set_kthread_def tv_def tview_of_def init_wait_block_def)
  then have dl: "deadline_of s0 = vdeadline tv"
    by (auto simp: fun_eq_iff deadline_of_view vdeadline_def)
  have v: "view s1 = a_block None (Some (now + durationNs)) (view s)"
  proof (rule view_eqI)
    show "map_option tview_of (KThreads s1 u) = cTV (a_block None (Some (now + durationNs)) (view s)) u" for u
      using k [of u] by (simp add: s1_def KiInsertTimeoutQueue_list_def a_block_def Let_def cur_def tv_def)
    show "gTimeoutQueue s1 = cTQ (a_block None (Some (now + durationNs)) (view s))"
      by (simp add: s1_def KiInsertTimeoutQueue_list_def dl a_block_def Let_def cur_def tv_def) (simp add: s0_def set_kthread_def)
  qed (simp_all add: s1_def KiInsertTimeoutQueue_list_def s0_def set_kthread_def a_block_def Let_def)
  have r: "rest s1 = rest s"
    by (rule rest_eqI) (simp_all add: s1_def KiInsertTimeoutQueue_list_def s0_def set_kthread_def th)
  obtain s' where s': "KiSchedule sw s1 = Done s'" "sched_inv s'"
    "view s' = a_dispatch (a_block None (Some (now + durationNs)) (view s))" "rest s' = rest s"
    using block_then_schedule [OF inv ni _ _ _ v r, of sw] t by auto
  have "granted s1 \<subseteq> granted s"
    by (auto simp: granted_def s1_def KiInsertTimeoutQueue_list_def s0_def set_kthread_def init_wait_block_def split: if_splits)
  then show ?thesis unfolding eq using s' granted_schedule [OF s'(1)] by auto
qed

lemma KeThreadStart_spec:
  assumes inv: "sched_inv s" and t: "KThreads s t = Some th" "t \<noteq> gIdleThread s" "State th = KTHREAD_STATE_NEW"
  shows "\<exists>s'. KeThreadStart (Some t) s = Done (EC_SUCCESS, s') \<and> sched_inv s' \<and> view s' = a_ready t (view s) \<and> rest s' = rest s \<and>
    granted s' = granted s"
proof -
  obtain s1 where s1: "bind_outcome (set_state t KTHREAD_STATE_READY s) (ready_insert_tail t) = Done s1"
    "view s1 = a_ready t (view s)" "rest s1 = rest s"
    and ok: "sched_core s1" "dispatch_ready s1" "objects_ok s1" "mutex_ok s1" and g1: "granted s1 = granted s"
    using ready_then [OF inv t(1,2)] t(3) by blast
  define s2 where "s2 = s1\<lparr>gStats := (gStats s1)\<lparr>TotalThreadsCreated := TotalThreadsCreated (gStats s1) + 1,
                                      ActiveThreadCount := ActiveThreadCount (gStats s1) + 1\<rparr>\<rparr>"
  have f2: "view s2 = view s1" "rest s2 = rest s1" by (simp_all add: s2_def)
  have "clock_ok (gClock s2)" using ok(2) dispatch_ready_rest [OF f2(2)] by (simp add: dispatch_ready_def)
  then obtain c where c: "arm_clock (KeClockEventGetMinDeltaNs (gClock s2)) s2 = Done (s2\<lparr>gClock := c\<rparr>)"
    "c\<lparr>InitialCountRegister := 0, InterruptCount := 0\<rparr> = (gClock s2)\<lparr>InitialCountRegister := 0, InterruptCount := 0\<rparr>"
    using arm_clock_ok by blast
  define s3 where "s3 = (if gCurrentThread s2 = gIdleThread s2 \<and> gNextProgrammedDeadlineNs s2 = 0 then s2\<lparr>gClock := c\<rparr> else s2)"
  have f3: "view s3 = a_ready t (view s)" "rest s3 = rest s"
    using f2 s1(2,3) clock_frame [of c s2] c(2) by (simp_all add: s3_def)
  have f4: "gCurrentThread s1 = gCurrentThread s2" "gIdleThread s1 = gIdleThread s2"
    "gNextProgrammedDeadlineNs s1 = gNextProgrammedDeadlineNs s2" by (simp_all add: s2_def)
  have "KeThreadStart (Some t) s = bind_outcome (bind_outcome (set_state t KTHREAD_STATE_READY s) (ready_insert_tail t))
      (\<lambda>s. let s = s\<lparr>gStats := (gStats s)\<lparr>TotalThreadsCreated := TotalThreadsCreated (gStats s) + 1,
                                      ActiveThreadCount := ActiveThreadCount (gStats s) + 1\<rparr>\<rparr> in
              bind_outcome
                (if gCurrentThread s = gIdleThread s \<and> gNextProgrammedDeadlineNs s = 0
                 then arm_clock (KeClockEventGetMinDeltaNs (gClock s)) s else Done s)
                (\<lambda>s. Done (EC_SUCCESS, s)))"
    using t by (simp add: KeThreadStart_def set_state_def)
  also have "\<dots> = Done (EC_SUCCESS, s3)" unfolding s1(1) using c(1) f4 by (simp add: Let_def s2_def [symmetric] s3_def)
  finally have e: "KeThreadStart (Some t) s = Done (EC_SUCCESS, s3)" .
  have "core_ok (view s3)" using ok(1) f3(1) s1(2) by (simp add: sched_core_def)
  moreover have "objects_ok s3" by (rule objects_ok_rest [OF f3(2) sched_invD(3) [OF inv]]) (simp add: f3(1) wl_sub_ready)
  moreover have "\<exists>th. KThreads s3 (gCurrentThread s3) = Some th \<and> State th = KTHREAD_STATE_RUNNING"
  proof -
    obtain cur where cur: "KThreads s (gCurrentThread s) = Some cur" "State cur = KTHREAD_STATE_RUNNING" using running_current [OF inv] .
    then have "t \<noteq> gCurrentThread s" using t by auto
    then have "cTV (view s3) (cCur (view s3)) = cTV (view s) (cCur (view s))" unfolding f3(1) by (simp add: a_ready_def Let_def)
    then have "map_option vState (cTV (view s3) (cCur (view s3))) = map_option vState (cTV (view s) (cCur (view s)))" by simp
    then show ?thesis using cur by (auto simp: option.map_comp comp_def)
  qed
  ultimately have "sched_inv s3"
    using dispatch_ready_rest [OF f3(2)] mutex_ok_rest [OF f3(2)] sched_invD(2,4) [OF inv] by (simp add: sched_inv_def sched_core_def)
  moreover have "granted s3 = granted s" using g1 by (simp add: s3_def s2_def)
  ultimately show ?thesis using e f3 by blast
qed

section \<open>Timeouts and the timer interrupt\<close>

lemma sorted_takeWhile_filter:
  assumes "sorted (map f xs)"
  shows "takeWhile (\<lambda>x. f x \<le> n) xs = filter (\<lambda>x. f x \<le> n) xs"
    "drop (length (takeWhile (\<lambda>x. f x \<le> n) xs)) xs = filter (\<lambda>x. \<not> f x \<le> n) xs"
  using assms
proof (induction xs)
  case (Cons x xs)
  { case 1
    have "filter (\<lambda>x. f x \<le> n) xs = []" if "\<not> f x \<le> n" using 1 that by (fastforce simp: filter_empty_conv)
    then show ?case using Cons.IH(1) 1 by simp }
  { case 2
    have "filter (\<lambda>x. \<not> f x \<le> n) xs = xs" if "\<not> f x \<le> n" using 2 that by (intro filter_True) fastforce
    then show ?case using Cons.IH(2) 2 by simp }
qed simp_all

lemma expired_blocked:
  assumes "sched_inv s" "t \<in> set (gTimeoutQueue s)"
  obtains th where "KThreads s t = Some th" "State th = KTHREAD_STATE_BLOCKED"
  using core_okD(6) [OF sched_invD(5) [OF assms(1)], of t] assms(2) by auto

text \<open>The sweep ends, wakes exactly the threads whose deadline has passed, and leaves the others queued.\<close>

lemma KiWakeTimeouts_exact:
  assumes inv: "sched_inv s"
  shows "\<exists>s'. KiWakeTimeouts now s = Done s' \<and> sched_inv s' \<and>
    gTimeoutQueue s' = filter (\<lambda>t. now < deadline_of s t) (gTimeoutQueue s) \<and>
    view s' = fold a_wake (filter (\<lambda>t. deadline_of s t \<le> now) (gTimeoutQueue s)) (view s) \<and> rest s' = rest s \<and>
    resumed EC_TIMEOUT (filter (\<lambda>t. deadline_of s t \<le> now) (gTimeoutQueue s)) s s'"
proof -
  have so: "sorted (map (deadline_of s) (gTimeoutQueue s))"
    using core_okD(5) [OF sched_invD(5) [OF inv]] by (simp add: deadline_of_view)
  define q where "q = filter (\<lambda>t. deadline_of s t \<le> now) (gTimeoutQueue s)"
  have q: "q = takeWhile (\<lambda>t. deadline_of s t \<le> now) (gTimeoutQueue s)"
    unfolding q_def by (rule sorted_takeWhile_filter(1) [OF so, symmetric])
  obtain s' where s': "wake_timeouts now s = Some (Done s')" "view s' = fold a_wake q (view s)" "rest s' = rest s"
    "sched_core s'" "gTimeoutQueue s' = drop (length q) (gTimeoutQueue s)" "resumed EC_TIMEOUT q s s'"
    using wake_timeouts_fold [OF sched_invD(1) [OF inv] q] by blast
  have "drop (length q) (gTimeoutQueue s) = filter (\<lambda>t. \<not> deadline_of s t \<le> now) (gTimeoutQueue s)"
    unfolding q by (rule sorted_takeWhile_filter(2) [OF so])
  also have "\<dots> = filter (\<lambda>t. now < deadline_of s t) (gTimeoutQueue s)" by (simp only: not_le)
  finally have tq: "gTimeoutQueue s' = filter (\<lambda>t. now < deadline_of s t) (gTimeoutQueue s)" using s'(5) by simp
  obtain cur where cur: "KThreads s (gCurrentThread s) = Some cur" "State cur = KTHREAD_STATE_RUNNING" using running_current [OF inv] .
  have "gCurrentThread s \<notin> set (gTimeoutQueue s)"
  proof
    assume "gCurrentThread s \<in> set (gTimeoutQueue s)"
    then obtain th where "KThreads s (gCurrentThread s) = Some th" "State th = KTHREAD_STATE_BLOCKED" using expired_blocked [OF inv] by blast
    then show False using cur by simp
  qed
  then have "KThreads s' (gCurrentThread s) = KThreads s (gCurrentThread s)" using s'(6) by (simp add: resumed_def q_def)
  moreover have "gCurrentThread s' = gCurrentThread s"
  proof -
    have "cCur (view s') = cCur (view s)" unfolding s'(2) by simp
    then show ?thesis by simp
  qed
  moreover have "objects_ok s'" by (rule objects_ok_rest [OF s'(3) sched_invD(3) [OF inv]]) (simp add: s'(2) wl_sub_fold)
  ultimately have "sched_inv s'"
    using s'(4) cur dispatch_ready_rest [OF s'(3)] mutex_ok_rest [OF s'(3)] sched_invD(2,4) [OF inv] by (auto simp: sched_inv_def)
  then show ?thesis using s' tq by (auto simp: KiWakeTimeouts_def flatten_loop_def q_def)
qed

definition on_interrupt :: "sched_state \<Rightarrow> sched_state" where
  "on_interrupt s = s\<lparr>gClock := KeClockEventOnInterrupt (gClock s)\<rparr>"

lemma on_interrupt_frame: "view (on_interrupt s) = view s" "rest (on_interrupt s) = rest s"
  using clock_frame [of "KeClockEventOnInterrupt (gClock s)" s] by (simp_all add: on_interrupt_def KeClockEventOnInterrupt_def)

definition a_tick :: "u64 \<Rightarrow> bool \<Rightarrow> cview \<Rightarrow> cview" where
  "a_tick now quantumOver v =
    (let v = fold a_wake (filter (\<lambda>t. vdeadline (cTV v) t \<le> now) (cTQ v)) v in
     if cCur v = cIdle v \<and> (\<exists>k < KTHREAD_PRIORITY_COUNT. cRQ v k \<noteq> []) then a_dispatch v
     else if cCur v \<noteq> cIdle v \<and> quantumOver then a_dispatch (a_ready (cCur v) v)
     else v)"

lemma KiSchedulerTimerISR_early:
  assumes inv: "sched_inv s" and en: "gSchedulerEnabled s"
    and early: "gNextProgrammedDeadlineNs s \<noteq> 0" "now < gNextProgrammedDeadlineNs s"
  shows "\<exists>s'. KiSchedulerTimerISR now sw s = Done s' \<and> sched_inv s' \<and> view s' = view s \<and> rest s' = rest s \<and> granted s' = granted s"
proof -
  have ck: "clock_ok (gClock (on_interrupt s))"
    using rest_eqD(7) [OF on_interrupt_frame(2)] sched_invD(2) [OF inv] by (simp add: dispatch_ready_def)
  obtain c where c: "arm_clock (gNextProgrammedDeadlineNs s - now) (on_interrupt s) = Done ((on_interrupt s)\<lparr>gClock := c\<rparr>)"
    "c\<lparr>InitialCountRegister := 0, InterruptCount := 0\<rparr> = (gClock (on_interrupt s))\<lparr>InitialCountRegister := 0, InterruptCount := 0\<rparr>"
    using arm_clock_ok [OF ck] by blast
  have f: "view ((on_interrupt s)\<lparr>gClock := c\<rparr>) = view s" "rest ((on_interrupt s)\<lparr>gClock := c\<rparr>) = rest s"
    using clock_frame [of c "on_interrupt s"] c(2) on_interrupt_frame [of s] by simp_all
  moreover have "KiSchedulerTimerISR now sw s = Done ((on_interrupt s)\<lparr>gClock := c\<rparr>)"
    using en early c(1) by (simp add: KiSchedulerTimerISR_def Let_def on_interrupt_def)
  moreover have "granted ((on_interrupt s)\<lparr>gClock := c\<rparr>) = granted s" by (simp add: on_interrupt_def)
  ultimately show ?thesis using sched_inv_rest [OF inv f] by blast
qed

text \<open>The sweep does not touch the quantum: whether the running thread is preempted is decided before it.\<close>

lemma wait_list_remove_quantum: "wait_list_remove d t s = Done s' \<Longrightarrow> gQuantumDeadlineNs s' = gQuantumDeadlineNs s"
  by (cases d) (auto simp: wait_list_remove_def deref_Done_iff set_dispatcher_def)

lemma set_state_quantum: "set_state t st s = Done s' \<Longrightarrow> gQuantumDeadlineNs s' = gQuantumDeadlineNs s"
  by (auto simp: set_state_def deref_Done_iff set_kthread_def)

lemma ready_insert_tail_quantum: "ready_insert_tail t s = Done s' \<Longrightarrow> gQuantumDeadlineNs s' = gQuantumDeadlineNs s"
  by (auto simp: ready_insert_tail_def deref_Done_iff HO_KASSERT_Done_iff Let_def)

lemma KiCompleteWait_quantum:
  assumes "KiCompleteWait t st s = Done s'"
  shows "gQuantumDeadlineNs s' = gQuantumDeadlineNs s"
proof -
  obtain th where th: "KThreads s t = Some th" using assms by (auto simp: KiCompleteWait_def deref_Done_iff)
  show ?thesis
  proof (cases "Completed (WaitBlock th)")
    case True
    then show ?thesis using assms th by (simp add: KiCompleteWait_def)
  next
    case False
    define s0 where "s0 = set_kthread t (th\<lparr>WaitBlock := (WaitBlock th)\<lparr>Completed := True, CompletionStatus := st\<rparr>\<rparr>) s"
    obtain s1 s2 s3 where w: "wait_list_remove (Dispatcher (WaitBlock th)) t s0 = Done s1"
      "set_state t KTHREAD_STATE_READY (if DeadlineNs (WaitBlock th) \<noteq> 0 then s1\<lparr>gTimeoutQueue := remove1 t (gTimeoutQueue s1)\<rparr> else s1) = Done s2"
      "ready_insert_tail t s2 = Done s3"
      "s' = (if st = EC_TIMEOUT then s3\<lparr>gStats := (gStats s3)\<lparr>SleepWakeCount := SleepWakeCount (gStats s3) + 1\<rparr>\<rparr> else s3)"
      using assms th False by (simp add: KiCompleteWait_def Let_def s0_def [symmetric] bind_outcome_Done_iff) blast
    show ?thesis
      using wait_list_remove_quantum [OF w(1)] set_state_quantum [OF w(2)] ready_insert_tail_quantum [OF w(3)] w(4)
      by (simp add: s0_def set_kthread_def split: if_splits)
  qed
qed

lemma wake_timeouts_quantum:
  assumes "wake_timeouts now s = Some (Done s')"
  shows "gQuantumDeadlineNs s' = gQuantumDeadlineNs s"
proof -
  have "\<forall>s'. r = Done s' \<longrightarrow> gQuantumDeadlineNs s' = gQuantumDeadlineNs s" if "wake_timeouts now s = Some r" for r
  proof (rule wake_timeouts.raw_induct [OF _ that])
    fix f now s r
    assume IH: "\<And>now s r. f now s = Some r \<Longrightarrow> \<forall>s'. r = Done s' \<longrightarrow> gQuantumDeadlineNs s' = gQuantumDeadlineNs s"
      and body: "(case gTimeoutQueue s of [] \<Rightarrow> Some (Done s) | t # _ \<Rightarrow>
         if deadline_of s t > now then Some (Done s)
         else case KiCompleteWait t EC_TIMEOUT s of
                Done s' \<Rightarrow> f now s' | Halt e \<Rightarrow> Some (Halt e) | Diverge \<Rightarrow> Some Diverge | Fault \<Rightarrow> Some Fault) = Some r"
    show "\<forall>s'. r = Done s' \<longrightarrow> gQuantumDeadlineNs s' = gQuantumDeadlineNs s"
    proof (cases "gTimeoutQueue s")
      case (Cons t ts)
      show ?thesis
      proof (cases "KiCompleteWait t EC_TIMEOUT s")
        case (Done s1)
        then show ?thesis using body Cons IH [of now s1 r] KiCompleteWait_quantum [OF Done] by (auto split: if_splits)
      qed (use body Cons in \<open>auto split: if_splits\<close>)
    qed (use body in auto)
  qed
  then show ?thesis using assms by blast
qed

lemma KiSchedulerTimerISR_effect:
  assumes inv: "sched_inv s" and en: "gSchedulerEnabled s"
    and due: "gNextProgrammedDeadlineNs s = 0 \<or> gNextProgrammedDeadlineNs s \<le> now"
  shows "\<exists>s'. KiSchedulerTimerISR now sw s = Done s' \<and> sched_inv s' \<and>
    view s' = a_tick now (gQuantumDeadlineNs s \<le> now) (view s) \<and> rest s' = rest s \<and> granted s' \<subseteq> granted s"
proof -
  define s0 where "s0 = on_interrupt s"
  have i0: "sched_inv s0" unfolding s0_def by (rule sched_inv_rest [OF inv on_interrupt_frame])
  obtain s1 where s1: "KiWakeTimeouts now s0 = Done s1" "sched_inv s1"
    "view s1 = fold a_wake (filter (\<lambda>t. deadline_of s0 t \<le> now) (gTimeoutQueue s0)) (view s0)" "rest s1 = rest s0"
    "resumed EC_TIMEOUT (filter (\<lambda>t. deadline_of s0 t \<le> now) (gTimeoutQueue s0)) s0 s1"
    using KiWakeTimeouts_exact [OF i0] by blast
  have g1: "granted s1 \<subseteq> granted s" using granted_resumed [OF s1(5)] by (simp add: s0_def on_interrupt_def)
  define over where "over = (gQuantumDeadlineNs s \<le> now)"
  have q: "gQuantumDeadlineNs s1 = gQuantumDeadlineNs s"
    using wake_timeouts_quantum [of now s0 s1] s1(1) by (auto simp: KiWakeTimeouts_def flatten_loop_def s0_def on_interrupt_def split: option.splits)
  have v1: "view s1 = fold a_wake (filter (\<lambda>t. vdeadline (cTV (view s)) t \<le> now) (cTQ (view s))) (view s)"
    using s1(3) on_interrupt_frame(1) [of s] unfolding deadline_of_view s0_def by (metis view_simps(2))
  have nd: "\<not> (gNextProgrammedDeadlineNs s \<noteq> 0 \<and> now < gNextProgrammedDeadlineNs s)"
    using due by auto
  have e: "KiSchedulerTimerISR now sw s =
      (if gCurrentThread s1 = gIdleThread s1 \<and> KiHasAnyReadyThread s1 then KiSchedule sw s1
       else if gCurrentThread s1 \<noteq> gIdleThread s1 \<and> now \<ge> gQuantumDeadlineNs s1 then
         bind_outcome (set_state (gCurrentThread s1) KTHREAD_STATE_READY s1) (\<lambda>s.
         bind_outcome (ready_insert_tail (gCurrentThread s) s) (\<lambda>s.
         KiSchedule sw (s\<lparr>gStats := (gStats s)\<lparr>PreemptionCount := PreemptionCount (gStats s) + 1\<rparr>\<rparr>)))
       else KiArmForNextEvent now (gCurrentThread s1) s1)"
    using en nd s1(1) by (cases "gNextProgrammedDeadlineNs s = 0") (simp_all add: KiSchedulerTimerISR_def Let_def s0_def on_interrupt_def)
  have vt: "a_tick now over (view s) =
     (if cCur (view s1) = cIdle (view s1) \<and> (\<exists>k < KTHREAD_PRIORITY_COUNT. cRQ (view s1) k \<noteq> []) then a_dispatch (view s1)
      else if cCur (view s1) \<noteq> cIdle (view s1) \<and> over then a_dispatch (a_ready (cCur (view s1)) (view s1)) else view s1)"
    unfolding a_tick_def Let_def v1 [symmetric] by (rule refl)
  have r: "rest s1 = rest s" using s1(4) on_interrupt_frame(2) s0_def by simp
  consider "gCurrentThread s1 = gIdleThread s1 \<and> KiHasAnyReadyThread s1"
    | "gCurrentThread s1 \<noteq> gIdleThread s1 \<and> over"
    | "\<not> (gCurrentThread s1 = gIdleThread s1 \<and> KiHasAnyReadyThread s1)" "\<not> (gCurrentThread s1 \<noteq> gIdleThread s1 \<and> over)" by blast
  then have "\<exists>s'. KiSchedulerTimerISR now sw s = Done s' \<and> sched_inv s' \<and> view s' = a_tick now over (view s) \<and> rest s' = rest s \<and> granted s' \<subseteq> granted s"
  proof cases
    case 1
    then have "yielded s1" by (simp add: yielded_def)
    then obtain s' where s': "KiSchedule sw s1 = Done s'" "sched_inv s'" "view s' = a_dispatch (view s1)" "rest s' = rest s1"
      using KiSchedule_inv [OF sched_invD(1-4) [OF s1(2)]] by blast
    then show ?thesis using granted_schedule [OF s'(1)] g1 1 e vt r has_ready_view [of s1] by auto
  next
    case 2
    then show ?thesis
      using preempt_spec [OF s1(2), of "\<lambda>s. s\<lparr>gStats := (gStats s)\<lparr>PreemptionCount := PreemptionCount (gStats s) + 1\<rparr>\<rparr>" sw]
        e vt r g1 by (auto simp: over_def q)
  next
    case 3
    obtain cur where cur: "KThreads s1 (gCurrentThread s1) = Some cur" using running_current [OF s1(2)] .
    obtain s2 where s2: "KiArmForNextEvent now (gCurrentThread s1) s1 = Done s2" "view s2 = view s1" "rest s2 = rest s1"
      using KiArmForNextEvent_ok [of s1 "gCurrentThread s1"] cur sched_invD(2) [OF s1(2)] by (auto simp: dispatch_ready_def)
    have "KiSchedulerTimerISR now sw s = Done s2" using e 3 s2(1) by (cases "gCurrentThread s1 = gIdleThread s1") (simp_all add: over_def q)
    moreover have "a_tick now over (view s) = view s1" using vt 3 has_ready_view [of s1] by auto
    ultimately show ?thesis using s2(2,3) r sched_inv_rest [OF s1(2) s2(2,3)] granted_arm [OF s2(1)] g1 by metis
  qed
  then show ?thesis unfolding over_def .
qed

lemma KiSchedulerTimerISR_due:
  assumes inv: "sched_inv s" and en: "gSchedulerEnabled s"
    and due: "gNextProgrammedDeadlineNs s = 0 \<or> gNextProgrammedDeadlineNs s \<le> now"
  shows "\<exists>s'. KiSchedulerTimerISR now sw s = Done s' \<and> sched_inv s' \<and>
    view s' = a_tick now (gQuantumDeadlineNs s \<le> now) (view s) \<and> rest s' = rest s"
  using KiSchedulerTimerISR_effect [OF assms, of sw] by blast

section \<open>Deadlines that wrap\<close>

text \<open>
  A block whose absolute deadline wraps to zero is queued but is not unqueued when its wait completes,
  so the sweep meets the completed block for ever.
\<close>

definition stuck_head :: "u64 \<Rightarrow> sched_state \<Rightarrow> bool" where
  "stuck_head now s \<longleftrightarrow> (\<exists>t ts th. gTimeoutQueue s = t # ts \<and> KThreads s t = Some th \<and> Completed (WaitBlock th) \<and>
     DeadlineNs (WaitBlock th) \<le> now)"

lemma wake_timeouts_stuck:
  assumes "wake_timeouts now s = Some r"
  shows "\<not> stuck_head now s"
proof (rule wake_timeouts.raw_induct [OF _ assms])
  fix f now s r
  assume IH: "\<And>now s r. f now s = Some r \<Longrightarrow> \<not> stuck_head now s"
    and body: "(case gTimeoutQueue s of [] \<Rightarrow> Some (Done s) | t # _ \<Rightarrow>
       if deadline_of s t > now then Some (Done s)
       else case KiCompleteWait t EC_TIMEOUT s of
              Done s' \<Rightarrow> f now s' | Halt e \<Rightarrow> Some (Halt e) | Diverge \<Rightarrow> Some Diverge | Fault \<Rightarrow> Some Fault) = Some r"
  show "\<not> stuck_head now s"
  proof
    assume st: "stuck_head now s"
    then obtain t ts th where q: "gTimeoutQueue s = t # ts" "KThreads s t = Some th" "Completed (WaitBlock th)"
      "\<not> now < DeadlineNs (WaitBlock th)" by (auto simp: stuck_head_def)
    have "f now s = Some r" using body q by (simp add: deadline_of_def KiCompleteWait_again)
    then show False using IH st by blast
  qed
qed

lemma KiWakeTimeouts_stuck: "stuck_head now s \<Longrightarrow> KiWakeTimeouts now s = Diverge"
  using wake_timeouts_stuck [of now s] by (cases "wake_timeouts now s") (auto simp: KiWakeTimeouts_def flatten_loop_def)

section \<open>Thread termination\<close>

definition a_exit :: "cview \<Rightarrow> cview" where
  "a_exit v = v\<lparr>cTV := (cTV v)(cCur v \<mapsto> (the (cTV v (cCur v)))\<lparr>vState := KTHREAD_STATE_TERMINATED\<rparr>)\<rparr>"

lemma running_unqueued:
  assumes "core_ok v" "cTV v t = Some x" "vState x \<noteq> KTHREAD_STATE_READY" "vState x \<noteq> KTHREAD_STATE_BLOCKED"
  shows "k < KTHREAD_PRIORITY_COUNT \<Longrightarrow> t \<notin> set (cRQ v k)" "t \<notin> set (cTQ v)" "cWL v d = Some ws \<Longrightarrow> t \<notin> set ws"
  using core_okD(3) [OF assms(1), of k t] core_okD(6) [OF assms(1), of t] core_okD(8) [OF assms(1), of d ws t] assms(2-) by auto

lemma a_exit_ok:
  assumes ok: "core_ok v" and x: "cTV v (cCur v) = Some x" "vState x = KTHREAD_STATE_RUNNING" and ni: "cCur v \<noteq> cIdle v"
  shows "core_ok (a_exit v)"
proof -
  define v' where "v' = a_exit v"
  define t where "t = cCur v"
  have f: "cRQ v' = cRQ v" "cTQ v' = cTQ v" "cWL v' = cWL v" "cIdle v' = cIdle v" "cCur v' = cCur v"
    "cTV v' = (cTV v)(t \<mapsto> x\<lparr>vState := KTHREAD_STATE_TERMINATED\<rparr>)"
    using x by (simp_all add: v'_def a_exit_def t_def)
  note un = running_unqueued [OF ok x(1), folded t_def]
  show ?thesis unfolding v'_def [symmetric]
  proof (rule core_okI)
    show "distinct (cRQ v' k)" if "k < KTHREAD_PRIORITY_COUNT" for k using core_okD(1) [OF ok that] by (simp add: f)
    show "u \<noteq> cIdle v'" if "k < KTHREAD_PRIORITY_COUNT" "u \<in> set (cRQ v' k)" for k u
      using core_okD(2) [OF ok that(1), of u] that(2) by (simp add: f)
    show "\<exists>y. cTV v' u = Some y \<and> vState y = KTHREAD_STATE_READY \<and> vPrio y = k"
      if "k < KTHREAD_PRIORITY_COUNT" "u \<in> set (cRQ v' k)" for k u
      using core_okD(3) [OF ok that(1), of u] that(2) un(1) [of k] x that(1) by (auto simp: f)
    show "distinct (cTQ v')" using core_okD(4) [OF ok] by (simp add: f)
    show "sorted (map (vdeadline (cTV v')) (cTQ v'))" using core_okD(5) [OF ok] un(2) x by (simp add: f)
    show "\<exists>y. cTV v' u = Some y \<and> vState y = KTHREAD_STATE_BLOCKED \<and> vDeadline y \<noteq> 0" if "u \<in> set (cTQ v')" for u
      using core_okD(6) [OF ok, of u] that un(2) x by (auto simp: f)
    show "distinct ws" if "cWL v' d = Some ws" for d ws using core_okD(7) [OF ok] that by (simp add: f)
    show "\<exists>y. cTV v' u = Some y \<and> vState y = KTHREAD_STATE_BLOCKED \<and> vDisp y = Some d"
      if "cWL v' d = Some ws" "u \<in> set ws" for d ws u
      using core_okD(8) [OF ok, of d ws u] that un(3) [of d ws] x by (auto simp: f)
    show "tview_ok v' u y" if "cTV v' u = Some y" for u y
      using that core_okD(9) [OF ok, of u y] core_okD(9) [OF ok x(1)] by (auto simp: f tview_ok_def split: if_splits)
    show "cTV v' (cIdle v') \<noteq> None" "cTV v' (cCur v') \<noteq> None" using core_okD(10,11) [OF ok] by (auto simp: f)
  qed
qed

text \<open>
  A thread waiting for the reaper or for its joiner: terminated, its completion event published, no
  mutex held, and not the idle thread.
\<close>

definition finished :: "sched_state \<Rightarrow> kthread_ref \<Rightarrow> bool" where
  "finished s t \<longleftrightarrow> t \<noteq> gIdleThread s \<and> (\<exists>th ev. KThreads s t = Some th \<and> State th = KTHREAD_STATE_TERMINATED \<and>
     OwnedMutexCount th = 0 \<and> Dispatchers s (TerminationCompletion t) = Some ev \<and>
     DispatcherType ev = DISPATCHER_TYPE_EVENT \<and> SignalState ev \<noteq> 0)"

lemma core_ok_drop_thread:
  assumes ok: "core_ok v" and x: "cTV v t = Some x" "vState x = KTHREAD_STATE_TERMINATED" and n: "t \<noteq> cIdle v" "t \<noteq> cCur v"
    and e: "cWL v e = Some []"
  shows "core_ok (v\<lparr>cTV := (cTV v)(t := None), cWL := (cWL v)(e := None)\<rparr>)"
proof -
  note un = running_unqueued [OF ok x(1)]
  have m: "map (vdeadline ((cTV v)(t := None))) (cTQ v) = map (vdeadline (cTV v)) (cTQ v)"
    using un(2) x by (intro map_cong) (auto simp: vdeadline_def)
  show ?thesis
  proof (rule core_okI, goal_cases)
    case (1 k) then show ?case using core_okD(1) [OF ok] by simp
  next
    case (2 k u) then show ?case using core_okD(2) [OF ok, of k u] by simp
  next
    case (3 k u) then show ?case using core_okD(3) [OF ok, of k u] un(1) [of k] x by auto
  next
    case 4 then show ?case using core_okD(4) [OF ok] by simp
  next
    case 5 then show ?case using core_okD(5) [OF ok] by (simp add: m del: map_eq_conv)
  next
    case (6 u) then show ?case using core_okD(6) [OF ok, of u] un(2) x by auto
  next
    case (7 d ws) then show ?case using core_okD(7) [OF ok, of d ws] by (auto split: if_splits)
  next
    case (8 d ws u) then show ?case using core_okD(8) [OF ok, of d ws u] un(3) [of d ws] x by (auto split: if_splits)
  next
    case (9 u y) then show ?case using core_okD(9) [OF ok, of u y] e by (fastforce simp: tview_ok_def split: if_splits)
  next
    case 10 then show ?case using core_okD(10) [OF ok] n by simp
  next
    case 11 then show ?case using core_okD(11) [OF ok] n by simp
  qed
qed

lemma free_kthread_inv:
  assumes inv: "sched_inv s" and fin: "finished s t"
  shows "sched_inv (free_kthread t s)"
proof -
  obtain th ev where th: "KThreads s t = Some th" "State th = KTHREAD_STATE_TERMINATED" "OwnedMutexCount th = 0"
    and ev: "Dispatchers s (TerminationCompletion t) = Some ev" "DispatcherType ev = DISPATCHER_TYPE_EVENT" "SignalState ev \<noteq> 0"
    and ni: "t \<noteq> gIdleThread s" using fin by (auto simp: finished_def)
  obtain cur where cur: "KThreads s (gCurrentThread s) = Some cur" "State cur = KTHREAD_STATE_RUNNING" using running_current [OF inv] .
  have nc: "t \<noteq> gCurrentThread s" using cur th by auto
  have wl: "WaitListHead ev = []" using object_okD(1) [OF inv ev(1)] ev(3) by (auto simp: object_ok_def)
  define s' where "s' = free_kthread t s"
  have v: "view s' = (view s)\<lparr>cTV := (cTV (view s))(t := None), cWL := (cWL (view s))(TerminationCompletion t := None)\<rparr>"
    by (rule view_eqI) (simp_all add: s'_def free_kthread_def)
  have "core_ok (view s')" unfolding v
    by (rule core_ok_drop_thread [OF sched_invD(5) [OF inv]]) (use th ni nc ev wl in auto)
  moreover have "dispatch_ready s'" using sched_invD(2) [OF inv] by (simp add: dispatch_ready_def s'_def free_kthread_def)
  moreover have "objects_ok s'" using sched_invD(3) [OF inv] by (simp add: objects_ok_def s'_def free_kthread_def)
  moreover have "mutex_ok s'"
  proof -
    have own: "owned s' u = owned s u" for u using ev by (auto simp: owned_def s'_def free_kthread_def)
    have "finite (owned s t)" using sched_invD(4) [OF inv]
      by (auto simp: mutex_ok_def owned_def intro: finite_subset [of _ "dom (Dispatchers s)"])
    moreover have "card (owned s t) = unat (OwnedMutexCount th)" using sched_invD(4) [OF inv] th(1) by (simp add: mutex_ok_def)
    ultimately have "owned s t = {}" using th(3) by simp
    then show ?thesis using sched_invD(4) [OF inv] own by (auto simp: mutex_ok_def s'_def free_kthread_def)
  qed
  ultimately show ?thesis using cur nc unfolding sched_inv_def sched_core_def s'_def by (simp add: free_kthread_def)
qed

text \<open>The environment of finalisation: the stack can be unmapped and the user runtime agrees.\<close>

definition finalizable :: "(kthread_ref \<Rightarrow> ho_status) \<Rightarrow> sched_state \<Rightarrow> bool" where
  "finalizable kvaRelease s \<longleftrightarrow> (\<forall>t. kvaRelease t = EC_SUCCESS) \<and>
     (\<forall>t. KiIsUserRuntimeOwnedThread t s \<longrightarrow> (\<exists>f. FinalizeThreadHook (Hooks s) = Some f \<and> f t = EC_SUCCESS))"

lemma finalize_frees:
  assumes fin: "finished s t" and env: "finalizable kvaRelease s"
    and claim: "\<And>th. KThreads s t = Some th \<Longrightarrow> TerminationClaimState th \<noteq> KTHREAD_TERMINATION_CLAIM_STATE_CONSUMED"
  shows "bind_outcome (KiMarkThreadTerminationConsumed t s) (KiFinalizeThread kvaRelease t) = Done (free_kthread t s)"
proof -
  obtain th where th: "KThreads s t = Some th" "State th = KTHREAD_STATE_TERMINATED" and ni: "t \<noteq> gIdleThread s"
    using fin by (auto simp: finished_def)
  define th1 where "th1 = th\<lparr>TerminationClaimState := KTHREAD_TERMINATION_CLAIM_STATE_CONSUMED\<rparr>"
  define s1 where "s1 = set_kthread t th1 s"
  have 1: "KiMarkThreadTerminationConsumed t s = Done s1"
    using th claim by (simp add: KiMarkThreadTerminationConsumed_def s1_def th1_def)
  have h: "Hooks s1 = Hooks s" "gIdleThread s1 = gIdleThread s" "KThreads s1 t = Some th1"
    "State th1 = KTHREAD_STATE_TERMINATED" "TerminationClaimState th1 = KTHREAD_TERMINATION_CLAIM_STATE_CONSUMED"
    using th by (simp_all add: s1_def set_kthread_def th1_def)
  have fr: "free_kthread t s1 = free_kthread t s" by (simp add: free_kthread_def s1_def set_kthread_def)
  have own: "KiIsUserRuntimeOwnedThread t s1 = KiIsUserRuntimeOwnedThread t s" by (simp add: KiIsUserRuntimeOwnedThread_def h)
  have "KiFinalizeThread kvaRelease t s1 = Done (free_kthread t s1)"
  proof (cases "KiIsUserRuntimeOwnedThread t s")
    case True
    then obtain f where "FinalizeThreadHook (Hooks s) = Some f" "f t = EC_SUCCESS" using env by (auto simp: finalizable_def)
    then show ?thesis using True ni h own env by (simp add: KiFinalizeThread_def finalizable_def)
  next
    case False
    then show ?thesis using ni h own env by (simp add: KiFinalizeThread_def finalizable_def)
  qed
  then show ?thesis using 1 fr by simp
qed

section \<open>Reaping\<close>

definition reap_ok :: "sched_state \<Rightarrow> bool" where
  "reap_ok s \<longleftrightarrow> distinct (gTerminatedList s) \<and> (\<forall>t \<in> set (gTerminatedList s). finished s t \<and>
     (\<forall>th. KThreads s t = Some th \<longrightarrow> TerminationMode th = KTHREAD_TERMINATION_MODE_DETACHED \<and>
        TerminationClaimState th = KTHREAD_TERMINATION_CLAIM_STATE_UNCLAIMED))"

lemma finished_upd [simp]: "finished (s\<lparr>gTerminatedList := q\<rparr>) t = finished s t"
  by (simp add: finished_def)

lemma finished_free: "u \<noteq> t \<Longrightarrow> finished (free_kthread t s) u = finished s u"
  by (simp add: finished_def free_kthread_def)

lemma terminated_frame [simp]: "view (s\<lparr>gTerminatedList := q\<rparr>) = view s"
  by (simp add: view_def)

lemma terminated_inv: "sched_inv s \<Longrightarrow> sched_inv (s\<lparr>gTerminatedList := q\<rparr>)"
  by (simp add: sched_inv_def sched_core_def dispatch_ready_def objects_ok_def mutex_ok_def owned_def)

lemma reap_loop_all:
  assumes "sched_inv s" "reap_ok s" "finalizable kvaRelease s"
  shows "\<exists>s'. reap_loop kvaRelease s = Some (Done s') \<and> sched_inv s' \<and> gTerminatedList s' = [] \<and>
    KThreads s' = (\<lambda>t. if t \<in> set (gTerminatedList s) then None else KThreads s t) \<and>
    s' = fold free_kthread (gTerminatedList s) (s\<lparr>gTerminatedList := []\<rparr>)"
  using assms
proof (induction "gTerminatedList s" arbitrary: s)
  case Nil
  then show ?case by (subst reap_loop.simps) simp
next
  case (Cons t ts)
  note tl = Cons.hyps(2) [symmetric]
  define s0 where "s0 = s\<lparr>gTerminatedList := ts\<rparr>"
  have fin: "finished s0 t" using Cons.prems(2) tl by (simp add: reap_ok_def s0_def)
  have env: "finalizable kvaRelease s0" using Cons.prems(3) by (simp add: finalizable_def KiIsUserRuntimeOwnedThread_def s0_def)
  have e: "bind_outcome (KiMarkThreadTerminationConsumed t s0) (KiFinalizeThread kvaRelease t) = Done (free_kthread t s0)"
    by (rule finalize_frees [OF fin env]) (use Cons.prems(2) tl in \<open>auto simp: reap_ok_def s0_def\<close>)
  define s1 where "s1 = free_kthread t s0"
  have i1: "sched_inv s1" unfolding s1_def by (rule free_kthread_inv [OF _ fin]) (simp add: s0_def terminated_inv Cons.prems(1))
  have t1: "gTerminatedList s1 = ts" by (simp add: s1_def s0_def free_kthread_def)
  have r1: "reap_ok s1"
    unfolding reap_ok_def t1
  proof (intro conjI ballI)
    show "distinct ts" using Cons.prems(2) tl by (simp add: reap_ok_def)
    fix u assume u: "u \<in> set ts"
    then have "u \<noteq> t" using Cons.prems(2) tl by (auto simp: reap_ok_def)
    then show "finished s1 u" "\<forall>th. KThreads s1 u = Some th \<longrightarrow> TerminationMode th = KTHREAD_TERMINATION_MODE_DETACHED \<and>
        TerminationClaimState th = KTHREAD_TERMINATION_CLAIM_STATE_UNCLAIMED"
      using Cons.prems(2) tl u finished_free [of u t s0] by (auto simp: reap_ok_def s1_def s0_def free_kthread_def)
  qed
  have "finalizable kvaRelease s1" using env by (simp add: finalizable_def KiIsUserRuntimeOwnedThread_def s1_def free_kthread_def)
  then obtain s' where s': "reap_loop kvaRelease s1 = Some (Done s')" "sched_inv s'" "gTerminatedList s' = []"
    "KThreads s' = (\<lambda>u. if u \<in> set ts then None else KThreads s1 u)" "s' = fold free_kthread ts (s1\<lparr>gTerminatedList := []\<rparr>)"
    using Cons.hyps(1) [OF t1 [symmetric] i1 r1] t1 by auto
  have "reap_loop kvaRelease s = reap_loop kvaRelease s1"
    using tl e by (subst reap_loop.simps) (simp add: s0_def s1_def)
  moreover have "KThreads s' = (\<lambda>u. if u \<in> set (gTerminatedList s) then None else KThreads s u)"
    unfolding s'(4) tl by (auto simp: fun_eq_iff s1_def s0_def free_kthread_def)
  moreover have "s1\<lparr>gTerminatedList := []\<rparr> = free_kthread t (s\<lparr>gTerminatedList := []\<rparr>)" by (simp add: s1_def s0_def free_kthread_def)
  ultimately show ?case using s'(1-3,5) tl by auto
qed

section \<open>Joining and detaching\<close>

definition joinable :: "sched_state \<Rightarrow> kthread_ref \<Rightarrow> KTHREAD \<Rightarrow> bool" where
  "joinable s t th \<longleftrightarrow> KThreads s t = Some th \<and> t \<noteq> gCurrentThread s \<and> t \<noteq> gIdleThread s \<and>
     TerminationMode th = KTHREAD_TERMINATION_MODE_JOINABLE \<and> TerminationClaimState th = KTHREAD_TERMINATION_CLAIM_STATE_UNCLAIMED"

lemma join_refused:
  assumes b: "blocking_allowed s" and t: "KThreads s t = Some th"
    and no: "t = gCurrentThread s \<or> t = gIdleThread s \<or> TerminationMode th = KTHREAD_TERMINATION_MODE_DETACHED \<or>
      TerminationClaimState th \<noteq> KTHREAD_TERMINATION_CLAIM_STATE_UNCLAIMED"
  shows "KeThreadJoin kvaRelease (Some t) timeoutNs now sw s = Done (Returned EC_INVALID_STATE, s)"
  using t no b by (cases "TerminationClaimState th")
    (auto simp: KeThreadJoin_def blocking_allowed_assert blocking_allowed_def)

lemma set_claim_inv:
  assumes inv: "sched_inv s" and t: "KThreads s t = Some th"
  shows "sched_inv (set_kthread t (th\<lparr>TerminationClaimState := c\<rparr>) s)"
    "view (set_kthread t (th\<lparr>TerminationClaimState := c\<rparr>) s) = view s"
proof -
  define s' where "s' = set_kthread t (th\<lparr>TerminationClaimState := c\<rparr>) s"
  have v: "view s' = view s" by (rule view_eqI) (auto simp: s'_def set_kthread_def t tview_of_def)
  have "sched_inv s'"
  proof (rule sched_inv_same_view [OF inv v])
    show "dispatch_ready s'" "objects_ok s'" using sched_invD(2,3) [OF inv]
      by (simp_all add: dispatch_ready_def objects_ok_def s'_def set_kthread_def)
    have "owned s' u = owned s u" for u by (simp add: owned_def s'_def set_kthread_def)
    then show "mutex_ok s'" using sched_invD(4) [OF inv] t by (auto simp: mutex_ok_def s'_def set_kthread_def)
  qed
  then show "sched_inv (set_kthread t (th\<lparr>TerminationClaimState := c\<rparr>) s)"
    "view (set_kthread t (th\<lparr>TerminationClaimState := c\<rparr>) s) = view s" using v by (simp_all add: s'_def)
qed

lemma finished_claim: "KThreads s t = Some th \<Longrightarrow>
   finished (set_kthread t (th\<lparr>TerminationClaimState := c\<rparr>) s) u = finished s u"
  by (auto simp: finished_def set_kthread_def)

lemma join_finished:
  assumes inv: "sched_inv s" and b: "blocking_allowed s" and j: "joinable s t th" and fin: "finished s t"
    and env: "finalizable kvaRelease s"
  shows "KeThreadJoin kvaRelease (Some t) timeoutNs now sw s = Done (Returned EC_SUCCESS, free_kthread t s)"
    "sched_inv (free_kthread t s)"
proof -
  show "sched_inv (free_kthread t s)" by (rule free_kthread_inv [OF inv fin])
  define s1 where "s1 = set_kthread t (th\<lparr>TerminationClaimState := KTHREAD_TERMINATION_CLAIM_STATE_JOIN_IN_PROGRESS\<rparr>) s"
  have f1: "finished s1 t" using finished_claim fin j by (simp add: s1_def joinable_def)
  have e1: "finalizable kvaRelease s1" using env by (simp add: finalizable_def KiIsUserRuntimeOwnedThread_def s1_def set_kthread_def)
  have fr: "free_kthread t s1 = free_kthread t s" by (simp add: free_kthread_def s1_def set_kthread_def)
  have st: "State th = KTHREAD_STATE_TERMINATED" using fin j by (auto simp: finished_def joinable_def)
  have pub: "KiIsThreadTerminationCompletionPublished t s1 = Done True"
    using f1 by (auto simp: finished_def KiIsThreadTerminationCompletionPublished_def)
  have "bind_outcome (KiMarkThreadTerminationConsumed t s1) (KiFinalizeThread kvaRelease t) = Done (free_kthread t s1)"
    by (rule finalize_frees [OF f1 e1]) (simp add: s1_def set_kthread_def)
  then obtain s2 where "KiMarkThreadTerminationConsumed t s1 = Done s2" "KiFinalizeThread kvaRelease t s2 = Done (free_kthread t s)"
    using fr by (cases "KiMarkThreadTerminationConsumed t s1") auto
  then show "KeThreadJoin kvaRelease (Some t) timeoutNs now sw s = Done (Returned EC_SUCCESS, free_kthread t s)"
    using b j st pub by (simp add: KeThreadJoin_def blocking_allowed_assert blocking_allowed_def joinable_def Let_def s1_def)
qed

lemma join_poll:
  assumes b: "blocking_allowed s" and j: "joinable s t th" and st: "State th \<noteq> KTHREAD_STATE_TERMINATED"
  shows "KeThreadJoin kvaRelease (Some t) 0 now sw s = Done (Returned EC_TIMEOUT, s)"
proof -
  have "th\<lparr>TerminationClaimState := KTHREAD_TERMINATION_CLAIM_STATE_UNCLAIMED\<rparr> = th"
    using j by (simp add: joinable_def)
  then have "(KThreads s)(t \<mapsto> th\<lparr>TerminationClaimState := KTHREAD_TERMINATION_CLAIM_STATE_UNCLAIMED\<rparr>) = KThreads s"
    using j by (auto simp: joinable_def fun_eq_iff)
  then show ?thesis using b j st
    by (simp add: KeThreadJoin_def blocking_allowed_assert blocking_allowed_def joinable_def Let_def KiReleaseThreadJoinClaim_def set_kthread_def)
qed

lemma join_blocks:
  assumes inv: "sched_inv s" and b: "blocking_allowed s" and j: "joinable s t th" and st: "State th \<noteq> KTHREAD_STATE_TERMINATED"
    and ev: "Dispatchers s (TerminationCompletion t) = Some ev" "DispatcherType ev = DISPATCHER_TYPE_EVENT" "SignalState ev = 0"
    and tm: "timeoutNs \<noteq> 0" "timeoutNs \<noteq> KE_WAIT_INFINITE \<Longrightarrow> now + timeoutNs \<noteq> 0"
  shows "\<exists>s' th'. KeThreadJoin kvaRelease (Some t) timeoutNs now sw s = Done (Blocked, s') \<and> sched_inv s' \<and>
    view s' = a_dispatch (a_block (Some (TerminationCompletion t)) (deadline_arg timeoutNs now) (view s)) \<and>
    KThreads s' t = Some th' \<and> TerminationClaimState th' = KTHREAD_TERMINATION_CLAIM_STATE_JOIN_IN_PROGRESS"
proof -
  define th1 where "th1 = th\<lparr>TerminationClaimState := KTHREAD_TERMINATION_CLAIM_STATE_JOIN_IN_PROGRESS\<rparr>"
  define s1 where "s1 = set_kthread t th1 s"
  have t: "KThreads s t = Some th" "t \<noteq> gCurrentThread s" using j by (simp_all add: joinable_def)
  have i1: "sched_inv s1" "view s1 = view s" unfolding s1_def th1_def using set_claim_inv [OF inv t(1)] by blast+
  have b1: "blocking_allowed s1" using b t by (auto simp: blocking_allowed_def s1_def set_kthread_def)
  have e1: "Dispatchers s1 (TerminationCompletion t) = Some ev" using ev by (simp add: s1_def set_kthread_def)
  obtain s' where s': "KeWaitForSingleObject (Some (TerminationCompletion t)) timeoutNs now sw s1 = Done (Blocked, s')" "sched_inv s'"
    "view s' = a_dispatch (a_block (Some (TerminationCompletion t)) (deadline_arg timeoutNs now) (view s1))" "rest s' = rest s1"
    using wait_blocks [OF i1(1) b1 e1 ev(3) _ tm, where sw = sw] ev(2) by auto
  have "KThreads s' t \<noteq> None" using rest_dom(2) [OF s'(4), of t] by (simp add: s1_def set_kthread_def)
  then obtain th' where th': "KThreads s' t = Some th'" by blast
  obtain th0 where "KThreads s1 t = Some th0" "erase_thread th' = erase_thread th0" using rest_thread [OF s'(4) th'] .
  then have "TerminationClaimState th' = KTHREAD_TERMINATION_CLAIM_STATE_JOIN_IN_PROGRESS"
    using erase_thread_fields(5) [of th' th0] by (auto simp: s1_def set_kthread_def th1_def)
  moreover have "KeThreadJoin kvaRelease (Some t) timeoutNs now sw s = Done (Blocked, s')"
    using b j st tm(1) s'(1)
    by (simp add: KeThreadJoin_def blocking_allowed_assert blocking_allowed_def joinable_def Let_def s1_def th1_def)
  ultimately show ?thesis using s'(2,3) i1(2) th' by auto
qed

lemma join_completes:
  assumes inv: "sched_inv s" and fin: "finished s t" and env: "finalizable kvaRelease s"
    and th: "KThreads s t = Some th" "TerminationMode th = KTHREAD_TERMINATION_MODE_JOINABLE"
      "TerminationClaimState th = KTHREAD_TERMINATION_CLAIM_STATE_JOIN_IN_PROGRESS"
  shows "join_complete kvaRelease t EC_SUCCESS s = Done (Returned EC_SUCCESS, free_kthread t s)"
proof -
  have st: "State th = KTHREAD_STATE_TERMINATED" using fin th by (auto simp: finished_def)
  have pub: "KiIsThreadTerminationCompletionPublished t s = Done True"
    using fin by (auto simp: finished_def KiIsThreadTerminationCompletionPublished_def)
  have "bind_outcome (KiMarkThreadTerminationConsumed t s) (KiFinalizeThread kvaRelease t) = Done (free_kthread t s)"
    by (rule finalize_frees [OF fin env]) (use th in simp)
  then obtain s2 where "KiMarkThreadTerminationConsumed t s = Done s2" "KiFinalizeThread kvaRelease t s2 = Done (free_kthread t s)"
    by (cases "KiMarkThreadTerminationConsumed t s") auto
  then show ?thesis using th st pub by (simp add: join_complete_def)
qed

lemma join_times_out:
  assumes "KThreads s t = Some th" "TerminationClaimState th = KTHREAD_TERMINATION_CLAIM_STATE_JOIN_IN_PROGRESS" "st \<noteq> EC_SUCCESS"
  shows "join_complete kvaRelease t st s =
    Done (Returned st, set_kthread t (th\<lparr>TerminationClaimState := KTHREAD_TERMINATION_CLAIM_STATE_UNCLAIMED\<rparr>) s)"
  using assms by (simp add: join_complete_def KiReleaseThreadJoinClaim_def)

section \<open>Exit\<close>

lemma a_dispatch_other:
  assumes ok: "core_ok v" and u: "cTV v u = Some x" "vState x \<noteq> KTHREAD_STATE_READY" "vState x \<noteq> KTHREAD_STATE_BLOCKED" "u \<noteq> cIdle v"
  shows "cTV (a_dispatch v) u = cTV v u"
proof -
  have "fst (a_next v) \<noteq> u"
  proof (cases "find (\<lambda>k. cRQ v k \<noteq> []) (rev [0..<KTHREAD_PRIORITY_COUNT])")
    case None
    then show ?thesis using u(4) by (simp add: a_next_def)
  next
    case (Some k)
    then have k: "k < KTHREAD_PRIORITY_COUNT" "cRQ v k \<noteq> []" by (simp_all add: find_high_Some)
    then have "u \<notin> set (cRQ v k)" using running_unqueued(1) [OF ok u(1-3)] by blast
    then show ?thesis using Some k by (auto simp: a_next_def)
  qed
  then show ?thesis by (auto simp: a_dispatch_def split: prod.splits)
qed

lemma finished_dispatch:
  assumes fin: "finished s t" and core: "sched_core s" and v: "view s' = a_dispatch (view s)" and r: "rest s' = rest s"
  shows "finished s' t"
proof -
  obtain th ev where th: "KThreads s t = Some th" "State th = KTHREAD_STATE_TERMINATED" "OwnedMutexCount th = 0"
    and ev: "Dispatchers s (TerminationCompletion t) = Some ev" "DispatcherType ev = DISPATCHER_TYPE_EVENT" "SignalState ev \<noteq> 0"
    and ni: "t \<noteq> gIdleThread s" using fin by (auto simp: finished_def)
  obtain ob where ob: "Dispatchers s' (TerminationCompletion t) = Some ob"
    using rest_eqD(2) [OF r, of "TerminationCompletion t"] ev(1) by (cases "Dispatchers s' (TerminationCompletion t)") auto
  obtain ev0 where ev0: "Dispatchers s (TerminationCompletion t) = Some ev0" "ob = ev0\<lparr>WaitListHead := WaitListHead ob\<rparr>"
    using rest_dispatcher [OF r ob] .
  have "DispatcherType ob = DispatcherType ev0" by (subst ev0(2)) simp
  moreover have "SignalState ob = SignalState ev0" by (subst ev0(2)) simp
  moreover have "ev0 = ev" using ev0(1) ev(1) by simp
  ultimately have ob': "DispatcherType ob = DISPATCHER_TYPE_EVENT" "SignalState ob \<noteq> 0" using ev(2,3) by simp_all
  obtain th' where th': "KThreads s' t = Some th'" using rest_dom(2) [OF r, of t] th(1) by auto
  obtain th0 where "KThreads s t = Some th0" "erase_thread th' = erase_thread th0" using rest_thread [OF r th'] .
  then have c: "OwnedMutexCount th' = 0" using erase_thread_fields(1) [of th' th0] th(1,3) by simp
  have "cTV (view s') t = cTV (view s) t" unfolding v
    by (rule a_dispatch_other) (use core th ni in \<open>auto simp: sched_core_def\<close>)
  then have "vState (tview_of th') = vState (tview_of th)" using th' th(1) by simp
  then have "State th' = KTHREAD_STATE_TERMINATED" using th(2) by simp
  then show ?thesis using ob ob' th' c ni rest_eqD(4) [OF r] by (auto simp: finished_def)
qed

lemma weak_exit:
  assumes inv: "sched_inv s" and cur: "KThreads s (gCurrentThread s) = Some th" and ni: "gCurrentThread s \<noteq> gIdleThread s"
  shows "sched_weak (set_kthread (gCurrentThread s) (th\<lparr>State := KTHREAD_STATE_TERMINATED\<rparr>) s)"
    "view (set_kthread (gCurrentThread s) (th\<lparr>State := KTHREAD_STATE_TERMINATED\<rparr>) s) = a_exit (view s)"
proof -
  define s' where "s' = set_kthread (gCurrentThread s) (th\<lparr>State := KTHREAD_STATE_TERMINATED\<rparr>) s"
  have v: "view s' = a_exit (view s)" by (rule view_eqI) (simp_all add: s'_def set_kthread_def a_exit_def cur tview_of_def)
  have r: "rest s' = rest s" by (rule rest_eqI) (simp_all add: s'_def set_kthread_def cur)
  have "core_ok (view s')" unfolding v
    by (rule a_exit_ok [OF sched_invD(5) [OF inv]]) (use cur ni sched_invD(6) [OF inv] in auto)
  moreover have "objects_ok s'" by (rule objects_ok_rest [OF r sched_invD(3) [OF inv]]) (auto simp: v a_exit_def wl_sub_def)
  ultimately have "sched_weak s'" using dispatch_ready_rest [OF r] mutex_ok_rest [OF r] sched_invD(2,4) [OF inv]
    by (simp add: sched_weak_def sched_core_def)
  then show "sched_weak (set_kthread (gCurrentThread s) (th\<lparr>State := KTHREAD_STATE_TERMINATED\<rparr>) s)"
    "view (set_kthread (gCurrentThread s) (th\<lparr>State := KTHREAD_STATE_TERMINATED\<rparr>) s) = a_exit (view s)" using v by (simp_all add: s'_def)
qed

lemma weak_frame: "sched_weak s \<Longrightarrow> view s' = view s \<Longrightarrow> Dispatchers s' = Dispatchers s \<Longrightarrow> KThreads s' = KThreads s \<Longrightarrow>
   gClock s' = gClock s \<Longrightarrow> Hooks s' = Hooks s \<Longrightarrow> sched_weak s'"
  by (simp add: sched_weak_def sched_core_def dispatch_ready_def objects_ok_def mutex_ok_def owned_def)

lemma rest_terminated: "rest (s\<lparr>gTerminatedList := q\<rparr>) = (rest s)\<lparr>gTerminatedList := q\<rparr>"
  by (cases s) (simp add: rest_def)

lemma KeThreadExit_effect:
  assumes inv: "sched_inv s" and b: "blocking_allowed s"
    and cur: "t = gCurrentThread s" "KThreads s t = Some th" "OwnedMutexCount th = 0"
    and ev: "Dispatchers s (TerminationCompletion t) = Some ev" "DispatcherType ev = DISPATCHER_TYPE_EVENT"
    and det: "TerminationMode th = KTHREAD_TERMINATION_MODE_DETACHED \<Longrightarrow>
      TerminationClaimState th = KTHREAD_TERMINATION_CLAIM_STATE_UNCLAIMED \<and> t \<notin> set (gTerminatedList s)"
  shows "\<exists>s'. KeThreadExit eventNs switchNs s = Done s' \<and> sched_inv s' \<and> finished s' t \<and>
    view s' = a_dispatch (fold a_wake (WaitListHead ev) (a_exit (view s))) \<and>
    gTerminatedList s' = gTerminatedList s @ (if TerminationMode th = KTHREAD_TERMINATION_MODE_DETACHED then [t] else []) \<and>
    rest s' = rest ((set_dispatcher (TerminationCompletion t) (ev\<lparr>SignalState := 1\<rparr>) s)\<lparr>gTerminatedList := gTerminatedList s'\<rparr>) \<and>
    granted s' \<subseteq> granted s \<union> set (WaitListHead ev)"
proof -
  have ni: "gCurrentThread s \<noteq> gIdleThread s" using b by (simp add: blocking_allowed_def)
  define th1 where "th1 = th\<lparr>State := KTHREAD_STATE_TERMINATED\<rparr>"
  define s1 where "s1 = (set_kthread t th1 s)\<lparr>gStats := (gStats s)\<lparr>ActiveThreadCount := ActiveThreadCount (gStats s) - 1\<rparr>\<rparr>"
  have w1: "sched_weak s1" "view s1 = a_exit (view s)"
  proof -
    show v: "view s1 = a_exit (view s)" using weak_exit(2) [OF inv _ ni] cur by (simp add: s1_def th1_def)
    show "sched_weak s1"
      by (rule weak_frame [OF weak_exit(1) [OF inv _ ni]]) (use cur v weak_exit(2) [OF inv _ ni] in \<open>simp_all add: s1_def th1_def set_kthread_def\<close>)
  qed
  have e1: "Dispatchers s1 (TerminationCompletion t) = Some ev" using ev by (simp add: s1_def set_kthread_def)
  have sig: "Signature ev = KDISPATCHER_SIGNATURE" using object_okD(1) [OF inv ev(1)] by (simp add: object_ok_def)
  obtain s2 where w: "wake_waiters (TerminationCompletion t) None (set_dispatcher (TerminationCompletion t) (ev\<lparr>SignalState := 1\<rparr>) s1) = Some (Done (None, s2))"
    "view s2 = fold a_wake (WaitListHead ev) (view s1)"
    and r2: "rest s2 = rest (set_dispatcher (TerminationCompletion t) (ev\<lparr>SignalState := 1\<rparr>) s1)" and w2: "sched_weak s2"
    and d2: "Dispatchers s2 (TerminationCompletion t) = Some (ev\<lparr>SignalState := 1, WaitListHead := []\<rparr>)"
    and rs: "resumed EC_SUCCESS (WaitListHead ev) s1 s2"
    using set_event_wakes [OF w1(1) e1 ev(2)] by blast
  have tw: "t \<notin> set (WaitListHead ev)" using current_not_waiting [OF inv ev(1)] cur(1) by simp
  have t2: "KThreads s2 t = Some th1" using rs tw by (simp add: resumed_def s1_def set_kthread_def)
  have g2: "gIdleThread s2 = gIdleThread s" "gCurrentThread s2 = gCurrentThread s" "gTerminatedList s2 = gTerminatedList s"
  proof -
    have "cIdle (view s2) = cIdle (view s)" "cCur (view s2) = cCur (view s)" unfolding w(2) w1(2) by (simp_all add: a_exit_def)
    then show "gIdleThread s2 = gIdleThread s" "gCurrentThread s2 = gCurrentThread s" by simp_all
    show "gTerminatedList s2 = gTerminatedList s" using rest_eqD(3) [OF r2] by (simp add: set_dispatcher_def s1_def set_kthread_def)
  qed
  have ns: "\<not> need_schedule s2" using g2 ni by (simp add: need_schedule_def)
  have set: "KeSetEvent (TerminationCompletion t) eventNs s1 = Done s2"
    using e1 ev(2) sig w(1) ns by (simp add: KeSetEvent_def flatten_loop_def)
  define q where "q = gTerminatedList s @ (if TerminationMode th = KTHREAD_TERMINATION_MODE_DETACHED then [t] else [])"
  define s3 where "s3 = s2\<lparr>gTerminatedList := q\<rparr>"
  have nq: "\<not> KiIsThreadQueuedForReaper t s2" if "TerminationMode th = KTHREAD_TERMINATION_MODE_DETACHED"
  proof -
    have "t \<notin> set (gReadyQueues s2 k)" if "k < KTHREAD_PRIORITY_COUNT" for k
      using running_unqueued(1) [of "view s2" t _ k] w2 t2 that by (simp add: sched_weak_def sched_core_def th1_def)
    then show ?thesis using det [OF that] g2 by (auto simp: KiIsThreadQueuedForReaper_def list_ex_iff)
  qed
  have que: "(if TerminationMode th1 = KTHREAD_TERMINATION_MODE_DETACHED then KiQueueDetachedThreadForReaper t s2 else Done s2) = Done s3"
  proof (cases "TerminationMode th = KTHREAD_TERMINATION_MODE_DETACHED")
    case True
    have "s2\<lparr>gTerminatedList := gTerminatedList s2 @ [t]\<rparr> = s3" using True g2 by (simp add: s3_def q_def)
    then show ?thesis using True nq det g2 ni cur t2 d2
      by (simp add: KiQueueDetachedThreadForReaper_def KiIsThreadTerminationCompletionPublished_def th1_def)
  next
    case False
    then show ?thesis using g2 by (simp add: s3_def q_def th1_def)
  qed
  have w3: "sched_weak s3" by (rule weak_frame [OF w2]) (simp_all add: s3_def)
  have y: "yielded s3" using t2 g2 cur by (simp add: yielded_def s3_def th1_def)
  obtain s4 where s4: "KiSchedule switchNs s3 = Done s4" "sched_inv s4" "view s4 = a_dispatch (view s3)" "rest s4 = rest s3"
    using KiSchedule_inv [of s3 switchNs] w3 y by (auto simp: sched_weak_def)
  have st1: "gStats (set_kthread t th1 s) = gStats s" by (simp add: set_kthread_def)
  have e: "KeThreadExit eventNs switchNs s = Done s4"
    using cur(2,3) ni set que s4(1) t2 st1 by (simp add: KeThreadExit_def blocking_allowed_assert [OF b] Let_def s1_def th1_def cur(1) [symmetric])
  have "finished s3 t" using ni cur t2 g2 d2 ev(2) by (simp add: finished_def s3_def th1_def)
  then have fin: "finished s4 t" using finished_dispatch s4(3,4) w3 by (simp add: sched_weak_def)
  have tl: "gTerminatedList s4 = q" using rest_eqD(3) [OF s4(4)] by (simp add: s3_def)
  have "rest s3 = rest ((set_dispatcher (TerminationCompletion t) (ev\<lparr>SignalState := 1\<rparr>) s1)\<lparr>gTerminatedList := q\<rparr>)"
    unfolding s3_def rest_terminated r2 ..
  also have "\<dots> = rest ((set_dispatcher (TerminationCompletion t) (ev\<lparr>SignalState := 1\<rparr>) s)\<lparr>gTerminatedList := q\<rparr>)"
    by (rule rest_eqI) (use cur(2) in \<open>simp_all add: s1_def th1_def set_kthread_def set_dispatcher_def\<close>)
  finally have r4: "rest s4 = rest ((set_dispatcher (TerminationCompletion t) (ev\<lparr>SignalState := 1\<rparr>) s)\<lparr>gTerminatedList := gTerminatedList s4\<rparr>)"
    using s4(4) tl by simp
  have "granted s1 = granted s"
    by (rule granted_cong) (use cur(2) in \<open>simp add: s1_def th1_def set_kthread_def\<close>)
  then have "granted s4 \<subseteq> granted s \<union> set (WaitListHead ev)"
    using granted_schedule [OF s4(1)] granted_resumed [OF rs] by (simp add: s3_def)
  then show ?thesis using e s4(2,3) fin w(2) w1(2) tl r4 by (auto simp: s3_def q_def)
qed

lemma KeThreadExit_spec:
  assumes inv: "sched_inv s" and b: "blocking_allowed s"
    and cur: "t = gCurrentThread s" "KThreads s t = Some th" "OwnedMutexCount th = 0"
    and ev: "Dispatchers s (TerminationCompletion t) = Some ev" "DispatcherType ev = DISPATCHER_TYPE_EVENT"
    and det: "TerminationMode th = KTHREAD_TERMINATION_MODE_DETACHED \<Longrightarrow>
      TerminationClaimState th = KTHREAD_TERMINATION_CLAIM_STATE_UNCLAIMED \<and> t \<notin> set (gTerminatedList s)"
  shows "\<exists>s'. KeThreadExit eventNs switchNs s = Done s' \<and> sched_inv s' \<and> finished s' t \<and>
    view s' = a_dispatch (fold a_wake (WaitListHead ev) (a_exit (view s))) \<and>
    gTerminatedList s' = gTerminatedList s @ (if TerminationMode th = KTHREAD_TERMINATION_MODE_DETACHED then [t] else [])"
  using KeThreadExit_effect [OF assms, of eventNs switchNs] by blast

section \<open>What dispatching does and leaves alone\<close>

lemma KiSchedule_picks:
  assumes core: "sched_core s" and env: "dispatch_ready s"
    and k: "k < KTHREAD_PRIORITY_COUNT" "gReadyQueues s k = t # q"
    and hi: "\<forall>j. k < j \<and> j < KTHREAD_PRIORITY_COUNT \<longrightarrow> gReadyQueues s j = []"
  shows "\<exists>s'. KiSchedule now s = Done s' \<and> gCurrentThread s' = t \<and> gReadyQueues s' = (gReadyQueues s)(k := q) \<and>
    gTimeoutQueue s' = gTimeoutQueue s \<and> map_option State (KThreads s' t) = Some KTHREAD_STATE_RUNNING \<and>
    (\<forall>u. u \<noteq> t \<longrightarrow> map_option State (KThreads s' u) = map_option State (KThreads s u))"
proof -
  obtain s' where s': "KiSchedule now s = Done s'" "view s' = a_dispatch (view s)" using KiSchedule_dispatch [OF core env] by blast
  have "find (\<lambda>k. cRQ (view s) k \<noteq> []) (rev [0..<KTHREAD_PRIORITY_COUNT]) = Some k"
    using k hi by (simp add: find_high_Some)
  then have n: "a_next (view s) = (t, (gReadyQueues s)(k := q))" using k by (simp add: a_next_def)
  then have v: "view s' = (view s)\<lparr>cRQ := (gReadyQueues s)(k := q), cCur := t,
      cTV := (cTV (view s))(t \<mapsto> (the (cTV (view s) t))\<lparr>vState := KTHREAD_STATE_RUNNING\<rparr>)\<rparr>"
    using s'(2) by (simp add: a_dispatch_def)
  have st: "map_option State (KThreads x u) = map_option vState (cTV (view x) u)" for x u by (simp add: option.map_comp comp_def)
  have "map_option State (KThreads s' u) = (if u = t then Some KTHREAD_STATE_RUNNING else map_option State (KThreads s u))" for u
    unfolding st v by simp
  moreover have "cCur (view s') = t" "cRQ (view s') = (gReadyQueues s)(k := q)" "cTQ (view s') = gTimeoutQueue s"
    unfolding v by simp_all
  ultimately show ?thesis using s'(1) by (auto simp del: map_option_eq_Some)
qed

text \<open>What dispatching leaves of a thread, whatever the state.\<close>

definition wait_part :: "KTHREAD \<Rightarrow> KWAIT_BLOCK \<times> u8" where
  "wait_part th = (WaitBlock th, Priority th)"

lemma arm_clock_frame: "arm_clock d s = Done s' \<Longrightarrow> gTimeoutQueue s' = gTimeoutQueue s \<and> KThreads s' = KThreads s"
  by (cases "KiArmClockEvent d (gClock s)") (auto simp: arm_clock_def)

lemma KiArmForNextEvent_frame:
  assumes "KiArmForNextEvent now t s = Done s'"
  shows "gTimeoutQueue s' = gTimeoutQueue s \<and> (\<forall>u. map_option wait_part (KThreads s' u) = map_option wait_part (KThreads s u))"
proof (cases "t = gIdleThread s")
  case True
  then show ?thesis using assms
    by (cases "gTimeoutQueue s") (auto simp: KiArmForNextEvent_def Let_def dest!: arm_clock_frame)
next
  case False
  obtain th where th: "KThreads s t = Some th" using assms False by (cases "KThreads s t") (auto simp: KiArmForNextEvent_def)
  show ?thesis using assms False th
    by (auto simp: KiArmForNextEvent_def Let_def set_kthread_def wait_part_def dest!: arm_clock_frame)
qed

lemma KiSchedule_frame:
  assumes "KiSchedule now s = Done s'"
  shows "gTimeoutQueue s' = gTimeoutQueue s \<and> (\<forall>u. map_option wait_part (KThreads s' u) = map_option wait_part (KThreads s u))"
proof -
  obtain t s0 where n: "pick_next s = (t, s0)" by (cases "pick_next s")
  then have f0: "gTimeoutQueue s0 = gTimeoutQueue s" "KThreads s0 = KThreads s"
    by (auto simp: pick_next_def split: option.splits)
  have ss: "gTimeoutQueue s1 = gTimeoutQueue s \<and> (\<forall>u. map_option wait_part (KThreads s1 u) = map_option wait_part (KThreads s u))"
    if "set_state t KTHREAD_STATE_RUNNING s0 = Done s1" for s1
    using that f0 by (auto simp: set_state_def deref_Done_iff set_kthread_def wait_part_def)
  show ?thesis
  proof (cases "t = gCurrentThread s")
    case True
    then obtain s1 where "set_state t KTHREAD_STATE_RUNNING s0 = Done s1" "KiArmForNextEvent now t s1 = Done s'"
      using assms n by (cases "set_state t KTHREAD_STATE_RUNNING s0") (auto simp: KiSchedule_def)
    then show ?thesis using ss KiArmForNextEvent_frame by fastforce
  next
    case False
    then obtain r s1 where s1: "KiResolveDispatchRoot t s0 = Done r" "set_state t KTHREAD_STATE_RUNNING s0 = Done s1"
      using assms n by (cases "KiResolveDispatchRoot t s0"; cases "set_state t KTHREAD_STATE_RUNNING s0") (auto simp: KiSchedule_def)
    obtain th where th: "KThreads s1 t = Some th" using s1 by (auto simp: set_state_def deref_Done_iff set_kthread_def)
    define s2 where "s2 = s1\<lparr>gStats := (gStats s1)\<lparr>ContextSwitchCount := ContextSwitchCount (gStats s1) + 1\<rparr>,
                 TssRsp0 := StackBase th + StackSize th\<rparr>"
    obtain s3 where s3: "KiArmForNextEvent now t s2 = Done s3"
      using assms n False s1 th by (cases "KiArmForNextEvent now t s2") (auto simp: KiSchedule_def Let_def s2_def)
    have "gTimeoutQueue s' = gTimeoutQueue s3 \<and> KThreads s' = KThreads s3"
      using assms n False s1 th s3
      by (auto simp: KiSchedule_def Let_def s2_def KeSwitchAddressSpace_def split: if_splits)
    then show ?thesis using KiArmForNextEvent_frame [OF s3] ss [OF s1(2)] by (simp add: s2_def)
  qed
qed

lemma zero_deadline_diverges:
  assumes th: "KThreads s t = Some th" and q: "gTimeoutQueue s = t # ts" and p: "KiIsValidThreadPriority (Priority th)"
    and wb: "WaitBlock th = init_wait_block"
  shows "KiWakeTimeouts now s = Diverge"
proof -
  obtain s1 where s1: "KiCompleteWait t EC_TIMEOUT s = Done s1" "gTimeoutQueue s1 = t # ts"
    "\<exists>th1. KThreads s1 t = Some th1 \<and> Completed (WaitBlock th1) \<and> DeadlineNs (WaitBlock th1) = 0"
    using th q p wb by (simp add: KiCompleteWait_def init_wait_block_def Let_def wait_list_remove_def set_state_def
        ready_insert_tail_def set_kthread_def)
  have st: "stuck_head now s1" using s1(2,3) by (auto simp: stuck_head_def)
  have "wake_timeouts now s = wake_timeouts now s1"
    using s1(1) q th wb by (subst wake_timeouts.simps) (simp add: deadline_of_def init_wait_block_def)
  then have "KiWakeTimeouts now s = KiWakeTimeouts now s1" by (simp add: KiWakeTimeouts_def)
  then show ?thesis using KiWakeTimeouts_stuck [OF st] by simp
qed

lemma sleep_wrap_diverges:
  assumes inv: "sched_inv s" and b: "blocking_allowed s" and w: "durationNs \<noteq> 0" "now + durationNs = 0"
  shows "\<exists>s'. KeSleep durationNs now sw s = Done s' \<and> (\<forall>later. KiWakeTimeouts later s' = Diverge)"
proof -
  define cur where "cur = gCurrentThread s"
  obtain th where th: "KThreads s cur = Some th" "State th = KTHREAD_STATE_RUNNING" "unat (Priority th) < KTHREAD_PRIORITY_COUNT"
    using running_current [OF inv] unfolding cur_def by blast
  have ni: "gCurrentThread s \<noteq> gIdleThread s" using b by (simp add: blocking_allowed_def)
  define s0 where "s0 = set_kthread cur (th\<lparr>WaitBlock := init_wait_block, State := KTHREAD_STATE_BLOCKED\<rparr>) s"
  have z: "init_wait_block\<lparr>DeadlineNs := 0\<rparr> = init_wait_block" by (simp add: init_wait_block_def)
  define s1 where "s1 = KiInsertTimeoutQueue_list cur s0"
  have eq: "KeSleep durationNs now sw s = KiSchedule sw s1"
    using w th(1) ni by (simp add: KeSleep_def blocking_allowed_assert [OF b] Let_def cur_def s0_def s1_def z)
  have an: "fst (a_next (view s1)) = fst (a_next (view s))"
    by (simp add: a_next_def s1_def s0_def KiInsertTimeoutQueue_list_def set_kthread_def split: option.splits)
  have r1: "rest s1 = rest s"
    by (rule rest_eqI) (simp_all add: s1_def s0_def KiInsertTimeoutQueue_list_def set_kthread_def th(1))
  have "KThreads s1 (fst (a_next (view s1))) \<noteq> None"
    unfolding an rest_dom(2) [OF r1] using a_next_live [OF sched_invD(5) [OF inv]] by simp
  moreover have "dispatch_ready s1" using dispatch_ready_rest [OF r1] sched_invD(2) [OF inv] by simp
  ultimately obtain s' where sch: "KiSchedule sw s1 = Done s'" using KiSchedule_dispatch_live by blast
  have dl: "deadline_of s0 t > 0" if tin: "t \<in> set (gTimeoutQueue s)" for t
  proof -
    obtain x where x: "KThreads s t = Some x" "State x = KTHREAD_STATE_BLOCKED" "DeadlineNs (WaitBlock x) \<noteq> 0"
      using core_okD(6) [OF sched_invD(5) [OF inv], of t] tin by auto
    then have "t \<noteq> cur" using th by auto
    then show ?thesis using x by (simp add: deadline_of_def s0_def set_kthread_def word_neq_0_conv)
  qed
  have d0: "deadline_of s0 cur = 0" by (simp add: deadline_of_def s0_def set_kthread_def init_wait_block_def)
  have "timeout_insert (deadline_of s0) cur q = cur # q" if "set q \<subseteq> set (gTimeoutQueue s)" for q
    using that dl d0 by (cases q) auto
  then have "gTimeoutQueue s1 = cur # gTimeoutQueue s"
    by (simp add: s1_def KiInsertTimeoutQueue_list_def) (simp add: s0_def set_kthread_def)
  then have tq: "gTimeoutQueue s' = cur # gTimeoutQueue s" using KiSchedule_frame [OF sch] by simp
  have "map_option wait_part (KThreads s' cur) = Some (init_wait_block, Priority th)"
    using KiSchedule_frame [OF sch] by (simp add: s1_def KiInsertTimeoutQueue_list_def s0_def set_kthread_def wait_part_def)
  then obtain th' where "KThreads s' cur = Some th'" "WaitBlock th' = init_wait_block" "Priority th' = Priority th"
    by (auto simp: wait_part_def)
  then have "KiWakeTimeouts later s' = Diverge" for later
    using zero_deadline_diverges [OF _ tq] th(3) by (simp add: KiIsValidThreadPriority_def)
  then show ?thesis using eq sch by simp
qed

lemma join_claim_returned:
  assumes "KThreads s t = Some th" "TerminationClaimState th = KTHREAD_TERMINATION_CLAIM_STATE_UNCLAIMED" "st \<noteq> EC_SUCCESS"
  shows "join_complete kvaRelease t st
      (set_kthread t (th\<lparr>TerminationClaimState := KTHREAD_TERMINATION_CLAIM_STATE_JOIN_IN_PROGRESS\<rparr>) s) = Done (Returned st, s)"
proof -
  have "th\<lparr>TerminationClaimState := KTHREAD_TERMINATION_CLAIM_STATE_UNCLAIMED\<rparr> = th" using assms(2) by simp
  then have "(KThreads s)(t \<mapsto> th\<lparr>TerminationClaimState := KTHREAD_TERMINATION_CLAIM_STATE_UNCLAIMED\<rparr>) = KThreads s"
    using assms(1) by (auto simp: fun_eq_iff)
  then show ?thesis using assms by (simp add: join_complete_def KiReleaseThreadJoinClaim_def set_kthread_def)
qed

end
