(* ===== verification/SchedLife.thy ===== *)
theory SchedLife
  imports SchedThreads
begin

text \<open>
  The life of threads across calls: which threads have terminated, which of them wait for the reaper or
  for a joiner, and which threads are inside \<open>KeThreadJoin\<close>. The scheduler's routines are related to this
  by the little they may change of it.
\<close>

section \<open>The lifecycle invariant\<close>

text \<open>
  A thread's termination event is signalled exactly when it has terminated; a terminated thread holds no
  mutex; a claim is free or held by a joiner, and never held on a detached thread; the terminated list
  holds exactly the detached threads that have terminated, once each.
\<close>

definition life_ok :: "sched_state \<Rightarrow> bool" where
  "life_ok s \<longleftrightarrow>
     (\<forall>t. KThreads s t = None \<longrightarrow> Dispatchers s (TerminationCompletion t) = None) \<and>
     (\<forall>t th. KThreads s t = Some th \<longrightarrow> t \<noteq> gIdleThread s \<longrightarrow>
        (\<exists>ev. Dispatchers s (TerminationCompletion t) = Some ev \<and> DispatcherType ev = DISPATCHER_TYPE_EVENT \<and>
           (SignalState ev \<noteq> 0 \<longleftrightarrow> State th = KTHREAD_STATE_TERMINATED))) \<and>
     (\<forall>t th. KThreads s t = Some th \<longrightarrow> State th = KTHREAD_STATE_TERMINATED \<longrightarrow> t \<noteq> gIdleThread s \<and> OwnedMutexCount th = 0) \<and>
     (\<forall>t th. KThreads s t = Some th \<longrightarrow> TerminationClaimState th \<noteq> KTHREAD_TERMINATION_CLAIM_STATE_CONSUMED \<and>
        (TerminationMode th = KTHREAD_TERMINATION_MODE_DETACHED \<longrightarrow>
           TerminationClaimState th = KTHREAD_TERMINATION_CLAIM_STATE_UNCLAIMED)) \<and>
     distinct (gTerminatedList s) \<and>
     (\<forall>t. t \<in> set (gTerminatedList s) \<longleftrightarrow> (\<exists>th. KThreads s t = Some th \<and> State th = KTHREAD_STATE_TERMINATED \<and>
        TerminationMode th = KTHREAD_TERMINATION_MODE_DETACHED)) \<and>
     (\<forall>t ev. Dispatchers s (TerminationCompletion t) = Some ev \<longrightarrow> DispatcherType ev = DISPATCHER_TYPE_EVENT)"

lemma life_okD:
  assumes "life_ok s"
  shows "\<And>t. KThreads s t = None \<Longrightarrow> Dispatchers s (TerminationCompletion t) = None"
    "\<And>t th. KThreads s t = Some th \<Longrightarrow> t \<noteq> gIdleThread s \<Longrightarrow>
        \<exists>ev. Dispatchers s (TerminationCompletion t) = Some ev \<and> DispatcherType ev = DISPATCHER_TYPE_EVENT \<and>
           (SignalState ev \<noteq> 0 \<longleftrightarrow> State th = KTHREAD_STATE_TERMINATED)"
    "\<And>t th. KThreads s t = Some th \<Longrightarrow> State th = KTHREAD_STATE_TERMINATED \<Longrightarrow> t \<noteq> gIdleThread s"
    "\<And>t th. KThreads s t = Some th \<Longrightarrow> State th = KTHREAD_STATE_TERMINATED \<Longrightarrow> OwnedMutexCount th = 0"
    "\<And>t th. KThreads s t = Some th \<Longrightarrow> TerminationClaimState th \<noteq> KTHREAD_TERMINATION_CLAIM_STATE_CONSUMED"
    "\<And>t th. KThreads s t = Some th \<Longrightarrow> TerminationMode th = KTHREAD_TERMINATION_MODE_DETACHED \<Longrightarrow>
        TerminationClaimState th = KTHREAD_TERMINATION_CLAIM_STATE_UNCLAIMED"
    "distinct (gTerminatedList s)"
    "\<And>t. t \<in> set (gTerminatedList s) \<longleftrightarrow> (\<exists>th. KThreads s t = Some th \<and> State th = KTHREAD_STATE_TERMINATED \<and>
        TerminationMode th = KTHREAD_TERMINATION_MODE_DETACHED)"
    "\<And>t ev. Dispatchers s (TerminationCompletion t) = Some ev \<Longrightarrow> DispatcherType ev = DISPATCHER_TYPE_EVENT"
  using assms unfolding life_ok_def by blast+

lemma life_finished:
  assumes l: "life_ok s" and t: "KThreads s t = Some th" "State th = KTHREAD_STATE_TERMINATED"
  shows "finished s t"
proof -
  have "t \<noteq> gIdleThread s" by (rule life_okD(3) [OF l t])
  then show ?thesis using life_okD(2) [OF l t(1)] life_okD(4) [OF l t] t by (auto simp: finished_def)
qed

lemma life_reap_ok:
  assumes l: "life_ok s"
  shows "reap_ok s"
  unfolding reap_ok_def
proof (intro conjI ballI)
  show "distinct (gTerminatedList s)" by (rule life_okD(7) [OF l])
  fix t assume "t \<in> set (gTerminatedList s)"
  then obtain th where th: "KThreads s t = Some th" "State th = KTHREAD_STATE_TERMINATED" "TerminationMode th = KTHREAD_TERMINATION_MODE_DETACHED"
    using life_okD(8) [OF l, of t] by blast
  show "finished s t" by (rule life_finished [OF l th(1,2)])
  show "\<forall>th. KThreads s t = Some th \<longrightarrow> TerminationMode th = KTHREAD_TERMINATION_MODE_DETACHED \<and>
      TerminationClaimState th = KTHREAD_TERMINATION_CLAIM_STATE_UNCLAIMED"
    using th life_okD(6) [OF l th(1,3)] by simp
qed

text \<open>
  The threads whose wait has been granted, and the joins in progress: \<open>joins u = Some t\<close> when thread \<open>u\<close> is
  inside \<open>KeThreadJoin\<close> on thread \<open>t\<close>, waiting or about to complete. It then holds the claim on \<open>t\<close>, alone, and
  its wait is granted only if \<open>t\<close> has terminated.
\<close>

definition joins_ok :: "sched_state \<Rightarrow> (kthread_ref \<rightharpoonup> kthread_ref) \<Rightarrow> bool" where
  "joins_ok s joins \<longleftrightarrow>
     (\<forall>u t. joins u = Some t \<longrightarrow> (\<exists>th tht. KThreads s u = Some th \<and> KThreads s t = Some tht \<and>
        State th \<noteq> KTHREAD_STATE_TERMINATED \<and> Dispatcher (WaitBlock th) = Some (TerminationCompletion t) \<and>
        (State th = KTHREAD_STATE_BLOCKED \<or> Completed (WaitBlock th)) \<and>
        TerminationClaimState tht = KTHREAD_TERMINATION_CLAIM_STATE_JOIN_IN_PROGRESS \<and>
        (u \<in> granted s \<longrightarrow> State tht = KTHREAD_STATE_TERMINATED))) \<and>
     (\<forall>u u' t. joins u = Some t \<longrightarrow> joins u' = Some t \<longrightarrow> u = u')"

lemma joins_okD:
  assumes "joins_ok s joins"
  shows "\<And>u t. joins u = Some t \<Longrightarrow> \<exists>th tht. KThreads s u = Some th \<and> KThreads s t = Some tht \<and>
        State th \<noteq> KTHREAD_STATE_TERMINATED \<and> Dispatcher (WaitBlock th) = Some (TerminationCompletion t) \<and>
        (State th = KTHREAD_STATE_BLOCKED \<or> Completed (WaitBlock th)) \<and>
        TerminationClaimState tht = KTHREAD_TERMINATION_CLAIM_STATE_JOIN_IN_PROGRESS \<and>
        (u \<in> granted s \<longrightarrow> State tht = KTHREAD_STATE_TERMINATED)"
    "\<And>u u' t. joins u = Some t \<Longrightarrow> joins u' = Some t \<Longrightarrow> u = u'"
  using assms unfolding joins_ok_def by blast+

section \<open>What a scheduling step keeps of it\<close>

text \<open>
  On the view: no thread appears, disappears, terminates or revives, and a thread outside \<open>S\<close> keeps the object
  it waits for, does not lose the completion of its wait, and leaves the blocked state only by a completion.
\<close>

definition vstep :: "kthread_ref set \<Rightarrow> cview \<Rightarrow> cview \<Rightarrow> bool" where
  "vstep S v v' \<longleftrightarrow> cIdle v' = cIdle v \<and> (\<forall>u. cTV v u = None \<longrightarrow> cTV v' u = None) \<and>
     (\<forall>u x. cTV v u = Some x \<longrightarrow> (\<exists>x'. cTV v' u = Some x' \<and>
        (vState x' = KTHREAD_STATE_TERMINATED \<longleftrightarrow> vState x = KTHREAD_STATE_TERMINATED) \<and>
        (u \<notin> S \<longrightarrow> vDisp x' = vDisp x \<and> (vCompleted x \<longrightarrow> vCompleted x') \<and>
           (vState x = KTHREAD_STATE_BLOCKED \<longrightarrow> vState x' = KTHREAD_STATE_BLOCKED \<or> vCompleted x'))))"

lemma vstep_refl [simp]: "vstep S v v"
  by (simp add: vstep_def)

lemma vstep_trans:
  assumes a: "vstep S v v1" and b: "vstep S v1 v2"
  shows "vstep S v v2"
  unfolding vstep_def
proof (intro conjI allI impI)
  show "cIdle v2 = cIdle v" using a b by (simp add: vstep_def)
  show "cTV v2 u = None" if "cTV v u = None" for u using a b that by (simp add: vstep_def)
  fix u x assume x: "cTV v u = Some x"
  obtain x1 where x1: "cTV v1 u = Some x1" "vState x1 = KTHREAD_STATE_TERMINATED \<longleftrightarrow> vState x = KTHREAD_STATE_TERMINATED"
    "u \<notin> S \<Longrightarrow> vDisp x1 = vDisp x \<and> (vCompleted x \<longrightarrow> vCompleted x1) \<and> (vState x = KTHREAD_STATE_BLOCKED \<longrightarrow> vState x1 = KTHREAD_STATE_BLOCKED \<or> vCompleted x1)"
    using a x unfolding vstep_def by blast
  obtain x2 where x2: "cTV v2 u = Some x2" "vState x2 = KTHREAD_STATE_TERMINATED \<longleftrightarrow> vState x1 = KTHREAD_STATE_TERMINATED"
    "u \<notin> S \<Longrightarrow> vDisp x2 = vDisp x1 \<and> (vCompleted x1 \<longrightarrow> vCompleted x2) \<and> (vState x1 = KTHREAD_STATE_BLOCKED \<longrightarrow> vState x2 = KTHREAD_STATE_BLOCKED \<or> vCompleted x2)"
    using b x1(1) unfolding vstep_def by blast
  have "u \<notin> S \<longrightarrow> vDisp x2 = vDisp x \<and> (vCompleted x \<longrightarrow> vCompleted x2) \<and> (vState x = KTHREAD_STATE_BLOCKED \<longrightarrow> vState x2 = KTHREAD_STATE_BLOCKED \<or> vCompleted x2)"
    using x1(3) x2(3) by metis
  then show "\<exists>x'. cTV v2 u = Some x' \<and> (vState x' = KTHREAD_STATE_TERMINATED \<longleftrightarrow> vState x = KTHREAD_STATE_TERMINATED) \<and>
      (u \<notin> S \<longrightarrow> vDisp x' = vDisp x \<and> (vCompleted x \<longrightarrow> vCompleted x') \<and> (vState x = KTHREAD_STATE_BLOCKED \<longrightarrow> vState x' = KTHREAD_STATE_BLOCKED \<or> vCompleted x'))"
    using x2(1,2) x1(2) by (intro exI [of _ x2]) simp
qed

text \<open>One thread changes.\<close>

lemma vstep_one:
  assumes "cTV v t = Some x" "cTV v' = (cTV v)(t \<mapsto> y)" "cIdle v' = cIdle v"
    and "vState y = KTHREAD_STATE_TERMINATED \<longleftrightarrow> vState x = KTHREAD_STATE_TERMINATED"
    and "t \<notin> S \<Longrightarrow> vDisp y = vDisp x \<and> (vCompleted x \<longrightarrow> vCompleted y) \<and> (vState x = KTHREAD_STATE_BLOCKED \<longrightarrow> vState y = KTHREAD_STATE_BLOCKED \<or> vCompleted y)"
  shows "vstep S v v'"
  unfolding vstep_def
proof (intro conjI allI impI)
  show "cIdle v' = cIdle v" by (rule assms(3))
  show "cTV v' u = None" if "cTV v u = None" for u using that assms(1,2) by auto
  fix u z assume z: "cTV v u = Some z"
  show "\<exists>x'. cTV v' u = Some x' \<and> (vState x' = KTHREAD_STATE_TERMINATED \<longleftrightarrow> vState z = KTHREAD_STATE_TERMINATED) \<and>
      (u \<notin> S \<longrightarrow> vDisp x' = vDisp z \<and> (vCompleted z \<longrightarrow> vCompleted x') \<and> (vState z = KTHREAD_STATE_BLOCKED \<longrightarrow> vState x' = KTHREAD_STATE_BLOCKED \<or> vCompleted x'))"
  proof (cases "u = t")
    case True
    then show ?thesis using z assms(1,2,4,5) by (intro exI [of _ y]) simp
  next
    case False
    then show ?thesis using z assms(2) by (intro exI [of _ z]) simp
  qed
qed

definition vlive :: "cview \<Rightarrow> kthread_ref \<Rightarrow> bool" where
  "vlive v t \<longleftrightarrow> (\<exists>x. cTV v t = Some x \<and> vState x \<noteq> KTHREAD_STATE_TERMINATED)"

lemma vlive_step: "vstep S v v' \<Longrightarrow> vlive v t \<Longrightarrow> vlive v' t"
  unfolding vstep_def vlive_def by metis

lemma vstep_ready:
  assumes "cTV v t = Some x" "vState x = KTHREAD_STATE_NEW \<or> vState x = KTHREAD_STATE_RUNNING"
  shows "vstep S v (a_ready t v)"
  by (rule vstep_one [OF assms(1), where y = "x\<lparr>vState := KTHREAD_STATE_READY\<rparr>"]) (use assms in \<open>auto simp: a_ready_def Let_def\<close>)

lemma vstep_wake: "vlive v t \<Longrightarrow> vstep S v (a_wake t v)"
  unfolding vlive_def
proof (elim exE conjE)
  fix x assume x: "cTV v t = Some x" "vState x \<noteq> KTHREAD_STATE_TERMINATED"
  show "vstep S v (a_wake t v)" 
    by (rule vstep_one [OF x(1), where y = "x\<lparr>vState := KTHREAD_STATE_READY, vCompleted := True\<rparr>"]) (use x in \<open>auto simp: a_wake_def Let_def\<close>)
qed

lemma vstep_fold_wake: "(\<And>t. t \<in> set ts \<Longrightarrow> vlive v t) \<Longrightarrow> vstep S v (fold a_wake ts v)"
proof (induction ts arbitrary: v)
  case (Cons t ts)
  have s: "vstep S v (a_wake t v)" using Cons.prems by (intro vstep_wake) simp
  have "vstep S (a_wake t v) (fold a_wake ts (a_wake t v))"
    by (rule Cons.IH) (use Cons.prems vlive_step [OF s] in simp)
  then show ?case using vstep_trans [OF s] by simp
qed simp

lemma vstep_block:
  assumes "cTV v (cCur v) = Some x" "vState x = KTHREAD_STATE_RUNNING" "cCur v \<in> S"
  shows "vstep S v (a_block d deadline v)"
  by (rule vstep_one [OF assms(1)]) (use assms in \<open>auto simp: a_block_def Let_def\<close>)

lemma vstep_dispatch:
  assumes ok: "core_ok v" and idle: "vlive v (cIdle v)"
  shows "vstep S v (a_dispatch v)"
proof -
  obtain t rq where n: "a_next v = (t, rq)" by (cases "a_next v")
  have "\<exists>x. cTV v t = Some x \<and> vState x \<noteq> KTHREAD_STATE_TERMINATED \<and> vState x \<noteq> KTHREAD_STATE_BLOCKED"
  proof (cases "find (\<lambda>k. cRQ v k \<noteq> []) (rev [0..<KTHREAD_PRIORITY_COUNT])")
    case None
    then have "t = cIdle v" using n by (simp add: a_next_def)
    then show ?thesis using idle core_okD(9) [OF ok, of t] by (auto simp: vlive_def tview_ok_def)
  next
    case (Some k)
    then have k: "k < KTHREAD_PRIORITY_COUNT" "cRQ v k \<noteq> []" by (simp_all add: find_high_Some)
    have "t = hd (cRQ v k)" using n Some by (simp add: a_next_def)
    then have "t \<in> set (cRQ v k)" using k(2) by simp
    then obtain x where "cTV v t = Some x" "vState x = KTHREAD_STATE_READY" using core_okD(3) [OF ok k(1)] by blast
    then show ?thesis by simp
  qed
  then obtain x where x: "cTV v t = Some x" "vState x \<noteq> KTHREAD_STATE_TERMINATED" "vState x \<noteq> KTHREAD_STATE_BLOCKED" by blast
  show ?thesis 
    by (rule vstep_one [OF x(1), where y = "x\<lparr>vState := KTHREAD_STATE_RUNNING\<rparr>"]) (use n x in \<open>auto simp: a_dispatch_def\<close>)
qed

text \<open>Outside the view.\<close>

definition life_same :: "sched_state \<Rightarrow> sched_state \<Rightarrow> bool" where
  "life_same s s' \<longleftrightarrow> gTerminatedList s' = gTerminatedList s \<and>
     (\<forall>t th th'. KThreads s t = Some th \<longrightarrow> KThreads s' t = Some th' \<longrightarrow> TerminationMode th' = TerminationMode th \<and>
        TerminationClaimState th' = TerminationClaimState th \<and>
        (State th = KTHREAD_STATE_TERMINATED \<longrightarrow> OwnedMutexCount th' = OwnedMutexCount th)) \<and>
     (\<forall>t. map_option (\<lambda>ob. (DispatcherType ob, SignalState ob)) (Dispatchers s' (TerminationCompletion t)) =
        map_option (\<lambda>ob. (DispatcherType ob, SignalState ob)) (Dispatchers s (TerminationCompletion t)))"

lemma life_same_refl [simp]: "life_same s s"
  by (simp add: life_same_def)

lemma life_same_rest:
  assumes r: "rest s' = rest s"
  shows "life_same s s'"
  unfolding life_same_def
proof (intro conjI allI impI)
  show "gTerminatedList s' = gTerminatedList s" by (rule rest_eqD(3) [OF r])
  fix t th th' assume t: "KThreads s t = Some th" "KThreads s' t = Some th'"
  have "erase_thread th' = erase_thread th" using rest_thread [OF r t(2)] t(1) by auto
  then show "TerminationMode th' = TerminationMode th" "TerminationClaimState th' = TerminationClaimState th" "OwnedMutexCount th' = OwnedMutexCount th"
    using erase_thread_fields by blast+
next
  fix t
  show "map_option (\<lambda>ob. (DispatcherType ob, SignalState ob)) (Dispatchers s' (TerminationCompletion t)) =
        map_option (\<lambda>ob. (DispatcherType ob, SignalState ob)) (Dispatchers s (TerminationCompletion t))"
  proof (cases "Dispatchers s' (TerminationCompletion t)")
    case None
    then show ?thesis using rest_dom(1) [OF r] by (auto simp: domIff)
  next
    case (Some ob')
    obtain ob where ob: "Dispatchers s (TerminationCompletion t) = Some ob" "ob' = ob\<lparr>WaitListHead := WaitListHead ob'\<rparr>"
      using rest_dispatcher [OF r Some] .
    have "DispatcherType ob' = DispatcherType ob" "SignalState ob' = SignalState ob" by (subst ob(2), simp)+
    then show ?thesis using Some ob(1) by simp
  qed
qed

lemma step_thread:
  assumes "vstep S (view s) (view s')" "KThreads s' t = Some th'"
  obtains th where "KThreads s t = Some th" "State th' = KTHREAD_STATE_TERMINATED \<longleftrightarrow> State th = KTHREAD_STATE_TERMINATED"
    "t \<notin> S \<Longrightarrow> Dispatcher (WaitBlock th') = Dispatcher (WaitBlock th)"
    "t \<notin> S \<Longrightarrow> Completed (WaitBlock th) \<Longrightarrow> Completed (WaitBlock th')"
    "t \<notin> S \<Longrightarrow> State th = KTHREAD_STATE_BLOCKED \<Longrightarrow> State th' = KTHREAD_STATE_BLOCKED \<or> Completed (WaitBlock th')"
proof -
  obtain th where th: "KThreads s t = Some th" using assms unfolding vstep_def by (cases "KThreads s t") fastforce+
  then show thesis using assms that [of th] unfolding vstep_def by fastforce
qed

lemma step_thread':
  assumes "vstep S (view s) (view s')" "KThreads s t = Some th"
  obtains th' where "KThreads s' t = Some th'"
  using assms unfolding vstep_def by fastforce

lemma life_ok_step:
  assumes l: "life_ok s" and same: "life_same s s'" and v: "vstep S (view s) (view s')"
  shows "life_ok s'"
proof -
  have idle: "gIdleThread s' = gIdleThread s" using v by (simp add: vstep_def)
  have sig: "map_option (\<lambda>ob. (DispatcherType ob, SignalState ob)) (Dispatchers s' (TerminationCompletion t)) =
      map_option (\<lambda>ob. (DispatcherType ob, SignalState ob)) (Dispatchers s (TerminationCompletion t))" for t
    using same by (simp add: life_same_def)
  have tl: "gTerminatedList s' = gTerminatedList s" using same by (simp add: life_same_def)
  have fields: "TerminationMode th' = TerminationMode th \<and> TerminationClaimState th' = TerminationClaimState th \<and>
      (State th = KTHREAD_STATE_TERMINATED \<longrightarrow> OwnedMutexCount th' = OwnedMutexCount th)"
    if "KThreads s t = Some th" "KThreads s' t = Some th'" for t th th' using same that by (simp add: life_same_def)
  have prev: "\<exists>th. KThreads s t = Some th \<and> (State th' = KTHREAD_STATE_TERMINATED \<longleftrightarrow> State th = KTHREAD_STATE_TERMINATED) \<and>
      TerminationMode th' = TerminationMode th \<and> TerminationClaimState th' = TerminationClaimState th \<and>
      (State th = KTHREAD_STATE_TERMINATED \<longrightarrow> OwnedMutexCount th' = OwnedMutexCount th)" if t: "KThreads s' t = Some th'" for t th'
  proof -
    obtain th where "KThreads s t = Some th" "State th' = KTHREAD_STATE_TERMINATED \<longleftrightarrow> State th = KTHREAD_STATE_TERMINATED"
      using step_thread [OF v t] by blast
    then show ?thesis using fields t by blast
  qed
  show ?thesis unfolding life_ok_def
  proof (intro conjI allI impI)
    fix t assume "KThreads s' t = None"
    then have "KThreads s t = None" using step_thread' [OF v, of t] by (cases "KThreads s t") auto
    then show "Dispatchers s' (TerminationCompletion t) = None" using life_okD(1) [OF l, of t] sig [of t] by simp
  next
    fix t th' assume t: "KThreads s' t = Some th'" "t \<noteq> gIdleThread s'"
    obtain th where th: "KThreads s t = Some th" "State th' = KTHREAD_STATE_TERMINATED \<longleftrightarrow> State th = KTHREAD_STATE_TERMINATED"
      using prev [OF t(1)] by blast
    obtain ev where "Dispatchers s (TerminationCompletion t) = Some ev" "DispatcherType ev = DISPATCHER_TYPE_EVENT"
      "SignalState ev \<noteq> 0 \<longleftrightarrow> State th = KTHREAD_STATE_TERMINATED" using life_okD(2) [OF l th(1)] t(2) idle by auto
    then show "\<exists>ev. Dispatchers s' (TerminationCompletion t) = Some ev \<and> DispatcherType ev = DISPATCHER_TYPE_EVENT \<and>
        (SignalState ev \<noteq> 0 \<longleftrightarrow> State th' = KTHREAD_STATE_TERMINATED)" using sig [of t] th(2) by auto
  next
    fix t th' assume t: "KThreads s' t = Some th'" "State th' = KTHREAD_STATE_TERMINATED"
    show "t \<noteq> gIdleThread s'" "OwnedMutexCount th' = 0"
      using prev [OF t(1)] t(2) life_okD(3,4) [OF l, of t] idle by auto
  next
    fix t th' assume t: "KThreads s' t = Some th'"
    show "TerminationClaimState th' \<noteq> KTHREAD_TERMINATION_CLAIM_STATE_CONSUMED" using prev [OF t] life_okD(5) [OF l, of t] by auto
  next
    fix t th' assume t: "KThreads s' t = Some th'" "TerminationMode th' = KTHREAD_TERMINATION_MODE_DETACHED"
    show "TerminationClaimState th' = KTHREAD_TERMINATION_CLAIM_STATE_UNCLAIMED"
      using prev [OF t(1)] t(2) life_okD(6) [OF l, of t] by auto
  next
    show "distinct (gTerminatedList s')" using life_okD(7) [OF l] tl by simp
  next
    fix t
    have "(\<exists>th. KThreads s' t = Some th \<and> State th = KTHREAD_STATE_TERMINATED \<and> TerminationMode th = KTHREAD_TERMINATION_MODE_DETACHED) \<longleftrightarrow>
        (\<exists>th. KThreads s t = Some th \<and> State th = KTHREAD_STATE_TERMINATED \<and> TerminationMode th = KTHREAD_TERMINATION_MODE_DETACHED)"
    proof (cases "KThreads s' t")
      case None
      then have "KThreads s t = None" using step_thread' [OF v, of t] by (cases "KThreads s t") auto
      then show ?thesis using None by simp
    next
      case (Some th')
      then show ?thesis using prev [OF Some] by auto
    qed
    then show "t \<in> set (gTerminatedList s') \<longleftrightarrow> (\<exists>th. KThreads s' t = Some th \<and> State th = KTHREAD_STATE_TERMINATED \<and>
        TerminationMode th = KTHREAD_TERMINATION_MODE_DETACHED)" unfolding tl by (simp only: life_okD(8) [OF l, of t])
  next
    fix t ev assume "Dispatchers s' (TerminationCompletion t) = Some ev"
    then show "DispatcherType ev = DISPATCHER_TYPE_EVENT" 
      using sig [of t] life_okD(9) [OF l, of t] by (cases "Dispatchers s (TerminationCompletion t)") auto
  qed
qed

lemma joins_ok_step:
  assumes j: "joins_ok s joins" and same: "life_same s s'" and v: "vstep S (view s) (view s')"
    and free: "\<And>u t. joins u = Some t \<Longrightarrow> u \<notin> S"
    and grant: "\<And>u t. joins u = Some t \<Longrightarrow> u \<in> granted s' \<Longrightarrow>
      u \<in> granted s \<or> (\<exists>tht. KThreads s t = Some tht \<and> State tht = KTHREAD_STATE_TERMINATED)"
  shows "joins_ok s' joins"
  unfolding joins_ok_def
proof (intro conjI allI impI)
  fix u t assume u: "joins u = Some t"
  obtain th tht where th: "KThreads s u = Some th" "KThreads s t = Some tht" "State th \<noteq> KTHREAD_STATE_TERMINATED"
    "Dispatcher (WaitBlock th) = Some (TerminationCompletion t)" "State th = KTHREAD_STATE_BLOCKED \<or> Completed (WaitBlock th)"
    "TerminationClaimState tht = KTHREAD_TERMINATION_CLAIM_STATE_JOIN_IN_PROGRESS"
    "u \<in> granted s \<longrightarrow> State tht = KTHREAD_STATE_TERMINATED"
    using joins_okD(1) [OF j u] by blast
  obtain th' where u': "KThreads s' u = Some th'" using step_thread' [OF v th(1)] .
  obtain tht' where t': "KThreads s' t = Some tht'" using step_thread' [OF v th(2)] .
  have "State th' = KTHREAD_STATE_TERMINATED \<longleftrightarrow> State th = KTHREAD_STATE_TERMINATED"
    "Dispatcher (WaitBlock th') = Dispatcher (WaitBlock th)" "Completed (WaitBlock th) \<Longrightarrow> Completed (WaitBlock th')"
    "State th = KTHREAD_STATE_BLOCKED \<Longrightarrow> State th' = KTHREAD_STATE_BLOCKED \<or> Completed (WaitBlock th')"
    using step_thread [OF v u'] th(1) free [OF u] by auto
  moreover have "TerminationClaimState tht' = TerminationClaimState tht" using same th(2) t' by (simp add: life_same_def)
  moreover have "State tht' = KTHREAD_STATE_TERMINATED \<longleftrightarrow> State tht = KTHREAD_STATE_TERMINATED"
    using step_thread [OF v t'] th(2) by auto
  ultimately show "\<exists>th tht. KThreads s' u = Some th \<and> KThreads s' t = Some tht \<and>
        State th \<noteq> KTHREAD_STATE_TERMINATED \<and> Dispatcher (WaitBlock th) = Some (TerminationCompletion t) \<and>
        (State th = KTHREAD_STATE_BLOCKED \<or> Completed (WaitBlock th)) \<and>
        TerminationClaimState tht = KTHREAD_TERMINATION_CLAIM_STATE_JOIN_IN_PROGRESS \<and>
        (u \<in> granted s' \<longrightarrow> State tht = KTHREAD_STATE_TERMINATED)"
    using u' t' th grant [OF u] by (intro exI [of _ th'] exI [of _ tht']) auto
next
  fix u u' t assume "joins u = Some t" "joins u' = Some t"
  then show "u = u'" by (rule joins_okD(2) [OF j])
qed

section \<open>The calls that end no thread\<close>

text \<open>
  \<open>keeps S W s s'\<close>: the scheduler invariant holds afterwards, only threads of \<open>S\<close> have had their wait replaced,
  and only waits of threads of \<open>W\<close> have been granted.
\<close>

definition keeps :: "kthread_ref set \<Rightarrow> kthread_ref set \<Rightarrow> sched_state \<Rightarrow> sched_state \<Rightarrow> bool" where
  "keeps S W s s' \<longleftrightarrow> sched_inv s' \<and> life_same s s' \<and> vstep S (view s) (view s') \<and> granted s' \<subseteq> granted s \<union> W"

lemma keeps_life: "life_ok s \<Longrightarrow> keeps S W s s' \<Longrightarrow> life_ok s'"
  unfolding keeps_def by (blast intro: life_ok_step)

lemma keeps_joins:
  assumes "joins_ok s joins" "keeps S W s s'" "\<And>u t. joins u = Some t \<Longrightarrow> u \<notin> S \<and> u \<notin> W"
  shows "joins_ok s' joins"
  by (rule joins_ok_step [OF assms(1)]) (use assms(2,3) in \<open>auto simp: keeps_def\<close>)

lemma keeps_refl: "sched_inv s \<Longrightarrow> keeps S W s s"
  by (simp add: keeps_def)

lemma idle_live:
  assumes inv: "sched_inv s" and l: "life_ok s"
  shows "vlive (view s) (gIdleThread s)"
proof -
  obtain th where th: "KThreads s (gIdleThread s) = Some th" using core_okD(10) [OF sched_invD(5) [OF inv]] by auto
  then show ?thesis using life_okD(3) [OF l th] by (auto simp: vlive_def)
qed

lemma waiter_of:
  assumes "sched_inv s" "joins_ok s joins" "Dispatchers s d = Some ob" "u \<in> set (WaitListHead ob)" "joins u = Some t"
  shows "d = TerminationCompletion t"
proof -
  have "\<exists>x. cTV (view s) u = Some x \<and> vState x = KTHREAD_STATE_BLOCKED \<and> vDisp x = Some d"
    using core_okD(8) [OF sched_invD(5) [OF assms(1)], of d "WaitListHead ob" u] assms(3,4) by simp
  then show ?thesis using joins_okD(1) [OF assms(2,5)] by auto
qed

lemma life_same_via:
  assumes "life_same s s1" "rest s' = rest s1" "\<And>t. map_option State (KThreads s1 t) = map_option State (KThreads s t)"
  shows "life_same s s'"
proof -
  have r: "life_same s1 s'" by (rule life_same_rest [OF assms(2)])
  show ?thesis unfolding life_same_def
  proof (intro conjI allI impI)
    show "gTerminatedList s' = gTerminatedList s" using assms(1) r by (simp add: life_same_def)
    fix t th th' assume t: "KThreads s t = Some th" "KThreads s' t = Some th'"
    obtain th1 where t1: "KThreads s1 t = Some th1" "State th1 = State th" using assms(3) [of t] t(1) by auto
    show "TerminationMode th' = TerminationMode th" "TerminationClaimState th' = TerminationClaimState th"
      using assms(1) r t t1 by (simp_all add: life_same_def)
    show "OwnedMutexCount th' = OwnedMutexCount th" if "State th = KTHREAD_STATE_TERMINATED"
      using assms(1) r t t1 that by (simp add: life_same_def)
  next
    fix t show "map_option (\<lambda>ob. (DispatcherType ob, SignalState ob)) (Dispatchers s' (TerminationCompletion t)) =
        map_option (\<lambda>ob. (DispatcherType ob, SignalState ob)) (Dispatchers s (TerminationCompletion t))"
      using assms(1) r by (simp add: life_same_def)
  qed
qed

lemma life_same_object: "\<forall>t. d \<noteq> TerminationCompletion t \<Longrightarrow> life_same s (set_dispatcher d ob s)"
  by (auto simp: life_same_def set_dispatcher_def)

lemma rest_set_dispatcher: "rest s1 = rest s \<Longrightarrow> rest (set_dispatcher d ob s1) = rest (set_dispatcher d ob s)"
proof -
  have "rest (set_dispatcher d ob s) = (rest s)\<lparr>Dispatchers := (Dispatchers (rest s))(d \<mapsto> erase_dispatcher ob)\<rparr>" for s
    by (cases s) (auto simp: rest_def set_dispatcher_def fun_eq_iff)
  then show "rest s1 = rest s \<Longrightarrow> rest (set_dispatcher d ob s1) = rest (set_dispatcher d ob s)" by simp
qed

lemma life_same_owner:
  assumes "\<forall>t. d \<noteq> TerminationCompletion t"
    and "\<And>t th. OwnerThread m = Some t \<or> new = Some t \<Longrightarrow> KThreads s t = Some th \<Longrightarrow> State th \<noteq> KTHREAD_STATE_TERMINATED"
  shows "life_same s (move_owner d m new s)"
  using assms by (auto simp: life_same_def move_owner_def)

lemma not_completion: "life_ok s \<Longrightarrow> Dispatchers s d = Some ob \<Longrightarrow> DispatcherType ob \<noteq> DISPATCHER_TYPE_EVENT \<Longrightarrow> \<forall>t. d \<noteq> TerminationCompletion t"
  using life_okD(9) by blast

lemma waiters_live:
  assumes "sched_inv s" "Dispatchers s d = Some ob" "t \<in> set (WaitListHead ob)"
  shows "vlive (view s) t"
proof -
  have "\<exists>x. cTV (view s) t = Some x \<and> vState x = KTHREAD_STATE_BLOCKED"
    using core_okD(8) [OF sched_invD(5) [OF assms(1)], of d "WaitListHead ob" t] assms(2,3) by auto
  then show ?thesis unfolding vlive_def by (metis KTHREAD_STATE.distinct(19))
qed

lemma vstep_woken:
  assumes inv: "sched_inv s" and l: "life_ok s" and ob: "Dispatchers s d = Some ob" and m: "m \<le> length (WaitListHead ob)"
    and w: "woken d (take m (WaitListHead ob)) s s'"
  shows "vstep S (view s) (view s')"
proof -
  define v where "v = fold a_wake (take m (WaitListHead ob)) (view s)"
  have v: "vstep S (view s) v" unfolding v_def
    by (rule vstep_fold_wake) (use waiters_live [OF inv ob] in \<open>auto dest: in_set_takeD\<close>)
  have c: "core_ok v" using fold_a_wake_core [OF sched_invD(5) [OF inv], of d "WaitListHead ob" m] ob m by (simp add: v_def)
  have "vlive v (cIdle (view s))" using vlive_step [OF v] idle_live [OF inv l] by simp
  then have i: "vlive v (cIdle v)" by (simp add: v_def)
  show ?thesis using w v vstep_trans [OF v vstep_dispatch [OF c i]] by (auto simp: woken_def v_def)
qed

lemma keeps_set_event:
  assumes inv: "sched_inv s" and l: "life_ok s" and ev: "Dispatchers s (DispatcherAt x) = Some ev" "DispatcherType ev = DISPATCHER_TYPE_EVENT"
  shows "\<exists>s'. KeSetEvent (DispatcherAt x) now s = Done s' \<and> keeps {} (set (WaitListHead ev)) s s'"
proof -
  obtain s' where s': "KeSetEvent (DispatcherAt x) now s = Done s'" "sched_inv s'" "woken (DispatcherAt x) (WaitListHead ev) s s'"
    "rest s' = rest (set_dispatcher (DispatcherAt x) (ev\<lparr>SignalState := 1\<rparr>) s)" "granted s' \<subseteq> granted s \<union> set (WaitListHead ev)"
    using KeSetEvent_effect [OF inv ev] by blast
  have "life_same s s'" by (rule life_same_via [OF life_same_object s'(4)]) (simp_all add: set_dispatcher_def)
  moreover have "vstep {} (view s) (view s')" using vstep_woken [OF inv l ev(1), of "length (WaitListHead ev)"] s'(3) by simp
  ultimately show ?thesis using s' by (simp add: keeps_def)
qed

lemma keeps_reset_event:
  assumes inv: "sched_inv s" and ev: "Dispatchers s (DispatcherAt x) = Some ev" "DispatcherType ev = DISPATCHER_TYPE_EVENT"
  shows "\<exists>s'. KeResetEvent (DispatcherAt x) s = Done s' \<and> keeps {} {} s s'"
proof -
  note e = KeResetEvent_spec [OF inv ev]
  have "view (set_dispatcher (DispatcherAt x) (ev\<lparr>SignalState := 0\<rparr>) s) = view s" by (rule view_set_dispatcher [OF ev(1)]) simp
  moreover have "granted (set_dispatcher (DispatcherAt x) (ev\<lparr>SignalState := 0\<rparr>) s) = granted s" by (simp add: granted_def set_dispatcher_def)
  ultimately show ?thesis using e life_same_object [of "DispatcherAt x"] by (simp add: keeps_def)
qed

lemma keeps_release_semaphore:
  assumes inv: "sched_inv s" and l: "life_ok s" and sem: "Dispatchers s d = Some sem" "DispatcherType sem = DISPATCHER_TYPE_SEMAPHORE"
    and len: "length (WaitListHead sem) < 2 ^ 31"
  shows "\<exists>st s'. KeReleaseSemaphore (Some d) n now s = Done (st, s') \<and> keeps {} (set (WaitListHead sem)) s s'"
proof -
  have nd: "\<forall>t. d \<noteq> TerminationCompletion t" using not_completion [OF l sem(1)] sem(2) by simp
  consider "n \<le> 0" | "n > 0" "SignalState sem + max 0 (n - int (length (WaitListHead sem))) > Limit sem"
    | "n > 0" "SignalState sem + max 0 (n - int (length (WaitListHead sem))) \<le> Limit sem" by linarith
  then show ?thesis
  proof cases
    case 1 then show ?thesis using keeps_refl [OF inv] by (simp add: KeReleaseSemaphore_def)
  next
    case 2 then show ?thesis using keeps_refl [OF inv] KeReleaseSemaphore_overflow [OF inv sem _ len] by simp
  next
    case 3
    obtain s' s1 sem2 where s': "KeReleaseSemaphore (Some d) n now s = Done (EC_SUCCESS, s')" "sched_inv s'"
      "woken d (take (nat n) (WaitListHead sem)) s s'" "granted s' \<subseteq> granted s \<union> set (take (nat n) (WaitListHead sem))"
      and r: "rest s1 = rest s" "rest s' = rest (set_dispatcher d sem2 s1)"
      using KeReleaseSemaphore_effect [OF inv sem 3(1) len 3(2), of now] by blast
    have "rest s' = rest (set_dispatcher d sem2 s)" using r(2) rest_set_dispatcher [OF r(1)] by simp
    then have "life_same s s'" by (rule life_same_via [OF life_same_object [OF nd]]) (simp add: set_dispatcher_def)
    moreover have "vstep {} (view s) (view s')"
    proof -
      have "take (nat n) (WaitListHead sem) = take (min (nat n) (length (WaitListHead sem))) (WaitListHead sem)" by (simp add: min_def)
      then show ?thesis using vstep_woken [OF inv l sem(1), of "min (nat n) (length (WaitListHead sem))"] s'(3) by simp
    qed
    ultimately show ?thesis using s' set_take_subset [of "nat n" "WaitListHead sem"] by (auto simp: keeps_def)
  qed
qed

lemma running_alive:
  assumes "sched_inv s" "KThreads s (gCurrentThread s) = Some th"
  shows "State th = KTHREAD_STATE_RUNNING"
  using running_current [OF assms(1)] assms(2) by auto

lemma keeps_release_mutex:
  assumes inv: "sched_inv s" and l: "life_ok s" and m: "Dispatchers s d = Some m" "DispatcherType m = DISPATCHER_TYPE_MUTEX"
    and cnt: "\<And>u uh. u \<in> set (WaitListHead m) \<Longrightarrow> KThreads s u = Some uh \<Longrightarrow> OwnedMutexCount uh \<noteq> 0xFFFFFFFF"
  shows "\<exists>st s'. KeReleaseMutex (Some d) s = Done (st, s') \<and> keeps {} (set (WaitListHead m)) s s'"
proof -
  have nd: "\<forall>t. d \<noteq> TerminationCompletion t" using not_completion [OF l m(1)] m(2) by simp
  show ?thesis
  proof (cases "OwnerThread m = Some (gCurrentThread s)")
    case False
    then show ?thesis using keeps_refl [OF inv] KeReleaseMutex_not_owner [OF inv m] by simp
  next
    case own: True
    have ow: "State th \<noteq> KTHREAD_STATE_TERMINATED" if "OwnerThread m = Some t" "KThreads s t = Some th" for t th
      using running_alive [OF inv, of th] that own by simp
    show ?thesis
    proof (cases "WaitListHead m")
      case Nil
      note f = KeReleaseMutex_free [OF inv m own Nil]
      have "life_same s (move_owner d m None s)" by (rule life_same_owner [OF nd]) (use ow in auto)
      moreover have "granted (move_owner d m None s) = granted s"
        by (rule granted_cong) (simp add: move_owner_def option.map_comp comp_def)
      ultimately show ?thesis using f move_owner_frame(1) [OF m(1)] by (simp add: keeps_def)
    next
      case (Cons u ws)
      obtain s' where s': "KeReleaseMutex (Some d) s = Done (EC_SUCCESS, s')" "sched_inv s'" "view s' = a_wake u (view s)"
        "rest s' = rest (move_owner d m (Some u) s)" "granted s' \<subseteq> granted s \<union> {u}"
        using KeReleaseMutex_handoff_effect [OF inv m own Cons] cnt Cons by auto
      have ul: "vlive (view s) u" by (rule waiters_live [OF inv m(1)]) (simp add: Cons)
      have "life_same s (move_owner d m (Some u) s)"
        by (rule life_same_owner [OF nd]) (use ow ul in \<open>auto simp: vlive_def\<close>)
      then have "life_same s s'" by (rule life_same_via [OF _ s'(4)]) (simp add: move_owner_def option.map_comp comp_def)
      then show ?thesis using s' vstep_wake [OF ul] Cons by (auto simp: keeps_def)
    qed
  qed
qed

lemma vstep_mono: "vstep S v v' \<Longrightarrow> S \<subseteq> T \<Longrightarrow> vstep T v v'"
  unfolding vstep_def by blast

lemma blocked_keeps:
  assumes inv: "sched_inv s" and l: "life_ok s" and b: "blocking_allowed s"
    and v: "view s' = a_dispatch (a_block d deadline (view s))"
    and d: "\<And>e. d = Some e \<Longrightarrow> Dispatchers s e \<noteq> None" and dl: "\<And>n. deadline = Some n \<Longrightarrow> n \<noteq> 0" "d \<noteq> None \<or> deadline \<noteq> None"
  shows "vstep {gCurrentThread s} (view s) (view s')"
proof -
  obtain th where th: "KThreads s (gCurrentThread s) = Some th" "State th = KTHREAD_STATE_RUNNING" using running_current [OF inv] .
  define v1 where "v1 = a_block d deadline (view s)"
  have c: "core_ok v1" unfolding v1_def
    by (rule a_block_ok [OF sched_invD(5) [OF inv] refl]) (use th b d dl in \<open>auto simp: blocking_allowed_def\<close>)
  have s1: "vstep {gCurrentThread s} (view s) v1" unfolding v1_def by (rule vstep_block [of _ "tview_of th"]) (use th in auto)
  have "vlive v1 (cIdle (view s))" using vlive_step [OF s1] idle_live [OF inv l] by simp
  then have "vlive v1 (cIdle v1)" by (simp add: v1_def a_block_def Let_def)
  then show ?thesis unfolding v v1_def [symmetric] by (rule vstep_trans [OF s1 vstep_dispatch [OF c]])
qed

lemma blocked_granted:
  assumes f: "blocked_frame d deadline s s'"
  shows "granted s' \<subseteq> granted s"
proof
  fix u assume u: "u \<in> granted s'"
  consider "u = gCurrentThread s" | "u = gCurrentThread s'" "u \<noteq> gCurrentThread s" | "u \<noteq> gCurrentThread s'" "u \<noteq> gCurrentThread s" by blast
  then show "u \<in> granted s"
  proof cases
    case 1
    then show ?thesis using u f by (auto simp: granted_def blocked_frame_def waiting_on_def)
  next
    case 2
    obtain th th' where t: "KThreads s u = Some th" "KThreads s' u = Some th'" "same_but_run th th'" using f 2(1) by (auto simp: blocked_frame_def)
    have "WaitBlock th' = WaitBlock (th\<lparr>State := KTHREAD_STATE_RUNNING, Quantum := Quantum th'\<rparr>)"
      using t(3) unfolding same_but_run_def by (rule arg_cong)
    then show ?thesis using u t(1,2) by (simp add: granted_def)
  next
    case 3
    then show ?thesis using u f by (simp add: granted_def blocked_frame_def)
  qed
qed

lemma vstep_preempt:
  assumes inv: "sched_inv s" and l: "life_ok s" and ni: "gCurrentThread s \<noteq> gIdleThread s"
  shows "vstep S (view s) (a_dispatch (a_ready (gCurrentThread s) (view s)))"
proof -
  obtain th where th: "KThreads s (gCurrentThread s) = Some th" "State th = KTHREAD_STATE_RUNNING" using running_current [OF inv] .
  define v1 where "v1 = a_ready (gCurrentThread s) (view s)"
  have c: "core_ok v1" unfolding v1_def by (rule a_ready_ok [OF sched_invD(5) [OF inv]]) (use th ni in auto)
  have s1: "vstep S (view s) v1" unfolding v1_def by (rule vstep_ready [of _ _ "tview_of th"]) (use th in auto)
  have "vlive v1 (cIdle (view s))" using vlive_step [OF s1] idle_live [OF inv l] by simp
  then have "vlive v1 (cIdle v1)" by (simp add: v1_def a_ready_def Let_def)
  then show ?thesis unfolding v1_def [symmetric] by (rule vstep_trans [OF s1 vstep_dispatch [OF c]])
qed

lemma vstep_tick:
  assumes inv: "sched_inv s" and l: "life_ok s"
  shows "vstep S (view s) (a_tick now over (view s))"
proof -
  define q where "q = filter (\<lambda>t. vdeadline (cTV (view s)) t \<le> now) (cTQ (view s))"
  obtain s1 where s1: "sched_inv s1" "view s1 = fold a_wake q (view s)" "rest s1 = rest s"
    using KiWakeTimeouts_exact [OF inv, of now] by (auto simp: q_def deadline_of_view)
  have "vlive (view s) t" if "t \<in> set q" for t
  proof -
    have "t \<in> set (gTimeoutQueue s)" using that by (simp add: q_def)
    then obtain th where "KThreads s t = Some th" "State th = KTHREAD_STATE_BLOCKED" using expired_blocked [OF inv] by blast
    then show ?thesis by (simp add: vlive_def)
  qed
  then have v1: "vstep S (view s) (view s1)" unfolding s1(2) by (rule vstep_fold_wake)
  have l1: "life_ok s1" by (rule life_ok_step [OF l life_same_rest [OF s1(3)] v1])
  have t: "a_tick now over (view s) = (if cCur (view s1) = cIdle (view s1) \<and> (\<exists>k < KTHREAD_PRIORITY_COUNT. cRQ (view s1) k \<noteq> []) then a_dispatch (view s1)
      else if cCur (view s1) \<noteq> cIdle (view s1) \<and> over then a_dispatch (a_ready (cCur (view s1)) (view s1)) else view s1)"
    unfolding a_tick_def Let_def s1(2) q_def by (rule refl)
  have "vstep S (view s1) (a_dispatch (view s1))"
    by (rule vstep_dispatch [OF sched_invD(5) [OF s1(1)]]) (use idle_live [OF s1(1) l1] in simp)
  moreover have "vstep S (view s1) (a_dispatch (a_ready (gCurrentThread s1) (view s1)))" if "gCurrentThread s1 \<noteq> gIdleThread s1"
    by (rule vstep_preempt [OF s1(1) l1 that])
  ultimately have "vstep S (view s1) (a_tick now over (view s))" unfolding t by auto
  then show ?thesis by (rule vstep_trans [OF v1])
qed

lemma keeps_wait:
  assumes inv: "sched_inv s" and l: "life_ok s" and b: "blocking_allowed s" and ob: "Dispatchers s d = Some ob"
    and cnt: "\<And>th. KThreads s (gCurrentThread s) = Some th \<Longrightarrow> OwnedMutexCount th \<noteq> 0xFFFFFFFF"
    and w: "timeoutNs \<noteq> KE_WAIT_INFINITE \<Longrightarrow> now + timeoutNs \<noteq> 0"
  shows "\<exists>r s'. KeWaitForSingleObject (Some d) timeoutNs now sw s = Done (r, s') \<and> keeps {gCurrentThread s} {} s s'"
proof -
  consider "SignalState ob \<noteq> 0"
    | "DispatcherType ob = DISPATCHER_TYPE_MUTEX" "OwnerThread ob = Some (gCurrentThread s)"
    | "SignalState ob = 0" "DispatcherType ob \<noteq> DISPATCHER_TYPE_MUTEX \<or> OwnerThread ob \<noteq> Some (gCurrentThread s)" by blast
  then show ?thesis
  proof cases
    case 1
    note t = wait_signalled [OF inv b ob 1 cnt]
    have cur: "State th \<noteq> KTHREAD_STATE_TERMINATED" if "KThreads s (gCurrentThread s) = Some th" for th using running_alive [OF inv that] by simp
    have "view (taken d ob s) = view s \<and> granted (taken d ob s) = granted s \<and> life_same s (taken d ob s)"
    proof (cases "DispatcherType ob")
      case DISPATCHER_TYPE_SEMAPHORE
      then have nd: "\<forall>t. d \<noteq> TerminationCompletion t" using not_completion [OF l ob] by simp
      then show ?thesis using DISPATCHER_TYPE_SEMAPHORE life_same_object [OF nd] view_set_dispatcher [OF ob]
        by (simp add: taken_def granted_def set_dispatcher_def)
    next
      case DISPATCHER_TYPE_MUTEX
      then have nd: "\<forall>t. d \<noteq> TerminationCompletion t" using not_completion [OF l ob] by simp
      have none: "OwnerThread ob = None" using mutex_state(2) [OF inv ob DISPATCHER_TYPE_MUTEX] 1 by simp
      have "granted (move_owner d ob (Some (gCurrentThread s)) s) = granted s"
        by (rule granted_cong) (simp add: move_owner_def option.map_comp comp_def)
      moreover have "life_same s (move_owner d ob (Some (gCurrentThread s)) s)"
        by (rule life_same_owner [OF nd]) (use none cur in auto)
      ultimately show ?thesis using DISPATCHER_TYPE_MUTEX move_owner_frame(1) [OF ob] by (simp add: taken_def)
    qed (simp_all add: taken_def)
    then show ?thesis using t by (simp add: keeps_def)
  next
    case 2 then show ?thesis using wait_recursive [OF inv b ob] keeps_refl [OF inv] by simp
  next
    case 3
    show ?thesis
    proof (cases "timeoutNs = 0")
      case True then show ?thesis using wait_poll [OF inv b ob 3] keeps_refl [OF inv] by simp
    next
      case False
      obtain s' where s': "KeWaitForSingleObject (Some d) timeoutNs now sw s = Done (Blocked, s')" "sched_inv s'"
        "view s' = a_dispatch (a_block (Some d) (deadline_arg timeoutNs now) (view s))" "rest s' = rest s"
        "blocked_frame d (deadline_arg timeoutNs now) s s'"
        using wait_blocks_exactly [OF inv b ob 3 False w] by blast
      show ?thesis using s' blocked_keeps [OF inv l b s'(3)] blocked_granted [OF s'(5)] life_same_rest [OF s'(4)] ob 3(1) False w
        by (auto simp: keeps_def deadline_arg_def split: if_splits)
    qed
  qed
qed

lemma keeps_yield:
  assumes inv: "sched_inv s" and l: "life_ok s" and b: "blocking_allowed s"
  shows "\<exists>s'. KeYield sw s = Done s' \<and> keeps {} {} s s'"
proof -
  obtain s' where s': "KeYield sw s = Done s'" "sched_inv s'" "view s' = a_yield (view s)" "rest s' = rest s" "granted s' = granted s"
    using KeYield_spec [OF inv b] by blast
  have "vstep {} (view s) (a_yield (view s))" unfolding a_yield_def using vstep_preempt [OF inv l] b by (auto simp: blocking_allowed_def)
  then show ?thesis using s' life_same_rest [OF s'(4)] by (simp add: keeps_def)
qed

lemma keeps_sleep:
  assumes inv: "sched_inv s" and l: "life_ok s" and b: "blocking_allowed s" and t: "now + durationNs \<noteq> 0"
  shows "\<exists>s'. KeSleep durationNs now sw s = Done s' \<and> keeps {gCurrentThread s} {} s s'"
proof (cases "durationNs = 0")
  case True
  have "KeSleep 0 now sw s = KeYield sw s" by (simp add: KeSleep_def blocking_allowed_assert [OF b])
  then show ?thesis using keeps_yield [OF inv l b, of sw] True vstep_mono [of "{}" _ _ "{gCurrentThread s}"] by (auto simp: keeps_def)
next
  case False
  obtain s' where s': "KeSleep durationNs now sw s = Done s'" "sched_inv s'"
    "view s' = a_dispatch (a_block None (Some (now + durationNs)) (view s))" "rest s' = rest s" "granted s' \<subseteq> granted s"
    using KeSleep_spec [OF inv b False t] by blast
  show ?thesis using s' blocked_keeps [OF inv l b s'(3)] life_same_rest [OF s'(4)] t by (auto simp: keeps_def)
qed

lemma keeps_start:
  assumes inv: "sched_inv s" and t: "KThreads s t = Some th" "t \<noteq> gIdleThread s"
  shows "\<exists>st s'. KeThreadStart (Some t) s = Done (st, s') \<and> keeps {} {} s s'"
proof (cases "State th = KTHREAD_STATE_NEW")
  case True
  obtain s' where s': "KeThreadStart (Some t) s = Done (EC_SUCCESS, s')" "sched_inv s'" "view s' = a_ready t (view s)" "rest s' = rest s"
    "granted s' = granted s" using KeThreadStart_spec [OF inv t True] by blast
  have "vstep {} (view s) (a_ready t (view s))" by (rule vstep_ready [of _ _ "tview_of th"]) (use t True in auto)
  then show ?thesis using s' life_same_rest [OF s'(4)] by (simp add: keeps_def)
next
  case False
  then show ?thesis using t keeps_refl [OF inv] by (simp add: KeThreadStart_def)
qed

lemma keeps_timer:
  assumes inv: "sched_inv s" and l: "life_ok s" and en: "gSchedulerEnabled s"
  shows "\<exists>s'. KiSchedulerTimerISR now sw s = Done s' \<and> keeps {} {} s s'"
proof (cases "gNextProgrammedDeadlineNs s \<noteq> 0 \<and> now < gNextProgrammedDeadlineNs s")
  case True
  obtain s' where s': "KiSchedulerTimerISR now sw s = Done s'" "sched_inv s'" "view s' = view s" "rest s' = rest s" "granted s' = granted s"
    using KiSchedulerTimerISR_early [OF inv en] True by blast
  then show ?thesis using life_same_rest [OF s'(4)] by (simp add: keeps_def)
next
  case False
  then have due: "gNextProgrammedDeadlineNs s = 0 \<or> gNextProgrammedDeadlineNs s \<le> now" by (auto simp: not_less)
  obtain s' where s': "KiSchedulerTimerISR now sw s = Done s'" "sched_inv s'"
    "view s' = a_tick now (gQuantumDeadlineNs s \<le> now) (view s)" "rest s' = rest s" "granted s' \<subseteq> granted s"
    using KiSchedulerTimerISR_effect [OF inv en due] by blast
  show ?thesis using s' vstep_tick [OF inv l] life_same_rest [OF s'(4)] by (simp add: keeps_def)
qed

section \<open>The calls that create, claim and end threads\<close>

lemma life_okI:
  assumes "\<And>t. KThreads s t = None \<Longrightarrow> Dispatchers s (TerminationCompletion t) = None"
    "\<And>t th. KThreads s t = Some th \<Longrightarrow> t \<noteq> gIdleThread s \<Longrightarrow>
        \<exists>ev. Dispatchers s (TerminationCompletion t) = Some ev \<and> DispatcherType ev = DISPATCHER_TYPE_EVENT \<and>
           (SignalState ev \<noteq> 0 \<longleftrightarrow> State th = KTHREAD_STATE_TERMINATED)"
    "\<And>t th. KThreads s t = Some th \<Longrightarrow> State th = KTHREAD_STATE_TERMINATED \<Longrightarrow> t \<noteq> gIdleThread s \<and> OwnedMutexCount th = 0"
    "\<And>t th. KThreads s t = Some th \<Longrightarrow> TerminationClaimState th \<noteq> KTHREAD_TERMINATION_CLAIM_STATE_CONSUMED \<and>
        (TerminationMode th = KTHREAD_TERMINATION_MODE_DETACHED \<longrightarrow> TerminationClaimState th = KTHREAD_TERMINATION_CLAIM_STATE_UNCLAIMED)"
    "distinct (gTerminatedList s)"
    "\<And>t. t \<in> set (gTerminatedList s) \<longleftrightarrow> (\<exists>th. KThreads s t = Some th \<and> State th = KTHREAD_STATE_TERMINATED \<and>
        TerminationMode th = KTHREAD_TERMINATION_MODE_DETACHED)"
    "\<And>t ev. Dispatchers s (TerminationCompletion t) = Some ev \<Longrightarrow> DispatcherType ev = DISPATCHER_TYPE_EVENT"
  shows "life_ok s"
  using assms unfolding life_ok_def by blast

lemma joins_okI:
  assumes "\<And>u t. joins u = Some t \<Longrightarrow> \<exists>th tht. KThreads s u = Some th \<and> KThreads s t = Some tht \<and>
        State th \<noteq> KTHREAD_STATE_TERMINATED \<and> Dispatcher (WaitBlock th) = Some (TerminationCompletion t) \<and>
        (State th = KTHREAD_STATE_BLOCKED \<or> Completed (WaitBlock th)) \<and>
        TerminationClaimState tht = KTHREAD_TERMINATION_CLAIM_STATE_JOIN_IN_PROGRESS \<and>
        (u \<in> granted s \<longrightarrow> State tht = KTHREAD_STATE_TERMINATED)"
    and "\<And>u u' t. joins u = Some t \<Longrightarrow> joins u' = Some t \<Longrightarrow> u = u'"
  shows "joins_ok s joins"
  using assms unfolding joins_ok_def by blast

text \<open>A thread's claim or mode changes, or the thread goes: the joins of other threads are untouched.\<close>

lemma joins_ok_other:
  assumes j: "joins_ok s joins" and sub: "\<And>u t. joins' u = Some t \<Longrightarrow> joins u = Some t \<and> t \<noteq> x"
    and nx: "\<And>t. joins' x = Some t \<Longrightarrow> KThreads s' x = KThreads s x"
    and keep: "\<And>u. u \<noteq> x \<Longrightarrow> KThreads s' u = KThreads s u"
  shows "joins_ok s' joins'"
proof (rule joins_okI)
  fix u t assume u: "joins' u = Some t"
  then have ut: "joins u = Some t" "t \<noteq> x" using sub by auto
  have k1: "KThreads s' u = KThreads s u" using keep nx u by (cases "u = x") auto
  have k: "KThreads s' u = KThreads s u" "KThreads s' t = KThreads s t" using k1 keep [OF ut(2)] by simp_all
  have "u \<in> granted s' \<longleftrightarrow> u \<in> granted s" using k(1) by (simp add: granted_def)
  then show "\<exists>th tht. KThreads s' u = Some th \<and> KThreads s' t = Some tht \<and>
        State th \<noteq> KTHREAD_STATE_TERMINATED \<and> Dispatcher (WaitBlock th) = Some (TerminationCompletion t) \<and>
        (State th = KTHREAD_STATE_BLOCKED \<or> Completed (WaitBlock th)) \<and>
        TerminationClaimState tht = KTHREAD_TERMINATION_CLAIM_STATE_JOIN_IN_PROGRESS \<and>
        (u \<in> granted s' \<longrightarrow> State tht = KTHREAD_STATE_TERMINATED)"
    unfolding k using joins_okD(1) [OF j ut(1)] by auto
next
  fix u u' t assume "joins' u = Some t" "joins' u' = Some t"
  then show "u = u'" using sub joins_okD(2) [OF j] by blast
qed

lemma joins_target:
  assumes "joins_ok s joins" "joins u = Some t" "KThreads s t = Some th"
  shows "TerminationClaimState th = KTHREAD_TERMINATION_CLAIM_STATE_JOIN_IN_PROGRESS"
  using joins_okD(1) [OF assms(1,2)] assms(3) by auto

lemma joins_live:
  assumes "joins_ok s joins" "KThreads s u = Some th" "State th = KTHREAD_STATE_TERMINATED"
  shows "joins u = None"
proof (cases "joins u")
  case (Some t)
  then show ?thesis using joins_okD(1) [OF assms(1) Some] assms(2,3) by auto
qed

lemma life_ok_claim:
  assumes l: "life_ok s" and t: "KThreads s t = Some th"
    and c: "c \<noteq> KTHREAD_TERMINATION_CLAIM_STATE_CONSUMED"
      "TerminationMode th = KTHREAD_TERMINATION_MODE_DETACHED \<Longrightarrow> c = KTHREAD_TERMINATION_CLAIM_STATE_UNCLAIMED"
  shows "life_ok (set_kthread t (th\<lparr>TerminationClaimState := c\<rparr>) s)"
proof (rule life_okI, goal_cases)
  case (1 u) then show ?case using life_okD(1) [OF l, of u] by (auto simp: set_kthread_def split: if_splits)
next
  case (2 u uh) then show ?case using life_okD(2) [OF l, of u] t by (auto simp: set_kthread_def split: if_splits)
next
  case (3 u uh) then show ?case using life_okD(3,4) [OF l, of u] t by (auto simp: set_kthread_def split: if_splits)
next
  case (4 u uh) then show ?case using life_okD(5,6) [OF l, of u] t c by (auto simp: set_kthread_def split: if_splits)
next
  case 5 then show ?case using life_okD(7) [OF l] by (simp add: set_kthread_def)
next
  case (6 u) then show ?case using life_okD(8) [OF l, of u] t by (auto simp: set_kthread_def split: if_splits)
next
  case (7 u ev) then show ?case using life_okD(9) [OF l, of u ev] by (simp add: set_kthread_def)
qed

lemma life_ok_free:
  assumes l: "life_ok s" and t: "t \<noteq> gIdleThread s" "t \<notin> set (gTerminatedList s)"
  shows "life_ok (free_kthread t s)"
proof (rule life_okI, goal_cases)
  case (1 u) then show ?case using life_okD(1) [OF l, of u] by (auto simp: free_kthread_def split: if_splits)
next
  case (2 u uh) then show ?case using life_okD(2) [OF l, of u] by (auto simp: free_kthread_def split: if_splits)
next
  case (3 u uh) then show ?case using life_okD(3,4) [OF l, of u] by (auto simp: free_kthread_def split: if_splits)
next
  case (4 u uh) then show ?case using life_okD(5,6) [OF l, of u] by (auto simp: free_kthread_def split: if_splits)
next
  case 5 then show ?case using life_okD(7) [OF l] by (simp add: free_kthread_def)
next
  case (6 u) then show ?case using life_okD(8) [OF l, of u] t(2) by (auto simp: free_kthread_def split: if_splits)
next
  case (7 u ev) then show ?case using life_okD(9) [OF l, of u ev] by (auto simp: free_kthread_def split: if_splits)
qed

end
