(* ===== verification/SchedMachine.thy ===== *)
theory SchedMachine
  imports SchedLife
begin

text \<open>
  The scheduler as a machine: the calls a kernel makes of it and its timer interrupt, in any order the
  callers are entitled to. Threads are created, claimed, freed by a joiner and freed by the reaper in the
  course of a run. The second component of the state records which thread is inside \<open>KeThreadJoin\<close>: when
  such a thread runs again it continues with the code after its wait (\<open>CallJoinResume\<close>).

  Assertions on the interrupt level are not part of this machine, except that blocking calls need passive
  level: each call is one critical section, and \<open>Irql\<close> treats the brackets.
\<close>

type_synonym machine = "sched_state \<times> (kthread_ref \<rightharpoonup> kthread_ref)"

datatype sched_call =
    CallInitEvent disp_ref bool
  | CallInitSemaphore disp_ref int int
  | CallInitMutex disp_ref
  | CallSetEvent disp_ref u64
  | CallResetEvent disp_ref
  | CallReleaseSemaphore disp_ref int u64
  | CallReleaseMutex disp_ref
  | CallWait disp_ref u64 u64 u64
  | CallYield u64
  | CallSleep u64 u64 u64
  | CallCreate "kthread_ref option" "(u64 \<times> u64) result" ho_status bool KTHREAD_TERMINATION_MODE
  | CallStart kthread_ref
  | CallExit u64 u64
  | CallJoin kthread_ref u64 u64 u64
  | CallJoinResume
  | CallDetach kthread_ref
  | CallReap
  | CallTimer u64 u64

definition on_sched :: "(sched_state \<Rightarrow> sched_state outcome) \<Rightarrow> machine \<Rightarrow> machine outcome" where
  "on_sched f m = bind_outcome (f (fst m)) (\<lambda>s. Done (s, snd m))"

definition drop_result :: "('r \<times> sched_state) outcome \<Rightarrow> sched_state outcome" where
  "drop_result r = bind_outcome r (\<lambda>(_, s). Done s)"

text \<open>\<open>kvaRelease\<close> is the status of releasing a thread's stack.\<close>

fun run_call :: "(kthread_ref \<Rightarrow> ho_status) \<Rightarrow> sched_call \<Rightarrow> machine \<Rightarrow> machine outcome" where
  "run_call kvaRelease (CallInitEvent d initialState) m = on_sched (\<lambda>s. Done (KeInitializeEvent d initialState s)) m"
| "run_call kvaRelease (CallInitSemaphore d initialCount limit) m =
     on_sched (\<lambda>s. Done (snd (KeInitializeSemaphore (Some d) initialCount limit s))) m"
| "run_call kvaRelease (CallInitMutex d) m = on_sched (KeInitializeMutex d) m"
| "run_call kvaRelease (CallSetEvent d now) m = on_sched (KeSetEvent d now) m"
| "run_call kvaRelease (CallResetEvent d) m = on_sched (KeResetEvent d) m"
| "run_call kvaRelease (CallReleaseSemaphore d n now) m = on_sched (\<lambda>s. drop_result (KeReleaseSemaphore (Some d) n now s)) m"
| "run_call kvaRelease (CallReleaseMutex d) m = on_sched (\<lambda>s. drop_result (KeReleaseMutex (Some d) s)) m"
| "run_call kvaRelease (CallWait d timeoutNs now sw) m =
     on_sched (\<lambda>s. drop_result (KeWaitForSingleObject (Some d) timeoutNs now sw s)) m"
| "run_call kvaRelease (CallYield sw) m = on_sched (KeYield sw) m"
| "run_call kvaRelease (CallSleep durationNs now sw) m = on_sched (KeSleep durationNs now sw) m"
| "run_call kvaRelease (CallCreate pool stack mapped entryPointGiven mode) m =
     on_sched (\<lambda>s. drop_result (KiThreadCreateInternal pool stack mapped entryPointGiven mode s)) m"
| "run_call kvaRelease (CallStart t) m = on_sched (\<lambda>s. drop_result (KeThreadStart (Some t) s)) m"
| "run_call kvaRelease (CallExit eventNs sw) m = on_sched (KeThreadExit eventNs sw) m"
| "run_call kvaRelease (CallJoin t timeoutNs now sw) m = (case m of (s, joins) \<Rightarrow>
     bind_outcome (KeThreadJoin kvaRelease (Some t) timeoutNs now sw s) (\<lambda>(r, s').
       Done (s', if r = Blocked then joins(gCurrentThread s \<mapsto> t) else joins)))"
| "run_call kvaRelease CallJoinResume m = (case m of (s, joins) \<Rightarrow>
     (case joins (gCurrentThread s) of
        None \<Rightarrow> Done (s, joins)
      | Some t \<Rightarrow> bind_outcome (wait_resumed (gCurrentThread s) s) (\<lambda>waitStatus.
          bind_outcome (join_complete kvaRelease t waitStatus s) (\<lambda>(_, s').
            Done (s', joins(gCurrentThread s := None))))))"
| "run_call kvaRelease (CallDetach t) m = on_sched (\<lambda>s. drop_result (KeThreadDetach (Some t) s)) m"
| "run_call kvaRelease CallReap m = on_sched (KiReapTerminatedThreads kvaRelease) m"
| "run_call kvaRelease (CallTimer now sw) m = on_sched (KiSchedulerTimerISR now sw) m"

definition has_object :: "disp_ref \<Rightarrow> KDISPATCHER_OBJECT_TYPE \<Rightarrow> sched_state \<Rightarrow> bool" where
  "has_object d ty s \<longleftrightarrow> (case Dispatchers s d of None \<Rightarrow> False | Some ob \<Rightarrow> DispatcherType ob = ty)"

definition own_object :: "disp_ref \<Rightarrow> bool" where
  "own_object d \<longleftrightarrow> (case d of DispatcherAt _ \<Rightarrow> True | TerminationCompletion _ \<Rightarrow> False)"

definition waiters_of :: "disp_ref \<Rightarrow> sched_state \<Rightarrow> kthread_ref list" where
  "waiters_of d s = (case Dispatchers s d of None \<Rightarrow> [] | Some ob \<Rightarrow> WaitListHead ob)"

definition may_own_more :: "kthread_ref \<Rightarrow> sched_state \<Rightarrow> bool" where
  "may_own_more t s \<longleftrightarrow> (case KThreads s t of None \<Rightarrow> True | Some th \<Rightarrow> OwnedMutexCount th \<noteq> 0xFFFFFFFF)"

definition holds_no_mutex :: "kthread_ref \<Rightarrow> sched_state \<Rightarrow> bool" where
  "holds_no_mutex t s \<longleftrightarrow> (case KThreads s t of None \<Rightarrow> False | Some th \<Rightarrow> OwnedMutexCount th = 0)"

text \<open>
  What callers owe: objects and threads they name exist and have the right type, and an object is initialised once,
  with a limit that is an \<open>int32_t\<close>; a termination event is
  signalled by the exit of its thread only; blocking calls come from a thread other than the idle thread, at passive
  level and not inside a join; deadlines do not wrap to zero; a thread exits without a mutex; fewer than
  \<open>2 ^ 31\<close> threads wait for a semaphore and no thread owns \<open>2 ^ 32 - 1\<close> mutexes; new threads get unused
  addresses and thread identifiers are not exhausted; releasing a stack and the user runtime's finaliser succeed.
\<close>

fun legal_call :: "(kthread_ref \<Rightarrow> ho_status) \<Rightarrow> sched_call \<Rightarrow> machine \<Rightarrow> bool" where
  "legal_call kvaRelease (CallInitEvent d initialState) (s, joins) \<longleftrightarrow> own_object d \<and> Dispatchers s d = None"
| "legal_call kvaRelease (CallInitSemaphore d initialCount limit) (s, joins) \<longleftrightarrow> own_object d \<and> Dispatchers s d = None \<and> limit < 2 ^ 31"
| "legal_call kvaRelease (CallInitMutex d) (s, joins) \<longleftrightarrow> own_object d \<and> Dispatchers s d = None"
| "legal_call kvaRelease (CallSetEvent d now) (s, joins) \<longleftrightarrow> own_object d \<and> has_object d DISPATCHER_TYPE_EVENT s"
| "legal_call kvaRelease (CallResetEvent d) (s, joins) \<longleftrightarrow> own_object d \<and> has_object d DISPATCHER_TYPE_EVENT s"
| "legal_call kvaRelease (CallReleaseSemaphore d n now) (s, joins) \<longleftrightarrow>
     has_object d DISPATCHER_TYPE_SEMAPHORE s \<and> length (waiters_of d s) < 2 ^ 31"
| "legal_call kvaRelease (CallReleaseMutex d) (s, joins) \<longleftrightarrow>
     has_object d DISPATCHER_TYPE_MUTEX s \<and> list_all (\<lambda>t. may_own_more t s) (waiters_of d s)"
| "legal_call kvaRelease (CallWait d timeoutNs now sw) (s, joins) \<longleftrightarrow> blocking_allowed s \<and> joins (gCurrentThread s) = None \<and>
     Dispatchers s d \<noteq> None \<and> may_own_more (gCurrentThread s) s \<and> (timeoutNs \<noteq> KE_WAIT_INFINITE \<longrightarrow> now + timeoutNs \<noteq> 0)"
| "legal_call kvaRelease (CallYield sw) (s, joins) \<longleftrightarrow> blocking_allowed s"
| "legal_call kvaRelease (CallSleep durationNs now sw) (s, joins) \<longleftrightarrow>
     blocking_allowed s \<and> joins (gCurrentThread s) = None \<and> now + durationNs \<noteq> 0"
| "legal_call kvaRelease (CallCreate pool stack mapped entryPointGiven mode) (s, joins) \<longleftrightarrow>
     gNextThreadId s \<noteq> 0 \<and> (case pool of None \<Rightarrow> True | Some t \<Rightarrow> KThreads s t = None)"
| "legal_call kvaRelease (CallStart t) (s, joins) \<longleftrightarrow> KThreads s t \<noteq> None \<and> t \<noteq> gIdleThread s"
| "legal_call kvaRelease (CallExit eventNs sw) (s, joins) \<longleftrightarrow>
     blocking_allowed s \<and> joins (gCurrentThread s) = None \<and> holds_no_mutex (gCurrentThread s) s"
| "legal_call kvaRelease (CallJoin t timeoutNs now sw) (s, joins) \<longleftrightarrow> blocking_allowed s \<and> joins (gCurrentThread s) = None \<and>
     KThreads s t \<noteq> None \<and> finalizable kvaRelease s \<and> (timeoutNs \<noteq> KE_WAIT_INFINITE \<longrightarrow> now + timeoutNs \<noteq> 0)"
| "legal_call kvaRelease CallJoinResume (s, joins) \<longleftrightarrow> joins (gCurrentThread s) \<noteq> None \<and> finalizable kvaRelease s"
| "legal_call kvaRelease (CallDetach t) (s, joins) \<longleftrightarrow> KThreads s t \<noteq> None"
| "legal_call kvaRelease CallReap (s, joins) \<longleftrightarrow> finalizable kvaRelease s"
| "legal_call kvaRelease (CallTimer now sw) (s, joins) \<longleftrightarrow> gSchedulerEnabled s"

fun machine_inv :: "machine \<Rightarrow> bool" where
  "machine_inv (s, joins) \<longleftrightarrow> sched_inv s \<and> life_ok s \<and> joins_ok s joins"

section \<open>Calls that keep the lifecycle\<close>

lemma has_objectE:
  assumes "has_object d ty s"
  obtains ob where "Dispatchers s d = Some ob" "DispatcherType ob = ty" "waiters_of d s = WaitListHead ob"
  using assms by (auto simp: has_object_def waiters_of_def split: option.splits)

lemma keeps_call:
  assumes inv: "machine_inv (s, joins)" and k: "f s = Done s'" "keeps S W s s'"
    and free: "\<And>u t. joins u = Some t \<Longrightarrow> u \<notin> S \<and> u \<notin> W"
  shows "\<exists>m. on_sched f (s, joins) = Done m \<and> machine_inv m"
  using inv k keeps_life [OF _ k(2)] keeps_joins [OF _ k(2) free] by (auto simp: on_sched_def keeps_def)

lemma keeps_call_result:
  assumes inv: "machine_inv (s, joins)" and k: "f s = Done (r, s')" "keeps S W s s'"
    and free: "\<And>u t. joins u = Some t \<Longrightarrow> u \<notin> S \<and> u \<notin> W"
  shows "\<exists>m. on_sched (\<lambda>s. drop_result (f s)) (s, joins) = Done m \<and> machine_inv m"
  by (rule keeps_call [OF inv _ k(2) free]) (use k(1) in \<open>simp_all add: drop_result_def\<close>)

lemma own_waiters_free:
  assumes "machine_inv (s, joins)" "Dispatchers s d = Some ob" "\<forall>t. d \<noteq> TerminationCompletion t" "joins u = Some t"
  shows "u \<notin> set (WaitListHead ob)"
proof
  assume "u \<in> set (WaitListHead ob)"
  moreover have "sched_inv s" "joins_ok s joins" using assms(1) by simp_all
  ultimately have "d = TerminationCompletion t" using waiter_of [of s joins d ob u t] assms(2,4) by simp
  then show False using assms(3) by blast
qed

section \<open>Exit\<close>

lemma exit_inv:
  assumes inv: "machine_inv (s, joins)" and legal: "legal_call kvaRelease (CallExit eventNs sw) (s, joins)"
  shows "\<exists>m. run_call kvaRelease (CallExit eventNs sw) (s, joins) = Done m \<and> machine_inv m"
proof -
  have i: "sched_inv s" and l: "life_ok s" and j: "joins_ok s joins" using inv by simp_all
  define t where "t = gCurrentThread s"
  have b: "blocking_allowed s" and jt: "joins t = None" using legal by (simp_all add: t_def)
  have ni: "t \<noteq> gIdleThread s" using b by (simp add: blocking_allowed_def t_def)
  obtain th where th: "KThreads s t = Some th" "OwnedMutexCount th = 0"
    using legal by (auto simp: holds_no_mutex_def t_def split: option.splits)
  have run: "State th = KTHREAD_STATE_RUNNING" using running_alive [OF i] th(1) by (simp add: t_def)
  obtain ev where ev: "Dispatchers s (TerminationCompletion t) = Some ev" "DispatcherType ev = DISPATCHER_TYPE_EVENT"
    using life_okD(2) [OF l th(1) ni] by blast
  have det: "TerminationClaimState th = KTHREAD_TERMINATION_CLAIM_STATE_UNCLAIMED \<and> t \<notin> set (gTerminatedList s)"
    if "TerminationMode th = KTHREAD_TERMINATION_MODE_DETACHED"
    using life_okD(6) [OF l th(1) that] life_okD(8) [OF l, of t] th(1) run by simp
  obtain s' where s': "KeThreadExit eventNs sw s = Done s'" "sched_inv s'"
    "view s' = a_dispatch (fold a_wake (WaitListHead ev) (a_exit (view s)))"
    "gTerminatedList s' = gTerminatedList s @ (if TerminationMode th = KTHREAD_TERMINATION_MODE_DETACHED then [t] else [])"
    "rest s' = rest ((set_dispatcher (TerminationCompletion t) (ev\<lparr>SignalState := 1\<rparr>) s)\<lparr>gTerminatedList := gTerminatedList s'\<rparr>)"
    "granted s' \<subseteq> granted s \<union> set (WaitListHead ev)"
    using KeThreadExit_effect [OF i b t_def th ev det] by blast
  define th1 where "th1 = th\<lparr>State := KTHREAD_STATE_TERMINATED\<rparr>"
  define s1 where "s1 = (set_dispatcher (TerminationCompletion t) (ev\<lparr>SignalState := 1\<rparr>) (set_kthread t th1 s))\<lparr>gTerminatedList := gTerminatedList s'\<rparr>"
  have s1: "KThreads s1 = (KThreads s)(t \<mapsto> th1)" "Dispatchers s1 = (Dispatchers s)(TerminationCompletion t \<mapsto> ev\<lparr>SignalState := 1\<rparr>)"
    "gTerminatedList s1 = gTerminatedList s'" "gIdleThread s1 = gIdleThread s" "gCurrentThread s1 = t"
    by (simp_all add: s1_def set_dispatcher_def set_kthread_def t_def)
  have r1: "rest s' = rest s1" unfolding s'(5)
    by (rule rest_eqI) (use th(1) in \<open>simp_all add: s1_def set_dispatcher_def set_kthread_def th1_def\<close>)
  have v1: "view s1 = a_exit (view s)"
    by (rule view_eqI) (use th(1) ev(1) in \<open>auto simp: s1_def set_dispatcher_def set_kthread_def a_exit_def t_def th1_def tview_of_def\<close>)
  have core1: "core_ok (view s1)" unfolding v1
    by (rule a_exit_ok [OF sched_invD(5) [OF i]]) (use th run ni in \<open>auto simp: t_def\<close>)
  have l1: "life_ok s1"
  proof (rule life_okI, goal_cases)
    case (1 u) then show ?case using life_okD(1) [OF l, of u] by (auto simp: s1 split: if_splits)
  next
    case (2 u uh) then show ?case using life_okD(2) [OF l, of u] ev by (auto simp: s1 th1_def split: if_splits)
  next
    case (3 u uh) then show ?case using life_okD(3,4) [OF l, of u] th ni by (auto simp: s1 th1_def split: if_splits)
  next
    case (4 u uh) then show ?case using life_okD(5,6) [OF l, of u] th by (auto simp: s1 th1_def split: if_splits)
  next
    case 5 then show ?case using life_okD(7) [OF l] det by (auto simp: s1 s'(4))
  next
    case (6 u) then show ?case using life_okD(8) [OF l, of u] th run by (auto simp: s1 s'(4) th1_def)
  next
    case (7 u e) then show ?case using life_okD(9) [OF l, of u] ev by (auto simp: s1 split: if_splits)
  qed
  have j1: "joins_ok s1 joins"
  proof (rule joins_okI)
    fix u x assume u: "joins u = Some x"
    then have ut: "u \<noteq> t" using jt by auto
    then have g: "u \<in> granted s1 \<longleftrightarrow> u \<in> granted s" by (simp add: granted_def s1)
    show "\<exists>th tht. KThreads s1 u = Some th \<and> KThreads s1 x = Some tht \<and>
        State th \<noteq> KTHREAD_STATE_TERMINATED \<and> Dispatcher (WaitBlock th) = Some (TerminationCompletion x) \<and>
        (State th = KTHREAD_STATE_BLOCKED \<or> Completed (WaitBlock th)) \<and>
        TerminationClaimState tht = KTHREAD_TERMINATION_CLAIM_STATE_JOIN_IN_PROGRESS \<and>
        (u \<in> granted s1 \<longrightarrow> State tht = KTHREAD_STATE_TERMINATED)"
      using joins_okD(1) [OF j u] ut th unfolding g by (cases "x = t") (auto simp: s1 th1_def)
  next
    fix u u' x assume "joins u = Some x" "joins u' = Some x" then show "u = u'" by (rule joins_okD(2) [OF j])
  qed
  have wl: "vlive (view s1) u" if "u \<in> set (WaitListHead ev)" for u
  proof -
    have "u \<noteq> t" using current_not_waiting [OF i ev(1)] that by (auto simp: t_def)
    then show ?thesis using waiters_live [OF i ev(1) that] by (simp add: vlive_def v1 a_exit_def t_def)
  qed
  have v2: "vstep {} (view s1) (fold a_wake (WaitListHead ev) (view s1))" by (rule vstep_fold_wake) (rule wl)
  have core2: "core_ok (fold a_wake (WaitListHead ev) (view s1))"
    using fold_a_wake_core [OF core1, of "TerminationCompletion t" "WaitListHead ev" "length (WaitListHead ev)"] by (simp add: s1)
  have "vlive (view s1) (cIdle (view s1))" using idle_live [OF i l] ni by (simp add: vlive_def v1 a_exit_def t_def)
  then have "vlive (fold a_wake (WaitListHead ev) (view s1)) (cIdle (fold a_wake (WaitListHead ev) (view s1)))"
    using vlive_step [OF v2] by simp
  then have v3: "vstep {} (view s1) (view s')" unfolding s'(3) v1 [symmetric] by (rule vstep_trans [OF v2 vstep_dispatch [OF core2]])
  have ls: "life_same s1 s'" by (rule life_same_rest [OF r1])
  have "life_ok s'" by (rule life_ok_step [OF l1 ls v3])
  moreover have "joins_ok s' joins"
  proof (rule joins_ok_step [OF j1 ls v3])
    fix u x assume u: "joins u = Some x"
    show "u \<notin> {}" by simp
    assume "u \<in> granted s'"
    then consider "u \<in> granted s" | "u \<in> set (WaitListHead ev)" using s'(6) by blast
    then show "u \<in> granted s1 \<or> (\<exists>tht. KThreads s1 x = Some tht \<and> State tht = KTHREAD_STATE_TERMINATED)"
    proof cases
      case 1
      then show ?thesis using u jt by (cases "u = t") (auto simp: granted_def s1)
    next
      case 2
      then have "TerminationCompletion t = TerminationCompletion x" using waiter_of [OF i j ev(1) 2 u] by simp
      then show ?thesis by (simp add: s1 th1_def)
    qed
  qed
  ultimately show ?thesis using s'(1,2) by (simp add: on_sched_def)
qed

section \<open>Joining\<close>

text \<open>A finished thread that nobody else claims is freed.\<close>

lemma free_inv:
  assumes inv: "machine_inv (s, joins)" and t: "KThreads s t = Some th" "State th = KTHREAD_STATE_TERMINATED"
    and m: "TerminationMode th = KTHREAD_TERMINATION_MODE_JOINABLE"
    and sub: "\<And>u x. joins' u = Some x \<Longrightarrow> joins u = Some x \<and> x \<noteq> t"
  shows "machine_inv (free_kthread t s, joins')"
proof -
  have i: "sched_inv s" and l: "life_ok s" and j: "joins_ok s joins" using inv by simp_all
  have fin: "finished s t" by (rule life_finished [OF l t])
  have "t \<notin> set (gTerminatedList s)" using life_okD(8) [OF l, of t] t m by simp
  then have "life_ok (free_kthread t s)" by (rule life_ok_free [OF l life_okD(3) [OF l t]])
  moreover have "joins_ok (free_kthread t s) joins'"
  proof (rule joins_ok_other [OF j sub])
    show "KThreads (free_kthread t s) t = KThreads s t" if "joins' t = Some x" for x
      using sub [OF that] joins_live [OF j t] by simp
    show "KThreads (free_kthread t s) u = KThreads s u" if "u \<noteq> t" for u using that by (simp add: free_kthread_def)
  qed
  ultimately show ?thesis using free_kthread_inv [OF i fin] by simp
qed

lemma join_inv:
  assumes inv: "machine_inv (s, joins)" and legal: "legal_call kvaRelease (CallJoin t timeoutNs now sw) (s, joins)"
  shows "\<exists>m. run_call kvaRelease (CallJoin t timeoutNs now sw) (s, joins) = Done m \<and> machine_inv m"
proof -
  have i: "sched_inv s" and l: "life_ok s" and j: "joins_ok s joins" using inv by simp_all
  have b: "blocking_allowed s" and jc: "joins (gCurrentThread s) = None" and env: "finalizable kvaRelease s"
    and w: "timeoutNs \<noteq> KE_WAIT_INFINITE \<Longrightarrow> now + timeoutNs \<noteq> 0" using legal by auto
  obtain th where th: "KThreads s t = Some th" using legal by auto
  show ?thesis
  proof (cases "t = gCurrentThread s \<or> t = gIdleThread s \<or> TerminationMode th = KTHREAD_TERMINATION_MODE_DETACHED \<or>
      TerminationClaimState th \<noteq> KTHREAD_TERMINATION_CLAIM_STATE_UNCLAIMED")
    case True
    then show ?thesis using join_refused [OF b th] inv by simp
  next
    case False
    then have jb: "joinable s t th" and ni: "t \<noteq> gIdleThread s" and nc: "t \<noteq> gCurrentThread s"
      and m: "TerminationMode th = KTHREAD_TERMINATION_MODE_JOINABLE" "TerminationClaimState th = KTHREAD_TERMINATION_CLAIM_STATE_UNCLAIMED"
      using th by (auto simp: joinable_def intro: KTHREAD_TERMINATION_MODE.exhaust)
    have nt: "joins u \<noteq> Some t" for u using joins_target [OF j _ th, of u] m(2) by auto
    show ?thesis
    proof (cases "State th = KTHREAD_STATE_TERMINATED")
      case True
      have "machine_inv (free_kthread t s, joins)" by (rule free_inv [OF inv th True m(1)]) (use nt in auto)
      then show ?thesis using join_finished(1) [OF i b jb life_finished [OF l th True] env] by simp
    next
      case st: False
      show ?thesis
      proof (cases "timeoutNs = 0")
        case True
        then show ?thesis using join_poll [OF b jb st] inv by simp
      next
        case tm: False
        define s1 where "s1 = set_kthread t (th\<lparr>TerminationClaimState := KTHREAD_TERMINATION_CLAIM_STATE_JOIN_IN_PROGRESS\<rparr>) s"
        have i1: "sched_inv s1" unfolding s1_def by (rule set_claim_inv(1) [OF i th])
        have l1: "life_ok s1" unfolding s1_def by (rule life_ok_claim [OF l th]) (use m in simp_all)
        have j1: "joins_ok s1 joins"
        proof (rule joins_okI)
          fix u x assume u: "joins u = Some x"
          have x: "x \<noteq> t" using u nt by auto
          have k: "map_option State (KThreads s1 u) = map_option State (KThreads s u)" "map_option WaitBlock (KThreads s1 u) = map_option WaitBlock (KThreads s u)"
            "KThreads s1 x = KThreads s x" using th x by (simp_all add: s1_def set_kthread_def)
          have "u \<in> granted s1 \<longleftrightarrow> u \<in> granted s" using k(2) th by (auto simp: granted_def s1_def set_kthread_def split: if_splits)
          then show "\<exists>th tht. KThreads s1 u = Some th \<and> KThreads s1 x = Some tht \<and>
              State th \<noteq> KTHREAD_STATE_TERMINATED \<and> Dispatcher (WaitBlock th) = Some (TerminationCompletion x) \<and>
              (State th = KTHREAD_STATE_BLOCKED \<or> Completed (WaitBlock th)) \<and>
              TerminationClaimState tht = KTHREAD_TERMINATION_CLAIM_STATE_JOIN_IN_PROGRESS \<and>
              (u \<in> granted s1 \<longrightarrow> State tht = KTHREAD_STATE_TERMINATED)"
            using joins_okD(1) [OF j u] k by auto
        next
          fix u u' x assume "joins u = Some x" "joins u' = Some x" then show "u = u'" by (rule joins_okD(2) [OF j])
        qed
        have b1: "blocking_allowed s1" and c1: "gCurrentThread s1 = gCurrentThread s" using b nc by (auto simp: blocking_allowed_def s1_def set_kthread_def)
        obtain ev where ev: "Dispatchers s (TerminationCompletion t) = Some ev" "DispatcherType ev = DISPATCHER_TYPE_EVENT" "SignalState ev = 0"
          using life_okD(2) [OF l th ni] st by auto
        have e1: "Dispatchers s1 (TerminationCompletion t) = Some ev" using ev by (simp add: s1_def set_kthread_def)
        obtain s' where s': "KeWaitForSingleObject (Some (TerminationCompletion t)) timeoutNs now sw s1 = Done (Blocked, s')" "sched_inv s'"
          "view s' = a_dispatch (a_block (Some (TerminationCompletion t)) (deadline_arg timeoutNs now) (view s1))" "rest s' = rest s1"
          "blocked_frame (TerminationCompletion t) (deadline_arg timeoutNs now) s1 s'"
          using wait_blocks_exactly [OF i1 b1 e1 ev(3) _ tm w, where sw = sw] ev(2) by auto
        have kp: "keeps {gCurrentThread s} {} s1 s'"
          using s' blocked_keeps [OF i1 l1 b1 s'(3)] blocked_granted [OF s'(5)] life_same_rest [OF s'(4)] e1 w c1
          by (auto simp: keeps_def deadline_arg_def split: if_splits)
        have l': "life_ok s'" by (rule keeps_life [OF l1 kp])
        have j': "joins_ok s' joins" by (rule keeps_joins [OF j1 kp]) (use jc in auto)
        obtain cur where cur: "KThreads s1 (gCurrentThread s) = Some cur" using running_current [OF i1] c1 by auto
        have w': "KThreads s' (gCurrentThread s) = Some (waiting_on (TerminationCompletion t) (deadline_arg timeoutNs now) cur)"
          using s'(5) cur c1 by (simp add: blocked_frame_def)
        obtain th' where th': "KThreads s' t = Some th'" "TerminationClaimState th' = KTHREAD_TERMINATION_CLAIM_STATE_JOIN_IN_PROGRESS"
        proof -
          have k: "KThreads s1 t = Some (th\<lparr>TerminationClaimState := KTHREAD_TERMINATION_CLAIM_STATE_JOIN_IN_PROGRESS\<rparr>)" by (simp add: s1_def set_kthread_def)
          then obtain th' where "KThreads s' t = Some th'" using rest_dom(2) [OF s'(4), of t] by auto
          then show thesis using that kp k by (simp add: keeps_def life_same_def)
        qed
        have "joins_ok s' (joins(gCurrentThread s \<mapsto> t))"
        proof (rule joins_okI)
          fix u x assume u: "(joins(gCurrentThread s \<mapsto> t)) u = Some x"
          show "\<exists>th tht. KThreads s' u = Some th \<and> KThreads s' x = Some tht \<and>
              State th \<noteq> KTHREAD_STATE_TERMINATED \<and> Dispatcher (WaitBlock th) = Some (TerminationCompletion x) \<and>
              (State th = KTHREAD_STATE_BLOCKED \<or> Completed (WaitBlock th)) \<and>
              TerminationClaimState tht = KTHREAD_TERMINATION_CLAIM_STATE_JOIN_IN_PROGRESS \<and>
              (u \<in> granted s' \<longrightarrow> State tht = KTHREAD_STATE_TERMINATED)"
          proof (cases "u = gCurrentThread s")
            case True
            then show ?thesis using u w' th' by (simp add: granted_def waiting_on_def)
          next
            case False
            then show ?thesis using joins_okD(1) [OF j', of u x] u by simp
          qed
        next
          fix u u' x assume "(joins(gCurrentThread s \<mapsto> t)) u = Some x" "(joins(gCurrentThread s \<mapsto> t)) u' = Some x"
          then show "u = u'" using joins_okD(2) [OF j, of u x u'] nt by (auto split: if_splits)
        qed
        moreover have "KeThreadJoin kvaRelease (Some t) timeoutNs now sw s = Done (Blocked, s')"
          using b jb st tm s'(1)
          by (simp add: KeThreadJoin_def blocking_allowed_assert blocking_allowed_def joinable_def Let_def s1_def)
        ultimately show ?thesis using s'(2) l' by simp
      qed
    qed
  qed
qed

lemma join_resume_inv:
  assumes inv: "machine_inv (s, joins)" and legal: "legal_call kvaRelease CallJoinResume (s, joins)"
  shows "\<exists>m. run_call kvaRelease CallJoinResume (s, joins) = Done m \<and> machine_inv m"
proof -
  have i: "sched_inv s" and l: "life_ok s" and j: "joins_ok s joins" using inv by simp_all
  define u where "u = gCurrentThread s"
  obtain t where ut: "joins u = Some t" and env: "finalizable kvaRelease s" using legal by (auto simp: u_def)
  obtain uh th where uh: "KThreads s u = Some uh" "State uh = KTHREAD_STATE_BLOCKED \<or> Completed (WaitBlock uh)"
    and th: "KThreads s t = Some th" "TerminationClaimState th = KTHREAD_TERMINATION_CLAIM_STATE_JOIN_IN_PROGRESS"
      "u \<in> granted s \<longrightarrow> State th = KTHREAD_STATE_TERMINATED"
    using joins_okD(1) [OF j ut] by blast
  have c: "Completed (WaitBlock uh)" using running_alive [OF i] uh by (auto simp: u_def)
  have m: "TerminationMode th = KTHREAD_TERMINATION_MODE_JOINABLE"
    using life_okD(6) [OF l th(1)] th(2) by (cases "TerminationMode th") simp_all
  define st where "st = CompletionStatus (WaitBlock uh)"
  have wr: "wait_resumed u s = Done st" using uh(1) by (simp add: wait_resumed_def st_def)
  have sub: "joins w = Some x \<and> x \<noteq> t" if "(joins(u := None)) w = Some x" for w x
    using that joins_okD(2) [OF j ut, of w] by (auto split: if_splits)
  show ?thesis
  proof (cases "st = EC_SUCCESS")
    case True
    then have fin: "State th = KTHREAD_STATE_TERMINATED" using th(3) uh(1) c by (simp add: granted_def st_def)
    have "machine_inv (free_kthread t s, joins(u := None))" by (rule free_inv [OF inv th(1) fin m sub])
    then show ?thesis using join_completes [OF i life_finished [OF l th(1) fin] env th(1) m th(2)] True ut wr by (simp add: u_def)
  next
    case False
    define s1 where "s1 = set_kthread t (th\<lparr>TerminationClaimState := KTHREAD_TERMINATION_CLAIM_STATE_UNCLAIMED\<rparr>) s"
    have "sched_inv s1" unfolding s1_def by (rule set_claim_inv(1) [OF i th(1)])
    moreover have "life_ok s1" unfolding s1_def by (rule life_ok_claim [OF l th(1)]) simp_all
    moreover have "joins_ok s1 (joins(u := None))"
    proof (rule joins_okI)
      fix w x assume wx: "(joins(u := None)) w = Some x"
      then have jw: "joins w = Some x" "x \<noteq> t" using sub by blast+
      have g: "w \<in> granted s1 \<longleftrightarrow> w \<in> granted s" using th(1) by (auto simp: granted_def s1_def set_kthread_def split: if_splits)
      obtain wh where wh: "KThreads s1 w = Some wh" "map_option State (KThreads s w) = Some (State wh)" "map_option WaitBlock (KThreads s w) = Some (WaitBlock wh)"
        using joins_okD(1) [OF j jw(1)] th(1) by (cases "w = t") (auto simp: s1_def set_kthread_def)
      have "KThreads s1 x = KThreads s x" using jw(2) by (simp add: s1_def set_kthread_def)
      then show "\<exists>th tht. KThreads s1 w = Some th \<and> KThreads s1 x = Some tht \<and>
          State th \<noteq> KTHREAD_STATE_TERMINATED \<and> Dispatcher (WaitBlock th) = Some (TerminationCompletion x) \<and>
          (State th = KTHREAD_STATE_BLOCKED \<or> Completed (WaitBlock th)) \<and>
          TerminationClaimState tht = KTHREAD_TERMINATION_CLAIM_STATE_JOIN_IN_PROGRESS \<and>
          (w \<in> granted s1 \<longrightarrow> State tht = KTHREAD_STATE_TERMINATED)"
        using joins_okD(1) [OF j jw(1)] wh unfolding g by auto
    next
      fix w w' x assume "(joins(u := None)) w = Some x" "(joins(u := None)) w' = Some x"
      then show "w = w'" using sub joins_okD(2) [OF j] by blast
    qed
    ultimately show ?thesis using join_times_out [OF th(1,2) False] ut wr by (simp add: u_def s1_def)
  qed
qed

section \<open>Detaching and reaping\<close>

lemma detach_inv:
  assumes inv: "machine_inv (s, joins)" and legal: "legal_call kvaRelease (CallDetach t) (s, joins)"
  shows "\<exists>m. run_call kvaRelease (CallDetach t) (s, joins) = Done m \<and> machine_inv m"
proof -
  have i: "sched_inv s" and l: "life_ok s" and j: "joins_ok s joins" using inv by simp_all
  obtain th where th: "KThreads s t = Some th" using legal by auto
  show ?thesis
  proof (cases "t = gIdleThread s \<or> TerminationMode th = KTHREAD_TERMINATION_MODE_DETACHED \<or>
      TerminationClaimState th \<noteq> KTHREAD_TERMINATION_CLAIM_STATE_UNCLAIMED")
    case True
    then show ?thesis using th inv
      by (cases "TerminationClaimState th") (auto simp: KeThreadDetach_def on_sched_def drop_result_def)
  next
    case False
    then have ni: "t \<noteq> gIdleThread s" and m: "TerminationMode th \<noteq> KTHREAD_TERMINATION_MODE_DETACHED"
      and cl: "TerminationClaimState th = KTHREAD_TERMINATION_CLAIM_STATE_UNCLAIMED" by auto
    define th1 where "th1 = th\<lparr>TerminationMode := KTHREAD_TERMINATION_MODE_DETACHED\<rparr>"
    define q where "q = gTerminatedList s @ (if State th = KTHREAD_STATE_TERMINATED then [t] else [])"
    define s1 where "s1 = (set_kthread t th1 s)\<lparr>gTerminatedList := q\<rparr>"
    have s1: "KThreads s1 = (KThreads s)(t \<mapsto> th1)" "Dispatchers s1 = Dispatchers s" "gTerminatedList s1 = q" "gIdleThread s1 = gIdleThread s"
      by (simp_all add: s1_def set_kthread_def)
    obtain ev where ev: "Dispatchers s (TerminationCompletion t) = Some ev" "SignalState ev \<noteq> 0 \<longleftrightarrow> State th = KTHREAD_STATE_TERMINATED"
      using life_okD(2) [OF l th ni] by blast
    have nq: "t \<notin> set (gTerminatedList s)" using life_okD(8) [OF l, of t] th m by simp
    have nr: "t \<notin> set (gReadyQueues s k)" if "State th = KTHREAD_STATE_TERMINATED" "k < KTHREAD_PRIORITY_COUNT" for k
      using running_unqueued(1) [OF sched_invD(5) [OF i], of t "tview_of th" k] th that by simp
    have e: "KeThreadDetach (Some t) s = Done (EC_SUCCESS, s1)"
    proof (cases "State th = KTHREAD_STATE_TERMINATED")
      case True
      have "\<not> KiIsThreadQueuedForReaper t (set_kthread t th1 s)"
        using nq nr [OF True] by (auto simp: KiIsThreadQueuedForReaper_def list_ex_iff set_kthread_def)
      moreover have "KiIsThreadTerminationCompletionPublished t (set_kthread t th1 s) = Done True"
        using ev True by (simp add: KiIsThreadTerminationCompletionPublished_def set_kthread_def)
      moreover have "KThreads (set_kthread t th1 s) t = Some th1" "gIdleThread (set_kthread t th1 s) = gIdleThread s"
        "gTerminatedList (set_kthread t th1 s) = gTerminatedList s" by (simp_all add: set_kthread_def)
      ultimately have "KiQueueDetachedThreadForReaper t (set_kthread t th1 s) = Done s1"
        using True cl ni by (simp add: KiQueueDetachedThreadForReaper_def th1_def s1_def q_def)
      moreover have "KiIsThreadTerminationCompletionPublished t (set_kthread t th1 s) = Done True"
        using ev True by (simp add: KiIsThreadTerminationCompletionPublished_def set_kthread_def)
      ultimately show ?thesis using True th ni m cl by (simp add: KeThreadDetach_def Let_def th1_def)
    next
      case False
      have "set_kthread t th1 s = s1" using False by (simp add: s1_def q_def set_kthread_def)
      then show ?thesis using False th ni m cl by (simp add: KeThreadDetach_def Let_def th1_def)
    qed
    have v1: "view s1 = view s" by (rule view_eqI) (use th in \<open>auto simp: s1_def set_kthread_def th1_def tview_of_def\<close>)
    have i1: "sched_inv s1"
    proof (rule sched_inv_same_view [OF i v1])
      show "dispatch_ready s1" "objects_ok s1" using sched_invD(2,3) [OF i]
        by (simp_all add: dispatch_ready_def objects_ok_def s1_def set_kthread_def)
      have "owned s1 u = owned s u" for u by (simp add: owned_def s1)
      then show "mutex_ok s1" using sched_invD(4) [OF i] th by (auto simp: mutex_ok_def s1 th1_def)
    qed
    have l1: "life_ok s1"
    proof (rule life_okI, goal_cases)
      case (1 u) then show ?case using life_okD(1) [OF l, of u] by (auto simp: s1 split: if_splits)
    next
      case (2 u uh) then show ?case using life_okD(2) [OF l, of u] th by (auto simp: s1 th1_def split: if_splits)
    next
      case (3 u uh) then show ?case using life_okD(3,4) [OF l, of u] th by (auto simp: s1 th1_def split: if_splits)
    next
      case (4 u uh) then show ?case using life_okD(5,6) [OF l, of u] th cl by (auto simp: s1 th1_def split: if_splits)
    next
      case 5 then show ?case using life_okD(7) [OF l] nq by (simp add: s1 q_def)
    next
      case (6 u) then show ?case using life_okD(8) [OF l, of u] th by (auto simp: s1 th1_def q_def split: if_splits)
    next
      case (7 u e) then show ?case using life_okD(9) [OF l, of u] by (simp add: s1)
    qed
    have nt: "joins u \<noteq> Some t" for u using joins_target [OF j _ th, of u] cl by auto
    have "joins_ok s1 joins"
    proof (rule joins_okI)
      fix u x assume u: "joins u = Some x"
      have x: "x \<noteq> t" using u nt by auto
      have g: "u \<in> granted s1 \<longleftrightarrow> u \<in> granted s" using th by (auto simp: granted_def s1 th1_def split: if_splits)
      obtain uh where uh: "KThreads s1 u = Some uh" "map_option State (KThreads s u) = Some (State uh)" "map_option WaitBlock (KThreads s u) = Some (WaitBlock uh)"
        using joins_okD(1) [OF j u] th by (cases "u = t") (auto simp: s1 th1_def)
      have "KThreads s1 x = KThreads s x" using x by (simp add: s1)
      then show "\<exists>th tht. KThreads s1 u = Some th \<and> KThreads s1 x = Some tht \<and>
          State th \<noteq> KTHREAD_STATE_TERMINATED \<and> Dispatcher (WaitBlock th) = Some (TerminationCompletion x) \<and>
          (State th = KTHREAD_STATE_BLOCKED \<or> Completed (WaitBlock th)) \<and>
          TerminationClaimState tht = KTHREAD_TERMINATION_CLAIM_STATE_JOIN_IN_PROGRESS \<and>
          (u \<in> granted s1 \<longrightarrow> State tht = KTHREAD_STATE_TERMINATED)"
        using joins_okD(1) [OF j u] uh unfolding g by auto
    next
      fix u u' x assume "joins u = Some x" "joins u' = Some x" then show "u = u'" by (rule joins_okD(2) [OF j])
    qed
    then show ?thesis using e i1 l1 by (simp add: on_sched_def drop_result_def)
  qed
qed

lemma fold_free:
  "KThreads (fold free_kthread ts s) u = (if u \<in> set ts then None else KThreads s u)"
  "Dispatchers (fold free_kthread ts s) (TerminationCompletion u) = (if u \<in> set ts then None else Dispatchers s (TerminationCompletion u))"
  "gIdleThread (fold free_kthread ts s) = gIdleThread s" "gTerminatedList (fold free_kthread ts s) = gTerminatedList s"
  by (induction ts arbitrary: s) (auto simp: free_kthread_def)

lemma reap_inv:
  assumes inv: "machine_inv (s, joins)" and legal: "legal_call kvaRelease CallReap (s, joins)"
  shows "\<exists>m. run_call kvaRelease CallReap (s, joins) = Done m \<and> machine_inv m"
proof -
  have i: "sched_inv s" and l: "life_ok s" and j: "joins_ok s joins" using inv by simp_all
  define q where "q = gTerminatedList s"
  obtain s' where s': "reap_loop kvaRelease s = Some (Done s')" "sched_inv s'" "s' = fold free_kthread q (s\<lparr>gTerminatedList := []\<rparr>)"
    using reap_loop_all [OF i life_reap_ok [OF l]] legal by (auto simp: q_def)
  have k: "KThreads s' u = (if u \<in> set q then None else KThreads s u)"
    "Dispatchers s' (TerminationCompletion u) = (if u \<in> set q then None else Dispatchers s (TerminationCompletion u))" for u
    by (simp_all add: s'(3) fold_free)
  have g: "gIdleThread s' = gIdleThread s" "gTerminatedList s' = []" by (simp_all add: s'(3) fold_free)
  have qd: "u \<in> set q \<longleftrightarrow> (\<exists>th. KThreads s u = Some th \<and> State th = KTHREAD_STATE_TERMINATED \<and> TerminationMode th = KTHREAD_TERMINATION_MODE_DETACHED)" for u
    using life_okD(8) [OF l, of u] by (simp add: q_def)
  have l': "life_ok s'"
  proof (rule life_okI, goal_cases)
    case (1 u) then show ?case using life_okD(1) [OF l, of u] by (auto simp: k split: if_splits)
  next
    case (2 u uh) then show ?case using life_okD(2) [OF l, of u] by (auto simp: k g split: if_splits)
  next
    case (3 u uh) then show ?case using life_okD(3,4) [OF l, of u] by (auto simp: k g split: if_splits)
  next
    case (4 u uh) then show ?case using life_okD(5,6) [OF l, of u] by (auto simp: k split: if_splits)
  next
    case 5 then show ?case by (simp add: g)
  next
    case (6 u) then show ?case using qd [of u] by (auto simp: k g split: if_splits)
  next
    case (7 u e) then show ?case using life_okD(9) [OF l, of u] by (auto simp: k split: if_splits)
  qed
  have "joins_ok s' joins"
  proof (rule joins_okI)
    fix u x assume u: "joins u = Some x"
    obtain uh xh where h: "KThreads s u = Some uh" "State uh \<noteq> KTHREAD_STATE_TERMINATED" "KThreads s x = Some xh"
      "TerminationClaimState xh = KTHREAD_TERMINATION_CLAIM_STATE_JOIN_IN_PROGRESS" using joins_okD(1) [OF j u] by blast
    have "u \<notin> set q" "x \<notin> set q" using h qd life_okD(6) [OF l h(3)] by auto
    then have e: "KThreads s' u = KThreads s u" "KThreads s' x = KThreads s x" by (simp_all add: k)
    then have "u \<in> granted s' \<longleftrightarrow> u \<in> granted s" by (simp add: granted_def)
    then show "\<exists>th tht. KThreads s' u = Some th \<and> KThreads s' x = Some tht \<and>
        State th \<noteq> KTHREAD_STATE_TERMINATED \<and> Dispatcher (WaitBlock th) = Some (TerminationCompletion x) \<and>
        (State th = KTHREAD_STATE_BLOCKED \<or> Completed (WaitBlock th)) \<and>
        TerminationClaimState tht = KTHREAD_TERMINATION_CLAIM_STATE_JOIN_IN_PROGRESS \<and>
        (u \<in> granted s' \<longrightarrow> State tht = KTHREAD_STATE_TERMINATED)"
      unfolding e using joins_okD(1) [OF j u] by auto
  next
    fix u u' x assume "joins u = Some x" "joins u' = Some x" then show "u = u'" by (rule joins_okD(2) [OF j])
  qed
  then show ?thesis using s'(1,2) l' by (simp add: on_sched_def KiReapTerminatedThreads_def flatten_loop_def)
qed

section \<open>Creation\<close>

lemma core_ok_new_thread:
  assumes ok: "core_ok v" and t: "cTV v t = None" "cWL v e = None" and x: "vState x = KTHREAD_STATE_NEW" "vPrio x < KTHREAD_PRIORITY_COUNT"
  shows "core_ok (v\<lparr>cTV := (cTV v)(t \<mapsto> x), cWL := (cWL v)(e \<mapsto> [])\<rparr>)"
proof -
  have nt: "t \<notin> set (cTQ v)" using core_okD(6) [OF ok, of t] t by auto
  show ?thesis
  proof (rule core_okI, goal_cases)
    case (1 k) then show ?case using core_okD(1) [OF ok] by simp
  next
    case (2 k u) then show ?case using core_okD(2) [OF ok, of k u] by simp
  next
    case (3 k u) then show ?case using core_okD(3) [OF ok, of k u] t by auto
  next
    case 4 then show ?case using core_okD(4) [OF ok] by simp
  next
    case 5 then show ?case using core_okD(5) [OF ok] nt by simp
  next
    case (6 u) then show ?case using core_okD(6) [OF ok, of u] t by auto
  next
    case (7 d ws) then show ?case using core_okD(7) [OF ok, of d ws] by (auto split: if_splits)
  next
    case (8 d ws u) then show ?case using core_okD(8) [OF ok, of d ws u] t by (auto split: if_splits)
  next
    case (9 u y) then show ?case using core_okD(9) [OF ok, of u y] t x by (fastforce simp: tview_ok_def split: if_splits)
  next
    case 10 then show ?case using core_okD(10) [OF ok] by auto
  next
    case 11 then show ?case using core_okD(11) [OF ok] by auto
  qed
qed

lemma create_inv:
  assumes inv: "machine_inv (s, joins)" and legal: "legal_call kvaRelease (CallCreate pool stack mapped entryPointGiven mode) (s, joins)"
  shows "\<exists>m. run_call kvaRelease (CallCreate pool stack mapped entryPointGiven mode) (s, joins) = Done m \<and> machine_inv m"
proof -
  have i: "sched_inv s" and l: "life_ok s" and j: "joins_ok s joins" using inv by simp_all
  show ?thesis
  proof (cases "entryPointGiven \<and> pool \<noteq> None \<and> \<not> isl stack \<and> mapped = EC_SUCCESS")
    case False
    then show ?thesis using inv
      by (auto simp: KiThreadCreateInternal_def on_sched_def drop_result_def split: option.splits sum.splits)
  next
    case True
    then obtain t guardBase usableBase where p: "pool = Some t" "stack = Inr (guardBase, usableBase)" "entryPointGiven" "mapped = EC_SUCCESS"
      by (cases stack) auto
    have fresh: "KThreads s t = None" "gNextThreadId s \<noteq> 0" using legal p(1) by simp_all
    have fd: "Dispatchers s (TerminationCompletion t) = None" by (rule life_okD(1) [OF l fresh(1)])
    define th where "th = \<lparr>KThreadId = gNextThreadId s, State = KTHREAD_STATE_NEW, StackBase = usableBase,
        StackSize = KE_THREAD_STACK_SIZE, StackGuardBase = guardBase, StackOwnedByKva = True,
        Priority = KTHREAD_DEFAULT_PRIORITY, Quantum = KE_DEFAULT_QUANTUM_NS, OwnedMutexCount = 0,
        IrqlState = KeInitializeIrqlState, WaitBlock = init_wait_block, TerminationMode = mode,
        TerminationClaimState = KTHREAD_TERMINATION_CLAIM_STATE_UNCLAIMED, ThreadFlags = 0\<rparr>"
    define ev where "ev = \<lparr>Signature = KDISPATCHER_SIGNATURE, DispatcherType = DISPATCHER_TYPE_EVENT,
        SignalState = 0, WaitListHead = [], Limit = 0, OwnerThread = None\<rparr>"
    define s1 where "s1 = s\<lparr>gNextThreadId := gNextThreadId s + 1, KThreads := (KThreads s)(t \<mapsto> th),
        Dispatchers := (Dispatchers s)(TerminationCompletion t \<mapsto> ev)\<rparr>"
    have e: "KiThreadCreateInternal pool stack mapped entryPointGiven mode s = Done (Inr t, s1)"
      using p fresh(2) by (simp add: KiThreadCreateInternal_def KiAllocateThreadId_def KeInitializeEvent_def set_kthread_def set_dispatcher_def
          Let_def th_def ev_def s1_def)
    have s1: "KThreads s1 = (KThreads s)(t \<mapsto> th)" "Dispatchers s1 = (Dispatchers s)(TerminationCompletion t \<mapsto> ev)"
      "gTerminatedList s1 = gTerminatedList s" "gIdleThread s1 = gIdleThread s" "gCurrentThread s1 = gCurrentThread s" by (simp_all add: s1_def)
    have v1: "view s1 = (view s)\<lparr>cTV := (cTV (view s))(t \<mapsto> tview_of th), cWL := (cWL (view s))(TerminationCompletion t \<mapsto> [])\<rparr>"
      by (rule view_eqI) (auto simp: s1_def ev_def)
    have core: "core_ok (view s1)" unfolding v1
      by (rule core_ok_new_thread [OF sched_invD(5) [OF i]]) (use fresh fd in \<open>simp_all add: th_def KTHREAD_DEFAULT_PRIORITY_def KTHREAD_PRIORITY_COUNT_def\<close>)
    have i1: "sched_inv s1" unfolding sched_inv_def sched_core_def
    proof (intro conjI)
      show "core_ok (view s1)" by (rule core)
      show "dispatch_ready s1" using sched_invD(2) [OF i] by (simp add: dispatch_ready_def s1_def)
      show "objects_ok s1" using sched_invD(3) [OF i] by (simp add: objects_ok_def s1 object_ok_def ev_def)
      have own: "owned s1 u = owned s u" for u using fd by (auto simp: owned_def s1 ev_def)
      have "owned s t = {}" using sched_invD(4) [OF i] fresh(1) by (auto simp: mutex_ok_def)
      then show "mutex_ok s1" using sched_invD(4) [OF i] by (auto simp: mutex_ok_def own s1 th_def)
      show "\<exists>x. KThreads s1 (gCurrentThread s1) = Some x \<and> State x = KTHREAD_STATE_RUNNING"
        using sched_invD(6) [OF i] fresh(1) by (auto simp: s1)
    qed
    have l1: "life_ok s1"
    proof (rule life_okI, goal_cases)
      case (1 u) then show ?case using life_okD(1) [OF l, of u] by (auto simp: s1 split: if_splits)
    next
      case (2 u uh) then show ?case using life_okD(2) [OF l, of u] by (auto simp: s1 th_def ev_def split: if_splits)
    next
      case (3 u uh) then show ?case using life_okD(3,4) [OF l, of u] by (auto simp: s1 th_def split: if_splits)
    next
      case (4 u uh) then show ?case using life_okD(5,6) [OF l, of u] by (auto simp: s1 th_def split: if_splits)
    next
      case 5 then show ?case using life_okD(7) [OF l] by (simp add: s1)
    next
      case (6 u) then show ?case using life_okD(8) [OF l, of u] fresh(1) by (auto simp: s1 th_def split: if_splits)
    next
      case (7 u e) then show ?case using life_okD(9) [OF l, of u] by (auto simp: s1 ev_def split: if_splits)
    qed
    have nj: "joins u \<noteq> Some t" "joins t = None" for u
      using joins_okD(1) [OF j, of u t] joins_okD(1) [OF j, of t] fresh(1) by (auto, cases "joins t") auto
    have "joins_ok s1 joins" by (rule joins_ok_other [OF j, of _ t]) (use nj in \<open>auto simp: s1\<close>)
    then show ?thesis using e i1 l1 by (simp add: on_sched_def drop_result_def)
  qed
qed

section \<open>Objects\<close>

lemma core_ok_new_list:
  assumes ok: "core_ok v" and e: "cWL v e = None"
  shows "core_ok (v\<lparr>cWL := (cWL v)(e \<mapsto> [])\<rparr>)"
proof (rule core_okI, goal_cases)
  case (1 k) then show ?case using core_okD(1) [OF ok] by simp
next
  case (2 k u) then show ?case using core_okD(2) [OF ok, of k u] by simp
next
  case (3 k u) then show ?case using core_okD(3) [OF ok, of k u] by simp
next
  case 4 then show ?case using core_okD(4) [OF ok] by simp
next
  case 5 then show ?case using core_okD(5) [OF ok] by simp
next
  case (6 u) then show ?case using core_okD(6) [OF ok, of u] by simp
next
  case (7 d ws) then show ?case using core_okD(7) [OF ok, of d ws] by (auto split: if_splits)
next
  case (8 d ws u) then show ?case using core_okD(8) [OF ok, of d ws u] by (auto split: if_splits)
next
  case (9 u y) then show ?case using core_okD(9) [OF ok, of u y] e by (fastforce simp: tview_ok_def split: if_splits)
next
  case 10 then show ?case using core_okD(10) [OF ok] by simp
next
  case 11 then show ?case using core_okD(11) [OF ok] by simp
qed

lemma new_object:
  assumes i: "sched_inv s" and d: "own_object d" "Dispatchers s d = None"
    and ob: "object_ok ob" "WaitListHead ob = []" "OwnerThread ob = None"
  shows "keeps {} {} s (set_dispatcher d ob s)"
    "\<And>k. DispatcherType ob = DISPATCHER_TYPE_MUTEX \<Longrightarrow> KiAssertMutexState d (set_dispatcher d ob s) k = k ob"
proof -
  define s1 where "s1 = set_dispatcher d ob s"
  have nd: "\<forall>t. d \<noteq> TerminationCompletion t" using d(1) by (auto simp: own_object_def)
  have v1: "view s1 = (view s)\<lparr>cWL := (cWL (view s))(d \<mapsto> [])\<rparr>" by (rule view_eqI) (auto simp: s1_def set_dispatcher_def ob(2))
  have "core_ok (view s1)" unfolding v1 by (rule core_ok_new_list [OF sched_invD(5) [OF i]]) (simp add: d(2))
  moreover have "objects_ok s1" using sched_invD(3) [OF i] ob(1) by (simp add: objects_ok_def s1_def set_dispatcher_def)
  moreover have "owned s1 t = owned s t" for t using d(2) ob(3) by (auto simp: owned_def s1_def set_dispatcher_def)
  then have "mutex_ok s1" using sched_invD(4) [OF i] by (auto simp: mutex_ok_def s1_def set_dispatcher_def)
  moreover have "dispatch_ready s1" using sched_invD(2) [OF i] by (simp add: s1_def)
  ultimately have "sched_inv s1" using sched_invD(6) [OF i] by (simp add: sched_inv_def sched_core_def s1_def set_dispatcher_def)
  moreover have "vstep {} (view s) (view s1)" unfolding v1 vstep_def by auto
  moreover have "granted s1 = granted s" by (simp add: granted_def s1_def set_dispatcher_def)
  ultimately show "keeps {} {} s (set_dispatcher d ob s)" using life_same_object [OF nd] by (simp add: keeps_def s1_def)
  show "KiAssertMutexState d (set_dispatcher d ob s) k = k ob" if "DispatcherType ob = DISPATCHER_TYPE_MUTEX" for k
    using ob(1) that by (auto simp: KiAssertMutexState_def set_dispatcher_def object_ok_def)
qed

lemma keeps_init_event:
  assumes "sched_inv s" "own_object d" "Dispatchers s d = None"
  shows "keeps {} {} s (KeInitializeEvent d initialState s)"
  unfolding KeInitializeEvent_def by (rule new_object(1) [OF assms]) (simp_all add: object_ok_def)

lemma keeps_init_semaphore:
  assumes i: "sched_inv s" and d: "own_object d" "Dispatchers s d = None" "limit < 2 ^ 31"
  shows "keeps {} {} s (snd (KeInitializeSemaphore (Some d) initialCount limit s))"
proof (cases "initialCount < 0 \<or> limit \<le> 0 \<or> initialCount > limit")
  case True
  then show ?thesis using keeps_refl [OF i] by (simp add: KeInitializeSemaphore_def)
next
  case False
  then show ?thesis using new_object(1) [OF i d(1,2), of "\<lparr>Signature = KDISPATCHER_SIGNATURE,
              DispatcherType = DISPATCHER_TYPE_SEMAPHORE, SignalState = initialCount, WaitListHead = [],
              Limit = limit, OwnerThread = None\<rparr>"] d(3) by (simp add: KeInitializeSemaphore_def object_ok_def)
qed

lemma keeps_init_mutex:
  assumes i: "sched_inv s" and d: "own_object d" "Dispatchers s d = None"
  shows "\<exists>s'. KeInitializeMutex d s = Done s' \<and> keeps {} {} s s'"
proof -
  define ob where "ob = \<lparr>Signature = KDISPATCHER_SIGNATURE, DispatcherType = DISPATCHER_TYPE_MUTEX,
           SignalState = 1, WaitListHead = [], Limit = 0, OwnerThread = None\<rparr>"
  have ok: "object_ok ob" "WaitListHead ob = []" "OwnerThread ob = None" "DispatcherType ob = DISPATCHER_TYPE_MUTEX"
    by (simp_all add: ob_def object_ok_def)
  have "KeInitializeMutex d s = Done (set_dispatcher d ob s)"
    unfolding KeInitializeMutex_def Let_def ob_def [symmetric] using new_object(2) [OF i d ok(1-3)] ok(4) by simp
  then show ?thesis using new_object(1) [OF i d ok(1-3)] by blast
qed

section \<open>From initialisation\<close>

lemma init_inv:
  assumes env: "dispatch_ready s" and empty: "KThreads s = Map.empty" "Dispatchers s = Map.empty"
    and init: "KeSchedulerInit (Some idle) bootStackTop EC_SUCCESS s = (EC_SUCCESS, s')"
  shows "machine_inv (s', Map.empty)"
proof -
  define th where "th = \<lparr>KThreadId = 0, State = KTHREAD_STATE_RUNNING, StackBase = bootStackTop - HO_STACK_SIZE,
      StackSize = HO_STACK_SIZE, StackGuardBase = 0, StackOwnedByKva = False,
      Priority = KTHREAD_DEFAULT_PRIORITY, Quantum = 0, OwnedMutexCount = 0,
      IrqlState = KeInitializeIrqlState, WaitBlock = init_wait_block,
      TerminationMode = KTHREAD_TERMINATION_MODE_DETACHED,
      TerminationClaimState = KTHREAD_TERMINATION_CLAIM_STATE_UNCLAIMED, ThreadFlags = KTHREAD_FLAG_IDLE\<rparr>"
  define ev where "ev = \<lparr>Signature = KDISPATCHER_SIGNATURE, DispatcherType = DISPATCHER_TYPE_EVENT,
      SignalState = 0, WaitListHead = [], Limit = 0, OwnerThread = None\<rparr>"
  have k: "KThreads s' = [idle \<mapsto> th]" "Dispatchers s' = [TerminationCompletion idle \<mapsto> ev]" "gCurrentThread s' = idle" "gIdleThread s' = idle"
    "gTimeoutQueue s' = []" "gTerminatedList s' = []" "gClock s' = gClock s" "Hooks s' = Hooks s" "\<And>k. k < KTHREAD_PRIORITY_COUNT \<Longrightarrow> gReadyQueues s' k = []"
    using init empty by (auto simp: KeSchedulerInit_def KiInitReadyQueues_def Let_def KeInitializeEvent_def set_dispatcher_def set_kthread_def th_def ev_def)
  have "core_ok (view s')"
    by (rule core_okI) (auto simp: k th_def ev_def tview_ok_def tview_of_def KTHREAD_DEFAULT_PRIORITY_def KTHREAD_PRIORITY_COUNT_def split: if_splits)
  moreover have "dispatch_ready s'" using env by (simp add: dispatch_ready_def k)
  moreover have "objects_ok s'" by (simp add: objects_ok_def object_ok_def k ev_def)
  moreover have "owned s' t = {}" for t by (auto simp: owned_def k ev_def split: if_splits)
  then have "mutex_ok s'" by (simp add: mutex_ok_def k th_def)
  ultimately have "sched_inv s'" by (simp add: sched_inv_def sched_core_def k th_def)
  moreover have "life_ok s'" by (simp add: life_ok_def k th_def ev_def)
  ultimately show ?thesis by (simp add: joins_ok_def)
qed

section \<open>The machine is safe\<close>

interpretation sched: safe_machine "run_call kvaRelease" "legal_call kvaRelease" machine_inv for kvaRelease
proof
  fix m c assume inv': "machine_inv m" and legal': "legal_call kvaRelease c m"
  obtain s joins where m: "m = (s, joins)" by (cases m)
  have inv: "machine_inv (s, joins)" and legal: "legal_call kvaRelease c (s, joins)" using inv' legal' m by simp_all
  have i: "sched_inv s" and l: "life_ok s" using inv by simp_all
  have "\<exists>m'. run_call kvaRelease c (s, joins) = Done m' \<and> machine_inv m'"
  proof (cases c)
    case (CallInitEvent d initialState)
    then show ?thesis using keeps_call [OF inv _ keeps_init_event [OF i, of d initialState], of "\<lambda>s. Done (KeInitializeEvent d initialState s)"] legal by simp
  next
    case (CallInitSemaphore d initialCount limit)
    then show ?thesis using legal
        keeps_call [OF inv _ keeps_init_semaphore [OF i, of d limit initialCount], of "\<lambda>s. Done (snd (KeInitializeSemaphore (Some d) initialCount limit s))"] by simp
  next
    case (CallInitMutex d)
    obtain s' where "KeInitializeMutex d s = Done s'" "keeps {} {} s s'" using keeps_init_mutex [OF i] legal CallInitMutex by auto
    then show ?thesis using keeps_call [OF inv, of "KeInitializeMutex d"] CallInitMutex by simp
  next
    case (CallSetEvent d now)
    obtain x ev where d: "d = DispatcherAt x" "Dispatchers s d = Some ev" "DispatcherType ev = DISPATCHER_TYPE_EVENT"
      using legal CallSetEvent by (cases d) (auto simp: own_object_def elim: has_objectE)
    obtain s' where "KeSetEvent d now s = Done s'" "keeps {} (set (WaitListHead ev)) s s'" using keeps_set_event [OF i l] d by blast
    then show ?thesis using keeps_call [OF inv, of "KeSetEvent d now"] own_waiters_free [OF inv d(2)] d(1) CallSetEvent by simp
  next
    case (CallResetEvent d)
    obtain x ev where d: "d = DispatcherAt x" "Dispatchers s d = Some ev" "DispatcherType ev = DISPATCHER_TYPE_EVENT"
      using legal CallResetEvent by (cases d) (auto simp: own_object_def elim: has_objectE)
    obtain s' where "KeResetEvent d s = Done s'" "keeps {} {} s s'" using keeps_reset_event [OF i] d by blast
    then show ?thesis using keeps_call [OF inv, of "KeResetEvent d"] CallResetEvent by simp
  next
    case (CallReleaseSemaphore d n now)
    obtain sem where d: "Dispatchers s d = Some sem" "DispatcherType sem = DISPATCHER_TYPE_SEMAPHORE" "length (WaitListHead sem) < 2 ^ 31"
      using legal CallReleaseSemaphore by (auto elim: has_objectE)
    obtain st s' where "KeReleaseSemaphore (Some d) n now s = Done (st, s')" "keeps {} (set (WaitListHead sem)) s s'"
      using keeps_release_semaphore [OF i l d] by blast
    then show ?thesis using keeps_call_result [OF inv, of "KeReleaseSemaphore (Some d) n now"]
        own_waiters_free [OF inv d(1) not_completion [OF l d(1)]] d(2) CallReleaseSemaphore by simp
  next
    case (CallReleaseMutex d)
    obtain mx where d: "Dispatchers s d = Some mx" "DispatcherType mx = DISPATCHER_TYPE_MUTEX" "list_all (\<lambda>t. may_own_more t s) (WaitListHead mx)"
      using legal CallReleaseMutex by (auto elim: has_objectE)
    have "OwnedMutexCount uh \<noteq> 0xFFFFFFFF" if "u \<in> set (WaitListHead mx)" "KThreads s u = Some uh" for u uh
      using d(3) that by (auto simp: list_all_iff may_own_more_def)
    then obtain st s' where "KeReleaseMutex (Some d) s = Done (st, s')" "keeps {} (set (WaitListHead mx)) s s'"
      using keeps_release_mutex [OF i l d(1,2)] by blast
    then show ?thesis using keeps_call_result [OF inv, of "KeReleaseMutex (Some d)"]
        own_waiters_free [OF inv d(1) not_completion [OF l d(1)]] d(2) CallReleaseMutex by simp
  next
    case (CallWait d timeoutNs now sw)
    obtain ob where ob: "Dispatchers s d = Some ob" using legal CallWait by auto
    have "OwnedMutexCount th \<noteq> 0xFFFFFFFF" if "KThreads s (gCurrentThread s) = Some th" for th
      using legal CallWait that by (simp add: may_own_more_def)
    then obtain r s' where w: "KeWaitForSingleObject (Some d) timeoutNs now sw s = Done (r, s')" "keeps {gCurrentThread s} {} s s'"
      using keeps_wait [OF i l _ ob, of timeoutNs now sw] legal CallWait by auto
    have "u \<notin> {gCurrentThread s} \<and> u \<notin> {}" if "joins u = Some t" for u t using legal CallWait that by auto
    then show ?thesis using keeps_call_result [OF inv, of "KeWaitForSingleObject (Some d) timeoutNs now sw", OF w] CallWait by simp
  next
    case (CallYield sw)
    obtain s' where "KeYield sw s = Done s'" "keeps {} {} s s'" using keeps_yield [OF i l] legal CallYield by auto
    then show ?thesis using keeps_call [OF inv, of "KeYield sw"] CallYield by simp
  next
    case (CallSleep durationNs now sw)
    obtain s' where w: "KeSleep durationNs now sw s = Done s'" "keeps {gCurrentThread s} {} s s'"
      using keeps_sleep [OF i l, of now durationNs sw] legal CallSleep by auto
    have "u \<notin> {gCurrentThread s} \<and> u \<notin> {}" if "joins u = Some t" for u t using legal CallSleep that by auto
    then show ?thesis using keeps_call [OF inv, of "KeSleep durationNs now sw", OF w] CallSleep by simp
  next
    case CallCreate then show ?thesis using create_inv [OF inv] legal by simp
  next
    case (CallStart t)
    obtain th where "KThreads s t = Some th" "t \<noteq> gIdleThread s" using legal CallStart by auto
    then obtain st s' where "KeThreadStart (Some t) s = Done (st, s')" "keeps {} {} s s'" using keeps_start [OF i] by blast
    then show ?thesis using keeps_call_result [OF inv, of "KeThreadStart (Some t)"] CallStart by simp
  next
    case CallExit then show ?thesis using exit_inv [OF inv] legal by simp
  next
    case CallJoin then show ?thesis using join_inv [OF inv] legal by simp
  next
    case CallJoinResume then show ?thesis using join_resume_inv [OF inv] legal by simp
  next
    case CallDetach then show ?thesis using detach_inv [OF inv] legal by simp
  next
    case CallReap then show ?thesis using reap_inv [OF inv] legal by simp
  next
    case (CallTimer now sw)
    obtain s' where "KiSchedulerTimerISR now sw s = Done s'" "keeps {} {} s s'" using keeps_timer [OF i l] legal CallTimer by auto
    then show ?thesis using keeps_call [OF inv, of "KiSchedulerTimerISR now sw"] CallTimer by simp
  qed
  then show "\<exists>m'. run_call kvaRelease c m = Done m' \<and> machine_inv m'" using m by simp
qed

end
