(* ===== verification/Input.thy ===== *)
theory Input
  imports Scheduler
begin

text \<open>
  Keyboard input (\<^verbatim>\<open>ke/input/input.c\<close>): scan codes are translated into characters, edited into a line
  for the foreground thread, and handed to that thread. The PS/2 sink is the list of results that its
  successive reads give while it reports pending data; the characters written to the console are
  collected in \<open>Echo\<close>. \<open>char\<close> arrays are lists of their fixed length.
\<close>

section \<open>The device\<close>

definition KE_INPUT_LINE_CAPACITY :: nat where "KE_INPUT_LINE_CAPACITY = 128"
definition KE_INPUT_IRQ_VECTOR :: u8 where "KE_INPUT_IRQ_VECTOR = 0x21"
definition KE_INPUT_OWNER_RECHECK_TIMEOUT_NS :: u64 where "KE_INPUT_OWNER_RECHECK_TIMEOUT_NS = 10000000"

text \<open>\<open>LineReadyEvent\<close> is the address of the event embedded in the device, \<open>HasSink\<close> tells that \<open>ActiveSink\<close> is set.\<close>

record KE_INPUT_DEVICE =
  HasSink :: bool
  LineReadyEvent :: disp_ref
  CurrentLine :: string
  CompletedLine :: string
  CurrentLineLength :: u32
  CompletedLineLength :: u32
  ForegroundOwnerThreadId :: u32
  CompletedReadCount :: u64
  LineReady :: bool
  ShiftDown :: bool
  InputInitialized :: bool
  Vector :: u8
  Echo :: string

definition zero_line :: string where
  "zero_line = replicate KE_INPUT_LINE_CAPACITY (CHR 0x00)"

section \<open>Scan codes\<close>

text \<open>The two tables, row by row from their first index; the entries that are not named are zero.\<close>

definition ascii_map :: "string list \<Rightarrow> string" where
  "ascii_map rows =
    replicate 2 (CHR 0x00) @ rows ! 0 @ replicate 2 (CHR 0x00) @ rows ! 1 @ replicate 2 (CHR 0x00) @ rows ! 2 @
    [CHR 0x00] @ rows ! 3 @ replicate 3 (CHR 0x00) @ '' '' @ replicate 70 (CHR 0x00)"

definition kPs2Set1AsciiMap :: string where
  "kPs2Set1AsciiMap =
    ascii_map [''1234567890-='', ''qwertyuiop[]'', ''asdfghjkl;'' @ [CHR 0x27, CHR 0x60], [CHR 0x5C] @ ''zxcvbnm,./'']"

definition kPs2Set1ShiftAsciiMap :: string where
  "kPs2Set1ShiftAsciiMap =
    ascii_map [''!@#$%^&*()_+'', ''QWERTYUIOP{}'', ''ASDFGHJKL:'' @ [CHR 0x22] @ ''~'', ''|ZXCVBNM<>?'']"

definition KiTranslateSet1ScanCode :: "u8 \<Rightarrow> bool \<Rightarrow> char" where
  "KiTranslateSet1ScanCode scanCode shifted =
    (if scanCode \<ge> 128 then CHR 0x00
     else if scanCode = 0x1C then CHR 0x0A
     else if scanCode = 0x0E then CHR 0x08
     else if shifted then kPs2Set1ShiftAsciiMap ! unat scanCode
     else kPs2Set1AsciiMap ! unat scanCode)"

section \<open>Editing\<close>

definition KiHandleTranslatedInputChar ::
  "char \<Rightarrow> u64 \<Rightarrow> KE_INPUT_DEVICE \<Rightarrow> sched_state \<Rightarrow> (KE_INPUT_DEVICE \<times> sched_state) outcome" where
  "KiHandleTranslatedInputChar character nowNs dev s =
    (if ForegroundOwnerThreadId dev = 0 then Done (dev, s)
     else if character = CHR 0x08 then
       if CurrentLineLength dev = 0 \<or> LineReady dev then Done (dev, s)
       else Done (dev\<lparr>CurrentLineLength := CurrentLineLength dev - 1, Echo := Echo dev @ [CHR 0x08]\<rparr>, s)
     else if character = CHR 0x0A then
       if LineReady dev then Done (dev, s)
       else
         let n = unat (CurrentLineLength dev);
             dev = (if CurrentLineLength dev \<noteq> 0
                    then dev\<lparr>CompletedLine := take n (CurrentLine dev) @ drop n (CompletedLine dev)\<rparr> else dev);
             dev = dev\<lparr>CompletedLineLength := CurrentLineLength dev, LineReady := True, CurrentLineLength := 0,
                       CurrentLine := zero_line, Echo := Echo dev @ [CHR 0x0A]\<rparr>
         in bind_outcome (KeSetEvent (LineReadyEvent dev) nowNs s) (\<lambda>s. Done (dev, s))
     else if of_char character < (32 :: nat) \<or> of_char character > (126 :: nat) \<or> LineReady dev then Done (dev, s)
     else if unat (CurrentLineLength dev) \<ge> KE_INPUT_LINE_CAPACITY then Done (dev, s)
     else Done (dev\<lparr>CurrentLine := (CurrentLine dev)[unat (CurrentLineLength dev) := character],
                    CurrentLineLength := CurrentLineLength dev + 1, Echo := Echo dev @ [character]\<rparr>, s))"

text \<open>
  The loop of the interrupt handler. Completing a line while the idle thread is interrupted dispatches the
  reader at once: the handler is suspended there, and the reads that are left are returned; they happen
  when the interrupted thread runs again.
\<close>

fun scan_loop ::
  "u64 \<Rightarrow> u8 result list \<Rightarrow> KE_INPUT_DEVICE \<Rightarrow> sched_state \<Rightarrow> (u8 result list \<times> KE_INPUT_DEVICE \<times> sched_state) outcome" where
  "scan_loop nowNs [] dev s = Done ([], dev, s)"
| "scan_loop nowNs (Inl st # reads) dev s = Done ([], dev, s)"
| "scan_loop nowNs (Inr scanCode # reads) dev s =
    (if scanCode = 0x2A \<or> scanCode = 0x36 then scan_loop nowNs reads (dev\<lparr>ShiftDown := True\<rparr>) s
     else if scanCode = 0xAA \<or> scanCode = 0xB6 then scan_loop nowNs reads (dev\<lparr>ShiftDown := False\<rparr>) s
     else if scanCode AND 0x80 \<noteq> 0 then scan_loop nowNs reads dev s
     else
       let character = KiTranslateSet1ScanCode scanCode (ShiftDown dev) in
       if character = CHR 0x00 then scan_loop nowNs reads dev s
       else bind_outcome (KiHandleTranslatedInputChar character nowNs dev s) (\<lambda>(dev', s').
         if gCurrentThread s' \<noteq> gCurrentThread s then Done (reads, dev', s') else scan_loop nowNs reads dev' s'))"

definition KiKeyboardInterruptHandler ::
  "bool \<Rightarrow> u64 \<Rightarrow> u8 result list \<Rightarrow> KE_INPUT_DEVICE \<Rightarrow> sched_state \<Rightarrow> (u8 result list \<times> KE_INPUT_DEVICE \<times> sched_state) outcome" where
  "KiKeyboardInterruptHandler sinkUsable nowNs reads dev s =
    (if \<not> sinkUsable then Done (reads, dev, s) else scan_loop nowNs reads dev s)"

section \<open>Initialisation and queries\<close>

text \<open>The statuses of the sink's two initialisations and of the registration in the interrupt table are arguments.\<close>

definition KeInputInit ::
  "ho_status \<Rightarrow> ho_status \<Rightarrow> ho_status \<Rightarrow> KE_INPUT_DEVICE \<Rightarrow> sched_state \<Rightarrow> ho_status \<times> KE_INPUT_DEVICE \<times> sched_state" where
  "KeInputInit sinkStatus initStatus idtStatus dev s =
    (if sinkStatus \<noteq> EC_SUCCESS then (sinkStatus, dev, s)
     else
       let dev = \<lparr>HasSink = True, LineReadyEvent = LineReadyEvent dev, CurrentLine = zero_line, CompletedLine = zero_line,
                  CurrentLineLength = 0, CompletedLineLength = 0, ForegroundOwnerThreadId = 0, CompletedReadCount = 0,
                  LineReady = False, ShiftDown = False, InputInitialized = False, Vector = KE_INPUT_IRQ_VECTOR, Echo = Echo dev\<rparr>;
           s = KeInitializeEvent (LineReadyEvent dev) False s
       in if initStatus \<noteq> EC_SUCCESS then (initStatus, dev, s)
          else if idtStatus \<noteq> EC_SUCCESS then (idtStatus, dev, s)
          else (EC_SUCCESS, dev\<lparr>InputInitialized := True\<rparr>, s))"

definition KeInputIsReady :: "KE_INPUT_DEVICE \<Rightarrow> bool" where
  "KeInputIsReady dev = InputInitialized dev"

definition KeInputGetSourceName :: "KE_INPUT_DEVICE \<Rightarrow> string option" where
  "KeInputGetSourceName dev = (if \<not> InputInitialized dev \<or> \<not> HasSink dev then None else Some ''qemu-ps2-keyboard'')"

definition KeInputGetVector :: "KE_INPUT_DEVICE \<Rightarrow> u8" where
  "KeInputGetVector dev = Vector dev"

definition KeInputGetForegroundOwnerThreadId :: "KE_INPUT_DEVICE \<Rightarrow> u32" where
  "KeInputGetForegroundOwnerThreadId dev = ForegroundOwnerThreadId dev"

definition KeInputGetCompletedReadCount :: "KE_INPUT_DEVICE \<Rightarrow> u64" where
  "KeInputGetCompletedReadCount dev = CompletedReadCount dev"

section \<open>The foreground thread\<close>

definition KeInputSetForegroundOwnerThreadId ::
  "u32 \<Rightarrow> KE_INPUT_DEVICE \<Rightarrow> sched_state \<Rightarrow> (ho_status \<times> KE_INPUT_DEVICE \<times> sched_state) outcome" where
  "KeInputSetForegroundOwnerThreadId threadId dev s =
    (if \<not> InputInitialized dev then Done (EC_INVALID_STATE, dev, s)
     else
       let dev = dev\<lparr>ForegroundOwnerThreadId := threadId, CurrentLineLength := 0, CompletedLineLength := 0, LineReady := False,
                     ShiftDown := False, CurrentLine := zero_line, CompletedLine := zero_line\<rparr>
       in bind_outcome (KeResetEvent (LineReadyEvent dev) s) (\<lambda>s. Done (EC_SUCCESS, dev, s)))"

text \<open>The scheduler state has a current thread, so \<open>KeGetCurrentThread\<close> is not \<open>NULL\<close>.\<close>

definition KiValidateForegroundCurrentThread :: "KE_INPUT_DEVICE \<Rightarrow> sched_state \<Rightarrow> ho_status outcome" where
  "KiValidateForegroundCurrentThread dev s =
    deref (KThreads s (gCurrentThread s)) (\<lambda>th.
      Done (if ForegroundOwnerThreadId dev = 0 \<or> KThreadId th \<noteq> ForegroundOwnerThreadId dev then EC_INVALID_STATE else EC_SUCCESS))"

text \<open>
  Waiting for a line: a round checks the owner and waits for at most ten milliseconds. A round that
  blocks is continued by \<open>input_wait_resumed\<close> when the thread runs again.
\<close>

datatype input_wait = InputReturned ho_status | InputBlocked | InputRetry

definition input_wait_status :: "ho_status \<Rightarrow> KE_INPUT_DEVICE \<Rightarrow> sched_state \<Rightarrow> input_wait outcome" where
  "input_wait_status status dev s =
    (if status = EC_SUCCESS then bind_outcome (KiValidateForegroundCurrentThread dev s) (\<lambda>st. Done (InputReturned st))
     else if status \<noteq> EC_TIMEOUT then Done (InputReturned status)
     else Done InputRetry)"

definition input_wait_round ::
  "u64 \<Rightarrow> u64 \<Rightarrow> KE_INPUT_DEVICE \<Rightarrow> sched_state \<Rightarrow> (input_wait \<times> sched_state) outcome" where
  "input_wait_round nowNs switchNs dev s =
    bind_outcome (KiValidateForegroundCurrentThread dev s) (\<lambda>status.
      if status \<noteq> EC_SUCCESS then Done (InputReturned status, s)
      else bind_outcome (KeWaitForSingleObject (Some (LineReadyEvent dev)) KE_INPUT_OWNER_RECHECK_TIMEOUT_NS nowNs switchNs s)
        (\<lambda>(r, s). case r of
           Blocked \<Rightarrow> Done (InputBlocked, s)
         | Returned status \<Rightarrow> bind_outcome (input_wait_status status dev s) (\<lambda>w. Done (w, s))))"

definition KeInputWaitForForegroundLine ::
  "u64 \<Rightarrow> u64 \<Rightarrow> KE_INPUT_DEVICE \<Rightarrow> sched_state \<Rightarrow> (input_wait \<times> sched_state) outcome" where
  "KeInputWaitForForegroundLine nowNs switchNs dev s =
    (if \<not> InputInitialized dev then Done (InputReturned EC_INVALID_STATE, s) else input_wait_round nowNs switchNs dev s)"

definition input_wait_resumed ::
  "u64 \<Rightarrow> u64 \<Rightarrow> KE_INPUT_DEVICE \<Rightarrow> sched_state \<Rightarrow> (input_wait \<times> sched_state) outcome" where
  "input_wait_resumed nowNs switchNs dev s =
    bind_outcome (wait_resumed (gCurrentThread s) s) (\<lambda>status.
      bind_outcome (input_wait_status status dev s) (\<lambda>w.
        if w = InputRetry then input_wait_round nowNs switchNs dev s else Done (w, s)))"

text \<open>\<open>None\<close> is a null buffer or length pointer; the result is what is written to the buffer.\<close>

definition KeInputCopyCompletedLineForCurrentThread ::
  "bool \<Rightarrow> u32 \<Rightarrow> KE_INPUT_DEVICE \<Rightarrow> sched_state \<Rightarrow> (string \<times> u32) result outcome" where
  "KeInputCopyCompletedLineForCurrentThread pointersValid capacity dev s =
    (if \<not> pointersValid \<or> capacity = 0 then Done (Inl EC_ILLEGAL_ARGUMENT)
     else if \<not> InputInitialized dev then Done (Inl EC_INVALID_STATE)
     else bind_outcome (KiValidateForegroundCurrentThread dev s) (\<lambda>status.
       Done (if status \<noteq> EC_SUCCESS then Inl status
             else if \<not> LineReady dev then Inl EC_TIMEOUT
             else if CompletedLineLength dev > capacity then Inl EC_ILLEGAL_ARGUMENT
             else Inr (take (unat (CompletedLineLength dev)) (CompletedLine dev), CompletedLineLength dev))))"

definition KeInputConsumeCompletedLineForCurrentThread ::
  "KE_INPUT_DEVICE \<Rightarrow> sched_state \<Rightarrow> (ho_status \<times> KE_INPUT_DEVICE \<times> sched_state) outcome" where
  "KeInputConsumeCompletedLineForCurrentThread dev s =
    (if \<not> InputInitialized dev then Done (EC_INVALID_STATE, dev, s)
     else bind_outcome (KiValidateForegroundCurrentThread dev s) (\<lambda>status.
       if status \<noteq> EC_SUCCESS then Done (status, dev, s)
       else if \<not> LineReady dev then Done (EC_INVALID_STATE, dev, s)
       else
         let dev = dev\<lparr>LineReady := False, CompletedLineLength := 0, CompletedReadCount := CompletedReadCount dev + 1,
                       CompletedLine := zero_line\<rparr>
         in bind_outcome (KeResetEvent (LineReadyEvent dev) s) (\<lambda>s. Done (EC_SUCCESS, dev, s))))"

end
