(* ===== verification/InputProofs.thy ===== *)
theory InputProofs
  imports Input SchedMachine
begin

text \<open>
  Keyboard input: the device refines an abstract line editor, its event is signalled exactly while a line is
  ready, and a line that is typed is the line that the foreground thread, and no other, reads.
\<close>

section \<open>The abstract editor\<close>

record editor =
  EdOwner :: u32
  EdShift :: bool
  EdText :: string
  EdLine :: "string option"

definition edit :: "char \<Rightarrow> editor \<Rightarrow> editor" where
  "edit c e =
    (if EdOwner e = 0 \<or> EdLine e \<noteq> None then e
     else if c = CHR 0x08 then e\<lparr>EdText := butlast (EdText e)\<rparr>
     else if c = CHR 0x0A then e\<lparr>EdText := [], EdLine := Some (EdText e)\<rparr>
     else if 32 \<le> (of_char c :: nat) \<and> of_char c \<le> (126 :: nat) \<and> length (EdText e) < KE_INPUT_LINE_CAPACITY
       then e\<lparr>EdText := EdText e @ [c]\<rparr>
     else e)"

definition press :: "u8 \<Rightarrow> editor \<Rightarrow> editor" where
  "press k e =
    (if k = 0x2A \<or> k = 0x36 then e\<lparr>EdShift := True\<rparr>
     else if k = 0xAA \<or> k = 0xB6 then e\<lparr>EdShift := False\<rparr>
     else if k \<ge> 128 then e
     else edit (KiTranslateSet1ScanCode k (EdShift e)) e)"

definition editor_of :: "KE_INPUT_DEVICE \<Rightarrow> editor" where
  "editor_of dev = \<lparr>EdOwner = ForegroundOwnerThreadId dev, EdShift = ShiftDown dev,
     EdText = take (unat (CurrentLineLength dev)) (CurrentLine dev),
     EdLine = (if LineReady dev then Some (take (unat (CompletedLineLength dev)) (CompletedLine dev)) else None)\<rparr>"

section \<open>The invariant\<close>

definition lines_ok :: "KE_INPUT_DEVICE \<Rightarrow> bool" where
  "lines_ok dev \<longleftrightarrow> length (CurrentLine dev) = KE_INPUT_LINE_CAPACITY \<and> length (CompletedLine dev) = KE_INPUT_LINE_CAPACITY \<and>
     unat (CurrentLineLength dev) \<le> KE_INPUT_LINE_CAPACITY \<and> unat (CompletedLineLength dev) \<le> KE_INPUT_LINE_CAPACITY \<and>
     (LineReady dev \<longrightarrow> CurrentLineLength dev = 0)"

definition event_tells :: "KE_INPUT_DEVICE \<Rightarrow> sched_state \<Rightarrow> bool" where
  "event_tells dev s \<longleftrightarrow> (\<exists>ev. Dispatchers s (LineReadyEvent dev) = Some ev \<and> DispatcherType ev = DISPATCHER_TYPE_EVENT \<and>
     SignalState ev = (if LineReady dev then 1 else 0))"

definition input_inv :: "KE_INPUT_DEVICE \<Rightarrow> sched_state \<Rightarrow> bool" where
  "input_inv dev s \<longleftrightarrow> sched_inv s \<and> InputInitialized dev \<and> lines_ok dev \<and> event_tells dev s"

lemma length_zero_line [simp]: "length zero_line = KE_INPUT_LINE_CAPACITY"
  by (simp add: zero_line_def)

lemma unat_inc_length: "unat (n :: u32) < KE_INPUT_LINE_CAPACITY \<Longrightarrow> unat (n + 1) = unat n + 1"
  by (simp add: KE_INPUT_LINE_CAPACITY_def unat_word_ariths)

lemma unat_dec_length: "(n :: u32) \<noteq> 0 \<Longrightarrow> unat (n - 1) = unat n - 1"
  by (simp add: unat_minus_one)

lemma ready_copy:
  assumes "length xs = k" "length ys = k" "n \<le> k"
  shows "length (take n xs @ drop n ys) = k" "take n (take n xs @ drop n ys) = take n xs"
  using assms by simp_all

text \<open>A character changes the device as it changes the editor; the current thread changes only if a line was completed.\<close>

lemma KiHandleTranslatedInputChar_edits:
  assumes inv: "input_inv dev s"
  shows "\<exists>dev' s'. KiHandleTranslatedInputChar c now dev s = Done (dev', s') \<and> input_inv dev' s' \<and> editor_of dev' = edit c (editor_of dev) \<and>
    LineReadyEvent dev' = LineReadyEvent dev \<and> CompletedReadCount dev' = CompletedReadCount dev \<and> (LineReady dev' = LineReady dev \<longrightarrow> s' = s)"
proof -
  have i: "sched_inv s" "InputInitialized dev" "lines_ok dev" "event_tells dev s" using inv by (simp_all add: input_inv_def)
  note l = i(3) [unfolded lines_ok_def]
  consider (same) "ForegroundOwnerThreadId dev = 0 \<or> LineReady dev \<or> c = CHR 0x08 \<and> CurrentLineLength dev = 0 \<or>
      c \<noteq> CHR 0x08 \<and> c \<noteq> CHR 0x0A \<and> (of_char c < (32 :: nat) \<or> of_char c > (126 :: nat) \<or> unat (CurrentLineLength dev) \<ge> KE_INPUT_LINE_CAPACITY)"
    | (erase) "ForegroundOwnerThreadId dev \<noteq> 0" "\<not> LineReady dev" "c = CHR 0x08" "CurrentLineLength dev \<noteq> 0"
    | (enter) "ForegroundOwnerThreadId dev \<noteq> 0" "\<not> LineReady dev" "c = CHR 0x0A"
    | (add) "ForegroundOwnerThreadId dev \<noteq> 0" "\<not> LineReady dev" "c \<noteq> CHR 0x08" "c \<noteq> CHR 0x0A" "32 \<le> (of_char c :: nat)" "of_char c \<le> (126 :: nat)"
        "unat (CurrentLineLength dev) < KE_INPUT_LINE_CAPACITY"
    by force
  then show ?thesis
  proof cases
    case same
    have "KiHandleTranslatedInputChar c now dev s = Done (dev, s)" using same by (auto simp: KiHandleTranslatedInputChar_def)
    moreover have "edit c (editor_of dev) = editor_of dev" using same l by (auto simp: edit_def editor_of_def)
    ultimately show ?thesis using inv by simp
  next
    case erase
    let ?d = "dev\<lparr>CurrentLineLength := CurrentLineLength dev - 1, Echo := Echo dev @ [CHR 0x08]\<rparr>"
    have "KiHandleTranslatedInputChar c now dev s = Done (?d, s)" using erase by (simp add: KiHandleTranslatedInputChar_def)
    moreover have "input_inv ?d s" using inv l erase by (auto simp: input_inv_def lines_ok_def event_tells_def unat_dec_length)
    moreover have "editor_of ?d = edit c (editor_of dev)" using erase l by (simp add: edit_def editor_of_def unat_dec_length butlast_take)
    ultimately show ?thesis by auto
  next
    case enter
    obtain ev where ev: "Dispatchers s (LineReadyEvent dev) = Some ev" "DispatcherType ev = DISPATCHER_TYPE_EVENT"
      using i(4) by (auto simp: event_tells_def)
    obtain s' where s': "KeSetEvent (LineReadyEvent dev) now s = Done s'" "sched_inv s'"
      "Dispatchers s' (LineReadyEvent dev) = Some (ev\<lparr>SignalState := 1, WaitListHead := []\<rparr>)" using KeSetEvent_spec [OF i(1) ev] by blast
    let ?n = "unat (CurrentLineLength dev)"
    define line where "line = (if CurrentLineLength dev \<noteq> 0 then take ?n (CurrentLine dev) @ drop ?n (CompletedLine dev) else CompletedLine dev)"
    have line: "length line = KE_INPUT_LINE_CAPACITY" "take ?n line = take ?n (CurrentLine dev)"
      using ready_copy [of "CurrentLine dev" KE_INPUT_LINE_CAPACITY "CompletedLine dev" ?n] l by (auto simp: line_def)
    let ?d = "dev\<lparr>CompletedLine := line, CompletedLineLength := CurrentLineLength dev, LineReady := True, CurrentLineLength := 0,
                       CurrentLine := zero_line, Echo := Echo dev @ [CHR 0x0A]\<rparr>"
    have "KiHandleTranslatedInputChar c now dev s = Done (?d, s')" using enter s'(1) by (simp add: KiHandleTranslatedInputChar_def Let_def line_def)
    moreover have "input_inv ?d s'" using l line(1) s'(2,3) i(2) ev(2) by (auto simp: input_inv_def lines_ok_def event_tells_def)
    moreover have "editor_of ?d = edit c (editor_of dev)" using enter line(2) by (simp add: edit_def editor_of_def)
    ultimately show ?thesis using enter by auto
  next
    case add
    let ?d = "dev\<lparr>CurrentLine := (CurrentLine dev)[unat (CurrentLineLength dev) := c], CurrentLineLength := CurrentLineLength dev + 1,
      Echo := Echo dev @ [c]\<rparr>"
    have "KiHandleTranslatedInputChar c now dev s = Done (?d, s)" using add by (simp add: KiHandleTranslatedInputChar_def)
    moreover have "input_inv ?d s" using inv add l by (auto simp: input_inv_def lines_ok_def event_tells_def unat_inc_length)
    moreover have "editor_of ?d = edit c (editor_of dev)" using add l by (simp add: edit_def editor_of_def unat_inc_length take_Suc_conv_app_nth)
    ultimately show ?thesis by auto
  qed
qed

section \<open>Scan codes\<close>

lemma high_bit: "(k :: u8) AND 0x80 \<noteq> 0 \<longleftrightarrow> k \<ge> 128"
proof -
  have "(0x80 :: u8) = push_bit 7 1" by simp
  then have "k AND 0x80 \<noteq> 0 \<longleftrightarrow> bit k 7" using and_exp_eq_0_iff_not_bit [of k 7] by simp
  also have "\<dots> \<longleftrightarrow> bit (unat k) 7" by (simp add: bit_simps)
  also have "\<dots> \<longleftrightarrow> odd (unat k div 2 ^ 7)" by (simp add: bit_iff_odd)
  also have "\<dots> \<longleftrightarrow> k \<ge> 128"
  proof -
    have "unat k < 256" using unsigned_less [of k, where ?'a = nat] by simp
    then have "unat k div 128 = (if unat k \<ge> 128 then 1 else 0)" by (auto simp: div_if)
    then show ?thesis by (simp add: word_le_nat_alt)
  qed
  finally show ?thesis .
qed

lemma edit_nul: "edit (CHR 0x00) e = e"
  by (simp add: edit_def)

lemma shift_editor: "editor_of (dev\<lparr>ShiftDown := b\<rparr>) = (editor_of dev)\<lparr>EdShift := b\<rparr>"
  by (simp add: editor_of_def)

lemma shift_inv [simp]: "input_inv (dev\<lparr>ShiftDown := b\<rparr>) s = input_inv dev s"
  by (simp add: input_inv_def lines_ok_def event_tells_def)

text \<open>The reads that give a scan code before the first failure.\<close>

definition codes_of :: "u8 result list \<Rightarrow> u8 list" where
  "codes_of reads = map projr (takeWhile (\<lambda>r. \<not> isl r) reads)"

lemma codes_of_simps [simp]: "codes_of [] = []" "codes_of (Inl st # reads) = []" "codes_of (Inr k # reads) = k # codes_of reads"
  by (simp_all add: codes_of_def)

lemma scan_loop_step:
  assumes "input_inv dev s"
  shows "\<exists>dev' s'. scan_loop now (Inr k # reads) dev s =
      (if gCurrentThread s' \<noteq> gCurrentThread s then Done (reads, dev', s') else scan_loop now reads dev' s') \<and>
    input_inv dev' s' \<and> editor_of dev' = press k (editor_of dev) \<and> LineReadyEvent dev' = LineReadyEvent dev \<and>
    CompletedReadCount dev' = CompletedReadCount dev \<and> (LineReady dev' = LineReady dev \<longrightarrow> s' = s)"
proof -
  let ?c = "KiTranslateSet1ScanCode k (ShiftDown dev)"
  consider (down) "k = 0x2A \<or> k = 0x36" | (up) "k = 0xAA \<or> k = 0xB6" | (release) "k \<ge> 128" "k \<noteq> 0xAA" "k \<noteq> 0xB6"
    | (plain) "k < 128" "k \<noteq> 0x2A" "k \<noteq> 0x36" "k \<noteq> 0xAA" "k \<noteq> 0xB6" by fastforce
  then show ?thesis
  proof cases
    case down
    then show ?thesis using assms by (intro exI [of _ "dev\<lparr>ShiftDown := True\<rparr>"] exI [of _ s]) (auto simp: press_def shift_editor)
  next
    case up
    then show ?thesis using assms by (intro exI [of _ "dev\<lparr>ShiftDown := False\<rparr>"] exI [of _ s]) (auto simp: press_def shift_editor)
  next
    case release
    then have "\<not> (k = 0x2A \<or> k = 0x36)" by auto
    then show ?thesis using assms release high_bit [of k] by (intro exI [of _ dev] exI [of _ s]) (simp add: press_def)
  next
    case plain
    have low: "k AND 0x80 = 0" using plain(1) high_bit [of k] by (meson leD)
    have p: "press k (editor_of dev) = edit ?c (editor_of dev)" using plain by (simp add: press_def editor_of_def not_le)
    show ?thesis
    proof (cases "?c = CHR 0x00")
      case True
      then show ?thesis using assms plain low p by (intro exI [of _ dev] exI [of _ s]) (simp add: edit_nul)
    next
      case False
      obtain dev' s' where h: "KiHandleTranslatedInputChar ?c now dev s = Done (dev', s')" "input_inv dev' s'" "editor_of dev' = edit ?c (editor_of dev)"
        "LineReadyEvent dev' = LineReadyEvent dev" "CompletedReadCount dev' = CompletedReadCount dev" "LineReady dev' = LineReady dev \<longrightarrow> s' = s"
        using KiHandleTranslatedInputChar_edits [OF assms, of ?c now] by blast
      then show ?thesis using plain low False p by (intro exI [of _ dev'] exI [of _ s']) simp
    qed
  qed
qed

lemma LineReady_editor: "LineReady dev \<longleftrightarrow> EdLine (editor_of dev) \<noteq> None"
  by (simp add: editor_of_def)

lemma press_keeps_line: "EdLine e \<noteq> None \<Longrightarrow> EdLine (press k e) = EdLine e"
  by (simp add: press_def edit_def)

text \<open>The handler handles the scan codes in order; it stops early only after it has completed a line and the reader runs.\<close>

lemma scan_loop_refines:
  assumes "input_inv dev s"
  shows "\<exists>n rest dev' s'. scan_loop now reads dev s = Done (rest, dev', s') \<and> n \<le> length (codes_of reads) \<and> input_inv dev' s' \<and>
    editor_of dev' = fold press (take n (codes_of reads)) (editor_of dev) \<and> LineReadyEvent dev' = LineReadyEvent dev \<and>
    CompletedReadCount dev' = CompletedReadCount dev \<and>
    (if gCurrentThread s' = gCurrentThread s then n = length (codes_of reads) \<and> rest = [] else rest = drop n reads \<and> LineReady dev')"
  using assms
proof (induction reads arbitrary: dev s)
  case Nil
  then show ?case by (intro exI [of _ 0]) simp
next
  case (Cons r reads)
  show ?case
  proof (cases r)
    case (Inl st)
    then show ?thesis using Cons.prems by (intro exI [of _ 0]) simp
  next
    case (Inr k)
    obtain d1 s1 where h: "scan_loop now (Inr k # reads) dev s = (if gCurrentThread s1 \<noteq> gCurrentThread s then Done (reads, d1, s1) else scan_loop now reads d1 s1)"
      "input_inv d1 s1" "editor_of d1 = press k (editor_of dev)" "LineReadyEvent d1 = LineReadyEvent dev"
      "CompletedReadCount d1 = CompletedReadCount dev" "LineReady d1 = LineReady dev \<longrightarrow> s1 = s"
      using scan_loop_step [OF Cons.prems, of now k reads] by blast
    show ?thesis
    proof (cases "gCurrentThread s1 = gCurrentThread s")
      case False
      then have "LineReady d1 \<noteq> LineReady dev" using h(6) by auto
      then have "LineReady d1" using press_keeps_line [of "editor_of dev" k] h(3) LineReady_editor by metis
      then show ?thesis using False h(1-5) Inr by (intro exI [of _ 1]) simp
    next
      case True
      obtain n rest d2 s2 where e: "scan_loop now reads d1 s1 = Done (rest, d2, s2)" "n \<le> length (codes_of reads)" "input_inv d2 s2"
        "editor_of d2 = fold press (take n (codes_of reads)) (editor_of d1)" "LineReadyEvent d2 = LineReadyEvent d1" "CompletedReadCount d2 = CompletedReadCount d1"
        "if gCurrentThread s2 = gCurrentThread s1 then n = length (codes_of reads) \<and> rest = [] else rest = drop n reads \<and> LineReady d2"
        using Cons.IH [OF h(2)] by blast
      show ?thesis using e h True Inr by (intro exI [of _ "Suc n"] exI [of _ rest] exI [of _ d2] exI [of _ s2]) simp
    qed
  qed
qed

section \<open>Typing\<close>

text \<open>The keys to press for a character, with the shift key around it where the unshifted table has no such character.\<close>

definition keys_for :: "char \<Rightarrow> u8 list" where
  "keys_for c =
    (case find (\<lambda>k. kPs2Set1AsciiMap ! k = c) [0..<128] of
       Some k \<Rightarrow> [word_of_nat k]
     | None \<Rightarrow> (case find (\<lambda>k. kPs2Set1ShiftAsciiMap ! k = c) [0..<128] of
         Some k \<Rightarrow> [0x2A, word_of_nat k, 0xAA]
       | None \<Rightarrow> []))"

definition printable :: "char \<Rightarrow> bool" where
  "printable c \<longleftrightarrow> 32 \<le> (of_char c :: nat) \<and> of_char c \<le> (126 :: nat)"

fun types :: "char \<Rightarrow> u8 list \<Rightarrow> bool" where
  "types c [k] \<longleftrightarrow> k < 128 \<and> k \<noteq> 0x2A \<and> k \<noteq> 0x36 \<and> KiTranslateSet1ScanCode k False = c"
| "types c [a, k, b] \<longleftrightarrow> a = 0x2A \<and> b = 0xAA \<and> k < 128 \<and> k \<noteq> 0x2A \<and> k \<noteq> 0x36 \<and> KiTranslateSet1ScanCode k True = c"
| "types c _ \<longleftrightarrow> False"

lemma tables_complete: "list_all (List.member (map (of_char :: char \<Rightarrow> int) (kPs2Set1AsciiMap @ kPs2Set1ShiftAsciiMap))) [32..126]"
  by code_simp

lemma printable_in_table:
  assumes "printable c"
  shows "c \<in> set kPs2Set1AsciiMap \<union> set kPs2Set1ShiftAsciiMap"
proof -
  have "(of_char c :: int) = int (of_char c)" by (simp add: of_nat_of_char)
  then have "(of_char c :: int) \<in> {32..126}" using assms unfolding printable_def by simp
  then have "(of_char c :: int) \<in> set [32..126]" unfolding set_upto .
  then have "List.member (map (of_char :: char \<Rightarrow> int) (kPs2Set1AsciiMap @ kPs2Set1ShiftAsciiMap)) (of_char c)"
    using tables_complete unfolding list_all_iff by (rule bspec [rotated])
  then have "of_char c \<in> (of_char :: char \<Rightarrow> int) ` (set kPs2Set1AsciiMap \<union> set kPs2Set1ShiftAsciiMap)"
    unfolding List.member_iff by (simp only: set_map set_append)
  then show ?thesis by auto
qed

lemma length_tables: "length kPs2Set1AsciiMap = 128" "length kPs2Set1ShiftAsciiMap = 128"
  by (simp_all add: kPs2Set1AsciiMap_def kPs2Set1ShiftAsciiMap_def ascii_map_def)

lemma table_gaps: "list_all (\<lambda>k. kPs2Set1AsciiMap ! k = CHR 0x00 \<and> kPs2Set1ShiftAsciiMap ! k = CHR 0x00) [0x0E, 0x1C, 0x2A, 0x36]"
  by (simp add: kPs2Set1AsciiMap_def kPs2Set1ShiftAsciiMap_def ascii_map_def nth_append)

lemma table_key:
  assumes "k < 128" "k \<notin> {0x0E, 0x1C, 0x2A, 0x36}"
  shows "(word_of_nat k :: u8) < 128" "(word_of_nat k :: u8) \<noteq> 0x2A" "(word_of_nat k :: u8) \<noteq> 0x36"
    "KiTranslateSet1ScanCode (word_of_nat k) sh = (if sh then kPs2Set1ShiftAsciiMap else kPs2Set1AsciiMap) ! k"
proof -
  have u: "unat (word_of_nat k :: u8) = k" using assms(1) by (simp add: unsigned_of_nat take_bit_nat_eq_self)
  then show lt: "(word_of_nat k :: u8) < 128" using assms(1) by (simp add: word_less_nat_alt)
  have ne: "(word_of_nat k :: u8) \<noteq> x" if "k \<noteq> unat x" for x using u that by metis
  show "(word_of_nat k :: u8) \<noteq> 0x2A" "(word_of_nat k :: u8) \<noteq> 0x36" using assms(2) by (intro ne; simp)+
  have "(word_of_nat k :: u8) \<noteq> 0x1C" "(word_of_nat k :: u8) \<noteq> 0x0E" using assms(2) by (intro ne; simp)+
  then show "KiTranslateSet1ScanCode (word_of_nat k) sh = (if sh then kPs2Set1ShiftAsciiMap else kPs2Set1AsciiMap) ! k"
    using lt u linorder_not_le [of 128 "word_of_nat k :: u8"] by (auto simp: KiTranslateSet1ScanCode_def)
qed

lemma find_Some_prop: "find P xs = Some k \<Longrightarrow> P k \<and> k \<in> set xs"
  by (induction xs) (auto split: if_splits)

lemma keys_for_types: "printable c \<Longrightarrow> types c (keys_for c)"
proof -
  assume c: "printable c"
  have nz: "c \<noteq> CHR 0x00" using c by (auto simp: printable_def)
  show ?thesis
  proof (cases "find (\<lambda>k. kPs2Set1AsciiMap ! k = c) [0..<128]")
    case (Some k)
    then have k: "kPs2Set1AsciiMap ! k = c" "k < 128" using find_Some_prop by fastforce+
    then have "k \<notin> {0x0E, 0x1C, 0x2A, 0x36}" using nz table_gaps by auto
    from table_key [OF k(2) this] show ?thesis using k(1) Some by (simp add: keys_for_def)
  next
    case None
    then have "\<forall>k < 128. kPs2Set1AsciiMap ! k \<noteq> c" unfolding find_None_iff by fastforce
    then have "c \<notin> set kPs2Set1AsciiMap" using length_tables(1) unfolding in_set_conv_nth by metis
    then have "c \<in> set kPs2Set1ShiftAsciiMap" using printable_in_table [OF c] by blast
    then obtain j where j: "j < 128" "kPs2Set1ShiftAsciiMap ! j = c" using length_tables(2) unfolding in_set_conv_nth by metis
    then have "find (\<lambda>k. kPs2Set1ShiftAsciiMap ! k = c) [0..<128] \<noteq> None" unfolding find_None_iff by force
    then obtain k where f: "find (\<lambda>k. kPs2Set1ShiftAsciiMap ! k = c) [0..<128] = Some k" by auto
    then have k: "kPs2Set1ShiftAsciiMap ! k = c" "k < 128" using find_Some_prop by fastforce+
    then have "k \<notin> {0x0E, 0x1C, 0x2A, 0x36}" using nz table_gaps by auto
    from table_key [OF k(2) this] show ?thesis using k(1) None f by (simp add: keys_for_def)
  qed
qed

lemma press_keys:
  assumes "printable c" "EdOwner e \<noteq> 0" "EdLine e = None" "\<not> EdShift e" "length (EdText e) < KE_INPUT_LINE_CAPACITY"
  shows "fold press (keys_for c) e = e\<lparr>EdText := EdText e @ [c]\<rparr>"
proof -
  have ed: "edit c e' = e'\<lparr>EdText := EdText e @ [c]\<rparr>" if "EdText e' = EdText e" "EdOwner e' = EdOwner e" "EdLine e' = EdLine e" for e'
    using assms that by (auto simp: edit_def printable_def)
  have pr: "press k e' = edit (KiTranslateSet1ScanCode k (EdShift e')) e'" if "k < 128" "k \<noteq> 0x2A" "k \<noteq> 0x36" for k e'
    using that by (auto simp: press_def)
  show ?thesis using keys_for_types [OF assms(1)]
  proof (cases rule: types.elims(2))
    case (1 k)
    then show ?thesis using pr ed assms(4) by simp
  next
    case (2 a k b)
    have "press a e = e\<lparr>EdShift := True\<rparr>" "press b e' = e'\<lparr>EdShift := False\<rparr>" for e' using 2 by (simp_all add: press_def)
    then show ?thesis using 2 pr ed [of "e\<lparr>EdShift := True\<rparr>"] assms(4) by simp
  qed
qed

lemma type_text:
  assumes "list_all printable w" "EdOwner e \<noteq> 0" "EdLine e = None" "\<not> EdShift e" "length (EdText e) + length w \<le> KE_INPUT_LINE_CAPACITY"
  shows "fold press (concat (map keys_for w)) e = e\<lparr>EdText := EdText e @ w\<rparr>"
  using assms
proof (induction w arbitrary: e)
  case (Cons c w)
  then show ?case using press_keys [of c e] Cons.IH [of "e\<lparr>EdText := EdText e @ [c]\<rparr>"] by simp
qed simp

lemma press_enter: "EdOwner e \<noteq> 0 \<Longrightarrow> EdLine e = None \<Longrightarrow> press 0x1C e = e\<lparr>EdText := [], EdLine := Some (EdText e)\<rparr>"
  by (simp add: press_def KiTranslateSet1ScanCode_def edit_def)

section \<open>Reading\<close>

definition runs_as :: "u32 \<Rightarrow> sched_state \<Rightarrow> bool" where
  "runs_as t s \<longleftrightarrow> (\<exists>th. KThreads s (gCurrentThread s) = Some th \<and> KThreadId th = t)"

lemma input_runs: "input_inv dev s \<Longrightarrow> \<exists>t. runs_as t s"
  by (auto simp: input_inv_def sched_inv_def runs_as_def)

lemma validate_runs:
  assumes "runs_as t s"
  shows "KiValidateForegroundCurrentThread dev s = Done (if ForegroundOwnerThreadId dev = 0 \<or> t \<noteq> ForegroundOwnerThreadId dev then EC_INVALID_STATE else EC_SUCCESS)"
  using assms by (auto simp: runs_as_def KiValidateForegroundCurrentThread_def)

lemma KeInputSetForeground_fresh:
  assumes "input_inv dev s"
  shows "\<exists>dev' s'. KeInputSetForegroundOwnerThreadId t dev s = Done (EC_SUCCESS, dev', s') \<and> input_inv dev' s' \<and>
    editor_of dev' = \<lparr>EdOwner = t, EdShift = False, EdText = [], EdLine = None\<rparr> \<and> gCurrentThread s' = gCurrentThread s"
proof -
  obtain ev where ev: "Dispatchers s (LineReadyEvent dev) = Some ev" "DispatcherType ev = DISPATCHER_TYPE_EVENT"
    and i: "sched_inv s" "InputInitialized dev" using assms by (auto simp: input_inv_def event_tells_def)
  let ?d = "dev\<lparr>ForegroundOwnerThreadId := t, CurrentLineLength := 0, CompletedLineLength := 0, LineReady := False,
                     ShiftDown := False, CurrentLine := zero_line, CompletedLine := zero_line\<rparr>"
  let ?s = "set_dispatcher (LineReadyEvent dev) (ev\<lparr>SignalState := 0\<rparr>) s"
  have "KeInputSetForegroundOwnerThreadId t dev s = Done (EC_SUCCESS, ?d, ?s)" using i KeResetEvent_spec(1) [OF i(1) ev]
    by (simp add: KeInputSetForegroundOwnerThreadId_def)
  moreover have "input_inv ?d ?s" using i ev KeResetEvent_spec(2) [OF i(1) ev] by (simp add: input_inv_def lines_ok_def event_tells_def set_dispatcher_def)
  ultimately show ?thesis by (simp add: editor_of_def set_dispatcher_def)
qed

text \<open>Only the foreground thread reads, and what it reads is the completed line.\<close>

lemma copy_result:
  assumes "InputInitialized dev" "lines_ok dev" "runs_as t s" "capacity \<noteq> 0"
  shows "KeInputCopyCompletedLineForCurrentThread True capacity dev s =
    Done (if EdOwner (editor_of dev) = 0 \<or> t \<noteq> EdOwner (editor_of dev) then Inl EC_INVALID_STATE
          else case EdLine (editor_of dev) of None \<Rightarrow> Inl EC_TIMEOUT
               | Some w \<Rightarrow> if length w > unat capacity then Inl EC_ILLEGAL_ARGUMENT else Inr (w, word_of_nat (length w)))"
  using assms validate_runs [OF assms(3), of dev]
  by (auto simp: KeInputCopyCompletedLineForCurrentThread_def editor_of_def lines_ok_def word_less_nat_alt)

lemma consume_result:
  assumes inv: "input_inv dev s" and t: "runs_as t s"
  shows "if EdOwner (editor_of dev) = 0 \<or> t \<noteq> EdOwner (editor_of dev) \<or> EdLine (editor_of dev) = None
    then KeInputConsumeCompletedLineForCurrentThread dev s = Done (EC_INVALID_STATE, dev, s)
    else \<exists>dev' s'. KeInputConsumeCompletedLineForCurrentThread dev s = Done (EC_SUCCESS, dev', s') \<and> input_inv dev' s' \<and>
      editor_of dev' = (editor_of dev)\<lparr>EdLine := None\<rparr> \<and> CompletedReadCount dev' = CompletedReadCount dev + 1 \<and>
      gCurrentThread s' = gCurrentThread s \<and> KThreads s' = KThreads s"
proof -
  obtain ev where ev: "Dispatchers s (LineReadyEvent dev) = Some ev" "DispatcherType ev = DISPATCHER_TYPE_EVENT"
    and i: "sched_inv s" "InputInitialized dev" "lines_ok dev" using inv by (auto simp: input_inv_def event_tells_def)
  note v = validate_runs [OF t, of dev]
  show ?thesis
  proof (cases "EdOwner (editor_of dev) = 0 \<or> t \<noteq> EdOwner (editor_of dev) \<or> EdLine (editor_of dev) = None")
    case True
    then show ?thesis using i v by (auto simp: KeInputConsumeCompletedLineForCurrentThread_def editor_of_def split: if_splits)
  next
    case False
    let ?d = "dev\<lparr>LineReady := False, CompletedLineLength := 0, CompletedReadCount := CompletedReadCount dev + 1, CompletedLine := zero_line\<rparr>"
    let ?s = "set_dispatcher (LineReadyEvent dev) (ev\<lparr>SignalState := 0\<rparr>) s"
    have "LineReady dev" using False by (simp add: editor_of_def split: if_splits)
    then have "KeInputConsumeCompletedLineForCurrentThread dev s = Done (EC_SUCCESS, ?d, ?s)" using i v False KeResetEvent_spec(1) [OF i(1) ev]
      by (simp add: KeInputConsumeCompletedLineForCurrentThread_def editor_of_def)
    moreover have "input_inv ?d ?s" using i ev KeResetEvent_spec(2) [OF i(1) ev] \<open>LineReady dev\<close>
      by (simp add: input_inv_def lines_ok_def event_tells_def set_dispatcher_def)
    ultimately show ?thesis using False by (simp add: editor_of_def set_dispatcher_def)
  qed
qed

text \<open>The owner's wait returns at once when a line is ready, and blocks when none is.\<close>

lemma wait_ready:
  assumes inv: "input_inv dev s" and t: "runs_as (ForegroundOwnerThreadId dev) s" "ForegroundOwnerThreadId dev \<noteq> 0"
    and b: "blocking_allowed s" and r: "LineReady dev"
  shows "KeInputWaitForForegroundLine now sw dev s = Done (InputReturned EC_SUCCESS, s)"
proof -
  obtain ev where ev: "Dispatchers s (LineReadyEvent dev) = Some ev" "DispatcherType ev = DISPATCHER_TYPE_EVENT" "SignalState ev \<noteq> 0"
    and i: "sched_inv s" "InputInitialized dev" using inv r by (auto simp: input_inv_def event_tells_def)
  have "KiTryAcquireDispatcherObject (LineReadyEvent dev) (gCurrentThread s) s = Done (Inr True, s)" using ev by (simp add: KiTryAcquireDispatcherObject_def)
  then have "KeWaitForSingleObject (Some (LineReadyEvent dev)) KE_INPUT_OWNER_RECHECK_TIMEOUT_NS now sw s = Done (Returned EC_SUCCESS, s)"
    using object_okD(2) [OF i(1) ev(1)] ev(1) b by (simp add: KeWaitForSingleObject_def blocking_allowed_assert blocking_allowed_def)
  then show ?thesis using i validate_runs [OF t(1), of dev] t(2) by (simp add: KeInputWaitForForegroundLine_def input_wait_round_def input_wait_status_def)
qed

lemma wait_no_line:
  assumes inv: "input_inv dev s" and t: "runs_as (ForegroundOwnerThreadId dev) s" "ForegroundOwnerThreadId dev \<noteq> 0"
    and b: "blocking_allowed s" and r: "\<not> LineReady dev" and now: "now + KE_INPUT_OWNER_RECHECK_TIMEOUT_NS \<noteq> 0"
  shows "\<exists>s'. KeInputWaitForForegroundLine now sw dev s = Done (InputBlocked, s') \<and> input_inv dev s' \<and>
    view s' = a_dispatch (a_block (Some (LineReadyEvent dev)) (deadline_arg KE_INPUT_OWNER_RECHECK_TIMEOUT_NS now) (view s))"
proof -
  obtain ev where ev: "Dispatchers s (LineReadyEvent dev) = Some ev" "DispatcherType ev = DISPATCHER_TYPE_EVENT" "SignalState ev = 0"
    and i: "sched_inv s" "InputInitialized dev" "lines_ok dev" using inv r by (auto simp: input_inv_def event_tells_def)
  have nz: "KE_INPUT_OWNER_RECHECK_TIMEOUT_NS \<noteq> 0" by (simp add: KE_INPUT_OWNER_RECHECK_TIMEOUT_NS_def)
  obtain s' where s': "KeWaitForSingleObject (Some (LineReadyEvent dev)) KE_INPUT_OWNER_RECHECK_TIMEOUT_NS now sw s = Done (Blocked, s')" "sched_inv s'"
    "view s' = a_dispatch (a_block (Some (LineReadyEvent dev)) (deadline_arg KE_INPUT_OWNER_RECHECK_TIMEOUT_NS now) (view s))" "rest s' = rest s"
    using wait_blocks [OF i(1) b ev(1,3) _ nz now] ev(2) by auto
  obtain ev' where ev': "Dispatchers s' (LineReadyEvent dev) = Some ev'" using rest_eqD(2) [OF s'(4), of "LineReadyEvent dev"] ev(1) by (cases "Dispatchers s' (LineReadyEvent dev)") auto
  have "event_tells dev s'" using rest_dispatcher [OF s'(4) ev'] ev ev' r by (metis (no_types, lifting) KDISPATCHER.select_convs(2,3) KDISPATCHER.surjective KDISPATCHER.update_convs(4) event_tells_def option.inject)
  then show ?thesis using s' i validate_runs [OF t(1), of dev] t(2) by (simp add: KeInputWaitForForegroundLine_def input_wait_round_def input_inv_def)
qed

section \<open>A typed line\<close>

lemma no_newline_in_tables: "CHR 0x0A \<notin> set kPs2Set1AsciiMap" "CHR 0x0A \<notin> set kPs2Set1ShiftAsciiMap"
  by (simp_all add: kPs2Set1AsciiMap_def kPs2Set1ShiftAsciiMap_def ascii_map_def)

lemma translate_newline:
  assumes "k \<noteq> 0x1C"
  shows "KiTranslateSet1ScanCode k sh \<noteq> CHR 0x0A"
proof (cases "128 \<le> k")
  case True
  then show ?thesis by (simp add: KiTranslateSet1ScanCode_def)
next
  case False
  then have "unat k < 128" by (simp add: word_le_nat_alt)
  then have "kPs2Set1AsciiMap ! unat k \<in> set kPs2Set1AsciiMap" "kPs2Set1ShiftAsciiMap ! unat k \<in> set kPs2Set1ShiftAsciiMap"
    using length_tables by (simp_all only: nth_mem)
  then have "kPs2Set1AsciiMap ! unat k \<noteq> CHR 0x0A" "kPs2Set1ShiftAsciiMap ! unat k \<noteq> CHR 0x0A" using no_newline_in_tables by metis+
  then show ?thesis using False assms by (simp add: KiTranslateSet1ScanCode_def)
qed

lemma press_no_enter: "0x1C \<notin> set ks \<Longrightarrow> EdLine (fold press ks e) = EdLine e"
  by (induction ks arbitrary: e) (simp_all add: press_def edit_def translate_newline)

lemma keys_no_enter: "list_all printable w \<Longrightarrow> 0x1C \<notin> set (concat (map keys_for w))"
proof (induction w)
  case (Cons c w)
  have t: "types c (keys_for c)" "c \<noteq> CHR 0x0A" using keys_for_types Cons.prems by (auto simp: printable_def)
  have "0x1C \<notin> set (keys_for c)" using t(1)
    by (cases rule: types.elims(2)) (use t(2) in \<open>auto simp: KiTranslateSet1ScanCode_def split: if_splits\<close>)
  then show ?case using Cons by simp
qed simp

lemma type_line:
  assumes inv: "input_inv dev s" and e: "EdOwner (editor_of dev) \<noteq> 0" "EdLine (editor_of dev) = None" "\<not> EdShift (editor_of dev)"
    and w: "list_all printable w" "length (EdText (editor_of dev)) + length w \<le> KE_INPUT_LINE_CAPACITY"
  shows "\<exists>dev' s'. scan_loop now (map Inr (concat (map keys_for w) @ [0x1C])) dev s = Done ([], dev', s') \<and> input_inv dev' s' \<and>
    editor_of dev' = (editor_of dev)\<lparr>EdText := [], EdLine := Some (EdText (editor_of dev) @ w)\<rparr> \<and> CompletedReadCount dev' = CompletedReadCount dev"
proof -
  let ?ks = "concat (map keys_for w)"
  have codes: "codes_of (map Inr ks) = ks" for ks by (induction ks) simp_all
  obtain n rest dev' s' where r: "scan_loop now (map Inr (?ks @ [0x1C])) dev s = Done (rest, dev', s')" "n \<le> length (?ks @ [0x1C])" "input_inv dev' s'"
    "editor_of dev' = fold press (take n (?ks @ [0x1C])) (editor_of dev)" "CompletedReadCount dev' = CompletedReadCount dev"
    "if gCurrentThread s' = gCurrentThread s then n = length (?ks @ [0x1C]) \<and> rest = [] else rest = drop n (map Inr (?ks @ [0x1C])) \<and> LineReady dev'"
    using scan_loop_refines [OF inv, of now "map Inr (?ks @ [0x1C])"] unfolding codes by blast
  have "n = length (?ks @ [0x1C])"
  proof (rule ccontr)
    assume n: "n \<noteq> length (?ks @ [0x1C])"
    then have tk: "take n (?ks @ [0x1C]) = take n ?ks" "LineReady dev'" using r(2,6) by (auto split: if_splits)
    have "0x1C \<notin> set (take n ?ks)" using keys_no_enter [OF w(1)] in_set_takeD by fast
    then have "EdLine (editor_of dev') = None" using press_no_enter e(2) unfolding r(4) tk(1) by simp
    then show False using tk(2) LineReady_editor by simp
  qed
  moreover have "rest = []" using r(6) calculation by (auto split: if_splits)
  moreover have "fold press (?ks @ [0x1C]) (editor_of dev) = (editor_of dev)\<lparr>EdText := [], EdLine := Some (EdText (editor_of dev) @ w)\<rparr>"
    using type_text [OF w(1) e w(2)] press_enter e by simp
  ultimately show ?thesis using r by simp
qed

end
