(* ===== verification/Calc.thy ===== *)
theory Calc
  imports HoPrelude "HOL-Library.Signed_Division"
begin

text \<open>
  The user program \<^verbatim>\<open>user/calc/main.c\<close>, a stack calculator. A line is the list of its characters,
  \<open>int64_t\<close> values are words read as signed numbers. C leaves signed overflow undefined; the model takes
  the two's complement result of the machine. \<open>idiv\<close> raises an exception when the quotient does not
  fit, which is \<open>Fault\<close>, as are \<open>HoUserAbort\<close> and the exceptions the two \<open>fault\<close> commands raise on purpose
  (\<open>HoCalcTriggerDivideFault\<close>, \<open>HoCalcTriggerPageFault\<close>): the program is killed there. The write system
  call is the parameter \<open>sw\<close>: what it returns for a buffer. \<open>SYS_WRITE\<close> refuses more than
  \<open>EX_USER_SYSCALL_WRITE_MAX_LENGTH\<close> bytes and returns the length of a shorter buffer that reaches the
  console; the proofs ask this of buffers within the limit only.
\<close>

section \<open>Output\<close>

definition HO_CALC_STACK_CAPACITY :: nat where "HO_CALC_STACK_CAPACITY = 16"
definition EX_USER_READLINE_MAX_LENGTH :: nat where "EX_USER_READLINE_MAX_LENGTH = 128"
definition EX_USER_SYSCALL_WRITE_MAX_LENGTH :: nat where "EX_USER_SYSCALL_WRITE_MAX_LENGTH = 256"

definition gCalcPrompt :: string where "gCalcPrompt = ''calc> ''"
definition gCalcResultPrefix :: string where "gCalcResultPrefix = ''[CALC] result=''"
definition gCalcErrorPrefix :: string where "gCalcErrorPrefix = ''[CALC] error=''"
definition gCalcErrorInvalidToken :: string where "gCalcErrorInvalidToken = ''invalid_token''"
definition gCalcErrorStackUnderflow :: string where "gCalcErrorStackUnderflow = ''stack_underflow''"
definition gCalcErrorStackOverflow :: string where "gCalcErrorStackOverflow = ''stack_overflow''"
definition gCalcErrorDivideByZero :: string where "gCalcErrorDivideByZero = ''divide_by_zero''"
definition gCalcFaultDivideCommand :: string where "gCalcFaultDivideCommand = ''fault-de''"
definition gCalcFaultPageCommand :: string where "gCalcFaultPageCommand = ''fault-pf''"

type_synonym writer = "string \<Rightarrow> int"

text \<open>What has been written so far is threaded through.\<close>

definition HoCalcMustWrite :: "writer \<Rightarrow> string \<Rightarrow> string \<Rightarrow> string outcome" where
  "HoCalcMustWrite sw buffer out = (if sw buffer \<noteq> int (length buffer) then Fault else Done (out @ buffer))"

definition HoCalcLineEquals :: "string \<Rightarrow> string \<Rightarrow> bool" where
  "HoCalcLineEquals line literal \<longleftrightarrow> length line = length literal \<and> list_all (\<lambda>i. line ! i = literal ! i) [0..<length line]"

definition HoCalcAppendLiteral :: "nat \<Rightarrow> string \<Rightarrow> string \<Rightarrow> string outcome" where
  "HoCalcAppendLiteral capacity literal buffer = (if length buffer + length literal > capacity then Fault else Done (buffer @ literal))"

text \<open>The digit loop, least significant digit first.\<close>

function calc_digits :: "u64 \<Rightarrow> string" where
  "calc_digits magnitude =
    char_of (48 + unat (magnitude mod 10)) # (if magnitude div 10 \<noteq> 0 then calc_digits (magnitude div 10) else [])"
  by pat_completeness auto
termination
proof (relation "measure unat", goal_cases)
  case (2 magnitude)
  then have "unat (magnitude div 10) \<noteq> 0" by (simp add: unat_eq_0)
  then show ?case by (simp add: unat_div)
qed simp
declare calc_digits.simps [simp del]

definition HoCalcAppendInt64 :: "nat \<Rightarrow> u64 \<Rightarrow> string \<Rightarrow> string outcome" where
  "HoCalcAppendInt64 capacity v buffer =
    bind_outcome
      (if sint v < 0 then if length buffer + 1 > capacity then Fault else Done (word_of_int (- (sint v + 1)) + 1, buffer @ ''-'')
       else Done (v, buffer))
      (\<lambda>(magnitude, buffer).
        let digits = calc_digits magnitude in
        if length buffer + length digits > capacity then Fault else Done (buffer @ rev digits))"

definition HoCalcWriteResult :: "writer \<Rightarrow> u64 \<Rightarrow> string \<Rightarrow> string outcome" where
  "HoCalcWriteResult sw v out =
    bind_outcome (HoCalcAppendLiteral 64 gCalcResultPrefix []) (\<lambda>line.
      bind_outcome (HoCalcAppendInt64 64 v line) (\<lambda>line.
        bind_outcome (HoCalcAppendLiteral 64 [CHR 0x0A] line) (\<lambda>line. HoCalcMustWrite sw line out)))"

definition HoCalcWriteError :: "writer \<Rightarrow> string \<Rightarrow> string \<Rightarrow> string outcome" where
  "HoCalcWriteError sw message out =
    bind_outcome (HoCalcAppendLiteral 64 gCalcErrorPrefix []) (\<lambda>line.
      bind_outcome (HoCalcAppendLiteral 64 message line) (\<lambda>line.
        bind_outcome (HoCalcAppendLiteral 64 [CHR 0x0A] line) (\<lambda>line. HoCalcMustWrite sw line out)))"

section \<open>Input\<close>

definition HoCalcIsDigit :: "char \<Rightarrow> bool" where
  "HoCalcIsDigit c \<longleftrightarrow> of_char CHR ''0'' \<le> (of_char c :: nat) \<and> (of_char c :: nat) \<le> of_char CHR ''9''"

text \<open>The loop over the digits, with the limit check before each step.\<close>

fun parse_digits :: "string \<Rightarrow> u64 \<Rightarrow> u64 \<Rightarrow> u64 option" where
  "parse_digits [] limit magnitude = Some magnitude"
| "parse_digits (c # cs) limit magnitude =
    (if \<not> HoCalcIsDigit c then None
     else
       let digit = word_of_nat (of_char c - of_char CHR ''0'') in
       if magnitude > limit div 10 \<or> magnitude = limit div 10 \<and> digit > limit mod 10 then None
       else parse_digits cs limit (magnitude * 10 + digit))"

definition HoCalcParseInt64 :: "string \<Rightarrow> u64 option" where
  "HoCalcParseInt64 token =
    (case token of
       [] \<Rightarrow> None
     | c # cs \<Rightarrow>
       if c = CHR ''-'' then
         if cs = [] then None
         else map_option (\<lambda>magnitude. if magnitude = 9223372036854775808 then word_of_int (- 9223372036854775807 - 1)
                                      else word_of_int (- sint magnitude))
                (parse_digits cs 9223372036854775808 0)
       else parse_digits token 9223372036854775807 0)"

section \<open>The stack\<close>

text \<open>The array of the program and its depth.\<close>

record calc_state =
  CalcStack :: "u64 list"
  StackDepth :: nat
  CalcOut :: string

definition calc_error :: "writer \<Rightarrow> string \<Rightarrow> calc_state \<Rightarrow> (bool \<times> calc_state) outcome" where
  "calc_error sw message c = bind_outcome (HoCalcWriteError sw message (CalcOut c)) (\<lambda>out. Done (False, c\<lparr>CalcOut := out\<rparr>))"

text \<open>\<open>idiv\<close>: truncating division; the one quotient that does not fit raises an exception.\<close>

definition signed_quotient :: "u64 \<Rightarrow> u64 \<Rightarrow> u64 outcome" where
  "signed_quotient left right =
    (if sint left = - (2 ^ 63) \<and> sint right = -1 then Fault else Done (word_of_int (sint left sdiv sint right)))"

definition HoCalcApplyOperator :: "writer \<Rightarrow> char \<Rightarrow> calc_state \<Rightarrow> (bool \<times> calc_state) outcome" where
  "HoCalcApplyOperator sw operatorToken c =
    (if StackDepth c < 2 then calc_error sw gCalcErrorStackUnderflow c
     else
       let left = CalcStack c ! (StackDepth c - 2);
           right = CalcStack c ! (StackDepth c - 1);
           finish = (\<lambda>result. let c = c\<lparr>CalcStack := (CalcStack c)[StackDepth c - 2 := result], StackDepth := StackDepth c - 1\<rparr>
                              in bind_outcome (HoCalcWriteResult sw result (CalcOut c)) (\<lambda>out. Done (True, c\<lparr>CalcOut := out\<rparr>)))
       in if operatorToken = CHR ''+'' then finish (left + right)
          else if operatorToken = CHR ''-'' then finish (left - right)
          else if operatorToken = CHR ''*'' then finish (left * right)
          else if operatorToken = CHR ''/'' then
            if right = 0 then calc_error sw gCalcErrorDivideByZero c
            else bind_outcome (signed_quotient left right) finish
          else calc_error sw gCalcErrorInvalidToken c)"

section \<open>The main loop\<close>

datatype calc_next = CalcContinue calc_state | CalcExit u64

definition calc_literal :: "writer \<Rightarrow> string \<Rightarrow> calc_state \<Rightarrow> calc_state outcome" where
  "calc_literal sw literal c = bind_outcome (HoCalcMustWrite sw literal (CalcOut c)) (\<lambda>out. Done (c\<lparr>CalcOut := out\<rparr>))"

text \<open>One line of input, after the prompt.\<close>

definition calc_line :: "writer \<Rightarrow> string \<Rightarrow> calc_state \<Rightarrow> calc_next outcome" where
  "calc_line sw line c =
    (if line = [] then Done (CalcContinue c)
     else if length line = 1 \<and> line ! 0 = CHR ''q'' then Done (CalcExit 0)
     else if HoCalcLineEquals line gCalcFaultDivideCommand then
       bind_outcome (calc_literal sw (''[CALC] triggering fault-de'' @ [CHR 0x0A]) c) (\<lambda>_. Fault)
     else if HoCalcLineEquals line gCalcFaultPageCommand then
       bind_outcome (calc_literal sw (''[CALC] triggering fault-pf'' @ [CHR 0x0A]) c) (\<lambda>_. Fault)
     else if length line = 1 \<and> line ! 0 \<in> {CHR ''+'', CHR ''-'', CHR ''*'', CHR ''/''} then
       bind_outcome (HoCalcApplyOperator sw (line ! 0) c) (\<lambda>(_, c). Done (CalcContinue c))
     else case HoCalcParseInt64 line of
       None \<Rightarrow> bind_outcome (calc_error sw gCalcErrorInvalidToken c) (\<lambda>(_, c). Done (CalcContinue c))
     | Some v \<Rightarrow>
       if StackDepth c = HO_CALC_STACK_CAPACITY then bind_outcome (calc_error sw gCalcErrorStackOverflow c) (\<lambda>(_, c). Done (CalcContinue c))
       else
         let c = c\<lparr>CalcStack := (CalcStack c)[StackDepth c := v], StackDepth := StackDepth c + 1\<rparr>
         in bind_outcome (HoCalcWriteResult sw v (CalcOut c)) (\<lambda>out. Done (CalcContinue (c\<lparr>CalcOut := out\<rparr>))))"

text \<open>
  What the read system call returns, call after call. A failure other than \<open>EC_INVALID_STATE\<close> aborts
  the program; the end of the list is a read that has not returned.
\<close>

datatype calc_read = ReadLine string | ReadFailed ho_status

fun HoCalcReadLineBlocking :: "calc_read list \<Rightarrow> (string \<times> calc_read list) option outcome" where
  "HoCalcReadLineBlocking [] = Done None"
| "HoCalcReadLineBlocking (ReadLine line # rs) = Done (Some (line, rs))"
| "HoCalcReadLineBlocking (ReadFailed st # rs) = (if st \<noteq> EC_INVALID_STATE then Fault else HoCalcReadLineBlocking rs)"

lemma read_shorter [simp]: "HoCalcReadLineBlocking rs = Done (Some (line, rs')) \<Longrightarrow> length rs' < length rs"
  by (induction rs rule: HoCalcReadLineBlocking.induct) (auto split: if_splits)

function calc_main :: "writer \<Rightarrow> calc_read list \<Rightarrow> calc_state \<Rightarrow> calc_next outcome" where
  "calc_main sw rs c =
    bind_outcome (calc_literal sw gCalcPrompt c) (\<lambda>c.
      case HoCalcReadLineBlocking rs of
        Done None \<Rightarrow> Done (CalcContinue c)
      | Done (Some (line, rs')) \<Rightarrow>
          (case calc_line sw line c of
             Done (CalcContinue c) \<Rightarrow> calc_main sw rs' c
           | r \<Rightarrow> r)
      | _ \<Rightarrow> Fault)"
  by pat_completeness auto
termination by (relation "measure (\<lambda>(sw, rs, c). length rs)") auto
declare calc_main.simps [simp del]

definition calc_start :: calc_state where
  "calc_start = \<lparr>CalcStack = replicate HO_CALC_STACK_CAPACITY 0, StackDepth = 0, CalcOut = []\<rparr>"

end
