(* ===== verification/LibC.thy ===== *)
theory LibC
  imports HoPrelude
begin

text \<open>
  The freestanding C library: \<^verbatim>\<open>libc/string\<close>, \<^verbatim>\<open>libc/wchar\<close> and the number formatting of
  \<^verbatim>\<open>libc/stdlib/hostdlib.c\<close>, over a byte-addressed memory. A scan for a terminator that does not
  end is \<open>Diverge\<close>.
\<close>

section \<open>Memory blocks (libc/string)\<close>

type_synonym bytes = "u64 \<Rightarrow> u8"

primrec copy_up :: "nat \<Rightarrow> u64 \<Rightarrow> u64 \<Rightarrow> bytes \<Rightarrow> bytes" where
  "copy_up 0 d s m = m"
| "copy_up (Suc n) d s m = copy_up n (d + 1) (s + 1) (m(d := m s))"

primrec copy_down :: "nat \<Rightarrow> u64 \<Rightarrow> u64 \<Rightarrow> bytes \<Rightarrow> bytes" where
  "copy_down 0 d s m = m"
| "copy_down (Suc n) d s m = copy_down n (d - 1) (s - 1) (m(d - 1 := m (s - 1)))"

definition memcpy :: "u64 \<Rightarrow> u64 \<Rightarrow> u64 \<Rightarrow> bytes \<Rightarrow> u64 \<times> bytes" where
  "memcpy dest src n m = (dest, copy_up (unat n) dest src m)"

definition memmove :: "u64 \<Rightarrow> u64 \<Rightarrow> u64 \<Rightarrow> bytes \<Rightarrow> u64 \<times> bytes" where
  "memmove dst src n m =
    (dst, if src \<ge> dst \<or> src + n \<le> dst then copy_up (unat n) dst src m else copy_down (unat n) (dst + n) (src + n) m)"

primrec fill_bytes :: "nat \<Rightarrow> u64 \<Rightarrow> u8 \<Rightarrow> bytes \<Rightarrow> bytes" where
  "fill_bytes 0 p v m = m"
| "fill_bytes (Suc n) p v m = fill_bytes n (p + 1) v (m(p := v))"

definition memset :: "u64 \<Rightarrow> int \<Rightarrow> u64 \<Rightarrow> bytes \<Rightarrow> u64 \<times> bytes" where
  "memset ptr value num m = (ptr, fill_bytes (unat num) ptr (word_of_int value) m)"

primrec compare_bytes :: "nat \<Rightarrow> u64 \<Rightarrow> u64 \<Rightarrow> bytes \<Rightarrow> int" where
  "compare_bytes 0 p1 p2 m = 0"
| "compare_bytes (Suc n) p1 p2 m = (if m p1 \<noteq> m p2 then uint (m p1) - uint (m p2) else compare_bytes n (p1 + 1) (p2 + 1) m)"

definition memcmp :: "u64 \<Rightarrow> u64 \<Rightarrow> u64 \<Rightarrow> bytes \<Rightarrow> int" where
  "memcmp s1 s2 n m = compare_bytes (unat n) s1 s2 m"

section \<open>Strings\<close>

partial_function (option) strlen_loop :: "bytes \<Rightarrow> u64 \<Rightarrow> u64 option" where
  "strlen_loop m s = (if m s \<noteq> 0 then strlen_loop m (s + 1) else Some s)"

definition strlen :: "u64 \<Rightarrow> bytes \<Rightarrow> u64 outcome" where
  "strlen str m = bind_outcome (outcome_of_option (strlen_loop m str)) (\<lambda>s. Done (s - str))"

partial_function (option) strcmp_loop :: "bytes \<Rightarrow> u64 \<Rightarrow> u64 \<Rightarrow> int option" where
  "strcmp_loop m a b = (if m a \<noteq> 0 \<and> m b \<noteq> 0 \<and> m a = m b then strcmp_loop m (a + 1) (b + 1) else Some (uint (m a) - uint (m b)))"

definition strcmp :: "u64 \<Rightarrow> u64 \<Rightarrow> bytes \<Rightarrow> int outcome" where
  "strcmp a b m = outcome_of_option (strcmp_loop m a b)"

partial_function (option) strcpy_loop :: "u64 \<Rightarrow> u64 \<Rightarrow> bytes \<Rightarrow> bytes option" where
  "strcpy_loop dest src m =
    (let c = m src; m = m(dest := c) in if c \<noteq> 0 then strcpy_loop (dest + 1) (src + 1) m else Some m)"

definition strcpy :: "u64 \<Rightarrow> u64 \<Rightarrow> bytes \<Rightarrow> (u64 \<times> bytes) outcome" where
  "strcpy dest src m = bind_outcome (outcome_of_option (strcpy_loop dest src m)) (\<lambda>m. Done (dest, m))"

text \<open>Wide strings are arrays of 16-bit units, indexed by units.\<close>

partial_function (option) wstrcmp_loop :: "(nat \<Rightarrow> u16) \<Rightarrow> (nat \<Rightarrow> u16) \<Rightarrow> nat \<Rightarrow> int option" where
  "wstrcmp_loop s1 s2 i = (if s1 i \<noteq> 0 \<and> s1 i = s2 i then wstrcmp_loop s1 s2 (Suc i) else Some (uint (s1 i) - uint (s2 i)))"

definition wstrcmp :: "(nat \<Rightarrow> u16) \<Rightarrow> (nat \<Rightarrow> u16) \<Rightarrow> int outcome" where
  "wstrcmp s1 s2 = outcome_of_option (wstrcmp_loop s1 s2 0)"

section \<open>Number formatting (hostdlib.c)\<close>

definition DIGITS_STR :: "u8 list" where
  "DIGITS_STR = map of_char ''0123456789ABCDEFGHIJKLMNOPQRSTUVWXYZ''"

function ReverseString :: "u64 \<Rightarrow> u64 \<Rightarrow> bytes \<Rightarrow> bytes" where
  "ReverseString b e m = (if b < e then ReverseString (b + 1) (e - 1) (m(b := m e, e := m b)) else m)"
  by pat_completeness auto
termination
proof (relation "measure (\<lambda>(b, e, m). unat e)", goal_cases)
  case (2 b e m)
  then have "0 < unat e" by (simp add: word_less_nat_alt)
  then show ?case by (simp add: unat_sub_small)
qed simp
declare ReverseString.simps [simp del]

definition CountDecDigit :: "u64 \<Rightarrow> u8" where
  "CountDecDigit n =
    (if n < 10 then 1 else if n < 100 then 2 else if n < 1000 then 3 else if n < 10000 then 4
     else if n < 100000 then 5 else if n < 1000000 then 6 else if n < 10000000 then 7
     else if n < 100000000 then 8 else if n < 1000000000 then 9 else if n < 10000000000 then 10
     else if n < 100000000000 then 11 else if n < 1000000000000 then 12 else if n < 10000000000000 then 13
     else if n < 100000000000000 then 14 else if n < 1000000000000000 then 15 else if n < 10000000000000000 then 16
     else if n < 100000000000000000 then 17 else if n < 1000000000000000000 then 18
     else if n < 10000000000000000000 then 19 else 20)"

text \<open>\<open>__builtin_clzll\<close>: the number of leading zero bits of a nonzero word.\<close>

definition clzll :: "u64 \<Rightarrow> int" where
  "clzll n = int (length (takeWhile (\<lambda>i. \<not> bit n i) (rev [0..<64])))"

definition FindMostSignificantBit :: "u64 \<Rightarrow> int" where
  "FindMostSignificantBit num = (if num = 0 then -1 else 63 - clzll num)"

definition IsValidBase :: "int \<Rightarrow> bool" where
  "IsValidBase base \<longleftrightarrow> base = 2 \<or> base = 4 \<or> base = 8 \<or> base = 10 \<or> base = 16 \<or> base = 32"

function write_decimal :: "u64 \<Rightarrow> u64 \<Rightarrow> bytes \<Rightarrow> bytes" where
  "write_decimal num e m = (if num > 0 then write_decimal (num div 10) (e - 1) (m(e - 1 := DIGITS_STR ! unat (num mod 10))) else m)"
  by pat_completeness auto
termination by (relation "measure (\<lambda>(num, e, m). unat num)") (simp_all add: unat_div word_less_nat_alt)
declare write_decimal.simps [simp del]

definition WriteIntDecimal :: "u64 \<Rightarrow> u64 \<Rightarrow> u8 \<Rightarrow> bytes \<Rightarrow> bytes" where
  "WriteIntDecimal num buf digitSize m =
    (let e = buf + ucast digitSize in if num = 0 then m(e - 1 := of_char (CHR ''0'')) else write_decimal num e m)"

partial_function (option) write_two_base :: "u64 \<Rightarrow> u64 \<Rightarrow> u8 \<Rightarrow> int \<Rightarrow> nat \<Rightarrow> bytes \<Rightarrow> bytes option" where
  "write_two_base num buf digitSize base step m =
    (let digit = ucast (num AND word_of_int (base - 1)) :: u8;
         digitSize = digitSize - 1;
         m = m(buf + ucast digitSize := DIGITS_STR ! unat digit);
         num = drop_bit step num
     in if num \<noteq> 0 then write_two_base num buf digitSize base step m else Some m)"

definition WriteIntTwoBase :: "u64 \<Rightarrow> u64 \<Rightarrow> u8 \<Rightarrow> int \<Rightarrow> bytes \<Rightarrow> bytes outcome" where
  "WriteIntTwoBase num buf digitSize base m =
    outcome_of_option (write_two_base num buf digitSize base (nat (FindMostSignificantBit (word_of_int base))) m)"

definition UInt64ToStringEx :: "u64 \<Rightarrow> u64 \<Rightarrow> int \<Rightarrow> int \<Rightarrow> u8 \<Rightarrow> bytes \<Rightarrow> (u64 \<times> bytes) outcome" where
  "UInt64ToStringEx value str base padding padChar m =
    (if str = 0 \<or> \<not> IsValidBase base then Done (0, m)
     else if base = 10 then
       let totalDigits = uint (CountDecDigit value);
           toFill = (if padding > totalDigits then padding - totalDigits else 0);
           m = WriteIntDecimal value (str + word_of_int toFill) (word_of_int totalDigits) m;
           m = snd (memset str (uint padChar) (word_of_int toFill) m);
           totalDigits = totalDigits + toFill
       in Done (word_of_int totalDigits, m(str + word_of_int totalDigits := 0))
     else
       let bitsPerDigit = FindMostSignificantBit (word_of_int base);
           totalDigits = (if value = 0 then 1 else (FindMostSignificantBit value + 1 + bitsPerDigit - 1) div bitsPerDigit);
           padding = (if padding < 0 then (64 + bitsPerDigit - 1) div bitsPerDigit else padding);
           toFill = (if padding > totalDigits then padding - totalDigits else 0)
       in bind_outcome (WriteIntTwoBase value (str + word_of_int toFill) (word_of_int totalDigits) base m) (\<lambda>m.
            let m = snd (memset str (uint padChar) (word_of_int toFill) m);
                totalDigits = totalDigits + toFill
            in Done (word_of_int totalDigits, m(str + word_of_int totalDigits := 0))))"

definition Int64ToStringEx :: "u64 \<Rightarrow> u64 \<Rightarrow> int \<Rightarrow> u8 \<Rightarrow> bytes \<Rightarrow> (u64 \<times> bytes) outcome" where
  "Int64ToStringEx val buf padding padChar m =
    (let (magnitude, neg) = (if sint val < 0 then (word_of_int (- (sint val + 1)) + 1, 1) else (word_of_int (sint val), 0)) in
     bind_outcome (UInt64ToStringEx magnitude (buf + word_of_int neg) 10 (padding - neg) padChar m) (\<lambda>(digits, m).
       if neg \<noteq> 0 then Done (digits + 1, m(buf := of_char (CHR ''-''))) else Done (digits, m)))"

definition Int64ToString :: "u64 \<Rightarrow> u64 \<Rightarrow> bool \<Rightarrow> bytes \<Rightarrow> (u64 \<times> bytes) outcome" where
  "Int64ToString value str prefix m =
    (if prefix then Int64ToStringEx value str (-1) (of_char (CHR ''0'')) m else Int64ToStringEx value str 0 0 m)"

definition UInt64ToString :: "u64 \<Rightarrow> u64 \<Rightarrow> int \<Rightarrow> bool \<Rightarrow> bytes \<Rightarrow> (u64 \<times> bytes) outcome" where
  "UInt64ToString value str base prefix m =
    (if prefix then UInt64ToStringEx value str base (-1) (of_char (CHR ''0'')) m else UInt64ToStringEx value str base 0 0 m)"

end
