(* ===== verification/LibCProofs.thy ===== *)
theory LibCProofs
  imports LibC
begin

text \<open>
  The C library is right: block moves with any overlap, comparison, string length, comparison and copy,
  and the text that the number formatting leaves in memory.
\<close>

section \<open>Moving bytes\<close>

text \<open>What a block copy means: the old bytes of the source appear at the destination.\<close>

definition block_copied :: "u64 \<Rightarrow> u64 \<Rightarrow> nat \<Rightarrow> bytes \<Rightarrow> bytes" where
  "block_copied d s n m = (\<lambda>a. if unat d \<le> unat a \<and> unat a < unat d + n then m (s + (a - d)) else m a)"

lemma unat_succ: "unat (x :: u64) + 1 < 2 ^ 64 \<Longrightarrow> unat (x + 1) = unat x + 1"
  by (subst unat_add_small) simp_all

lemma unat_neqI: "unat x \<noteq> unat y \<Longrightarrow> x \<noteq> y"
  by blast

lemma copy_up_effect:
  "unat d + n < 2 ^ 64 \<Longrightarrow> unat s + n < 2 ^ 64 \<Longrightarrow> unat d \<le> unat s \<or> unat s + n \<le> unat d \<Longrightarrow> copy_up n d s m = block_copied d s n m"
proof (induction n arbitrary: d s m)
  case (Suc n)
  let ?m = "m(d := m s)"
  have u: "unat (d + 1) = unat d + 1" "unat (s + 1) = unat s + 1" using Suc.prems by (simp_all add: unat_succ)
  have IH: "copy_up n (d + 1) (s + 1) ?m = block_copied (d + 1) (s + 1) n ?m" using Suc.prems u by (intro Suc.IH) auto
  show ?case
  proof (rule ext)
    fix a
    show "copy_up (Suc n) d s m a = block_copied d s (Suc n) m a"
    proof (cases "unat d + 1 \<le> unat a \<and> unat a < unat d + 1 + n")
      case True
      define j where "j = unat (a - d)"
      have k: "unat a = unat d + j" "j \<le> n" using True by (auto simp: j_def unat_sub_small)
      have "unat (s + (a - d)) = unat s + j" by (subst unat_add_small) (use k j_def Suc.prems in simp_all)
      then have ne: "s + (a - d) \<noteq> d" using Suc.prems(3) True k by (intro unat_neqI) linarith
      have "s + 1 + (a - (d + 1)) = s + (a - d)" by simp
      then show ?thesis using True u ne by (simp add: IH block_copied_def)
    next
      case False
      then show ?thesis using u Suc.prems(1) by (auto simp: IH block_copied_def not_le intro: unat_eqI)
    qed
  qed
qed (auto simp: block_copied_def fun_eq_iff)

lemma copy_down_effect:
  "unat d + n < 2 ^ 64 \<Longrightarrow> unat s + n < 2 ^ 64 \<Longrightarrow> unat s \<le> unat d \<Longrightarrow>
    copy_down n (d + word_of_nat n) (s + word_of_nat n) m = block_copied d s n m"
proof (induction n arbitrary: m)
  case (Suc n)
  have e: "x + word_of_nat (Suc n) - 1 = x + word_of_nat n" for x :: u64 by simp
  let ?m = "m(d + word_of_nat n := m (s + word_of_nat n))"
  have IH: "copy_down n (d + word_of_nat n) (s + word_of_nat n) ?m = block_copied d s n ?m" using Suc.prems by (intro Suc.IH) simp_all
  have w: "unat (word_of_nat n :: u64) = n" using Suc.prems by (simp add: unsigned_of_nat take_bit_nat_eq_self)
  have ud: "unat (d + word_of_nat n) = unat d + n" "unat (s + word_of_nat n) = unat s + n"
    by (subst unat_add_small; use w Suc.prems in simp)+
  have run: "copy_down (Suc n) (d + word_of_nat (Suc n)) (s + word_of_nat (Suc n)) m = block_copied d s n ?m"
    unfolding copy_down.simps e by (rule IH)
  show ?case
  proof (rule ext)
    fix a
    show "copy_down (Suc n) (d + word_of_nat (Suc n)) (s + word_of_nat (Suc n)) m a = block_copied d s (Suc n) m a"
    proof (cases "unat d \<le> unat a \<and> unat a < unat d + n")
      case True
      define j where "j = unat (a - d)"
      have k: "unat a = unat d + j" "j \<le> n" using True by (auto simp: j_def unat_sub_small)
      have "unat (s + (a - d)) = unat s + j" by (subst unat_add_small) (use k j_def Suc.prems in simp_all)
      then have "s + (a - d) \<noteq> d + word_of_nat n" using ud Suc.prems(3) True k by (intro unat_neqI) linarith
      then show ?thesis unfolding run block_copied_def using True by simp
    next
      case False
      then show ?thesis unfolding run block_copied_def using ud by (cases "a = d + word_of_nat n") (auto simp: less_Suc_eq intro: unat_eqI)
    qed
  qed
qed (auto simp: block_copied_def fun_eq_iff)

lemma memcpy_effect:
  assumes "unat d + unat n < 2 ^ 64" "unat s + unat n < 2 ^ 64" "unat d \<le> unat s \<or> unat s + unat n \<le> unat d"
  shows "memcpy d s n m = (d, block_copied d s (unat n) m)"
  using copy_up_effect [OF assms] by (simp add: memcpy_def)

text \<open>\<open>memmove\<close> is right however the two blocks overlap.\<close>

lemma memmove_effect:
  assumes "unat d + unat n < 2 ^ 64" "unat s + unat n < 2 ^ 64"
  shows "memmove d s n m = (d, block_copied d s (unat n) m)"
proof (cases "s \<ge> d \<or> s + n \<le> d")
  case True
  have "unat (s + n) = unat s + unat n" by (subst unat_add_small) (use assms in simp_all)
  then have "unat d \<le> unat s \<or> unat s + unat n \<le> unat d" using True by (auto simp: word_le_nat_alt)
  then show ?thesis using copy_up_effect [OF assms] True by (auto simp: memmove_def)
next
  case False
  then have "unat s \<le> unat d" by (simp add: word_le_nat_alt)
  then show ?thesis using copy_down_effect [OF assms, of m] False by (simp add: memmove_def)
qed

lemma fill_effect:
  "unat p + n < 2 ^ 64 \<Longrightarrow> fill_bytes n p v m = (\<lambda>a. if unat p \<le> unat a \<and> unat a < unat p + n then v else m a)"
proof (induction n arbitrary: p m)
  case (Suc n)
  have u: "unat (p + 1) = unat p + 1" using Suc.prems by (simp add: unat_succ)
  have "fill_bytes n (p + 1) v (m(p := v)) = (\<lambda>a. if unat (p + 1) \<le> unat a \<and> unat a < unat (p + 1) + n then v else (m(p := v)) a)"
    using Suc.prems u by (intro Suc.IH) simp
  then show ?case using u by (auto simp: fun_eq_iff not_le intro: unat_eqI)
qed (auto simp: fun_eq_iff)

lemma compare_bytes_zero:
  "compare_bytes n p q m = 0 \<longleftrightarrow> (\<forall>i<n. m (p + word_of_nat i) = m (q + word_of_nat i))"
proof (induction n arbitrary: p q)
  case (Suc n)
  have "(\<forall>i<Suc n. P i) \<longleftrightarrow> P 0 \<and> (\<forall>i<n. P (Suc i))" for P using less_Suc_eq_0_disj by auto
  then show ?case using Suc.IH [of "p + 1" "q + 1"] by (auto simp: ac_simps word_uint_eq_iff)
qed simp

section \<open>Strings\<close>

primrec cstring :: "bytes \<Rightarrow> u64 \<Rightarrow> u8 list \<Rightarrow> bool" where
  "cstring m p [] \<longleftrightarrow> m p = 0"
| "cstring m p (b # bs) \<longleftrightarrow> b \<noteq> 0 \<and> m p = b \<and> cstring m (p + 1) bs"

lemma strlen_loop_cstring: "cstring m p bs \<Longrightarrow> strlen_loop m p = Some (p + word_of_nat (length bs))"
  by (induction bs arbitrary: p) (simp_all add: strlen_loop.simps ac_simps)

lemma strlen_cstring: "cstring m p bs \<Longrightarrow> strlen p m = Done (word_of_nat (length bs))"
  by (simp add: strlen_def strlen_loop_cstring outcome_of_option_def)

lemma strcmp_cstring:
  "cstring m p bs \<Longrightarrow> cstring m q cs \<Longrightarrow> \<exists>r. strcmp p q m = Done r \<and> (r = 0 \<longleftrightarrow> bs = cs) \<and> (r < 0 \<longleftrightarrow> (bs, cs) \<in> lexord {(x, y). x < y})"
proof -
  have "\<exists>r. strcmp_loop m p q = Some r \<and> (r = 0 \<longleftrightarrow> bs = cs) \<and> (r < 0 \<longleftrightarrow> (bs, cs) \<in> lexord {(x, y). x < y})"
    if "cstring m p bs" "cstring m q cs"
    using that
  proof (induction bs arbitrary: p q cs)
    case Nil
    then show ?case by (cases cs) (auto simp: strcmp_loop.simps uint_0_iff word_gt_0 uint_nonnegative less_le uint_0_eq)
  next
    case (Cons b bs)
    show ?case
    proof (cases cs)
      case Nil
      then show ?thesis using Cons.prems by (simp add: strcmp_loop.simps uint_0_iff)
    next
      case (Cons c cs')
      show ?thesis
      proof (cases "b = c")
        case True
        then show ?thesis using Cons.IH [of "p + 1" "q + 1" cs'] Cons.prems \<open>cs = c # cs'\<close> by (subst strcmp_loop.simps) auto
      next
        case False
        then show ?thesis using Cons.prems \<open>cs = c # cs'\<close> by (subst strcmp_loop.simps) (auto simp: word_less_def word_uint_eq_iff)
      qed
    qed
  qed
  then show "cstring m p bs \<Longrightarrow> cstring m q cs \<Longrightarrow> ?thesis" by (auto simp: strcmp_def outcome_of_option_def)
qed

text \<open>A list of bytes written from an address on.\<close>

primrec store_bytes :: "u64 \<Rightarrow> u8 list \<Rightarrow> bytes \<Rightarrow> bytes" where
  "store_bytes p [] m = m"
| "store_bytes p (b # bs) m = store_bytes (p + 1) bs (m(p := b))"

lemma store_below:
  "unat p + length bs < 2 ^ 64 \<Longrightarrow> unat a < unat p \<or> unat p + length bs \<le> unat a \<Longrightarrow> store_bytes p bs m a = m a"
proof (induction bs arbitrary: p m)
  case (Cons b bs)
  have u: "unat (p + 1) = unat p + 1" using Cons.prems by (simp add: unat_succ)
  then have "store_bytes (p + 1) bs (m(p := b)) a = (m(p := b)) a" using Cons.prems by (intro Cons.IH) auto
  then show ?case using Cons.prems by auto
qed simp

lemma store_upd:
  "unat p + length bs < 2 ^ 64 \<Longrightarrow> unat q < unat p \<or> unat p + length bs \<le> unat q \<Longrightarrow> store_bytes p bs (m(q := b)) = (store_bytes p bs m)(q := b)"
proof (induction bs arbitrary: p m)
  case (Cons c bs)
  have u: "unat (p + 1) = unat p + 1" using Cons.prems by (simp add: unat_succ)
  have "p \<noteq> q" using Cons.prems by auto
  then have "m(q := b, p := c) = m(p := c, q := b)" by (simp add: fun_upd_twist)
  moreover have "store_bytes (p + 1) bs (m(p := c, q := b)) = (store_bytes (p + 1) bs (m(p := c)))(q := b)" using Cons.prems u by (intro Cons.IH) auto
  ultimately show ?case by (simp only: store_bytes.simps)
qed simp

lemma store_append: "store_bytes p (bs @ cs) m = store_bytes (p + word_of_nat (length bs)) cs (store_bytes p bs m)"
  by (induction bs arbitrary: p m) (simp_all add: ac_simps)

lemma store_cstring:
  "unat p + length bs < 2 ^ 64 \<Longrightarrow> 0 \<notin> set bs \<Longrightarrow> m (p + word_of_nat (length bs)) = 0 \<Longrightarrow> cstring (store_bytes p bs m) p bs"
proof (induction bs arbitrary: p m)
  case (Cons b bs)
  have u: "unat (p + 1) = unat p + 1" using Cons.prems by (simp add: unat_succ)
  have w: "unat (word_of_nat (length bs) :: u64) = length bs" using Cons.prems by (simp add: unsigned_of_nat take_bit_nat_eq_self)
  have "unat (p + 1 + word_of_nat (length bs)) = unat p + 1 + length bs" by (subst unat_add_small) (use u w Cons.prems in simp_all)
  then have "p + 1 + word_of_nat (length bs) \<noteq> p" by (intro unat_neqI) linarith
  then have "cstring (store_bytes (p + 1) bs (m(p := b))) (p + 1) bs" using Cons.prems u by (intro Cons.IH) (simp_all add: ac_simps)
  moreover have "store_bytes (p + 1) bs (m(p := b)) p = b" using Cons.prems u by (subst store_below) simp_all
  ultimately show ?case using Cons.prems by auto
qed simp

section \<open>Digits\<close>

text \<open>The digits of a number, most significant first.\<close>

function nat_digits :: "nat \<Rightarrow> nat \<Rightarrow> nat list" where
  "nat_digits b n = (if n < b \<or> b < 2 then [n] else nat_digits b (n div b) @ [n mod b])"
  by pat_completeness auto
termination by (relation "measure snd") auto
declare nat_digits.simps [simp del]

definition digits_value :: "nat \<Rightarrow> nat list \<Rightarrow> nat" where
  "digits_value b = foldl (\<lambda>v d. v * b + d) 0"

lemma digits_value_digits: "digits_value b (nat_digits b n) = n"
proof (induction b n rule: nat_digits.induct)
  case (1 b n)
  show ?case
  proof (cases "n < b \<or> b < 2")
    case True
    then show ?thesis by (subst nat_digits.simps) (simp add: digits_value_def)
  next
    case False
    then have "digits_value b (nat_digits b n) = digits_value b (nat_digits b (n div b)) * b + n mod b"
      by (subst nat_digits.simps) (simp add: digits_value_def)
    then show ?thesis using 1 [OF False] by simp
  qed
qed

lemma digit_bound: "2 \<le> b \<Longrightarrow> d \<in> set (nat_digits b n) \<Longrightarrow> d < b"
proof (induction b n rule: nat_digits.induct)
  case (1 b n)
  then show ?case by (subst (asm) (2) nat_digits.simps) (auto split: if_splits)
qed

lemma length_digits_pos: "nat_digits b n \<noteq> []"
  by (subst nat_digits.simps) auto

lemma length_digits:
  "2 \<le> b \<Longrightarrow> n < b ^ length (nat_digits b n)" "2 \<le> b \<Longrightarrow> n = 0 \<or> b ^ (length (nat_digits b n) - 1) \<le> n"
proof (induction b n rule: nat_digits.induct)
  case (1 b n)
  {
    case 1
    show ?case
    proof (cases "n < b \<or> b < 2")
      case True
      then show ?thesis using 1 by (subst nat_digits.simps) simp
    next
      case False
      have "n div b < b ^ length (nat_digits b (n div b))" using "1.IH"(1) [OF False 1] .
      then have "n < b * b ^ length (nat_digits b (n div b))" using 1 by (simp add: div_less_iff_less_mult mult.commute)
      then show ?thesis using False by (subst nat_digits.simps) simp
    qed
  next
    case 2
    show ?case
    proof (cases "n < b \<or> b < 2")
      case True
      then show ?thesis using 2 by (subst nat_digits.simps) auto
    next
      case False
      have "n div b \<noteq> 0" using False by (simp add: div_eq_0_iff)
      then have "b ^ (length (nat_digits b (n div b)) - 1) \<le> n div b" using "1.IH"(2) [OF False 2] by simp
      then have "b * b ^ (length (nat_digits b (n div b)) - 1) \<le> n" using 2 by (simp add: less_eq_div_iff_mult_less_eq mult.commute)
      moreover have "b * b ^ (length (nat_digits b (n div b)) - 1) = b ^ length (nat_digits b (n div b))"
        using length_digits_pos [of b "n div b"] by (cases "nat_digits b (n div b)") simp_all
      ultimately show ?thesis using False by (subst nat_digits.simps) simp
    qed
  }
qed

lemma length_digits_eq:
  assumes "2 \<le> b" "n < b ^ k" "0 < k" "k = 1 \<or> b ^ (k - 1) \<le> n"
  shows "length (nat_digits b n) = k"
proof (cases "k = 1")
  case True
  then show ?thesis using assms by (simp add: nat_digits.simps)
next
  case False
  let ?l = "length (nat_digits b n)"
  have "b ^ (k - 1) \<le> n" "0 < b ^ (k - 1)" using False assms by auto
  then have "n \<noteq> 0" by linarith
  then have "b ^ (k - 1) < b ^ ?l" "b ^ (?l - 1) < b ^ k" using length_digits [OF assms(1), of n] assms(2) \<open>b ^ (k - 1) \<le> n\<close> by linarith+
  then have "k - 1 < ?l" "?l - 1 < k" using assms(1) by (simp_all add: power_less_imp_less_exp)
  then show ?thesis using assms(3) by simp
qed

section \<open>Decimal\<close>

definition digit_text :: "nat list \<Rightarrow> u8 list" where
  "digit_text ds = map (\<lambda>d. DIGITS_STR ! d) ds"

lemma CountDecDigit_length: "unat (CountDecDigit n) = length (nat_digits 10 (unat n))"
proof -
  have "length (nat_digits 10 (unat n)) = k" if "unat n < 10 ^ k" "0 < k" "k = 1 \<or> 10 ^ (k - 1) \<le> unat n" for k
    using that by (intro length_digits_eq) simp_all
  note L = this
  have one: "unat n < 10 \<Longrightarrow> length (nat_digits 10 (unat n)) = Suc 0" by (simp add: nat_digits.simps)
  have top: "unat n < 10 ^ 20" using unat_lt_64 [of n] by (simp del: unat_lt_64) 
  show ?thesis unfolding CountDecDigit_def word_less_nat_alt using top
    by (auto split: if_splits simp: L one)
qed

lemma store_back:
  assumes "unat (p :: u64) + length bs + 1 < 2 ^ 64"
  shows "store_bytes p bs (m(p + word_of_nat (length bs) := b)) = store_bytes p (bs @ [b]) m"
proof -
  have "unat (p + word_of_nat (length bs)) = unat p + length bs"
    by (subst unat_add_small) (use assms in \<open>simp_all add: unsigned_of_nat take_bit_nat_eq_self\<close>)
  then show ?thesis unfolding store_append using assms by (subst store_upd) simp_all
qed

lemma write_decimal_digits:
  assumes "0 < unat num" "unat e < 2 ^ 64 - 1" "length (nat_digits 10 (unat num)) \<le> unat e"
  shows "write_decimal num e m = store_bytes (e - word_of_nat (length (nat_digits 10 (unat num)))) (digit_text (nat_digits 10 (unat num))) m"
  using assms
proof (induction num e m rule: write_decimal.induct)
  case (1 num e m)
  let ?ds = "nat_digits 10 (unat num div 10)" and ?b = "DIGITS_STR ! unat (num mod 10)"
  have gt: "num > 0" using "1.prems"(1) by (simp add: word_less_nat_alt)
  have step: "write_decimal num e m = write_decimal (num div 10) (e - 1) (m(e - 1 := ?b))" using gt by (subst write_decimal.simps) simp
  have md: "unat (num mod 10) = unat num mod 10" "unat (num div 10) = unat num div 10" by (simp_all add: unat_mod unat_div)
  have e1: "unat (e - 1) = unat e - 1" using "1.prems" length_digits_pos [of 10 "unat num"] by (subst unat_sub_small) (cases "nat_digits 10 (unat num)"; simp)+
  show ?case
  proof (cases "unat num < 10")
    case True
    then have "num div 10 = 0" using md(2) by (intro unat_eqI) simp
    then show ?thesis using True step md(1) by (simp add: nat_digits.simps write_decimal.simps [of 0] digit_text_def)
  next
    case False
    have ds: "nat_digits 10 (unat num) = ?ds @ [unat num mod 10]" using False by (subst nat_digits.simps) simp
    have len: "length ?ds + 1 \<le> unat e" using "1.prems"(3) ds by simp
    have "write_decimal (num div 10) (e - 1) (m(e - 1 := ?b)) = store_bytes (e - 1 - word_of_nat (length ?ds)) (digit_text ?ds) (m(e - 1 := ?b))"
      by (rule "1.IH" [OF gt, unfolded md(2)]) (use False e1 "1.prems"(2) len in simp_all)
    moreover have p: "e - 1 = e - 1 - word_of_nat (length ?ds) + word_of_nat (length (digit_text ?ds))" by (simp add: digit_text_def)
    moreover have "unat (e - 1 - word_of_nat (length ?ds)) + length (digit_text ?ds) + 1 < 2 ^ 64"
    proof -
      have "unat (word_of_nat (length ?ds) :: u64) = length ?ds" using len "1.prems"(2) by (simp add: unsigned_of_nat take_bit_nat_eq_self)
      then have "unat (e - 1 - word_of_nat (length ?ds)) = unat e - 1 - length ?ds" using e1 len by (subst unat_sub_small) simp_all
      then show ?thesis using len "1.prems"(2) by (simp add: digit_text_def)
    qed
    ultimately have "write_decimal num e m = store_bytes (e - 1 - word_of_nat (length ?ds)) (digit_text ?ds @ [?b]) m"
      using step store_back [of "e - 1 - word_of_nat (length ?ds)" "digit_text ?ds" m ?b] by simp
    then show ?thesis using ds md(1) by (simp add: digit_text_def diff_diff_add ac_simps)
  qed
qed

lemma WriteIntDecimal_digits:
  fixes n p :: u64
  assumes "unat p + length (nat_digits 10 (unat n)) < 2 ^ 64 - 1"
  shows "WriteIntDecimal n p (CountDecDigit n) m = store_bytes p (digit_text (nat_digits 10 (unat n))) m"
proof -
  let ?l = "length (nat_digits 10 (unat n))"
  have c: "unat (ucast (CountDecDigit n) :: u64) = ?l" using CountDecDigit_length [of n] assms by (simp add: unsigned_ucast_eq take_bit_nat_eq_self)
  then have w: "(ucast (CountDecDigit n) :: u64) = word_of_nat ?l" unfolding c [symmetric] by simp
  have e: "unat (p + ucast (CountDecDigit n)) = unat p + ?l" by (subst unat_add_small) (use c assms in simp_all)
  show ?thesis
  proof (cases "n = 0")
    case True
    then show ?thesis by (simp add: WriteIntDecimal_def CountDecDigit_def nat_digits.simps digit_text_def DIGITS_STR_def)
  next
    case False
    then show ?thesis using write_decimal_digits [of n "p + ucast (CountDecDigit n)" m] e assms
      by (simp add: WriteIntDecimal_def w unat_gt_0)
  qed
qed

section \<open>Bases that are powers of two\<close>

lemma FindMostSignificantBit_spec:
  assumes "n \<noteq> 0"
  obtains i where "FindMostSignificantBit n = int i" "i < 64" "2 ^ i \<le> unat n" "unat n < 2 ^ (i + 1)"
proof -
  define xs where "xs = rev [0..<64 :: nat]"
  have xs: "length xs = 64" "set xs = {..<64}" "\<And>k. k < 64 \<Longrightarrow> xs ! k = 63 - k" unfolding xs_def by (auto simp: rev_nth simp del: upt_rec_numeral)
  define ys where "ys = takeWhile (\<lambda>i. \<not> bit n i) xs"
  define l where "l = length ys"
  obtain j where j: "j < 64" "bit n j" using assms by (auto simp: bit_eq_iff dest: bit_imp_le_length)
  have none: "\<not> bit n (ys ! k)" if "k < l" for k 
    using nth_mem [of k ys] that set_takeWhileD [of "ys ! k" "\<lambda>i. \<not> bit n i" xs] by (simp add: ys_def [symmetric] l_def)
  have pre: "ys ! k = 63 - k" if "k < l" for k
    using that takeWhile_nth [of k "\<lambda>i. \<not> bit n i" xs] length_takeWhile_le [of "\<lambda>i. \<not> bit n i" xs] xs by (simp add: ys_def l_def)
  have lt: "l < 64"
  proof (rule ccontr)
    assume "\<not> l < 64"
    then have "63 - j < l" by simp
    then show False using none [of "63 - j"] pre [of "63 - j"] j by simp
  qed
  have b: "bit n (63 - l)" using nth_length_takeWhile [of "\<lambda>i. \<not> bit n i" xs] lt xs by (simp add: l_def ys_def)
  have up: "\<not> bit n i" if i: "63 - l < i" for i
  proof
    assume bi: "bit n i"
    then have "i < 64" using bit_imp_le_length by force
    then have "63 - i < l" "63 - (63 - i) = i" using i lt by simp_all
    then show False using none [of "63 - i"] pre [of "63 - i"] bi by simp
  qed
  have "take_bit (63 - l + 1) n = n" 
  proof (rule bit_word_eqI)
    show "bit (take_bit (63 - l + 1) n) i = bit n i" for i using up [of i] by (cases "63 - l < i") (auto simp: bit_take_bit_iff)
  qed
  then have "unat n mod 2 ^ (63 - l + 1) = unat n" using unat_take_bit [of "63 - l + 1" n] by simp
  then have hi: "unat n < 2 ^ (63 - l + 1)" by (metis mod_less_divisor zero_less_numeral zero_less_power)
  have "bit (unat n) (63 - l)" using b by (simp add: bit_unsigned_iff)
  then have "odd (unat n div 2 ^ (63 - l))" by (simp add: bit_iff_odd)
  then have "unat n div 2 ^ (63 - l) \<noteq> 0" by (metis even_zero)
  then have lo: "2 ^ (63 - l) \<le> unat n" by (metis div_less not_less)
  have "FindMostSignificantBit n = int (63 - l)" using assms lt by (simp add: FindMostSignificantBit_def clzll_def xs_def [symmetric] ys_def [symmetric] l_def [symmetric] of_nat_diff del: upt_rec_numeral)
  then show thesis using that [of "63 - l"] lo hi by simp
qed

definition base_bits :: "int \<Rightarrow> nat" where
  "base_bits base = nat (FindMostSignificantBit (word_of_int base))"

lemma valid_bases:
  assumes "IsValidBase base" "base \<noteq> 10"
  shows "base = 2 ^ base_bits base" "0 < base_bits base" "base_bits base \<le> 5" "FindMostSignificantBit (word_of_int base) = int (base_bits base)"
proof -
  have f: "FindMostSignificantBit 2 = 1" "FindMostSignificantBit 4 = 2" "FindMostSignificantBit 8 = 3" "FindMostSignificantBit 16 = 4" "FindMostSignificantBit 32 = 5"
    by code_simp+
  show "base = 2 ^ base_bits base" "0 < base_bits base" "base_bits base \<le> 5" "FindMostSignificantBit (word_of_int base) = int (base_bits base)"
    using assms by (auto simp: IsValidBase_def base_bits_def f)
qed

lemma digit_count:
  assumes k: "0 < k" and n: "n \<noteq> 0"
  shows "(FindMostSignificantBit n + 1 + int k - 1) div int k = int (length (nat_digits (2 ^ k) (unat n)))"
proof -
  obtain i where i: "FindMostSignificantBit n = int i" "2 ^ i \<le> unat n" "unat n < 2 ^ (i + 1)" using FindMostSignificantBit_spec [OF n] by metis
  define d where "d = (i + k) div k"
  have d: "k * d \<le> i + k" "i + k < k * (d + 1)" using k by (simp_all add: d_def dividend_less_times_div algebra_simps)
  have "length (nat_digits (2 ^ k) (unat n)) = d"
  proof (rule length_digits_eq)
    show "2 \<le> (2 :: nat) ^ k" using k by (cases k) simp_all
    have "i + 1 \<le> k * d" using d(2) by (simp add: algebra_simps)
    then have "(2 :: nat) ^ (i + 1) \<le> 2 ^ (k * d)" by (rule power_increasing) simp
    then show "unat n < (2 ^ k) ^ d" using i(3) by (simp add: power_mult)
    show "0 < d" using k by (simp add: d_def div_greater_zero_iff)
    have "k * (d - 1) \<le> i" using d(1) by (simp add: algebra_simps diff_mult_distrib2)
    then have "(2 :: nat) ^ (k * (d - 1)) \<le> 2 ^ i" by (rule power_increasing) simp
    then show "d = 1 \<or> (2 ^ k) ^ (d - 1) \<le> unat n" using i(2) by (simp add: power_mult)
  qed
  moreover have "FindMostSignificantBit n + 1 + int k - 1 = int (i + k)" using i(1) by simp
  ultimately show ?thesis by (simp add: d_def zdiv_int)
qed

lemma base_mask: "0 < k \<Longrightarrow> k \<le> 5 \<Longrightarrow> unat (ucast (n AND word_of_int (2 ^ k - 1) :: u64) :: u8) = unat n mod 2 ^ k"
proof -
  assume k: "0 < k" "k \<le> 5"
  have "(word_of_int (2 ^ k - 1) :: u64) = mask k" using k by (simp add: mask_eq_exp_minus_1)
  then have "n AND word_of_int (2 ^ k - 1) = take_bit k n" by (simp add: take_bit_eq_mask)
  then have u: "unat (n AND word_of_int (2 ^ k - 1)) = unat n mod 2 ^ k" using unat_take_bit [of k n] by simp
  have "unat n mod 2 ^ k < 2 ^ k" by simp
  also have "(2 :: nat) ^ k \<le> 2 ^ 5" using k by (intro power_increasing) simp_all
  finally show ?thesis using u by (simp add: unsigned_ucast_eq take_bit_nat_eq_self)
qed

lemma write_two_base_digits:
  assumes k: "0 < k" "k \<le> 5" and "unat (ds :: u8) = length (nat_digits (2 ^ k) (unat num))" "unat buf + length (nat_digits (2 ^ k) (unat num)) < 2 ^ 64 - 1"
  shows "write_two_base num buf ds (2 ^ k) k m = Some (store_bytes buf (digit_text (nat_digits (2 ^ k) (unat num))) m)"
  using assms(3,4)
proof (induction "unat num" arbitrary: num ds m rule: less_induct)
  case less
  let ?b = "2 ^ k :: nat" and ?dg = "DIGITS_STR ! (unat num mod 2 ^ k)"
  have b2: "2 \<le> ?b" using k by (cases k) simp_all
  have dr: "unat (drop_bit k num) = unat num div 2 ^ k" by (simp add: unat_drop_bit)
  have pos: "0 < unat ds" using less.prems(1) length_digits_pos [of ?b "unat num"] by simp
  then have d1: "unat (ds - 1) = unat ds - 1" by (subst unat_sub_small) simp_all
  have step: "write_two_base num buf ds (2 ^ k) k m =
     (let m' = m(buf + ucast (ds - 1) := ?dg) in if drop_bit k num \<noteq> 0 then write_two_base (drop_bit k num) buf (ds - 1) (2 ^ k) k m' else Some m')"
    by (subst write_two_base.simps) (simp only: Let_def base_mask [OF k])
  have w: "(ucast (ds - 1) :: u64) = word_of_nat (unat ds - 1)" unfolding d1 [symmetric] by (rule unat_eqI) (simp add: unsigned_ucast_eq unsigned_of_nat)
  show ?case
  proof (cases "unat num < ?b")
    case True
    then have "drop_bit k num = 0" using dr by (intro unat_eqI) simp
    moreover have "nat_digits ?b (unat num) = [unat num]" using True by (simp add: nat_digits.simps)
    ultimately show ?thesis using step less.prems(1) True w by (simp add: Let_def digit_text_def)
  next
    case False
    let ?ds = "nat_digits ?b (unat num div ?b)"
    have eq: "nat_digits ?b (unat num) = ?ds @ [unat num mod ?b]" using False b2 by (subst nat_digits.simps) simp
    have nz: "drop_bit k num \<noteq> 0" using dr False by (metis div_greater_zero_iff less_irrefl linorder_not_less unsigned_0 zero_less_numeral zero_less_power)
    have lt: "unat (drop_bit k num) < unat num" using dr False b2 by (simp add: div_less_dividend)
    have "write_two_base (drop_bit k num) buf (ds - 1) (2 ^ k) k (m(buf + ucast (ds - 1) := ?dg)) =
        Some (store_bytes buf (digit_text ?ds) (m(buf + ucast (ds - 1) := ?dg)))"
      by (rule less.hyps [OF lt, unfolded dr]) (use d1 less.prems eq in simp_all)
    moreover have "ucast (ds - 1) = (word_of_nat (length (digit_text ?ds)) :: u64)" using w less.prems(1) eq by (simp add: digit_text_def)
    ultimately show ?thesis using step nz store_back [of buf "digit_text ?ds" m ?dg] less.prems(2) eq by (simp add: Let_def digit_text_def)
  qed
qed

section \<open>Formatting\<close>

definition format_text :: "nat \<Rightarrow> int \<Rightarrow> u8 \<Rightarrow> nat \<Rightarrow> u8 list" where
  "format_text b padding c n = (let ds = nat_digits b n in replicate (nat padding - length ds) c @ digit_text ds)"

lemma fill_store: "fill_bytes n p v m = store_bytes p (replicate n v) m"
  by (induction n arbitrary: p m) simp_all

lemma store_swap:
  assumes "unat p + length bs + length cs < 2 ^ 64"
  shows "store_bytes p bs (store_bytes (p + word_of_nat (length bs)) cs m) = store_bytes p (bs @ cs) m"
  using assms
proof (induction bs arbitrary: p m)
  case (Cons b bs)
  have u: "unat (p + 1) = unat p + 1" using Cons.prems by (simp add: unat_succ)
  have e: "p + word_of_nat (length (b # bs)) = p + 1 + word_of_nat (length bs)" by simp
  have "unat (p + 1 + word_of_nat (length bs)) = unat p + 1 + length bs" by (subst unat_add_small) (use u Cons.prems in simp_all)
  then have "(store_bytes (p + 1 + word_of_nat (length bs)) cs m)(p := b) = store_bytes (p + 1 + word_of_nat (length bs)) cs (m(p := b))"
    using Cons.prems by (subst store_upd) simp_all
  moreover have "store_bytes (p + 1) bs (store_bytes (p + 1 + word_of_nat (length bs)) cs (m(p := b))) = store_bytes (p + 1) (bs @ cs) (m(p := b))"
    using Cons.prems u by (intro Cons.IH) simp
  ultimately show ?case unfolding e by simp
qed simp

lemma padded_store:
  assumes "unat p + k + length bs < 2 ^ 64"
  shows "snd (memset p (uint c) (word_of_nat k) (store_bytes (p + word_of_nat k) bs m)) = store_bytes p (replicate k c @ bs) m"
  using store_swap [of p "replicate k c" bs m] assms by (simp add: memset_def fill_store)

lemma length_format: "length (format_text b padding c n) = max (nat padding) (length (nat_digits b n))"
  by (simp add: format_text_def Let_def digit_text_def)

lemma UInt64ToStringEx_text:
  assumes p: "p \<noteq> 0" and v: "IsValidBase base" and full: "pad = (if base \<noteq> 10 \<and> padding < 0 then (64 + int (base_bits base) - 1) div int (base_bits base) else padding)"
    and room: "unat p + length (format_text (nat base) pad c (unat value)) < 2 ^ 64 - 1"
  defines "t \<equiv> format_text (nat base) pad c (unat value)"
  shows "UInt64ToStringEx value p base padding c m = Done (word_of_nat (length t), (store_bytes p t m)(p + word_of_nat (length t) := 0))"
proof -
  let ?ds = "nat_digits (nat base) (unat value)" and ?k = "nat pad - length (nat_digits (nat base) (unat value))"
  have t: "t = replicate ?k c @ digit_text ?ds" by (simp add: t_def format_text_def Let_def)
  have lt: "length t = ?k + length ?ds" by (simp add: t digit_text_def)
  have fill: "(if pad > int (length ?ds) then pad - int (length ?ds) else 0) = int ?k" by (simp add: nat_diff_distrib')
  have rm: "unat p + ?k + length ?ds < 2 ^ 64 - 1" using room lt by (simp add: t_def)
  have uk: "unat (p + word_of_nat ?k) = unat p + ?k" by (subst unat_add_small) (use rm in simp_all)
  have fin: "word_of_int (int (length ?ds) + int ?k) = (word_of_nat (length t) :: u64)" using lt by (simp add: add.commute)
  have padded: "snd (memset p (uint c) (word_of_nat ?k) (store_bytes (p + word_of_nat ?k) (digit_text ?ds) m)) = store_bytes p t m"
    using padded_store [of p ?k "digit_text ?ds" c m] rm t by (simp add: digit_text_def)
  show ?thesis
  proof (cases "base = 10")
    case True
    have cd: "uint (CountDecDigit value) = int (length ?ds)" using CountDecDigit_length [of "value"] True by (metis of_nat_unat nat_numeral)
    have "WriteIntDecimal value (p + word_of_nat ?k) (CountDecDigit value) m = store_bytes (p + word_of_nat ?k) (digit_text ?ds) m"
      using WriteIntDecimal_digits [of "p + word_of_nat ?k" "value" m] uk rm True by simp
    moreover have "word_of_int (int (length ?ds)) = CountDecDigit value" unfolding cd [symmetric] by simp
    moreover have pd: "pad = padding" using full True by simp
    ultimately show ?thesis unfolding UInt64ToStringEx_def Let_def cd fill [unfolded pd] using True p v padded [unfolded pd] fin [unfolded pd] by simp
  next
    case False
    note vb = valid_bases [OF v False]
    have nb: "nat base = 2 ^ base_bits base" using vb(1) by (metis nat_2 nat_power_eq numeral_2_eq_2 zero_le_numeral)
    have td: "(if value = 0 then 1 else (FindMostSignificantBit value + 1 + int (base_bits base) - 1) div int (base_bits base)) = int (length ?ds)"
      using digit_count [OF vb(2)] vb(2) by (simp add: nb nat_digits.simps [of _ 0])
    have l64: "length ?ds \<le> 64"
    proof (rule ccontr)
      assume "\<not> length ?ds \<le> 64"
      then have g: "64 \<le> length ?ds - 1" by simp
      have "64 \<le> base_bits base * (length ?ds - 1)" using g vb(2) by (cases "base_bits base") (auto intro: trans_le_add1)
      then have "(2 :: nat) ^ 64 \<le> 2 ^ (base_bits base * (length ?ds - 1))" by (rule power_increasing) simp
      then have "(2 :: nat) ^ 64 \<le> nat base ^ (length ?ds - 1)" by (simp add: nb power_mult)
      moreover have "unat value = 0 \<or> nat base ^ (length ?ds - 1) \<le> unat value" using length_digits(2) [of "nat base" "unat value"] v by (auto simp: IsValidBase_def)
      moreover have "nat_digits (nat base) 0 = [0]" using v by (auto simp: nat_digits.simps IsValidBase_def)
      moreover have "unat value < 18446744073709551616" using unat_lt_64 [of "value"] by simp
      ultimately show False using g by auto
    qed
    have u8: "unat (word_of_int (int (length ?ds)) :: u8) = length ?ds" using l64 by (simp add: unsigned_of_nat take_bit_nat_eq_self)
    have "WriteIntTwoBase value (p + word_of_nat ?k) (word_of_int (int (length ?ds))) base m = Done (store_bytes (p + word_of_nat ?k) (digit_text ?ds) m)"
      using write_two_base_digits [OF vb(2,3), of "word_of_int (int (length ?ds))" "value" "p + word_of_nat ?k" m] u8 uk rm vb(1) nb
      unfolding nb by (simp add: WriteIntTwoBase_def vb(4) outcome_of_option_def)
    moreover have pd: "(if padding < 0 then (64 + int (base_bits base) - 1) div int (base_bits base) else padding) = pad" using full False by simp
    ultimately show ?thesis unfolding UInt64ToStringEx_def Let_def vb(4) td pd fill using False p v padded fin by simp
  qed
qed


text \<open>The text of a signed number, and what it denotes.\<close>

definition signed_text :: "int \<Rightarrow> u8 \<Rightarrow> int \<Rightarrow> u8 list" where
  "signed_text padding c v =
    (if v < 0 then of_char (CHR ''-'') # format_text 10 (padding - 1) c (nat (- v)) else format_text 10 padding c (nat v))"

lemma sint_magnitude:
  fixes val :: u64
  shows "0 \<le> sint val \<Longrightarrow> unat val = nat (sint val)" "sint val < 0 \<Longrightarrow> unat (- val) = nat (- sint val)"
proof -
  have lt: "sint val < 2 ^ 63" "- (2 ^ 63) \<le> sint val" using sint_less [of val] sint_ge [of val] by simp_all
  {
    assume "0 \<le> sint val"
    then have "uint val = sint val" using lt by (simp add: uint_sint take_bit_int_eq_self)
    then show "unat val = nat (sint val)" by (simp flip: nat_uint_eq)
  next
    assume "sint val < 0"
    moreover have "- val = word_of_int (- sint val)" by simp
    ultimately have "uint (- val) = - sint val" using lt by (simp add: unsigned_of_int take_bit_int_eq_self del: of_int_minus)
    then show "unat (- val) = nat (- sint val)" by (simp flip: nat_uint_eq)
  }
qed

lemma Int64ToStringEx_text:
  fixes val p :: u64
  assumes p: "p \<noteq> 0" and room: "unat p + length (signed_text padding c (sint val)) < 2 ^ 64 - 1"
  defines "t \<equiv> signed_text padding c (sint val)"
  shows "Int64ToStringEx val p padding c m = Done (word_of_nat (length t), (store_bytes p t m)(p + word_of_nat (length t) := 0))"
proof (cases "sint val < 0")
  case False
  then have "unat val = nat (sint val)" by (simp add: sint_magnitude)
  then show ?thesis using UInt64ToStringEx_text [OF p, of 10 padding padding c val m] False room
    by (simp add: Int64ToStringEx_def t_def signed_text_def IsValidBase_def)
next
  case True
  let ?f = "format_text 10 (padding - 1) c (nat (- sint val))"
  have t: "t = of_char (CHR ''-'') # ?f" using True by (simp add: t_def signed_text_def)
  have r: "unat p + 1 + length ?f < 2 ^ 64 - 1" using room True by (simp add: signed_text_def)
  have u1: "unat (p + 1) = unat p + 1" using r by (simp add: unat_succ)
  then have p1: "p + 1 \<noteq> 0" by (metis add_is_0 one_neq_zero unsigned_0)
  have mag: "word_of_int (- (sint val + 1)) + 1 = - val" by simp
  have "UInt64ToStringEx (- val) (p + 1) 10 (padding - 1) c m =
      Done (word_of_nat (length ?f), (store_bytes (p + 1) ?f m)(p + 1 + word_of_nat (length ?f) := 0))"
    using UInt64ToStringEx_text [OF p1, of 10 "padding - 1" "padding - 1" c "- val" m] r u1 sint_magnitude(2) [OF True] by (simp add: IsValidBase_def)
  moreover have "p + 1 + word_of_nat (length ?f) \<noteq> p"
    by (rule unat_neqI, subst unat_add_small) (use r u1 in simp_all)
  then have "((store_bytes (p + 1) ?f m)(p + 1 + word_of_nat (length ?f) := 0))(p := of_char (CHR ''-'')) =
      (store_bytes p t m)(p + word_of_nat (length t) := 0)"
    using store_upd [of "p + 1" ?f p m "of_char (CHR ''-'')"] r u1 by (simp add: t fun_upd_twist add.assoc)
  ultimately show ?thesis using True t unfolding Int64ToStringEx_def by (simp add: mag)
qed

lemma format_denotes: "1 < b \<Longrightarrow> \<exists>ds. format_text b padding c n = replicate (nat padding - length ds) c @ digit_text ds \<and> digits_value b ds = n \<and> (\<forall>d \<in> set ds. d < b)"
  using digits_value_digits [of b n] digit_bound [of b _ n] by (intro exI [of _ "nat_digits b n"]) (auto simp: format_text_def Let_def)

lemma length_format_text:
  fixes v :: u64
  assumes "1 < b"
  shows "length (format_text b padding c (unat v)) \<le> nat padding + 64"
proof -
  have "length (nat_digits b (unat v)) \<le> 64"
  proof (rule ccontr)
    assume g: "\<not> length (nat_digits b (unat v)) \<le> 64"
    have "(2 :: nat) ^ 64 \<le> 2 ^ (length (nat_digits b (unat v)) - 1)" using g by (intro power_increasing) simp_all
    also have "\<dots> \<le> b ^ (length (nat_digits b (unat v)) - 1)" using assms by (intro power_mono) simp_all
    finally have "(2 :: nat) ^ 64 \<le> b ^ (length (nat_digits b (unat v)) - 1)" .
    moreover have "unat v \<noteq> 0" using g assms by (cases "unat v = 0") (simp_all add: nat_digits.simps [of b 0])
    ultimately have "(2 :: nat) ^ 64 \<le> unat v" using length_digits(2) [of b "unat v"] assms by linarith
    then show False using unat_lt_64 [of v] by simp
  qed
  then show ?thesis by (simp add: format_text_def digit_text_def Let_def)
qed

lemma digit_text_nonzero: "(\<And>d. d \<in> set ds \<Longrightarrow> d < 36) \<Longrightarrow> 0 \<notin> set (digit_text ds)"
proof -
  have "0 \<notin> set DIGITS_STR" "length DIGITS_STR = 36" by (simp_all add: DIGITS_STR_def)
  moreover have "DIGITS_STR ! d \<in> set DIGITS_STR" if "d < 36" for d using that calculation(2) by simp
  ultimately have "DIGITS_STR ! d \<noteq> 0" if "d < 36" for d using that by metis
  then show "(\<And>d. d \<in> set ds \<Longrightarrow> d < 36) \<Longrightarrow> 0 \<notin> set (digit_text ds)" by (fastforce simp: digit_text_def)
qed

text \<open>The result is a terminated string; bytes before the buffer and after the terminator keep their values.\<close>

lemma stored_string:
  fixes m :: bytes
  assumes "unat p + length t < 2 ^ 64 - 1" "0 \<notin> set t"
  defines "m' \<equiv> (store_bytes p t m)(p + word_of_nat (length t) := 0)"
  shows "cstring m' p t" "unat a < unat p \<or> unat p + length t < unat a \<Longrightarrow> m' a = m a"
proof -
  have u: "unat (p + word_of_nat (length t)) = unat p + length t" by (subst unat_add_small) (use assms in simp_all)
  have e: "m' = store_bytes p t (m(p + word_of_nat (length t) := 0))" unfolding m'_def using assms u by (subst store_upd) simp_all
  show "cstring m' p t" unfolding e using assms by (intro store_cstring) simp_all
  show "unat a < unat p \<or> unat p + length t < unat a \<Longrightarrow> m' a = m a" unfolding m'_def using assms u by (auto simp: store_below)
qed


section \<open>Copying a string\<close>

lemma cstring_upd: "unat p + length bs < 2 ^ 64 \<Longrightarrow> unat q < unat p \<or> unat p + length bs < unat q \<Longrightarrow> cstring (m(q := b)) p bs = cstring m p bs"
proof (induction bs arbitrary: p)
  case (Cons c bs)
  have "unat (p + 1) = unat p + 1" using Cons.prems by (simp add: unat_succ)
  then have "cstring (m(q := b)) (p + 1) bs = cstring m (p + 1) bs" using Cons.prems by (intro Cons.IH) auto
  moreover have "p \<noteq> q" using Cons.prems by auto
  ultimately show ?case by (simp del: fun_upd_apply add: fun_upd_other)
qed auto

lemma strcpy_loop_cstring:
  assumes "cstring m s bs" "unat d + length bs + 1 < 2 ^ 64" "unat s + length bs < 2 ^ 64" "unat d + length bs < unat s \<or> unat s + length bs < unat d"
  shows "strcpy_loop d s m = Some ((store_bytes d bs m)(d + word_of_nat (length bs) := 0))"
  using assms
proof (induction bs arbitrary: d s m)
  case (Cons b bs)
  have u: "unat (d + 1) = unat d + 1" "unat (s + 1) = unat s + 1" using Cons.prems by (simp_all add: unat_succ)
  have "cstring (m(d := b)) (s + 1) bs = cstring m (s + 1) bs" using Cons.prems u by (intro cstring_upd) auto
  then have "cstring (m(d := b)) (s + 1) bs" using Cons.prems(1) by (simp del: fun_upd_apply)
  then have "strcpy_loop (d + 1) (s + 1) (m(d := b)) = Some ((store_bytes (d + 1) bs (m(d := b)))(d + 1 + word_of_nat (length bs) := 0))"
    by (rule Cons.IH) (use Cons.prems u in auto)
  then show ?case using Cons.prems(1) by (subst strcpy_loop.simps) (simp add: Let_def add.assoc del: fun_upd_apply)
qed (subst strcpy_loop.simps, simp add: Let_def del: fun_upd_apply)

lemma strcpy_cstring:
  assumes "cstring m s bs" "unat d + length bs < 2 ^ 64 - 1" "unat s + length bs < 2 ^ 64" "unat d + length bs < unat s \<or> unat s + length bs < unat d"
  shows "\<exists>m'. strcpy d s m = Done (d, m') \<and> cstring m' d bs \<and> (\<forall>a. unat a < unat d \<or> unat d + length bs < unat a \<longrightarrow> m' a = m a)"
proof -
  have nz: "0 \<notin> set bs" using assms(1) by (induction bs arbitrary: s) auto
  show ?thesis using strcpy_loop_cstring [of m s bs d] stored_string [where p = d and t = bs and m = m] assms nz by (simp add: strcpy_def outcome_of_option_def)
qed

end
