(* ===== verification/CalcProofs.thy ===== *)
theory CalcProofs
  imports Calc LibCProofs
begin

text \<open>
  The calculator: what its parser accepts, that printing and parsing are inverse, that it never
  aborts, and that it evaluates postfix expressions.
\<close>

section \<open>Numbers\<close>

definition digit_of :: "char \<Rightarrow> nat" where
  "digit_of c = of_char c - of_char CHR ''0''"

definition literal_value :: "nat \<Rightarrow> string \<Rightarrow> nat" where
  "literal_value = foldl (\<lambda>v c. v * 10 + digit_of c)"

lemma literal_value_mono: "n \<le> literal_value n cs"
proof (induction cs arbitrary: n)
  case (Cons c cs)
  have "n \<le> n * 10 + digit_of c" by simp
  also have "\<dots> \<le> literal_value (n * 10 + digit_of c) cs" by (rule Cons.IH)
  finally show ?case by (simp add: literal_value_def)
qed (simp add: literal_value_def)

lemma digit_of_less: "HoCalcIsDigit c \<Longrightarrow> digit_of c < 10"
  by (auto simp: HoCalcIsDigit_def digit_of_def)

lemma limit_step:
  fixes l :: nat
  assumes "d < 10"
  shows "n * 10 + d \<le> l \<longleftrightarrow> \<not> (n > l div 10 \<or> n = l div 10 \<and> d > l mod 10)"
proof -
  have "n * 10 + d \<le> 10 * q + r \<longleftrightarrow> \<not> (n > q \<or> n = q \<and> d > r)" if "r < 10" for q r using assms that by linarith
  from this [of "l mod 10" "l div 10"] show ?thesis by simp
qed

lemma parse_digits_exact:
  "unat acc \<le> unat limit \<Longrightarrow> parse_digits cs limit acc =
    (if list_all HoCalcIsDigit cs \<and> literal_value (unat acc) cs \<le> unat limit then Some (word_of_nat (literal_value (unat acc) cs)) else None)"
proof (induction cs arbitrary: acc)
  case (Cons c cs)
  let ?d = "word_of_nat (of_char c - of_char CHR ''0'') :: u64" and ?n = "unat acc * 10 + digit_of c"
  show ?case
  proof (cases "HoCalcIsDigit c")
    case True
    have d: "unat ?d = digit_of c" "digit_of c < 10" using digit_of_less [OF True] by (simp_all add: digit_of_def)
    have chk: "(acc > limit div 10 \<or> acc = limit div 10 \<and> ?d > limit mod 10) \<longleftrightarrow> \<not> ?n \<le> unat limit"
      unfolding limit_step [OF d(2)] using d(1) by (auto simp: word_less_nat_alt unat_div unat_mod word_unat_eq_iff)
    have step: "parse_digits (c # cs) limit acc = (if \<not> ?n \<le> unat limit then None else parse_digits cs limit (acc * 10 + ?d))"
      unfolding parse_digits.simps Let_def chk using True by simp
    have lv: "literal_value (unat acc) (c # cs) = literal_value ?n cs" by (simp add: literal_value_def)
    show ?thesis
    proof (cases "?n \<le> unat limit")
      case le: True
      have "?n < 18446744073709551616" using le unat_lt_64 [of limit] by linarith
      then have lt: "?n < 2 ^ 64" by simp
      have "unat (acc * 10 + ?d) = ?n" using lt d(1) by (simp add: unat_word_ariths)
      then show ?thesis using Cons.IH [of "acc * 10 + ?d"] le True unfolding step lv by simp
    next
      case False
      then show ?thesis using literal_value_mono [of ?n cs] unfolding step lv by simp
    qed
  qed simp
qed (simp add: literal_value_def)

text \<open>The number a token denotes, without bounds.\<close>

definition calc_number :: "string \<Rightarrow> int option" where
  "calc_number s =
    (case s of [] \<Rightarrow> None
     | c # cs \<Rightarrow> if c = CHR ''-'' then if cs \<noteq> [] \<and> list_all HoCalcIsDigit cs then Some (- int (literal_value 0 cs)) else None
       else if list_all HoCalcIsDigit s then Some (int (literal_value 0 s)) else None)"

lemma sint_small: "k < 2 ^ 63 \<Longrightarrow> sint (word_of_nat k :: u64) = int k"
  by (simp add: sint_uint unsigned_of_nat take_bit_nat_eq_self signed_take_bit_int_eq_self)

lemma sint_neg: "0 \<le> k \<Longrightarrow> k \<le> 2 ^ 63 \<Longrightarrow> sint (word_of_int (- k) :: u64) = - k"
  by (simp add: signed_of_int signed_take_bit_int_eq_self del: of_int_minus)

lemma HoCalcParseInt64_exact:
  "map_option sint (HoCalcParseInt64 s) = (case calc_number s of None \<Rightarrow> None | Some k \<Rightarrow> if - (2 ^ 63) \<le> k \<and> k < 2 ^ 63 then Some k else None)"
proof (cases s)
  case (Cons c cs)
  show ?thesis
  proof (cases "c = CHR ''-''")
    case True
    let ?v = "literal_value 0 cs"
    have p: "parse_digits cs 9223372036854775808 0 = (if list_all HoCalcIsDigit cs \<and> ?v \<le> 9223372036854775808 then Some (word_of_nat ?v) else None)"
      using parse_digits_exact [of 0 "9223372036854775808" cs] by simp
    have n: "sint (if (word_of_nat ?v :: u64) = 9223372036854775808 then word_of_int (- 9223372036854775807 - 1) else word_of_int (- sint (word_of_nat ?v :: u64)) :: u64) = - int ?v"
      if v: "?v \<le> 9223372036854775808"
    proof (cases "?v = 9223372036854775808")
      case True
      then show ?thesis by simp
    next
      case False
      then have lt: "?v < 2 ^ 63" using v by simp
      have "(word_of_nat ?v :: u64) \<noteq> 9223372036854775808"
        by (rule unat_neqI) (use lt in simp)
      then show ?thesis using sint_small [OF lt] sint_neg [of "int ?v"] lt by simp
    qed
    show ?thesis using Cons True p n by (auto simp: HoCalcParseInt64_def calc_number_def)
  next
    case False
    let ?v = "literal_value 0 s"
    have "parse_digits s 9223372036854775807 0 = (if list_all HoCalcIsDigit s \<and> ?v \<le> 9223372036854775807 then Some (word_of_nat ?v) else None)"
      using parse_digits_exact [of 0 "9223372036854775807" s] by simp
    then show ?thesis using Cons False sint_small [of ?v] by (auto simp: HoCalcParseInt64_def calc_number_def)
  qed
qed (simp add: HoCalcParseInt64_def calc_number_def)

section \<open>Printing\<close>

lemma calc_digits_rev: "rev (calc_digits n) = map (\<lambda>d. char_of (48 + d)) (nat_digits 10 (unat n))"
proof (induction n rule: calc_digits.induct)
  case (1 n)
  have z: "n div 10 = 0 \<longleftrightarrow> unat n < 10" by (simp add: unat_eq_0 [symmetric] unat_div div_eq_0_iff del: unat_eq_zero)
  show ?case
  proof (cases "unat n < 10")
    case True
    then show ?thesis using z by (subst calc_digits.simps) (simp add: nat_digits.simps [of _ "unat n"] unat_mod)
  next
    case False
    then have "n div 10 \<noteq> 0" using z by simp
    then show ?thesis using 1 False by (subst calc_digits.simps) (simp add: nat_digits.simps [of _ "unat n"] unat_mod unat_div)
  qed
qed

definition int_text :: "int \<Rightarrow> string" where
  "int_text k = (if k < 0 then ''-'' else []) @ map (\<lambda>d. char_of (48 + d)) (nat_digits 10 (nat \<bar>k\<bar>))"

lemma digit_char: "d < 10 \<Longrightarrow> HoCalcIsDigit (char_of (48 + d)) \<and> digit_of (char_of (48 + d)) = d \<and> char_of (48 + d) \<noteq> CHR ''-''"
proof -
  assume "d < 10"
  then have o: "of_char (char_of (48 + d)) = 48 + d" by simp
  moreover have "char_of (48 + d) \<noteq> CHR ''-''"
  proof
    assume "char_of (48 + d) = CHR ''-''"
    then have "of_char (char_of (48 + d)) = (of_char CHR ''-'' :: nat)" by simp
    then show False using o by simp
  qed
  ultimately show ?thesis using \<open>d < 10\<close> by (simp add: HoCalcIsDigit_def digit_of_def)
qed

lemma literal_digits: "(\<And>d. d \<in> set ds \<Longrightarrow> d < 10) \<Longrightarrow> literal_value n (map (\<lambda>d. char_of (48 + d)) ds) = foldl (\<lambda>v d. v * 10 + d) n ds"
  by (induction ds arbitrary: n) (simp_all add: literal_value_def digit_char)

lemma calc_number_text: "calc_number (int_text k) = Some k"
proof -
  let ?ds = "nat_digits 10 (nat \<bar>k\<bar>)"
  have b: "\<And>d. d \<in> set ?ds \<Longrightarrow> d < 10" using digit_bound [of 10] by simp
  have v: "literal_value 0 (map (\<lambda>d. char_of (48 + d)) ?ds) = nat \<bar>k\<bar>"
    using literal_digits [of ?ds 0] b digits_value_digits [of 10 "nat \<bar>k\<bar>"] by (simp add: digits_value_def)
  obtain d ds where ds: "?ds = d # ds" using length_digits_pos by (cases ?ds) auto
  have a: "list_all HoCalcIsDigit (map (\<lambda>d. char_of (48 + d)) ?ds)" using b digit_char by (auto simp: list_all_iff)
  show ?thesis using v a b ds digit_char by (auto simp: calc_number_def int_text_def)
qed

lemma length_int_text:
  assumes "- (2 ^ 63) \<le> k" "k < 2 ^ 63"
  shows "length (int_text k) \<le> 20"
proof -
  define n where "n = nat \<bar>k\<bar>"
  have n: "n \<le> 2 ^ 63" using assms by (simp add: n_def)
  have "length (nat_digits 10 n) - 1 < 19"
  proof (rule ccontr)
    assume g: "\<not> length (nat_digits 10 n) - 1 < 19"
    then have "(10 :: nat) ^ 19 \<le> 10 ^ (length (nat_digits 10 n) - 1)" by (intro power_increasing) simp_all
    moreover have "n \<noteq> 0" using g by (cases "n = 0") (simp_all add: nat_digits.simps [of 10 0])
    ultimately have "(10 :: nat) ^ 19 \<le> n" using length_digits(2) [of 10 n] by linarith
    then show False using n by simp
  qed
  then have "length (nat_digits 10 n) \<le> 19" by simp
  then show ?thesis by (simp add: int_text_def n_def [symmetric])
qed

section \<open>Running\<close>

definition calc_ok :: "calc_state \<Rightarrow> bool" where
  "calc_ok c \<longleftrightarrow> length (CalcStack c) = HO_CALC_STACK_CAPACITY \<and> StackDepth c \<le> HO_CALC_STACK_CAPACITY"

text \<open>The console takes every buffer within the limit of the system call; the program writes none of more than 64 bytes.\<close>

definition writes_all :: "writer \<Rightarrow> bool" where
  "writes_all sw \<longleftrightarrow> (\<forall>s. length s \<le> EX_USER_SYSCALL_WRITE_MAX_LENGTH \<longrightarrow> sw s = int (length s))"

lemma writes_short: "writes_all sw \<Longrightarrow> length s \<le> 256 \<Longrightarrow> sw s = int (length s)"
  by (simp add: writes_all_def EX_USER_SYSCALL_WRITE_MAX_LENGTH_def)

lemma HoCalcAppendInt64_text:
  fixes v :: u64
  assumes "length b + length (int_text (sint v)) \<le> cap"
  shows "HoCalcAppendInt64 cap v b = Done (b @ int_text (sint v))"
proof (cases "sint v < 0")
  case True
  have "word_of_int (- (sint v + 1)) + 1 = - v" by simp
  moreover have "length (calc_digits (- v)) = length (rev (calc_digits (- v)))" by simp
  ultimately show ?thesis using True assms unfolding HoCalcAppendInt64_def calc_digits_rev Let_def
    by (simp add: int_text_def sint_magnitude(2) calc_digits_rev del: length_rev)
next
  case False
  moreover have "length (calc_digits v) = length (rev (calc_digits v))" by simp
  ultimately show ?thesis using assms by (simp add: HoCalcAppendInt64_def Let_def int_text_def sint_magnitude(1) calc_digits_rev del: length_rev)
qed

definition result_line :: "u64 \<Rightarrow> string" where
  "result_line v = gCalcResultPrefix @ int_text (sint v) @ [CHR 0x0A]"

lemma HoCalcWriteResult_text:
  assumes "writes_all sw"
  shows "HoCalcWriteResult sw v out = Done (out @ result_line v)"
proof -
  have l: "length (int_text (sint v)) \<le> 20" using length_int_text [of "sint v"] sint_less [of v] sint_ge [of v] by simp
  then have "HoCalcAppendInt64 64 v gCalcResultPrefix = Done (gCalcResultPrefix @ int_text (sint v))"
    by (intro HoCalcAppendInt64_text) (simp add: gCalcResultPrefix_def)
  then show ?thesis using assms l by (simp add: HoCalcWriteResult_def HoCalcAppendLiteral_def HoCalcMustWrite_def writes_short result_line_def gCalcResultPrefix_def)
qed

lemma calc_error_text:
  assumes "writes_all sw" "length message \<le> 20"
  shows "calc_error sw message c = Done (False, c\<lparr>CalcOut := CalcOut c @ gCalcErrorPrefix @ message @ [CHR 0x0A]\<rparr>)"
  using assms by (simp add: calc_error_def HoCalcWriteError_def HoCalcAppendLiteral_def HoCalcMustWrite_def writes_short gCalcErrorPrefix_def)

lemmas calc_messages = gCalcErrorInvalidToken_def gCalcErrorStackUnderflow_def gCalcErrorStackOverflow_def gCalcErrorDivideByZero_def

lemma HoCalcApplyOperator_safe:
  assumes "calc_ok c" "writes_all sw"
  shows "HoCalcApplyOperator sw k c = Fault \<longleftrightarrow> k = CHR ''/'' \<and> 2 \<le> StackDepth c \<and>
      sint (CalcStack c ! (StackDepth c - 2)) = - (2 ^ 63) \<and> sint (CalcStack c ! (StackDepth c - 1)) = -1"
    and "HoCalcApplyOperator sw k c \<noteq> Fault \<Longrightarrow> \<exists>b c'. HoCalcApplyOperator sw k c = Done (b, c') \<and> calc_ok c'"
  using assms by (auto simp: HoCalcApplyOperator_def Let_def calc_error_text calc_messages HoCalcWriteResult_text signed_quotient_def calc_ok_def split: if_splits)


section \<open>Postfix expressions\<close>

datatype calc_expr = Num u64 | Op char calc_expr calc_expr

fun apply_op :: "char \<Rightarrow> u64 \<Rightarrow> u64 \<Rightarrow> u64 option" where
  "apply_op k x y =
    (if k = CHR ''+'' then Some (x + y) else if k = CHR ''-'' then Some (x - y) else if k = CHR ''*'' then Some (x * y)
     else if k = CHR ''/'' \<and> y \<noteq> 0 \<and> \<not> (sint x = - (2 ^ 63) \<and> sint y = -1) then Some (word_of_int (sint x sdiv sint y)) else None)"

fun calc_eval :: "calc_expr \<Rightarrow> u64 option" where
  "calc_eval (Num v) = Some v"
| "calc_eval (Op k l r) = (case calc_eval l of None \<Rightarrow> None | Some x \<Rightarrow> case calc_eval r of None \<Rightarrow> None | Some y \<Rightarrow> apply_op k x y)"

fun postfix_lines :: "calc_expr \<Rightarrow> string list" where
  "postfix_lines (Num v) = [int_text (sint v)]"
| "postfix_lines (Op k l r) = postfix_lines l @ postfix_lines r @ [[k]]"

fun stack_need :: "calc_expr \<Rightarrow> nat" where
  "stack_need (Num v) = 1"
| "stack_need (Op k l r) = max (stack_need l) (1 + stack_need r)"

definition run_line :: "writer \<Rightarrow> string \<Rightarrow> calc_state \<Rightarrow> calc_state outcome" where
  "run_line sw line c = bind_outcome (calc_line sw line c) (\<lambda>r. case r of CalcContinue c \<Rightarrow> Done c | _ \<Rightarrow> Fault)"

definition pushed :: "u64 \<Rightarrow> calc_state \<Rightarrow> calc_state \<Rightarrow> bool" where
  "pushed v c c' \<longleftrightarrow> calc_ok c' \<and> StackDepth c' = StackDepth c + 1 \<and> take (StackDepth c') (CalcStack c') = take (StackDepth c) (CalcStack c) @ [v]"

lemma text_not_command:
  fixes v :: u64
  shows "int_text (sint v) \<noteq> []" "\<not> (length (int_text (sint v)) = 1 \<and> int_text (sint v) ! 0 \<in> {CHR ''q'', CHR ''+'', CHR ''-'', CHR ''*'', CHR ''/''})"
    "\<not> HoCalcLineEquals (int_text (sint v)) gCalcFaultDivideCommand" "\<not> HoCalcLineEquals (int_text (sint v)) gCalcFaultPageCommand"
    "HoCalcParseInt64 (int_text (sint v)) = Some v"
proof -
  let ?t = "int_text (sint v)"
  have n: "calc_number ?t = Some (sint v)" by (rule calc_number_text)
  have "- (2 ^ 63) \<le> sint v" "sint v < 2 ^ 63" using sint_less [of v] sint_ge [of v] by simp_all
  then have "map_option sint (HoCalcParseInt64 ?t) = Some (sint v)" using HoCalcParseInt64_exact [of ?t] n by simp
  then obtain w where w: "HoCalcParseInt64 ?t = Some w" "sint w = sint v" by auto
  have "w = word_of_int (sint w)" by simp
  also have "\<dots> = v" unfolding w(2) by simp
  finally show "HoCalcParseInt64 ?t = Some v" using w(1) by simp
  show "?t \<noteq> []" using n by (auto simp: calc_number_def)
  show "\<not> (length ?t = 1 \<and> ?t ! 0 \<in> {CHR ''q'', CHR ''+'', CHR ''-'', CHR ''*'', CHR ''/''})"
    using n by (cases ?t) (auto simp: calc_number_def HoCalcIsDigit_def split: if_splits)
  have h: "?t \<noteq> CHR ''f'' # s" for s using n by (auto simp: calc_number_def HoCalcIsDigit_def split: if_splits)
  show "\<not> HoCalcLineEquals ?t gCalcFaultDivideCommand" "\<not> HoCalcLineEquals ?t gCalcFaultPageCommand"
    using h by (auto simp: HoCalcLineEquals_def gCalcFaultDivideCommand_def gCalcFaultPageCommand_def list_all_length) (cases ?t; force simp: list_all_iff)+
qed

lemma run_number:
  assumes "calc_ok c" "writes_all sw" "StackDepth c < HO_CALC_STACK_CAPACITY"
  shows "\<exists>c'. run_line sw (int_text (sint v)) c = Done c' \<and> pushed v c c'"
  using assms text_not_command [of v]
  by (auto simp: run_line_def calc_line_def Let_def HoCalcWriteResult_text pushed_def calc_ok_def take_Suc_conv_app_nth)

lemma run_operator:
  assumes ok: "calc_ok c" and w: "writes_all sw" and two: "take (StackDepth c) (CalcStack c) = xs @ [x, y]" and v: "apply_op k x y = Some v"
  shows "\<exists>c'. run_line sw [k] c = Done c' \<and> calc_ok c' \<and> StackDepth c' = length xs + 1 \<and> take (StackDepth c') (CalcStack c') = xs @ [v]"
proof -
  have d: "StackDepth c = length xs + 2" using two ok by (metis calc_ok_def length_append length_Cons list.size(3) length_take min_absorb2 add_2_eq_Suc' One_nat_def Suc_1 add_Suc_right add_0_right)
  have ge: "length xs + 2 \<le> length (CalcStack c)" using ok d by (simp add: calc_ok_def)
  have nth: "CalcStack c ! i = (xs @ [x, y]) ! i" if "i < StackDepth c" for i using two that by (metis nth_take)
  have xy: "CalcStack c ! length xs = x" "CalcStack c ! (length xs + 1) = y" using nth [of "length xs"] nth [of "length xs + 1"] d by (simp_all add: nth_append)
  have tk: "take (length xs + 1) ((CalcStack c)[length xs := v]) = xs @ [v]"
  proof -
    have "take (length xs) (CalcStack c) = xs" using two d by (metis append_eq_conv_conj take_add take_take min.absorb1 le_add1 nth_append_length append_assoc)
    then show ?thesis using ge by (simp add: take_Suc_conv_app_nth)
  qed
  have k: "k \<in> {CHR ''+'', CHR ''-'', CHR ''*'', CHR ''/''}" using v by (auto split: if_splits)
  have "\<not> HoCalcLineEquals [k] gCalcFaultDivideCommand" "\<not> HoCalcLineEquals [k] gCalcFaultPageCommand" "k \<noteq> CHR ''q''"
    using k by (auto simp: HoCalcLineEquals_def gCalcFaultDivideCommand_def gCalcFaultPageCommand_def)
  then show ?thesis using k v ok w xy tk d
    by (auto simp: run_line_def calc_line_def HoCalcApplyOperator_def Let_def HoCalcWriteResult_text signed_quotient_def calc_ok_def split: if_splits)
qed

text \<open>One round of the main loop: the prompt, then a line.\<close>

definition prompted_line :: "writer \<Rightarrow> string \<Rightarrow> calc_state \<Rightarrow> calc_state outcome" where
  "prompted_line sw line c = bind_outcome (calc_literal sw gCalcPrompt c) (run_line sw line)"

lemma prompt_literal: "writes_all sw \<Longrightarrow> calc_literal sw gCalcPrompt c = Done (c\<lparr>CalcOut := CalcOut c @ gCalcPrompt\<rparr>)"
  by (simp add: calc_literal_def HoCalcMustWrite_def writes_short gCalcPrompt_def)

lemma prompt_effect:
  assumes "writes_all sw"
  shows "prompted_line sw line c = run_line sw line (c\<lparr>CalcOut := CalcOut c @ gCalcPrompt\<rparr>)"
  using assms by (simp add: prompted_line_def prompt_literal)

lemma out_irrelevant [simp]: "calc_ok (c\<lparr>CalcOut := out\<rparr>) = calc_ok c" "pushed v (c\<lparr>CalcOut := out\<rparr>) c' = pushed v c c'"
  by (simp_all add: calc_ok_def pushed_def)

lemma run_all_append: "run_all f (xs @ ys) c = bind_outcome (run_all f xs c) (run_all f ys)"
proof (induction xs arbitrary: c)
  case (Cons x xs)
  then show ?case by (cases "f x c") simp_all
qed simp

lemma run_postfix:
  assumes "calc_ok c" "writes_all sw" "calc_eval e = Some v" "StackDepth c + stack_need e \<le> HO_CALC_STACK_CAPACITY"
  shows "\<exists>c'. run_all (prompted_line sw) (postfix_lines e) c = Done c' \<and> pushed v c c'"
  using assms
proof (induction e arbitrary: c v)
  case (Num x)
  then show ?case using run_number [of "c\<lparr>CalcOut := CalcOut c @ gCalcPrompt\<rparr>" sw x] by (auto simp: prompt_effect)
next
  case (Op k l r)
  obtain x y where xy: "calc_eval l = Some x" "calc_eval r = Some y" "apply_op k x y = Some v" using Op.prems(3) by (auto split: option.splits)
  have need: "StackDepth c + stack_need l \<le> HO_CALC_STACK_CAPACITY" "StackDepth c + 1 + stack_need r \<le> HO_CALC_STACK_CAPACITY" using Op.prems(4) by simp_all
  obtain c1 where c1: "run_all (prompted_line sw) (postfix_lines l) c = Done c1" "pushed x c c1" using Op.IH(1) [OF Op.prems(1,2) xy(1) need(1)] by blast
  obtain c2 where c2: "run_all (prompted_line sw) (postfix_lines r) c1 = Done c2" "pushed y c1 c2"
    using Op.IH(2) [of c1 y] Op.prems(2) need(2) xy(2) c1(2) by (auto simp: pushed_def)
  have "take (StackDepth c2) (CalcStack c2) = take (StackDepth c) (CalcStack c) @ [x, y]" "calc_ok c2"
    using c1(2) c2(2) by (auto simp: pushed_def)
  then have "\<exists>c'. prompted_line sw [k] c2 = Done c' \<and> calc_ok c' \<and> StackDepth c' = length (take (StackDepth c) (CalcStack c)) + 1 \<and>
      take (StackDepth c') (CalcStack c') = take (StackDepth c) (CalcStack c) @ [v]"
    unfolding prompt_effect [OF Op.prems(2)] by (intro run_operator [OF _ Op.prems(2) _ xy(3)]) simp_all
  then obtain c' where c': "prompted_line sw [k] c2 = Done c'" "calc_ok c'" "StackDepth c' = length (take (StackDepth c) (CalcStack c)) + 1"
    "take (StackDepth c') (CalcStack c') = take (StackDepth c) (CalcStack c) @ [v]" by blast
  have "length (take (StackDepth c) (CalcStack c)) = StackDepth c" using Op.prems(1) by (simp add: calc_ok_def)
  then have "pushed v c c'" using c' by (simp add: pushed_def)
  moreover have "run_all (prompted_line sw) (postfix_lines (Op k l r)) c = Done c'" using c1(1) c2(1) c'(1) by (simp add: run_all_append)
  ultimately show ?case by blast
qed

lemma calc_ok_start: "calc_ok calc_start"
  by (simp add: calc_ok_def calc_start_def)

text \<open>The main loop runs the lines one after the other and then waits for input.\<close>

lemma calc_main_lines:
  assumes w: "writes_all sw" and "run_all (prompted_line sw) ls c = Done c'"
  shows "calc_main sw (map ReadLine ls) c = Done (CalcContinue (c'\<lparr>CalcOut := CalcOut c' @ gCalcPrompt\<rparr>))"
  using assms(2)
proof (induction ls arbitrary: c)
  case Nil
  then show ?case using w by (subst calc_main.simps) (simp add: prompt_literal)
next
  case (Cons l ls)
  let ?c = "c\<lparr>CalcOut := CalcOut c @ gCalcPrompt\<rparr>"
  obtain c1 where c1: "run_line sw l ?c = Done c1" "run_all (prompted_line sw) ls c1 = Done c'"
    using Cons.prems prompt_effect [OF w, of l c] by (auto simp: bind_outcome_Done_iff)
  have "calc_line sw l ?c = Done (CalcContinue c1)" using c1(1) by (cases "calc_line sw l ?c") (auto simp: run_line_def split: calc_next.splits)
  then show ?case using w Cons.IH [OF c1(2)] by (subst calc_main.simps) (simp add: prompt_literal)
qed

text \<open>
  The lines that kill the program: the two commands that do so on purpose, and a division of the
  least number by minus one.
\<close>

definition overflowing :: "calc_state \<Rightarrow> bool" where
  "overflowing c \<longleftrightarrow> 2 \<le> StackDepth c \<and> sint (CalcStack c ! (StackDepth c - 2)) = - (2 ^ 63) \<and> sint (CalcStack c ! (StackDepth c - 1)) = -1"

lemma line_equals: "HoCalcLineEquals line literal \<longleftrightarrow> line = literal"
  unfolding HoCalcLineEquals_def list_all_iff list_eq_iff_nth_eq by auto

lemma calc_line_faults:
  assumes "line = gCalcFaultDivideCommand \<or> line = gCalcFaultPageCommand"
  shows "calc_line sw line c = Fault"
proof -
  have "line \<noteq> []" "length line \<noteq> 1" using assms by (auto simp: gCalcFaultDivideCommand_def gCalcFaultPageCommand_def)
  moreover have "bind_outcome (calc_literal sw t c) (\<lambda>_. Fault) = (Fault :: calc_next outcome)" for t
    by (simp add: calc_literal_def HoCalcMustWrite_def)
  ultimately show ?thesis using assms unfolding calc_line_def line_equals by auto
qed

lemma calc_line_operator:
  assumes ok: "calc_ok c" and w: "writes_all sw" and k: "k \<in> {CHR ''+'', CHR ''-'', CHR ''*'', CHR ''/''}"
  shows "if k = CHR ''/'' \<and> overflowing c then calc_line sw [k] c = Fault
    else \<exists>c'. calc_line sw [k] c = Done (CalcContinue c') \<and> calc_ok c'"
proof -
  note op = HoCalcApplyOperator_safe [OF ok w, of k]
  have ne: "[k] \<noteq> gCalcFaultDivideCommand" "[k] \<noteq> gCalcFaultPageCommand" by (simp_all add: gCalcFaultDivideCommand_def gCalcFaultPageCommand_def)
  have "k \<noteq> CHR ''q''" using k by auto
  then have eq: "calc_line sw [k] c = bind_outcome (HoCalcApplyOperator sw k c) (\<lambda>(_, c). Done (CalcContinue c))"
    using k ne unfolding calc_line_def line_equals by simp
  show ?thesis
  proof (cases "HoCalcApplyOperator sw k c = Fault")
    case True
    then show ?thesis using op(1) eq by (simp add: overflowing_def)
  next
    case False
    then have "\<not> (k = CHR ''/'' \<and> overflowing c)" using op(1) by (simp add: overflowing_def)
    then show ?thesis using op(2) [OF False] eq by auto
  qed
qed

lemma calc_line_other:
  assumes ok: "calc_ok c" and w: "writes_all sw"
    and "line \<noteq> gCalcFaultDivideCommand" "line \<noteq> gCalcFaultPageCommand" "\<not> (length line = 1 \<and> line ! 0 \<in> {CHR ''+'', CHR ''-'', CHR ''*'', CHR ''/''})"
  shows "\<exists>r. calc_line sw line c = Done r \<and> (\<forall>c'. r = CalcContinue c' \<longrightarrow> calc_ok c')"
  unfolding calc_line_def line_equals using assms
  by (auto simp: calc_error_text calc_messages HoCalcWriteResult_text calc_ok_def Let_def split: option.split)

lemma calc_line_safe:
  assumes ok: "calc_ok c" and w: "writes_all sw"
  shows "if line = gCalcFaultDivideCommand \<or> line = gCalcFaultPageCommand \<or> line = ''/'' \<and> overflowing c then calc_line sw line c = Fault
    else \<exists>r. calc_line sw line c = Done r \<and> (\<forall>c'. r = CalcContinue c' \<longrightarrow> calc_ok c')"
proof (cases "line = gCalcFaultDivideCommand \<or> line = gCalcFaultPageCommand")
  case True
  then show ?thesis unfolding if_P [OF disjI1 [OF True, unfolded disj_assoc]] by (rule calc_line_faults)
next
  case plain: False
  show ?thesis
  proof (cases "length line = 1 \<and> line ! 0 \<in> {CHR ''+'', CHR ''-'', CHR ''*'', CHR ''/''}")
    case True
    then obtain k where k: "line = [k]" "k \<in> {CHR ''+'', CHR ''-'', CHR ''*'', CHR ''/''}" by (cases line) auto
    have "line = gCalcFaultDivideCommand \<or> line = gCalcFaultPageCommand \<or> line = ''/'' \<and> overflowing c \<longleftrightarrow> k = CHR ''/'' \<and> overflowing c"
      using plain k(1) by simp
    then show ?thesis using calc_line_operator [OF ok w k(2)] unfolding k(1) by (auto split: if_splits)
  next
    case False
    then have "line \<noteq> ''/''" by auto
    then show ?thesis using plain calc_line_other [OF ok w _ _ False] by simp
  qed
qed

end
