(* ===== verification/Samples.thy ===== *)
theory Samples
  imports SchedMachine InputProofs ExHandleProofs PmmDevice
begin

text \<open>
  Sample states, on which the properties are instantiated: a small scheduler with a thread in each state,
  waiters on an event, a semaphore and a mutex, and a terminated thread that waits for its joiner.
\<close>

section \<open>A scheduler\<close>

definition sample_clock :: clock_device where
  "sample_clock = \<lparr>DeviceInitialized = True, PerCpuInitialized = True, InterruptCount = 0, SinkInitialized = True,
     TicksPerSec = 1000000000, InitialCountRegister = 0\<rparr>"

definition sample_thread :: "u32 \<Rightarrow> KTHREAD_STATE \<Rightarrow> u32 \<Rightarrow> KWAIT_BLOCK \<Rightarrow> KTHREAD" where
  "sample_thread n st mutexes wb = \<lparr>KThreadId = n, State = st, StackBase = 0x10000, StackSize = KE_THREAD_STACK_SIZE,
     StackGuardBase = 0xF000, StackOwnedByKva = True, Priority = KTHREAD_DEFAULT_PRIORITY, Quantum = 0,
     OwnedMutexCount = mutexes, IrqlState = KeInitializeIrqlState, WaitBlock = wb,
     TerminationMode = KTHREAD_TERMINATION_MODE_JOINABLE,
     TerminationClaimState = KTHREAD_TERMINATION_CLAIM_STATE_UNCLAIMED, ThreadFlags = 0\<rparr>"

definition sample_event :: "int \<Rightarrow> kthread_ref list \<Rightarrow> KDISPATCHER" where
  "sample_event signal ws = \<lparr>Signature = KDISPATCHER_SIGNATURE, DispatcherType = DISPATCHER_TYPE_EVENT,
     SignalState = signal, WaitListHead = ws, Limit = 0, OwnerThread = None\<rparr>"

definition waiting_for :: "u64 \<Rightarrow> u64 \<Rightarrow> KWAIT_BLOCK" where
  "waiting_for d deadline = init_wait_block\<lparr>Dispatcher := Some (DispatcherAt d), DeadlineNs := deadline\<rparr>"

text \<open>
  Thread 1 is the idle thread; thread 2 owns the mutex 300, for which thread 5 waits; thread 3 waits for the
  event 100 until 50 ns; thread 8 waits for the semaphore 200; thread 6 has terminated; thread 7 is new. The
  argument is the running thread, 2 or 4, and the other of the two is ready.
\<close>

definition sample_sched :: "kthread_ref \<Rightarrow> sched_state" where
  "sample_sched cur = \<lparr>gReadyQueues = (\<lambda>k. if k = 1 then [if cur = 2 then 4 else 2] else []), gTimeoutQueue = [3],
     gTerminatedList = [], gCurrentThread = cur, gIdleThread = 1, gSchedulerEnabled = True,
     gQuantumDeadlineNs = 100, gNextProgrammedDeadlineNs = 50, gNextThreadId = 9,
     KThreads = [1 \<mapsto> sample_thread 1 KTHREAD_STATE_RUNNING 0 init_wait_block,
       2 \<mapsto> sample_thread 2 (if cur = 2 then KTHREAD_STATE_RUNNING else KTHREAD_STATE_READY) 1 init_wait_block,
       3 \<mapsto> sample_thread 3 KTHREAD_STATE_BLOCKED 0 (waiting_for 100 50),
       4 \<mapsto> sample_thread 4 (if cur = 2 then KTHREAD_STATE_READY else KTHREAD_STATE_RUNNING) 0 init_wait_block,
       5 \<mapsto> sample_thread 5 KTHREAD_STATE_BLOCKED 0 (waiting_for 300 0),
       6 \<mapsto> sample_thread 6 KTHREAD_STATE_TERMINATED 0 init_wait_block,
       7 \<mapsto> sample_thread 7 KTHREAD_STATE_NEW 0 init_wait_block,
       8 \<mapsto> sample_thread 8 KTHREAD_STATE_BLOCKED 0 (waiting_for 200 0)],
     Dispatchers = [DispatcherAt 100 \<mapsto> sample_event 0 [3],
       DispatcherAt 200 \<mapsto> (sample_event 0 [8])\<lparr>DispatcherType := DISPATCHER_TYPE_SEMAPHORE, Limit := 2\<rparr>,
       DispatcherAt 300 \<mapsto> (sample_event 0 [5])\<lparr>DispatcherType := DISPATCHER_TYPE_MUTEX, OwnerThread := Some 2\<rparr>,
       DispatcherAt 400 \<mapsto> sample_event 1 [],
       TerminationCompletion 2 \<mapsto> sample_event 0 [],
       TerminationCompletion 3 \<mapsto> sample_event 0 [],
       TerminationCompletion 4 \<mapsto> sample_event 0 [],
       TerminationCompletion 5 \<mapsto> sample_event 0 [],
       TerminationCompletion 8 \<mapsto> sample_event 0 [],
       TerminationCompletion 6 \<mapsto> sample_event 1 [],
       TerminationCompletion 7 \<mapsto> sample_event 0 []],
     gStats = zero_stats, gClock = sample_clock, Cr3 = 0x1000, TssRsp0 = 0,
     Hooks = \<lparr>OwnsThreadHook = None, ResolveRootHook = Some (\<lambda>_. Inr 0x1000), FinalizeThreadHook = None\<rparr>\<rparr>"

lemmas sample_defs = sample_sched_def sample_thread_def sample_event_def waiting_for_def init_wait_block_def

lemma sample_lookup:
  "Dispatchers (sample_sched cur) (DispatcherAt 100) = Some (sample_event 0 [3])"
  "Dispatchers (sample_sched cur) (DispatcherAt 200) =
     Some ((sample_event 0 [8])\<lparr>DispatcherType := DISPATCHER_TYPE_SEMAPHORE, Limit := 2\<rparr>)"
  "Dispatchers (sample_sched cur) (DispatcherAt 300) =
     Some ((sample_event 0 [5])\<lparr>DispatcherType := DISPATCHER_TYPE_MUTEX, OwnerThread := Some 2\<rparr>)"
  "Dispatchers (sample_sched cur) (DispatcherAt 400) = Some (sample_event 1 [])"
  "gCurrentThread (sample_sched cur) = cur" "gTimeoutQueue (sample_sched cur) = [3]"
  by (simp_all add: sample_sched_def)

lemma sample_clock_ok: "clock_ok sample_clock"
  by (simp add: clock_ok_def sample_clock_def)

lemma sample_dispatch_ready: "dispatch_ready (sample_sched cur)"
  by (simp add: dispatch_ready_def sample_sched_def sample_clock_ok is_aligned_4KB_iff)

lemma sample_objects_ok: "objects_ok (sample_sched cur)"
  by (auto simp: objects_ok_def object_ok_def sample_sched_def sample_event_def split: if_splits)

lemma sample_owned: "owned (sample_sched cur) t = (if t = 2 then {DispatcherAt 300} else {})"
  by (auto simp: owned_def sample_sched_def sample_event_def split: if_splits)

lemma sample_mutex_ok: "mutex_ok (sample_sched cur)"
proof -
  have "unat (OwnedMutexCount th) = card (owned (sample_sched cur) t)" if "KThreads (sample_sched cur) t = Some th" for t th
    unfolding sample_owned using that by (auto simp: sample_sched_def sample_thread_def split: if_splits)
  moreover have "KThreads (sample_sched cur) 2 \<noteq> None" by (simp add: sample_sched_def)
  moreover have "finite (dom (Dispatchers (sample_sched cur)))" by (simp add: sample_sched_def)
  ultimately show ?thesis by (auto simp: mutex_ok_def sample_owned split: if_splits)
qed

lemma sample_core: "sched_core (sample_sched cur)" if "cur = 2 \<or> cur = 4"
  unfolding sched_core_def
proof (rule core_okI, goal_cases)
  case (1 k) then show ?case by (simp add: sample_sched_def)
next
  case (2 k t) then show ?case using that by (auto simp: sample_sched_def split: if_splits)
next
  case (3 k t) then show ?case using that
    by (auto simp: sample_sched_def sample_thread_def KTHREAD_DEFAULT_PRIORITY_def split: if_splits)
next
  case 4 then show ?case by (simp add: sample_sched_def)
next
  case 5 then show ?case by (simp add: sample_sched_def)
next
  case (6 t) then show ?case by (auto simp: sample_sched_def sample_thread_def waiting_for_def init_wait_block_def)
next
  case (7 d ws) then show ?case by (auto simp: sample_sched_def sample_event_def split: if_splits)
next
  case (8 d ws t) then show ?case
    by (auto simp: sample_sched_def sample_event_def sample_thread_def waiting_for_def init_wait_block_def split: if_splits)
next
  case (9 t x) then show ?case using that
    by (auto simp: tview_ok_def sample_sched_def sample_event_def sample_thread_def waiting_for_def init_wait_block_def
        KTHREAD_PRIORITY_COUNT_def KTHREAD_DEFAULT_PRIORITY_def split: if_splits)
next
  case 10 then show ?case by (simp add: sample_sched_def)
next
  case 11 then show ?case using that by (auto simp: sample_sched_def)
qed

lemma sample_sched_inv: "sched_inv (sample_sched cur)" if "cur = 2 \<or> cur = 4"
  using that sample_core [OF that] sample_dispatch_ready sample_objects_ok sample_mutex_ok
  by (auto simp: sched_inv_def sample_sched_def sample_thread_def)

lemma sample_blocking_allowed: "blocking_allowed (sample_sched cur)" if "cur = 2 \<or> cur = 4"
  using that by (auto simp: blocking_allowed_def sample_sched_def sample_thread_def KeInitializeIrqlState_def)

lemma sample_life_ok: "life_ok (sample_sched 2)"
proof (rule life_okI, goal_cases)
  case (1 t) then show ?case by (auto simp: sample_sched_def split: if_splits)
next
  case (2 t th) then show ?case by (auto simp: sample_sched_def sample_thread_def sample_event_def split: if_splits)
next
  case (3 t th) then show ?case by (auto simp: sample_sched_def sample_thread_def split: if_splits)
next
  case (4 t th) then show ?case by (auto simp: sample_sched_def sample_thread_def split: if_splits)
next
  case 5 then show ?case by (simp add: sample_sched_def)
next
  case (6 t) then show ?case by (auto simp: sample_sched_def sample_thread_def split: if_splits)
next
  case (7 t ev) then show ?case by (auto simp: sample_sched_def sample_event_def split: if_splits)
qed

lemma sample_machine_inv: "machine_inv (sample_sched 2, Map.empty)"
  using sample_sched_inv [of 2] sample_life_ok by (simp add: joins_ok_def)

lemma sample_sched_finalizable: "finalizable (\<lambda>_. EC_SUCCESS) (sample_sched 2)"
  by (simp add: finalizable_def KiIsUserRuntimeOwnedThread_def sample_sched_def)

text \<open>Thread 2 joins thread 6, which has terminated: the join frees it.\<close>

lemma sample_join: "run_call (\<lambda>_. EC_SUCCESS) (CallJoin 6 0 10 11) (sample_sched 2, Map.empty) = Done (free_kthread 6 (sample_sched 2), Map.empty)"
proof -
  have "KThreads (sample_sched 2) 6 = Some (sample_thread 6 KTHREAD_STATE_TERMINATED 0 init_wait_block)" by (simp add: sample_sched_def)
  then have "joinable (sample_sched 2) 6 (sample_thread 6 KTHREAD_STATE_TERMINATED 0 init_wait_block)" "finished (sample_sched 2) 6"
    using life_finished [OF sample_life_ok, of 6] by (simp_all add: joinable_def sample_thread_def) (simp_all add: sample_sched_def)
  then show ?thesis
    using join_finished(1) [OF sample_sched_inv sample_blocking_allowed _ _ sample_sched_finalizable, of 6 _ 0 10 11] by simp
qed

text \<open>A thread that was detached and has terminated, waiting for the reaper.\<close>

definition sample_reap :: sched_state where
  "sample_reap = (sample_sched 2)\<lparr>gTerminatedList := [6],
     KThreads := (KThreads (sample_sched 2))(6 \<mapsto> (sample_thread 6 KTHREAD_STATE_TERMINATED 0 init_wait_block)
       \<lparr>TerminationMode := KTHREAD_TERMINATION_MODE_DETACHED\<rparr>)\<rparr>"

lemma sample_reap_list: "gTerminatedList sample_reap = [6]"
  by (simp add: sample_reap_def)

lemma sample_reap_inv: "sched_inv sample_reap"
proof (rule sched_inv_same_view)
  show "sched_inv (sample_sched 2)" by (rule sample_sched_inv) simp
  have t6: "KThreads (sample_sched 2) 6 = Some (sample_thread 6 KTHREAD_STATE_TERMINATED 0 init_wait_block)" by (simp add: sample_sched_def)
  show "view sample_reap = view (sample_sched 2)"
    by (rule view_eqI) (auto simp: sample_reap_def t6 tview_of_def)
  show "dispatch_ready sample_reap" using sample_dispatch_ready [of 2] by (simp add: dispatch_ready_def sample_reap_def)
  show "objects_ok sample_reap" using sample_objects_ok [of 2] by (simp add: objects_ok_def sample_reap_def)
  have "owned sample_reap t = owned (sample_sched 2) t" for t by (simp add: owned_def sample_reap_def)
  then have own: "owned sample_reap t = (if t = 2 then {DispatcherAt 300} else {})" for t by (simp add: sample_owned)
  have "unat (OwnedMutexCount th) = card (owned sample_reap t)" if "KThreads sample_reap t = Some th" for t th
    unfolding own using that sample_mutex_ok [of 2] by (auto simp: mutex_ok_def sample_owned sample_reap_def sample_thread_def split: if_splits)
  moreover have "KThreads sample_reap 2 \<noteq> None" "finite (dom (Dispatchers sample_reap))" by (simp_all add: sample_reap_def sample_sched_def)
  ultimately show "mutex_ok sample_reap" by (auto simp: mutex_ok_def own split: if_splits)
qed

lemma sample_reap_ok: "reap_ok sample_reap"
  by (simp add: reap_ok_def finished_def sample_reap_def sample_sched_def sample_thread_def sample_event_def)

lemma sample_reap_finalizable: "finalizable (\<lambda>_. EC_SUCCESS) sample_reap"
  by (simp add: finalizable_def KiIsUserRuntimeOwnedThread_def sample_reap_def sample_sched_def)

section \<open>A handle table\<close>

text \<open>
  One process with a thread: slot 0 of its table, of generation 1, holds the thread, and nothing is published.
\<close>

definition sample_header :: "EX_OBJECT_TYPE \<Rightarrow> destroy_routine \<Rightarrow> u32 \<Rightarrow> EX_OBJECT_HEADER" where
  "sample_header ty d n = \<lparr>ObjType = ty, ReferenceCount = n, ObjFlags = 0, DestroyRoutine = Some d\<rparr>"

definition sample_slot :: EX_HANDLE_SLOT where
  "sample_slot = \<lparr>SlotObject = Some (ThreadHeader 5), Rights = EX_HANDLE_RIGHT_QUERY OR EX_HANDLE_RIGHT_CLOSE, Generation = 1\<rparr>"

definition sample_table :: "EX_HANDLE_SLOT list" where
  "sample_table = sample_slot # replicate 31 zero_slot"

definition sample_process :: EX_PROCESS where
  "sample_process = \<lparr>ProcHeader = sample_header EX_OBJECT_TYPE_PROCESS DestroyProcess 2, SelfHandle = 0, StdoutHandle = 0,
     WaitHandle = 0, ProcessId = 1, ParentProcessId = 0, MainThreadId = 2, ProcState = EX_PROCESS_STATE_READY,
     ExitStatus = 0, TerminationReason = EX_PROCESS_TERMINATION_REASON_NONE, KillRequested = False,
     CompletionRetained = False, CompletionSignaled = False, Foreground = False, RestoreForegroundOwnerThreadId = 0,
     ProgramId = 0, CompletionEvent = 0,
     StdoutService = \<lparr>ServiceHeader = sample_header EX_OBJECT_TYPE_CONSOLE DestroyStdoutService 1, Owner = Some 1\<rparr>,
     HandleTable = sample_table\<rparr>"

definition sample_ex_thread :: EX_THREAD where
  "sample_ex_thread = \<lparr>ThreadHdr = sample_header EX_OBJECT_TYPE_THREAD DestroyThread 2, KernelThread = Some 0x7000,
     ThreadProcess = Some 1, ThreadSelfHandle = 0, ThreadId = 2, ThreadCompletionSignaled = False, ThreadCompletionEvent = 0\<rparr>"

definition sample_ex :: ex_state where
  "sample_ex = \<lparr>Processes = [1 \<mapsto> sample_process], Threads = [5 \<mapsto> sample_ex_thread],
     gExRuntimeProcessTable = replicate 8 \<lparr>ProcActive = False, EntryProcess = None\<rparr>,
     gExRuntimeThreadTable = replicate 8 \<lparr>ThreadActive = False, EntryThread = None\<rparr>\<rparr>"

lemma sample_tables: "tables sample_ex p = (if p = 1 then Some sample_table else None)"
  by (simp add: tables_def sample_ex_def sample_process_def)

lemma sample_owners: "owners sample_ex t = (if t = 5 then Some (Some 1) else None)"
  by (simp add: owners_def sample_ex_def sample_ex_thread_def)

lemma sample_table_nth: "i < 32 \<Longrightarrow> sample_table ! i = (if i = 0 then sample_slot else zero_slot)"
  by (simp add: sample_table_def nth_Cons')

lemma sample_slots: "slots_of (tables sample_ex) r = (if r = ThreadHeader 5 then {(1, 0)} else {})"
proof -
  have "length sample_table = 32" by (simp add: sample_table_def)
  then show ?thesis
    by (auto simp: slots_of_def sample_tables sample_table_nth sample_slot_def zero_slot_def split: if_splits)
qed

lemma sample_threads: "threads_of (owners sample_ex) p = (if p = 1 then {5} else {})"
  by (auto simp: threads_of_def sample_owners split: if_splits)

lemma sample_get_header:
  "get_header sample_ex r = (if r = ProcessHeader 1 then Some (sample_header EX_OBJECT_TYPE_PROCESS DestroyProcess 2)
     else if r = ThreadHeader 5 then Some (sample_header EX_OBJECT_TYPE_THREAD DestroyThread 2)
     else if r = StdoutHeader 1 then Some (sample_header EX_OBJECT_TYPE_CONSOLE DestroyStdoutService 1) else None)"
  by (cases r) (auto simp: get_header.simps sample_ex_def sample_process_def sample_ex_thread_def)

lemma sample_ex_inv: "ex_inv sample_ex"
proof -
  have fin: "finite (dom (tables sample_ex))" "finite (dom (owners sample_ex))"
    by (auto simp: sample_tables sample_owners dom_def)
  have slots: "slot_ok sample_ex (sample_table ! i)" if "i < 32" for i
    using that by (auto simp: slot_ok_def sample_table_nth sample_slot_def zero_slot_def valid_generation_def
        EX_HANDLE_GENERATION_MASK_def sample_get_header)
  have "header_ok sample_ex r h" if "get_header sample_ex r = Some h" for r h
    using that by (auto simp: sample_get_header header_ok_def owed_def sample_slots sample_threads base_refs.simps
        sample_header_def split: if_splits)
  moreover have "length sample_table = 32" by (simp add: sample_table_def)
  moreover have "Owner (StdoutService pr) = Some p" if "Processes sample_ex p = Some pr" for p pr
    using that by (auto simp: sample_ex_def sample_process_def split: if_splits)
  ultimately show ?thesis using fin slots
    by (auto simp: ex_inv_def sample_tables sample_owners split: if_splits)
qed

lemma sample_retainable: "retainable sample_ex (ProcessHeader 1)" "retainable sample_ex (ThreadHeader 5)"
  by (simp_all add: retainable_def sample_get_header sample_header_def)

lemma sample_closable: "closable sample_ex sample_slot False"
  by (simp add: closable_def KiValidateCloseHandleSlot_def sample_slot_def ExRuntimeIsPublishedObject_def
      sample_get_header sample_header_def EX_HANDLE_RIGHT_QUERY_def EX_HANDLE_RIGHT_CLOSE_def
      EX_HANDLE_RIGHT_PROCESS_SELF_def EX_HANDLE_RIGHT_THREAD_SELF_def EX_HANDLE_RIGHT_NONE_def Let_def)

text \<open>The same process, whose only handle lacks the right to be closed.\<close>

definition sample_ex_open :: ex_state where
  "sample_ex_open = set_slot 1 0 (sample_slot\<lparr>Rights := EX_HANDLE_RIGHT_QUERY\<rparr>) sample_ex"

lemma sample_open_table: "tables sample_ex_open 1 = Some ((sample_slot\<lparr>Rights := EX_HANDLE_RIGHT_QUERY\<rparr>) # replicate 31 zero_slot)"
  by (simp add: tables_def sample_ex_open_def set_slot_def set_process_def sample_ex_def sample_process_def sample_table_def)

lemma sample_open_inv: "ex_inv sample_ex_open"
  unfolding sample_ex_open_def
proof (rule set_slot_inv [OF sample_ex_inv])
  define sl where "sl = sample_slot\<lparr>Rights := EX_HANDLE_RIGHT_QUERY\<rparr>"
  show t: "tables sample_ex 1 = Some sample_table" by (simp add: sample_tables)
  show "slot_ok sample_ex (sample_slot\<lparr>Rights := EX_HANDLE_RIGHT_QUERY\<rparr>)"
    by (simp add: slot_ok_def sample_slot_def valid_generation_def sample_get_header)
  have len: "length sample_table = 32" by (simp add: sample_table_def)
  have "slots_of (tables (set_slot 1 0 sl sample_ex)) x = slots_of (tables sample_ex) x" for x
    using set_slot_views(1) [OF t, of 0 sl] len
    by (auto simp: slots_of_def sample_tables nth_list_update sl_def sample_table_nth sample_slot_def split: if_splits)
  then have "owed (set_slot 1 0 sl sample_ex) x = owed sample_ex x" for x
    by (simp add: owed_def set_slot_base [OF t])
  then show "owed (set_slot 1 0 (sample_slot\<lparr>Rights := EX_HANDLE_RIGHT_QUERY\<rparr>) sample_ex) x \<le> unat (ReferenceCount h)"
    if "get_header sample_ex x = Some h" for x h
    using ex_invD(6) [OF sample_ex_inv that] by (simp add: header_ok_def sl_def)
qed simp

lemma sample_open_retainable: "retainable sample_ex_open (ProcessHeader 1)"
  by (simp add: retainable_def sample_ex_open_def set_slot_def set_process_def sample_ex_def sample_process_def
      sample_header_def get_header.simps)

lemma sample_open_not_closable:
  "\<exists>sl \<in> set ((sample_slot\<lparr>Rights := EX_HANDLE_RIGHT_QUERY\<rparr>) # replicate 31 zero_slot). SlotObject sl \<noteq> None \<and> \<not> closable sample_ex_open sl False"
  by (simp add: closable_def KiValidateCloseHandleSlot_def sample_slot_def EX_HANDLE_RIGHT_QUERY_def EX_HANDLE_RIGHT_CLOSE_def)

section \<open>A frame allocator\<close>

text \<open>Four frames from 1 MiB on, the last of them allocated.\<close>

definition sample_bitmap :: KE_PMM_BITMAP_CONTEXT where
  "sample_bitmap = \<lparr>Bitmap = (\<lambda>_. 0x40), ManagedBasePhys = 0x100000, TotalManagedPages = 4, FreePages = 3,
     AllocatedPages = 1, ReservedPages = 0\<rparr>"

definition sample_pmm :: pmm_globals where
  "sample_pmm = \<lparr>gPmmDevice = \<lparr>Sink = gBitmapSink, SinkContext = sample_bitmap, PmmInitialized = True\<rparr>\<rparr>"

lemma sample_pg: "k < 4 \<Longrightarrow> pg sample_bitmap k = (if k = 3 then PMM_PAGE_ALLOCATED else PMM_PAGE_FREE)"
proof -
  assume "k < 4"
  then consider "k = 0" | "k = 1" | "k = 2" | "k = 3" by linarith
  then show ?thesis
    by cases (simp_all add: pg_def BitmapGetState_def sample_bitmap_def page_state_of_bits_def Let_def)
qed

lemma sample_pmm_ready: "pmm_ready sample_pmm"
proof -
  have n: "npages sample_bitmap = 4" by (simp add: npages_def sample_bitmap_def)
  have c: "count_below 4 (pg sample_bitmap) x = count_below 4 (\<lambda>k. if k = 3 then PMM_PAGE_ALLOCATED else PMM_PAGE_FREE) x" for x
    by (rule count_below_cong) (simp add: sample_pg)
  have e: "[0..<4] = [0, 1, 2, 3]" by (simp add: upt_rec)
  have "pg sample_bitmap k \<noteq> PMM_PAGE_BITS3" if "k < 4" for k using sample_pg [OF that] by simp
  moreover have "count_below 4 (pg sample_bitmap) PMM_PAGE_FREE = 3" "count_below 4 (pg sample_bitmap) PMM_PAGE_ALLOCATED = 1"
    "count_below 4 (pg sample_bitmap) PMM_PAGE_RESERVED = 0"
    unfolding c by (simp_all add: count_below_def e)
  ultimately have "pmm_inv sample_bitmap" unfolding pmm_inv_def n by (simp add: sample_bitmap_def)
  then show ?thesis by (simp add: pmm_ready_def sample_pmm_def)
qed

section \<open>A processor\<close>

definition sample_cpu :: irql_cpu where
  "sample_cpu = \<lparr>currentIrqlState = KeInitializeIrqlState, interruptFlag = True, gCriticalSectionDepth = 0\<rparr>"

lemma sample_cpu_ok: "cpu_ok sample_cpu" "irql_ok (currentIrqlState sample_cpu)" "cs_room sample_cpu = 0xFFFFFFFF"
  by (simp_all add: cpu_ok_def irql_ok_def sample_cpu_def KeInitializeIrqlState_def cs_room_def irql_room_def section_room_def)

text \<open>An initialised keyboard device whose event is 100.\<close>

definition sample_input :: KE_INPUT_DEVICE where
  "sample_input = \<lparr>HasSink = True, LineReadyEvent = DispatcherAt 100, CurrentLine = zero_line, CompletedLine = zero_line,
     CurrentLineLength = 0, CompletedLineLength = 0, ForegroundOwnerThreadId = 0, CompletedReadCount = 0, LineReady = False,
     ShiftDown = False, InputInitialized = True, Vector = KE_INPUT_IRQ_VECTOR, Echo = []\<rparr>"

lemma sample_input_inv: "input_inv sample_input (sample_sched 2)"
  using sample_sched_inv [of 2] by (simp add: input_inv_def lines_ok_def event_tells_def sample_input_def sample_event_def sample_sched_def)

end
