(* ===== verification/Spec2Isabelle.thy ===== *)
theory Spec2Isabelle
  imports HoPrelude LinkedList PmmDevice MemSamples Irql ExHandleProofs SchedMachine InputProofs CalcProofs Samples
begin

text \<open>
  \<^bold>\<open>HimuOS: the kernel core.\<close>

  HimuOS is a small single-processor x86-64 kernel. Its core, under \<^verbatim>\<open>src/src/kernel\<close>, has two
  layers. The \<^emph>\<open>kernel layer\<close> (\<^verbatim>\<open>ke\<close>) manages physical frames, page tables, kernel virtual memory,
  interrupt levels, the one-shot timer, threads and the objects threads wait for. The \<^emph>\<open>executive layer\<close> (\<^verbatim>\<open>ex\<close>) gives processes
  reference-counted objects and per-process handle tables. They meet where a thread ends: the
  scheduler's reaper calls the hook of the executive, which drops the references of the thread.

  \<^bold>\<open>How the code is modelled.\<close> A C function is a HOL function from its arguments and the state it
  reads to an \<open>outcome\<close> (theory \<open>HoPrelude\<close>): \<open>Done\<close> with its results and the new state, \<open>Halt e\<close> for
  a failed \<^verbatim>\<open>HO_KASSERT\<close> or an \<^verbatim>\<open>HO_KPANIC\<close>, \<open>Diverge\<close> for a loop that does not end, \<open>Fault\<close>
  for an access to a freed object or a hardware exception. Every such case is a branch, so a
  theorem with conclusion \<open>f s = Done s'\<close> says that the function returns, asserts nothing false
  and touches only live objects. Integers keep their width as words; pointers are numbers into
  a store of records, \<open>None\<close> where the object is not allocated; an out parameter is the right side
  of a sum or a component of the result tuple. A time reading is an argument. Log output is left
  out. A region between entering and leaving a critical section is one step, which theory \<open>Irql\<close>
  justifies: within it the interrupt flag is off.

  \<^bold>\<open>Theories, in the order of the code.\<close>
  \<^item> \<open>HoPrelude\<close>: words, status codes (\<^verbatim>\<open>_hobase.h\<close>), outcomes, alignment macros, counting lemmas,
    and the locale \<open>safe_machine\<close> of state machines whose legal calls never fail.
  \<^item> \<open>LinkedList\<close> (\<^verbatim>\<open>lib/common/linked_list.c\<close>, the queue walk of \<^verbatim>\<open>timer.c\<close>): intrusive lists in an
    explicit heap. Each operation implements the operation on HOL lists, and leaves other lists
    alone. That is why the scheduler model keeps its queues as lists.
  \<^item> \<open>PmmBitmap\<close>, \<open>PmmDevice\<close> (\<^verbatim>\<open>ke/pmm\<close>): the frame allocator, equal to a first-fit specification,
    with the counting invariant; the locale of page allocators (no frame handed out twice, double
    free refused) is interpreted on the device.
  \<^item> \<open>AddressSpace\<close> (\<^verbatim>\<open>ke/mm/address_space.c\<close>): page tables as words of physical memory, the walk,
    mapping, unmapping, protecting, imported regions, private roots. \<open>PageTables\<close>: the mapping a
    tree of tables denotes, which the query returns. \<open>PageEdits\<close>: each edit changes the mapping of
    one page or, with its rollback, nothing. \<open>PrivateRoots\<close>: sorting of the imported regions and
    the roots of processes.
  \<^item> \<open>Kva\<close> (\<^verbatim>\<open>ke/mm/kva.c\<close>): arenas, range records, fixmap slots, heap pages. \<open>KvaInv\<close>: the
    invariant between records, page states, page tables and frames. \<open>KvaRelease\<close>, \<open>KvaMap\<close>,
    \<open>KvaHeap\<close>, \<open>KvaFixmap\<close>: the effect of each operation. \<open>KvaSteps\<close>: sequences of calls, stale
    handles and tokens. \<open>KvaQuery\<close>: address classification and initialisation. \<open>KvaBlocks\<close>: the
    locale \<open>page_source\<close> through which other components get pages, interpreted on the heap pages.
    \<open>KvaLive\<close>: when allocation succeeds.
  \<^item> \<open>Pool\<close>, \<open>PoolProofs\<close> (\<^verbatim>\<open>ke/mm/pool.c\<close>): slots on pages of a \<open>page_source\<close>, and the machine of
    interleaved callers, an interpretation of \<open>safe_machine\<close>.
  \<^item> \<open>Allocator\<close> (\<^verbatim>\<open>ke/mm/allocator.c\<close>): the kernel heap. \<open>AllocatorInv\<close>: the layout of small pages and
    the invariant between headers, free lists, large records, heap pages and statistics.
    \<open>AllocatorPages\<close>, \<open>AllocatorAlloc\<close>, \<open>AllocatorFree\<close>: the effect of each operation on the live
    blocks; the locale \<open>block_heap\<close> is the contract for clients, interpreted on \<open>kmalloc\<close> and
    \<open>kfree\<close>. \<open>AllocatorDiagnose\<close>: what the diagnosis of an address reports.
  \<^item> \<open>Irql\<close> (\<^verbatim>\<open>ke/irql.c\<close>, \<^verbatim>\<open>ke/critical_section.c\<close>): levels, guards, interrupt context; the
    locale of bracketed scopes is interpreted on guards, critical sections and interrupt entry.
  \<^item> \<open>ClockEvent\<close> (\<^verbatim>\<open>ke/time\<close>): arming the timer, the 128-bit multiply-divide.
  \<^item> \<open>ExObject\<close>, \<open>ExHandle\<close>, \<open>ExHandleProofs\<close> (\<^verbatim>\<open>ex/object.c\<close>, \<^verbatim>\<open>ex/handle.c\<close>): reference counts
    and handle tables; the invariant \<open>ex_inv\<close> says that every count covers the slots, threads and
    services that refer to the object, so a release never frees a referenced object.
  \<^item> \<open>Scheduler\<close> (\<^verbatim>\<open>ke/thread\<close>): the state of the scheduler and every operation of \<^verbatim>\<open>scheduler.c\<close>,
    \<^verbatim>\<open>wait.c\<close>, \<^verbatim>\<open>timer.c\<close>, \<^verbatim>\<open>sync.c\<close> and the records of \<^verbatim>\<open>kthread.c\<close>.
  \<^item> \<open>SchedSpec\<close>: the abstract scheduler (queues, wait lists, deadlines, the current thread) and its
    invariant. \<open>SchedRefine\<close>: the view of the concrete state and the refinement of blocking, waking
    and dispatching. \<open>SchedSync\<close>: events, semaphores, mutexes, waits. \<open>SchedThreads\<close>: sleeping,
    yielding, the timer tick, exit, join and the reaper. \<open>SchedMachine\<close>: all of them as one
    machine, interpreting \<open>safe_machine\<close>.
  \<^item> \<open>Input\<close>, \<open>InputProofs\<close> (\<^verbatim>\<open>ke/input/input.c\<close>): the keyboard line editor and its foreground thread. It
    refines an abstract editor; its event is signalled exactly while a line is ready.
  \<^item> \<open>LibC\<close>, \<open>LibCProofs\<close> (\<^verbatim>\<open>src/src/libc\<close>): memory blocks, strings and number formatting over a
    byte-addressed memory.
  \<^item> \<open>Calc\<close>, \<open>CalcProofs\<close> (\<^verbatim>\<open>user/calc/main.c\<close>): a user program, the stack calculator, against the
    evaluation of expressions.
  \<^item> \<open>Samples\<close>, \<open>MemSamples\<close>: concrete states used to show that hypotheses can hold.

  \<^bold>\<open>What is shown.\<close> The properties below are numbered C1, C2, and so on. Loops are either
  structurally recursive or \<^theory_text>\<open>partial_function\<close>s with a theorem that they return; no fuel is used.

  \<^bold>\<open>Not modelled.\<close> Register switching (machine code), calibration of the timer (hardware ports),
  the boot loader, device drivers and consoles (input/output), system information queries, the
  boot-time self tests and the demos, which call the modelled operations and log. Process
  creation and system calls are the next parts of the plan.
\<close>



text \<open>C2. KiSchedule dispatches the oldest thread of the highest non-empty priority: that thread leaves its ready queue, becomes the running current thread, the other queues and every other thread keep their state.\<close>

theorem KiSchedule_highest_priority:
  assumes "sched_core s" "dispatch_ready s"
    and "k < KTHREAD_PRIORITY_COUNT" "gReadyQueues s k = t # q"
    and "\<forall>j. k < j \<and> j < KTHREAD_PRIORITY_COUNT \<longrightarrow> gReadyQueues s j = []"
  shows "\<exists>s'. KiSchedule now s = Done s' \<and> gCurrentThread s' = t \<and> gReadyQueues s' = (gReadyQueues s)(k := q) \<and>
    gTimeoutQueue s' = gTimeoutQueue s \<and> map_option State (KThreads s' t) = Some KTHREAD_STATE_RUNNING \<and>
    (\<forall>u. u \<noteq> t \<longrightarrow> map_option State (KThreads s' u) = map_option State (KThreads s u))"
  by (rule KiSchedule_picks [OF assms])

theorem KiSchedule_highest_priority_witness:
  "\<exists>s'. KiSchedule 10 (sample_sched 2) = Done s' \<and> gCurrentThread s' = 4 \<and>
    gReadyQueues s' = (gReadyQueues (sample_sched 2))(1 := []) \<and> gTimeoutQueue s' = gTimeoutQueue (sample_sched 2) \<and>
    map_option State (KThreads s' 4) = Some KTHREAD_STATE_RUNNING \<and>
    (\<forall>u. u \<noteq> 4 \<longrightarrow> map_option State (KThreads s' u) = map_option State (KThreads (sample_sched 2) u))"
  by (rule KiSchedule_highest_priority)
    (simp_all add: sample_core sample_dispatch_ready KTHREAD_PRIORITY_COUNT_def, simp_all add: sample_sched_def)

text \<open>C3. KeSetEvent on an event completes the wait of every waiter, in the order in which they wait, leaves the event signalled with an empty wait list, dispatches only if the processor was idle, and keeps the scheduler invariant.\<close>

theorem KeSetEvent_wakes_all:
  assumes "sched_inv s" "Dispatchers s d = Some ev" "DispatcherType ev = DISPATCHER_TYPE_EVENT"
  shows "\<exists>s'. KeSetEvent d now s = Done s' \<and> sched_inv s' \<and> woken d (WaitListHead ev) s s' \<and>
    Dispatchers s' d = Some (ev\<lparr>SignalState := 1, WaitListHead := []\<rparr>)"
  by (rule KeSetEvent_spec [OF assms])

theorem KeSetEvent_wakes_all_witness:
  "\<exists>s'. KeSetEvent (DispatcherAt 100) 10 (sample_sched 2) = Done s' \<and> sched_inv s' \<and>
    woken (DispatcherAt 100) [3] (sample_sched 2) s' \<and> Dispatchers s' (DispatcherAt 100) = Some (sample_event 1 [])"
  using KeSetEvent_wakes_all [of "sample_sched 2" "DispatcherAt 100" "sample_event 0 [3]" 10] sample_sched_inv [of 2]
  by (simp add: sample_lookup) (simp add: sample_event_def)

text \<open>C4. KeReleaseSemaphore with a count whose surplus over the waiters fits the limit wakes the oldest waiters, as many as there are permits, adds only the permits no waiter took to the count, and keeps the invariant.\<close>

theorem KeReleaseSemaphore_wakes_oldest:
  assumes "sched_inv s" "Dispatchers s d = Some sem" "DispatcherType sem = DISPATCHER_TYPE_SEMAPHORE"
    and "0 < n" "length (WaitListHead sem) < 2 ^ 31"
    and "SignalState sem + max 0 (n - int (length (WaitListHead sem))) \<le> Limit sem"
  shows "\<exists>s'. KeReleaseSemaphore (Some d) n now s = Done (EC_SUCCESS, s') \<and> sched_inv s' \<and>
    woken d (take (nat n) (WaitListHead sem)) s s' \<and>
    Dispatchers s' d = Some (sem\<lparr>SignalState := SignalState sem + max 0 (n - int (length (WaitListHead sem))),
      WaitListHead := drop (nat n) (WaitListHead sem)\<rparr>)"
  by (rule KeReleaseSemaphore_spec [OF assms])

theorem KeReleaseSemaphore_wakes_oldest_witness:
  "\<exists>s' sem'. KeReleaseSemaphore (Some (DispatcherAt 200)) 2 10 (sample_sched 2) = Done (EC_SUCCESS, s') \<and> sched_inv s' \<and>
    woken (DispatcherAt 200) [8] (sample_sched 2) s' \<and> Dispatchers s' (DispatcherAt 200) = Some sem' \<and>
    SignalState sem' = 1 \<and> WaitListHead sem' = []"
  using KeReleaseSemaphore_wakes_oldest [of "sample_sched 2" "DispatcherAt 200"
      "(sample_event 0 [8])\<lparr>DispatcherType := DISPATCHER_TYPE_SEMAPHORE, Limit := 2\<rparr>" 2 10] sample_sched_inv [of 2]
  by (simp add: sample_lookup) (auto simp: sample_event_def)

text \<open>C5. A release that would raise the count over the limit is refused with EC_ILLEGAL_ARGUMENT and changes nothing: no waiter is woken.\<close>

theorem KeReleaseSemaphore_overflow_refused:
  assumes "sched_inv s" "Dispatchers s d = Some sem" "DispatcherType sem = DISPATCHER_TYPE_SEMAPHORE"
    and "0 < n" "length (WaitListHead sem) < 2 ^ 31"
    and "SignalState sem + max 0 (n - int (length (WaitListHead sem))) > Limit sem"
  shows "KeReleaseSemaphore (Some d) n now s = Done (EC_ILLEGAL_ARGUMENT, s)"
  by (rule KeReleaseSemaphore_overflow [OF assms])

theorem KeReleaseSemaphore_overflow_refused_witness:
  "KeReleaseSemaphore (Some (DispatcherAt 200)) 4 10 (sample_sched 2) = Done (EC_ILLEGAL_ARGUMENT, sample_sched 2)"
  by (rule KeReleaseSemaphore_overflow_refused
      [of _ _ "(sample_event 0 [8])\<lparr>DispatcherType := DISPATCHER_TYPE_SEMAPHORE, Limit := 2\<rparr>"])
    (rule sample_sched_inv, simp, simp_all add: sample_lookup, simp_all add: sample_event_def)

text \<open>C6. Releasing a contended mutex hands it directly to its oldest waiter: the waiter owns the mutex before it runs, its wait completes with EC_SUCCESS, the mutex stays unsignalled, and the counts of owned mutexes of both threads keep matching the mutexes they own.\<close>

theorem KeReleaseMutex_hands_off:
  assumes "sched_inv s" "Dispatchers s d = Some m" "DispatcherType m = DISPATCHER_TYPE_MUTEX"
    and "OwnerThread m = Some (gCurrentThread s)" "WaitListHead m = u # ws"
    and "\<And>uh. KThreads s u = Some uh \<Longrightarrow> OwnedMutexCount uh \<noteq> 0xFFFFFFFF"
  shows "\<exists>s'. KeReleaseMutex (Some d) s = Done (EC_SUCCESS, s') \<and> sched_inv s' \<and> view s' = a_wake u (view s) \<and>
    Dispatchers s' d = Some (m\<lparr>OwnerThread := Some u, SignalState := 0, WaitListHead := ws\<rparr>) \<and> wait_resumed u s' = Done EC_SUCCESS"
  by (rule KeReleaseMutex_handoff [OF assms])

theorem KeReleaseMutex_hands_off_witness:
  "\<exists>s' m'. KeReleaseMutex (Some (DispatcherAt 300)) (sample_sched 2) = Done (EC_SUCCESS, s') \<and> sched_inv s' \<and>
    view s' = a_wake 5 (view (sample_sched 2)) \<and> Dispatchers s' (DispatcherAt 300) = Some m' \<and> OwnerThread m' = Some 5 \<and>
    wait_resumed 5 s' = Done EC_SUCCESS"
proof -
  define m where "m = (sample_event 0 [5])\<lparr>DispatcherType := DISPATCHER_TYPE_MUTEX, OwnerThread := Some 2\<rparr>"
  have "Dispatchers (sample_sched 2) (DispatcherAt 300) = Some m" "DispatcherType m = DISPATCHER_TYPE_MUTEX"
    "OwnerThread m = Some (gCurrentThread (sample_sched 2))" "WaitListHead m = [5]"
    by (simp_all add: m_def sample_sched_def sample_event_def)
  moreover have "OwnedMutexCount uh \<noteq> 0xFFFFFFFF" if "KThreads (sample_sched 2) 5 = Some uh" for uh
    using that by (auto simp: sample_sched_def sample_thread_def)
  ultimately show ?thesis
    using KeReleaseMutex_hands_off [of "sample_sched 2" "DispatcherAt 300" m 5 "[]"] sample_sched_inv [of 2] by auto
qed

text \<open>C7. A wait, by a thread that may block, on an object that is not signalled, with a non-zero timeout whose deadline does not wrap to zero, and not on a mutex the caller owns, blocks the caller: it is queued at the tail of the wait list and, for a finite timeout, at its place in the sorted timeout queue, its wait block is armed, and the next thread is dispatched. No other thread record changes; of the dispatched thread only the state and the quantum change; of the caller only the state and the wait block; no object changes but for the wait list of the one waited for.\<close>

theorem KeWait_blocks:
  assumes "sched_inv s" "blocking_allowed s" "Dispatchers s d = Some ob" "SignalState ob = 0"
    and "DispatcherType ob \<noteq> DISPATCHER_TYPE_MUTEX \<or> OwnerThread ob \<noteq> Some (gCurrentThread s)"
    and "timeoutNs \<noteq> 0" "timeoutNs \<noteq> KE_WAIT_INFINITE \<Longrightarrow> now + timeoutNs \<noteq> 0"
  shows "\<exists>s'. KeWaitForSingleObject (Some d) timeoutNs now sw s = Done (Blocked, s') \<and> sched_inv s' \<and>
    view s' = a_dispatch (a_block (Some d) (deadline_arg timeoutNs now) (view s)) \<and> rest s' = rest s \<and>
    blocked_frame d (deadline_arg timeoutNs now) s s'"
  by (rule wait_blocks_exactly [OF assms])

theorem KeWait_blocks_witness:
  "\<exists>s'. KeWaitForSingleObject (Some (DispatcherAt 100)) 30 10 11 (sample_sched 2) = Done (Blocked, s') \<and> sched_inv s' \<and>
    view s' = a_dispatch (a_block (Some (DispatcherAt 100)) (Some 40) (view (sample_sched 2))) \<and> rest s' = rest (sample_sched 2) \<and>
    blocked_frame (DispatcherAt 100) (Some 40) (sample_sched 2) s'"
proof -
  have "Dispatchers (sample_sched 2) (DispatcherAt 100) = Some (sample_event 0 [3])" by (simp add: sample_sched_def)
  moreover have "deadline_arg 30 10 = Some 40" by (simp add: deadline_arg_def KE_WAIT_INFINITE_def)
  ultimately show ?thesis
    using KeWait_blocks [of "sample_sched 2" "DispatcherAt 100" "sample_event 0 [3]" 30 10 11] sample_sched_inv [of 2]
      sample_blocking_allowed [of 2] by (simp add: sample_event_def)
qed

text \<open>C8. The timeout sweep ends and wakes exactly the threads whose deadline has been reached, oldest deadline first, each with completion status EC_TIMEOUT; the other sleepers stay queued in order and their threads are untouched.\<close>

theorem KiWakeTimeouts_wakes_expired:
  assumes "sched_inv s"
  shows "\<exists>s'. KiWakeTimeouts now s = Done s' \<and> sched_inv s' \<and>
    gTimeoutQueue s' = filter (\<lambda>t. now < deadline_of s t) (gTimeoutQueue s) \<and>
    view s' = fold a_wake (filter (\<lambda>t. deadline_of s t \<le> now) (gTimeoutQueue s)) (view s) \<and> rest s' = rest s \<and>
    resumed EC_TIMEOUT (filter (\<lambda>t. deadline_of s t \<le> now) (gTimeoutQueue s)) s s'"
  by (rule KiWakeTimeouts_exact [OF assms])

theorem KiWakeTimeouts_wakes_expired_witness:
  "\<exists>s'. KiWakeTimeouts 60 (sample_sched 2) = Done s' \<and> gTimeoutQueue s' = [] \<and> wait_resumed 3 s' = Done EC_TIMEOUT"
proof -
  have "deadline_of (sample_sched 2) 3 = 50" "gTimeoutQueue (sample_sched 2) = [3]"
    by (simp_all add: deadline_of_def sample_sched_def sample_thread_def waiting_for_def)
  then show ?thesis using KiWakeTimeouts_wakes_expired [of "sample_sched 2" 60] sample_sched_inv [of 2] by (auto simp: resumed_def)
qed

text \<open>C9. A sleep whose absolute deadline wraps to exactly zero hangs the kernel: the wait block is queued with deadline zero, KiCompleteWait never unlinks it, and every later timeout sweep runs for ever.\<close>

theorem KeSleep_wrap_diverges:
  assumes "sched_inv s" "blocking_allowed s" "durationNs \<noteq> 0" "now + durationNs = 0"
  shows "\<exists>s'. KeSleep durationNs now sw s = Done s' \<and> (\<forall>later. KiWakeTimeouts later s' = Diverge)"
  by (rule sleep_wrap_diverges [OF assms])

theorem KeSleep_wrap_diverges_witness:
  "\<exists>s'. KeSleep 0xFFFFFFFFFFFFFFFB 5 6 (sample_sched 2) = Done s' \<and> (\<forall>later. KiWakeTimeouts later s' = Diverge)"
  by (rule KeSleep_wrap_diverges) (simp_all add: sample_sched_inv sample_blocking_allowed)

text \<open>C10. A timer interrupt at or after the programmed deadline, with the scheduler enabled, refines the abstract tick: expired sleepers are woken, an idle processor is dispatched if a thread is ready, a running thread whose quantum is over, that is when the time has reached gQuantumDeadlineNs, goes to the tail of its queue and the next thread runs, and otherwise the current thread goes on.\<close>

theorem KiSchedulerTimerISR_ticks:
  assumes "sched_inv s" "gSchedulerEnabled s" "gNextProgrammedDeadlineNs s = 0 \<or> gNextProgrammedDeadlineNs s \<le> now"
  shows "\<exists>s'. KiSchedulerTimerISR now sw s = Done s' \<and> sched_inv s' \<and>
    view s' = a_tick now (gQuantumDeadlineNs s \<le> now) (view s) \<and> rest s' = rest s"
  by (rule KiSchedulerTimerISR_due [OF assms])

theorem KiSchedulerTimerISR_ticks_witness:
  "(\<exists>s'. KiSchedulerTimerISR 60 61 (sample_sched 2) = Done s' \<and> view s' = a_tick 60 False (view (sample_sched 2))) \<and>
   (\<exists>s'. KiSchedulerTimerISR 100 101 (sample_sched 2) = Done s' \<and> view s' = a_tick 100 True (view (sample_sched 2)))"
proof -
  have s: "gSchedulerEnabled (sample_sched 2)" "gNextProgrammedDeadlineNs (sample_sched 2) = 50" "gQuantumDeadlineNs (sample_sched 2) = 100"
    by (simp_all add: sample_sched_def)
  show ?thesis
    using KiSchedulerTimerISR_ticks [of "sample_sched 2" 60 61] KiSchedulerTimerISR_ticks [of "sample_sched 2" 100 101] sample_sched_inv [of 2] s by auto
qed

text \<open>C11. KeThreadExit terminates the current thread: its completion event is published, every joiner waiting on it is woken, a detached thread is queued once for the reaper, and another thread is dispatched; the invariant holds.\<close>

theorem KeThreadExit_publishes:
  assumes "sched_inv s" "blocking_allowed s" "t = gCurrentThread s" "KThreads s t = Some th" "OwnedMutexCount th = 0"
    and "Dispatchers s (TerminationCompletion t) = Some ev" "DispatcherType ev = DISPATCHER_TYPE_EVENT"
    and "TerminationMode th = KTHREAD_TERMINATION_MODE_DETACHED \<Longrightarrow>
      TerminationClaimState th = KTHREAD_TERMINATION_CLAIM_STATE_UNCLAIMED \<and> t \<notin> set (gTerminatedList s)"
  shows "\<exists>s'. KeThreadExit eventNs switchNs s = Done s' \<and> sched_inv s' \<and> finished s' t \<and>
    view s' = a_dispatch (fold a_wake (WaitListHead ev) (a_exit (view s))) \<and>
    gTerminatedList s' = gTerminatedList s @ (if TerminationMode th = KTHREAD_TERMINATION_MODE_DETACHED then [t] else [])"
  by (rule KeThreadExit_spec [OF assms])

theorem KeThreadExit_publishes_witness:
  "\<exists>s'. KeThreadExit 10 11 (sample_sched 4) = Done s' \<and> sched_inv s' \<and> finished s' 4 \<and> gTerminatedList s' = []"
proof -
  have "KThreads (sample_sched 4) 4 = Some (sample_thread 4 KTHREAD_STATE_RUNNING 0 init_wait_block)"
    "Dispatchers (sample_sched 4) (TerminationCompletion 4) = Some (sample_event 0 [])" "gCurrentThread (sample_sched 4) = 4"
    "gTerminatedList (sample_sched 4) = []"
    by (simp_all add: sample_sched_def)
  then show ?thesis
    using KeThreadExit_publishes [of "sample_sched 4" 4 "sample_thread 4 KTHREAD_STATE_RUNNING 0 init_wait_block" "sample_event 0 []" 10 11]
      sample_sched_inv [of 4] sample_blocking_allowed [of 4] by (auto simp: sample_thread_def sample_event_def)
qed





text \<open>C14. KiInsertTimeoutQueue, which walks and relinks the intrusive timeout queue in memory, ends and implements insertion into a list sorted by deadline, after the entries with an equal deadline.\<close>

theorem timeout_queue_refines:
  assumes "dlist h head xs" "e \<notin> set (head # xs)"
  shows "\<exists>h'. KiInsertTimeoutQueue deadline head e h = Some h' \<and> dlist h' head (timeout_insert deadline e xs)"
  by (rule KiInsertTimeoutQueue_dlist [OF assms])

theorem timeout_queue_refines_witness:
  "\<exists>h'. KiInsertTimeoutQueue (\<lambda>p. if p = 2 then 30 else 20) (1 :: nat) 3 (LinkedListInsertTail 1 2 (LinkedListInit 1 \<lparr>Flink = (\<lambda>_. 0), Blink = (\<lambda>_. 0)\<rparr>)) = Some h' \<and>
    dlist h' 1 [3, 2]"
proof -
  have "dlist (LinkedListInsertTail 1 2 (LinkedListInit (1 :: nat) \<lparr>Flink = (\<lambda>_. 0), Blink = (\<lambda>_. 0)\<rparr>)) 1 ([] @ [2])"
    by (rule dlist_InsertTail [OF dlist_Init]) simp
  then show ?thesis
    using timeout_queue_refines [of _ "1 :: nat" "[2]" 3 "\<lambda>p. if p = 2 then 30 else 20"] by fastforce
qed

text \<open>C15. On a consistent bitmap the page allocator ends. A count of zero or an alignment above one that is not a power of two is an illegal argument. Otherwise it returns the address of the lowest run of the requested length whose frames are all managed and free, whose first frame index is a multiple of the alignment and whose last byte does not exceed the highest address of the request; it marks exactly that run allocated, in the whole bitmap, and moves the run from the free to the allocated counter; when there is no such run it reports EC_NOT_ENOUGH_MEMORY and changes nothing. The contract is stated over page states and natural numbers, without the code of the search. Excluded is the one request whose limit wraps: managed memory from address zero with the highest address 2^64 - 1 (every such request fails).\<close>

theorem BitmapAllocPages_first_fit:
  assumes "pmm_inv ctx" "\<not> limit_wraps ctx cs"
  shows "\<exists>r ctx'. BitmapAllocPages ctx n cs = Done (r, ctx') \<and> pmm_inv ctx' \<and>
    (if n = 0 \<or> bad_alignment cs then r = Inl EC_ILLEGAL_ARGUMENT \<and> ctx' = ctx
     else if \<forall>i. \<not> run_ok ctx cs (unat n) i then r = Inl EC_NOT_ENOUGH_MEMORY \<and> ctx' = ctx
     else \<exists>i. run_ok ctx cs (unat n) i \<and> (\<forall>j<i. \<not> run_ok ctx cs (unat n) j) \<and>
       r = Inr (word_of_nat (unat (ManagedBasePhys ctx) + i * 4096)) \<and> run_taken ctx (unat n) i ctx')"
  by (rule BitmapAllocPages_lowest_run [OF assms])

theorem BitmapAllocPages_first_fit_witness:
  "(\<exists>ctx'. BitmapAllocPages sample_bitmap 2 (Some \<lparr>MaxPhysAddr = 0x102FFF, AlignmentPages = 2\<rparr>) = Done (Inr 0x100000, ctx') \<and>
     run_taken sample_bitmap 2 0 ctx') \<and>
   BitmapAllocPages sample_bitmap 3 (Some \<lparr>MaxPhysAddr = 0x101FFF, AlignmentPages = 0\<rparr>) = Done (Inl EC_NOT_ENOUGH_MEMORY, sample_bitmap)"
proof
  have inv: "pmm_inv sample_bitmap" using sample_pmm_ready by (simp add: pmm_ready_def sample_pmm_def)
  have nw: "\<not> limit_wraps sample_bitmap cs" for cs by (simp add: limit_wraps_def sample_bitmap_def)
  let ?c = "Some \<lparr>MaxPhysAddr = 0x102FFF, AlignmentPages = 2\<rparr>"
  have al: "\<not> bad_alignment ?c" by (auto simp: bad_alignment_def intro!: exI [of _ 1])
  have r: "run_ok sample_bitmap ?c 2 0"
    using sample_pg by (auto simp: run_ok_def) (simp_all add: sample_bitmap_def)
  show "\<exists>ctx'. BitmapAllocPages sample_bitmap 2 ?c = Done (Inr 0x100000, ctx') \<and> run_taken sample_bitmap 2 0 ctx'"
  proof -
    obtain x ctx' i where e: "BitmapAllocPages sample_bitmap 2 ?c = Done (x, ctx')"
      "run_ok sample_bitmap ?c 2 i" "\<forall>j<i. \<not> run_ok sample_bitmap ?c 2 j"
      "x = Inr (word_of_nat (unat (ManagedBasePhys sample_bitmap) + i * 4096))" "run_taken sample_bitmap 2 i ctx'"
      using BitmapAllocPages_first_fit [OF inv nw, of 2 ?c] al r by (auto split: if_splits)
    have "i = 0" using e(3) r by (cases i) auto
    then show ?thesis using e by (simp add: sample_bitmap_def)
  qed
  have "\<not> run_ok sample_bitmap (Some \<lparr>MaxPhysAddr = 0x101FFF, AlignmentPages = 0\<rparr>) 3 i" for i
    by (simp add: run_ok_def sample_bitmap_def)
  then show "BitmapAllocPages sample_bitmap 3 (Some \<lparr>MaxPhysAddr = 0x101FFF, AlignmentPages = 0\<rparr>) = Done (Inl EC_NOT_ENOUGH_MEMORY, sample_bitmap)"
    using BitmapAllocPages_first_fit [OF inv nw, of 3 "Some \<lparr>MaxPhysAddr = 0x101FFF, AlignmentPages = 0\<rparr>"]
    by (auto simp: bad_alignment_def)
qed

text \<open>C16. A frame belongs to one owner at a time: two successful page allocations, one after the other, never hand out the same frame, and freeing a frame a second time is refused and changes nothing.\<close>

theorem pmm_frames_exclusive:
  assumes "pmm_ready s"
  shows "(KePmmAllocPages s n cs = Done (Inr p, s1) \<longrightarrow> KePmmAllocPages s1 m ds = Done (Inr q, s2) \<longrightarrow>
      frame_run p (unat n) \<inter> frame_run q (unat m) = {}) \<and>
    (KePmmFreePages s f 1 = (EC_SUCCESS, t1) \<longrightarrow> (\<exists>e. KePmmFreePages t1 f 1 = (e, t1) \<and> e \<noteq> EC_SUCCESS))"
  using pmm.alloc_disjoint [OF assms] pmm.double_free_refused [OF assms] by blast

theorem pmm_frames_exclusive_witness:
  "(\<exists>p s1 q s2. KePmmAllocPages sample_pmm 1 None = Done (Inr p, s1) \<and> KePmmAllocPages s1 1 None = Done (Inr q, s2) \<and>
    frame_run p (unat (1 :: u64)) \<inter> frame_run q (unat (1 :: u64)) = {}) \<and>
   (\<exists>s1 e. KePmmFreePages sample_pmm 0x103000 1 = (EC_SUCCESS, s1) \<and> KePmmFreePages s1 0x103000 1 = (e, s1) \<and> e \<noteq> EC_SUCCESS)"
proof -
  have "case KePmmAllocPages sample_pmm 1 None of Done (r, s1) \<Rightarrow> \<not> isl r \<and>
      (case KePmmAllocPages s1 1 None of Done (r, s2) \<Rightarrow> \<not> isl r \<and> True | _ \<Rightarrow> False) | _ \<Rightarrow> False"
    by code_simp
  then obtain p s1 where a: "KePmmAllocPages sample_pmm 1 None = Done (Inr p, s1)"
    and c: "case KePmmAllocPages s1 1 None of Done (r, s2) \<Rightarrow> \<not> isl r \<and> True | _ \<Rightarrow> False"
    by (rule Done_InrE)
  from c obtain q s2 where b: "KePmmAllocPages s1 1 None = Done (Inr q, s2)" by (rule Done_InrE)
  have "fst (KePmmFreePages sample_pmm 0x103000 1) = EC_SUCCESS" by code_simp
  then obtain t1 where f: "KePmmFreePages sample_pmm 0x103000 1 = (EC_SUCCESS, t1)" by (metis prod.collapse)
  show ?thesis using pmm_frames_exclusive [OF sample_pmm_ready] a b f by blast
qed

text \<open>C17. The run-time self check of the physical memory manager succeeds exactly when the bitmap holds no unknown page state and the three counters equal the numbers of free, allocated and reserved frames in it.\<close>

theorem BitmapCheckInvariants_exact:
  assumes "unat (ManagedBasePhys ctx) mod 4096 = 0" "unat (ManagedBasePhys ctx) + npages ctx * 4096 \<le> 2 ^ 64"
  shows "BitmapCheckInvariants ctx = EC_SUCCESS \<longleftrightarrow> pmm_inv ctx"
  by (rule BitmapCheckInvariants_iff [OF assms])

theorem BitmapCheckInvariants_exact_witness:
  "BitmapCheckInvariants sample_bitmap = EC_SUCCESS \<longleftrightarrow> pmm_inv sample_bitmap"
  by (rule BitmapCheckInvariants_exact) (simp_all add: sample_bitmap_def npages_def)

text \<open>C18. Entering a critical section n times around a body and leaving in the reverse order runs the body at dispatch level with interrupts disabled, never fails an assertion, and restores the interrupt flag, the level and the depths exactly.\<close>

theorem critical_sections_nest:
  assumes "cpu_ok c" "n \<le> cs_room c" "0 < n"
    and "\<And>c'. cpu_ok c' \<Longrightarrow> dispatch_level c' \<Longrightarrow> cs_room c' + n = cs_room c \<Longrightarrow> body c' = Done c'"
  shows "nested_scopes (KeEnterCriticalSection zero_section) KeLeaveCriticalSection n body c = Done c"
  by (rule csect.nested_restores [OF assms])

theorem critical_sections_nest_witness:
  "nested_scopes (KeEnterCriticalSection zero_section) KeLeaveCriticalSection 3
    (\<lambda>c. if interruptFlag c then Fault else Done c) sample_cpu = Done sample_cpu"
  by (rule critical_sections_nest) (simp_all add: sample_cpu_ok dispatch_level_def)

text \<open>C19. Handles and pairs of a slot index of the table and a non-zero 24-bit generation correspond one to one: every such pair encodes to a handle that decodes to it, and every handle value that decodes at all decodes to an index below EX_MAX_HANDLES_PER_PROCESS and a valid generation of which it is the encoding; so every other value is refused.\<close>

theorem handle_encoding_bijective:
  "(\<forall>i g. i < EX_MAX_HANDLES_PER_PROCESS \<and> valid_generation g \<longrightarrow> KiDecodeHandle (KiEncodeHandle i g) = Some (i, g)) \<and>
   (\<forall>h i g. KiDecodeHandle h = Some (i, g) \<longrightarrow> i < EX_MAX_HANDLES_PER_PROCESS \<and> valid_generation g \<and> h = KiEncodeHandle i g)"
  using KiDecode_KiEncode KiDecode_Some by blast

theorem handle_encoding_bijective_witness:
  "KiDecodeHandle (KiEncodeHandle 31 0xFFFFFF) = Some (31, 0xFFFFFF) \<and> KiDecodeHandle 0x120 = Some (31, 1) \<and> 0x120 = KiEncodeHandle 31 1 \<and>
   KiDecodeHandle 0x129 = None"
proof -
  have d: "KiDecodeHandle 0x120 = Some (31, 1)" "KiDecodeHandle 0x129 = None"
    by (simp_all add: KiDecodeHandle_def handle_const_defs EX_HANDLE_INVALID_def EX_MAX_HANDLES_PER_PROCESS_def Let_def)
  then show ?thesis
    using handle_encoding_bijective by (simp add: EX_MAX_HANDLES_PER_PROCESS_def valid_generation_def)
qed

text \<open>C20. Inserting a live object with some rights into a table with a free slot succeeds, and resolving the returned handle with the object's type and any subset of those rights yields that object.\<close>

theorem handle_insert_resolve:
  assumes "ex_inv s" "tables s p = Some tab" "retainable s r" "rights \<noteq> EX_HANDLE_RIGHT_NONE"
    and "\<exists>sl \<in> set tab. SlotObject sl = None" "rights AND desired = desired"
  shows "\<exists>h s1. ExHandleInsert (Some p) (Some r) rights oh s = Done (EC_SUCCESS, h, s1) \<and> ex_inv s1 \<and> h \<noteq> EX_HANDLE_INVALID \<and>
    (\<exists>s2. ExHandleResolve (Some p) h (ref_type r) desired s1 = Done (Inr r, s2))"
  by (rule insert_then_resolve [OF assms])

theorem handle_insert_resolve_witness:
  "\<exists>h s1. ExHandleInsert (Some 1) (Some (ThreadHeader 5)) EX_HANDLE_RIGHT_WAIT 0 sample_ex = Done (EC_SUCCESS, h, s1) \<and> ex_inv s1 \<and>
    h \<noteq> EX_HANDLE_INVALID \<and> (\<exists>s2. ExHandleResolve (Some 1) h EX_OBJECT_TYPE_THREAD EX_HANDLE_RIGHT_WAIT s1 = Done (Inr (ThreadHeader 5), s2))"
  using handle_insert_resolve [OF sample_ex_inv _ sample_retainable(2), of 1 sample_table EX_HANDLE_RIGHT_WAIT EX_HANDLE_RIGHT_WAIT 0]
  by (simp add: sample_tables sample_table_def zero_slot_def EX_HANDLE_RIGHT_WAIT_def EX_HANDLE_RIGHT_NONE_def)

text \<open>C21. Closing any handle value of a live process always returns, never touches a freed object, and keeps the reference accounting: every object's count still covers the handle slots, threads and services that refer to it, and no count a third party relies on shrinks.\<close>

theorem handle_close_keeps_counts:
  assumes "ex_inv s" "retainable s (ProcessHeader p)"
  shows "\<exists>st h s'. ExHandleClose (Some p) handle s = Done (st, h, s') \<and> ex_inv s' \<and> gaps_kept s s'"
  by (rule ExHandleClose_inv [OF assms])

theorem handle_close_keeps_counts_witness:
  "\<exists>st h s'. ExHandleClose (Some 1) 0x101 sample_ex = Done (st, h, s') \<and> ex_inv s' \<and> gaps_kept sample_ex s'"
  by (rule handle_close_keeps_counts [OF sample_ex_inv sample_retainable(1)])

text \<open>C22. Once a handle has been closed, no later sequence of inserts, resolves, releases and closes makes its value resolve again, as long as fewer than 0xFFFFFE slots are closed in between (then the 24-bit generation would repeat): the resolve fails with EC_INVALID_STATE and changes nothing.\<close>

theorem closed_handle_never_resolves:
  assumes "ex_inv s" "retainable s (ProcessHeader p)" "tables s p = Some tab"
    and "KiDecodeHandle handle = Some (w, g)" "SlotObject (tab ! unat w) = Some r"
    and "Generation (tab ! unat w) = g" "closable s (tab ! unat w) False"
    and "ExHandleClose (Some p) handle s = Done (st, h', s1)"
    and "handle_history s1 n s2" "n < 0xFFFFFE" "tables s2 p \<noteq> None" "ExObjectIsValidType ty"
  shows "ExHandleResolve (Some p) handle ty desired s2 = Done (Inl EC_INVALID_STATE, s2)"
  by (rule closed_handle_stale [OF assms])

theorem closed_handle_never_resolves_witness:
  "\<exists>st h' s1. ExHandleClose (Some 1) (KiEncodeHandle 0 1) sample_ex = Done (st, h', s1) \<and>
    ExHandleResolve (Some 1) (KiEncodeHandle 0 1) EX_OBJECT_TYPE_THREAD 1 s1 = Done (Inl EC_INVALID_STATE, s1)"
proof -
  have d: "KiDecodeHandle (KiEncodeHandle 0 1) = Some (0, 1)"
    by (rule KiDecode_KiEncode) (simp_all add: EX_MAX_HANDLES_PER_PROCESS_def valid_generation_def)
  have slot: "sample_table ! unat (0 :: u32) = sample_slot" by (simp add: sample_table_def)
  have "case ExHandleClose (Some 1) (KiEncodeHandle 0 1) sample_ex of Done (st, h', s1) \<Rightarrow> tables s1 1 \<noteq> None | _ \<Rightarrow> False"
    by code_simp
  then obtain st h' s1 where c: "ExHandleClose (Some 1) (KiEncodeHandle 0 1) sample_ex = Done (st, h', s1)" "tables s1 1 \<noteq> None"
    by (auto split: outcome.splits)
  have "ExHandleResolve (Some 1) (KiEncodeHandle 0 1) EX_OBJECT_TYPE_THREAD 1 s1 = Done (Inl EC_INVALID_STATE, s1)"
    by (rule closed_handle_never_resolves [OF sample_ex_inv sample_retainable(1) _ d _ _ _ c(1) history_start _ c(2),
          of sample_table "ThreadHeader 5"]) (unfold slot, simp_all add: sample_tables sample_closable, simp_all add: sample_slot_def ExObjectIsValidType.simps)
  then show ?thesis using c(1) by blast
qed

text \<open>C23. Closing all handles of a process is all or nothing: if some occupied slot may not be closed, the call fails and changes nothing at all; otherwise it returns with the table empty, the accounting invariant kept and no count a third party relies on reduced.\<close>

theorem close_all_or_nothing:
  assumes "ex_inv s" "retainable s (ProcessHeader p)" "tables s p = Some tab"
  shows "if \<exists>sl \<in> set tab. SlotObject sl \<noteq> None \<and> \<not> closable s sl allow
    then \<exists>e. e \<noteq> EC_SUCCESS \<and> KiHandleCloseAll (Some p) allow s = Done (e, s)
    else \<exists>st s'. KiHandleCloseAll (Some p) allow s = Done (st, s') \<and> ex_inv s' \<and> gaps_kept s s' \<and>
      (\<forall>tab'. tables s' p = Some tab' \<longrightarrow> (\<forall>sl \<in> set tab'. SlotObject sl = None))"
  using KiHandleCloseAll_none [OF assms, of allow] KiHandleCloseAll_all [OF assms, of allow]
  by (cases "\<exists>sl \<in> set tab. SlotObject sl \<noteq> None \<and> \<not> closable s sl allow") (simp_all only: if_True if_False, blast+)

theorem close_all_or_nothing_witness:
  "(\<exists>e. e \<noteq> EC_SUCCESS \<and> KiHandleCloseAll (Some 1) False sample_ex_open = Done (e, sample_ex_open)) \<and>
   (\<exists>st s'. KiHandleCloseAll (Some 1) False sample_ex = Done (st, s') \<and> ex_inv s' \<and>
     (\<forall>tab'. tables s' 1 = Some tab' \<longrightarrow> (\<forall>sl \<in> set tab'. SlotObject sl = None)))"
proof
  show "\<exists>e. e \<noteq> EC_SUCCESS \<and> KiHandleCloseAll (Some 1) False sample_ex_open = Done (e, sample_ex_open)"
    using close_all_or_nothing [OF sample_open_inv sample_open_retainable sample_open_table, of False] sample_open_not_closable by (simp only: if_True)
  have "\<not> (\<exists>sl \<in> set sample_table. SlotObject sl \<noteq> None \<and> \<not> closable sample_ex sl False)"
    by (auto simp: sample_table_def zero_slot_def sample_closable)
  then show "\<exists>st s'. KiHandleCloseAll (Some 1) False sample_ex = Done (st, s') \<and> ex_inv s' \<and>
     (\<forall>tab'. tables s' 1 = Some tab' \<longrightarrow> (\<forall>sl \<in> set tab'. SlotObject sl = None))"
    using close_all_or_nothing [OF sample_ex_inv sample_retainable(1), of sample_table False] sample_tables [of 1] by (simp only: if_False if_True simp_thms) blast
qed

text \<open>C24. Arming the one-shot timer of a calibrated device programs the count that corresponds to the requested delay clamped to what the hardware can represent; the 128-bit multiply-divide never raises a divide error and nothing else of the device changes.\<close>

theorem clock_event_programs_clamped:
  assumes "clock_ok c" "deltaNs \<noteq> 0"
  shows "\<exists>c'. KiArmClockEvent deltaNs c = Done c' \<and> c' = c\<lparr>InitialCountRegister := InitialCountRegister c'\<rparr> \<and>
    unat (InitialCountRegister c') = clamp_delta (unat (TicksPerSec c)) (unat deltaNs) * unat (TicksPerSec c) div 1000000000"
  by (rule KiArmClockEvent_programs [OF assms])

theorem clock_event_programs_clamped_witness:
  "\<exists>c'. KiArmClockEvent 5000 sample_clock = Done c' \<and> unat (InitialCountRegister c') = 5000"
  using clock_event_programs_clamped [OF sample_clock_ok, of 5000] by (auto simp: sample_clock_def clamp_delta_def)

text \<open>C25. Mapping a page in a well-formed page-table tree always returns and keeps the tree well formed. On success exactly the requested page gets the requested leaf, only free frames are consumed and the page is invalidated if its root is active; on any error the new tables and promoted flags are rolled back, so that every page maps as before and every frame has its old state.\<close>

theorem KePtMapPage_all_or_nothing:
  assumes "pt_ok s (RootPageTablePhys sp)" "SpaceInitialized sp" "HO_IS_ALIGNED va PAGE_4KB" "HO_IS_ALIGNED pa PAGE_4KB"
  shows "\<exists>st s'. KePtMapPage (Some sp) va pa attrs s = Done (st, s') \<and> pt_ok s' (RootPageTablePhys sp) \<and>
    (if st = EC_SUCCESS then mapped (RootPageTablePhys sp) va pa attrs s s' else pt_unchanged (RootPageTablePhys sp) s s')"
  using KePtMapPage_effect [OF assms(1,2) refl assms(3,4)] by blast

theorem KePtMapPage_all_or_nothing_witness:
  "\<exists>st s'. KePtMapPage (Some (gKernelAddressSpace sample_kva)) 0xFFFF808000200000 0x107000 PTE_WRITABLE sample_kva = Done (st, s') \<and>
    pt_ok s' (RootPageTablePhys (gKernelAddressSpace sample_kva)) \<and>
    (if st = EC_SUCCESS then mapped (RootPageTablePhys (gKernelAddressSpace sample_kva)) 0xFFFF808000200000 0x107000 PTE_WRITABLE sample_kva s'
     else pt_unchanged (RootPageTablePhys (gKernelAddressSpace sample_kva)) sample_kva s')"
  using sample_kva_inv(1) by (intro KePtMapPage_all_or_nothing) (simp_all add: kva_inv_def maps_ok_def kroot_def is_aligned_4KB_iff)

text \<open>C26. A private root shares every kernel mapping of the imported root and maps nothing in the user half; destroying it while it is not active succeeds and gives back exactly the frame it took.\<close>

theorem private_root_roundtrip:
  assumes "pt_ok s (RootPageTablePhys (gKernelAddressSpace s))" "SpaceInitialized (gKernelAddressSpace s)"
    and "KeCreateProcessAddressSpace s = Done (Inr sp, s1)" "KiReadCr3 s \<noteq> PrivateRootPhys sp"
  shows "(\<forall>va. page_mapping (PhysMem s1) (PrivateRootPhys sp) va =
        (if PML4_INDEX va < 256 then zero_mapping else page_mapping (PhysMem s) (RootPageTablePhys (gKernelAddressSpace s)) va)) \<and>
    (\<exists>s2. KeDestroyProcessAddressSpace (Some sp) s1 = (EC_SUCCESS, Some \<lparr>PrivateRootPhys = 0, PrivateInitialized = False\<rparr>, s2) \<and> frames s2 = frames s)"
  using private_root_view(1) [OF assms(1-3)] create_destroy [OF assms] by blast

theorem private_root_roundtrip_witness:
  "\<exists>sp s1 s2. KeCreateProcessAddressSpace sample_kva = Done (Inr sp, s1) \<and> page_mapping (PhysMem s1) (PrivateRootPhys sp) 0 = zero_mapping \<and>
    KeDestroyProcessAddressSpace (Some sp) s1 = (EC_SUCCESS, Some \<lparr>PrivateRootPhys = 0, PrivateInitialized = False\<rparr>, s2) \<and> frames s2 = frames sample_kva"
proof -
  have inv: "pt_ok sample_kva (RootPageTablePhys (gKernelAddressSpace sample_kva))" "SpaceInitialized (gKernelAddressSpace sample_kva)" "pmm_ready sample_kva"
    using sample_kva_inv(1) by (simp_all add: kva_inv_def maps_ok_def kroot_def pt_ok_def)
  obtain p t where a: "KePmmAllocPages sample_kva 1 None = Done (Inr p, t)" using alloc_one [OF inv(3)] sample_free_frames by force
  obtain sp s1 where c: "KeCreateProcessAddressSpace sample_kva = Done (Inr sp, s1)" "PrivateRootPhys sp = p"
    using a inv(2) by (auto simp: KeCreateProcessAddressSpace_def KeGetKernelAddressSpace_def Let_def)
  have "frames sample_kva p = Some PMM_PAGE_FREE" using KeCreateProcessAddressSpace_effect(2) [OF inv(1,2) c(1)] c(2) by simp
  then have "KiReadCr3 sample_kva \<noteq> PrivateRootPhys sp" by (auto simp: c(2) sample_kva_frames(1) sample_boot_frames sample_kva_cr3 split: if_splits)
  then show ?thesis using private_root_roundtrip [OF inv(1,2) c(1)] c(1) by (auto simp: PML4_INDEX_def)
qed







text \<open>C30. Heap page allocation does not fail without a cause: with a free range record, a run of free heap pages, an unexhausted generation counter and four free frames per page (the page and at most three page tables) it succeeds.\<close>

theorem heap_pages_available:
  assumes "kva_inv s" "n \<noteq> 0" "gKvaRangeGenerationCounter s \<noteq> 0" "idx < KE_KVA_MAX_RANGES" "\<not> live s idx"
    and "b + unat n \<le> kva_pages KE_KVA_ARENA_HEAP" "\<forall>i. b \<le> i \<and> i < b + unat n \<longrightarrow> page_state KE_KVA_ARENA_HEAP i s = KE_KVA_PAGE_STATE_FREE"
    and "4 * unat n \<le> free_frames s" "pml4_ok (PhysMem s) (kroot s)"
  shows "\<exists>base s'. KeHeapAllocPages n s = Done (Inr base, s') \<and> kva_inv s' \<and> heap_block s' base (unat n)"
proof -
  obtain base s' where a: "KeHeapAllocPages n s = Done (Inr base, s')"
    using KeHeapAllocPages_succeeds [OF assms(1-6) _ assms(8,9)] assms(7) by blast
  then show ?thesis using kheap.alloc_block [OF assms(1) a, of base "unat n"] kheap.alloc_total [OF assms(1), of n] by auto
qed

theorem heap_pages_available_witness:
  "\<exists>base s'. KeHeapAllocPages 2 sample_kva = Done (Inr base, s') \<and> kva_inv s' \<and> heap_block s' base 2"
  using heap_pages_available [of sample_kva 2 0 0] sample_kva_inv sample_resources by simp

text \<open>C31. From a freshly initialised pool, any interleaving of the critical sections of allocating, growing, publishing, freeing and destroying callers returns without a failed assertion; the objects held are distinct and do not overlap, none of them is on the free list, the usage counter is exact, and the pool neither loses nor leaks heap pages.\<close>

theorem pool_interleavings_safe:
  assumes "KePoolInit pool objectSize initialCapacity name s = Done (EC_SUCCESS, pool1, s1)" "kva_inv s"
    and "legal_run pool_run pool_legal cs (pool1, [], {}, s1)"
  shows "\<exists>pool2 pend objs s2. run_all pool_run cs (pool1, [], {}, s1) = Done (pool2, pend, objs, s2) \<and>
    (\<forall>x \<in> objs. \<forall>y \<in> objs. x \<noteq> y \<longrightarrow> unat x + unat (SlotSize pool1) \<le> unat y \<or> unat y + unat (SlotSize pool1) \<le> unat x) \<and>
    set (PoolFreeList pool2) \<inter> objs = {} \<and> unat (PoolUsedSlots pool2) = card objs \<and>
    (\<forall>b m. heap_block s2 b m \<longleftrightarrow> heap_block s b m \<or> b \<in> set (PoolPageList pool2) \<union> BaseVirt ` set pend \<and> m = 1)"
proof -
  have "pool_inv (SlotSize pool1) s (pool1, [], {}, s1)"
    using KePoolInit_effect [OF assms(2), of pool objectSize initialCapacity name] assms(1) by (auto simp: held_pages_def)
  then obtain w where w: "run_all pool_run cs (pool1, [], {}, s1) = Done w" "pool_inv (SlotSize pool1) s w" using pool.safe_run assms(3) by blast
  obtain pool2 pend objs s2 where e: "w = (pool2, pend, objs, s2)" by (cases w)
  have ok: "kva_inv s2" "slot_size_ok (SlotSize pool1)" "\<forall>b \<in> set (PoolPageList pool2). heap_block s2 b 1" "objs \<subseteq> all_slots (SlotSize pool1) (PoolPageList pool2)"
    using w(2) by (auto simp: e pool_ok_def pages_ok_def slots_ok_def held_pages_def)
  have "unat x + unat (SlotSize pool1) \<le> unat y \<or> unat y + unat (SlotSize pool1) \<le> unat x" if "x \<in> objs" "y \<in> objs" "x \<noteq> y" for x y
    using all_slots_apart [OF ok(1-3)] ok(4) that by blast
  then show ?thesis using w by (auto simp: e pool_ok_def slots_ok_def no_leak_def held_pages_def)
qed

theorem pool_interleavings_safe_witness:
  "\<exists>pool1 s1 w. KePoolInit sample_pool 64 10 None sample_kva = Done (EC_SUCCESS, pool1, s1) \<and>
    run_all pool_run [PoolTake, PoolGrow, PoolTake, PoolDestroyCall] (pool1, [], {}, s1) = Done w"
proof -
  obtain pool1 s1 where i: "KePoolInit sample_pool 64 10 None sample_kva = Done (EC_SUCCESS, pool1, s1)" using sample_pool_init by blast
  have p: "pool_legal c w" if "c \<in> {PoolTake, PoolGrow, PoolDestroyCall}" for c and w :: "unit pool_state" using that by auto
  have "legal_run pool_run pool_legal cs w" if "set cs \<subseteq> {PoolTake, PoolGrow, PoolDestroyCall}" for cs and w :: "unit pool_state"
    using that by (induction cs arbitrary: w) (auto simp: p split: outcome.split)
  then have l: "legal_run pool_run pool_legal [PoolTake, PoolGrow, PoolTake, PoolDestroyCall] (pool1, [], {}, s1)" by (simp del: legal_run.simps)
  obtain w where w: "run_all pool_run [PoolTake, PoolGrow, PoolTake, PoolDestroyCall] (pool1, [], {}, s1) = Done w"
    using pool_interleavings_safe [OF i sample_kva_inv(1) l] by (auto simp del: run_all.simps)
  show ?thesis by (intro exI conjI, rule i, rule w)
qed

text \<open>C32. kmalloc always returns and keeps the heap invariant (page and slot headers, free lists, large records, the backing pages and the statistics agree). It either fails without effect on the live blocks, or adds one block of exactly the requested size that overlaps no live block.\<close>

theorem kernel_heap_blocks:
  assumes "alloc_inv s0 a s"
  shows "\<exists>r a' s'. kmalloc sz a s = Done (r, a', s') \<and> alloc_inv s0 a' s' \<and>
    (case r of None \<Rightarrow> live_blocks a' = live_blocks a
     | Some x \<Rightarrow> live_blocks a' = insert (x, unat sz) (live_blocks a) \<and>
         (\<forall>(y, m) \<in> live_blocks a. unat x + unat sz \<le> unat y \<or> unat y + m \<le> unat x))"
proof -
  obtain r a' s' where e: "kmalloc sz a s = Done (r, a', s')" "block_added s0 sz False r a a' s'" using kmalloc_effect(1) [OF assms] by blast
  have "unat x + unat sz \<le> unat y \<or> unat y + m \<le> unat x" if "r = Some x" "(y, m) \<in> live_blocks a" for x y m
    using kmem.malloc_apart [of s0 "(a, s)" sz x "(a', s')" y m] assms e(1) that by (simp add: kmalloc_on_def)
  then show ?thesis using e by (auto simp: block_added_def split: option.splits)
qed

theorem kernel_heap_blocks_witness:
  "\<exists>x a' s'. kmalloc 100 sample_alloc sample_kva = Done (Some x, a', s') \<and> live_blocks a' = {(x, 100)} \<and> alloc_inv sample_kva a' s'"
  using kernel_heap_blocks [OF sample_alloc_inv(1), of 100] sample_kmalloc(1) sample_alloc_inv(2) by auto

text \<open>C33. Freeing a block that kmalloc returned never hits an assertion, restores the set of live blocks, and freeing the same pointer a second time changes nothing.\<close>

theorem kmalloc_kfree_roundtrip:
  assumes "alloc_inv s0 a s" "kmalloc sz a s = Done (Some x, a1, s1)"
  shows "\<exists>a2 s2. kfree (Some x) a1 s1 = Done (a2, s2) \<and> alloc_inv s0 a2 s2 \<and> live_blocks a2 = live_blocks a \<and> kfree (Some x) a2 s2 = Done (a2, s2)"
  using kmem.malloc_free [of s0 "(a, s)" sz x "(a1, s1)"] assms by (simp add: kmalloc_on_def kfree_on_def)

theorem kmalloc_kfree_roundtrip_witness:
  "\<exists>x a1 s1 a2 s2. kmalloc 100 sample_alloc sample_kva = Done (Some x, a1, s1) \<and> kfree (Some x) a1 s1 = Done (a2, s2) \<and> live_blocks a2 = {} \<and>
    kfree (Some x) a2 s2 = Done (a2, s2)"
proof -
  obtain x a1 s1 where m: "kmalloc 100 sample_alloc sample_kva = Done (Some x, a1, s1)" using sample_kmalloc(1) by blast
  then show ?thesis using kmalloc_kfree_roundtrip [OF sample_alloc_inv(1) m] sample_alloc_inv(2) by auto
qed

text \<open>C34. Diagnosing any address inside a live heap block, small or large, reports a live allocation with the base, the end and the requested size of that block.\<close>

theorem heap_diagnosis_names_block:
  assumes "alloc_inv s0 a s" "(x, n) \<in> live_blocks a" "unat x \<le> unat v" "unat v < unat x + n"
  shows "\<exists>info. KeAllocatorDiagnoseAddress v a s = (EC_SUCCESS, info) \<and> LiveAllocation info \<and> AllocationBase info = x \<and>
    unat (AllocationEndExclusive info) = unat x + n \<and> unat (InfoRequestedSize info) = n"
  using KeAllocatorDiagnoseAddress_live [of s0 a s x n v] assms by (auto simp: alloc_inv_def names_block_def)

theorem heap_diagnosis_names_block_witness:
  "\<exists>x a' s' info. kmalloc 100 sample_alloc sample_kva = Done (Some x, a', s') \<and> KeAllocatorDiagnoseAddress x a' s' = (EC_SUCCESS, info) \<and>
    AllocationBase info = x \<and> unat (InfoRequestedSize info) = 100"
proof -
  obtain x a' s' where m: "kmalloc 100 sample_alloc sample_kva = Done (Some x, a', s')" using sample_kmalloc(1) by blast
  then have b: "block_added sample_kva 100 False (Some x) sample_alloc a' s'" using kmalloc_effect(1) [OF sample_alloc_inv(1), of 100] by auto
  then have "alloc_inv sample_kva a' s'" "(x, 100) \<in> live_blocks a'" by (simp_all add: block_added_def)
  from heap_diagnosis_names_block [OF this, of x] show ?thesis using m by auto
qed

text \<open>C35. For every printable line of up to 128 characters: when its keys and Enter are typed for a new foreground thread, the handler consumes them all, the foreground thread then reads exactly that line, consuming it counts one read and leaves no line, and every other thread is refused without effect.\<close>

theorem typed_line_is_read:
  assumes "input_inv dev s" "t \<noteq> 0" "list_all printable w" "length w \<le> KE_INPUT_LINE_CAPACITY"
  shows "\<exists>dev1 s1 dev2 s2. KeInputSetForegroundOwnerThreadId t dev s = Done (EC_SUCCESS, dev1, s1) \<and>
    KiKeyboardInterruptHandler True now (map Inr (concat (map keys_for w) @ [0x1C])) dev1 s1 = Done ([], dev2, s2) \<and> input_inv dev2 s2 \<and>
    (\<forall>u s3. input_inv dev2 s3 \<and> runs_as u s3 \<longrightarrow>
      (if u \<noteq> t then
         KeInputCopyCompletedLineForCurrentThread True 128 dev2 s3 = Done (Inl EC_INVALID_STATE) \<and>
         KeInputConsumeCompletedLineForCurrentThread dev2 s3 = Done (EC_INVALID_STATE, dev2, s3)
       else
         KeInputCopyCompletedLineForCurrentThread True 128 dev2 s3 = Done (Inr (w, word_of_nat (length w))) \<and>
         (\<exists>dev4 s4. KeInputConsumeCompletedLineForCurrentThread dev2 s3 = Done (EC_SUCCESS, dev4, s4) \<and> input_inv dev4 s4 \<and>
           CompletedReadCount dev4 = CompletedReadCount dev2 + 1 \<and>
           KeInputCopyCompletedLineForCurrentThread True 128 dev4 s4 = Done (Inl EC_TIMEOUT))))"
proof -
  obtain dev1 s1 where o: "KeInputSetForegroundOwnerThreadId t dev s = Done (EC_SUCCESS, dev1, s1)" "input_inv dev1 s1"
    "editor_of dev1 = \<lparr>EdOwner = t, EdShift = False, EdText = [], EdLine = None\<rparr>" using KeInputSetForeground_fresh [OF assms(1)] by blast
  obtain dev2 s2 where k: "scan_loop now (map Inr (concat (map keys_for w) @ [0x1C])) dev1 s1 = Done ([], dev2, s2)" "input_inv dev2 s2"
    "editor_of dev2 = \<lparr>EdOwner = t, EdShift = False, EdText = [], EdLine = Some w\<rparr>"
    using type_line [OF o(2), of w now] o(3) assms by auto
  have c: "\<not> length w > unat (128 :: u32)" using assms(4) by (simp add: KE_INPUT_LINE_CAPACITY_def)
  have "if u \<noteq> t then
         KeInputCopyCompletedLineForCurrentThread True 128 dev2 s3 = Done (Inl EC_INVALID_STATE) \<and>
         KeInputConsumeCompletedLineForCurrentThread dev2 s3 = Done (EC_INVALID_STATE, dev2, s3)
       else
         KeInputCopyCompletedLineForCurrentThread True 128 dev2 s3 = Done (Inr (w, word_of_nat (length w))) \<and>
         (\<exists>dev4 s4. KeInputConsumeCompletedLineForCurrentThread dev2 s3 = Done (EC_SUCCESS, dev4, s4) \<and> input_inv dev4 s4 \<and>
           CompletedReadCount dev4 = CompletedReadCount dev2 + 1 \<and>
           KeInputCopyCompletedLineForCurrentThread True 128 dev4 s4 = Done (Inl EC_TIMEOUT))"
    if i: "input_inv dev2 s3" and r: "runs_as u s3" for u s3
  proof -
    have l: "InputInitialized dev2" "lines_ok dev2" using i by (simp_all add: input_inv_def)
    note cp = copy_result [OF l r, of 128] and cs = consume_result [OF i r]
    show ?thesis
    proof (cases "u = t")
      case False
      then show ?thesis using cp cs k(3) by simp
    next
      case True
      then obtain dev4 s4 where d: "KeInputConsumeCompletedLineForCurrentThread dev2 s3 = Done (EC_SUCCESS, dev4, s4)" "input_inv dev4 s4"
        "editor_of dev4 = (editor_of dev2)\<lparr>EdLine := None\<rparr>" "CompletedReadCount dev4 = CompletedReadCount dev2 + 1"
        "gCurrentThread s4 = gCurrentThread s3" "KThreads s4 = KThreads s3" using cs k(3) assms(2) by auto
      have "runs_as t s4" "InputInitialized dev4" "lines_ok dev4" using r True d(2,5,6) by (simp_all add: runs_as_def input_inv_def)
      then show ?thesis using True cp c k(3) assms(2) d copy_result [of dev4 t s4 128] by simp
    qed
  qed
  then show ?thesis using o(1) k(1,2) by (simp only: KiKeyboardInterruptHandler_def) fastforce
qed

theorem typed_line_is_read_witness:
  "\<exists>dev1 s1 dev2 s2. KeInputSetForegroundOwnerThreadId 2 sample_input (sample_sched 2) = Done (EC_SUCCESS, dev1, s1) \<and>
    KiKeyboardInterruptHandler True 0 (map Inr (concat (map keys_for ''Hi!'') @ [0x1C])) dev1 s1 = Done ([], dev2, s2) \<and> input_inv dev2 s2"
  using typed_line_is_read [OF sample_input_inv, of 2 "''Hi!''" 0] by (auto simp: printable_def KE_INPUT_LINE_CAPACITY_def)

text \<open>C36. The keyboard interrupt handler, whatever scan codes it reads, always returns and refines the abstract line editor code by code: the buffers keep their bounds, the event is signalled exactly while a line is ready, and codes are left over only when completing a line has dispatched its reader.\<close>

theorem keyboard_refines_editor:
  assumes "input_inv dev s"
  shows "\<exists>n rest dev' s'. KiKeyboardInterruptHandler True now reads dev s = Done (rest, dev', s') \<and> input_inv dev' s' \<and>
    n \<le> length (codes_of reads) \<and> editor_of dev' = fold press (take n (codes_of reads)) (editor_of dev) \<and>
    (if gCurrentThread s' = gCurrentThread s then n = length (codes_of reads) \<and> rest = [] else rest = drop n reads \<and> LineReady dev')"
  using scan_loop_refines [OF assms, of now reads] unfolding KiKeyboardInterruptHandler_def simp_thms if_False by blast

theorem keyboard_refines_editor_witness:
  "\<exists>n rest dev' s'. KiKeyboardInterruptHandler True 0 [Inr 0x1E, Inr 0x0E] sample_input (sample_sched 2) = Done (rest, dev', s') \<and>
    editor_of dev' = fold press (take n [0x1E, 0x0E]) (editor_of sample_input)"
  using keyboard_refines_editor [OF sample_input_inv, of 0 "[Inr 0x1E, Inr 0x0E]"] by auto

text \<open>C37. memmove returns the destination and leaves the old bytes of the source there, however the two blocks overlap, and changes no other byte.\<close>

theorem memmove_any_overlap:
  fixes d s n :: u64
  assumes "unat d + unat n < 2 ^ 64" "unat s + unat n < 2 ^ 64"
  shows "fst (memmove d s n m) = d \<and>
    snd (memmove d s n m) = (\<lambda>a. if unat d \<le> unat a \<and> unat a < unat d + unat n then m (s + (a - d)) else m a)"
  using memmove_effect [OF assms, of m] by (simp add: block_copied_def)

theorem memmove_any_overlap_witness:
  "map (snd (memmove 101 100 3 (\<lambda>a. ucast a))) [100, 101, 102, 103, 104] = [100, 100, 101, 102, 104 :: u8]"
  using memmove_any_overlap [of 101 3 100 "\<lambda>a. ucast a"] by simp

text \<open>C38. UInt64ToStringEx, in every base it accepts, leaves a terminated string of the length it returns, whose digits denote the number, after the requested zero padding; no byte outside the string is changed.\<close>

theorem number_text_roundtrip:
  assumes "p \<noteq> 0" "IsValidBase base" "0 \<le> padding" "unat p + 64 + nat padding < 2 ^ 64 - 1"
  shows "\<exists>t ds m'. UInt64ToStringEx value p base padding (of_char CHR ''0'') m = Done (word_of_nat (length t), m') \<and>
    cstring m' p t \<and> t = replicate (nat padding - length ds) (of_char CHR ''0'') @ digit_text ds \<and>
    digits_value (nat base) ds = unat value \<and> (\<forall>d \<in> set ds. d < nat base) \<and>
    (\<forall>a. unat a < unat p \<or> unat p + length t < unat a \<longrightarrow> m' a = m a)"
proof -
  let ?c = "of_char CHR ''0'' :: u8"
  define t where "t = format_text (nat base) padding ?c (unat value)"
  have base: "1 < nat base" "nat base \<le> 36" using assms(2) by (auto simp: IsValidBase_def)
  have len: "length t \<le> nat padding + 64" using length_format_text [OF base(1), of padding ?c "value"] by (simp add: t_def)
  have room: "unat p + length t < 2 ^ 64 - 1" using len assms(4) by linarith
  obtain ds where ds: "t = replicate (nat padding - length ds) ?c @ digit_text ds" "digits_value (nat base) ds = unat value" "\<forall>d \<in> set ds. d < nat base"
    using format_denotes [OF base(1), of padding ?c "unat value"] unfolding t_def by blast
  have nz: "0 \<notin> set t" using digit_text_nonzero [of ds] ds(3) base(2) by (fastforce simp: ds(1))
  have run: "UInt64ToStringEx value p base padding ?c m = Done (word_of_nat (length t), (store_bytes p t m)(p + word_of_nat (length t) := 0))"
    using UInt64ToStringEx_text [OF assms(1,2), of padding padding ?c "value" m] assms(3) room unfolding t_def by simp
  show ?thesis using run ds stored_string [where p = p and t = t and m = m] room nz by blast
qed

theorem number_text_roundtrip_witness:
  "\<exists>t ds m'. UInt64ToStringEx 255 4096 16 4 (of_char CHR ''0'') (\<lambda>_. 0) = Done (word_of_nat (length t), m') \<and>
    cstring m' 4096 t \<and> digits_value 16 ds = 255"
proof -
  have "\<exists>t ds m'. UInt64ToStringEx 255 4096 16 4 (of_char CHR ''0'') (\<lambda>_. 0) = Done (word_of_nat (length t), m') \<and>
    cstring m' 4096 t \<and> digits_value (nat 16) ds = unat (255 :: u64)"
    using number_text_roundtrip [of 4096 16 4 255 "\<lambda>_. 0"] by (simp only: IsValidBase_def) fastforce
  then show ?thesis by simp
qed



text \<open>C40. The calculator evaluates: for every expression whose value is defined and whose postfix form fits the stack, the lines of that form, with the numbers printed in decimal, leave exactly the value of the expression on the stack.\<close>

theorem calc_evaluates_postfix:
  assumes "\<And>s. length s \<le> EX_USER_SYSCALL_WRITE_MAX_LENGTH \<Longrightarrow> sw s = int (length s)" "calc_eval e = Some v" "stack_need e \<le> HO_CALC_STACK_CAPACITY"
  shows "\<exists>c. calc_main sw (map ReadLine (postfix_lines e)) calc_start = Done (CalcContinue c) \<and> StackDepth c = 1 \<and> CalcStack c ! 0 = v"
proof -
  have w: "writes_all sw" using assms(1) by (simp add: writes_all_def)
  obtain c' where c': "run_all (prompted_line sw) (postfix_lines e) calc_start = Done c'" "pushed v calc_start c'"
    using run_postfix [OF calc_ok_start w assms(2)] assms(3) by (auto simp: calc_start_def)
  have "take 1 (CalcStack c') = [v]" "StackDepth c' = 1" using c'(2) by (auto simp: pushed_def calc_start_def)
  then show ?thesis using calc_main_lines [OF w c'(1)] by (cases "CalcStack c'") auto
qed

theorem calc_evaluates_postfix_witness:
  "\<exists>c. calc_main (\<lambda>s. int (length s)) [ReadLine ''-7'', ReadLine ''2'', ReadLine ''/''] calc_start = Done (CalcContinue c) \<and> CalcStack c ! 0 = -3"
proof -
  have "calc_eval (Op CHR ''/'' (Num (-7)) (Num 2)) = Some (-3)" by (simp add: signed_divide_int_def)
  moreover have "postfix_lines (Op CHR ''/'' (Num (-7)) (Num 2)) = [''-7'', ''2'', ''/'']" by (simp add: int_text_def nat_digits.simps char_of_def bit_0)
  ultimately show ?thesis using calc_evaluates_postfix [of "\<lambda>s. int (length s)" "Op CHR ''/'' (Num (-7)) (Num 2)" "-3"]
    by (auto simp: HO_CALC_STACK_CAPACITY_def)
qed

end
